(* ===== verification/Prelude.thy ===== *)
theory Prelude
  imports Main "HOL-Library.Char_ord" "HOL-Library.List_Lexorder"
begin

text \<open>
  What every component of the development shares: Go strings as lists of bytes, the
  decimal conversions of \<^verbatim>\<open>strconv\<close>, Go's truncated integer remainder, error values,
  and the list lemmas the component proofs use.

  A Go \<^verbatim>\<open>string\<close> is a \<^typ>\<open>string\<close>: one \<^typ>\<open>char\<close> per byte, so \<^const>\<open>length\<close> is
  Go's \<^verbatim>\<open>len\<close>. A Go \<^verbatim>\<open>int\<close> is an \<^typ>\<open>int\<close>; where a conversion checks the 64-bit
  range (\<^verbatim>\<open>strconv.Atoi\<close>) the check is written out. An \<^verbatim>\<open>error\<close> is the left summand
  of a sum type, with one constructor \<open>Errorf\<close> that keeps the format and its arguments,
  so that two errors are equal exactly when they come from the same place with the same
  arguments.
\<close>

section \<open>Collections of facts\<close>

named_theorems wf_intros \<open>introduction rules for the well-formedness invariants\<close>
named_theorems step_simps \<open>characteristic equations of the operations\<close>

section \<open>Errors and fallible results\<close>

datatype fmt_arg = S string | I int

datatype message = Errorf string "fmt_arg list"

type_synonym 'a fallible = "message + 'a"

abbreviation (input) text_msg :: "string \<Rightarrow> message" where
  "text_msg s \<equiv> Errorf s []"

abbreviation is_ok :: "'e + 'a \<Rightarrow> bool" where
  "is_ok r \<equiv> \<not> isl r"

text \<open>A loop that stops at the first error and otherwise appends one result per element.\<close>

fun traverse :: "('a \<Rightarrow> 'e + 'b) \<Rightarrow> 'a list \<Rightarrow> 'e + 'b list" where
  "traverse f [] = Inr []"
| "traverse f (x # xs) =
     (case f x of Inl e \<Rightarrow> Inl e
      | Inr y \<Rightarrow> (case traverse f xs of Inl e \<Rightarrow> Inl e | Inr ys \<Rightarrow> Inr (y # ys)))"

lemma traverse_Inr_iff: "traverse f xs = Inr ys \<longleftrightarrow> map f xs = map Inr ys"
proof (induction xs arbitrary: ys)
  case (Cons x xs)
  show ?case
  proof (cases ys)
    case (Cons z zs)
    with Cons.IH [of zs] show ?thesis by (auto split: sum.split)
  qed (simp split: sum.split)
qed auto

lemma traverse_length: "traverse f xs = Inr ys \<Longrightarrow> length ys = length xs"
  by (metis traverse_Inr_iff length_map)

lemma traverse_nth: "traverse f xs = Inr ys \<Longrightarrow> i < length xs \<Longrightarrow> f (xs ! i) = Inr (ys ! i)"
  by (metis traverse_Inr_iff length_map nth_map)

lemma traverse_Inl: "traverse f xs = Inl e \<Longrightarrow> \<exists>x \<in> set xs. f x = Inl e"
  by (induction xs) (auto split: sum.splits)

section \<open>Go integers\<close>

text \<open>\<^verbatim>\<open>a % b\<close> takes the sign of the dividend.\<close>

definition go_rem :: "int \<Rightarrow> int \<Rightarrow> int" where
  "go_rem a b = sgn a * (\<bar>a\<bar> mod \<bar>b\<bar>)"

lemma go_rem_nonneg [simp]: "0 \<le> a \<Longrightarrow> 0 < b \<Longrightarrow> go_rem a b = a mod b"
  by (cases "a = 0") (simp_all add: go_rem_def sgn_if)

section \<open>Decimal conversions\<close>

definition is_digit :: "char \<Rightarrow> bool" where
  "is_digit c \<longleftrightarrow> 48 \<le> (of_char c :: int) \<and> of_char c \<le> (57 :: int)"

definition digit_val :: "char \<Rightarrow> int" where
  "digit_val c = of_char c - 48"

definition digit_char :: "int \<Rightarrow> char" where
  "digit_char d = char_of (48 + d)"

definition dec_val :: "string \<Rightarrow> int" where
  "dec_val s = foldl (\<lambda>n c. 10 * n + digit_val c) 0 s"

text \<open>\<^verbatim>\<open>strconv.Itoa\<close> on a non-negative argument, and on any argument.\<close>

function nat_text :: "int \<Rightarrow> string" where
  "nat_text n = (if n < 10 then [digit_char n] else nat_text (n div 10) @ [digit_char (n mod 10)])"
  by pat_completeness auto
termination
  by (relation "measure nat") auto

declare nat_text.simps [simp del]

definition itoa :: "int \<Rightarrow> string" where
  "itoa i = (if i < 0 then CHR ''-'' # nat_text (- i) else nat_text i)"

text \<open>\<^verbatim>\<open>strconv.Atoi\<close>: an optional sign, digits only, and the 64-bit range; \<^const>\<open>None\<close> is its error.\<close>

definition atoi :: "string \<Rightarrow> int option" where
  "atoi s =
     (let neg = (take 1 s = ''-'');
          ds = (if take 1 s = ''-'' \<or> take 1 s = ''+'' then drop 1 s else s)
      in if ds = [] \<or> \<not> list_all is_digit ds then None
         else if neg then (if dec_val ds \<le> 2 ^ 63 then Some (- dec_val ds) else None)
         else if dec_val ds < 2 ^ 63 then Some (dec_val ds) else None)"

lemma of_char_digit_char: "0 \<le> d \<Longrightarrow> d < 10 \<Longrightarrow> (of_char (digit_char d) :: int) = 48 + d"
  by (simp add: digit_char_def)

lemma is_digit_digit_char [simp]: "0 \<le> d \<Longrightarrow> d < 10 \<Longrightarrow> is_digit (digit_char d)"
  by (simp add: is_digit_def of_char_digit_char)

lemma digit_val_digit_char [simp]: "0 \<le> d \<Longrightarrow> d < 10 \<Longrightarrow> digit_val (digit_char d) = d"
  by (simp add: digit_val_def of_char_digit_char)

lemma digit_val_range: "is_digit c \<Longrightarrow> 0 \<le> digit_val c \<and> digit_val c \<le> 9"
  by (simp add: is_digit_def digit_val_def)

lemma dec_val_append_digit [simp]: "dec_val (s @ [c]) = 10 * dec_val s + digit_val c"
  by (simp add: dec_val_def)

lemma dec_val_single [simp]: "dec_val [c] = digit_val c"
  by (simp add: dec_val_def)

lemma dec_val_nonneg: "list_all is_digit s \<Longrightarrow> 0 \<le> dec_val s"
proof (induction s rule: rev_induct)
  case (snoc c s)
  then show ?case using digit_val_range [of c] by simp
qed (simp add: dec_val_def)

lemma nat_text_digits: "0 \<le> n \<Longrightarrow> list_all is_digit (nat_text n)"
  by (induction n rule: nat_text.induct) (subst nat_text.simps, auto)

lemma nat_text_nonempty [simp]: "nat_text n \<noteq> []"
  by (subst nat_text.simps) simp

lemma dec_val_nat_text [simp]: "0 \<le> n \<Longrightarrow> dec_val (nat_text n) = n"
proof (induction n rule: nat_text.induct)
  case (1 n)
  then show ?case by (subst nat_text.simps) auto
qed

lemma nat_text_inj: "0 \<le> a \<Longrightarrow> 0 \<le> b \<Longrightarrow> nat_text a = nat_text b \<longleftrightarrow> a = b"
  by (metis dec_val_nat_text)

lemma digit_not_sign: "is_digit c \<Longrightarrow> c \<noteq> CHR ''-'' \<and> c \<noteq> CHR ''+''"
  by (auto simp: is_digit_def)

lemma nat_text_hd: "0 \<le> n \<Longrightarrow> \<exists>c cs. nat_text n = c # cs \<and> is_digit c"
  using nat_text_digits [of n] nat_text_nonempty [of n] by (cases "nat_text n") auto

lemma atoi_digits:
  assumes "list_all is_digit s" and "s \<noteq> []" and "dec_val s < 2 ^ 63"
  shows "atoi s = Some (dec_val s)"
proof -
  from assms obtain c cs where s: "s = c # cs" and "is_digit c" by (cases s) auto
  with digit_not_sign have "take 1 s \<noteq> ''-''" "take 1 s \<noteq> ''+''" by auto
  with assms show ?thesis by (auto simp: atoi_def)
qed

lemma itoa_nonneg: "0 \<le> i \<Longrightarrow> itoa i = nat_text i"
  by (simp add: itoa_def)

lemma atoi_itoa: "0 \<le> i \<Longrightarrow> i < 2 ^ 63 \<Longrightarrow> atoi (itoa i) = Some i"
  using atoi_digits [of "nat_text i"] by (simp add: itoa_nonneg nat_text_digits)

lemma itoa_inj: "0 \<le> i \<Longrightarrow> 0 \<le> j \<Longrightarrow> itoa i = itoa j \<longleftrightarrow> i = j"
  by (simp add: itoa_nonneg nat_text_inj)

text \<open>The \<^verbatim>\<open>%0wd\<close> verb: zero padding to a width, the sign counted in it.\<close>

definition pad0 :: "nat \<Rightarrow> string \<Rightarrow> string" where
  "pad0 w s = replicate (w - length s) CHR ''0'' @ s"

definition fmt_0d :: "nat \<Rightarrow> int \<Rightarrow> string" where
  "fmt_0d w i = (if i < 0 then CHR ''-'' # pad0 (w - 1) (nat_text (- i)) else pad0 w (nat_text i))"

lemma dec_val_Cons_0 [simp]: "dec_val (CHR ''0'' # s) = dec_val s"
  by (simp add: dec_val_def digit_val_def)

lemma dec_val_zeros [simp]: "dec_val (replicate k CHR ''0'' @ s) = dec_val s"
  by (induction k) simp_all

lemma dec_val_pad0 [simp]: "dec_val (pad0 w s) = dec_val s"
  by (simp add: pad0_def)

lemma is_digit_0 [simp]: "is_digit CHR ''0''"
  by (simp add: is_digit_def)

lemma pad0_digits: "list_all is_digit s \<Longrightarrow> list_all is_digit (pad0 w s)"
  by (auto simp: pad0_def list_all_iff)

lemma length_pad0: "length s \<le> w \<Longrightarrow> length (pad0 w s) = w"
  by (simp add: pad0_def)

lemma length_nat_text: "0 \<le> n \<Longrightarrow> n < 10 ^ k \<Longrightarrow> 0 < k \<Longrightarrow> length (nat_text n) \<le> k"
proof (induction n arbitrary: k rule: nat_text.induct)
  case (1 n)
  show ?case
  proof (cases "n < 10")
    case True
    with 1 show ?thesis by (subst nat_text.simps) simp
  next
    case False
    with 1 obtain i where k: "k = Suc i" by (cases k) auto
    with 1 False have i: "0 < i" "n div 10 < 10 ^ i" by (cases i; auto)+
    with 1 False have "length (nat_text (n div 10)) \<le> i" by auto
    with False k show ?thesis by (subst nat_text.simps) simp
  qed
qed

section \<open>Lists\<close>

text \<open>Consecutive elements of a list are related: the shape of every tiling statement.\<close>

fun chained :: "('a \<Rightarrow> 'a \<Rightarrow> bool) \<Rightarrow> 'a list \<Rightarrow> bool" where
  "chained R [] = True"
| "chained R [x] = True"
| "chained R (x # y # zs) = (R x y \<and> chained R (y # zs))"

lemma chained_Cons: "chained R (x # xs) \<longleftrightarrow> (xs = [] \<or> R x (hd xs) \<and> chained R xs)"
  by (cases xs) auto

lemma chained_append_single:
  "chained R (xs @ [x]) \<longleftrightarrow> chained R xs \<and> (xs = [] \<or> R (last xs) x)"
  by (induction xs rule: induct_list012) auto

lemma chained_nth:
  "chained R xs \<longleftrightarrow> (\<forall>i. Suc i < length xs \<longrightarrow> R (xs ! i) (xs ! Suc i))"
proof (induction xs rule: induct_list012)
  case (3 x y zs)
  then show ?case by (auto simp: nth_Cons split: nat.splits)
qed auto

lemma chained_map: "chained R (map f xs) \<longleftrightarrow> chained (\<lambda>a b. R (f a) (f b)) xs"
  by (induction xs rule: induct_list012) auto

end
