(* ===== verification/CivilTime.thy ===== *)
theory CivilTime
  imports Prelude
begin

text \<open>
  Civil dates (\<^verbatim>\<open>src/shared/dateonly/date.go\<close>) and the part of Go's \<^verbatim>\<open>time\<close> package the
  program uses for calendar arithmetic. Every instant the modelled code builds is a midnight
  UTC, so a \<^verbatim>\<open>time.Time\<close> is the number of days since 1 January of year 1 (proleptic
  Gregorian). \<open>go_Date\<close> is \<^verbatim>\<open>time.Date\<close> with its normalisation of out-of-range months and
  days, \<open>go_civil\<close> is \<^verbatim>\<open>Time.Date()\<close>, \<open>go_Weekday\<close> numbers Sunday 0. The theory shows
  that the two are mutually inverse, so that dates can be compared and moved through their
  day numbers.
\<close>

section \<open>The \<^verbatim>\<open>time\<close> package on midnights UTC\<close>

type_synonym go_time = int

definition is_leap :: "int \<Rightarrow> bool" where
  "is_leap y \<longleftrightarrow> y mod 4 = 0 \<and> (y mod 100 \<noteq> 0 \<or> y mod 400 = 0)"

definition days_before_year :: "int \<Rightarrow> int" where
  "days_before_year y = (let p = y - 1 in 365 * p + p div 4 - p div 100 + p div 400)"

definition month_len :: "bool \<Rightarrow> int \<Rightarrow> int" where
  "month_len leap m =
     (if m = 2 then (if leap then 29 else 28)
      else if m = 4 \<or> m = 6 \<or> m = 9 \<or> m = 11 then 30 else 31)"

definition days_before_month :: "bool \<Rightarrow> int \<Rightarrow> int" where
  "days_before_month leap m =
     [0, 31, 59, 90, 120, 151, 181, 212, 243, 273, 304, 334] ! nat (m - 1)
     + (if leap \<and> 2 < m then 1 else 0)"

definition go_Date :: "int \<Rightarrow> int \<Rightarrow> int \<Rightarrow> go_time" where
  "go_Date y m d =
     (let y' = y + (m - 1) div 12; m' = (m - 1) mod 12 + 1
      in days_before_year y' + days_before_month (is_leap y') m' + (d - 1))"

text \<open>The inverse: split the day number into 400-, 100-, 4- and 1-year cycles.\<close>

definition year_doy :: "go_time \<Rightarrow> int \<times> int" where
  "year_doy t =
     (let a = t div 146097; r = t mod 146097;
          b = min 3 (r div 36524); r2 = r - 36524 * b;
          c = r2 div 1461; r3 = r2 mod 1461;
          d = min 3 (r3 div 365)
      in (400 * a + 100 * b + 4 * c + d + 1, r3 - 365 * d))"

fun month_day :: "bool \<Rightarrow> int list \<Rightarrow> int \<Rightarrow> int \<times> int" where
  "month_day leap [] doy = (12, doy + 1)"
| "month_day leap (m # ms) doy =
     (if doy < month_len leap m then (m, doy + 1) else month_day leap ms (doy - month_len leap m))"

definition go_civil :: "go_time \<Rightarrow> int \<times> int \<times> int" where
  "go_civil t =
     (let (y, doy) = year_doy t
      in (y, month_day (is_leap y) [1, 2, 3, 4, 5, 6, 7, 8, 9, 10, 11, 12] doy))"

definition go_AddDate :: "go_time \<Rightarrow> int \<Rightarrow> int \<Rightarrow> int \<Rightarrow> go_time" where
  "go_AddDate t years months days =
     (case go_civil t of (y, m, d) \<Rightarrow> go_Date (y + years) (m + months) (d + days))"

definition go_Weekday :: "go_time \<Rightarrow> int" where
  "go_Weekday t = (t + 1) mod 7"

text \<open>
  \<^verbatim>\<open>b.Sub(a)\<close> saturates at the 64-bit nanosecond range, which holds 106751 whole days on
  either side; \<^verbatim>\<open>Hours() / 24\<close> truncated is then the number of days.
\<close>

definition go_days_between :: "go_time \<Rightarrow> go_time \<Rightarrow> int" where
  "go_days_between a b = max (- 106751) (min 106751 (b - a))"

section \<open>\<^verbatim>\<open>dateonly.Date\<close>\<close>

record date =
  Year :: int
  Month :: int
  Day :: int

definition New :: "int \<Rightarrow> int \<Rightarrow> int \<Rightarrow> date" where
  "New y m d = \<lparr>Year = y, Month = m, Day = d\<rparr>"

definition FromTime :: "go_time \<Rightarrow> date" where
  "FromTime t = (case go_civil t of (y, m, d) \<Rightarrow> \<lparr>Year = y, Month = m, Day = d\<rparr>)"

definition Time :: "date \<Rightarrow> go_time" where
  "Time d = go_Date (Year d) (Month d) (Day d)"

definition zero_date :: date where
  "zero_date = \<lparr>Year = 0, Month = 0, Day = 0\<rparr>"

definition IsZero :: "date \<Rightarrow> bool" where
  "IsZero d \<longleftrightarrow> d = zero_date"

definition valid_date :: "date \<Rightarrow> bool" where
  "valid_date d \<longleftrightarrow> 1 \<le> Month d \<and> Month d \<le> 12 \<and> 1 \<le> Day d \<and>
     Day d \<le> month_len (is_leap (Year d)) (Month d)"

section \<open>\<^const>\<open>go_Date\<close> and \<^const>\<open>go_civil\<close> are inverse\<close>

lemma month_cases:
  fixes m :: int
  assumes "1 \<le> m" and "m \<le> 12"
  obtains "m = 1" | "m = 2" | "m = 3" | "m = 4" | "m = 5" | "m = 6"
    | "m = 7" | "m = 8" | "m = 9" | "m = 10" | "m = 11" | "m = 12"
  using assms by (smt (verit))

lemma month_len_bounds: "28 \<le> month_len l m \<and> month_len l m \<le> 31"
  by (simp add: month_len_def)

lemma month_len_pos [simp]: "0 < month_len l m" "1 \<le> month_len l m"
  by (simp_all add: month_len_def)

lemma days_before_month_next:
  assumes "1 \<le> m" and "m < 12"
  shows "days_before_month l (m + 1) = days_before_month l m + month_len l m"
proof -
  have "m \<le> 12" using assms by simp
  with assms(1) show ?thesis
    using assms(2)
    by (cases rule: month_cases) (simp_all add: days_before_month_def month_len_def)
qed

lemma days_before_month_last: "days_before_month l 12 + month_len l 12 = (if l then 366 else 365)"
  by (simp add: days_before_month_def month_len_def)

lemma days_before_month_1 [simp]: "days_before_month l 1 = 0"
  by (simp add: days_before_month_def)

lemma month_day_days_before:
  assumes "1 \<le> m" "m \<le> 12" "1 \<le> d" "d \<le> month_len l m"
  shows "month_day l [1, 2, 3, 4, 5, 6, 7, 8, 9, 10, 11, 12] (days_before_month l m + (d - 1)) = (m, d)"
  using assms
  by (cases l; cases rule: month_cases [OF assms(1,2)])
    (simp_all add: days_before_month_def month_len_def)

lemma month_day_from:
  assumes "k \<le> 12"
  shows "1 \<le> k \<Longrightarrow> 0 \<le> x \<Longrightarrow> days_before_month l k + x < (if l then 366 else 365) \<Longrightarrow>
    month_day l [k..12] x = (m, d) \<Longrightarrow>
    1 \<le> m \<and> m \<le> 12 \<and> 1 \<le> d \<and> d \<le> month_len l m \<and> days_before_month l m + (d - 1) = days_before_month l k + x"
  using assms
proof (induction k arbitrary: x rule: int_le_induct)
  case base
  have "[12..12] = [12 :: int]" by simp
  with base.prems show ?case
    using days_before_month_last [of l] by (simp split: if_splits)
next
  case (step i)
  have list: "[i - 1..12] = (i - 1) # [i..12]" using step.hyps by (simp add: upto_rec1)
  have nxt: "days_before_month l i = days_before_month l (i - 1) + month_len l (i - 1)"
    using days_before_month_next [of "i - 1" l] step.prems(1) step.hyps by simp
  show ?case
  proof (cases "x < month_len l (i - 1)")
    case True
    with step.prems step.hyps list show ?thesis by auto
  next
    case False
    with step.prems list have "month_day l [i..12] (x - month_len l (i - 1)) = (m, d)" by simp
    with step.IH [of "x - month_len l (i - 1)"] False step.prems nxt show ?thesis by auto
  qed
qed

lemma upto_months: "[1..12] = [1, 2, 3, 4, 5, 6, 7, 8, 9, 10, 11, 12 :: int]"
  by (simp add: upto_rec1)

lemma month_day_inv:
  assumes "0 \<le> doy" "doy < (if l then 366 else 365)"
    and "month_day l [1, 2, 3, 4, 5, 6, 7, 8, 9, 10, 11, 12] doy = (m, d)"
  shows "1 \<le> m \<and> m \<le> 12 \<and> 1 \<le> d \<and> d \<le> month_len l m \<and> days_before_month l m + (d - 1) = doy"
  using month_day_from [of 1 doy l m d] assms by (simp add: upto_months)

declare month_day.simps [simp del]

text \<open>A year of the 400-year cycle, and the days before it.\<close>

lemma div_mod_decomp:
  fixes x k q r :: int
  assumes "x = k * q + r" "0 \<le> r" "r < k"
  shows "x div k = q" "x mod k = r"
  using assms by (auto intro: int_div_pos_eq int_mod_pos_eq)

lemma days_before_year_cycle:
  assumes "0 \<le> b" "b \<le> 3" "0 \<le> c" "c \<le> 24" "0 \<le> d" "d \<le> 3"
  shows "days_before_year (400 * a + 100 * b + 4 * c + d + 1) = 146097 * a + 36524 * b + 1461 * c + 365 * d"
proof -
  let ?p = "400 * a + 100 * b + 4 * c + d"
  have "?p div 4 = 100 * a + 25 * b + c"
    by (rule div_mod_decomp(1) [where r = d]) (use assms in auto)
  moreover have "?p div 100 = 4 * a + b"
    by (rule div_mod_decomp(1) [where r = "4 * c + d"]) (use assms in auto)
  moreover have "?p div 400 = a"
    by (rule div_mod_decomp(1) [where r = "100 * b + 4 * c + d"]) (use assms in auto)
  ultimately show ?thesis by (simp add: days_before_year_def Let_def)
qed

lemma is_leap_cycle:
  assumes "0 \<le> b" "b \<le> 3" "0 \<le> c" "c \<le> 24" "0 \<le> d" "d \<le> 3"
  shows "is_leap (400 * a + 100 * b + 4 * c + d + 1) \<longleftrightarrow> d = 3 \<and> (c = 24 \<longrightarrow> b = 3)"
proof -
  let ?y = "400 * a + 100 * b + 4 * c + d + 1"
  have "?y mod 4 = 0 \<longleftrightarrow> d = 3"
  proof (cases "d = 3")
    case True
    then show ?thesis
      using div_mod_decomp(2) [of ?y 4 "100 * a + 25 * b + c + 1" 0] by simp
  next
    case False
    then show ?thesis
      using assms div_mod_decomp(2) [of ?y 4 "100 * a + 25 * b + c" "d + 1"] by simp
  qed
  moreover have "?y mod 100 = 0 \<longleftrightarrow> c = 24 \<and> d = 3"
  proof (cases "c = 24 \<and> d = 3")
    case True
    then show ?thesis
      using div_mod_decomp(2) [of ?y 100 "4 * a + b + 1" 0] by simp
  next
    case False
    then have "4 * c + d + 1 < 100" using assms by linarith
    with False show ?thesis
      using assms div_mod_decomp(2) [of ?y 100 "4 * a + b" "4 * c + d + 1"] by simp
  qed
  moreover have "?y mod 400 = 0 \<longleftrightarrow> b = 3 \<and> c = 24 \<and> d = 3"
  proof (cases "b = 3 \<and> c = 24 \<and> d = 3")
    case True
    then show ?thesis
      using div_mod_decomp(2) [of ?y 400 "a + 1" 0] by simp
  next
    case False
    then have "100 * b + 4 * c + d + 1 < 400" using assms by linarith
    with False show ?thesis
      using assms div_mod_decomp(2) [of ?y 400 a "100 * b + 4 * c + d + 1"] by simp
  qed
  ultimately show ?thesis by (auto simp: is_leap_def)
qed

lemma year_cycle:
  fixes y :: int
  obtains a b c d where "0 \<le> b" "b \<le> 3" "0 \<le> c" "c \<le> 24" "0 \<le> d" "d \<le> 3"
    "y = 400 * a + 100 * b + 4 * c + d + 1"
proof -
  define q where "q = (y - 1) mod 400"
  define r where "r = q mod 100"
  have q: "0 \<le> q" "q < 400" and y: "y - 1 = 400 * ((y - 1) div 400) + q"
    by (simp_all add: q_def)
  have r: "0 \<le> r" "r < 100" and q': "q = 100 * (q div 100) + r"
    by (simp_all add: r_def)
  have "r = 4 * (r div 4) + r mod 4" by simp
  with y q' have "y = 400 * ((y - 1) div 400) + 100 * (q div 100) + 4 * (r div 4) + r mod 4 + 1"
    by linarith
  moreover have "0 \<le> q div 100" "q div 100 \<le> 3" using q q' r by linarith+
  moreover have "0 \<le> r div 4" "r div 4 \<le> 24" using r by linarith+
  moreover have "0 \<le> r mod 4" "r mod 4 \<le> 3" by simp_all
  ultimately show ?thesis using that by blast
qed

lemma year_doy_days_before:
  assumes "0 \<le> doy" "doy < (if is_leap y then 366 else 365)"
  shows "year_doy (days_before_year y + doy) = (y, doy)"
proof -
  obtain a b c d where bounds: "0 \<le> b" "b \<le> 3" "0 \<le> c" "c \<le> 24" "0 \<le> d" "d \<le> 3"
    and y: "y = 400 * a + 100 * b + 4 * c + d + 1" by (rule year_cycle)
  let ?t = "days_before_year y + doy"
  have t: "?t = 146097 * a + (36524 * b + 1461 * c + 365 * d + doy)"
    using days_before_year_cycle [OF bounds, of a] y by simp
  have leap: "is_leap y \<longleftrightarrow> d = 3 \<and> (c = 24 \<longrightarrow> b = 3)"
    using is_leap_cycle [OF bounds, of a] y by simp
  have r3: "365 * d + doy \<le> 1460" "365 * d + doy = 1460 \<Longrightarrow> d = 3 \<and> (c = 24 \<longrightarrow> b = 3)"
    using assms bounds leap by (auto split: if_splits)
  have r2: "1461 * c + 365 * d + doy < 36524 \<or> b = 3 \<and> 1461 * c + 365 * d + doy = 36524"
    using r3 bounds by auto
  have r: "0 \<le> 36524 * b + 1461 * c + 365 * d + doy" "36524 * b + 1461 * c + 365 * d + doy < 146097"
    using r2 bounds assms by auto
  have a: "?t div 146097 = a" and m: "?t mod 146097 = 36524 * b + 1461 * c + 365 * d + doy"
    using div_mod_decomp [OF t] r by auto
  have b: "min 3 ((36524 * b + 1461 * c + 365 * d + doy) div 36524) = b"
    using r2 bounds assms by auto
  have c: "(1461 * c + (365 * d + doy)) div 1461 = c" "(1461 * c + (365 * d + doy)) mod 1461 = 365 * d + doy"
    using r3 bounds assms by auto
  have d: "min 3 ((365 * d + doy) div 365) = d"
    using r3 bounds assms leap by (auto split: if_splits)
  show ?thesis
    unfolding year_doy_def Let_def a m b using c d y by (simp add: algebra_simps)
qed

text \<open>A quotient capped at 3: the remainder is below the divisor, except in the capped cycle.\<close>

lemma capped_div:
  fixes x k :: int
  assumes "0 \<le> x" "x \<le> 4 * k" "0 < k"
  shows "0 \<le> min 3 (x div k)" "min 3 (x div k) \<le> 3" "0 \<le> x - k * min 3 (x div k)"
    "x - k * min 3 (x div k) < k \<or> min 3 (x div k) = 3 \<and> x - k * min 3 (x div k) \<le> k"
proof -
  have q0: "0 \<le> x div k" using assms by (simp add: pos_imp_zdiv_nonneg_iff)
  have q: "x = k * (x div k) + x mod k" by simp
  have m: "0 \<le> x mod k" "x mod k < k" using assms by simp_all
  show "0 \<le> min 3 (x div k)" "min 3 (x div k) \<le> 3" using q0 by simp_all
  have "0 \<le> x - k * min 3 (x div k) \<and>
    (x - k * min 3 (x div k) < k \<or> min 3 (x div k) = 3 \<and> x - k * min 3 (x div k) \<le> k)"
  proof (cases "x div k \<le> 3")
    case True
    then have "min 3 (x div k) = x div k" by simp
    then have "x - k * min 3 (x div k) = x mod k" by (simp add: minus_mult_div_eq_mod)
    then show ?thesis using m by simp
  next
    case False
    then have mn: "min 3 (x div k) = 3" by simp
    have "k * 4 \<le> k * (x div k)" using False assms by (intro mult_left_mono) auto
    then have "3 * k \<le> x" using q m assms by linarith
    then show ?thesis using assms mn by simp
  qed
  then show "0 \<le> x - k * min 3 (x div k)"
    "x - k * min 3 (x div k) < k \<or> min 3 (x div k) = 3 \<and> x - k * min 3 (x div k) \<le> k"
    by blast+
qed

lemma year_doy_inv:
  assumes "year_doy t = (y, doy)"
  shows "0 \<le> doy" and "doy < (if is_leap y then 366 else 365)" and "days_before_year y + doy = t"
proof -
  define a r where "a = t div 146097" and "r = t mod 146097"
  define b r2 where "b = min 3 (r div 36524)" and "r2 = r - 36524 * b"
  define c r3 where "c = r2 div 1461" and "r3 = r2 mod 1461"
  define d where "d = min 3 (r3 div 365)"
  have "year_doy t = (400 * a + 100 * b + 4 * c + d + 1, r3 - 365 * d)"
    unfolding year_doy_def Let_def a_def r_def b_def r2_def c_def r3_def d_def by (rule refl)
  with assms have y: "y = 400 * a + 100 * b + 4 * c + d + 1" and doy: "doy = r3 - 365 * d" by simp_all
  have r: "0 \<le> r" "r < 146097" and t: "t = 146097 * a + r" by (simp_all add: a_def r_def)
  have b: "0 \<le> b" "b \<le> 3" "0 \<le> r2" "r2 < 36524 \<or> b = 3 \<and> r2 \<le> 36524"
    using capped_div [of r 36524] r unfolding b_def r2_def by linarith+
  have qc: "r2 = 1461 * c + r3" "0 \<le> r3" "r3 < 1461"
    unfolding c_def r3_def by simp_all
  have c: "0 \<le> c" "c \<le> 24" using b qc by linarith+
  have "r3 \<le> 4 * 365" "0 < (365::int)" using qc(3) by simp_all
  note cap = capped_div [OF qc(2) this]
  have d: "0 \<le> d" "d \<le> 3" "0 \<le> doy" "doy < 365 \<or> d = 3 \<and> doy \<le> 365"
    using cap unfolding doy d_def by blast+
  have last: "d = 3 \<and> (c = 24 \<longrightarrow> b = 3)" if "doy = 365"
    using that d b qc doy by auto
  note cyc = b(1,2) c d(1,2)
  show "0 \<le> doy" by (rule d)
  show "doy < (if is_leap y then 366 else 365)"
    using d(4) last is_leap_cycle [OF cyc, of a] y by (cases "doy = 365") auto
  show "days_before_year y + doy = t"
    unfolding y days_before_year_cycle [OF cyc, of a] using doy t r2_def qc(1) by linarith
qed

lemma days_before_year_Suc: "days_before_year (y + 1) = days_before_year y + (if is_leap y then 366 else 365)"
proof -
  obtain a b c d where bounds: "0 \<le> b" "b \<le> 3" "0 \<le> c" "c \<le> 24" "0 \<le> d" "d \<le> 3"
    and y: "y = 400 * a + 100 * b + 4 * c + d + 1" by (rule year_cycle)
  have leap: "is_leap y \<longleftrightarrow> d = 3 \<and> (c = 24 \<longrightarrow> b = 3)"
    using is_leap_cycle [OF bounds, of a] y by simp
  have at: "days_before_year y = 146097 * a + 36524 * b + 1461 * c + 365 * d"
    using days_before_year_cycle [OF bounds, of a] y by simp
  consider "d < 3" | "d = 3" "c < 24" | "d = 3" "c = 24" "b < 3" | "d = 3" "c = 24" "b = 3"
    using bounds by linarith
  then show ?thesis
  proof cases
    case 1
    have "y + 1 = 400 * a + 100 * b + 4 * c + (d + 1) + 1" using y by simp
    then have "days_before_year (y + 1) = 146097 * a + 36524 * b + 1461 * c + 365 * (d + 1)"
      using days_before_year_cycle [of b c "d + 1" a] bounds 1 by (simp only:)
    with at leap 1 show ?thesis by simp
  next
    case 2
    have "y + 1 = 400 * a + 100 * b + 4 * (c + 1) + 0 + 1" using y 2 by simp
    then have "days_before_year (y + 1) = 146097 * a + 36524 * b + 1461 * (c + 1) + 365 * 0"
      using days_before_year_cycle [of b "c + 1" 0 a] bounds 2 by (simp only:)
    with at leap 2 show ?thesis by simp
  next
    case 3
    have "y + 1 = 400 * a + 100 * (b + 1) + 4 * 0 + 0 + 1" using y 3 by simp
    then have "days_before_year (y + 1) = 146097 * a + 36524 * (b + 1) + 1461 * 0 + 365 * 0"
      using days_before_year_cycle [of "b + 1" 0 0 a] bounds 3 by (simp only:)
    with at leap 3 show ?thesis by simp
  next
    case 4
    have "y + 1 = 400 * (a + 1) + 100 * 0 + 4 * 0 + 0 + 1" using y 4 by simp
    then have "days_before_year (y + 1) = 146097 * (a + 1) + 36524 * 0 + 1461 * 0 + 365 * 0"
      using days_before_year_cycle [of 0 0 0 "a + 1"] by (simp only:)
    with at leap 4 show ?thesis by simp
  qed
qed

lemma days_before_month_bound:
  assumes "1 \<le> m" "m \<le> 12"
  shows "0 \<le> days_before_month l m" and "days_before_month l m + month_len l m \<le> (if l then 366 else 365)"
proof -
  show "0 \<le> days_before_month l m"
    by (cases rule: month_cases [OF assms]) (simp_all add: days_before_month_def)
  show "days_before_month l m + month_len l m \<le> (if l then 366 else 365)"
    by (cases rule: month_cases [OF assms]) (simp_all add: days_before_month_def month_len_def)
qed

lemma go_Date_valid:
  assumes "1 \<le> m" "m \<le> 12"
  shows "go_Date y m d = days_before_year y + days_before_month (is_leap y) m + (d - 1)"
proof -
  have "(m - 1) div 12 = 0" "(m - 1) mod 12 = m - 1"
    using assms by (simp_all add: div_pos_pos_trivial mod_pos_pos_trivial)
  then show ?thesis by (simp add: go_Date_def)
qed

lemma go_civil_go_Date:
  assumes "1 \<le> m" "m \<le> 12" "1 \<le> d" "d \<le> month_len (is_leap y) m"
  shows "go_civil (go_Date y m d) = (y, m, d)"
proof -
  let ?doy = "days_before_month (is_leap y) m + (d - 1)"
  have "0 \<le> ?doy" "?doy < (if is_leap y then 366 else 365)"
    using days_before_month_bound [OF assms(1,2), of "is_leap y"] assms(3,4) by linarith+
  then have "year_doy (days_before_year y + ?doy) = (y, ?doy)" by (rule year_doy_days_before)
  moreover have "go_Date y m d = days_before_year y + ?doy"
    using go_Date_valid [OF assms(1,2)] by simp
  ultimately show ?thesis
    using month_day_days_before [OF assms] by (simp add: go_civil_def)
qed

lemma go_civil_valid:
  assumes "go_civil t = (y, m, d)"
  shows "1 \<le> m \<and> m \<le> 12 \<and> 1 \<le> d \<and> d \<le> month_len (is_leap y) m \<and> go_Date y m d = t"
proof -
  obtain y' doy where yd: "year_doy t = (y', doy)" by force
  with assms have y: "y' = y" and md: "month_day (is_leap y) [1, 2, 3, 4, 5, 6, 7, 8, 9, 10, 11, 12] doy = (m, d)"
    by (auto simp: go_civil_def)
  note inv = year_doy_inv [OF yd, unfolded y]
  from month_day_inv [OF inv(1,2) md]
  have "1 \<le> m" "m \<le> 12" "1 \<le> d" "d \<le> month_len (is_leap y) m"
    "days_before_month (is_leap y) m + (d - 1) = doy" by auto
  then show ?thesis using go_Date_valid [of m y d] inv(3) by simp
qed

lemma go_AddDate_days [simp]: "go_AddDate t 0 0 k = t + k"
proof -
  obtain y m d where ymd: "go_civil t = (y, m, d)" by (cases "go_civil t") auto
  from go_civil_valid [OF ymd] show ?thesis
    by (auto simp: go_AddDate_def ymd go_Date_valid)
qed

lemma go_Weekday_range: "0 \<le> go_Weekday t \<and> go_Weekday t \<le> 6"
  by (simp add: go_Weekday_def)

section \<open>Dates and their day numbers\<close>

lemma Time_FromTime [simp]: "Time (FromTime t) = t"
  by (cases "go_civil t") (use go_civil_valid in \<open>auto simp: FromTime_def Time_def\<close>)

lemma valid_FromTime [simp]: "valid_date (FromTime t)"
  by (cases "go_civil t") (use go_civil_valid in \<open>auto simp: FromTime_def valid_date_def\<close>)

lemma FromTime_Time: "valid_date d \<Longrightarrow> FromTime (Time d) = d"
  by (simp add: valid_date_def FromTime_def Time_def go_civil_go_Date)

lemma valid_date_month_len: "valid_date d \<Longrightarrow> Day d \<le> 31"
  using month_len_bounds by (force simp: valid_date_def intro: order_trans)

lemma FromTime_eq_iff: "FromTime s = FromTime t \<longleftrightarrow> s = t"
  by (metis Time_FromTime)

lemma Time_inj: "valid_date a \<Longrightarrow> valid_date b \<Longrightarrow> Time a = Time b \<longleftrightarrow> a = b"
  by (metis FromTime_Time)

lemma Time_year_range:
  assumes "valid_date d"
  shows "days_before_year (Year d) \<le> Time d" and "Time d < days_before_year (Year d + 1)"
proof -
  have m: "1 \<le> Month d" "Month d \<le> 12" and "1 \<le> Day d" "Day d \<le> month_len (is_leap (Year d)) (Month d)"
    using assms by (auto simp: valid_date_def)
  with days_before_month_bound [OF m, of "is_leap (Year d)"]
  show "days_before_year (Year d) \<le> Time d" "Time d < days_before_year (Year d + 1)"
    by (auto simp: Time_def go_Date_valid days_before_year_Suc)
qed

lemma days_before_year_mono: "a \<le> b \<Longrightarrow> days_before_year a \<le> days_before_year b"
proof (induction b rule: int_ge_induct)
  case (step i)
  then show ?case by (auto simp: days_before_year_Suc)
qed simp

lemma Time_less_Year:
  assumes "valid_date a" "valid_date b" "Year a < Year b"
  shows "Time a < Time b"
  using Time_year_range(2) [OF assms(1)] Time_year_range(1) [OF assms(2)]
    days_before_year_mono [of "Year a + 1" "Year b"] assms(3) by linarith

section \<open>Text form, JSON and database scanning\<close>

definition date_String :: "date \<Rightarrow> string" where
  "date_String d = fmt_0d 4 (Year d) @ ''-'' @ fmt_0d 2 (Month d) @ ''-'' @ fmt_0d 2 (Day d)"

text \<open>
  \<^verbatim>\<open>time.Parse("2006-01-02", v)\<close> on a ten-byte value: digits and separators at fixed places, a
  month of the year and a day of that month.
\<close>

definition time_Parse_layout :: "string \<Rightarrow> go_time option" where
  "time_Parse_layout v =
     (let y = take 4 v; m = take 2 (drop 5 v); d = take 2 (drop 8 v)
      in if length v = 10 \<and> list_all is_digit (y @ m @ d) \<and> v ! 4 = CHR ''-'' \<and> v ! 7 = CHR ''-'' \<and>
            1 \<le> dec_val m \<and> dec_val m \<le> 12 \<and> 1 \<le> dec_val d \<and>
            dec_val d \<le> month_len (is_leap (dec_val y)) (dec_val m)
         then Some (go_Date (dec_val y) (dec_val m) (dec_val d))
         else None)"

definition date_Parse :: "string \<Rightarrow> date fallible" where
  "date_Parse s =
     (if length s < 10 then Inl (Errorf ''dateonly: invalid date %q (want YYYY-MM-DD)'' [S s])
      else case time_Parse_layout (take 10 s) of
        None \<Rightarrow> Inl (Errorf ''dateonly: invalid date %q (want YYYY-MM-DD)'' [S s])
      | Some t \<Rightarrow> Inr (FromTime t))"

text \<open>\<^verbatim>\<open>strings.Trim(s, cutset)\<close> for a one-byte cutset.\<close>

definition trim_char :: "char \<Rightarrow> string \<Rightarrow> string" where
  "trim_char c s = rev (dropWhile ((=) c) (rev (dropWhile ((=) c) s)))"

definition date_MarshalJSON :: "date \<Rightarrow> string" where
  "date_MarshalJSON d = [CHR 0x22] @ date_String d @ [CHR 0x22]"

definition date_UnmarshalJSON :: "string \<Rightarrow> date fallible" where
  "date_UnmarshalJSON b =
     (let s = trim_char (CHR 0x22) b
      in if s = [] \<or> s = ''null'' then Inr zero_date else date_Parse s)"

text \<open>What a database driver hands to \<^verbatim>\<open>Scan\<close>.\<close>

datatype scan_src = SrcNil | SrcTime go_time | SrcString string | SrcBytes string | SrcOther string

definition date_Value :: "date \<Rightarrow> string" where
  "date_Value d = date_String d"

fun date_Scan :: "scan_src \<Rightarrow> date fallible" where
  "date_Scan SrcNil = Inr zero_date"
| "date_Scan (SrcTime t) = Inr (FromTime t)"
| "date_Scan (SrcString s) = date_Parse s"
| "date_Scan (SrcBytes s) = date_Parse s"
| "date_Scan (SrcOther ty) = Inl (Errorf ''dateonly: cannot scan %T into Date'' [S ty])"

lemma fmt_0d_nonneg: "0 \<le> i \<Longrightarrow> fmt_0d w i = pad0 w (nat_text i)"
  by (simp add: fmt_0d_def)

lemma fmt_0d_field:
  assumes "0 \<le> i" "i < 10 ^ w" "0 < w"
  shows "length (fmt_0d w i) = w" "list_all is_digit (fmt_0d w i)" "dec_val (fmt_0d w i) = i"
proof -
  show "length (fmt_0d w i) = w"
    using assms by (simp add: fmt_0d_nonneg length_pad0 length_nat_text)
  show "list_all is_digit (fmt_0d w i)" "dec_val (fmt_0d w i) = i"
    using assms by (simp_all add: fmt_0d_nonneg pad0_digits nat_text_digits)
qed

lemma time_Parse_layout_String:
  assumes "length y = 4" "length m = 2" "length d = 2"
    "list_all is_digit y" "list_all is_digit m" "list_all is_digit d"
  shows "time_Parse_layout (y @ ''-'' @ m @ ''-'' @ d) =
    (if 1 \<le> dec_val m \<and> dec_val m \<le> 12 \<and> 1 \<le> dec_val d \<and>
       dec_val d \<le> month_len (is_leap (dec_val y)) (dec_val m)
     then Some (go_Date (dec_val y) (dec_val m) (dec_val d)) else None)"
  using assms by (simp add: time_Parse_layout_def nth_append)

lemma valid_date_fields:
  assumes "valid_date d" "0 \<le> Year d" "Year d \<le> 9999"
  shows "0 \<le> Month d" "Month d < 10 ^ 2" "0 \<le> Day d" "Day d < 10 ^ 2" "Year d < 10 ^ 4"
  using assms valid_date_month_len [of d] by (auto simp: valid_date_def)

lemma length_date_String:
  assumes "valid_date d" "0 \<le> Year d" "Year d \<le> 9999"
  shows "length (date_String d) = 10"
  using valid_date_fields [OF assms] assms(2)
  by (simp add: date_String_def fmt_0d_field(1) del: power_Suc)

lemma date_Parse_String:
  assumes "valid_date d" "0 \<le> Year d" "Year d \<le> 9999"
  shows "date_Parse (date_String d) = Inr d"
proof -
  note rng = valid_date_fields [OF assms]
  have Y: "length (fmt_0d 4 (Year d)) = 4" "list_all is_digit (fmt_0d 4 (Year d))"
    "dec_val (fmt_0d 4 (Year d)) = Year d"
    by (rule fmt_0d_field [OF assms(2) rng(5)]; simp)+
  have M: "length (fmt_0d 2 (Month d)) = 2" "list_all is_digit (fmt_0d 2 (Month d))"
    "dec_val (fmt_0d 2 (Month d)) = Month d"
    by (rule fmt_0d_field [OF rng(1,2)]; simp)+
  have D: "length (fmt_0d 2 (Day d)) = 2" "list_all is_digit (fmt_0d 2 (Day d))"
    "dec_val (fmt_0d 2 (Day d)) = Day d"
    by (rule fmt_0d_field [OF rng(3,4)]; simp)+
  have "1 \<le> dec_val (fmt_0d 2 (Month d))" "dec_val (fmt_0d 2 (Month d)) \<le> 12" "1 \<le> dec_val (fmt_0d 2 (Day d))"
    using M(3) D(3) assms(1) by (auto simp: valid_date_def)
  moreover have "dec_val (fmt_0d 2 (Day d)) \<le>
      month_len (is_leap (dec_val (fmt_0d 4 (Year d)))) (dec_val (fmt_0d 2 (Month d)))"
    unfolding Y(3) M(3) D(3) using assms(1) by (simp add: valid_date_def)
  ultimately have "time_Parse_layout (date_String d) = Some (Time d)"
    unfolding date_String_def
    using time_Parse_layout_String [OF Y(1) M(1) D(1) Y(2) M(2) D(2)] Y(3) M(3) D(3)
    by (simp add: Time_def)
  moreover have "length (date_String d) = 10" by (rule length_date_String [OF assms])
  ultimately show ?thesis
    by (simp add: date_Parse_def FromTime_Time [OF assms(1)])
qed

lemma date_Parse_valid: "date_Parse s = Inr d \<Longrightarrow> valid_date d"
  by (auto simp: date_Parse_def split: if_splits option.splits)

end
