(* ===== verification/Deadline.thy ===== *)
theory Deadline
  imports CivilTime
begin

text \<open>
  The deadline engine \<^verbatim>\<open>src/shared/deadline/deadline.go\<close>: the fiscal calendar of an entity for
  one fiscal year (standard, 4-4-5 and its variants, 13-period, weekly, custom), the periods
  it yields for a periodicity, and the offsets and weekend adjustments that turn a period end
  into a deadline. The lemmas about it are in \<^verbatim>\<open>DeadlineFacts\<close>.
\<close>

section \<open>Data\<close>

type_synonym weekday = int

abbreviation (input) Sunday :: weekday where "Sunday \<equiv> 0"
abbreviation (input) Saturday :: weekday where "Saturday \<equiv> 6"

record period =
  pCode :: string
  pLabel :: string
  pStart :: date
  pEnd :: date

record custom_period =
  cpCode :: string
  cpName :: string
  cpStartDate :: string
  cpEndDate :: string

record calendar =
  c_pattern :: string
  c_fyEndMonth :: int
  c_fyEndDay :: int
  c_startMonth :: int
  c_weekEndDay :: weekday
  c_yearEndRule :: string
  c_customPeriods :: "custom_period list"
  c_fiscalYear :: int
  c_yearStart :: date
  c_yearEnd :: date
  c_weeks :: int

section \<open>Date arithmetic\<close>

definition lastDayOfMonth :: "int \<Rightarrow> int \<Rightarrow> int" where
  "lastDayOfMonth y m = Day (FromTime (go_Date y (m + 1) 0))"

definition addDays :: "date \<Rightarrow> int \<Rightarrow> date" where
  "addDays d days = FromTime (go_AddDate (Time d) 0 0 days)"

definition daysBetween :: "date \<Rightarrow> date \<Rightarrow> int" where
  "daysBetween a b = go_days_between (Time a) (Time b)"

definition addMonthsClamped :: "date \<Rightarrow> int \<Rightarrow> date" where
  "addMonthsClamped d months =
     (let targetFirst = FromTime (go_Date (Year d) (Month d + months) 1);
          last = lastDayOfMonth (Year targetFirst) (Month targetFirst);
          day = (if Day d > last then last else Day d)
      in New (Year targetFirst) (Month targetFirst) day)"

section \<open>MM-DD and weekday parsing\<close>

definition isDigits :: "string \<Rightarrow> bool" where
  "isDigits s \<longleftrightarrow> list_all is_digit s \<and> 0 < length s"

definition maxDayOfMonth :: "int \<Rightarrow> int" where
  "maxDayOfMonth month =
     (if month = 2 then 29
      else if month = 4 \<or> month = 6 \<or> month = 9 \<or> month = 11 then 30 else 31)"

definition ParseMonthDay :: "string \<Rightarrow> (int \<times> int) fallible" where
  "ParseMonthDay s =
     (if length s \<noteq> 5 \<or> s ! 2 \<noteq> CHR ''-'' \<or> \<not> isDigits (take 2 s) \<or> \<not> isDigits (drop 3 s)
      then Inl (Errorf ''deadline: invalid MM-DD %q'' [S s])
      else
        let month = (case atoi (take 2 s) of Some n \<Rightarrow> n | None \<Rightarrow> 0);
            day = (case atoi (drop 3 s) of Some n \<Rightarrow> n | None \<Rightarrow> 0)
        in if month < 1 \<or> month > 12 \<or> day < 1 \<or> day > maxDayOfMonth month
           then Inl (Errorf ''deadline: invalid MM-DD %q'' [S s])
           else Inr (month, day))"

definition placeMonthDay :: "int \<Rightarrow> int \<Rightarrow> int \<Rightarrow> date" where
  "placeMonthDay year month day =
     (let last = lastDayOfMonth year month in New year month (if day > last then last else day))"

definition weekdays :: "string \<Rightarrow> weekday option" where
  "weekdays = map_of [(''monday'', 1), (''tuesday'', 2), (''wednesday'', 3), (''thursday'', 4),
     (''friday'', 5), (''saturday'', 6), (''sunday'', 0)]"

definition parseWeekday :: "string \<Rightarrow> weekday option" where
  "parseWeekday s = (if s = [] then Some Saturday else weekdays s)"

definition IsWeekEndDay :: "string \<Rightarrow> bool" where
  "IsWeekEndDay s \<longleftrightarrow> weekdays s \<noteq> None"

section \<open>The calendar\<close>

definition IsSupportedPattern :: "string \<Rightarrow> bool" where
  "IsSupportedPattern p \<longleftrightarrow>
     p \<in> set [[], ''standard'', ''445'', ''454'', ''544'', ''13-period'', ''weekly'', ''custom'']"

definition weekYearEnd :: "calendar \<Rightarrow> int \<Rightarrow> date" where
  "weekYearEnd c year =
     (let anchor = placeMonthDay year (c_fyEndMonth c) (c_fyEndDay c);
          diff = go_rem (go_Weekday (Time anchor) - c_weekEndDay c + 7) 7;
          before = addDays anchor (- diff)
      in if c_yearEndRule c = ''last'' \<or> diff \<le> 3 then before else addDays before 7)"

definition NewCalendar ::
  "string \<Rightarrow> string \<Rightarrow> string \<Rightarrow> string \<Rightarrow> custom_period list \<Rightarrow> int \<Rightarrow> calendar fallible" where
  "NewCalendar pattern0 financialYearEnd0 weekEndDay yearEndRule0 customPeriods fiscalYear =
     (let pattern = (if pattern0 = [] then ''standard'' else pattern0) in
      if \<not> IsSupportedPattern pattern then
        Inl (Errorf ''deadline: unknown fiscal calendar pattern %q'' [S pattern])
      else if fiscalYear < 1900 \<or> fiscalYear > 2200 then
        Inl (Errorf ''deadline: fiscal year %d out of range'' [I fiscalYear])
      else
        let financialYearEnd = (if financialYearEnd0 = [] then ''12-31'' else financialYearEnd0) in
        case ParseMonthDay financialYearEnd of
          Inl _ \<Rightarrow> Inl (Errorf ''deadline: invalid financialYearEnd %q (want MM-DD)'' [S financialYearEnd])
        | Inr (mm, dd) \<Rightarrow>
            let c = \<lparr>c_pattern = pattern, c_fyEndMonth = mm, c_fyEndDay = dd,
                     c_startMonth = go_rem mm 12 + 1, c_weekEndDay = 0, c_yearEndRule = [],
                     c_customPeriods = customPeriods, c_fiscalYear = fiscalYear,
                     c_yearStart = zero_date, c_yearEnd = zero_date, c_weeks = 0\<rparr> in
            if pattern = ''standard'' then Inr c
            else if pattern = ''custom'' then
              (if customPeriods = [] then Inl (text_msg ''deadline: custom fiscal calendar has no periods'')
               else Inr c)
            else case parseWeekday weekEndDay of
                None \<Rightarrow> Inl (Errorf ''deadline: invalid fiscalWeekEndDay %q'' [S weekEndDay])
              | Some wd \<Rightarrow>
                  let yearEndRule = (if yearEndRule0 = [] then ''nearest'' else yearEndRule0) in
                  if yearEndRule \<noteq> ''last'' \<and> yearEndRule \<noteq> ''nearest'' then
                    Inl (Errorf ''deadline: invalid fiscalYearEndRule %q'' [S yearEndRule])
                  else
                    let c1 = c\<lparr>c_weekEndDay := wd, c_yearEndRule := yearEndRule\<rparr>;
                        yearEnd = weekYearEnd c1 fiscalYear;
                        prev = weekYearEnd c1 (fiscalYear - 1);
                        c2 = c1\<lparr>c_yearEnd := yearEnd, c_yearStart := addDays prev 1\<rparr>;
                        days = daysBetween prev yearEnd
                    in if days = 364 then Inr (c2\<lparr>c_weeks := 52\<rparr>)
                       else if days = 371 then Inr (c2\<lparr>c_weeks := 53\<rparr>)
                       else Inl (Errorf ''deadline: fiscal year %d under pattern %q spans %d days (want 364 or 371)''
                              [I fiscalYear, S pattern, I days]))"

section \<open>Labels\<close>

definition monthAbbr :: "int \<Rightarrow> string" where
  "monthAbbr m = [[], ''Jan'', ''Feb'', ''Mar'', ''Apr'', ''May'', ''Jun'', ''Jul'', ''Aug'', ''Sep'', ''Oct'', ''Nov'', ''Dec''] ! nat m"

text \<open>The separator is the en dash, three bytes in UTF-8.\<close>

definition en_dash :: string where
  "en_dash = [CHR 0xE2, CHR 0x80, CHR 0x93]"

definition formatRange :: "date \<Rightarrow> date \<Rightarrow> string" where
  "formatRange start end =
     (if Year start = Year end
      then itoa (Day start) @ '' '' @ monthAbbr (Month start) @ '' '' @ en_dash @ '' '' @
           itoa (Day end) @ '' '' @ monthAbbr (Month end) @ '' '' @ itoa (Year end)
      else itoa (Day start) @ '' '' @ monthAbbr (Month start) @ '' '' @ itoa (Year start) @ '' '' @
           en_dash @ '' '' @ itoa (Day end) @ '' '' @ monthAbbr (Month end) @ '' '' @ itoa (Year end))"

definition newPeriod :: "string \<Rightarrow> string \<Rightarrow> date \<Rightarrow> date \<Rightarrow> period" where
  "newPeriod code name start end =
     \<lparr>pCode = code, pLabel = (if name \<noteq> [] then name else code) @ '' ('' @ formatRange start end @ '')'',
      pStart = start, pEnd = end\<rparr>"

section \<open>Standard (month-based) periods\<close>

definition fyStartYear :: "calendar \<Rightarrow> int" where
  "fyStartYear c = (if c_startMonth c = 1 then c_fiscalYear c else c_fiscalYear c - 1)"

definition placeMonth :: "calendar \<Rightarrow> int \<Rightarrow> int" where
  "placeMonth c month = (if month < c_startMonth c then c_fiscalYear c else fyStartYear c)"

definition standardYearEnd :: "calendar \<Rightarrow> date" where
  "standardYearEnd c =
     New (c_fiscalYear c) (c_fyEndMonth c) (lastDayOfMonth (c_fiscalYear c) (c_fyEndMonth c))"

definition standardYearStart :: "calendar \<Rightarrow> date" where
  "standardYearStart c = New (fyStartYear c) (c_startMonth c) 1"

definition calendarMonth :: "int \<Rightarrow> int \<Rightarrow> int" where
  "calendarMonth fiscalMonth fiscalYearStartMonth = go_rem (fiscalYearStartMonth + fiscalMonth - 2) 12 + 1"

definition fiscalMonthRange :: "calendar \<Rightarrow> int \<Rightarrow> int \<Rightarrow> date \<times> date" where
  "fiscalMonthRange c from to =
     (let fm = calendarMonth from (c_startMonth c); tm = calendarMonth to (c_startMonth c);
          fy = placeMonth c fm; ty = placeMonth c tm
      in (New fy fm 1, New ty tm (lastDayOfMonth ty tm)))"

definition monthGroups :: "calendar \<Rightarrow> string \<Rightarrow> int \<Rightarrow> int \<Rightarrow> period list" where
  "monthGroups c prefix months n =
     map (\<lambda>i. case fiscalMonthRange c ((i - 1) * months + 1) (i * months) of
                (s, e) \<Rightarrow> newPeriod (prefix @ itoa i) [] s e) [1..n]"

definition standardWeeks :: "calendar \<Rightarrow> period list" where
  "standardWeeks c =
     map (\<lambda>w. let ws = addDays (standardYearStart c) ((w - 1) * 7);
                  we = (if w = 52 then standardYearEnd c else addDays ws 6)
              in newPeriod (''W'' @ itoa w) [] ws we) [1..52]"

definition standardPeriods :: "calendar \<Rightarrow> string \<Rightarrow> period list fallible" where
  "standardPeriods c periodicity =
     (if periodicity = ''monthly'' then Inr (monthGroups c ''M'' 1 12)
      else if periodicity = ''quarterly'' then Inr (monthGroups c ''Q'' 3 4)
      else if periodicity = ''bi-annual'' then Inr (monthGroups c ''H'' 6 2)
      else if periodicity = ''annual'' then Inr (monthGroups c ''Y'' 12 1)
      else if periodicity = ''consolidated-annual'' then Inr (monthGroups c ''CY'' 12 1)
      else if periodicity = ''weekly'' then Inr (standardWeeks c)
      else Inl (Errorf ''deadline: unsupported periodicity %q'' [S periodicity]))"

section \<open>Week-based periods\<close>

definition repeatQuarters :: "int list \<Rightarrow> int list" where
  "repeatQuarters q = q @ q @ q @ q"

definition weekPattern :: "calendar \<Rightarrow> int list" where
  "weekPattern c =
     (if c_pattern c = ''454'' then repeatQuarters [4, 5, 4]
      else if c_pattern c = ''544'' then repeatQuarters [5, 4, 4]
      else if c_pattern c = ''13-period'' then replicate 13 4
      else repeatQuarters [4, 4, 5])"

text \<open>The loop over the group lengths: each period starts the day after the one before.\<close>

fun weekLoop :: "string \<Rightarrow> int \<Rightarrow> date \<Rightarrow> int list \<Rightarrow> period list" where
  "weekLoop prefix i start [] = []"
| "weekLoop prefix i start (w # ws) =
     (let end = addDays start (w * 7 - 1)
      in newPeriod (prefix @ itoa (i + 1)) [] start end # weekLoop prefix (i + 1) (addDays end 1) ws)"

definition weekGroups :: "calendar \<Rightarrow> string \<Rightarrow> (string \<times> int list) fallible" where
  "weekGroups c periodicity =
     (if periodicity = ''monthly'' then Inr (if c_pattern c = ''13-period'' then ''P'' else ''M'', weekPattern c)
      else if periodicity = ''quarterly'' then Inr (''Q'', [13, 13, 13, 13])
      else if periodicity = ''bi-annual'' then Inr (''H'', [26, 26])
      else if periodicity = ''annual'' then Inr (''Y'', [52])
      else if periodicity = ''consolidated-annual'' then Inr (''CY'', [52])
      else if periodicity = ''weekly'' then Inr (''W'', replicate (nat (c_weeks c)) 1)
      else Inl (Errorf ''deadline: unsupported periodicity %q'' [S periodicity]))"

definition weekPeriods :: "calendar \<Rightarrow> string \<Rightarrow> period list fallible" where
  "weekPeriods c periodicity =
     (case weekGroups c periodicity of
        Inl e \<Rightarrow> Inl e
      | Inr (prefix, weeks) \<Rightarrow>
          let weeks' = (if c_weeks c = 53 \<and> periodicity \<noteq> ''weekly''
                        then weeks[length weeks - 1 := weeks ! (length weeks - 1) + 1] else weeks)
          in Inr (weekLoop prefix 0 (c_yearStart c) weeks'))"

section \<open>Custom periods\<close>

definition customPeriod :: "calendar \<Rightarrow> period option \<Rightarrow> custom_period \<Rightarrow> period fallible" where
  "customPeriod c prev cp =
     (case ParseMonthDay (cpEndDate cp) of
        Inl _ \<Rightarrow> Inl (Errorf ''deadline: custom period %q has invalid endDate %q (want MM-DD)''
                   [S (cpCode cp), S (cpEndDate cp)])
      | Inr (em, ed) \<Rightarrow>
          (case ParseMonthDay (cpStartDate cp) of
             Inl _ \<Rightarrow> Inl (Errorf ''deadline: custom period %q has invalid startDate %q (want MM-DD)''
                        [S (cpCode cp), S (cpStartDate cp)])
           | Inr (sm, sd) \<Rightarrow>
               (case prev of
                  None \<Rightarrow>
                    let end = placeMonthDay (placeMonth c em) em ed;
                        start0 = placeMonthDay (placeMonth c sm) sm sd;
                        start = (if Time start0 > Time end then placeMonthDay (Year start0 - 1) sm sd else start0)
                    in Inr (newPeriod (cpCode cp) (cpName cp) start end)
                | Some p \<Rightarrow>
                    let start = addDays (pEnd p) 1 in
                    if Month start \<noteq> sm \<or> Day start \<noteq> sd then
                      Inl (Errorf ''deadline: custom period %q must start on %02d-%02d, the day after %q ends''
                        [S (cpCode cp), I (Month start), I (Day start), S (pCode p)])
                    else
                      let end0 = placeMonthDay (Year start) em ed;
                          end = (if Time end0 < Time start then placeMonthDay (Year start + 1) em ed else end0)
                      in Inr (newPeriod (cpCode cp) (cpName cp) start end))))"

fun customLoop :: "calendar \<Rightarrow> period option \<Rightarrow> custom_period list \<Rightarrow> period list fallible" where
  "customLoop c prev [] = Inr []"
| "customLoop c prev (cp # cps) =
     (case customPeriod c prev cp of
        Inl e \<Rightarrow> Inl e
      | Inr p \<Rightarrow> (case customLoop c (Some p) cps of Inl e \<Rightarrow> Inl e | Inr ps \<Rightarrow> Inr (p # ps)))"

definition customPeriodList :: "calendar \<Rightarrow> string \<Rightarrow> period list fallible" where
  "customPeriodList c periodicity =
     (if periodicity = ''monthly'' \<or> periodicity = ''quarterly'' \<or> periodicity = ''bi-annual''
      then customLoop c None (c_customPeriods c)
      else if periodicity = ''annual'' then
        Inr [newPeriod ''Y1'' [] (standardYearStart c) (standardYearEnd c)]
      else if periodicity = ''consolidated-annual'' then
        Inr [newPeriod ''CY1'' [] (standardYearStart c) (standardYearEnd c)]
      else if periodicity = ''weekly'' then
        Inl (text_msg ''deadline: weekly periods are not defined for a custom fiscal calendar'')
      else Inl (Errorf ''deadline: unsupported periodicity %q'' [S periodicity]))"

section \<open>The calendar's methods\<close>

definition YearEnd :: "calendar \<Rightarrow> date" where
  "YearEnd c = (if c_weeks c > 0 then c_yearEnd c else standardYearEnd c)"

definition Calendar_Periods :: "calendar \<Rightarrow> string \<Rightarrow> period list fallible" where
  "Calendar_Periods c periodicity =
     (if c_pattern c = ''standard'' then standardPeriods c periodicity
      else if c_pattern c = ''custom'' then customPeriodList c periodicity
      else weekPeriods c periodicity)"

definition Calendar_Period :: "calendar \<Rightarrow> string \<Rightarrow> string \<Rightarrow> period fallible" where
  "Calendar_Period c code periodicity =
     (case Calendar_Periods c periodicity of
        Inl e \<Rightarrow> Inl e
      | Inr ps \<Rightarrow>
          (case find (\<lambda>p. pCode p = code) ps of
             Some p \<Rightarrow> Inr p
           | None \<Rightarrow> Inl (Errorf ''deadline: period code %q is not in the %s calendar for periodicity %q''
                       [S code, S (c_pattern c), S periodicity])))"

definition Calendar_PeriodEnd :: "calendar \<Rightarrow> string \<Rightarrow> string \<Rightarrow> date fallible" where
  "Calendar_PeriodEnd c code periodicity =
     (case Calendar_Period c code periodicity of Inl e \<Rightarrow> Inl e | Inr p \<Rightarrow> Inr (pEnd p))"

section \<open>The standard helpers of the first engine\<close>

definition FiscalYearStartMonth :: "string \<Rightarrow> int fallible" where
  "FiscalYearStartMonth financialYearEnd =
     (if financialYearEnd = [] then Inr 1
      else case atoi (takeWhile ((\<noteq>) (CHR ''-'')) financialYearEnd) of
          None \<Rightarrow> Inl (Errorf ''deadline: invalid financialYearEnd %q (want MM-DD)'' [S financialYearEnd])
        | Some mm \<Rightarrow>
            if mm < 1 \<or> mm > 12
            then Inl (Errorf ''deadline: invalid financialYearEnd %q (want MM-DD)'' [S financialYearEnd])
            else Inr (go_rem mm 12 + 1))"

definition periodNumber :: "string \<Rightarrow> int fallible" where
  "periodNumber code =
     (let rest = dropWhile (\<lambda>ch. \<not> is_digit ch) code
      in if rest = [] then Inl (Errorf ''deadline: period code %q has no number'' [S code])
         else case atoi rest of
             None \<Rightarrow> Inl (Errorf ''deadline: invalid period code %q'' [S code])
           | Some n \<Rightarrow> Inr n)"

definition badPeriod :: "string \<Rightarrow> string \<Rightarrow> message" where
  "badPeriod code periodicity =
     Errorf ''deadline: period code %q out of range for periodicity %q'' [S code, S periodicity]"

definition lastFiscalMonth :: "string \<Rightarrow> string \<Rightarrow> int fallible" where
  "lastFiscalMonth periodCode periodicity =
     (case periodNumber periodCode of
        Inl e \<Rightarrow> Inl e
      | Inr n \<Rightarrow>
          if periodicity = ''monthly'' then
            (if n < 1 \<or> n > 12 then Inl (badPeriod periodCode periodicity) else Inr n)
          else if periodicity = ''quarterly'' then
            (if n < 1 \<or> n > 4 then Inl (badPeriod periodCode periodicity) else Inr (n * 3))
          else if periodicity = ''bi-annual'' then
            (if n < 1 \<or> n > 2 then Inl (badPeriod periodCode periodicity) else Inr (n * 6))
          else if periodicity = ''annual'' \<or> periodicity = ''consolidated-annual'' then Inr 12
          else Inl (Errorf ''deadline: unsupported periodicity %q'' [S periodicity]))"

definition PeriodEndDate :: "string \<Rightarrow> string \<Rightarrow> int \<Rightarrow> int \<Rightarrow> date fallible" where
  "PeriodEndDate periodCode periodicity fiscalYearStartMonth fiscalYearEndYear =
     (case lastFiscalMonth periodCode periodicity of
        Inl e \<Rightarrow> Inl e
      | Inr lfm \<Rightarrow>
          let cal = calendarMonth lfm fiscalYearStartMonth;
              startYear = (if fiscalYearStartMonth \<noteq> 1 then fiscalYearEndYear - 1 else fiscalYearEndYear);
              year = (if cal < fiscalYearStartMonth then fiscalYearEndYear else startYear)
          in Inr (New year cal (lastDayOfMonth year cal)))"

section \<open>Offsets and adjustments\<close>

definition ApplyOffset :: "date \<Rightarrow> int \<Rightarrow> string \<Rightarrow> string \<Rightarrow> date" where
  "ApplyOffset d value unit direction =
     (let mult = (if direction = ''before'' then - 1 else 1)
      in if unit = ''days'' then addDays d (value * mult)
         else if unit = ''weeks'' then addDays d (value * 7 * mult)
         else if unit = ''months'' then addMonthsClamped d (value * mult)
         else d)"

definition ApplyMonthDayOffset :: "date \<Rightarrow> int \<Rightarrow> int \<Rightarrow> date" where
  "ApplyMonthDayOffset d months days = addDays (addMonthsClamped d months) days"

definition fixedCandidate :: "date \<Rightarrow> string \<Rightarrow> date fallible" where
  "fixedCandidate from md =
     (case ParseMonthDay md of
        Inl _ \<Rightarrow> Inl (Errorf ''deadline: invalid fixed date %q (want MM-DD)'' [S md])
      | Inr (mm, dd) \<Rightarrow>
          let d = placeMonthDay (Year from) mm dd
          in Inr (if Time d < Time from then placeMonthDay (Year from + 1) mm dd else d))"

text \<open>
  \<^verbatim>\<open>sort.Slice\<close> is not stable, but equal keys are equal dates here; the result is the first
  element after sorting by instant.
\<close>

definition FirstFixedDateOnOrAfter :: "date \<Rightarrow> string list \<Rightarrow> date fallible" where
  "FirstFixedDateOnOrAfter from fixedDates =
     (if fixedDates = [] then Inl (text_msg ''deadline: no fixed dates'')
      else case traverse (fixedCandidate from) fixedDates of
          Inl e \<Rightarrow> Inl e
        | Inr candidates \<Rightarrow> Inr (hd (sort_key Time candidates)))"

definition ApplyWeekendAdjustment :: "date \<Rightarrow> string \<Rightarrow> date" where
  "ApplyWeekendAdjustment d adjustment =
     (if adjustment = [] \<or> adjustment = ''none'' then d
      else if go_Weekday (Time d) = Saturday then
        (if adjustment = ''next-business-day'' then addDays d 2 else addDays d (- 1))
      else if go_Weekday (Time d) = Sunday then
        (if adjustment = ''next-business-day'' then addDays d 1 else addDays d (- 2))
      else d)"

end
