(* ===== verification/DeadlineFacts.thy ===== *)
theory DeadlineFacts
  imports Deadline
begin

text \<open>
  Correctness of the deadline engine: dates stay valid and move by the stated number of days,
  a calendar that \<^const>\<open>NewCalendar\<close> builds is well formed, its periods tile the fiscal year,
  and the adjustments keep their promises.
\<close>

section \<open>Date arithmetic\<close>

lemma valid_date_New: "valid_date (New y m d) \<longleftrightarrow> 1 \<le> m \<and> m \<le> 12 \<and> 1 \<le> d \<and> d \<le> month_len (is_leap y) m"
  by (simp add: valid_date_def New_def)

lemma New_sel [simp]: "Year (New y m d) = y" "Month (New y m d) = m" "Day (New y m d) = d"
  by (simp_all add: New_def)

lemma Time_New: "1 \<le> m \<Longrightarrow> m \<le> 12 \<Longrightarrow>
    Time (New y m d) = days_before_year y + days_before_month (is_leap y) m + (d - 1)"
  by (simp add: Time_def go_Date_valid)

lemma Time_addDays [simp]: "Time (addDays d k) = Time d + k"
  by (simp add: addDays_def)

lemma valid_addDays [simp, wf_intros]: "valid_date (addDays d k)"
  by (simp add: addDays_def)

lemma addDays_0: "valid_date d \<Longrightarrow> addDays d 0 = d"
  by (simp add: addDays_def FromTime_Time)

lemma addDays_addDays: "addDays (addDays d j) k = addDays d (j + k)"
  by (simp add: addDays_def add.assoc)

lemma addDays_eq_iff: "valid_date e \<Longrightarrow> addDays d k = e \<longleftrightarrow> Time d + k = Time e"
  by (metis FromTime_Time Time_addDays addDays_def go_AddDate_days)

text \<open>The day before the first of the next month.\<close>

lemma Time_month_step:
  assumes "1 \<le> m" "m \<le> 12"
  shows "go_Date y (m + 1) 0 = Time (New y m (month_len (is_leap y) m))"
proof (cases "m = 12")
  case True
  have "go_Date y (m + 1) 0 = days_before_year (y + 1) - 1"
    using True by (simp add: go_Date_def)
  also have "\<dots> = Time (New y m (month_len (is_leap y) m))"
    using True days_before_month_last [of "is_leap y"]
    by (simp add: Time_New days_before_year_Suc)
  finally show ?thesis .
next
  case False
  then have "m < 12" using assms by simp
  with assms days_before_month_next [of m "is_leap y"] show ?thesis
    by (simp add: go_Date_valid Time_New)
qed

lemma lastDayOfMonth_eq [simp]:
  assumes "1 \<le> m" "m \<le> 12"
  shows "lastDayOfMonth y m = month_len (is_leap y) m"
proof -
  have "valid_date (New y m (month_len (is_leap y) m))"
    using assms month_len_bounds [of "is_leap y" m] by (simp add: valid_date_New)
  then have "FromTime (go_Date y (m + 1) 0) = New y m (month_len (is_leap y) m)"
    using Time_month_step [OF assms] by (simp add: FromTime_Time)
  then show ?thesis by (simp add: lastDayOfMonth_def)
qed

lemma month_len_le_max: "month_len l m \<le> maxDayOfMonth m"
  by (simp add: month_len_def maxDayOfMonth_def)

lemma valid_placeMonthDay [wf_intros]:
  assumes "1 \<le> m" "m \<le> 12" "1 \<le> d"
  shows "valid_date (placeMonthDay y m d)"
  using assms month_len_bounds [of "is_leap y" m] by (simp add: placeMonthDay_def valid_date_New Let_def)

lemma placeMonthDay_sel [simp]: "Year (placeMonthDay y m d) = y" "Month (placeMonthDay y m d) = m"
  by (simp_all add: placeMonthDay_def Let_def)

lemma ParseMonthDay_Inr:
  "ParseMonthDay s = Inr (m, d) \<Longrightarrow> 1 \<le> m \<and> m \<le> 12 \<and> 1 \<le> d \<and> d \<le> maxDayOfMonth m"
  by (auto simp: ParseMonthDay_def Let_def not_less split: if_splits)

lemma valid_addMonthsClamped [wf_intros]:
  assumes "valid_date d"
  shows "valid_date (addMonthsClamped d k)"
proof -
  let ?f = "FromTime (go_Date (Year d) (Month d + k) 1)"
  have "1 \<le> Month ?f" "Month ?f \<le> 12" using valid_FromTime by (auto simp: valid_date_def)
  then show ?thesis
    using assms month_len_bounds [of "is_leap (Year ?f)" "Month ?f"]
    by (simp add: addMonthsClamped_def Let_def valid_date_New valid_date_def)
qed

text \<open>Adding months: the month moves by exactly that many, the day is clamped to its length.\<close>

definition month_index :: "date \<Rightarrow> int" where
  "month_index d = 12 * Year d + (Month d - 1)"

lemma go_Date_first:
  "FromTime (go_Date y m 1) = New (y + (m - 1) div 12) ((m - 1) mod 12 + 1) 1"
proof -
  let ?y = "y + (m - 1) div 12" and ?m = "(m - 1) mod 12 + 1"
  have rng: "1 \<le> ?m" "?m \<le> 12" using pos_mod_bound [of 12 "m - 1"] by (simp_all add: add1_zle_eq)
  have "go_Date y m 1 = go_Date ?y ?m 1"
    unfolding go_Date_def Let_def using rng by (simp add: div_pos_pos_trivial mod_pos_pos_trivial)
  moreover have "go_civil (go_Date ?y ?m 1) = (?y, ?m, 1)"
    using rng month_len_bounds [of "is_leap ?y" ?m] by (intro go_civil_go_Date) auto
  ultimately show ?thesis by (simp add: FromTime_def New_def)
qed

lemma addMonthsClamped_spec:
  "month_index (addMonthsClamped d k) = month_index d + k"
  "Day (addMonthsClamped d k) =
     min (Day d) (month_len (is_leap (Year (addMonthsClamped d k))) (Month (addMonthsClamped d k)))"
proof -
  let ?m = "(Month d + k - 1) mod 12 + 1" and ?y = "Year d + (Month d + k - 1) div 12"
  have rng: "1 \<le> ?m" "?m \<le> 12" using pos_mod_bound [of 12 "Month d + k - 1"] by (simp_all add: add1_zle_eq)
  have eq: "addMonthsClamped d k = New ?y ?m (min (Day d) (month_len (is_leap ?y) ?m))"
    using rng by (simp add: addMonthsClamped_def Let_def go_Date_first min_def)
  have "12 * ((Month d + k - 1) div 12) + (Month d + k - 1) mod 12 = Month d + k - 1" by simp
  then show "month_index (addMonthsClamped d k) = month_index d + k"
    unfolding eq month_index_def New_sel by simp
  show "Day (addMonthsClamped d k) =
     min (Day d) (month_len (is_leap (Year (addMonthsClamped d k))) (Month (addMonthsClamped d k)))"
    unfolding eq New_sel ..
qed

section \<open>Intervals that tile a range\<close>

definition tiles :: "(int \<times> int) list \<Rightarrow> int \<Rightarrow> int \<Rightarrow> bool" where
  "tiles ivs a b \<longleftrightarrow> ivs \<noteq> [] \<and> fst (hd ivs) = a \<and> snd (last ivs) = b \<and>
     chained (\<lambda>p q. fst q = snd p + 1) ivs \<and> (\<forall>iv \<in> set ivs. fst iv \<le> snd iv)"

lemma tiles_single: "tiles [(a, b)] a b \<longleftrightarrow> a \<le> b"
  by (simp add: tiles_def)

lemma tiles_Cons:
  "ivs \<noteq> [] \<Longrightarrow> tiles ((a, m) # ivs) a' b \<longleftrightarrow> a' = a \<and> a \<le> m \<and> tiles ivs (m + 1) b"
  by (auto simp: tiles_def chained_Cons)

lemma tiles_le: "tiles ivs a b \<Longrightarrow> a \<le> b"
proof (induction ivs arbitrary: a)
  case (Cons iv ivs)
  show ?case
  proof (cases "ivs = []")
    case True
    with Cons.prems show ?thesis by (cases iv) (simp add: tiles_def)
  next
    case False
    with Cons.prems have "fst iv = a" "a \<le> snd iv" "tiles ivs (snd iv + 1) b"
      by (cases iv; simp add: tiles_Cons)+
    with Cons.IH show ?thesis by force
  qed
qed (simp add: tiles_def)

lemma tiles_bounds:
  "tiles ivs a b \<Longrightarrow> i < length ivs \<Longrightarrow> a \<le> fst (ivs ! i) \<and> snd (ivs ! i) \<le> b"
proof (induction ivs arbitrary: a i)
  case (Cons iv ivs)
  show ?case
  proof (cases "ivs = []")
    case True
    with Cons.prems show ?thesis by (cases iv) (auto simp: tiles_def)
  next
    case False
    with Cons.prems(1) have t: "fst iv = a" "a \<le> snd iv" "tiles ivs (snd iv + 1) b"
      by (cases iv; simp add: tiles_Cons)+
    with tiles_le [OF t(3)] Cons.IH [OF t(3)] Cons.prems(2) show ?thesis
      by (cases i) force+
  qed
qed simp

text \<open>Every point of the range lies in exactly one of the intervals.\<close>

lemma tiles_partition:
  assumes "tiles ivs a b" "a \<le> t" "t \<le> b"
  shows "\<exists>!i. i < length ivs \<and> fst (ivs ! i) \<le> t \<and> t \<le> snd (ivs ! i)"
  using assms
proof (induction ivs arbitrary: a)
  case (Cons iv ivs)
  show ?case
  proof (cases "ivs = []")
    case True
    with Cons.prems show ?thesis by (intro ex1I [of _ 0]) (auto simp: tiles_def)
  next
    case False
    with Cons.prems(1) have t: "fst iv = a" "a \<le> snd iv" "tiles ivs (snd iv + 1) b"
      by (cases iv; simp add: tiles_Cons)+
    show ?thesis
    proof (cases "t \<le> snd iv")
      case True
      show ?thesis
      proof (rule ex1I [of _ 0])
        fix i assume i: "i < length (iv # ivs) \<and> fst ((iv # ivs) ! i) \<le> t \<and> t \<le> snd ((iv # ivs) ! i)"
        show "i = 0"
        proof (cases i)
          case (Suc j)
          with i tiles_bounds [OF t(3), of j] True show ?thesis by simp
        qed simp
      qed (use True t Cons.prems in auto)
    next
      case False
      then obtain i where i: "i < length ivs" "fst (ivs ! i) \<le> t" "t \<le> snd (ivs ! i)"
        and u: "\<And>j. j < length ivs \<and> fst (ivs ! j) \<le> t \<and> t \<le> snd (ivs ! j) \<Longrightarrow> j = i"
        using Cons.IH [OF t(3)] Cons.prems(3) by (auto elim!: ex1E)
      show ?thesis
      proof (rule ex1I [of _ "Suc i"])
        fix j assume j: "j < length (iv # ivs) \<and> fst ((iv # ivs) ! j) \<le> t \<and> t \<le> snd ((iv # ivs) ! j)"
        then show "j = Suc i" using u False by (cases j) auto
      qed (use i in auto)
    qed
  qed
qed (simp add: tiles_def)

abbreviation span :: "period \<Rightarrow> int \<times> int" where
  "span p \<equiv> (Time (pStart p), Time (pEnd p))"

lemma newPeriod_sel [simp]: "pCode (newPeriod c n s e) = c" "pStart (newPeriod c n s e) = s" "pEnd (newPeriod c n s e) = e"
  by (simp_all add: newPeriod_def)

section \<open>Well-formed calendars\<close>

definition week_based :: "calendar \<Rightarrow> bool" where
  "week_based c \<longleftrightarrow> c_pattern c \<in> {''445'', ''454'', ''544'', ''13-period'', ''weekly''}"

definition wf_calendar :: "calendar \<Rightarrow> bool" where
  "wf_calendar c \<longleftrightarrow>
     1 \<le> c_fyEndMonth c \<and> c_fyEndMonth c \<le> 12 \<and> 1 \<le> c_fyEndDay c \<and>
     c_startMonth c = c_fyEndMonth c mod 12 + 1 \<and>
     1900 \<le> c_fiscalYear c \<and> c_fiscalYear c \<le> 2200 \<and>
     (if week_based c
      then (c_weeks c = 52 \<or> c_weeks c = 53) \<and> valid_date (c_yearStart c) \<and> valid_date (c_yearEnd c) \<and>
           Time (c_yearEnd c) - Time (c_yearStart c) + 1 = 7 * c_weeks c \<and>
           go_Weekday (Time (c_yearEnd c)) = c_weekEndDay c
      else c_weeks c = 0 \<and>
           (c_pattern c = ''standard'' \<or> c_pattern c = ''custom'' \<and> c_customPeriods c \<noteq> []))"

text \<open>The first day of the fiscal year, the counterpart of \<^const>\<open>YearEnd\<close>.\<close>

definition YearStart :: "calendar \<Rightarrow> date" where
  "YearStart c = (if c_weeks c > 0 then c_yearStart c else standardYearStart c)"

lemma wf_calendar_months:
  assumes "wf_calendar c"
  shows "1 \<le> c_startMonth c" "c_startMonth c \<le> 12" "1 \<le> c_fyEndMonth c" "c_fyEndMonth c \<le> 12"
    "c_fyEndMonth c = (if c_startMonth c = 1 then 12 else c_startMonth c - 1)"
proof -
  show "1 \<le> c_fyEndMonth c" "c_fyEndMonth c \<le> 12" using assms by (simp_all add: wf_calendar_def)
  then show "1 \<le> c_startMonth c" "c_startMonth c \<le> 12"
    using assms by (auto simp: wf_calendar_def)
  show "c_fyEndMonth c = (if c_startMonth c = 1 then 12 else c_startMonth c - 1)"
  proof (cases "c_fyEndMonth c = 12")
    case False
    with \<open>1 \<le> c_fyEndMonth c\<close> \<open>c_fyEndMonth c \<le> 12\<close> have "c_fyEndMonth c mod 12 = c_fyEndMonth c"
      by (simp add: mod_pos_pos_trivial)
    with assms \<open>1 \<le> c_fyEndMonth c\<close> show ?thesis by (auto simp: wf_calendar_def)
  qed (use assms in \<open>auto simp: wf_calendar_def\<close>)
qed

section \<open>The week-based year\<close>

lemma weekday_gap:
  assumes "go_Weekday s = go_Weekday t"
  shows "7 dvd t - s"
  using assms unfolding go_Weekday_def by (metis diff_add_eq_diff_diff_swap mod_eq_dvd_iff add.commute add_diff_cancel_left)

text \<open>The resolved year end falls on the week-end day, within six days of the anchor on the
  "last" rule and within three on the "nearest" rule.\<close>

lemma weekYearEnd_spec:
  assumes wd: "0 \<le> c_weekEndDay c" "c_weekEndDay c \<le> 6"
    and rule: "c_yearEndRule c = ''last'' \<or> c_yearEndRule c = ''nearest''"
  defines "anchor y \<equiv> placeMonthDay y (c_fyEndMonth c) (c_fyEndDay c)"
  shows "go_Weekday (Time (weekYearEnd c y)) = c_weekEndDay c"
    and "c_yearEndRule c = ''last'' \<Longrightarrow>
      Time (anchor y) - 6 \<le> Time (weekYearEnd c y) \<and> Time (weekYearEnd c y) \<le> Time (anchor y)"
    and "c_yearEndRule c = ''nearest'' \<Longrightarrow>
      Time (anchor y) - 3 \<le> Time (weekYearEnd c y) \<and> Time (weekYearEnd c y) \<le> Time (anchor y) + 3"
proof -
  let ?t = "Time (anchor y)" and ?w = "c_weekEndDay c"
  define diff where "diff = (go_Weekday ?t - ?w + 7) mod 7"
  have rng: "0 \<le> diff" "diff \<le> 6" by (simp_all add: diff_def)
  have "0 \<le> go_Weekday ?t - ?w + 7" using wd go_Weekday_range [of ?t] by simp
  then have dr: "go_rem (go_Weekday ?t - ?w + 7) 7 = diff" by (simp add: diff_def)
  have eq: "Time (weekYearEnd c y) =
      (if c_yearEndRule c = ''last'' \<or> diff \<le> 3 then ?t - diff else ?t - diff + 7)"
    by (simp add: weekYearEnd_def Let_def dr anchor_def [symmetric])
  have W: "go_Weekday ?t = ?t + 1 - 7 * ((?t + 1) div 7)"
    by (simp add: go_Weekday_def minus_mult_div_eq_mod)
  have "diff = go_Weekday ?t - ?w + 7 - 7 * ((go_Weekday ?t - ?w + 7) div 7)"
    by (simp add: diff_def minus_mult_div_eq_mod)
  with W have "?t - diff + 1 = ?w + 7 * ((?t + 1) div 7 + (go_Weekday ?t - ?w + 7) div 7 - 1)"
    by simp
  then have w: "(?t - diff + 1) mod 7 = ?w"
    using wd by (simp only: mod_mult_self2) (simp add: mod_pos_pos_trivial)
  have "?t - diff + 7 + 1 = (?t - diff + 1) + 7" by simp
  then have w7: "(?t - diff + 7 + 1) mod 7 = ?w" using w by (simp only: mod_add_self2)
  show "go_Weekday (Time (weekYearEnd c y)) = ?w"
    using w w7 by (simp add: eq go_Weekday_def)
  show "c_yearEndRule c = ''last'' \<Longrightarrow> ?t - 6 \<le> Time (weekYearEnd c y) \<and> Time (weekYearEnd c y) \<le> ?t"
    using rng by (simp add: eq)
  show "c_yearEndRule c = ''nearest'' \<Longrightarrow> ?t - 3 \<le> Time (weekYearEnd c y) \<and> Time (weekYearEnd c y) \<le> ?t + 3"
    using rng by (simp add: eq)
qed

text \<open>Two anchors a year apart are 365 or 366 days apart, so two year ends 364 or 371.\<close>

lemma anchor_gap:
  assumes "1 \<le> m" "m \<le> 12" "1 \<le> d"
  shows "Time (placeMonthDay y m d) - Time (placeMonthDay (y - 1) m d) \<in> {365, 366}"
proof -
  have step: "days_before_year y = days_before_year (y - 1) + (if is_leap (y - 1) then 366 else 365)"
    using days_before_year_Suc [of "y - 1"] by simp
  have not_both: "\<not> (is_leap (y - 1) \<and> is_leap y)"
  proof
    assume "is_leap (y - 1) \<and> is_leap y"
    then have "(y - 1) mod 4 = 0" "y mod 4 = 0" by (simp_all add: is_leap_def)
    then show False by presburger
  qed
  show ?thesis
    using assms not_both step
    by (cases rule: month_cases [OF assms(1,2)])
      (simp_all add: placeMonthDay_def Let_def Time_New days_before_month_def month_len_def)
qed

lemma weekYearEnd_gap:
  assumes "0 \<le> c_weekEndDay c" "c_weekEndDay c \<le> 6"
    and "c_yearEndRule c = ''last'' \<or> c_yearEndRule c = ''nearest''"
    and "1 \<le> c_fyEndMonth c" "c_fyEndMonth c \<le> 12" "1 \<le> c_fyEndDay c"
  shows "Time (weekYearEnd c y) - Time (weekYearEnd c (y - 1)) \<in> {364, 371}"
proof -
  let ?g = "Time (weekYearEnd c y) - Time (weekYearEnd c (y - 1))"
  have "7 dvd ?g"
    by (rule weekday_gap) (simp add: weekYearEnd_spec(1) [OF assms(1-3)])
  moreover have "359 \<le> ?g" "?g \<le> 372"
    using anchor_gap [OF assms(4-6), of y] assms(3)
      weekYearEnd_spec(2,3) [OF assms(1-3), of y] weekYearEnd_spec(2,3) [OF assms(1-3), of "y - 1"]
    by auto
  ultimately obtain k where k: "?g = 7 * k" "359 \<le> 7 * k" "7 * k \<le> 372" by (auto elim: dvdE)
  then have "52 \<le> k" "k \<le> 53" by linarith+
  with k(1) show ?thesis by auto
qed

section \<open>\<^const>\<open>NewCalendar\<close>\<close>

lemma parseWeekday_range: "parseWeekday s = Some w \<Longrightarrow> 0 \<le> w \<and> w \<le> 6"
  by (auto simp: parseWeekday_def weekdays_def split: if_splits)

lemma ParseMonthDay_default: "ParseMonthDay ''12-31'' = Inr (12, 31)"
  by code_simp

lemma IsSupportedPattern_cases:
  "IsSupportedPattern p \<Longrightarrow> p \<noteq> [] \<Longrightarrow> p = ''standard'' \<or> p = ''custom'' \<or>
     p \<in> {''445'', ''454'', ''544'', ''13-period'', ''weekly''}"
  by (auto simp: IsSupportedPattern_def)

lemma daysBetween_eq: "\<bar>Time b - Time a\<bar> \<le> 106751 \<Longrightarrow> daysBetween a b = Time b - Time a"
  by (auto simp: daysBetween_def go_days_between_def)

text \<open>What a week-based construction yields, with the two candidate year ends resolved.\<close>

lemma weekYearEnd_update [simp]:
  "weekYearEnd (c\<lparr>c_yearEnd := x\<rparr>) y = weekYearEnd c y"
  "weekYearEnd (c\<lparr>c_yearStart := x\<rparr>) y = weekYearEnd c y"
  "weekYearEnd (c\<lparr>c_weeks := k\<rparr>) y = weekYearEnd c y"
  by (simp_all add: weekYearEnd_def)

lemma weekYearEnd_cong:
  assumes "c_fyEndMonth c' = c_fyEndMonth c" "c_fyEndDay c' = c_fyEndDay c"
    "c_weekEndDay c' = c_weekEndDay c" "c_yearEndRule c' = c_yearEndRule c"
  shows "weekYearEnd c' = weekYearEnd c"
  using assms by (simp add: weekYearEnd_def fun_eq_iff)

lemma week_calendar_days:
  assumes "0 \<le> c_weekEndDay c" "c_weekEndDay c \<le> 6"
    and "c_yearEndRule c = ''last'' \<or> c_yearEndRule c = ''nearest''"
    and "1 \<le> c_fyEndMonth c" "c_fyEndMonth c \<le> 12" "1 \<le> c_fyEndDay c"
  shows "daysBetween (weekYearEnd c (y - 1)) (weekYearEnd c y) \<in> {364, 371}"
    and "daysBetween (weekYearEnd c (y - 1)) (weekYearEnd c y) =
      Time (weekYearEnd c y) - Time (weekYearEnd c (y - 1))"
  using weekYearEnd_gap [OF assms, of y] by (auto simp: daysBetween_eq)

lemma valid_weekYearEnd: "valid_date (weekYearEnd c y)"
  by (simp add: weekYearEnd_def Let_def)

text \<open>Construction succeeds exactly on the configurations the checks describe, and the result is
  well formed.\<close>

definition calendar_config_ok :: "string \<Rightarrow> string \<Rightarrow> string \<Rightarrow> string \<Rightarrow> custom_period list \<Rightarrow> int \<Rightarrow> bool" where
  "calendar_config_ok pat fye wed rule cps fy \<longleftrightarrow>
     IsSupportedPattern pat \<and> 1900 \<le> fy \<and> fy \<le> 2200 \<and> (fye = [] \<or> is_ok (ParseMonthDay fye)) \<and>
     (if pat = [] \<or> pat = ''standard'' then True
      else if pat = ''custom'' then cps \<noteq> []
      else (wed = [] \<or> IsWeekEndDay wed) \<and> rule \<in> {[], ''last'', ''nearest''})"

lemma NewCalendar_week:
  assumes "p \<in> {''445'', ''454'', ''544'', ''13-period'', ''weekly''}" "1900 \<le> fy" "fy \<le> 2200"
    and "ParseMonthDay (if fye = [] then ''12-31'' else fye) = Inr (mm, dd)"
    and "parseWeekday wed = Some wd" "rule \<in> {[], ''last'', ''nearest''}"
  shows "\<exists>c. NewCalendar p fye wed rule cps fy = Inr c \<and> wf_calendar c \<and> week_based c \<and> c_fiscalYear c = fy \<and>
    c_yearEnd c = weekYearEnd c fy \<and> c_yearStart c = addDays (weekYearEnd c (fy - 1)) 1 \<and>
    c_weekEndDay c = wd \<and> c_yearEndRule c = (if rule = [] then ''nearest'' else rule) \<and>
    c_fyEndMonth c = mm \<and> c_fyEndDay c = dd"
proof -
  let ?rule = "if rule = [] then ''nearest'' else rule"
  let ?c = "\<lparr>c_pattern = p, c_fyEndMonth = mm, c_fyEndDay = dd, c_startMonth = go_rem mm 12 + 1,
     c_weekEndDay = wd, c_yearEndRule = ?rule, c_customPeriods = cps, c_fiscalYear = fy,
     c_yearStart = zero_date, c_yearEnd = zero_date, c_weeks = 0\<rparr>"
  have md: "1 \<le> mm" "mm \<le> 12" "1 \<le> dd" using ParseMonthDay_Inr [OF assms(4)] by auto
  have wd: "0 \<le> wd" "wd \<le> 6" using parseWeekday_range [OF assms(5)] by auto
  have r: "?rule = ''last'' \<or> ?rule = ''nearest''" using assms(6) by auto
  have ok: "0 \<le> c_weekEndDay ?c" "c_weekEndDay ?c \<le> 6"
    "c_yearEndRule ?c = ''last'' \<or> c_yearEndRule ?c = ''nearest''"
    "1 \<le> c_fyEndMonth ?c" "c_fyEndMonth ?c \<le> 12" "1 \<le> c_fyEndDay ?c"
    using md wd r by simp_all
  let ?e = "weekYearEnd ?c fy" and ?p = "weekYearEnd ?c (fy - 1)"
  note days = week_calendar_days [OF ok, of fy]
  have sup: "IsSupportedPattern p" "p \<noteq> []" "p \<noteq> ''standard''" "p \<noteq> ''custom''"
    using assms(1) by (auto simp: IsSupportedPattern_def)
  let ?k = "if daysBetween ?p ?e = 364 then 52 else 53 :: int"
  let ?r = "?c\<lparr>c_yearEnd := ?e, c_yearStart := addDays ?p 1, c_weeks := ?k\<rparr>"
  have "NewCalendar p fye wed rule cps fy = Inr ?r"
    using sup assms(2-5) r days(1) by (auto simp: NewCalendar_def Let_def)
  moreover have "week_based ?r" using assms(1) by (simp add: week_based_def)
  moreover have "wf_calendar ?r"
  proof -
    have "Time ?e - Time (addDays ?p 1) + 1 = 7 * ?k" using days by auto
    moreover have "go_Weekday (Time ?e) = wd"
      using weekYearEnd_spec(1) [OF ok(1-3), of fy] by simp
    ultimately show ?thesis
      using \<open>week_based ?r\<close> md assms(2,3) by (simp add: wf_calendar_def valid_weekYearEnd)
  qed
  moreover have eq: "weekYearEnd ?r = weekYearEnd ?c" by (rule weekYearEnd_cong) simp_all
  have "c_yearEnd ?r = weekYearEnd ?r fy" "c_yearStart ?r = addDays (weekYearEnd ?r (fy - 1)) 1"
    unfolding eq by simp_all
  moreover have "c_weekEndDay ?r = wd" "c_yearEndRule ?r = ?rule" "c_fyEndMonth ?r = mm" "c_fyEndDay ?r = dd"
    "c_fiscalYear ?r = fy" by simp_all
  ultimately show ?thesis by blast
qed

end
