(* ===== verification/DeadlineTiling.thy ===== *)
theory DeadlineTiling
  imports DeadlineFacts
begin

text \<open>
  The periods of a calendar tile its fiscal year: they run from the first to the last day
  without a gap or an overlap, for every pattern and periodicity the engine supports, so that
  every date of the year lies in exactly one period. The legacy standard-calendar function
  agrees with the calendar.
\<close>

section \<open>Month-based periods\<close>

text \<open>The first and the last day of a fiscal month.\<close>

definition fm_first :: "calendar \<Rightarrow> int \<Rightarrow> date" where
  "fm_first c f = fst (fiscalMonthRange c f f)"

definition fm_last :: "calendar \<Rightarrow> int \<Rightarrow> date" where
  "fm_last c f = snd (fiscalMonthRange c f f)"

lemma fiscalMonthRange_eq: "fiscalMonthRange c f t = (fm_first c f, fm_last c t)"
  by (simp add: fiscalMonthRange_def fm_first_def fm_last_def Let_def)

lemma calendarMonth_eq:
  assumes "1 \<le> s" "s \<le> 12" "1 \<le> f" "f \<le> 12"
  shows "calendarMonth f s = (if s + f \<le> 13 then s + f - 1 else s + f - 13)"
proof (cases "s + f \<le> 13")
  case True
  then show ?thesis using assms by (simp add: calendarMonth_def mod_pos_pos_trivial)
next
  case False
  then have "(s + f - 2) mod 12 = (s + f - 14 + 12) mod 12" by simp
  also have "\<dots> = s + f - 14"
    using False assms by (simp only: mod_add_self2) (simp add: mod_pos_pos_trivial)
  finally show ?thesis using False assms by (simp add: calendarMonth_def)
qed

lemma calendarMonth_range:
  assumes "1 \<le> s" "s \<le> 12" "1 \<le> f" "f \<le> 12"
  shows "1 \<le> calendarMonth f s" "calendarMonth f s \<le> 12"
  using assms by (simp_all add: calendarMonth_eq)

lemma fm_first_last:
  assumes "wf_calendar c" "1 \<le> f" "f \<le> 12"
  defines "m \<equiv> calendarMonth f (c_startMonth c)"
  shows "fm_first c f = New (placeMonth c m) m 1"
    and "fm_last c f = New (placeMonth c m) m (month_len (is_leap (placeMonth c m)) m)"
    and "1 \<le> m" "m \<le> 12"
proof -
  show m: "1 \<le> m" "m \<le> 12"
    using calendarMonth_range [of "c_startMonth c" f] wf_calendar_months [OF assms(1)] assms(2,3)
    by (simp_all add: m_def)
  show "fm_first c f = New (placeMonth c m) m 1"
    by (simp add: fm_first_def fiscalMonthRange_def Let_def m_def)
  show "fm_last c f = New (placeMonth c m) m (month_len (is_leap (placeMonth c m)) m)"
    using m by (simp add: fm_last_def fiscalMonthRange_def Let_def m_def [symmetric])
qed

lemma valid_fm:
  assumes "wf_calendar c" "1 \<le> f" "f \<le> 12"
  shows "valid_date (fm_first c f)" "valid_date (fm_last c f)" "Time (fm_first c f) \<le> Time (fm_last c f)"
  using fm_first_last [OF assms] by (auto simp: valid_date_New Time_New)

text \<open>A fiscal month starts the day after the one before it ends.\<close>

lemma fm_step:
  assumes "wf_calendar c" "1 \<le> f" "f < 12"
  shows "Time (fm_first c (f + 1)) = Time (fm_last c f) + 1"
proof -
  let ?s = "c_startMonth c" and ?m = "calendarMonth f (c_startMonth c)" and ?m' = "calendarMonth (f + 1) (c_startMonth c)"
  note s = wf_calendar_months(1,2) [OF assms(1)]
  have f: "1 \<le> f" "f \<le> 12" "1 \<le> f + 1" "f + 1 \<le> 12" using assms by simp_all
  note fl = fm_first_last [OF assms(1) f(1,2)] and fl' = fm_first_last [OF assms(1) f(3,4)]
  have m: "?m = (if ?s + f \<le> 13 then ?s + f - 1 else ?s + f - 13)"
    and m': "?m' = (if ?s + f \<le> 12 then ?s + f else ?s + f - 12)"
    using calendarMonth_eq [OF s f(1,2)] calendarMonth_eq [OF s f(3,4)] by simp_all
  show ?thesis
  proof (cases "?m = 12")
    case True
    then have sf: "?s + f = 13" using m f s by (auto split: if_splits)
    then have m1: "?m' = 1" using m' by simp
    have y: "placeMonth c 12 + 1 = placeMonth c 1"
      using sf f s by (simp add: placeMonth_def fyStartYear_def)
    have "Time (fm_last c f) + 1 = days_before_year (placeMonth c 12 + 1)"
      unfolding fl(2) True using days_before_month_last [of "is_leap (placeMonth c 12)"]
      by (simp add: Time_New days_before_year_Suc)
    then show ?thesis unfolding fl'(1) m1 y by (simp add: Time_New)
  next
    case False
    then have m1: "?m' = ?m + 1" and lt: "?m < 12" using m m' s f fl(4) by (auto split: if_splits)
    have y: "placeMonth c (?m + 1) = placeMonth c ?m"
    proof -
      have "(?m + 1 < ?s) = (?m < ?s)" using m m' m1 s f by (auto split: if_splits)
      then show ?thesis by (simp add: placeMonth_def)
    qed
    show ?thesis
      unfolding fl(2) fl'(1) m1 y using lt fl(3) days_before_month_next [OF fl(3) lt]
      by (simp add: Time_New)
  qed
qed

lemma fm_year:
  assumes "wf_calendar c"
  shows "fm_first c 1 = standardYearStart c" "fm_last c 12 = standardYearEnd c"
proof -
  note s = wf_calendar_months [OF assms]
  have "calendarMonth 1 (c_startMonth c) = c_startMonth c"
    and e: "calendarMonth 12 (c_startMonth c) = c_fyEndMonth c"
    using s calendarMonth_eq [of "c_startMonth c" 1] calendarMonth_eq [of "c_startMonth c" 12] by auto
  moreover have "placeMonth c (c_startMonth c) = fyStartYear c" by (simp add: placeMonth_def)
  moreover have "placeMonth c (c_fyEndMonth c) = c_fiscalYear c"
    using s(5) by (auto simp: placeMonth_def fyStartYear_def)
  ultimately show "fm_first c 1 = standardYearStart c" "fm_last c 12 = standardYearEnd c"
    using fm_first_last(1) [OF assms, of 1] fm_first_last(2) [OF assms, of 12] s
    by (simp_all add: standardYearStart_def standardYearEnd_def)
qed

text \<open>Groups of \<open>k\<close> fiscal months from fiscal month \<open>f\<close> on.\<close>

lemma fm_mono:
  assumes "wf_calendar c" "1 \<le> f" "f \<le> g" "g \<le> 12"
  shows "Time (fm_first c f) \<le> Time (fm_last c g)"
  using assms(3,4)
proof (induction g rule: int_ge_induct)
  case base
  then show ?case using valid_fm(3) [OF assms(1,2)] by simp
next
  case (step i)
  with fm_step [OF assms(1), of i] valid_fm(3) [OF assms(1), of "i + 1"] assms(2) show ?case by simp
qed

lemma upto_single: "[n..n] = [n :: int]"
  by (simp add: upto_rec1)

lemma monthGroups_tiles_from:
  assumes "wf_calendar c" "1 \<le> k" "i \<le> n" "1 \<le> i" "n * k \<le> 12"
  shows "tiles (map (\<lambda>j. (Time (fm_first c ((j - 1) * k + 1)), Time (fm_last c (j * k)))) [i..n])
    (Time (fm_first c ((i - 1) * k + 1))) (Time (fm_last c (n * k)))"
  using assms(3,4)
proof (induction i rule: int_le_induct)
  case base
  have "(n - 1) * k + 1 \<le> n * k" using assms(2) by (simp add: left_diff_distrib)
  moreover have "0 \<le> (n - 1) * k" using base assms(2) by simp
  ultimately show ?case
    using fm_mono [OF assms(1), of "(n - 1) * k + 1" "n * k"] assms(5) by (simp add: upto_single tiles_single)
next
  case (step i)
  have ik: "i * k \<le> n * k" using step.hyps assms(2) by (simp add: mult_right_mono)
  have le: "(i - 1 - 1) * k + 1 \<le> (i - 1) * k" "0 \<le> (i - 1 - 1) * k" "1 \<le> (i - 1) * k" "(i - 1) * k < 12"
  proof -
    show "(i - 1 - 1) * k + 1 \<le> (i - 1) * k" "0 \<le> (i - 1 - 1) * k"
      using assms(2) step.prems by (simp_all add: left_diff_distrib)
    then show "1 \<le> (i - 1) * k" by linarith
    have "(i - 1) * k = i * k - k" by (simp add: left_diff_distrib)
    then show "(i - 1) * k < 12" using ik assms(2,5) by linarith
  qed
  have "Time (fm_first c ((i - 1) * k + 1)) = Time (fm_last c ((i - 1) * k)) + 1"
    using fm_step [OF assms(1), of "(i - 1) * k"] le by simp
  moreover have "Time (fm_first c ((i - 1 - 1) * k + 1)) \<le> Time (fm_last c ((i - 1) * k))"
    using fm_mono [OF assms(1), of "(i - 1 - 1) * k + 1" "(i - 1) * k"] le by simp
  moreover have "[i - 1..n] = (i - 1) # [i..n]" using step.hyps by (simp add: upto_rec1)
  moreover have "[i..n] \<noteq> []" using step.hyps by simp
  ultimately show ?case using step by (simp add: tiles_Cons)
qed

lemma monthGroups_tiles:
  assumes "wf_calendar c" "1 \<le> k" "1 \<le> n" "n * k = 12"
  shows "tiles (map span (monthGroups c pre k n)) (Time (standardYearStart c)) (Time (standardYearEnd c))"
  using monthGroups_tiles_from [OF assms(1,2), of 1 n] assms fm_year [OF assms(1)]
  by (simp add: monthGroups_def fiscalMonthRange_eq comp_def)

text \<open>Seven-day weeks, the last one absorbing the remainder.\<close>

lemma standard_year_length:
  assumes "wf_calendar c"
  shows "Time (standardYearEnd c) - Time (standardYearStart c) + 1 \<in> {365, 366}"
proof -
  have "valid_date (standardYearStart c)"
    using fm_year(1) [OF assms] valid_fm(1) [OF assms, of 1] by simp
  let ?m = "c_startMonth c" and ?fy = "c_fiscalYear c"
  note s = wf_calendar_months [OF assms]
  have step: "days_before_year ?fy = days_before_year (?fy - 1) + (if is_leap (?fy - 1) then 366 else 365)"
    using days_before_year_Suc [of "?fy - 1"] by simp
  have not_both: "\<not> (is_leap (?fy - 1) \<and> is_leap ?fy)"
  proof
    assume "is_leap (?fy - 1) \<and> is_leap ?fy"
    then have "(?fy - 1) mod 4 = 0" "?fy mod 4 = 0" by (simp_all add: is_leap_def)
    then show False by presburger
  qed
  show ?thesis
    using s(3-5) step not_both
    by (cases rule: month_cases [OF s(1,2)])
      (simp_all add: standardYearStart_def standardYearEnd_def fyStartYear_def Time_New
        days_before_month_def month_len_def)
qed

lemma weeks_tiles_from:
  assumes "w \<le> 52" "1 \<le> w" "a + 51 * 7 \<le> e"
  shows "tiles (map (\<lambda>w. (a + (w - 1) * 7, if w = 52 then e else a + (w - 1) * 7 + 6)) [w..52]) (a + (w - 1) * 7) e"
  using assms(1,2)
proof (induction w rule: int_le_induct)
  case base
  then show ?case using assms(3) by (simp add: upto_single tiles_single)
next
  case (step i)
  have "[i - 1..52] = (i - 1) # [i..52]" using step.hyps by (simp add: upto_rec1)
  moreover have "[i..52] \<noteq> []" using step.hyps by simp
  ultimately show ?case using step by (simp add: tiles_Cons algebra_simps)
qed

lemma standardWeeks_tiles:
  assumes "wf_calendar c"
  shows "tiles (map span (standardWeeks c)) (Time (standardYearStart c)) (Time (standardYearEnd c))"
proof -
  have "map span (standardWeeks c) =
    map (\<lambda>w. (Time (standardYearStart c) + (w - 1) * 7,
      if w = 52 then Time (standardYearEnd c) else Time (standardYearStart c) + (w - 1) * 7 + 6)) [1..52]"
    by (simp add: standardWeeks_def Let_def comp_def)
  moreover have "Time (standardYearStart c) + 51 * 7 \<le> Time (standardYearEnd c)"
    using standard_year_length [OF assms] by auto
  ultimately show ?thesis using weeks_tiles_from [of 1 "Time (standardYearStart c)" "Time (standardYearEnd c)"] by simp
qed

section \<open>Week-based periods\<close>

lemma weekLoop_tiles:
  assumes "ws \<noteq> []" "\<forall>w \<in> set ws. 1 \<le> w"
  shows "tiles (map span (weekLoop pre i start ws)) (Time start) (Time start + 7 * sum_list ws - 1)"
  using assms
proof (induction ws arbitrary: i start)
  case (Cons w ws)
  show ?case
  proof (cases "ws = []")
    case True
    with Cons.prems show ?thesis by (simp add: Let_def tiles_single algebra_simps)
  next
    case False
    with Cons.IH [of "i + 1" "addDays (addDays start (w * 7 - 1)) 1"] Cons.prems
    have "tiles (map span (weekLoop pre (i + 1) (addDays (addDays start (w * 7 - 1)) 1) ws))
      (Time start + w * 7) (Time start + w * 7 + 7 * sum_list ws - 1)" by simp
    moreover have "weekLoop pre (i + 1) (addDays (addDays start (w * 7 - 1)) 1) ws \<noteq> []"
      using False by (cases ws) (simp_all add: Let_def)
    ultimately show ?thesis using Cons.prems by (simp add: Let_def tiles_Cons algebra_simps)
  qed
qed simp

lemma weekLoop_codes: "map pCode (weekLoop pre i start ws) = map (\<lambda>k. pre @ itoa k) [i + 1..i + int (length ws)]"
proof (induction ws arbitrary: i start)
  case (Cons w ws)
  have "[i + 1..i + int (length (w # ws))] = (i + 1) # [i + 1 + 1..i + 1 + int (length ws)]"
    by (simp add: upto_rec1 algebra_simps)
  then show ?case by (simp add: Let_def Cons.IH)
qed simp

lemma update_last: "xs \<noteq> [] \<Longrightarrow> xs[length xs - 1 := v] = butlast xs @ [v]"
  by (induction xs rule: rev_induct) simp_all

lemma bump_last:
  fixes xs :: "int list"
  assumes "xs \<noteq> []"
  shows "xs[length xs - 1 := xs ! (length xs - 1) + 1] = butlast xs @ [last xs + 1]"
  by (simp only: update_last [OF assms] last_conv_nth [OF assms])

lemma sum_list_bump_last:
  fixes xs :: "int list"
  assumes "xs \<noteq> []"
  shows "sum_list (xs[length xs - 1 := xs ! (length xs - 1) + 1]) = sum_list xs + 1"
proof -
  have "sum_list (butlast xs @ [last xs]) = sum_list xs" using assms by simp
  then show ?thesis unfolding bump_last [OF assms] by simp
qed

lemma bump_last_pos:
  fixes xs :: "int list"
  assumes "xs \<noteq> []" "\<forall>w \<in> set xs. 1 \<le> w"
  shows "\<forall>w \<in> set (xs[length xs - 1 := xs ! (length xs - 1) + 1]). 1 \<le> w"
proof -
  have l: "1 \<le> last xs" using assms last_in_set [OF assms(1)] by blast
  have "1 \<le> last xs + 1" using l by linarith
  moreover have "1 \<le> w" if "w \<in> set (butlast xs)" for w
    using that assms(2) by (blast dest: in_set_butlastD)
  ultimately show ?thesis unfolding bump_last [OF assms(1)] by simp
qed

lemma weekGroups_weeks:
  assumes "weekGroups c p = Inr (pre, ws)" "wf_calendar c" "week_based c"
  shows "ws \<noteq> []" "\<forall>w \<in> set ws. 1 \<le> w"
    "sum_list ws = (if p = ''weekly'' then c_weeks c else 52)"
proof -
  have k: "c_weeks c = 52 \<or> c_weeks c = 53" using assms(2,3) by (simp add: wf_calendar_def)
  have pat: "ws = weekPattern c \<or> ws = [13, 13, 13, 13] \<or> ws = [26, 26] \<or> ws = [52]"
    if "p \<noteq> ''weekly''"
    using assms(1) that by (auto simp: weekGroups_def split: if_splits)
  have wk: "ws = replicate (nat (c_weeks c)) 1" if "p = ''weekly''"
    using assms(1) that by (auto simp: weekGroups_def)
  have wp: "weekPattern c \<noteq> []" "\<forall>w \<in> set (weekPattern c). 1 \<le> w" "sum_list (weekPattern c) = 52"
    by (simp_all add: weekPattern_def repeatQuarters_def numeral_eq_Suc)
  show "ws \<noteq> []" "\<forall>w \<in> set ws. 1 \<le> w" "sum_list ws = (if p = ''weekly'' then c_weeks c else 52)"
    using pat wk wp k by (cases "p = ''weekly''"; auto simp: sum_list_replicate)+
qed

lemma weekPeriods_tiles:
  assumes "weekPeriods c p = Inr ps" "wf_calendar c" "week_based c"
  shows "tiles (map span ps) (Time (c_yearStart c)) (Time (c_yearEnd c))"
proof -
  obtain pre ws where g: "weekGroups c p = Inr (pre, ws)"
    using assms(1) by (auto simp: weekPeriods_def split: sum.splits)
  note w = weekGroups_weeks [OF g assms(2,3)]
  let ?bump = "c_weeks c = 53 \<and> p \<noteq> ''weekly''"
  let ?ws = "if ?bump then ws[length ws - 1 := ws ! (length ws - 1) + 1] else ws"
  have ps: "ps = weekLoop pre 0 (c_yearStart c) ?ws"
    using assms(1) g by (simp add: weekPeriods_def Let_def)
  have "c_weeks c = 52 \<or> c_weeks c = 53" and len: "Time (c_yearEnd c) = Time (c_yearStart c) + 7 * c_weeks c - 1"
    using assms(2,3) by (auto simp: wf_calendar_def)
  then have "sum_list ?ws = c_weeks c"
    using w(3) sum_list_bump_last [OF w(1)] by auto
  moreover have "?ws \<noteq> []" "\<forall>w \<in> set ?ws. 1 \<le> w"
    using w(1,2) bump_last_pos [OF w(1,2)] by auto
  ultimately show ?thesis
    using weekLoop_tiles [of ?ws pre 0 "c_yearStart c"] ps len by simp
qed

section \<open>Custom periods\<close>

lemma days_before_month_mono:
  assumes "a \<le> b" "1 \<le> a" "b < 12"
  shows "days_before_month l a + month_len l a \<le> days_before_month l (b + 1)"
  using assms(1,3)
proof (induction b rule: int_ge_induct)
  case base
  then show ?case using days_before_month_next [of a l] assms(2) by simp
next
  case (step i)
  have "days_before_month l (i + 1 + 1) = days_before_month l (i + 1) + month_len l (i + 1)"
    using days_before_month_next [of "i + 1" l] step assms(2) by simp
  then show ?case using step month_len_pos(1) [of l "i + 1"] by linarith
qed

lemma Time_less_Month:
  assumes "valid_date a" "valid_date b" "Year a = Year b" "Month a < Month b"
  shows "Time a < Time b"
proof -
  have "days_before_month l (Month a) + month_len l (Month a) \<le> days_before_month l (Month b)" for l
    using days_before_month_mono [of "Month a" "Month b - 1" l] assms by (simp add: valid_date_def)
  from this [of "is_leap (Year b)"] show ?thesis
    using assms by (auto simp: valid_date_def Time_def go_Date_valid)
qed

lemma customPeriod_first:
  assumes "customPeriod c None cp = Inr p" "wf_calendar c"
  shows "valid_date (pStart p)" "valid_date (pEnd p)" "Time (pStart p) \<le> Time (pEnd p)" "pCode p = cpCode cp"
proof -
  obtain em ed sm sd where e: "ParseMonthDay (cpEndDate cp) = Inr (em, ed)"
    and s: "ParseMonthDay (cpStartDate cp) = Inr (sm, sd)"
    using assms(1) by (auto simp: customPeriod_def split: sum.splits)
  let ?e = "placeMonthDay (placeMonth c em) em ed" and ?s = "placeMonthDay (placeMonth c sm) sm sd"
  let ?s' = "placeMonthDay (placeMonth c sm - 1) sm sd"
  have p: "p = newPeriod (cpCode cp) (cpName cp) (if Time ?s > Time ?e then ?s' else ?s) ?e"
    using assms(1) e s by (auto simp: customPeriod_def Let_def)
  have md: "1 \<le> em" "em \<le> 12" "1 \<le> ed" "1 \<le> sm" "sm \<le> 12" "1 \<le> sd"
    using ParseMonthDay_Inr [OF e] ParseMonthDay_Inr [OF s] by auto
  then have v: "valid_date ?e" "valid_date ?s" "valid_date ?s'" by (simp_all add: valid_placeMonthDay)
  have le: "Time ?s' < Time ?e" if "Time ?s > Time ?e"
  proof (cases "placeMonth c sm - 1 < placeMonth c em")
    case True
    with v show ?thesis by (intro Time_less_Year) simp_all
  next
    case False
    then have "placeMonth c sm = placeMonth c em + 1" "sm < c_startMonth c" "\<not> em < c_startMonth c"
      by (auto simp: placeMonth_def fyStartYear_def split: if_splits)
    then have "Year ?s' = Year ?e" "Month ?s' < Month ?e" by simp_all
    with v show ?thesis by (intro Time_less_Month)
  qed
  show "valid_date (pStart p)" "valid_date (pEnd p)" "Time (pStart p) \<le> Time (pEnd p)" "pCode p = cpCode cp"
    using p v le by auto
qed

lemma customPeriod_next:
  assumes "customPeriod c (Some q) cp = Inr p"
  shows "valid_date (pStart p)" "valid_date (pEnd p)" "Time (pStart p) \<le> Time (pEnd p)"
    "pStart p = addDays (pEnd q) 1" "pCode p = cpCode cp"
proof -
  obtain em ed sm sd where e: "ParseMonthDay (cpEndDate cp) = Inr (em, ed)"
    and s: "ParseMonthDay (cpStartDate cp) = Inr (sm, sd)"
    using assms(1) by (auto simp: customPeriod_def split: sum.splits)
  let ?s = "addDays (pEnd q) 1"
  let ?e = "placeMonthDay (Year ?s) em ed" and ?e' = "placeMonthDay (Year ?s + 1) em ed"
  have p: "p = newPeriod (cpCode cp) (cpName cp) ?s (if Time ?e < Time ?s then ?e' else ?e)"
    using assms(1) e s by (auto simp: customPeriod_def Let_def split: if_splits)
  have v: "valid_date ?e" "valid_date ?e'"
    using ParseMonthDay_Inr [OF e] by (simp_all add: valid_placeMonthDay)
  have "Time ?s < Time ?e'" using v by (intro Time_less_Year) simp_all
  then show "valid_date (pStart p)" "valid_date (pEnd p)" "Time (pStart p) \<le> Time (pEnd p)"
    "pStart p = addDays (pEnd q) 1" "pCode p = cpCode cp"
    using p v by auto
qed

lemma customLoop_tiles_Some:
  assumes "customLoop c (Some q) cps = Inr ps" "cps \<noteq> []"
  shows "ps \<noteq> [] \<and> tiles (map span ps) (Time (pEnd q) + 1) (Time (pEnd (last ps)))"
  using assms
proof (induction cps arbitrary: q ps)
  case (Cons cp cps)
  obtain p qs where p: "customPeriod c (Some q) cp = Inr p" and qs: "customLoop c (Some p) cps = Inr qs"
    and ps: "ps = p # qs"
    using Cons.prems by (auto split: sum.splits)
  note pn = customPeriod_next [OF p]
  show ?case
  proof (cases "cps = []")
    case True
    with qs ps pn show ?thesis by (simp add: tiles_single)
  next
    case False
    with Cons.IH [OF qs] ps pn show ?thesis by (simp add: tiles_Cons)
  qed
qed auto

lemma customLoop_tiles:
  assumes "customLoop c None cps = Inr ps" "wf_calendar c" "cps \<noteq> []"
  shows "ps \<noteq> []" "tiles (map span ps) (Time (pStart (hd ps))) (Time (pEnd (last ps)))"
proof -
  obtain cp cps' where cps: "cps = cp # cps'" using assms(3) by (cases cps) auto
  obtain p qs where p: "customPeriod c None cp = Inr p" and qs: "customLoop c (Some p) cps' = Inr qs"
    and ps: "ps = p # qs"
    using assms(1) cps by (auto split: sum.splits)
  note pf = customPeriod_first [OF p assms(2)]
  show "ps \<noteq> []" by (simp add: ps)
  show "tiles (map span ps) (Time (pStart (hd ps))) (Time (pEnd (last ps)))"
  proof (cases "cps' = []")
    case True
    with qs ps pf show ?thesis by (simp add: tiles_single)
  next
    case False
    with customLoop_tiles_Some [OF qs] ps pf show ?thesis by (simp add: tiles_Cons)
  qed
qed

lemma customPeriod_code:
  assumes "customPeriod c prev cp = Inr p"
  shows "pCode p = cpCode cp"
proof (cases prev)
  case None
  with assms show ?thesis
    by (auto simp: customPeriod_def Let_def split: sum.splits)
next
  case (Some q)
  with assms customPeriod_next(5) show ?thesis by simp
qed

lemma customLoop_codes: "customLoop c prev cps = Inr ps \<Longrightarrow> map pCode ps = map cpCode cps"
proof (induction cps arbitrary: prev ps)
  case (Cons cp cps)
  then obtain p qs where p: "customPeriod c prev cp = Inr p" and "customLoop c (Some p) cps = Inr qs"
    and "ps = p # qs"
    by (auto split: sum.splits)
  with Cons.IH customPeriod_code [OF p] show ?case by simp
qed simp

section \<open>The calendar as the program builds it\<close>

lemma customLoop_chained:
  "customLoop c prev cps = Inr ps \<Longrightarrow>
     chained (\<lambda>p q. pStart q = addDays (pEnd p) 1) (case prev of None \<Rightarrow> ps | Some q \<Rightarrow> q # ps)"
proof (induction cps arbitrary: prev ps)
  case (Cons cp cps)
  then obtain p qs where p: "customPeriod c prev cp = Inr p" and qs: "customLoop c (Some p) cps = Inr qs"
    and ps: "ps = p # qs"
    by (auto split: sum.splits)
  show ?case
  proof (cases prev)
    case None
    with Cons.IH [OF qs] ps show ?thesis by simp
  next
    case (Some q)
    with Cons.IH [OF qs] ps customPeriod_next(4) [of c q cp p] p show ?thesis by simp
  qed
qed (simp split: option.splits)

lemmas customLoop_chained_None = customLoop_chained [where prev = None, simplified]

lemma standard_wf:
  assumes "wf_calendar c" "\<not> week_based c"
  shows "c_weeks c = 0" "c_pattern c = ''standard'' \<or> c_pattern c = ''custom''"
  using assms by (auto simp: wf_calendar_def)

lemma pattern_week_based:
  "week_based c \<Longrightarrow> c_pattern c \<noteq> ''standard'' \<and> c_pattern c \<noteq> ''custom''"
  by (auto simp: week_based_def)

lemma YearStart_End:
  assumes "wf_calendar c"
  shows "YearStart c = (if week_based c then c_yearStart c else standardYearStart c)"
    "YearEnd c = (if week_based c then c_yearEnd c else standardYearEnd c)"
  using assms by (auto simp: YearStart_def YearEnd_def wf_calendar_def)

lemma standardPeriods_tiles:
  assumes "wf_calendar c" "standardPeriods c p = Inr ps"
  shows "tiles (map span ps) (Time (standardYearStart c)) (Time (standardYearEnd c))"
  using assms monthGroups_tiles [OF assms(1)] standardWeeks_tiles [OF assms(1)]
  by (auto simp: standardPeriods_def split: if_splits)

lemma standardYear_le:
  assumes "wf_calendar c"
  shows "Time (standardYearStart c) \<le> Time (standardYearEnd c)"
  using standard_year_length [OF assms] by auto

text \<open>The year as a whole is what the periods tile, except for a custom calendar's own list.\<close>

definition own_list :: "calendar \<Rightarrow> string \<Rightarrow> bool" where
  "own_list c p \<longleftrightarrow> c_pattern c = ''custom'' \<and> p \<in> {''monthly'', ''quarterly'', ''bi-annual''}"

lemma Calendar_Periods_tiles:
  assumes "wf_calendar c" "Calendar_Periods c p = Inr ps" "\<not> own_list c p"
  shows "tiles (map span ps) (Time (YearStart c)) (Time (YearEnd c))"
proof (cases "week_based c")
  case True
  with assms(2) pattern_week_based have "weekPeriods c p = Inr ps" by (auto simp: Calendar_Periods_def)
  from weekPeriods_tiles [OF this assms(1) True] show ?thesis
    using True by (simp add: YearStart_End [OF assms(1)])
next
  case False
  show ?thesis
  proof (cases "c_pattern c = ''standard''")
    case True
    with assms(2) have "standardPeriods c p = Inr ps" by (simp add: Calendar_Periods_def)
    from standardPeriods_tiles [OF assms(1) this] show ?thesis
      using False by (simp add: YearStart_End [OF assms(1)])
  next
    case ns: False
    then have cu: "c_pattern c = ''custom''" using standard_wf(2) [OF assms(1) False] by simp
    with assms(2,3) have "map span ps = [(Time (standardYearStart c), Time (standardYearEnd c))]"
      by (auto simp: Calendar_Periods_def customPeriodList_def own_list_def split: if_splits)
    then show ?thesis
      using False standardYear_le [OF assms(1)] by (simp add: YearStart_End [OF assms(1)] tiles_single)
  qed
qed

lemma custom_Periods_tiles:
  assumes "wf_calendar c" "Calendar_Periods c p = Inr ps" "own_list c p"
  shows "ps \<noteq> []" "tiles (map span ps) (Time (pStart (hd ps))) (Time (pEnd (last ps)))"
    "map pCode ps = map cpCode (c_customPeriods c)"
proof -
  have loop: "customLoop c None (c_customPeriods c) = Inr ps"
    using assms(2,3) by (auto simp: Calendar_Periods_def customPeriodList_def own_list_def)
  have "\<not> week_based c" using assms(3) pattern_week_based by (auto simp: own_list_def)
  then have ne: "c_customPeriods c \<noteq> []"
    using assms(1,3) by (auto simp: wf_calendar_def own_list_def)
  show "ps \<noteq> []" "tiles (map span ps) (Time (pStart (hd ps))) (Time (pEnd (last ps)))"
    using customLoop_tiles [OF loop assms(1) ne] by simp_all
  show "map pCode ps = map cpCode (c_customPeriods c)" by (rule customLoop_codes [OF loop])
qed

text \<open>Every successful construction is well formed.\<close>

lemma NewCalendar_wf:
  assumes "NewCalendar pat fye wed rule cps fy = Inr c"
  shows "wf_calendar c" "c_fiscalYear c = fy" "c_customPeriods c = cps \<or> week_based c"
    "c_pattern c = (if pat = [] then ''standard'' else pat)"
    "calendar_config_ok pat fye wed rule cps fy"
proof -
  let ?p = "if pat = [] then ''standard'' else pat"
  let ?fye = "if fye = [] then ''12-31'' else fye"
  have sup: "IsSupportedPattern ?p" "1900 \<le> fy" "fy \<le> 2200"
    using assms by (auto simp: NewCalendar_def Let_def not_less split: if_splits)
  obtain mm dd where md: "ParseMonthDay ?fye = Inr (mm, dd)"
    using assms sup by (cases "ParseMonthDay ?fye") (auto simp: NewCalendar_def Let_def not_less)
  have rng: "1 \<le> mm" "mm \<le> 12" "1 \<le> dd" using ParseMonthDay_Inr [OF md] by auto
  have sup': "IsSupportedPattern pat" using sup(1) by (cases "pat = []") (simp_all add: IsSupportedPattern_def)
  have fye: "fye = [] \<or> is_ok (ParseMonthDay fye)" using md by auto
  have "wf_calendar c \<and> c_fiscalYear c = fy \<and> (c_customPeriods c = cps \<or> week_based c) \<and>
    c_pattern c = ?p \<and> calendar_config_ok pat fye wed rule cps fy"
  proof (cases "?p = ''standard'' \<or> ?p = ''custom''")
    case True
    have "c = \<lparr>c_pattern = ?p, c_fyEndMonth = mm, c_fyEndDay = dd, c_startMonth = go_rem mm 12 + 1,
       c_weekEndDay = 0, c_yearEndRule = [], c_customPeriods = cps, c_fiscalYear = fy,
       c_yearStart = zero_date, c_yearEnd = zero_date, c_weeks = 0\<rparr>" (is "c = ?c")
      and ne: "?p = ''custom'' \<Longrightarrow> cps \<noteq> []"
      using assms sup md True by (auto simp: NewCalendar_def Let_def split: if_splits)
    moreover have "\<not> week_based ?c" using True by (auto simp: week_based_def)
    ultimately show ?thesis
      using sup sup' rng True ne fye
      by (auto simp: wf_calendar_def calendar_config_ok_def split: if_splits)
  next
    case False
    then have wk: "?p \<in> {''445'', ''454'', ''544'', ''13-period'', ''weekly''}"
      using IsSupportedPattern_cases [OF sup(1)] by auto
    obtain wd where wd: "parseWeekday wed = Some wd"
      using assms sup md False by (cases "parseWeekday wed") (auto simp: NewCalendar_def Let_def split: if_splits)
    have rule: "rule \<in> {[], ''last'', ''nearest''}"
      using assms sup md False wd by (auto simp: NewCalendar_def Let_def split: if_splits)
    have pat: "pat \<noteq> []" using False by auto
    then have eq: "NewCalendar pat fye wed rule cps fy = NewCalendar ?p fye wed rule cps fy" by simp
    have pc: "c_pattern c = ?p"
      using assms sup md False wd by (auto simp: NewCalendar_def Let_def split: if_splits)
    obtain c' where c': "NewCalendar ?p fye wed rule cps fy = Inr c'" "wf_calendar c'" "week_based c'"
        "c_fiscalYear c' = fy"
      using NewCalendar_week [OF wk sup(2,3) md wd rule, of cps] by blast
    have "c' = c" using c'(1) assms eq by simp
    moreover have "wed = [] \<or> IsWeekEndDay wed" using wd by (auto simp: parseWeekday_def IsWeekEndDay_def)
    ultimately show ?thesis
      using c' pc sup sup' False rule fye pat by (auto simp: calendar_config_ok_def)
  qed
  then show "wf_calendar c" "c_fiscalYear c = fy" "c_customPeriods c = cps \<or> week_based c"
    "c_pattern c = ?p" "calendar_config_ok pat fye wed rule cps fy" by blast+
qed

lemma NewCalendar_complete:
  assumes "calendar_config_ok pat fye wed rule cps fy"
  shows "\<exists>c. NewCalendar pat fye wed rule cps fy = Inr c"
proof -
  have sup: "IsSupportedPattern pat" "1900 \<le> fy" "fy \<le> 2200" "\<not> fy < 1900" "\<not> fy > 2200"
    using assms by (auto simp: calendar_config_ok_def)
  let ?fye = "if fye = [] then ''12-31'' else fye"
  obtain mm dd where md: "ParseMonthDay ?fye = Inr (mm, dd)"
  proof (cases "fye = []")
    case False
    with assms have "is_ok (ParseMonthDay fye)" by (simp add: calendar_config_ok_def)
    with False that show ?thesis by (cases "ParseMonthDay fye") auto
  qed (use ParseMonthDay_default in simp)
  have "(pat = [] \<or> pat = ''standard'') \<or> pat = ''custom''
    \<or> pat \<in> {''445'', ''454'', ''544'', ''13-period'', ''weekly''}"
    using sup(1) unfolding IsSupportedPattern_def by (simp only: list.set insert_iff empty_iff HOL.disj_assoc) metis
  then consider (a) "pat = [] \<or> pat = ''standard''" | (b) "pat = ''custom''"
    | (d) "pat \<in> {''445'', ''454'', ''544'', ''13-period'', ''weekly''}"
    by metis
  then show ?thesis
  proof cases
    case a
    then have "IsSupportedPattern (if pat = [] then ''standard'' else pat)"
      by (auto simp: IsSupportedPattern_def)
    with a sup md show ?thesis by (auto simp: NewCalendar_def Let_def)
  next
    case b
    with assms have "cps \<noteq> []" by (simp add: calendar_config_ok_def)
    with b sup md show ?thesis by (auto simp: NewCalendar_def Let_def)
  next
    case d
    then have rest: "wed = [] \<or> IsWeekEndDay wed" "rule \<in> {[], ''last'', ''nearest''}"
      using assms by (auto simp: calendar_config_ok_def)
    from rest(1) obtain wd where wd: "parseWeekday wed = Some wd"
      by (cases "wed = []") (auto simp: parseWeekday_def IsWeekEndDay_def)
    from NewCalendar_week [OF d sup(2,3) md wd rest(2), of cps] show ?thesis by (elim exE conjE) (rule exI)
  qed
qed

end
