(* ===== verification/DeadlineProps.thy ===== *)
theory DeadlineProps
  imports DeadlineTiling
begin

text \<open>
  What the deadline engine promises: a fiscal calendar can be built exactly for the accepted
  configurations, its periods partition the fiscal year and are found by their codes,
  consecutive fiscal years abut, week-based years are whole weeks, and the offset and
  adjustment helpers land where their comments say.
\<close>

section \<open>Period codes\<close>

lemma map_itoa_distinct: "distinct (map (\<lambda>k. pre @ itoa k) [1..n])"
  by (auto simp: distinct_map inj_on_def itoa_inj)

lemma monthGroups_codes: "map pCode (monthGroups c pre k n) = map (\<lambda>i. pre @ itoa i) [1..n]"
  by (simp add: monthGroups_def comp_def split_beta)

lemma standardWeeks_codes: "map pCode (standardWeeks c) = map (\<lambda>i. ''W'' @ itoa i) [1..52]"
  by (simp only: standardWeeks_def map_map comp_def Let_def newPeriod_sel)

lemma standardPeriods_codes:
  assumes "standardPeriods c p = Inr ps"
  shows "distinct (map pCode ps)"
proof -
  have "distinct (map pCode (monthGroups c pre k n))" "distinct (map pCode (standardWeeks c))" for pre k n
    unfolding monthGroups_codes standardWeeks_codes by (rule map_itoa_distinct)+
  with assms show ?thesis
    unfolding standardPeriods_def by (metis sum.inject(2) sum.distinct(1))
qed

lemma weekPeriods_codes: "weekPeriods c p = Inr ps \<Longrightarrow> distinct (map pCode ps)"
  using map_itoa_distinct
  by (auto simp: weekPeriods_def weekLoop_codes Let_def split: sum.splits)

lemma Calendar_Periods_codes:
  assumes "Calendar_Periods c p = Inr ps" "\<not> own_list c p"
  shows "distinct (map pCode ps)"
proof -
  consider "standardPeriods c p = Inr ps" | "weekPeriods c p = Inr ps"
    | "customPeriodList c p = Inr ps" "c_pattern c = ''custom''"
    using assms(1) unfolding Calendar_Periods_def by (metis (full_types))
  then show ?thesis
  proof cases
    case 3
    with assms(2) show ?thesis by (auto simp: customPeriodList_def own_list_def split: if_splits)
  qed (simp_all add: standardPeriods_codes weekPeriods_codes)
qed

lemma find_distinct_key:
  assumes "distinct (map f xs)"
  shows "find (\<lambda>x. f x = k) xs = Some y \<longleftrightarrow> y \<in> set xs \<and> f y = k"
  using assms by (induction xs) (auto simp: rev_image_eqI)

section \<open>Construction and the periods of a year\<close>

lemma NewCalendar_ok:
  "is_ok (NewCalendar pat fye wed rule cps fy) \<longleftrightarrow> calendar_config_ok pat fye wed rule cps fy"
proof (cases "NewCalendar pat fye wed rule cps fy")
  case (Inl e)
  then show ?thesis using NewCalendar_complete [of pat fye wed rule cps fy] by auto
next
  case (Inr c)
  then show ?thesis using NewCalendar_wf(5) [OF Inr] by simp
qed

text \<open>
  A calendar is built exactly for the supported patterns, years 1900 to 2200, a
  valid (or empty) year end, a custom list where the pattern is custom, and a week-end day and
  year-end rule of the lists where the pattern is week based. In particular the "spans %d days"
  error of the week-based patterns cannot occur.
\<close>

theorem NewCalendar_accepts:
  "is_ok (NewCalendar pat fye wed rule cps fy) \<longleftrightarrow> calendar_config_ok pat fye wed rule cps fy"
  by (rule NewCalendar_ok)

text \<open>
  Property C3. For every calendar the engine builds and every periodicity whose periods are not
  the calendar's own custom list, the periods partition the fiscal year: a day lies in some
  period exactly when it lies in the fiscal year, and then in exactly one; the codes are
  pairwise different.
\<close>

theorem periods_partition_fiscal_year:
  assumes "NewCalendar pat fye wed rule cps fy = Inr c" "Calendar_Periods c p = Inr ps"
    and "\<not> own_list c p"
  shows "((\<exists>q \<in> set ps. Time (pStart q) \<le> t \<and> t \<le> Time (pEnd q)) \<longleftrightarrow>
            Time (YearStart c) \<le> t \<and> t \<le> Time (YearEnd c)) \<and>
         card {i. i < length ps \<and> Time (pStart (ps ! i)) \<le> t \<and> t \<le> Time (pEnd (ps ! i))} \<le> 1 \<and>
         distinct (map pCode ps)"
proof -
  let ?I = "{i. i < length ps \<and> Time (pStart (ps ! i)) \<le> t \<and> t \<le> Time (pEnd (ps ! i))}"
  have tl: "tiles (map span ps) (Time (YearStart c)) (Time (YearEnd c))"
    using Calendar_Periods_tiles [OF NewCalendar_wf(1) [OF assms(1)] assms(2,3)] .
  have in_year: "Time (YearStart c) \<le> Time (pStart q) \<and> Time (pEnd q) \<le> Time (YearEnd c)"
    if "q \<in> set ps" for q
    using tiles_bounds [OF tl] that by (fastforce simp: in_set_conv_nth)
  have one: "\<exists>!i. i \<in> ?I" if "Time (YearStart c) \<le> t" "t \<le> Time (YearEnd c)"
    using tiles_partition [OF tl that] by (simp cong: conj_cong)
  have "card ?I \<le> 1"
  proof (cases "?I = {}")
    case False
    then obtain i where "i < length ps" "Time (pStart (ps ! i)) \<le> t" "t \<le> Time (pEnd (ps ! i))" by auto
    then have "Time (YearStart c) \<le> t" "t \<le> Time (YearEnd c)" using in_year [of "ps ! i"] by auto
    then obtain j where "?I = {j}" using one by blast
    then show ?thesis by (metis card_1_singleton_iff le_refl One_nat_def)
  qed (simp only: card.empty zero_le_one)
  moreover have "(\<exists>q \<in> set ps. Time (pStart q) \<le> t \<and> t \<le> Time (pEnd q)) \<longleftrightarrow>
      Time (YearStart c) \<le> t \<and> t \<le> Time (YearEnd c)"
    using one in_year by (fastforce simp: in_set_conv_nth)
  ultimately show ?thesis using Calendar_Periods_codes [OF assms(2,3)] by blast
qed

text \<open>The 4-4-5 calendar of fiscal year 2024 ending near 31 December, on a Saturday.\<close>

definition calendar_445_base :: calendar where
  "calendar_445_base = \<lparr>c_pattern = ''445'', c_fyEndMonth = 12, c_fyEndDay = 31, c_startMonth = 1,
     c_weekEndDay = 6, c_yearEndRule = ''nearest'', c_customPeriods = [], c_fiscalYear = 2024,
     c_yearStart = zero_date, c_yearEnd = zero_date, c_weeks = 0\<rparr>"

definition calendar_445 :: calendar where
  "calendar_445 = calendar_445_base
     \<lparr>c_yearEnd := New 2024 12 28, c_yearStart := New 2023 12 31, c_weeks := 52\<rparr>"

lemma calendar_445_dates:
  "weekYearEnd calendar_445_base 2024 = New 2024 12 28"
  "weekYearEnd calendar_445_base 2023 = New 2023 12 30"
  "daysBetween (New 2023 12 30) (New 2024 12 28) = 364"
  "addDays (New 2023 12 30) 1 = New 2023 12 31"
  "addDays (New 2023 12 31) 181 = New 2024 6 29"
  "addDays (New 2024 6 29) 1 = New 2024 6 30"
  "addDays (New 2024 6 30) 181 = New 2024 12 28"
  by code_simp+

lemma calendar_445_built: "NewCalendar ''445'' [] [] [] [] 2024 = Inr calendar_445"
  using calendar_445_dates(1-4)
  by (simp add: NewCalendar_def Let_def ParseMonthDay_default IsSupportedPattern_def
      parseWeekday_def calendar_445_def calendar_445_base_def)

definition halves_445 :: "period list" where
  "halves_445 =
         [newPeriod (''H'' @ itoa 1) [] (New 2023 12 31) (New 2024 6 29),
          newPeriod (''H'' @ itoa 2) [] (New 2024 6 30) (New 2024 12 28)]"

lemma calendar_445_halves:
  "Calendar_Periods calendar_445 ''bi-annual'' = Inr halves_445"
  by (simp add: halves_445_def Calendar_Periods_def weekPeriods_def weekGroups_def calendar_445_def
      calendar_445_base_def calendar_445_dates)

theorem periods_partition_witness:
  "card {i. i < length halves_445 \<and>
       Time (pStart (halves_445 ! i)) \<le> Time (New 2024 6 29) \<and>
       Time (New 2024 6 29) \<le> Time (pEnd (halves_445 ! i))} \<le> 1"
  using periods_partition_fiscal_year [OF calendar_445_built calendar_445_halves, of "Time (New 2024 6 29)"]
  by (simp add: own_list_def calendar_445_def calendar_445_base_def)

lemma period_lookup_iff:
  assumes "\<not> own_list c p"
  shows "Calendar_Period c code p = Inr q \<longleftrightarrow>
    (\<exists>ps. Calendar_Periods c p = Inr ps \<and> q \<in> set ps \<and> pCode q = code)"
proof (cases "Calendar_Periods c p")
  case (Inr ps)
  then have "Calendar_Period c code p = Inr q \<longleftrightarrow> find (\<lambda>x. pCode x = code) ps = Some q"
    by (simp add: Calendar_Period_def split: option.split)
  with find_distinct_key [OF Calendar_Periods_codes [OF Inr assms]] Inr show ?thesis by simp
qed (simp add: Calendar_Period_def)

text \<open>
  Looking a period up by code returns the one period of the year that carries the
  code, and fails exactly when no period carries it (or the periodicity has no periods).
\<close>

theorem period_lookup:
  assumes "\<not> own_list c p"
  shows "Calendar_Period c code p = Inr q \<longleftrightarrow>
    (\<exists>ps. Calendar_Periods c p = Inr ps \<and> q \<in> set ps \<and> pCode q = code)"
  using assms by (rule period_lookup_iff)

theorem period_lookup_witness:
  "Calendar_Period calendar_445 (''H'' @ itoa 2) ''bi-annual'' =
     Inr (newPeriod (''H'' @ itoa 2) [] (New 2024 6 30) (New 2024 12 28))"
  using period_lookup [of calendar_445 "''bi-annual''"] calendar_445_halves
  by (simp add: own_list_def calendar_445_def calendar_445_base_def halves_445_def)

section \<open>Consecutive years\<close>

lemma standardYear_next:
  assumes "wf_calendar c" "wf_calendar c'" "c_fiscalYear c' = c_fiscalYear c + 1"
    "c_fyEndMonth c' = c_fyEndMonth c"
  shows "standardYearStart c' = addDays (standardYearEnd c) 1"
proof -
  note m = wf_calendar_months [OF assms(1)] and m' = wf_calendar_months [OF assms(2)]
  have s: "c_startMonth c' = c_startMonth c"
    using assms by (simp add: wf_calendar_def)
  have "Time (standardYearEnd c) + 1 = Time (standardYearStart c')"
  proof (cases "c_startMonth c = 1")
    case True
    with m(5) s assms(3) show ?thesis
      by (simp add: standardYearEnd_def standardYearStart_def fyStartYear_def Time_New days_before_year_Suc
          days_before_month_def month_len_def)
  next
    case False
    let ?e = "c_fyEndMonth c"
    from False have e: "?e + 1 = c_startMonth c" "1 \<le> ?e" "?e < 12" using m by auto
    from days_before_month_next [of ?e "is_leap (c_fiscalYear c)"] e
    have "days_before_month (is_leap (c_fiscalYear c)) (c_startMonth c) =
        days_before_month (is_leap (c_fiscalYear c)) ?e + month_len (is_leap (c_fiscalYear c)) ?e" by simp
    with False m(1-4) s assms(3) show ?thesis
      by (simp add: standardYearEnd_def standardYearStart_def fyStartYear_def Time_New)
  qed
  moreover have "valid_date (standardYearStart c')"
    using m'(1,2) by (simp add: standardYearStart_def valid_date_New)
  ultimately show ?thesis by (metis addDays_eq_iff)
qed

lemma NewCalendar_month:
  assumes "NewCalendar pat fye wed rule cps fy = Inr c" "ParseMonthDay (if fye = [] then ''12-31'' else fye) = Inr (mm, dd)"
  shows "c_fyEndMonth c = mm" "c_fyEndDay c = dd"
  using assms by (auto simp: NewCalendar_def Let_def split: if_splits option.splits)

lemma NewCalendar_week_fields:
  assumes "NewCalendar pat fye wed rule cps fy = Inr c" "week_based c"
  shows "c_yearEnd c = weekYearEnd c fy" "c_yearStart c = addDays (weekYearEnd c (fy - 1)) 1"
    "parseWeekday wed = Some (c_weekEndDay c)"
    "c_yearEndRule c = (if rule = [] then ''nearest'' else rule)"
proof -
  let ?fye = "if fye = [] then ''12-31'' else fye"
  obtain mm dd where md: "ParseMonthDay ?fye = Inr (mm, dd)"
    using assms(1) by (auto simp: NewCalendar_def Let_def split: if_splits sum.splits)
  have p: "c_pattern c = (if pat = [] then ''standard'' else pat)" using NewCalendar_wf(4) [OF assms(1)] .
  then have pat: "pat = c_pattern c" using pattern_week_based [OF assms(2)] by (auto split: if_splits)
  then have wk: "pat \<in> {''445'', ''454'', ''544'', ''13-period'', ''weekly''}"
    using assms(2) by (simp add: week_based_def)
  then have ok: "1900 \<le> fy" "fy \<le> 2200" "wed = [] \<or> IsWeekEndDay wed" "rule \<in> {[], ''last'', ''nearest''}"
    using NewCalendar_wf(5) [OF assms(1)] by (auto simp: calendar_config_ok_def)
  from ok(3) obtain wd where wd: "parseWeekday wed = Some wd"
    by (cases "wed = []") (auto simp: parseWeekday_def IsWeekEndDay_def)
  from NewCalendar_week [OF wk ok(1,2) md wd ok(4), of cps] assms(1) wd
  show "c_yearEnd c = weekYearEnd c fy" "c_yearStart c = addDays (weekYearEnd c (fy - 1)) 1"
    "parseWeekday wed = Some (c_weekEndDay c)"
    "c_yearEndRule c = (if rule = [] then ''nearest'' else rule)"
    by auto
qed

text \<open>
  Built from one configuration, a fiscal year starts on the day after the fiscal
  year before it ends, for every pattern: no day falls between two fiscal years and none in
  both.
\<close>

theorem fiscal_years_abut:
  assumes "NewCalendar pat fye wed rule cps fy = Inr c" "NewCalendar pat fye wed rule cps (fy + 1) = Inr c'"
  shows "YearStart c' = addDays (YearEnd c) 1"
proof -
  have wf: "wf_calendar c" "wf_calendar c'" and fy: "c_fiscalYear c = fy" "c_fiscalYear c' = fy + 1"
    and p: "c_pattern c' = c_pattern c"
    using NewCalendar_wf [OF assms(1)] NewCalendar_wf [OF assms(2)] by auto
  obtain mm dd where md: "ParseMonthDay (if fye = [] then ''12-31'' else fye) = Inr (mm, dd)"
    using assms(1) by (auto simp: NewCalendar_def Let_def split: if_split_asm sum.split_asm)
  note end_eq = NewCalendar_month [OF assms(1) md] NewCalendar_month [OF assms(2) md]
  show ?thesis
  proof (cases "week_based c")
    case True
    then have True': "week_based c'" using p by (simp add: week_based_def)
    note f = NewCalendar_week_fields [OF assms(1) True] and f' = NewCalendar_week_fields [OF assms(2) True']
    have "weekYearEnd c' = weekYearEnd c"
      by (rule weekYearEnd_cong) (use end_eq f(3,4) f'(3,4) in auto)
    with f(1) f'(2) True True' show ?thesis by (simp add: YearStart_End wf)
  next
    case False
    then have "\<not> week_based c'" using p by (simp add: week_based_def)
    with False show ?thesis
      using standardYear_next [OF wf] fy end_eq by (simp add: YearStart_End wf)
  qed
qed

lemma leap_february_calendars:
  "NewCalendar [] ''02-28'' [] [] [] 2024 = Inr (calendar_445_base
     \<lparr>c_pattern := ''standard'', c_fyEndMonth := 2, c_fyEndDay := 28, c_startMonth := 3, c_weekEndDay := 0, c_yearEndRule := []\<rparr>)"
  "NewCalendar [] ''02-28'' [] [] [] 2025 = Inr (calendar_445_base
     \<lparr>c_pattern := ''standard'', c_fyEndMonth := 2, c_fyEndDay := 28, c_startMonth := 3, c_weekEndDay := 0, c_yearEndRule := [],
      c_fiscalYear := 2025\<rparr>)"
proof -
  have "ParseMonthDay ''02-28'' = Inr (2, 28)" by code_simp
  then show
    "NewCalendar [] ''02-28'' [] [] [] 2024 = Inr (calendar_445_base
       \<lparr>c_pattern := ''standard'', c_fyEndMonth := 2, c_fyEndDay := 28, c_startMonth := 3, c_weekEndDay := 0, c_yearEndRule := []\<rparr>)"
    "NewCalendar [] ''02-28'' [] [] [] 2025 = Inr (calendar_445_base
       \<lparr>c_pattern := ''standard'', c_fyEndMonth := 2, c_fyEndDay := 28, c_startMonth := 3, c_weekEndDay := 0, c_yearEndRule := [],
        c_fiscalYear := 2025\<rparr>)"
    by (simp_all add: NewCalendar_def Let_def IsSupportedPattern_def calendar_445_base_def)
qed

theorem fiscal_years_abut_witness:
  "YearEnd (calendar_445_base
     \<lparr>c_pattern := ''standard'', c_fyEndMonth := 2, c_fyEndDay := 28, c_startMonth := 3, c_weekEndDay := 0, c_yearEndRule := []\<rparr>)
     = New 2024 2 29 \<and>
   YearStart (calendar_445_base
     \<lparr>c_pattern := ''standard'', c_fyEndMonth := 2, c_fyEndDay := 28, c_startMonth := 3, c_weekEndDay := 0, c_yearEndRule := [],
      c_fiscalYear := 2025\<rparr>) = addDays (New 2024 2 29) 1"
proof -
  have "YearEnd (calendar_445_base
     \<lparr>c_pattern := ''standard'', c_fyEndMonth := 2, c_fyEndDay := 28, c_startMonth := 3, c_weekEndDay := 0, c_yearEndRule := []\<rparr>)
     = New 2024 2 29" by code_simp
  then show ?thesis
    using fiscal_years_abut [OF leap_february_calendars(1), unfolded one_add_one] leap_february_calendars(2) by simp
qed

section \<open>Week-based years\<close>

lemma weekLoop_weekday:
  "p \<in> set (weekLoop pre i start ws) \<Longrightarrow> go_Weekday (Time (pEnd p)) = go_Weekday (Time start - 1)"
proof (induction ws arbitrary: i start)
  case (Cons w ws)
  have "go_Weekday (Time start + (w * 7 - 1)) = go_Weekday (Time start - 1)"
    "go_Weekday (Time start + w * 7 - 1) = go_Weekday (Time start - 1)"
    using mod_mult_self2 [of "Time start" 7 w] by (simp_all add: go_Weekday_def algebra_simps)
  then show ?case using Cons by (auto simp: Let_def)
qed simp

text \<open>
  A week-based year is 52 or 53 whole weeks that end on the configured week-end
  day, every period of it ends on that day, and the year ends at most six days before the
  month-day anchor under the rule "last", at most three days from it under "nearest".
\<close>

theorem week_based_year:
  assumes "NewCalendar pat fye wed rule cps fy = Inr c" "week_based c"
  shows "c_weeks c \<in> {52, 53} \<and> Time (YearEnd c) - Time (YearStart c) + 1 = 7 * c_weeks c \<and>
    go_Weekday (Time (YearEnd c)) = c_weekEndDay c \<and>
    (let d = Time (placeMonthDay fy (c_fyEndMonth c) (c_fyEndDay c)) - Time (YearEnd c)
     in if c_yearEndRule c = ''last'' then 0 \<le> d \<and> d \<le> 6 else - 3 \<le> d \<and> d \<le> 3) \<and>
    (\<forall>p ps. Calendar_Periods c p = Inr ps \<longrightarrow>
       (\<forall>q \<in> set ps. go_Weekday (Time (pEnd q)) = c_weekEndDay c))"
proof -
  have wf: "wf_calendar c" using NewCalendar_wf(1) [OF assms(1)] .
  note f = NewCalendar_week_fields [OF assms]
  have wd: "0 \<le> c_weekEndDay c" "c_weekEndDay c \<le> 6" using parseWeekday_range [OF f(3)] by auto
  have rule: "c_yearEndRule c = ''last'' \<or> c_yearEndRule c = ''nearest''"
    using NewCalendar_wf(4,5) [OF assms(1)] assms(2) f(4)
    by (auto simp: calendar_config_ok_def week_based_def split: if_splits)
  note spec = weekYearEnd_spec [OF wd rule, of fy]
  have starts: "go_Weekday (Time (YearStart c) - 1) = c_weekEndDay c"
    using weekYearEnd_spec(1) [OF wd rule, of "fy - 1"] f(2) assms(2) by (simp add: YearStart_End wf)
  have "\<forall>q \<in> set ps. go_Weekday (Time (pEnd q)) = c_weekEndDay c" if "Calendar_Periods c p = Inr ps" for p ps
  proof -
    have "weekPeriods c p = Inr ps"
      using that pattern_week_based [OF assms(2)] by (simp add: Calendar_Periods_def)
    with weekLoop_weekday starts assms(2) show ?thesis
      by (auto simp: weekPeriods_def YearStart_End wf Let_def split: sum.splits)
  qed
  moreover have "c_weeks c \<in> {52, 53}" "Time (YearEnd c) - Time (YearStart c) + 1 = 7 * c_weeks c"
    using wf assms(2) by (auto simp: wf_calendar_def YearStart_End)
  ultimately show ?thesis
    using spec rule f(1) assms(2) by (auto simp: YearStart_End wf Let_def)
qed

lemma week_based_445: "week_based calendar_445"
  by (simp add: week_based_def calendar_445_def calendar_445_base_def)

theorem week_based_year_witness:
  "go_Weekday (Time (YearEnd calendar_445)) = 6 \<and> Time (YearEnd calendar_445) - Time (YearStart calendar_445) + 1 = 7 * 52"
  using week_based_year [OF calendar_445_built week_based_445]
  by (simp add: calendar_445_def calendar_445_base_def)

section \<open>Custom calendars\<close>

text \<open>
  The own list of a custom calendar, when accepted, is contiguous: one period per
  configured entry, in order and under its code, none empty, each starting on the day after the
  one before it.
\<close>

theorem custom_periods_contiguous:
  assumes "NewCalendar pat fye wed rule cps fy = Inr c" "Calendar_Periods c p = Inr ps" "own_list c p"
  shows "map pCode ps = map cpCode cps \<and>
    (\<forall>i. Suc i < length ps \<longrightarrow> pStart (ps ! Suc i) = addDays (pEnd (ps ! i)) 1) \<and>
    (\<forall>q \<in> set ps. Time (pStart q) \<le> Time (pEnd q))"
proof -
  have wf: "wf_calendar c" and cps: "c_customPeriods c = cps \<or> week_based c"
    using NewCalendar_wf [OF assms(1)] by auto
  have "\<not> week_based c" using assms(3) by (auto simp: own_list_def week_based_def)
  with cps have cps: "c_customPeriods c = cps" by blast
  note t = custom_Periods_tiles [OF wf assms(2,3)]
  have loop: "customLoop c None cps = Inr ps"
    using assms(2,3) cps by (auto simp: Calendar_Periods_def customPeriodList_def own_list_def)
  have "\<forall>i. Suc i < length ps \<longrightarrow> pStart (ps ! Suc i) = addDays (pEnd (ps ! i)) 1"
    using customLoop_chained_None [OF loop] by (simp add: chained_nth)
  moreover have "\<forall>q \<in> set ps. Time (pStart q) \<le> Time (pEnd q)"
    using t(2) by (simp add: tiles_def)
  ultimately show ?thesis using t(3) cps by simp
qed

definition halves_calendar :: calendar where
  "halves_calendar = calendar_445_base
     \<lparr>c_pattern := ''custom'', c_weekEndDay := 0, c_yearEndRule := [],
      c_customPeriods := [\<lparr>cpCode = ''A'', cpName = [], cpStartDate = ''01-01'', cpEndDate = ''06-30''\<rparr>,
                          \<lparr>cpCode = ''B'', cpName = [], cpStartDate = ''07-01'', cpEndDate = ''12-31''\<rparr>]\<rparr>"

lemma halves_calendar_built:
  "NewCalendar ''custom'' ''12-31'' [] [] (c_customPeriods halves_calendar) 2024 = Inr halves_calendar"
  by (simp add: NewCalendar_def Let_def ParseMonthDay_default IsSupportedPattern_def
      halves_calendar_def calendar_445_base_def)

lemma halves_calendar_periods:
  "Calendar_Periods halves_calendar ''monthly'' =
     Inr [newPeriod ''A'' [] (New 2024 1 1) (New 2024 6 30), newPeriod ''B'' [] (New 2024 7 1) (New 2024 12 31)]"
proof -
  have md: "ParseMonthDay ''01-01'' = Inr (1, 1)" "ParseMonthDay ''06-30'' = Inr (6, 30)"
    "ParseMonthDay ''07-01'' = Inr (7, 1)" by code_simp+
  have dates: "placeMonthDay 2024 6 30 = New 2024 6 30" "placeMonthDay 2024 1 1 = New 2024 1 1"
    "placeMonthDay 2024 12 31 = New 2024 12 31" "addDays (New 2024 6 30) 1 = New 2024 7 1"
    "Time (New 2024 6 30) = 739066" "Time (New 2024 1 1) = 738885" "Time (New 2024 12 31) = 739250"
    "Time (New 2024 7 1) = 739067" by code_simp+
  show ?thesis
    by (simp add: Calendar_Periods_def customPeriodList_def halves_calendar_def calendar_445_base_def
        customPeriod_def md ParseMonthDay_default dates Let_def placeMonth_def fyStartYear_def)
qed

theorem custom_periods_witness: "New 2024 7 1 = addDays (New 2024 6 30) 1"
proof -
  have "own_list halves_calendar ''monthly''" by (simp add: own_list_def halves_calendar_def)
  from custom_periods_contiguous [OF halves_calendar_built halves_calendar_periods this] show ?thesis
    by (simp add: less_Suc_eq)
qed

section \<open>The first engine\<close>

lemma periodNumber_code:
  assumes "pre \<in> {''M'', ''Q'', ''H'', ''Y'', ''CY''}" "1 \<le> n" "n \<le> 99"
  shows "periodNumber (pre @ itoa n) = Inr n"
proof -
  have "dropWhile (\<lambda>ch. \<not> is_digit ch) (nat_text n) = nat_text n"
    using nat_text_hd [of n] assms(2) by auto
  then have "dropWhile (\<lambda>ch. \<not> is_digit ch) (pre @ itoa n) = itoa n"
    using assms(1,2) by (auto simp: itoa_nonneg is_digit_def)
  with atoi_itoa [of n] assms(2,3) show ?thesis
    by (simp add: periodNumber_def Let_def itoa_nonneg)
qed

lemma PeriodEndDate_month:
  assumes "wf_calendar c" "lastFiscalMonth code p = Inr f" "1 \<le> f" "f \<le> 12"
  shows "PeriodEndDate code p (c_startMonth c) (c_fiscalYear c) = Inr (fm_last c f)"
proof -
  have "1 \<le> calendarMonth f (c_startMonth c)" "calendarMonth f (c_startMonth c) \<le> 12"
    using calendarMonth_range [of "c_startMonth c" f] wf_calendar_months [OF assms(1)] assms(3,4) by auto
  then show ?thesis
    using fm_first_last(2) [OF assms(1,3,4)] assms(2)
    by (simp add: PeriodEndDate_def placeMonth_def fyStartYear_def Let_def)
qed

text \<open>The month groups of the standard calendar: code prefix, months per period, periods.\<close>

definition std_group :: "string \<Rightarrow> (string \<times> int \<times> int) option" where
  "std_group = map_of [(''monthly'', ''M'', 1, 12), (''quarterly'', ''Q'', 3, 4), (''bi-annual'', ''H'', 6, 2),
     (''annual'', ''Y'', 12, 1), (''consolidated-annual'', ''CY'', 12, 1)]"

lemma standardPeriods_group:
  "p \<noteq> ''weekly'' \<Longrightarrow> standardPeriods c p = (case std_group p of
     Some (pre, k, n) \<Rightarrow> Inr (monthGroups c pre k n)
   | None \<Rightarrow> Inl (Errorf ''deadline: unsupported periodicity %q'' [S p]))"
  by (simp add: standardPeriods_def std_group_def)

lemma std_group_facts:
  assumes "std_group p = Some (pre, k, n)"
  shows "pre \<in> {''M'', ''Q'', ''H'', ''Y'', ''CY''}" "n * k = 12" "1 \<le> k" "n \<le> 12"
  using assms by (auto simp: std_group_def split: if_split_asm)

lemma lastFiscalMonth_group:
  assumes "std_group p = Some (pre, k, n)" "1 \<le> i" "i \<le> n"
  shows "lastFiscalMonth (pre @ itoa i) p = Inr (i * k)"
proof -
  have "periodNumber (pre @ itoa i) = Inr i"
    by (rule periodNumber_code) (use std_group_facts [OF assms(1)] assms(2,3) in auto)
  with assms show ?thesis by (auto simp: lastFiscalMonth_def std_group_def split: if_split_asm)
qed

lemma Calendar_Period_mem:
  "Calendar_Period c code p = Inr q \<Longrightarrow> \<exists>ps. Calendar_Periods c p = Inr ps \<and> q \<in> set ps \<and> pCode q = code"
  by (auto simp: Calendar_Period_def find_Some_iff split: sum.splits option.splits)

text \<open>
  On standard calendars the calendar engine extends the first one: whenever it
  resolves a month-based period code, \<^verbatim>\<open>PeriodEndDate\<close> with the calendar's start month and
  fiscal year computes the same period end.
\<close>

theorem PeriodEndDate_agrees:
  assumes "NewCalendar pat fye wed rule cps fy = Inr c" "c_pattern c = ''standard''"
    and "Calendar_Period c code p = Inr q" "p \<noteq> ''weekly''"
  shows "PeriodEndDate code p (c_startMonth c) fy = Inr (pEnd q)"
proof -
  have wf: "wf_calendar c" "c_fiscalYear c = fy" using NewCalendar_wf [OF assms(1)] by auto
  from Calendar_Period_mem [OF assms(3)]
  obtain ps where ps: "standardPeriods c p = Inr ps" "q \<in> set ps" "pCode q = code"
    by (auto simp: Calendar_Periods_def assms(2))
  then obtain pre k n where g: "std_group p = Some (pre, k, n)" "ps = monthGroups c pre k n"
    using standardPeriods_group [OF assms(4), of c] by (auto split: option.splits)
  then obtain i where i: "1 \<le> i" "i \<le> n" "code = pre @ itoa i" "pEnd q = fm_last c (i * k)"
    using ps(2,3) by (auto simp: monthGroups_def fiscalMonthRange_eq)
  have "1 \<le> i * k" "i * k \<le> 12"
    using i(1,2) std_group_facts(2,3) [OF g(1)] mult_mono [of 1 i 1 k] mult_right_mono [of i n k] by auto
  with PeriodEndDate_month [OF wf(1) lastFiscalMonth_group [OF g(1) i(1,2)]] i wf(2) show ?thesis by simp
qed

theorem PeriodEndDate_agrees_witness: "PeriodEndDate ''Q4'' ''quarterly'' 3 2024 = Inr (New 2024 2 29)"
proof -
  let ?c = "calendar_445_base \<lparr>c_pattern := ''standard'', c_fyEndMonth := 2, c_fyEndDay := 28,
    c_startMonth := 3, c_weekEndDay := 0, c_yearEndRule := []\<rparr>"
  have r: "fiscalMonthRange ?c 10 12 = (New 2023 12 1, New 2024 2 29)" by code_simp
  have "Calendar_Periods ?c ''quarterly'' = Inr (monthGroups ?c ''Q'' 3 4)"
    by (simp add: Calendar_Periods_def standardPeriods_def)
  moreover have "newPeriod (''Q'' @ itoa 4) [] (New 2023 12 1) (New 2024 2 29) \<in> set (monthGroups ?c ''Q'' 3 4)"
    using r by (auto simp: monthGroups_def intro!: image_eqI [of _ _ 4])
  ultimately have "Calendar_Period ?c (''Q'' @ itoa 4) ''quarterly'' =
      Inr (newPeriod (''Q'' @ itoa 4) [] (New 2023 12 1) (New 2024 2 29))"
    by (subst period_lookup_iff) (simp_all add: own_list_def)
  moreover have "itoa 4 = ''4''" by code_simp
  ultimately show ?thesis
    using PeriodEndDate_agrees [OF leap_february_calendars(1), of "''Q4''" "''quarterly''"] by simp
qed

section \<open>Offsets, fixed dates and weekends\<close>

text \<open>
  Month arithmetic keeps the day unless the target month is shorter, and then uses
  its last day; the result is a calendar date exactly that many months away, and days are added
  after the months.
\<close>

theorem month_offset_clamps:
  assumes "valid_date d"
  shows "valid_date (addMonthsClamped d k) \<and>
    12 * Year (addMonthsClamped d k) + Month (addMonthsClamped d k) = 12 * Year d + Month d + k \<and>
    Day (addMonthsClamped d k) =
      min (Day d) (lastDayOfMonth (Year (addMonthsClamped d k)) (Month (addMonthsClamped d k))) \<and>
    Time (ApplyMonthDayOffset d k n) = Time (addMonthsClamped d k) + n"
proof -
  have v: "valid_date (addMonthsClamped d k)" using assms by (rule valid_addMonthsClamped)
  then have "1 \<le> Month (addMonthsClamped d k)" "Month (addMonthsClamped d k) \<le> 12"
    by (simp_all add: valid_date_def)
  with v addMonthsClamped_spec [of d k] show ?thesis
    by (simp add: month_index_def ApplyMonthDayOffset_def)
qed

theorem month_offset_clamps_witness:
  "Day (addMonthsClamped (New 2024 1 31) 1) = min 31 (lastDayOfMonth 2024 2) \<and> lastDayOfMonth 2024 2 = 29"
proof -
  have "valid_date (New 2024 1 31)" "Year (addMonthsClamped (New 2024 1 31) 1) = 2024"
    "Month (addMonthsClamped (New 2024 1 31) 1) = 2" "lastDayOfMonth 2024 2 = 29" by code_simp+
  with month_offset_clamps [of "New 2024 1 31" 1] show ?thesis by simp
qed

lemma go_Weekday_shift:
  "go_Weekday (t + k) = (go_Weekday t + k) mod 7"
  "go_Weekday (t - 1) = (go_Weekday t - 1) mod 7" "go_Weekday (t - 2) = (go_Weekday t - 2) mod 7"
  by (simp_all add: go_Weekday_def mod_simps algebra_simps)

lemma ApplyWeekendAdjustment_rest:
  assumes "adjustment \<noteq> []" "adjustment \<noteq> ''none''"
  shows "go_Weekday (Time (ApplyWeekendAdjustment d adjustment)) \<notin> {Saturday, Sunday}"
  using assms by (simp add: ApplyWeekendAdjustment_def go_Weekday_shift)

text \<open>
  The weekend adjustment never leaves a date on a weekend, moves only dates that
  are on one, forward by at most two days to the next business day under the rule of that name
  and back by at most two days under every other one, and is idempotent.
\<close>

theorem weekend_adjustment:
  assumes "adjustment \<noteq> []" "adjustment \<noteq> ''none''"
  shows "go_Weekday (Time (ApplyWeekendAdjustment d adjustment)) \<notin> {Saturday, Sunday} \<and>
    (go_Weekday (Time d) \<notin> {Saturday, Sunday} \<longrightarrow> ApplyWeekendAdjustment d adjustment = d) \<and>
    (if adjustment = ''next-business-day''
     then Time d \<le> Time (ApplyWeekendAdjustment d adjustment) \<and> Time (ApplyWeekendAdjustment d adjustment) \<le> Time d + 2
     else Time d - 2 \<le> Time (ApplyWeekendAdjustment d adjustment) \<and> Time (ApplyWeekendAdjustment d adjustment) \<le> Time d) \<and>
    ApplyWeekendAdjustment (ApplyWeekendAdjustment d adjustment) adjustment = ApplyWeekendAdjustment d adjustment"
proof -
  note rest = ApplyWeekendAdjustment_rest [OF assms]
  then have "ApplyWeekendAdjustment (ApplyWeekendAdjustment d adjustment) adjustment = ApplyWeekendAdjustment d adjustment"
    using assms by (subst ApplyWeekendAdjustment_def) simp
  with rest show ?thesis using assms by (simp add: ApplyWeekendAdjustment_def)
qed

theorem weekend_adjustment_witness:
  "go_Weekday (Time (ApplyWeekendAdjustment (New 2024 6 30) ''previous-business-day'')) \<notin> {Saturday, Sunday}"
  using weekend_adjustment [of "''previous-business-day''" "New 2024 6 30"] by simp

lemma fixedCandidate_spec:
  assumes "fixedCandidate from md = Inr d" "valid_date from"
  shows "\<exists>mm dd. ParseMonthDay md = Inr (mm, dd) \<and> valid_date d \<and> Time from \<le> Time d \<and>
    d = placeMonthDay (Year d) mm dd \<and> (\<forall>y. Time from \<le> Time (placeMonthDay y mm dd) \<longrightarrow> Year d \<le> y)"
proof -
  obtain mm dd where md: "ParseMonthDay md = Inr (mm, dd)"
    and d: "d = (if Time (placeMonthDay (Year from) mm dd) < Time from
      then placeMonthDay (Year from + 1) mm dd else placeMonthDay (Year from) mm dd)"
    using assms(1) by (auto simp: fixedCandidate_def Let_def split: sum.splits)
  note v = valid_placeMonthDay [of mm dd] ParseMonthDay_Inr [OF md]
  have later: "Year from \<le> y" if "Time from \<le> Time (placeMonthDay y mm dd)" for y
    using Time_less_Year [of "placeMonthDay y mm dd" "from"] v assms(2) that by fastforce
  have "Time from \<le> Time (placeMonthDay (Year from + 1) mm dd)"
    using Time_less_Year [of "from" "placeMonthDay (Year from + 1) mm dd"] v assms(2) by fastforce
  then have "valid_date d \<and> Time from \<le> Time d \<and> d = placeMonthDay (Year d) mm dd"
    using v d by auto
  moreover have "Year d \<le> y" if "Time from \<le> Time (placeMonthDay y mm dd)" for y
  proof (cases "y = Year from")
    case True
    with that d show ?thesis by simp
  next
    case False
    with later [OF that] d show ?thesis by auto
  qed
  ultimately show ?thesis using md by blast
qed

text \<open>
  When \<^verbatim>\<open>FirstFixedDateOnOrAfter\<close> answers,
  the result is on or after the given day, it is an occurrence of one of the month-days, and no
  occurrence of any of them lies between the given day and it.
\<close>

theorem first_fixed_date:
  assumes "valid_date from" "FirstFixedDateOnOrAfter from mds = Inr d"
  shows "Time from \<le> Time d \<and>
    (\<exists>md \<in> set mds. \<exists>mm dd. ParseMonthDay md = Inr (mm, dd) \<and> d = placeMonthDay (Year d) mm dd) \<and>
    (\<forall>md \<in> set mds. \<forall>mm dd y. ParseMonthDay md = Inr (mm, dd) \<longrightarrow>
       Time from \<le> Time (placeMonthDay y mm dd) \<longrightarrow> Time d \<le> Time (placeMonthDay y mm dd))"
proof -
  obtain cs where cs: "map (fixedCandidate from) mds = map Inr cs" and ne: "mds \<noteq> []"
    and d: "d = hd (sort_key Time cs)"
    using assms(2) by (auto simp: FirstFixedDateOnOrAfter_def traverse_Inr_iff split: if_splits sum.splits)
  have "cs \<noteq> []" using cs ne by auto
  then have srt: "sort_key Time cs \<noteq> []" by (metis length_sort length_0_conv)
  have dmem: "d \<in> set cs" using hd_in_set [OF srt] d by simp
  have dmin: "Time d \<le> Time e" if "e \<in> set cs" for e
  proof -
    have "sorted (map Time (sort_key Time cs))" by simp
    then show ?thesis using srt that d by (cases "sort_key Time cs") (auto simp flip: set_sort [of Time cs])
  qed
  have cand: "\<exists>e \<in> set cs. fixedCandidate from md = Inr e" if "md \<in> set mds" for md
    using cs that by (metis (no_types, lifting) image_iff list.set_map)
  have src: "\<exists>md \<in> set mds. fixedCandidate from md = Inr e" if "e \<in> set cs" for e
    using cs that by (metis (no_types, lifting) image_iff list.set_map)
  show ?thesis
  proof (intro conjI ballI allI impI)
    from src [OF dmem] obtain md where md: "md \<in> set mds" "fixedCandidate from md = Inr d" by blast
    from fixedCandidate_spec [OF md(2) assms(1)] obtain mm dd
      where s: "ParseMonthDay md = Inr (mm, dd)" "Time from \<le> Time d" "d = placeMonthDay (Year d) mm dd"
      by (elim exE conjE)
    show "Time from \<le> Time d" by (rule s(2))
    show "\<exists>md \<in> set mds. \<exists>mm dd. ParseMonthDay md = Inr (mm, dd) \<and> d = placeMonthDay (Year d) mm dd"
      by (intro bexI [OF _ md(1)] exI conjI) (rule s(1), rule s(3))
  next
    fix md mm dd y
    assume md: "md \<in> set mds" "ParseMonthDay md = Inr (mm, dd)" "Time from \<le> Time (placeMonthDay y mm dd)"
    from cand [OF md(1)] obtain e where e: "e \<in> set cs" "fixedCandidate from md = Inr e" by blast
    from fixedCandidate_spec [OF e(2) assms(1)] md(2,3)
    have "valid_date e" "e = placeMonthDay (Year e) mm dd" "Year e \<le> y" by auto
    moreover have "valid_date (placeMonthDay y mm dd)"
      using valid_placeMonthDay ParseMonthDay_Inr [OF md(2)] by blast
    ultimately have "Time e \<le> Time (placeMonthDay y mm dd)"
      using Time_less_Year [of e "placeMonthDay y mm dd"] by (cases "Year e = y") auto
    with dmin [OF e(1)] show "Time d \<le> Time (placeMonthDay y mm dd)" by simp
  qed
qed

theorem first_fixed_date_witness: "Time (New 2024 7 1) \<le> Time (New 2025 3 31)"
proof -
  have "ParseMonthDay ''03-31'' = Inr (3, 31)" "Time (placeMonthDay 2024 3 31) < Time (New 2024 7 1)"
    "placeMonthDay 2025 3 31 = New 2025 3 31" "valid_date (New 2024 7 1)" by code_simp+
  with first_fixed_date [of "New 2024 7 1" "[''03-31'']" "New 2025 3 31"] show ?thesis
    by (simp add: FirstFixedDateOnOrAfter_def fixedCandidate_def Let_def)
qed

section \<open>Dates as text\<close>

lemma digits_no_quote: "list_all is_digit s \<Longrightarrow> CHR 0x22 \<notin> set s"
  by (auto simp: list_all_iff is_digit_def)

lemma trim_char_quoted:
  assumes "c \<notin> set s"
  shows "trim_char c (c # s @ [c]) = s"
proof -
  have drop: "dropWhile ((=) c) (u @ v) = u @ v" if "c \<notin> set u" "u \<noteq> []" for u v
    using that by (cases u) auto
  show ?thesis
    using assms drop [of s "[c]"] drop [of "rev s" "[]"] by (cases "s = []") (simp_all add: trim_char_def)
qed

lemma date_String_no_quote:
  assumes "valid_date d" "0 \<le> Year d" "Year d \<le> 9999"
  shows "CHR 0x22 \<notin> set (date_String d)" "date_String d \<noteq> []" "date_String d \<noteq> ''null''"
proof -
  note f = valid_date_fields [OF assms]
  show "CHR 0x22 \<notin> set (date_String d)"
    using fmt_0d_field(2) [of "Year d" 4] fmt_0d_field(2) [of "Month d" 2] fmt_0d_field(2) [of "Day d" 2]
      f assms(2) digits_no_quote by (auto simp: date_String_def)
  show "date_String d \<noteq> []" "date_String d \<noteq> ''null''" using length_date_String [OF assms] by auto
qed

text \<open>
  A calendar date with a four-digit year survives every representation: text,
  JSON, the database's text and its timestamp; and scanning a timestamp always yields a
  calendar date of that instant.
\<close>

theorem date_roundtrips:
  assumes "valid_date d" "0 \<le> Year d" "Year d \<le> 9999"
  shows "date_Parse (date_String d) = Inr d \<and> date_UnmarshalJSON (date_MarshalJSON d) = Inr d \<and>
    date_Scan (SrcString (date_Value d)) = Inr d \<and> date_Scan (SrcTime (Time d)) = Inr d \<and>
    (\<forall>t. \<exists>e. date_Scan (SrcTime t) = Inr e \<and> valid_date e \<and> Time e = t)"
proof -
  have "trim_char (CHR 0x22) (date_MarshalJSON d) = date_String d"
    using trim_char_quoted [OF date_String_no_quote(1) [OF assms]] by (simp add: date_MarshalJSON_def)
  then show ?thesis
    using date_Parse_String [OF assms] date_String_no_quote [OF assms] FromTime_Time [OF assms(1)]
    by (simp add: date_UnmarshalJSON_def date_Value_def Let_def)
qed

theorem date_roundtrips_witness: "date_UnmarshalJSON (date_MarshalJSON (New 2024 2 29)) = Inr (New 2024 2 29)"
proof -
  have "valid_date (New 2024 2 29)" by code_simp
  with date_roundtrips [of "New 2024 2 29"] show ?thesis by simp
qed

end
