(* ===== verification/AppErrors.thy ===== *)
theory AppErrors
  imports Prelude
begin

text \<open>
  The application's errors: the kinds of \<^verbatim>\<open>src/errors\<close>, with any other error value of a
  repository or driver as \<^verbatim>\<open>Internal\<close>, and their translation to HTTP responses in
  \<^verbatim>\<open>src/delivery/httpkit/httperr\<close>.
\<close>

datatype app_error =
  ConflictError message
| ForbiddenError message
| NotFoundError message
| UnauthorizedError message
| ValidationError message
| Internal message

type_synonym 'a app = "app_error + 'a"

abbreviation NewConflict :: "string \<Rightarrow> app_error" where "NewConflict s \<equiv> ConflictError (text_msg s)"
abbreviation NewForbidden :: "string \<Rightarrow> app_error" where "NewForbidden s \<equiv> ForbiddenError (text_msg s)"
abbreviation NewNotFound :: "string \<Rightarrow> app_error" where "NewNotFound s \<equiv> NotFoundError (text_msg s)"
abbreviation NewUnauthorized :: "string \<Rightarrow> app_error" where "NewUnauthorized s \<equiv> UnauthorizedError (text_msg s)"
abbreviation NewValidation :: "string \<Rightarrow> app_error" where "NewValidation s \<equiv> ValidationError (text_msg s)"

text \<open>Sequencing: the \<^verbatim>\<open>if err != nil { return err }\<close> of every use case.\<close>

definition andthen :: "'e + 'a \<Rightarrow> ('a \<Rightarrow> 'e + 'b) \<Rightarrow> 'e + 'b" where
  "andthen r k = (case r of Inl e \<Rightarrow> Inl e | Inr x \<Rightarrow> k x)"

lemma andthen_simps [simp]: "andthen (Inl e) k = Inl e" "andthen (Inr x) k = k x"
  by (simp_all add: andthen_def)

lemma andthen_Inr: "andthen r k = Inr y \<longleftrightarrow> (\<exists>x. r = Inr x \<and> k x = Inr y)"
  by (cases r) simp_all

lemma andthen_Inl: "andthen r k = Inl e \<longleftrightarrow> r = Inl e \<or> (\<exists>x. r = Inr x \<and> k x = Inl e)"
  by (cases r) simp_all

definition guard :: "bool \<Rightarrow> 'e \<Rightarrow> 'e + unit" where
  "guard b e = (if b then Inr () else Inl e)"

lemma guard_Inr [simp]: "guard b e = Inr u \<longleftrightarrow> b"
  by (simp add: guard_def)

lemma guard_Inl [simp]: "guard b e = Inl e' \<longleftrightarrow> \<not> b \<and> e' = e"
  by (auto simp: guard_def)

lemma guard_simps [simp]: "guard True e = Inr ()" "guard False e = Inl e"
  by (simp_all add: guard_def)

section \<open>HTTP classification\<close>

record http_error =
  he_Code :: string
  he_Message :: message
  he_Status :: int

definition statusMap :: "string \<Rightarrow> int option" where
  "statusMap = map_of [(''VALIDATION'', 400), (''UNAUTHORIZED'', 401), (''FORBIDDEN'', 403), (''NOT_FOUND'', 404),
     (''CONFLICT'', 409), (''INTERNAL'', 500), (''UNAVAILABLE'', 503)]"

definition httperr_New :: "string \<Rightarrow> message \<Rightarrow> http_error" where
  "httperr_New code msg =
     \<lparr>he_Code = code, he_Message = msg, he_Status = (case statusMap code of Some s \<Rightarrow> s | None \<Rightarrow> 500)\<rparr>"

fun Classify :: "app_error \<Rightarrow> http_error" where
  "Classify (NotFoundError m) = httperr_New ''NOT_FOUND'' m"
| "Classify (ConflictError m) = httperr_New ''CONFLICT'' m"
| "Classify (ValidationError m) = httperr_New ''VALIDATION'' m"
| "Classify (ForbiddenError m) = httperr_New ''FORBIDDEN'' m"
| "Classify (UnauthorizedError m) = httperr_New ''UNAUTHORIZED'' m"
| "Classify (Internal m) = httperr_New ''INTERNAL'' (text_msg ''Internal server error'')"

end
