(* ===== verification/Workflows.thy ===== *)
theory Workflows
  imports AppErrors Deadline
begin

text \<open>
  The data the planner works on: workflows (\<^verbatim>\<open>modules/workflows/domain\<close>), their task templates
  (\<^verbatim>\<open>modules/workflowtasks/domain\<close>), entities and their fiscal configuration
  (\<^verbatim>\<open>modules/entities/domain\<close>), and the deadline rule of an entity obligation
  (\<^verbatim>\<open>modules/entityobligations/domain\<close>). Row bookkeeping (created/updated at and by, joined
  display names) is left out of the records.
\<close>

section \<open>Entities\<close>

record entity =
  en_ID :: string
  en_ParentEntityID :: "string option"
  en_Name :: string
  en_LegalName :: "string option"
  en_Country :: string
  en_TaxResidency :: "string option"
  en_FiscalCalendarPattern :: string
  en_FinancialYearEnd :: "string option"
  en_FiscalWeekEndDay :: string
  en_FiscalYearEndRule :: string
  en_CustomPeriods :: "custom_period list"
  en_Status :: string

record fiscal_config =
  fc_FiscalCalendarPattern :: string
  fc_FinancialYearEnd :: "string option"
  fc_FiscalWeekEndDay :: string
  fc_FiscalYearEndRule :: string
  fc_CustomPeriods :: "custom_period list"

text \<open>Two pieces of the messages that are not plain ASCII literals here.\<close>

definition ellipsis :: string where
  "ellipsis = [CHR 0xE2, CHR 0x80, CHR 0xA6]"

definition single_quoted :: "string \<Rightarrow> string" where
  "single_quoted s = CHR 0x27 # s @ [CHR 0x27]"

text \<open>The loop over the custom periods, with the set of codes seen so far.\<close>

fun validateCustomPeriods :: "int \<Rightarrow> string set \<Rightarrow> custom_period list \<Rightarrow> message option" where
  "validateCustomPeriods i seen [] = None"
| "validateCustomPeriods i seen (p # ps) =
     (if cpCode p = [] \<or> length (cpCode p) > 16
      then Some (Errorf ''customPeriods[%d].code must be 1..16 characters'' [I i])
      else if cpName p = [] \<or> length (cpName p) > 100
      then Some (Errorf ''customPeriods[%d].name must be 1..100 characters'' [I i])
      else if cpCode p \<in> seen
      then Some (Errorf ''customPeriods[%d].code %q is not unique within the entity'' [I i, S (cpCode p)])
      else if \<not> is_ok (ParseMonthDay (cpStartDate p))
      then Some (Errorf ''customPeriods[%d].startDate must be a valid MM-DD date'' [I i])
      else if \<not> is_ok (ParseMonthDay (cpEndDate p))
      then Some (Errorf ''customPeriods[%d].endDate must be a valid MM-DD date'' [I i])
      else validateCustomPeriods (i + 1) (insert (cpCode p) seen) ps)"

definition ValidateFiscalConfig :: "fiscal_config \<Rightarrow> message option" where
  "ValidateFiscalConfig c =
     (if (case fc_FinancialYearEnd c of Some s \<Rightarrow> s \<noteq> [] \<and> \<not> is_ok (ParseMonthDay s) | None \<Rightarrow> False)
      then Some (text_msg ''financialYearEnd must be a valid MM-DD date'')
      else if fc_FiscalWeekEndDay c \<noteq> [] \<and> \<not> IsWeekEndDay (fc_FiscalWeekEndDay c)
      then Some (text_msg (''fiscalWeekEndDay must be one of monday '' @ ellipsis @ '' sunday''))
      else if fc_FiscalYearEndRule c \<noteq> [] \<and> fc_FiscalYearEndRule c \<noteq> ''last'' \<and> fc_FiscalYearEndRule c \<noteq> ''nearest''
      then Some (text_msg (''fiscalYearEndRule must be '' @ single_quoted ''last'' @ '' or '' @ single_quoted ''nearest''))
      else if fc_FiscalCalendarPattern c = ''custom'' \<and> fc_CustomPeriods c = []
      then Some (text_msg ''a custom fiscal calendar requires at least one custom period'')
      else validateCustomPeriods 0 {} (fc_CustomPeriods c))"

definition CalendarFor :: "entity \<Rightarrow> int \<Rightarrow> calendar fallible" where
  "CalendarFor e fiscalYear =
     (let fyEnd = (case en_FinancialYearEnd e of None \<Rightarrow> [] | Some s \<Rightarrow> s);
          custom = map (\<lambda>p. \<lparr>cpCode = cpCode p, cpName = cpName p, cpStartDate = cpStartDate p, cpEndDate = cpEndDate p\<rparr>)
            (en_CustomPeriods e)
      in NewCalendar (en_FiscalCalendarPattern e) fyEnd (en_FiscalWeekEndDay e) (en_FiscalYearEndRule e) custom fiscalYear)"

section \<open>Deadline rules\<close>

record month_day_offset =
  mo_Months :: int
  mo_Days :: int

text \<open>The fields of the obligation's rule the planner reads.\<close>

record deadline_rule =
  dr_WeekendAdjustment :: string
  dr_PaymentFixedDates :: "string list"
  dr_PaymentOffset :: "month_day_offset option"

section \<open>Workflows and their templates\<close>

record due_date_rule =
  ddr_Reference :: string
  ddr_OffsetUnit :: string
  ddr_OffsetValue :: int
  ddr_OffsetDirection :: string
  ddr_WeekendAdjustment :: string

record workflow =
  wf_ID :: string
  wf_Name :: string
  wf_Description :: "string option"
  wf_WorkflowCategory :: string
  wf_ProjectType :: "string option"
  wf_FinancialYear :: "string option"
  wf_Periodicity :: "string option"
  wf_SelectedPeriods :: "string list"
  wf_EntityID :: "string option"
  wf_ObligationTypeID :: "string option"
  wf_DueDateRule :: due_date_rule
  wf_StartDate :: "string option"
  wf_EndDate :: "string option"
  wf_TasksSequential :: bool
  wf_Status :: string

record update_workflow_input =
  uw_Name :: string
  uw_Description :: "string option"
  uw_WorkflowCategory :: string
  uw_ProjectType :: "string option"
  uw_FinancialYear :: "string option"
  uw_Periodicity :: "string option"
  uw_SelectedPeriods :: "string list"
  uw_EntityID :: "string option"
  uw_ObligationTypeID :: "string option"
  uw_DueDateRule :: due_date_rule
  uw_StartDate :: "string option"
  uw_EndDate :: "string option"
  uw_TasksSequential :: bool
  uw_Status :: string

record workflow_task =
  wt_ID :: string
  wt_WorkflowID :: string
  wt_Name :: string
  wt_Description :: "string option"
  wt_TaskType :: string
  wt_RoleLabel :: "string option"
  wt_ApprovalRequired :: bool
  wt_DueDateReference :: string
  wt_DueDateOffsetValue :: int
  wt_DueDateOffsetUnit :: string
  wt_DueDateOffsetDirection :: string
  wt_OrderIndex :: int
  wt_DataTemplateID :: "string option"

section \<open>Overrides\<close>

record task_override =
  ov_DueDate :: "date option"
  ov_PeriodEndDate :: "date option"
  ov_PaymentDeadline :: "date option"

definition no_override :: task_override where
  "no_override = \<lparr>ov_DueDate = None, ov_PeriodEndDate = None, ov_PaymentDeadline = None\<rparr>"

text \<open>The Go map of overrides as its list of entries; a missing key reads as the zero override.\<close>

type_synonym task_overrides = "(string \<times> task_override) list"

definition override_at :: "task_overrides \<Rightarrow> string \<Rightarrow> task_override" where
  "override_at ovs key = (case map_of ovs key of Some ov \<Rightarrow> ov | None \<Rightarrow> no_override)"

definition OverrideKey :: "string \<Rightarrow> string \<Rightarrow> string" where
  "OverrideKey templateID periodCode = templateID @ ''_'' @ periodCode"

definition ProjectPeriodCode :: string where
  "ProjectPeriodCode = ''PROJECT''"

section \<open>Previews\<close>

record preview_task =
  pt_TemplateID :: string
  pt_PeriodCode :: string
  pt_Name :: string
  pt_TaskType :: string
  pt_AssigneeName :: "string option"
  pt_DueDate :: date
  pt_PeriodEndDate :: date
  pt_FilingDeadline :: date
  pt_PaymentDeadline :: "date option"
  pt_OrderIndex :: int

record workflow_preview =
  wp_WorkflowID :: string
  wp_WorkflowName :: string
  wp_TotalPeriods :: int
  wp_TaskTemplates :: int
  wp_TotalTasks :: int
  wp_AssigneesImpacted :: "string list"
  wp_Tasks :: "preview_task list"

end
