(* ===== verification/Generator.thy ===== *)
theory Generator
  imports Workflows
begin

text \<open>
  The workflow generator \<^verbatim>\<open>modules/taskinstances/usecases/generator.go\<close>: planning the task
  instances of a workflow, previewing the plan and starting the workflow. The repositories,
  the authorizer and the audit recorder are the ports of a record over an abstract store; a
  failing call ends the request and its transaction is rolled back, so an error carries no
  store.
\<close>

section \<open>What the planner produces\<close>

record create_task_instance_input =
  ci_WorkflowID :: string
  ci_WorkflowTaskID :: string
  ci_PeriodCode :: string
  ci_Name :: string
  ci_Description :: "string option"
  ci_TaskType :: string
  ci_DueDate :: date
  ci_PeriodEndDate :: date
  ci_FilingDeadline :: date
  ci_PaymentDeadline :: "date option"
  ci_ApprovalRequired :: bool
  ci_OrderIndex :: int
  ci_DataTemplateID :: "string option"

record planned_instance = create_task_instance_input +
  pi_RoleLabel :: "string option"

record applied_override =
  ao_TemplateID :: string
  ao_PeriodCode :: string
  ao_Field :: string
  ao_Computed :: date
  ao_Applied :: date

record workflow_plan =
  pl_workflow :: workflow
  pl_periods :: int
  pl_templates :: int
  pl_instances :: "planned_instance list"
  pl_overrides :: "applied_override list"

record started_details =
  sd_instancesCreated :: int
  sd_periods :: int
  sd_overrides :: int
  sd_appliedOverrides :: "applied_override list"

section \<open>The ports\<close>

record 's generator =
  g_EnsureWorkflow :: "'s \<Rightarrow> string \<Rightarrow> string \<Rightarrow> unit app"
  g_workflows_GetById :: "'s \<Rightarrow> string \<Rightarrow> workflow option app"
  g_workflows_Update :: "'s \<Rightarrow> string \<Rightarrow> update_workflow_input \<Rightarrow> 's app"
  g_instances_CountByWorkflow :: "'s \<Rightarrow> string \<Rightarrow> int app"
  g_instances_Create :: "'s \<Rightarrow> create_task_instance_input \<Rightarrow> 's app"
  g_workflowTasks_ListByWorkflow :: "'s \<Rightarrow> string \<Rightarrow> workflow_task list app"
  g_entities_GetById :: "'s \<Rightarrow> string \<Rightarrow> entity option app"
  g_obligations :: "('s \<Rightarrow> string \<Rightarrow> string \<Rightarrow> deadline_rule option app) option"
  g_audit_Record :: "'s \<Rightarrow> string \<Rightarrow> string \<Rightarrow> string \<Rightarrow> started_details \<Rightarrow> 's app"

section \<open>Loading\<close>

abbreviation blank :: "string option \<Rightarrow> bool" where
  "blank s \<equiv> s = None \<or> s = Some []"

definition loadWorkflow :: "'s generator \<Rightarrow> 's \<Rightarrow> string \<Rightarrow> workflow app" where
  "loadWorkflow g s workflowID =
     andthen (g_workflows_GetById g s workflowID) (\<lambda>row. case row of
       None \<Rightarrow> Inl (NewNotFound (''workflow not found: '' @ workflowID))
     | Some w \<Rightarrow>
         if wf_WorkflowCategory w = ''recurring'' then
           (if wf_EntityID w = None then Inl (NewValidation ''recurring workflow has no entity'')
            else if blank (wf_Periodicity w) then Inl (NewValidation ''recurring workflow has no periodicity'')
            else if blank (wf_FinancialYear w) then Inl (NewValidation ''recurring workflow has no financial year'')
            else if wf_SelectedPeriods w = [] then Inl (NewValidation ''recurring workflow has no selected periods'')
            else Inr w)
         else if wf_WorkflowCategory w = ''project'' then
           (if blank (wf_EndDate w) then Inl (NewValidation ''project workflows need an end date'')
            else if \<not> is_ok (date_Parse (the (wf_EndDate w)))
            then Inl (NewValidation ''project workflow end date must be a YYYY-MM-DD date'')
            else Inr w)
         else Inl (NewValidation ''only recurring and project workflows generate task instances''))"

definition loadTemplates :: "'s generator \<Rightarrow> 's \<Rightarrow> string \<Rightarrow> workflow_task list app" where
  "loadTemplates g s workflowID =
     andthen (g_workflowTasks_ListByWorkflow g s workflowID) (\<lambda>tasks.
       if tasks = [] then Inl (NewValidation ''workflow has no task templates'')
       else Inr (sort_key wt_OrderIndex tasks))"

definition validateOverrides :: "task_overrides \<Rightarrow> workflow_task list \<Rightarrow> string list \<Rightarrow> unit app" where
  "validateOverrides overrides tasks periodCodes =
     (let known = set (concat (map (\<lambda>pc. map (\<lambda>t. OverrideKey (wt_ID t) pc) tasks) periodCodes));
          unknown = filter (\<lambda>key. key \<notin> known) (map fst overrides)
      in if unknown \<noteq> [] then Inl (NewValidation (''unknown task override: '' @ hd (sort unknown)))
         else Inr ())"

section \<open>Planning\<close>

definition paymentDeadline :: "date \<Rightarrow> date \<Rightarrow> deadline_rule option \<Rightarrow> string \<Rightarrow> date fallible" where
  "paymentDeadline periodEnd filing rule fallbackAdjustment =
     (case rule of
        None \<Rightarrow> Inr filing
      | Some r \<Rightarrow>
          (case dr_PaymentOffset r of
             Some off \<Rightarrow>
               let adjustment = (if dr_WeekendAdjustment r = [] then fallbackAdjustment else dr_WeekendAdjustment r);
                   raw = ApplyMonthDayOffset periodEnd (mo_Months off) (mo_Days off)
               in Inr (ApplyWeekendAdjustment raw adjustment)
           | None \<Rightarrow>
               if dr_PaymentFixedDates r \<noteq> []
               then FirstFixedDateOnOrAfter periodEnd (dr_PaymentFixedDates r)
               else Inr filing))"

text \<open>One substitution: the value used, and the note of it where an override is given.\<close>

definition override_date :: "string \<Rightarrow> string \<Rightarrow> string \<Rightarrow> date \<Rightarrow> date option \<Rightarrow> date \<times> applied_override list" where
  "override_date templateID periodCode field computed ov =
     (case ov of
        None \<Rightarrow> (computed, [])
      | Some d \<Rightarrow> (d, [\<lparr>ao_TemplateID = templateID, ao_PeriodCode = periodCode, ao_Field = field,
                       ao_Computed = computed, ao_Applied = d\<rparr>]))"

text \<open>The body of the inner loop: one template in one period.\<close>

definition planInstance ::
  "workflow \<Rightarrow> deadline_rule option \<Rightarrow> task_overrides \<Rightarrow> string \<Rightarrow> period \<Rightarrow> workflow_task \<Rightarrow>
   (planned_instance \<times> applied_override list) app" where
  "planInstance w rule overrides periodCode period task =
     (let ov = override_at overrides (OverrideKey (wt_ID task) periodCode);
          ddr = wf_DueDateRule w;
          (periodEnd, n1) = override_date (wt_ID task) periodCode ''periodEndDate'' (pEnd period) (ov_PeriodEndDate ov);
          filing = ApplyWeekendAdjustment
            (ApplyOffset periodEnd (ddr_OffsetValue ddr) (ddr_OffsetUnit ddr) (ddr_OffsetDirection ddr))
            (ddr_WeekendAdjustment ddr)
      in case paymentDeadline periodEnd filing rule (ddr_WeekendAdjustment ddr) of
           Inl e \<Rightarrow> Inl (ValidationError e)
         | Inr payment0 \<Rightarrow>
             let (payment, n2) = override_date (wt_ID task) periodCode ''paymentDeadline'' payment0 (ov_PaymentDeadline ov);
                 ref = (if wt_DueDateReference task = ''filing_deadline'' then filing
                        else if wt_DueDateReference task = ''payment_deadline'' then payment else periodEnd);
                 (due, n3) = override_date (wt_ID task) periodCode ''dueDate''
                   (ApplyOffset ref (wt_DueDateOffsetValue task) (wt_DueDateOffsetUnit task) (wt_DueDateOffsetDirection task))
                   (ov_DueDate ov)
             in Inr (\<lparr>ci_WorkflowID = wf_ID w, ci_WorkflowTaskID = wt_ID task, ci_PeriodCode = periodCode,
                      ci_Name = wt_Name task, ci_Description = wt_Description task, ci_TaskType = wt_TaskType task,
                      ci_DueDate = due, ci_PeriodEndDate = periodEnd, ci_FilingDeadline = filing,
                      ci_PaymentDeadline = Some payment, ci_ApprovalRequired = wt_ApprovalRequired task,
                      ci_OrderIndex = wt_OrderIndex task, ci_DataTemplateID = wt_DataTemplateID task,
                      pi_RoleLabel = wt_RoleLabel task\<rparr>, n1 @ n2 @ n3))"

definition planPeriod ::
  "calendar \<Rightarrow> workflow \<Rightarrow> deadline_rule option \<Rightarrow> task_overrides \<Rightarrow> workflow_task list \<Rightarrow> string \<Rightarrow>
   (planned_instance \<times> applied_override list) list app" where
  "planPeriod cal w rule overrides tasks periodCode =
     (case Calendar_Period cal periodCode (the (wf_Periodicity w)) of
        Inl e \<Rightarrow> Inl (ValidationError e)
      | Inr period \<Rightarrow> traverse (planInstance w rule overrides periodCode period) tasks)"

definition paymentRule :: "'s generator \<Rightarrow> 's \<Rightarrow> workflow \<Rightarrow> deadline_rule option app" where
  "paymentRule g s w =
     (case g_obligations g of
        None \<Rightarrow> Inr None
      | Some find_obligation \<Rightarrow>
          if blank (wf_ObligationTypeID w) then Inr None
          else find_obligation s (the (wf_EntityID w)) (the (wf_ObligationTypeID w)))"

definition planRecurring :: "'s generator \<Rightarrow> 's \<Rightarrow> workflow \<Rightarrow> task_overrides \<Rightarrow> workflow_plan app" where
  "planRecurring g s w overrides =
     andthen (g_entities_GetById g s (the (wf_EntityID w))) (\<lambda>row. case row of
       None \<Rightarrow> Inl (NewValidation ''workflow entity not found in this tenant'')
     | Some entity \<Rightarrow>
       (case atoi (the (wf_FinancialYear w)) of
          None \<Rightarrow> Inl (NewValidation ''financial year must be a numeric year'')
        | Some fyEndYear \<Rightarrow>
          (case CalendarFor entity fyEndYear of
             Inl e \<Rightarrow> Inl (ValidationError e)
           | Inr cal \<Rightarrow>
             andthen (loadTemplates g s (wf_ID w)) (\<lambda>tasks.
             andthen (validateOverrides overrides tasks (wf_SelectedPeriods w)) (\<lambda>_.
             andthen (paymentRule g s w) (\<lambda>rule.
             andthen (traverse (planPeriod cal w rule overrides tasks) (wf_SelectedPeriods w)) (\<lambda>rows.
               Inr \<lparr>pl_workflow = w, pl_periods = int (length (wf_SelectedPeriods w)),
                    pl_templates = int (length tasks),
                    pl_instances = map fst (concat rows), pl_overrides = concat (map snd (concat rows))\<rparr>)))))))"

definition planProjectTask ::
  "workflow \<Rightarrow> date \<Rightarrow> task_overrides \<Rightarrow> workflow_task \<Rightarrow> (planned_instance \<times> applied_override list) app" where
  "planProjectTask w endDate overrides task =
     (let key = OverrideKey (wt_ID task) ProjectPeriodCode; ov = override_at overrides key
      in if ov_PaymentDeadline ov \<noteq> None
         then Inl (NewValidation (''task override '' @ key @ '': project workflows have no payment deadline''))
         else
           let (periodEnd, n1) = override_date (wt_ID task) ProjectPeriodCode ''periodEndDate'' endDate (ov_PeriodEndDate ov);
               filing = periodEnd;
               (due, n2) = override_date (wt_ID task) ProjectPeriodCode ''dueDate''
                 (ApplyOffset filing (wt_DueDateOffsetValue task) (wt_DueDateOffsetUnit task) (wt_DueDateOffsetDirection task))
                 (ov_DueDate ov)
           in Inr (\<lparr>ci_WorkflowID = wf_ID w, ci_WorkflowTaskID = wt_ID task, ci_PeriodCode = ProjectPeriodCode,
                    ci_Name = wt_Name task, ci_Description = wt_Description task, ci_TaskType = wt_TaskType task,
                    ci_DueDate = due, ci_PeriodEndDate = periodEnd, ci_FilingDeadline = filing,
                    ci_PaymentDeadline = None, ci_ApprovalRequired = wt_ApprovalRequired task,
                    ci_OrderIndex = wt_OrderIndex task, ci_DataTemplateID = wt_DataTemplateID task,
                    pi_RoleLabel = wt_RoleLabel task\<rparr>, n1 @ n2))"

definition planProject :: "'s generator \<Rightarrow> 's \<Rightarrow> workflow \<Rightarrow> task_overrides \<Rightarrow> workflow_plan app" where
  "planProject g s w overrides =
     (case date_Parse (the (wf_EndDate w)) of
        Inl _ \<Rightarrow> Inl (NewValidation ''project workflow end date must be a YYYY-MM-DD date'')
      | Inr endDate \<Rightarrow>
          andthen (loadTemplates g s (wf_ID w)) (\<lambda>tasks.
          andthen (validateOverrides overrides tasks [ProjectPeriodCode]) (\<lambda>_.
          andthen (traverse (planProjectTask w endDate overrides) tasks) (\<lambda>rows.
            Inr \<lparr>pl_workflow = w, pl_periods = 1, pl_templates = int (length tasks),
                 pl_instances = map fst rows, pl_overrides = concat (map snd rows)\<rparr>))))"

definition planWorkflow :: "'s generator \<Rightarrow> 's \<Rightarrow> workflow \<Rightarrow> task_overrides \<Rightarrow> workflow_plan app" where
  "planWorkflow g s w overrides =
     (if wf_WorkflowCategory w = ''project'' then planProject g s w overrides
      else planRecurring g s w overrides)"

section \<open>Preview\<close>

definition preview_task :: "planned_instance \<Rightarrow> preview_task" where
  "preview_task i =
     \<lparr>pt_TemplateID = ci_WorkflowTaskID i, pt_PeriodCode = ci_PeriodCode i, pt_Name = ci_Name i,
      pt_TaskType = ci_TaskType i, pt_AssigneeName = pi_RoleLabel i, pt_DueDate = ci_DueDate i,
      pt_PeriodEndDate = ci_PeriodEndDate i, pt_FilingDeadline = ci_FilingDeadline i,
      pt_PaymentDeadline = ci_PaymentDeadline i, pt_OrderIndex = ci_OrderIndex i\<rparr>"

text \<open>The distinct non-empty role labels of the first period's instances, in first-seen order.\<close>

fun assigneesLoop :: "string \<Rightarrow> string list \<Rightarrow> planned_instance list \<Rightarrow> string list" where
  "assigneesLoop firstPeriod seen [] = []"
| "assigneesLoop firstPeriod seen (i # is) =
     (if ci_PeriodCode i \<noteq> firstPeriod then []
      else case pi_RoleLabel i of
          None \<Rightarrow> assigneesLoop firstPeriod seen is
        | Some l \<Rightarrow>
            if l = [] \<or> l \<in> set seen then assigneesLoop firstPeriod seen is
            else l # assigneesLoop firstPeriod (l # seen) is)"

definition PreviewWorkflow :: "'s generator \<Rightarrow> 's \<Rightarrow> string \<Rightarrow> workflow_preview app" where
  "PreviewWorkflow g s workflowID =
     andthen (g_EnsureWorkflow g s workflowID ''workflow:read'') (\<lambda>_.
     andthen (loadWorkflow g s workflowID) (\<lambda>w.
     andthen (planWorkflow g s w []) (\<lambda>plan.
       Inr \<lparr>wp_WorkflowID = wf_ID w, wp_WorkflowName = wf_Name w,
            wp_TotalPeriods = pl_periods plan, wp_TaskTemplates = pl_templates plan,
            wp_TotalTasks = int (length (pl_instances plan)),
            wp_AssigneesImpacted =
              (if pl_instances plan = [] then []
               else assigneesLoop (ci_PeriodCode (hd (pl_instances plan))) [] (pl_instances plan)),
            wp_Tasks = map preview_task (pl_instances plan)\<rparr>)))"

section \<open>Start\<close>

definition activatedInput :: "workflow \<Rightarrow> update_workflow_input" where
  "activatedInput w =
     \<lparr>uw_Name = wf_Name w, uw_Description = wf_Description w, uw_WorkflowCategory = wf_WorkflowCategory w,
      uw_ProjectType = wf_ProjectType w, uw_FinancialYear = wf_FinancialYear w, uw_Periodicity = wf_Periodicity w,
      uw_SelectedPeriods = wf_SelectedPeriods w, uw_EntityID = wf_EntityID w,
      uw_ObligationTypeID = wf_ObligationTypeID w, uw_DueDateRule = wf_DueDateRule w,
      uw_StartDate = wf_StartDate w, uw_EndDate = wf_EndDate w, uw_TasksSequential = wf_TasksSequential w,
      uw_Status = ''active''\<rparr>"

text \<open>The loop that writes the planned instances.\<close>

fun createAll :: "'s generator \<Rightarrow> 's \<Rightarrow> planned_instance list \<Rightarrow> 's app" where
  "createAll g s [] = Inr s"
| "createAll g s (i # is) =
     andthen (g_instances_Create g s (create_task_instance_input.truncate i)) (\<lambda>s'. createAll g s' is)"

definition StartWorkflow :: "'s generator \<Rightarrow> 's \<Rightarrow> string \<Rightarrow> task_overrides \<Rightarrow> (int \<times> 's) app" where
  "StartWorkflow g s workflowID overrides =
     andthen (g_EnsureWorkflow g s workflowID ''workflow:write'') (\<lambda>_.
     andthen (loadWorkflow g s workflowID) (\<lambda>w.
     andthen (g_instances_CountByWorkflow g s workflowID) (\<lambda>existing.
       if existing > 0 then Inl (NewConflict ''workflow has already been started (task instances exist)'')
       else
         andthen (planWorkflow g s w overrides) (\<lambda>plan.
         andthen (createAll g s (pl_instances plan)) (\<lambda>s1.
         andthen (g_workflows_Update g s1 (wf_ID w) (activatedInput w)) (\<lambda>s2.
         andthen (g_audit_Record g s2 ''workflow.started'' ''workflow'' workflowID
             \<lparr>sd_instancesCreated = int (length (pl_instances plan)), sd_periods = pl_periods plan,
              sd_overrides = int (length overrides), sd_appliedOverrides = pl_overrides plan\<rparr>) (\<lambda>s3.
           Inr (int (length (pl_instances plan)), s3))))))))"

section \<open>Plans\<close>

text \<open>What one planned row carries of its template and period.\<close>

definition row_of :: "workflow \<Rightarrow> string \<Rightarrow> workflow_task \<Rightarrow> planned_instance \<Rightarrow> bool" where
  "row_of w pc t i \<longleftrightarrow> ci_WorkflowID i = wf_ID w \<and> ci_WorkflowTaskID i = wt_ID t \<and> ci_PeriodCode i = pc \<and>
     ci_Name i = wt_Name t \<and> ci_Description i = wt_Description t \<and> ci_TaskType i = wt_TaskType t \<and>
     ci_ApprovalRequired i = wt_ApprovalRequired t \<and> ci_OrderIndex i = wt_OrderIndex t \<and>
     ci_DataTemplateID i = wt_DataTemplateID t \<and> pi_RoleLabel i = wt_RoleLabel t"

lemma planInstance_row:
  "planInstance w rule ovs pc p t = Inr (i, ns) \<Longrightarrow> row_of w pc t i"
  by (auto simp: planInstance_def row_of_def Let_def split: sum.splits prod.splits)

lemma planProjectTask_row:
  "planProjectTask w d ovs t = Inr (i, ns) \<Longrightarrow> row_of w ProjectPeriodCode t i"
  by (auto simp: planProjectTask_def row_of_def Let_def split: prod.splits if_splits)

lemma traverse_list_all2:
  "traverse f xs = Inr ys \<longleftrightarrow> list_all2 (\<lambda>x y. f x = Inr y) xs ys"
  by (auto simp: traverse_Inr_iff list_eq_iff_nth_eq list_all2_conv_all_nth)

text \<open>The successful plans, characterised.\<close>

lemma loadTemplates_Inr:
  "loadTemplates g s wid = Inr ts \<longleftrightarrow>
     (\<exists>ts0. g_workflowTasks_ListByWorkflow g s wid = Inr ts0 \<and> ts0 \<noteq> [] \<and> ts = sort_key wt_OrderIndex ts0)"
  by (auto simp: loadTemplates_def andthen_Inr)

lemma planRecurring_Inr:
  assumes "planRecurring g s w ovs = Inr plan"
  obtains entity fy cal tasks rule rows where
    "g_entities_GetById g s (the (wf_EntityID w)) = Inr (Some entity)"
    "atoi (the (wf_FinancialYear w)) = Some fy" "CalendarFor entity fy = Inr cal"
    "loadTemplates g s (wf_ID w) = Inr tasks"
    "validateOverrides ovs tasks (wf_SelectedPeriods w) = Inr ()"
    "paymentRule g s w = Inr rule"
    "list_all2 (\<lambda>pc row. planPeriod cal w rule ovs tasks pc = Inr row) (wf_SelectedPeriods w) rows"
    "plan = \<lparr>pl_workflow = w, pl_periods = int (length (wf_SelectedPeriods w)),
       pl_templates = int (length tasks),
       pl_instances = map fst (concat rows), pl_overrides = concat (map snd (concat rows))\<rparr>"
proof -
  from assms obtain entity where 1: "g_entities_GetById g s (the (wf_EntityID w)) = Inr (Some entity)"
    by (auto simp: planRecurring_def andthen_Inr split: option.split_asm)
  with assms obtain fy where 2: "atoi (the (wf_FinancialYear w)) = Some fy"
    by (auto simp: planRecurring_def split: option.split_asm)
  with assms 1 obtain cal where 3: "CalendarFor entity fy = Inr cal"
    by (auto simp: planRecurring_def split: sum.split_asm)
  show thesis
    using assms 1 2 3 by (auto simp: planRecurring_def andthen_Inr traverse_list_all2 intro: that)
qed

lemma planProject_Inr:
  assumes "planProject g s w ovs = Inr plan"
  obtains endDate tasks rows where
    "date_Parse (the (wf_EndDate w)) = Inr endDate"
    "loadTemplates g s (wf_ID w) = Inr tasks"
    "validateOverrides ovs tasks [ProjectPeriodCode] = Inr ()"
    "list_all2 (\<lambda>t row. planProjectTask w endDate ovs t = Inr row) tasks rows"
    "plan = \<lparr>pl_workflow = w, pl_periods = 1, pl_templates = int (length tasks),
       pl_instances = map fst rows, pl_overrides = concat (map snd rows)\<rparr>"
proof -
  from assms obtain endDate where "date_Parse (the (wf_EndDate w)) = Inr endDate"
    by (auto simp: planProject_def split: sum.split_asm)
  with assms show thesis
    by (auto simp: planProject_def andthen_Inr traverse_list_all2 intro: that)
qed

text \<open>The templates and periods a plan pairs up, in order.\<close>

definition plan_pairs :: "workflow \<Rightarrow> workflow_task list \<Rightarrow> (string \<times> workflow_task) list" where
  "plan_pairs w tasks =
     (if wf_WorkflowCategory w = ''project'' then map (\<lambda>t. (ProjectPeriodCode, t)) tasks
      else concat (map (\<lambda>pc. map (\<lambda>t. (pc, t)) tasks) (wf_SelectedPeriods w)))"

lemma planPeriod_rows:
  assumes "planPeriod cal w rule ovs tasks pc = Inr row"
  shows "list_all2 (\<lambda>(pc, t) i. row_of w pc t i) (map (\<lambda>t. (pc, t)) tasks) (map fst row)"
proof -
  from assms obtain p where "list_all2 (\<lambda>t r. planInstance w rule ovs pc p t = Inr r) tasks row"
    by (auto simp: planPeriod_def traverse_list_all2 split: sum.splits)
  then show ?thesis
    by (auto simp: list_all2_map1 list_all2_map2 planInstance_row elim!: list_all2_mono)
qed

lemma planWorkflow_rows:
  assumes "planWorkflow g s w ovs = Inr plan"
  shows "\<exists>tasks. loadTemplates g s (wf_ID w) = Inr tasks \<and> pl_templates plan = int (length tasks) \<and>
    pl_workflow plan = w \<and>
    list_all2 (\<lambda>(pc, t) i. row_of w pc t i) (plan_pairs w tasks) (pl_instances plan)"
proof (cases "wf_WorkflowCategory w = ''project''")
  case True
  with assms have "planProject g s w ovs = Inr plan" by (simp add: planWorkflow_def)
  then obtain endDate tasks rows where t: "loadTemplates g s (wf_ID w) = Inr tasks"
    and r: "list_all2 (\<lambda>t row. planProjectTask w endDate ovs t = Inr row) tasks rows"
    and p: "plan = \<lparr>pl_workflow = w, pl_periods = 1, pl_templates = int (length tasks),
       pl_instances = map fst rows, pl_overrides = concat (map snd rows)\<rparr>"
    by (rule planProject_Inr)
  from r have "list_all2 (\<lambda>t i. row_of w ProjectPeriodCode t i) tasks (map fst rows)"
    by (auto simp: list_all2_map2 planProjectTask_row elim!: list_all2_mono)
  with t p True show ?thesis by (simp add: plan_pairs_def list_all2_map1)
next
  case False
  with assms have "planRecurring g s w ovs = Inr plan" by (simp add: planWorkflow_def)
  then obtain cal tasks rule rows where t: "loadTemplates g s (wf_ID w) = Inr tasks"
    and r: "list_all2 (\<lambda>pc row. planPeriod cal w rule ovs tasks pc = Inr row) (wf_SelectedPeriods w) rows"
    and p: "plan = \<lparr>pl_workflow = w, pl_periods = int (length (wf_SelectedPeriods w)),
       pl_templates = int (length tasks),
       pl_instances = map fst (concat rows), pl_overrides = concat (map snd (concat rows))\<rparr>"
    by (rule planRecurring_Inr)
  from r have "list_all2 (\<lambda>(pc, t) i. row_of w pc t i)
      (concat (map (\<lambda>pc. map (\<lambda>t. (pc, t)) tasks) (wf_SelectedPeriods w))) (map fst (concat rows))"
    by (induction rule: list_all2_induct) (auto intro!: list_all2_appendI planPeriod_rows)
  with t p False show ?thesis by (simp add: plan_pairs_def)
qed

end
