(* ===== verification/Json.thy ===== *)
theory Json
  imports Prelude "HOL-Library.Sublist"
begin

text \<open>
  Decoded JSON values and the float64 numbers in them.

  A decoded JSON object is a list of entries in increasing order of the keys, without
  duplicates: the Go code and \<^verbatim>\<open>encoding/json\<close> sort the keys before they look at them, and
  equality of maps is then equality of lists. A finite float64 is given by its shortest decimal
  representation \<^verbatim>\<open>FormatFloat(n, 'f', -1, 64)\<close>, digits \<^verbatim>\<open>m\<close> over a power of ten: distinct floats
  have distinct shortest decimals in the same order, and a float is whole exactly when that
  text has no fraction, so comparison, truncation and \<^verbatim>\<open>decimalPlaces\<close> read off it.
\<close>

section \<open>Values\<close>

datatype float64 = Dec int nat | NaN | Inf bool

datatype json = JNull | JBool bool | JNum float64 | JStr string | JArr "json list" | JObj "(string \<times> json) list"

definition canonical :: "(string \<times> json) list \<Rightarrow> bool" where
  "canonical d \<longleftrightarrow> sorted_wrt (<) (map fst d)"

text \<open>Shortest form: no trailing zero in the fraction.\<close>

fun shortest :: "float64 \<Rightarrow> bool" where
  "shortest (Dec m k) \<longleftrightarrow> k = 0 \<or> m mod 10 \<noteq> 0"
| "shortest _ \<longleftrightarrow> True"

fun float_less :: "float64 \<Rightarrow> float64 \<Rightarrow> bool" where
  "float_less (Dec a i) (Dec b j) \<longleftrightarrow> a * 10 ^ j < b * 10 ^ i"
| "float_less (Dec _ _) (Inf pos) \<longleftrightarrow> pos"
| "float_less (Inf pos) (Dec _ _) \<longleftrightarrow> \<not> pos"
| "float_less (Inf p) (Inf q) \<longleftrightarrow> \<not> p \<and> q"
| "float_less _ _ \<longleftrightarrow> False"

fun decimalPlaces :: "float64 \<Rightarrow> nat" where
  "decimalPlaces (Dec m k) = k"
| "decimalPlaces _ = 0"

fun is_whole :: "float64 \<Rightarrow> bool" where
  "is_whole (Dec m k) \<longleftrightarrow> m mod 10 ^ k = 0"
| "is_whole (Inf _) \<longleftrightarrow> True"
| "is_whole NaN \<longleftrightarrow> False"

fun finite_float :: "float64 \<Rightarrow> bool" where
  "finite_float (Dec _ _) \<longleftrightarrow> True"
| "finite_float _ \<longleftrightarrow> False"

definition float_text :: "int \<Rightarrow> nat \<Rightarrow> string" where
  "float_text m k =
     (let n = \<bar>m\<bar>; sign = (if m < 0 then ''-'' else [])
      in if k = 0 then sign @ nat_text n
         else sign @ nat_text (n div 10 ^ k) @ ''.'' @ pad0 k (nat_text (n mod 10 ^ k)))"

fun formatNumber :: "float64 \<Rightarrow> string" where
  "formatNumber (Dec m k) = float_text m k"
| "formatNumber NaN = ''NaN''"
| "formatNumber (Inf pos) = (if pos then ''+Inf'' else ''-Inf'')"

lemma canonical_subseq:
  assumes "subseq d' d" "canonical d"
  shows "canonical d'"
proof -
  have "sorted_wrt (\<lambda>x y. fst x < fst y) d \<Longrightarrow> sorted_wrt (\<lambda>x y. fst x < fst y) d'"
    using assms(1) by (induction rule: list_emb.induct) (auto elim: list_emb_set)
  with assms(2) show ?thesis by (simp add: canonical_def sorted_wrt_map)
qed

section \<open>Encoding\<close>

text \<open>
  \<^verbatim>\<open>json.Marshal\<close>: strings escape quotes, backslashes, control characters, the HTML characters
  and the two line separators, and are otherwise copied (they are valid UTF-8); numbers take
  the exponent form below \<^verbatim>\<open>1e-6\<close> and from \<^verbatim>\<open>1e21\<close>.
\<close>

definition hex_digit :: "nat \<Rightarrow> char" where
  "hex_digit d = char_of (if d < 10 then 48 + d else 87 + d)"

definition escape_char :: "char \<Rightarrow> string" where
  "escape_char c =
     (let n = (of_char c :: nat); bs = CHR 0x5C in
      if n = 0x22 then [bs, CHR 0x22] else if n = 0x5C then [bs, bs]
      else if n = 8 then bs # ''b'' else if n = 12 then bs # ''f'' else if n = 10 then bs # ''n''
      else if n = 13 then bs # ''r'' else if n = 9 then bs # ''t''
      else if n < 32 \<or> n = 0x3C \<or> n = 0x3E \<or> n = 0x26
      then bs # ''u00'' @ [hex_digit (n div 16), hex_digit (n mod 16)]
      else [c])"

fun escape :: "string \<Rightarrow> string" where
  "escape [] = []"
| "escape (c # cs) =
     (if c = CHR 0xE2 \<and> take 2 cs = [CHR 0x80, CHR 0xA8] then CHR 0x5C # ''u2028'' @ escape (drop 2 cs)
      else if c = CHR 0xE2 \<and> take 2 cs = [CHR 0x80, CHR 0xA9] then CHR 0x5C # ''u2029'' @ escape (drop 2 cs)
      else escape_char c @ escape cs)"

definition marshal_string :: "string \<Rightarrow> string" where
  "marshal_string s = CHR 0x22 # escape s @ [CHR 0x22]"

definition exponent_text :: "int \<Rightarrow> nat \<Rightarrow> string" where
  "exponent_text m k =
     (let ds = nat_text \<bar>m\<bar>; sig = rev (dropWhile ((=) (CHR ''0'')) (rev ds));
          e = int (length ds) - 1 - int k
      in (if m < 0 then ''-'' else []) @ take 1 sig @ (if length sig > 1 then ''.'' @ drop 1 sig else []) @
         (if e < 0 then ''e-'' @ nat_text (- e) else ''e+'' @ nat_text e))"

fun marshal_number :: "float64 \<Rightarrow> string" where
  "marshal_number (Dec m k) =
     (if (m \<noteq> 0 \<and> \<bar>m\<bar> * 10 ^ 6 < 10 ^ k) \<or> \<bar>m\<bar> \<ge> 10 ^ (21 + k) then exponent_text m k else float_text m k)"
| "marshal_number f = formatNumber f"

definition comma_sep :: "string list \<Rightarrow> string" where
  "comma_sep xs = (case xs of [] \<Rightarrow> [] | y # ys \<Rightarrow> y @ concat (map (\<lambda>z. '','' @ z) ys))"

fun marshal :: "json \<Rightarrow> string" where
  "marshal JNull = ''null''"
| "marshal (JBool b) = (if b then ''true'' else ''false'')"
| "marshal (JNum n) = marshal_number n"
| "marshal (JStr s) = marshal_string s"
| "marshal (JArr vs) = ''['' @ comma_sep (map marshal vs) @ '']''"
| "marshal (JObj kvs) = ''{'' @ comma_sep (map (\<lambda>(k, v). marshal_string k @ '':'' @ marshal v) kvs) @ ''}''"

text \<open>No encoded value contains a raw line feed.\<close>

definition no_newline :: "string \<Rightarrow> bool" where
  "no_newline s \<longleftrightarrow> CHR 0x0A \<notin> set s"

lemma no_newline_append [simp]: "no_newline (s @ t) \<longleftrightarrow> no_newline s \<and> no_newline t"
  by (auto simp: no_newline_def)

lemma no_newline_Cons [simp]: "no_newline (c # s) \<longleftrightarrow> c \<noteq> CHR 0x0A \<and> no_newline s"
  by (auto simp: no_newline_def)

lemma no_newline_Nil [simp]: "no_newline []"
  by (simp add: no_newline_def)

lemma hex_digit_newline: "n < 256 \<Longrightarrow> hex_digit (n div 16) \<noteq> CHR 0x0A \<and> hex_digit (n mod 16) \<noteq> CHR 0x0A"
proof -
  assume n: "n < 256"
  have "hex_digit d \<noteq> CHR 0x0A" if "d < 16" for d
  proof
    assume "hex_digit d = CHR 0x0A"
    then have "of_char (hex_digit d) = (of_char (CHR 0x0A) :: nat)" by simp
    with that show False by (simp add: hex_digit_def split: if_splits)
  qed
  moreover have "n div 16 < 16" "n mod 16 < 16" using n by auto
  ultimately show ?thesis by blast
qed

lemma of_char_newline: "(of_char c :: nat) = 10 \<longleftrightarrow> c = CHR 0x0A"
  using of_char_eq_iff [of c "CHR 0x0A", where 'a = nat] by simp

lemma escape_char_newline: "no_newline (escape_char c)"
proof (cases "of_char c = (10 :: nat)")
  case True
  then show ?thesis by (simp add: escape_char_def)
next
  case False
  then have "c \<noteq> CHR 0x0A" by auto
  moreover have "(of_char c :: nat) < 256" using of_char_mod_256 [of c] by (metis mod_less_divisor zero_less_numeral)
  ultimately show ?thesis using hex_digit_newline by (simp add: escape_char_def Let_def)
qed

lemma escape_newline: "no_newline (escape s)"
  by (induction s rule: escape.induct) (simp_all add: escape_char_newline)

lemma digits_newline: "list_all is_digit s \<Longrightarrow> no_newline s"
  by (auto simp: no_newline_def list_all_iff is_digit_def)

lemma nat_text_newline: "0 \<le> n \<Longrightarrow> no_newline (nat_text n)"
  using digits_newline [OF nat_text_digits] .

lemma float_text_newline: "no_newline (float_text m k)"
proof -
  define n where "n = \<bar>m\<bar>"
  have "no_newline (nat_text (n div 10 ^ k))" "no_newline (nat_text n)"
    "no_newline (pad0 k (nat_text (n mod 10 ^ k)))"
    by (simp_all add: n_def nat_text_newline digits_newline pad0_digits nat_text_digits pos_imp_zdiv_nonneg_iff del: abs_if)
  then show ?thesis unfolding float_text_def Let_def n_def [symmetric] by simp
qed

lemma no_newline_subset: "set s \<subseteq> set t \<Longrightarrow> no_newline t \<Longrightarrow> no_newline s"
  by (auto simp: no_newline_def)

lemma exponent_text_newline: "no_newline (exponent_text m k)"
proof -
  define ds where "ds = nat_text \<bar>m\<bar>"
  define sig where "sig = rev (dropWhile ((=) (CHR ''0'')) (rev ds))"
  have "no_newline ds" by (simp add: ds_def nat_text_newline)
  moreover have "set sig \<subseteq> set ds" unfolding sig_def using set_dropWhileD by fastforce
  ultimately have "no_newline sig" by (rule no_newline_subset [rotated])
  then have "no_newline (take n sig)" "no_newline (drop n sig)" for n
    using set_take_subset [of n sig] set_drop_subset [of n sig] by (auto simp: no_newline_def)
  then show ?thesis
    unfolding exponent_text_def Let_def ds_def [symmetric] sig_def [symmetric]
    by (simp add: nat_text_newline)
qed

lemma comma_sep_newline: "(\<And>x. x \<in> set xs \<Longrightarrow> no_newline x) \<Longrightarrow> no_newline (comma_sep xs)"
proof (cases xs)
  case (Cons y ys)
  assume "\<And>x. x \<in> set xs \<Longrightarrow> no_newline x"
  with Cons show ?thesis by (auto simp: comma_sep_def no_newline_def)
qed (simp add: comma_sep_def)

lemma marshal_number_newline: "no_newline (marshal_number f)"
  by (cases f) (simp_all add: float_text_newline exponent_text_newline)

lemma marshal_newline: "no_newline (marshal v)"
proof (induction v)
  case (JArr vs)
  then have "no_newline (comma_sep (map marshal vs))" by (intro comma_sep_newline) auto
  then show ?case by simp
next
  case (JObj kvs)
  then have "no_newline (comma_sep (map (\<lambda>(k, v). marshal_string k @ '':'' @ marshal v) kvs))"
    by (intro comma_sep_newline) (fastforce simp: marshal_string_def escape_newline)
  then show ?case by simp
qed (simp_all add: marshal_number_newline marshal_string_def escape_newline)

end
