(* ===== verification/TaxData.thy ===== *)
theory TaxData
  imports CivilTime Json
begin

text \<open>
  Data templates (\<^verbatim>\<open>modules/datatemplates/domain\<close>) and the validation of a task's tax data
  against its template (\<^verbatim>\<open>modules/taskinstances/domain/taxdata.go\<close>). Decoded records are the
  canonical entry lists of \<^verbatim>\<open>Json\<close>.
\<close>

type_synonym tax_data = "(string \<times> json) list"

section \<open>Templates\<close>

record numeric_validation =
  nv_Min :: "float64 option"
  nv_Max :: "float64 option"
  nv_AllowDecimals :: bool
  nv_DecimalPlaces :: "int option"
  nv_FormatAsCurrency :: bool

record field =
  fd_ID :: string
  fd_Name :: string
  fd_FieldType :: string
  fd_Mandatory :: bool
  fd_Description :: "string option"
  fd_NumericValidation :: "numeric_validation option"

record data_template =
  dt_ID :: string
  dt_Name :: string
  dt_TemplateType :: string
  dt_Category :: string
  dt_Description :: "string option"
  dt_Fields :: "field list"

definition IsPredefined :: "data_template \<Rightarrow> bool" where
  "IsPredefined t \<longleftrightarrow> dt_Category t = ''predefined''"

definition FieldByID :: "data_template \<Rightarrow> string \<Rightarrow> field option" where
  "FieldByID t fid = find (\<lambda>f. fd_ID f = fid) (dt_Fields t)"

definition IsFieldType :: "string \<Rightarrow> bool" where
  "IsFieldType t \<longleftrightarrow> t \<in> set [''text'', ''numeric'', ''date'', ''boolean'', ''file'']"

text \<open>The types by id of the next field list; a later entry overwrites an earlier one.\<close>

definition FieldsCompatible :: "field list \<Rightarrow> field list \<Rightarrow> bool" where
  "FieldsCompatible current next =
     (let types = map_of (rev (map (\<lambda>f. (fd_ID f, fd_FieldType f)) next))
      in list_all (\<lambda>f. types (fd_ID f) = Some (fd_FieldType f)) current)"

definition field_pos :: "int \<Rightarrow> string" where
  "field_pos i = ''fields['' @ itoa i @ '']''"

fun validateFieldsLoop :: "int \<Rightarrow> string list \<Rightarrow> field list \<Rightarrow> unit fallible" where
  "validateFieldsLoop i seen [] = Inr ()"
| "validateFieldsLoop i seen (f # fs) =
     (if length (fd_ID f) < 1 \<or> length (fd_ID f) > 64
      then Inl (Errorf ''%s.id must be 1..%d characters'' [S (field_pos i), I 64])
      else if fd_ID f \<in> set seen
      then Inl (Errorf ''%s.id %q is duplicated within the template'' [S (field_pos i), S (fd_ID f)])
      else if length (fd_Name f) < 1 \<or> length (fd_Name f) > 200
      then Inl (Errorf ''%s.name must be 1..%d characters'' [S (field_pos i), I 200])
      else if \<not> IsFieldType (fd_FieldType f)
      then Inl (Errorf ''%s.fieldType %q is not one of text, numeric, date, boolean, file''
             [S (field_pos i), S (fd_FieldType f)])
      else case fd_NumericValidation f of
          None \<Rightarrow> validateFieldsLoop (i + 1) (fd_ID f # seen) fs
        | Some nv \<Rightarrow>
            if fd_FieldType f \<noteq> ''numeric''
            then Inl (Errorf ''%s.numericValidation is only allowed on numeric fields'' [S (field_pos i)])
            else if (case (nv_Min nv, nv_Max nv) of (Some a, Some b) \<Rightarrow> float_less b a | _ \<Rightarrow> False)
            then Inl (Errorf ''%s.numericValidation.min must be <= max'' [S (field_pos i)])
            else if (case nv_DecimalPlaces nv of Some k \<Rightarrow> k < 0 \<or> k > 10 | None \<Rightarrow> False)
            then Inl (Errorf ''%s.numericValidation.decimalPlaces must be 0..%d'' [S (field_pos i), I 10])
            else validateFieldsLoop (i + 1) (fd_ID f # seen) fs)"

definition ValidateFields :: "field list \<Rightarrow> unit fallible" where
  "ValidateFields fs =
     (if fs = [] then Inl (text_msg ''fields must contain at least one field'')
      else validateFieldsLoop 0 [] fs)"

section \<open>Values against a field\<close>

definition taxErr :: "string \<Rightarrow> field \<Rightarrow> unit fallible" where
  "taxErr fmt field = Inl (Errorf fmt [S (fd_ID field)])"

definition validateNumeric :: "field \<Rightarrow> json \<Rightarrow> unit fallible" where
  "validateNumeric field value =
     (case value of
        JNum n \<Rightarrow>
          if \<not> finite_float n then taxErr ''tax data field %q must be a finite number'' field
          else (case fd_NumericValidation field of
              None \<Rightarrow> Inr ()
            | Some nv \<Rightarrow>
                if \<not> nv_AllowDecimals nv \<and> \<not> is_whole n
                then taxErr ''tax data field %q must be a whole number'' field
                else if (case nv_Min nv of Some a \<Rightarrow> float_less n a | None \<Rightarrow> False)
                then Inl (Errorf ''tax data field %q must be >= %s''
                       [S (fd_ID field), S (formatNumber (the (nv_Min nv)))])
                else if (case nv_Max nv of Some b \<Rightarrow> float_less b n | None \<Rightarrow> False)
                then Inl (Errorf ''tax data field %q must be <= %s''
                       [S (fd_ID field), S (formatNumber (the (nv_Max nv)))])
                else if nv_AllowDecimals nv \<and>
                    (case nv_DecimalPlaces nv of Some k \<Rightarrow> int (decimalPlaces n) > k | None \<Rightarrow> False)
                then Inl (Errorf ''tax data field %q must have at most %d decimal places''
                       [S (fd_ID field), I (the (nv_DecimalPlaces nv))])
                else Inr ())
      | _ \<Rightarrow> taxErr ''tax data field %q must be a number'' field)"

definition validateValue :: "field \<Rightarrow> json \<Rightarrow> unit fallible" where
  "validateValue field value =
     (if fd_FieldType field = ''numeric'' then validateNumeric field value
      else if fd_FieldType field = ''date'' then
        (case value of
           JStr s \<Rightarrow> if length s \<noteq> 10 \<or> \<not> is_ok (date_Parse s)
             then taxErr ''tax data field %q must be a YYYY-MM-DD date'' field else Inr ()
         | _ \<Rightarrow> taxErr ''tax data field %q must be a YYYY-MM-DD date'' field)
      else if fd_FieldType field = ''boolean'' then
        (case value of JBool _ \<Rightarrow> Inr () | _ \<Rightarrow> taxErr ''tax data field %q must be a boolean'' field)
      else if fd_FieldType field = ''text'' then
        (case value of
           JStr s \<Rightarrow> if length s > 10000
             then Inl (Errorf ''tax data field %q must be a string of at most %d characters'' [S (fd_ID field), I 10000])
             else Inr ()
         | _ \<Rightarrow> Inl (Errorf ''tax data field %q must be a string of at most %d characters'' [S (fd_ID field), I 10000]))
      else if fd_FieldType field = ''file'' then
        (case value of
           JStr s \<Rightarrow> if length s > 500
             then Inl (Errorf ''tax data field %q must be a file reference of at most %d characters'' [S (fd_ID field), I 500])
             else Inr ()
         | _ \<Rightarrow> Inl (Errorf ''tax data field %q must be a file reference of at most %d characters'' [S (fd_ID field), I 500]))
      else Inl (Errorf ''tax data field %q has an unsupported field type %q'' [S (fd_ID field), S (fd_FieldType field)]))"

definition isBlank :: "field \<Rightarrow> json \<Rightarrow> bool" where
  "isBlank field value \<longleftrightarrow>
     value = JStr [] \<and> fd_FieldType field \<in> set [''date'', ''numeric'', ''boolean'', ''file'']"

section \<open>Tax data against a template\<close>

text \<open>\<^verbatim>\<open>data[key]\<close>: an absent key reads as null.\<close>

definition value_at :: "tax_data \<Rightarrow> string \<Rightarrow> json" where
  "value_at d key = (case map_of d key of Some v \<Rightarrow> v | None \<Rightarrow> JNull)"

definition MissingMandatoryFields :: "data_template \<Rightarrow> tax_data \<Rightarrow> string list" where
  "MissingMandatoryFields tpl data =
     map fd_Name (filter (\<lambda>f. fd_Mandatory f \<and> value_at data (fd_ID f) = JNull) (dt_Fields tpl))"

definition joined :: "string list \<Rightarrow> string" where
  "joined xs = (case xs of [] \<Rightarrow> [] | y # ys \<Rightarrow> y @ concat (map (\<lambda>z. '', '' @ z) ys))"

definition ErrMissingMandatory :: "string list \<Rightarrow> message" where
  "ErrMissingMandatory missing = text_msg (''tax data is missing mandatory fields: '' @ joined missing)"

text \<open>What becomes of one entry: dropped, kept, or an error.\<close>

definition cleanEntry :: "data_template \<Rightarrow> tax_data \<Rightarrow> string \<times> json \<Rightarrow> tax_data fallible" where
  "cleanEntry tpl carried kv =
     (case FieldByID tpl (fst kv) of
        None \<Rightarrow>
          if fst kv \<notin> fst ` set carried then Inl (Errorf ''tax data field %q is not in the template'' [S (fst kv)])
          else Inr (if snd kv \<noteq> JNull then [kv] else [])
      | Some field \<Rightarrow>
          if snd kv = JNull \<or> isBlank field (snd kv) then Inr []
          else (case validateValue field (snd kv) of Inl e \<Rightarrow> Inl e | Inr _ \<Rightarrow> Inr [kv]))"

definition ValidateTaxData :: "data_template \<Rightarrow> tax_data \<Rightarrow> tax_data \<Rightarrow> bool \<Rightarrow> tax_data fallible" where
  "ValidateTaxData tpl data carried requireMandatory =
     (case traverse (cleanEntry tpl carried) data of
        Inl e \<Rightarrow> Inl e
      | Inr parts \<Rightarrow>
          let cleaned = concat parts; missing = MissingMandatoryFields tpl cleaned
          in if requireMandatory \<and> missing \<noteq> [] then Inl (Errorf ''tax data is missing mandatory fields: %s'' [S (joined missing)])
             else Inr cleaned)"

text \<open>\<^verbatim>\<open>nil\<close> and the empty record are the same record.\<close>

definition TaxDataEqual :: "tax_data option \<Rightarrow> tax_data option \<Rightarrow> bool" where
  "TaxDataEqual a b \<longleftrightarrow> (a \<in> {None, Some []} \<and> b \<in> {None, Some []}) \<or> a = b"

section \<open>What validation guarantees\<close>

text \<open>
  What a field asks of a value, apart from the code that checks it: a number m over the k-th
  power of ten is whole or has at most so many decimal places, and lies between the bounds, brought to a common
  power of ten.
\<close>

definition between_bounds :: "numeric_validation \<Rightarrow> int \<Rightarrow> nat \<Rightarrow> bool" where
  "between_bounds nv m k \<longleftrightarrow>
     (case nv_Min nv of Some (Dec a i) \<Rightarrow> a * 10 ^ k \<le> m * 10 ^ i | Some (Inf pos) \<Rightarrow> \<not> pos | _ \<Rightarrow> True) \<and>
     (case nv_Max nv of Some (Dec b i) \<Rightarrow> m * 10 ^ i \<le> b * 10 ^ k | Some (Inf pos) \<Rightarrow> pos | _ \<Rightarrow> True)"

definition number_fits :: "numeric_validation option \<Rightarrow> int \<Rightarrow> nat \<Rightarrow> bool" where
  "number_fits v m k \<longleftrightarrow>
     (case v of None \<Rightarrow> True
      | Some nv \<Rightarrow> between_bounds nv m k \<and>
          (if nv_AllowDecimals nv then (case nv_DecimalPlaces nv of None \<Rightarrow> True | Some p \<Rightarrow> int k \<le> p) else 10 ^ k dvd m))"

definition value_fits :: "field \<Rightarrow> json \<Rightarrow> bool" where
  "value_fits f v \<longleftrightarrow>
     (case v of
        JNum (Dec m k) \<Rightarrow> fd_FieldType f = ''numeric'' \<and> number_fits (fd_NumericValidation f) m k
      | JBool _ \<Rightarrow> fd_FieldType f = ''boolean''
      | JStr s \<Rightarrow> fd_FieldType f = ''date'' \<and> length s = 10 \<and> is_ok (date_Parse s) \<or>
          fd_FieldType f = ''text'' \<and> length s \<le> 10000 \<or> fd_FieldType f = ''file'' \<and> length s \<le> 500
      | _ \<Rightarrow> False)"

lemma validateNumeric_fits:
  "validateNumeric f v = Inr () \<longleftrightarrow> (\<exists>m k. v = JNum (Dec m k) \<and> number_fits (fd_NumericValidation f) m k)"
proof (cases v)
  case (JNum n)
  show ?thesis
  proof (cases n)
    case (Dec m k)
    have low: "\<not> (case nv_Min nv of Some a \<Rightarrow> float_less n a | None \<Rightarrow> False) \<longleftrightarrow>
        (case nv_Min nv of Some (Dec a i) \<Rightarrow> a * 10 ^ k \<le> m * 10 ^ i | Some (Inf pos) \<Rightarrow> \<not> pos | _ \<Rightarrow> True)" for nv
      unfolding Dec by (simp add: not_less split: option.split float64.split)
    have high: "\<not> (case nv_Max nv of Some b \<Rightarrow> float_less b n | None \<Rightarrow> False) \<longleftrightarrow>
        (case nv_Max nv of Some (Dec b i) \<Rightarrow> m * 10 ^ i \<le> b * 10 ^ k | Some (Inf pos) \<Rightarrow> pos | _ \<Rightarrow> True)" for nv
      unfolding Dec by (simp add: not_less split: option.split float64.split)
    show ?thesis
    proof (cases "fd_NumericValidation f")
      case None
      with JNum Dec show ?thesis by (simp add: validateNumeric_def number_fits_def)
    next
      case (Some nv)
      have "validateNumeric f v = Inr () \<longleftrightarrow>
          (nv_AllowDecimals nv \<or> is_whole n) \<and> \<not> (case nv_Min nv of Some a \<Rightarrow> float_less n a | None \<Rightarrow> False) \<and>
          \<not> (case nv_Max nv of Some b \<Rightarrow> float_less b n | None \<Rightarrow> False) \<and>
          \<not> (nv_AllowDecimals nv \<and> (case nv_DecimalPlaces nv of Some p \<Rightarrow> int (decimalPlaces n) > p | None \<Rightarrow> False))"
        unfolding JNum Dec by (simp add: validateNumeric_def taxErr_def Some)
      also have "\<dots> \<longleftrightarrow> number_fits (Some nv) m k"
        unfolding low high unfolding Dec number_fits_def between_bounds_def
        by (auto simp: not_less dvd_eq_mod_eq_0 split: option.splits)
      finally show ?thesis using JNum Dec Some by simp
    qed
  qed (use JNum in \<open>simp_all add: validateNumeric_def taxErr_def\<close>)
qed (simp_all add: validateNumeric_def taxErr_def)

lemma validateValue_fits: "validateValue f v = Inr () \<longleftrightarrow> value_fits f v"
proof (cases "fd_FieldType f = ''numeric''")
  case True
  then show ?thesis
    by (cases v) (auto simp: validateValue_def value_fits_def validateNumeric_fits split: float64.split)
next
  case False
  then show ?thesis
    by (cases v) (auto simp: validateValue_def value_fits_def taxErr_def not_less split: float64.split if_splits)
qed

text \<open>A value that says nothing: null, or a typed field that was emptied.\<close>

definition says_nothing :: "data_template \<Rightarrow> string \<times> json \<Rightarrow> bool" where
  "says_nothing tpl kv \<longleftrightarrow> snd kv = JNull \<or>
     (case FieldByID tpl (fst kv) of
        None \<Rightarrow> False
      | Some f \<Rightarrow> snd kv = JStr [] \<and> (fd_FieldType f = ''date'' \<or> fd_FieldType f = ''numeric'' \<or>
          fd_FieldType f = ''boolean'' \<or> fd_FieldType f = ''file''))"

text \<open>What a record may send under a key: nothing, or a value the field takes; orphans as they were stored.\<close>

definition may_send :: "data_template \<Rightarrow> tax_data \<Rightarrow> string \<times> json \<Rightarrow> bool" where
  "may_send tpl carried kv \<longleftrightarrow>
     (case FieldByID tpl (fst kv) of
        Some f \<Rightarrow> says_nothing tpl kv \<or> value_fits f (snd kv)
      | None \<Rightarrow> fst kv \<in> fst ` set carried)"

text \<open>A record that conforms to a template, the orphans of an earlier template apart.\<close>

definition conforms_entry :: "data_template \<Rightarrow> tax_data \<Rightarrow> string \<times> json \<Rightarrow> bool" where
  "conforms_entry tpl carried kv \<longleftrightarrow> may_send tpl carried kv \<and> \<not> says_nothing tpl kv"

definition conforms :: "data_template \<Rightarrow> tax_data \<Rightarrow> tax_data \<Rightarrow> bool" where
  "conforms tpl carried d \<longleftrightarrow> list_all (conforms_entry tpl carried) d"

lemma FieldByID_Some: "FieldByID tpl k = Some f \<Longrightarrow> f \<in> set (dt_Fields tpl) \<and> fd_ID f = k"
  by (auto simp: FieldByID_def find_Some_iff)

lemma FieldByID_None: "FieldByID tpl k = None \<longleftrightarrow> k \<notin> fd_ID ` set (dt_Fields tpl)"
  by (auto simp: FieldByID_def find_None_iff)

lemma says_nothing_blank: "FieldByID tpl (fst kv) = Some f \<Longrightarrow> says_nothing tpl kv \<longleftrightarrow> snd kv = JNull \<or> isBlank f (snd kv)"
  by (auto simp: says_nothing_def isBlank_def)

lemma cleanEntry_Inr: "cleanEntry tpl carried kv = Inr part \<longleftrightarrow>
    may_send tpl carried kv \<and> part = (if says_nothing tpl kv then [] else [kv])"
proof (cases "FieldByID tpl (fst kv)")
  case None
  then have "says_nothing tpl kv \<longleftrightarrow> snd kv = JNull" by (simp add: says_nothing_def)
  with None show ?thesis by (auto simp: cleanEntry_def may_send_def)
next
  case (Some f)
  note b = says_nothing_blank [OF Some]
  show ?thesis
  proof (cases "says_nothing tpl kv")
    case True
    with Some b show ?thesis by (auto simp: cleanEntry_def may_send_def)
  next
    case False
    with Some b validateValue_fits [of f "snd kv"] show ?thesis
      by (auto simp: cleanEntry_def may_send_def split: sum.splits)
  qed
qed

text \<open>Where an entry already conforms, it is kept as it is.\<close>

lemma cleanEntry_conforms: "conforms_entry tpl carried kv \<Longrightarrow> cleanEntry tpl carried kv = Inr [kv]"
  by (simp add: cleanEntry_Inr conforms_entry_def)

lemma traverse_Cons_Inr: "traverse f (x # xs) = Inr zs \<longleftrightarrow> (\<exists>y ys. f x = Inr y \<and> traverse f xs = Inr ys \<and> zs = y # ys)"
  by (auto split: sum.splits)

lemma clean_parts:
  "traverse (cleanEntry tpl carried) d = Inr parts \<longleftrightarrow>
     list_all (may_send tpl carried) d \<and> parts = map (\<lambda>kv. if says_nothing tpl kv then [] else [kv]) d"
proof (induction d arbitrary: parts)
  case (Cons kv d)
  show ?case unfolding traverse_Cons_Inr cleanEntry_Inr Cons.IH by auto
qed auto

lemma concat_kept: "concat (map (\<lambda>kv. if P kv then [] else [kv]) d) = filter (\<lambda>kv. \<not> P kv) d"
  by (induction d) simp_all

lemma clean_idem:
  "conforms tpl carried d \<Longrightarrow> traverse (cleanEntry tpl carried) d = Inr (map (\<lambda>kv. [kv]) d)"
  by (induction d) (simp_all add: conforms_def cleanEntry_conforms)

lemma concat_singletons: "concat (map (\<lambda>x. [x]) xs) = xs"
  by (induction xs) simp_all

lemma MissingMandatory_Nil:
  "MissingMandatoryFields tpl d = [] \<longleftrightarrow>
     (\<forall>f \<in> set (dt_Fields tpl). fd_Mandatory f \<longrightarrow> value_at d (fd_ID f) \<noteq> JNull)"
  by (auto simp: MissingMandatoryFields_def filter_empty_conv)

text \<open>The template lists accepted by \<^const>\<open>ValidateFields\<close>.\<close>

definition nv_ok :: "field \<Rightarrow> bool" where
  "nv_ok f \<longleftrightarrow> (case fd_NumericValidation f of
      None \<Rightarrow> True
    | Some nv \<Rightarrow> fd_FieldType f = ''numeric'' \<and>
        (case (nv_Min nv, nv_Max nv) of (Some a, Some b) \<Rightarrow> \<not> float_less b a | _ \<Rightarrow> True) \<and>
        (case nv_DecimalPlaces nv of Some k \<Rightarrow> 0 \<le> k \<and> k \<le> 10 | None \<Rightarrow> True))"

definition field_ok :: "field \<Rightarrow> bool" where
  "field_ok f \<longleftrightarrow> fd_ID f \<noteq> [] \<and> length (fd_ID f) \<le> 64 \<and> fd_Name f \<noteq> [] \<and>
     length (fd_Name f) \<le> 200 \<and> IsFieldType (fd_FieldType f) \<and> nv_ok f"

lemma validateFieldsLoop_iff:
  "is_ok (validateFieldsLoop i seen fs) \<longleftrightarrow>
     list_all field_ok fs \<and> distinct (map fd_ID fs) \<and> set (map fd_ID fs) \<inter> set seen = {}"
proof (induction i seen fs rule: validateFieldsLoop.induct)
  case (2 i seen f fs)
  show ?case
  proof (cases "fd_NumericValidation f")
    case None
    with 2 show ?thesis by (auto simp: field_ok_def [of f] nv_ok_def [of f] not_less)
  next
    case (Some nv)
    with 2 show ?thesis
      by (auto simp: field_ok_def [of f] nv_ok_def [of f] not_less split: option.splits)
  qed
qed simp

section \<open>Properties\<close>


definition vat_template :: data_template where
  "vat_template = \<lparr>dt_ID = ''t1'', dt_Name = ''VAT'', dt_TemplateType = ''VAT'', dt_Category = ''custom'',
     dt_Description = None, dt_Fields =
       [\<lparr>fd_ID = ''filed'', fd_Name = ''Filed on'', fd_FieldType = ''date'', fd_Mandatory = False,
         fd_Description = None, fd_NumericValidation = None\<rparr>,
        \<lparr>fd_ID = ''vatDue'', fd_Name = ''VAT due'', fd_FieldType = ''numeric'', fd_Mandatory = True,
         fd_Description = None, fd_NumericValidation = Some \<lparr>nv_Min = Some (Dec 0 0), nv_Max = None,
           nv_AllowDecimals = True, nv_DecimalPlaces = Some 2, nv_FormatAsCurrency = True\<rparr>\<rparr>]\<rparr>"

lemma vat_template_data:
  "ValidateTaxData vat_template [(''filed'', JStr []), (''old'', JBool True), (''vatDue'', JNum (Dec 1205 2))]
     [(''old'', JBool True)] True = Inr [(''old'', JBool True), (''vatDue'', JNum (Dec 1205 2))]"
  by (simp add: ValidateTaxData_def cleanEntry_def FieldByID_def vat_template_def isBlank_def validateValue_def
      validateNumeric_def MissingMandatoryFields_def value_at_def)


lemma ValidateFields_iff:
  "is_ok (ValidateFields fs) \<longleftrightarrow> fs \<noteq> [] \<and> list_all field_ok fs \<and> distinct (map fd_ID fs)"
  using validateFieldsLoop_iff [of 0 "[]" fs] by (auto simp: ValidateFields_def)

text \<open>
  A field list is accepted exactly when it is non-empty, its ids are distinct, and
  every field has an id of 1 to 64 and a name of 1 to 200 bytes, a known type, and numeric
  rules only where it is numeric, with \<^verbatim>\<open>min <= max\<close> and 0 to 10 decimal places.
\<close>

theorem ValidateFields_accepts:
  "is_ok (ValidateFields fs) \<longleftrightarrow> fs \<noteq> [] \<and> list_all field_ok fs \<and> distinct (map fd_ID fs)"
  by (rule ValidateFields_iff)

lemma FieldByID_distinct:
  assumes "distinct (map fd_ID (dt_Fields tpl))" "f \<in> set (dt_Fields tpl)"
  shows "FieldByID tpl (fd_ID f) = Some f"
proof -
  have "find (\<lambda>g. fd_ID g = fd_ID f) fs = Some f" if "distinct (map fd_ID fs)" "f \<in> set fs" for fs
    using that by (induction fs) (auto simp: rev_image_eqI)
  then show ?thesis using assms by (simp add: FieldByID_def)
qed

lemma FieldsCompatible_field:
  assumes "FieldsCompatible (dt_Fields cur) (dt_Fields nxt)" "distinct (map fd_ID (dt_Fields nxt))"
    "FieldByID cur k = Some f"
  obtains g where "FieldByID nxt k = Some g" "fd_FieldType g = fd_FieldType f"
proof -
  from FieldByID_Some [OF assms(3)] assms(1)
  have "map_of (rev (map (\<lambda>f. (fd_ID f, fd_FieldType f)) (dt_Fields nxt))) k = Some (fd_FieldType f)"
    by (auto simp: FieldsCompatible_def list_all_iff)
  then obtain g where "g \<in> set (dt_Fields nxt)" "fd_ID g = k" "fd_FieldType g = fd_FieldType f"
    using map_of_SomeD by fastforce
  with that FieldByID_distinct [OF assms(2)] show thesis by metis
qed

lemma validateValue_same_type:
  assumes "fd_FieldType g = fd_FieldType f" "fd_FieldType f \<noteq> ''numeric''" "validateValue f v = Inr ()"
  shows "validateValue g v = Inr ()"
  using assms by (auto simp: validateValue_def taxErr_def split: json.splits if_splits)

text \<open>
  The edits allowed on a template in use orphan no recorded value: a record that
  conforms to the template keeps, under the edited one, a field of the same type for every key
  it holds, and every value of a non-numeric field stays valid.
\<close>

theorem compatible_edit_keeps_records:
  assumes "FieldsCompatible (dt_Fields cur) (dt_Fields nxt)" "ValidateFields (dt_Fields nxt) = Inr ()"
    and "conforms cur [] d" "(k, v) \<in> set d"
  shows "\<exists>f g. FieldByID cur k = Some f \<and> FieldByID nxt k = Some g \<and> fd_FieldType g = fd_FieldType f \<and>
    (fd_FieldType f \<noteq> ''numeric'' \<longrightarrow> conforms_entry nxt [] (k, v))"
proof -
  have dist: "distinct (map fd_ID (dt_Fields nxt))"
    using ValidateFields_iff [of "dt_Fields nxt"] assms(2) by simp
  from assms(3,4) have entry: "conforms_entry cur [] (k, v)" by (simp add: conforms_def list_all_iff)
  then obtain f where f: "FieldByID cur k = Some f" "\<not> isBlank f v" "validateValue f v = Inr ()" "v \<noteq> JNull"
    using says_nothing_blank [of cur "(k, v)"]
    by (auto simp: conforms_entry_def may_send_def validateValue_fits says_nothing_def split: option.splits)
  obtain g where g: "FieldByID nxt k = Some g" "fd_FieldType g = fd_FieldType f"
    using FieldsCompatible_field [OF assms(1) dist f(1)] .
  have "conforms_entry nxt [] (k, v)" if "fd_FieldType f \<noteq> ''numeric''"
    using validateValue_same_type [OF g(2) that f(3)] f g says_nothing_blank [of nxt "(k, v)"]
    by (simp add: conforms_entry_def may_send_def isBlank_def validateValue_fits)
  with f g show ?thesis by blast
qed

theorem compatible_edit_witness:
  "\<exists>g. FieldByID (vat_template\<lparr>dt_Fields := rev (dt_Fields vat_template)\<rparr>) ''filed'' = Some g \<and> fd_FieldType g = ''date''"
proof -
  have "FieldsCompatible (dt_Fields vat_template) (rev (dt_Fields vat_template))"
    "ValidateFields (rev (dt_Fields vat_template)) = Inr ()"
    by (simp_all add: FieldsCompatible_def vat_template_def ValidateFields_def IsFieldType_def)
  moreover have "conforms vat_template [] [(''filed'', JStr ''2024-02-29'')]" by code_simp
  ultimately show ?thesis
    using compatible_edit_keeps_records [of vat_template "vat_template\<lparr>dt_Fields := rev (dt_Fields vat_template)\<rparr>"
        "[(''filed'', JStr ''2024-02-29'')]" "''filed''" "JStr ''2024-02-29''"]
    by (auto simp: FieldByID_def vat_template_def)
qed

end
