(* ===== verification/AuditTrail.thy ===== *)
theory AuditTrail
  imports AppErrors Json CivilTime
begin

text \<open>
  The audit trail \<^verbatim>\<open>src/platform/audit\<close>: the change envelopes of \<^verbatim>\<open>fields.go\<close> and the per-tenant
  hash chain of \<^verbatim>\<open>audit.go\<close>, with the request identity it records (\<^verbatim>\<open>src/app\<close>). The digest
  \<^verbatim>\<open>hex(sha256(.))\<close> is a parameter of the definitions that hash; instants are nanoseconds
  since the Unix epoch, and the details column holds the decoded JSON value.
\<close>

section \<open>Request identity\<close>

datatype requester_kind = RequesterUser | RequesterService

record requester =
  rq_Kind :: requester_kind
  rq_ID :: string
  rq_CredentialID :: string
  rq_CredentialKind :: string
  rq_ServiceAccount :: bool

definition IsUser :: "requester \<Rightarrow> bool" where
  "IsUser r \<longleftrightarrow> rq_Kind r = RequesterUser"

definition is_hex_char :: "char \<Rightarrow> bool" where
  "is_hex_char c \<longleftrightarrow> (let n = (of_char c :: nat) in
     (48 \<le> n \<and> n \<le> 57) \<or> (97 \<le> n \<and> n \<le> 102) \<or> (65 \<le> n \<and> n \<le> 70))"

definition lower_char :: "char \<Rightarrow> char" where
  "lower_char c = (let n = (of_char c :: nat) in if 65 \<le> n \<and> n \<le> 90 then char_of (n + 32) else c)"

text \<open>\<^verbatim>\<open>strings.ToLower\<close> on ASCII text.\<close>

definition ToLower :: "string \<Rightarrow> string" where
  "ToLower s = map lower_char s"

definition NormalizeRequestID :: "string \<Rightarrow> string option" where
  "NormalizeRequestID s =
     (if length s \<noteq> 36 then None
      else if list_all (\<lambda>i. if i \<in> set [8, 13, 18, 23] then s ! i = CHR ''-'' else is_hex_char (s ! i)) [0..<36]
      then Some (ToLower s) else None)"

section \<open>Change envelopes\<close>

text \<open>A whitelisted value: quoted, or recorded only as present or empty.\<close>

datatype audit_value = Plain json | Redacted json

type_synonym audit_values = "(string \<times> audit_value) list"

fun unwrap :: "audit_value \<Rightarrow> json \<times> bool" where
  "unwrap (Plain v) = (v, False)"
| "unwrap (Redacted v) = (v, True)"

definition isEmptyJSON :: "json \<Rightarrow> bool" where
  "isEmptyJSON v \<longleftrightarrow> v \<in> set [JNull, JStr [], JObj [], JArr []]"

definition recorded :: "json \<Rightarrow> bool \<Rightarrow> json" where
  "recorded v redacted = (if \<not> redacted then v else JStr (if isEmptyJSON v then ''empty'' else ''set''))"

text \<open>One whitelisted name: its entry in the envelope, if it moved.\<close>

definition changeEntry :: "audit_value option \<Rightarrow> audit_value option \<Rightarrow> json option" where
  "changeEntry before after =
     (let (b, bRedacted) = (case before of Some x \<Rightarrow> unwrap x | None \<Rightarrow> (JNull, False));
          (a, aRedacted) = (case after of Some x \<Rightarrow> unwrap x | None \<Rightarrow> (JNull, False));
          redacted = (bRedacted \<or> aRedacted)
      in if before \<noteq> None \<and> after \<noteq> None then
           (if b = a then None
            else Some (JObj [(''from'', recorded b redacted), (''to'', recorded a redacted)]))
         else if after \<noteq> None then
           (if isEmptyJSON a then None else Some (JObj [(''to'', recorded a redacted)]))
         else if before \<noteq> None then
           (if isEmptyJSON b then None else Some (JObj [(''from'', recorded b redacted)]))
         else None)"

definition change_names :: "audit_values \<Rightarrow> audit_values \<Rightarrow> string list" where
  "change_names before after = sort (remdups (map fst before @ map fst after))"

definition Changes :: "audit_values \<Rightarrow> audit_values \<Rightarrow> json option" where
  "Changes before after =
     (let fs = List.map_filter (\<lambda>n. map_option (\<lambda>v. (n, v)) (changeEntry (map_of before n) (map_of after n)))
            (change_names before after)
      in if fs = [] then None else Some (JObj [(''fields'', JObj fs)]))"

section \<open>Entries\<close>

record audit_entry =
  ae_EventID :: string
  ae_TenantID :: string
  ae_Seq :: int
  ae_ActorID :: string
  ae_Action :: string
  ae_ResourceType :: string
  ae_ResourceID :: string
  ae_OccurredAt :: int
  ae_RequestID :: string
  ae_CredentialID :: string
  ae_CredentialKind :: string
  ae_Details :: json
  ae_PrevHash :: string
  ae_Hash :: string
  ae_HashVersion :: int

definition GenesisHash :: string where
  "GenesisHash = replicate 64 (CHR ''0'')"

definition CurrentHashVersion :: int where
  "CurrentHashVersion = 3"

text \<open>\<^verbatim>\<open>Truncate(time.Microsecond)\<close>, in nanoseconds.\<close>

definition truncate_micro :: "int \<Rightarrow> int" where
  "truncate_micro t = t - t mod 1000"

text \<open>The layout \<^verbatim>\<open>2006-01-02T15:04:05.000000Z07:00\<close> in UTC; day 719162 is 1 January 1970.\<close>

definition occurred_text :: "int \<Rightarrow> string" where
  "occurred_text t =
     (let us = t div 1000; day = us div 86400000000; rest = us mod 86400000000;
          sec = rest div 1000000; frac = rest mod 1000000
      in date_String (FromTime (day + 719162)) @ ''T'' @ fmt_0d 2 (sec div 3600) @ '':'' @
         fmt_0d 2 (sec div 60 mod 60) @ '':'' @ fmt_0d 2 (sec mod 60) @ ''.'' @ fmt_0d 6 frac @ ''Z'')"

definition HashesCredential :: "int \<Rightarrow> bool" where
  "HashesCredential version \<longleftrightarrow> version = 0 \<or> version \<ge> 3"

definition IsPreCutover :: "int \<Rightarrow> bool" where
  "IsPreCutover version \<longleftrightarrow> version > 0 \<and> version < 2"

text \<open>Stored details are an object or, where the column holds anything else, hashed as they are.\<close>

definition mustRecanonicalize :: "json \<Rightarrow> string" where
  "mustRecanonicalize details = marshal details"

definition hash_fields :: "audit_entry \<Rightarrow> string list" where
  "hash_fields e =
     [ae_PrevHash e, ae_EventID e, ae_TenantID e, itoa (ae_Seq e), ae_ActorID e, ae_Action e,
      ae_ResourceType e, ae_ResourceID e, occurred_text (truncate_micro (ae_OccurredAt e)), ae_RequestID e,
      mustRecanonicalize (ae_Details e)] @
     (if HashesCredential (ae_HashVersion e) then [ae_CredentialKind e, ae_CredentialID e] else [])"

text \<open>\<^verbatim>\<open>strings.Join(fields, "\n")\<close>\<close>

fun join_lines :: "string list \<Rightarrow> string" where
  "join_lines [] = []"
| "join_lines [x] = x"
| "join_lines (x # y # zs) = x @ CHR 0x0A # join_lines (y # zs)"

definition ComputeHash :: "(string \<Rightarrow> string) \<Rightarrow> audit_entry \<Rightarrow> string" where
  "ComputeHash sha e = sha (join_lines (hash_fields e))"

section \<open>Recording\<close>

definition credentialOf :: "requester option \<Rightarrow> string \<times> string" where
  "credentialOf req =
     (case req of
        None \<Rightarrow> ([], [])
      | Some r \<Rightarrow>
          if rq_CredentialID r = [] \<or> rq_CredentialKind r = [] then ([], [])
          else if rq_CredentialKind r \<noteq> ''session'' \<and> rq_CredentialKind r \<noteq> ''api_token'' then ([], [])
          else (rq_CredentialID r, rq_CredentialKind r))"

definition requestIDOf :: "string \<Rightarrow> string" where
  "requestIDOf rid = (case NormalizeRequestID rid of Some s \<Rightarrow> s | None \<Rightarrow> [])"

text \<open>What the context and the process supply: tenant, requester, request id, clock, a fresh id.\<close>

record audit_context =
  ac_Tenant :: string
  ac_Requester :: "requester option"
  ac_RequestID :: string
  ac_Now :: int
  ac_NewUUID :: string

definition canonicalDetails :: "json option \<Rightarrow> json" where
  "canonicalDetails details = (case details of None \<Rightarrow> JObj [] | Some d \<Rightarrow> d)"

text \<open>The tenant's chain is read and extended under its advisory lock.\<close>

definition audit_Record ::
  "(string \<Rightarrow> string) \<Rightarrow> audit_context \<Rightarrow> string \<Rightarrow> string \<Rightarrow> string \<Rightarrow> json option \<Rightarrow> audit_entry list \<Rightarrow> audit_entry list fallible"
  where
  "audit_Record sha ctx action resourceType resourceID details chain =
     (if ac_Tenant ctx = [] then Inl (text_msg ''audit: no tenant in context'')
      else if (case ac_Requester ctx of None \<Rightarrow> True | Some r \<Rightarrow> \<not> IsUser r \<or> rq_ID r = [])
      then Inl (text_msg ''audit: no acting user in context'')
      else
        let (prevHash, seqno) = (if chain = [] then (GenesisHash, 1) else (ae_Hash (last chain), ae_Seq (last chain) + 1));
            (credentialID, credentialKind) = credentialOf (ac_Requester ctx);
            e = \<lparr>ae_EventID = ac_NewUUID ctx, ae_TenantID = ac_Tenant ctx, ae_Seq = seqno,
                 ae_ActorID = rq_ID (the (ac_Requester ctx)), ae_Action = action, ae_ResourceType = resourceType,
                 ae_ResourceID = resourceID, ae_OccurredAt = truncate_micro (ac_Now ctx),
                 ae_RequestID = requestIDOf (ac_RequestID ctx), ae_CredentialID = credentialID,
                 ae_CredentialKind = credentialKind, ae_Details = canonicalDetails details,
                 ae_PrevHash = prevHash, ae_Hash = [], ae_HashVersion = CurrentHashVersion\<rparr>
        in Inr (chain @ [e\<lparr>ae_Hash := ComputeHash sha e\<rparr>]))"

section \<open>Verification\<close>

record report =
  rp_Entries :: int
  rp_PreCutoverEntries :: int
  rp_FirstVerifiableSeq :: int
  rp_LastVerifiedSeq :: int

text \<open>The loop: the index, the previous hash and the report so far.\<close>

fun verifyLoop :: "(string \<Rightarrow> string) \<Rightarrow> int \<Rightarrow> string \<Rightarrow> report \<Rightarrow> audit_entry list \<Rightarrow> report fallible" where
  "verifyLoop sha i prev rep [] = Inr rep"
| "verifyLoop sha i prev rep (e # es) =
     (if ae_Seq e \<noteq> i + 1 then
        Inl (Errorf ''audit chain broken at index %d: seq %d, want %d (missing or reordered entry)'' [I i, I (ae_Seq e), I (i + 1)])
      else if ae_PrevHash e \<noteq> prev then
        Inl (Errorf ''audit chain broken at seq %d: prev_hash mismatch'' [I (ae_Seq e)])
      else if ae_HashVersion e > CurrentHashVersion then
        Inl (Errorf (''audit chain unverifiable at seq %d: hash format v%d is newer than this verifier'' @
            CHR 0x27 # ''s v%d (upgrade the verifier)'') [I (ae_Seq e), I (ae_HashVersion e), I CurrentHashVersion])
      else if IsPreCutover (ae_HashVersion e) then
        (if rp_FirstVerifiableSeq rep \<noteq> 0 then
           Inl (Errorf ''audit chain broken at seq %d: pre-cut-over entry (hash format v%d) after verifiable entry seq %d''
             [I (ae_Seq e), I (ae_HashVersion e), I (rp_FirstVerifiableSeq rep)])
         else verifyLoop sha (i + 1) (ae_Hash e)
           (rep\<lparr>rp_PreCutoverEntries := rp_PreCutoverEntries rep + 1\<rparr>) es)
      else if ComputeHash sha e \<noteq> ae_Hash e then
        Inl (Errorf ''audit chain broken at seq %d: hash mismatch (entry modified)'' [I (ae_Seq e)])
      else verifyLoop sha (i + 1) (ae_Hash e)
        (rep\<lparr>rp_FirstVerifiableSeq := (if rp_FirstVerifiableSeq rep = 0 then ae_Seq e else rp_FirstVerifiableSeq rep),
             rp_LastVerifiedSeq := ae_Seq e\<rparr>) es)"

definition Verify :: "(string \<Rightarrow> string) \<Rightarrow> audit_entry list \<Rightarrow> report fallible" where
  "Verify sha entries =
     verifyLoop sha 0 GenesisHash
       \<lparr>rp_Entries = int (length entries), rp_PreCutoverEntries = 0, rp_FirstVerifiableSeq = 0, rp_LastVerifiedSeq = 0\<rparr>
       entries"

definition VerifyChain :: "(string \<Rightarrow> string) \<Rightarrow> audit_entry list \<Rightarrow> unit fallible" where
  "VerifyChain sha entries =
     (case Verify sha entries of
        Inl e \<Rightarrow> Inl e
      | Inr rep \<Rightarrow>
          if rp_PreCutoverEntries rep = 0 then Inr ()
          else if rp_FirstVerifiableSeq rep = 0 then
            Inl (Errorf ''audit chain not verifiable: all %d entries predate the hash-chain cut-over (hash format < v%d)''
              [I (rp_PreCutoverEntries rep), I 2])
          else Inl (Errorf ''audit chain verifiable only from seq %d: %d earlier entries predate the hash-chain cut-over (hash format < v%d)''
              [I (rp_FirstVerifiableSeq rep), I (rp_PreCutoverEntries rep), I 2]))"

section \<open>What verification establishes\<close>

fun linked :: "int \<Rightarrow> string \<Rightarrow> audit_entry list \<Rightarrow> bool" where
  "linked i prev [] \<longleftrightarrow> True"
| "linked i prev (e # es) \<longleftrightarrow> ae_Seq e = i + 1 \<and> ae_PrevHash e = prev \<and> linked (i + 1) (ae_Hash e) es"

definition recomputes :: "(string \<Rightarrow> string) \<Rightarrow> audit_entry \<Rightarrow> bool" where
  "recomputes sha e \<longleftrightarrow> \<not> IsPreCutover (ae_HashVersion e) \<and> ae_HashVersion e \<le> CurrentHashVersion \<and>
     ComputeHash sha e = ae_Hash e"

abbreviation pre_cutover :: "audit_entry \<Rightarrow> bool" where
  "pre_cutover e \<equiv> IsPreCutover (ae_HashVersion e)"

lemma linked_append:
  "linked i prev (xs @ ys) \<longleftrightarrow>
     linked i prev xs \<and> linked (i + int (length xs)) (if xs = [] then prev else ae_Hash (last xs)) ys"
  by (induction xs arbitrary: i prev) (auto simp: algebra_simps)

lemma linked_last_seq: "linked i prev es \<Longrightarrow> es \<noteq> [] \<Longrightarrow> ae_Seq (last es) = i + int (length es)"
  by (induction es arbitrary: i prev) (auto simp: algebra_simps)

lemma pre_cutover_version: "pre_cutover e \<Longrightarrow> ae_HashVersion e \<le> CurrentHashVersion"
  by (simp add: IsPreCutover_def CurrentHashVersion_def)

lemma verifyLoop_verified:
  assumes "rp_FirstVerifiableSeq rep \<noteq> 0"
  shows "verifyLoop sha i prev rep es = Inr rep' \<longleftrightarrow>
    linked i prev es \<and> list_all (recomputes sha) es \<and>
    rep' = rep\<lparr>rp_LastVerifiedSeq := (if es = [] then rp_LastVerifiedSeq rep else i + int (length es))\<rparr>"
  using assms
proof (induction es arbitrary: i prev rep)
  case (Cons e es)
  then show ?case
    by (cases "pre_cutover e") (auto simp: recomputes_def algebra_simps)
qed auto

lemma verifyLoop_fresh:
  assumes "rp_FirstVerifiableSeq rep = 0" "0 \<le> i"
  shows "verifyLoop sha i prev rep es = Inr rep' \<longleftrightarrow>
    linked i prev es \<and> list_all (recomputes sha) (dropWhile pre_cutover es) \<and>
    rep' = rep\<lparr>rp_PreCutoverEntries := rp_PreCutoverEntries rep + int (length (takeWhile pre_cutover es)),
      rp_FirstVerifiableSeq := (if dropWhile pre_cutover es = [] then 0 else i + int (length (takeWhile pre_cutover es)) + 1),
      rp_LastVerifiedSeq := (if dropWhile pre_cutover es = [] then rp_LastVerifiedSeq rep else i + int (length es))\<rparr>"
  using assms
proof (induction es arbitrary: i prev rep)
  case (Cons e es)
  show ?case
  proof (cases "pre_cutover e")
    case True
    then have "\<not> CurrentHashVersion < ae_HashVersion e" using pre_cutover_version [of e] by simp
    with True Cons show ?thesis by (auto simp: algebra_simps)
  next
    case False
    with Cons.prems show ?thesis
      by (auto simp: verifyLoop_verified recomputes_def [of sha e] algebra_simps)
  qed
qed auto

lemma Verify_iff:
  "Verify sha es = Inr rep \<longleftrightarrow>
     linked 0 GenesisHash es \<and> list_all (recomputes sha) (dropWhile pre_cutover es) \<and>
     rep = \<lparr>rp_Entries = int (length es), rp_PreCutoverEntries = int (length (takeWhile pre_cutover es)),
       rp_FirstVerifiableSeq = (if dropWhile pre_cutover es = [] then 0 else int (length (takeWhile pre_cutover es)) + 1),
       rp_LastVerifiedSeq = (if dropWhile pre_cutover es = [] then 0 else int (length es))\<rparr>"
  unfolding Verify_def by (subst verifyLoop_fresh) auto

lemma VerifyChain_iff:
  "VerifyChain sha es = Inr () \<longleftrightarrow> linked 0 GenesisHash es \<and> list_all (recomputes sha) es"
proof -
  have all: "takeWhile pre_cutover es = [] \<and> dropWhile pre_cutover es = es" if "list_all (recomputes sha) es"
    using that by (cases es) (auto simp: recomputes_def)
  show ?thesis
  proof (cases "Verify sha es")
    case (Inl m)
    have False if "linked 0 GenesisHash es" "list_all (recomputes sha) es"
    proof -
      have "\<exists>rep. Verify sha es = Inr rep" unfolding Verify_iff using that all by simp
      with Inl show False by simp
    qed
    then show ?thesis using Inl by (auto simp: VerifyChain_def)
  next
    case (Inr rep)
    note v = Verify_iff [of sha es rep, THEN iffD1, OF Inr]
    have "es = takeWhile pre_cutover es @ dropWhile pre_cutover es" by simp
    then have "takeWhile pre_cutover es = [] \<Longrightarrow> dropWhile pre_cutover es = es" by simp
    then show ?thesis using v Inr all by (auto simp: VerifyChain_def)
  qed
qed

section \<open>The trail's properties\<close>

lemma audit_Record_Inr:
  assumes "audit_Record sha ctx action rt rid details chain = Inr chain'"
  obtains e where "chain' = chain @ [e]" "ae_Hash e = ComputeHash sha e" "ae_HashVersion e = CurrentHashVersion"
    "ae_PrevHash e = (if chain = [] then GenesisHash else ae_Hash (last chain))"
    "ae_Seq e = (if chain = [] then 1 else ae_Seq (last chain) + 1)"
    "ae_Action e = action" "ae_ResourceID e = rid" "ae_Details e = canonicalDetails details"
    "ae_ActorID e = rq_ID (the (ac_Requester ctx))" "ae_ActorID e \<noteq> []" "ae_TenantID e = ac_Tenant ctx"
proof -
  show thesis
    by (rule that [of "last chain'"])
       (use assms in \<open>auto simp: audit_Record_def ComputeHash_def hash_fields_def Let_def split: if_splits option.splits prod.splits\<close>)
qed

text \<open>
  Property C27. Recording extends a chain that verifies to a chain that verifies: exactly one entry
  is added at the end, under the next sequence number and linked to the last hash; it carries
  the action and the acting user, recomputes, and is the last verified entry. Nothing before it
  changes and no pre-cut-over entry is added.
\<close>

theorem record_keeps_chain_verified:
  assumes "Verify sha chain = Inr rep" "audit_Record sha ctx action rt rid details chain = Inr chain'"
  shows "\<exists>e rep'. chain' = chain @ [e] \<and> Verify sha chain' = Inr rep' \<and>
    rp_PreCutoverEntries rep' = rp_PreCutoverEntries rep \<and> rp_LastVerifiedSeq rep' = int (length chain) + 1 \<and>
    ae_Seq e = int (length chain) + 1 \<and> ae_Action e = action \<and> ae_ActorID e \<noteq> []"
proof -
  from audit_Record_Inr [OF assms(2)] obtain e where e: "chain' = chain @ [e]" "ae_Hash e = ComputeHash sha e"
    "ae_HashVersion e = CurrentHashVersion" "ae_PrevHash e = (if chain = [] then GenesisHash else ae_Hash (last chain))"
    "ae_Seq e = (if chain = [] then 1 else ae_Seq (last chain) + 1)" "ae_Action e = action" "ae_ActorID e \<noteq> []"
    by metis
  from assms(1) have v: "linked 0 GenesisHash chain" "list_all (recomputes sha) (dropWhile pre_cutover chain)"
    and pre: "rp_PreCutoverEntries rep = int (length (takeWhile pre_cutover chain))"
    by (auto simp: Verify_iff)
  from v(1) e(5) have seq: "ae_Seq e = int (length chain) + 1"
    using linked_last_seq [of 0 GenesisHash chain] by auto
  have np: "\<not> pre_cutover e" by (simp add: e(3) IsPreCutover_def CurrentHashVersion_def)
  then have rec: "recomputes sha e" using e(2,3) by (simp add: recomputes_def)
  have drop: "dropWhile pre_cutover chain' = dropWhile pre_cutover chain @ [e]"
    and take: "takeWhile pre_cutover chain' = takeWhile pre_cutover chain"
    using np by (auto simp: e(1) dropWhile_append takeWhile_append takeWhile_eq_all_conv [THEN iffD2])
  have "linked 0 GenesisHash chain'"
    using v(1) e(4) seq by (simp add: e(1) linked_append)
  moreover have "list_all (recomputes sha) (dropWhile pre_cutover chain')"
    using v(2) rec by (simp add: drop)
  ultimately have "\<exists>rep'. Verify sha chain' = Inr rep' \<and> rp_PreCutoverEntries rep' = rp_PreCutoverEntries rep \<and>
      rp_LastVerifiedSeq rep' = int (length chain')"
    unfolding Verify_iff using pre by (simp add: drop take)
  with e seq show ?thesis by auto
qed

lemma join_lines_Cons:
  "join_lines (x # xs) = x @ (if xs = [] then [] else CHR 0x0A # join_lines xs)"
  by (cases xs) auto

lemma append_newline_split:
  assumes "no_newline x" "no_newline y" "x @ CHR 0x0A # s = y @ CHR 0x0A # t"
  shows "x = y" "s = t"
proof -
  have take: "takeWhile (\<lambda>c. c \<noteq> CHR 0x0A) (u @ CHR 0x0A # r) = u" if "no_newline u" for u r
    using that by (induction u) (simp_all)
  from take [OF assms(1), of s] take [OF assms(2), of t] assms(3) show "x = y" by simp
  with assms(3) show "s = t" by simp
qed

lemma join_lines_inj:
  "list_all no_newline xs \<Longrightarrow> list_all no_newline ys \<Longrightarrow> xs \<noteq> [] \<Longrightarrow> ys \<noteq> [] \<Longrightarrow>
     join_lines xs = join_lines ys \<Longrightarrow> xs = ys"
proof (induction xs arbitrary: ys)
  case (Cons x xs)
  obtain y ys' where ys: "ys = y # ys'" using Cons.prems(4) by (cases ys) auto
  have nn: "no_newline x" "no_newline y" using Cons.prems(1,2) ys by simp_all
  have raw: "\<not> no_newline (u @ CHR 0x0A # r)" for u r by (simp add: no_newline_def)
  consider "xs = []" "ys' = []" | "xs \<noteq> []" "ys' \<noteq> []" | "xs = []" "ys' \<noteq> []" | "xs \<noteq> []" "ys' = []" by blast
  then show ?case
  proof cases
    case 2
    then have eq: "x @ CHR 0x0A # join_lines xs = y @ CHR 0x0A # join_lines ys'"
      using Cons.prems(5) ys by (simp add: join_lines_Cons)
    from append_newline_split [OF nn eq] Cons.IH [of ys'] Cons.prems(1,2) 2 ys show ?thesis by simp
  qed (use Cons.prems(5) ys nn raw in \<open>auto simp: join_lines_Cons dest: arg_cong [of _ _ no_newline]\<close>)
qed simp

lemma fmt_0d_newline: "no_newline (fmt_0d w i)"
proof -
  have "no_newline (pad0 w (nat_text n))" if "0 \<le> n" for w n
    using that by (simp add: digits_newline pad0_digits nat_text_digits)
  then show ?thesis by (simp add: fmt_0d_def)
qed

lemma occurred_text_newline: "no_newline (occurred_text t)"
  by (simp add: occurred_text_def date_String_def Let_def fmt_0d_newline)

lemma itoa_newline: "no_newline (itoa i)"
  by (simp add: itoa_def nat_text_newline)

text \<open>The columns of the envelope that are texts; the rest is rendered without line feeds.\<close>

definition single_line :: "audit_entry \<Rightarrow> bool" where
  "single_line e \<longleftrightarrow> list_all no_newline
     [ae_PrevHash e, ae_EventID e, ae_TenantID e, ae_ActorID e, ae_Action e, ae_ResourceType e, ae_ResourceID e,
      ae_RequestID e, ae_CredentialKind e, ae_CredentialID e]"

lemma hash_fields_single_line: "single_line e \<Longrightarrow> list_all no_newline (hash_fields e)"
  by (simp add: single_line_def hash_fields_def itoa_newline occurred_text_newline mustRecanonicalize_def marshal_newline)

lemma ComputeHash_inj:
  assumes "single_line a" "single_line b" "ComputeHash sha a = ComputeHash sha b"
    and "inj_on sha {join_lines (hash_fields a), join_lines (hash_fields b)}"
  shows "hash_fields a = hash_fields b"
proof -
  have "join_lines (hash_fields a) = join_lines (hash_fields b)"
    by (rule inj_onD [OF assms(4)]) (use assms(3) in \<open>simp_all only: ComputeHash_def insert_iff simp_thms\<close>)
  moreover have "hash_fields e \<noteq> []" for e by (simp add: hash_fields_def)
  ultimately show ?thesis
    using join_lines_inj [OF hash_fields_single_line [OF assms(1)] hash_fields_single_line [OF assms(2)]] by blast
qed

lemma hash_fields_nth:
  assumes "hash_fields a = hash_fields b"
  shows "ae_PrevHash a = ae_PrevHash b" "itoa (ae_Seq a) = itoa (ae_Seq b)"
  using assms by (auto simp: hash_fields_def)

text \<open>Two verified chains of one length whose last hashes agree record the same thing throughout.\<close>

lemma same_length_chains:
  assumes "length l1 = length l2" "l1 \<noteq> []" "list_all (recomputes sha) l1" "list_all (recomputes sha) l2"
    and "list_all single_line l1" "list_all single_line l2" "linked i p l1" "linked j q l2"
    and "ae_Hash (last l1) = ae_Hash (last l2)"
    and "inj_on sha ((\<lambda>e. join_lines (hash_fields e)) ` (set l1 \<union> set l2))"
  shows "map hash_fields l1 = map hash_fields l2"
  using assms
proof (induction l1 arbitrary: l2 rule: rev_induct)
  case (snoc a l1)
  then obtain m2 b where l2: "l2 = m2 @ [b]" "length m2 = length l1" by (cases l2 rule: rev_cases) auto
  have "ComputeHash sha a = ComputeHash sha b" using snoc.prems l2 by (simp add: recomputes_def)
  then have h: "hash_fields a = hash_fields b"
    by (rule ComputeHash_inj [rotated 2]) (use snoc.prems l2 in \<open>auto simp: inj_on_def\<close>)
  show ?case
  proof (cases "l1 = []")
    case True
    with l2 h show ?thesis by simp
  next
    case False
    then have "m2 \<noteq> []" using l2(2) by auto
    have "ae_Hash (last l1) = ae_Hash (last m2)"
      using snoc.prems(7,8) False \<open>m2 \<noteq> []\<close> hash_fields_nth(1) [OF h] l2(1) by (simp add: linked_append)
    moreover have "inj_on sha ((\<lambda>e. join_lines (hash_fields e)) ` (set l1 \<union> set m2))"
      by (rule inj_on_subset [OF snoc.prems(10)]) (use l2 in auto)
    ultimately have "map hash_fields l1 = map hash_fields m2"
      using snoc.prems l2 False by (intro snoc.IH) (auto simp: linked_append)
    with l2 h show ?thesis by simp
  qed
qed simp

text \<open>
  Property C4. The last hash pins the whole trail: two non-empty chains that both verify and end in
  the same hash, on whose entries the digest does not collide, have the same length and
  record the same envelope at every position (all columns the hash covers, in order).
\<close>

theorem head_hash_pins_chain:
  assumes "VerifyChain sha l1 = Inr ()" "VerifyChain sha l2 = Inr ()" "l1 \<noteq> []" "l2 \<noteq> []"
    and "list_all single_line l1" "list_all single_line l2" "ae_Hash (last l1) = ae_Hash (last l2)"
    and "inj_on sha ((\<lambda>e. join_lines (hash_fields e)) ` (set l1 \<union> set l2))"
  shows "length l1 = length l2 \<and> map hash_fields l1 = map hash_fields l2"
proof -
  note v1 = VerifyChain_iff [THEN iffD1, OF assms(1)] and v2 = VerifyChain_iff [THEN iffD1, OF assms(2)]
  have mem: "last l1 \<in> set l1" "last l2 \<in> set l2" using assms(3,4) by simp_all
  have "ComputeHash sha (last l1) = ComputeHash sha (last l2)"
    using v1 v2 mem assms(7) by (simp add: list_all_iff recomputes_def)
  then have "hash_fields (last l1) = hash_fields (last l2)"
    by (rule ComputeHash_inj [rotated 2])
       (use assms(5,6,8) mem in \<open>auto simp: list_all_iff inj_on_def\<close>)
  then have "itoa (ae_Seq (last l1)) = itoa (ae_Seq (last l2))" by (rule hash_fields_nth)
  moreover have "ae_Seq (last l1) = int (length l1)" "ae_Seq (last l2) = int (length l2)"
    using linked_last_seq [of 0 GenesisHash] v1 v2 assms(3,4) by simp_all
  ultimately have len: "length l1 = length l2" by (simp add: itoa_inj)
  with same_length_chains [OF len assms(3) _ _ assms(5,6) _ _ assms(7,8)] v1 v2 show ?thesis by blast
qed

definition example_context :: audit_context where
  "example_context = \<lparr>ac_Tenant = ''t1'', ac_Requester = Some \<lparr>rq_Kind = RequesterUser, rq_ID = ''u1'',
     rq_CredentialID = ''s1'', rq_CredentialKind = ''session'', rq_ServiceAccount = False\<rparr>,
     ac_RequestID = [], ac_Now = 1700000000123456789, ac_NewUUID = ''e1''\<rparr>"

lemma audit_Record_ok: "\<exists>c. audit_Record sha example_context a rt rid d chain = Inr c"
  by (simp add: audit_Record_def example_context_def IsUser_def split: prod.splits)

lemma example_record:
  obtains e where "audit_Record (\<lambda>s. s) example_context ''workflow.started'' ''workflow'' ''w1'' None [] = Inr [e]"
    "single_line e" "recomputes (\<lambda>s. s) e" "ae_Seq e = 1" "ae_PrevHash e = GenesisHash"
proof -
  obtain chain where c: "audit_Record (\<lambda>s. s) example_context ''workflow.started'' ''workflow'' ''w1'' None [] = Inr chain"
    by (simp add: audit_Record_def example_context_def IsUser_def credentialOf_def)
  then obtain e where e: "chain = [e]" "ae_Hash e = ComputeHash (\<lambda>s. s) e" "ae_HashVersion e = CurrentHashVersion"
    "ae_PrevHash e = GenesisHash" "ae_Seq e = 1"
    by (auto elim!: audit_Record_Inr)
  have "single_line e"
    using c e(1) by (auto simp: audit_Record_def example_context_def single_line_def IsUser_def credentialOf_def
        requestIDOf_def NormalizeRequestID_def GenesisHash_def no_newline_def)
  with c e that show thesis
    by (simp add: recomputes_def IsPreCutover_def CurrentHashVersion_def)
qed

theorem record_keeps_chain_verified_witness:
  "\<exists>e. audit_Record (\<lambda>s. s) example_context ''workflow.started'' ''workflow'' ''w1'' None [] = Inr [e] \<and> ae_Seq e = 1"
proof -
  obtain e where "audit_Record (\<lambda>s. s) example_context ''workflow.started'' ''workflow'' ''w1'' None [] = Inr [e]"
    by (rule example_record)
  moreover have "\<exists>rep. Verify (\<lambda>s. s) [] = Inr rep" by (simp add: Verify_iff)
  ultimately show ?thesis using record_keeps_chain_verified [of "\<lambda>s. s" "[]"] by fastforce
qed

theorem head_hash_pins_chain_witness:
  "\<exists>e. VerifyChain (\<lambda>s. s) [e] = Inr () \<and> map hash_fields [e] = map hash_fields [e]"
proof -
  obtain e where e: "single_line e" "recomputes (\<lambda>s. s) e" "ae_Seq e = 1" "ae_PrevHash e = GenesisHash"
    by (rule example_record)
  then have v: "VerifyChain (\<lambda>s. s) [e] = Inr ()" by (simp add: VerifyChain_iff)
  from head_hash_pins_chain [OF v v] e(1) v show ?thesis by auto
qed

text \<open>
  Property C28. Verification accepts exactly the chains numbered from 1 without a gap, each entry
  linked to the hash before it, whose entries from the first recomputable one on all recompute
  under a known contract; the report counts the pre-cut-over prefix and says where recomputation
  began and ended. So no relabelled entry can exempt itself from recomputation inside a chain.
\<close>

theorem verify_accepts:
  "Verify sha es = Inr rep \<longleftrightarrow>
     linked 0 GenesisHash es \<and> list_all (recomputes sha) (dropWhile pre_cutover es) \<and>
     rep = \<lparr>rp_Entries = int (length es), rp_PreCutoverEntries = int (length (takeWhile pre_cutover es)),
       rp_FirstVerifiableSeq = (if dropWhile pre_cutover es = [] then 0 else int (length (takeWhile pre_cutover es)) + 1),
       rp_LastVerifiedSeq = (if dropWhile pre_cutover es = [] then 0 else int (length es))\<rparr>"
  by (rule Verify_iff)

section \<open>Envelopes\<close>

definition marked :: "audit_values \<Rightarrow> string \<Rightarrow> bool" where
  "marked vs n \<longleftrightarrow> (\<exists>v. map_of vs n = Some (Redacted v))"

abbreviation presence :: "json \<Rightarrow> bool" where
  "presence v \<equiv> v = JStr ''set'' \<or> v = JStr ''empty''"

lemma Changes_entries:
  assumes "Changes before after = Some d"
  shows "\<exists>fs. d = JObj [(''fields'', JObj fs)] \<and> sorted_wrt (<) (map fst fs) \<and>
    (\<forall>n v. (n, v) \<in> set fs \<longleftrightarrow> changeEntry (map_of before n) (map_of after n) = Some v)"
proof -
  define f where "f = (\<lambda>n. map_option (\<lambda>v. (n, v)) (changeEntry (map_of before n) (map_of after n)))"
  define fs where "fs = List.map_filter f (change_names before after)"
  have "d = JObj [(''fields'', JObj fs)]"
    using assms unfolding Changes_def Let_def f_def [symmetric] fs_def [symmetric] by (simp split: if_split_asm)
  have names: "n \<in> set (change_names before after)" if "changeEntry (map_of before n) (map_of after n) = Some v" for n v
    using that by (auto simp: change_names_def changeEntry_def map_of_eq_None_iff[symmetric] Let_def
        split: option.splits prod.splits if_splits dest: map_of_SomeD weak_map_of_SomeI)
  have mem: "(n, v) \<in> set fs \<longleftrightarrow> changeEntry (map_of before n) (map_of after n) = Some v" for n v
    using names [of n v] by (auto simp: fs_def f_def List.map_filter_def intro!: image_eqI [of _ _ n])
  have "map fst (List.map_filter f ns) = filter (\<lambda>n. f n \<noteq> None) ns" for ns
    by (induction ns) (auto simp: List.map_filter_simps f_def split: option.splits)
  moreover have "sorted_wrt (<) (change_names before after)"
    by (simp add: change_names_def strict_sorted_iff)
  ultimately have "sorted_wrt (<) (map fst fs)" by (simp add: fs_def sorted_wrt_filter)
  with \<open>d = _\<close> mem show ?thesis by blast
qed

text \<open>
  The change envelope holds exactly the whitelisted fields that moved, sorted by name;
  a field marked redacted on either side contributes only the words "set" and "empty", never
  a value; and an update that moves nothing yields no envelope at all.
\<close>

theorem changes_envelope:
  "Changes vs vs = None \<and>
   (\<forall>d. Changes before after = Some d \<longrightarrow>
     (\<exists>fs. d = JObj [(''fields'', JObj fs)] \<and> sorted_wrt (<) (map fst fs) \<and>
       (\<forall>n. n \<in> fst ` set fs \<longleftrightarrow> changeEntry (map_of before n) (map_of after n) \<noteq> None) \<and>
       (\<forall>n v. (n, v) \<in> set fs \<and> (marked before n \<or> marked after n) \<longrightarrow>
          (\<exists>kvs. v = JObj kvs \<and> list_all (\<lambda>(k, w). presence w) kvs))))"
proof (intro conjI allI impI)
  have "changeEntry x x = None" for x
    by (cases x) (auto simp: changeEntry_def split: prod.splits)
  then show "Changes vs vs = None"
    by (simp add: Changes_def List.map_filter_def)
next
  fix d assume "Changes before after = Some d"
  from Changes_entries [OF this] obtain fs
    where fs: "d = JObj [(''fields'', JObj fs)]" "sorted_wrt (<) (map fst fs)"
      "\<And>n v. (n, v) \<in> set fs \<longleftrightarrow> changeEntry (map_of before n) (map_of after n) = Some v"
    by blast
  have red: "\<exists>kvs. v = JObj kvs \<and> list_all (\<lambda>(k, w). presence w) kvs"
    if "changeEntry (map_of before n) (map_of after n) = Some v" "marked before n \<or> marked after n" for n v
    using that by (auto simp: changeEntry_def marked_def recorded_def Let_def split: option.splits prod.splits if_splits)
  have "n \<in> fst ` set fs \<longleftrightarrow> changeEntry (map_of before n) (map_of after n) \<noteq> None" for n
    using fs(3) [of n] by (force simp: image_iff)
  with fs red show "\<exists>fs. d = JObj [(''fields'', JObj fs)] \<and> sorted_wrt (<) (map fst fs) \<and>
      (\<forall>n. n \<in> fst ` set fs \<longleftrightarrow> changeEntry (map_of before n) (map_of after n) \<noteq> None) \<and>
      (\<forall>n v. (n, v) \<in> set fs \<and> (marked before n \<or> marked after n) \<longrightarrow>
          (\<exists>kvs. v = JObj kvs \<and> list_all (\<lambda>(k, w). presence w) kvs))"
    by blast
qed

theorem changes_envelope_witness:
  "Changes [(''name'', Redacted (JStr ''Acme''))] [(''name'', Redacted (JStr ''Globex''))] =
     Some (JObj [(''fields'', JObj [(''name'', JObj [(''from'', JStr ''set''), (''to'', JStr ''set'')])])]) \<and>
   Changes [(''name'', Plain JNull)] [(''name'', Plain JNull)] = None"
proof -
  have "Changes [(''name'', Redacted (JStr ''Acme''))] [(''name'', Redacted (JStr ''Globex''))] =
     Some (JObj [(''fields'', JObj [(''name'', JObj [(''from'', JStr ''set''), (''to'', JStr ''set'')])])])"
    by code_simp
  then show ?thesis
    using changes_envelope [of "[(''name'', Plain JNull)]" "[]" "[]"] by blast
qed

end
