(* ===== verification/TaskInstances.thy ===== *)
theory TaskInstances
  imports Generator TaxData AuditTrail
begin

text \<open>
  Task instances (\<^verbatim>\<open>modules/taskinstances\<close>): the row, the statements of the PostgreSQL
  repository as operations on the table, and the use cases that submit, approve, reject and
  update an instance. The authorizer, the read scope, the directory, the template lookup, the
  clock and the audit context of a request are the fields of its environment; a failing request
  rolls its transaction back and yields no store.
\<close>

section \<open>Rows\<close>

record task_instance =
  ti_ID :: string
  ti_WorkflowID :: string
  ti_WorkflowTaskID :: string
  ti_PeriodCode :: string
  ti_Name :: string
  ti_Description :: "string option"
  ti_TaskType :: string
  ti_Status :: string
  ti_AssigneeID :: "string option"
  ti_DueDate :: date
  ti_PeriodEndDate :: date
  ti_FilingDeadline :: date
  ti_PaymentDeadline :: "date option"
  ti_ApprovalRequired :: bool
  ti_ApprovedBy :: "string option"
  ti_ApprovedAt :: "int option"
  ti_CompletedAt :: "int option"
  ti_SubmittedBy :: "string option"
  ti_SubmittedAt :: "int option"
  ti_RejectionReason :: "string option"
  ti_OrderIndex :: int
  ti_Notes :: "string option"
  ti_DataTemplateID :: "string option"
  ti_TaxData :: "tax_data option"
  ti_TaxDataStatus :: string

record update_task_instance_input =
  ui_Status :: string
  ui_AssigneeID :: "string option"
  ui_DueDate :: "date option"
  ui_Notes :: "string option"
  ui_DataTemplateID :: "string option"
  ui_TaxData :: "tax_data option"
  ui_TaxDataStatus :: string

definition IsApproved :: "task_instance \<Rightarrow> bool" where
  "IsApproved t \<longleftrightarrow> ti_ApprovedBy t \<noteq> None"

definition IsPendingApproval :: "task_instance \<Rightarrow> bool" where
  "IsPendingApproval t \<longleftrightarrow> ti_Status t = ''pending_approval''"

section \<open>The repository\<close>

text \<open>INSERT with the defaults of the table; the id is the one the database generates.\<close>

definition insert_row :: "string \<Rightarrow> create_task_instance_input \<Rightarrow> task_instance" where
  "insert_row newid i =
     \<lparr>ti_ID = newid, ti_WorkflowID = ci_WorkflowID i, ti_WorkflowTaskID = ci_WorkflowTaskID i,
      ti_PeriodCode = ci_PeriodCode i, ti_Name = ci_Name i, ti_Description = ci_Description i,
      ti_TaskType = ci_TaskType i, ti_Status = ''not_started'', ti_AssigneeID = None,
      ti_DueDate = ci_DueDate i, ti_PeriodEndDate = ci_PeriodEndDate i, ti_FilingDeadline = ci_FilingDeadline i,
      ti_PaymentDeadline = ci_PaymentDeadline i, ti_ApprovalRequired = ci_ApprovalRequired i,
      ti_ApprovedBy = None, ti_ApprovedAt = None, ti_CompletedAt = None, ti_SubmittedBy = None,
      ti_SubmittedAt = None, ti_RejectionReason = None, ti_OrderIndex = ci_OrderIndex i, ti_Notes = None,
      ti_DataTemplateID = ci_DataTemplateID i, ti_TaxData = None, ti_TaxDataStatus = ''draft''\<rparr>"

text \<open>UPDATE ... WHERE id = $1, and the row a RETURNING clause yields.\<close>

definition update_where :: "string \<Rightarrow> (task_instance \<Rightarrow> task_instance) \<Rightarrow> task_instance list \<Rightarrow> task_instance list" where
  "update_where tid f rows = map (\<lambda>r. if ti_ID r = tid then f r else r) rows"

definition row_with :: "string \<Rightarrow> task_instance list \<Rightarrow> task_instance option" where
  "row_with tid rows = find (\<lambda>r. ti_ID r = tid) rows"

definition updateRow :: "int \<Rightarrow> update_task_instance_input \<Rightarrow> task_instance \<Rightarrow> task_instance" where
  "updateRow now input r = r
     \<lparr>ti_Status := ui_Status input, ti_AssigneeID := ui_AssigneeID input, ti_Notes := ui_Notes input,
      ti_TaxData := ui_TaxData input, ti_TaxDataStatus := ui_TaxDataStatus input,
      ti_DueDate := (case ui_DueDate input of Some d \<Rightarrow> d | None \<Rightarrow> ti_DueDate r),
      ti_DataTemplateID := (case ui_DataTemplateID input of Some t \<Rightarrow> Some t | None \<Rightarrow> ti_DataTemplateID r),
      ti_CompletedAt := (if ui_Status input = ''completed''
        then (case ti_CompletedAt r of Some t \<Rightarrow> Some t | None \<Rightarrow> Some now) else None)\<rparr>"

definition submitRow :: "int \<Rightarrow> string \<Rightarrow> task_instance \<Rightarrow> task_instance" where
  "submitRow now submittedBy r = r
     \<lparr>ti_Status := ''pending_approval'', ti_SubmittedBy := Some submittedBy, ti_SubmittedAt := Some now,
      ti_RejectionReason := None\<rparr>"

definition approveRow :: "int \<Rightarrow> string \<Rightarrow> task_instance \<Rightarrow> task_instance" where
  "approveRow now approvedBy r = r
     \<lparr>ti_Status := ''completed'', ti_ApprovedBy := Some approvedBy, ti_ApprovedAt := Some now,
      ti_CompletedAt := Some now\<rparr>"

definition rejectRow :: "string option \<Rightarrow> task_instance \<Rightarrow> task_instance" where
  "rejectRow reason r = r
     \<lparr>ti_Status := ''in_progress'', ti_SubmittedBy := None, ti_SubmittedAt := None,
      ti_RejectionReason := reason\<rparr>"

section \<open>Audit envelopes\<close>

definition opt_str :: "string option \<Rightarrow> json" where
  "opt_str s = (case s of None \<Rightarrow> JNull | Some x \<Rightarrow> JStr x)"

definition auditValues :: "task_instance \<Rightarrow> audit_values" where
  "auditValues t =
     [(''notes'', Redacted (opt_str (ti_Notes t))), (''status'', Plain (JStr (ti_Status t))),
      (''dueDate'', Plain (JStr (date_String (ti_DueDate t)))), (''assigneeId'', Plain (opt_str (ti_AssigneeID t))),
      (''dataTemplateId'', Plain (opt_str (ti_DataTemplateID t))), (''taxDataStatus'', Plain (JStr (ti_TaxDataStatus t)))]"

definition identifier_char :: "char \<Rightarrow> bool" where
  "identifier_char c \<longleftrightarrow> (let n = (of_char c :: nat) in
     (97 \<le> n \<and> n \<le> 122) \<or> (65 \<le> n \<and> n \<le> 90) \<or> (48 \<le> n \<and> n \<le> 57) \<or>
     c = CHR ''_'' \<or> c = CHR ''-'' \<or> c = CHR ''.'')"

definition auditTaxDataKey :: "string \<Rightarrow> string" where
  "auditTaxDataKey key =
     (if key = [] \<or> length key > 64 then ''redacted''
      else if list_all identifier_char key then key else ''redacted'')"

definition changedTaxDataKeys :: "tax_data \<Rightarrow> tax_data \<Rightarrow> string list" where
  "changedTaxDataKeys before after =
     sort (map (\<lambda>kv. auditTaxDataKey (fst kv)) (filter (\<lambda>kv. map_of after (fst kv) \<noteq> Some (snd kv)) before) @
           map (\<lambda>kv. auditTaxDataKey (fst kv)) (filter (\<lambda>kv. fst kv \<notin> fst ` set before) after))"

definition withTaxDataChange :: "json option \<Rightarrow> tax_data \<Rightarrow> tax_data \<Rightarrow> json option" where
  "withTaxDataChange details before after =
     (let changed = changedTaxDataKeys before after
      in if changed = [] then details
         else Some (JObj ((case details of Some (JObj kvs) \<Rightarrow> kvs | _ \<Rightarrow> []) @
           [(''taxData'', JObj [(''changedKeys'', JArr (map JStr changed)),
              (''figuresAfter'', JNum (Dec (int (length after)) 0)),
              (''figuresBefore'', JNum (Dec (int (length before)) 0))])])))"

section \<open>Requests\<close>

definition em_dash :: string where
  "em_dash = [CHR 0xE2, CHR 0x80, CHR 0x94]"

record ti_store =
  ts_rows :: "task_instance list"
  ts_chain :: "audit_entry list"

record ti_env =
  te_Ensure :: "string \<Rightarrow> string \<Rightarrow> unit app"
  te_Visible :: "task_instance \<Rightarrow> bool"
  te_Assignable :: "(string \<Rightarrow> bool app) option"
  te_Templates :: "(string \<Rightarrow> data_template option app) option"
  te_TemplateRow :: "string \<Rightarrow> bool"
  te_Now :: int
  te_Sha :: "string \<Rightarrow> string"
  te_Audit :: audit_context

definition ti_GetById :: "ti_env \<Rightarrow> ti_store \<Rightarrow> string \<Rightarrow> task_instance option" where
  "ti_GetById env s tid =
     (case row_with tid (ts_rows s) of Some r \<Rightarrow> if te_Visible env r then Some r else None | None \<Rightarrow> None)"

definition load_instance :: "ti_env \<Rightarrow> ti_store \<Rightarrow> string \<Rightarrow> task_instance app" where
  "load_instance env s tid =
     (case ti_GetById env s tid of
        None \<Rightarrow> Inl (NewNotFound (''task instance not found: '' @ tid))
      | Some t \<Rightarrow> Inr t)"

definition record_audit :: "ti_env \<Rightarrow> string \<Rightarrow> string \<Rightarrow> json option \<Rightarrow> ti_store \<Rightarrow> ti_store app" where
  "record_audit env action tid details s =
     (case audit_Record (te_Sha env) (te_Audit env) action ''task_instance'' tid details (ts_chain s) of
        Inl m \<Rightarrow> Inl (Internal m)
      | Inr c \<Rightarrow> Inr (s\<lparr>ts_chain := c\<rparr>))"

abbreviation status_change :: "string \<Rightarrow> string \<Rightarrow> (string \<times> json) list" where
  "status_change a b \<equiv> [(''from'', JStr a), (''to'', JStr b)]"

definition resolveTemplate :: "ti_env \<Rightarrow> string option \<Rightarrow> string option \<Rightarrow> data_template option app" where
  "resolveTemplate env incoming current =
     (case te_Templates env of
        None \<Rightarrow> Inr None
      | Some resolve \<Rightarrow>
          let templateID = (if incoming \<noteq> None then incoming else current)
          in if blank templateID then Inr None
             else andthen (resolve (the templateID)) (\<lambda>tpl.
               if tpl = None \<and> incoming \<noteq> None then Inl (NewValidation ''data template not found in this tenant'')
               else Inr tpl))"

definition taxData_or_nil :: "tax_data option \<Rightarrow> tax_data" where
  "taxData_or_nil d = (case d of None \<Rightarrow> [] | Some x \<Rightarrow> x)"

text \<open>
  A request's transaction runs at READ COMMITTED and its first read takes no lock: the checks are
  made on a version of the row that was committed, and the later UPDATE by id finds whatever
  version is there then. So each use case is a read and a write, which other requests may separate.
\<close>

definition submit_read :: "ti_env \<Rightarrow> ti_store \<Rightarrow> string \<Rightarrow> task_instance app" where
  "submit_read env s tid =
     andthen (te_Ensure env tid ''task:submit'') (\<lambda>_.
     andthen (load_instance env s tid) (\<lambda>t.
     andthen (guard (ti_ApprovalRequired t) (NewValidation ''task instance does not require approval'')) (\<lambda>_.
     andthen (guard (\<not> IsApproved t)
       (NewConflict (''task instance is approved and cannot be modified '' @ em_dash @ '' create an amendment (ADR-0018)''))) (\<lambda>_.
     andthen (guard (\<not> IsPendingApproval t) (NewConflict ''task instance is already pending approval'')) (\<lambda>_.
     andthen (resolveTemplate env None (ti_DataTemplateID t)) (\<lambda>tpl.
     andthen (case tpl of
         None \<Rightarrow> Inr ()
       | Some tp \<Rightarrow>
           let missing = MissingMandatoryFields tp (taxData_or_nil (ti_TaxData t))
           in guard (missing = []) (ValidationError (ErrMissingMandatory missing))) (\<lambda>_. Inr t)))))))"

definition submit_write :: "ti_env \<Rightarrow> ti_store \<Rightarrow> string \<Rightarrow> string \<Rightarrow> task_instance \<Rightarrow> (task_instance option \<times> ti_store) app" where
  "submit_write env s tid actorID t =
     (let rows = update_where tid (submitRow (te_Now env) actorID) (ts_rows s)
      in andthen (record_audit env ''task_instance.submitted'' tid
           (Some (JObj (status_change (ti_Status t) ''pending_approval''))) (s\<lparr>ts_rows := rows\<rparr>)) (\<lambda>s'.
         Inr (row_with tid rows, s')))"

definition SubmitForApproval :: "ti_env \<Rightarrow> ti_store \<Rightarrow> string \<Rightarrow> string \<Rightarrow> (task_instance option \<times> ti_store) app" where
  "SubmitForApproval env s tid actorID = andthen (submit_read env s tid) (\<lambda>t. submit_write env s tid actorID t)"

definition approve_read :: "ti_env \<Rightarrow> ti_store \<Rightarrow> string \<Rightarrow> string \<Rightarrow> task_instance app" where
  "approve_read env s tid actorID =
     andthen (te_Ensure env tid ''task:approve'') (\<lambda>_.
     andthen (load_instance env s tid) (\<lambda>t.
     andthen (guard (IsPendingApproval t) (NewConflict ''task instance is not pending approval'')) (\<lambda>_.
     andthen (guard (\<not> (ti_SubmittedBy t = Some actorID))
       (NewForbidden ''you cannot approve a task instance you submitted (separation of duties)'')) (\<lambda>_. Inr t))))"

definition approve_write :: "ti_env \<Rightarrow> ti_store \<Rightarrow> string \<Rightarrow> string \<Rightarrow> (task_instance option \<times> ti_store) app" where
  "approve_write env s tid actorID =
     (let rows = update_where tid (approveRow (te_Now env) actorID) (ts_rows s)
      in andthen (record_audit env ''task_instance.approved'' tid
           (Some (JObj (status_change ''pending_approval'' ''completed''))) (s\<lparr>ts_rows := rows\<rparr>)) (\<lambda>s'.
         Inr (row_with tid rows, s')))"

definition Approve :: "ti_env \<Rightarrow> ti_store \<Rightarrow> string \<Rightarrow> string \<Rightarrow> (task_instance option \<times> ti_store) app" where
  "Approve env s tid actorID = andthen (approve_read env s tid actorID) (\<lambda>_. approve_write env s tid actorID)"

definition reject_read :: "ti_env \<Rightarrow> ti_store \<Rightarrow> string \<Rightarrow> task_instance app" where
  "reject_read env s tid =
     andthen (te_Ensure env tid ''task:approve'') (\<lambda>_.
     andthen (load_instance env s tid) (\<lambda>t.
     andthen (guard (IsPendingApproval t) (NewConflict ''task instance is not pending approval'')) (\<lambda>_. Inr t)))"

definition reject_write :: "ti_env \<Rightarrow> ti_store \<Rightarrow> string \<Rightarrow> string option \<Rightarrow> (task_instance option \<times> ti_store) app" where
  "reject_write env s tid reason =
     (let rows = update_where tid (rejectRow reason) (ts_rows s)
      in andthen (record_audit env ''task_instance.rejected'' tid
           (Some (JObj ([(''from'', JStr ''pending_approval''), (''reasonProvided'', JBool (reason \<noteq> None)),
              (''to'', JStr ''in_progress'')]))) (s\<lparr>ts_rows := rows\<rparr>)) (\<lambda>s'.
         Inr (row_with tid rows, s')))"

definition Reject :: "ti_env \<Rightarrow> ti_store \<Rightarrow> string \<Rightarrow> string option \<Rightarrow> (task_instance option \<times> ti_store) app" where
  "Reject env s tid reason = andthen (reject_read env s tid) (\<lambda>_. reject_write env s tid reason)"

text \<open>The tax data to store, once the governing template has been consulted.\<close>

definition checkTaxData :: "task_instance \<Rightarrow> update_task_instance_input \<Rightarrow> data_template option \<Rightarrow> tax_data option app" where
  "checkTaxData current input tpl =
     (case tpl of
        None \<Rightarrow> Inr (ui_TaxData input)
      | Some tp \<Rightarrow>
          let requireMandatory = (ui_TaxDataStatus input = ''final'')
          in if requireMandatory \<or> ui_DataTemplateID input \<noteq> None \<or> \<not> TaxDataEqual (ui_TaxData input) (ti_TaxData current)
             then (case ValidateTaxData tp (taxData_or_nil (ui_TaxData input)) (taxData_or_nil (ti_TaxData current)) requireMandatory of
                     Inl e \<Rightarrow> Inl (ValidationError e)
                   | Inr cleaned \<Rightarrow> Inr (if ui_TaxData input \<noteq> None then Some cleaned else None))
             else Inr (ui_TaxData input))"

definition checkAssignee :: "ti_env \<Rightarrow> task_instance \<Rightarrow> string option \<Rightarrow> unit app" where
  "checkAssignee env current assignee =
     (case (assignee, te_Assignable env) of
        (Some a, Some assignable) \<Rightarrow>
          if ti_AssigneeID current = Some a then Inr ()
          else andthen (assignable a) (\<lambda>ok.
            guard ok (NewValidation ''assignee is not an active member of this tenant''))
      | _ \<Rightarrow> Inr ())"

text \<open>The version that was read, and the input as it is written.\<close>

definition update_read ::
  "ti_env \<Rightarrow> ti_store \<Rightarrow> string \<Rightarrow> update_task_instance_input \<Rightarrow> (task_instance \<times> update_task_instance_input) app" where
  "update_read env s tid input0 =
     andthen (te_Ensure env tid ''task:write'') (\<lambda>_.
     andthen (load_instance env s tid) (\<lambda>current.
     andthen (guard (\<not> IsApproved current)
       (NewConflict (''task instance is approved and cannot be modified '' @ em_dash @ '' create an amendment (ADR-0018)''))) (\<lambda>_.
     andthen (guard (\<not> IsPendingApproval current) (NewConflict ''task instance is already pending approval'')) (\<lambda>_.
     andthen (checkAssignee env current (ui_AssigneeID input0)) (\<lambda>_.
       let input1 = (if ui_TaxDataStatus input0 = [] then input0\<lparr>ui_TaxDataStatus := ''draft''\<rparr> else input0) in
     andthen (resolveTemplate env (ui_DataTemplateID input1) (ti_DataTemplateID current)) (\<lambda>tpl.
     andthen (checkTaxData current input1 tpl) (\<lambda>taxData.
       Inr (current, input1\<lparr>ui_TaxData := taxData\<rparr>))))))))"

definition update_write ::
  "ti_env \<Rightarrow> ti_store \<Rightarrow> string \<Rightarrow> task_instance \<Rightarrow> update_task_instance_input \<Rightarrow> (task_instance \<times> ti_store) app" where
  "update_write env s tid current input =
     andthen (guard (case ui_DataTemplateID input of Some t \<Rightarrow> te_TemplateRow env t | None \<Rightarrow> True)
       (NewValidation ''data template not found in this tenant'')) (\<lambda>_.
       let rows = update_where tid (updateRow (te_Now env) input) (ts_rows s) in
     (case row_with tid rows of
        None \<Rightarrow> Inl (NewNotFound (''task instance not found: '' @ tid))
      | Some ti \<Rightarrow>
          andthen (record_audit env ''task_instance.updated'' tid
              (withTaxDataChange (Changes (auditValues current) (auditValues ti))
                (taxData_or_nil (ti_TaxData current)) (taxData_or_nil (ti_TaxData ti)))
              (s\<lparr>ts_rows := rows\<rparr>)) (\<lambda>s'.
            Inr (ti, s'))))"

definition Update :: "ti_env \<Rightarrow> ti_store \<Rightarrow> string \<Rightarrow> update_task_instance_input \<Rightarrow> (task_instance \<times> ti_store) app" where
  "Update env s tid input = andthen (update_read env s tid input) (\<lambda>(current, input'). update_write env s tid current input')"

text \<open>The statuses the request validator lets through (\<^verbatim>\<open>dto/request.go\<close>).\<close>

definition update_statuses :: "string list" where
  "update_statuses = [''not_started'', ''in_progress'', ''in_review'', ''completed'', ''blocked'']"

section \<open>The life of the table\<close>

text \<open>
  One committed request: the generator inserts a row under a fresh id, or a use case that read an
  earlier table \<open>s0\<close> writes to the table there is now. In \<open>ti_step\<close> the row it read is still the row
  that is there: no other request wrote the same instance in between, whatever happened to other
  instances. \<open>ti_race\<close> drops that condition; its state is the list of committed tables. The
  environments of different requests are unrelated.
\<close>

inductive ti_step :: "ti_store \<Rightarrow> ti_store \<Rightarrow> bool" where
  step_create: "tid \<notin> ti_ID ` set (ts_rows s) \<Longrightarrow> ti_step s (s\<lparr>ts_rows := ts_rows s @ [insert_row tid i]\<rparr>)"
| step_submit: "submit_read env s0 tid = Inr t \<Longrightarrow> row_with tid (ts_rows s) = Some t \<Longrightarrow>
    submit_write env s tid actor t = Inr (r, s') \<Longrightarrow> ti_step s s'"
| step_approve: "approve_read env s0 tid actor = Inr t \<Longrightarrow> row_with tid (ts_rows s) = Some t \<Longrightarrow>
    approve_write env s tid actor = Inr (r, s') \<Longrightarrow> ti_step s s'"
| step_reject: "reject_read env s0 tid = Inr t \<Longrightarrow> row_with tid (ts_rows s) = Some t \<Longrightarrow>
    reject_write env s tid reason = Inr (r, s') \<Longrightarrow> ti_step s s'"
| step_update: "ui_Status input \<in> set update_statuses \<Longrightarrow> update_read env s0 tid input = Inr (t, input') \<Longrightarrow>
    row_with tid (ts_rows s) = Some t \<Longrightarrow> update_write env s tid t input' = Inr (ti, s') \<Longrightarrow> ti_step s s'"

inductive ti_race :: "ti_store list \<Rightarrow> ti_store list \<Rightarrow> bool" where
  race_create: "tid \<notin> ti_ID ` set (ts_rows (last h)) \<Longrightarrow>
    ti_race h (h @ [(last h)\<lparr>ts_rows := ts_rows (last h) @ [insert_row tid i]\<rparr>])"
| race_submit: "s0 \<in> set h \<Longrightarrow> submit_read env s0 tid = Inr t \<Longrightarrow> submit_write env (last h) tid actor t = Inr (r, s') \<Longrightarrow> ti_race h (h @ [s'])"
| race_approve: "s0 \<in> set h \<Longrightarrow> approve_read env s0 tid actor = Inr t \<Longrightarrow> approve_write env (last h) tid actor = Inr (r, s') \<Longrightarrow> ti_race h (h @ [s'])"
| race_reject: "s0 \<in> set h \<Longrightarrow> reject_read env s0 tid = Inr t \<Longrightarrow> reject_write env (last h) tid reason = Inr (r, s') \<Longrightarrow> ti_race h (h @ [s'])"
| race_update: "s0 \<in> set h \<Longrightarrow> ui_Status input \<in> set update_statuses \<Longrightarrow> update_read env s0 tid input = Inr (t, input') \<Longrightarrow>
    update_write env (last h) tid t input' = Inr (ti, s') \<Longrightarrow> ti_race h (h @ [s'])"

inductive_cases ti_stepE: "ti_step s s'"

abbreviation ti_reachable :: "ti_store \<Rightarrow> bool" where
  "ti_reachable s \<equiv> \<exists>c. ti_step\<^sup>*\<^sup>* \<lparr>ts_rows = [], ts_chain = c\<rparr> s"

section \<open>What each request does\<close>

lemma row_with_Some: "row_with tid rows = Some r \<Longrightarrow> r \<in> set rows \<and> ti_ID r = tid"
  by (auto simp: row_with_def find_Some_iff)

lemma load_instance_Inr:
  "load_instance env s tid = Inr t \<Longrightarrow> row_with tid (ts_rows s) = Some t \<and> te_Visible env t"
  by (auto simp: load_instance_def ti_GetById_def split: option.splits if_splits)

lemma record_audit_Inr:
  assumes "record_audit env action tid details s = Inr s'"
  shows "ts_rows s' = ts_rows s \<and> (\<exists>e. ts_chain s' = ts_chain s @ [e] \<and> ae_Action e = action \<and> ae_ResourceID e = tid)"
  using assms by (auto simp: record_audit_def elim!: audit_Record_Inr split: sum.splits)

lemma read_Inr:
  "submit_read env s tid = Inr t \<Longrightarrow>
     row_with tid (ts_rows s) = Some t \<and> ti_ApprovalRequired t \<and> \<not> IsApproved t \<and> \<not> IsPendingApproval t"
  "approve_read env s tid actor = Inr t \<Longrightarrow>
     row_with tid (ts_rows s) = Some t \<and> IsPendingApproval t \<and> ti_SubmittedBy t \<noteq> Some actor"
  "reject_read env s tid = Inr t \<Longrightarrow> row_with tid (ts_rows s) = Some t \<and> IsPendingApproval t"
  "update_read env s tid input = Inr (t, input') \<Longrightarrow>
     row_with tid (ts_rows s) = Some t \<and> \<not> IsApproved t \<and> \<not> IsPendingApproval t \<and> ui_Status input' = ui_Status input"
  by (auto simp: submit_read_def approve_read_def reject_read_def update_read_def andthen_Inr Let_def
      dest!: load_instance_Inr split: option.splits)

lemma write_Inr:
  "submit_write env s tid actor t = Inr (r, s') \<Longrightarrow>
     ts_rows s' = update_where tid (submitRow (te_Now env) actor) (ts_rows s) \<and>
     (\<exists>e. ts_chain s' = ts_chain s @ [e] \<and> ae_Action e = ''task_instance.submitted'' \<and> ae_ResourceID e = tid)"
  "approve_write env s tid actor = Inr (r, s') \<Longrightarrow>
     ts_rows s' = update_where tid (approveRow (te_Now env) actor) (ts_rows s) \<and>
     (\<exists>e. ts_chain s' = ts_chain s @ [e] \<and> ae_Action e = ''task_instance.approved'' \<and> ae_ResourceID e = tid)"
  "reject_write env s tid reason = Inr (r, s') \<Longrightarrow>
     ts_rows s' = update_where tid (rejectRow reason) (ts_rows s) \<and>
     (\<exists>e. ts_chain s' = ts_chain s @ [e] \<and> ae_Action e = ''task_instance.rejected'' \<and> ae_ResourceID e = tid)"
  "update_write env s tid t input = Inr (ti, s') \<Longrightarrow>
     ts_rows s' = update_where tid (updateRow (te_Now env) input) (ts_rows s) \<and>
     (\<exists>e. ts_chain s' = ts_chain s @ [e] \<and> ae_Action e = ''task_instance.updated'' \<and> ae_ResourceID e = tid)"
  by (auto simp: submit_write_def approve_write_def reject_write_def update_write_def andthen_Inr Let_def
      dest!: record_audit_Inr split: option.splits)

text \<open>A use case that runs alone is a step.\<close>

lemma alone_steps:
  "SubmitForApproval env s tid actor = Inr (r, s') \<Longrightarrow> ti_step s s'"
  "Approve env s tid actor = Inr (r, s') \<Longrightarrow> ti_step s s'"
  "Reject env s tid reason = Inr (r, s') \<Longrightarrow> ti_step s s'"
  "ui_Status input \<in> set update_statuses \<Longrightarrow> Update env s tid input = Inr (ti, s') \<Longrightarrow> ti_step s s'"
  by (auto simp: SubmitForApproval_def Approve_def Reject_def Update_def andthen_Inr intro: ti_step.intros dest: read_Inr)

end
