(* ===== verification/TaskLife.thy ===== *)
theory TaskLife
  imports TaskInstances
begin

text \<open>
  The approval life cycle of task instances over all sequences of committed requests whose
  reads of the row they write are current, and what happens when they are not: the row invariant, segregation of duties, the freeze of approved rows, the lock of pending
  ones, and the audit entry each transition leaves.
\<close>

section \<open>The invariant\<close>

definition row_inv :: "task_instance \<Rightarrow> bool" where
  "row_inv r \<longleftrightarrow>
     (ti_Status r = ''pending_approval'' \<longrightarrow> ti_ApprovalRequired r \<and> ti_SubmittedBy r \<noteq> None \<and> ti_ApprovedBy r = None) \<and>
     (\<forall>a. ti_ApprovedBy r = Some a \<longrightarrow>
        ti_Status r = ''completed'' \<and> ti_ApprovalRequired r \<and> ti_ApprovedAt r \<noteq> None \<and> ti_CompletedAt r \<noteq> None \<and>
        (\<exists>b. ti_SubmittedBy r = Some b \<and> b \<noteq> a))"

definition store_inv :: "ti_store \<Rightarrow> bool" where
  "store_inv s \<longleftrightarrow> distinct (map ti_ID (ts_rows s)) \<and> list_all row_inv (ts_rows s)"

lemma row_inv_insert: "row_inv (insert_row tid i)"
  by (simp add: row_inv_def insert_row_def)

lemma insert_row_ID [simp]: "ti_ID (insert_row tid i) = tid"
  by (simp add: insert_row_def)

lemma row_inv_submit: "row_inv r \<Longrightarrow> ti_ApprovalRequired r \<Longrightarrow> \<not> IsApproved r \<Longrightarrow> row_inv (submitRow now a r)"
  by (auto simp: row_inv_def submitRow_def IsApproved_def)

lemma row_inv_approve:
  "row_inv r \<Longrightarrow> IsPendingApproval r \<Longrightarrow> ti_SubmittedBy r \<noteq> Some a \<Longrightarrow> row_inv (approveRow now a r)"
  by (auto simp: row_inv_def approveRow_def IsPendingApproval_def)

lemma row_inv_reject: "row_inv r \<Longrightarrow> IsPendingApproval r \<Longrightarrow> row_inv (rejectRow reason r)"
  by (auto simp: row_inv_def rejectRow_def IsPendingApproval_def)

lemma row_inv_update:
  "row_inv r \<Longrightarrow> \<not> IsApproved r \<Longrightarrow> ui_Status i \<in> set update_statuses \<Longrightarrow> row_inv (updateRow now i r)"
  by (auto simp: row_inv_def updateRow_def IsApproved_def update_statuses_def)

lemmas row_inv_ops = row_inv_submit row_inv_approve row_inv_reject row_inv_update

lemma ops_keep_id [simp]:
  "ti_ID (submitRow now a r) = ti_ID r" "ti_ID (approveRow now a r) = ti_ID r"
  "ti_ID (rejectRow reason r) = ti_ID r" "ti_ID (updateRow now i r) = ti_ID r"
  by (simp_all add: submitRow_def approveRow_def rejectRow_def updateRow_def)

lemma update_where_ids: "(\<And>r. ti_ID (f r) = ti_ID r) \<Longrightarrow> map ti_ID (update_where tid f rows) = map ti_ID rows"
  by (simp add: update_where_def comp_def if_distrib cong: if_cong)

lemma update_where_inv:
  assumes "store_inv s" "row_with tid (ts_rows s) = Some t" "\<And>r. ti_ID (f r) = ti_ID r" "row_inv t \<Longrightarrow> row_inv (f t)"
    and "ts_rows s' = update_where tid f (ts_rows s)"
  shows "store_inv s'"
proof -
  have t: "t \<in> set (ts_rows s)" "ti_ID t = tid" using row_with_Some [OF assms(2)] by auto
  have inv: "row_inv r" if "r \<in> set (ts_rows s)" for r
    using assms(1) that by (simp add: store_inv_def list_all_iff)
  have "row_inv (if ti_ID r = tid then f r else r)" if r: "r \<in> set (ts_rows s)" for r
  proof (cases "ti_ID r = tid")
    case True
    then have "r = t" using assms(1) t r unfolding store_inv_def distinct_map by (metis inj_onD)
    then show ?thesis using True assms(4) inv [OF r] by simp
  qed (simp add: inv [OF r])
  then have "list_all row_inv (update_where tid f (ts_rows s))"
    by (auto simp only: update_where_def list_all_iff set_map)
  then show ?thesis
    using assms(1,5) update_where_ids [of f tid "ts_rows s", OF assms(3)] by (simp only: store_inv_def)
qed

text \<open>A committed request other than an insertion rewrites one row that is not approved and adds one entry.\<close>

lemma ti_step_cases:
  assumes "ti_step s s'"
  obtains (create) tid i where "tid \<notin> ti_ID ` set (ts_rows s)" "s' = s\<lparr>ts_rows := ts_rows s @ [insert_row tid i]\<rparr>"
  | (rewrite) tid t f where "row_with tid (ts_rows s) = Some t" "\<And>r. ti_ID (f r) = ti_ID r"
      "ts_rows s' = update_where tid f (ts_rows s)" "row_inv t \<Longrightarrow> row_inv (f t)"
      "\<not> IsApproved t \<or> IsPendingApproval t"
      "\<exists>e. ts_chain s' = ts_chain s @ [e] \<and> ae_ResourceID e = tid"
  using assms
proof (cases rule: ti_step.cases)
  case (step_create tid i)
  then show thesis by (intro create)
next
  case (step_submit env s0 tid t actor r)
  with read_Inr(1) [OF step_submit(1)] write_Inr(1) [OF step_submit(3)] show thesis
    by (intro rewrite [of tid t "submitRow (te_Now env) actor"]) (auto intro: row_inv_ops)
next
  case (step_approve env s0 tid actor t r)
  with read_Inr(2) [OF step_approve(1)] write_Inr(2) [OF step_approve(3)] show thesis
    by (intro rewrite [of tid t "approveRow (te_Now env) actor"]) (auto intro: row_inv_ops)
next
  case (step_reject env s0 tid t reason r)
  with read_Inr(3) [OF step_reject(1)] write_Inr(3) [OF step_reject(3)] show thesis
    by (intro rewrite [of tid t "rejectRow reason"]) (auto intro: row_inv_ops)
next
  case (step_update input env s0 tid t input' ti)
  with read_Inr(4) [OF step_update(2)] write_Inr(4) [OF step_update(4)] show thesis
    by (intro rewrite [of tid t "updateRow (te_Now env) input'"]) (auto intro: row_inv_ops)
qed

lemma ti_step_inv:
  assumes "ti_step s s'" "store_inv s"
  shows "store_inv s'"
  using assms(1)
proof (cases rule: ti_step_cases)
  case (create tid i)
  with assms(2) show ?thesis by (simp add: store_inv_def row_inv_insert)
next
  case (rewrite tid t f)
  with assms(2) show ?thesis using update_where_inv by blast
qed

lemma reachable_inv:
  assumes "ti_reachable s"
  shows "store_inv s"
proof -
  obtain c where "ti_step\<^sup>*\<^sup>* \<lparr>ts_rows = [], ts_chain = c\<rparr> s" using assms by blast
  then show ?thesis
    by (induction rule: rtranclp_induct) (auto simp: ti_step_inv, simp add: store_inv_def)
qed

section \<open>Properties\<close>

text \<open>
  Property C1. As long as no request writes an instance between another request's read and write of
  that same instance (requests on different instances may overlap as they like), in every state
  a pending instance requires approval, names its submitter and carries no approver, and an
  approved instance is completed, required approval, is dated, and was approved by someone other
  than its submitter. The use cases do not enforce that condition: \<open>overlap_breaks_approval\<close>.
\<close>

theorem four_eyes:
  assumes "ti_reachable s" "r \<in> set (ts_rows s)"
  shows "(ti_Status r = ''pending_approval'' \<longrightarrow> ti_ApprovalRequired r \<and> ti_SubmittedBy r \<noteq> None \<and> ti_ApprovedBy r = None) \<and>
    (\<forall>a. ti_ApprovedBy r = Some a \<longrightarrow>
       ti_Status r = ''completed'' \<and> ti_ApprovalRequired r \<and> ti_ApprovedAt r \<noteq> None \<and> ti_CompletedAt r \<noteq> None \<and>
       (\<exists>b. ti_SubmittedBy r = Some b \<and> b \<noteq> a))"
  using reachable_inv [OF assms(1)] assms(2) by (simp add: store_inv_def list_all_iff row_inv_def)

definition example_env :: ti_env where
  "example_env = \<lparr>te_Ensure = (\<lambda>_ _. Inr ()), te_Visible = (\<lambda>_. True), te_Assignable = None, te_Templates = None,
     te_TemplateRow = (\<lambda>_. False), te_Now = 7, te_Sha = (\<lambda>s. s), te_Audit = example_context\<rparr>"

definition example_input :: create_task_instance_input where
  "example_input = \<lparr>ci_WorkflowID = ''w1'', ci_WorkflowTaskID = ''k1'', ci_PeriodCode = ''M1'', ci_Name = ''Prepare'',
     ci_Description = None, ci_TaskType = ''preparation'', ci_DueDate = New 2024 2 10, ci_PeriodEndDate = New 2024 1 31,
     ci_FilingDeadline = New 2024 2 15, ci_PaymentDeadline = None, ci_ApprovalRequired = True, ci_OrderIndex = 1,
     ci_DataTemplateID = None\<rparr>"

definition fresh_store :: ti_store where
  "fresh_store = \<lparr>ts_rows = [insert_row ''i1'' example_input], ts_chain = []\<rparr>"

definition pending_row :: task_instance where
  "pending_row = submitRow 7 ''alice'' (insert_row ''i1'' example_input)"

definition approved_row :: task_instance where
  "approved_row = approveRow 7 ''bob'' pending_row"

lemma fresh_store_reachable: "ti_step\<^sup>*\<^sup>* \<lparr>ts_rows = [], ts_chain = []\<rparr> fresh_store"
  using step_create [of "''i1''" "\<lparr>ts_rows = [], ts_chain = []\<rparr>" example_input] by (simp add: fresh_store_def)

lemma record_audit_ok: "\<exists>c. record_audit example_env a tid d s = Inr (s\<lparr>ts_chain := c\<rparr>)"
proof -
  obtain c where "audit_Record (\<lambda>s. s) example_context a ''task_instance'' tid d (ts_chain s) = Inr c"
    using audit_Record_ok by blast
  then have "record_audit example_env a tid d s = Inr (s\<lparr>ts_chain := c\<rparr>)" by (simp add: record_audit_def example_env_def)
  then show ?thesis by (rule exI)
qed

lemma example_submit:
  obtains c where "SubmitForApproval example_env fresh_store ''i1'' ''alice'' = Inr (Some pending_row, \<lparr>ts_rows = [pending_row], ts_chain = c\<rparr>)"
proof -
  obtain c where "record_audit example_env ''task_instance.submitted'' ''i1''
      (Some (JObj (status_change ''not_started'' ''pending_approval''))) (fresh_store\<lparr>ts_rows := [pending_row]\<rparr>) =
      Inr (fresh_store\<lparr>ts_rows := [pending_row], ts_chain := c\<rparr>)"
    using record_audit_ok by fastforce
  then show thesis
    using that by (simp add: SubmitForApproval_def submit_read_def submit_write_def load_instance_def ti_GetById_def row_with_def example_env_def fresh_store_def
        resolveTemplate_def IsApproved_def IsPendingApproval_def insert_row_def example_input_def update_where_def
        pending_row_def submitRow_def)
qed

lemma example_approve:
  obtains c where "Approve example_env \<lparr>ts_rows = [pending_row], ts_chain = ch\<rparr> ''i1'' ''bob'' =
    Inr (Some approved_row, \<lparr>ts_rows = [approved_row], ts_chain = c\<rparr>)"
proof -
  obtain c where "record_audit example_env ''task_instance.approved'' ''i1''
      (Some (JObj (status_change ''pending_approval'' ''completed''))) \<lparr>ts_rows = [approved_row], ts_chain = ch\<rparr> =
      Inr \<lparr>ts_rows = [approved_row], ts_chain = c\<rparr>"
    using record_audit_ok [of _ _ _ "\<lparr>ts_rows = [approved_row], ts_chain = ch\<rparr>"] by fastforce
  then show thesis
    using that by (simp add: Approve_def approve_read_def approve_write_def load_instance_def ti_GetById_def row_with_def example_env_def
        IsPendingApproval_def insert_row_def example_input_def update_where_def approved_row_def approveRow_def
        pending_row_def submitRow_def)
qed

lemma approved_store_reachable:
  obtains c where "ti_step\<^sup>*\<^sup>* \<lparr>ts_rows = [], ts_chain = []\<rparr> \<lparr>ts_rows = [approved_row], ts_chain = c\<rparr>"
proof -
  obtain c1 where "SubmitForApproval example_env fresh_store ''i1'' ''alice'' = Inr (Some pending_row, \<lparr>ts_rows = [pending_row], ts_chain = c1\<rparr>)"
    by (rule example_submit)
  then have 1: "ti_step fresh_store \<lparr>ts_rows = [pending_row], ts_chain = c1\<rparr>" by (rule alone_steps)
  obtain c2 where "Approve example_env \<lparr>ts_rows = [pending_row], ts_chain = c1\<rparr> ''i1'' ''bob'' =
    Inr (Some approved_row, \<lparr>ts_rows = [approved_row], ts_chain = c2\<rparr>)"
    by (rule example_approve)
  then have "ti_step \<lparr>ts_rows = [pending_row], ts_chain = c1\<rparr> \<lparr>ts_rows = [approved_row], ts_chain = c2\<rparr>"
    by (rule alone_steps)
  with fresh_store_reachable 1 have "ti_step\<^sup>*\<^sup>* \<lparr>ts_rows = [], ts_chain = []\<rparr> \<lparr>ts_rows = [approved_row], ts_chain = c2\<rparr>"
    by (simp only: rtranclp.rtrancl_into_rtrancl)
  then show thesis by (rule that)
qed

theorem four_eyes_witness: "\<exists>b. ti_SubmittedBy approved_row = Some b \<and> b \<noteq> ''bob''"
proof -
  obtain c where "ti_reachable \<lparr>ts_rows = [approved_row], ts_chain = c\<rparr>" using approved_store_reachable by blast
  from four_eyes [OF this, of approved_row] show ?thesis by (simp add: approved_row_def approveRow_def)
qed

lemma approved_step:
  assumes "ti_step s s'" "store_inv s" "r \<in> set (ts_rows s)" "IsApproved r"
  shows "r \<in> set (ts_rows s')"
  using assms(1)
proof (cases rule: ti_step_cases)
  case (rewrite tid t f)
  have "row_inv r" using assms(2,3) by (simp add: store_inv_def list_all_iff)
  with assms(4) have "\<not> IsPendingApproval r" by (auto simp: row_inv_def IsApproved_def IsPendingApproval_def)
  with rewrite(5) assms(4) have "t \<noteq> r" by auto
  with row_with_Some [OF rewrite(1)] assms(2,3) have "ti_ID r \<noteq> tid"
    unfolding store_inv_def distinct_map by (metis inj_onD)
  then show ?thesis using assms(3) unfolding rewrite(3) update_where_def by force
qed (use assms(3) in simp)

text \<open>
  Property C30. Under the same condition an approved instance never changes again: whatever requests
  follow, the row stays in the table exactly as it was attested.
\<close>

theorem approved_frozen:
  assumes "ti_reachable s" "ti_step\<^sup>*\<^sup>* s s'" "r \<in> set (ts_rows s)" "IsApproved r"
  shows "r \<in> set (ts_rows s')"
proof -
  have "store_inv s' \<and> r \<in> set (ts_rows s')"
    using assms(2)
  proof (induction rule: rtranclp_induct)
    case base
    then show ?case using reachable_inv [OF assms(1)] assms(3) by simp
  next
    case (step u v)
    then show ?case using ti_step_inv approved_step [OF step(2) _ _ assms(4)] by blast
  qed
  then show ?thesis by simp
qed

theorem approved_frozen_witness:
  "\<exists>s s'. ti_step s s' \<and> ts_rows s = [approved_row] \<and> approved_row \<in> set (ts_rows s')"
proof -
  obtain c where r: "ti_reachable \<lparr>ts_rows = [approved_row], ts_chain = c\<rparr>" using approved_store_reachable by blast
  let ?s = "\<lparr>ts_rows = [approved_row], ts_chain = c\<rparr>"
  have id: "ti_ID approved_row = ''i1''" by (simp add: approved_row_def pending_row_def)
  have st: "ti_step ?s (?s\<lparr>ts_rows := ts_rows ?s @ [insert_row ''i2'' example_input]\<rparr>)"
    by (rule step_create) (simp add: id)
  have "IsApproved approved_row" by (simp add: approved_row_def approveRow_def IsApproved_def)
  with approved_frozen [OF r r_into_rtranclp [of ti_step, OF st], of approved_row] st show ?thesis by fastforce
qed

text \<open>
  A pending or approved instance refuses every in-place edit, and an instance that is
  not pending refuses approval and rejection, each with a conflict; the submitter is refused
  approval of the own submission.
\<close>

theorem locked_rows_refuse:
  assumes "te_Ensure env tid = (\<lambda>_. Inr ())" "ti_GetById env s tid = Some t"
  shows "(IsApproved t \<or> IsPendingApproval t \<longrightarrow> (\<exists>m. Update env s tid input = Inl (ConflictError m))) \<and>
    (\<not> IsPendingApproval t \<longrightarrow> (\<exists>m m'. Approve env s tid actor = Inl (ConflictError m) \<and>
       Reject env s tid reason = Inl (ConflictError m'))) \<and>
    (IsPendingApproval t \<and> ti_SubmittedBy t = Some actor \<longrightarrow> (\<exists>m. Approve env s tid actor = Inl (ForbiddenError m)))"
  using assms
  by (auto simp: Update_def update_read_def Approve_def approve_read_def Reject_def reject_read_def load_instance_def guard_def)

theorem locked_rows_refuse_witness:
  "\<exists>m. Approve example_env \<lparr>ts_rows = [pending_row], ts_chain = []\<rparr> ''i1'' ''alice'' = Inl (ForbiddenError m)"
proof -
  have "ti_GetById example_env \<lparr>ts_rows = [pending_row], ts_chain = []\<rparr> ''i1'' = Some pending_row"
    by (simp add: ti_GetById_def row_with_def example_env_def pending_row_def)
  moreover have "te_Ensure example_env ''i1'' = (\<lambda>_. Inr ())" by (simp add: example_env_def)
  moreover have "IsPendingApproval pending_row" "ti_SubmittedBy pending_row = Some ''alice''"
    by (simp_all add: pending_row_def submitRow_def IsPendingApproval_def)
  ultimately show ?thesis using locked_rows_refuse by blast
qed

text \<open>
  A submission goes through only for an instance that requires approval, is neither
  pending nor approved, and holds a value for every mandatory field of its template; it leaves
  the instance pending under the submitter, and every other row as it was.
\<close>

theorem submission_requirements:
  assumes "SubmitForApproval env s tid actor = Inr (r, s')"
  shows "\<exists>t. row_with tid (ts_rows s) = Some t \<and> ti_ApprovalRequired t \<and> \<not> IsApproved t \<and> \<not> IsPendingApproval t \<and>
    (\<forall>tpl. resolveTemplate env None (ti_DataTemplateID t) = Inr (Some tpl) \<longrightarrow>
       (\<forall>f \<in> set (dt_Fields tpl). fd_Mandatory f \<longrightarrow> value_at (taxData_or_nil (ti_TaxData t)) (fd_ID f) \<noteq> JNull)) \<and>
    ts_rows s' = map (\<lambda>q. if ti_ID q = tid then submitRow (te_Now env) actor q else q) (ts_rows s)"
proof -
  from assms obtain t where rd: "submit_read env s tid = Inr t" and wr: "submit_write env s tid actor t = Inr (r, s')"
    by (auto simp: SubmitForApproval_def andthen_Inr)
  from rd have "\<And>tpl. resolveTemplate env None (ti_DataTemplateID t) = Inr (Some tpl) \<Longrightarrow>
      MissingMandatoryFields tpl (taxData_or_nil (ti_TaxData t)) = []"
    by (auto simp: submit_read_def andthen_Inr Let_def split: option.split_asm)
  with read_Inr(1) [OF rd] write_Inr(1) [OF wr] show ?thesis
    by (simp add: MissingMandatory_Nil update_where_def)
qed

theorem submission_requirements_witness:
  "\<exists>c. SubmitForApproval example_env fresh_store ''i1'' ''alice'' = Inr (Some pending_row, c) \<and>
    ts_rows c = map (\<lambda>q. if ti_ID q = ''i1'' then submitRow (te_Now example_env) ''alice'' q else q) (ts_rows fresh_store)"
proof -
  obtain c where "SubmitForApproval example_env fresh_store ''i1'' ''alice'' =
      Inr (Some pending_row, \<lparr>ts_rows = [pending_row], ts_chain = c\<rparr>)" by (rule example_submit)
  with submission_requirements [OF this] show ?thesis by blast
qed

text \<open>
  Every committed transition of an instance leaves exactly one audit entry, which names
  the instance, in the same transaction; only the named row is rewritten and no row disappears.
\<close>

theorem transitions_evidenced:
  assumes "ti_step s s'"
  shows "(\<exists>tid i. ts_rows s' = ts_rows s @ [insert_row tid i] \<and> tid \<notin> ti_ID ` set (ts_rows s)) \<or>
    (\<exists>e. ts_chain s' = ts_chain s @ [e] \<and> map ti_ID (ts_rows s') = map ti_ID (ts_rows s) \<and>
       (\<forall>r. r \<in> set (ts_rows s) \<and> ti_ID r \<noteq> ae_ResourceID e \<longrightarrow> r \<in> set (ts_rows s')))"
  using assms
proof (cases rule: ti_step_cases)
  case (rewrite tid t f)
  then obtain e where e: "ts_chain s' = ts_chain s @ [e]" "ae_ResourceID e = tid" by blast
  have "map ti_ID (ts_rows s') = map ti_ID (ts_rows s)"
    unfolding rewrite(3) by (rule update_where_ids) (rule rewrite(2))
  moreover have "r \<in> set (ts_rows s')" if "r \<in> set (ts_rows s)" "ti_ID r \<noteq> tid" for r
    using that unfolding rewrite(3) update_where_def by force
  ultimately show ?thesis using e by blast
qed auto

theorem transitions_evidenced_witness:
  "\<exists>s' e. ti_step fresh_store s' \<and> ts_chain s' = ts_chain fresh_store @ [e]"
proof -
  obtain c where "SubmitForApproval example_env fresh_store ''i1'' ''alice'' =
      Inr (Some pending_row, \<lparr>ts_rows = [pending_row], ts_chain = c\<rparr>)" by (rule example_submit)
  then have "ti_step fresh_store \<lparr>ts_rows = [pending_row], ts_chain = c\<rparr>" by (rule alone_steps)
  with transitions_evidenced [OF this] show ?thesis by (fastforce simp: fresh_store_def)
qed

section \<open>Completion without approval\<close>

definition complete_input :: update_task_instance_input where
  "complete_input = \<lparr>ui_Status = ''completed'', ui_AssigneeID = None, ui_DueDate = None, ui_Notes = None,
     ui_DataTemplateID = None, ui_TaxData = None, ui_TaxDataStatus = []\<rparr>"

text \<open>
  Property C40. The plain update may complete an instance that requires approval: nothing on this path looks at
  \<^verbatim>\<open>ApprovalRequired\<close>, and the request validator admits the status. The row then is completed,
  stamped and carries no approver.
\<close>

theorem update_completes_without_approval:
  "\<exists>ti s'. Update example_env fresh_store ''i1'' complete_input = Inr (ti, s') \<and> ti_ApprovalRequired ti \<and>
     ti_Status ti = ''completed'' \<and> ti_ApprovedBy ti = None \<and> ti_CompletedAt ti \<noteq> None"
proof -
  let ?t = "updateRow 7 (complete_input\<lparr>ui_TaxDataStatus := ''draft''\<rparr>) (insert_row ''i1'' example_input)"
  obtain c where "record_audit example_env ''task_instance.updated'' ''i1''
      (withTaxDataChange (Changes (auditValues (insert_row ''i1'' example_input)) (auditValues ?t)) [] [])
      (fresh_store\<lparr>ts_rows := [?t]\<rparr>) = Inr (fresh_store\<lparr>ts_rows := [?t], ts_chain := c\<rparr>)"
    using record_audit_ok by fastforce
  moreover have "load_instance example_env fresh_store ''i1'' = Inr (insert_row ''i1'' example_input)"
    by (simp add: load_instance_def ti_GetById_def row_with_def example_env_def fresh_store_def)
  moreover have "ti_TaxData (insert_row ''i1'' example_input) = None" "ti_TaxData ?t = None" "ti_ID ?t = ''i1''"
    "ti_DataTemplateID (insert_row ''i1'' example_input) = None"
    "\<not> IsApproved (insert_row ''i1'' example_input)" "\<not> IsPendingApproval (insert_row ''i1'' example_input)"
    by (simp_all add: insert_row_def updateRow_def complete_input_def IsApproved_def IsPendingApproval_def example_input_def)
  moreover have "te_Ensure example_env = (\<lambda>_ _. Inr ())" "te_Templates example_env = None" "te_Now example_env = 7"
    by (simp_all add: example_env_def)
  moreover have "ui_AssigneeID complete_input = None" "ui_TaxDataStatus complete_input = []"
    "ui_DataTemplateID complete_input = None" "ui_TaxData complete_input = None"
    "complete_input\<lparr>ui_TaxDataStatus := ''draft'', ui_TaxData := None\<rparr> = complete_input\<lparr>ui_TaxDataStatus := ''draft''\<rparr>"
    by (simp_all add: complete_input_def)
  ultimately have "Update example_env fresh_store ''i1'' complete_input = Inr (?t, fresh_store\<lparr>ts_rows := [?t], ts_chain := c\<rparr>)"
    by (simp add: Update_def update_read_def update_write_def checkAssignee_def resolveTemplate_def checkTaxData_def taxData_or_nil_def
        update_where_def row_with_def fresh_store_def Let_def)
  then show ?thesis
    by (intro exI conjI) (assumption, simp_all add: updateRow_def complete_input_def insert_row_def example_input_def)
qed

section \<open>Requests that race\<close>

definition reopen_input :: update_task_instance_input where
  "reopen_input = complete_input\<lparr>ui_Status := ''in_progress''\<rparr>"

lemma example_reads:
  "row_with tid (ts_rows s) = Some t \<Longrightarrow> ti_ApprovalRequired t \<Longrightarrow> \<not> IsApproved t \<Longrightarrow> \<not> IsPendingApproval t \<Longrightarrow>
     submit_read example_env s tid = Inr t"
  "row_with tid (ts_rows s) = Some t \<Longrightarrow> IsPendingApproval t \<Longrightarrow> ti_SubmittedBy t \<noteq> Some actor \<Longrightarrow>
     approve_read example_env s tid actor = Inr t"
  "row_with tid (ts_rows s) = Some t \<Longrightarrow> IsPendingApproval t \<Longrightarrow> reject_read example_env s tid = Inr t"
  "row_with tid (ts_rows s) = Some t \<Longrightarrow> \<not> IsApproved t \<Longrightarrow> \<not> IsPendingApproval t \<Longrightarrow>
     update_read example_env s tid reopen_input = Inr (t, reopen_input\<lparr>ui_TaxDataStatus := ''draft''\<rparr>)"
  by (simp_all add: submit_read_def approve_read_def reject_read_def update_read_def load_instance_def ti_GetById_def example_env_def
      resolveTemplate_def checkAssignee_def checkTaxData_def reopen_input_def complete_input_def)

lemma example_writes:
  "\<exists>r c. submit_write example_env s tid actor t = Inr (r, \<lparr>ts_rows = update_where tid (submitRow 7 actor) (ts_rows s), ts_chain = c\<rparr>)"
  "\<exists>r c. approve_write example_env s tid actor = Inr (r, \<lparr>ts_rows = update_where tid (approveRow 7 actor) (ts_rows s), ts_chain = c\<rparr>)"
  "\<exists>r c. reject_write example_env s tid reason = Inr (r, \<lparr>ts_rows = update_where tid (rejectRow reason) (ts_rows s), ts_chain = c\<rparr>)"
  "row_with tid (update_where tid (updateRow 7 i) (ts_rows s)) = Some ti \<Longrightarrow> ui_DataTemplateID i = None \<Longrightarrow>
     \<exists>r c. update_write example_env s tid t i = Inr (r, \<lparr>ts_rows = update_where tid (updateRow 7 i) (ts_rows s), ts_chain = c\<rparr>)"
proof -
  have now: "te_Now example_env = 7" by (simp add: example_env_def)
  have rec: "\<exists>c. record_audit example_env a tid d (s\<lparr>ts_rows := rows\<rparr>) = Inr \<lparr>ts_rows = rows, ts_chain = c\<rparr>" for a d rows
    using record_audit_ok [of a tid d "s\<lparr>ts_rows := rows\<rparr>"] by (cases s) auto
  show "\<exists>r c. submit_write example_env s tid actor t = Inr (r, \<lparr>ts_rows = update_where tid (submitRow 7 actor) (ts_rows s), ts_chain = c\<rparr>)"
    using rec [of "''task_instance.submitted''" "Some (JObj (status_change (ti_Status t) ''pending_approval''))" "update_where tid (submitRow 7 actor) (ts_rows s)"]
    by (auto simp: submit_write_def now Let_def)
  show "\<exists>r c. approve_write example_env s tid actor = Inr (r, \<lparr>ts_rows = update_where tid (approveRow 7 actor) (ts_rows s), ts_chain = c\<rparr>)"
    using rec [of "''task_instance.approved''" "Some (JObj (status_change ''pending_approval'' ''completed''))" "update_where tid (approveRow 7 actor) (ts_rows s)"]
    by (auto simp: approve_write_def now Let_def)
  show "\<exists>r c. reject_write example_env s tid reason = Inr (r, \<lparr>ts_rows = update_where tid (rejectRow reason) (ts_rows s), ts_chain = c\<rparr>)"
    using rec [of "''task_instance.rejected''" "Some (JObj ([(''from'', JStr ''pending_approval''), (''reasonProvided'', JBool (reason \<noteq> None)),
              (''to'', JStr ''in_progress'')]))" "update_where tid (rejectRow reason) (ts_rows s)"]
    by (auto simp: reject_write_def now Let_def)
  show "\<exists>r c. update_write example_env s tid t i = Inr (r, \<lparr>ts_rows = update_where tid (updateRow 7 i) (ts_rows s), ts_chain = c\<rparr>)"
    if "row_with tid (update_where tid (updateRow 7 i) (ts_rows s)) = Some ti" "ui_DataTemplateID i = None"
    using that rec [of "''task_instance.updated''" "withTaxDataChange (Changes (auditValues t) (auditValues ti))
                (taxData_or_nil (ti_TaxData t)) (taxData_or_nil (ti_TaxData ti))" "update_where tid (updateRow 7 i) (ts_rows s)"]
    by (auto simp: update_write_def now Let_def)
qed

definition empty_store :: ti_store where
  "empty_store = \<lparr>ts_rows = [], ts_chain = []\<rparr>"

lemma update_one: "update_where ''i1'' f [r] = [if ti_ID r = ''i1'' then f r else r]" "row_with ''i1'' [r] = (if ti_ID r = ''i1'' then Some r else None)"
  by (simp_all add: update_where_def row_with_def)

text \<open>The instance waits for approval of what alice submitted.\<close>

lemma submitted_history:
  obtains c where "ti_race\<^sup>*\<^sup>* [empty_store] [empty_store, fresh_store, \<lparr>ts_rows = [pending_row], ts_chain = c\<rparr>]"
proof -
  let ?h = "[empty_store, fresh_store]"
  have 1: "ti_race [empty_store] ?h"
    using race_create [of "''i1''" "[empty_store]" example_input] by (simp add: empty_store_def fresh_store_def)
  have rd: "submit_read example_env fresh_store ''i1'' = Inr (insert_row ''i1'' example_input)"
    by (rule example_reads) (simp_all add: fresh_store_def update_one insert_row_def example_input_def IsApproved_def IsPendingApproval_def)
  obtain r c where "submit_write example_env (last ?h) ''i1'' ''alice'' (insert_row ''i1'' example_input) =
      Inr (r, \<lparr>ts_rows = update_where ''i1'' (submitRow 7 ''alice'') (ts_rows (last ?h)), ts_chain = c\<rparr>)"
    using example_writes(1) by blast
  then have "submit_write example_env (last ?h) ''i1'' ''alice'' (insert_row ''i1'' example_input) = Inr (r, \<lparr>ts_rows = [pending_row], ts_chain = c\<rparr>)"
    by (simp add: fresh_store_def update_one pending_row_def)
  from race_submit [OF _ rd this] have "ti_race ?h (?h @ [\<lparr>ts_rows = [pending_row], ts_chain = c\<rparr>])" by simp
  with 1 have "ti_race\<^sup>*\<^sup>* [empty_store] [empty_store, fresh_store, \<lparr>ts_rows = [pending_row], ts_chain = c\<rparr>]" by simp
  then show thesis by (rule that)
qed

lemma own_approval:
  "\<exists>h r. ti_race\<^sup>*\<^sup>* [empty_store] h \<and> r \<in> set (ts_rows (last h)) \<and> IsApproved r \<and> ti_SubmittedBy r = Some ''bob'' \<and> ti_ApprovedBy r = Some ''bob''"
proof -
  obtain c where run: "ti_race\<^sup>*\<^sup>* [empty_store] [empty_store, fresh_store, \<lparr>ts_rows = [pending_row], ts_chain = c\<rparr>]"
    by (rule submitted_history)
  let ?h1 = "[empty_store, fresh_store, \<lparr>ts_rows = [pending_row], ts_chain = c\<rparr>]"
  let ?p = "\<lparr>ts_rows = [pending_row], ts_chain = c\<rparr>"
  note rows = pending_row_def insert_row_def example_input_def submitRow_def rejectRow_def approveRow_def IsApproved_def IsPendingApproval_def
  have seen: "approve_read example_env ?p ''i1'' ''bob'' = Inr pending_row"
    by (rule example_reads) (simp_all add: update_one rows)
  have "reject_read example_env ?p ''i1'' = Inr pending_row" by (rule example_reads) (simp_all add: update_one rows)
  moreover obtain r2 c2 where "reject_write example_env (last ?h1) ''i1'' None = Inr (r2, \<lparr>ts_rows = [rejectRow None pending_row], ts_chain = c2\<rparr>)"
    using example_writes(3) [of ?p "''i1''" None] by (auto simp: update_one rows)
  ultimately have 2: "ti_race ?h1 (?h1 @ [\<lparr>ts_rows = [rejectRow None pending_row], ts_chain = c2\<rparr>])" (is "ti_race _ ?h2")
    by (intro race_reject [of ?p]) simp_all
  have "submit_read example_env (last ?h2) ''i1'' = Inr (rejectRow None pending_row)"
    by (rule example_reads) (simp_all add: update_one rows)
  moreover obtain r3 c3 where "submit_write example_env (last ?h2) ''i1'' ''bob'' (rejectRow None pending_row) =
      Inr (r3, \<lparr>ts_rows = [submitRow 7 ''bob'' (rejectRow None pending_row)], ts_chain = c3\<rparr>)"
    using example_writes(1) [of "last ?h2" "''i1''" "''bob''" "rejectRow None pending_row"] by (auto simp: update_one rows)
  ultimately have 3: "ti_race ?h2 (?h2 @ [\<lparr>ts_rows = [submitRow 7 ''bob'' (rejectRow None pending_row)], ts_chain = c3\<rparr>])" (is "ti_race _ ?h3")
    by (intro race_submit [of "last ?h2"]) simp_all
  let ?r = "approveRow 7 ''bob'' (submitRow 7 ''bob'' (rejectRow None pending_row))"
  obtain r4 c4 where "approve_write example_env (last ?h3) ''i1'' ''bob'' = Inr (r4, \<lparr>ts_rows = [?r], ts_chain = c4\<rparr>)"
    using example_writes(2) [of "last ?h3" "''i1''" "''bob''"] by (auto simp: update_one rows)
  with seen have "ti_race ?h3 (?h3 @ [\<lparr>ts_rows = [?r], ts_chain = c4\<rparr>])" (is "ti_race _ ?h4")
    by (intro race_approve [of ?p]) simp_all
  with run 2 3 have "ti_race\<^sup>*\<^sup>* [empty_store] ?h4" by (meson rtranclp.rtrancl_into_rtrancl)
  then show ?thesis by (intro exI [of _ ?h4] exI [of _ ?r]) (simp add: rows)
qed

lemma attested_row_rewritten:
  "\<exists>h h' r. ti_race\<^sup>*\<^sup>* [empty_store] h \<and> ti_race\<^sup>*\<^sup>* h h' \<and> r \<in> set (ts_rows (last h)) \<and> IsApproved r \<and> r \<notin> set (ts_rows (last h'))"
proof -
  obtain c where run: "ti_race\<^sup>*\<^sup>* [empty_store] [empty_store, fresh_store, \<lparr>ts_rows = [pending_row], ts_chain = c\<rparr>]"
    by (rule submitted_history)
  let ?h1 = "[empty_store, fresh_store, \<lparr>ts_rows = [pending_row], ts_chain = c\<rparr>]"
  note rows = approved_row_def pending_row_def insert_row_def example_input_def submitRow_def approveRow_def updateRow_def reopen_input_def complete_input_def
    IsApproved_def IsPendingApproval_def
  have pend: "ti_ID pending_row = ''i1''" "ti_ID approved_row = ''i1''" by (simp_all add: rows)
  let ?i = "reopen_input\<lparr>ui_TaxDataStatus := ''draft''\<rparr>"
  have seen: "update_read example_env fresh_store ''i1'' reopen_input = Inr (insert_row ''i1'' example_input, ?i)"
    by (rule example_reads) (simp_all add: fresh_store_def update_one rows)
  have "approve_read example_env (last ?h1) ''i1'' ''bob'' = Inr pending_row" by (rule example_reads) (simp_all add: update_one rows)
  moreover obtain r2 c2 where "approve_write example_env (last ?h1) ''i1'' ''bob'' = Inr (r2, \<lparr>ts_rows = [approved_row], ts_chain = c2\<rparr>)"
    using example_writes(2) [of "last ?h1" "''i1''" "''bob''"] by (auto simp: update_one approved_row_def pend)
  ultimately have 2: "ti_race ?h1 (?h1 @ [\<lparr>ts_rows = [approved_row], ts_chain = c2\<rparr>])" (is "ti_race _ ?h2")
    by (intro race_approve [of "last ?h1"]) simp_all
  obtain r3 c3 where "update_write example_env (last ?h2) ''i1'' (insert_row ''i1'' example_input) ?i =
      Inr (r3, \<lparr>ts_rows = [updateRow 7 ?i approved_row], ts_chain = c3\<rparr>)"
    using example_writes(4) [of "''i1''" ?i "last ?h2" "updateRow 7 ?i approved_row" "insert_row ''i1'' example_input"]
    by (auto simp: update_one pend reopen_input_def complete_input_def)
  then have "ti_race ?h2 (?h2 @ [\<lparr>ts_rows = [updateRow 7 ?i approved_row], ts_chain = c3\<rparr>])" (is "ti_race _ ?h3")
    by (intro race_update [OF _ _ seen]) (simp_all add: reopen_input_def complete_input_def update_statuses_def)
  moreover have "updateRow 7 ?i approved_row \<noteq> approved_row" "IsApproved approved_row" by (simp_all add: rows)
  ultimately show ?thesis using run 2 by (intro exI [of _ ?h2] exI [of _ ?h3] exI [of _ approved_row]) (auto intro: rtranclp.rtrancl_into_rtrancl)
qed

text \<open>
  Property C12. Nothing ties a write to the version its checks were made on, and the isolation level does not
  either. When requests on one instance overlap, bob approves his own submission: he read it as
  alice's, and between his read and his write hers was rejected and he submitted. And an
  attested row is rewritten by an update that read it before the submission.
\<close>

theorem overlap_breaks_approval:
  "(\<exists>h r. ti_race\<^sup>*\<^sup>* [empty_store] h \<and> r \<in> set (ts_rows (last h)) \<and> IsApproved r \<and>
      ti_SubmittedBy r = Some ''bob'' \<and> ti_ApprovedBy r = Some ''bob'') \<and>
   (\<exists>h h' r. ti_race\<^sup>*\<^sup>* [empty_store] h \<and> ti_race\<^sup>*\<^sup>* h h' \<and> r \<in> set (ts_rows (last h)) \<and> IsApproved r \<and> r \<notin> set (ts_rows (last h')))"
  using own_approval attested_row_rewritten by (rule conjI)

end
