(* ===== verification/WorkflowStart.thy ===== *)
theory WorkflowStart
  imports TaskInstances
begin

text \<open>
  Starting a workflow. The locale \<^verbatim>\<open>workflow_store\<close> states what the generator relies on of its
  repositories; inside it, a start is shown to happen at most once and to activate the workflow.
  The interpretation is the database of the model: the tables the statements of
  \<^verbatim>\<open>modules/workflows/repositories/pg\<close> and \<^verbatim>\<open>modules/taskinstances/repositories/pg\<close> work on.
\<close>

section \<open>The interface\<close>

lemma loadWorkflow_Some:
  assumes "loadWorkflow g s wid = Inr w"
  shows "g_workflows_GetById g s wid = Inr (Some w)"
    "wf_WorkflowCategory w = ''project'' \<or> wf_WorkflowCategory w = ''recurring'' \<and> wf_SelectedPeriods w \<noteq> []"
proof -
  obtain row where row: "g_workflows_GetById g s wid = Inr row" using assms by (auto simp: loadWorkflow_def andthen_Inr)
  with assms obtain w' where w': "row = Some w'" by (cases row) (auto simp: loadWorkflow_def)
  show "g_workflows_GetById g s wid = Inr (Some w)"
    "wf_WorkflowCategory w = ''project'' \<or> wf_WorkflowCategory w = ''recurring'' \<and> wf_SelectedPeriods w \<noteq> []"
    using assms row w' by (simp_all add: loadWorkflow_def split: if_split_asm)
qed

lemmas loadWorkflow_get = loadWorkflow_Some(1)
lemmas loadWorkflow_periods = loadWorkflow_Some(2)

text \<open>The full replacement the workflow repository's UPDATE writes.\<close>

definition apply_update :: "workflow \<Rightarrow> update_workflow_input \<Rightarrow> workflow" where
  "apply_update w u =
     \<lparr>wf_ID = wf_ID w, wf_Name = uw_Name u, wf_Description = uw_Description u,
      wf_WorkflowCategory = uw_WorkflowCategory u, wf_ProjectType = uw_ProjectType u,
      wf_FinancialYear = uw_FinancialYear u, wf_Periodicity = uw_Periodicity u,
      wf_SelectedPeriods = uw_SelectedPeriods u, wf_EntityID = uw_EntityID u,
      wf_ObligationTypeID = uw_ObligationTypeID u, wf_DueDateRule = uw_DueDateRule u,
      wf_StartDate = uw_StartDate u, wf_EndDate = uw_EndDate u,
      wf_TasksSequential = uw_TasksSequential u, wf_Status = uw_Status u\<rparr>"

lemma apply_activated: "apply_update w (activatedInput w) = w\<lparr>wf_Status := ''active''\<rparr>"
  by (simp add: apply_update_def activatedInput_def)

locale workflow_store =
  fixes g :: "'s generator"
  assumes count_nonneg: "g_instances_CountByWorkflow g s wid = Inr n \<Longrightarrow> 0 \<le> n"
    and count_create: "g_instances_Create g s i = Inr s' \<Longrightarrow> g_instances_CountByWorkflow g s wid = Inr n \<Longrightarrow>
      g_instances_CountByWorkflow g s' wid = Inr (n + (if ci_WorkflowID i = wid then 1 else 0))"
    and count_update: "g_workflows_Update g s wid' u = Inr s' \<Longrightarrow>
      g_instances_CountByWorkflow g s' wid = g_instances_CountByWorkflow g s wid"
    and count_audit: "g_audit_Record g s a rt rid d = Inr s' \<Longrightarrow>
      g_instances_CountByWorkflow g s' wid = g_instances_CountByWorkflow g s wid"
    and get_id: "g_workflows_GetById g s wid = Inr (Some w) \<Longrightarrow> wf_ID w = wid"
    and get_create: "g_instances_Create g s i = Inr s' \<Longrightarrow> g_workflows_GetById g s' wid = g_workflows_GetById g s wid"
    and get_update: "g_workflows_Update g s wid u = Inr s' \<Longrightarrow> g_workflows_GetById g s wid = Inr (Some w) \<Longrightarrow>
      g_workflows_GetById g s' wid = Inr (Some (apply_update w u))"
    and get_audit: "g_audit_Record g s a rt rid d = Inr s' \<Longrightarrow> g_workflows_GetById g s' wid = g_workflows_GetById g s wid"
begin

lemma createAll_get: "createAll g s is = Inr s' \<Longrightarrow> g_workflows_GetById g s' wid = g_workflows_GetById g s wid"
  by (induction "is" arbitrary: s) (auto simp: andthen_Inr get_create)

lemma createAll_count:
  "createAll g s is = Inr s' \<Longrightarrow> \<forall>i \<in> set is. ci_WorkflowID i = wid \<Longrightarrow>
     g_instances_CountByWorkflow g s wid = Inr n \<Longrightarrow> g_instances_CountByWorkflow g s' wid = Inr (n + int (length is))"
proof (induction "is" arbitrary: s n)
  case (Cons i "is")
  then obtain s1 where s1: "g_instances_Create g s (create_task_instance_input.truncate i) = Inr s1" "createAll g s1 is = Inr s'"
    by (auto simp: andthen_Inr)
  have "ci_WorkflowID (create_task_instance_input.truncate i) = wid"
    using Cons.prems(2) by (simp add: create_task_instance_input.truncate_def)
  with count_create [OF s1(1) Cons.prems(3)] have "g_instances_CountByWorkflow g s1 wid = Inr (n + 1)" by simp
  from Cons.IH [OF s1(2) _ this] Cons.prems(2) show ?case by simp
qed simp

lemma loadWorkflow_activated:
  assumes "loadWorkflow g s wid = Inr w" "g_workflows_GetById g s' wid = Inr (Some (w\<lparr>wf_Status := ''active''\<rparr>))"
  shows "loadWorkflow g s' wid = Inr (w\<lparr>wf_Status := ''active''\<rparr>)"
  using assms loadWorkflow_get [OF assms(1)] by (simp add: loadWorkflow_def split: if_split_asm)

end

section \<open>A loaded plan is never empty\<close>

lemma plan_nonempty:
  assumes "loadWorkflow g s wid = Inr w" "planWorkflow g s w ovs = Inr plan"
  shows "pl_instances plan \<noteq> []" "\<forall>i \<in> set (pl_instances plan). ci_WorkflowID i = wf_ID w"
proof -
  obtain tasks where t: "loadTemplates g s (wf_ID w) = Inr tasks"
    and rows: "list_all2 (\<lambda>(pc, t) i. row_of w pc t i) (plan_pairs w tasks) (pl_instances plan)"
    using planWorkflow_rows [OF assms(2)] by blast
  have "tasks \<noteq> []" using t unfolding loadTemplates_Inr by (metis length_0_conv length_sort)
  then have "plan_pairs w tasks \<noteq> []"
    using loadWorkflow_periods [OF assms(1)] by (cases "wf_SelectedPeriods w") (auto simp: plan_pairs_def)
  with rows show "pl_instances plan \<noteq> []" by auto
  show "\<forall>i \<in> set (pl_instances plan). ci_WorkflowID i = wf_ID w"
    using rows by (induction rule: list_all2_induct) (auto simp: row_of_def)
qed

lemma StartWorkflow_Inr:
  assumes "StartWorkflow g s wid ovs = Inr (n, s')"
  obtains w existing plan s1 s2 d where "g_EnsureWorkflow g s wid ''workflow:write'' = Inr ()"
    "loadWorkflow g s wid = Inr w" "g_instances_CountByWorkflow g s wid = Inr existing" "existing \<le> 0"
    "planWorkflow g s w ovs = Inr plan" "createAll g s (pl_instances plan) = Inr s1"
    "g_workflows_Update g s1 (wf_ID w) (activatedInput w) = Inr s2"
    "g_audit_Record g s2 ''workflow.started'' ''workflow'' wid d = Inr s'" "n = int (length (pl_instances plan))"
    "sd_appliedOverrides d = pl_overrides plan" "sd_instancesCreated d = n"
  using assms by (auto simp: StartWorkflow_def andthen_Inr split: if_split_asm)

context workflow_store
begin

lemma start_effect:
  assumes "StartWorkflow g s wid ovs = Inr (n, s')"
  shows "1 \<le> n \<and> g_instances_CountByWorkflow g s wid = Inr 0 \<and> g_instances_CountByWorkflow g s' wid = Inr n \<and>
    (\<exists>w. loadWorkflow g s wid = Inr w \<and> loadWorkflow g s' wid = Inr (w\<lparr>wf_Status := ''active''\<rparr>))"
proof -
  from assms show ?thesis
  proof (cases rule: StartWorkflow_Inr)
    case (1 w existing plan s1 s2 d)
    have wid: "wf_ID w = wid" using get_id loadWorkflow_get [OF 1(2)] by blast
    have zero: "g_instances_CountByWorkflow g s wid = Inr 0" using 1(3,4) count_nonneg [OF 1(3)] by simp
    note ne = plan_nonempty [OF 1(2,5)]
    have "g_instances_CountByWorkflow g s1 wid = Inr n"
      using createAll_count [OF 1(6) _ zero] ne(2) wid 1(9) by simp
    then have "g_instances_CountByWorkflow g s' wid = Inr n" using count_update [OF 1(7)] count_audit [OF 1(8)] by simp
    moreover have "g_workflows_GetById g s1 wid = Inr (Some w)"
      using createAll_get [OF 1(6)] loadWorkflow_get [OF 1(2)] by simp
    then have "g_workflows_GetById g s' wid = Inr (Some (w\<lparr>wf_Status := ''active''\<rparr>))"
      using get_update 1(7) get_audit [OF 1(8)] wid by (simp add: apply_activated)
    then have "loadWorkflow g s' wid = Inr (w\<lparr>wf_Status := ''active''\<rparr>)"
      by (rule loadWorkflow_activated [OF 1(2)])
    moreover have "1 \<le> n" using ne(1) 1(9) by (cases "pl_instances plan") auto
    ultimately show ?thesis using zero 1(2) by blast
  qed
qed

lemma start_once:
  assumes "StartWorkflow g s wid ovs = Inr (n, s')" "g_EnsureWorkflow g s' wid ''workflow:write'' = Inr ()"
  shows "StartWorkflow g s' wid ovs' = Inl (NewConflict ''workflow has already been started (task instances exist)'')"
  using start_effect [OF assms(1)] assms(2) by (auto simp: StartWorkflow_def)

end

section \<open>The database\<close>

record database =
  db_workflows :: "workflow list"
  db_tasks :: ti_store

definition workflows_GetById :: "database \<Rightarrow> string \<Rightarrow> workflow option app" where
  "workflows_GetById db wid = Inr (find (\<lambda>w. wf_ID w = wid) (db_workflows db))"

definition workflows_Update :: "database \<Rightarrow> string \<Rightarrow> update_workflow_input \<Rightarrow> database app" where
  "workflows_Update db wid u =
     Inr (db\<lparr>db_workflows := map (\<lambda>w. if wf_ID w = wid then apply_update w u else w) (db_workflows db)\<rparr>)"

definition instances_CountByWorkflow :: "database \<Rightarrow> string \<Rightarrow> int app" where
  "instances_CountByWorkflow db wid = Inr (int (length (filter (\<lambda>r. ti_WorkflowID r = wid) (ts_rows (db_tasks db)))))"

text \<open>
  The generated id is a function of the table, as fresh as the database makes it; \<open>refused\<close> says which rows the
  database turns away: a period code of more than ten characters, a template or workflow that is gone.
\<close>

definition instances_Create ::
  "(task_instance list \<Rightarrow> string) \<Rightarrow> (create_task_instance_input \<Rightarrow> bool) \<Rightarrow> database \<Rightarrow> create_task_instance_input \<Rightarrow> database app" where
  "instances_Create newid refused db i =
     (let rows = ts_rows (db_tasks db)
      in if refused i then Inl (Internal (text_msg ''the row violates a constraint of task_instances''))
         else Inr (db\<lparr>db_tasks := (db_tasks db)\<lparr>ts_rows := rows @ [insert_row (newid rows) i]\<rparr>\<rparr>))"

definition date_json :: "date \<Rightarrow> json" where
  "date_json d = JStr (date_String d)"

definition override_json :: "applied_override \<Rightarrow> json" where
  "override_json o1 = JObj [(''applied'', date_json (ao_Applied o1)), (''computed'', date_json (ao_Computed o1)),
     (''field'', JStr (ao_Field o1)), (''periodCode'', JStr (ao_PeriodCode o1)), (''templateId'', JStr (ao_TemplateID o1))]"

definition started_json :: "started_details \<Rightarrow> json" where
  "started_json d = JObj
     [(''appliedOverrides'', if sd_appliedOverrides d = [] then JNull else JArr (map override_json (sd_appliedOverrides d))),
      (''instancesCreated'', JNum (Dec (sd_instancesCreated d) 0)), (''overrides'', JNum (Dec (sd_overrides d) 0)),
      (''periods'', JNum (Dec (sd_periods d) 0))]"

definition db_audit_Record ::
  "(string \<Rightarrow> string) \<Rightarrow> audit_context \<Rightarrow> database \<Rightarrow> string \<Rightarrow> string \<Rightarrow> string \<Rightarrow> started_details \<Rightarrow> database app" where
  "db_audit_Record sha ctx db action rt rid d =
     (case audit_Record sha ctx action rt rid (Some (started_json d)) (ts_chain (db_tasks db)) of
        Inl m \<Rightarrow> Inl (Internal m)
      | Inr c \<Rightarrow> Inr (db\<lparr>db_tasks := (db_tasks db)\<lparr>ts_chain := c\<rparr>\<rparr>))"

text \<open>What a request supplies beside the database: the authorizer and the other modules.\<close>

record gen_env =
  ge_Ensure :: "database \<Rightarrow> string \<Rightarrow> string \<Rightarrow> unit app"
  ge_NewID :: "task_instance list \<Rightarrow> string"
  ge_Refused :: "create_task_instance_input \<Rightarrow> bool"
  ge_Templates :: "string \<Rightarrow> workflow_task list app"
  ge_Entities :: "string \<Rightarrow> entity option app"
  ge_Obligations :: "(string \<Rightarrow> string \<Rightarrow> deadline_rule option app) option"
  ge_Sha :: "string \<Rightarrow> string"
  ge_Audit :: audit_context

definition pg_generator :: "gen_env \<Rightarrow> database generator" where
  "pg_generator env =
     \<lparr>g_EnsureWorkflow = ge_Ensure env, g_workflows_GetById = workflows_GetById,
      g_workflows_Update = workflows_Update, g_instances_CountByWorkflow = instances_CountByWorkflow,
      g_instances_Create = instances_Create (ge_NewID env) (ge_Refused env),
      g_workflowTasks_ListByWorkflow = (\<lambda>_. ge_Templates env), g_entities_GetById = (\<lambda>_. ge_Entities env),
      g_obligations = map_option (\<lambda>f _. f) (ge_Obligations env),
      g_audit_Record = db_audit_Record (ge_Sha env) (ge_Audit env)\<rparr>"

lemma pg_generator_sel [simp]:
  "g_EnsureWorkflow (pg_generator env) = ge_Ensure env" "g_workflows_GetById (pg_generator env) = workflows_GetById"
  "g_workflows_Update (pg_generator env) = workflows_Update"
  "g_instances_CountByWorkflow (pg_generator env) = instances_CountByWorkflow"
  "g_instances_Create (pg_generator env) = instances_Create (ge_NewID env) (ge_Refused env)"
  "g_workflowTasks_ListByWorkflow (pg_generator env) = (\<lambda>_. ge_Templates env)"
  "g_entities_GetById (pg_generator env) = (\<lambda>_. ge_Entities env)"
  "g_obligations (pg_generator env) = map_option (\<lambda>f _. f) (ge_Obligations env)"
  "g_audit_Record (pg_generator env) = db_audit_Record (ge_Sha env) (ge_Audit env)"
  by (simp_all add: pg_generator_def)

lemmas pg_ports = workflows_GetById_def workflows_Update_def instances_CountByWorkflow_def
  instances_Create_def db_audit_Record_def

lemma find_map_update:
  "find (\<lambda>w. wf_ID w = wid) (map (\<lambda>w. if wf_ID w = wid then apply_update w u else w) ws) =
     map_option (\<lambda>w. apply_update w u) (find (\<lambda>w. wf_ID w = wid) ws)"
  by (induction ws) (auto simp: apply_update_def)

interpretation pg: workflow_store "pg_generator env" for env
proof unfold_locales
  fix s s' :: database and wid w u
  assume "g_workflows_GetById (pg_generator env) s wid = Inr (Some w)"
    and "g_workflows_Update (pg_generator env) s wid u = Inr s'"
  then show "g_workflows_GetById (pg_generator env) s' wid = Inr (Some (apply_update w u))"
    by (auto simp: pg_ports find_map_update)
qed (auto simp: pg_ports Let_def insert_row_def find_Some_iff split: sum.splits if_split_asm)

text \<open>
  A successful start creates at least one instance, found the workflow without any,
  and leaves it active; a start of the same workflow in the state it leaves, with any
  overrides, is refused as a conflict. The count and the inserts are statements of one READ COMMITTED
  transaction and no constraint backs them, so two starts that overlap may both succeed.
\<close>

theorem start_happens_once:
  assumes "StartWorkflow (pg_generator env) db wid ovs = Inr (n, db')"
  shows "1 \<le> n \<and> instances_CountByWorkflow db wid = Inr 0 \<and> instances_CountByWorkflow db' wid = Inr n \<and>
    (\<exists>w. workflows_GetById db' wid = Inr (Some w) \<and> wf_Status w = ''active'') \<and>
    (ge_Ensure env db' wid ''workflow:write'' = Inr () \<longrightarrow>
       (\<forall>ovs'. StartWorkflow (pg_generator env) db' wid ovs' =
          Inl (NewConflict ''workflow has already been started (task instances exist)'')))"
proof -
  note e = pg.start_effect [OF assms]
  then obtain w where "loadWorkflow (pg_generator env) db' wid = Inr (w\<lparr>wf_Status := ''active''\<rparr>)" by blast
  from loadWorkflow_get [OF this] have "workflows_GetById db' wid = Inr (Some (w\<lparr>wf_Status := ''active''\<rparr>))"
    by simp
  with e pg.start_once [OF assms] show ?thesis by fastforce
qed

section \<open>Preview and start agree\<close>

definition row_shows :: "preview_task \<Rightarrow> task_instance \<Rightarrow> bool" where
  "row_shows p r \<longleftrightarrow> ti_WorkflowTaskID r = pt_TemplateID p \<and> ti_PeriodCode r = pt_PeriodCode p \<and>
     ti_Name r = pt_Name p \<and> ti_TaskType r = pt_TaskType p \<and> ti_DueDate r = pt_DueDate p \<and>
     ti_PeriodEndDate r = pt_PeriodEndDate p \<and> ti_FilingDeadline r = pt_FilingDeadline p \<and>
     ti_PaymentDeadline r = pt_PaymentDeadline p \<and> ti_OrderIndex r = pt_OrderIndex p"

lemma row_shows_insert: "row_shows (preview_task i) (insert_row tid (create_task_instance_input.truncate i))"
  by (simp add: row_shows_def preview_task_def insert_row_def create_task_instance_input.truncate_def)

lemma createAll_rows:
  "createAll (pg_generator env) db is = Inr db' \<Longrightarrow>
     \<exists>new. ts_rows (db_tasks db') = ts_rows (db_tasks db) @ new \<and>
       list_all2 (\<lambda>i r. \<exists>tid. r = insert_row tid (create_task_instance_input.truncate i)) is new"
proof (induction "is" arbitrary: db)
  case (Cons i "is")
  let ?rows = "ts_rows (db_tasks db)" and ?tid = "ge_NewID env (ts_rows (db_tasks db))"
  define tid where "tid = ?tid"
  define db1 where "db1 = db\<lparr>db_tasks := (db_tasks db)\<lparr>ts_rows := ?rows @ [insert_row tid (create_task_instance_input.truncate i)]\<rparr>\<rparr>"
  have 1: "ts_rows (db_tasks db1) = ?rows @ [insert_row tid (create_task_instance_input.truncate i)]"
    by (simp add: db1_def)
  obtain s1 where s1: "instances_Create (ge_NewID env) (ge_Refused env) db (create_task_instance_input.truncate i) = Inr s1"
    "createAll (pg_generator env) s1 is = Inr db'" using Cons.prems by (auto simp: andthen_Inr)
  then have "s1 = db1" by (simp add: instances_Create_def Let_def db1_def tid_def split: if_splits)
  with s1 have 2: "createAll (pg_generator env) db1 is = Inr db'" by simp
  from Cons.IH [OF 2] obtain new where "ts_rows (db_tasks db') = ts_rows (db_tasks db1) @ new"
    "list_all2 (\<lambda>i r. \<exists>tid. r = insert_row tid (create_task_instance_input.truncate i)) is new" by blast
  with 1 show ?case
    by (intro exI [of _ "insert_row tid (create_task_instance_input.truncate i) # new"]) auto
qed simp

lemma start_rows:
  assumes "StartWorkflow (pg_generator env) db wid ovs = Inr (n, db')"
  obtains w plan new where "loadWorkflow (pg_generator env) db wid = Inr w"
    "planWorkflow (pg_generator env) db w ovs = Inr plan" "n = int (length (pl_instances plan))"
    "ts_rows (db_tasks db') = ts_rows (db_tasks db) @ new"
    "list_all2 (\<lambda>i r. \<exists>tid. r = insert_row tid (create_task_instance_input.truncate i)) (pl_instances plan) new"
  using assms
proof (cases rule: StartWorkflow_Inr)
  case (1 w existing plan s1 s2 d)
  from createAll_rows [OF 1(6)] obtain new where new: "ts_rows (db_tasks s1) = ts_rows (db_tasks db) @ new"
    "list_all2 (\<lambda>i r. \<exists>tid. r = insert_row tid (create_task_instance_input.truncate i)) (pl_instances plan) new" by blast
  have "ts_rows (db_tasks db') = ts_rows (db_tasks s1)"
    using 1(7,8) by (auto simp: pg_ports split: sum.splits)
  with 1 new that show thesis by simp
qed

text \<open>
  Property C21. What the preview shows is what a start without overrides persists: the same number
  of instances, and one new row per previewed task, in the same order, under the same template
  and period and with the same dates; no existing row is touched.
\<close>

theorem preview_is_start:
  assumes "PreviewWorkflow (pg_generator env) db wid = Inr pv"
    and "StartWorkflow (pg_generator env) db wid [] = Inr (n, db')"
  shows "n = wp_TotalTasks pv \<and>
    (\<exists>new. ts_rows (db_tasks db') = ts_rows (db_tasks db) @ new \<and> list_all2 row_shows (wp_Tasks pv) new)"
  using assms(2)
proof (rule start_rows)
  fix w plan new
  assume s: "loadWorkflow (pg_generator env) db wid = Inr w" "planWorkflow (pg_generator env) db w [] = Inr plan"
    "n = int (length (pl_instances plan))" "ts_rows (db_tasks db') = ts_rows (db_tasks db) @ new"
    and new: "list_all2 (\<lambda>i r. \<exists>tid. r = insert_row tid (create_task_instance_input.truncate i)) (pl_instances plan) new"
  have pv: "wp_TotalTasks pv = int (length (pl_instances plan))" "wp_Tasks pv = map preview_task (pl_instances plan)"
    using assms(1) s(1,2) by (auto simp: PreviewWorkflow_def andthen_Inr)
  have "list_all2 row_shows (map preview_task (pl_instances plan)) new"
    using new unfolding list_all2_map1 by (rule list_all2_mono) (auto simp: row_shows_insert)
  with s pv show ?thesis by simp
qed

section \<open>A project, end to end\<close>

definition project_workflow :: workflow where
  "project_workflow = \<lparr>wf_ID = ''w1'', wf_Name = ''Audit'', wf_Description = None, wf_WorkflowCategory = ''project'',
     wf_ProjectType = None, wf_FinancialYear = None, wf_Periodicity = None, wf_SelectedPeriods = [],
     wf_EntityID = None, wf_ObligationTypeID = None,
     wf_DueDateRule = \<lparr>ddr_Reference = [], ddr_OffsetUnit = [], ddr_OffsetValue = 0, ddr_OffsetDirection = [], ddr_WeekendAdjustment = []\<rparr>,
     wf_StartDate = None, wf_EndDate = Some ''2024-06-30'', wf_TasksSequential = False, wf_Status = ''draft''\<rparr>"

definition project_task :: workflow_task where
  "project_task = \<lparr>wt_ID = ''k1'', wt_WorkflowID = ''w1'', wt_Name = ''Collect'', wt_Description = None, wt_TaskType = ''preparation'',
     wt_RoleLabel = Some ''Preparer'', wt_ApprovalRequired = False, wt_DueDateReference = ''filing_deadline'',
     wt_DueDateOffsetValue = 10, wt_DueDateOffsetUnit = ''days'', wt_DueDateOffsetDirection = ''before'',
     wt_OrderIndex = 1, wt_DataTemplateID = None\<rparr>"

definition project_env :: gen_env where
  "project_env = \<lparr>ge_Ensure = (\<lambda>_ _ _. Inr ()), ge_NewID = (\<lambda>rows. ''i'' @ itoa (int (length rows))), ge_Refused = (\<lambda>_. False),
     ge_Templates = (\<lambda>_. Inr [project_task]), ge_Entities = (\<lambda>_. Inr None), ge_Obligations = None,
     ge_Sha = (\<lambda>s. s), ge_Audit = example_context\<rparr>"

definition project_db :: database where
  "project_db = \<lparr>db_workflows = [project_workflow], db_tasks = \<lparr>ts_rows = [], ts_chain = []\<rparr>\<rparr>"

lemma project_plan:
  obtains plan where "planWorkflow (pg_generator project_env) db project_workflow [] = Inr plan"
    "length (pl_instances plan) = 1"
proof -
  have "date_Parse ''2024-06-30'' = Inr (New 2024 6 30)" by code_simp
  then have "\<exists>plan. planWorkflow (pg_generator project_env) db project_workflow [] = Inr plan \<and> length (pl_instances plan) = 1"
    by (simp add: planWorkflow_def planProject_def project_workflow_def project_env_def
        loadTemplates_def validateOverrides_def planProjectTask_def override_at_def no_override_def override_date_def)
  then show thesis using that by auto
qed

lemma project_load: "loadWorkflow (pg_generator project_env) project_db ''w1'' = Inr project_workflow"
proof -
  have "date_Parse ''2024-06-30'' = Inr (New 2024 6 30)" by code_simp
  then show ?thesis by (simp add: loadWorkflow_def workflows_GetById_def project_db_def project_workflow_def)
qed

lemma project_start:
  obtains n db' where "StartWorkflow (pg_generator project_env) project_db ''w1'' [] = Inr (n, db')"
proof -
  obtain plan where plan: "planWorkflow (pg_generator project_env) project_db project_workflow [] = Inr plan"
    by (rule project_plan)
  have create: "\<exists>s1. createAll (pg_generator project_env) s is = Inr s1" for s "is"
    by (induction "is" arbitrary: s) (simp_all add: instances_Create_def Let_def project_env_def)
  have audit: "\<exists>s3. db_audit_Record (\<lambda>s. s) example_context s2 a rt rid d = Inr s3" for s2 a rt rid d
  proof -
    obtain c where "audit_Record (\<lambda>s. s) example_context a rt rid (Some (started_json d)) (ts_chain (db_tasks s2)) = Inr c"
      using audit_Record_ok by blast
    then show ?thesis by (simp add: db_audit_Record_def)
  qed
  obtain s1 where s1: "createAll (pg_generator project_env) project_db (pl_instances plan) = Inr s1"
    using create by blast
  have ports: "g_EnsureWorkflow (pg_generator project_env) = (\<lambda>_ _ _. Inr ())"
    "g_instances_CountByWorkflow (pg_generator project_env) project_db ''w1'' = Inr 0"
    "g_workflows_Update (pg_generator project_env) = workflows_Update"
    "g_audit_Record (pg_generator project_env) = db_audit_Record (\<lambda>s. s) example_context"
    by (simp_all add: project_env_def instances_CountByWorkflow_def project_db_def)
  have "\<exists>d s2 k. StartWorkflow (pg_generator project_env) project_db ''w1'' [] =
      andthen (db_audit_Record (\<lambda>s. s) example_context s2 ''workflow.started'' ''workflow'' ''w1'' d) (\<lambda>s3. Inr (k, s3))"
    unfolding StartWorkflow_def
    by (simp only: ports project_load plan s1 workflows_Update_def andthen_simps) (simp, blast)
  then obtain d s2 k where "StartWorkflow (pg_generator project_env) project_db ''w1'' [] =
      andthen (db_audit_Record (\<lambda>s. s) example_context s2 ''workflow.started'' ''workflow'' ''w1'' d) (\<lambda>s3. Inr (k, s3))"
    by blast
  moreover obtain s3 where "db_audit_Record (\<lambda>s. s) example_context s2 ''workflow.started'' ''workflow'' ''w1'' d = Inr s3"
    using audit by blast
  ultimately show thesis using that by simp
qed

theorem start_happens_once_witness:
  "\<exists>n db'. StartWorkflow (pg_generator project_env) project_db ''w1'' [] = Inr (n, db') \<and> 1 \<le> n \<and>
    StartWorkflow (pg_generator project_env) db' ''w1'' [] = Inl (NewConflict ''workflow has already been started (task instances exist)'')"
proof -
  obtain n db' where s: "StartWorkflow (pg_generator project_env) project_db ''w1'' [] = Inr (n, db')"
    by (rule project_start)
  from start_happens_once [OF s] s show ?thesis by (fastforce simp: project_env_def)
qed

theorem preview_is_start_witness:
  "\<exists>pv n db'. PreviewWorkflow (pg_generator project_env) project_db ''w1'' = Inr pv \<and>
    StartWorkflow (pg_generator project_env) project_db ''w1'' [] = Inr (n, db') \<and> n = wp_TotalTasks pv"
proof -
  obtain n db' where s: "StartWorkflow (pg_generator project_env) project_db ''w1'' [] = Inr (n, db')"
    by (rule project_start)
  obtain plan where "planWorkflow (pg_generator project_env) project_db project_workflow [] = Inr plan"
    by (rule project_plan)
  then have "\<exists>pv. PreviewWorkflow (pg_generator project_env) project_db ''w1'' = Inr pv"
    using project_load by (simp add: PreviewWorkflow_def) (simp add: project_env_def)
  then obtain pv where pv: "PreviewWorkflow (pg_generator project_env) project_db ''w1'' = Inr pv" by blast
  from preview_is_start [OF pv s] pv s show ?thesis by blast
qed

end
