(* ===== verification/Plans.thy ===== *)
theory Plans
  imports WorkflowStart DeadlineProps "HOL-Library.Multiset"
begin

text \<open>
  What the planner guarantees: a configuration the entity validator accepts has a calendar, a
  plan has one instance per period and template, overrides are accounted for one by one and
  act on their own instance only, and a project's dates hang on its end date.
\<close>

section \<open>Accepted configurations have calendars\<close>

lemma validateCustomPeriods_None:
  "validateCustomPeriods i seen ps = None \<Longrightarrow> distinct (map cpCode ps) \<and> cpCode ` set ps \<inter> seen = {} \<and>
     list_all (\<lambda>p. cpCode p \<noteq> [] \<and> length (cpCode p) \<le> 16 \<and> is_ok (ParseMonthDay (cpStartDate p)) \<and>
       is_ok (ParseMonthDay (cpEndDate p))) ps"
  by (induction i seen ps rule: validateCustomPeriods.induct) (auto split: if_split_asm)

definition fiscal_of :: "entity \<Rightarrow> fiscal_config" where
  "fiscal_of e = \<lparr>fc_FiscalCalendarPattern = en_FiscalCalendarPattern e, fc_FinancialYearEnd = en_FinancialYearEnd e,
     fc_FiscalWeekEndDay = en_FiscalWeekEndDay e, fc_FiscalYearEndRule = en_FiscalYearEndRule e,
     fc_CustomPeriods = en_CustomPeriods e\<rparr>"

lemma same_custom: "map (\<lambda>p. \<lparr>cpCode = cpCode p, cpName = cpName p, cpStartDate = cpStartDate p, cpEndDate = cpEndDate p\<rparr>) ps
    = (ps :: custom_period list)"
  by (induction ps) simp_all

section \<open>One step per period and template\<close>

text \<open>The step of one pair, in a plan of either kind.\<close>

definition recurring_step ::
  "calendar \<Rightarrow> workflow \<Rightarrow> deadline_rule option \<Rightarrow> task_overrides \<Rightarrow> string \<times> workflow_task \<Rightarrow>
   planned_instance \<times> applied_override list \<Rightarrow> bool" where
  "recurring_step cal w rule ovs x r \<longleftrightarrow>
     (\<exists>p. Calendar_Period cal (fst x) (the (wf_Periodicity w)) = Inr p \<and> planInstance w rule ovs (fst x) p (snd x) = Inr r)"

lemma planPeriod_steps:
  "planPeriod cal w rule ovs tasks pc = Inr row \<Longrightarrow>
     list_all2 (recurring_step cal w rule ovs) (map (\<lambda>t. (pc, t)) tasks) row"
  by (auto simp: planPeriod_def traverse_list_all2 list_all2_map1 recurring_step_def elim!: list_all2_mono split: sum.splits)

lemma planRecurring_steps:
  assumes "planRecurring g s w ovs = Inr plan" "wf_WorkflowCategory w \<noteq> ''project''"
  shows "\<exists>entity fy cal tasks rule rs. g_entities_GetById g s (the (wf_EntityID w)) = Inr (Some entity) \<and>
    atoi (the (wf_FinancialYear w)) = Some fy \<and> CalendarFor entity fy = Inr cal \<and>
    loadTemplates g s (wf_ID w) = Inr tasks \<and> paymentRule g s w = Inr rule \<and>
    validateOverrides ovs tasks (wf_SelectedPeriods w) = Inr () \<and>
    list_all2 (recurring_step cal w rule ovs) (plan_pairs w tasks) rs \<and>
    pl_instances plan = map fst rs \<and> pl_overrides plan = concat (map snd rs)"
proof -
  from assms(1) obtain entity fy cal tasks rule rows where
    e: "g_entities_GetById g s (the (wf_EntityID w)) = Inr (Some entity)"
    "atoi (the (wf_FinancialYear w)) = Some fy" "CalendarFor entity fy = Inr cal"
    "loadTemplates g s (wf_ID w) = Inr tasks" "validateOverrides ovs tasks (wf_SelectedPeriods w) = Inr ()"
    "paymentRule g s w = Inr rule"
    and rows: "list_all2 (\<lambda>pc row. planPeriod cal w rule ovs tasks pc = Inr row) (wf_SelectedPeriods w) rows"
    and plan: "plan = \<lparr>pl_workflow = w, pl_periods = int (length (wf_SelectedPeriods w)),
       pl_templates = int (length tasks),
       pl_instances = map fst (concat rows), pl_overrides = concat (map snd (concat rows))\<rparr>"
    by (rule planRecurring_Inr)
  from rows have "list_all2 (recurring_step cal w rule ovs)
      (concat (map (\<lambda>pc. map (\<lambda>t. (pc, t)) tasks) (wf_SelectedPeriods w))) (concat rows)"
    by (induction rule: list_all2_induct) (auto intro!: list_all2_appendI planPeriod_steps)
  with assms(2) have "list_all2 (recurring_step cal w rule ovs) (plan_pairs w tasks) (concat rows)"
    by (simp add: plan_pairs_def)
  with e plan show ?thesis by (metis (no_types, lifting) workflow_plan.select_convs(4,5))
qed

lemma planProject_steps:
  assumes "planProject g s w ovs = Inr plan" "wf_WorkflowCategory w = ''project''"
  shows "\<exists>endDate tasks rs. date_Parse (the (wf_EndDate w)) = Inr endDate \<and>
    loadTemplates g s (wf_ID w) = Inr tasks \<and> validateOverrides ovs tasks [ProjectPeriodCode] = Inr () \<and>
    list_all2 (\<lambda>x r. fst x = ProjectPeriodCode \<and> planProjectTask w endDate ovs (snd x) = Inr r) (plan_pairs w tasks) rs \<and>
    pl_instances plan = map fst rs \<and> pl_overrides plan = concat (map snd rs)"
proof -
  from assms(1) obtain endDate tasks rows where
    e: "date_Parse (the (wf_EndDate w)) = Inr endDate" "loadTemplates g s (wf_ID w) = Inr tasks"
    "validateOverrides ovs tasks [ProjectPeriodCode] = Inr ()"
    and rows: "list_all2 (\<lambda>t row. planProjectTask w endDate ovs t = Inr row) tasks rows"
    and plan: "plan = \<lparr>pl_workflow = w, pl_periods = 1, pl_templates = int (length tasks),
       pl_instances = map fst rows, pl_overrides = concat (map snd rows)\<rparr>"
    by (rule planProject_Inr)
  have "list_all2 (\<lambda>x r. fst x = ProjectPeriodCode \<and> planProjectTask w endDate ovs (snd x) = Inr r) (plan_pairs w tasks) rows"
    using rows assms(2) by (simp add: plan_pairs_def list_all2_map1)
  with e plan show ?thesis by (metis (no_types, lifting) workflow_plan.select_convs(4,5))
qed

text \<open>What an override asks for, in the order the planner substitutes.\<close>

definition substitutions :: "task_override \<Rightarrow> (string \<times> date) list" where
  "substitutions ov =
     (case ov_PeriodEndDate ov of Some d \<Rightarrow> [(''periodEndDate'', d)] | None \<Rightarrow> []) @
     (case ov_PaymentDeadline ov of Some d \<Rightarrow> [(''paymentDeadline'', d)] | None \<Rightarrow> []) @
     (case ov_DueDate ov of Some d \<Rightarrow> [(''dueDate'', d)] | None \<Rightarrow> [])"

definition trail_of :: "task_overrides \<Rightarrow> string \<times> workflow_task \<Rightarrow> (string \<times> string \<times> string \<times> date) list" where
  "trail_of ovs x = map (\<lambda>(f, d). (wt_ID (snd x), fst x, f, d))
     (substitutions (override_at ovs (OverrideKey (wt_ID (snd x)) (fst x))))"

definition note_of :: "applied_override \<Rightarrow> string \<times> string \<times> string \<times> date" where
  "note_of n = (ao_TemplateID n, ao_PeriodCode n, ao_Field n, ao_Applied n)"

definition honours :: "task_override \<Rightarrow> planned_instance \<Rightarrow> bool" where
  "honours ov i \<longleftrightarrow> (case ov_DueDate ov of Some d \<Rightarrow> ci_DueDate i = d | None \<Rightarrow> True) \<and>
     (case ov_PeriodEndDate ov of Some d \<Rightarrow> ci_PeriodEndDate i = d | None \<Rightarrow> True) \<and>
     (case ov_PaymentDeadline ov of Some d \<Rightarrow> ci_PaymentDeadline i = Some d | None \<Rightarrow> True)"

lemma override_date_notes:
  "override_date tid pc f c ov = (d, ns) \<Longrightarrow>
     d = (case ov of Some x \<Rightarrow> x | None \<Rightarrow> c) \<and>
     map note_of ns = (case ov of Some x \<Rightarrow> [(tid, pc, f, x)] | None \<Rightarrow> [])"
  by (auto simp: override_date_def note_of_def split: option.splits)

lemma planInstance_trail:
  assumes "planInstance w rule ovs pc p t = Inr (i, ns)"
  shows "map note_of ns = trail_of ovs (pc, t) \<and> honours (override_at ovs (OverrideKey (wt_ID t) pc)) i"
proof -
  let ?ov = "override_at ovs (OverrideKey (wt_ID t) pc)"
  show ?thesis
    using assms
    by (cases "ov_PeriodEndDate ?ov"; cases "ov_PaymentDeadline ?ov"; cases "ov_DueDate ?ov")
      (auto simp: planInstance_def Let_def override_date_def trail_of_def substitutions_def honours_def note_of_def
        split: sum.split_asm)
qed

lemma planProjectTask_trail:
  assumes "planProjectTask w d ovs t = Inr (i, ns)"
  shows "map note_of ns = trail_of ovs (ProjectPeriodCode, t) \<and>
    honours (override_at ovs (OverrideKey (wt_ID t) ProjectPeriodCode)) i"
proof -
  let ?ov = "override_at ovs (OverrideKey (wt_ID t) ProjectPeriodCode)"
  show ?thesis
    using assms
    by (cases "ov_PeriodEndDate ?ov"; cases "ov_PaymentDeadline ?ov"; cases "ov_DueDate ?ov")
      (auto simp: planProjectTask_def Let_def override_date_def trail_of_def substitutions_def honours_def note_of_def)
qed

lemma trails_concat:
  "list_all2 (\<lambda>x r. map note_of (snd r) = h x) xs rs \<Longrightarrow> map note_of (concat (map snd rs)) = concat (map h xs)"
  by (induction rule: list_all2_induct) auto

lemma validateOverrides_known:
  assumes "validateOverrides ovs tasks codes = Inr ()"
  shows "fst ` set ovs \<subseteq> {OverrideKey (wt_ID t) pc |t pc. t \<in> set tasks \<and> pc \<in> set codes}"
proof -
  have "filter (\<lambda>key. key \<notin> set (concat (map (\<lambda>pc. map (\<lambda>t. OverrideKey (wt_ID t) pc) tasks) codes))) (map fst ovs) = []"
    using assms by (simp add: validateOverrides_def Let_def split: if_split_asm)
  then have "\<forall>key \<in> fst ` set ovs. key \<in> set (concat (map (\<lambda>pc. map (\<lambda>t. OverrideKey (wt_ID t) pc) tasks) codes))"
    by (simp add: filter_empty_conv)
  then show ?thesis by fastforce
qed

definition pair_key :: "string \<times> workflow_task \<Rightarrow> string" where
  "pair_key x = OverrideKey (wt_ID (snd x)) (fst x)"

lemma recurring_step_trail:
  assumes "recurring_step cal w rule ovs x r"
  shows "map note_of (snd r) = trail_of ovs x \<and> honours (override_at ovs (pair_key x)) (fst r)"
proof -
  from assms obtain p where "planInstance w rule ovs (fst x) p (snd x) = Inr (fst r, snd r)"
    by (auto simp: recurring_step_def)
  from planInstance_trail [OF this] show ?thesis by (simp add: pair_key_def)
qed

lemma plan_keys:
  "{OverrideKey (wt_ID t) pc |t pc. t \<in> set tasks \<and> pc \<in> set pcs} =
     pair_key ` set (concat (map (\<lambda>pc. map (\<lambda>t. (pc, t)) tasks) pcs))"
  by (force simp: pair_key_def image_iff)

text \<open>The facts of a plan of either kind, by its pairs.\<close>

lemma planWorkflow_steps:
  assumes "planWorkflow g s w ovs = Inr plan"
  shows "\<exists>tasks rs. loadTemplates g s (wf_ID w) = Inr tasks \<and> pl_instances plan = map fst rs \<and>
    pl_overrides plan = concat (map snd rs) \<and> fst ` set ovs \<subseteq> pair_key ` set (plan_pairs w tasks) \<and>
    list_all2 (\<lambda>x r. map note_of (snd r) = trail_of ovs x \<and> honours (override_at ovs (pair_key x)) (fst r))
      (plan_pairs w tasks) rs"
proof (cases "wf_WorkflowCategory w = ''project''")
  case True
  with assms have "planProject g s w ovs = Inr plan" by (simp add: planWorkflow_def)
  from planProject_steps [OF this True] obtain endDate tasks rs where
    t: "loadTemplates g s (wf_ID w) = Inr tasks" "pl_instances plan = map fst rs" "pl_overrides plan = concat (map snd rs)"
    and v: "validateOverrides ovs tasks [ProjectPeriodCode] = Inr ()"
    and r: "list_all2 (\<lambda>x r. fst x = ProjectPeriodCode \<and> planProjectTask w endDate ovs (snd x) = Inr r) (plan_pairs w tasks) rs"
    by blast
  from r have "list_all2 (\<lambda>x r. map note_of (snd r) = trail_of ovs x \<and> honours (override_at ovs (pair_key x)) (fst r))
      (plan_pairs w tasks) rs"
    by (rule list_all2_mono) (auto simp: pair_key_def dest!: planProjectTask_trail)
  moreover have "fst ` set ovs \<subseteq> pair_key ` set (plan_pairs w tasks)"
    using validateOverrides_known [OF v] True unfolding plan_keys by (simp add: plan_pairs_def)
  ultimately show ?thesis using t by blast
next
  case False
  with assms have "planRecurring g s w ovs = Inr plan" by (simp add: planWorkflow_def)
  from planRecurring_steps [OF this False] obtain cal tasks rule rs where
    t: "loadTemplates g s (wf_ID w) = Inr tasks" "pl_instances plan = map fst rs" "pl_overrides plan = concat (map snd rs)"
    and v: "validateOverrides ovs tasks (wf_SelectedPeriods w) = Inr ()"
    and r: "list_all2 (recurring_step cal w rule ovs) (plan_pairs w tasks) rs" by blast
  from r have "list_all2 (\<lambda>x r. map note_of (snd r) = trail_of ovs x \<and> honours (override_at ovs (pair_key x)) (fst r))
      (plan_pairs w tasks) rs"
    by (rule list_all2_mono) (rule recurring_step_trail)
  moreover have "fst ` set ovs \<subseteq> pair_key ` set (plan_pairs w tasks)"
    using validateOverrides_known [OF v] False unfolding plan_keys by (simp add: plan_pairs_def)
  ultimately show ?thesis using t by blast
qed

section \<open>Properties of plans\<close>

text \<open>
  Every entity configuration the validator accepts, with a supported pattern, has a
  calendar for exactly the fiscal years from 1900 to 2200, so planning and the period listing
  cannot fail on it for another reason; its custom codes are pairwise different and 1 to 16 bytes
  long.
\<close>

theorem valid_config_has_calendar:
  assumes "ValidateFiscalConfig (fiscal_of e) = None" and "IsSupportedPattern (en_FiscalCalendarPattern e)"
  shows "(is_ok (CalendarFor e fy) = (1900 \<le> fy \<and> fy \<le> 2200)) \<and> distinct (map cpCode (en_CustomPeriods e)) \<and>
    list_all (\<lambda>p. 1 \<le> length (cpCode p) \<and> length (cpCode p) \<le> 16) (en_CustomPeriods e)"
proof -
  let ?fye = "case en_FinancialYearEnd e of None \<Rightarrow> [] | Some s \<Rightarrow> s"
  have v: "validateCustomPeriods 0 {} (en_CustomPeriods e) = None"
    and c: "en_FiscalCalendarPattern e = ''custom'' \<Longrightarrow> en_CustomPeriods e \<noteq> []"
    and y: "?fye = [] \<or> is_ok (ParseMonthDay ?fye)"
    and w: "en_FiscalWeekEndDay e = [] \<or> IsWeekEndDay (en_FiscalWeekEndDay e)"
    and r: "en_FiscalYearEndRule e \<in> {[], ''last'', ''nearest''}"
    using assms(1) by (auto simp: ValidateFiscalConfig_def fiscal_of_def split: if_split_asm option.splits)
  have "is_ok (CalendarFor e fy) = (1900 \<le> fy \<and> fy \<le> 2200)"
    unfolding CalendarFor_def Let_def same_custom NewCalendar_ok calendar_config_ok_def
    using c y w r assms(2) by auto
  moreover have "list_all (\<lambda>p. 1 \<le> length (cpCode p) \<and> length (cpCode p) \<le> 16) (en_CustomPeriods e)"
    using validateCustomPeriods_None [OF v] by (auto simp: list_all_iff Suc_le_eq)
  ultimately show ?thesis using validateCustomPeriods_None [OF v] by blast
qed

definition retail_entity :: entity where
  "retail_entity = \<lparr>en_ID = ''e1'', en_ParentEntityID = None, en_Name = ''Retail'', en_LegalName = None,
     en_Country = ''Germany'', en_TaxResidency = None, en_FiscalCalendarPattern = ''445'',
     en_FinancialYearEnd = Some ''01-31'', en_FiscalWeekEndDay = ''saturday'', en_FiscalYearEndRule = ''nearest'',
     en_CustomPeriods = [\<lparr>cpCode = ''H1'', cpName = ''First half'', cpStartDate = ''02-01'', cpEndDate = ''07-31''\<rparr>],
     en_Status = ''active''\<rparr>"

theorem valid_config_has_calendar_witness:
  "ValidateFiscalConfig (fiscal_of retail_entity) = None \<and> is_ok (CalendarFor retail_entity 2024)"
proof -
  have 1: "ValidateFiscalConfig (fiscal_of retail_entity) = None" by code_simp
  have 2: "IsSupportedPattern (en_FiscalCalendarPattern retail_entity)" by code_simp
  from valid_config_has_calendar [OF 1 2, of 2024] 1 show ?thesis by simp
qed

text \<open>
  An accepted plan has one instance per selected period and template, period by
  period with the templates in display order inside each (one per template for a project), and
  each instance carries its template's name, type, approval flag, role, order and data template.
\<close>

theorem plan_covers_periods_and_templates:
  assumes "planWorkflow g s w ovs = Inr plan"
  shows "\<exists>tasks0 tasks. g_workflowTasks_ListByWorkflow g s (wf_ID w) = Inr tasks0 \<and> tasks = sort_key wt_OrderIndex tasks0 \<and>
    tasks \<noteq> [] \<and> sorted (map wt_OrderIndex tasks) \<and> mset tasks = mset tasks0 \<and>
    list_all2 (\<lambda>(pc, t) i. row_of w pc t i) (plan_pairs w tasks) (pl_instances plan) \<and>
    length (pl_instances plan) = (if wf_WorkflowCategory w = ''project'' then 1 else length (wf_SelectedPeriods w)) * length tasks"
proof -
  obtain tasks where t: "loadTemplates g s (wf_ID w) = Inr tasks"
    and r: "list_all2 (\<lambda>(pc, t) i. row_of w pc t i) (plan_pairs w tasks) (pl_instances plan)"
    using planWorkflow_rows [OF assms] by blast
  from t obtain tasks0 where t0: "g_workflowTasks_ListByWorkflow g s (wf_ID w) = Inr tasks0" "tasks0 \<noteq> []"
    "tasks = sort_key wt_OrderIndex tasks0" unfolding loadTemplates_Inr by blast
  have "sum_list (map (\<lambda>pc. length (map (\<lambda>t. (pc, t)) tasks)) pcs) = length pcs * length tasks" for pcs :: "string list"
    by (induction pcs) auto
  then have "length (plan_pairs w tasks) = (if wf_WorkflowCategory w = ''project'' then 1 else length (wf_SelectedPeriods w)) * length tasks"
    by (simp add: plan_pairs_def length_concat comp_def)
  moreover have "tasks \<noteq> []" using t0(2,3) by (metis length_0_conv length_sort)
  moreover have "sorted (map wt_OrderIndex tasks)" "mset tasks = mset tasks0" using t0(3) by simp_all
  ultimately show ?thesis using t0 r list_all2_lengthD [OF r] by auto
qed

text \<open>
  Property C22. Every override of an accepted plan addresses a planned instance; the recorded
  trail names, in order, exactly the dates the overrides replaced, with the values applied; and
  every instance has the dates its override asks for.
\<close>

theorem overrides_accounted_for:
  assumes "planWorkflow g s w ovs = Inr plan"
  shows "\<exists>tasks. loadTemplates g s (wf_ID w) = Inr tasks \<and> fst ` set ovs \<subseteq> pair_key ` set (plan_pairs w tasks) \<and>
    map note_of (pl_overrides plan) = concat (map (trail_of ovs) (plan_pairs w tasks)) \<and>
    list_all2 (\<lambda>x i. honours (override_at ovs (pair_key x)) i) (plan_pairs w tasks) (pl_instances plan)"
proof -
  obtain tasks rs where t: "loadTemplates g s (wf_ID w) = Inr tasks" "pl_instances plan = map fst rs"
    "pl_overrides plan = concat (map snd rs)" "fst ` set ovs \<subseteq> pair_key ` set (plan_pairs w tasks)"
    and r: "list_all2 (\<lambda>x r. map note_of (snd r) = trail_of ovs x \<and> honours (override_at ovs (pair_key x)) (fst r))
      (plan_pairs w tasks) rs" using planWorkflow_steps [OF assms] by blast
  have "list_all2 (\<lambda>x r. map note_of (snd r) = trail_of ovs x) (plan_pairs w tasks) rs"
    using r by (rule list_all2_mono) blast
  moreover have "list_all2 (\<lambda>x i. honours (override_at ovs (pair_key x)) i) (plan_pairs w tasks) (map fst rs)"
    unfolding list_all2_map2 using r by (rule list_all2_mono) blast
  ultimately show ?thesis using t(1,4) trails_concat [of "trail_of ovs"] unfolding t(2,3)
    by (intro exI [of _ tasks]) simp
qed

text \<open>
  Overrides are local: two plans of one workflow under different overrides have the
  same instance at every place whose key both override alike - in particular every instance no
  override names is planned as if there were none.
\<close>

theorem overrides_are_local:
  assumes "planWorkflow g s w ovs = Inr plan" "planWorkflow g s w ovs' = Inr plan'"
    and "k < length (pl_instances plan)"
    and "OverrideKey (ci_WorkflowTaskID (pl_instances plan ! k)) (ci_PeriodCode (pl_instances plan ! k)) = key"
    and "override_at ovs key = override_at ovs' key"
  shows "k < length (pl_instances plan') \<and> pl_instances plan' ! k = pl_instances plan ! k"
proof -
  obtain tasks where t: "loadTemplates g s (wf_ID w) = Inr tasks"
    and r: "list_all2 (\<lambda>(pc, t) i. row_of w pc t i) (plan_pairs w tasks) (pl_instances plan)"
    using planWorkflow_rows [OF assms(1)] by blast
  define x where "x = plan_pairs w tasks ! k"
  have k: "k < length (plan_pairs w tasks)" using assms(3) list_all2_lengthD [OF r] by simp
  have "row_of w (fst x) (snd x) (pl_instances plan ! k)"
    using list_all2_nthD [OF r k] by (simp add: x_def case_prod_unfold)
  with assms(4) have key: "OverrideKey (wt_ID (snd x)) (fst x) = key" by (simp add: row_of_def)
  show ?thesis
  proof (cases "wf_WorkflowCategory w = ''project''")
    case True
    with assms(1,2) have p: "planProject g s w ovs = Inr plan" "planProject g s w ovs' = Inr plan'"
      by (simp_all add: planWorkflow_def)
    from planProject_steps [OF p(1) True] t obtain d rs where 1: "date_Parse (the (wf_EndDate w)) = Inr d"
      "list_all2 (\<lambda>x r. fst x = ProjectPeriodCode \<and> planProjectTask w d ovs (snd x) = Inr r) (plan_pairs w tasks) rs"
      "pl_instances plan = map fst rs" by auto
    from planProject_steps [OF p(2) True] t 1(1) obtain rs' where
      2: "list_all2 (\<lambda>x r. fst x = ProjectPeriodCode \<and> planProjectTask w d ovs' (snd x) = Inr r) (plan_pairs w tasks) rs'"
      "pl_instances plan' = map fst rs'" by auto
    have "planProjectTask w d ovs (snd x) = planProjectTask w d ovs' (snd x)"
      using key list_all2_nthD [OF 1(2) k] assms(5) by (simp add: planProjectTask_def x_def)
    with list_all2_nthD [OF 1(2) k] list_all2_nthD [OF 2(1) k] have "rs ! k = rs' ! k" by (simp add: x_def)
    with 1(3) 2(2) k list_all2_lengthD [OF 1(2)] list_all2_lengthD [OF 2(1)] show ?thesis by simp
  next
    case False
    with assms(1,2) have p: "planRecurring g s w ovs = Inr plan" "planRecurring g s w ovs' = Inr plan'"
      by (simp_all add: planWorkflow_def)
    from planRecurring_steps [OF p(1) False] t obtain entity fy cal rule rs where
      1: "g_entities_GetById g s (the (wf_EntityID w)) = Inr (Some entity)"
      "atoi (the (wf_FinancialYear w)) = Some fy" "CalendarFor entity fy = Inr cal" "paymentRule g s w = Inr rule"
      "list_all2 (recurring_step cal w rule ovs) (plan_pairs w tasks) rs" "pl_instances plan = map fst rs" by auto
    from planRecurring_steps [OF p(2) False] t 1(1-4) obtain rs' where
      2: "list_all2 (recurring_step cal w rule ovs') (plan_pairs w tasks) rs'" "pl_instances plan' = map fst rs'" by auto
    have "planInstance w rule ovs (fst x) q (snd x) = planInstance w rule ovs' (fst x) q (snd x)" for q
      using key assms(5) by (simp add: planInstance_def)
    with list_all2_nthD [OF 1(5) k] list_all2_nthD [OF 2(1) k] have "rs ! k = rs' ! k"
      by (auto simp: recurring_step_def x_def)
    with 1(6) 2(2) k list_all2_lengthD [OF 1(5)] list_all2_lengthD [OF 2(1)] show ?thesis by simp
  qed
qed

text \<open>
  A project plan hangs on its end date: every instance's filing deadline is its
  period end, which is the workflow's end date or the override of it; there is no payment
  deadline and none can be overridden in; without a due-date override the due date is the filing
  deadline moved by the template's offset, whatever reference the template names.
\<close>

theorem project_plan_dates:
  assumes "planWorkflow g s w ovs = Inr plan" "wf_WorkflowCategory w = ''project''"
    and "loadTemplates g s (wf_ID w) = Inr tasks"
  shows "\<exists>endDate. date_Parse (the (wf_EndDate w)) = Inr endDate \<and>
    list_all2 (\<lambda>t i. let ov = override_at ovs (OverrideKey (wt_ID t) ProjectPeriodCode) in
      ov_PaymentDeadline ov = None \<and> ci_PaymentDeadline i = None \<and> ci_FilingDeadline i = ci_PeriodEndDate i \<and>
      ci_PeriodEndDate i = (case ov_PeriodEndDate ov of Some d \<Rightarrow> d | None \<Rightarrow> endDate) \<and>
      ci_DueDate i = (case ov_DueDate ov of Some d \<Rightarrow> d | None \<Rightarrow>
        ApplyOffset (ci_FilingDeadline i) (wt_DueDateOffsetValue t) (wt_DueDateOffsetUnit t) (wt_DueDateOffsetDirection t)))
      tasks (pl_instances plan)"
proof -
  have p: "planProject g s w ovs = Inr plan" using assms(1,2) by (simp add: planWorkflow_def)
  from p obtain endDate rows where e: "date_Parse (the (wf_EndDate w)) = Inr endDate"
    and rows: "list_all2 (\<lambda>t row. planProjectTask w endDate ovs t = Inr row) tasks rows"
    and plan: "pl_instances plan = map fst rows"
    by (rule planProject_Inr) (use assms(3) in auto)
  show ?thesis
    unfolding plan list_all2_map2
    by (rule exI [of _ endDate], rule conjI [OF e], rule list_all2_mono [OF rows])
      (auto simp: planProjectTask_def Let_def override_date_def split: if_split_asm option.splits)
qed

lemma Calendar_Period_in_year:
  assumes "NewCalendar pat fye wed rule cps fy = Inr c" "\<not> own_list c p" "Calendar_Period c code p = Inr q"
  shows "Time (YearStart c) \<le> Time (pStart q) \<and> Time (pStart q) \<le> Time (pEnd q) \<and> Time (pEnd q) \<le> Time (YearEnd c)"
proof -
  obtain ps where ps: "Calendar_Periods c p = Inr ps" "q \<in> set ps"
    using assms(2,3) period_lookup_iff by blast
  have "tiles (map span ps) (Time (YearStart c)) (Time (YearEnd c))"
    using Calendar_Periods_tiles [OF NewCalendar_wf(1) [OF assms(1)] ps(1) assms(2)] .
  from tiles_bounds [OF this] this ps(2) show ?thesis by (fastforce simp: in_set_conv_nth tiles_def)
qed

lemma planInstance_plain:
  assumes "planInstance w rule [] pc p t = Inr (i, ns)"
  shows "ci_PeriodCode i = pc \<and> ci_PeriodEndDate i = pEnd p \<and>
    ci_FilingDeadline i = ApplyWeekendAdjustment
      (ApplyOffset (pEnd p) (ddr_OffsetValue (wf_DueDateRule w)) (ddr_OffsetUnit (wf_DueDateRule w)) (ddr_OffsetDirection (wf_DueDateRule w)))
      (ddr_WeekendAdjustment (wf_DueDateRule w)) \<and>
    (\<exists>pay. ci_PaymentDeadline i = Some pay \<and>
       paymentDeadline (pEnd p) (ci_FilingDeadline i) rule (ddr_WeekendAdjustment (wf_DueDateRule w)) = Inr pay)"
  using assms by (auto simp: planInstance_def Let_def override_date_def override_at_def no_override_def split: sum.split_asm)

text \<open>
  Property C23. In a recurring plan without overrides every instance ends its period where the
  entity's fiscal calendar ends it; unless the calendar is a custom list with periods of its own,
  that period is not empty and lies inside the fiscal year. The filing deadline is the rule's offset from
  the period end with the rule's weekend adjustment, so not on a weekend when the workflow adjusts
  weekends. The payment deadline is the filing deadline without a payment rule, and under a
  payment offset not on a weekend when the rule (or else the workflow) adjusts.
\<close>

theorem recurring_plan_deadlines:
  assumes "planWorkflow g s w [] = Inr plan" "wf_WorkflowCategory w \<noteq> ''project''" "i \<in> set (pl_instances plan)"
  shows "\<exists>entity fy cal p rule pay. g_entities_GetById g s (the (wf_EntityID w)) = Inr (Some entity) \<and>
    atoi (the (wf_FinancialYear w)) = Some fy \<and> CalendarFor entity fy = Inr cal \<and>
    Calendar_Period cal (ci_PeriodCode i) (the (wf_Periodicity w)) = Inr p \<and> ci_PeriodEndDate i = pEnd p \<and>
    (\<not> own_list cal (the (wf_Periodicity w)) \<longrightarrow>
       Time (YearStart cal) \<le> Time (pStart p) \<and> Time (pStart p) \<le> Time (pEnd p) \<and> Time (pEnd p) \<le> Time (YearEnd cal)) \<and>
    ci_FilingDeadline i = ApplyWeekendAdjustment
      (ApplyOffset (pEnd p) (ddr_OffsetValue (wf_DueDateRule w)) (ddr_OffsetUnit (wf_DueDateRule w)) (ddr_OffsetDirection (wf_DueDateRule w)))
      (ddr_WeekendAdjustment (wf_DueDateRule w)) \<and>
    (ddr_WeekendAdjustment (wf_DueDateRule w) \<notin> {[], ''none''} \<longrightarrow>
       go_Weekday (Time (ci_FilingDeadline i)) \<notin> {Saturday, Sunday}) \<and>
    paymentRule g s w = Inr rule \<and> ci_PaymentDeadline i = Some pay \<and> (rule = None \<longrightarrow> pay = ci_FilingDeadline i) \<and>
    (\<forall>r off. rule = Some r \<longrightarrow> dr_PaymentOffset r = Some off \<longrightarrow>
       (if dr_WeekendAdjustment r = [] then ddr_WeekendAdjustment (wf_DueDateRule w) else dr_WeekendAdjustment r) \<notin> {[], ''none''} \<longrightarrow>
       go_Weekday (Time pay) \<notin> {Saturday, Sunday})"
proof -
  have p: "planRecurring g s w [] = Inr plan" using assms(1,2) by (simp add: planWorkflow_def)
  from planRecurring_steps [OF p assms(2)] obtain entity fy cal tasks rule rs where
    e: "g_entities_GetById g s (the (wf_EntityID w)) = Inr (Some entity)"
    "atoi (the (wf_FinancialYear w)) = Some fy" "CalendarFor entity fy = Inr cal" "paymentRule g s w = Inr rule"
    and st: "list_all2 (recurring_step cal w rule []) (plan_pairs w tasks) rs" and rs: "pl_instances plan = map fst rs" by blast
  from assms(3) rs obtain r where r: "r \<in> set rs" "fst r = i" by auto
  then obtain k where k: "k < length rs" "rs ! k = r" by (meson in_set_conv_nth)
  define x where "x = plan_pairs w tasks ! k"
  have "recurring_step cal w rule [] x r"
    using list_all2_nthD2 [OF st k(1)] k(2) x_def by simp
  then obtain q where q: "Calendar_Period cal (fst x) (the (wf_Periodicity w)) = Inr q"
    and pi: "planInstance w rule [] (fst x) q (snd x) = Inr (i, snd r)"
    unfolding recurring_step_def using r(2) by (metis prod.collapse)
  note pl = planInstance_plain [OF pi]
  from pl obtain pay where pay: "ci_PaymentDeadline i = Some pay"
    "paymentDeadline (pEnd q) (ci_FilingDeadline i) rule (ddr_WeekendAdjustment (wf_DueDateRule w)) = Inr pay" by blast
  have "\<not> own_list cal (the (wf_Periodicity w)) \<longrightarrow>
       Time (YearStart cal) \<le> Time (pStart q) \<and> Time (pStart q) \<le> Time (pEnd q) \<and> Time (pEnd q) \<le> Time (YearEnd cal)"
    using Calendar_Period_in_year [OF e(3) [unfolded CalendarFor_def Let_def] _ q] by auto
  moreover have "ddr_WeekendAdjustment (wf_DueDateRule w) \<notin> {[], ''none''} \<longrightarrow>
       go_Weekday (Time (ci_FilingDeadline i)) \<notin> {Saturday, Sunday}"
    using ApplyWeekendAdjustment_rest pl by (metis insertCI)
  moreover have "rule = None \<longrightarrow> pay = ci_FilingDeadline i" using pay(2) by (auto simp: paymentDeadline_def)
  moreover have "\<forall>r off. rule = Some r \<longrightarrow> dr_PaymentOffset r = Some off \<longrightarrow>
       (if dr_WeekendAdjustment r = [] then ddr_WeekendAdjustment (wf_DueDateRule w) else dr_WeekendAdjustment r) \<notin> {[], ''none''} \<longrightarrow>
       go_Weekday (Time pay) \<notin> {Saturday, Sunday}"
    using pay(2) ApplyWeekendAdjustment_rest by (fastforce simp: paymentDeadline_def Let_def)
  moreover have "Calendar_Period cal (ci_PeriodCode i) (the (wf_Periodicity w)) = Inr q" "ci_PeriodEndDate i = pEnd q"
    "ci_FilingDeadline i = ApplyWeekendAdjustment
      (ApplyOffset (pEnd q) (ddr_OffsetValue (wf_DueDateRule w)) (ddr_OffsetUnit (wf_DueDateRule w)) (ddr_OffsetDirection (wf_DueDateRule w)))
      (ddr_WeekendAdjustment (wf_DueDateRule w))"
    using q pl by simp_all
  ultimately show ?thesis
    by - (rule exI [of _ entity], rule exI [of _ fy], rule exI [of _ cal], rule exI [of _ q], rule exI [of _ rule],
      rule exI [of _ pay], intro conjI, (assumption | rule e pay(1))+)
qed

section \<open>A recurring workflow, end to end\<close>

text \<open>
  A quarterly workflow over two periods of the retail calendar, its filing due ten days after the
  period end and moved to the next business day; one override moves the due date of one instance.
\<close>

definition quarterly_workflow :: workflow where
  "quarterly_workflow = \<lparr>wf_ID = ''w2'', wf_Name = ''VAT'', wf_Description = None, wf_WorkflowCategory = ''recurring'',
     wf_ProjectType = None, wf_FinancialYear = Some ''2024'', wf_Periodicity = Some ''quarterly'',
     wf_SelectedPeriods = [''Q1'', ''Q2''], wf_EntityID = Some ''e1'', wf_ObligationTypeID = None,
     wf_DueDateRule = \<lparr>ddr_Reference = ''period_end'', ddr_OffsetUnit = ''days'', ddr_OffsetValue = 10,
       ddr_OffsetDirection = ''after'', ddr_WeekendAdjustment = ''next-business-day''\<rparr>,
     wf_StartDate = None, wf_EndDate = None, wf_TasksSequential = False, wf_Status = ''draft''\<rparr>"

definition quarterly_env :: gen_env where
  "quarterly_env = project_env\<lparr>ge_Templates := \<lambda>_. Inr [project_task],
     ge_Entities := \<lambda>_. Inr (Some (retail_entity\<lparr>en_FiscalCalendarPattern := ''standard'', en_FinancialYearEnd := Some ''12-31''\<rparr>))\<rparr>"

definition quarterly_overrides :: task_overrides where
  "quarterly_overrides = [(''k1_Q2'', \<lparr>ov_DueDate = Some (New 2024 7 1), ov_PeriodEndDate = None, ov_PaymentDeadline = None\<rparr>)]"

definition quarterly_calendar :: calendar where
  "quarterly_calendar = \<lparr>c_pattern = ''standard'', c_fyEndMonth = 12, c_fyEndDay = 31,
     c_startMonth = 1, c_weekEndDay = 0, c_yearEndRule = [], c_customPeriods = en_CustomPeriods retail_entity,
     c_fiscalYear = 2024, c_yearStart = zero_date, c_yearEnd = zero_date, c_weeks = 0\<rparr>"

lemma quarterly_calendar:
  "CalendarFor (retail_entity\<lparr>en_FiscalCalendarPattern := ''standard'', en_FinancialYearEnd := Some ''12-31''\<rparr>) 2024 =
     Inr quarterly_calendar"
  "atoi ''2024'' = Some 2024"
  by code_simp+

lemma quarterly_period:
  assumes "fiscalMonthRange quarterly_calendar (3 * (k - 1) + 1) (3 * k) = (a, b)" "1 \<le> k" "k \<le> 4" "code = ''Q'' @ itoa k"
  shows "\<exists>q. Calendar_Period quarterly_calendar code ''quarterly'' = Inr q \<and> pEnd q = b"
proof -
  let ?q = "newPeriod (''Q'' @ itoa k) [] a b"
  have "Calendar_Periods quarterly_calendar ''quarterly'' = Inr (monthGroups quarterly_calendar ''Q'' 3 4)"
    by (simp add: Calendar_Periods_def standardPeriods_def quarterly_calendar_def)
  moreover have "?q \<in> set (monthGroups quarterly_calendar ''Q'' 3 4)"
    using assms by (auto simp: monthGroups_def algebra_simps intro!: image_eqI [of _ _ k])
  ultimately have "Calendar_Period quarterly_calendar (''Q'' @ itoa k) ''quarterly'' = Inr ?q"
    by (subst period_lookup_iff) (simp_all add: own_list_def quarterly_calendar_def newPeriod_def)
  then show ?thesis using assms(4) by (simp add: newPeriod_def)
qed

lemma quarterly_ranges:
  "fiscalMonthRange quarterly_calendar 1 3 = (New 2024 1 1, New 2024 3 31)"
  "fiscalMonthRange quarterly_calendar 4 6 = (New 2024 4 1, New 2024 6 30)"
  "''Q'' @ itoa 1 = ''Q1''" "''Q'' @ itoa 2 = ''Q2''"
  by code_simp+

lemma quarterly_dates:
  "ApplyWeekendAdjustment (ApplyOffset (New 2024 3 31) 10 ''days'' ''after'') ''next-business-day'' = New 2024 4 10"
  "ApplyWeekendAdjustment (ApplyOffset (New 2024 6 30) 10 ''days'' ''after'') ''next-business-day'' = New 2024 7 10"
  "ApplyOffset (New 2024 4 10) 10 ''days'' ''before'' = New 2024 3 31"
  "ApplyOffset (New 2024 7 10) 10 ''days'' ''before'' = New 2024 6 30"
  by code_simp+

lemma quarterly_plan:
  assumes "ovs = [] \<or> ovs = quarterly_overrides"
  obtains plan i1 i2 where "planWorkflow (pg_generator quarterly_env) db quarterly_workflow ovs = Inr plan"
    "pl_instances plan = [i1, i2]" "ci_PeriodCode i2 = ''Q2''" "ci_WorkflowTaskID i2 = ''k1''" "ci_PeriodCode i1 = ''Q1''" "ci_WorkflowTaskID i1 = ''k1''"
    "ci_DueDate i2 = (if ovs = [] then New 2024 6 30 else New 2024 7 1)" "ci_FilingDeadline i2 = New 2024 7 10"
proof -
  obtain q1 q2 where q: "Calendar_Period quarterly_calendar ''Q1'' ''quarterly'' = Inr q1" "pEnd q1 = New 2024 3 31"
    "Calendar_Period quarterly_calendar ''Q2'' ''quarterly'' = Inr q2" "pEnd q2 = New 2024 6 30"
    using quarterly_period [of 1 _ _ "''Q1''"] quarterly_period [of 2 _ _ "''Q2''"] quarterly_ranges by auto
  have ov: "override_at ovs ''k1_Q1'' = no_override"
    "override_at ovs ''k1_Q2'' = (if ovs = [] then no_override else \<lparr>ov_DueDate = Some (New 2024 7 1), ov_PeriodEndDate = None, ov_PaymentDeadline = None\<rparr>)"
    using assms by (auto simp: override_at_def quarterly_overrides_def)
  have ok: "validateOverrides ovs [project_task] [''Q1'', ''Q2''] = Inr ()"
    using assms by (auto simp: validateOverrides_def quarterly_overrides_def OverrideKey_def project_task_def)
  have load: "loadTemplates (pg_generator quarterly_env) db ''w2'' = Inr [project_task]"
    by (simp add: loadTemplates_def quarterly_env_def)
  have "\<exists>plan i1 i2. planWorkflow (pg_generator quarterly_env) db quarterly_workflow ovs = Inr plan \<and>
     pl_instances plan = [i1, i2] \<and> ci_PeriodCode i2 = ''Q2'' \<and> ci_WorkflowTaskID i2 = ''k1'' \<and> ci_PeriodCode i1 = ''Q1'' \<and> ci_WorkflowTaskID i1 = ''k1'' \<and>
     ci_DueDate i2 = (if ovs = [] then New 2024 6 30 else New 2024 7 1) \<and> ci_FilingDeadline i2 = New 2024 7 10"
    using ok load
    by (simp add: planWorkflow_def planRecurring_def quarterly_workflow_def quarterly_env_def quarterly_calendar
        paymentRule_def planPeriod_def q planInstance_def OverrideKey_def project_task_def ov no_override_def
        override_date_def quarterly_dates paymentDeadline_def project_env_def Let_def)
  then show thesis using that by blast
qed

lemma quarterly_tasks: "ge_Templates quarterly_env wid = Inr [project_task]"
  by (simp add: quarterly_env_def)

lemma pg_loadTemplates: "loadTemplates (pg_generator env) s wid = (case ge_Templates env wid of Inl e \<Rightarrow> Inl e
    | Inr ts \<Rightarrow> if ts = [] then Inl (NewValidation ''workflow has no task templates'') else Inr (sort_key wt_OrderIndex ts))"
  by (simp add: loadTemplates_def andthen_def)

theorem plan_covers_witness:
  "\<exists>plan. planWorkflow (pg_generator quarterly_env) project_db quarterly_workflow [] = Inr plan \<and> length (pl_instances plan) = 2"
proof -
  obtain plan where "planWorkflow (pg_generator quarterly_env) project_db quarterly_workflow [] = Inr plan"
    by (rule quarterly_plan [of "[]"]) auto
  moreover have "wf_WorkflowCategory quarterly_workflow = ''recurring''" "wf_SelectedPeriods quarterly_workflow = [''Q1'', ''Q2'']"
    by (simp_all add: quarterly_workflow_def)
  ultimately show ?thesis
    using plan_covers_periods_and_templates [of "pg_generator quarterly_env"] by (fastforce simp: quarterly_tasks)
qed

theorem overrides_accounted_witness:
  "\<exists>plan. planWorkflow (pg_generator quarterly_env) project_db quarterly_workflow quarterly_overrides = Inr plan \<and>
     map note_of (pl_overrides plan) = [(''k1'', ''Q2'', ''dueDate'', New 2024 7 1)]"
proof -
  obtain plan where p: "planWorkflow (pg_generator quarterly_env) project_db quarterly_workflow quarterly_overrides = Inr plan"
    by (rule quarterly_plan [of quarterly_overrides]) auto
  have "trail_of quarterly_overrides (''Q1'', project_task) = []"
    "trail_of quarterly_overrides (''Q2'', project_task) = [(''k1'', ''Q2'', ''dueDate'', New 2024 7 1)]"
    by (simp_all add: trail_of_def override_at_def quarterly_overrides_def OverrideKey_def project_task_def
        substitutions_def no_override_def)
  then have "concat (map (trail_of quarterly_overrides) (plan_pairs quarterly_workflow [project_task])) =
      [(''k1'', ''Q2'', ''dueDate'', New 2024 7 1)]"
    by (simp add: plan_pairs_def quarterly_workflow_def)
  with overrides_accounted_for [OF p] p show ?thesis by (auto simp: pg_loadTemplates quarterly_env_def)
qed

theorem overrides_are_local_witness:
  "\<exists>plan plan'. planWorkflow (pg_generator quarterly_env) project_db quarterly_workflow quarterly_overrides = Inr plan \<and>
     planWorkflow (pg_generator quarterly_env) project_db quarterly_workflow [] = Inr plan' \<and>
     pl_instances plan' ! 0 = pl_instances plan ! 0 \<and> pl_instances plan' ! 1 \<noteq> pl_instances plan ! 1"
proof -
  obtain plan i1 i2 where p: "planWorkflow (pg_generator quarterly_env) project_db quarterly_workflow quarterly_overrides = Inr plan"
    "pl_instances plan = [i1, i2]" "ci_PeriodCode i1 = ''Q1''" "ci_WorkflowTaskID i1 = ''k1''" "ci_DueDate i2 = New 2024 7 1"
    by (rule quarterly_plan [of quarterly_overrides]) (auto simp: quarterly_overrides_def)
  obtain plan' j1 j2 where p': "planWorkflow (pg_generator quarterly_env) project_db quarterly_workflow [] = Inr plan'"
    "pl_instances plan' = [j1, j2]" "ci_DueDate j2 = New 2024 6 30"
    by (rule quarterly_plan [of "[]"]) auto
  have "override_at quarterly_overrides ''k1_Q1'' = override_at [] ''k1_Q1''"
    by (simp add: override_at_def quarterly_overrides_def)
  with overrides_are_local [OF p(1) p'(1), of 0 "''k1_Q1''"] p p' have "pl_instances plan' ! 0 = pl_instances plan ! 0"
    by (simp add: OverrideKey_def)
  moreover have "New 2024 6 30 \<noteq> New 2024 7 1" by code_simp
  ultimately show ?thesis using p p' by (intro exI [of _ plan] exI [of _ plan']) auto
qed

theorem recurring_plan_deadlines_witness:
  "\<exists>plan. planWorkflow (pg_generator quarterly_env) project_db quarterly_workflow [] = Inr plan \<and>
     go_Weekday (Time (ci_FilingDeadline (pl_instances plan ! 1))) \<notin> {Saturday, Sunday}"
proof -
  obtain plan i1 i2 where p: "planWorkflow (pg_generator quarterly_env) project_db quarterly_workflow [] = Inr plan"
    "pl_instances plan = [i1, i2]"
    by (rule quarterly_plan [of "[]"]) auto
  from recurring_plan_deadlines [OF p(1), of i2] p show ?thesis by (auto simp: quarterly_workflow_def)
qed

theorem project_plan_dates_witness:
  "\<exists>plan. planWorkflow (pg_generator project_env) project_db project_workflow [] = Inr plan \<and>
     map ci_FilingDeadline (pl_instances plan) = [New 2024 6 30]"
proof -
  obtain plan where p: "planWorkflow (pg_generator project_env) project_db project_workflow [] = Inr plan"
    by (rule project_plan)
  have "loadTemplates (pg_generator project_env) project_db (wf_ID project_workflow) = Inr [project_task]"
    by (simp add: pg_loadTemplates project_env_def)
  moreover have "date_Parse ''2024-06-30'' = Inr (New 2024 6 30)" by code_simp
  ultimately have "\<exists>i. pl_instances plan = [i] \<and> ci_FilingDeadline i = New 2024 6 30"
    using project_plan_dates [OF p, of "[project_task]"]
    by (auto simp: project_workflow_def list_all2_Cons1 Let_def override_at_def no_override_def)
  with p show ?thesis by auto
qed

end
