(* ===== verification/Authz.thy ===== *)
theory Authz
  imports Workflows AuditTrail
begin

text \<open>
  Scoped role-based access (\<^verbatim>\<open>platform/authz\<close>): the capability matrix, the authorizer of writes,
  the read scope of queries, and the walks over the entity tree both rest on
  (\<^verbatim>\<open>platform/authz/pg\<close>). The locale \<^verbatim>\<open>scope_tree\<close> is the contract between the two walks; it is
  interpreted on the recursive queries of the resolver.
\<close>

section \<open>Capabilities and roles\<close>

type_synonym capability = string
type_synonym role = string

definition reads :: "capability list" where
  "reads = [''entity:read'', ''obligation_type:read'', ''entity_obligation:read'', ''workflow:read'',
     ''workflow_task:read'', ''task:read'', ''member:read'', ''document:read'', ''data_template:read'']"

definition setupWrites :: "capability list" where
  "setupWrites = [''entity:write'', ''obligation_type:write'', ''entity_obligation:write'', ''workflow:write'',
     ''workflow_task:write'', ''data_template:write'']"

definition buildMatrix :: "(role \<times> capability list) list" where
  "buildMatrix =
     [(''tenant_admin'', reads @ setupWrites @
         [''task:write'', ''task:submit'', ''task:approve'', ''document:write'', ''audit:read'', ''member:manage'']),
      (''manager'', reads @ setupWrites @
         [''task:write'', ''task:submit'', ''task:approve'', ''document:write'', ''audit:read'']),
      (''reviewer'', reads @ [''task:approve'', ''audit:read'']),
      (''preparer'', reads @ [''task:write'', ''task:submit'', ''document:write'']),
      (''viewer'', reads)]"

definition RoleHasCapability :: "role \<Rightarrow> capability \<Rightarrow> bool" where
  "RoleHasCapability r cap = (case map_of buildMatrix r of None \<Rightarrow> False | Some caps \<Rightarrow> cap \<in> set caps)"

definition KnownRole :: "role \<Rightarrow> bool" where
  "KnownRole r \<longleftrightarrow> map_of buildMatrix r \<noteq> None"

definition HumanOnly :: "capability \<Rightarrow> bool" where
  "HumanOnly cap \<longleftrightarrow> cap = ''task:approve'' \<or> cap = ''member:manage''"

record grant =
  gr_Role :: role
  gr_ScopeEntityID :: "string option"

fun HasCapability :: "grant list \<Rightarrow> capability \<Rightarrow> bool" where
  "HasCapability [] cap = False"
| "HasCapability (g # gs) cap = (if RoleHasCapability (gr_Role g) cap then True else HasCapability gs cap)"

section \<open>The capability gate\<close>

text \<open>
  The middleware in front of every tenant route: on success the loaded grants are what the rest of
  the request sees.
\<close>

definition RequireCapability :: "(string \<Rightarrow> grant list app) \<Rightarrow> requester option \<Rightarrow> capability \<Rightarrow> grant list app" where
  "RequireCapability ListForUser req cap =
     (case req of
        None \<Rightarrow> Inl (NewForbidden ''authorization required'')
      | Some r \<Rightarrow>
          if \<not> IsUser r \<or> rq_ID r = [] then Inl (NewForbidden ''authorization required'')
          else if rq_ServiceAccount r \<and> HumanOnly cap then Inl (NewForbidden ''this action requires a human user'')
          else andthen (ListForUser (rq_ID r)) (\<lambda>grants.
            if \<not> HasCapability grants cap then Inl (NewForbidden ''insufficient permissions'') else Inr grants))"

section \<open>The entity tree\<close>

text \<open>The row of an id, which is the primary key.\<close>

definition entity_row :: "entity list \<Rightarrow> string \<Rightarrow> entity option" where
  "entity_row rows eid = find (\<lambda>e. en_ID e = eid) rows"

definition parent_of :: "entity list \<Rightarrow> string \<Rightarrow> string option" where
  "parent_of rows eid = (case entity_row rows eid of None \<Rightarrow> None | Some e \<Rightarrow> en_ParentEntityID e)"

text \<open>
  The upward recursive query is a \<^verbatim>\<open>UNION ALL\<close>: it follows the parents one by one and keeps no
  record of what it has seen, so on a parent cycle it does not return.
\<close>

partial_function (option) ancestor_walk :: "entity list \<Rightarrow> string \<Rightarrow> string list option" where
  [code]: "ancestor_walk rows eid =
     (case entity_row rows eid of
        None \<Rightarrow> Some []
      | Some e \<Rightarrow>
          (case en_ParentEntityID e of
             None \<Rightarrow> Some [en_ID e]
           | Some p \<Rightarrow> Option.bind (ancestor_walk rows p) (\<lambda>ids. Some (en_ID e # ids))))"

definition AncestorsAndSelf :: "entity list \<Rightarrow> string \<Rightarrow> string list app option" where
  "AncestorsAndSelf rows eid = Option.bind (ancestor_walk rows eid) (\<lambda>ids. Some (Inr ids))"

text \<open>The downward query is a \<^verbatim>\<open>UNION\<close>: each round adds the children not yet in the result.\<close>

definition children_of :: "entity list \<Rightarrow> string list \<Rightarrow> string list" where
  "children_of rows ids =
     filter (\<lambda>x. case parent_of rows x of None \<Rightarrow> False | Some p \<Rightarrow> p \<in> set ids) (remdups (map en_ID rows))"

function subtree_walk :: "entity list \<Rightarrow> string list \<Rightarrow> string list \<Rightarrow> string list" where
  "subtree_walk rows acc work =
     (let new = filter (\<lambda>x. x \<notin> set acc) (children_of rows work)
      in if new = [] then acc else subtree_walk rows (acc @ new) new)"
  by pat_completeness auto

lemma children_of_ids: "set (children_of rows ids) \<subseteq> set (map en_ID rows)"
  by (auto simp: children_of_def)

termination subtree_walk
proof (relation "measure (\<lambda>(rows, acc, work). card (set (map en_ID rows) - set acc))", goal_cases)
  case (2 rows acc work new)
  then obtain x where x: "x \<in> set new" using list.set_sel(1) by blast
  then have "x \<in> set (map en_ID rows) - set acc"
    using 2(1) children_of_ids [of rows work] by auto
  moreover have "x \<in> set (acc @ new)" using x by simp
  ultimately have "set (map en_ID rows) - set (acc @ new) \<subset> set (map en_ID rows) - set acc" by auto
  then show ?case by (simp add: psubset_card_mono)
qed simp

definition DescendantsAndSelf :: "entity list \<Rightarrow> string list \<Rightarrow> string list app" where
  "DescendantsAndSelf rows roots =
     (if roots = [] then Inr []
      else let start = filter (\<lambda>x. x \<in> set roots) (remdups (map en_ID rows))
           in Inr (subtree_walk rows start start))"

declare subtree_walk.simps [simp del]

section \<open>What the walks compute\<close>

text \<open>An entity of the table lies below itself and below whatever its parent lies below.\<close>

inductive below :: "entity list \<Rightarrow> string \<Rightarrow> string \<Rightarrow> bool" for rows where
  below_self: "entity_row rows r \<noteq> None \<Longrightarrow> below rows r r"
| below_parent: "below rows r p \<Longrightarrow> entity_row rows x = Some e \<Longrightarrow> en_ParentEntityID e = Some p \<Longrightarrow> below rows r x"

inductive_cases belowE: "below rows r x"

lemma entity_row_id: "entity_row rows eid = Some e \<Longrightarrow> en_ID e = eid"
  by (auto simp: entity_row_def find_Some_iff)

lemma entity_row_mem: "entity_row rows x \<noteq> None \<longleftrightarrow> x \<in> en_ID ` set rows"
  by (auto simp: entity_row_def find_None_iff)

lemma below_known: "below rows r x \<Longrightarrow> entity_row rows r \<noteq> None \<and> entity_row rows x \<noteq> None"
  by (induction rule: below.induct) auto

lemma parent_of_Some: "parent_of rows x = Some p \<longleftrightarrow> (\<exists>e. entity_row rows x = Some e \<and> en_ParentEntityID e = Some p)"
  by (auto simp: parent_of_def split: option.splits)

lemma below_step:
  assumes "entity_row rows x = Some e"
  shows "below rows r x \<longleftrightarrow> r = x \<or> (\<exists>p. en_ParentEntityID e = Some p \<and> below rows r p)"
proof
  assume "below rows r x"
  then show "r = x \<or> (\<exists>p. en_ParentEntityID e = Some p \<and> below rows r p)"
    by (rule belowE) (use assms in auto)
next
  have "below rows x x" using assms by (intro below_self) simp
  then show "r = x \<or> (\<exists>p. en_ParentEntityID e = Some p \<and> below rows r p) \<Longrightarrow> below rows r x"
    using below_parent [OF _ assms] by blast
qed

lemma ancestor_walk_Some:
  assumes "ancestor_walk rows eid = Some ids"
  shows "set ids = {r. below rows r eid}"
proof (rule ancestor_walk.raw_induct [OF _ assms])
  fix walk rows eid ids
  assume 1: "\<And>rows eid ids. walk rows eid = Some ids \<Longrightarrow> set ids = {r. below rows r eid}"
    "(case entity_row rows eid of
        None \<Rightarrow> Some []
      | Some e \<Rightarrow>
          (case en_ParentEntityID e of
             None \<Rightarrow> Some [en_ID e]
           | Some p \<Rightarrow> Option.bind (walk rows p) (\<lambda>ids. Some (en_ID e # ids)))) = Some ids"
  show "set ids = {r. below rows r eid}"
  proof (cases "entity_row rows eid")
    case None
    with 1 show ?thesis by (auto dest: below_known)
  next
    case (Some e)
    note e = Some entity_row_id [OF Some]
    show ?thesis
    proof (cases "en_ParentEntityID e")
      case None
      with 1(2) e have "ids = [eid]" by simp
      with None show ?thesis by (auto simp: below_step [OF Some])
    next
      case (Some p)
      with 1(2) e obtain ids' where "walk rows p = Some ids'" "ids = eid # ids'"
        by (auto simp: bind_eq_Some_conv)
      have "set ids' = {r. below rows r p}"
        by (rule 1(1) [OF \<open>walk rows p = Some ids'\<close>])
      with \<open>ids = eid # ids'\<close> show ?thesis using Some by (auto simp: below_step [OF e(1)])
    qed
  qed
qed

lemma children_of_iff: "x \<in> set (children_of rows ids) \<longleftrightarrow> (\<exists>p \<in> set ids. parent_of rows x = Some p)"
proof -
  have "x \<in> en_ID ` set rows" if "parent_of rows x = Some p" for p
    using that entity_row_mem by (auto simp: parent_of_Some)
  then show ?thesis by (auto simp: children_of_def split: option.splits)
qed

lemma below_child: "below rows r p \<Longrightarrow> parent_of rows x = Some p \<Longrightarrow> below rows r x"
  by (auto simp: parent_of_Some intro: below_parent)

lemma subtree_walk_sound:
  "x \<in> set (subtree_walk rows acc work) \<Longrightarrow> set work \<subseteq> set acc \<Longrightarrow> \<forall>y \<in> set acc. \<exists>r \<in> R. below rows r y \<Longrightarrow>
     \<exists>r \<in> R. below rows r x"
proof (induction rows acc work rule: subtree_walk.induct)
  case (1 rows acc work)
  define new where "new = filter (\<lambda>x. x \<notin> set acc) (children_of rows work)"
  show ?case
  proof (cases "new = []")
    case True
    with 1(2,4) show ?thesis by (simp add: subtree_walk.simps [of rows acc work] new_def [symmetric])
  next
    case False
    have "\<exists>r \<in> R. below rows r y" if "y \<in> set new" for y
    proof -
      from that obtain p where "p \<in> set work" "parent_of rows y = Some p" by (auto simp: new_def children_of_iff)
      with 1(3,4) show ?thesis using below_child by blast
    qed
    with 1(4) have "\<forall>y \<in> set (acc @ new). \<exists>r \<in> R. below rows r y" by auto
    moreover have "x \<in> set (subtree_walk rows (acc @ new) new)"
      using 1(2) False by (simp add: subtree_walk.simps [of rows acc work] new_def [symmetric])
    ultimately show ?thesis using 1(1) [OF new_def False] by auto
  qed
qed

text \<open>Once the walk stops, the result is closed under children; it only ever grows.\<close>

lemma subtree_walk_complete:
  "\<forall>y. \<forall>p \<in> set acc - set work. parent_of rows y = Some p \<longrightarrow> y \<in> set acc \<Longrightarrow>
     set acc \<subseteq> set (subtree_walk rows acc work) \<and>
     (\<forall>y. \<forall>p \<in> set (subtree_walk rows acc work). parent_of rows y = Some p \<longrightarrow> y \<in> set (subtree_walk rows acc work))"
proof (induction rows acc work rule: subtree_walk.induct)
  case (1 rows acc work)
  define new where "new = filter (\<lambda>x. x \<notin> set acc) (children_of rows work)"
  have all: "\<forall>y. \<forall>p \<in> set acc. parent_of rows y = Some p \<longrightarrow> y \<in> set acc \<union> set new"
    using 1(2) by (auto simp: new_def children_of_iff)
  show ?case
  proof (cases "new = []")
    case True
    with all show ?thesis by (simp add: subtree_walk.simps [of rows acc work] new_def [symmetric])
  next
    case False
    have "\<forall>y. \<forall>p \<in> set (acc @ new) - set new. parent_of rows y = Some p \<longrightarrow> y \<in> set (acc @ new)" using all by auto
    from 1(1) [OF new_def False this] False show ?thesis
      by (simp add: subtree_walk.simps [of rows acc work] new_def [symmetric])
  qed
qed

lemma DescendantsAndSelf_set:
  "\<exists>ids. DescendantsAndSelf rows roots = Inr ids \<and> set ids = {x. \<exists>r \<in> set roots. below rows r x}"
proof (cases "roots = []")
  case False
  define start where "start = filter (\<lambda>x. x \<in> set roots) (remdups (map en_ID rows))"
  have start: "set start = {x \<in> set roots. entity_row rows x \<noteq> None}"
    unfolding entity_row_mem by (auto simp: start_def)
  let ?w = "subtree_walk rows start start"
  have "x \<in> set ?w" if "below rows r x" "r \<in> set roots" for r x
    using that
  proof (induction rule: below.induct)
    case (below_self r)
    then show ?case using subtree_walk_complete [of start start rows] start by blast
  next
    case (below_parent r p x e)
    then show ?case using subtree_walk_complete [of start start rows] by (metis Diff_cancel empty_iff parent_of_Some)
  qed
  moreover have "\<exists>r \<in> set roots. below rows r x" if "x \<in> set ?w" for x
    by (rule subtree_walk_sound [OF that subset_refl]) (use start in \<open>auto intro: below_self\<close>)
  ultimately have "set ?w = {x. \<exists>r \<in> set roots. below rows r x}" by blast
  with False show ?thesis by (simp add: DescendantsAndSelf_def start_def Let_def)
qed (simp add: DescendantsAndSelf_def)

section \<open>The authorizer\<close>

text \<open>
  The resolver the authorizer is given. The ancestor query may not return; every other lookup is
  a single statement. A missing authorizer allows everything.
\<close>

record resolver =
  rs_AncestorsAndSelf :: "string \<Rightarrow> string list app option"
  rs_EntityObligationOwner :: "string \<Rightarrow> string app"
  rs_WorkflowOwner :: "string \<Rightarrow> string app"
  rs_WorkflowTaskOwner :: "string \<Rightarrow> string app"
  rs_TaskInstanceOwner :: "string \<Rightarrow> string app"

definition forbidden :: "unit app" where
  "forbidden = Inl (NewForbidden ''insufficient permissions for this entity'')"

text \<open>The loop over the grants: None once a tenant-wide grant carries the capability.\<close>

fun grantScopes :: "capability \<Rightarrow> grant list \<Rightarrow> string list option" where
  "grantScopes cap [] = Some []"
| "grantScopes cap (g # gs) =
     (if \<not> RoleHasCapability (gr_Role g) cap then grantScopes cap gs
      else case gr_ScopeEntityID g of
          None \<Rightarrow> None
        | Some s \<Rightarrow> map_option (\<lambda>ss. s # ss) (grantScopes cap gs))"

definition authorize :: "resolver \<Rightarrow> requester option \<Rightarrow> grant list \<Rightarrow> string \<Rightarrow> capability \<Rightarrow> unit app option" where
  "authorize res req grants entityID cap =
     (if (case req of None \<Rightarrow> False | Some r \<Rightarrow> rq_ServiceAccount r \<and> HumanOnly cap)
      then Some (Inl (NewForbidden ''this action requires a human user''))
      else case grantScopes cap grants of
          None \<Rightarrow> Some (Inr ())
        | Some scopes \<Rightarrow>
            if entityID = [] \<or> scopes = [] then Some forbidden
            else Option.bind (rs_AncestorsAndSelf res entityID) (\<lambda>r. Some (andthen r (\<lambda>chain.
              if \<exists>s \<in> set scopes. s \<in> set chain then Inr () else forbidden))))"

definition EnsureEntity :: "resolver option \<Rightarrow> requester option \<Rightarrow> grant list \<Rightarrow> string \<Rightarrow> capability \<Rightarrow> unit app option" where
  "EnsureEntity a req grants entityID cap =
     (case a of None \<Rightarrow> Some (Inr ()) | Some res \<Rightarrow> authorize res req grants entityID cap)"

definition EnsureEntityRef ::
  "resolver option \<Rightarrow> requester option \<Rightarrow> grant list \<Rightarrow> string option \<Rightarrow> capability \<Rightarrow> unit app option" where
  "EnsureEntityRef a req grants entityID cap =
     (case a of None \<Rightarrow> Some (Inr ())
      | Some res \<Rightarrow> authorize res req grants (case entityID of None \<Rightarrow> [] | Some e \<Rightarrow> e) cap)"

definition authorizeVia ::
  "resolver option \<Rightarrow> (resolver \<Rightarrow> string \<Rightarrow> string app) \<Rightarrow> requester option \<Rightarrow> grant list \<Rightarrow> string \<Rightarrow> capability \<Rightarrow> unit app option" where
  "authorizeVia a ownerFn req grants tid cap =
     (case a of None \<Rightarrow> Some (Inr ())
      | Some res \<Rightarrow>
          (case ownerFn res tid of
             Inl e \<Rightarrow> Some (Inl e)
           | Inr owner \<Rightarrow> authorize res req grants owner cap))"

definition EnsureEntityObligation ::
  "resolver option \<Rightarrow> requester option \<Rightarrow> grant list \<Rightarrow> string \<Rightarrow> capability \<Rightarrow> unit app option" where
  "EnsureEntityObligation a = authorizeVia a rs_EntityObligationOwner"

definition EnsureWorkflow :: "resolver option \<Rightarrow> requester option \<Rightarrow> grant list \<Rightarrow> string \<Rightarrow> capability \<Rightarrow> unit app option" where
  "EnsureWorkflow a = authorizeVia a rs_WorkflowOwner"

definition EnsureWorkflowTask :: "resolver option \<Rightarrow> requester option \<Rightarrow> grant list \<Rightarrow> string \<Rightarrow> capability \<Rightarrow> unit app option" where
  "EnsureWorkflowTask a = authorizeVia a rs_WorkflowTaskOwner"

definition EnsureTaskInstance :: "resolver option \<Rightarrow> requester option \<Rightarrow> grant list \<Rightarrow> string \<Rightarrow> capability \<Rightarrow> unit app option" where
  "EnsureTaskInstance a = authorizeVia a rs_TaskInstanceOwner"

text \<open>One column of one row: a missing row and a NULL both read as no owner.\<close>

definition owner :: "string option option app \<Rightarrow> string app" where
  "owner row = andthen row (\<lambda>r. Inr (case r of Some (Some s) \<Rightarrow> s | _ \<Rightarrow> []))"

section \<open>The read scope\<close>

record read_scope =
  sc_unbounded :: bool
  sc_entityIDs :: "string list"

definition UnboundedReadScope :: read_scope where
  "UnboundedReadScope = \<lparr>sc_unbounded = True, sc_entityIDs = []\<rparr>"

definition NarrowedReadScope :: "string list \<Rightarrow> read_scope" where
  "NarrowedReadScope ids = \<lparr>sc_unbounded = False, sc_entityIDs = ids\<rparr>"

fun rootsLoop :: "capability \<Rightarrow> string list \<Rightarrow> grant list \<Rightarrow> string list \<times> bool" where
  "rootsLoop cap roots [] = (roots, False)"
| "rootsLoop cap roots (g # gs) =
     (if \<not> RoleHasCapability (gr_Role g) cap then rootsLoop cap roots gs
      else case gr_ScopeEntityID g of
          None \<Rightarrow> ([], True)
        | Some s \<Rightarrow> if s \<notin> set roots then rootsLoop cap (roots @ [s]) gs else rootsLoop cap roots gs)"

definition ReadScopeRoots :: "grant list \<Rightarrow> capability \<Rightarrow> string list \<times> bool" where
  "ReadScopeRoots grants cap = (if grants = [] then ([], True) else rootsLoop cap [] grants)"

text \<open>The per-request memo; None is the nil cache.\<close>

type_synonym scope_cache = "(capability \<times> read_scope) list option"

definition cache_get :: "scope_cache \<Rightarrow> capability \<Rightarrow> read_scope option" where
  "cache_get c cap = (case c of None \<Rightarrow> None | Some m \<Rightarrow> map_of m cap)"

definition cache_put :: "scope_cache \<Rightarrow> capability \<Rightarrow> read_scope \<Rightarrow> scope_cache" where
  "cache_put c cap scope = map_option (\<lambda>m. (cap, scope) # m) c"

definition ResolveReadScope ::
  "(string list \<Rightarrow> string list app) \<Rightarrow> grant list \<Rightarrow> capability \<Rightarrow> scope_cache \<Rightarrow> read_scope app \<times> scope_cache" where
  "ResolveReadScope walker grants cap cache =
     (case ReadScopeRoots grants cap of (roots, unbounded) \<Rightarrow>
        if unbounded then (Inr UnboundedReadScope, cache)
        else if roots = [] then (Inr (NarrowedReadScope []), cache)
        else case cache_get cache cap of
            Some scope \<Rightarrow> (Inr scope, cache)
          | None \<Rightarrow>
              (case walker roots of
                 Inl e \<Rightarrow> (Inl e, cache)
               | Inr ids \<Rightarrow> (Inr (NarrowedReadScope ids), cache_put cache cap (NarrowedReadScope ids))))"

text \<open>The predicates the repositories add to their statements; \<^verbatim>\<open>bind\<close> yields the placeholder.\<close>

definition EntityPredicate :: "read_scope \<Rightarrow> string \<Rightarrow> (string list \<Rightarrow> string) \<Rightarrow> string" where
  "EntityPredicate s col bind =
     (if sc_unbounded s then [] else if sc_entityIDs s = [] then ''FALSE''
      else col @ '' = ANY('' @ bind (sc_entityIDs s) @ ''::uuid[])'')"

definition WorkflowPredicate :: "read_scope \<Rightarrow> string \<Rightarrow> (string list \<Rightarrow> string) \<Rightarrow> string" where
  "WorkflowPredicate s workflowIDCol bind =
     (if sc_unbounded s then [] else if sc_entityIDs s = [] then ''FALSE''
      else ''EXISTS (SELECT 1 FROM workflows sw WHERE sw.id = '' @ workflowIDCol @
        '' AND sw.entity_id = ANY('' @ bind (sc_entityIDs s) @ ''::uuid[]))'')"

text \<open>The rows a predicate on an entity column lets through: NULL is never in a narrowed scope.\<close>

definition in_scope :: "read_scope \<Rightarrow> string option \<Rightarrow> bool" where
  "in_scope s entity_id \<longleftrightarrow> sc_unbounded s \<or> (case entity_id of None \<Rightarrow> False | Some e \<Rightarrow> e \<in> set (sc_entityIDs s))"

definition AndPredicate :: "string list \<Rightarrow> string" where
  "AndPredicate preds =
     (let kept = filter (\<lambda>p. p \<noteq> []) preds
      in if kept = [] then [] else concat (hd kept # map (\<lambda>p. '' AND '' @ p) (tl kept)))"

section \<open>The contract of the two walks\<close>

lemma grantScopes_None: "grantScopes cap gs = None \<longleftrightarrow> (\<exists>g \<in> set gs. RoleHasCapability (gr_Role g) cap \<and> gr_ScopeEntityID g = None)"
  by (induction gs) (auto split: option.splits)

lemma grantScopes_Some:
  "grantScopes cap gs = Some ss \<Longrightarrow> set ss = {s. \<exists>g \<in> set gs. RoleHasCapability (gr_Role g) cap \<and> gr_ScopeEntityID g = Some s}"
  by (induction gs arbitrary: ss) (auto split: if_split_asm option.splits)

lemma rootsLoop_scopes:
  "rootsLoop cap roots gs = (case grantScopes cap gs of None \<Rightarrow> ([], True)
     | Some ss \<Rightarrow> (fst (rootsLoop cap roots gs), False)) \<and>
   (\<forall>ss. grantScopes cap gs = Some ss \<longrightarrow> set (fst (rootsLoop cap roots gs)) = set roots \<union> set ss)"
proof (induction gs arbitrary: roots)
  case (Cons g gs)
  show ?case
    using Cons.IH [of roots] Cons.IH [of "roots @ [the (gr_ScopeEntityID g)]"]
    by (cases "gr_ScopeEntityID g"; cases "grantScopes cap gs") auto
qed simp

lemma ReadScopeRoots_scopes:
  assumes "grants \<noteq> []" "ReadScopeRoots grants cap = (roots, unbounded)"
  shows "case grantScopes cap grants of None \<Rightarrow> unbounded | Some ss \<Rightarrow> \<not> unbounded \<and> set roots = set ss"
  using rootsLoop_scopes [of cap "[]" grants] assms
  by (cases "grantScopes cap grants") (auto simp: ReadScopeRoots_def)

text \<open>
  An entity is among the descendants of some roots exactly when one of the roots is among its
  ancestors. On this contract the gate of a write and the predicate of a read are one decision.
\<close>

locale scope_tree =
  fixes ancestors :: "string \<Rightarrow> string list app option" and descendants :: "string list \<Rightarrow> string list app"
  assumes walks_agree: "ancestors eid = Some (Inr chain) \<Longrightarrow> descendants roots = Inr ids \<Longrightarrow>
      eid \<in> set ids \<longleftrightarrow> (\<exists>r \<in> set roots. r \<in> set chain)"
begin

lemma write_is_read:
  assumes "\<not> (case req of None \<Rightarrow> False | Some r \<Rightarrow> rq_ServiceAccount r \<and> HumanOnly cap)" "grants \<noteq> []"
    and "rs_AncestorsAndSelf res = ancestors" "\<And>e. ancestors eid \<noteq> Some (Inl e)"
    and "authorize res req grants eid cap = Some answer"
    and "fst (ResolveReadScope descendants grants cap (Some [])) = Inr scope"
  shows "answer = Inr () \<longleftrightarrow> in_scope scope (if eid = [] then None else Some eid)"
proof -
  obtain roots unb where r: "ReadScopeRoots grants cap = (roots, unb)" by (cases "ReadScopeRoots grants cap")
  note rs = ReadScopeRoots_scopes [OF assms(2) r]
  show ?thesis
  proof (cases "grantScopes cap grants")
    case None
    with assms(1,5) have "answer = Inr ()" by (simp add: authorize_def)
    moreover have "scope = UnboundedReadScope"
      using assms(6) rs None r by (simp add: ResolveReadScope_def)
    ultimately show ?thesis by (simp add: in_scope_def UnboundedReadScope_def)
  next
    case (Some scopes)
    with rs have roots: "\<not> unb" "set roots = set scopes" by simp_all
    show ?thesis
    proof (cases "eid = [] \<or> scopes = []")
      case True
      with assms(1,5) Some have "answer \<noteq> Inr ()" by (auto simp: authorize_def forbidden_def)
      moreover have "\<not> sc_unbounded scope \<and> (scopes = [] \<longrightarrow> sc_entityIDs scope = [])"
        using assms(6) r roots
        by (auto simp: ResolveReadScope_def NarrowedReadScope_def cache_get_def split: sum.splits if_splits)
      ultimately show ?thesis using True by (auto simp: in_scope_def)
    next
      case False
      then have ne: "roots \<noteq> []" using roots(2) by auto
      obtain chain where chain: "ancestors eid = Some (Inr chain)"
        using assms(1,3,4,5) Some False by (cases "ancestors eid") (auto simp: authorize_def split: sum.splits, metis sum.exhaust)
      obtain ids where ids: "descendants roots = Inr ids" "scope = NarrowedReadScope ids"
        using assms(6) r roots ne by (auto simp: ResolveReadScope_def cache_get_def split: sum.splits)
      have "answer = Inr () \<longleftrightarrow> (\<exists>s \<in> set scopes. s \<in> set chain)"
        using assms(1,3,5) Some False chain by (auto simp: authorize_def forbidden_def split: if_split_asm)
      with walks_agree [OF chain ids(1)] False roots(2) ids(2) show ?thesis
        by (simp add: in_scope_def NarrowedReadScope_def)
    qed
  qed
qed

end

interpretation pg_tree: scope_tree "AncestorsAndSelf rows" "DescendantsAndSelf rows" for rows
proof
  fix eid chain roots ids
  assume "AncestorsAndSelf rows eid = Some (Inr chain)" "DescendantsAndSelf rows roots = Inr ids"
  moreover from this(1) have "ancestor_walk rows eid = Some chain"
    by (auto simp: AncestorsAndSelf_def bind_eq_Some_conv)
  moreover obtain ids' where "DescendantsAndSelf rows roots = Inr ids'" "set ids' = {x. \<exists>r \<in> set roots. below rows r x}"
    using DescendantsAndSelf_set by blast
  ultimately show "eid \<in> set ids \<longleftrightarrow> (\<exists>r \<in> set roots. r \<in> set chain)"
    using ancestor_walk_Some by auto
qed

text \<open>
  Property C9. The two ways a capability is scoped agree. For one and the same capability and the same grants,
  the authorizer, which asks for the ancestors of an entity, admits a caller past the capability
  gate to an entity exactly when the read scope resolved for that capability, which expands the subtrees of
  the grants, shows the entity's rows; a resource without an entity is reached by tenant-wide
  grants only, on both sides. Capabilities that different roles carry are scoped by different grants.
\<close>

theorem write_scope_is_read_scope:
  assumes "\<not> (case req of None \<Rightarrow> False | Some r \<Rightarrow> rq_ServiceAccount r \<and> HumanOnly cap)" "grants \<noteq> []"
    and "rs_AncestorsAndSelf res = AncestorsAndSelf rows"
    and "authorize res req grants eid cap = Some answer"
    and "fst (ResolveReadScope (DescendantsAndSelf rows) grants cap (Some [])) = Inr scope"
  shows "answer = Inr () \<longleftrightarrow> in_scope scope (if eid = [] then None else Some eid)"
  by (rule pg_tree.write_is_read [OF assms(1-3) _ assms(4,5)])
    (auto simp: AncestorsAndSelf_def bind_eq_Some_conv)

definition group_entity :: "string \<Rightarrow> string option \<Rightarrow> entity" where
  "group_entity eid parent = \<lparr>en_ID = eid, en_ParentEntityID = parent, en_Name = eid, en_LegalName = None,
     en_Country = ''Germany'', en_TaxResidency = None, en_FiscalCalendarPattern = ''standard'',
     en_FinancialYearEnd = None, en_FiscalWeekEndDay = ''saturday'', en_FiscalYearEndRule = ''nearest'',
     en_CustomPeriods = [], en_Status = ''active''\<rparr>"

definition group_rows :: "entity list" where
  "group_rows = [group_entity ''hq'' None, group_entity ''de'' (Some ''hq''), group_entity ''fr'' (Some ''hq''),
     group_entity ''muc'' (Some ''de'')]"

definition group_resolver :: resolver where
  "group_resolver = \<lparr>rs_AncestorsAndSelf = AncestorsAndSelf group_rows, rs_EntityObligationOwner = (\<lambda>_. Inr []),
     rs_WorkflowOwner = (\<lambda>_. Inr []), rs_WorkflowTaskOwner = (\<lambda>_. Inr []), rs_TaskInstanceOwner = (\<lambda>_. Inr [])\<rparr>"

lemma group_walks:
  "ancestor_walk group_rows ''muc'' = Some [''muc'', ''de'', ''hq'']"
  "DescendantsAndSelf group_rows [''de''] = Inr [''de'', ''muc'']"
  by code_simp+

theorem write_scope_witness:
  "authorize group_resolver None [\<lparr>gr_Role = ''manager'', gr_ScopeEntityID = Some ''de''\<rparr>] ''muc'' ''workflow:write'' = Some (Inr ())"
proof -
  let ?gs = "[\<lparr>gr_Role = ''manager'', gr_ScopeEntityID = Some ''de''\<rparr>]"
  have cap: "RoleHasCapability ''manager'' ''workflow:write''" by code_simp
  obtain answer where a: "authorize group_resolver None ?gs ''muc'' ''workflow:write'' = Some answer"
    using cap by (simp add: authorize_def group_resolver_def AncestorsAndSelf_def group_walks)
  have s: "fst (ResolveReadScope (DescendantsAndSelf group_rows) ?gs ''workflow:write'' (Some [])) = Inr (NarrowedReadScope [''de'', ''muc''])"
    using cap by (simp add: ResolveReadScope_def ReadScopeRoots_def cache_get_def group_walks)
  have "answer = Inr ()"
    using write_scope_is_read_scope [OF _ _ _ a s] by (simp add: group_resolver_def in_scope_def NarrowedReadScope_def)
  with a show ?thesis by simp
qed

section \<open>When the ancestor query returns\<close>

definition parents :: "entity list \<Rightarrow> (string \<times> string) set" where
  "parents rows = {(x, p). parent_of rows x = Some p}"

lemma finite_parents: "finite (parents rows)"
proof (rule finite_subset)
  show "parents rows \<subseteq> (\<lambda>x. (x, the (parent_of rows x))) ` en_ID ` set rows"
  proof
    fix z
    assume "z \<in> parents rows"
    then obtain x p where z: "z = (x, p)" "parent_of rows x = Some p" by (auto simp: parents_def)
    then have "x \<in> en_ID ` set rows" unfolding entity_row_mem [symmetric] by (auto simp: parent_of_Some)
    with z show "z \<in> (\<lambda>x. (x, the (parent_of rows x))) ` en_ID ` set rows" by force
  qed
qed simp

lemma ancestor_walk_parent:
  "parent_of rows x = Some p \<Longrightarrow> ancestor_walk rows x = map_option (\<lambda>ids. x # ids) (ancestor_walk rows p)"
  by (cases "ancestor_walk rows p") (auto simp: ancestor_walk.simps [of rows x] parent_of_Some dest: entity_row_id)

lemma ancestor_walk_root: "parent_of rows x = None \<Longrightarrow> ancestor_walk rows x \<noteq> None"
  by (subst ancestor_walk.simps) (simp add: parent_of_def split: option.splits)

lemma ancestor_walk_total:
  assumes "acyclic (parents rows)"
  shows "ancestor_walk rows x \<noteq> None"
proof -
  have "wf ((parents rows)\<inverse>)" using assms finite_parents by (simp add: finite_acyclic_wf_converse)
  then show ?thesis
  proof (induction x rule: wf_induct_rule)
    case (less x)
    show ?case
    proof (cases "parent_of rows x")
      case (Some p)
      with less [of p] show ?thesis by (simp add: parents_def ancestor_walk_parent)
    qed (rule ancestor_walk_root)
  qed
qed

lemma ancestor_walk_length:
  "(x, y) \<in> (parents rows)\<^sup>+ \<Longrightarrow> ancestor_walk rows x = Some xs \<Longrightarrow> \<exists>ys. ancestor_walk rows y = Some ys \<and> length ys < length xs"
proof (induction arbitrary: xs rule: trancl_induct)
  case (base y)
  then show ?case by (auto simp: parents_def ancestor_walk_parent)
next
  case (step y z)
  then obtain ys where "ancestor_walk rows y = Some ys" "length ys < length xs" by blast
  with step(2) show ?case by (auto simp: parents_def ancestor_walk_parent)
qed

text \<open>
  Property C35. The upward query of the resolver returns for every entity exactly when no entity is
  its own ancestor: a parent cycle makes every authorization under it, by scoped grant, hang.
\<close>

theorem ancestor_query_returns:
  "(\<forall>eid. AncestorsAndSelf rows eid \<noteq> None) = acyclic (parents rows)"
proof
  assume "acyclic (parents rows)"
  then have "\<exists>ids. ancestor_walk rows eid = Some ids" for eid
    using ancestor_walk_total by blast
  then show "\<forall>eid. AncestorsAndSelf rows eid \<noteq> None"
    by (auto simp: AncestorsAndSelf_def bind_eq_None_conv)
next
  assume all: "\<forall>eid. AncestorsAndSelf rows eid \<noteq> None"
  show "acyclic (parents rows)"
  proof (rule acyclicI, intro allI notI)
    fix x
    assume x: "(x, x) \<in> (parents rows)\<^sup>+"
    obtain xs where "ancestor_walk rows x = Some xs" using all by (auto simp: AncestorsAndSelf_def bind_eq_Some_conv)
    with ancestor_walk_length [OF x] show False by auto
  qed
qed

end
