(* ===== verification/Entities.thy ===== *)
theory Entities
  imports Authz TaskInstances
begin

text \<open>
  Entities (\<^verbatim>\<open>modules/entities\<close>): creating, updating and deleting the nodes of the tenant's entity
  tree, and listing the reporting periods of one. The authorizer works on the same table the
  requests write, so what a write does to the tree decides what later authorizations see.
\<close>

section \<open>Inputs and audit values\<close>

record create_entity_input =
  ce_ParentEntityID :: "string option"
  ce_Name :: string
  ce_LegalName :: "string option"
  ce_Country :: string
  ce_TaxResidency :: "string option"
  ce_FiscalCalendarPattern :: string
  ce_FinancialYearEnd :: "string option"
  ce_FiscalWeekEndDay :: string
  ce_FiscalYearEndRule :: string
  ce_CustomPeriods :: "custom_period list"

record update_entity_input = create_entity_input +
  ue_Status :: string

definition auditIdentifier :: "string \<Rightarrow> string" where
  "auditIdentifier s =
     (if s = [] \<or> length s > 16 then ''redacted''
      else if list_all identifier_char s then s else ''redacted'')"

definition auditPeriods :: "custom_period list \<Rightarrow> json" where
  "auditPeriods periods =
     (if periods = [] then JNull
      else JArr (map (\<lambda>p. JObj [(''code'', JStr (auditIdentifier (cpCode p))), (''endDate'', JStr (cpEndDate p)),
             (''startDate'', JStr (cpStartDate p))]) periods))"

definition entity_auditValues :: "entity \<Rightarrow> audit_values" where
  "entity_auditValues e =
     [(''name'', Redacted (JStr (en_Name e))), (''legalName'', Redacted (opt_str (en_LegalName e))),
      (''country'', Redacted (JStr (en_Country e))), (''taxResidency'', Redacted (opt_str (en_TaxResidency e))),
      (''parentEntityId'', Plain (opt_str (en_ParentEntityID e))),
      (''fiscalCalendarPattern'', Plain (JStr (en_FiscalCalendarPattern e))),
      (''financialYearEnd'', Plain (opt_str (en_FinancialYearEnd e))),
      (''fiscalWeekEndDay'', Plain (JStr (en_FiscalWeekEndDay e))),
      (''fiscalYearEndRule'', Plain (JStr (en_FiscalYearEndRule e))),
      (''customPeriods'', Plain (auditPeriods (en_CustomPeriods e))), (''status'', Plain (JStr (en_Status e)))]"

definition applyFiscalDefaults :: "string \<Rightarrow> string \<Rightarrow> string \<Rightarrow> string \<times> string \<times> string" where
  "applyFiscalDefaults pattern weekEndDay yearEndRule =
     (if pattern = [] then ''standard'' else pattern, if weekEndDay = [] then ''saturday'' else weekEndDay,
      if yearEndRule = [] then ''nearest'' else yearEndRule)"

section \<open>What a delete takes along\<close>

record entity_dependents =
  dp_ApprovedTaskInstances :: int
  dp_Workflows :: int
  dp_WorkflowTasks :: int
  dp_TaskInstances :: int
  dp_EntityObligations :: int
  dp_Documents :: int
  dp_DocumentVersions :: int
  dp_ChildEntitiesDetached :: int
  dp_UserGrantsRevoked :: int

definition HasAttestedWork :: "entity_dependents \<Rightarrow> bool" where
  "HasAttestedWork d \<longleftrightarrow> dp_ApprovedTaskInstances d > 0"

record scoped_grant =
  sg_UserID :: string
  sg_Role :: string

definition json_int :: "int \<Rightarrow> json" where
  "json_int n = JNum (Dec n 0)"

definition AuditDetails :: "entity_dependents \<Rightarrow> int \<Rightarrow> scoped_grant list \<Rightarrow> (string \<times> json) list" where
  "AuditDetails d blobsQueued revoked =
     [(''blobsQueuedForReclaim'', json_int blobsQueued), (''childEntitiesDetached'', json_int (dp_ChildEntitiesDetached d)),
      (''documentVersions'', json_int (dp_DocumentVersions d)), (''documents'', json_int (dp_Documents d)),
      (''entityObligations'', json_int (dp_EntityObligations d))] @
     (if revoked = [] then []
      else [(''revokedGrants'', JArr (map (\<lambda>g. JObj [(''role'', JStr (sg_Role g)), (''userId'', JStr (sg_UserID g))]) revoked))]) @
     [(''taskInstances'', json_int (dp_TaskInstances d)), (''userGrantsRevoked'', json_int (dp_UserGrantsRevoked d)),
      (''workflowTasks'', json_int (dp_WorkflowTasks d)), (''workflows'', json_int (dp_Workflows d))]"

definition ErrEntityNotFound :: "string \<Rightarrow> string" where
  "ErrEntityNotFound eid = ''entity not found: '' @ eid"

definition adr_suffix :: string where
  "adr_suffix = '' attested evidence (ADR-0018) '' @ em_dash @ '' archive the entity instead (status: archived)''"

definition ErrEntityHasApprovedWork :: "int \<Rightarrow> int \<Rightarrow> string" where
  "ErrEntityHasApprovedWork approved workflows =
     ''entity cannot be deleted: '' @
     (if approved > 0
      then itoa approved @ '' approved task instance(s) across '' @ itoa workflows @ '' workflow(s) are''
      else ''approved task instances in its workflows are'') @ adr_suffix"

section \<open>The store\<close>

record ent_store =
  es_Rows :: "entity list"
  es_Grants :: "(string \<times> grant) list"
  es_Chain :: "audit_entry list"

text \<open>
  What a request brings along: the authorizer's other lookups (None: no authorizer), the caller,
  the id the database will generate, the census of a delete and its blob queue, and the refusal
  the database itself may raise on a delete.
\<close>

record ent_env =
  ee_Resolver :: "resolver option"
  ee_Requester :: "requester option"
  ee_Grants :: "grant list"
  ee_NewID :: "entity list \<Rightarrow> string"
  ee_CountDependents :: "string \<Rightarrow> entity_dependents app"
  ee_QueueBlobReclaim :: "string \<Rightarrow> int app"
  ee_DeleteRefused :: "string \<Rightarrow> bool"
  ee_Sha :: "string \<Rightarrow> string"
  ee_Audit :: audit_context

definition ent_authorizer :: "ent_env \<Rightarrow> ent_store \<Rightarrow> resolver option" where
  "ent_authorizer env s = map_option (\<lambda>r. r\<lparr>rs_AncestorsAndSelf := AncestorsAndSelf (es_Rows s)\<rparr>) (ee_Resolver env)"

definition entities_GetById :: "ent_env \<Rightarrow> ent_store \<Rightarrow> string \<Rightarrow> entity option app" where
  "entities_GetById env s eid =
     andthen (fst (ResolveReadScope (DescendantsAndSelf (es_Rows s)) (ee_Grants env) ''entity:read'' (Some []))) (\<lambda>scope.
       Inr (case entity_row (es_Rows s) eid of
              None \<Rightarrow> None
            | Some e \<Rightarrow> if in_scope scope (Some eid) then Some e else None))"

text \<open>The self-reference of the table: a parent that is not in it fails the statement.\<close>

definition parent_ok :: "entity list \<Rightarrow> string option \<Rightarrow> bool" where
  "parent_ok rows parent = (case parent of None \<Rightarrow> True | Some p \<Rightarrow> entity_row rows p \<noteq> None)"

definition fk_error :: app_error where
  "fk_error = Internal (text_msg ''violates foreign key constraint'')"

definition entities_Create :: "(entity list \<Rightarrow> string) \<Rightarrow> ent_store \<Rightarrow> create_entity_input \<Rightarrow> (entity \<times> ent_store) app" where
  "entities_Create newid s i =
     (let rows = es_Rows s;
          e = \<lparr>en_ID = newid rows, en_ParentEntityID = ce_ParentEntityID i, en_Name = ce_Name i,
               en_LegalName = ce_LegalName i, en_Country = ce_Country i, en_TaxResidency = ce_TaxResidency i,
               en_FiscalCalendarPattern = ce_FiscalCalendarPattern i, en_FinancialYearEnd = ce_FinancialYearEnd i,
               en_FiscalWeekEndDay = ce_FiscalWeekEndDay i, en_FiscalYearEndRule = ce_FiscalYearEndRule i,
               en_CustomPeriods = ce_CustomPeriods i, en_Status = ''active''\<rparr>
      in if parent_ok rows (ce_ParentEntityID i) then Inr (e, s\<lparr>es_Rows := rows @ [e]\<rparr>) else Inl fk_error)"

definition entities_Update :: "ent_store \<Rightarrow> string \<Rightarrow> update_entity_input \<Rightarrow> (entity option \<times> ent_store) app" where
  "entities_Update s eid i =
     (let upd = (\<lambda>e. \<lparr>en_ID = en_ID e, en_ParentEntityID = ce_ParentEntityID i, en_Name = ce_Name i,
               en_LegalName = ce_LegalName i, en_Country = ce_Country i, en_TaxResidency = ce_TaxResidency i,
               en_FiscalCalendarPattern = ce_FiscalCalendarPattern i, en_FinancialYearEnd = ce_FinancialYearEnd i,
               en_FiscalWeekEndDay = ce_FiscalWeekEndDay i, en_FiscalYearEndRule = ce_FiscalYearEndRule i,
               en_CustomPeriods = ce_CustomPeriods i, en_Status = ue_Status i\<rparr>);
          rows = map (\<lambda>e. if en_ID e = eid then upd e else e) (es_Rows s)
      in if entity_row (es_Rows s) eid \<noteq> None \<and> \<not> parent_ok (es_Rows s) (ce_ParentEntityID i) then Inl fk_error
         else Inr (entity_row rows eid, s\<lparr>es_Rows := rows\<rparr>))"

text \<open>DELETE with its cascades on this store: children lose their parent, scoped grants go.\<close>

definition entities_Delete :: "ent_env \<Rightarrow> ent_store \<Rightarrow> string \<Rightarrow> (bool \<times> ent_store) app" where
  "entities_Delete env s eid =
     (if ee_DeleteRefused env eid then Inl (NewConflict (ErrEntityHasApprovedWork 0 0))
      else Inr (entity_row (es_Rows s) eid \<noteq> None,
        s\<lparr>es_Rows := map (\<lambda>e. if en_ParentEntityID e = Some eid then e\<lparr>en_ParentEntityID := None\<rparr> else e)
             (filter (\<lambda>e. en_ID e \<noteq> eid) (es_Rows s)),
          es_Grants := filter (\<lambda>ug. gr_ScopeEntityID (snd ug) \<noteq> Some eid) (es_Grants s)\<rparr>))"

definition ScopedGrants :: "ent_store \<Rightarrow> string \<Rightarrow> scoped_grant list" where
  "ScopedGrants s eid =
     sort_key sg_Role (sort_key sg_UserID
       (map (\<lambda>(u, g). \<lparr>sg_UserID = u, sg_Role = gr_Role g\<rparr>) (filter (\<lambda>(u, g). gr_ScopeEntityID g = Some eid) (es_Grants s))))"

definition ent_audit :: "ent_env \<Rightarrow> string \<Rightarrow> string \<Rightarrow> json option \<Rightarrow> ent_store \<Rightarrow> ent_store app" where
  "ent_audit env action eid details s =
     (case audit_Record (ee_Sha env) (ee_Audit env) action ''entity'' eid details (es_Chain s) of
        Inl m \<Rightarrow> Inl (Internal m)
      | Inr c \<Rightarrow> Inr (s\<lparr>es_Chain := c\<rparr>))"

section \<open>The use cases\<close>

text \<open>
  Authorization comes first and may not return; what follows runs on the same transaction, so a
  failing request leaves no store.
\<close>

definition authorized :: "unit app option \<Rightarrow> 'a app \<Rightarrow> 'a app option" where
  "authorized ok body = Option.bind ok (\<lambda>r. Some (andthen r (\<lambda>_. body)))"

definition fiscal_check :: "fiscal_config \<Rightarrow> unit app" where
  "fiscal_check c = (case ValidateFiscalConfig c of None \<Rightarrow> Inr () | Some msg \<Rightarrow> Inl (ValidationError msg))"

definition input_fiscal :: "('a) create_entity_input_scheme \<Rightarrow> fiscal_config" where
  "input_fiscal i = \<lparr>fc_FiscalCalendarPattern = ce_FiscalCalendarPattern i, fc_FinancialYearEnd = ce_FinancialYearEnd i,
     fc_FiscalWeekEndDay = ce_FiscalWeekEndDay i, fc_FiscalYearEndRule = ce_FiscalYearEndRule i,
     fc_CustomPeriods = ce_CustomPeriods i\<rparr>"

definition with_defaults :: "('a) create_entity_input_scheme \<Rightarrow> ('a) create_entity_input_scheme" where
  "with_defaults i =
     (case applyFiscalDefaults (ce_FiscalCalendarPattern i) (ce_FiscalWeekEndDay i) (ce_FiscalYearEndRule i) of
        (p, w, r) \<Rightarrow> i\<lparr>ce_FiscalCalendarPattern := p, ce_FiscalWeekEndDay := w, ce_FiscalYearEndRule := r\<rparr>)"

definition entity_Create :: "ent_env \<Rightarrow> ent_store \<Rightarrow> create_entity_input \<Rightarrow> (entity \<times> ent_store) app option" where
  "entity_Create env s input =
     authorized (EnsureEntityRef (ent_authorizer env s) (ee_Requester env) (ee_Grants env)
         (ce_ParentEntityID input) ''entity:write'')
       (let i = with_defaults input
        in andthen (fiscal_check (input_fiscal i)) (\<lambda>_.
           andthen (entities_Create (ee_NewID env) s i) (\<lambda>(e, s1).
           andthen (ent_audit env ''entity.created'' (en_ID e) (Changes [] (entity_auditValues e)) s1) (\<lambda>s2.
             Inr (e, s2)))))"

definition entity_Update :: "ent_env \<Rightarrow> ent_store \<Rightarrow> string \<Rightarrow> update_entity_input \<Rightarrow> (entity \<times> ent_store) app option" where
  "entity_Update env s eid input =
     authorized (EnsureEntity (ent_authorizer env s) (ee_Requester env) (ee_Grants env) eid ''entity:write'')
       (let i1 = with_defaults input;
            i = (if ue_Status i1 = [] then i1\<lparr>ue_Status := ''active''\<rparr> else i1)
        in andthen (fiscal_check (input_fiscal i)) (\<lambda>_.
           andthen (entities_GetById env s eid) (\<lambda>before. case before of
             None \<Rightarrow> Inl (NewNotFound (ErrEntityNotFound eid))
           | Some b \<Rightarrow>
             andthen (entities_Update s eid i) (\<lambda>(updated, s1). case updated of
               None \<Rightarrow> Inl (NewNotFound (ErrEntityNotFound eid))
             | Some e \<Rightarrow>
               andthen (ent_audit env ''entity.updated'' eid (Changes (entity_auditValues b) (entity_auditValues e)) s1) (\<lambda>s2.
                 Inr (e, s2))))))"

definition deleted_details :: "entity_dependents \<Rightarrow> int \<Rightarrow> scoped_grant list \<Rightarrow> entity \<Rightarrow> json" where
  "deleted_details d queued revoked before =
     JObj (sort_key fst (AuditDetails d queued revoked @
       (case Changes (entity_auditValues before) [] of Some (JObj kvs) \<Rightarrow> kvs | _ \<Rightarrow> [])))"

definition entity_Delete :: "ent_env \<Rightarrow> ent_store \<Rightarrow> string \<Rightarrow> ent_store app option" where
  "entity_Delete env s eid =
     authorized (EnsureEntity (ent_authorizer env s) (ee_Requester env) (ee_Grants env) eid ''entity:write'')
       (andthen (entities_GetById env s eid) (\<lambda>before. case before of
          None \<Rightarrow> Inl (NewNotFound (ErrEntityNotFound eid))
        | Some b \<Rightarrow>
          andthen (ee_CountDependents env eid) (\<lambda>d.
            if HasAttestedWork d
            then Inl (NewConflict (ErrEntityHasApprovedWork (dp_ApprovedTaskInstances d) (dp_Workflows d)))
            else
              andthen (ee_QueueBlobReclaim env eid) (\<lambda>queued.
              andthen (entities_Delete env s eid) (\<lambda>(deleted, s1).
                if \<not> deleted then Inl (NewNotFound (ErrEntityNotFound eid))
                else ent_audit env ''entity.deleted'' eid
                  (Some (deleted_details d queued (ScopedGrants s eid) b)) s1)))))"

definition entity_GetById :: "ent_env \<Rightarrow> ent_store \<Rightarrow> string \<Rightarrow> entity app" where
  "entity_GetById env s eid =
     andthen (entities_GetById env s eid) (\<lambda>row. case row of
       None \<Rightarrow> Inl (NewNotFound (ErrEntityNotFound eid))
     | Some e \<Rightarrow> Inr e)"

definition entity_Periods :: "ent_env \<Rightarrow> ent_store \<Rightarrow> string \<Rightarrow> string \<Rightarrow> int \<Rightarrow> period list app" where
  "entity_Periods env s eid periodicity financialYear =
     andthen (entity_GetById env s eid) (\<lambda>e.
       case CalendarFor e financialYear of
         Inl m \<Rightarrow> Inl (ValidationError m)
       | Inr cal \<Rightarrow>
           (case Calendar_Periods cal periodicity of
              Inl m \<Rightarrow> Inl (ValidationError m)
            | Inr ps \<Rightarrow> Inr ps))"

section \<open>The tree under the requests\<close>

lemma authorized_Some: "authorized ok body = Some (Inr x) \<longleftrightarrow> (\<exists>u. ok = Some (Inr u)) \<and> body = Inr x"
  by (auto simp: authorized_def bind_eq_Some_conv andthen_Inr)

lemma ent_audit_rows: "ent_audit env a eid d s = Inr s' \<Longrightarrow> es_Rows s' = es_Rows s \<and> es_Grants s' = es_Grants s"
  by (auto simp: ent_audit_def split: sum.splits)

lemma with_defaults_parent [simp]: "ce_ParentEntityID (with_defaults i) = ce_ParentEntityID i"
  by (simp add: with_defaults_def split: prod.split)

lemma entity_Update_ok:
  assumes "entity_Update env s eid input = Some (Inr (e, s'))"
  shows "\<exists>i s1. ce_ParentEntityID i = ce_ParentEntityID input \<and> entities_Update s eid i = Inr (Some e, s1) \<and>
    es_Rows s' = es_Rows s1"
proof -
  define i where "i = (if ue_Status (with_defaults input) = [] then with_defaults input\<lparr>ue_Status := ''active''\<rparr> else with_defaults input)"
  have p: "ce_ParentEntityID i = ce_ParentEntityID input" by (simp add: i_def)
  obtain b up s1 where "entities_Update s eid i = Inr (up, s1)"
    "(case up of None \<Rightarrow> Inl (NewNotFound (ErrEntityNotFound eid))
      | Some e \<Rightarrow> andthen (ent_audit env ''entity.updated'' eid (Changes (entity_auditValues b) (entity_auditValues e)) s1)
          (\<lambda>s2. Inr (e, s2))) = Inr (e, s')"
    using assms
    by (auto simp: entity_Update_def authorized_Some andthen_Inr i_def Let_def split: option.split_asm)
  with p show ?thesis by (cases up) (auto simp: andthen_Inr dest: ent_audit_rows)
qed

lemma entity_row_map:
  assumes "\<And>x. en_ID (f x) = en_ID x"
  shows "entity_row (map f rows) y = map_option f (entity_row rows y)"
  using assms by (induction rows) (simp_all add: entity_row_def)

lemma parent_of_map:
  assumes "\<And>x. en_ID (f x) = en_ID x"
  shows "parent_of (map f rows) y = (case entity_row rows y of None \<Rightarrow> None | Some e \<Rightarrow> en_ParentEntityID (f e))"
  by (simp add: parent_of_def entity_row_map assms split: option.split)

lemma entities_Update_parents:
  assumes "entities_Update s eid i = Inr (Some e, s1)"
  shows "entity_row (es_Rows s) eid \<noteq> None \<and> parent_ok (es_Rows s) (ce_ParentEntityID i) \<and>
    (\<forall>y. entity_row (es_Rows s1) y = None \<longleftrightarrow> entity_row (es_Rows s) y = None) \<and>
    (\<forall>y. parent_of (es_Rows s1) y = (if y = eid then ce_ParentEntityID i else parent_of (es_Rows s) y))"
proof -
  define f where "f e = (if en_ID e = eid then \<lparr>en_ID = en_ID e, en_ParentEntityID = ce_ParentEntityID i, en_Name = ce_Name i,
               en_LegalName = ce_LegalName i, en_Country = ce_Country i, en_TaxResidency = ce_TaxResidency i,
               en_FiscalCalendarPattern = ce_FiscalCalendarPattern i, en_FinancialYearEnd = ce_FinancialYearEnd i,
               en_FiscalWeekEndDay = ce_FiscalWeekEndDay i, en_FiscalYearEndRule = ce_FiscalYearEndRule i,
               en_CustomPeriods = ce_CustomPeriods i, en_Status = ue_Status i\<rparr> else e)" for e
  have id: "en_ID (f x) = en_ID x" for x by (simp add: f_def)
  have rows: "es_Rows s1 = map f (es_Rows s)" and row: "entity_row (map f (es_Rows s)) eid = Some e"
    and ok: "entity_row (es_Rows s) eid = None \<or> parent_ok (es_Rows s) (ce_ParentEntityID i)"
    using assms unfolding entities_Update_def Let_def f_def by (auto split: if_split_asm)
  have "entity_row (es_Rows s) eid \<noteq> None" using row by (auto simp: entity_row_map id)
  moreover have "parent_of (map f (es_Rows s)) y = (if y = eid then ce_ParentEntityID i else parent_of (es_Rows s) y)" for y
    unfolding parent_of_map [OF id] using \<open>entity_row (es_Rows s) eid \<noteq> None\<close>
    by (auto simp: f_def parent_of_def dest: entity_row_id split: option.split)
  ultimately show ?thesis using ok by (auto simp: rows entity_row_map id)
qed

text \<open>The tree the database holds: no cycle, and every parent is a row (the foreign key).\<close>

definition tree_ok :: "entity list \<Rightarrow> bool" where
  "tree_ok rows \<longleftrightarrow> acyclic (parents rows) \<and> (\<forall>x p. parent_of rows x = Some p \<longrightarrow> entity_row rows p \<noteq> None)"

lemma below_rtrancl:
  "below rows r x \<longleftrightarrow> entity_row rows r \<noteq> None \<and> (x, r) \<in> (parents rows)\<^sup>*"
proof
  assume "below rows r x"
  then show "entity_row rows r \<noteq> None \<and> (x, r) \<in> (parents rows)\<^sup>*"
    by (induction rule: below.induct) (auto simp: parents_def parent_of_Some intro: converse_rtrancl_into_rtrancl)
next
  assume "entity_row rows r \<noteq> None \<and> (x, r) \<in> (parents rows)\<^sup>*"
  then have r: "below rows r r" and "(x, r) \<in> (parents rows)\<^sup>*" by (auto intro: below_self)
  from this(2) show "below rows r x"
    by (induction rule: converse_rtrancl_induct) (auto simp: r parents_def intro: below_child)
qed

lemma rtrancl_cut:
  "(p, x) \<in> R\<^sup>* \<Longrightarrow> (p, x) \<in> (R - {x} \<times> UNIV)\<^sup>*"
proof (induction rule: converse_rtrancl_induct)
  case (step y z)
  then show ?case by (cases "y = x") (auto intro: converse_rtrancl_into_rtrancl)
qed simp

lemma reparent_acyclic:
  assumes "acyclic (parents rows)" "\<And>y. parent_of rows' y = (if y = eid then parent else parent_of rows y)"
  shows "acyclic (parents rows') \<longleftrightarrow> (\<forall>p. parent = Some p \<longrightarrow> (p, eid) \<notin> (parents rows)\<^sup>*)"
proof -
  let ?R = "parents rows - {eid} \<times> UNIV"
  have R: "acyclic ?R" by (rule acyclic_subset [OF assms(1)]) blast
  show ?thesis
  proof (cases parent)
    case None
    then have "parents rows' = ?R" by (auto simp: parents_def assms(2) split: if_split_asm)
    with R None show ?thesis by simp
  next
    case (Some p)
    then have "parents rows' = insert (eid, p) ?R" by (auto simp: parents_def assms(2) split: if_split_asm)
    moreover have "(p, eid) \<in> ?R\<^sup>* \<longleftrightarrow> (p, eid) \<in> (parents rows)\<^sup>*"
    proof
      assume "(p, eid) \<in> ?R\<^sup>*"
      moreover have "?R \<subseteq> parents rows" by blast
      ultimately show "(p, eid) \<in> (parents rows)\<^sup>*" using rtrancl_mono by blast
    qed (rule rtrancl_cut)
    ultimately show ?thesis using R Some by (simp add: acyclic_insert)
  qed
qed

text \<open>What an accepted update does to the tree.\<close>

lemma entity_Update_tree:
  assumes "tree_ok (es_Rows s)" "entity_Update env s eid input = Some (Inr (e, s'))"
  shows "(tree_ok (es_Rows s') \<longleftrightarrow> (\<forall>p. ce_ParentEntityID input = Some p \<longrightarrow> \<not> below (es_Rows s) eid p)) \<and>
    (\<not> tree_ok (es_Rows s') \<longrightarrow> AncestorsAndSelf (es_Rows s') eid = None) \<and>
    (\<forall>y. parent_of (es_Rows s') y = (if y = eid then ce_ParentEntityID input else parent_of (es_Rows s) y)) \<and>
    map en_ID (es_Rows s') = map en_ID (es_Rows s)"
proof -
  obtain i s1 where i: "ce_ParentEntityID i = ce_ParentEntityID input" "entities_Update s eid i = Inr (Some e, s1)"
    "es_Rows s' = es_Rows s1" using entity_Update_ok [OF assms(2)] by blast
  note u = entities_Update_parents [OF i(2)]
  let ?par = "ce_ParentEntityID input"
  have par: "parent_of (es_Rows s') y = (if y = eid then ?par else parent_of (es_Rows s) y)" for y
    using u i(1,3) by simp
  have closed: "\<forall>x p. parent_of (es_Rows s') x = Some p \<longrightarrow> entity_row (es_Rows s') p \<noteq> None"
    using assms(1) u i par by (auto simp: tree_ok_def parent_ok_def split: if_split_asm)
  have ac: "acyclic (parents (es_Rows s)) " using assms(1) by (simp add: tree_ok_def)
  have "tree_ok (es_Rows s') \<longleftrightarrow> (\<forall>p. ?par = Some p \<longrightarrow> \<not> below (es_Rows s) eid p)"
    using reparent_acyclic [OF ac par] closed u by (auto simp: tree_ok_def below_rtrancl)
  moreover have "AncestorsAndSelf (es_Rows s') eid = None" if not: "\<not> tree_ok (es_Rows s')"
  proof (rule ccontr)
    assume "AncestorsAndSelf (es_Rows s') eid \<noteq> None"
    then obtain xs where xs: "ancestor_walk (es_Rows s') eid = Some xs"
      by (auto simp: AncestorsAndSelf_def bind_eq_Some_conv)
    from not closed reparent_acyclic [OF ac par] obtain p where p: "?par = Some p" "(p, eid) \<in> (parents (es_Rows s))\<^sup>*"
      by (auto simp: tree_ok_def)
    let ?R = "parents (es_Rows s) - {eid} \<times> UNIV"
    have "?R \<subseteq> parents (es_Rows s')" by (auto simp: parents_def par split: if_split_asm)
    with rtrancl_cut [OF p(2)] have "(p, eid) \<in> (parents (es_Rows s'))\<^sup>*" using rtrancl_mono by blast
    moreover have "(eid, p) \<in> parents (es_Rows s')" using p(1) by (simp add: parents_def par)
    ultimately have "(eid, eid) \<in> (parents (es_Rows s'))\<^sup>+" by (rule rtrancl_into_trancl2 [rotated])
    from ancestor_walk_length [OF this xs] xs show False by auto
  qed
  moreover have "map en_ID (es_Rows s') = map en_ID (es_Rows s)"
    using i(2,3) by (auto simp: entities_Update_def Let_def split: if_split_asm)
  ultimately show ?thesis using par by blast
qed

text \<open>An authorised update of a visible entity with a valid calendar is accepted, whatever row its parent is.\<close>

lemma entity_Update_accepts:
  assumes auth: "EnsureEntity (ent_authorizer env s) (ee_Requester env) (ee_Grants env) eid ''entity:write'' = Some (Inr ())"
    and valid: "fiscal_check (input_fiscal (with_defaults input)) = Inr ()" and seen: "entities_GetById env s eid = Inr (Some b)"
    and parent: "parent_ok (es_Rows s) (ce_ParentEntityID input)"
    and actor: "ac_Tenant (ee_Audit env) \<noteq> []" "ac_Requester (ee_Audit env) = Some rq" "IsUser rq" "rq_ID rq \<noteq> []"
  shows "\<exists>e s'. entity_Update env s eid input = Some (Inr (e, s'))"
proof -
  define i where "i = (if ue_Status (with_defaults input) = [] then with_defaults input\<lparr>ue_Status := ''active''\<rparr> else with_defaults input)"
  have i: "input_fiscal i = input_fiscal (with_defaults input)" "ce_ParentEntityID i = ce_ParentEntityID input"
    by (simp_all add: i_def input_fiscal_def)
  have row: "entity_row (es_Rows s) eid \<noteq> None"
    using seen by (auto simp: entities_GetById_def andthen_Inr split: option.splits)
  then obtain e s1 where u: "entities_Update s eid i = Inr (Some e, s1)"
    using parent by (auto simp: entities_Update_def Let_def entity_row_map i(2))
  have "\<exists>c. audit_Record (ee_Sha env) (ee_Audit env) ''entity.updated'' ''entity'' eid d (es_Chain s1) = Inr c" for d
    using actor by (simp add: audit_Record_def split: prod.split)
  then obtain c where "audit_Record (ee_Sha env) (ee_Audit env) ''entity.updated'' ''entity'' eid
      (Changes (entity_auditValues b) (entity_auditValues e)) (es_Chain s1) = Inr c" by blast
  then have "ent_audit env ''entity.updated'' eid (Changes (entity_auditValues b) (entity_auditValues e)) s1 = Inr (s1\<lparr>es_Chain := c\<rparr>)"
    by (simp add: ent_audit_def)
  with u auth valid seen show ?thesis
    by (simp add: entity_Update_def authorized_def Let_def i_def [symmetric] i(1))
qed

text \<open>
  Property C36. The update of an entity accepts as its parent any row of the table, also the entity
  itself or one below it: for an authorised caller and a valid calendar nothing refuses it. With a parent below the entity
  the tree has a cycle, and the ancestor query no longer returns for the entity, so that
  authorizing a scoped caller on it hangs; with any other parent it is a tree.
\<close>

theorem reparenting_cycles:
  assumes "tree_ok (es_Rows s)" "ce_ParentEntityID input = Some p" "entity_row (es_Rows s) p \<noteq> None"
    and "EnsureEntity (ent_authorizer env s) (ee_Requester env) (ee_Grants env) eid ''entity:write'' = Some (Inr ())"
    and "fiscal_check (input_fiscal (with_defaults input)) = Inr ()" "entities_GetById env s eid = Inr (Some b)"
    and "ac_Tenant (ee_Audit env) \<noteq> []" "ac_Requester (ee_Audit env) = Some rq" "IsUser rq" "rq_ID rq \<noteq> []"
  shows "\<exists>e s'. entity_Update env s eid input = Some (Inr (e, s')) \<and> parent_of (es_Rows s') eid = Some p \<and>
    (if below (es_Rows s) eid p then \<not> tree_ok (es_Rows s') \<and> AncestorsAndSelf (es_Rows s') eid = None
     else tree_ok (es_Rows s'))"
proof -
  have "parent_ok (es_Rows s) (ce_ParentEntityID input)" using assms(2,3) by (simp add: parent_ok_def)
  from entity_Update_accepts [OF assms(4-6) this assms(7-10)] obtain e s' where u: "entity_Update env s eid input = Some (Inr (e, s'))"
    by blast
  from entity_Update_tree [OF assms(1) u] u assms(2) show ?thesis by auto
qed

lemma entity_row_append:
  "entity_row (rows @ [e]) y = (case entity_row rows y of Some x \<Rightarrow> Some x | None \<Rightarrow> if en_ID e = y then Some e else None)"
  by (induction rows) (simp_all add: entity_row_def)

lemma entities_Create_tree:
  assumes "tree_ok (es_Rows s)" "entity_row (es_Rows s) (newid (es_Rows s)) = None"
    and "entities_Create newid s i = Inr (e, s1)"
  shows "tree_ok (es_Rows s1) \<and> es_Rows s1 = es_Rows s @ [e] \<and> en_ID e = newid (es_Rows s) \<and> en_ParentEntityID e = ce_ParentEntityID i"
proof -
  let ?new = "newid (es_Rows s)"
  have rows: "es_Rows s1 = es_Rows s @ [e]" "en_ID e = ?new" "en_ParentEntityID e = ce_ParentEntityID i"
    and ok: "parent_ok (es_Rows s) (ce_ParentEntityID i)"
    using assms(3) by (auto simp: entities_Create_def Let_def split: if_split_asm)
  have par: "parent_of (es_Rows s1) y = (if y = ?new then ce_ParentEntityID i else parent_of (es_Rows s) y)" for y
    using rows assms(2) by (auto simp: parent_of_def entity_row_append split: option.splits)
  have known: "entity_row (es_Rows s1) p \<noteq> None" if "entity_row (es_Rows s) p \<noteq> None" for p
    using that rows by (auto simp: entity_row_append split: option.split)
  have "(p, ?new) \<notin> (parents (es_Rows s))\<^sup>*" if p: "ce_ParentEntityID i = Some p" for p
  proof
    assume "(p, ?new) \<in> (parents (es_Rows s))\<^sup>*"
    then consider "p = ?new" | z where "(z, ?new) \<in> parents (es_Rows s)" by (cases rule: rtranclE) auto
    then show False
    proof cases
      case 1
      with p ok assms(2) show ?thesis by (simp add: parent_ok_def)
    next
      case 2
      moreover have "\<forall>x p. parent_of (es_Rows s) x = Some p \<longrightarrow> entity_row (es_Rows s) p \<noteq> None"
        using assms(1) unfolding tree_ok_def by blast
      moreover have "parent_of (es_Rows s) z = Some ?new" using 2 by (simp add: parents_def)
      ultimately show ?thesis using assms(2) by blast
    qed
  qed
  moreover have "acyclic (parents (es_Rows s))" using assms(1) by (simp add: tree_ok_def)
  ultimately have "acyclic (parents (es_Rows s1))" using reparent_acyclic [OF _ par] by blast
  moreover have "entity_row (es_Rows s1) p \<noteq> None" if "parent_of (es_Rows s1) x = Some p" for x p
  proof (rule known)
    show "entity_row (es_Rows s) p \<noteq> None"
      using that ok assms(1) unfolding par by (auto simp: parent_ok_def tree_ok_def split: if_split_asm)
  qed
  ultimately show ?thesis using rows by (simp add: tree_ok_def)
qed

lemma entity_row_filter: "entity_row (filter (\<lambda>e. en_ID e \<noteq> eid) rows) y = (if y = eid then None else entity_row rows y)"
  by (induction rows) (auto simp: entity_row_def)

lemma entities_Delete_tree:
  assumes "tree_ok (es_Rows s)" "entities_Delete env s eid = Inr (b, s1)"
  shows "tree_ok (es_Rows s1) \<and> entity_row (es_Rows s1) eid = None \<and>
    (\<forall>ug \<in> set (es_Grants s1). gr_ScopeEntityID (snd ug) \<noteq> Some eid) \<and>
    (\<forall>x. parent_of (es_Rows s) x = Some eid \<longrightarrow> parent_of (es_Rows s1) x = None) \<and>
    map en_ID (es_Rows s1) = filter (\<lambda>x. x \<noteq> eid) (map en_ID (es_Rows s))"
proof -
  let ?f = "\<lambda>e. if en_ParentEntityID e = Some eid then e\<lparr>en_ParentEntityID := None\<rparr> else e"
  have s1: "es_Rows s1 = map ?f (filter (\<lambda>e. en_ID e \<noteq> eid) (es_Rows s))"
    "es_Grants s1 = filter (\<lambda>ug. gr_ScopeEntityID (snd ug) \<noteq> Some eid) (es_Grants s)"
    using assms(2) by (auto simp: entities_Delete_def split: if_split_asm)
  have id: "en_ID (?f x) = en_ID x" for x by simp
  have row: "entity_row (es_Rows s1) y = (if y = eid then None else map_option ?f (entity_row (es_Rows s) y))" for y
    unfolding s1 entity_row_map [OF id] entity_row_filter by simp
  have par: "parent_of (es_Rows s1) y = Some p \<longleftrightarrow> y \<noteq> eid \<and> p \<noteq> eid \<and> parent_of (es_Rows s) y = Some p" for y p
    unfolding parent_of_def row by (auto split: option.splits if_split_asm)
  have "parents (es_Rows s1) \<subseteq> parents (es_Rows s)" by (auto simp: parents_def par)
  then have "acyclic (parents (es_Rows s1))" using assms(1) acyclic_subset by (auto simp: tree_ok_def)
  moreover have "entity_row (es_Rows s1) p \<noteq> None" if "parent_of (es_Rows s1) x = Some p" for x p
    using that assms(1) by (auto simp: par tree_ok_def row)
  moreover have "parent_of (es_Rows s1) x = None" if "parent_of (es_Rows s) x = Some eid" for x
  proof (rule ccontr)
    assume "parent_of (es_Rows s1) x \<noteq> None"
    then obtain p where "parent_of (es_Rows s1) x = Some p" by blast
    with par [of x p] that show False by (simp only: option.inject) blast
  qed
  moreover have "map en_ID (es_Rows s1) = filter (\<lambda>x. x \<noteq> eid) (map en_ID (es_Rows s))"
    by (simp add: s1(1) comp_def filter_map)
  ultimately show ?thesis by (auto simp: tree_ok_def row s1(2))
qed

text \<open>
  Property C31. The requests on entities, one after the other, keep the entity tree: unique ids, existing
  parents, no cycle. A creation under a fresh id hangs the entity under its parent at the end of the table; an update moves no
  other entity, and keeps the tree when it leaves the parent alone or names one that is not below the
  entity; a deletion removes the entity with the grants scoped to it and leaves its children as roots.
\<close>

theorem entity_tree_kept:
  assumes "tree_ok (es_Rows s)" "distinct (map en_ID (es_Rows s))"
  shows "(entity_row (es_Rows s) (ee_NewID env (es_Rows s)) = None \<longrightarrow>
       entity_Create env s input = Some (Inr (e, s1)) \<longrightarrow>
       tree_ok (es_Rows s1) \<and> distinct (map en_ID (es_Rows s1)) \<and>
       es_Rows s1 = es_Rows s @ [e] \<and> en_ParentEntityID e = ce_ParentEntityID input) \<and>
    (entity_Update env s eid change = Some (Inr (e', s2)) \<longrightarrow>
       distinct (map en_ID (es_Rows s2)) \<and>
       (\<forall>x. parent_of (es_Rows s2) x = (if x = eid then ce_ParentEntityID change else parent_of (es_Rows s) x)) \<and>
       (ce_ParentEntityID change = parent_of (es_Rows s) eid \<or>
        (\<forall>p. ce_ParentEntityID change = Some p \<longrightarrow> \<not> below (es_Rows s) eid p) \<longrightarrow> tree_ok (es_Rows s2))) \<and>
    (entity_Delete env s eid = Some (Inr s3) \<longrightarrow>
       tree_ok (es_Rows s3) \<and> distinct (map en_ID (es_Rows s3)) \<and> entity_row (es_Rows s3) eid = None \<and>
       (\<forall>ug \<in> set (es_Grants s3). gr_ScopeEntityID (snd ug) \<noteq> Some eid) \<and>
       (\<forall>x. parent_of (es_Rows s) x = Some eid \<longrightarrow> parent_of (es_Rows s3) x = None))"
proof (intro conjI)
  show "entity_row (es_Rows s) (ee_NewID env (es_Rows s)) = None \<longrightarrow>
       entity_Create env s input = Some (Inr (e, s1)) \<longrightarrow>
       tree_ok (es_Rows s1) \<and> distinct (map en_ID (es_Rows s1)) \<and>
       es_Rows s1 = es_Rows s @ [e] \<and> en_ParentEntityID e = ce_ParentEntityID input"
  proof (intro impI)
    assume new: "entity_row (es_Rows s) (ee_NewID env (es_Rows s)) = None" and ok: "entity_Create env s input = Some (Inr (e, s1))"
    from ok obtain s0 where "entities_Create (ee_NewID env) s (with_defaults input) = Inr (e, s0)" "es_Rows s1 = es_Rows s0"
      by (auto simp: entity_Create_def authorized_Some andthen_Inr Let_def dest!: ent_audit_rows)
    with entities_Create_tree [OF assms(1) new this(1)] new assms(2)
    show "tree_ok (es_Rows s1) \<and> distinct (map en_ID (es_Rows s1)) \<and>
       es_Rows s1 = es_Rows s @ [e] \<and> en_ParentEntityID e = ce_ParentEntityID input"
      using entity_row_mem [of "es_Rows s" "ee_NewID env (es_Rows s)"] by auto
  qed
  show "entity_Update env s eid change = Some (Inr (e', s2)) \<longrightarrow>
       distinct (map en_ID (es_Rows s2)) \<and>
       (\<forall>x. parent_of (es_Rows s2) x = (if x = eid then ce_ParentEntityID change else parent_of (es_Rows s) x)) \<and>
       (ce_ParentEntityID change = parent_of (es_Rows s) eid \<or>
        (\<forall>p. ce_ParentEntityID change = Some p \<longrightarrow> \<not> below (es_Rows s) eid p) \<longrightarrow> tree_ok (es_Rows s2))"
  proof
    assume u: "entity_Update env s eid change = Some (Inr (e', s2))"
    note t = entity_Update_tree [OF assms(1) u]
    have "\<not> below (es_Rows s) eid p" if "parent_of (es_Rows s) eid = Some p" for p
    proof
      assume "below (es_Rows s) eid p"
      then have "(p, eid) \<in> (parents (es_Rows s))\<^sup>*" by (simp add: below_rtrancl)
      with that have "(eid, eid) \<in> (parents (es_Rows s))\<^sup>+" by (auto simp: parents_def intro: rtrancl_into_trancl2)
      with assms(1) show False by (auto simp: tree_ok_def acyclic_def)
    qed
    with t assms(2) show "distinct (map en_ID (es_Rows s2)) \<and>
       (\<forall>x. parent_of (es_Rows s2) x = (if x = eid then ce_ParentEntityID change else parent_of (es_Rows s) x)) \<and>
       (ce_ParentEntityID change = parent_of (es_Rows s) eid \<or>
        (\<forall>p. ce_ParentEntityID change = Some p \<longrightarrow> \<not> below (es_Rows s) eid p) \<longrightarrow> tree_ok (es_Rows s2))"
      by metis
  qed
  show "entity_Delete env s eid = Some (Inr s3) \<longrightarrow>
       tree_ok (es_Rows s3) \<and> distinct (map en_ID (es_Rows s3)) \<and> entity_row (es_Rows s3) eid = None \<and>
       (\<forall>ug \<in> set (es_Grants s3). gr_ScopeEntityID (snd ug) \<noteq> Some eid) \<and>
       (\<forall>x. parent_of (es_Rows s) x = Some eid \<longrightarrow> parent_of (es_Rows s3) x = None)"
  proof
    assume "entity_Delete env s eid = Some (Inr s3)"
    then obtain s0 where "entities_Delete env s eid = Inr (True, s0)" "es_Rows s3 = es_Rows s0" "es_Grants s3 = es_Grants s0"
      by (auto simp: entity_Delete_def authorized_Some andthen_Inr dest!: ent_audit_rows split: option.split_asm if_split_asm)
    with entities_Delete_tree [OF assms(1) this(1)] assms(2)
    show "tree_ok (es_Rows s3) \<and> distinct (map en_ID (es_Rows s3)) \<and> entity_row (es_Rows s3) eid = None \<and>
       (\<forall>ug \<in> set (es_Grants s3). gr_ScopeEntityID (snd ug) \<noteq> Some eid) \<and>
       (\<forall>x. parent_of (es_Rows s) x = Some eid \<longrightarrow> parent_of (es_Rows s3) x = None)"
      by simp
  qed
qed

section \<open>A cycle, step by step\<close>

definition tree_env :: ent_env where
  "tree_env = \<lparr>ee_Resolver = Some group_resolver, ee_Requester = None, ee_Grants = [\<lparr>gr_Role = ''manager'', gr_ScopeEntityID = None\<rparr>],
     ee_NewID = (\<lambda>rows. ''new''), ee_CountDependents = (\<lambda>_. Inr \<lparr>dp_ApprovedTaskInstances = 0, dp_Workflows = 0,
       dp_WorkflowTasks = 0, dp_TaskInstances = 0, dp_EntityObligations = 0, dp_Documents = 0, dp_DocumentVersions = 0,
       dp_ChildEntitiesDetached = 1, dp_UserGrantsRevoked = 0\<rparr>), ee_QueueBlobReclaim = (\<lambda>_. Inr 0),
     ee_DeleteRefused = (\<lambda>_. False), ee_Sha = (\<lambda>s. s), ee_Audit = example_context\<rparr>"

definition tree_store :: ent_store where
  "tree_store = \<lparr>es_Rows = group_rows, es_Grants = [], es_Chain = []\<rparr>"

text \<open>The head office is put under its own subsidiary.\<close>

definition swap_input :: update_entity_input where
  "swap_input = \<lparr>ce_ParentEntityID = Some ''de'', ce_Name = ''hq'', ce_LegalName = None, ce_Country = ''Germany'',
     ce_TaxResidency = None, ce_FiscalCalendarPattern = [], ce_FinancialYearEnd = None, ce_FiscalWeekEndDay = [],
     ce_FiscalYearEndRule = [], ce_CustomPeriods = [], ue_Status = []\<rparr>"

lemma tree_authorized:
  "authorized (EnsureEntity (ent_authorizer tree_env s) (ee_Requester tree_env) (ee_Grants tree_env) eid ''entity:write'') b = Some b"
  "authorized (EnsureEntityRef (ent_authorizer tree_env s) (ee_Requester tree_env) (ee_Grants tree_env) p ''entity:write'') b = Some b"
proof -
  have "RoleHasCapability ''manager'' ''entity:write''" by code_simp
  then show "authorized (EnsureEntity (ent_authorizer tree_env s) (ee_Requester tree_env) (ee_Grants tree_env) eid ''entity:write'') b = Some b"
    "authorized (EnsureEntityRef (ent_authorizer tree_env s) (ee_Requester tree_env) (ee_Grants tree_env) p ''entity:write'') b = Some b"
    by (simp_all add: authorized_def EnsureEntity_def EnsureEntityRef_def authorize_def tree_env_def ent_authorizer_def)
qed

lemma tree_get: "entities_GetById tree_env s eid = Inr (entity_row (es_Rows s) eid)"
proof -
  have "RoleHasCapability ''manager'' ''entity:read''" by code_simp
  then show ?thesis
    by (simp add: entities_GetById_def tree_env_def ResolveReadScope_def ReadScopeRoots_def in_scope_def
        UnboundedReadScope_def split: option.split)
qed

lemma tree_audit: "\<exists>c. ent_audit tree_env a eid d s = Inr (s\<lparr>es_Chain := c\<rparr>)"
proof -
  obtain c where "audit_Record (\<lambda>s. s) example_context a ''entity'' eid d (es_Chain s) = Inr c"
    using audit_Record_ok by blast
  then have "ent_audit tree_env a eid d s = Inr (s\<lparr>es_Chain := c\<rparr>)" by (simp add: ent_audit_def tree_env_def)
  then show ?thesis by (rule exI)
qed

lemma tree_rows_ok: "tree_ok group_rows"
proof -
  have row: "entity_row group_rows x = (if x = ''hq'' then Some (group_entity ''hq'' None)
      else if x = ''de'' then Some (group_entity ''de'' (Some ''hq''))
      else if x = ''fr'' then Some (group_entity ''fr'' (Some ''hq''))
      else if x = ''muc'' then Some (group_entity ''muc'' (Some ''de'')) else None)" for x
    by (simp add: entity_row_def group_rows_def group_entity_def)
  have par: "parent_of group_rows x = Some p \<longleftrightarrow> (x, p) \<in> {(''de'', ''hq''), (''fr'', ''hq''), (''muc'', ''de'')}" for x p
    by (auto simp: parent_of_def row group_entity_def)
  have "ancestor_walk group_rows x \<noteq> None" for x
  proof (cases "parent_of group_rows x")
    case (Some p)
    then have "x \<in> {''de'', ''fr'', ''muc''}" by (auto simp: par)
    moreover have "\<forall>y \<in> {''de'', ''fr'', ''muc''}. ancestor_walk group_rows y \<noteq> None" by code_simp
    ultimately show ?thesis by blast
  qed (rule ancestor_walk_root)
  then have "acyclic (parents group_rows)" 
    using ancestor_walk_length by (metis acyclicI less_irrefl not_None_eq option.inject)
  then show ?thesis by (auto simp: tree_ok_def par row)
qed

theorem reparenting_cycles_witness:
  "\<exists>e s'. entity_Update tree_env tree_store ''hq'' swap_input = Some (Inr (e, s')) \<and>
     tree_ok (es_Rows tree_store) \<and> \<not> tree_ok (es_Rows s') \<and> AncestorsAndSelf (es_Rows s') ''hq'' = None"
proof -
  have v: "fiscal_check (input_fiscal (with_defaults swap_input)) = Inr ()" by code_simp
  have row: "entity_row group_rows ''hq'' = Some (group_entity ''hq'' None)" "entity_row group_rows ''de'' \<noteq> None"
    by (simp_all add: entity_row_def group_rows_def group_entity_def)
  have auth: "EnsureEntity (ent_authorizer tree_env tree_store) (ee_Requester tree_env) (ee_Grants tree_env) ''hq'' ''entity:write'' = Some (Inr ())"
    using tree_authorized(1) [of tree_store "''hq''" "Inr ()"] by (auto simp: authorized_Some)
  have seen: "entities_GetById tree_env tree_store ''hq'' = Inr (Some (group_entity ''hq'' None))"
    using row by (simp add: tree_get tree_store_def)
  have ok: "tree_ok (es_Rows tree_store)" using tree_rows_ok by (simp add: tree_store_def)
  have below: "below group_rows ''hq'' ''de''"
    by (rule below_parent [OF below_self, where e = "group_entity ''de'' (Some ''hq'')"])
      (simp_all add: entity_row_def group_rows_def group_entity_def)
  have actor: "ac_Tenant (ee_Audit tree_env) \<noteq> []" "\<exists>rq. ac_Requester (ee_Audit tree_env) = Some rq \<and> IsUser rq \<and> rq_ID rq \<noteq> []"
    by (simp_all add: tree_env_def example_context_def IsUser_def)
  then obtain rq where rq: "ac_Requester (ee_Audit tree_env) = Some rq" "IsUser rq" "rq_ID rq \<noteq> []" by blast
  have "\<exists>e s'. entity_Update tree_env tree_store ''hq'' swap_input = Some (Inr (e, s')) \<and>
      parent_of (es_Rows s') ''hq'' = Some ''de'' \<and>
      (if below (es_Rows tree_store) ''hq'' ''de'' then \<not> tree_ok (es_Rows s') \<and> AncestorsAndSelf (es_Rows s') ''hq'' = None
       else tree_ok (es_Rows s'))"
    by (rule reparenting_cycles [OF ok _ _ auth v seen actor(1) rq]) (use row in \<open>simp_all add: swap_input_def tree_store_def\<close>)
  with below ok show ?thesis by (auto simp: tree_store_def)
qed

theorem entity_tree_kept_witness:
  "\<exists>s2. entity_Delete tree_env tree_store ''de'' = Some (Inr s2) \<and> tree_ok (es_Rows s2) \<and> parent_of (es_Rows s2) ''muc'' = None"
proof -
  have row: "entity_row group_rows ''de'' = Some (group_entity ''de'' (Some ''hq''))" "parent_of group_rows ''muc'' = Some ''de''"
    by (simp_all add: entity_row_def parent_of_def group_rows_def group_entity_def)
  obtain s1 where d: "entities_Delete tree_env tree_store ''de'' = Inr (True, s1)"
    using row by (simp add: entities_Delete_def tree_env_def tree_store_def)
  obtain d' where "ee_CountDependents tree_env ''de'' = Inr d'" "\<not> HasAttestedWork d'" "ee_QueueBlobReclaim tree_env ''de'' = Inr 0"
    by (simp add: tree_env_def HasAttestedWork_def)
  moreover obtain c where "ent_audit tree_env ''entity.deleted'' ''de''
      (Some (deleted_details d' 0 (ScopedGrants tree_store ''de'') (group_entity ''de'' (Some ''hq'')))) s1 = Inr (s1\<lparr>es_Chain := c\<rparr>)"
    using tree_audit by blast
  ultimately have s2: "entity_Delete tree_env tree_store ''de'' = Some (Inr (s1\<lparr>es_Chain := c\<rparr>))"
    using d row by (simp add: entity_Delete_def tree_authorized tree_get) (simp add: tree_store_def)
  have ok: "tree_ok (es_Rows tree_store)" "distinct (map en_ID (es_Rows tree_store))"
    using tree_rows_ok by (simp_all add: tree_store_def group_rows_def group_entity_def)
  note kept = entity_tree_kept [OF ok, of tree_env _ _ _ "''de''" _ _ _ "s1\<lparr>es_Chain := c\<rparr>", THEN conjunct2, THEN conjunct2, THEN mp, OF s2]
  from s2 kept row show ?thesis by (auto simp: tree_store_def)
qed

end
