(* ===== verification/GoText.thy ===== *)
theory GoText
  imports Prelude "HOL-Library.Sublist"
begin

text \<open>
  The functions of Go's \<^verbatim>\<open>strings\<close> package that several components use, on byte strings:
  \<^verbatim>\<open>strings.TrimSpace\<close> over the UTF-8 encodings of the Unicode white space, ASCII lower case and
  the number of characters of a text.
\<close>

definition space_runes :: "string list" where
  "space_runes =
     [[CHR 0x09], [CHR 0x0A], [CHR 0x0B], [CHR 0x0C], [CHR 0x0D], [CHR 0x20],
      [CHR 0xC2, CHR 0x85], [CHR 0xC2, CHR 0xA0], [CHR 0xE1, CHR 0x9A, CHR 0x80]] @
     map (\<lambda>b. [CHR 0xE2, CHR 0x80, b])
       [CHR 0x80, CHR 0x81, CHR 0x82, CHR 0x83, CHR 0x84, CHR 0x85, CHR 0x86, CHR 0x87, CHR 0x88, CHR 0x89, CHR 0x8A,
        CHR 0xA8, CHR 0xA9, CHR 0xAF] @
     [[CHR 0xE2, CHR 0x81, CHR 0x9F], [CHR 0xE3, CHR 0x80, CHR 0x80]]"

definition leading_space :: "string \<Rightarrow> string option" where
  "leading_space s = find (\<lambda>r. prefix r s) space_runes"

definition trailing_space :: "string \<Rightarrow> string option" where
  "trailing_space s = find (\<lambda>r. suffix r s) space_runes"

lemma space_runes_nonempty: "r \<in> set space_runes \<Longrightarrow> r \<noteq> []"
  by (auto simp: space_runes_def)

lemma leading_space_Some: "leading_space s = Some r \<Longrightarrow> r \<noteq> [] \<and> prefix r s"
  using space_runes_nonempty by (auto simp: leading_space_def find_Some_iff)

lemma trailing_space_Some: "trailing_space s = Some r \<Longrightarrow> r \<noteq> [] \<and> suffix r s"
  using space_runes_nonempty by (auto simp: trailing_space_def find_Some_iff)

function trim_left :: "string \<Rightarrow> string" where
  "trim_left s = (case leading_space s of None \<Rightarrow> s | Some r \<Rightarrow> trim_left (drop (length r) s))"
  by pat_completeness auto
termination
  by (relation "measure length") (auto dest!: leading_space_Some simp: prefix_def)

function trim_right :: "string \<Rightarrow> string" where
  "trim_right s = (case trailing_space s of None \<Rightarrow> s | Some r \<Rightarrow> trim_right (take (length s - length r) s))"
  by pat_completeness auto
termination
  by (relation "measure length") (auto dest!: trailing_space_Some simp: suffix_def)

declare trim_left.simps [simp del] trim_right.simps [simp del]

definition TrimSpace :: "string \<Rightarrow> string" where
  "TrimSpace s = trim_right (trim_left s)"

definition blank :: "string \<Rightarrow> bool" where
  "blank s \<longleftrightarrow> TrimSpace s = []"

text \<open>No space is left at either end, and what is left is a factor of the input.\<close>

lemma trim_left_leading: "leading_space (trim_left s) = None"
proof (induction s rule: trim_left.induct)
  case (1 s)
  then show ?case by (subst trim_left.simps) (auto split: option.splits)
qed

lemma trim_left_suffix: "suffix (trim_left s) s"
proof (induction s rule: trim_left.induct)
  case (1 s)
  show ?case
  proof (cases "leading_space s")
    case (Some r)
    with 1 have "suffix (trim_left (drop (length r) s)) (drop (length r) s)" by auto
    then have "suffix (trim_left (drop (length r) s)) s" using suffix_drop suffix_order.trans by blast
    with Some show ?thesis by (subst trim_left.simps) simp
  qed (subst trim_left.simps, simp)
qed

lemma trim_right_trailing: "trailing_space (trim_right s) = None"
proof (induction s rule: trim_right.induct)
  case (1 s)
  then show ?case by (subst trim_right.simps) (auto split: option.splits)
qed

lemma trim_right_prefix: "prefix (trim_right s) s"
proof (induction s rule: trim_right.induct)
  case (1 s)
  show ?case
  proof (cases "trailing_space s")
    case (Some r)
    with 1 have "prefix (trim_right (take (length s - length r) s)) (take (length s - length r) s)" by auto
    then have "prefix (trim_right (take (length s - length r) s)) s" using take_is_prefix prefix_order.trans by blast
    with Some show ?thesis by (subst trim_right.simps) simp
  qed (subst trim_right.simps, simp)
qed

lemma leading_space_prefix: "prefix t s \<Longrightarrow> leading_space s = None \<Longrightarrow> leading_space t = None"
  using prefix_order.trans by (auto simp: leading_space_def find_None_iff)

lemma TrimSpace_trimmed: "leading_space (TrimSpace s) = None \<and> trailing_space (TrimSpace s) = None"
  using leading_space_prefix [OF trim_right_prefix trim_left_leading] trim_right_trailing
  by (simp add: TrimSpace_def)

lemma TrimSpace_id: "leading_space s = None \<Longrightarrow> trailing_space s = None \<Longrightarrow> TrimSpace s = s"
  by (simp add: TrimSpace_def trim_left.simps [of s] trim_right.simps [of s])

lemma TrimSpace_idem [simp]: "TrimSpace (TrimSpace s) = TrimSpace s"
  by (rule TrimSpace_id) (simp_all add: TrimSpace_trimmed)

definition ascii_lower :: "char \<Rightarrow> char" where
  "ascii_lower c = (let n = (of_char c :: nat) in if 65 \<le> n \<and> n \<le> 90 then char_of (n + 32) else c)"

definition ascii_lower_text :: "string \<Rightarrow> string" where
  "ascii_lower_text s = map ascii_lower s"

text \<open>\<^verbatim>\<open>utf8.RuneCountInString\<close> of valid UTF-8: the bytes that are no continuation bytes.\<close>

definition rune_count :: "string \<Rightarrow> nat" where
  "rune_count s = length (filter (\<lambda>c. let n = (of_char c :: nat) in n < 128 \<or> 192 \<le> n) s)"

text \<open>
  \<^verbatim>\<open>utf8.ValidString\<close>: shortest encodings of the code points outside the surrogates. A Postgres
  text accepts exactly these without the zero byte.
\<close>

definition byte :: "char \<Rightarrow> nat" where
  "byte c = of_char c"

definition continuation :: "char \<Rightarrow> bool" where
  "continuation c \<longleftrightarrow> 128 \<le> byte c \<and> byte c < 192"

fun utf8_valid :: "string \<Rightarrow> bool" where
  "utf8_valid [] \<longleftrightarrow> True"
| "utf8_valid (a # s) \<longleftrightarrow>
     (if byte a < 128 then utf8_valid s
      else case s of [] \<Rightarrow> False | b # s2 \<Rightarrow>
        if 194 \<le> byte a \<and> byte a < 224 then continuation b \<and> utf8_valid s2
        else case s2 of [] \<Rightarrow> False | c # s3 \<Rightarrow>
          if 224 \<le> byte a \<and> byte a < 240
          then continuation b \<and> (byte a = 224 \<longrightarrow> 160 \<le> byte b) \<and> (byte a = 237 \<longrightarrow> byte b < 160) \<and>
            continuation c \<and> utf8_valid s3
          else case s3 of [] \<Rightarrow> False | d # s4 \<Rightarrow>
            240 \<le> byte a \<and> byte a < 245 \<and> continuation b \<and> (byte a = 240 \<longrightarrow> 144 \<le> byte b) \<and>
              (byte a = 244 \<longrightarrow> byte b < 144) \<and> continuation c \<and> continuation d \<and> utf8_valid s4)"

definition pg_text :: "string \<Rightarrow> bool" where
  "pg_text s \<longleftrightarrow> CHR 0x00 \<notin> set s \<and> utf8_valid s"

definition ascii_text :: "string \<Rightarrow> bool" where
  "ascii_text s \<longleftrightarrow> list_all (\<lambda>c. 0 < byte c \<and> byte c < 128) s"

lemma ascii_utf8: "list_all (\<lambda>c. byte c < 128) s \<Longrightarrow> utf8_valid s"
  by (induction s) simp_all

lemma ascii_pg_text: "ascii_text s \<Longrightarrow> pg_text s"
  by (auto simp: ascii_text_def pg_text_def list_all_iff byte_def intro!: ascii_utf8)

lemma ascii_text_take: "ascii_text s \<Longrightarrow> ascii_text (take n s)"
  by (auto simp: ascii_text_def list_all_iff dest: in_set_takeD)

lemma TrimSpace_set: "set (TrimSpace s) \<subseteq> set s"
  using set_mono_suffix [OF trim_left_suffix [of s]] set_mono_prefix [OF trim_right_prefix [of "trim_left s"]]
  by (auto simp: TrimSpace_def)

lemma ascii_text_trim: "ascii_text s \<Longrightarrow> ascii_text (TrimSpace s)"
  using TrimSpace_set [of s] by (auto simp: ascii_text_def list_all_iff)

text \<open>The text of an error: the verbs of its format replaced by the arguments in order.\<close>

fun sprintf :: "string \<Rightarrow> fmt_arg list \<Rightarrow> string" where
  "sprintf [] args = []"
| "sprintf [c] args = [c]"
| "sprintf (c # v # rest) args =
     (case args of
        [] \<Rightarrow> c # sprintf (v # rest) []
      | a # as \<Rightarrow>
          if c = CHR 0x25 then (case a of S s \<Rightarrow> s | I i \<Rightarrow> itoa i) @ sprintf rest as
          else c # sprintf (v # rest) (a # as))"

fun message_text :: "message \<Rightarrow> string" where
  "message_text (Errorf f args) = sprintf f args"

end
