(* ===== verification/Outbox.thy ===== *)
theory Outbox
  imports AuditTrail AppErrors GoText
begin

text \<open>
  The transactional outbox (\<^verbatim>\<open>src/platform/outbox\<close>: outbox.go, seal.go, store.go): the table
  outbox_messages with the trigger that guards it, the queue a use case writes to, the seal of
  the payload column and the statements of the delivery loop's store.

  Instants are integers on one clock, in nanoseconds, and a statement reads NOW() once per
  transaction; Postgres keeps microseconds, of which the configured durations are multiples. A
  statement maps the table to a new one or to the error that rolls its transaction back.
\<close>

section \<open>Messages and rows\<close>

datatype status = Pending | Sent | Dead

definition ChannelEmail :: string where "ChannelEmail = ''email''"
definition maxErrorDetail :: nat where "maxErrorDetail = 500"
definition DefaultClaimLease :: int where "DefaultClaimLease = 2 * 60 * 1000000000"
definition DefaultRetention :: int where "DefaultRetention = 30 * 24 * 3600 * 1000000000"

text \<open>A RawMessage is the text of a jsonb value, or bytes a cipher gave.\<close>

datatype raw_message = Jsonb json | Bytes string

record outbox_message =
  om_ID :: string
  om_TenantID :: string
  om_Channel :: string
  om_Template :: string
  om_Recipient :: string
  om_Payload :: raw_message
  om_DedupeKey :: string
  om_Status :: status
  om_DueAt :: int
  om_NextAttemptAt :: int
  om_Attempts :: int
  om_CreatedBy :: string

text \<open>The row of the table: NULL is None.\<close>

record outbox_row =
  ob_ID :: string
  ob_Tenant :: string
  ob_Channel :: string
  ob_Template :: string
  ob_Recipient :: string
  ob_Payload :: json
  ob_DedupeKey :: "string option"
  ob_Status :: status
  ob_DueAt :: int
  ob_NextAttemptAt :: int
  ob_Attempts :: int
  ob_LastError :: "string option"
  ob_SentAt :: "int option"
  ob_FailedAt :: "int option"
  ob_CreatedAt :: int
  ob_UpdatedAt :: int
  ob_CreatedBy :: "string option"

definition row_message :: "outbox_row \<Rightarrow> outbox_message" where
  "row_message r =
     \<lparr>om_ID = ob_ID r, om_TenantID = ob_Tenant r, om_Channel = ob_Channel r, om_Template = ob_Template r,
      om_Recipient = ob_Recipient r, om_Payload = Jsonb (ob_Payload r),
      om_DedupeKey = (case ob_DedupeKey r of None \<Rightarrow> [] | Some k \<Rightarrow> k), om_Status = ob_Status r,
      om_DueAt = ob_DueAt r, om_NextAttemptAt = ob_NextAttemptAt r, om_Attempts = ob_Attempts r,
      om_CreatedBy = (case ob_CreatedBy r of None \<Rightarrow> [] | Some u \<Rightarrow> u)\<rparr>"

record new_message =
  nm_Channel :: string
  nm_Template :: string
  nm_Recipient :: string
  nm_Payload :: "(string \<times> json) list option"
  nm_DedupeKey :: string
  nm_DueAt :: "int option"

record receipt =
  rc_ID :: string
  rc_Deduplicated :: bool

record reason =
  rs_Class :: string
  rs_Detail :: string

definition reason_detail :: "reason \<Rightarrow> string" where
  "reason_detail r =
     (let d = TrimSpace (rs_Detail r);
          d' = (if d = [] then rs_Class r else d)
      in if length d' > maxErrorDetail then take maxErrorDetail d' else d')"

definition reason_class :: "reason \<Rightarrow> string" where
  "reason_class r = (if rs_Class r = [] then ''unclassified'' else rs_Class r)"

section \<open>The table's guards\<close>

definition cleared :: json where "cleared = JObj []"

text \<open>The CHECK constraints, with the types and widths of the columns.\<close>

definition opt_text :: "string option \<Rightarrow> bool" where
  "opt_text t = (case t of None \<Rightarrow> True | Some s \<Rightarrow> pg_text s)"

definition row_checks :: "outbox_row \<Rightarrow> bool" where
  "row_checks r \<longleftrightarrow>
     ob_Channel r = ''email'' \<and> rune_count (ob_Template r) \<le> 60 \<and> 0 \<le> ob_Attempts r \<and> ob_Attempts r \<le> 32767 \<and>
     pg_text (ob_Template r) \<and> pg_text (ob_Recipient r) \<and> opt_text (ob_DedupeKey r) \<and> opt_text (ob_LastError r) \<and>
     (case ob_Status r of
        Pending \<Rightarrow> ob_SentAt r = None \<and> ob_FailedAt r = None
      | Sent \<Rightarrow> ob_SentAt r \<noteq> None \<and> ob_FailedAt r = None
      | Dead \<Rightarrow> ob_SentAt r = None \<and> ob_FailedAt r \<noteq> None)"

text \<open>The trigger outbox_message_state_only: what an update may not do to a row.\<close>

definition state_only :: "outbox_row \<Rightarrow> outbox_row \<Rightarrow> message option" where
  "state_only old new =
     (let payload_cleared = (ob_Status new \<noteq> Pending \<and> ob_Payload new = cleared);
          dedupe_released = (ob_Status new = Dead \<and> ob_DedupeKey new = None)
      in if ob_Status old \<noteq> Pending then Some (text_msg ''ZT027: settled'')
         else if ob_Tenant new \<noteq> ob_Tenant old \<or> ob_Channel new \<noteq> ob_Channel old \<or>
              ob_Template new \<noteq> ob_Template old \<or> ob_Recipient new \<noteq> ob_Recipient old \<or>
              (ob_Payload new \<noteq> ob_Payload old \<and> \<not> payload_cleared) \<or>
              (ob_DedupeKey new \<noteq> ob_DedupeKey old \<and> \<not> dedupe_released) \<or>
              ob_DueAt new \<noteq> ob_DueAt old \<or> ob_CreatedAt new \<noteq> ob_CreatedAt old \<or>
              ob_CreatedBy new \<noteq> ob_CreatedBy old
         then Some (text_msg ''ZT027: only delivery state'')
         else None)"

text \<open>UPDATE ... SET f WHERE P.\<close>

definition update_row :: "(outbox_row \<Rightarrow> bool) \<Rightarrow> (outbox_row \<Rightarrow> outbox_row) \<Rightarrow> outbox_row \<Rightarrow> outbox_row fallible" where
  "update_row P f r =
     (if \<not> P r then Inr r
      else case state_only r (f r) of
          Some e \<Rightarrow> Inl e
        | None \<Rightarrow> if row_checks (f r) then Inr (f r) else Inl (text_msg ''violates check constraint''))"

definition update_rows ::
  "(outbox_row \<Rightarrow> bool) \<Rightarrow> (outbox_row \<Rightarrow> outbox_row) \<Rightarrow> outbox_row list \<Rightarrow> outbox_row list fallible" where
  "update_rows P f = traverse (update_row P f)"

section \<open>The seal\<close>

text \<open>A key with \<^verbatim>\<open>crypto.Encrypt\<close> and \<^verbatim>\<open>crypto.Decrypt\<close> under it; None is the nil seal.\<close>

record seal =
  sl_Encrypt :: "string \<Rightarrow> string fallible"
  sl_Decrypt :: "string \<Rightarrow> string fallible"

definition sealVersion :: int where "sealVersion = 1"

definition envelope_json :: "int \<Rightarrow> string \<Rightarrow> json" where
  "envelope_json v c = JObj [(''enc'', JStr c), (''encV'', JNum (Dec v 0))]"

definition seal_Seal :: "seal option \<Rightarrow> json \<Rightarrow> json fallible" where
  "seal_Seal s payload =
     (case s of None \<Rightarrow> Inr payload
      | Some k \<Rightarrow>
          (case sl_Encrypt k (marshal payload) of
             Inl e \<Rightarrow> Inl (Errorf ''outbox: seal payload: %w'' [S (message_text e)])
           | Inr c \<Rightarrow> Inr (envelope_json sealVersion c)))"

text \<open>
  \<^verbatim>\<open>json.Unmarshal\<close> into the envelope: keys match without regard to case, a null leaves its
  field alone, a value of another type is an error once all is read. Only values of the column
  are ever opened; bytes a cipher gave are not looked at again.
\<close>

fun envelope_entry :: "string \<times> json \<Rightarrow> (int \<times> string) \<times> bool \<Rightarrow> (int \<times> string) \<times> bool" where
  "envelope_entry (k, v) ((encV, enc), ok) =
     (if v = JNull then ((encV, enc), ok)
      else if ascii_lower_text k = ''encv'' then
        (case v of JNum (Dec m 0) \<Rightarrow> if - (2 ^ 63) \<le> m \<and> m < 2 ^ 63 then ((m, enc), ok) else ((encV, enc), False)
         | _ \<Rightarrow> ((encV, enc), False))
      else if ascii_lower_text k = ''enc'' then
        (case v of JStr s \<Rightarrow> ((encV, s), ok) | _ \<Rightarrow> ((encV, enc), False))
      else ((encV, enc), ok))"

definition parseEnvelope :: "raw_message \<Rightarrow> (int \<times> string) \<times> bool" where
  "parseEnvelope p =
     (case p of
        Jsonb JNull \<Rightarrow> ((0, []), False)
      | Jsonb (JObj kvs) \<Rightarrow>
          (case fold envelope_entry kvs ((0, []), True) of
             (env, ok) \<Rightarrow> if ok then (env, snd env \<noteq> []) else ((0, []), False))
      | _ \<Rightarrow> ((0, []), False))"

definition IsSealed :: "raw_message \<Rightarrow> bool" where
  "IsSealed p = snd (parseEnvelope p)"

definition seal_Open :: "seal option \<Rightarrow> raw_message \<Rightarrow> raw_message fallible" where
  "seal_Open s p =
     (case parseEnvelope p of ((encV, enc), is_sealed) \<Rightarrow>
        if \<not> is_sealed then Inr p
        else case s of
            None \<Rightarrow> Inl (text_msg ''outbox: payload is sealed but no encryption key is configured'')
          | Some k \<Rightarrow>
              if encV \<noteq> sealVersion
              then Inl (Errorf ''outbox: sealed payload is version %d, this build reads %d'' [I encV, I sealVersion])
              else (case sl_Decrypt k enc of
                  Inl e \<Rightarrow> Inl (Errorf ''outbox: open sealed payload: %w'' [S (message_text e)])
                | Inr plain \<Rightarrow> Inr (Bytes plain)))"

section \<open>The queue\<close>

text \<open>\<^verbatim>\<open>json.Marshal\<close> refuses a number that is not finite.\<close>

fun encodable :: "json \<Rightarrow> bool" where
  "encodable (JNum n) \<longleftrightarrow> finite_float n"
| "encodable (JArr vs) \<longleftrightarrow> list_all encodable vs"
| "encodable (JObj kvs) \<longleftrightarrow> list_all (\<lambda>kv. encodable (snd kv)) kvs"
| "encodable _ \<longleftrightarrow> True"

definition same_key :: "string \<Rightarrow> string \<Rightarrow> outbox_row \<Rightarrow> bool" where
  "same_key tenant k r \<longleftrightarrow> ob_Tenant r = tenant \<and> ob_DedupeKey r = Some k"

text \<open>
  INSERT ... ON CONFLICT (tenant_id, dedupe_key) DO NOTHING RETURNING id: None is no row. The
  tenant and the actor are settings of the transaction, an empty one being NULL.
\<close>

definition outbox_insert :: "outbox_row \<Rightarrow> outbox_row list \<Rightarrow> (string option \<times> outbox_row list) fallible" where
  "outbox_insert r rows =
     (if ob_Tenant r = [] then Inl (text_msg ''null value in column tenant_id'')
      else if \<not> row_checks r then Inl (text_msg ''violates check constraint'')
      else if (\<exists>k. ob_DedupeKey r = Some k \<and> list_ex (same_key (ob_Tenant r) k) rows) then Inr (None, rows)
      else Inr (Some (ob_ID r), rows @ [r]))"

lemma outbox_insert_code [code]:
  "outbox_insert r rows =
     (if ob_Tenant r = [] then Inl (text_msg ''null value in column tenant_id'')
      else if \<not> row_checks r then Inl (text_msg ''violates check constraint'')
      else if (case ob_DedupeKey r of None \<Rightarrow> False | Some k \<Rightarrow> list_ex (same_key (ob_Tenant r) k) rows) then Inr (None, rows)
      else Inr (Some (ob_ID r), rows @ [r]))"
  by (simp add: outbox_insert_def split: option.split)

record queue_env =
  qe_Tenant :: string
  qe_User :: string
  qe_Now :: int
  qe_NewID :: string
  qe_Seal :: "seal option"

definition new_row :: "queue_env \<Rightarrow> new_message \<Rightarrow> string \<Rightarrow> json \<Rightarrow> outbox_row" where
  "new_row env m channel payload =
     (let key = TrimSpace (nm_DedupeKey m);
          due = (case nm_DueAt m of None \<Rightarrow> qe_Now env | Some t \<Rightarrow> t)
      in \<lparr>ob_ID = qe_NewID env, ob_Tenant = qe_Tenant env, ob_Channel = channel, ob_Template = nm_Template m,
          ob_Recipient = nm_Recipient m, ob_Payload = payload,
          ob_DedupeKey = (if key = [] then None else Some key), ob_Status = Pending,
          ob_DueAt = due, ob_NextAttemptAt = due, ob_Attempts = 0, ob_LastError = None,
          ob_SentAt = None, ob_FailedAt = None, ob_CreatedAt = qe_Now env, ob_UpdatedAt = qe_Now env,
          ob_CreatedBy = (if qe_User env = [] then None else Some (qe_User env))\<rparr>)"

definition Enqueue :: "queue_env \<Rightarrow> new_message \<Rightarrow> outbox_row list \<Rightarrow> (receipt \<times> outbox_row list) app" where
  "Enqueue env m rows =
     (let channel = (if nm_Channel m = [] then ChannelEmail else nm_Channel m);
          payload = JObj (case nm_Payload m of None \<Rightarrow> [] | Some p \<Rightarrow> p)
      in if channel \<noteq> ChannelEmail then Inl (ValidationError (Errorf ''outbox: unsupported channel '' [S channel]))
         else if blank (nm_Template m) then Inl (NewValidation ''outbox: message needs a template'')
         else if blank (nm_Recipient m) then Inl (NewValidation ''outbox: message needs a recipient'')
         else if \<not> encodable payload then Inl (Internal (text_msg ''outbox: encode payload''))
         else case seal_Seal (qe_Seal env) payload of
             Inl e \<Rightarrow> Inl (Internal e)
           | Inr column \<Rightarrow>
               let r = new_row env m channel column in
               (case outbox_insert r rows of
                  Inl e \<Rightarrow> Inl (Internal e)
                | Inr (Some i, rows') \<Rightarrow> Inr (\<lparr>rc_ID = i, rc_Deduplicated = False\<rparr>, rows')
                | Inr (None, _) \<Rightarrow>
                    (case ob_DedupeKey r of
                       None \<Rightarrow> Inl (Internal (text_msg ''outbox: enqueue''))
                     | Some k \<Rightarrow>
                         (case find (same_key (qe_Tenant env) k) rows of
                            None \<Rightarrow> Inl (Internal (text_msg ''outbox: resolve deduplicated message''))
                          | Some r' \<Rightarrow> Inr (\<lparr>rc_ID = ob_ID r', rc_Deduplicated = True\<rparr>, rows)))))"

section \<open>The store\<close>

text \<open>
  The claim: the oldest due messages that no other transaction holds (SKIP LOCKED), leased and
  charged an attempt. The rows come back in table order; the statement leaves the order open.
\<close>

definition due :: "int \<Rightarrow> outbox_row \<Rightarrow> bool" where
  "due now r \<longleftrightarrow> ob_Status r = Pending \<and> ob_NextAttemptAt r \<le> now"

definition claimable :: "(string \<Rightarrow> bool) \<Rightarrow> int \<Rightarrow> int \<Rightarrow> outbox_row list \<Rightarrow> string list" where
  "claimable locked limit now rows =
     map ob_ID (take (nat limit) (sort_key ob_NextAttemptAt (sort_key ob_ID
       (filter (\<lambda>r. due now r \<and> \<not> locked (ob_ID r)) rows))))"

definition charge :: "int \<Rightarrow> int \<Rightarrow> outbox_row \<Rightarrow> outbox_row" where
  "charge now lease r = r\<lparr>ob_Attempts := ob_Attempts r + 1, ob_NextAttemptAt := now + lease, ob_UpdatedAt := now\<rparr>"

definition ClaimDue ::
  "(string \<Rightarrow> bool) \<Rightarrow> int \<Rightarrow> int \<Rightarrow> int \<Rightarrow> outbox_row list \<Rightarrow> (outbox_message list \<times> outbox_row list) fallible" where
  "ClaimDue locked now limit lease0 rows =
     (if limit \<le> 0 then Inr ([], rows)
      else let lease = (if lease0 \<le> 0 then DefaultClaimLease else lease0);
               ids = claimable locked limit now rows
           in case update_rows (\<lambda>r. ob_ID r \<in> set ids) (charge now lease) rows of
                Inl e \<Rightarrow> Inl e
              | Inr rows' \<Rightarrow> Inr (map row_message (filter (\<lambda>r. ob_ID r \<in> set ids) rows'), rows'))"

definition unclaim :: "int \<Rightarrow> outbox_row \<Rightarrow> outbox_row" where
  "unclaim now r = r\<lparr>ob_NextAttemptAt := ob_DueAt r, ob_Attempts := max (ob_Attempts r - 1) 0, ob_UpdatedAt := now\<rparr>"

definition claimed_by :: "outbox_message list \<Rightarrow> outbox_row \<Rightarrow> bool" where
  "claimed_by msgs r \<longleftrightarrow>
     ob_Status r = Pending \<and> (\<exists>m \<in> set msgs. om_ID m = ob_ID r \<and> om_Attempts m = ob_Attempts r)"

definition ReleaseClaim :: "int \<Rightarrow> outbox_message list \<Rightarrow> outbox_row list \<Rightarrow> outbox_row list fallible" where
  "ReleaseClaim now msgs rows =
     (if msgs = [] then Inr rows else update_rows (claimed_by msgs) (unclaim now) rows)"

definition pending_row :: "string \<Rightarrow> outbox_row \<Rightarrow> bool" where
  "pending_row i r \<longleftrightarrow> ob_ID r = i \<and> ob_Status r = Pending"

definition MarkSent :: "int \<Rightarrow> outbox_message \<Rightarrow> outbox_row list \<Rightarrow> outbox_row list fallible" where
  "MarkSent now m =
     update_rows (pending_row (om_ID m))
       (\<lambda>r. r\<lparr>ob_Status := Sent, ob_SentAt := Some now, ob_LastError := None, ob_Payload := cleared, ob_UpdatedAt := now\<rparr>)"

definition Reschedule :: "int \<Rightarrow> outbox_message \<Rightarrow> int \<Rightarrow> reason \<Rightarrow> outbox_row list \<Rightarrow> outbox_row list fallible" where
  "Reschedule now m at r =
     update_rows (pending_row (om_ID m))
       (\<lambda>row. row\<lparr>ob_NextAttemptAt := at, ob_LastError := Some (reason_detail r), ob_UpdatedAt := now\<rparr>)"

text \<open>The policies of the transaction decide which rows settleDead sees.\<close>

definition settleDead ::
  "(outbox_row \<Rightarrow> bool) \<Rightarrow> int \<Rightarrow> outbox_message \<Rightarrow> reason \<Rightarrow> outbox_row list \<Rightarrow> outbox_row list fallible" where
  "settleDead visible now m r =
     update_rows (\<lambda>row. visible row \<and> pending_row (om_ID m) row)
       (\<lambda>row. row\<lparr>ob_Status := Dead, ob_FailedAt := Some now, ob_LastError := Some (reason_detail r),
          ob_Payload := cleared, ob_DedupeKey := None, ob_UpdatedAt := now\<rparr>)"

text \<open>The database as the delivery loop sees it, and the store's own configuration.\<close>

record outbox_db =
  od_Rows :: "outbox_row list"
  od_Chain :: "string \<Rightarrow> audit_entry list"

record outbox_store =
  st_Audit :: bool
  st_SystemActor :: string
  st_Sha :: "string \<Rightarrow> string"
  st_RequestID :: string
  st_NewUUID :: "outbox_db \<Rightarrow> string"

definition on_rows :: "(outbox_row list \<Rightarrow> outbox_row list fallible) \<Rightarrow> outbox_db \<Rightarrow> outbox_db fallible" where
  "on_rows f d = (case f (od_Rows d) of Inl e \<Rightarrow> Inl e | Inr rows \<Rightarrow> Inr (d\<lparr>od_Rows := rows\<rparr>))"

definition dead_details :: "outbox_message \<Rightarrow> reason \<Rightarrow> json" where
  "dead_details m r =
     JObj [(''attempts'', JNum (Dec (om_Attempts m) 0)), (''channel'', JStr (om_Channel m)),
           (''reason'', JStr (reason_class r)), (''template'', JStr (om_Template m))]"

definition MarkDead :: "outbox_store \<Rightarrow> int \<Rightarrow> outbox_message \<Rightarrow> reason \<Rightarrow> outbox_db \<Rightarrow> outbox_db fallible" where
  "MarkDead st now m r d =
     (let actor = (if om_CreatedBy m = [] then st_SystemActor st else om_CreatedBy m);
          tenant = om_TenantID m
      in if \<not> st_Audit st \<or> actor = [] \<or> tenant = [] then on_rows (settleDead (\<lambda>_. True) now m r) d
         else case settleDead (\<lambda>row. ob_Tenant row = tenant) now m r (od_Rows d) of
             Inl e \<Rightarrow> Inl e
           | Inr rows \<Rightarrow>
               (let ctx = \<lparr>ac_Tenant = tenant,
                     ac_Requester = Some \<lparr>rq_Kind = RequesterUser, rq_ID = actor, rq_CredentialID = [],
                       rq_CredentialKind = [], rq_ServiceAccount = False\<rparr>,
                     ac_RequestID = st_RequestID st, ac_Now = now, ac_NewUUID = st_NewUUID st d\<rparr>
                in case audit_Record (st_Sha st) ctx ''notification.undeliverable'' ''outbox_message'' (om_ID m)
                        (Some (dead_details m r)) (od_Chain d tenant) of
                     Inl e \<Rightarrow> Inl e
                   | Inr chain \<Rightarrow> Inr (d\<lparr>od_Rows := rows, od_Chain := (od_Chain d)(tenant := chain)\<rparr>)))"

text \<open>The runner's DELETE policy sees settled rows only.\<close>

definition prunable :: "int \<Rightarrow> int \<Rightarrow> outbox_row \<Rightarrow> bool" where
  "prunable now olderThan r \<longleftrightarrow> ob_Status r \<noteq> Pending \<and> ob_UpdatedAt r < now - olderThan"

definition Prune :: "int \<Rightarrow> int \<Rightarrow> outbox_row list \<Rightarrow> int \<times> outbox_row list" where
  "Prune now olderThan0 rows =
     (let olderThan = (if olderThan0 \<le> 0 then DefaultRetention else olderThan0);
          kept = filter (\<lambda>r. \<not> prunable now olderThan r) rows
      in (int (length rows) - int (length kept), kept))"

section \<open>Updates\<close>

lemma update_rows_Inr:
  "update_rows P f rows = Inr rows' \<longleftrightarrow>
     (\<forall>r \<in> set rows. P r \<longrightarrow> state_only r (f r) = None \<and> row_checks (f r)) \<and>
     rows' = map (\<lambda>r. if P r then f r else r) rows"
proof -
  have "update_row P f r = Inr r' \<longleftrightarrow>
      (P r \<longrightarrow> state_only r (f r) = None \<and> row_checks (f r)) \<and> r' = (if P r then f r else r)" for r r'
    by (auto simp: update_row_def split: option.split)
  note row = this
  show ?thesis
  proof (induction rows arbitrary: rows')
    case (Cons r rows)
    have "update_rows P f (r # rows) = Inr rows' \<longleftrightarrow>
        (\<exists>r' rest. rows' = r' # rest \<and> update_row P f r = Inr r' \<and> update_rows P f rows = Inr rest)"
      by (auto simp: update_rows_def split: sum.split)
    then show ?case by (simp add: row Cons.IH) blast
  qed (auto simp: update_rows_def)
qed

text \<open>What no update touches: the address, and the content of a message that is still owed.\<close>

definition frozen :: "outbox_row \<Rightarrow> outbox_row \<Rightarrow> bool" where
  "frozen r r' \<longleftrightarrow>
     ob_ID r' = ob_ID r \<and> ob_Tenant r' = ob_Tenant r \<and> ob_Channel r' = ob_Channel r \<and>
     ob_Template r' = ob_Template r \<and> ob_Recipient r' = ob_Recipient r \<and> ob_DueAt r' = ob_DueAt r \<and>
     ob_CreatedAt r' = ob_CreatedAt r \<and> ob_CreatedBy r' = ob_CreatedBy r \<and>
     (ob_Status r' = Pending \<longrightarrow> ob_Payload r' = ob_Payload r) \<and>
     (ob_Status r' \<noteq> Dead \<longrightarrow> ob_DedupeKey r' = ob_DedupeKey r) \<and>
     (ob_Status r' = Dead \<longrightarrow> ob_DedupeKey r' = ob_DedupeKey r \<or> ob_DedupeKey r' = None)"

text \<open>
  The invariant of the table: ids are unique, the constraints hold, a settled row has lost its
  content, a dead one its key as well, and a key names one row of its tenant.
\<close>

definition settled_cleared :: "outbox_row \<Rightarrow> bool" where
  "settled_cleared r \<longleftrightarrow>
     (ob_Status r \<noteq> Pending \<longrightarrow> ob_Payload r = cleared) \<and> (ob_Status r = Dead \<longrightarrow> ob_DedupeKey r = None)"

definition keys_unique :: "outbox_row list \<Rightarrow> bool" where
  "keys_unique rows \<longleftrightarrow> (\<forall>r \<in> set rows. \<forall>r' \<in> set rows.
     ob_DedupeKey r \<noteq> None \<and> ob_DedupeKey r' = ob_DedupeKey r \<and> ob_Tenant r' = ob_Tenant r \<longrightarrow> ob_ID r' = ob_ID r)"

definition outbox_ok :: "outbox_row list \<Rightarrow> bool" where
  "outbox_ok rows \<longleftrightarrow> distinct (map ob_ID rows) \<and> keys_unique rows \<and>
     (\<forall>r \<in> set rows. row_checks r \<and> settled_cleared r)"

text \<open>An update of pending rows that settles by clearing keeps all of it.\<close>

lemma state_only_None:
  "state_only r r' = None \<longleftrightarrow> ob_Status r = Pending \<and> ob_Tenant r' = ob_Tenant r \<and> ob_Channel r' = ob_Channel r \<and>
     ob_Template r' = ob_Template r \<and> ob_Recipient r' = ob_Recipient r \<and>
     (ob_Payload r' = ob_Payload r \<or> ob_Status r' \<noteq> Pending \<and> ob_Payload r' = cleared) \<and>
     (ob_DedupeKey r' = ob_DedupeKey r \<or> ob_Status r' = Dead \<and> ob_DedupeKey r' = None) \<and>
     ob_DueAt r' = ob_DueAt r \<and> ob_CreatedAt r' = ob_CreatedAt r \<and> ob_CreatedBy r' = ob_CreatedBy r"
  by (auto simp: state_only_def Let_def)

lemma state_only_frozen: "state_only r r' = None \<Longrightarrow> ob_ID r' = ob_ID r \<Longrightarrow> frozen r r'"
  by (auto simp: state_only_None frozen_def)

definition clears :: "(outbox_row \<Rightarrow> outbox_row) \<Rightarrow> bool" where
  "clears f \<longleftrightarrow> (\<forall>r. ob_ID (f r) = ob_ID r \<and> (ob_Status r = Pending \<longrightarrow> settled_cleared (f r)))"

lemma keys_unique_map:
  assumes "keys_unique rows" "\<And>r. ob_ID (g r) = ob_ID r"
    "\<And>r. r \<in> set rows \<Longrightarrow> ob_Tenant (g r) = ob_Tenant r \<and> (ob_DedupeKey (g r) \<noteq> None \<longrightarrow> ob_DedupeKey (g r) = ob_DedupeKey r)"
  shows "keys_unique (map g rows)"
  unfolding keys_unique_def
proof (intro ballI impI)
  fix x y assume "x \<in> set (map g rows)" "y \<in> set (map g rows)"
    and k: "ob_DedupeKey x \<noteq> None \<and> ob_DedupeKey y = ob_DedupeKey x \<and> ob_Tenant y = ob_Tenant x"
  then obtain r s where r: "r \<in> set rows" "x = g r" and s: "s \<in> set rows" "y = g s" by auto
  from k have kx: "ob_DedupeKey x \<noteq> None" "ob_DedupeKey y \<noteq> None" by simp_all
  have rx: "ob_DedupeKey x = ob_DedupeKey r" "ob_Tenant x = ob_Tenant r"
    using kx(1) assms(3) [OF r(1)] unfolding r(2) by simp_all
  have sy: "ob_DedupeKey y = ob_DedupeKey s" "ob_Tenant y = ob_Tenant s"
    using kx(2) assms(3) [OF s(1)] unfolding s(2) by simp_all
  have "ob_DedupeKey r \<noteq> None \<and> ob_DedupeKey s = ob_DedupeKey r \<and> ob_Tenant s = ob_Tenant r"
    using k unfolding rx sy .
  then have "ob_ID s = ob_ID r" using assms(1) r(1) s(1) unfolding keys_unique_def by blast
  then show "ob_ID y = ob_ID x" using assms(2) r(2) s(2) by simp
qed

lemma update_ok:
  assumes u: "update_rows P f rows = Inr rows'" and c: "clears f" and ok: "outbox_ok rows"
  shows "outbox_ok rows' \<and> (\<forall>r \<in> set rows. \<exists>r' \<in> set rows'. ob_ID r' = ob_ID r \<and>
    (if ob_Status r = Pending then frozen r r' else r' = r)) \<and> length rows' = length rows"
proof -
  let ?g = "\<lambda>r. if P r then f r else r"
  have rows': "rows' = map ?g rows" and so: "\<And>r. r \<in> set rows \<Longrightarrow> P r \<Longrightarrow> state_only r (f r) = None \<and> row_checks (f r)"
    using u by (auto simp: update_rows_Inr)
  have ids: "ob_ID (?g r) = ob_ID r" for r using c by (simp add: clears_def)
  have pend: "ob_Status r = Pending" if "r \<in> set rows" "P r" for r
    using so [OF that] by (simp add: state_only_None)
  have fr: "if ob_Status r = Pending then frozen r (?g r) else ?g r = r" if "r \<in> set rows" for r
  proof (cases "P r")
    case True
    then show ?thesis using so [OF that True] pend [OF that True] state_only_frozen [of r "f r"] ids [of r] by simp
  qed (simp add: frozen_def)
  have keys: "keys_unique rows'"
    unfolding rows'
  proof (rule keys_unique_map)
    show "keys_unique rows" using ok by (simp add: outbox_ok_def)
    show "ob_Tenant (?g r) = ob_Tenant r \<and> (ob_DedupeKey (?g r) \<noteq> None \<longrightarrow> ob_DedupeKey (?g r) = ob_DedupeKey r)"
      if "r \<in> set rows" for r
    proof (cases "P r")
      case True
      from so [OF that True] have s: "ob_Tenant (f r) = ob_Tenant r"
        "ob_DedupeKey (f r) = ob_DedupeKey r \<or> ob_DedupeKey (f r) = None" by (auto simp: state_only_None)
      then show ?thesis using True by auto
    qed simp
  qed (rule ids)
  have checks: "row_checks (?g r) \<and> settled_cleared (?g r)" if "r \<in> set rows" for r
  proof (cases "P r")
    case True
    then show ?thesis using so [OF that True] pend [OF that True] c by (simp add: clears_def)
  next
    case False
    then show ?thesis using ok that by (simp add: outbox_ok_def)
  qed
  have "distinct (map ob_ID rows')" using ok by (simp add: rows' ids comp_def outbox_ok_def cong: map_cong)
  moreover have "\<forall>r \<in> set rows'. row_checks r \<and> settled_cleared r" using checks unfolding rows' set_map by blast
  ultimately have "outbox_ok rows'" using keys by (simp add: outbox_ok_def)
  moreover have "\<exists>r' \<in> set rows'. ob_ID r' = ob_ID r \<and> (if ob_Status r = Pending then frozen r r' else r' = r)"
    if "r \<in> set rows" for r
    using that fr [OF that] ids [of r] unfolding rows' by (intro bexI [of _ "?g r"]) simp_all
  ultimately show ?thesis by (simp add: rows')
qed

lemma clears_ops [wf_intros]:
  "clears (charge now lease)" "clears (unclaim now)"
  "clears (\<lambda>r. r\<lparr>ob_Status := Sent, ob_SentAt := Some now, ob_LastError := None, ob_Payload := cleared, ob_UpdatedAt := now\<rparr>)"
  "clears (\<lambda>row. row\<lparr>ob_NextAttemptAt := at, ob_LastError := e, ob_UpdatedAt := now\<rparr>)"
  "clears (\<lambda>row. row\<lparr>ob_Status := Dead, ob_FailedAt := Some now, ob_LastError := e,
     ob_Payload := cleared, ob_DedupeKey := None, ob_UpdatedAt := now\<rparr>)"
  by (simp_all add: clears_def settled_cleared_def charge_def unclaim_def)

section \<open>The life of a message\<close>

text \<open>One statement on the table: a use case queues, or the runner claims, settles or prunes.\<close>

inductive outbox_step :: "outbox_row list \<Rightarrow> outbox_row list \<Rightarrow> bool" where
  enqueue: "Enqueue env m rows = Inr (rc, rows') \<Longrightarrow> qe_NewID env \<notin> ob_ID ` set rows \<Longrightarrow> outbox_step rows rows'"
| claim: "ClaimDue locked now limit lease rows = Inr (msgs, rows') \<Longrightarrow> outbox_step rows rows'"
| release: "ReleaseClaim now msgs rows = Inr rows' \<Longrightarrow> outbox_step rows rows'"
| sent: "MarkSent now m rows = Inr rows' \<Longrightarrow> outbox_step rows rows'"
| reschedule: "Reschedule now m at r rows = Inr rows' \<Longrightarrow> outbox_step rows rows'"
| dead: "settleDead visible now m r rows = Inr rows' \<Longrightarrow> outbox_step rows rows'"
| prune: "Prune now olderThan rows = (removed, rows') \<Longrightarrow> outbox_step rows rows'"

text \<open>What a step may do to the rows that are there: nothing to a settled one but prune it.\<close>

definition lives_on :: "outbox_row list \<Rightarrow> outbox_row list \<Rightarrow> bool" where
  "lives_on rows rows' \<longleftrightarrow> (\<forall>r \<in> set rows.
     if ob_Status r = Pending then \<exists>r' \<in> set rows'. frozen r r'
     else r \<in> set rows' \<or> ob_ID r \<notin> ob_ID ` set rows')"

lemma frozen_refl: "frozen r r"
  by (simp add: frozen_def)

lemma lives_on_refl: "set rows \<subseteq> set rows' \<Longrightarrow> lives_on rows rows'"
  using frozen_refl by (auto simp: lives_on_def)

lemma update_lives_on:
  assumes "update_rows P f rows = Inr rows'" "clears f" "outbox_ok rows"
  shows "outbox_ok rows' \<and> lives_on rows rows'"
  using update_ok [OF assms] unfolding lives_on_def by (metis (full_types))

lemma Enqueue_cases:
  assumes "Enqueue env m rows = Inr (rc, rows')"
  obtains (old) r' where "rows' = rows" "rc_Deduplicated rc" "r' \<in> set rows" "ob_ID r' = rc_ID rc"
      "ob_Tenant r' = qe_Tenant env" "ob_DedupeKey r' = Some (TrimSpace (nm_DedupeKey m))" "TrimSpace (nm_DedupeKey m) \<noteq> []"
  | (new) r where "rows' = rows @ [r]" "\<not> rc_Deduplicated rc" "rc_ID rc = qe_NewID env" "row_checks r" "ob_ID r = qe_NewID env"
      "ob_Tenant r = qe_Tenant env" "ob_Status r = Pending"
      "ob_DedupeKey r = (if TrimSpace (nm_DedupeKey m) = [] then None else Some (TrimSpace (nm_DedupeKey m)))"
      "ob_DedupeKey r \<noteq> None \<Longrightarrow> (\<forall>x \<in> set rows. \<not> same_key (ob_Tenant r) (the (ob_DedupeKey r)) x)"
proof -
  let ?payload = "JObj (case nm_Payload m of None \<Rightarrow> [] | Some p \<Rightarrow> p)"
  let ?ch = "if nm_Channel m = [] then ChannelEmail else nm_Channel m"
  obtain column where "seal_Seal (qe_Seal env) ?payload = Inr column"
    using assms by (cases "seal_Seal (qe_Seal env) ?payload") (simp_all add: Enqueue_def Let_def split: if_splits)
  note E = assms [unfolded Enqueue_def Let_def this, simplified]
  define r where "r = new_row env m ?ch column"
  have key: "ob_DedupeKey r = (if TrimSpace (nm_DedupeKey m) = [] then None else Some (TrimSpace (nm_DedupeKey m)))"
    "ob_ID r = qe_NewID env" "ob_Tenant r = qe_Tenant env" "ob_Status r = Pending"
    by (simp_all add: r_def new_row_def Let_def)
  obtain i rows1 where ins: "outbox_insert r rows = Inr (i, rows1)"
    using E by (cases "outbox_insert r rows") (auto simp: r_def split: if_splits)
  show thesis
  proof (cases i)
    case None
    with ins have k: "\<exists>k. ob_DedupeKey r = Some k" by (auto simp: outbox_insert_def split: if_splits)
    then have k: "ob_DedupeKey r = Some (TrimSpace (nm_DedupeKey m))" "TrimSpace (nm_DedupeKey m) \<noteq> []"
      using key(1) by (auto split: if_splits)
    obtain r' where f: "find (same_key (qe_Tenant env) (TrimSpace (nm_DedupeKey m))) rows = Some r'"
      using E ins None k(1) by (cases "find (same_key (qe_Tenant env) (TrimSpace (nm_DedupeKey m))) rows") (auto simp: r_def split: if_splits)
    have "rows' = rows" "rc = \<lparr>rc_ID = ob_ID r', rc_Deduplicated = True\<rparr>"
      using E ins None k(1) f by (auto simp: r_def split: if_splits)
    then show thesis using f k(2) by (intro old [of r']) (auto simp: find_Some_iff same_key_def)
  next
    case (Some j)
    with ins have *: "j = ob_ID r" "rows1 = rows @ [r]" "row_checks r"
      "\<not> (\<exists>k. ob_DedupeKey r = Some k \<and> list_ex (same_key (ob_Tenant r) k) rows)"
      by (auto simp: outbox_insert_def split: if_splits)
    moreover have "rows' = rows1" "rc = \<lparr>rc_ID = j, rc_Deduplicated = False\<rparr>"
      using E ins Some by (auto simp: r_def split: if_splits)
    ultimately show thesis using key by (intro new [of r]) (auto simp: list_ex_iff)
  qed
qed

lemma keys_unique_snoc:
  assumes "keys_unique rows" "ob_DedupeKey r \<noteq> None \<Longrightarrow> \<forall>x \<in> set rows. \<not> same_key (ob_Tenant r) (the (ob_DedupeKey r)) x"
  shows "keys_unique (rows @ [r])"
  unfolding keys_unique_def
proof (intro ballI impI)
  fix x y assume xy: "x \<in> set (rows @ [r])" "y \<in> set (rows @ [r])"
    and k: "ob_DedupeKey x \<noteq> None \<and> ob_DedupeKey y = ob_DedupeKey x \<and> ob_Tenant y = ob_Tenant x"
  have clash: False if "ob_DedupeKey r \<noteq> None" "z \<in> set rows" "ob_DedupeKey z = ob_DedupeKey r" "ob_Tenant z = ob_Tenant r" for z
  proof -
    note t = that
    obtain k where "ob_DedupeKey r = Some k" using t(1) by auto
    then show False using assms(2) [OF t(1)] t(2,3,4) by (simp add: same_key_def)
  qed
  consider "x \<in> set rows" "y \<in> set rows" | "x = r" "y = r" | "x \<in> set rows" "y = r" | "x = r" "y \<in> set rows"
    using xy by auto
  then show "ob_ID y = ob_ID x"
  proof cases
    case 1
    then show ?thesis using assms(1) k unfolding keys_unique_def by blast
  next
    case 3
    from k have "ob_DedupeKey y \<noteq> None" "ob_DedupeKey x = ob_DedupeKey y" "ob_Tenant x = ob_Tenant y" by simp_all
    then show ?thesis using clash [OF _ 3(1)] unfolding 3(2) by blast
  next
    case 4
    from k have "ob_DedupeKey x \<noteq> None" "ob_DedupeKey y = ob_DedupeKey x" "ob_Tenant y = ob_Tenant x" by simp_all
    then show ?thesis using clash [OF _ 4(2)] unfolding 4(1) by blast
  qed simp
qed

lemma Enqueue_ok:
  assumes "Enqueue env m rows = Inr (rc, rows')" "qe_NewID env \<notin> ob_ID ` set rows" "outbox_ok rows"
  shows "outbox_ok rows' \<and> set rows \<subseteq> set rows'"
  using assms(1)
proof (cases rule: Enqueue_cases)
  case (new r)
  have "keys_unique rows'"
    unfolding new(1) by (rule keys_unique_snoc [OF _ new(9)]) (use assms(3) in \<open>auto simp: outbox_ok_def\<close>)
  moreover have "settled_cleared r" using new by (simp add: settled_cleared_def)
  moreover have "distinct (map ob_ID rows')" using assms(2,3) new(1,5) by (simp add: outbox_ok_def)
  ultimately show ?thesis using assms(3) new(1,4) by (auto simp: outbox_ok_def)
qed (use assms(3) in simp)

lemma outbox_step_ok:
  assumes "outbox_step rows rows'" "outbox_ok rows"
  shows "outbox_ok rows' \<and> lives_on rows rows'"
  using assms
proof (cases rule: outbox_step.cases)
  case (enqueue env m rc)
  then show ?thesis using Enqueue_ok assms(2) lives_on_refl by blast
next
  case (claim locked now limit lease msgs)
  show ?thesis
  proof (cases "limit \<le> 0")
    case True
    with claim assms(2) show ?thesis by (simp add: ClaimDue_def lives_on_refl)
  next
    case False
    then obtain P lease' where "update_rows P (charge now lease') rows = Inr rows'"
      using claim by (auto simp: ClaimDue_def Let_def split: sum.splits)
    then show ?thesis by (rule update_lives_on) (rule clears_ops, rule assms)
  qed
next
  case (release now msgs)
  then show ?thesis
    using assms(2) update_lives_on clears_ops(2) by (auto simp: ReleaseClaim_def lives_on_refl split: if_splits)
next
  case (sent now m)
  then show ?thesis using update_lives_on [OF _ clears_ops(3) assms(2)] by (simp add: MarkSent_def)
next
  case (reschedule now m at r)
  then show ?thesis using update_lives_on [OF _ clears_ops(4) assms(2)] by (simp add: Reschedule_def)
next
  case (dead visible now m r)
  then show ?thesis using update_lives_on [OF _ clears_ops(5) assms(2)] by (simp add: settleDead_def)
next
  case (prune now olderThan removed)
  then have r: "set rows' \<subseteq> set rows" "\<forall>r \<in> set rows. ob_Status r = Pending \<longrightarrow> r \<in> set rows'"
    and f: "\<exists>P. rows' = filter P rows"
    by (auto simp: Prune_def Let_def prunable_def)
  have "r \<in> set rows'" if "r \<in> set rows" "ob_ID r \<in> ob_ID ` set rows'" for r
  proof -
    from that obtain r' where "r' \<in> set rows'" "ob_ID r' = ob_ID r" by auto
    moreover have "distinct (map ob_ID rows)" using assms(2) by (simp add: outbox_ok_def)
    ultimately have "r' = r" using r(1) that(1) by (auto simp: distinct_map inj_on_def)
    with \<open>r' \<in> set rows'\<close> show ?thesis by simp
  qed
  then have "lives_on rows rows'" using r(2) frozen_refl unfolding lives_on_def by auto
  moreover from f obtain P where P: "rows' = filter P rows" by blast
  have "outbox_ok rows'"
    using assms(2) unfolding P by (simp add: outbox_ok_def keys_unique_def distinct_map_filter)
  ultimately show ?thesis by simp
qed

text \<open>
  Property C24. In every table the operations reach, ids are unique, a key names one message of its
  tenant, and a settled message has lost its content. A step never drops or re-addresses an owed
  message, and a settled message stays exactly as it is until it is pruned.
\<close>

theorem outbox_lifecycle:
  assumes "outbox_step\<^sup>*\<^sup>* [] rows" "outbox_step rows rows'"
  shows "outbox_ok rows \<and> lives_on rows rows'"
proof -
  have "outbox_ok rows" using assms(1)
  proof (induction rule: rtranclp_induct)
    case base
    show ?case by (simp add: outbox_ok_def keys_unique_def)
  next
    case (step y z)
    then show ?case using outbox_step_ok by blast
  qed
  with outbox_step_ok [OF assms(2)] show ?thesis by blast
qed

section \<open>Claims\<close>

lemma ClaimDue_Inr:
  assumes "ClaimDue locked now limit lease rows = Inr (msgs, rows')" "0 < limit" "0 < lease"
  shows "rows' = map (\<lambda>r. if ob_ID r \<in> set (claimable locked limit now rows) then charge now lease r else r) rows \<and>
    msgs = map row_message (filter (\<lambda>r. ob_ID r \<in> set (claimable locked limit now rows)) rows')"
  using assms by (auto simp: ClaimDue_def Let_def update_rows_Inr split: sum.splits)

lemma charge_simps [simp]:
  "ob_ID (charge now lease r) = ob_ID r" "ob_Attempts (charge now lease r) = ob_Attempts r + 1"
  "ob_NextAttemptAt (charge now lease r) = now + lease" "ob_Status (charge now lease r) = ob_Status r"
  "ob_DueAt (charge now lease r) = ob_DueAt r"
  by (simp_all add: charge_def)

lemma row_message_simps [simp]:
  "om_ID (row_message r) = ob_ID r" "om_Attempts (row_message r) = ob_Attempts r" "om_Status (row_message r) = ob_Status r"
  by (simp_all add: row_message_def)

lemma claimed_messages:
  assumes "ClaimDue locked now limit lease rows = Inr (msgs, rows')" "0 < limit" "0 < lease"
  shows "msgs = map (\<lambda>r. row_message (charge now lease r)) (filter (\<lambda>r. ob_ID r \<in> set (claimable locked limit now rows)) rows)"
  using ClaimDue_Inr [OF assms] by (simp add: filter_map comp_def if_distrib [of row_message] if_distrib [of ob_ID] cong: map_cong)

definition queue_order :: "outbox_row list \<Rightarrow> outbox_row list" where
  "queue_order rows = sort_key ob_NextAttemptAt (sort_key ob_ID rows)"

lemma claimable_sorted:
  assumes "i \<in> set (claimable locked limit now rows)"
  shows "\<exists>r \<in> set rows. ob_ID r = i \<and> due now r \<and> \<not> locked i"
proof -
  from assms obtain r where "ob_ID r = i"
    "r \<in> set (sort_key ob_NextAttemptAt (sort_key ob_ID (filter (\<lambda>r. due now r \<and> \<not> locked (ob_ID r)) rows)))"
    unfolding claimable_def by (metis (no_types, lifting) imageE in_set_takeD list.set_map)
  then show ?thesis by auto
qed

lemma claimable_oldest:
  assumes "r \<in> set rows" "due now r" "\<not> locked (ob_ID r)" "ob_ID r \<notin> set (claimable locked limit now rows)"
  shows "length (claimable locked limit now rows) = nat limit \<and>
    (\<forall>i \<in> set (claimable locked limit now rows). \<exists>r' \<in> set rows. ob_ID r' = i \<and> ob_NextAttemptAt r' \<le> ob_NextAttemptAt r)"
proof -
  let ?q = "queue_order (filter (\<lambda>r. due now r \<and> \<not> locked (ob_ID r)) rows)"
  have c: "claimable locked limit now rows = map ob_ID (take (nat limit) ?q)" by (simp add: claimable_def queue_order_def)
  have q: "set ?q \<subseteq> set rows" "r \<in> set ?q" using assms by (auto simp: queue_order_def)
  have "r \<notin> set (take (nat limit) ?q)" using assms(4) c by auto
  with q(2) have d: "r \<in> set (drop (nat limit) ?q)" by (metis append_take_drop_id Un_iff set_append)
  have "sorted (map ob_NextAttemptAt ?q)" by (simp add: queue_order_def)
  then have "sorted (map ob_NextAttemptAt (take (nat limit) ?q) @ map ob_NextAttemptAt (drop (nat limit) ?q))"
    by (metis append_take_drop_id map_append)
  with d have "\<forall>x \<in> set (take (nat limit) ?q). ob_NextAttemptAt x \<le> ob_NextAttemptAt r" by (auto simp: sorted_append)
  moreover have "length (take (nat limit) ?q) = nat limit" using d by (cases "nat limit \<le> length ?q") auto
  ultimately show ?thesis using q(1) unfolding c by (auto dest: in_set_takeD)
qed

lemma claimable_length:
  assumes "distinct (map ob_ID rows)"
  shows "length (filter (\<lambda>r. ob_ID r \<in> set (claimable locked limit now rows)) rows) = length (claimable locked limit now rows)"
proof -
  let ?c = "claimable locked limit now rows"
  let ?q = "queue_order (filter (\<lambda>r. due now r \<and> \<not> locked (ob_ID r)) rows)"
  have c: "?c = map ob_ID (take (nat limit) ?q)" by (simp add: claimable_def queue_order_def)
  have "distinct (map ob_ID ?q)"
    using distinct_map_filter [OF assms, of "\<lambda>r. due now r \<and> \<not> locked (ob_ID r)"]
    by (simp add: queue_order_def distinct_map)
  then have "distinct ?c" unfolding c by (metis distinct_take take_map)
  moreover have "distinct (map ob_ID (filter (\<lambda>r. ob_ID r \<in> set ?c) rows))" by (rule distinct_map_filter [OF assms])
  moreover have "set (map ob_ID (filter (\<lambda>r. ob_ID r \<in> set ?c) rows)) = set ?c" using claimable_sorted by fastforce
  ultimately show ?thesis by (metis distinct_card length_map)
qed

text \<open>
  A claim hands out at most the limit, each message once, all due and held by no other
  transaction, the oldest first, each charged one attempt; and until its lease ends no other
  claim gets any of them.
\<close>

theorem claims_are_leases:
  assumes "outbox_ok rows" "0 < limit" "0 < lease" "ClaimDue locked now limit lease rows = Inr (msgs, rows')"
  shows "distinct (map om_ID msgs) \<and> int (length msgs) \<le> limit \<and>
    (\<forall>m \<in> set msgs. \<exists>r \<in> set rows. m = row_message (charge now lease r) \<and> due now r \<and> \<not> locked (om_ID m)) \<and>
    (\<forall>r \<in> set rows. due now r \<and> \<not> locked (ob_ID r) \<and> ob_ID r \<notin> om_ID ` set msgs \<longrightarrow>
       int (length msgs) = limit \<and>
       (\<forall>m \<in> set msgs. \<exists>r' \<in> set rows. ob_ID r' = om_ID m \<and> ob_NextAttemptAt r' \<le> ob_NextAttemptAt r)) \<and>
    (\<forall>locked2 now2 limit2 lease2 msgs2 rows2. 0 < limit2 \<longrightarrow> 0 < lease2 \<longrightarrow> now2 < now + lease \<longrightarrow>
       ClaimDue locked2 now2 limit2 lease2 rows' = Inr (msgs2, rows2) \<longrightarrow> om_ID ` set msgs \<inter> om_ID ` set msgs2 = {})"
proof -
  let ?c = "claimable locked limit now rows"
  have d: "distinct (map ob_ID rows)" using assms(1) by (simp add: outbox_ok_def)
  note m = claimed_messages [OF assms(4,2,3)] and r = ClaimDue_Inr [OF assms(4,2,3)]
  have ids: "map om_ID msgs = map ob_ID (filter (\<lambda>r. ob_ID r \<in> set ?c) rows)" by (simp add: m comp_def)
  have set_ids: "om_ID ` set msgs = set ?c"
    using claimable_sorted by (simp add: m image_image) (fastforce simp: image_iff)
  have len: "length msgs = length ?c" using claimable_length [OF d] by (simp add: m)
  have dist: "distinct (map om_ID msgs)" unfolding ids by (rule distinct_map_filter [OF d])
  have bound: "int (length msgs) \<le> limit" using assms(2) unfolding len by (simp add: claimable_def)
  have each: "\<exists>r \<in> set rows. m' = row_message (charge now lease r) \<and> due now r \<and> \<not> locked (om_ID m')"
    if "m' \<in> set msgs" for m'
  proof -
    from that obtain r where r: "r \<in> set rows" "ob_ID r \<in> set ?c" "m' = row_message (charge now lease r)" by (auto simp: m)
    with claimable_sorted obtain r' where "r' \<in> set rows" "ob_ID r' = ob_ID r" "due now r'" "\<not> locked (ob_ID r)" by blast
    moreover then have "r' = r" using d r(1) by (auto simp: distinct_map inj_on_def)
    ultimately show ?thesis using r by auto
  qed
  have oldest: "int (length msgs) = limit \<and>
       (\<forall>m \<in> set msgs. \<exists>r' \<in> set rows. ob_ID r' = om_ID m \<and> ob_NextAttemptAt r' \<le> ob_NextAttemptAt r)"
    if "r \<in> set rows" "due now r \<and> \<not> locked (ob_ID r) \<and> ob_ID r \<notin> om_ID ` set msgs" for r
    using claimable_oldest [of r rows now locked limit] that assms(2) set_ids unfolding len
    by (simp add: image_iff) (metis set_ids image_eqI)
  have later: "om_ID ` set msgs \<inter> om_ID ` set msgs2 = {}"
    if "0 < limit2" "0 < lease2" "now2 < now + lease" "ClaimDue locked2 now2 limit2 lease2 rows' = Inr (msgs2, rows2)"
    for locked2 now2 limit2 lease2 msgs2 rows2
  proof -
    have "\<not> due now2 x" if "x \<in> set rows'" "ob_ID x \<in> set ?c" for x
      using that \<open>now2 < now + lease\<close> r by (auto simp: due_def)
    then have "set (claimable locked2 limit2 now2 rows') \<inter> set ?c = {}" using claimable_sorted by fastforce
    moreover have "om_ID ` set msgs2 \<subseteq> set (claimable locked2 limit2 now2 rows')"
      using claimed_messages [OF that(4,1,2)] by auto
    ultimately show ?thesis using set_ids by blast
  qed
  show ?thesis using dist bound each oldest later by blast
qed

section \<open>Releases\<close>

text \<open>
  Releasing a claim takes it back: every claimed row has its attempts of before the
  claim again and is due at its own due time, every other row is untouched. A release that comes
  late, after another claim of the message, changes none of the rows claimed since.
\<close>

theorem release_undoes_claim:
  assumes "outbox_ok rows" "0 < limit" "0 < lease" "ClaimDue locked now limit lease rows = Inr (msgs, rows1)"
  shows "ReleaseClaim now2 msgs rows1 = Inr (map (\<lambda>r. if ob_ID r \<in> om_ID ` set msgs
      then r\<lparr>ob_NextAttemptAt := ob_DueAt r, ob_UpdatedAt := now2\<rparr> else r) rows) \<and>
    (\<forall>locked2 now3 limit2 lease2 msgs2 rows2 rows3. 0 < limit2 \<longrightarrow> 0 < lease2 \<longrightarrow>
       ClaimDue locked2 now3 limit2 lease2 rows1 = Inr (msgs2, rows2) \<longrightarrow>
       ReleaseClaim now2 msgs rows2 = Inr rows3 \<longrightarrow>
       (\<forall>r \<in> set rows2. ob_ID r \<in> om_ID ` set msgs2 \<longrightarrow> r \<in> set rows3))"
proof -
  let ?c = "claimable locked limit now rows"
  have d: "distinct (map ob_ID rows)" and ok: "\<And>r. r \<in> set rows \<Longrightarrow> row_checks r" using assms(1) by (auto simp: outbox_ok_def)
  note m = claimed_messages [OF assms(4,2,3)] and r1 = ClaimDue_Inr [OF assms(4,2,3), THEN conjunct1]
  have set_ids: "om_ID ` set msgs = set ?c"
    using claimable_sorted by (simp add: m image_image) (fastforce simp: image_iff)
  let ?g = "\<lambda>r. if ob_ID r \<in> set ?c then charge now lease r else r"
  have unique: "r' = r" if "r \<in> set rows" "r' \<in> set rows" "ob_ID r' = ob_ID r" for r r'
    using that d by (auto simp: distinct_map inj_on_def)
  have pend: "ob_Status r = Pending" if "r \<in> set rows" "ob_ID r \<in> set ?c" for r
    using claimable_sorted [OF that(2)] unique [OF that(1)] by (auto simp: due_def)
  have mine: "claimed_by msgs (?g r) \<longleftrightarrow> ob_ID r \<in> set ?c" if "r \<in> set rows" for r
  proof
    assume "ob_ID r \<in> set ?c"
    then have "row_message (charge now lease r) \<in> set msgs" using that by (auto simp: m)
    with pend [OF that \<open>ob_ID r \<in> set ?c\<close>] show "claimed_by msgs (?g r)"
      using \<open>ob_ID r \<in> set ?c\<close> by (auto simp: claimed_by_def intro!: bexI [of _ "row_message (charge now lease r)"])
  next
    assume "claimed_by msgs (?g r)"
    then obtain z where "z \<in> set rows" "ob_ID z \<in> set ?c" "ob_ID z = ob_ID (?g r)" by (auto simp: claimed_by_def m)
    then show "ob_ID r \<in> set ?c" by (simp split: if_splits)
  qed
  have undo: "unclaim now2 (charge now lease r) = r\<lparr>ob_NextAttemptAt := ob_DueAt r, ob_UpdatedAt := now2\<rparr>"
    if "r \<in> set rows" for r
    using ok [OF that] by (simp add: unclaim_def charge_def row_checks_def)
  have allowed: "state_only (?g r) (unclaim now2 (?g r)) = None \<and> row_checks (unclaim now2 (?g r))"
    if "r \<in> set rows" "ob_ID r \<in> set ?c" for r
    using that undo [OF that(1)] ok [OF that(1)] pend [OF that]
    by (simp add: state_only_None charge_def row_checks_def split: status.splits)
  have "update_rows (claimed_by msgs) (unclaim now2) rows1 =
      Inr (map (\<lambda>r. if claimed_by msgs r then unclaim now2 r else r) rows1)"
    unfolding update_rows_Inr
  proof (intro conjI ballI impI)
    fix x assume "x \<in> set rows1" and x: "claimed_by msgs x"
    then obtain r where r: "r \<in> set rows" "x = ?g r" by (auto simp: r1)
    with x mine have "ob_ID r \<in> set ?c" by blast
    from allowed [OF r(1) this] show "state_only x (unclaim now2 x) = None" "row_checks (unclaim now2 x)"
      unfolding r(2) by simp_all
  qed simp
  moreover have "map (\<lambda>r. if claimed_by msgs r then unclaim now2 r else r) rows1 =
      map (\<lambda>r. if ob_ID r \<in> set ?c then r\<lparr>ob_NextAttemptAt := ob_DueAt r, ob_UpdatedAt := now2\<rparr> else r) rows"
    unfolding r1 map_map comp_def
  proof (rule map_cong [OF refl])
    fix r assume "r \<in> set rows"
    with mine undo show "(if claimed_by msgs (?g r) then unclaim now2 (?g r) else ?g r) =
        (if ob_ID r \<in> set ?c then r\<lparr>ob_NextAttemptAt := ob_DueAt r, ob_UpdatedAt := now2\<rparr> else r)" by simp
  qed
  moreover have "rows1 = map (\<lambda>r. if ob_ID r \<in> set ?c then r\<lparr>ob_NextAttemptAt := ob_DueAt r, ob_UpdatedAt := now2\<rparr> else r) rows"
    if "msgs = []"
    using that set_ids by (auto simp: r1 intro!: map_cong)
  ultimately have first: "ReleaseClaim now2 msgs rows1 =
      Inr (map (\<lambda>r. if ob_ID r \<in> set ?c then r\<lparr>ob_NextAttemptAt := ob_DueAt r, ob_UpdatedAt := now2\<rparr> else r) rows)"
    by (simp add: ReleaseClaim_def)
  have second: "r \<in> set rows3"
    if c2: "0 < limit2" "0 < lease2" "ClaimDue locked2 now3 limit2 lease2 rows1 = Inr (msgs2, rows2)"
      and rel: "ReleaseClaim now2 msgs rows2 = Inr rows3" and r: "r \<in> set rows2" "ob_ID r \<in> om_ID ` set msgs2"
    for locked2 now3 limit2 lease2 msgs2 rows2 rows3 r
  proof -
    let ?c2 = "claimable locked2 limit2 now3 rows1"
    note r2 = ClaimDue_Inr [OF c2(3,1,2), THEN conjunct1] and m2 = claimed_messages [OF c2(3,1,2)]
    have "ob_ID r \<in> set ?c2" using r(2) by (auto simp: m2)
    then obtain x where x: "x \<in> set rows1" "r = charge now3 lease2 x" using r(1) by (auto simp: r2 split: if_splits)
    then obtain y where y: "y \<in> set rows" "x = ?g y" by (auto simp: r1)
    have "\<not> claimed_by msgs r"
    proof
      assume "claimed_by msgs r"
      then obtain z where z: "z \<in> set rows" "ob_ID z = ob_ID r" "ob_Attempts z + 1 = ob_Attempts r" "ob_ID z \<in> set ?c"
        by (auto simp: claimed_by_def m)
      then have "z = y" using unique [OF y(1) z(1)] x y by (simp split: if_splits)
      with z x y show False by simp
    qed
    moreover have "rows3 = map (\<lambda>r. if claimed_by msgs r then unclaim now2 r else r) rows2 \<or> rows3 = rows2"
      using rel by (auto simp: ReleaseClaim_def update_rows_Inr split: if_splits)
    ultimately show ?thesis using r(1) by force
  qed
  show ?thesis using first second unfolding set_ids by blast
qed

section \<open>Deduplication\<close>

lemma same_key_ID:
  assumes "keys_unique rows" "r \<in> set rows" "r' \<in> set rows" "same_key t k r" "same_key t k r'"
  shows "ob_ID r' = ob_ID r"
proof -
  have "ob_DedupeKey r \<noteq> None" "ob_DedupeKey r' = ob_DedupeKey r" "ob_Tenant r' = ob_Tenant r"
    using assms(4,5) by (simp_all add: same_key_def)
  then show ?thesis using assms(1-3) unfolding keys_unique_def by blast
qed

lemma unique_find:
  assumes "keys_unique rows" "distinct (map ob_ID rows)" "r \<in> set rows" "same_key t k r"
  shows "find (same_key t k) rows = Some r"
proof -
  obtain r' where f: "find (same_key t k) rows = Some r'"
    using assms(3,4) by (cases "find (same_key t k) rows") (auto simp: find_None_iff)
  then have r': "r' \<in> set rows" "same_key t k r'" by (auto simp: find_Some_iff)
  then have "ob_ID r' = ob_ID r" using same_key_ID assms(1,3,4) by blast
  then have "r' = r" using assms(2,3) r'(1) by (simp add: distinct_map inj_on_def)
  with f show ?thesis by simp
qed

text \<open>
  Queueing is idempotent: while a tenant's message with a key is there, owed or sent,
  queueing under that key again writes nothing and reports that message; once it is given up the
  key is free, and the next call queues a new message.
\<close>

theorem enqueue_idempotent:
  assumes "outbox_ok rows" "r \<in> set rows" "ob_DedupeKey r = Some (TrimSpace (nm_DedupeKey m))"
    "ob_Tenant r = qe_Tenant env" "TrimSpace (nm_DedupeKey m) \<noteq> []"
  shows "(Enqueue env m rows = Inr (rc, rows1) \<longrightarrow> rows1 = rows \<and> rc = \<lparr>rc_ID = ob_ID r, rc_Deduplicated = True\<rparr>) \<and>
    (settleDead visible now om why rows = Inr rows2 \<longrightarrow> visible r \<longrightarrow> pending_row (om_ID om) r \<longrightarrow>
     Enqueue env m rows2 = Inr (rc, rows3) \<longrightarrow>
       \<not> rc_Deduplicated rc \<and> length rows3 = length rows + 1 \<and> qe_NewID env = rc_ID rc)"
proof (intro conjI impI)
  let ?k = "TrimSpace (nm_DedupeKey m)"
  have u: "keys_unique rows" "distinct (map ob_ID rows)" using assms(1) by (auto simp: outbox_ok_def)
  have rk: "same_key (qe_Tenant env) ?k r" using assms(3,4) by (simp add: same_key_def)
  assume "Enqueue env m rows = Inr (rc, rows1)"
  then have "rows1 = rows" "rc = \<lparr>rc_ID = ob_ID r, rc_Deduplicated = True\<rparr>"
  proof (atomize(full), cases rule: Enqueue_cases)
    case (old r')
    then have "same_key (qe_Tenant env) ?k r'" by (simp add: same_key_def)
    then have "ob_ID r' = ob_ID r" using same_key_ID [OF u(1) assms(2) old(3) rk] by blast
    with old(1,2,4) show "rows1 = rows \<and> rc = \<lparr>rc_ID = ob_ID r, rc_Deduplicated = True\<rparr>" by (cases rc) simp
  next
    case (new x)
    have "ob_DedupeKey x = Some ?k" using new(8) assms(5) by simp
    then have "\<not> same_key (qe_Tenant env) ?k r" using new(6,9) assms(2) by simp
    with rk show "rows1 = rows \<and> rc = \<lparr>rc_ID = ob_ID r, rc_Deduplicated = True\<rparr>" by simp
  qed
  then show "rows1 = rows" "rc = \<lparr>rc_ID = ob_ID r, rc_Deduplicated = True\<rparr>" by simp_all
next
  assume d: "settleDead visible now om why rows = Inr rows2" "visible r" "pending_row (om_ID om) r"
    and e: "Enqueue env m rows2 = Inr (rc, rows3)"
  let ?dead = "\<lambda>row. row\<lparr>ob_Status := Dead, ob_FailedAt := Some now, ob_LastError := Some (reason_detail why),
          ob_Payload := cleared, ob_DedupeKey := None, ob_UpdatedAt := now\<rparr>"
  have rows2: "rows2 = map (\<lambda>row. if visible row \<and> pending_row (om_ID om) row then ?dead row else row) rows"
    using d(1) by (simp add: settleDead_def update_rows_Inr)
  have gone: "\<not> (ob_Tenant x = qe_Tenant env \<and> ob_DedupeKey x = Some (TrimSpace (nm_DedupeKey m)))" if x: "x \<in> set rows2" for x
  proof
    assume k: "ob_Tenant x = qe_Tenant env \<and> ob_DedupeKey x = Some (TrimSpace (nm_DedupeKey m))"
    obtain y where y: "y \<in> set rows" "x = (if visible y \<and> pending_row (om_ID om) y then ?dead y else y)" using x by (auto simp: rows2)
    have "\<not> (visible y \<and> pending_row (om_ID om) y)"
    proof
      assume "visible y \<and> pending_row (om_ID om) y"
      then have "ob_DedupeKey x = None" by (simp add: y(2))
      with k show False by simp
    qed
    then have "x = y" unfolding y(2) by (rule if_not_P)
    have "same_key (qe_Tenant env) (TrimSpace (nm_DedupeKey m)) r" using assms(3,4) by (simp add: same_key_def)
    moreover have "same_key (qe_Tenant env) (TrimSpace (nm_DedupeKey m)) y" using k \<open>x = y\<close> by (simp add: same_key_def)
    moreover have "keys_unique rows" "distinct (map ob_ID rows)" using assms(1) by (simp_all add: outbox_ok_def)
    ultimately have "ob_ID y = ob_ID r" using same_key_ID assms(2) y(1) by blast
    with \<open>distinct (map ob_ID rows)\<close> have "y = r" using y(1) assms(2) by (simp add: distinct_map inj_on_def)
    with \<open>\<not> (visible y \<and> pending_row (om_ID om) y)\<close> show False using d(2,3) by simp
  qed
  from e have "\<not> rc_Deduplicated rc \<and> length rows3 = length rows2 + 1 \<and> qe_NewID env = rc_ID rc"
  proof (cases rule: Enqueue_cases)
    case (old r')
    then show ?thesis using gone by blast
  qed simp
  then show "\<not> rc_Deduplicated rc" "length rows3 = length rows + 1" "qe_NewID env = rc_ID rc" by (simp_all add: rows2)
qed

section \<open>Settling\<close>

lemma update_rows_isl:
  "isl (update_rows P f rows) \<longleftrightarrow> (\<exists>r \<in> set rows. P r \<and> \<not> (state_only r (f r) = None \<and> row_checks (f r)))"
  using update_rows_Inr [of P f rows "map (\<lambda>r. if P r then f r else r) rows"] update_rows_Inr [of P f rows]
  by (cases "update_rows P f rows") auto

lemma reschedule_allowed:
  assumes "row_checks x" "pending_row i x"
  shows "(state_only x (x\<lparr>ob_NextAttemptAt := at, ob_LastError := Some d, ob_UpdatedAt := now\<rparr>) = None \<and>
    row_checks (x\<lparr>ob_NextAttemptAt := at, ob_LastError := Some d, ob_UpdatedAt := now\<rparr>)) \<longleftrightarrow> pg_text d"
  using assms by (simp add: pending_row_def state_only_None row_checks_def opt_text_def)

lemma dead_allowed:
  assumes "row_checks x" "pending_row i x"
  shows "(state_only x (x\<lparr>ob_Status := Dead, ob_FailedAt := Some now, ob_LastError := Some d,
      ob_Payload := cleared, ob_DedupeKey := None, ob_UpdatedAt := now\<rparr>) = None \<and>
    row_checks (x\<lparr>ob_Status := Dead, ob_FailedAt := Some now, ob_LastError := Some d,
      ob_Payload := cleared, ob_DedupeKey := None, ob_UpdatedAt := now\<rparr>)) \<longleftrightarrow> pg_text d"
  using assms by (simp add: pending_row_def state_only_None row_checks_def opt_text_def)

lemma sent_allowed:
  assumes "row_checks x" "pending_row i x"
  shows "state_only x (x\<lparr>ob_Status := Sent, ob_SentAt := Some now, ob_LastError := None,
      ob_Payload := cleared, ob_UpdatedAt := now\<rparr>) = None \<and>
    row_checks (x\<lparr>ob_Status := Sent, ob_SentAt := Some now, ob_LastError := None,
      ob_Payload := cleared, ob_UpdatedAt := now\<rparr>)"
  using assms by (simp add: pending_row_def state_only_None row_checks_def opt_text_def)

lemma reason_detail_ascii: "ascii_text (rs_Detail why) \<Longrightarrow> ascii_text (rs_Class why) \<Longrightarrow> ascii_text (reason_detail why)"
  by (simp add: reason_detail_def Let_def ascii_text_take ascii_text_trim)

lemma utf8_xs: "utf8_valid (replicate n CHR ''x'' @ s) \<longleftrightarrow> utf8_valid s"
  by (induction n) (simp_all add: byte_def)

definition split_rune :: string where
  "split_rune = replicate 499 CHR ''x'' @ [CHR 0xC3, CHR 0xA9]"

lemma split_rune_cut:
  "pg_text split_rune" "length split_rune = 501" "TrimSpace split_rune = split_rune"
  "\<not> pg_text (take 500 split_rune)"
proof -
  show "pg_text split_rune" by (auto simp: pg_text_def split_rune_def utf8_xs byte_def continuation_def)
  show "length split_rune = 501" by (simp add: split_rune_def)
  show "TrimSpace split_rune = split_rune" by (rule TrimSpace_id) code_simp+
  have "take 500 split_rune = replicate 499 CHR ''x'' @ [CHR 0xC3]" by (simp add: split_rune_def)
  then show "\<not> pg_text (take 500 split_rune)" by (simp add: pg_text_def utf8_xs byte_def)
qed

text \<open>
  Property C39. Whether a failed attempt can be written down depends on its detail: rescheduling and
  giving up are refused by the table exactly when the detail, cut to 500 bytes, is no text any
  more. Plain ASCII details always settle, but a valid text exists whose cut splits a character;
  a message that fails with it is never settled.
\<close>

theorem settlement_needs_text:
  assumes "outbox_ok rows" "r \<in> set rows" "pending_row (om_ID m) r"
  shows "(isl (Reschedule now m at why rows) \<longleftrightarrow> \<not> pg_text (reason_detail why)) \<and>
    (isl (settleDead (\<lambda>_. True) now m why rows) \<longleftrightarrow> \<not> pg_text (reason_detail why)) \<and>
    \<not> isl (MarkSent now m rows) \<and>
    (ascii_text (rs_Detail why) \<longrightarrow> ascii_text (rs_Class why) \<longrightarrow> \<not> isl (Reschedule now m at why rows)) \<and>
    (\<exists>d. pg_text d \<and> isl (Reschedule now m at (why\<lparr>rs_Detail := d\<rparr>) rows) \<and>
       isl (settleDead (\<lambda>_. True) now m (why\<lparr>rs_Detail := d\<rparr>) rows))"
proof -
  have ok: "row_checks x" if "x \<in> set rows" for x using assms(1) that by (simp add: outbox_ok_def)
  have resch: "isl (Reschedule now m at why rows) \<longleftrightarrow> \<not> pg_text (reason_detail why)" for why
  proof -
    have "isl (Reschedule now m at why rows) \<longleftrightarrow> (\<exists>x \<in> set rows. pending_row (om_ID m) x \<and> \<not> pg_text (reason_detail why))"
      unfolding Reschedule_def update_rows_isl
      using ok reschedule_allowed by blast
    with assms(2,3) show ?thesis by auto
  qed
  have dead: "isl (settleDead (\<lambda>_. True) now m why rows) \<longleftrightarrow> \<not> pg_text (reason_detail why)" for why
  proof -
    have "isl (settleDead (\<lambda>_. True) now m why rows) \<longleftrightarrow> (\<exists>x \<in> set rows. pending_row (om_ID m) x \<and> \<not> pg_text (reason_detail why))"
      unfolding settleDead_def update_rows_isl
      using ok dead_allowed by blast
    with assms(2,3) show ?thesis by auto
  qed
  have sent: "\<not> isl (MarkSent now m rows)"
    unfolding MarkSent_def update_rows_isl using ok sent_allowed by blast
  have "\<not> pg_text (reason_detail (why\<lparr>rs_Detail := split_rune\<rparr>))"
    using split_rune_cut by (auto simp: reason_detail_def Let_def maxErrorDetail_def)
  then have "\<exists>d. pg_text d \<and> isl (Reschedule now m at (why\<lparr>rs_Detail := d\<rparr>) rows) \<and>
       isl (settleDead (\<lambda>_. True) now m (why\<lparr>rs_Detail := d\<rparr>) rows)"
    using resch dead split_rune_cut(1) by blast
  with resch dead sent show ?thesis using reason_detail_ascii ascii_pg_text by blast
qed

section \<open>A queue\<close>

definition invite_env :: "string \<Rightarrow> int \<Rightarrow> queue_env" where
  "invite_env i now = \<lparr>qe_Tenant = ''t1'', qe_User = ''u1'', qe_Now = now, qe_NewID = i, qe_Seal = None\<rparr>"

definition invite :: new_message where
  "invite = \<lparr>nm_Channel = [], nm_Template = ''member.invited'', nm_Recipient = ''a@b.example'',
     nm_Payload = Some [(''token'', JStr ''zti_x'')], nm_DedupeKey = ''k1'', nm_DueAt = None\<rparr>"

definition invite_rows :: "outbox_row list" where
  "invite_rows = snd (projr (Enqueue (invite_env ''m1'' 5) invite []))"

definition sent_rows :: "outbox_row list" where
  "sent_rows = projr (MarkSent 9 (row_message (hd invite_rows)) invite_rows)"

lemma invite_queued: "Enqueue (invite_env ''m1'' 5) invite [] = Inr (\<lparr>rc_ID = ''m1'', rc_Deduplicated = False\<rparr>, invite_rows)"
  by code_simp

lemma invite_again: "Enqueue (invite_env ''m2'' 7) invite invite_rows = Inr (\<lparr>rc_ID = ''m1'', rc_Deduplicated = True\<rparr>, invite_rows)"
  by code_simp

definition invite_claim :: outbox_message where
  "invite_claim = row_message (charge 6 DefaultClaimLease (hd invite_rows))"

lemma invite_claimed: "ClaimDue (\<lambda>_. False) 6 50 DefaultClaimLease invite_rows =
    Inr ([invite_claim], map (charge 6 DefaultClaimLease) invite_rows)"
  by code_simp

lemma invite_sent: "MarkSent 9 (row_message (hd invite_rows)) invite_rows = Inr sent_rows" "ob_Status (hd sent_rows) = Sent"
  by code_simp+

lemma invite_reached: "outbox_step\<^sup>*\<^sup>* [] invite_rows" "outbox_ok invite_rows"
proof -
  have "outbox_step [] invite_rows" using invite_queued by (rule outbox_step.enqueue) simp
  then show "outbox_step\<^sup>*\<^sup>* [] invite_rows" by blast
  have "outbox_ok []" by (simp add: outbox_ok_def keys_unique_def)
  with \<open>outbox_step [] invite_rows\<close> show "outbox_ok invite_rows" using outbox_step_ok by blast
qed

lemma invite_row: "invite_rows = [hd invite_rows]" "ob_ID (hd invite_rows) = ''m1''" "ob_Tenant (hd invite_rows) = ''t1''"
  "ob_DedupeKey (hd invite_rows) = Some ''k1''" "ob_Status (hd invite_rows) = Pending"
  by code_simp+

lemma invite_row_mem: "hd invite_rows \<in> set invite_rows"
  using invite_row(1) by (metis list.set_intros(1))

theorem outbox_lifecycle_witness: "outbox_ok invite_rows \<and> lives_on invite_rows sent_rows"
  using outbox_lifecycle [OF invite_reached(1) outbox_step.sent [OF invite_sent(1)]] .

theorem claims_are_leases_witness:
  "\<exists>msgs rows'. ClaimDue (\<lambda>_. False) 6 50 DefaultClaimLease invite_rows = Inr (msgs, rows') \<and> msgs \<noteq> [] \<and> distinct (map om_ID msgs)"
proof -
  have "0 < DefaultClaimLease" by (simp add: DefaultClaimLease_def)
  from claims_are_leases [OF invite_reached(2) _ this invite_claimed] invite_claimed show ?thesis by auto
qed

theorem release_undoes_claim_witness:
  "\<exists>msgs rows1 rows2. ClaimDue (\<lambda>_. False) 6 50 DefaultClaimLease invite_rows = Inr (msgs, rows1) \<and> msgs \<noteq> [] \<and>
     ReleaseClaim 8 msgs rows1 = Inr rows2"
proof -
  have "0 < DefaultClaimLease" by (simp add: DefaultClaimLease_def)
  from release_undoes_claim [OF invite_reached(2) _ this invite_claimed] invite_claimed show ?thesis by auto
qed

theorem enqueue_idempotent_witness:
  "\<exists>r \<in> set invite_rows. Enqueue (invite_env ''m2'' 7) invite invite_rows = Inr (\<lparr>rc_ID = ob_ID r, rc_Deduplicated = True\<rparr>, invite_rows)"
proof -
  have k: "TrimSpace (nm_DedupeKey invite) = ''k1''" "qe_Tenant (invite_env ''m2'' 7) = ''t1''" by code_simp+
  have "\<lparr>rc_ID = ''m1'', rc_Deduplicated = True\<rparr> = \<lparr>rc_ID = ob_ID (hd invite_rows), rc_Deduplicated = True\<rparr>"
    using enqueue_idempotent [OF invite_reached(2) invite_row_mem, of invite "invite_env ''m2'' 7"] invite_again invite_row k by simp
  with invite_again invite_row_mem show ?thesis by auto
qed

theorem settlement_needs_text_witness:
  "\<not> isl (Reschedule 8 (row_message (hd invite_rows)) 60 \<lparr>rs_Class = ''transient_failure'', rs_Detail = ''busy''\<rparr> invite_rows)"
proof -
  have "ascii_text ''busy''" "ascii_text ''transient_failure''" by code_simp+
  moreover have "pending_row (om_ID (row_message (hd invite_rows))) (hd invite_rows)"
    using invite_row by (simp add: pending_row_def)
  from settlement_needs_text [OF invite_reached(2) invite_row_mem this, of 8 60
      "\<lparr>rs_Class = ''transient_failure'', rs_Detail = ''busy''\<rparr>",
      THEN conjunct2, THEN conjunct2, THEN conjunct2, THEN conjunct1]
  have "ascii_text ''busy'' \<longrightarrow> ascii_text ''transient_failure'' \<longrightarrow>
     \<not> isl (Reschedule 8 (row_message (hd invite_rows)) 60 \<lparr>rs_Class = ''transient_failure'', rs_Detail = ''busy''\<rparr> invite_rows)"
    unfolding reason.simps .
  ultimately show ?thesis by blast
qed

end
