(* ===== verification/Delivery.thy ===== *)
theory Delivery
  imports Outbox "HOL-Library.Log_Nat"
begin

text \<open>
  The outbox's delivery loop (\<^verbatim>\<open>src/platform/outbox/dispatcher.go\<close>): the retry schedule, the
  settings with their clamps, the ration of time of one pass, the outcome of one delivery and the
  pass itself, over the operations of a message store. The transport is a function from the
  message, the start and the window to its answer and the instant of the answer; the clock of
  the pass is threaded through. The loop's contract with its store is the locale
  \<open>message_store\<close>, interpreted by the store of theory Outbox.
\<close>

section \<open>Durations\<close>

abbreviation "second \<equiv> 1000000000 :: int"

text \<open>\<^verbatim>\<open>float64(i)\<close>: the nearest integer with 53 significant bits, ties to even.\<close>

definition f64 :: "int \<Rightarrow> int" where
  "f64 i =
     (if \<bar>i\<bar> < 2 ^ 53 then i
      else let u = 2 ^ nat (bitlen \<bar>i\<bar> - 53); q = i div u; r = i mod u
           in if 2 * r < u \<or> (2 * r = u \<and> even q) then q * u else (q + 1) * u)"

text \<open>\<^verbatim>\<open>Duration.String\<close>: a decimal fraction without trailing zeros before its unit.\<close>

definition frac_text :: "int \<Rightarrow> nat \<Rightarrow> string" where
  "frac_text v prec =
     (let ds = rev (dropWhile ((=) CHR ''0'') (rev (pad0 prec (nat_text (v mod 10 ^ prec)))))
      in nat_text (v div 10 ^ prec) @ (if ds = [] then [] else CHR ''.'' # ds))"

definition duration_text :: "int \<Rightarrow> string" where
  "duration_text d =
     (let u = \<bar>d\<bar>; sign = (if d < 0 then ''-'' else []) in
      if u = 0 then ''0s''
      else if u < 1000 then sign @ nat_text u @ ''ns''
      else if u < 1000000 then sign @ frac_text u 3 @ [CHR 0xC2, CHR 0xB5, CHR ''s'']
      else if u < second then sign @ frac_text u 6 @ ''ms''
      else
        let h = u div (3600 * second); m = u div (60 * second) mod 60; s = u mod (60 * second)
        in sign @ (if h > 0 then nat_text h @ ''h'' else []) @
           (if h > 0 \<or> m > 0 then nat_text m @ ''m'' else []) @ frac_text s 9 @ ''s'')"

section \<open>The retry schedule\<close>

record backoff =
  bk_Base :: int
  bk_Max :: int
  bk_MaxAttempts :: int
  bk_Jitter :: "(int \<Rightarrow> int) option"

definition DefaultBaseDelay :: int where "DefaultBaseDelay = 60 * second"
definition DefaultMaxDelay :: int where "DefaultMaxDelay = 3600 * second"
definition DefaultMaxAttempts :: int where "DefaultMaxAttempts = 8"

definition backoff_withDefaults :: "backoff \<Rightarrow> backoff" where
  "backoff_withDefaults b =
     b\<lparr>bk_Base := (if bk_Base b \<le> 0 then DefaultBaseDelay else bk_Base b),
       bk_Max := (if bk_Max b \<le> 0 then DefaultMaxDelay else bk_Max b),
       bk_MaxAttempts := (if bk_MaxAttempts b \<le> 0 then DefaultMaxAttempts else bk_MaxAttempts b)\<rparr>"

text \<open>
  \<^verbatim>\<open>float64(Base) * math.Pow(2, attempts - 1)\<close> is exact until it overflows to infinity, which
  compares like the exact product.
\<close>

definition Delay :: "backoff \<Rightarrow> int \<Rightarrow> int" where
  "Delay b0 attempts0 =
     (let b = backoff_withDefaults b0;
          attempts = (if attempts0 < 1 then 1 else attempts0);
          grown = f64 (bk_Base b) * 2 ^ nat (attempts - 1);
          delay = (if grown < f64 (bk_Max b) then grown else bk_Max b);
          delay' = (case bk_Jitter b of None \<Rightarrow> delay | Some j \<Rightarrow> j delay)
      in if delay' < 0 then 0 else delay')"

text \<open>The jitter of ten per cent; \<^verbatim>\<open>rand.N\<close> is the argument.\<close>

definition jitter10 :: "(int \<Rightarrow> int) \<Rightarrow> int \<Rightarrow> int" where
  "jitter10 randN d = (if d \<le> 0 then d else let spread = d div 5 in d - spread div 2 + randN (spread + 1))"

definition DefaultBackoff :: "(int \<Rightarrow> int) \<Rightarrow> backoff" where
  "DefaultBackoff randN = \<lparr>bk_Base = DefaultBaseDelay, bk_Max = DefaultMaxDelay,
     bk_MaxAttempts = DefaultMaxAttempts, bk_Jitter = Some (jitter10 randN)\<rparr>"

section \<open>Settings\<close>

record settings =
  sg_BatchSize :: int
  sg_ClaimLease :: int
  sg_Retention :: int
  sg_SendTimeout :: int
  sg_BatchBudget :: int
  sg_Backoff :: backoff

definition settleTimeout :: int where "settleTimeout = 10 * second"

definition settings_withDefaults :: "settings \<Rightarrow> settings" where
  "settings_withDefaults s =
     (let batch = (if sg_BatchSize s \<le> 0 then 50 else sg_BatchSize s);
          lease = (if sg_ClaimLease s \<le> 0 then DefaultClaimLease else sg_ClaimLease s);
          retention = (if sg_Retention s \<le> 0 then DefaultRetention else sg_Retention s);
          send0 = (if sg_SendTimeout s \<le> 0 then 10 * second else sg_SendTimeout s);
          budget0 = (if sg_BatchBudget s \<le> 0 then 60 * second else sg_BatchBudget s);
          latest = lease - settleTimeout;
          budget = (if latest > 0 \<and> budget0 > latest then latest else budget0);
          send = (if send0 > budget then budget else send0)
      in \<lparr>sg_BatchSize = batch, sg_ClaimLease = lease, sg_Retention = retention, sg_SendTimeout = send,
          sg_BatchBudget = budget, sg_Backoff = backoff_withDefaults (sg_Backoff s)\<rparr>)"

section \<open>The store and the transport\<close>

record 's outbox_ops =
  op_ClaimDue :: "int \<Rightarrow> int \<Rightarrow> int \<Rightarrow> 's \<Rightarrow> (outbox_message list \<times> 's) fallible"
  op_ReleaseClaim :: "int \<Rightarrow> outbox_message list \<Rightarrow> 's \<Rightarrow> 's fallible"
  op_MarkSent :: "int \<Rightarrow> outbox_message \<Rightarrow> 's \<Rightarrow> 's fallible"
  op_Reschedule :: "int \<Rightarrow> outbox_message \<Rightarrow> int \<Rightarrow> reason \<Rightarrow> 's \<Rightarrow> 's fallible"
  op_MarkDead :: "int \<Rightarrow> outbox_message \<Rightarrow> reason \<Rightarrow> 's \<Rightarrow> 's fallible"
  op_Prune :: "int \<Rightarrow> int \<Rightarrow> 's \<Rightarrow> (int \<times> 's) fallible"

record send_error =
  se_Permanent :: bool
  se_Text :: string

text \<open>
  The surroundings of a pass: the caller's context, the key, the transport and the instant at
  which a write begun at an instant is over.
\<close>

record pass_env =
  pe_Deadline :: "int option"
  pe_Cancelled :: "int option"
  pe_SealKey :: "seal option"
  pe_Send :: "outbox_message \<Rightarrow> int \<Rightarrow> int \<Rightarrow> send_error option \<times> int"
  pe_WriteTime :: "int \<Rightarrow> int"

definition reached :: "int option \<Rightarrow> int \<Rightarrow> bool" where
  "reached t now = (case t of None \<Rightarrow> False | Some x \<Rightarrow> x \<le> now)"

text \<open>\<^verbatim>\<open>ctx.Err() != nil\<close>, and whether a context with a deadline of its own ran into a deadline.\<close>

definition ctx_done :: "pass_env \<Rightarrow> int \<Rightarrow> bool" where
  "ctx_done env now \<longleftrightarrow> reached (pe_Deadline env) now \<or> reached (pe_Cancelled env) now"

definition deadline_exceeded :: "pass_env \<Rightarrow> int \<Rightarrow> int \<Rightarrow> bool" where
  "deadline_exceeded env own now =
     (let d = (case pe_Deadline env of None \<Rightarrow> own | Some x \<Rightarrow> min own x)
      in d \<le> now \<and> (case pe_Cancelled env of None \<Rightarrow> True | Some c \<Rightarrow> d \<le> c))"

section \<open>One delivery\<close>

datatype delivery_outcome = OutcomeSettled | OutcomeUnclaimed

type_synonym 's delivered = "delivery_outcome \<times> message option \<times> int \<times> 's"

text \<open>A write that fails leaves the state and reports.\<close>

definition settled :: "pass_env \<Rightarrow> int \<Rightarrow> 's \<Rightarrow> 's fallible \<Rightarrow> 's delivered" where
  "settled env now s r =
     (case r of Inl e \<Rightarrow> (OutcomeSettled, Some e, pe_WriteTime env now, s)
      | Inr s' \<Rightarrow> (OutcomeSettled, None, pe_WriteTime env now, s'))"


definition settleUnreadable ::
  "'s outbox_ops \<Rightarrow> settings \<Rightarrow> pass_env \<Rightarrow> outbox_message \<Rightarrow> message \<Rightarrow> int \<Rightarrow> 's \<Rightarrow> 's delivered" where
  "settleUnreadable ops cfg env m cause now s =
     (let why = \<lparr>rs_Class = ''payload_unreadable'', rs_Detail = message_text cause\<rparr>
      in if om_Attempts m \<ge> bk_MaxAttempts (sg_Backoff cfg)
         then settled env now s (op_MarkDead ops now m why s)
         else settled env now s (op_Reschedule ops now m (now + Delay (sg_Backoff cfg) (om_Attempts m)) why s))"

text \<open>The outcome of a send that ended at an instant with an answer.\<close>

definition conclude ::
  "'s outbox_ops \<Rightarrow> settings \<Rightarrow> pass_env \<Rightarrow> outbox_message \<Rightarrow> int \<Rightarrow> bool \<Rightarrow> int \<Rightarrow> send_error option \<Rightarrow> int \<Rightarrow> 's \<Rightarrow> 's delivered" where
  "conclude ops cfg env m window whole start err now s =
     (case err of
        None \<Rightarrow> settled env now s (op_MarkSent ops now m s)
      | Some e \<Rightarrow>
          let timedOut = deadline_exceeded env (start + window) now;
              cls = (if timedOut then ''delivery_timeout'' else ''transient_failure'');
              text = (if timedOut then ''delivery timed out after '' @ duration_text window @ '': '' @ se_Text e else se_Text e)
          in if ctx_done env now then (OutcomeUnclaimed, None, now, s)
             else if timedOut \<and> \<not> whole then (OutcomeUnclaimed, None, now, s)
             else if se_Permanent e
             then settled env now s (op_MarkDead ops now m \<lparr>rs_Class = ''permanent_failure'', rs_Detail = text\<rparr> s)
             else if om_Attempts m \<ge> bk_MaxAttempts (sg_Backoff cfg)
             then settled env now s (op_MarkDead ops now m \<lparr>rs_Class = ''attempts_exhausted'', rs_Detail = text\<rparr> s)
             else settled env now s (op_Reschedule ops now m (now + Delay (sg_Backoff cfg) (om_Attempts m))
                    \<lparr>rs_Class = cls, rs_Detail = text\<rparr> s))"

definition deliver ::
  "'s outbox_ops \<Rightarrow> settings \<Rightarrow> pass_env \<Rightarrow> outbox_message \<Rightarrow> int \<Rightarrow> bool \<Rightarrow> int \<Rightarrow> 's \<Rightarrow> 's delivered" where
  "deliver ops cfg env m window whole start s =
     (case seal_Open (pe_SealKey env) (om_Payload m) of
        Inl cause \<Rightarrow> settleUnreadable ops cfg env m cause start s
      | Inr plain \<Rightarrow>
          (case pe_Send env (m\<lparr>om_Payload := plain\<rparr>) start window of
             (err, now) \<Rightarrow> conclude ops cfg env (m\<lparr>om_Payload := plain\<rparr>) window whole start err now s))"

section \<open>One pass\<close>

definition batchDeadline :: "settings \<Rightarrow> pass_env \<Rightarrow> int \<Rightarrow> int" where
  "batchDeadline cfg env now =
     now + (case pe_Deadline env of
              None \<Rightarrow> sg_BatchBudget cfg
            | Some caller \<Rightarrow> if caller - now < sg_BatchBudget cfg then caller - now else sg_BatchBudget cfg)"

definition sendWindow :: "settings \<Rightarrow> int \<Rightarrow> int \<Rightarrow> bool \<Rightarrow> int \<times> bool" where
  "sendWindow cfg deadline now first =
     (let remaining = deadline - now
      in if remaining \<ge> sg_SendTimeout cfg then (sg_SendTimeout cfg, True)
         else if first \<and> remaining > 0 then (remaining, False)
         else (0, False))"

text \<open>What is left of the batch, how many outcomes could not be written, the clock and the state.\<close>

fun deliverLoop ::
  "'s outbox_ops \<Rightarrow> settings \<Rightarrow> pass_env \<Rightarrow> int \<Rightarrow> bool \<Rightarrow> outbox_message list \<Rightarrow> int \<Rightarrow> 's \<Rightarrow>
   outbox_message list \<times> int \<times> int \<times> 's" where
  "deliverLoop ops cfg env deadline first [] now s = ([], 0, now, s)"
| "deliverLoop ops cfg env deadline first (m # rest) now s =
     (if ctx_done env now then (m # rest, 0, now, s)
      else case sendWindow cfg deadline now first of (window, whole) \<Rightarrow>
        if window \<le> 0 then (m # rest, 0, now, s)
        else case deliver ops cfg env m window whole now s of (outcome, err, now1, s1) \<Rightarrow>
          let failed = (if err = None then 0 else 1)
          in if outcome = OutcomeUnclaimed then (m # rest, failed, now1, s1)
             else case deliverLoop ops cfg env deadline False rest now1 s1 of (left, unsettled, now2, s2) \<Rightarrow>
               (left, failed + unsettled, now2, s2))"

definition releaseClaims :: "'s outbox_ops \<Rightarrow> outbox_message list \<Rightarrow> int \<Rightarrow> 's \<Rightarrow> message list \<times> 's" where
  "releaseClaims ops msgs now s =
     (if msgs = [] then ([], s)
      else case op_ReleaseClaim ops now msgs s of
          Inl e \<Rightarrow> ([Errorf ''outbox: return %d unattempted messages to the queue: %w'' [I (int (length msgs))]], s)
        | Inr s' \<Rightarrow> ([], s'))"

text \<open>The joined problems of the pass, none being success.\<close>

definition DeliverDue :: "'s outbox_ops \<Rightarrow> settings \<Rightarrow> pass_env \<Rightarrow> int \<Rightarrow> 's \<Rightarrow> message list \<times> 's" where
  "DeliverDue ops cfg env now s =
     (case op_ClaimDue ops now (sg_BatchSize cfg) (sg_ClaimLease cfg) s of
        Inl e \<Rightarrow> ([e], s)
      | Inr (msgs, s1) \<Rightarrow>
          if msgs = [] then ([], s1)
          else let now1 = pe_WriteTime env now; deadline = batchDeadline cfg env now1 in
            case deliverLoop ops cfg env deadline True msgs now1 s1 of (rest, unsettled, now2, s2) \<Rightarrow>
            case releaseClaims ops rest now2 s2 of (problems, s3) \<Rightarrow>
              ((if unsettled > 0
                then [Errorf ''outbox: %d of %d claimed messages could not be settled'' [I unsettled, I (int (length msgs))]]
                else []) @ problems, s3))"

definition PruneSettled :: "'s outbox_ops \<Rightarrow> settings \<Rightarrow> int \<Rightarrow> 's \<Rightarrow> unit fallible \<times> 's" where
  "PruneSettled ops cfg now s =
     (case op_Prune ops now (sg_Retention cfg) s of Inl e \<Rightarrow> (Inl e, s) | Inr (_, s') \<Rightarrow> (Inr (), s'))"

text \<open>The store of theory Outbox behind a database that may be out of reach at an instant.\<close>

definition reachable_db :: "(int \<Rightarrow> bool) \<Rightarrow> int \<Rightarrow> 'a fallible \<Rightarrow> 'a fallible" where
  "reachable_db down now r = (if down now then Inl (text_msg ''connection refused'') else r)"

definition pg_ops :: "outbox_store \<Rightarrow> (int \<Rightarrow> bool) \<Rightarrow> (string \<Rightarrow> bool) \<Rightarrow> outbox_db outbox_ops" where
  "pg_ops st down locked =
     \<lparr>op_ClaimDue = (\<lambda>now limit lease d. reachable_db down now
        (case ClaimDue locked now limit lease (od_Rows d) of
           Inl e \<Rightarrow> Inl e | Inr (msgs, rows) \<Rightarrow> Inr (msgs, d\<lparr>od_Rows := rows\<rparr>))),
      op_ReleaseClaim = (\<lambda>now msgs d. reachable_db down now (on_rows (ReleaseClaim now msgs) d)),
      op_MarkSent = (\<lambda>now m d. reachable_db down now (on_rows (MarkSent now m) d)),
      op_Reschedule = (\<lambda>now m t r d. reachable_db down now (on_rows (Reschedule now m t r) d)),
      op_MarkDead = (\<lambda>now m r d. reachable_db down now (MarkDead st now m r d)),
      op_Prune = (\<lambda>now olderThan d. reachable_db down now
        (case Prune now olderThan (od_Rows d) of (n, rows) \<Rightarrow> Inr (n, d\<lparr>od_Rows := rows\<rparr>)))\<rparr>"

section \<open>The contract of a message store\<close>

definition sent_row :: "int \<Rightarrow> outbox_row \<Rightarrow> outbox_row" where
  "sent_row now r = r\<lparr>ob_Status := Sent, ob_SentAt := Some now, ob_LastError := None, ob_Payload := cleared, ob_UpdatedAt := now\<rparr>"

definition retry_row :: "int \<Rightarrow> int \<Rightarrow> reason \<Rightarrow> outbox_row \<Rightarrow> outbox_row" where
  "retry_row now t why r = r\<lparr>ob_NextAttemptAt := t, ob_LastError := Some (reason_detail why), ob_UpdatedAt := now\<rparr>"

definition dead_row :: "int \<Rightarrow> reason \<Rightarrow> outbox_row \<Rightarrow> outbox_row" where
  "dead_row now why r = r\<lparr>ob_Status := Dead, ob_FailedAt := Some now, ob_LastError := Some (reason_detail why),
     ob_Payload := cleared, ob_DedupeKey := None, ob_UpdatedAt := now\<rparr>"

text \<open>The row a claimed message was read from, while nobody else has touched it.\<close>

definition held :: "outbox_message \<Rightarrow> outbox_row \<Rightarrow> bool" where
  "held m r \<longleftrightarrow> ob_ID r = om_ID m \<and> ob_Status r = Pending \<and> ob_Attempts r = om_Attempts m \<and> ob_Tenant r = om_TenantID m"

text \<open>What one attempt came to, and the row that records it.\<close>

datatype attempt = Unreadable message | Answer "send_error option"

definition attempt_at :: "pass_env \<Rightarrow> outbox_message \<Rightarrow> int \<Rightarrow> int \<Rightarrow> attempt \<times> int" where
  "attempt_at env m window start =
     (case seal_Open (pe_SealKey env) (om_Payload m) of
        Inl cause \<Rightarrow> (Unreadable cause, start)
      | Inr plain \<Rightarrow> (case pe_Send env (m\<lparr>om_Payload := plain\<rparr>) start window of (err, t) \<Rightarrow> (Answer err, t)))"

definition gives_up :: "settings \<Rightarrow> outbox_message \<Rightarrow> attempt \<Rightarrow> bool" where
  "gives_up cfg m a \<longleftrightarrow> om_Attempts m \<ge> bk_MaxAttempts (sg_Backoff cfg) \<or> (\<exists>e. a = Answer (Some e) \<and> se_Permanent e)"

definition records :: "settings \<Rightarrow> outbox_message \<Rightarrow> attempt \<Rightarrow> int \<Rightarrow> outbox_row \<Rightarrow> bool" where
  "records cfg m a t r \<longleftrightarrow>
     (if a = Answer None then ob_Status r = Sent
      else if gives_up cfg m a then ob_Status r = Dead
      else ob_Status r = Pending \<and> ob_Attempts r = om_Attempts m \<and> ob_LastError r \<noteq> None \<and>
        ob_NextAttemptAt r = t + Delay (sg_Backoff cfg) (om_Attempts m))"

text \<open>
  What a pass tries, without a store: in order, until the caller's context is done, the budget
  leaves no window, or a refusal was cut short, by the caller or because the window was clipped.
  An acceptance is never cut short. The tried messages come with their attempt and its instant.
\<close>

definition cut_short :: "pass_env \<Rightarrow> int \<Rightarrow> bool \<Rightarrow> int \<Rightarrow> attempt \<Rightarrow> int \<Rightarrow> bool" where
  "cut_short env window whole start a u \<longleftrightarrow>
     (case a of Answer (Some _) \<Rightarrow> True | _ \<Rightarrow> False) \<and>
     (ctx_done env u \<or> deadline_exceeded env (start + window) u \<and> \<not> whole)"

fun attempts ::
  "settings \<Rightarrow> pass_env \<Rightarrow> int \<Rightarrow> bool \<Rightarrow> outbox_message list \<Rightarrow> int \<Rightarrow> (outbox_message \<times> attempt \<times> int) list \<times> outbox_message list" where
  "attempts cfg env deadline first [] now = ([], [])"
| "attempts cfg env deadline first (m # rest) now =
     (case sendWindow cfg deadline now first of (window, whole) \<Rightarrow>
        if ctx_done env now \<or> window \<le> 0 then ([], m # rest)
        else case attempt_at env m window now of (a, u) \<Rightarrow>
          if cut_short env window whole now a u then ([], m # rest)
          else case attempts cfg env deadline False rest (pe_WriteTime env u) of (tried, left) \<Rightarrow> ((m, a, u) # tried, left))"

lemma cut_short_iff: "cut_short env window whole start a u \<longleftrightarrow>
    (\<exists>e. a = Answer (Some e)) \<and> (ctx_done env u \<or> deadline_exceeded env (start + window) u \<and> \<not> whole)"
  by (cases a) (auto simp: cut_short_def split: option.split)

lemma attempts_split: "attempts cfg env deadline first msgs now = (tried, left) \<Longrightarrow> msgs = map fst tried @ left"
  by (induction msgs arbitrary: first now tried) (auto split: prod.splits if_splits)

locale message_store =
  fixes ops :: "'s outbox_ops"
    and row :: "'s \<Rightarrow> string \<Rightarrow> outbox_row option"
    and good :: "'s \<Rightarrow> bool"
  assumes claim: "good s \<Longrightarrow> 0 < limit \<Longrightarrow> 0 < lease \<Longrightarrow> op_ClaimDue ops now limit lease s = Inr (msgs, s') \<Longrightarrow>
      good s' \<and> distinct (map om_ID msgs) \<and> (\<forall>m \<in> set msgs. \<exists>r. row s' (om_ID m) = Some r \<and> held m r)"
    and sent: "good s \<Longrightarrow> row s (om_ID m) = Some r \<Longrightarrow> held m r \<Longrightarrow> op_MarkSent ops now m s = Inr s' \<Longrightarrow>
      good s' \<and> row s' = (row s)(om_ID m \<mapsto> sent_row now r)"
    and retry: "good s \<Longrightarrow> row s (om_ID m) = Some r \<Longrightarrow> held m r \<Longrightarrow> op_Reschedule ops now m t why s = Inr s' \<Longrightarrow>
      good s' \<and> row s' = (row s)(om_ID m \<mapsto> retry_row now t why r)"
    and dead: "good s \<Longrightarrow> row s (om_ID m) = Some r \<Longrightarrow> held m r \<Longrightarrow> op_MarkDead ops now m why s = Inr s' \<Longrightarrow>
      good s' \<and> row s' = (row s)(om_ID m \<mapsto> dead_row now why r)"
    and release: "good s \<Longrightarrow> (\<And>m. m \<in> set msgs \<Longrightarrow> \<exists>r. row s (om_ID m) = Some r \<and> held m r) \<Longrightarrow>
      op_ReleaseClaim ops now msgs s = Inr s' \<Longrightarrow>
      good s' \<and> row s' = (\<lambda>i. if i \<in> om_ID ` set msgs then map_option (unclaim now) (row s i) else row s i)"
begin

lemma retry_recorded:
  "held m r \<Longrightarrow> \<not> gives_up cfg m a \<Longrightarrow> a \<noteq> Answer None \<Longrightarrow>
     records cfg m a t (retry_row now (t + Delay (sg_Backoff cfg) (om_Attempts m)) why r)"
  by (simp add: records_def retry_row_def held_def)

lemma dead_recorded: "gives_up cfg m a \<Longrightarrow> a \<noteq> Answer None \<Longrightarrow> records cfg m a t (dead_row now why r)"
  by (simp add: records_def dead_row_def)

lemma sent_recorded: "records cfg m (Answer None) t (sent_row now r)"
  by (simp add: records_def sent_row_def)

lemma settled_None: "settled env now s x = (outcome, None, t, s1) \<longleftrightarrow>
    outcome = OutcomeSettled \<and> x = Inr s1 \<and> t = pe_WriteTime env now"
  by (cases x) (auto simp: settled_def)

lemma held_payload: "held (m\<lparr>om_Payload := p\<rparr>) r \<longleftrightarrow> held m r"
  by (simp add: held_def)

lemma deliver_records:
  assumes g: "good s" "row s (om_ID m) = Some r" "held m r"
    and d: "deliver ops cfg env m window whole start s = (outcome, None, t, s1)" and a: "attempt_at env m window start = (a, u)"
  shows "if cut_short env window whole start a u then outcome = OutcomeUnclaimed \<and> s1 = s
    else outcome = OutcomeSettled \<and> t = pe_WriteTime env u \<and> good s1 \<and> (\<exists>r'. records cfg m a u r' \<and> row s1 = (row s)(om_ID m \<mapsto> r'))"
proof (cases "seal_Open (pe_SealKey env) (om_Payload m)")
  case (Inl cause)
  then have a: "a = Unreadable cause" "u = start" using a by (simp_all add: attempt_at_def)
  let ?why = "\<lparr>rs_Class = ''payload_unreadable'', rs_Detail = message_text cause\<rparr>"
  from d Inl have u: "settleUnreadable ops cfg env m cause start s = (outcome, None, t, s1)" by (simp add: deliver_def)
  show ?thesis
  proof (cases "om_Attempts m \<ge> bk_MaxAttempts (sg_Backoff cfg)")
    case True
    with u have "op_MarkDead ops start m ?why s = Inr s1" "outcome = OutcomeSettled" "t = pe_WriteTime env start"
      by (simp_all add: settleUnreadable_def Let_def settled_None)
    with dead [OF g] dead_recorded [of cfg m "Unreadable cause"] True a show ?thesis by (fastforce simp: gives_up_def cut_short_iff)
  next
    case False
    with u have "op_Reschedule ops start m (start + Delay (sg_Backoff cfg) (om_Attempts m)) ?why s = Inr s1" "outcome = OutcomeSettled"
      "t = pe_WriteTime env start"
      by (simp_all add: settleUnreadable_def Let_def settled_None)
    with retry [OF g] retry_recorded [OF g(3), of cfg "Unreadable cause"] False a show ?thesis by (fastforce simp: gives_up_def cut_short_iff)
  qed
next
  case (Inr plain)
  let ?m = "m\<lparr>om_Payload := plain\<rparr>"
  obtain err now where s: "pe_Send env ?m start window = (err, now)" by (cases "pe_Send env ?m start window")
  then have a: "a = Answer err" "u = now" using Inr a by (simp_all add: attempt_at_def)
  have h: "row s (om_ID ?m) = Some r" "held ?m r" using g by (simp_all add: held_payload)
  from d Inr s have D: "conclude ops cfg env ?m window whole start err now s = (outcome, None, t, s1)"
    by (simp add: deliver_def)
  show ?thesis
  proof (cases err)
    case None
    with D have "op_MarkSent ops now ?m s = Inr s1" "outcome = OutcomeSettled" "t = pe_WriteTime env now" by (simp_all add: conclude_def settled_None)
    with sent [OF g(1) h] sent_recorded None a show ?thesis by (fastforce simp: cut_short_iff)
  next
    case (Some e)
    show ?thesis
    proof (cases "cut_short env window whole start a u")
      case True
      with D Some a have "outcome = OutcomeUnclaimed \<and> s1 = s" by (auto simp: conclude_def Let_def settled_None cut_short_iff split: if_splits)
      with True show ?thesis by simp
    next
      case claimed: False
      then have stays: "\<not> ctx_done env now" "\<not> (deadline_exceeded env (start + window) now \<and> \<not> whole)"
        using Some a by (auto simp: cut_short_iff)
      show ?thesis
      proof (cases "gives_up cfg m (Answer err)")
        case True
        then obtain why where "op_MarkDead ops now ?m why s = Inr s1" "outcome = OutcomeSettled" "t = pe_WriteTime env now"
          using D stays Some by (auto simp: conclude_def Let_def gives_up_def settled_None split: if_splits)
        with dead [OF g(1) h] dead_recorded [OF True] Some a claimed show ?thesis by fastforce
      next
        case nf: False
        then obtain why where "op_Reschedule ops now ?m (now + Delay (sg_Backoff cfg) (om_Attempts m)) why s = Inr s1"
          "outcome = OutcomeSettled" "t = pe_WriteTime env now"
          using D stays Some by (auto simp: conclude_def Let_def gives_up_def settled_None split: if_splits)
        with retry [OF g(1) h] retry_recorded [OF g(3) nf] Some a claimed show ?thesis by fastforce
      qed
    qed
  qed
qed

lemma unsettled_nonneg:
  "deliverLoop ops cfg env deadline first msgs now s = (left, unsettled, now', s') \<Longrightarrow> 0 \<le> unsettled"
proof (induction msgs arbitrary: first now s left unsettled)
  case (Cons m msgs)
  then show ?case by (auto simp: Let_def split: if_splits prod.splits)
qed simp

text \<open>A loop that wrote every outcome: each tried message carries its fate, the rest is as claimed.\<close>

lemma loop_records:
  assumes "deliverLoop ops cfg env deadline first msgs now s = (left, 0, now', s')" "good s" "distinct (map om_ID msgs)"
    "\<And>m. m \<in> set msgs \<Longrightarrow> \<exists>r. row s (om_ID m) = Some r \<and> held m r"
  shows "\<exists>tried. attempts cfg env deadline first msgs now = (tried, left) \<and> good s' \<and>
    (\<forall>(m, a, u) \<in> set tried. \<exists>r. row s' (om_ID m) = Some r \<and> records cfg m a u r) \<and>
    (\<forall>i. i \<notin> om_ID ` fst ` set tried \<longrightarrow> row s' i = row s i)"
  using assms
proof (induction msgs arbitrary: first now s)
  case Nil
  then show ?case by simp
next
  case (Cons m msgs)
  obtain window whole where w: "sendWindow cfg deadline now first = (window, whole)" by fastforce
  show ?case
  proof (cases "ctx_done env now \<or> window \<le> 0")
    case True
    with Cons.prems(1,2) w show ?thesis by (auto split: if_splits)
  next
    case run: False
    obtain outcome err now1 s1 where d: "deliver ops cfg env m window whole now s = (outcome, err, now1, s1)"
      by (cases "deliver ops cfg env m window whole now s") auto
    obtain a u where a: "attempt_at env m window now = (a, u)" by fastforce
    obtain r where r: "row s (om_ID m) = Some r" "held m r" using Cons.prems(4) by auto
    have err: "err = None" using Cons.prems(1) run w d
      by (auto simp: Let_def split: if_splits prod.splits dest!: unsettled_nonneg)
    note rec = deliver_records [OF Cons.prems(2) r d [unfolded err] a]
    show ?thesis
    proof (cases "cut_short env window whole now a u")
      case True
      with rec Cons.prems(1) run w d have "left = m # msgs" "s' = s" by (auto simp: Let_def split: if_splits)
      with True run w a Cons.prems(2) show ?thesis by auto
    next
      case False
      with rec have out: "outcome = OutcomeSettled" "now1 = pe_WriteTime env u" "good s1" by simp_all
      from False rec obtain r' where r': "records cfg m a u r'" and row1: "row s1 = (row s)(om_ID m \<mapsto> r')" by auto
      obtain left1 u1 now2 s2 where l: "deliverLoop ops cfg env deadline False msgs now1 s1 = (left1, u1, now2, s2)"
        by (cases "deliverLoop ops cfg env deadline False msgs now1 s1") auto
      with Cons.prems(1) run w d out err have eq: "left1 = left" "s2 = s'" "u1 = 0" "now2 = now'" by (auto simp: Let_def)
      have other: "om_ID x \<noteq> om_ID m" if "x \<in> set msgs" for x using imageI [OF that, of om_ID] Cons.prems(3) by auto
      have held1: "\<exists>r. row s1 (om_ID x) = Some r \<and> held x r" if "x \<in> set msgs" for x
        using Cons.prems(4) [of x] that other [OF that] by (simp add: row1)
      obtain tried where tried: "attempts cfg env deadline False msgs now1 = (tried, left)" "good s'"
        "\<forall>(m, a, u) \<in> set tried. \<exists>r. row s' (om_ID m) = Some r \<and> records cfg m a u r"
        "\<forall>i. i \<notin> om_ID ` fst ` set tried \<longrightarrow> row s' i = row s1 i"
        using Cons.IH [OF l [unfolded eq] out(3) _ held1] Cons.prems(3) by auto
      have "om_ID m \<notin> om_ID ` fst ` set tried" using attempts_split [OF tried(1)] Cons.prems(3) by (auto simp: image_image)
      then have "row s' (om_ID m) = Some r'" using tried(4) by (simp add: row1)
      moreover have "row s' i = row s i" if "i \<notin> om_ID ` fst ` set ((m, a, u) # tried)" for i
        using that tried(4) by (simp add: row1)
      ultimately show ?thesis using tried(1-3) r' False run w a out(2)
        by (intro exI [of _ "(m, a, u) # tried"]) auto
    qed
  qed
qed

text \<open>A pass without problems accounts for every message it claimed.\<close>

lemma pass_accounts:
  assumes "good s" "0 < sg_BatchSize cfg" "0 < sg_ClaimLease cfg"
    "op_ClaimDue ops now (sg_BatchSize cfg) (sg_ClaimLease cfg) s = Inr (msgs, s1)"
    "DeliverDue ops cfg env now s = ([], s3)"
    "attempts cfg env (batchDeadline cfg env (pe_WriteTime env now)) True msgs (pe_WriteTime env now) = (tried, left)"
  shows "good s3 \<and>
    (\<forall>(m, a, u) \<in> set tried. \<exists>r. row s3 (om_ID m) = Some r \<and> records cfg m a u r) \<and>
    (\<exists>t. \<forall>m \<in> set left. row s3 (om_ID m) = map_option (unclaim t) (row s1 (om_ID m))) \<and>
    (\<forall>i. i \<notin> om_ID ` set msgs \<longrightarrow> row s3 i = row s1 i)"
proof (cases "msgs = []")
  case True
  with assms claim [OF assms(1-4)] show ?thesis by (simp add: DeliverDue_def)
next
  case False
  note c = claim [OF assms(1-4)]
  obtain rest unsettled now2 s2 where l: "deliverLoop ops cfg env (batchDeadline cfg env (pe_WriteTime env now)) True msgs
      (pe_WriteTime env now) s1 = (rest, unsettled, now2, s2)"
    by (cases "deliverLoop ops cfg env (batchDeadline cfg env (pe_WriteTime env now)) True msgs (pe_WriteTime env now) s1") auto
  obtain problems where rel: "releaseClaims ops rest now2 s2 = (problems, s3)" "unsettled = 0" "problems = []"
    using assms(4,5) False l unsettled_nonneg [OF l] by (auto simp: DeliverDue_def Let_def split: prod.splits if_splits)
  from loop_records [OF l [unfolded rel(2)]] c assms(6) have eq: "rest = left" and sent: "good s2"
    "\<forall>(m, a, u) \<in> set tried. \<exists>r. row s2 (om_ID m) = Some r \<and> records cfg m a u r"
    "\<forall>i. i \<notin> om_ID ` fst ` set tried \<longrightarrow> row s2 i = row s1 i"
    by auto
  have msgs: "msgs = map fst tried @ left" by (rule attempts_split [OF assms(6)])
  have disj: "om_ID m \<notin> om_ID ` fst ` set tried" if "m \<in> set left" for m
    using that c msgs by (auto simp: image_image)
  have "good s3 \<and> row s3 = (\<lambda>i. if i \<in> om_ID ` set left then map_option (unclaim now2) (row s2 i) else row s2 i)"
  proof (cases "left = []")
    case True
    with rel eq sent(1) show ?thesis by (simp add: releaseClaims_def)
  next
    case False
    with rel eq have "op_ReleaseClaim ops now2 left s2 = Inr s3" by (auto simp: releaseClaims_def split: sum.splits)
    moreover have "\<exists>r. row s2 (om_ID m) = Some r \<and> held m r" if "m \<in> set left" for m
      using that c msgs sent(3) disj [OF that] by simp
    ultimately show ?thesis using release [OF sent(1)] by blast
  qed
  moreover have "om_ID (fst x) \<notin> om_ID ` set left" if "x \<in> set tried" for x
    using that disj by (metis imageE imageI)
  ultimately have "good s3"
    "\<And>x. x \<in> set tried \<Longrightarrow> row s3 (om_ID (fst x)) = row s2 (om_ID (fst x))"
    "\<And>m. m \<in> set left \<Longrightarrow> row s3 (om_ID m) = map_option (unclaim now2) (row s1 (om_ID m))"
    "\<And>i. i \<notin> om_ID ` set msgs \<Longrightarrow> row s3 i = row s1 i"
    using sent(3) disj msgs by (auto simp: image_Un)
  with sent(2) show ?thesis by fastforce
qed

end

section \<open>The store meets the contract\<close>

definition db_row :: "outbox_db \<Rightarrow> string \<Rightarrow> outbox_row option" where
  "db_row d i = find (\<lambda>r. ob_ID r = i) (od_Rows d)"

definition db_ok :: "outbox_db \<Rightarrow> bool" where
  "db_ok d \<longleftrightarrow> outbox_ok (od_Rows d)"

lemma db_row_Some: "db_row d i = Some r \<Longrightarrow> r \<in> set (od_Rows d) \<and> ob_ID r = i"
  by (auto simp: db_row_def find_Some_iff)

lemma db_row_mem: "db_ok d \<Longrightarrow> r \<in> set (od_Rows d) \<Longrightarrow> db_row d (ob_ID r) = Some r"
proof -
  assume a: "db_ok d" "r \<in> set (od_Rows d)"
  then obtain r' where f: "db_row d (ob_ID r) = Some r'"
    by (cases "db_row d (ob_ID r)") (auto simp: db_row_def find_None_iff)
  with db_row_Some [OF f] a have "r' = r" by (auto simp: db_ok_def outbox_ok_def distinct_map inj_on_def)
  with f show ?thesis by simp
qed

lemma find_map_ID:
  assumes "\<And>r. ob_ID (g r) = ob_ID r"
  shows "find (\<lambda>r. ob_ID r = i) (map g rows) = map_option g (find (\<lambda>r. ob_ID r = i) rows)"
  using assms by (induction rows) auto

lemma update_db_row:
  assumes "update_rows P f (od_Rows d) = Inr rows" "clears f" "db_ok d"
  shows "db_ok (d\<lparr>od_Rows := rows\<rparr>) \<and> db_row (d\<lparr>od_Rows := rows\<rparr>) i = map_option (\<lambda>r. if P r then f r else r) (db_row d i)"
proof -
  have "ob_ID (f r) = ob_ID r" for r using assms(2) by (simp add: clears_def)
  then have "ob_ID (if P r then f r else r) = ob_ID r" for r by simp
  from find_map_ID [of "\<lambda>r. if P r then f r else r", OF this] show ?thesis
    using assms update_ok [OF assms(1,2)] by (simp add: db_row_def db_ok_def update_rows_Inr)
qed

lemma settle_db_row:
  assumes "update_rows (\<lambda>r. visible r \<and> pending_row (om_ID m) r) f (od_Rows d) = Inr rows" "clears f" "db_ok d"
    "db_row d (om_ID m) = Some r" "held m r" "visible r"
  shows "db_ok (d\<lparr>od_Rows := rows\<rparr>) \<and> db_row (d\<lparr>od_Rows := rows\<rparr>) = (db_row d)(om_ID m \<mapsto> f r)"
proof -
  have "db_row (d\<lparr>od_Rows := rows\<rparr>) i = ((db_row d)(om_ID m \<mapsto> f r)) i" for i
  proof (cases "db_row d i")
    case None
    then show ?thesis using update_db_row [OF assms(1-3)] assms(4) by auto
  next
    case (Some x)
    then have "ob_ID x = i" using db_row_Some by blast
    then show ?thesis using update_db_row [OF assms(1-3), of i] assms(4-6) Some by (auto simp: pending_row_def held_def)
  qed
  then show ?thesis using update_db_row [OF assms(1-3)] by blast
qed

lemma clears_rows [wf_intros]: "clears (sent_row now)" "clears (retry_row now t why)" "clears (dead_row now why)"
  by (simp_all add: clears_def settled_cleared_def sent_row_def retry_row_def dead_row_def)

lemma reachable_db_Inr [simp]: "reachable_db down now r = Inr x \<longleftrightarrow> \<not> down now \<and> r = Inr x"
  by (simp add: reachable_db_def)

lemma on_rows_Inr: "on_rows f d = Inr d' \<longleftrightarrow> (\<exists>rows. f (od_Rows d) = Inr rows \<and> d' = d\<lparr>od_Rows := rows\<rparr>)"
  by (auto simp: on_rows_def split: sum.splits)

lemma db_row_chain [simp]: "db_row (d\<lparr>od_Chain := c\<rparr>) = db_row d" "db_ok (d\<lparr>od_Chain := c\<rparr>) = db_ok d"
  by (simp_all add: db_row_def [abs_def] db_ok_def)

lemma pg_claim:
  assumes "db_ok d" "0 < limit" "0 < lease" "op_ClaimDue (pg_ops st down locked) now limit lease d = Inr (msgs, d')"
  shows "db_ok d' \<and> distinct (map om_ID msgs) \<and> (\<forall>m \<in> set msgs. \<exists>r. db_row d' (om_ID m) = Some r \<and> held m r)"
proof -
  obtain rows where c: "ClaimDue locked now limit lease (od_Rows d) = Inr (msgs, rows)" "d' = d\<lparr>od_Rows := rows\<rparr>"
    using assms(4) by (auto simp: pg_ops_def split: sum.splits)
  let ?c = "claimable locked limit now (od_Rows d)"
  note r = ClaimDue_Inr [OF c(1) assms(2,3)]
  have u: "update_rows (\<lambda>r. ob_ID r \<in> set ?c) (charge now lease) (od_Rows d) = Inr rows"
    using c(1) assms(2,3) by (auto simp: ClaimDue_def Let_def split: sum.splits)
  have ok: "db_ok d'" using update_db_row [OF u clears_ops(1) assms(1)] c(2) by blast
  have "held m r \<and> db_row d' (om_ID m) = Some r" if "m = row_message r" "r \<in> set rows" "ob_ID r \<in> set ?c" for m r
  proof -
    note t = that
    obtain x where x: "x \<in> set (od_Rows d)" "r = charge now lease x" "ob_ID x \<in> set ?c"
      using t(2,3) r by (auto split: if_splits)
    with claimable_sorted obtain y where y: "y \<in> set (od_Rows d)" "ob_ID y = ob_ID x" "due now y" by blast
    then have "y = x" using x(1) assms(1) by (auto simp: db_ok_def outbox_ok_def distinct_map inj_on_def)
    with x y(3) that(1) have "held m r" by (simp add: held_def due_def row_message_def)
    with db_row_mem [OF ok, of r] that c(2) show ?thesis by simp
  qed
  moreover have "distinct (map ob_ID rows)" using ok c(2) by (simp add: db_ok_def outbox_ok_def)
  then have "distinct (map ob_ID (filter (\<lambda>r. ob_ID r \<in> set ?c) rows))" by (rule distinct_map_filter)
  then have "distinct (map om_ID msgs)" using r [THEN conjunct2] by (simp add: comp_def)
  ultimately show ?thesis using ok r by auto
qed

lemma pg_dead:
  assumes "db_ok d" "db_row d (om_ID m) = Some r" "held m r" "op_MarkDead (pg_ops st down locked) now m why d = Inr d'"
  shows "db_ok d' \<and> db_row d' = (db_row d)(om_ID m \<mapsto> dead_row now why r)"
proof -
  have "MarkDead st now m why d = Inr d'" using assms(4) by (simp add: pg_ops_def)
  then obtain visible rows where "settleDead visible now m why (od_Rows d) = Inr rows" "visible r"
    "db_ok d' = db_ok (d\<lparr>od_Rows := rows\<rparr>)" "db_row d' = db_row (d\<lparr>od_Rows := rows\<rparr>)"
    using assms(3) by (auto simp: MarkDead_def Let_def on_rows_Inr held_def db_ok_def db_row_def [abs_def] split: if_splits sum.splits)
  with settle_db_row [OF _ clears_ops(5) assms(1-3)] show ?thesis
    by (simp add: settleDead_def dead_row_def)
qed

lemma pg_release:
  assumes "db_ok d" "\<And>m. m \<in> set msgs \<Longrightarrow> \<exists>r. db_row d (om_ID m) = Some r \<and> held m r"
    "op_ReleaseClaim (pg_ops st down locked) now msgs d = Inr d'"
  shows "db_ok d' \<and> db_row d' = (\<lambda>i. if i \<in> om_ID ` set msgs then map_option (unclaim now) (db_row d i) else db_row d i)"
proof (cases "msgs = []")
  case True
  with assms show ?thesis by (auto simp: pg_ops_def on_rows_Inr ReleaseClaim_def)
next
  case False
  with assms(3) obtain rows where u: "update_rows (claimed_by msgs) (unclaim now) (od_Rows d) = Inr rows" "d' = d\<lparr>od_Rows := rows\<rparr>"
    by (auto simp: pg_ops_def on_rows_Inr ReleaseClaim_def)
  note up = update_db_row [OF u(1) clears_ops(2) assms(1)]
  have mine: "claimed_by msgs x \<longleftrightarrow> i \<in> om_ID ` set msgs" if "db_row d i = Some x" for i x
  proof
    assume "i \<in> om_ID ` set msgs"
    then obtain m where m: "m \<in> set msgs" "om_ID m = i" by auto
    with assms(2) [OF m(1)] that have "held m x" by auto
    with m(1) show "claimed_by msgs x" by (auto simp: claimed_by_def held_def)
  qed (use db_row_Some [OF that] in \<open>auto simp: claimed_by_def intro: rev_image_eqI\<close>)
  have "db_row d' i = (if i \<in> om_ID ` set msgs then map_option (unclaim now) (db_row d i) else db_row d i)" for i
    using up [of i] u(2) mine by (cases "db_row d i") auto
  with up u(2) show ?thesis by (auto intro!: ext)
qed

interpretation pg_store: message_store "pg_ops st down locked" db_row db_ok
proof (unfold_locales, goal_cases)
  case (1 d limit lease now msgs d')
  then show ?case using pg_claim by blast
next
  case (2 d m r now d')
  then obtain rows where u: "update_rows (\<lambda>r. True \<and> pending_row (om_ID m) r) (sent_row now) (od_Rows d) = Inr rows" "d' = d\<lparr>od_Rows := rows\<rparr>"
    by (auto simp: pg_ops_def on_rows_Inr MarkSent_def sent_row_def [abs_def])
  show ?case using settle_db_row [OF u(1) clears_rows(1) 2(1-3) TrueI] u(2) by simp
next
  case (3 d m r now t why d')
  then obtain rows where u: "update_rows (\<lambda>r. True \<and> pending_row (om_ID m) r) (retry_row now t why) (od_Rows d) = Inr rows" "d' = d\<lparr>od_Rows := rows\<rparr>"
    by (auto simp: pg_ops_def on_rows_Inr Reschedule_def retry_row_def [abs_def])
  show ?case using settle_db_row [OF u(1) clears_rows(2) 3(1-3) TrueI] u(2) by simp
next
  case (4 d m r now why d')
  then show ?case using pg_dead by blast
next
  case (5 d msgs now d')
  then show ?case using pg_release by blast
qed

section \<open>What a pass does\<close>

text \<open>
  Property C5. A pass that reports no problem accounts for every message it claimed. It tries them in
  order until the caller's context is done, the budget leaves no window, or a refusal was cut
  short by the caller or by a clipped window (\<open>attempts\<close>). The row of every message tried before
  that records the answer, and an acceptance is always recorded: sent when the transport
  accepted, dead when it refused for good or the attempts are spent, else owed again after the
  delay of its attempt count. Every other message of the batch is as before the pass, with its
  attempt refunded and due at its own due time; no other row changed.
\<close>

theorem pass_settles_or_returns:
  assumes "db_ok d" "0 < sg_BatchSize cfg" "0 < sg_ClaimLease cfg"
    "ClaimDue locked now (sg_BatchSize cfg) (sg_ClaimLease cfg) (od_Rows d) = Inr (msgs, rows1)"
    "DeliverDue (pg_ops st down locked) cfg env now d = ([], d3)" "\<not> down now"
    "attempts cfg env (batchDeadline cfg env (pe_WriteTime env now)) True msgs (pe_WriteTime env now) = (tried, left)"
  shows "msgs = map fst tried @ left \<and> db_ok d3 \<and>
    (\<forall>(m, a, u) \<in> set tried. \<exists>r. db_row d3 (om_ID m) = Some r \<and> records cfg m a u r) \<and>
    (\<exists>t. \<forall>m \<in> set left. \<exists>r. db_row d (om_ID m) = Some r \<and>
       db_row d3 (om_ID m) = Some (r\<lparr>ob_NextAttemptAt := ob_DueAt r, ob_UpdatedAt := t\<rparr>)) \<and>
    (\<forall>i. i \<notin> om_ID ` set msgs \<longrightarrow> db_row d3 i = db_row d i)"
proof -
  have c: "op_ClaimDue (pg_ops st down locked) now (sg_BatchSize cfg) (sg_ClaimLease cfg) d = Inr (msgs, d\<lparr>od_Rows := rows1\<rparr>)"
    using assms(4,6) by (simp add: pg_ops_def)
  let ?c = "claimable locked (sg_BatchSize cfg) now (od_Rows d)"
  note r1 = ClaimDue_Inr [OF assms(4,2,3)]
  have ids: "om_ID ` set msgs \<subseteq> set ?c" using r1 by auto
  have find1: "db_row (d\<lparr>od_Rows := rows1\<rparr>) i = map_option (\<lambda>r. if ob_ID r \<in> set ?c then charge now (sg_ClaimLease cfg) r else r) (db_row d i)" for i
    using find_map_ID [of "\<lambda>r. if ob_ID r \<in> set ?c then charge now (sg_ClaimLease cfg) r else r" i "od_Rows d"] r1
    by (simp add: db_row_def)
  have set_ids: "i \<in> om_ID ` set msgs" if "i \<in> set ?c" for i
  proof -
    note t = that
    obtain x where "x \<in> set (od_Rows d)" "ob_ID x = i" using claimable_sorted [OF t] by blast
    with t claimed_messages [OF assms(4,2,3)] show ?thesis by (auto simp: image_image intro: rev_image_eqI)
  qed
  note msgs = attempts_split [OF assms(7)]
  obtain t where p: "db_ok d3"
    "\<forall>(m, a, u) \<in> set tried. \<exists>r. db_row d3 (om_ID m) = Some r \<and> records cfg m a u r"
    "\<forall>m \<in> set left. db_row d3 (om_ID m) = map_option (unclaim t) (db_row (d\<lparr>od_Rows := rows1\<rparr>) (om_ID m))"
    "\<forall>i. i \<notin> om_ID ` set msgs \<longrightarrow> db_row d3 i = db_row (d\<lparr>od_Rows := rows1\<rparr>) i"
    using pg_store.pass_accounts [OF assms(1-3) c assms(5,7)] by blast
  have "\<exists>r. db_row d (om_ID m) = Some r \<and>
       db_row d3 (om_ID m) = Some (r\<lparr>ob_NextAttemptAt := ob_DueAt r, ob_UpdatedAt := t\<rparr>)" if "m \<in> set left" for m
  proof -
    have "om_ID m \<in> set ?c" using that ids msgs by auto
    then obtain r where r: "r \<in> set (od_Rows d)" "ob_ID r = om_ID m" using claimable_sorted by blast
    then have "db_row d (om_ID m) = Some r" using db_row_mem [OF assms(1)] by fastforce
    moreover have "row_checks r" using r(1) assms(1) by (simp add: db_ok_def outbox_ok_def)
    then have "unclaim t (charge now (sg_ClaimLease cfg) r) = r\<lparr>ob_NextAttemptAt := ob_DueAt r, ob_UpdatedAt := t\<rparr>"
      by (simp add: unclaim_def charge_def row_checks_def)
    ultimately show ?thesis using p(3) that find1 [of "om_ID m"] r(2) \<open>om_ID m \<in> set ?c\<close> by simp
  qed
  moreover have "db_row d3 i = db_row d i" if "i \<notin> om_ID ` set msgs" for i
    using p(4) that find1 [of i] set_ids [of i] db_row_Some [of d i] by (cases "db_row d i") auto
  ultimately show ?thesis using p(1,2) msgs by blast
qed

section \<open>Schedules and budgets\<close>

lemma f64_small: "0 \<le> i \<Longrightarrow> i < 2 ^ 53 \<Longrightarrow> f64 i = i"
  by (simp add: f64_def)

lemma tenth:
  fixes r h s x :: int
  shows "0 \<le> r \<Longrightarrow> r \<le> s \<Longrightarrow> 5 * s \<le> x \<Longrightarrow> 2 * h \<le> s \<Longrightarrow> s \<le> 2 * h + 1 \<Longrightarrow>
    10 * (r - h) \<le> x + 10 \<and> 10 * (h - r) \<le> x + 10"
  by (simp add: algebra_simps)

text \<open>
  Without jitter the delay after n failed attempts is the base doubled n - 1 times,
  capped at the maximum: positive, never more than the cap and never less than after fewer attempts.
  The jitter moves it by at most a tenth.
\<close>

theorem retry_schedule:
  assumes "bk_Jitter b = None" "bk_Base b < 2 ^ 53" "bk_Max b < 2 ^ 53" "1 \<le> n"
  shows "Delay b n = min (bk_Base (backoff_withDefaults b) * 2 ^ nat (n - 1)) (bk_Max (backoff_withDefaults b)) \<and>
    0 < Delay b n \<and> Delay b n \<le> bk_Max (backoff_withDefaults b) \<and> (n \<le> k \<longrightarrow> Delay b n \<le> Delay b k) \<and>
    (\<forall>randN d. (\<forall>x > 0. 0 \<le> randN x \<and> randN x < x) \<longrightarrow> 0 \<le> d \<longrightarrow>
       10 * \<bar>jitter10 randN d - d\<bar> \<le> d + 10)"
proof -
  let ?B = "bk_Base (backoff_withDefaults b)" and ?M = "bk_Max (backoff_withDefaults b)"
  have B: "0 < ?B" "?B < 2 ^ 53" "0 < ?M" "?M < 2 ^ 53"
    using assms by (simp_all add: backoff_withDefaults_def DefaultBaseDelay_def DefaultMaxDelay_def)
  have j: "bk_Jitter (backoff_withDefaults b) = None" using assms(1) by (simp add: backoff_withDefaults_def)
  have d: "Delay b i = min (?B * 2 ^ nat (i - 1)) ?M" if "1 \<le> i" for i
  proof -
    show ?thesis using that B j by (simp add: Delay_def Let_def f64_small min_def mult_less_0_iff)
  qed
  have pos: "0 < Delay b n" "Delay b n \<le> ?M" using B d [OF assms(4)] by simp_all
  have mono: "Delay b n \<le> Delay b k" if "n \<le> k"
  proof -
    have "(2 :: int) ^ nat (n - 1) \<le> 2 ^ nat (k - 1)" using that by (intro power_increasing) auto
    then have "?B * 2 ^ nat (n - 1) \<le> ?B * 2 ^ nat (k - 1)" using B(1) by simp
    then show ?thesis using d assms(4) that by (simp add: min_def)
  qed
  have jit: "10 * \<bar>jitter10 randN x - x\<bar> \<le> x + 10"
    if r: "\<forall>y > 0. 0 \<le> randN y \<and> randN y < y" and "0 \<le> x" for randN x
  proof (cases "x = 0")
    case False
    have "0 \<le> randN (x div 5 + 1)" "randN (x div 5 + 1) \<le> x div 5"
      using r [rule_format, of "x div 5 + 1"] \<open>0 \<le> x\<close> by auto
    moreover have "5 * (x div 5) \<le> x" by simp
    moreover have "2 * (x div 5 div 2) \<le> x div 5" "x div 5 \<le> 2 * (x div 5 div 2) + 1" by simp_all
    ultimately have "10 * (randN (x div 5 + 1) - x div 5 div 2) \<le> x + 10" "10 * (x div 5 div 2 - randN (x div 5 + 1)) \<le> x + 10"
      using tenth by blast+
    then show ?thesis using False \<open>0 \<le> x\<close> by (simp add: jitter10_def Let_def abs_if)
  qed (simp add: jitter10_def)
  show ?thesis using d [OF assms(4)] pos mono jit by blast
qed

text \<open>
  Of a pass that runs under a lease longer than the time to settle, every send that is
  started ends inside the pass's deadline, and settling it still ends within one lease of the
  start of the pass; a full window is the configured timeout, and only the first send may get less.
\<close>

theorem send_windows_fit:
  assumes "cfg = settings_withDefaults cfg0" "settleTimeout < sg_ClaimLease cfg" "deadline = batchDeadline cfg env begun"
    "sendWindow cfg deadline start first = (window, whole)" "0 < window"
  shows "start + window \<le> deadline \<and> start + window + settleTimeout \<le> begun + sg_ClaimLease cfg \<and>
    (pe_Deadline env = Some caller \<longrightarrow> start + window \<le> caller) \<and>
    (if whole then window = sg_SendTimeout cfg else first \<and> window < sg_SendTimeout cfg) \<and>
    0 < sg_SendTimeout cfg \<and> sg_SendTimeout cfg \<le> sg_BatchBudget cfg"
proof -
  have c: "0 < sg_SendTimeout cfg" "sg_SendTimeout cfg \<le> sg_BatchBudget cfg" "sg_BatchBudget cfg + settleTimeout \<le> sg_ClaimLease cfg"
    using assms(1,2) by (auto simp: settings_withDefaults_def Let_def settleTimeout_def)
  have dl: "deadline \<le> begun + sg_BatchBudget cfg" "pe_Deadline env = Some caller \<Longrightarrow> deadline \<le> caller"
    using assms(3) by (auto simp: batchDeadline_def split: option.split)
  have w: "start + window \<le> deadline" "if whole then window = sg_SendTimeout cfg else first \<and> window < sg_SendTimeout cfg"
    using assms(4,5) by (auto simp: sendWindow_def Let_def split: if_splits)
  show ?thesis using c dl w by auto
qed

section \<open>A pass over one invitation\<close>

definition quiet_store :: outbox_store where
  "quiet_store = \<lparr>st_Audit = False, st_SystemActor = [], st_Sha = (\<lambda>s. s), st_RequestID = [], st_NewUUID = (\<lambda>_. ''e1'')\<rparr>"

definition pass_cfg :: settings where
  "pass_cfg = settings_withDefaults \<lparr>sg_BatchSize = 0, sg_ClaimLease = 0, sg_Retention = 0, sg_SendTimeout = 0, sg_BatchBudget = 0,
     sg_Backoff = \<lparr>bk_Base = 0, bk_Max = 0, bk_MaxAttempts = 0, bk_Jitter = None\<rparr>\<rparr>"

definition busy_env :: pass_env where
  "busy_env = \<lparr>pe_Deadline = None, pe_Cancelled = None, pe_SealKey = None,
     pe_Send = (\<lambda>m start window. (Some \<lparr>se_Permanent = False, se_Text = ''451 busy''\<rparr>, start + 2)), pe_WriteTime = (\<lambda>t. t + 1)\<rparr>"

definition pass_db :: outbox_db where
  "pass_db = \<lparr>od_Rows = invite_rows, od_Chain = (\<lambda>_. [])\<rparr>"

definition after_pass :: outbox_db where
  "after_pass = snd (DeliverDue (pg_ops quiet_store (\<lambda>_. False) (\<lambda>_. False)) pass_cfg busy_env 6 pass_db)"

lemma pass_cfg_values: "sg_BatchSize pass_cfg = 50" "sg_ClaimLease pass_cfg = DefaultClaimLease" "sg_SendTimeout pass_cfg = 10 * second"
  "sg_BatchBudget pass_cfg = 60 * second"
  by (simp_all add: pass_cfg_def settings_withDefaults_def Let_def DefaultClaimLease_def settleTimeout_def)

lemma pass_runs: "fst (DeliverDue (pg_ops quiet_store (\<lambda>_. False) (\<lambda>_. False)) pass_cfg busy_env 6 pass_db) = []"
  by code_simp

lemma pass_tries:
  "attempts pass_cfg busy_env (batchDeadline pass_cfg busy_env (pe_WriteTime busy_env 6)) True [invite_claim] (pe_WriteTime busy_env 6) =
     ([(invite_claim, Answer (Some \<lparr>se_Permanent = False, se_Text = ''451 busy''\<rparr>), 9)], [])"
  by code_simp

theorem pass_settles_or_returns_witness:
  "\<exists>r. db_row after_pass ''m1'' = Some r \<and>
     records pass_cfg invite_claim (Answer (Some \<lparr>se_Permanent = False, se_Text = ''451 busy''\<rparr>)) 9 r"
proof -
  have ok: "db_ok pass_db" using invite_reached(2) by (simp add: db_ok_def pass_db_def)
  have lease: "0 < DefaultClaimLease" by (simp add: DefaultClaimLease_def)
  have claim: "ClaimDue (\<lambda>_. False) 6 (sg_BatchSize pass_cfg) (sg_ClaimLease pass_cfg) (od_Rows pass_db) =
      Inr ([invite_claim], map (charge 6 DefaultClaimLease) invite_rows)"
    using invite_claimed by (simp add: pass_cfg_values pass_db_def)
  have run: "DeliverDue (pg_ops quiet_store (\<lambda>_. False) (\<lambda>_. False)) pass_cfg busy_env 6 pass_db = ([], after_pass)"
    using pass_runs by (simp add: after_pass_def prod_eq_iff)
  have i: "om_ID invite_claim = ''m1''" using invite_row(2) by (simp add: invite_claim_def)
  from pass_settles_or_returns [OF ok _ _ claim run _ pass_tries] lease i show ?thesis by (simp add: pass_cfg_values)
qed

theorem retry_schedule_witness:
  "Delay \<lparr>bk_Base = 0, bk_Max = 0, bk_MaxAttempts = 0, bk_Jitter = None\<rparr> 3 = 240 * second"
proof -
  let ?b = "\<lparr>bk_Base = 0, bk_Max = 0, bk_MaxAttempts = 0, bk_Jitter = None\<rparr>"
  have "Delay ?b 3 = min (bk_Base (backoff_withDefaults ?b) * 2 ^ nat (3 - 1)) (bk_Max (backoff_withDefaults ?b))"
    using retry_schedule [of ?b 3] by simp
  then show ?thesis by (simp add: backoff_withDefaults_def DefaultBaseDelay_def DefaultMaxDelay_def)
qed

theorem send_windows_fit_witness:
  "7 + 10 * second + settleTimeout \<le> 7 + sg_ClaimLease pass_cfg"
proof -
  have d: "batchDeadline pass_cfg busy_env 7 = 7 + 60 * second" by (simp add: batchDeadline_def busy_env_def pass_cfg_values)
  have w: "sendWindow pass_cfg (7 + 60 * second) 7 True = (10 * second, True)" by (simp add: sendWindow_def pass_cfg_values)
  have l: "settleTimeout < sg_ClaimLease pass_cfg" by (simp add: pass_cfg_values settleTimeout_def DefaultClaimLease_def)
  from send_windows_fit [OF pass_cfg_def l d [symmetric] w] show ?thesis by simp
qed

end
