(* ===== verification/ImportText.thy ===== *)
theory ImportText
  imports GoText
begin

text \<open>
  How an import compares names (\<^verbatim>\<open>modules/imports/domain/value.go\<close>): cleaning a cell, folding a name
  to the natural key records are matched on, and the comparison of two values of a change list.
  Strings are walked rune by rune as \<^verbatim>\<open>range\<close> does. The case mapping of the \<^verbatim>\<open>unicode\<close> tables and
  the NFC composition of \<^verbatim>\<open>golang.org/x/text\<close> are the fields of a parameter.
\<close>

section \<open>Runes\<close>

text \<open>The first rune of a string; an ill-formed byte is one U+FFFD.\<close>

definition replacement_rune :: string where
  "replacement_rune = [CHR 0xEF, CHR 0xBF, CHR 0xBD]"

definition rune_length :: "string \<Rightarrow> nat option" where
  "rune_length s = find (\<lambda>n. utf8_valid (take n s)) [1, 2, 3, 4]"

lemma rune_length_pos: "rune_length s = Some n \<Longrightarrow> 0 < n"
  by (auto simp: rune_length_def split: if_splits)

function runes :: "string \<Rightarrow> string list" where
  "runes [] = []"
| "runes (c # s) =
     (case rune_length (c # s) of
        None \<Rightarrow> replacement_rune # runes s
      | Some n \<Rightarrow> take n (c # s) # runes (drop n (c # s)))"
  by pat_completeness auto
termination
  by (relation "measure length") (auto dest: rune_length_pos)

section \<open>Cells\<close>

text \<open>Byte-order mark, zero-width space, non-joiner, joiner and word joiner; the three non-breaking spaces.\<close>

definition invisible_runes :: "string list" where
  "invisible_runes =
     [[CHR 0xEF, CHR 0xBB, CHR 0xBF], [CHR 0xE2, CHR 0x80, CHR 0x8B], [CHR 0xE2, CHR 0x80, CHR 0x8C],
      [CHR 0xE2, CHR 0x80, CHR 0x8D], [CHR 0xE2, CHR 0x81, CHR 0xA0]]"

definition hard_spaces :: "string list" where
  "hard_spaces = [[CHR 0xC2, CHR 0xA0], [CHR 0xE2, CHR 0x80, CHR 0x87], [CHR 0xE2, CHR 0x80, CHR 0xAF]]"

definition CleanCell :: "string \<Rightarrow> string" where
  "CleanCell s =
     TrimSpace (concat (map (\<lambda>r. if r \<in> set invisible_runes then [] else if r \<in> set hard_spaces then '' '' else r) (runes s)))"

section \<open>Keys\<close>

text \<open>\<^verbatim>\<open>strings.Fields\<close>: the words between runs of white space, with the word read so far.\<close>

fun fields_of :: "string \<Rightarrow> string list \<Rightarrow> string list" where
  "fields_of w [] = (if w = [] then [] else [w])"
| "fields_of w (r # rs) =
     (if r \<in> set space_runes then (if w = [] then fields_of [] rs else w # fields_of [] rs)
      else fields_of (w @ r) rs)"

definition Fields_words :: "string \<Rightarrow> string list" where
  "Fields_words s = fields_of [] (runes s)"

fun join :: "string \<Rightarrow> string list \<Rightarrow> string" where
  "join sep [] = []"
| "join sep [x] = x"
| "join sep (x # y # zs) = x @ sep @ join sep (y # zs)"

record text_ops =
  tx_ToLower :: "string \<Rightarrow> string"
  tx_NFC :: "string \<Rightarrow> string"

definition NormalizeKey :: "text_ops \<Rightarrow> string \<Rightarrow> string" where
  "NormalizeKey u s = tx_NFC u (tx_ToLower u (join '' '' (Fields_words (CleanCell s))))"

definition SameText :: "text_ops \<Rightarrow> string \<Rightarrow> string \<Rightarrow> bool" where
  "SameText u a b \<longleftrightarrow> a = b \<or> tx_NFC u a = tx_NFC u b"

lemma SameText_refl [simp]: "SameText u a a"
  by (simp add: SameText_def)

text \<open>On ASCII both parameters are known: case mapping by letters, and composition does nothing.\<close>

definition ascii_ops :: text_ops where
  "ascii_ops = \<lparr>tx_ToLower = ascii_lower_text, tx_NFC = (\<lambda>s. s)\<rparr>"

lemma NormalizeKey_examples:
  "NormalizeKey ascii_ops '' Acme   GmbH '' = ''acme gmbh''" "NormalizeKey ascii_ops ''ACME GmbH'' = ''acme gmbh''"
  "NormalizeKey ascii_ops [CHR 0xEF, CHR 0xBB, CHR 0xBF, CHR 0xC2, CHR 0xA0, CHR ''x''] = ''x''"
  by code_simp+

end
