(* ===== verification/ImportFields.thy ===== *)
theory ImportFields
  imports ImportText Workflows TaskInstances
begin

text \<open>
  The vocabulary of a spreadsheet import (\<^verbatim>\<open>modules/imports/domain\<close>): what a file is imported as, the
  columns of either target, and the issues a row or a file is given. The columns a new record
  cannot do without are refused row by row (\<^verbatim>\<open>MissingOnCreate\<close>).
\<close>

section \<open>Targets and columns\<close>

datatype import_target = TargetEntities | TargetObligations | OtherTarget string

datatype import_kind = KindEntities | KindEntityObligations

definition KindOf :: "import_target \<Rightarrow> import_kind" where
  "KindOf t = (if t = TargetObligations then KindEntityObligations else KindEntities)"

definition LabelSingular :: "import_target \<Rightarrow> string" where
  "LabelSingular t = (if t = TargetObligations then ''entity obligation'' else ''entity'')"

record import_field =
  if_Name :: string
  if_Required :: bool
  if_Key :: bool
  if_Aliases :: "string list"
  if_Help :: string

abbreviation (input) import_field :: "string \<Rightarrow> bool \<Rightarrow> bool \<Rightarrow> string list \<Rightarrow> string \<Rightarrow> import_field" where
  "import_field n r k a h \<equiv> \<lparr>if_Name = n, if_Required = r, if_Key = k, if_Aliases = a, if_Help = h\<rparr>"

definition entityFields :: "import_field list" where
  "entityFields =
  [import_field ''name'' True True
     [''name'', ''entity name'', ''entity'', ''company'', ''company name'', ''subsidiary'', ''legal entity'']
     (''the entity'' @ [CHR 0x27] @ ''s name in ZenTax, and what other rows'' @ [CHR 0x27] @ '' parent column refers to''),
   import_field ''legalName'' False False
     [''legal name'', ''registered name'', ''statutory name'', ''full legal name'']
     (''the registered name, when it differs from the name you use day to day''),
   import_field ''country'' True False
     [''country'', ''country of incorporation'', ''incorporation country'', ''domicile'']
     (''the country the entity is incorporated in''),
   import_field ''taxResidency'' False False
     [''tax residency'', ''tax residence'', ''tax resident'', ''residency'']
     (''the country the entity is tax resident in, when it differs from the country''),
   import_field ''parent'' False False
     [''parent'', ''parent entity'', ''parent company'', ''parent name'', ''parent entity name'', ''subsidiary of'', ''owned by'']
     (''the NAME of the parent entity (a row of this same file, or an entity already in ZenTax); leave blank for a top-level entity''),
   import_field ''fiscalCalendarPattern'' False False
     [''fiscal calendar pattern'', ''fiscal calendar'', ''calendar pattern'', ''fiscal pattern'', ''period pattern'']
     (''standard, 445, 454, 544, 13-period or weekly (blank means standard)''),
   import_field ''financialYearEnd'' False False
     [''financial year end'', ''fiscal year end'', ''year end'', ''fye'', ''fy end'']
     (''the month and day the financial year ends, as MM-DD '' @ em_dash @ '' 12-31 for a calendar year''),
   import_field ''fiscalWeekEndDay'' False False
     [''fiscal week end day'', ''week end day'', ''week ends on'', ''fiscal week ending'']
     (''which weekday a fiscal week ends on, for the week-based patterns (blank means saturday)''),
   import_field ''fiscalYearEndRule'' False False
     [''fiscal year end rule'', ''year end rule'', ''fy end rule'']
     (''last or nearest '' @ em_dash @ '' whether the fiscal year ends on the last such weekday on or before the year end, or the nearest one (blank means nearest)'')]"

definition obligationFields :: "import_field list" where
  "obligationFields =
  [import_field ''entity'' True True
     [''entity'', ''entity name'', ''company'', ''company name'', ''legal entity'']
     (''the NAME of the entity this obligation belongs to, as the entity import spells it''),
   import_field ''obligationType'' True True
     [''obligation type'', ''obligation'', ''obligation code'', ''obligation type code'', ''obligation type name'', ''tax type'', ''tax'', ''type'']
     (''the obligation type'' @ [CHR 0x27] @ ''s code or name as it exists in ZenTax (VAT-RET, CIT-ANN, '' @ ellipsis @ '')''),
   import_field ''taxReferenceNumber'' False False
     [''tax reference number'', ''tax reference'', ''tax registration number'', ''registration number'', ''tax id'', ''tax number'', ''vat number'', ''trn'']
     (''the reference the tax authority issued for this registration''),
   import_field ''jurisdiction'' False False
     [''jurisdiction'', ''jurisdiction country'', ''filing country'', ''country'']
     (''the country the obligation is filed in''),
   import_field ''jurisdictionState'' False False
     [''jurisdiction state'', ''state'', ''province'', ''state province'', ''region'', ''canton'']
     (''the state or province, for a sub-national tax''),
   import_field ''currency'' False False
     [''currency'', ''reporting currency'', ''filing currency'', ''ccy'']
     (''the obligation'' @ [CHR 0x27] @ ''s currency as an ISO 4217 code (EUR, USD, GBP)''),
   import_field ''periodicity'' True False
     [''periodicity'', ''frequency'', ''filing frequency'', ''filing periodicity'', ''period'']
     (''monthly, quarterly, bi-annual, annual, consolidated-annual or weekly''),
   import_field ''deadlineType'' False False
     [''deadline type'', ''deadline rule'', ''deadline rule type'', ''rule type'']
     (''fixed (calendar dates every year) or period_offset (a delay after each period ends); blank is read from whichever columns you filled''),
   import_field ''periodStart'' False False
     [''period start'', ''reporting period start'', ''period start date'', ''cycle start'']
     (''the month and day the reporting cycle starts, as MM-DD''),
   import_field ''filingOffsetMonths'' False False
     [''filing offset months'', ''filing months after period end'', ''filing due months'', ''filing deadline months'']
     (''whole months after the period ends until the return is due''),
   import_field ''filingOffsetDays'' False False
     [''filing offset days'', ''filing days after period end'', ''filing due days'', ''filing deadline days'']
     (''days after the period ends (on top of the months) until the return is due''),
   import_field ''paymentOffsetMonths'' False False
     [''payment offset months'', ''payment months after period end'', ''payment due months'', ''payment deadline months'']
     (''whole months after the period ends until payment is due; leave both payment columns blank when payment is due with the filing''),
   import_field ''paymentOffsetDays'' False False
     [''payment offset days'', ''payment days after period end'', ''payment due days'', ''payment deadline days'']
     (''days after the period ends (on top of the months) until payment is due''),
   import_field ''fixedDates'' False False
     [''fixed dates'', ''filing dates'', ''fixed filing dates'', ''due dates'', ''filing due dates'', ''deadline dates'']
     (''the calendar filing dates as MM-DD, separated by semicolons '' @ em_dash @ '' 07-31;01-31''),
   import_field ''paymentFixedDates'' False False
     [''payment fixed dates'', ''payment dates'', ''fixed payment dates'', ''payment due dates'', ''fixed payment date'']
     (''the calendar payment dates as MM-DD, one for each filing date, in the same order''),
   import_field ''weekendAdjustment'' False False
     [''weekend adjustment'', ''weekend rule'', ''if weekend'', ''weekend handling'']
     (''none, next-business-day or prev-business-day '' @ em_dash @ '' what happens when a deadline lands on a weekend'')]"

definition import_fields :: "import_target \<Rightarrow> import_field list" where
  "import_fields t = (case t of TargetEntities \<Rightarrow> entityFields | TargetObligations \<Rightarrow> obligationFields | OtherTarget _ \<Rightarrow> [])"

section \<open>Issues\<close>

datatype severity = SeverityError | SeverityWarning

record issue =
  is_Severity :: severity
  is_Row :: int
  is_CellRef :: string
  is_Column :: string
  is_Field :: string
  is_Value :: string
  is_Message :: message

definition IsError :: "issue \<Rightarrow> bool" where
  "IsError i \<longleftrightarrow> is_Severity i = SeverityError"

abbreviation (input) row_issue :: "severity \<Rightarrow> int \<Rightarrow> string \<Rightarrow> message \<Rightarrow> issue" where
  "row_issue sev row field msg \<equiv> \<lparr>is_Severity = sev, is_Row = row, is_CellRef = [], is_Column = [], is_Field = field,
     is_Value = [], is_Message = msg\<rparr>"

definition quote :: "string \<Rightarrow> string" where
  "quote s = [CHR 0x22] @ s @ [CHR 0x22]"

definition ErrRequiredColumnMissingForCreate :: "import_target \<Rightarrow> import_field \<Rightarrow> string" where
  "ErrRequiredColumnMissingForCreate target f =
     ''this row would create a new '' @ LabelSingular target @ '', and this file has no '' @
     quote (hd (if_Aliases f)) @ '' column '' @ em_dash @ '' a new '' @ LabelSingular target @ '' needs one: it holds '' @ if_Help f @
     ''. Add the column for the rows that create, or import those rows on their own;'' @
     '' rows that match a record already in ZenTax are not affected.''"

definition MissingOnCreate :: "import_target \<Rightarrow> int \<Rightarrow> string set \<Rightarrow> issue list" where
  "MissingOnCreate target row spoke =
     map (\<lambda>f. row_issue SeverityError row (if_Name f) (text_msg (ErrRequiredColumnMissingForCreate target f)))
       (filter (\<lambda>f. if_Required f \<and> \<not> if_Key f \<and> if_Name f \<notin> spoke) (import_fields target))"

lemma MissingOnCreate_entities: "MissingOnCreate TargetEntities row spoke = [] \<longleftrightarrow> ''country'' \<in> spoke"
  by (simp add: MissingOnCreate_def import_fields_def entityFields_def)

lemma MissingOnCreate_obligations: "MissingOnCreate TargetObligations row spoke = [] \<longleftrightarrow> ''periodicity'' \<in> spoke"
  by (simp add: MissingOnCreate_def import_fields_def obligationFields_def)

lemma MissingOnCreate_errors: "i \<in> set (MissingOnCreate target row spoke) \<Longrightarrow> IsError i"
  by (auto simp: MissingOnCreate_def IsError_def)

end
