(* ===== verification/ImportPlan.thy ===== *)
theory ImportPlan
  imports ImportFields Authz
begin

text \<open>
  Planning an entity import (\<^verbatim>\<open>modules/imports/usecases\<close>: plan.go and changes.go, with the
  vocabulary of domain/batch.go and domain/entity_row.go): every row of a file is resolved
  against the tenant to a create, an update, nothing to do, or a refusal. The dry run stores the
  plan, the commit derives it again. The repository, the authorizer and the audit recorder are
  the ports of a record over an abstract state.
\<close>

section \<open>Rows and plans\<close>

text \<open>\<^verbatim>\<open>Spoke\<close>, a map to booleans that holds true only, is the set of its keys.\<close>

record entity_draft =
  ed_Name :: string
  ed_LegalName :: "string option"
  ed_Country :: string
  ed_TaxResidency :: "string option"
  ed_FiscalCalendarPattern :: string
  ed_FinancialYearEnd :: "string option"
  ed_FiscalWeekEndDay :: string
  ed_FiscalYearEndRule :: string
  ed_ParentRef :: string
  ed_Spoke :: "string set"

definition Said :: "entity_draft \<Rightarrow> string \<Rightarrow> bool" where
  "Said d field \<longleftrightarrow> field \<in> ed_Spoke d"

definition NaturalKey :: "text_ops \<Rightarrow> entity_draft \<Rightarrow> string" where
  "NaturalKey u d = NormalizeKey u (ed_Name d)"

definition ParentKey :: "text_ops \<Rightarrow> entity_draft \<Rightarrow> string" where
  "ParentKey u d = NormalizeKey u (ed_ParentRef d)"

record draft_row =
  dw_Number :: int
  dw_Entity :: "entity_draft option"
  dw_Issues :: "issue list"
  dw_DuplicateOfRow :: int

definition HasError :: "draft_row \<Rightarrow> bool" where
  "HasError row \<longleftrightarrow> (\<exists>i \<in> set (dw_Issues row). IsError i)"

definition row_NaturalKey :: "text_ops \<Rightarrow> draft_row \<Rightarrow> string" where
  "row_NaturalKey u row = (case dw_Entity row of None \<Rightarrow> [] | Some d \<Rightarrow> NaturalKey u d)"

text \<open>\<open>NoAction\<close> is the empty string of a plan that has not been decided yet.\<close>

datatype row_action = NoAction | RowCreate | RowUpdate | RowUnchanged | RowInvalid

record field_change =
  fch_Field :: string
  fch_From :: "string option"
  fch_To :: "string option"

text \<open>
  The payload column holds the draft as JSON, which reads back as it was written; \<open>NoPayload\<close> is
  the empty object.
\<close>

datatype row_payload = NoPayload | EntityPayload entity_draft

record row_plan =
  pr_RowNumber :: int
  pr_Action :: row_action
  pr_NaturalKey :: string
  pr_TargetID :: "string option"
  pr_TargetUpdatedAt :: "int option"
  pr_Payload :: row_payload
  pr_Changes :: "field_change list"
  pr_Issues :: "issue list"

datatype batch_status = BatchValidated | BatchRejected | BatchCommitted

record batch_plan =
  bp_Rows :: "row_plan list"
  bp_CreateCount :: int
  bp_UpdateCount :: int
  bp_UnchangedCount :: int
  bp_InvalidCount :: int

definition empty_plan :: batch_plan where
  "empty_plan = \<lparr>bp_Rows = [], bp_CreateCount = 0, bp_UpdateCount = 0, bp_UnchangedCount = 0, bp_InvalidCount = 0\<rparr>"

definition plan_Status :: "batch_plan \<Rightarrow> batch_status" where
  "plan_Status p = (if bp_InvalidCount p > 0 then BatchRejected else BatchValidated)"

definition plan_Add :: "batch_plan \<Rightarrow> row_plan \<Rightarrow> batch_plan" where
  "plan_Add p row =
     (let p1 = p\<lparr>bp_Rows := bp_Rows p @ [row]\<rparr>
      in case pr_Action row of
           RowCreate \<Rightarrow> p1\<lparr>bp_CreateCount := bp_CreateCount p + 1\<rparr>
         | RowUpdate \<Rightarrow> p1\<lparr>bp_UpdateCount := bp_UpdateCount p + 1\<rparr>
         | RowUnchanged \<Rightarrow> p1\<lparr>bp_UnchangedCount := bp_UnchangedCount p + 1\<rparr>
         | RowInvalid \<Rightarrow> p1\<lparr>bp_InvalidCount := bp_InvalidCount p + 1\<rparr>
         | NoAction \<Rightarrow> p1)"

section \<open>What the tenant holds\<close>

record existing_entity =
  xe_ID :: string
  xe_UpdatedAt :: int
  xe_ParentID :: "string option"
  xe_ParentName :: "string option"
  xe_Name :: string
  xe_LegalName :: "string option"
  xe_Country :: string
  xe_TaxResidency :: "string option"
  xe_Pattern :: string
  xe_YearEnd :: "string option"
  xe_WeekEndDay :: string
  xe_YearEndRule :: string
  xe_Status :: string
  xe_Ambiguous :: bool

type_synonym key_index = "string \<Rightarrow> existing_entity option"

definition existingParent :: "key_index \<Rightarrow> string \<Rightarrow> string option" where
  "existingParent existing key =
     (case existing key of None \<Rightarrow> None | Some p \<Rightarrow> if xe_Ambiguous p then None else Some (xe_ID p))"

section \<open>Batches and ports\<close>

record import_batch =
  ib_ID :: string
  ib_Kind :: import_kind
  ib_FileName :: string
  ib_ByteSize :: int
  ib_Checksum :: string
  ib_RowCount :: int
  ib_CreateCount :: int
  ib_UpdateCount :: int
  ib_UnchangedCount :: int
  ib_InvalidCount :: int
  ib_Status :: batch_status
  ib_CreatedBy :: "string option"
  ib_CreatedAt :: int
  ib_CommittedBy :: "string option"
  ib_CommittedAt :: "int option"

text \<open>
  \<open>iu_MapOrder\<close> is the order in which the runtime hands out the keys of a map, which Go leaves
  open. \<open>iu_ListRows\<close> and \<open>iu_GetBatch\<close> read without a change of state.
\<close>

record 's import_usecases =
  iu_Text :: text_ops
  iu_MapOrder :: "string list \<Rightarrow> string list"
  iu_Authorizer :: "'s \<Rightarrow> resolver option"
  iu_Requester :: "requester option"
  iu_Grants :: "grant list"
  iu_EntitiesByKey :: "'s \<Rightarrow> string list \<Rightarrow> key_index app"
  iu_CreateEntity :: "'s \<Rightarrow> entity_draft \<Rightarrow> string option \<Rightarrow> (existing_entity \<times> 's) app"
  iu_UpdateEntity :: "'s \<Rightarrow> string \<Rightarrow> int \<Rightarrow> entity_draft \<Rightarrow> string option \<Rightarrow> (existing_entity option \<times> 's) app"
  iu_Record :: "'s \<Rightarrow> string \<Rightarrow> string \<Rightarrow> string \<Rightarrow> json option \<Rightarrow> 's app"
  iu_CreateBatch :: "'s \<Rightarrow> import_batch \<Rightarrow> row_plan list \<Rightarrow> (import_batch \<times> 's) app"
  iu_GetBatch :: "'s \<Rightarrow> string \<Rightarrow> import_batch option app"
  iu_ListRows :: "'s \<Rightarrow> string \<Rightarrow> int \<Rightarrow> int \<Rightarrow> (row_plan list \<times> int) app"
  iu_MarkCommitted :: "'s \<Rightarrow> string \<Rightarrow> (import_batch option \<times> 's) app"

section \<open>The file's own parents\<close>

text \<open>Maps of the source are association lists here: the first claim of a key counts.\<close>

definition go_lookup :: "(string \<times> string) list \<Rightarrow> string \<Rightarrow> string" where
  "go_lookup m k = (case map_of m k of None \<Rightarrow> [] | Some v \<Rightarrow> v)"

text \<open>Rows that claim a key, with their number and the key of the parent they name.\<close>

definition claims_of :: "text_ops \<Rightarrow> draft_row list \<Rightarrow> (string \<times> int \<times> string) list" where
  "claims_of u rows =
     concat (map (\<lambda>row. case dw_Entity row of None \<Rightarrow> []
       | Some d \<Rightarrow> if NaturalKey u d = [] then [] else [(NaturalKey u d, dw_Number row, ParentKey u d)]) rows)"

definition inFile_of :: "text_ops \<Rightarrow> draft_row list \<Rightarrow> (string \<times> int) list" where
  "inFile_of u rows = map (\<lambda>(k, n, p). (k, n)) (claims_of u rows)"

definition parentOf_of :: "text_ops \<Rightarrow> draft_row list \<Rightarrow> (string \<times> string) list" where
  "parentOf_of u rows = map (\<lambda>(k, n, p). (k, p)) (claims_of u rows)"

text \<open>The parents this file creates: the edges that constrain the order of writing.\<close>

definition file_edges :: "(string \<times> string) list \<Rightarrow> (string \<times> int) list \<Rightarrow> key_index \<Rightarrow> (string \<times> string) list" where
  "file_edges parentOf inFile existing =
     filter (\<lambda>(k, p). p \<noteq> [] \<and> existingParent existing p = None \<and> map_of inFile p \<noteq> None)
       (map (\<lambda>k. (k, go_lookup parentOf k)) (remdups (map fst parentOf)))"

datatype verdict = InLoop | Safe

text \<open>One walk up the edges, until a known verdict, a repetition or the end.\<close>

function walk_chain :: "(string \<times> string) list \<Rightarrow> (string \<Rightarrow> verdict option) \<Rightarrow> string list \<Rightarrow> string \<Rightarrow> string list \<times> verdict" where
  "walk_chain edge known chain cursor =
     (if cursor = [] then (chain, Safe)
      else case known cursor of
          Some v \<Rightarrow> (chain, v)
        | None \<Rightarrow>
            if cursor \<in> set chain then (chain, InLoop)
            else walk_chain edge known (chain @ [cursor]) (go_lookup edge cursor))"
  by pat_completeness auto

text \<open>Each turn of a walk over a finite map either uses up a key or leaves the map and ends.\<close>

lemma walk_measure:
  assumes "cursor \<noteq> []" "cursor \<notin> seen"
  shows "2 * card (fst ` set m - insert cursor seen) + (if go_lookup m cursor = [] then 0 else 1)
    < 2 * card (fst ` set m - seen) + (if cursor = [] then 0 else (1 :: nat))"
proof (cases "cursor \<in> fst ` set m")
  case True
  then have "fst ` set m - insert cursor seen \<subset> fst ` set m - seen" using assms by auto
  then have "card (fst ` set m - insert cursor seen) < card (fst ` set m - seen)" by (simp add: psubset_card_mono)
  then show ?thesis using assms by simp
next
  case False
  then have "go_lookup m cursor = []" by (simp add: go_lookup_def map_of_eq_None_iff [THEN iffD2])
  moreover have "fst ` set m - insert cursor seen = fst ` set m - seen" using False by auto
  ultimately show ?thesis using assms by simp
qed

termination walk_chain
  by (relation "measure (\<lambda>(edge, known, chain, cursor). 2 * card (fst ` set edge - set chain) + (if cursor = [] then 0 else 1))")
     (use walk_measure in \<open>auto simp del: One_nat_def\<close>)

declare walk_chain.simps [simp del]

fun cycles_loop ::
  "(string \<times> string) list \<Rightarrow> (string \<times> int) list \<Rightarrow> (string \<Rightarrow> verdict option) \<Rightarrow> int set \<Rightarrow> string list \<Rightarrow> int set" where
  "cycles_loop edge inFile known cyclic [] = cyclic"
| "cycles_loop edge inFile known cyclic (start # starts) =
     (case walk_chain edge known [] start of (chain, v) \<Rightarrow>
        cycles_loop edge inFile (\<lambda>k. if k \<in> set chain then Some v else known k)
          (if v = InLoop then cyclic \<union> set (concat (map (\<lambda>k. case map_of inFile k of None \<Rightarrow> [] | Some n \<Rightarrow> [n]) chain)) else cyclic)
          starts)"

definition entityCycles :: "(string list \<Rightarrow> string list) \<Rightarrow> (string \<times> string) list \<Rightarrow> (string \<times> int) list \<Rightarrow> key_index \<Rightarrow> int set" where
  "entityCycles order parentOf inFile existing =
     cycles_loop (file_edges parentOf inFile existing) inFile (\<lambda>k. None) {} (order (remdups (map fst parentOf)))"

function existingAncestor :: "(string \<times> string) list \<Rightarrow> key_index \<Rightarrow> (string \<times> int) list \<Rightarrow> string set \<Rightarrow> string \<Rightarrow> string option" where
  "existingAncestor parentOf existing inFile seen cursor =
     (if cursor = [] \<or> cursor \<in> seen then None
      else case existingParent existing cursor of
          Some i \<Rightarrow> Some i
        | None \<Rightarrow>
            if map_of inFile cursor = None then None
            else existingAncestor parentOf existing inFile (insert cursor seen) (go_lookup parentOf cursor))"
  by pat_completeness auto
termination
  by (relation "measure (\<lambda>(m, existing, inFile, seen, cursor). 2 * card (fst ` set m - seen) + (if cursor = [] then 0 else 1))")
     (use walk_measure in \<open>auto simp del: One_nat_def\<close>)

declare existingAncestor.simps [simp del]

section \<open>Changes\<close>

definition samePtr :: "string option \<Rightarrow> string option \<Rightarrow> bool" where
  "samePtr a b = (case (a, b) of (None, None) \<Rightarrow> True | (Some x, Some y) \<Rightarrow> x = y | _ \<Rightarrow> False)"

definition sameText :: "text_ops \<Rightarrow> string option \<Rightarrow> string option \<Rightarrow> bool" where
  "sameText u a b = (case (a, b) of (None, None) \<Rightarrow> True | (Some x, Some y) \<Rightarrow> SameText u x y | _ \<Rightarrow> False)"

definition textOrNil :: "string \<Rightarrow> string option" where
  "textOrNil s = (if s = [] then None else Some s)"

definition ch_record :: "string \<Rightarrow> string option \<Rightarrow> string option \<Rightarrow> field_change list \<Rightarrow> field_change list" where
  "ch_record field from to cs = cs @ [\<lparr>fch_Field = field, fch_From = from, fch_To = to\<rparr>]"

definition ch_compare ::
  "text_ops \<Rightarrow> (string \<Rightarrow> bool) \<Rightarrow> string \<Rightarrow> string option \<Rightarrow> string option \<Rightarrow> field_change list \<Rightarrow> field_change list" where
  "ch_compare u said field from to cs = (if \<not> said field \<or> sameText u from to then cs else ch_record field from to cs)"

definition ch_parent ::
  "entity_draft \<Rightarrow> string option \<Rightarrow> string \<Rightarrow> existing_entity \<Rightarrow> field_change list \<Rightarrow> field_change list" where
  "ch_parent draft parentID parentKey target cs =
     (if \<not> Said draft ''parent'' then cs
      else if parentKey = [] then
        (if xe_ParentID target \<noteq> None then ch_record ''parent'' (xe_ParentName target) None cs else cs)
      else if parentID \<noteq> None then
        (if \<not> samePtr parentID (xe_ParentID target)
         then ch_record ''parent'' (xe_ParentName target) (textOrNil (ed_ParentRef draft)) cs else cs)
      else ch_record ''parent'' (xe_ParentName target) (textOrNil (ed_ParentRef draft)) cs)"

definition entityChanges ::
  "text_ops \<Rightarrow> entity_draft \<Rightarrow> string option \<Rightarrow> string \<Rightarrow> existing_entity \<Rightarrow> field_change list" where
  "entityChanges u draft parentID parentKey target =
     (let said = Said draft;
          c1 = ch_compare u said ''name'' (Some (xe_Name target)) (Some (ed_Name draft)) [];
          c2 = ch_compare u said ''legalName'' (xe_LegalName target) (ed_LegalName draft) c1;
          c3 = ch_compare u said ''country'' (Some (xe_Country target)) (Some (ed_Country draft)) c2;
          c4 = ch_compare u said ''taxResidency'' (xe_TaxResidency target) (ed_TaxResidency draft) c3;
          c5 = ch_compare u said ''fiscalCalendarPattern'' (Some (xe_Pattern target)) (Some (ed_FiscalCalendarPattern draft)) c4;
          c6 = ch_compare u said ''financialYearEnd'' (xe_YearEnd target) (ed_FinancialYearEnd draft) c5;
          c7 = ch_compare u said ''fiscalWeekEndDay'' (Some (xe_WeekEndDay target)) (Some (ed_FiscalWeekEndDay draft)) c6;
          c8 = ch_compare u said ''fiscalYearEndRule'' (Some (xe_YearEndRule target)) (Some (ed_FiscalYearEndRule draft)) c7
      in sort_key fch_Field (ch_parent draft parentID parentKey target c8))"

text \<open>What a commit writes over an existing record: the file's fields, the record's own for the rest.\<close>

definition mergeEntity :: "entity_draft \<Rightarrow> existing_entity \<Rightarrow> entity_draft" where
  "mergeEntity draft target =
     draft\<lparr>ed_Name := (if Said draft ''name'' then ed_Name draft else xe_Name target),
       ed_LegalName := (if Said draft ''legalName'' then ed_LegalName draft else xe_LegalName target),
       ed_Country := (if Said draft ''country'' then ed_Country draft else xe_Country target),
       ed_TaxResidency := (if Said draft ''taxResidency'' then ed_TaxResidency draft else xe_TaxResidency target),
       ed_FiscalCalendarPattern :=
         (if Said draft ''fiscalCalendarPattern'' then ed_FiscalCalendarPattern draft else xe_Pattern target),
       ed_FinancialYearEnd := (if Said draft ''financialYearEnd'' then ed_FinancialYearEnd draft else xe_YearEnd target),
       ed_FiscalWeekEndDay := (if Said draft ''fiscalWeekEndDay'' then ed_FiscalWeekEndDay draft else xe_WeekEndDay target),
       ed_FiscalYearEndRule := (if Said draft ''fiscalYearEndRule'' then ed_FiscalYearEndRule draft else xe_YearEndRule target)\<rparr>"

definition mergeParent :: "entity_draft \<Rightarrow> string option \<Rightarrow> existing_entity \<Rightarrow> string option" where
  "mergeParent draft parentID target = (if \<not> Said draft ''parent'' then xe_ParentID target else parentID)"

section \<open>Planning a row\<close>

definition withIssues :: "row_plan \<Rightarrow> issue list \<Rightarrow> row_plan" where
  "withIssues planned issues = planned\<lparr>pr_Issues := issues\<rparr>"

definition actioned :: "row_plan \<Rightarrow> row_action \<Rightarrow> row_plan" where
  "actioned r a = r\<lparr>pr_Action := a\<rparr>"

definition duplicateMessage :: "draft_row \<Rightarrow> message \<Rightarrow> message" where
  "duplicateMessage row msg = (if dw_DuplicateOfRow row \<noteq> 0 \<or> HasError row then text_msg [] else msg)"

definition invalidRow :: "row_plan \<Rightarrow> issue list \<Rightarrow> string \<Rightarrow> message \<Rightarrow> row_plan" where
  "invalidRow planned issues field msg =
     planned\<lparr>pr_Action := RowInvalid, pr_TargetID := None, pr_TargetUpdatedAt := None, pr_Changes := [],
       pr_Issues := (if msg = text_msg [] then issues
                     else issues @ [row_issue SeverityError (pr_RowNumber planned) field msg])\<rparr>"

fun error_message :: "app_error \<Rightarrow> message" where
  "error_message (ConflictError m) = m"
| "error_message (ForbiddenError m) = m"
| "error_message (NotFoundError m) = m"
| "error_message (UnauthorizedError m) = m"
| "error_message (ValidationError m) = m"
| "error_message (Internal m) = m"

definition isForbidden :: "app_error \<Rightarrow> bool" where
  "isForbidden e = (case e of ForbiddenError _ \<Rightarrow> True | _ \<Rightarrow> False)"

definition forbiddenRow :: "row_plan \<Rightarrow> issue list \<Rightarrow> app_error \<Rightarrow> row_plan" where
  "forbiddenRow planned issues e =
     (if isForbidden e then invalidRow planned issues [] (text_msg ''you do not have permission to write this record'')
      else invalidRow planned issues [] (error_message e))"

definition permitted :: "row_plan \<Rightarrow> issue list \<Rightarrow> unit app option \<Rightarrow> row_plan option \<Rightarrow> row_plan option" where
  "permitted planned issues answer k =
     Option.bind answer (\<lambda>r. case r of Inl e \<Rightarrow> Some (forbiddenRow planned issues e) | Inr _ \<Rightarrow> k)"

text \<open>A row whose key names no record: it needs what a new record needs, and a place it may be put.\<close>

definition plan_create ::
  "'s import_usecases \<Rightarrow> 's \<Rightarrow> key_index \<Rightarrow> (string \<times> int) list \<Rightarrow> (string \<times> string) list \<Rightarrow> row_plan \<Rightarrow> issue list \<Rightarrow>
     entity_draft \<Rightarrow> row_plan option" where
  "plan_create uc s existing inFile parentOf planned issues draft =
     (let parentKey = ParentKey (iu_Text uc) draft;
          parentID = existingParent existing parentKey;
          missing = MissingOnCreate TargetEntities (pr_RowNumber planned) (ed_Spoke draft)
      in if missing \<noteq> [] then Some (invalidRow planned (issues @ missing) [] (text_msg []))
         else
           let anchor = (if parentID = None \<and> parentKey \<noteq> []
                         then existingAncestor parentOf existing inFile {} parentKey else parentID)
           in permitted planned issues
                (EnsureEntityRef (iu_Authorizer uc s) (iu_Requester uc) (iu_Grants uc) anchor ''entity:write'')
                (Some (withIssues (actioned planned RowCreate) issues)))"

text \<open>A row whose key names a record: nothing to do, or an update of it, moved or not.\<close>

definition plan_existing ::
  "'s import_usecases \<Rightarrow> 's \<Rightarrow> key_index \<Rightarrow> row_plan \<Rightarrow> issue list \<Rightarrow> entity_draft \<Rightarrow> existing_entity \<Rightarrow> row_plan option" where
  "plan_existing uc s existing planned0 issues draft target =
     (let parentKey = ParentKey (iu_Text uc) draft;
          parentID = existingParent existing parentKey;
          planned = planned0\<lparr>pr_TargetID := Some (xe_ID target), pr_TargetUpdatedAt := Some (xe_UpdatedAt target)\<rparr>;
          changed = entityChanges (iu_Text uc) draft parentID parentKey target;
          auth = iu_Authorizer uc s;
          planned' = withIssues (planned\<lparr>pr_Action := RowUpdate, pr_Changes := changed\<rparr>) issues
      in if changed = [] then Some (withIssues (actioned planned RowUnchanged) issues)
         else permitted planned issues (EnsureEntity auth (iu_Requester uc) (iu_Grants uc) (xe_ID target) ''entity:write'')
           (if Said draft ''parent'' \<and> parentID \<noteq> None \<and> \<not> samePtr parentID (xe_ParentID target)
            then permitted planned issues
              (EnsureEntityRef auth (iu_Requester uc) (iu_Grants uc) parentID ''entity:write'') (Some planned')
            else Some planned'))"

definition planEntityRow ::
  "'s import_usecases \<Rightarrow> 's \<Rightarrow> key_index \<Rightarrow> (string \<times> int) list \<Rightarrow> (string \<times> string) list \<Rightarrow> int set \<Rightarrow> draft_row \<Rightarrow>
     row_plan option" where
  "planEntityRow uc s existing inFile parentOf cyclic row =
     (let u = iu_Text uc;
          issues = dw_Issues row;
          planned = \<lparr>pr_RowNumber = dw_Number row, pr_Action = NoAction, pr_NaturalKey = row_NaturalKey u row,
            pr_TargetID = None, pr_TargetUpdatedAt = None, pr_Payload = NoPayload, pr_Changes = [], pr_Issues = []\<rparr>
      in case dw_Entity row of
           None \<Rightarrow> Some (invalidRow planned issues [] (text_msg ''this row could not be read''))
         | Some draft \<Rightarrow>
             let planned = planned\<lparr>pr_Payload := EntityPayload draft\<rparr>;
                 key = NaturalKey u draft;
                 claimed = (case map_of inFile key of None \<Rightarrow> 0 | Some n \<Rightarrow> n);
                 parentKey = ParentKey u draft
             in if key = [] then
                  Some (invalidRow planned issues ''name'' (text_msg ''this row has no name, so it cannot be matched to a record''))
                else if claimed \<noteq> dw_Number row then
                  Some (invalidRow planned issues ''name'' (duplicateMessage row
                    (Errorf ''row %d already imports an entity by this name; a file may name each entity once'' [I claimed])))
                else if dw_Number row \<in> cyclic then
                  Some (invalidRow planned issues ''parent''
                    (text_msg (''this row'' @ [CHR 0x27] @
                      ''s parent chain loops back to itself, so there is no order in which the file can be written'')))
                else if (case existing key of None \<Rightarrow> False | Some t \<Rightarrow> xe_Ambiguous t) then
                  Some (invalidRow planned issues ''name'' (text_msg
                    ''this tenant already holds more than one entity with this name, so an import cannot tell which one this row means''))
                else if parentKey \<noteq> [] \<and> existingParent existing parentKey = None \<and> map_of inFile parentKey = None then
                  Some (invalidRow planned issues ''parent''
                    (Errorf ''no entity called %q is in this file or in ZenTax'' [S (ed_ParentRef draft)]))
                else if HasError row then Some (invalidRow planned issues [] (text_msg []))
                else case existing key of
                    None \<Rightarrow> plan_create uc s existing inFile parentOf planned issues draft
                  | Some target \<Rightarrow> plan_existing uc s existing planned issues draft target)"

section \<open>Planning a file\<close>

fun plan_rows :: "(draft_row \<Rightarrow> row_plan option) \<Rightarrow> batch_plan \<Rightarrow> draft_row list \<Rightarrow> batch_plan option" where
  "plan_rows f plan [] = Some plan"
| "plan_rows f plan (row # rows) = Option.bind (f row) (\<lambda>p. plan_rows f (plan_Add plan p) rows)"

definition wanted_keys :: "text_ops \<Rightarrow> draft_row list \<Rightarrow> string list" where
  "wanted_keys u rows =
     concat (map (\<lambda>row. case dw_Entity row of None \<Rightarrow> [] | Some d \<Rightarrow> [NaturalKey u d, ParentKey u d]) rows)"

text \<open>None: an authorization along the way does not return. The index read is kept for the commit.\<close>

definition planEntities :: "'s import_usecases \<Rightarrow> 's \<Rightarrow> draft_row list \<Rightarrow> (batch_plan \<times> key_index) app option" where
  "planEntities uc s rows =
     (let u = iu_Text uc;
          inFile = inFile_of u rows;
          parentOf = parentOf_of u rows
      in case iu_EntitiesByKey uc s (wanted_keys u rows) of
           Inl e \<Rightarrow> Some (Inl e)
         | Inr existing \<Rightarrow>
             let cyclic = entityCycles (iu_MapOrder uc) parentOf inFile existing
             in Option.bind (plan_rows (planEntityRow uc s existing inFile parentOf cyclic) empty_plan rows)
                  (\<lambda>plan. Some (Inr (plan, existing))))"

end
