(* ===== verification/ImportCommit.thy ===== *)
theory ImportCommit
  imports ImportPlan Entities
begin

text \<open>
  The committing half of an entity import (\<^verbatim>\<open>modules/imports/usecases\<close>: validate.go, commit.go,
  apply.go) and the statements it runs (\<^verbatim>\<open>modules/imports/repositories/pg\<close>): the dry run stores
  a batch with its plan, the commit derives the plan again, refuses unless it still says the
  same, and writes parents before children, all in one transaction.
\<close>

section \<open>Evidence\<close>

definition auditEntityValues :: "existing_entity \<Rightarrow> audit_values" where
  "auditEntityValues e =
     [(''name'', Redacted (JStr (xe_Name e))), (''legalName'', Redacted (opt_str (xe_LegalName e))),
      (''country'', Redacted (JStr (xe_Country e))), (''taxResidency'', Redacted (opt_str (xe_TaxResidency e))),
      (''parentEntityId'', Plain (opt_str (xe_ParentID e))), (''fiscalCalendarPattern'', Plain (JStr (xe_Pattern e))),
      (''financialYearEnd'', Plain (opt_str (xe_YearEnd e))), (''fiscalWeekEndDay'', Plain (JStr (xe_WeekEndDay e))),
      (''fiscalYearEndRule'', Plain (JStr (xe_YearEndRule e))), (''status'', Plain (JStr (xe_Status e)))]"

fun kind_text :: "import_kind \<Rightarrow> string" where
  "kind_text KindEntities = ''entities''"
| "kind_text KindEntityObligations = ''entity_obligations''"

fun status_text :: "batch_status \<Rightarrow> string" where
  "status_text BatchValidated = ''validated''"
| "status_text BatchRejected = ''rejected''"
| "status_text BatchCommitted = ''committed''"

definition auditBatchValues :: "import_batch \<Rightarrow> audit_values" where
  "auditBatchValues b =
     [(''kind'', Plain (JStr (kind_text (ib_Kind b)))), (''status'', Plain (JStr (status_text (ib_Status b)))),
      (''fileName'', Redacted (JStr (ib_FileName b))), (''checksum'', Plain (JStr (ib_Checksum b))),
      (''byteSize'', Plain (json_int (ib_ByteSize b))), (''rowCount'', Plain (json_int (ib_RowCount b))),
      (''createCount'', Plain (json_int (ib_CreateCount b))), (''updateCount'', Plain (json_int (ib_UpdateCount b))),
      (''unchangedCount'', Plain (json_int (ib_UnchangedCount b))), (''invalidCount'', Plain (json_int (ib_InvalidCount b)))]"

section \<open>The order of writing\<close>

text \<open>\<^verbatim>\<open>byRow\<close>: a later row of the same number wins. A key belongs to its first row.\<close>

definition byRow_of :: "draft_row list \<Rightarrow> int \<Rightarrow> entity_draft option" where
  "byRow_of drafts n = (case map_of (rev (map (\<lambda>d. (dw_Number d, dw_Entity d)) drafts)) n of None \<Rightarrow> None | Some d \<Rightarrow> d)"

definition indexOfKey :: "text_ops \<Rightarrow> (int \<Rightarrow> entity_draft option) \<Rightarrow> row_plan list \<Rightarrow> (string \<times> nat) list" where
  "indexOfKey u byRow plan =
     concat (map (\<lambda>(i, p). case byRow (pr_RowNumber p) of None \<Rightarrow> [] | Some d \<Rightarrow> [(NaturalKey u d, i)])
       (zip [0..<length plan] plan))"

definition parentIndex :: "text_ops \<Rightarrow> (int \<Rightarrow> entity_draft option) \<Rightarrow> row_plan list \<Rightarrow> nat \<Rightarrow> nat option" where
  "parentIndex u byRow plan i =
     (case byRow (pr_RowNumber (plan ! i)) of None \<Rightarrow> None
      | Some d \<Rightarrow> (case map_of (indexOfKey u byRow plan) (ParentKey u d) of
           None \<Rightarrow> None | Some p \<Rightarrow> if p = i then None else Some p))"

datatype visit_state = Pending | Active | Done

text \<open>The depth-first visit; the index is in range whenever the code calls it.\<close>

function visit :: "(nat \<Rightarrow> nat option) \<Rightarrow> nat \<Rightarrow> visit_state list \<times> nat list \<Rightarrow> visit_state list \<times> nat list" where
  "visit par i (st, order) =
     (if i < length st \<and> st ! i = Pending then
        let (st', order') = (case par i of None \<Rightarrow> (st[i := Active], order) | Some p \<Rightarrow> visit par p (st[i := Active], order))
        in (st'[i := Done], order' @ [i])
      else (st, order))"
  by pat_completeness auto

lemma pending_decreases:
  "i < length st \<Longrightarrow> st ! i = Pending \<Longrightarrow> v \<noteq> Pending \<Longrightarrow>
     length (filter (\<lambda>s. s = Pending) (st[i := v])) < length (filter (\<lambda>s. s = Pending) st)"
  by (induction st arbitrary: i) (auto split: nat.splits simp: nth_Cons)

termination visit
  by (relation "measure (\<lambda>(par, i, st, order). length (filter (\<lambda>s. s = Pending) st))")
     (auto intro!: pending_decreases)

declare visit.simps [simp del]

definition entityApplyOrder :: "text_ops \<Rightarrow> (int \<Rightarrow> entity_draft option) \<Rightarrow> row_plan list \<Rightarrow> nat list" where
  "entityApplyOrder u byRow plan =
     snd (foldl (\<lambda>s i. visit (parentIndex u byRow plan) i s) (replicate (length plan) Pending, []) [0..<length plan])"

section \<open>Applying the rows\<close>

definition staleConflict :: "int \<Rightarrow> string \<Rightarrow> app_error" where
  "staleConflict row why = ConflictError (Errorf
     ''row %d can no longer be imported as planned: %s. Nothing was imported; upload the file again to see what it would do now''
     [I row, S why])"

definition unreadable_row :: "int \<Rightarrow> app_error" where
  "unreadable_row n = ConflictError (Errorf (''row %d of this import'' @ [CHR 0x27] @ ''s plan could not be read back'') [I n])"

definition resolveParent ::
  "text_ops \<Rightarrow> entity_draft \<Rightarrow> key_index \<Rightarrow> (string \<times> string) list \<Rightarrow> int \<Rightarrow> string option app" where
  "resolveParent u draft state created row =
     (let key = ParentKey u draft
      in if key = [] then Inr None
         else case existingParent state key of
             Some i \<Rightarrow> Inr (Some i)
           | None \<Rightarrow>
               (case map_of created key of
                  Some i \<Rightarrow> Inr (Some i)
                | None \<Rightarrow> Inl (ConflictError (Errorf
                    ''row %d names a parent that could not be resolved while importing; nothing was imported'' [I row]))))"

text \<open>One row: its writes, their evidence, and the ids of what was created so far.\<close>

definition apply_row ::
  "'s import_usecases \<Rightarrow> key_index \<Rightarrow> (int \<Rightarrow> entity_draft option) \<Rightarrow> row_plan \<Rightarrow> (string \<times> string) list \<times> 's \<Rightarrow>
     ((string \<times> string) list \<times> 's) app" where
  "apply_row uc state byRow row cs =
     (case cs of (created, s) \<Rightarrow>
       if pr_Action row = RowUnchanged then Inr (created, s)
       else case byRow (pr_RowNumber row) of
           None \<Rightarrow> Inl (unreadable_row (pr_RowNumber row))
         | Some draft \<Rightarrow>
             andthen (resolveParent (iu_Text uc) draft state created (pr_RowNumber row)) (\<lambda>parentID.
               case pr_Action row of
                 RowCreate \<Rightarrow>
                   andthen (iu_CreateEntity uc s draft parentID) (\<lambda>(e, s1).
                   andthen (iu_Record uc s1 ''entity.created'' ''entity'' (xe_ID e) (Changes [] (auditEntityValues e))) (\<lambda>s2.
                     Inr ((NaturalKey (iu_Text uc) draft, xe_ID e) # created, s2)))
               | RowUpdate \<Rightarrow>
                   (case (state (NaturalKey (iu_Text uc) draft), pr_TargetUpdatedAt row) of
                      (Some prior, Some version) \<Rightarrow>
                        andthen (iu_UpdateEntity uc s (xe_ID prior) version (mergeEntity draft prior)
                          (mergeParent draft parentID prior)) (\<lambda>(updated, s1).
                        case updated of
                          None \<Rightarrow> Inl (staleConflict (pr_RowNumber row)
                            ''the record it would change has been edited since this file was checked'')
                        | Some e \<Rightarrow>
                            andthen (iu_Record uc s1 ''entity.updated'' ''entity'' (xe_ID e)
                              (Changes (auditEntityValues prior) (auditEntityValues e))) (\<lambda>s2. Inr (created, s2)))
                    | _ \<Rightarrow> Inl (staleConflict (pr_RowNumber row) ''the record it would change is no longer there''))
               | _ \<Rightarrow> Inr (created, s)))"

fun apply_rows ::
  "'s import_usecases \<Rightarrow> key_index \<Rightarrow> (int \<Rightarrow> entity_draft option) \<Rightarrow> row_plan list \<Rightarrow> (string \<times> string) list \<times> 's \<Rightarrow>
     ((string \<times> string) list \<times> 's) app" where
  "apply_rows uc state byRow [] cs = Inr cs"
| "apply_rows uc state byRow (row # rows) cs =
     andthen (apply_row uc state byRow row cs) (\<lambda>cs'. apply_rows uc state byRow rows cs')"

definition applyEntities :: "'s import_usecases \<Rightarrow> row_plan list \<Rightarrow> draft_row list \<Rightarrow> key_index \<Rightarrow> 's \<Rightarrow> 's app" where
  "applyEntities uc plan drafts state s =
     (let byRow = byRow_of drafts
      in andthen (apply_rows uc state byRow (map (\<lambda>i. plan ! i) (entityApplyOrder (iu_Text uc) byRow plan)) ([], s))
           (\<lambda>(created, s'). Inr s'))"

section \<open>The commit\<close>

definition zero_draft :: entity_draft where
  "zero_draft = \<lparr>ed_Name = [], ed_LegalName = None, ed_Country = [], ed_TaxResidency = None, ed_FiscalCalendarPattern = [],
     ed_FinancialYearEnd = None, ed_FiscalWeekEndDay = [], ed_FiscalYearEndRule = [], ed_ParentRef = [], ed_Spoke = {}\<rparr>"

fun payload_draft :: "row_payload \<Rightarrow> entity_draft" where
  "payload_draft NoPayload = zero_draft"
| "payload_draft (EntityPayload d) = d"

definition draftRows :: "row_plan list \<Rightarrow> draft_row list" where
  "draftRows stored =
     map (\<lambda>row. \<lparr>dw_Number = pr_RowNumber row, dw_Entity = Some (payload_draft (pr_Payload row)), dw_Issues = [],
       dw_DuplicateOfRow = 0\<rparr>) stored"

definition sameVersion :: "int option \<Rightarrow> int option \<Rightarrow> bool" where
  "sameVersion a b = (case (a, b) of (None, None) \<Rightarrow> True | (Some x, Some y) \<Rightarrow> x = y | _ \<Rightarrow> False)"

fun actionPhrase :: "row_action \<Rightarrow> string" where
  "actionPhrase RowCreate = ''add a new record''"
| "actionPhrase RowUpdate = ''change the record it matches''"
| "actionPhrase RowUnchanged = ''leave the record it matches unchanged''"
| "actionPhrase RowInvalid = ''be refused''"
| "actionPhrase NoAction = []"

definition row_still_holds :: "row_plan \<Rightarrow> row_plan \<Rightarrow> unit app" where
  "row_still_holds was now =
     (if pr_RowNumber was \<noteq> pr_RowNumber now
      then Inl (staleConflict (pr_RowNumber was) (''the plan'' @ [CHR 0x27] @ ''s rows no longer line up''))
      else if pr_Action was \<noteq> pr_Action now
      then Inl (staleConflict (pr_RowNumber was)
        (''it would now '' @ actionPhrase (pr_Action now) @ '' rather than '' @ actionPhrase (pr_Action was)))
      else if \<not> samePtr (pr_TargetID was) (pr_TargetID now)
      then Inl (staleConflict (pr_RowNumber was) ''it now matches a different record'')
      else if \<not> sameVersion (pr_TargetUpdatedAt was) (pr_TargetUpdatedAt now)
      then Inl (staleConflict (pr_RowNumber was) ''the record it would change has been edited since this file was checked'')
      else Inr ())"

fun rows_still_hold :: "row_plan list \<Rightarrow> row_plan list \<Rightarrow> unit app" where
  "rows_still_hold (was # stored) (now # rederived) =
     andthen (row_still_holds was now) (\<lambda>_. rows_still_hold stored rederived)"
| "rows_still_hold _ _ = Inr ()"

definition planStillHolds :: "row_plan list \<Rightarrow> row_plan list \<Rightarrow> unit app" where
  "planStillHolds stored rederived =
     (if length stored \<noteq> length rederived
      then Inl (NewConflict (''this import'' @ [CHR 0x27] @
        ''s plan no longer matches the data it was checked against; upload the file again''))
      else rows_still_hold stored rederived)"

definition ErrImportNotFound :: "string \<Rightarrow> app_error" where
  "ErrImportNotFound batchID = NotFoundError (Errorf ''import %s not found'' [S batchID])"

text \<open>The batch a commit may apply, with its stored plan.\<close>

definition committable :: "'s import_usecases \<Rightarrow> 's \<Rightarrow> import_kind \<Rightarrow> string \<Rightarrow> row_plan list app" where
  "committable uc s kind batchID =
     andthen (iu_GetBatch uc s batchID) (\<lambda>found. case found of
       None \<Rightarrow> Inl (ErrImportNotFound batchID)
     | Some batch \<Rightarrow>
         if ib_Kind batch \<noteq> kind then Inl (ErrImportNotFound batchID)
         else case ib_Status batch of
             BatchRejected \<Rightarrow> Inl (ConflictError (Errorf
               ''this file has %d row(s) that cannot be imported, so none of it can be; correct the file and upload it again''
               [I (ib_InvalidCount batch)]))
           | BatchCommitted \<Rightarrow> Inl (NewConflict ''this file has already been imported'')
           | BatchValidated \<Rightarrow>
               andthen (iu_ListRows uc s batchID (ib_RowCount batch) 0) (\<lambda>(stored, total).
                 if total \<noteq> ib_RowCount batch \<or> int (length stored) \<noteq> ib_RowCount batch
                 then Inl (NewConflict (''this import'' @ [CHR 0x27] @ ''s plan is incomplete and cannot be applied''))
                 else Inr stored))"

definition finish_commit :: "'s import_usecases \<Rightarrow> string \<Rightarrow> 's \<Rightarrow> (import_batch \<times> 's) app" where
  "finish_commit uc batchID s =
     andthen (iu_MarkCommitted uc s batchID) (\<lambda>(committed, s1). case committed of
       None \<Rightarrow> Inl (NewConflict ''this file has already been imported'')
     | Some b \<Rightarrow>
         andthen (iu_Record uc s1 ''import.committed'' ''import_batch'' (ib_ID b) (Changes [] (auditBatchValues b)))
           (\<lambda>s2. Inr (b, s2)))"

text \<open>\<^verbatim>\<open>Commit\<close> for a file of entities.\<close>

definition Commit :: "'s import_usecases \<Rightarrow> 's \<Rightarrow> string \<Rightarrow> (import_batch \<times> 's) app option" where
  "Commit uc s batchID =
     (case committable uc s KindEntities batchID of
        Inl e \<Rightarrow> Some (Inl e)
      | Inr stored \<Rightarrow>
          let drafts = draftRows stored
          in Option.bind (planEntities uc s drafts) (\<lambda>r. Some (
               andthen r (\<lambda>(rederived, state).
               andthen (planStillHolds stored (bp_Rows rederived)) (\<lambda>_.
               andthen (applyEntities uc stored drafts state s) (\<lambda>s1.
                 finish_commit uc batchID s1))))))"

section \<open>The dry run\<close>

text \<open>What the reader makes of a file, as far as it is planned: the file's issues and the rows.\<close>

record read_outcome =
  ro_FileIssues :: "issue list"
  ro_Rows :: "draft_row list"

record upload =
  up_FileName :: string
  up_ByteSize :: int
  up_Checksum :: string

definition HasFileError :: "read_outcome \<Rightarrow> bool" where
  "HasFileError o1 \<longleftrightarrow> (\<exists>i \<in> set (ro_FileIssues o1). IsError i)"

fun msg_format :: "message \<Rightarrow> string" where
  "msg_format (Errorf f args) = f"

fun msg_args :: "message \<Rightarrow> fmt_arg list" where
  "msg_args (Errorf f args) = args"

definition fileIssueMessage :: "issue list \<Rightarrow> message" where
  "fileIssueMessage issues =
     (let ms = map is_Message (filter IsError issues)
      in if ms = [] then text_msg ''this file could not be read''
         else Errorf (join ''; '' (map msg_format ms)) (concat (map msg_args ms)))"

definition new_batch :: "upload \<Rightarrow> batch_plan \<Rightarrow> import_batch" where
  "new_batch up plan =
     \<lparr>ib_ID = [], ib_Kind = KindEntities, ib_FileName = up_FileName up, ib_ByteSize = up_ByteSize up,
      ib_Checksum = up_Checksum up, ib_RowCount = int (length (bp_Rows plan)), ib_CreateCount = bp_CreateCount plan,
      ib_UpdateCount = bp_UpdateCount plan, ib_UnchangedCount = bp_UnchangedCount plan,
      ib_InvalidCount = bp_InvalidCount plan, ib_Status = plan_Status plan, ib_CreatedBy = None, ib_CreatedAt = 0,
      ib_CommittedBy = None, ib_CommittedAt = None\<rparr>"

text \<open>\<^verbatim>\<open>Validate\<close> for a file of entities, given what its reader answers.\<close>

definition Validate :: "'s import_usecases \<Rightarrow> 's \<Rightarrow> upload \<Rightarrow> read_outcome app \<Rightarrow> ((import_batch \<times> batch_plan) \<times> 's) app option" where
  "Validate uc s up reading =
     (case reading of
        Inl e \<Rightarrow> Some (Inl e)
      | Inr outcome \<Rightarrow>
          if HasFileError outcome then Some (Inl (ValidationError (fileIssueMessage (ro_FileIssues outcome))))
          else Option.bind (planEntities uc s (ro_Rows outcome)) (\<lambda>r. Some (
            andthen r (\<lambda>(plan, state).
            andthen (iu_CreateBatch uc s (new_batch up plan) (bp_Rows plan)) (\<lambda>(stored, s1).
            andthen (iu_Record uc s1 ''import.validated'' ''import_batch'' (ib_ID stored) (Changes [] (auditBatchValues stored)))
              (\<lambda>s2. Inr ((stored, plan), s2)))))))"

end
