(* ===== verification/ImportOrder.thy ===== *)
theory ImportOrder
  imports ImportCommit
begin

text \<open>
  The two walks over a file's own parents: the cycle check of the planner marks exactly the rows
  whose chain of parents, as far as this file creates them, never ends, in whatever order the
  runtime hands out the map; and the order of writing is a permutation of the plan with every
  parent before its children, wherever the chain above a row ends.
\<close>

section \<open>Chains that end\<close>

inductive ends :: "(string \<times> string) list \<Rightarrow> string \<Rightarrow> bool" for edge where
  ends_top: "ends edge []"
| ends_step: "ends edge (go_lookup edge k) \<Longrightarrow> ends edge k"

inductive_cases endsE: "ends edge k"

lemma ends_iff: "k \<noteq> [] \<Longrightarrow> ends edge k \<longleftrightarrow> ends edge (go_lookup edge k)"
  by (auto intro: ends_step elim: endsE)

definition up_step :: "(string \<times> string) list \<Rightarrow> (string \<times> string) set" where
  "up_step edge = {(k, go_lookup edge k) | k. k \<noteq> []}"

lemma up_step_iff: "(k, p) \<in> up_step edge \<longleftrightarrow> k \<noteq> [] \<and> p = go_lookup edge k"
  by (auto simp: up_step_def)

lemma ends_no_loop: "ends edge k \<Longrightarrow> (k, k) \<notin> (up_step edge)\<^sup>+"
proof (induction rule: ends.induct)
  case ends_top
  show ?case by (auto dest: tranclD simp: up_step_iff)
next
  case (ends_step k)
  show ?case
  proof
    assume "(k, k) \<in> (up_step edge)\<^sup>+"
    then have "(go_lookup edge k, k) \<in> (up_step edge)\<^sup>*" "k \<noteq> []" by (auto dest: tranclD simp: up_step_iff)
    then have "(go_lookup edge k, go_lookup edge k) \<in> (up_step edge)\<^sup>+"
      by (simp add: up_step_iff rtrancl_into_trancl1)
    with ends_step.IH show False by blast
  qed
qed

lemma not_ends_dom: "\<not> ends edge k \<Longrightarrow> k \<in> fst ` set edge"
proof (rule ccontr)
  assume "\<not> ends edge k" "k \<notin> fst ` set edge"
  then have "go_lookup edge k = []" by (simp add: go_lookup_def map_of_eq_None_iff [THEN iffD2])
  with \<open>\<not> ends edge k\<close> show False using ends_step [of edge k] by (simp add: ends_top)
qed

section \<open>The cycle check\<close>

definition sound_verdicts :: "(string \<times> string) list \<Rightarrow> (string \<Rightarrow> verdict option) \<Rightarrow> bool" where
  "sound_verdicts edge known \<longleftrightarrow> (\<forall>k v. known k = Some v \<longrightarrow> (ends edge k \<longleftrightarrow> v = Safe))"

text \<open>All keys of a walk share one verdict, which is right.\<close>

lemma walk_chain_sound:
  "walk_chain edge known chain cursor = (chain', v) \<Longrightarrow> sound_verdicts edge known \<Longrightarrow>
     \<forall>x \<in> set chain. (x, cursor) \<in> (up_step edge)\<^sup>+ \<and> (ends edge x \<longleftrightarrow> ends edge cursor) \<Longrightarrow>
     set chain \<subseteq> set chain' \<and> (\<forall>x \<in> set chain'. ends edge x \<longleftrightarrow> v = Safe) \<and>
     (cursor = [] \<or> known cursor \<noteq> None \<or> cursor \<in> set chain')"
proof (induction edge known chain cursor rule: walk_chain.induct)
  case (1 edge known chain cursor)
  note IH = 1(1) and run = 1(2) and sound = 1(3) and path = 1(4)
  show ?case
  proof (cases "cursor = [] \<or> known cursor \<noteq> None \<or> cursor \<in> set chain")
    case True
    then consider "cursor = []" | w where "cursor \<noteq> []" "known cursor = Some w"
      | "cursor \<noteq> []" "known cursor = None" "cursor \<in> set chain" by auto
    then show ?thesis
    proof cases
      case 1
      with run path show ?thesis by (auto simp: walk_chain.simps [of edge known chain "[]"] ends_top)
    next
      case 2
      with run path sound show ?thesis
        by (auto simp: walk_chain.simps [of edge known chain cursor] sound_verdicts_def)
    next
      case 3
      with path have "\<not> ends edge cursor" using ends_no_loop by blast
      with 3 run path show ?thesis by (auto simp: walk_chain.simps [of edge known chain cursor])
    qed
  next
    case False
    let ?next = "go_lookup edge cursor"
    have step: "(cursor, ?next) \<in> up_step edge" using False by (simp add: up_step_iff)
    have "ends edge cursor \<longleftrightarrow> ends edge ?next" using False by (simp add: ends_iff)
    then have "\<forall>x \<in> set (chain @ [cursor]). (x, ?next) \<in> (up_step edge)\<^sup>+ \<and> (ends edge x \<longleftrightarrow> ends edge ?next)"
      using path step by (auto intro: trancl_into_trancl)
    moreover have "walk_chain edge known (chain @ [cursor]) ?next = (chain', v)"
      using run False by (simp add: walk_chain.simps [of edge known chain cursor])
    ultimately have "set (chain @ [cursor]) \<subseteq> set chain' \<and> (\<forall>x \<in> set chain'. ends edge x \<longleftrightarrow> v = Safe)"
      using IH False sound by auto
    then show ?thesis by auto
  qed
qed

lemma cycles_loop_correct:
  "sound_verdicts edge known \<Longrightarrow>
     (\<forall>n \<in> cyclic. \<exists>k. map_of inFile k = Some n \<and> \<not> ends edge k) \<Longrightarrow>
     (\<And>k n. known k \<noteq> None \<Longrightarrow> map_of inFile k = Some n \<Longrightarrow> \<not> ends edge k \<Longrightarrow> n \<in> cyclic) \<Longrightarrow>
     (\<forall>n \<in> cycles_loop edge inFile known cyclic starts. \<exists>k. map_of inFile k = Some n \<and> \<not> ends edge k) \<and>
     cyclic \<subseteq> cycles_loop edge inFile known cyclic starts \<and>
     (\<forall>k \<in> set starts. \<forall>n. map_of inFile k = Some n \<longrightarrow> \<not> ends edge k \<longrightarrow>
       n \<in> cycles_loop edge inFile known cyclic starts)"
proof (induction starts arbitrary: known cyclic)
  case (Cons start starts)
  obtain chain v where w: "walk_chain edge known [] start = (chain, v)" by fastforce
  define known' where "known' = (\<lambda>k. if k \<in> set chain then Some v else known k)"
  define cyc where "cyc = (if v = InLoop then cyclic \<union>
    set (concat (map (\<lambda>k. case map_of inFile k of None \<Rightarrow> [] | Some n \<Rightarrow> [n]) chain)) else cyclic)"
  have s: "\<forall>x \<in> set chain. ends edge x \<longleftrightarrow> v = Safe" "start = [] \<or> known start \<noteq> None \<or> start \<in> set chain"
    using walk_chain_sound [OF w Cons.prems(1)] by auto
  have cyc: "n \<in> cyc \<longleftrightarrow> n \<in> cyclic \<or> v = InLoop \<and> (\<exists>k \<in> set chain. map_of inFile k = Some n)" for n
    unfolding cyc_def by (cases "v = InLoop") (force split: option.splits)+
  have loop: "cycles_loop edge inFile known cyclic (start # starts) = cycles_loop edge inFile known' cyc starts"
    by (simp add: w known'_def cyc_def)
  have kn: "n \<in> cyc" if "known' k \<noteq> None" "map_of inFile k = Some n" "\<not> ends edge k" for k n
  proof (cases "k \<in> set chain")
    case True
    with that(3) s(1) have "v = InLoop" by (cases v) auto
    with True that(2) show ?thesis by (auto simp: cyc)
  next
    case False
    with that Cons.prems(3) [of k n] show ?thesis by (simp add: cyc known'_def)
  qed
  have "sound_verdicts edge known'" using Cons.prems(1) s(1) by (simp add: sound_verdicts_def known'_def)
  moreover have "\<forall>n \<in> cyc. \<exists>k. map_of inFile k = Some n \<and> \<not> ends edge k"
  proof
    fix n
    assume "n \<in> cyc"
    then consider "n \<in> cyclic" | k where "v \<noteq> Safe" "k \<in> set chain" "map_of inFile k = Some n" by (auto simp: cyc)
    then show "\<exists>k. map_of inFile k = Some n \<and> \<not> ends edge k"
      using Cons.prems(2) s(1) by cases blast+
  qed
  ultimately have IH: "(\<forall>n \<in> cycles_loop edge inFile known' cyc starts. \<exists>k. map_of inFile k = Some n \<and> \<not> ends edge k) \<and>
     cyc \<subseteq> cycles_loop edge inFile known' cyc starts \<and>
     (\<forall>k \<in> set starts. \<forall>n. map_of inFile k = Some n \<longrightarrow> \<not> ends edge k \<longrightarrow>
       n \<in> cycles_loop edge inFile known' cyc starts)"
    using Cons.IH [of known' cyc] kn by blast
  have "n \<in> cyc" if n: "map_of inFile start = Some n" "\<not> ends edge start" for n
  proof (rule kn [OF _ n])
    show "known' start \<noteq> None" using s(2) n(2) by (auto simp: known'_def ends_top)
  qed
  with IH have starts: "\<forall>k \<in> set (start # starts). \<forall>n. map_of inFile k = Some n \<longrightarrow> \<not> ends edge k \<longrightarrow>
       n \<in> cycles_loop edge inFile known' cyc starts" by auto
  have "cyclic \<subseteq> cyc" by (auto simp: cyc)
  with IH starts show ?case unfolding loop by blast
qed simp

lemma file_edges_dom: "k \<in> fst ` set (file_edges parentOf inFile existing) \<Longrightarrow> k \<in> fst ` set parentOf"
  by (force simp: file_edges_def)

lemma entityCycles_iff:
  assumes "\<And>ks. set (order ks) = set ks"
  shows "n \<in> entityCycles order parentOf inFile existing \<longleftrightarrow>
    (\<exists>k. map_of inFile k = Some n \<and> \<not> ends (file_edges parentOf inFile existing) k)"
proof -
  let ?edge = "file_edges parentOf inFile existing"
  let ?starts = "order (remdups (map fst parentOf))"
  have r: "(\<forall>n \<in> cycles_loop ?edge inFile (\<lambda>k. None) {} ?starts. \<exists>k. map_of inFile k = Some n \<and> \<not> ends ?edge k) \<and>
     {} \<subseteq> cycles_loop ?edge inFile (\<lambda>k. None) {} ?starts \<and>
     (\<forall>k \<in> set ?starts. \<forall>n. map_of inFile k = Some n \<longrightarrow> \<not> ends ?edge k \<longrightarrow>
       n \<in> cycles_loop ?edge inFile (\<lambda>k. None) {} ?starts)"
    by (rule cycles_loop_correct) (auto simp: sound_verdicts_def)
  have "k \<in> set ?starts" if "\<not> ends ?edge k" for k
    using file_edges_dom [OF not_ends_dom [OF that]] assms by simp
  with r show ?thesis unfolding entityCycles_def by blast
qed

section \<open>The order of writing\<close>

text \<open>The chain of parents above an index ends.\<close>

inductive rooted :: "(nat \<Rightarrow> nat option) \<Rightarrow> nat \<Rightarrow> bool" for par where
  rooted_top: "par i = None \<Longrightarrow> rooted par i"
| rooted_step: "par i = Some p \<Longrightarrow> rooted par p \<Longrightarrow> rooted par i"

definition par_rel :: "(nat \<Rightarrow> nat option) \<Rightarrow> (nat \<times> nat) set" where
  "par_rel par = {(i, p). par i = Some p}"

lemma rooted_no_loop: "rooted par i \<Longrightarrow> (i, i) \<notin> (par_rel par)\<^sup>+"
proof (induction rule: rooted.induct)
  case (rooted_top i)
  then show ?case by (auto dest: tranclD simp: par_rel_def)
next
  case (rooted_step i p)
  show ?case
  proof
    assume "(i, i) \<in> (par_rel par)\<^sup>+"
    then have "(p, i) \<in> (par_rel par)\<^sup>*" using rooted_step(1) by (auto dest: tranclD simp: par_rel_def)
    then have "(p, p) \<in> (par_rel par)\<^sup>+" using rooted_step(1) by (simp add: par_rel_def rtrancl_into_trancl1)
    with rooted_step.IH show False by blast
  qed
qed

definition precedes :: "nat list \<Rightarrow> nat \<Rightarrow> nat \<Rightarrow> bool" where
  "precedes order p i \<longleftrightarrow> (\<exists>xs ys. order = xs @ i # ys \<and> p \<in> set xs)"

lemma precedes_append: "precedes order p i \<Longrightarrow> precedes (order @ ys) p i"
  unfolding precedes_def by (metis append.assoc append_Cons)

text \<open>
  What every call of the visit keeps: an index is in the order once it is done, parents first; the
  ones on the stack lead up to the index visited.
\<close>

definition visit_inv :: "(nat \<Rightarrow> nat option) \<Rightarrow> visit_state list \<times> nat list \<Rightarrow> bool" where
  "visit_inv par s = (case s of (st, order) \<Rightarrow>
     distinct order \<and> set order = {i. i < length st \<and> st ! i = Done} \<and>
     (\<forall>i p. i \<in> set order \<longrightarrow> rooted par i \<longrightarrow> par i = Some p \<longrightarrow> precedes order p i))"

definition active_set :: "visit_state list \<Rightarrow> nat set" where
  "active_set st = {i. i < length st \<and> st ! i = Active}"

lemma visit_correct:
  "visit par i (st, order) = (st', order') \<Longrightarrow> visit_inv par (st, order) \<Longrightarrow>
     \<forall>a \<in> active_set st. (a, i) \<in> (par_rel par)\<^sup>+ \<Longrightarrow> \<forall>j p. j < length st \<longrightarrow> par j = Some p \<longrightarrow> p < length st \<Longrightarrow>
     visit_inv par (st', order') \<and> length st' = length st \<and> active_set st' = active_set st \<and> set order \<subseteq> set order' \<and>
     (\<forall>j < length st. st ! j = Done \<longrightarrow> st' ! j = Done) \<and>
     (i < length st \<longrightarrow> i \<notin> active_set st \<longrightarrow> st' ! i = Done)"
proof (induction par i "(st, order)" arbitrary: st order st' order' rule: visit.induct)
  case (1 par i st order)
  show ?case
  proof (cases "i < length st \<and> st ! i = Pending")
    case False
    with 1(2-) show ?thesis
      by (cases "st ! i") (auto simp: visit.simps [of par i st order] active_set_def)
  next
    case True
    define st1 where "st1 = st[i := Active]"
    have len1: "length st1 = length st" by (simp add: st1_def)
    have act1: "active_set st1 = insert i (active_set st)"
      using True by (auto simp: active_set_def st1_def nth_list_update)
    have done1: "j < length st \<and> st1 ! j = Done \<longleftrightarrow> j < length st \<and> st ! j = Done" for j
      using True by (auto simp: st1_def nth_list_update)
    have done2: "\<forall>j < length st. st ! j = Done \<longrightarrow> st1 ! j = Done" using done1 by blast
    have inv1: "visit_inv par (st1, order)" using 1(3) done1 by (simp add: visit_inv_def len1)
    have i_new: "i \<notin> set order" using 1(3) True by (auto simp: visit_inv_def)
    obtain st2 order2 where s2: "(case par i of None \<Rightarrow> (st1, order) | Some p \<Rightarrow> visit par p (st1, order)) = (st2, order2)"
      by fastforce
    have s': "st' = st2[i := Done]" "order' = order2 @ [i]"
      using 1(2) True s2 unfolding st1_def by (simp_all add: visit.simps [of par i st order])
    have two: "visit_inv par (st2, order2) \<and> length st2 = length st \<and> active_set st2 = active_set st1 \<and> set order \<subseteq> set order2 \<and>
        (\<forall>j < length st. st ! j = Done \<longrightarrow> st2 ! j = Done) \<and>
        (\<forall>p. par i = Some p \<longrightarrow> rooted par i \<longrightarrow> p \<in> set order2)"
    proof (cases "par i")
      case None
      with s2 have "st2 = st1" "order2 = order" by simp_all
      with None inv1 done2 show ?thesis by (simp add: len1)
    next
      case (Some p)
      have ip: "(i, p) \<in> par_rel par" using Some by (simp add: par_rel_def)
      have "\<forall>a \<in> active_set st1. (a, p) \<in> (par_rel par)\<^sup>+"
        using 1(4) ip act1 by (auto intro: trancl_into_trancl)
      moreover have "visit par p (st1, order) = (st2, order2)" using s2 Some by simp
      ultimately have v: "visit_inv par (st2, order2) \<and> length st2 = length st1 \<and> active_set st2 = active_set st1 \<and>
         set order \<subseteq> set order2 \<and> (\<forall>j < length st1. st1 ! j = Done \<longrightarrow> st2 ! j = Done) \<and>
         (p < length st1 \<longrightarrow> p \<notin> active_set st1 \<longrightarrow> st2 ! p = Done)"
        using 1(1) [OF True Some] inv1 1(5) by (simp add: st1_def len1)
      have "p \<in> set order2" if "rooted par i"
      proof -
        have p: "p < length st" using 1(5) True Some by blast
        have "p \<notin> active_set st1"
        proof
          assume "p \<in> active_set st1"
          then have "(p, i) \<in> (par_rel par)\<^sup>*" using act1 1(4) by (auto intro: trancl_into_rtrancl)
          with ip have "(i, i) \<in> (par_rel par)\<^sup>+" by (rule rtrancl_into_trancl2)
          with rooted_no_loop [OF that] show False by blast
        qed
        with v p show ?thesis by (auto simp: visit_inv_def len1)
      qed
      with v Some done2 show ?thesis by (simp add: len1)
    qed
    have st2i: "i < length st2" "st2 ! i = Active" using two act1 by (auto simp: active_set_def)
    then have i2: "i \<notin> set order2" using two by (auto simp: visit_inv_def)
    have d: "distinct (order2 @ [i])" using two i2 by (simp add: visit_inv_def)
    have e: "set (order2 @ [i]) = {j. j < length (st2[i := Done]) \<and> st2[i := Done] ! j = Done}"
      using two st2i by (auto simp: visit_inv_def nth_list_update)
    have p: "precedes (order2 @ [i]) p j" if "j \<in> set (order2 @ [i])" "rooted par j" "par j = Some p" for j p
    proof (cases "j = i")
      case True
      with two that show ?thesis by (auto simp: precedes_def)
    next
      case False
      with two that show ?thesis by (auto simp: visit_inv_def intro: precedes_append)
    qed
    have "visit_inv par (st', order')" unfolding visit_inv_def s' using d e p by blast
    moreover have "active_set st' = active_set st"
      using two act1 True st2i by (auto simp: s' active_set_def nth_list_update split: if_splits)
    ultimately show ?thesis using two st2i True by (auto simp: s' nth_list_update)
  qed
qed

lemma indexOfKey_bound: "(k, i) \<in> set (indexOfKey u byRow plan) \<Longrightarrow> i < length plan"
  by (auto simp: indexOfKey_def split: option.splits dest: set_zip_leftD)

lemma parentIndex_bound: "parentIndex u byRow plan i = Some p \<Longrightarrow> p < length plan"
  by (auto simp: parentIndex_def split: option.splits if_splits dest!: map_of_SomeD indexOfKey_bound)

lemma visits_correct:
  "visit_inv par (st, order) \<Longrightarrow> active_set st = {} \<Longrightarrow> length st = n \<Longrightarrow> \<forall>j p. par j = Some p \<longrightarrow> p < n \<Longrightarrow>
     foldl (\<lambda>s i. visit par i s) (st, order) is = (st', order') \<Longrightarrow> set is \<subseteq> {..<n} \<Longrightarrow>
     visit_inv par (st', order') \<and> length st' = n \<and> (\<forall>i. i \<in> set is \<or> i < n \<and> st ! i = Done \<longrightarrow> st' ! i = Done)"
proof (induction "is" arbitrary: st order)
  case (Cons i "is")
  obtain st1 order1 where v: "visit par i (st, order) = (st1, order1)" by fastforce
  have c: "visit_inv par (st1, order1) \<and> length st1 = length st \<and> active_set st1 = active_set st \<and>
     (\<forall>j < length st. st ! j = Done \<longrightarrow> st1 ! j = Done) \<and> (i < length st \<longrightarrow> i \<notin> active_set st \<longrightarrow> st1 ! i = Done)"
    using visit_correct [OF v Cons.prems(1)] Cons.prems(2-4) by auto
  then have one: "visit_inv par (st1, order1)" "active_set st1 = {}" "length st1 = n" "st1 ! i = Done" "i < n"
    "\<forall>j < n. st ! j = Done \<longrightarrow> st1 ! j = Done"
    using Cons.prems(2,3,6) by auto
  have "foldl (\<lambda>s i. visit par i s) (st1, order1) is = (st', order')" using Cons.prems(5) v by simp
  with Cons.IH [OF one(1-3) Cons.prems(4)] Cons.prems(6)
  have "visit_inv par (st', order') \<and> length st' = n \<and> (\<forall>i. i \<in> set is \<or> i < n \<and> st1 ! i = Done \<longrightarrow> st' ! i = Done)"
    by simp
  with one(4-6) show ?case by auto
qed auto

lemma apply_order:
  "distinct (entityApplyOrder u byRow plan) \<and> set (entityApplyOrder u byRow plan) = {..<length plan} \<and>
   (\<forall>i p. rooted (parentIndex u byRow plan) i \<longrightarrow> i < length plan \<longrightarrow> parentIndex u byRow plan i = Some p \<longrightarrow>
     precedes (entityApplyOrder u byRow plan) p i)"
proof -
  let ?par = "parentIndex u byRow plan"
  obtain st order where f: "foldl (\<lambda>s i. visit ?par i s) (replicate (length plan) Pending, []) [0..<length plan] = (st, order)"
    by fastforce
  have "visit_inv ?par (replicate (length plan) Pending, [])" by (simp add: visit_inv_def)
  moreover have "active_set (replicate (length plan) Pending) = {}" by (auto simp: active_set_def)
  ultimately have v: "visit_inv ?par (st, order) \<and> length st = length plan \<and> (\<forall>i < length plan. st ! i = Done)"
    using visits_correct [OF _ _ _ _ f] parentIndex_bound by force
  then have "set order = {..<length plan}" by (auto simp: visit_inv_def)
  with v f show ?thesis by (simp add: entityApplyOrder_def visit_inv_def)
qed

text \<open>
  Property C32. The cycle check marks exactly the rows that cannot be written in any order: a row is
  marked when the chain of parents this file itself creates, starting at the key the row claims,
  never comes to an end. The answer does not depend on the order in which the runtime walks the
  file's map of parents.
\<close>

theorem cycle_check_exact:
  assumes "\<And>ks. set (order ks) = set ks"
  shows "n \<in> entityCycles order (parentOf_of u rows) (inFile_of u rows) existing \<longleftrightarrow>
    (\<exists>k. map_of (inFile_of u rows) k = Some n \<and>
      \<not> ends (file_edges (parentOf_of u rows) (inFile_of u rows) existing) k)"
  by (rule entityCycles_iff [OF assms])

definition child_of :: "string \<Rightarrow> string \<Rightarrow> entity_draft" where
  "child_of name parent = zero_draft\<lparr>ed_Name := name, ed_Country := ''Germany'', ed_FiscalCalendarPattern := ''standard'',
     ed_FiscalWeekEndDay := ''saturday'', ed_FiscalYearEndRule := ''nearest'', ed_ParentRef := parent,
     ed_Spoke := {''name'', ''parent'', ''country''}\<rparr>"

definition file_row :: "int \<Rightarrow> entity_draft \<Rightarrow> draft_row" where
  "file_row n d = \<lparr>dw_Number = n, dw_Entity = Some d, dw_Issues = [], dw_DuplicateOfRow = 0\<rparr>"

definition loop_file :: "draft_row list" where
  "loop_file = [file_row 2 (child_of ''a'' ''b''), file_row 3 (child_of ''b'' ''a''), file_row 4 (child_of ''c'' ''a'')]"

theorem cycle_check_witness:
  "4 \<in> entityCycles rev (parentOf_of ascii_ops loop_file) (inFile_of ascii_ops loop_file) (\<lambda>k. None)"
proof -
  let ?edge = "file_edges (parentOf_of ascii_ops loop_file) (inFile_of ascii_ops loop_file) (\<lambda>k. None)"
  have e: "go_lookup ?edge ''a'' = ''b''" "go_lookup ?edge ''b'' = ''a''" "go_lookup ?edge ''c'' = ''a''"
    by code_simp+
  have "(''a'', ''b'') \<in> up_step ?edge" "(''b'', ''a'') \<in> up_step ?edge" by (simp_all add: up_step_iff e)
  then have "(''a'', ''a'') \<in> (up_step ?edge)\<^sup>+" by (rule trancl_into_trancl [OF r_into_trancl])
  then have "\<not> ends ?edge ''a''" using ends_no_loop by blast
  then have "\<not> ends ?edge ''c''" by (simp add: ends_iff [of "''c''"] e)
  moreover have "map_of (inFile_of ascii_ops loop_file) ''c'' = Some 4" by code_simp
  ultimately show ?thesis using cycle_check_exact [of rev 4 ascii_ops loop_file "\<lambda>k. None"] by auto
qed

text \<open>
  Property C33. The order of writing lists every index of the plan exactly once, and wherever the chain of
  parents above a row, as far as they are rows of this plan, comes to an end, the row's parent is
  written before the row.
\<close>

theorem parents_written_first:
  "distinct (entityApplyOrder u byRow plan) \<and> set (entityApplyOrder u byRow plan) = {..<length plan} \<and>
   (\<forall>i p. rooted (parentIndex u byRow plan) i \<longrightarrow> i < length plan \<longrightarrow> parentIndex u byRow plan i = Some p \<longrightarrow>
     precedes (entityApplyOrder u byRow plan) p i)"
  by (rule apply_order)

definition tree_plan :: "row_plan list" where
  "tree_plan = map (\<lambda>n. \<lparr>pr_RowNumber = n, pr_Action = RowCreate, pr_NaturalKey = [], pr_TargetID = None,
     pr_TargetUpdatedAt = None, pr_Payload = NoPayload, pr_Changes = [], pr_Issues = []\<rparr>) [2, 3]"

theorem parents_written_witness:
  "precedes (entityApplyOrder ascii_ops (byRow_of [file_row 2 (child_of ''c'' ''a''), file_row 3 (child_of ''a'' [])]) tree_plan) 1 0"
proof -
  let ?par = "parentIndex ascii_ops (byRow_of [file_row 2 (child_of ''c'' ''a''), file_row 3 (child_of ''a'' [])]) tree_plan"
  have p: "?par 0 = Some 1" "?par 1 = None" by code_simp+
  then have "rooted ?par 0" by (blast intro: rooted_top rooted_step)
  with p show ?thesis by (auto simp: tree_plan_def intro!: parents_written_first [THEN conjunct2, THEN conjunct2, rule_format])
qed

end
