(* ===== verification/ImportRows.thy ===== *)
theory ImportRows
  imports ImportOrder
begin

text \<open>
  What the planner decides for a row, in one characterisation per outcome, and what a plan's
  counts say of its rows.
\<close>

section \<open>One row\<close>

text \<open>The row may be written: its key is its own, its parent can be found, nothing is wrong with it.\<close>

definition row_ok :: "text_ops \<Rightarrow> key_index \<Rightarrow> (string \<times> int) list \<Rightarrow> int set \<Rightarrow> draft_row \<Rightarrow> entity_draft \<Rightarrow> bool" where
  "row_ok u m inFile cyclic row d \<longleftrightarrow>
     NaturalKey u d \<noteq> [] \<and> (case map_of inFile (NaturalKey u d) of None \<Rightarrow> 0 | Some n \<Rightarrow> n) = dw_Number row \<and>
     dw_Number row \<notin> cyclic \<and> (\<forall>t. m (NaturalKey u d) = Some t \<longrightarrow> \<not> xe_Ambiguous t) \<and>
     (ParentKey u d = [] \<or> existingParent m (ParentKey u d) \<noteq> None \<or> map_of inFile (ParentKey u d) \<noteq> None) \<and>
     \<not> HasError row"

text \<open>What is decided for it: the record it matches, its version, and the changes.\<close>

definition row_decision :: "text_ops \<Rightarrow> key_index \<Rightarrow> entity_draft \<Rightarrow> row_plan \<Rightarrow> bool" where
  "row_decision u m d p \<longleftrightarrow>
     (case m (NaturalKey u d) of
        None \<Rightarrow> pr_Action p = RowCreate \<and> pr_TargetID p = None \<and> pr_TargetUpdatedAt p = None \<and> pr_Changes p = []
      | Some t \<Rightarrow>
          pr_TargetID p = Some (xe_ID t) \<and> pr_TargetUpdatedAt p = Some (xe_UpdatedAt t) \<and>
          pr_Changes p = entityChanges u d (existingParent m (ParentKey u d)) (ParentKey u d) t \<and>
          pr_Action p = (if pr_Changes p = [] then RowUnchanged else RowUpdate))"

definition row_refused :: "row_plan \<Rightarrow> bool" where
  "row_refused p \<longleftrightarrow> pr_Action p = RowInvalid \<and> pr_TargetID p = None \<and> pr_TargetUpdatedAt p = None \<and> pr_Changes p = []"

lemma invalidRow_refused [simp]: "row_refused (invalidRow planned issues field msg)"
  by (simp add: row_refused_def invalidRow_def)

lemma invalidRow_number [simp]: "pr_RowNumber (invalidRow planned issues field msg) = pr_RowNumber planned"
  by (simp add: invalidRow_def)

lemma forbiddenRow_refused [simp]: "row_refused (forbiddenRow planned issues e)"
  by (simp add: forbiddenRow_def)

lemma forbiddenRow_number [simp]: "pr_RowNumber (forbiddenRow planned issues e) = pr_RowNumber planned"
  by (simp add: forbiddenRow_def)

lemma invalidRow_payload [simp]: "pr_Payload (invalidRow planned issues field msg) = pr_Payload planned"
  by (simp add: invalidRow_def)

lemma forbiddenRow_payload [simp]: "pr_Payload (forbiddenRow planned issues e) = pr_Payload planned"
  by (simp add: forbiddenRow_def)

lemma permitted_Some:
  "permitted planned issues answer k = Some p \<Longrightarrow>
     (\<exists>e. answer = Some (Inl e) \<and> p = forbiddenRow planned issues e) \<or> (\<exists>u. answer = Some (Inr u)) \<and> k = Some p"
  unfolding permitted_def by (cases answer) (auto split: sum.splits)

lemma plan_create_Some:
  assumes "plan_create uc s m inFile parentOf planned issues d = Some p"
    and "pr_TargetID planned = None" "pr_TargetUpdatedAt planned = None" "pr_Changes planned = []"
    and "m (NaturalKey (iu_Text uc) d) = None"
  shows "pr_RowNumber p = pr_RowNumber planned \<and> pr_Payload p = pr_Payload planned \<and>
    (row_refused p \<or> row_decision (iu_Text uc) m d p)"
proof -
  from assms(1) consider fs where "p = invalidRow planned fs [] (text_msg [])"
    | e where "p = forbiddenRow planned issues e" | "p = withIssues (actioned planned RowCreate) issues"
    unfolding plan_create_def Let_def by (auto split: if_splits dest!: permitted_Some)
  then show ?thesis
    by cases (use assms(2-5) in \<open>simp_all add: row_decision_def actioned_def withIssues_def\<close>)
qed

lemma plan_existing_Some:
  assumes "plan_existing uc s m planned issues d t = Some p" and "pr_Changes planned = []"
    and "m (NaturalKey (iu_Text uc) d) = Some t"
  shows "pr_RowNumber p = pr_RowNumber planned \<and> pr_Payload p = pr_Payload planned \<and>
    (row_refused p \<or> row_decision (iu_Text uc) m d p)"
proof -
  define q where "q = planned\<lparr>pr_TargetID := Some (xe_ID t), pr_TargetUpdatedAt := Some (xe_UpdatedAt t)\<rparr>"
  define changed where "changed = entityChanges (iu_Text uc) d (existingParent m (ParentKey (iu_Text uc) d)) (ParentKey (iu_Text uc) d) t"
  have q: "pr_RowNumber q = pr_RowNumber planned" "pr_Payload q = pr_Payload planned" "pr_TargetID q = Some (xe_ID t)"
    "pr_TargetUpdatedAt q = Some (xe_UpdatedAt t)" "pr_Changes q = []"
    using assms(2) by (simp_all add: q_def)
  from assms(1) consider "changed = []" "p = withIssues (actioned q RowUnchanged) issues"
    | e where "p = forbiddenRow q issues e"
    | "changed \<noteq> []" "p = withIssues (q\<lparr>pr_Action := RowUpdate, pr_Changes := changed\<rparr>) issues"
    unfolding plan_existing_def Let_def q_def [symmetric] changed_def [symmetric]
    by (auto split: if_splits dest!: permitted_Some)
  then show ?thesis
    by cases (use q assms(3) in \<open>simp_all add: row_decision_def actioned_def withIssues_def changed_def forbiddenRow_def invalidRow_def\<close>,
      simp add: row_refused_def)
qed

lemma planEntityRow_Some:
  assumes "planEntityRow uc s m inFile parentOf cyclic row = Some p"
  shows "pr_RowNumber p = dw_Number row \<and>
    (row_refused p \<or> (\<exists>d. dw_Entity row = Some d \<and> pr_Payload p = EntityPayload d \<and>
       row_ok (iu_Text uc) m inFile cyclic row d \<and> row_decision (iu_Text uc) m d p))"
proof (cases "dw_Entity row")
  case None
  with assms show ?thesis by (auto simp: planEntityRow_def Let_def)
next
  case (Some d)
  show ?thesis
  proof (cases "row_ok (iu_Text uc) m inFile cyclic row d")
    case False
    with assms Some show ?thesis
      by (auto simp: planEntityRow_def Let_def row_ok_def split: if_splits option.splits)
  next
    case True
    let ?planned = "\<lparr>pr_RowNumber = dw_Number row, pr_Action = NoAction, pr_NaturalKey = row_NaturalKey (iu_Text uc) row,
            pr_TargetID = None, pr_TargetUpdatedAt = None, pr_Payload = EntityPayload d, pr_Changes = [], pr_Issues = []\<rparr>"
    show ?thesis
    proof (cases "m (NaturalKey (iu_Text uc) d)")
      case None
      with assms Some True have "plan_create uc s m inFile parentOf ?planned (dw_Issues row) d = Some p"
        by (auto simp: planEntityRow_def Let_def row_ok_def)
      from plan_create_Some [OF this] None True Some show ?thesis by auto
    next
      case (Some t)
      with assms \<open>dw_Entity row = Some d\<close> True have "plan_existing uc s m ?planned (dw_Issues row) d t = Some p"
        by (auto simp: planEntityRow_def Let_def row_ok_def)
      from plan_existing_Some [OF this] Some True \<open>dw_Entity row = Some d\<close> show ?thesis by auto
    qed
  qed
qed

text \<open>A row that agrees with the record it matches is planned as unchanged, whoever asks.\<close>

lemma planEntityRow_unchanged:
  assumes "dw_Entity row = Some d" "row_ok (iu_Text uc) m inFile cyclic row d" "m (NaturalKey (iu_Text uc) d) = Some t"
    and "entityChanges (iu_Text uc) d (existingParent m (ParentKey (iu_Text uc) d)) (ParentKey (iu_Text uc) d) t = []"
  shows "\<exists>p. planEntityRow uc s m inFile parentOf cyclic row = Some p \<and> pr_Action p = RowUnchanged"
  using assms
  by (auto simp: planEntityRow_def Let_def row_ok_def plan_existing_def withIssues_def actioned_def)

section \<open>A file\<close>

lemma plan_rows_iff: "plan_rows f plan rows = Some plan' \<longleftrightarrow> (\<exists>ps. map f rows = map Some ps \<and> plan' = foldl plan_Add plan ps)"
proof (induction rows arbitrary: plan)
  case (Cons row rows)
  show ?case
  proof
    assume "plan_rows f plan (row # rows) = Some plan'"
    then obtain p where "f row = Some p" "plan_rows f (plan_Add plan p) rows = Some plan'"
      by (auto simp: bind_eq_Some_conv)
    then obtain ps where "map f (row # rows) = map Some (p # ps)" "plan' = foldl plan_Add plan (p # ps)"
      using Cons.IH by auto
    then show "\<exists>ps. map f (row # rows) = map Some ps \<and> plan' = foldl plan_Add plan ps" by blast
  next
    assume "\<exists>ps. map f (row # rows) = map Some ps \<and> plan' = foldl plan_Add plan ps"
    then obtain p ps where "map f (row # rows) = map Some (p # ps)" "plan' = foldl plan_Add plan (p # ps)"
      by (metis list.distinct(1) list.exhaust list.simps(8,9))
    then show "plan_rows f plan (row # rows) = Some plan'" using Cons.IH by auto
  qed
qed auto

lemma plan_Add_simps:
  "bp_Rows (plan_Add p r) = bp_Rows p @ [r]"
  "bp_CreateCount (plan_Add p r) = bp_CreateCount p + (if pr_Action r = RowCreate then 1 else 0)"
  "bp_UpdateCount (plan_Add p r) = bp_UpdateCount p + (if pr_Action r = RowUpdate then 1 else 0)"
  "bp_UnchangedCount (plan_Add p r) = bp_UnchangedCount p + (if pr_Action r = RowUnchanged then 1 else 0)"
  "bp_InvalidCount (plan_Add p r) = bp_InvalidCount p + (if pr_Action r = RowInvalid then 1 else 0)"
  by (simp_all add: plan_Add_def Let_def split: row_action.split)

definition count_action :: "row_action \<Rightarrow> row_plan list \<Rightarrow> int" where
  "count_action a ps = int (length (filter (\<lambda>p. pr_Action p = a) ps))"

lemma count_action_simps [simp]:
  "count_action a [] = 0" "count_action a (p # ps) = (if pr_Action p = a then 1 else 0) + count_action a ps"
  by (simp_all add: count_action_def)

lemma foldl_plan_Add:
  "bp_Rows (foldl plan_Add p ps) = bp_Rows p @ ps \<and>
   bp_CreateCount (foldl plan_Add p ps) = bp_CreateCount p + count_action RowCreate ps \<and>
   bp_UpdateCount (foldl plan_Add p ps) = bp_UpdateCount p + count_action RowUpdate ps \<and>
   bp_UnchangedCount (foldl plan_Add p ps) = bp_UnchangedCount p + count_action RowUnchanged ps \<and>
   bp_InvalidCount (foldl plan_Add p ps) = bp_InvalidCount p + count_action RowInvalid ps"
  by (induction ps arbitrary: p) (auto simp: plan_Add_simps)

lemma counts_cover:
  "list_all (\<lambda>p. pr_Action p \<noteq> NoAction) ps \<Longrightarrow>
     count_action RowCreate ps + count_action RowUpdate ps + count_action RowUnchanged ps + count_action RowInvalid ps = int (length ps)"
proof (induction ps)
  case (Cons p ps)
  then show ?case by (cases "pr_Action p") auto
qed simp

lemma planEntities_Some:
  assumes "planEntities uc s rows = Some (Inr (plan, m))"
  defines "inFile \<equiv> inFile_of (iu_Text uc) rows" and "parentOf \<equiv> parentOf_of (iu_Text uc) rows"
  shows "iu_EntitiesByKey uc s (wanted_keys (iu_Text uc) rows) = Inr m \<and>
    (\<exists>ps. plan = foldl plan_Add empty_plan ps \<and> bp_Rows plan = ps \<and>
      map (planEntityRow uc s m inFile parentOf (entityCycles (iu_MapOrder uc) parentOf inFile m)) rows = map Some ps)"
  using assms foldl_plan_Add [of empty_plan]
  by (auto simp: planEntities_def Let_def bind_eq_Some_conv plan_rows_iff empty_plan_def split: sum.splits)

lemma planEntities_rows:
  assumes "iu_EntitiesByKey uc s (wanted_keys (iu_Text uc) rows) = Inr m"
    and "map (planEntityRow uc s m (inFile_of (iu_Text uc) rows) (parentOf_of (iu_Text uc) rows)
      (entityCycles (iu_MapOrder uc) (parentOf_of (iu_Text uc) rows) (inFile_of (iu_Text uc) rows) m)) rows = map Some ps"
  shows "planEntities uc s rows = Some (Inr (foldl plan_Add empty_plan ps, m)) \<and> bp_Rows (foldl plan_Add empty_plan ps) = ps"
  using assms foldl_plan_Add [of empty_plan ps]
  by (auto simp: planEntities_def Let_def bind_eq_Some_conv plan_rows_iff empty_plan_def)

text \<open>Every row in order has its decision.\<close>

lemma planEntities_nth:
  assumes "planEntities uc s rows = Some (Inr (plan, m))"
  shows "length (bp_Rows plan) = length rows \<and> (\<forall>i < length rows.
    planEntityRow uc s m (inFile_of (iu_Text uc) rows) (parentOf_of (iu_Text uc) rows)
      (entityCycles (iu_MapOrder uc) (parentOf_of (iu_Text uc) rows) (inFile_of (iu_Text uc) rows) m) (rows ! i) = Some (bp_Rows plan ! i))"
  using planEntities_Some [OF assms] by (metis length_map nth_map)

section \<open>Claims\<close>

lemma claims_of_iff:
  "(k, n, p) \<in> set (claims_of u rows) \<longleftrightarrow>
     (\<exists>row \<in> set rows. \<exists>d. dw_Entity row = Some d \<and> k = NaturalKey u d \<and> k \<noteq> [] \<and> n = dw_Number row \<and> p = ParentKey u d)"
proof -
  define f :: "draft_row \<Rightarrow> (string \<times> int \<times> string) list" where "f row = (case dw_Entity row of None \<Rightarrow> []
       | Some d \<Rightarrow> if NaturalKey u d = [] then [] else [(NaturalKey u d, dw_Number row, ParentKey u d)])" for row
  have f: "x \<in> set (f row) \<longleftrightarrow>
     (\<exists>d. dw_Entity row = Some d \<and> NaturalKey u d \<noteq> [] \<and> x = (NaturalKey u d, dw_Number row, ParentKey u d))" for x and row :: draft_row
    by (cases "dw_Entity row") (auto simp: f_def)
  have "claims_of u rows = concat (map f rows)" by (simp add: claims_of_def f_def [abs_def])
  then have "(k, n, p) \<in> set (claims_of u rows) \<longleftrightarrow> (\<exists>row \<in> set rows. (k, n, p) \<in> set (f row))" by simp
  then show ?thesis unfolding f by blast
qed

lemma inFile_dom:
  "map_of (inFile_of u rows) k \<noteq> None \<longleftrightarrow> (\<exists>row \<in> set rows. \<exists>d. dw_Entity row = Some d \<and> NaturalKey u d = k \<and> k \<noteq> [])"
proof -
  have "map_of (inFile_of u rows) k \<noteq> None \<longleftrightarrow> k \<in> fst ` set (inFile_of u rows)"
    by (simp add: map_of_eq_None_iff)
  also have "\<dots> \<longleftrightarrow> (\<exists>n p. (k, n, p) \<in> set (claims_of u rows))" by (force simp: inFile_of_def)
  finally show ?thesis unfolding claims_of_iff by blast
qed

lemma parentOf_dom: "fst ` set (parentOf_of u rows) = fst ` set (inFile_of u rows)"
  by (force simp: parentOf_of_def inFile_of_def)

end
