(* ===== verification/ImportEffect.thy ===== *)
theory ImportEffect
  imports ImportRows
begin

text \<open>
  What a commit does. The locale \<open>import_repository\<close> states what the import relies on of its
  repository: a read of the index that answers every key asked for, inserts under fresh ids,
  updates pinned to a version, and evidence that leaves the records alone. Inside it, the effect
  of a commit is shown to be the stored plan, and importing the same file again to be a no-op.
\<close>

section \<open>Indexes and records\<close>

definition bare :: "existing_entity \<Rightarrow> existing_entity" where
  "bare x = x\<lparr>xe_ParentName := None, xe_Ambiguous := False\<rparr>"

lemma bare_fields [simp]:
  "xe_ID (bare x) = xe_ID x" "xe_UpdatedAt (bare x) = xe_UpdatedAt x" "xe_ParentID (bare x) = xe_ParentID x"
  "xe_Name (bare x) = xe_Name x" "xe_LegalName (bare x) = xe_LegalName x" "xe_Country (bare x) = xe_Country x"
  "xe_TaxResidency (bare x) = xe_TaxResidency x" "xe_Pattern (bare x) = xe_Pattern x" "xe_YearEnd (bare x) = xe_YearEnd x"
  "xe_WeekEndDay (bare x) = xe_WeekEndDay x" "xe_YearEndRule (bare x) = xe_YearEndRule x" "xe_Status (bare x) = xe_Status x"
  by (simp_all add: bare_def)

definition keyOf :: "text_ops \<Rightarrow> existing_entity \<Rightarrow> string" where
  "keyOf u e = NormalizeKey u (xe_Name e)"

text \<open>
  The index answers exactly the keys asked for: nothing when no record has the key, the record
  when it is the only one, and an ambiguous one when there are several.
\<close>

definition index_of :: "text_ops \<Rightarrow> (string \<Rightarrow> existing_entity option) \<Rightarrow> string set \<Rightarrow> key_index \<Rightarrow> bool" where
  "index_of u tbl keys m \<longleftrightarrow>
     (\<forall>k. (k \<notin> keys \<or> k = [] \<longrightarrow> m k = None) \<and>
        (k \<in> keys \<and> k \<noteq> [] \<longrightarrow>
          (case m k of
             None \<Rightarrow> \<forall>i e. tbl i = Some e \<longrightarrow> keyOf u e \<noteq> k
           | Some x \<Rightarrow> tbl (xe_ID x) = Some (bare x) \<and> keyOf u x = k \<and>
               (xe_Ambiguous x \<longleftrightarrow> (\<exists>i e. i \<noteq> xe_ID x \<and> tbl i = Some e \<and> keyOf u e = k)))))"

lemma index_of_at:
  "index_of u tbl keys m \<Longrightarrow> (k \<notin> keys \<or> k = [] \<longrightarrow> m k = None) \<and>
        (k \<in> keys \<and> k \<noteq> [] \<longrightarrow>
          (case m k of
             None \<Rightarrow> \<forall>i e. tbl i = Some e \<longrightarrow> keyOf u e \<noteq> k
           | Some x \<Rightarrow> tbl (xe_ID x) = Some (bare x) \<and> keyOf u x = k \<and>
               (xe_Ambiguous x \<longleftrightarrow> (\<exists>i e. i \<noteq> xe_ID x \<and> tbl i = Some e \<and> keyOf u e = k))))"
  unfolding index_of_def by (rule spec)

lemma index_of_None: "index_of u tbl keys m \<Longrightarrow> k \<in> keys \<Longrightarrow> k \<noteq> [] \<Longrightarrow> m k = None \<Longrightarrow> tbl i = Some e \<Longrightarrow> keyOf u e \<noteq> k"
  using index_of_at [of u tbl keys m k] by auto

lemma index_of_Some:
  assumes "index_of u tbl keys m" "m k = Some x"
  shows "k \<in> keys \<and> k \<noteq> [] \<and> tbl (xe_ID x) = Some (bare x) \<and> keyOf u x = k \<and>
    (xe_Ambiguous x \<longleftrightarrow> (\<exists>i e. i \<noteq> xe_ID x \<and> tbl i = Some e \<and> keyOf u e = k))"
proof -
  note at_k = index_of_at [OF assms(1), of k]
  then have "k \<in> keys \<and> k \<noteq> []" using assms(2) by auto
  with at_k assms(2) show ?thesis by simp
qed

text \<open>A record found alone keeps being found under its key as long as no other record gets that key.\<close>

lemma index_of_unique:
  assumes "index_of u tbl keys m" "k \<in> keys" "k \<noteq> []" "tbl i = Some e" "keyOf u e = k"
    and only: "\<And>j e'. tbl j = Some e' \<Longrightarrow> keyOf u e' = k \<Longrightarrow> j = i"
  shows "\<exists>x. m k = Some x \<and> xe_ID x = i \<and> bare x = e \<and> \<not> xe_Ambiguous x"
proof (cases "m k")
  case None
  with index_of_None [OF assms(1-3) None assms(4)] assms(5) show ?thesis by blast
next
  case (Some x)
  note x = index_of_Some [OF assms(1) Some]
  have "keyOf u (bare x) = k" using x by (simp add: keyOf_def)
  then have i: "xe_ID x = i" using x only by blast
  then have "\<not> xe_Ambiguous x" using x only by blast
  with Some x i assms(4) show ?thesis by auto
qed

text \<open>The record holds the values of a draft, under a parent.\<close>

definition carries :: "existing_entity \<Rightarrow> entity_draft \<Rightarrow> string option \<Rightarrow> bool" where
  "carries e d p \<longleftrightarrow>
     xe_Name e = ed_Name d \<and> xe_LegalName e = ed_LegalName d \<and> xe_Country e = ed_Country d \<and>
     xe_TaxResidency e = ed_TaxResidency d \<and> xe_Pattern e = ed_FiscalCalendarPattern d \<and>
     xe_YearEnd e = ed_FinancialYearEnd d \<and> xe_WeekEndDay e = ed_FiscalWeekEndDay d \<and>
     xe_YearEndRule e = ed_FiscalYearEndRule d \<and> xe_ParentID e = p"

lemma ch_compare_Nil: "ch_compare u said f a b cs = [] \<longleftrightarrow> cs = [] \<and> (said f \<longrightarrow> sameText u a b)"
  by (auto simp: ch_compare_def ch_record_def)

lemma ch_parent_Nil:
  "ch_parent d pid pk t cs = [] \<longleftrightarrow> cs = [] \<and>
     (Said d ''parent'' \<longrightarrow> (if pk = [] then xe_ParentID t = None else pid \<noteq> None \<and> samePtr pid (xe_ParentID t)))"
  by (auto simp: ch_parent_def ch_record_def)

lemma sort_key_Nil: "sort_key f xs = [] \<longleftrightarrow> xs = []"
  by (metis length_0_conv length_sort)

lemma samePtr_iff: "samePtr a b \<longleftrightarrow> a = b"
  by (auto simp: samePtr_def split: option.splits)

lemma entityChanges_Nil:
  "entityChanges u d pid pk t = [] \<longleftrightarrow>
     (Said d ''name'' \<longrightarrow> sameText u (Some (xe_Name t)) (Some (ed_Name d))) \<and>
     (Said d ''legalName'' \<longrightarrow> sameText u (xe_LegalName t) (ed_LegalName d)) \<and>
     (Said d ''country'' \<longrightarrow> sameText u (Some (xe_Country t)) (Some (ed_Country d))) \<and>
     (Said d ''taxResidency'' \<longrightarrow> sameText u (xe_TaxResidency t) (ed_TaxResidency d)) \<and>
     (Said d ''fiscalCalendarPattern'' \<longrightarrow> sameText u (Some (xe_Pattern t)) (Some (ed_FiscalCalendarPattern d))) \<and>
     (Said d ''financialYearEnd'' \<longrightarrow> sameText u (xe_YearEnd t) (ed_FinancialYearEnd d)) \<and>
     (Said d ''fiscalWeekEndDay'' \<longrightarrow> sameText u (Some (xe_WeekEndDay t)) (Some (ed_FiscalWeekEndDay d))) \<and>
     (Said d ''fiscalYearEndRule'' \<longrightarrow> sameText u (Some (xe_YearEndRule t)) (Some (ed_FiscalYearEndRule d))) \<and>
     (Said d ''parent'' \<longrightarrow> (if pk = [] then xe_ParentID t = None else pid \<noteq> None \<and> pid = xe_ParentID t))"
  by (simp add: entityChanges_def Let_def sort_key_Nil ch_parent_Nil ch_compare_Nil samePtr_iff conj_assoc)

lemma sameText_refl [simp]: "sameText u a a"
  by (cases a) (simp_all add: sameText_def)

text \<open>A record that carries what a commit writes shows no change, for a create and for an update.\<close>

lemma created_unchanged:
  "carries t d p \<Longrightarrow> (pk = [] \<longrightarrow> p = None) \<Longrightarrow> (pk \<noteq> [] \<longrightarrow> p = pid \<and> pid \<noteq> None) \<Longrightarrow> entityChanges u d pid pk t = []"
  by (simp add: entityChanges_Nil carries_def)

lemma updated_unchanged:
  "carries t (mergeEntity d old) (mergeParent d p old) \<Longrightarrow> (pk = [] \<longrightarrow> p = None) \<Longrightarrow> (pk \<noteq> [] \<longrightarrow> p = pid \<and> pid \<noteq> None) \<Longrightarrow>
     entityChanges u d pid pk t = []"
  by (simp add: entityChanges_Nil carries_def mergeEntity_def mergeParent_def)

lemma bare_unchanged: "entityChanges u d pid pk (bare t) = [] \<longleftrightarrow> entityChanges u d pid pk t = []"
  by (simp add: entityChanges_Nil)

lemma mergeEntity_key: "NaturalKey u (mergeEntity d t) = (if Said d ''name'' then NaturalKey u d else keyOf u t)"
  by (simp add: NaturalKey_def mergeEntity_def keyOf_def)

section \<open>The effect of writing a plan\<close>

definition planned_draft :: "row_plan \<Rightarrow> entity_draft" where
  "planned_draft p = payload_draft (pr_Payload p)"

definition plan_key :: "text_ops \<Rightarrow> row_plan \<Rightarrow> string" where
  "plan_key u p = NaturalKey u (planned_draft p)"

definition written :: "row_plan \<Rightarrow> bool" where
  "written p \<longleftrightarrow> pr_Action p = RowCreate \<or> pr_Action p = RowUpdate"

text \<open>The parent a row ends up under, given the ids created under the file's keys.\<close>

definition home :: "text_ops \<Rightarrow> key_index \<Rightarrow> (string \<times> string) list \<Rightarrow> entity_draft \<Rightarrow> string option" where
  "home u m created d =
     (if ParentKey u d = [] then None
      else case existingParent m (ParentKey u d) of Some i \<Rightarrow> Some i | None \<Rightarrow> map_of created (ParentKey u d))"

definition has_home :: "text_ops \<Rightarrow> key_index \<Rightarrow> (string \<times> string) list \<Rightarrow> entity_draft \<Rightarrow> bool" where
  "has_home u m created d \<longleftrightarrow>
     ParentKey u d = [] \<or> existingParent m (ParentKey u d) \<noteq> None \<or> map_of created (ParentKey u d) \<noteq> None"

lemma resolveParent_Inr: "resolveParent u d m created n = Inr p \<Longrightarrow> has_home u m created d \<and> p = home u m created d"
  by (auto simp: resolveParent_def home_def has_home_def Let_def split: if_splits option.splits dest: sym)

lemma home_extend:
  "has_home u m created d \<Longrightarrow> map_of created k = None \<Longrightarrow>
     has_home u m ((k, i) # created) d \<and> home u m ((k, i) # created) d = home u m created d"
  by (auto simp: home_def has_home_def split: option.split)

text \<open>
  The records after some rows of a plan are written: every create has a record of its own, every
  update its record overwritten from the version it was planned from, nothing else has moved.
\<close>

definition effect ::
  "text_ops \<Rightarrow> key_index \<Rightarrow> ('r \<Rightarrow> existing_entity) \<Rightarrow> (string \<Rightarrow> entity_draft \<Rightarrow> string option \<Rightarrow> 'r) \<Rightarrow>
     (entity_draft \<Rightarrow> string option \<Rightarrow> 'r \<Rightarrow> 'r) \<Rightarrow> (string \<Rightarrow> 'r option) \<Rightarrow> row_plan list \<Rightarrow> (string \<times> string) list \<Rightarrow>
     (string \<Rightarrow> 'r option) \<Rightarrow> bool" where
  "effect u m view mk over pre ps created post \<longleftrightarrow>
     (\<forall>k. map_of created k \<noteq> None \<longleftrightarrow> (\<exists>p \<in> set ps. pr_Action p = RowCreate \<and> plan_key u p = k)) \<and>
     (\<forall>k i. map_of created k = Some i \<longrightarrow> pre i = None) \<and>
     (\<forall>p \<in> set ps. written p \<longrightarrow> has_home u m created (planned_draft p)) \<and>
     (\<forall>p \<in> set ps. pr_Action p = RowCreate \<longrightarrow>
        (\<exists>i. map_of created (plan_key u p) = Some i \<and>
          post i = Some (mk i (planned_draft p) (home u m created (planned_draft p))))) \<and>
     (\<forall>p \<in> set ps. pr_Action p = RowUpdate \<longrightarrow>
        (\<exists>t r. m (plan_key u p) = Some t \<and> pre (xe_ID t) = Some r \<and> pr_TargetUpdatedAt p = Some (xe_UpdatedAt (view r)) \<and>
          post (xe_ID t) = Some (over (mergeEntity (planned_draft p) t)
            (mergeParent (planned_draft p) (home u m created (planned_draft p)) t) r))) \<and>
     (\<forall>i. post i \<noteq> pre i \<longrightarrow> (\<exists>k. map_of created k = Some i) \<or>
        (\<exists>p \<in> set ps. pr_Action p = RowUpdate \<and> (\<exists>t. m (plan_key u p) = Some t \<and> xe_ID t = i)))"

lemma effect_created: "effect u m view mk over pre ps created post \<Longrightarrow>
    map_of created k \<noteq> None \<longleftrightarrow> (\<exists>p \<in> set ps. pr_Action p = RowCreate \<and> plan_key u p = k)"
  by (simp add: effect_def)

lemma effect_fresh: "effect u m view mk over pre ps created post \<Longrightarrow> map_of created k = Some i \<Longrightarrow> pre i = None"
  by (simp add: effect_def)

lemma effect_home: "effect u m view mk over pre ps created post \<Longrightarrow> p \<in> set ps \<Longrightarrow> written p \<Longrightarrow> has_home u m created (planned_draft p)"
  by (simp add: effect_def)

lemma effect_create: "effect u m view mk over pre ps created post \<Longrightarrow> p \<in> set ps \<Longrightarrow> pr_Action p = RowCreate \<Longrightarrow>
    \<exists>i. map_of created (plan_key u p) = Some i \<and> post i = Some (mk i (planned_draft p) (home u m created (planned_draft p)))"
  by (simp add: effect_def)

lemma effect_update: "effect u m view mk over pre ps created post \<Longrightarrow> p \<in> set ps \<Longrightarrow> pr_Action p = RowUpdate \<Longrightarrow>
    \<exists>t r. m (plan_key u p) = Some t \<and> pre (xe_ID t) = Some r \<and> pr_TargetUpdatedAt p = Some (xe_UpdatedAt (view r)) \<and>
      post (xe_ID t) = Some (over (mergeEntity (planned_draft p) t)
        (mergeParent (planned_draft p) (home u m created (planned_draft p)) t) r)"
  unfolding effect_def by blast

lemma effect_frame: "effect u m view mk over pre ps created post \<Longrightarrow> post i \<noteq> pre i \<Longrightarrow>
    (\<exists>k. map_of created k = Some i) \<or>
    (\<exists>p \<in> set ps. pr_Action p = RowUpdate \<and> (\<exists>t. m (plan_key u p) = Some t \<and> xe_ID t = i))"
  unfolding effect_def by blast

lemma effect_start: "effect u m view mk over pre [] [] pre"
  by (simp add: effect_def)

text \<open>No record is lost.\<close>

lemma effect_keeps:
  assumes "effect u m view mk over pre ps created post" "pre i \<noteq> None"
  shows "post i \<noteq> None"
proof (cases "post i = pre i")
  case False
  from effect_frame [OF assms(1) False] show ?thesis
  proof
    assume "\<exists>k. map_of created k = Some i"
    then obtain k where "map_of created k = Some i" by blast
    with effect_fresh [OF assms(1) this] assms(2) show ?thesis by simp
  next
    assume "\<exists>p \<in> set ps. pr_Action p = RowUpdate \<and> (\<exists>t. m (plan_key u p) = Some t \<and> xe_ID t = i)"
    then obtain p t where "p \<in> set ps" "pr_Action p = RowUpdate" "m (plan_key u p) = Some t" "xe_ID t = i" by blast
    with effect_update [OF assms(1) this(1,2)] show ?thesis by auto
  qed
qed (use assms(2) in simp)

text \<open>A row that writes nothing.\<close>

lemma effect_skip:
  "effect u m view mk over pre ps created post \<Longrightarrow> \<not> written p \<Longrightarrow> effect u m view mk over pre (ps @ [p]) created post"
  by (auto simp: effect_def written_def)

lemma effect_create_step:
  assumes eff: "effect u m view mk over pre ps created post" and p: "pr_Action p = RowCreate"
    and new: "map_of created (plan_key u p) = None" "post i = None" and home: "has_home u m created (planned_draft p)"
  shows "effect u m view mk over pre (ps @ [p]) ((plan_key u p, i) # created)
    (post(i \<mapsto> mk i (planned_draft p) (home u m created (planned_draft p))))"
proof -
  let ?created = "(plan_key u p, i) # created"
  let ?post = "post(i \<mapsto> mk i (planned_draft p) (home u m created (planned_draft p)))"
  have ext: "has_home u m ?created d \<and> home u m ?created d = home u m created d" if "has_home u m created d" for d
    using home_extend [OF that new(1)] .
  have fresh: "pre i = None" using effect_keeps [OF eff] new(2) by blast
  have "\<exists>j. map_of ?created (plan_key u q) = Some j \<and> ?post j = Some (mk j (planned_draft q) (home u m ?created (planned_draft q)))"
    if q: "q \<in> set (ps @ [p])" "pr_Action q = RowCreate" for q
  proof (cases "q \<in> set ps")
    case True
    from effect_create [OF eff True q(2)] obtain j where j: "map_of created (plan_key u q) = Some j"
      "post j = Some (mk j (planned_draft q) (home u m created (planned_draft q)))" by blast
    with new have "j \<noteq> i" "plan_key u q \<noteq> plan_key u p" by auto
    moreover have "home u m ?created (planned_draft q) = home u m created (planned_draft q)"
      using ext effect_home [OF eff True] q(2) by (simp add: written_def)
    ultimately show ?thesis using j by simp
  next
    case False
    with q have "q = p" by simp
    with ext [OF home] show ?thesis by simp
  qed
  moreover have "\<exists>t r. m (plan_key u q) = Some t \<and> pre (xe_ID t) = Some r \<and> pr_TargetUpdatedAt q = Some (xe_UpdatedAt (view r)) \<and>
      ?post (xe_ID t) = Some (over (mergeEntity (planned_draft q) t)
        (mergeParent (planned_draft q) (home u m ?created (planned_draft q)) t) r)"
    if q: "q \<in> set (ps @ [p])" "pr_Action q = RowUpdate" for q
  proof -
    from q p have q': "q \<in> set ps" by auto
    from effect_update [OF eff q' q(2)] obtain t r where t: "m (plan_key u q) = Some t" "pre (xe_ID t) = Some r"
      "pr_TargetUpdatedAt q = Some (xe_UpdatedAt (view r))" "post (xe_ID t) = Some (over (mergeEntity (planned_draft q) t)
        (mergeParent (planned_draft q) (home u m created (planned_draft q)) t) r)" by blast
    moreover have "xe_ID t \<noteq> i" using t(2) fresh by auto
    moreover have "home u m ?created (planned_draft q) = home u m created (planned_draft q)"
      using ext effect_home [OF eff q'] q(2) by (simp add: written_def)
    ultimately show ?thesis by auto
  qed
  moreover have "has_home u m ?created (planned_draft q)" if "q \<in> set (ps @ [p])" "written q" for q
    using that ext effect_home [OF eff] home by auto
  moreover have "map_of ?created k \<noteq> None \<longleftrightarrow> (\<exists>q \<in> set (ps @ [p]). pr_Action q = RowCreate \<and> plan_key u q = k)" for k
    using effect_created [OF eff, of k] p by auto
  moreover have "map_of ?created k = Some j \<Longrightarrow> pre j = None" for k j
    using effect_fresh [OF eff] fresh by (auto split: if_splits)
  moreover have "(\<exists>k. map_of ?created k = Some j) \<or>
      (\<exists>q \<in> set (ps @ [p]). pr_Action q = RowUpdate \<and> (\<exists>t. m (plan_key u q) = Some t \<and> xe_ID t = j))" if j: "?post j \<noteq> pre j" for j
  proof (cases "j = i")
    case True
    then show ?thesis by auto
  next
    case False
    with j have "post j \<noteq> pre j" by simp
    from effect_frame [OF eff this] show ?thesis
    proof
      assume "\<exists>k. map_of created k = Some j"
      then obtain k where k: "map_of created k = Some j" by blast
      with new(1) have "k \<noteq> plan_key u p" by auto
      with k have "map_of ?created k = Some j" by simp
      then show ?thesis by blast
    qed auto
  qed
  ultimately show ?thesis unfolding effect_def by blast
qed

lemma effect_update_step:
  assumes eff: "effect u m view mk over pre ps created post" and p: "pr_Action p = RowUpdate"
    and t: "m (plan_key u p) = Some t" "pre (xe_ID t) = Some r" "post (xe_ID t) = Some r"
      "pr_TargetUpdatedAt p = Some (xe_UpdatedAt (view r))"
    and new: "\<And>q t'. q \<in> set ps \<Longrightarrow> pr_Action q = RowUpdate \<Longrightarrow> m (plan_key u q) = Some t' \<Longrightarrow> xe_ID t' \<noteq> xe_ID t"
    and home: "has_home u m created (planned_draft p)"
  shows "effect u m view mk over pre (ps @ [p]) created
    (post(xe_ID t \<mapsto> over (mergeEntity (planned_draft p) t) (mergeParent (planned_draft p) (home u m created (planned_draft p)) t) r))"
proof -
  let ?post = "post(xe_ID t \<mapsto> over (mergeEntity (planned_draft p) t) (mergeParent (planned_draft p) (home u m created (planned_draft p)) t) r)"
  have "\<exists>j. map_of created (plan_key u q) = Some j \<and> ?post j = Some (mk j (planned_draft q) (home u m created (planned_draft q)))"
    if q: "q \<in> set (ps @ [p])" "pr_Action q = RowCreate" for q
  proof -
    from q p have "q \<in> set ps" by auto
    from effect_create [OF eff this q(2)] obtain j where j: "map_of created (plan_key u q) = Some j"
      "post j = Some (mk j (planned_draft q) (home u m created (planned_draft q)))" by blast
    with effect_fresh [OF eff j(1)] t(2) have "j \<noteq> xe_ID t" by auto
    with j show ?thesis by simp
  qed
  moreover have "\<exists>t' r'. m (plan_key u q) = Some t' \<and> pre (xe_ID t') = Some r' \<and> pr_TargetUpdatedAt q = Some (xe_UpdatedAt (view r')) \<and>
      ?post (xe_ID t') = Some (over (mergeEntity (planned_draft q) t')
        (mergeParent (planned_draft q) (home u m created (planned_draft q)) t') r')"
    if q: "q \<in> set (ps @ [p])" "pr_Action q = RowUpdate" for q
  proof (cases "q \<in> set ps")
    case True
    from effect_update [OF eff True q(2)] obtain t' r' where "m (plan_key u q) = Some t'" "pre (xe_ID t') = Some r'"
      "pr_TargetUpdatedAt q = Some (xe_UpdatedAt (view r'))" "post (xe_ID t') = Some (over (mergeEntity (planned_draft q) t')
        (mergeParent (planned_draft q) (home u m created (planned_draft q)) t') r')" by blast
    with new [OF True q(2)] show ?thesis by auto
  next
    case False
    with q t show ?thesis by auto
  qed
  moreover have "has_home u m created (planned_draft q)" if "q \<in> set (ps @ [p])" "written q" for q
    using that effect_home [OF eff] home by auto
  moreover have "map_of created k \<noteq> None \<longleftrightarrow> (\<exists>q \<in> set (ps @ [p]). pr_Action q = RowCreate \<and> plan_key u q = k)" for k
    using effect_created [OF eff, of k] p by auto
  moreover have "(\<exists>k. map_of created k = Some j) \<or>
      (\<exists>q \<in> set (ps @ [p]). pr_Action q = RowUpdate \<and> (\<exists>t. m (plan_key u q) = Some t \<and> xe_ID t = j))" if "?post j \<noteq> pre j" for j
    using that effect_frame [OF eff, of j] t(1) p by (cases "j = xe_ID t") auto
  ultimately show ?thesis using effect_fresh [OF eff] unfolding effect_def by blast
qed

section \<open>The interface\<close>

locale import_repository =
  fixes uc :: "'s import_usecases"
    and inv :: "'s \<Rightarrow> bool"
    and stored :: "'s \<Rightarrow> string \<Rightarrow> 'r option"
    and view :: "'r \<Rightarrow> existing_entity"
    and mk :: "string \<Rightarrow> entity_draft \<Rightarrow> string option \<Rightarrow> 'r"
    and over :: "entity_draft \<Rightarrow> string option \<Rightarrow> 'r \<Rightarrow> 'r"
  assumes index: "inv s \<Longrightarrow> iu_EntitiesByKey uc s keys = Inr m \<Longrightarrow>
      index_of (iu_Text uc) (\<lambda>i. map_option view (stored s i)) (set keys) m"
    and create: "inv s \<Longrightarrow> iu_CreateEntity uc s d p = Inr (e, s') \<Longrightarrow>
      inv s' \<and> stored s (xe_ID e) = None \<and> stored s' = (stored s)(xe_ID e \<mapsto> mk (xe_ID e) d p)"
    and update: "inv s \<Longrightarrow> iu_UpdateEntity uc s i v d p = Inr (Some e, s') \<Longrightarrow>
      inv s' \<and> (\<exists>r. stored s i = Some r \<and> xe_UpdatedAt (view r) = v \<and> stored s' = (stored s)(i \<mapsto> over d p r))"
    and evidence: "inv s \<Longrightarrow> iu_Record uc s action rt rid details = Inr s' \<Longrightarrow> inv s' \<and> stored s' = stored s"
    and marked: "inv s \<Longrightarrow> iu_MarkCommitted uc s bid = Inr (b, s') \<Longrightarrow> inv s' \<and> stored s' = stored s"
    and numbered: "inv s \<Longrightarrow> iu_ListRows uc s bid l o1 = Inr (rows, n) \<Longrightarrow> distinct (map pr_RowNumber rows)"
    and made: "carries (view (mk i d p)) d p"
    and overwritten: "carries (view (over d p r)) d p"

section \<open>Writing the rows\<close>

text \<open>What the planner has settled for the rows that are written, against the index read.\<close>

definition settled_rows :: "text_ops \<Rightarrow> key_index \<Rightarrow> (int \<Rightarrow> entity_draft option) \<Rightarrow> row_plan list \<Rightarrow> bool" where
  "settled_rows u m byRow ps \<longleftrightarrow>
     (\<forall>p \<in> set ps. written p \<longrightarrow> byRow (pr_RowNumber p) = Some (planned_draft p) \<and> plan_key u p \<noteq> [] \<and>
        (pr_Action p = RowCreate \<longrightarrow> m (plan_key u p) = None) \<and>
        (pr_Action p = RowUpdate \<longrightarrow> (\<exists>t. m (plan_key u p) = Some t \<and> \<not> xe_Ambiguous t))) \<and>
     distinct (map (plan_key u) (filter written ps))"

lemma settled_rows_at:
  "settled_rows u m byRow ps \<Longrightarrow> p \<in> set ps \<Longrightarrow> written p \<Longrightarrow> byRow (pr_RowNumber p) = Some (planned_draft p) \<and> plan_key u p \<noteq> [] \<and>
     (pr_Action p = RowCreate \<longrightarrow> m (plan_key u p) = None) \<and>
     (pr_Action p = RowUpdate \<longrightarrow> (\<exists>t. m (plan_key u p) = Some t \<and> \<not> xe_Ambiguous t))"
  by (simp add: settled_rows_def)

lemma settled_rows_distinct:
  "settled_rows u m byRow (done @ p # rest) \<Longrightarrow> written p \<Longrightarrow> q \<in> set done \<Longrightarrow> written q \<Longrightarrow> plan_key u q \<noteq> plan_key u p"
proof
  assume s: "settled_rows u m byRow (done @ p # rest)" "written p" "q \<in> set done" "written q" and k: "plan_key u q = plan_key u p"
  have "plan_key u q \<in> plan_key u ` set (filter written done)" using s(3,4) by simp
  moreover have "plan_key u p \<notin> plan_key u ` set (filter written done)" using s(1,2) by (simp add: settled_rows_def)
  ultimately show False using k by simp
qed

context import_repository
begin

lemma apply_row_effect:
  assumes run: "apply_row uc m byRow p (created, s) = Inr (created', s')"
    and eff: "effect (iu_Text uc) m view mk over pre ps created (stored s)" and "inv s"
    and ix: "index_of (iu_Text uc) (\<lambda>i. map_option view (pre i)) keys m"
    and settled: "settled_rows (iu_Text uc) m byRow (ps @ p # rest)"
  shows "effect (iu_Text uc) m view mk over pre (ps @ [p]) created' (stored s') \<and> inv s'"
proof (cases "written p")
  case False
  then have "pr_Action p = NoAction \<or> pr_Action p = RowUnchanged \<or> pr_Action p = RowInvalid"
    by (cases "pr_Action p") (auto simp: written_def)
  with run have "created' = created" "s' = s"
    by (auto simp: apply_row_def andthen_Inr split: if_splits option.splits)
  with effect_skip [OF eff False] \<open>inv s\<close> show ?thesis by simp
next
  case True
  let ?u = "iu_Text uc" and ?d = "planned_draft p" and ?k = "plan_key (iu_Text uc) p"
  have sp: "byRow (pr_RowNumber p) = Some ?d" "pr_Action p = RowCreate \<longrightarrow> m ?k = None"
    "pr_Action p = RowUpdate \<longrightarrow> (\<exists>t. m ?k = Some t \<and> \<not> xe_Ambiguous t)"
    using settled_rows_at [OF settled _ True] by auto
  have key: "NaturalKey ?u ?d = ?k" by (simp add: plan_key_def)
  from True consider "pr_Action p = RowCreate" | "pr_Action p = RowUpdate" by (auto simp: written_def)
  then show ?thesis
  proof cases
    case 1
    with run sp(1) obtain par e s1 s2 where r: "resolveParent ?u ?d m created (pr_RowNumber p) = Inr par"
      "iu_CreateEntity uc s ?d par = Inr (e, s1)"
      "iu_Record uc s1 ''entity.created'' ''entity'' (xe_ID e) (Changes [] (auditEntityValues e)) = Inr s'"
      "created' = (?k, xe_ID e) # created"
      by (auto simp: apply_row_def andthen_Inr key)
    note home = resolveParent_Inr [OF r(1)]
    from create [OF \<open>inv s\<close> r(2)] have c: "inv s1" "stored s (xe_ID e) = None" "stored s1 = (stored s)(xe_ID e \<mapsto> mk (xe_ID e) ?d par)"
      by blast+
    from evidence [OF c(1) r(3)] have e: "inv s'" "stored s' = stored s1" by blast+
    have "map_of created ?k = None"
    proof (rule ccontr)
      assume "map_of created ?k \<noteq> None"
      then obtain q where "q \<in> set ps" "pr_Action q = RowCreate" "plan_key ?u q = ?k" using effect_created [OF eff] by blast
      with settled_rows_distinct [OF settled True] show False by (auto simp: written_def)
    qed
    from effect_create_step [OF eff 1 this c(2)] home c(3) e r(4) show ?thesis by simp
  next
    case 2
    from sp(3) 2 obtain t where t: "m ?k = Some t" by blast
    with run sp(1) 2 obtain par v e s1 where r: "resolveParent ?u ?d m created (pr_RowNumber p) = Inr par"
      "pr_TargetUpdatedAt p = Some v"
      "iu_UpdateEntity uc s (xe_ID t) v (mergeEntity ?d t) (mergeParent ?d par t) = Inr (Some e, s1)"
      "iu_Record uc s1 ''entity.updated'' ''entity'' (xe_ID e) (Changes (auditEntityValues t) (auditEntityValues e)) = Inr s'"
      "created' = created"
      by (auto simp: apply_row_def andthen_Inr key split: option.splits)
    note home = resolveParent_Inr [OF r(1)]
    from update [OF \<open>inv s\<close> r(3)] obtain x where x: "inv s1" "stored s (xe_ID t) = Some x" "xe_UpdatedAt (view x) = v"
      "stored s1 = (stored s)(xe_ID t \<mapsto> over (mergeEntity ?d t) (mergeParent ?d par t) x)" by blast
    from evidence [OF x(1) r(4)] have e: "inv s'" "stored s' = stored s1" by blast+
    have other: "xe_ID t' \<noteq> xe_ID t" if q: "q \<in> set ps" "pr_Action q = RowUpdate" "m (plan_key ?u q) = Some t'" for q t'
    proof
      assume "xe_ID t' = xe_ID t"
      with index_of_Some [OF ix q(3)] index_of_Some [OF ix t] have "bare t' = bare t" "keyOf ?u t' = plan_key ?u q" "keyOf ?u t = ?k" by auto
      then have "plan_key ?u q = ?k" by (metis keyOf_def bare_fields(4))
      with settled_rows_distinct [OF settled True q(1)] q(2) show False by (simp add: written_def)
    qed
    have "pre (xe_ID t) \<noteq> None" using index_of_Some [OF ix t] by auto
    have "stored s (xe_ID t) = pre (xe_ID t)"
    proof (rule ccontr)
      assume "stored s (xe_ID t) \<noteq> pre (xe_ID t)"
      from effect_frame [OF eff this] show False
      proof
        assume "\<exists>k. map_of created k = Some (xe_ID t)"
        then obtain k where "map_of created k = Some (xe_ID t)" by blast
        with effect_fresh [OF eff this] \<open>pre (xe_ID t) \<noteq> None\<close> show False by simp
      qed (use other in auto)
    qed
    with x(2) have pre: "pre (xe_ID t) = Some x" by simp
    from effect_update_step [OF eff 2 t pre x(2) _ other] home r x e show ?thesis by auto
  qed
qed

lemma apply_rows_effect:
  "apply_rows uc m byRow rest (created, s) = Inr (created', s') \<Longrightarrow>
     effect (iu_Text uc) m view mk over pre ps created (stored s) \<Longrightarrow> inv s \<Longrightarrow>
     index_of (iu_Text uc) (\<lambda>i. map_option view (pre i)) keys m \<Longrightarrow> settled_rows (iu_Text uc) m byRow (ps @ rest) \<Longrightarrow>
     effect (iu_Text uc) m view mk over pre (ps @ rest) created' (stored s') \<and> inv s'"
proof (induction rest arbitrary: created s ps)
  case (Cons p rest)
  from Cons.prems(1) obtain created1 s1 where r: "apply_row uc m byRow p (created, s) = Inr (created1, s1)"
    "apply_rows uc m byRow rest (created1, s1) = Inr (created', s')" by (auto simp: andthen_Inr)
  from apply_row_effect [OF r(1) Cons.prems(2-5)]
  have "effect (iu_Text uc) m view mk over pre (ps @ [p]) created1 (stored s1)" "inv s1" by blast+
  from Cons.IH [OF r(2) this Cons.prems(4)] Cons.prems(5) show ?case by simp
qed simp

end

section \<open>The commit\<close>

text \<open>A stored row and what the planner finds for it now.\<close>

definition agreed :: "text_ops \<Rightarrow> key_index \<Rightarrow> (string \<times> int) list \<Rightarrow> int set \<Rightarrow> row_plan \<Rightarrow> bool" where
  "agreed u m inFile cyclic p \<longleftrightarrow>
     (let d = planned_draft p; pk = ParentKey u d
      in row_ok u m inFile cyclic
           \<lparr>dw_Number = pr_RowNumber p, dw_Entity = Some d, dw_Issues = [], dw_DuplicateOfRow = 0\<rparr> d \<and>
         (case m (plan_key u p) of
            None \<Rightarrow> pr_Action p = RowCreate
          | Some t \<Rightarrow> pr_TargetID p = Some (xe_ID t) \<and> pr_TargetUpdatedAt p = Some (xe_UpdatedAt t) \<and>
              pr_Action p = (if entityChanges u d (existingParent m pk) pk t = [] then RowUnchanged else RowUpdate)))"

lemma rows_still_hold_Inr:
  "length xs = length ys \<Longrightarrow> rows_still_hold xs ys = Inr () \<Longrightarrow> i < length xs \<Longrightarrow> row_still_holds (xs ! i) (ys ! i) = Inr ()"
proof (induction xs ys arbitrary: i rule: list_induct2)
  case (Cons x xs y ys)
  from Cons.prems(1) have "row_still_holds x y = Inr ()" "rows_still_hold xs ys = Inr ()" by (auto simp: andthen_Inr)
  with Cons.IH Cons.prems(2) show ?case by (cases i) auto
qed simp

lemma planStillHolds_Inr:
  assumes "planStillHolds stored rederived = Inr ()" "i < length stored"
  shows "length rederived = length stored \<and> pr_RowNumber (rederived ! i) = pr_RowNumber (stored ! i) \<and>
    pr_Action (rederived ! i) = pr_Action (stored ! i) \<and> pr_TargetID (rederived ! i) = pr_TargetID (stored ! i) \<and>
    pr_TargetUpdatedAt (rederived ! i) = pr_TargetUpdatedAt (stored ! i)"
proof -
  from assms(1) have len: "length stored = length rederived" and hold: "rows_still_hold stored rederived = Inr ()"
    by (auto simp: planStillHolds_def split: if_splits)
  have "sameVersion a b \<longleftrightarrow> a = b" for a b by (auto simp: sameVersion_def split: option.splits)
  with rows_still_hold_Inr [OF len hold assms(2)] len show ?thesis
    by (auto simp: row_still_holds_def samePtr_iff split: if_splits)
qed

lemma draftRows_nth [simp]: "i < length plan \<Longrightarrow> draftRows plan ! i =
    \<lparr>dw_Number = pr_RowNumber (plan ! i), dw_Entity = Some (planned_draft (plan ! i)), dw_Issues = [], dw_DuplicateOfRow = 0\<rparr>"
  by (simp add: draftRows_def planned_draft_def)

lemma length_draftRows [simp]: "length (draftRows plan) = length plan"
  by (simp add: draftRows_def)

lemma byRow_draftRows:
  assumes "distinct (map pr_RowNumber plan)" "p \<in> set plan"
  shows "byRow_of (draftRows plan) (pr_RowNumber p) = Some (planned_draft p)"
proof -
  let ?xs = "map (\<lambda>d. (dw_Number d, dw_Entity d)) (draftRows plan)"
  have d: "distinct (map fst (rev ?xs))"
    using assms(1) by (simp add: draftRows_def comp_def rev_map [symmetric])
  have "(pr_RowNumber p, Some (planned_draft p)) \<in> set (rev ?xs)"
    using assms(2) by (auto simp: draftRows_def planned_draft_def)
  with d have "map_of (rev ?xs) (pr_RowNumber p) = Some (Some (planned_draft p))" by (rule map_of_is_SomeI)
  then show ?thesis by (simp add: byRow_of_def)
qed

text \<open>A plan that still holds agrees row by row, unless the row is one that was refused already.\<close>

lemma plan_agrees:
  assumes "planEntities uc s (draftRows plan) = Some (Inr (rederived, m))" "planStillHolds plan (bp_Rows rederived) = Inr ()"
    and "p \<in> set plan"
  defines "inFile \<equiv> inFile_of (iu_Text uc) (draftRows plan)"
  defines "cyclic \<equiv> entityCycles (iu_MapOrder uc) (parentOf_of (iu_Text uc) (draftRows plan)) inFile m"
  shows "pr_Action p = RowInvalid \<or> agreed (iu_Text uc) m inFile cyclic p"
proof -
  obtain i where i: "i < length plan" "p = plan ! i" using assms(3) by (auto simp: in_set_conv_nth)
  let ?q = "bp_Rows rederived ! i"
  have q: "planEntityRow uc s m inFile (parentOf_of (iu_Text uc) (draftRows plan)) cyclic (draftRows plan ! i) = Some ?q"
    using planEntities_nth [OF assms(1)] i(1) by (simp add: inFile_def cyclic_def)
  note same = planStillHolds_Inr [OF assms(2) i(1)]
  from planEntityRow_Some [OF q] show ?thesis
  proof (elim conjE disjE exE)
    assume "row_refused ?q"
    with same i(2) show ?thesis by (simp add: row_refused_def)
  next
    fix d
    assume d: "dw_Entity (draftRows plan ! i) = Some d" "row_ok (iu_Text uc) m inFile cyclic (draftRows plan ! i) d"
      "row_decision (iu_Text uc) m d ?q"
    with i have "d = planned_draft p" by simp
    with d(2,3) same i have "agreed (iu_Text uc) m inFile cyclic p"
      by (auto simp: agreed_def row_decision_def plan_key_def Let_def split: option.splits)
    then show ?thesis ..
  qed
qed

lemma agreed_written:
  assumes "agreed u m inFile cyclic p" "written p"
  shows "plan_key u p \<noteq> [] \<and> (pr_Action p = RowCreate \<longrightarrow> m (plan_key u p) = None) \<and>
     (pr_Action p = RowUpdate \<longrightarrow> (\<exists>t. m (plan_key u p) = Some t \<and> \<not> xe_Ambiguous t))"
  using assms by (auto simp: agreed_def row_ok_def plan_key_def written_def Let_def split: option.splits if_splits)

text \<open>Rows that agree are told apart by their keys.\<close>

lemma agreed_distinct:
  assumes "agreed u m inFile cyclic p" "agreed u m inFile cyclic q" "plan_key u p = plan_key u q"
  shows "pr_RowNumber p = pr_RowNumber q"
  using assms by (simp add: agreed_def row_ok_def plan_key_def Let_def)

lemma effect_set: "set ps = set qs \<Longrightarrow> effect u m view mk over pre ps created post \<longleftrightarrow> effect u m view mk over pre qs created post"
  by (simp add: effect_def)

lemma written_valid: "written p \<Longrightarrow> pr_Action p \<noteq> RowInvalid"
  by (auto simp: written_def)

lemma settled_order:
  assumes "\<forall>p \<in> set plan. pr_Action p = RowInvalid \<or> agreed u m inFile cyclic p" "distinct (map pr_RowNumber plan)"
    and "distinct order" "set order = {..<length plan}"
  shows "settled_rows u m (byRow_of (draftRows plan)) (map (\<lambda>i. plan ! i) order) \<and> set (map (\<lambda>i. plan ! i) order) = set plan"
proof -
  let ?ps = "map (\<lambda>i. plan ! i) order"
  have set: "set ?ps = set plan" by (simp add: assms(4) lessThan_atLeast0 nth_image)
  have "inj_on (\<lambda>i. plan ! i) (set order)"
    using assms(2,4) by (intro inj_on_nth) (simp_all add: distinct_map)
  then have "distinct ?ps" using assms(3) by (simp add: distinct_map)
  moreover have "inj_on (plan_key u) (set (filter written ?ps))"
  proof (rule inj_onI)
    fix p q
    assume "p \<in> set (filter written ?ps)" "q \<in> set (filter written ?ps)" and key: "plan_key u p = plan_key u q"
    then have p: "p \<in> set plan" "written p" and q: "q \<in> set plan" "written q" unfolding set_filter set by blast+
    with assms(1) written_valid have "agreed u m inFile cyclic p" "agreed u m inFile cyclic q" by blast+
    from agreed_distinct [OF this key] assms(2) p(1) q(1) show "p = q" unfolding distinct_map inj_on_def by blast
  qed
  ultimately have "distinct (map (plan_key u) (filter written ?ps))" by (simp add: distinct_map)
  moreover have "byRow_of (draftRows plan) (pr_RowNumber p) = Some (planned_draft p) \<and> plan_key u p \<noteq> [] \<and>
        (pr_Action p = RowCreate \<longrightarrow> m (plan_key u p) = None) \<and>
        (pr_Action p = RowUpdate \<longrightarrow> (\<exists>t. m (plan_key u p) = Some t \<and> \<not> xe_Ambiguous t))"
    if "p \<in> set ?ps" "written p" for p
  proof -
    from that(1) have p: "p \<in> set plan" unfolding set .
    with assms(1) written_valid [OF that(2)] have "agreed u m inFile cyclic p" by blast
    with agreed_written [OF this that(2)] byRow_draftRows [OF assms(2) p] show ?thesis by blast
  qed
  ultimately show ?thesis using set unfolding settled_rows_def by blast
qed

lemma committable_Inr:
  assumes "committable uc s kind bid = Inr plan"
  shows "\<exists>b. iu_GetBatch uc s bid = Inr (Some b) \<and> ib_Kind b = kind \<and> ib_Status b = BatchValidated \<and>
    iu_ListRows uc s bid (ib_RowCount b) 0 = Inr (plan, ib_RowCount b)"
proof (cases "iu_GetBatch uc s bid")
  case (Inr found)
  with assms obtain b where b: "found = Some b" by (cases found) (simp_all add: committable_def)
  with Inr assms have k: "ib_Kind b = kind" by (auto simp: committable_def split: if_splits)
  with Inr b assms have v: "ib_Status b = BatchValidated" by (cases "ib_Status b") (simp_all add: committable_def)
  show ?thesis
  proof (cases "iu_ListRows uc s bid (ib_RowCount b) 0")
    case (Inr r)
    with \<open>iu_GetBatch uc s bid = Inr found\<close> b k v assms show ?thesis
      by (cases r) (auto simp: committable_def split: if_splits)
  next
    case (Inl e)
    with \<open>iu_GetBatch uc s bid = Inr found\<close> b k v assms show ?thesis by (simp add: committable_def)
  qed
qed (use assms in \<open>simp add: committable_def\<close>)

context import_repository
begin

lemma committable_distinct:
  assumes "inv s" "committable uc s kind bid = Inr plan"
  shows "distinct (map pr_RowNumber plan)"
proof -
  from committable_Inr [OF assms(2)] obtain l n where "iu_ListRows uc s bid l 0 = Inr (plan, n)" by blast
  with numbered [OF assms(1)] show ?thesis .
qed

lemma finish_commit_keeps:
  assumes "inv s" "finish_commit uc bid s = Inr (b, s')"
  shows "inv s' \<and> stored s' = stored s"
proof -
  from assms(2) obtain s1 where "iu_MarkCommitted uc s bid = Inr (Some b, s1)"
    "iu_Record uc s1 ''import.committed'' ''import_batch'' (ib_ID b) (Changes [] (auditBatchValues b)) = Inr s'"
    by (auto simp: finish_commit_def andthen_Inr split: option.splits)
  with marked [OF assms(1)] evidence show ?thesis by metis
qed

lemma commit_effect:
  assumes "Commit uc s bid = Some (Inr (b, s'))" "inv s"
  shows "\<exists>plan m created. committable uc s KindEntities bid = Inr plan \<and> distinct (map pr_RowNumber plan) \<and>
    index_of (iu_Text uc) (\<lambda>i. map_option view (stored s i)) (set (wanted_keys (iu_Text uc) (draftRows plan))) m \<and>
    (\<forall>p \<in> set plan. pr_Action p = RowInvalid \<or>
       agreed (iu_Text uc) m (inFile_of (iu_Text uc) (draftRows plan))
         (entityCycles (iu_MapOrder uc) (parentOf_of (iu_Text uc) (draftRows plan)) (inFile_of (iu_Text uc) (draftRows plan)) m) p) \<and>
    effect (iu_Text uc) m view mk over (stored s) plan created (stored s') \<and> inv s'"
proof -
  from assms(1) obtain plan rederived m s1 where c: "committable uc s KindEntities bid = Inr plan"
    "planEntities uc s (draftRows plan) = Some (Inr (rederived, m))" "planStillHolds plan (bp_Rows rederived) = Inr ()"
    "applyEntities uc plan (draftRows plan) m s = Inr s1" "finish_commit uc bid s1 = Inr (b, s')"
    by (auto simp: Commit_def Let_def bind_eq_Some_conv andthen_Inr split: sum.splits)
  note distinct = committable_distinct [OF assms(2) c(1)]
  have ix: "index_of (iu_Text uc) (\<lambda>i. map_option view (stored s i)) (set (wanted_keys (iu_Text uc) (draftRows plan))) m"
    by (rule index [OF assms(2)]) (use planEntities_Some [OF c(2)] in blast)
  note agree = plan_agrees [OF c(2,3)]
  let ?order = "entityApplyOrder (iu_Text uc) (byRow_of (draftRows plan)) plan"
  have order: "distinct ?order" "set ?order = {..<length plan}" using apply_order by blast+
  from c(4) obtain created where a: "apply_rows uc m (byRow_of (draftRows plan)) (map (\<lambda>i. plan ! i) ?order) ([], s) = Inr (created, s1)"
    by (auto simp: applyEntities_def Let_def andthen_Inr)
  note settled = settled_order [OF ballI [OF agree] distinct order]
  from apply_rows_effect [OF a effect_start assms(2) ix] settled
  have "effect (iu_Text uc) m view mk over (stored s) (map (\<lambda>i. plan ! i) ?order) created (stored s1)" "inv s1" by auto
  with effect_set settled finish_commit_keeps [OF \<open>inv s1\<close> c(5)]
  have "effect (iu_Text uc) m view mk over (stored s) plan created (stored s')" "inv s'" by metis+
  with c(1) distinct ix agree show ?thesis by blast
qed

end

end
