(* ===== verification/ImportStore.thy ===== *)
theory ImportStore
  imports ImportCommit
begin

text \<open>
  The import's repository (\<^verbatim>\<open>modules/imports/repositories/pg\<close>) on the tables entities,
  import_batches and import_rows with their constraints (migration 20260913000036). A row of
  entities carries its version, the instant of its last update; NOW() is the transaction's. The
  read of the entity index orders by id.
\<close>

section \<open>The tables\<close>

record versioned_entity = entity +
  en_UpdatedAt :: int

record import_store =
  im_Entities :: "versioned_entity list"
  im_Batches :: "import_batch list"
  im_Plans :: "(string \<times> row_plan list) list"
  im_Chain :: "audit_entry list"

record import_env =
  pe_Text :: text_ops
  pe_MapOrder :: "string list \<Rightarrow> string list"
  pe_Resolver :: "resolver option"
  pe_Requester :: "requester option"
  pe_Grants :: "grant list"
  pe_NewID :: "versioned_entity list \<Rightarrow> string"
  pe_NewBatchID :: "import_batch list \<Rightarrow> string"
  pe_UserID :: "string option"
  pe_Now :: int
  pe_Sha :: "string \<Rightarrow> string"
  pe_Audit :: audit_context

definition plain_rows :: "versioned_entity list \<Rightarrow> entity list" where
  "plain_rows rows = map entity.truncate rows"

definition version_row :: "versioned_entity list \<Rightarrow> string \<Rightarrow> versioned_entity option" where
  "version_row rows eid = find (\<lambda>e. en_ID e = eid) rows"

definition toDomain :: "versioned_entity \<Rightarrow> existing_entity" where
  "toDomain r =
     \<lparr>xe_ID = en_ID r, xe_UpdatedAt = en_UpdatedAt r, xe_ParentID = en_ParentEntityID r, xe_ParentName = None,
      xe_Name = en_Name r, xe_LegalName = en_LegalName r, xe_Country = en_Country r, xe_TaxResidency = en_TaxResidency r,
      xe_Pattern = en_FiscalCalendarPattern r, xe_YearEnd = en_FinancialYearEnd r, xe_WeekEndDay = en_FiscalWeekEndDay r,
      xe_YearEndRule = en_FiscalYearEndRule r, xe_Status = en_Status r, xe_Ambiguous = False\<rparr>"

section \<open>Reading the entity index\<close>

definition maxResolvableRecords :: nat where
  "maxResolvableRecords = 50000"

text \<open>The loop over the index: a second row of a key makes it ambiguous.\<close>

fun index_rows ::
  "text_ops \<Rightarrow> string set \<Rightarrow> (string \<Rightarrow> string option) \<Rightarrow> key_index \<Rightarrow> versioned_entity list \<Rightarrow> key_index" where
  "index_rows u wanted nameOfID out [] = out"
| "index_rows u wanted nameOfID out (row # rows) =
     (let key = NormalizeKey u (en_Name row)
      in if key \<notin> wanted then index_rows u wanted nameOfID out rows
         else case out key of
             Some existing \<Rightarrow> index_rows u wanted nameOfID (out(key \<mapsto> existing\<lparr>xe_Ambiguous := True\<rparr>)) rows
           | None \<Rightarrow>
               let e = (toDomain row)\<lparr>xe_ParentName := (case en_ParentEntityID row of None \<Rightarrow> None | Some p \<Rightarrow> nameOfID p)\<rparr>
               in index_rows u wanted nameOfID (out(key \<mapsto> e)) rows)"

definition EntitiesByKey :: "text_ops \<Rightarrow> import_store \<Rightarrow> string list \<Rightarrow> key_index app" where
  "EntitiesByKey u s keys =
     (let wanted = set (filter (\<lambda>k. k \<noteq> []) keys);
          rows = take (maxResolvableRecords + 1) (sort_key en_ID (im_Entities s))
      in if wanted = {} then Inr (\<lambda>k. None)
         else if length rows > maxResolvableRecords
         then Inl (Internal (Errorf
           ''imports: this tenant holds more than %d entities, which is more than an import can resolve names against''
           [I (int maxResolvableRecords)]))
         else Inr (index_rows u wanted (\<lambda>i. map_option en_Name (version_row rows i)) (\<lambda>k. None) rows))"

section \<open>Writing entities\<close>

definition parent_known :: "versioned_entity list \<Rightarrow> string option \<Rightarrow> bool" where
  "parent_known rows parent = (case parent of None \<Rightarrow> True | Some p \<Rightarrow> version_row rows p \<noteq> None)"

definition pk_error :: app_error where
  "pk_error = Internal (text_msg ''violates unique constraint'')"

definition draft_entity :: "string \<Rightarrow> int \<Rightarrow> entity_draft \<Rightarrow> string option \<Rightarrow> versioned_entity" where
  "draft_entity eid now d parentID =
     \<lparr>en_ID = eid, en_ParentEntityID = parentID, en_Name = ed_Name d, en_LegalName = ed_LegalName d,
      en_Country = ed_Country d, en_TaxResidency = ed_TaxResidency d, en_FiscalCalendarPattern = ed_FiscalCalendarPattern d,
      en_FinancialYearEnd = ed_FinancialYearEnd d, en_FiscalWeekEndDay = ed_FiscalWeekEndDay d,
      en_FiscalYearEndRule = ed_FiscalYearEndRule d, en_CustomPeriods = [], en_Status = ''active'', en_UpdatedAt = now\<rparr>"

definition CreateEntity ::
  "import_env \<Rightarrow> import_store \<Rightarrow> entity_draft \<Rightarrow> string option \<Rightarrow> (existing_entity \<times> import_store) app" where
  "CreateEntity env s d parentID =
     (let rows = im_Entities s;
          e = draft_entity (pe_NewID env rows) (pe_Now env) d parentID
      in if version_row rows (en_ID e) \<noteq> None then Inl pk_error
         else if \<not> parent_known rows parentID \<and> parentID \<noteq> Some (en_ID e) then Inl fk_error
         else Inr (toDomain e, s\<lparr>im_Entities := rows @ [e]\<rparr>))"

text \<open>The statement leaves status and custom periods alone and requires the version.\<close>

definition overwrite :: "int \<Rightarrow> entity_draft \<Rightarrow> string option \<Rightarrow> versioned_entity \<Rightarrow> versioned_entity" where
  "overwrite now d parentID r =
     r\<lparr>en_ParentEntityID := parentID, en_Name := ed_Name d, en_LegalName := ed_LegalName d, en_Country := ed_Country d,
       en_TaxResidency := ed_TaxResidency d, en_FiscalCalendarPattern := ed_FiscalCalendarPattern d,
       en_FinancialYearEnd := ed_FinancialYearEnd d, en_FiscalWeekEndDay := ed_FiscalWeekEndDay d,
       en_FiscalYearEndRule := ed_FiscalYearEndRule d, en_UpdatedAt := now\<rparr>"

definition UpdateEntity ::
  "import_env \<Rightarrow> import_store \<Rightarrow> string \<Rightarrow> int \<Rightarrow> entity_draft \<Rightarrow> string option \<Rightarrow> (existing_entity option \<times> import_store) app" where
  "UpdateEntity env s eid version d parentID =
     (let rows = im_Entities s
      in case version_row rows eid of
           None \<Rightarrow> Inr (None, s)
         | Some r \<Rightarrow>
             if en_UpdatedAt r \<noteq> version then Inr (None, s)
             else if \<not> parent_known rows parentID then Inl fk_error
             else Inr (Some (toDomain (overwrite (pe_Now env) d parentID r)),
               s\<lparr>im_Entities := map (\<lambda>x. if en_ID x = eid then overwrite (pe_Now env) d parentID x else x) rows\<rparr>))"

section \<open>Batches and plans\<close>

definition check_error :: app_error where
  "check_error = Internal (text_msg ''violates check constraint'')"

definition batch_checks :: "import_batch \<Rightarrow> bool" where
  "batch_checks b \<longleftrightarrow>
     0 \<le> ib_ByteSize b \<and> 0 \<le> ib_RowCount b \<and> 0 \<le> ib_CreateCount b \<and> 0 \<le> ib_UpdateCount b \<and> 0 \<le> ib_UnchangedCount b \<and>
     0 \<le> ib_InvalidCount b \<and>
     ib_CreateCount b + ib_UpdateCount b + ib_UnchangedCount b + ib_InvalidCount b = ib_RowCount b \<and>
     (ib_Status b = BatchRejected \<and> ib_InvalidCount b > 0 \<or> ib_Status b \<noteq> BatchRejected \<and> ib_InvalidCount b = 0) \<and>
     (ib_Status b = BatchCommitted \<and> ib_CommittedAt b \<noteq> None \<and> ib_CommittedBy b \<noteq> None \<or>
      ib_Status b \<noteq> BatchCommitted \<and> ib_CommittedAt b = None \<and> ib_CommittedBy b = None) \<and>
     ib_CreatedBy b \<noteq> None"

definition plan_row_checks :: "row_plan \<Rightarrow> bool" where
  "plan_row_checks r \<longleftrightarrow>
     1 \<le> pr_RowNumber r \<and> pr_Action r \<noteq> NoAction \<and>
     ((pr_Action r = RowUpdate \<or> pr_Action r = RowUnchanged) \<and> pr_TargetID r \<noteq> None \<and> pr_TargetUpdatedAt r \<noteq> None \<or>
      (pr_Action r = RowCreate \<or> pr_Action r = RowInvalid) \<and> pr_TargetID r = None \<and> pr_TargetUpdatedAt r = None) \<and>
     (pr_Action r \<noteq> RowInvalid \<or> pr_Issues r \<noteq> []) \<and>
     (pr_Action r = RowUpdate \<and> pr_Changes r \<noteq> [] \<or> pr_Action r \<noteq> RowUpdate \<and> pr_Changes r = [])"

definition CreateBatch ::
  "import_env \<Rightarrow> import_store \<Rightarrow> import_batch \<Rightarrow> row_plan list \<Rightarrow> (import_batch \<times> import_store) app" where
  "CreateBatch env s b rows =
     (let stored = b\<lparr>ib_ID := pe_NewBatchID env (im_Batches s), ib_CreatedBy := pe_UserID env, ib_CreatedAt := pe_Now env,
            ib_CommittedBy := None, ib_CommittedAt := None\<rparr>
      in if ib_ID stored \<in> ib_ID ` set (im_Batches s) then Inl pk_error
         else if \<not> batch_checks stored then Inl check_error
         else if \<not> list_all plan_row_checks rows then Inl check_error
         else if \<not> distinct (map pr_RowNumber rows) then Inl pk_error
         else Inr (stored, s\<lparr>im_Batches := im_Batches s @ [stored], im_Plans := im_Plans s @ [(ib_ID stored, rows)]\<rparr>))"

definition GetBatch :: "import_store \<Rightarrow> string \<Rightarrow> import_batch option app" where
  "GetBatch s bid = Inr (find (\<lambda>b. ib_ID b = bid) (im_Batches s))"

definition ListRows :: "import_store \<Rightarrow> string \<Rightarrow> int \<Rightarrow> int \<Rightarrow> (row_plan list \<times> int) app" where
  "ListRows s bid limit offset =
     (let rows = (case map_of (im_Plans s) bid of None \<Rightarrow> [] | Some rs \<Rightarrow> rs)
      in Inr (take (nat limit) (drop (nat offset) (sort_key pr_RowNumber rows)), int (length rows)))"

definition MarkCommitted :: "import_env \<Rightarrow> import_store \<Rightarrow> string \<Rightarrow> (import_batch option \<times> import_store) app" where
  "MarkCommitted env s bid =
     (case find (\<lambda>b. ib_ID b = bid \<and> ib_Status b = BatchValidated) (im_Batches s) of
        None \<Rightarrow> Inr (None, s)
      | Some b \<Rightarrow>
          let b' = b\<lparr>ib_Status := BatchCommitted, ib_CommittedAt := Some (pe_Now env), ib_CommittedBy := pe_UserID env\<rparr>
          in if \<not> batch_checks b' then Inl check_error
             else Inr (Some b', s\<lparr>im_Batches := map (\<lambda>x. if ib_ID x = bid \<and> ib_Status x = BatchValidated then b' else x) (im_Batches s)\<rparr>))"

definition import_Record ::
  "import_env \<Rightarrow> import_store \<Rightarrow> string \<Rightarrow> string \<Rightarrow> string \<Rightarrow> json option \<Rightarrow> import_store app" where
  "import_Record env s action rt rid details =
     (case audit_Record (pe_Sha env) (pe_Audit env) action rt rid details (im_Chain s) of
        Inl m \<Rightarrow> Inl (Internal m)
      | Inr c \<Rightarrow> Inr (s\<lparr>im_Chain := c\<rparr>))"

definition import_authorizer :: "import_env \<Rightarrow> import_store \<Rightarrow> resolver option" where
  "import_authorizer env s =
     map_option (\<lambda>r. r\<lparr>rs_AncestorsAndSelf := AncestorsAndSelf (plain_rows (im_Entities s))\<rparr>) (pe_Resolver env)"

definition pg_imports :: "import_env \<Rightarrow> import_store import_usecases" where
  "pg_imports env =
     \<lparr>iu_Text = pe_Text env, iu_MapOrder = pe_MapOrder env, iu_Authorizer = import_authorizer env,
      iu_Requester = pe_Requester env, iu_Grants = pe_Grants env, iu_EntitiesByKey = EntitiesByKey (pe_Text env),
      iu_CreateEntity = CreateEntity env, iu_UpdateEntity = UpdateEntity env, iu_Record = import_Record env,
      iu_CreateBatch = CreateBatch env, iu_GetBatch = GetBatch, iu_ListRows = ListRows, iu_MarkCommitted = MarkCommitted env\<rparr>"

end
