(* ===== verification/ImportProps.thy ===== *)
theory ImportProps
  imports ImportEffect ImportStore
begin

text \<open>
  The import on the tables: the interpretation of \<open>import_repository\<close>, and what follows for an
  entity import from the first dry run to the second.
\<close>

section \<open>The tables as a repository\<close>

definition import_inv :: "import_store \<Rightarrow> bool" where
  "import_inv s \<longleftrightarrow> distinct (map en_ID (im_Entities s)) \<and> (\<forall>(bid, rows) \<in> set (im_Plans s). distinct (map pr_RowNumber rows)) \<and>
     fst ` set (im_Plans s) \<subseteq> ib_ID ` set (im_Batches s) \<and> distinct (map ib_ID (im_Batches s))"

lemma version_row_iff:
  "distinct (map en_ID rows) \<Longrightarrow> version_row rows i = Some r \<longleftrightarrow> r \<in> set rows \<and> en_ID r = i"
proof -
  assume d: "distinct (map en_ID rows)"
  show ?thesis
  proof
    assume "version_row rows i = Some r"
    then show "r \<in> set rows \<and> en_ID r = i" by (auto simp: version_row_def find_Some_iff)
  next
    assume r: "r \<in> set rows \<and> en_ID r = i"
    then obtain r' where "version_row rows i = Some r'" by (fastforce simp: version_row_def find_None_iff)
    moreover from this have "r' \<in> set rows" "en_ID r' = i" by (auto simp: version_row_def find_Some_iff)
    ultimately show "version_row rows i = Some r" using d r by (auto simp: distinct_map inj_on_def)
  qed
qed

lemma version_row_None: "version_row rows i = None \<longleftrightarrow> i \<notin> en_ID ` set rows"
  by (auto simp: version_row_def find_None_iff)

lemma version_row_append: "version_row (rows @ [e]) i =
    (case version_row rows i of Some r \<Rightarrow> Some r | None \<Rightarrow> if en_ID e = i then Some e else None)"
  by (induction rows) (auto simp: version_row_def)

lemma version_row_map:
  "(\<And>e. en_ID (f e) = en_ID e) \<Longrightarrow> version_row (map f rows) i = map_option f (version_row rows i)"
  by (induction rows) (auto simp: version_row_def)

lemma bare_toDomain [simp]: "bare (toDomain r) = toDomain r"
  by (simp add: bare_def toDomain_def)

lemma toDomain_fields [simp]: "xe_ID (toDomain r) = en_ID r" "xe_UpdatedAt (toDomain r) = en_UpdatedAt r" "xe_Name (toDomain r) = en_Name r"
  by (simp_all add: toDomain_def)

text \<open>The loop over the index: what the map holds after some of the rows.\<close>

definition indexed :: "text_ops \<Rightarrow> string set \<Rightarrow> versioned_entity list \<Rightarrow> key_index \<Rightarrow> bool" where
  "indexed u wanted rows m \<longleftrightarrow>
     (\<forall>k. case m k of
        None \<Rightarrow> k \<in> wanted \<longrightarrow> (\<forall>r \<in> set rows. NormalizeKey u (en_Name r) \<noteq> k)
      | Some x \<Rightarrow> k \<in> wanted \<and> (\<exists>r \<in> set rows. bare x = toDomain r \<and> NormalizeKey u (en_Name r) = k \<and>
          (xe_Ambiguous x \<longleftrightarrow> (\<exists>r' \<in> set rows. en_ID r' \<noteq> en_ID r \<and> NormalizeKey u (en_Name r') = k))))"

lemma indexed_None: "indexed u wanted rows m \<Longrightarrow> m k = None \<Longrightarrow> k \<in> wanted \<Longrightarrow> r \<in> set rows \<Longrightarrow> NormalizeKey u (en_Name r) \<noteq> k"
  unfolding indexed_def by (drule spec [of _ k]) simp

lemma indexed_Some: "indexed u wanted rows m \<Longrightarrow> m k = Some x \<Longrightarrow> k \<in> wanted \<and> (\<exists>r \<in> set rows. bare x = toDomain r \<and> NormalizeKey u (en_Name r) = k \<and>
          (xe_Ambiguous x \<longleftrightarrow> (\<exists>r' \<in> set rows. en_ID r' \<noteq> en_ID r \<and> NormalizeKey u (en_Name r') = k)))"
  unfolding indexed_def by (drule spec [of _ k]) simp

lemma indexedI:
  assumes "\<And>k r. m k = None \<Longrightarrow> k \<in> wanted \<Longrightarrow> r \<in> set rows \<Longrightarrow> NormalizeKey u (en_Name r) \<noteq> k"
    and "\<And>k x. m k = Some x \<Longrightarrow> k \<in> wanted \<and> (\<exists>r \<in> set rows. bare x = toDomain r \<and> NormalizeKey u (en_Name r) = k \<and>
          (xe_Ambiguous x \<longleftrightarrow> (\<exists>r' \<in> set rows. en_ID r' \<noteq> en_ID r \<and> NormalizeKey u (en_Name r') = k)))"
  shows "indexed u wanted rows m"
  unfolding indexed_def
proof
  fix k
  show "case m k of None \<Rightarrow> k \<in> wanted \<longrightarrow> (\<forall>r \<in> set rows. NormalizeKey u (en_Name r) \<noteq> k)
      | Some x \<Rightarrow> k \<in> wanted \<and> (\<exists>r \<in> set rows. bare x = toDomain r \<and> NormalizeKey u (en_Name r) = k \<and>
          (xe_Ambiguous x \<longleftrightarrow> (\<exists>r' \<in> set rows. en_ID r' \<noteq> en_ID r \<and> NormalizeKey u (en_Name r') = k)))"
    using assms [of k] by (cases "m k") simp_all
qed

lemma indexed_skip:
  assumes "indexed u wanted rows m" "NormalizeKey u (en_Name r) \<notin> wanted"
  shows "indexed u wanted (rows @ [r]) m"
proof (rule indexedI)
  fix k r'
  assume "m k = None" "k \<in> wanted" "r' \<in> set (rows @ [r])"
  with assms(2) indexed_None [OF assms(1)] show "NormalizeKey u (en_Name r') \<noteq> k" by auto
next
  fix k x
  assume "m k = Some x"
  from indexed_Some [OF assms(1) this] assms(2)
  show "k \<in> wanted \<and> (\<exists>ra \<in> set (rows @ [r]). bare x = toDomain ra \<and> NormalizeKey u (en_Name ra) = k \<and>
          (xe_Ambiguous x \<longleftrightarrow> (\<exists>r' \<in> set (rows @ [r]). en_ID r' \<noteq> en_ID ra \<and> NormalizeKey u (en_Name r') = k)))"
    by auto
qed

lemma indexed_second:
  assumes "indexed u wanted rows m" "m k = Some x" "NormalizeKey u (en_Name r) = k" "en_ID r \<notin> en_ID ` set rows"
  shows "indexed u wanted (rows @ [r]) (m(k \<mapsto> x\<lparr>xe_Ambiguous := True\<rparr>))"
proof (rule indexedI)
  fix j r'
  assume "(m(k \<mapsto> x\<lparr>xe_Ambiguous := True\<rparr>)) j = None" "j \<in> wanted" "r' \<in> set (rows @ [r])"
  with assms(3) indexed_None [OF assms(1)] show "NormalizeKey u (en_Name r') \<noteq> j"
    by (auto split: if_splits)
next
  fix j y
  assume y: "(m(k \<mapsto> x\<lparr>xe_Ambiguous := True\<rparr>)) j = Some y"
  show "j \<in> wanted \<and> (\<exists>ra \<in> set (rows @ [r]). bare y = toDomain ra \<and> NormalizeKey u (en_Name ra) = j \<and>
          (xe_Ambiguous y \<longleftrightarrow> (\<exists>r' \<in> set (rows @ [r]). en_ID r' \<noteq> en_ID ra \<and> NormalizeKey u (en_Name r') = j)))"
  proof (cases "j = k")
    case True
    with y have "y = x\<lparr>xe_Ambiguous := True\<rparr>" by simp
    moreover from indexed_Some [OF assms(1,2)] obtain ra where "k \<in> wanted" "ra \<in> set rows" "bare x = toDomain ra" "NormalizeKey u (en_Name ra) = k"
      by blast
    moreover from this assms(4) have "en_ID r \<noteq> en_ID ra" by auto
    ultimately show ?thesis using True assms(3) by (auto simp: bare_def)
  next
    case False
    with y have "m j = Some y" by simp
    from indexed_Some [OF assms(1) this] False assms(3) show ?thesis by auto
  qed
qed

lemma indexed_first:
  assumes "indexed u wanted rows m" "m k = None" "NormalizeKey u (en_Name r) = k" "k \<in> wanted" "bare e = toDomain r" "\<not> xe_Ambiguous e"
  shows "indexed u wanted (rows @ [r]) (m(k \<mapsto> e))"
proof (rule indexedI)
  fix j r'
  assume "(m(k \<mapsto> e)) j = None" "j \<in> wanted" "r' \<in> set (rows @ [r])"
  with assms(3) indexed_None [OF assms(1)] show "NormalizeKey u (en_Name r') \<noteq> j"
    by (auto split: if_splits)
next
  fix j y
  assume y: "(m(k \<mapsto> e)) j = Some y"
  show "j \<in> wanted \<and> (\<exists>ra \<in> set (rows @ [r]). bare y = toDomain ra \<and> NormalizeKey u (en_Name ra) = j \<and>
          (xe_Ambiguous y \<longleftrightarrow> (\<exists>r' \<in> set (rows @ [r]). en_ID r' \<noteq> en_ID ra \<and> NormalizeKey u (en_Name r') = j)))"
  proof (cases "j = k")
    case True
    with y assms indexed_None [OF assms(1,2,4)] show ?thesis by auto
  next
    case False
    with y have "m j = Some y" by simp
    from indexed_Some [OF assms(1) this] False assms(3) show ?thesis by auto
  qed
qed

lemma index_rows_indexed:
  "indexed u wanted seen m \<Longrightarrow> distinct (map en_ID (seen @ rows)) \<Longrightarrow> indexed u wanted (seen @ rows) (index_rows u wanted nameOfID m rows)"
proof (induction rows arbitrary: seen m)
  case (Cons row rows)
  let ?k = "NormalizeKey u (en_Name row)"
  have d: "distinct (map en_ID ((seen @ [row]) @ rows))" using Cons.prems(2) by simp
  show ?case
  proof (cases "?k \<in> wanted")
    case False
    from Cons.IH [OF indexed_skip [OF Cons.prems(1) False] d] False show ?thesis by (simp add: Let_def)
  next
    case True
    show ?thesis
    proof (cases "m ?k")
      case None
      let ?e = "(toDomain row)\<lparr>xe_ParentName := (case en_ParentEntityID row of None \<Rightarrow> None | Some p \<Rightarrow> nameOfID p)\<rparr>"
      have "bare ?e = toDomain row" "\<not> xe_Ambiguous ?e" by (simp_all add: bare_def toDomain_def)
      from Cons.IH [OF indexed_first [OF Cons.prems(1) None refl True this] d] None True show ?thesis by (simp add: Let_def fun_upd_def)
    next
      case (Some x)
      have "en_ID row \<notin> en_ID ` set seen" using Cons.prems(2) by auto
      from Cons.IH [OF indexed_second [OF Cons.prems(1) Some refl this] d] Some True show ?thesis by (simp add: Let_def fun_upd_def)
    qed
  qed
qed simp

lemma indexed_index_of:
  assumes "indexed u (set keys - {[]}) rows m" "distinct (map en_ID rows)"
  shows "index_of u (\<lambda>i. map_option toDomain (version_row rows i)) (set keys) m"
  unfolding index_of_def
proof (intro allI conjI impI)
  fix k
  assume "k \<notin> set keys \<or> k = []"
  with indexed_Some [OF assms(1), of k] show "m k = None" by (cases "m k") auto
next
  fix k
  assume k: "k \<in> set keys \<and> k \<noteq> []"
  show "case m k of
      None \<Rightarrow> \<forall>i e. map_option toDomain (version_row rows i) = Some e \<longrightarrow> keyOf u e \<noteq> k
    | Some x \<Rightarrow> map_option toDomain (version_row rows (xe_ID x)) = Some (bare x) \<and> keyOf u x = k \<and>
        (xe_Ambiguous x \<longleftrightarrow> (\<exists>i e. i \<noteq> xe_ID x \<and> map_option toDomain (version_row rows i) = Some e \<and> keyOf u e = k))"
  proof (cases "m k")
    case None
    have "keyOf u e \<noteq> k" if "map_option toDomain (version_row rows i) = Some e" for i e
    proof -
      from that obtain z where "z \<in> set rows" "e = toDomain z" by (auto simp: version_row_iff [OF assms(2)])
      with indexed_None [OF assms(1) None, of z] k show ?thesis by (simp add: keyOf_def)
    qed
    with None show ?thesis by simp
  next
    case (Some x)
    from indexed_Some [OF assms(1) Some] obtain r where r: "r \<in> set rows" "bare x = toDomain r" "NormalizeKey u (en_Name r) = k"
      "xe_Ambiguous x \<longleftrightarrow> (\<exists>r' \<in> set rows. en_ID r' \<noteq> en_ID r \<and> NormalizeKey u (en_Name r') = k)" by blast
    have x: "xe_ID x = en_ID r" "xe_Name x = en_Name r" using arg_cong [OF r(2), of xe_ID] arg_cong [OF r(2), of xe_Name] by simp_all
    have "version_row rows (en_ID r) = Some r" using r(1) version_row_iff [OF assms(2)] by blast
    moreover have "(\<exists>r' \<in> set rows. en_ID r' \<noteq> en_ID r \<and> NormalizeKey u (en_Name r') = k) \<longleftrightarrow>
      (\<exists>i e. i \<noteq> en_ID r \<and> map_option toDomain (version_row rows i) = Some e \<and> keyOf u e = k)"
      using version_row_iff [OF assms(2)] by (fastforce simp: keyOf_def)
    ultimately show ?thesis using Some r x by (simp add: keyOf_def)
  qed
qed

lemma EntitiesByKey_index:
  assumes "import_inv s" "EntitiesByKey u s keys = Inr m"
  shows "index_of u (\<lambda>i. map_option toDomain (version_row (im_Entities s) i)) (set keys) m"
proof -
  let ?rows = "sort_key en_ID (im_Entities s)"
  have d: "distinct (map en_ID (im_Entities s))" using assms(1) by (simp add: import_inv_def)
  have ds: "distinct (map en_ID ?rows)" using d by (simp add: distinct_map)
  have same: "version_row ?rows = version_row (im_Entities s)"
  proof (rule ext)
    fix i
    have "version_row ?rows i = Some r \<longleftrightarrow> version_row (im_Entities s) i = Some r" for r
      unfolding version_row_iff [OF d] version_row_iff [OF ds] by simp
    then show "version_row ?rows i = version_row (im_Entities s) i" by (metis not_None_eq)
  qed
  show ?thesis
  proof (cases "set (filter (\<lambda>k. k \<noteq> []) keys) = {}")
    case True
    with assms(2) show ?thesis by (auto simp: EntitiesByKey_def Let_def index_of_def filter_empty_conv)
  next
    case False
    have w: "set (filter (\<lambda>k. k \<noteq> []) keys) = set keys - {[]}" by auto
    from False assms(2) have "length (take (maxResolvableRecords + 1) ?rows) \<le> maxResolvableRecords"
      "m = index_rows u (set keys - {[]}) (\<lambda>i. map_option en_Name (version_row (take (maxResolvableRecords + 1) ?rows) i)) (\<lambda>k. None)
        (take (maxResolvableRecords + 1) ?rows)"
      unfolding w [symmetric] by (auto simp: EntitiesByKey_def Let_def split: if_splits)
    moreover from this have "take (maxResolvableRecords + 1) ?rows = ?rows" by simp
    ultimately have m: "m = index_rows u (set keys - {[]}) (\<lambda>i. map_option en_Name (version_row ?rows i)) (\<lambda>k. None) ?rows" by simp
    have "indexed u (set keys - {[]}) [] (\<lambda>k. None)" by (simp add: indexed_def)
    from index_rows_indexed [OF this, of ?rows] ds have "indexed u (set keys - {[]}) ?rows m" unfolding m by simp
    from indexed_index_of [OF this ds] same show ?thesis by simp
  qed
qed

lemma CreateEntity_law:
  assumes "import_inv s" "CreateEntity env s d p = Inr (e, s')"
  shows "import_inv s' \<and> version_row (im_Entities s) (xe_ID e) = None \<and>
    version_row (im_Entities s') = (version_row (im_Entities s))(xe_ID e \<mapsto> draft_entity (xe_ID e) (pe_Now env) d p) \<and>
    e = toDomain (draft_entity (xe_ID e) (pe_Now env) d p)"
proof -
  define r where "r = draft_entity (pe_NewID env (im_Entities s)) (pe_Now env) d p"
  have id: "en_ID r = pe_NewID env (im_Entities s)" by (simp add: r_def draft_entity_def)
  from assms(2) have n: "version_row (im_Entities s) (en_ID r) = None" "e = toDomain r" "s' = s\<lparr>im_Entities := im_Entities s @ [r]\<rparr>"
    by (auto simp: CreateEntity_def Let_def r_def split: if_splits)
  then have "en_ID r \<notin> en_ID ` set (im_Entities s)" by (simp add: version_row_None)
  with assms(1) n have "import_inv s'" by (simp add: import_inv_def)
  moreover have "r = draft_entity (xe_ID e) (pe_Now env) d p" using n(2) id by (simp add: r_def)
  moreover have "version_row (im_Entities s') = (version_row (im_Entities s))(en_ID r \<mapsto> r)"
  proof (rule ext)
    fix i
    have "version_row (im_Entities s') i = (case version_row (im_Entities s) i of Some x \<Rightarrow> Some x | None \<Rightarrow> if en_ID r = i then Some r else None)"
      by (simp add: n(3) version_row_append)
    with n(1) show "version_row (im_Entities s') i = ((version_row (im_Entities s))(en_ID r \<mapsto> r)) i"
      by (cases "version_row (im_Entities s) i") auto
  qed
  moreover have "xe_ID e = en_ID r" by (simp add: n(2))
  ultimately show ?thesis using n(1,2) by metis
qed

lemma UpdateEntity_law:
  assumes "import_inv s" "UpdateEntity env s i v d p = Inr (Some e, s')"
  shows "import_inv s' \<and> (\<exists>r. version_row (im_Entities s) i = Some r \<and> en_UpdatedAt r = v \<and>
    version_row (im_Entities s') = (version_row (im_Entities s))(i \<mapsto> overwrite (pe_Now env) d p r) \<and>
    parent_known (im_Entities s) p)"
proof -
  let ?f = "\<lambda>x. if en_ID x = i then overwrite (pe_Now env) d p x else x"
  from assms(2) obtain r where r: "version_row (im_Entities s) i = Some r" "en_UpdatedAt r = v" "parent_known (im_Entities s) p"
    "s' = s\<lparr>im_Entities := map ?f (im_Entities s)\<rparr>"
    by (auto simp: UpdateEntity_def Let_def split: option.splits if_splits)
  have id: "en_ID (?f x) = en_ID x" for x by (simp add: overwrite_def)
  have "map en_ID (map ?f (im_Entities s)) = map en_ID (im_Entities s)" by (simp add: overwrite_def)
  with assms(1) have "import_inv s'" by (simp add: import_inv_def r(4) del: map_map)
  moreover have "version_row (im_Entities s') = (version_row (im_Entities s))(i \<mapsto> overwrite (pe_Now env) d p r)"
  proof (rule ext)
    fix j
    have "version_row (im_Entities s') j = map_option ?f (version_row (im_Entities s) j)"
      using version_row_map [of ?f "im_Entities s" j, OF id] r(4) by simp
    moreover have "en_ID x = j" if "version_row (im_Entities s) j = Some x" for x
      using that by (auto simp: version_row_def find_Some_iff)
    ultimately show "version_row (im_Entities s') j = ((version_row (im_Entities s))(i \<mapsto> overwrite (pe_Now env) d p r)) j"
      using r(1) by (cases "version_row (im_Entities s) j") auto
  qed
  ultimately show ?thesis using r by blast
qed

lemma keeps_chain: "import_inv (s\<lparr>im_Chain := c\<rparr>) = import_inv s"
  by (simp add: import_inv_def)

lemma keeps_batches:
  assumes "map ib_ID bs = map ib_ID (im_Batches s)"
  shows "import_inv (s\<lparr>im_Batches := bs\<rparr>) = import_inv s"
proof -
  from assms have "ib_ID ` set bs = ib_ID ` set (im_Batches s)" by (metis list.set_map)
  with assms show ?thesis by (simp add: import_inv_def)
qed


lemma import_Record_law: "import_Record env s a rt rid d = Inr s' \<Longrightarrow> \<exists>c. s' = s\<lparr>im_Chain := c\<rparr>"
  by (auto simp: import_Record_def split: sum.splits)

lemma MarkCommitted_Some:
  assumes "MarkCommitted env s bid = Inr (Some b, s')"
  shows "\<exists>x. find (\<lambda>b. ib_ID b = bid \<and> ib_Status b = BatchValidated) (im_Batches s) = Some x \<and>
    b = x\<lparr>ib_Status := BatchCommitted, ib_CommittedAt := Some (pe_Now env), ib_CommittedBy := pe_UserID env\<rparr> \<and> ib_ID b = bid \<and>
    s' = s\<lparr>im_Batches := map (\<lambda>x. if ib_ID x = bid \<and> ib_Status x = BatchValidated then b else x) (im_Batches s)\<rparr>"
proof (cases "find (\<lambda>b. ib_ID b = bid \<and> ib_Status b = BatchValidated) (im_Batches s)")
  case (Some x)
  then have "ib_ID x = bid" by (auto simp: find_Some_iff)
  with Some assms show ?thesis by (auto simp: MarkCommitted_def Let_def split: if_splits)
qed (use assms in \<open>simp add: MarkCommitted_def\<close>)

lemma MarkCommitted_law:
  "MarkCommitted env s bid = Inr (b, s') \<Longrightarrow> \<exists>bs. s' = s\<lparr>im_Batches := bs\<rparr> \<and> map ib_ID bs = map ib_ID (im_Batches s)"
proof (cases b)
  case None
  assume "MarkCommitted env s bid = Inr (b, s')"
  with None have "s' = s\<lparr>im_Batches := im_Batches s\<rparr>" by (auto simp: MarkCommitted_def Let_def split: option.splits if_splits)
  then show ?thesis by blast
next
  case (Some y)
  assume "MarkCommitted env s bid = Inr (b, s')"
  with MarkCommitted_Some Some have y: "ib_ID y = bid"
    "s' = s\<lparr>im_Batches := map (\<lambda>x. if ib_ID x = bid \<and> ib_Status x = BatchValidated then y else x) (im_Batches s)\<rparr>" by blast+
  from y(1) have "map ib_ID (map (\<lambda>x. if ib_ID x = bid \<and> ib_Status x = BatchValidated then y else x) (im_Batches s)) = map ib_ID (im_Batches s)"
    by simp
  with y(2) show ?thesis by blast
qed

lemma ListRows_law:
  assumes "import_inv s" "ListRows s bid l o1 = Inr (rows, n)"
  shows "distinct (map pr_RowNumber rows)"
proof -
  let ?all = "case map_of (im_Plans s) bid of None \<Rightarrow> [] | Some rs \<Rightarrow> rs"
  have "distinct (map pr_RowNumber ?all)"
  proof (cases "map_of (im_Plans s) bid")
    case (Some rs)
    then have "(bid, rs) \<in> set (im_Plans s)" by (rule map_of_SomeD)
    with assms(1) Some show ?thesis by (auto simp: import_inv_def)
  qed simp
  then have "distinct (map pr_RowNumber (sort_key pr_RowNumber ?all))" by (simp add: distinct_map)
  then have "distinct (map pr_RowNumber (take (nat l) (drop (nat o1) (sort_key pr_RowNumber ?all))))"
    by (simp add: take_map drop_map distinct_take distinct_drop flip: take_map drop_map)
  with assms(2) show ?thesis by (simp add: ListRows_def Let_def)
qed

lemma toDomain_draft: "carries (toDomain (draft_entity i now d p)) d p"
  by (simp add: carries_def toDomain_def draft_entity_def)

lemma toDomain_overwrite: "carries (toDomain (overwrite now d p r)) d p"
  by (simp add: carries_def toDomain_def overwrite_def)

interpretation pg_import: import_repository "pg_imports env" import_inv "\<lambda>s. version_row (im_Entities s)" toDomain
  "\<lambda>i. draft_entity i (pe_Now env)" "overwrite (pe_Now env)" for env
proof
  fix s keys m
  assume "import_inv s" "iu_EntitiesByKey (pg_imports env) s keys = Inr m"
  with EntitiesByKey_index show "index_of (iu_Text (pg_imports env)) (\<lambda>i. map_option toDomain (version_row (im_Entities s) i)) (set keys) m"
    by (simp add: pg_imports_def)
next
  fix s d p e s'
  assume "import_inv s" "iu_CreateEntity (pg_imports env) s d p = Inr (e, s')"
  with CreateEntity_law [of s env d p e s'] show "import_inv s' \<and> version_row (im_Entities s) (xe_ID e) = None \<and>
    version_row (im_Entities s') = (version_row (im_Entities s))(xe_ID e \<mapsto> draft_entity (xe_ID e) (pe_Now env) d p)"
    by (simp add: pg_imports_def)
next
  fix s i v d p e s'
  assume "import_inv s" "iu_UpdateEntity (pg_imports env) s i v d p = Inr (Some e, s')"
  with UpdateEntity_law [of s env i v d p e s'] show "import_inv s' \<and> (\<exists>r. version_row (im_Entities s) i = Some r \<and>
    xe_UpdatedAt (toDomain r) = v \<and> version_row (im_Entities s') = (version_row (im_Entities s))(i \<mapsto> overwrite (pe_Now env) d p r))"
    by (auto simp: pg_imports_def)
next
  fix s a rt rid d s'
  assume "import_inv s" "iu_Record (pg_imports env) s a rt rid d = Inr s'"
  then show "import_inv s' \<and> version_row (im_Entities s') = version_row (im_Entities s)"
    by (auto simp: pg_imports_def keeps_chain dest!: import_Record_law)
next
  fix s bid b s'
  assume "import_inv s" "iu_MarkCommitted (pg_imports env) s bid = Inr (b, s')"
  then show "import_inv s' \<and> version_row (im_Entities s') = version_row (im_Entities s)"
    by (auto simp: pg_imports_def keeps_batches dest!: MarkCommitted_law)
next
  fix s bid l o1 rows n
  assume "import_inv s" "iu_ListRows (pg_imports env) s bid l o1 = Inr (rows, n)"
  then show "distinct (map pr_RowNumber rows)" using ListRows_law [of s bid l o1 rows n] by (simp add: pg_imports_def)
qed (rule toDomain_draft toDomain_overwrite)+

section \<open>What a commit does\<close>

lemma find_id: "distinct (map f xs) \<Longrightarrow> x \<in> set xs \<Longrightarrow> find (\<lambda>y. f y = f x) xs = Some x"
  by (induction xs) auto

lemma find_in: "find P xs = Some x \<Longrightarrow> x \<in> set xs \<and> P x"
  by (auto simp: find_Some_iff)

text \<open>A committed batch is found committed, and no further commit of it goes through.\<close>

lemma finish_marks:
  assumes "finish_commit (pg_imports env) bid s = Inr (b, s')" "import_inv s'"
  shows "ib_ID b = bid \<and> ib_Status b = BatchCommitted \<and> GetBatch s' bid = Inr (Some b) \<and>
    (\<exists>x \<in> set (im_Batches s). b = x\<lparr>ib_Status := BatchCommitted, ib_CommittedAt := Some (pe_Now env), ib_CommittedBy := pe_UserID env\<rparr>)"
proof -
  from assms(1) obtain s2 where m: "MarkCommitted env s bid = Inr (Some b, s2)" and "import_Record env s2 ''import.committed''
      ''import_batch'' (ib_ID b) (Changes [] (auditBatchValues b)) = Inr s'"
    by (auto simp: finish_commit_def pg_imports_def andthen_Inr split: option.splits)
  then have s': "im_Batches s' = im_Batches s2" by (auto dest!: import_Record_law)
  from MarkCommitted_Some [OF m] obtain x where f: "find (\<lambda>b. ib_ID b = bid \<and> ib_Status b = BatchValidated) (im_Batches s) = Some x" and x:
    "b = x\<lparr>ib_Status := BatchCommitted, ib_CommittedAt := Some (pe_Now env), ib_CommittedBy := pe_UserID env\<rparr>" "ib_ID b = bid" and
    s2: "s2 = s\<lparr>im_Batches := map (\<lambda>x. if ib_ID x = bid \<and> ib_Status x = BatchValidated then b else x) (im_Batches s)\<rparr>" by blast
  from find_in [OF f] have in1: "x \<in> set (im_Batches s)" "ib_ID x = bid" "ib_Status x = BatchValidated" by blast+
  have "b = (\<lambda>x. if ib_ID x = bid \<and> ib_Status x = BatchValidated then b else x) x" using in1 by simp
  with in1(1) have "b \<in> set (im_Batches s')" unfolding s' s2 by (simp add: image_iff) metis
  with find_id [of ib_ID, OF _ this] assms(2) x(2) have "GetBatch s' bid = Inr (Some b)"
    by (simp add: GetBatch_def import_inv_def)
  moreover have "ib_Status b = BatchCommitted" by (simp add: x(1))
  ultimately show ?thesis using x in1(1) by blast
qed

lemma commit_again:
  assumes "GetBatch s bid = Inr (Some b)" "ib_Kind b = KindEntities" "ib_Status b = BatchCommitted"
  shows "Commit (pg_imports env) s bid = Some (Inl (NewConflict ''this file has already been imported''))"
  using assms by (simp add: Commit_def committable_def pg_imports_def)

text \<open>Writing entities leaves the batches alone.\<close>

lemma apply_row_batches:
  "apply_row (pg_imports env) m byRow p (created, s) = Inr (created', s') \<Longrightarrow> im_Batches s' = im_Batches s"
proof -
  have c: "CreateEntity env s d q = Inr (e, s1) \<Longrightarrow> im_Batches s1 = im_Batches s" for d q e s1
    by (auto simp: CreateEntity_def Let_def split: if_splits)
  have u: "UpdateEntity env s i v d q = Inr (e, s1) \<Longrightarrow> im_Batches s1 = im_Batches s" for i v d q e s1
    by (auto simp: UpdateEntity_def Let_def split: if_splits option.splits)
  have r: "import_Record env s1 a rt rid d = Inr s2 \<Longrightarrow> im_Batches s2 = im_Batches s1" for s1 a rt rid d s2
    by (auto dest!: import_Record_law)
  assume "apply_row (pg_imports env) m byRow p (created, s) = Inr (created', s')"
  then show ?thesis
    by (cases "pr_Action p"; cases "pr_TargetUpdatedAt p"; cases "m (NaturalKey (pe_Text env) (the (byRow (pr_RowNumber p))))")
      (auto simp: apply_row_def andthen_Inr pg_imports_def split: if_splits option.splits dest!: c u r)
qed

lemma apply_rows_batches:
  "apply_rows (pg_imports env) m byRow ps (created, s) = Inr (created', s') \<Longrightarrow> im_Batches s' = im_Batches s"
proof (induction ps arbitrary: created s)
  case (Cons p ps)
  from Cons.prems obtain created1 s1 where r: "apply_row (pg_imports env) m byRow p (created, s) = Inr (created1, s1)"
    "apply_rows (pg_imports env) m byRow ps (created1, s1) = Inr (created', s')" by (auto simp: andthen_Inr)
  from Cons.IH [OF r(2)] apply_row_batches [OF r(1)] show ?case by simp
qed simp

lemma commit_marks:
  assumes "Commit (pg_imports env) s bid = Some (Inr (b, s'))" "import_inv s"
  shows "ib_ID b = bid \<and> ib_Status b = BatchCommitted \<and> GetBatch s' bid = Inr (Some b) \<and> ib_Kind b = KindEntities"
proof -
  from assms(1) obtain plan m s1 where c: "committable (pg_imports env) s KindEntities bid = Inr plan"
    "applyEntities (pg_imports env) plan (draftRows plan) m s = Inr s1" "finish_commit (pg_imports env) bid s1 = Inr (b, s')"
    by (auto simp: Commit_def Let_def bind_eq_Some_conv andthen_Inr split: sum.splits)
  from pg_import.commit_effect [OF assms] have "import_inv s'" by blast
  note f = finish_marks [OF c(3) this]
  from c(2) have same: "im_Batches s1 = im_Batches s" by (auto simp: applyEntities_def Let_def andthen_Inr dest!: apply_rows_batches)
  from committable_Inr [OF c(1)] obtain x where x: "GetBatch s bid = Inr (Some x)" "ib_Kind x = KindEntities"
    by (auto simp: pg_imports_def)
  from f same obtain y where y: "y \<in> set (im_Batches s)" "ib_ID y = bid" "ib_Kind b = ib_Kind y" by auto
  have "GetBatch s bid = Inr (Some y)" using find_id [of ib_ID "im_Batches s" y] y assms(2) by (simp add: GetBatch_def import_inv_def)
  with x y(3) f show ?thesis by simp
qed

text \<open>The record an update leaves: the file's value for what it speaks of, the record's own for the rest.\<close>

definition as_filed :: "int \<Rightarrow> entity_draft \<Rightarrow> string option \<Rightarrow> versioned_entity \<Rightarrow> versioned_entity" where
  "as_filed now d parent r =
     r\<lparr>en_ParentEntityID := (if Said d ''parent'' then parent else en_ParentEntityID r),
       en_Name := (if Said d ''name'' then ed_Name d else en_Name r),
       en_LegalName := (if Said d ''legalName'' then ed_LegalName d else en_LegalName r),
       en_Country := (if Said d ''country'' then ed_Country d else en_Country r),
       en_TaxResidency := (if Said d ''taxResidency'' then ed_TaxResidency d else en_TaxResidency r),
       en_FiscalCalendarPattern := (if Said d ''fiscalCalendarPattern'' then ed_FiscalCalendarPattern d else en_FiscalCalendarPattern r),
       en_FinancialYearEnd := (if Said d ''financialYearEnd'' then ed_FinancialYearEnd d else en_FinancialYearEnd r),
       en_FiscalWeekEndDay := (if Said d ''fiscalWeekEndDay'' then ed_FiscalWeekEndDay d else en_FiscalWeekEndDay r),
       en_FiscalYearEndRule := (if Said d ''fiscalYearEndRule'' then ed_FiscalYearEndRule d else en_FiscalYearEndRule r),
       en_UpdatedAt := now\<rparr>"

lemma overwrite_as_filed:
  assumes "toDomain r = bare t"
  shows "overwrite now (mergeEntity d t) (mergeParent d p t) r = as_filed now d p r"
proof -
  have "xe_ParentID t = en_ParentEntityID r" "xe_Name t = en_Name r" "xe_LegalName t = en_LegalName r" "xe_Country t = en_Country r"
    "xe_TaxResidency t = en_TaxResidency r" "xe_Pattern t = en_FiscalCalendarPattern r" "xe_YearEnd t = en_FinancialYearEnd r"
    "xe_WeekEndDay t = en_FiscalWeekEndDay r" "xe_YearEndRule t = en_FiscalYearEndRule r"
    by (insert assms; cases t; simp add: toDomain_def bare_def)+
  then show ?thesis by (simp add: overwrite_def as_filed_def mergeEntity_def mergeParent_def)
qed

text \<open>
  Property C2. A commit that succeeds has written the stored plan and nothing else. Every row planned as a
  create has one new entity, under an id that was free, with the values of its row and under the
  parent its row names; every row planned as an update has overwritten the entity it was planned
  for, at the version it was planned from, keeping what the file does not speak of; every other
  entity is as it was. The batch is committed, and a second commit of it is refused.
\<close>

theorem commit_writes_the_plan:
  assumes "import_inv s" "Commit (pg_imports env) s bid = Some (Inr (b, s'))"
  shows "\<exists>plan m created. committable (pg_imports env) s KindEntities bid = Inr plan \<and>
    index_of (pe_Text env) (\<lambda>i. map_option toDomain (version_row (im_Entities s) i)) (set (wanted_keys (pe_Text env) (draftRows plan))) m \<and>
    (\<forall>p \<in> set plan. pr_Action p = RowCreate \<longrightarrow>
       (\<exists>i. map_of created (plan_key (pe_Text env) p) = Some i \<and> version_row (im_Entities s) i = None \<and>
         version_row (im_Entities s') i =
           Some (draft_entity i (pe_Now env) (planned_draft p) (home (pe_Text env) m created (planned_draft p))))) \<and>
    (\<forall>p \<in> set plan. pr_Action p = RowUpdate \<longrightarrow>
       (\<exists>i r. pr_TargetID p = Some i \<and> version_row (im_Entities s) i = Some r \<and> pr_TargetUpdatedAt p = Some (en_UpdatedAt r) \<and>
         version_row (im_Entities s') i =
           Some (as_filed (pe_Now env) (planned_draft p) (home (pe_Text env) m created (planned_draft p)) r))) \<and>
    (\<forall>i. version_row (im_Entities s') i \<noteq> version_row (im_Entities s) i \<longrightarrow>
       (\<exists>p \<in> set plan. pr_Action p = RowCreate \<and> map_of created (plan_key (pe_Text env) p) = Some i \<or>
         pr_Action p = RowUpdate \<and> pr_TargetID p = Some i)) \<and>
    ib_Status b = BatchCommitted \<and>
    Commit (pg_imports env) s' bid = Some (Inl (NewConflict ''this file has already been imported''))"
proof -
  have u: "iu_Text (pg_imports env) = pe_Text env" by (simp add: pg_imports_def)
  from pg_import.commit_effect [OF assms(2,1), unfolded u] obtain plan m created where
    c: "committable (pg_imports env) s KindEntities bid = Inr plan" and
    ix: "index_of (pe_Text env) (\<lambda>i. map_option toDomain (version_row (im_Entities s) i)) (set (wanted_keys (pe_Text env) (draftRows plan))) m" and
    agree: "\<forall>p \<in> set plan. pr_Action p = RowInvalid \<or> agreed (pe_Text env) m (inFile_of (pe_Text env) (draftRows plan))
         (entityCycles (iu_MapOrder (pg_imports env)) (parentOf_of (pe_Text env) (draftRows plan)) (inFile_of (pe_Text env) (draftRows plan)) m) p" and
    eff: "effect (pe_Text env) m toDomain (\<lambda>i. draft_entity i (pe_Now env)) (overwrite (pe_Now env)) (version_row (im_Entities s)) plan created
      (version_row (im_Entities s'))" by blast
  have target: "pr_TargetID p = Some (xe_ID t)"
    if "p \<in> set plan" "pr_Action p = RowUpdate" "m (plan_key (pe_Text env) p) = Some t" for p t
    using agree that by (fastforce simp: agreed_def Let_def)
  have creates: "\<forall>p \<in> set plan. pr_Action p = RowCreate \<longrightarrow>
       (\<exists>i. map_of created (plan_key (pe_Text env) p) = Some i \<and> version_row (im_Entities s) i = None \<and>
         version_row (im_Entities s') i =
           Some (draft_entity i (pe_Now env) (planned_draft p) (home (pe_Text env) m created (planned_draft p))))"
    using effect_create [OF eff] effect_fresh [OF eff] by blast
  have updates: "\<exists>i r. pr_TargetID p = Some i \<and> version_row (im_Entities s) i = Some r \<and> pr_TargetUpdatedAt p = Some (en_UpdatedAt r) \<and>
         version_row (im_Entities s') i =
           Some (as_filed (pe_Now env) (planned_draft p) (home (pe_Text env) m created (planned_draft p)) r)"
    if p: "p \<in> set plan" "pr_Action p = RowUpdate" for p
  proof -
    from effect_update [OF eff p] obtain t r where t: "m (plan_key (pe_Text env) p) = Some t"
      "version_row (im_Entities s) (xe_ID t) = Some r" "pr_TargetUpdatedAt p = Some (en_UpdatedAt r)"
      "version_row (im_Entities s') (xe_ID t) = Some (overwrite (pe_Now env) (mergeEntity (planned_draft p) t)
           (mergeParent (planned_draft p) (home (pe_Text env) m created (planned_draft p)) t) r)" by auto
    from index_of_Some [OF ix t(1)] t(2) have r: "toDomain r = bare t" by simp
    from t(2-4) target [OF p t(1)] show ?thesis unfolding overwrite_as_filed [OF r] by blast
  qed
  have frame: "\<exists>p \<in> set plan. pr_Action p = RowCreate \<and> map_of created (plan_key (pe_Text env) p) = Some i \<or>
         pr_Action p = RowUpdate \<and> pr_TargetID p = Some i"
    if "version_row (im_Entities s') i \<noteq> version_row (im_Entities s) i" for i
    using effect_frame [OF eff that]
  proof
    assume "\<exists>k. map_of created k = Some i"
    then obtain k where "map_of created k = Some i" by blast
    with effect_created [OF eff, of k] show ?thesis by auto
  qed (use target in blast)
  note marks = commit_marks [OF assms(2,1)]
  with commit_again have "ib_Status b = BatchCommitted"
    "Commit (pg_imports env) s' bid = Some (Inl (NewConflict ''this file has already been imported''))" by blast+
  with c ix creates updates frame show ?thesis by blast
qed

end
