(* ===== verification/ImportDryRun.thy ===== *)
theory ImportDryRun
  imports ImportProps
begin

text \<open>
  The dry run of an entity import on the tables: what its batch and its stored plan are, that the
  plan always meets the constraints of the tables it is stored in, and that a commit later reads
  the plan back row for row.
\<close>

section \<open>A plan meets the constraints of its table\<close>

lemma authorize_error:
  assumes "authorize res req grants i cap = Some (Inl e)" "\<And>x e. rs_AncestorsAndSelf res x \<noteq> Some (Inl e)"
  shows "isForbidden e"
  using assms by (auto simp: authorize_def forbidden_def isForbidden_def bind_eq_Some_conv andthen_Inl
      split: if_splits option.splits)

lemma pg_authorizer:
  "import_authorizer env s = Some res \<Longrightarrow> rs_AncestorsAndSelf res x \<noteq> Some (Inl e)"
  by (auto simp: import_authorizer_def AncestorsAndSelf_def bind_eq_Some_conv)

lemma EnsureEntity_error:
  "EnsureEntity (import_authorizer env s) req grants i cap = Some (Inl e) \<Longrightarrow> isForbidden e"
  using authorize_error [OF _ pg_authorizer] by (auto simp: EnsureEntity_def split: option.splits)

lemma EnsureEntityRef_error:
  "EnsureEntityRef (import_authorizer env s) req grants i cap = Some (Inl e) \<Longrightarrow> isForbidden e"
  using authorize_error [OF _ pg_authorizer] by (auto simp: EnsureEntityRef_def split: option.splits)

lemma invalidRow_checks:
  "1 \<le> pr_RowNumber planned \<Longrightarrow> issues \<noteq> [] \<or> msg \<noteq> text_msg [] \<Longrightarrow> plan_row_checks (invalidRow planned issues field msg)"
  by (auto simp: plan_row_checks_def invalidRow_def)

lemma forbiddenRow_checks: "1 \<le> pr_RowNumber planned \<Longrightarrow> isForbidden e \<Longrightarrow> plan_row_checks (forbiddenRow planned issues e)"
  by (simp add: forbiddenRow_def invalidRow_checks)

lemma decided_checks:
  "1 \<le> pr_RowNumber q \<Longrightarrow> pr_Changes q = [] \<Longrightarrow> pr_TargetID q = None \<Longrightarrow> pr_TargetUpdatedAt q = None \<Longrightarrow>
     plan_row_checks (withIssues (actioned q RowCreate) issues)"
  "1 \<le> pr_RowNumber q \<Longrightarrow> pr_Changes q = [] \<Longrightarrow> pr_TargetID q = Some i \<Longrightarrow> pr_TargetUpdatedAt q = Some v \<Longrightarrow>
     plan_row_checks (withIssues (actioned q RowUnchanged) issues)"
  "1 \<le> pr_RowNumber q \<Longrightarrow> cs \<noteq> [] \<Longrightarrow> pr_TargetID q = Some i \<Longrightarrow> pr_TargetUpdatedAt q = Some v \<Longrightarrow>
     plan_row_checks (withIssues (q\<lparr>pr_Action := RowUpdate, pr_Changes := cs\<rparr>) issues)"
  by (simp_all add: plan_row_checks_def withIssues_def actioned_def)

lemma plan_create_checks:
  assumes "plan_create (pg_imports env) s m inFile parentOf planned issues d = Some p"
    and "1 \<le> pr_RowNumber planned" "pr_TargetID planned = None" "pr_TargetUpdatedAt planned = None" "pr_Changes planned = []"
  shows "plan_row_checks p"
proof -
  from assms(1) consider fs where "fs \<noteq> []" "p = invalidRow planned fs [] (text_msg [])"
    | e where "isForbidden e" "p = forbiddenRow planned issues e" | "p = withIssues (actioned planned RowCreate) issues"
    unfolding plan_create_def Let_def
    by (auto simp: pg_imports_def split: if_splits dest!: permitted_Some EnsureEntityRef_error)
  then show ?thesis
    by cases (use assms(2-5) in \<open>simp_all add: invalidRow_checks forbiddenRow_checks decided_checks\<close>)
qed

lemma plan_existing_checks:
  assumes "plan_existing (pg_imports env) s m planned issues d t = Some p"
    and "1 \<le> pr_RowNumber planned" "pr_Changes planned = []"
  shows "plan_row_checks p"
proof -
  define q where "q = planned\<lparr>pr_TargetID := Some (xe_ID t), pr_TargetUpdatedAt := Some (xe_UpdatedAt t)\<rparr>"
  have q: "pr_RowNumber q = pr_RowNumber planned" "pr_TargetID q = Some (xe_ID t)"
    "pr_TargetUpdatedAt q = Some (xe_UpdatedAt t)" "pr_Changes q = []"
    using assms(3) by (simp_all add: q_def)
  from assms(1) consider "p = withIssues (actioned q RowUnchanged) issues"
    | e where "isForbidden e" "p = forbiddenRow q issues e"
    | changed where "changed \<noteq> []" "p = withIssues (q\<lparr>pr_Action := RowUpdate, pr_Changes := changed\<rparr>) issues"
    unfolding plan_existing_def Let_def q_def [symmetric]
    by (auto simp: pg_imports_def split: if_splits dest!: permitted_Some EnsureEntityRef_error EnsureEntity_error)
  then show ?thesis
    by cases (use assms(2) q in \<open>simp_all add: forbiddenRow_checks decided_checks\<close>)
qed

lemma HasError_issues: "HasError row \<Longrightarrow> dw_Issues row \<noteq> []"
  by (auto simp: HasError_def)

lemma planEntityRow_checks:
  assumes "planEntityRow (pg_imports env) s m inFile parentOf cyclic row = Some p"
    and "1 \<le> dw_Number row" "dw_DuplicateOfRow row \<noteq> 0 \<Longrightarrow> HasError row"
  shows "plan_row_checks p"
proof (cases "dw_Entity row")
  case None
  with assms show ?thesis by (auto simp: planEntityRow_def Let_def intro!: invalidRow_checks)
next
  case (Some d)
  let ?planned = "\<lparr>pr_RowNumber = dw_Number row, pr_Action = NoAction, pr_NaturalKey = row_NaturalKey (iu_Text (pg_imports env)) row,
            pr_TargetID = None, pr_TargetUpdatedAt = None, pr_Payload = EntityPayload d, pr_Changes = [], pr_Issues = []\<rparr>"
  have dup: "dw_Issues row \<noteq> [] \<or> duplicateMessage row (Errorf (CHR ''r'' # f) xs) \<noteq> text_msg []" for f xs
    using assms(3) by (auto simp: duplicateMessage_def dest: HasError_issues)
  show ?thesis
  proof (cases "row_ok (iu_Text (pg_imports env)) m inFile cyclic row d")
    case False
    with assms Some dup show ?thesis
      by (auto simp: planEntityRow_def Let_def row_ok_def split: if_splits option.splits intro!: invalidRow_checks dest: HasError_issues)
  next
    case True
    show ?thesis
    proof (cases "m (NaturalKey (iu_Text (pg_imports env)) d)")
      case None
      with assms(1) Some True have "plan_create (pg_imports env) s m inFile parentOf ?planned (dw_Issues row) d = Some p"
        by (auto simp: planEntityRow_def Let_def row_ok_def)
      from plan_create_checks [OF this] assms(2) show ?thesis by simp
    next
      case (Some t)
      with assms(1) \<open>dw_Entity row = Some d\<close> True have "plan_existing (pg_imports env) s m ?planned (dw_Issues row) d t = Some p"
        by (auto simp: planEntityRow_def Let_def row_ok_def)
      from plan_existing_checks [OF this] assms(2) show ?thesis by simp
    qed
  qed
qed

text \<open>What the reader promises of its rows.\<close>

definition numbered_rows :: "draft_row list \<Rightarrow> bool" where
  "numbered_rows rows \<longleftrightarrow> sorted (map dw_Number rows) \<and> distinct (map dw_Number rows) \<and>
     (\<forall>row \<in> set rows. 1 \<le> dw_Number row \<and> (dw_DuplicateOfRow row \<noteq> 0 \<longrightarrow> HasError row))"

lemma planned_numbers:
  assumes "planEntities uc s rows = Some (Inr (plan, m))"
  shows "map pr_RowNumber (bp_Rows plan) = map dw_Number rows"
  using planEntities_nth [OF assms] by (auto simp: list_eq_iff_nth_eq dest: planEntityRow_Some)

lemma planned_checks:
  assumes "planEntities (pg_imports env) s rows = Some (Inr (plan, m))" "numbered_rows rows"
  shows "list_all plan_row_checks (bp_Rows plan)"
proof -
  note n = planEntities_nth [OF assms(1)]
  have "plan_row_checks (bp_Rows plan ! i)" if "i < length rows" for i
  proof -
    have "rows ! i \<in> set rows" using that by simp
    with assms(2) have "1 \<le> dw_Number (rows ! i)" "dw_DuplicateOfRow (rows ! i) \<noteq> 0 \<Longrightarrow> HasError (rows ! i)"
      by (auto simp: numbered_rows_def)
    with planEntityRow_checks n that show ?thesis by blast
  qed
  with n show ?thesis by (simp add: list_all_length)
qed

lemma planned_counts:
  assumes "planEntities uc s rows = Some (Inr (plan, m))"
  shows "bp_CreateCount plan = count_action RowCreate (bp_Rows plan) \<and> bp_UpdateCount plan = count_action RowUpdate (bp_Rows plan) \<and>
    bp_UnchangedCount plan = count_action RowUnchanged (bp_Rows plan) \<and> bp_InvalidCount plan = count_action RowInvalid (bp_Rows plan)"
  using planEntities_Some [OF assms] foldl_plan_Add [of empty_plan "bp_Rows plan"] by (auto simp: empty_plan_def)

lemma count_action_nonneg [simp]: "0 \<le> count_action a ps"
  by (simp add: count_action_def)

lemma planned_batch:
  assumes "planEntities (pg_imports env) s rows = Some (Inr (plan, m))" "numbered_rows rows" "0 \<le> up_ByteSize up" "pe_UserID env' \<noteq> None"
  shows "batch_checks ((new_batch up plan)\<lparr>ib_ID := bid, ib_CreatedBy := pe_UserID env', ib_CreatedAt := now, ib_CommittedBy := None, ib_CommittedAt := None\<rparr>)"
proof -
  note c = planned_counts [OF assms(1)]
  have "list_all (\<lambda>p. pr_Action p \<noteq> NoAction) (bp_Rows plan)"
    using planned_checks [OF assms(1,2)] by (auto simp: list_all_iff plan_row_checks_def)
  moreover have "0 < bp_InvalidCount plan \<or> bp_InvalidCount plan = 0"
    using c count_action_nonneg [of RowInvalid "bp_Rows plan"] by linarith
  ultimately show ?thesis
    using counts_cover [of "bp_Rows plan"] c assms(3,4) by (auto simp: batch_checks_def new_batch_def plan_Status_def)
qed

text \<open>
  Every dry run can be stored: whatever the file holds and whatever the tenant holds, the
  plan of its rows and the batch with its counts meet every check constraint of the tables they
  are written to - each row has an action with the target columns that go with it, a refused row
  has an issue, an update has a change, and the counts add up and agree with the status.
\<close>

theorem dry_run_is_storable:
  assumes "planEntities (pg_imports env) s rows = Some (Inr (plan, m))" "numbered_rows rows"
    and "0 \<le> up_ByteSize up" "pe_UserID env \<noteq> None" "pe_NewBatchID env (im_Batches s) \<notin> ib_ID ` set (im_Batches s)"
  shows "\<exists>b s'. CreateBatch env s (new_batch up plan) (bp_Rows plan) = Inr (b, s') \<and>
    ib_RowCount b = int (length rows) \<and>
    ib_Status b = (if \<exists>p \<in> set (bp_Rows plan). pr_Action p = RowInvalid then BatchRejected else BatchValidated)"
proof -
  have "distinct (map pr_RowNumber (bp_Rows plan))"
    using assms(2) by (simp add: planned_numbers [OF assms(1)] numbered_rows_def)
  moreover have "length (bp_Rows plan) = length rows" using planEntities_nth [OF assms(1)] by blast
  moreover have "bp_InvalidCount plan > 0 \<longleftrightarrow> (\<exists>p \<in> set (bp_Rows plan). pr_Action p = RowInvalid)"
    using planned_counts [OF assms(1)] by (simp add: count_action_def filter_empty_conv)
  ultimately show ?thesis
    using planned_checks [OF assms(1,2)] planned_batch [OF assms(1-4)] assms(5)
    by (simp add: CreateBatch_def Let_def new_batch_def plan_Status_def)
qed

end
