(* ===== verification/ImportAgain.thy ===== *)
theory ImportAgain
  imports ImportDryRun
begin

text \<open>
  Importing the same file again. After a commit every row of the plan finds its record: the keys of
  the records that were there are kept, the created ones carry their row's key, and each carries
  what its row says. A second plan of the file, whoever makes it, has nothing to do.
\<close>

section \<open>After a commit\<close>

text \<open>A commit as it is left by \<open>commit_effect\<close>: the plan, the index it was made from, and the tables.\<close>

definition carried_out ::
  "text_ops \<Rightarrow> key_index \<Rightarrow> ('r \<Rightarrow> existing_entity) \<Rightarrow> (string \<Rightarrow> entity_draft \<Rightarrow> string option \<Rightarrow> 'r) \<Rightarrow>
     (entity_draft \<Rightarrow> string option \<Rightarrow> 'r \<Rightarrow> 'r) \<Rightarrow> (string \<Rightarrow> 'r option) \<Rightarrow> row_plan list \<Rightarrow> (string \<times> string) list \<Rightarrow>
     (string \<Rightarrow> 'r option) \<Rightarrow> bool" where
  "carried_out u m view mk over pre plan created post \<longleftrightarrow>
     (\<forall>i d p. carries (view (mk i d p)) d p) \<and> (\<forall>d p r. carries (view (over d p r)) d p) \<and>
     distinct (map pr_RowNumber plan) \<and>
     index_of u (\<lambda>i. map_option view (pre i)) (set (wanted_keys u (draftRows plan))) m \<and>
     (\<exists>cyclic. \<forall>p \<in> set plan. agreed u m (inFile_of u (draftRows plan)) cyclic p) \<and>
     effect u m view mk over pre plan created post"

lemma carried_outD:
  assumes "carried_out u m view mk over pre plan created post"
  shows "carries (view (mk i d par)) d par" "carries (view (over d par r)) d par" "distinct (map pr_RowNumber plan)"
    "index_of u (\<lambda>i. map_option view (pre i)) (set (wanted_keys u (draftRows plan))) m"
    "\<exists>cyclic. \<forall>p \<in> set plan. agreed u m (inFile_of u (draftRows plan)) cyclic p"
    "effect u m view mk over pre plan created post"
  using assms by (simp_all add: carried_out_def)

lemma carries_key: "carries e d p \<Longrightarrow> keyOf u e = NaturalKey u d"
  by (simp add: carries_def keyOf_def NaturalKey_def)

text \<open>What the plan's rows were: a create finds no record, any other row the one it matches.\<close>

lemma carried_row:
  assumes "carried_out u m view mk over pre plan created post" "p \<in> set plan"
  shows "plan_key u p \<noteq> [] \<and> map_of (inFile_of u (draftRows plan)) (plan_key u p) = Some (pr_RowNumber p) \<and>
    (ParentKey u (planned_draft p) = [] \<or> existingParent m (ParentKey u (planned_draft p)) \<noteq> None \<or>
      map_of (inFile_of u (draftRows plan)) (ParentKey u (planned_draft p)) \<noteq> None) \<and>
    (m (plan_key u p) = None \<and> pr_Action p = RowCreate \<or>
     (\<exists>t. m (plan_key u p) = Some t \<and> \<not> xe_Ambiguous t \<and> pr_TargetID p = Some (xe_ID t) \<and> pr_Action p =
       (if entityChanges u (planned_draft p) (existingParent m (ParentKey u (planned_draft p))) (ParentKey u (planned_draft p)) t = []
        then RowUnchanged else RowUpdate)))"
proof -
  from carried_outD(5) [OF assms(1)] assms(2) obtain cyclic where a: "agreed u m (inFile_of u (draftRows plan)) cyclic p" by blast
  have "map_of (inFile_of u (draftRows plan)) (plan_key u p) \<noteq> None"
  proof -
    obtain i where "i < length plan" "p = plan ! i" using assms(2) by (auto simp: in_set_conv_nth)
    then have "draftRows plan ! i \<in> set (draftRows plan)" by (intro nth_mem) simp
    moreover have "dw_Entity (draftRows plan ! i) = Some (planned_draft p)" using \<open>i < length plan\<close> \<open>p = plan ! i\<close> by simp
    moreover have "plan_key u p \<noteq> []" using a by (simp add: agreed_def row_ok_def plan_key_def Let_def)
    ultimately show ?thesis unfolding inFile_dom plan_key_def by blast
  qed
  with a show ?thesis
    by (auto simp: agreed_def row_ok_def plan_key_def Let_def split: option.splits)
qed

lemma carried_same:
  assumes "carried_out u m view mk over pre plan created post" "p \<in> set plan" "q \<in> set plan" "plan_key u p = plan_key u q"
  shows "p = q"
proof -
  from carried_outD(5) [OF assms(1)] assms(2,3) obtain cyclic where
    "agreed u m (inFile_of u (draftRows plan)) cyclic p" "agreed u m (inFile_of u (draftRows plan)) cyclic q" by blast
  from agreed_distinct [OF this assms(4)] carried_outD(3) [OF assms(1)] assms(2,3) show ?thesis
    unfolding distinct_map inj_on_def by blast
qed

text \<open>A record that was there keeps its key; a record that was not there has the key of the row that made it.\<close>

lemma kept_key:
  assumes "carried_out u m view mk over pre plan created post" "pre i = Some r"
  shows "\<exists>r'. post i = Some r' \<and> keyOf u (view r') = keyOf u (view r)"
proof (cases "post i = pre i")
  case False
  note eff = carried_outD(6) [OF assms(1)] and ix = carried_outD(4) [OF assms(1)]
  from effect_frame [OF eff False] effect_fresh [OF eff] assms(2) obtain p t
    where p: "p \<in> set plan" "pr_Action p = RowUpdate" "m (plan_key u p) = Some t" "xe_ID t = i" by fastforce
  from effect_update [OF eff p(1,2)] p(3,4) obtain par where
    post: "post i = Some (over (mergeEntity (planned_draft p) t) par r)" using assms(2) by auto
  note t = index_of_Some [OF ix p(3)]
  have "view r = bare t" using t p(4) assms(2) by simp
  then have "keyOf u (view r) = plan_key u p" using t by (simp add: keyOf_def)
  moreover have "NaturalKey u (mergeEntity (planned_draft p) t) = plan_key u p"
    using t by (simp add: mergeEntity_key plan_key_def)
  ultimately show ?thesis using post carries_key [OF carried_outD(2) [OF assms(1)]] by simp
qed (use assms(2) in auto)

lemma new_key:
  assumes "carried_out u m view mk over pre plan created post" "post i = Some r'" "pre i = None"
  shows "\<exists>p \<in> set plan. pr_Action p = RowCreate \<and> map_of created (plan_key u p) = Some i \<and> keyOf u (view r') = plan_key u p"
proof -
  note eff = carried_outD(6) [OF assms(1)]
  have "post i \<noteq> pre i" using assms(2,3) by simp
  from effect_frame [OF eff this] show ?thesis
  proof
    assume "\<exists>k. map_of created k = Some i"
    then obtain k where k: "map_of created k = Some i" by blast
    then obtain p where p: "p \<in> set plan" "pr_Action p = RowCreate" "plan_key u p = k" using effect_created [OF eff, of k] by auto
    from effect_create [OF eff p(1,2)] k p(3) assms(2)
    have "r' = mk i (planned_draft p) (home u m created (planned_draft p))" by simp
    then have "keyOf u (view r') = plan_key u p"
      using carries_key [OF carried_outD(1) [OF assms(1)]] by (simp add: plan_key_def)
    with p k show ?thesis by blast
  next
    assume "\<exists>p \<in> set plan. pr_Action p = RowUpdate \<and> (\<exists>t. m (plan_key u p) = Some t \<and> xe_ID t = i)"
    then obtain p t where "p \<in> set plan" "pr_Action p = RowUpdate" "m (plan_key u p) = Some t" "xe_ID t = i" by blast
    with effect_update [OF eff this(1,2)] assms(3) show ?thesis by auto
  qed
qed

text \<open>Hence a second index finds under each key the record the first one found, or the created one.\<close>

lemma found_again:
  assumes c: "carried_out u m view mk over pre plan created post"
    and ix': "index_of u (\<lambda>i. map_option view (post i)) (set (wanted_keys u (draftRows plan))) m'"
    and t: "m k = Some t" "\<not> xe_Ambiguous t"
  shows "\<exists>t' r. m' k = Some t' \<and> xe_ID t' = xe_ID t \<and> \<not> xe_Ambiguous t' \<and> post (xe_ID t) = Some r \<and> bare t' = view r"
proof -
  note x = index_of_Some [OF carried_outD(4) [OF c] t(1)]
  obtain r where r: "pre (xe_ID t) = Some r" "view r = bare t" using x by auto
  from kept_key [OF c r(1)] obtain r' where r': "post (xe_ID t) = Some r'" "keyOf u (view r') = k"
    using r(2) x by (auto simp: keyOf_def)
  have only: "j = xe_ID t" if "map_option view (post j) = Some e" "keyOf u e = k" for j e
  proof (cases "pre j")
    case None
    from that obtain s where s: "post j = Some s" "keyOf u (view s) = k" by auto
    from new_key [OF c s(1) None] s(2) obtain p where "p \<in> set plan" "pr_Action p = RowCreate" "plan_key u p = k" by auto
    with carried_row [OF c this(1)] t(1) show ?thesis by (auto split: if_splits)
  next
    case (Some s)
    from kept_key [OF c Some] that have "keyOf u (view s) = k" by auto
    with Some x t(2) show ?thesis by auto
  qed
  have "\<exists>x. m' k = Some x \<and> xe_ID x = xe_ID t \<and> bare x = view r' \<and> \<not> xe_Ambiguous x"
    by (rule index_of_unique [OF ix', of k "xe_ID t" "view r'"]) (use x r' only in auto)
  with r' show ?thesis by auto
qed

lemma created_found:
  assumes c: "carried_out u m view mk over pre plan created post"
    and ix': "index_of u (\<lambda>i. map_option view (post i)) (set (wanted_keys u (draftRows plan))) m'"
    and k: "map_of created k = Some i" "k \<in> set (wanted_keys u (draftRows plan))"
  shows "\<exists>t' p. m' k = Some t' \<and> xe_ID t' = i \<and> \<not> xe_Ambiguous t' \<and> p \<in> set plan \<and> pr_Action p = RowCreate \<and> plan_key u p = k \<and>
    bare t' = view (mk i (planned_draft p) (home u m created (planned_draft p)))"
proof -
  note eff = carried_outD(6) [OF c]
  from effect_created [OF eff, of k] k(1) obtain p where p: "p \<in> set plan" "pr_Action p = RowCreate" "plan_key u p = k" by auto
  from effect_create [OF eff p(1,2)] p(3) k(1)
  have post: "post i = Some (mk i (planned_draft p) (home u m created (planned_draft p)))" (is "_ = Some ?r") by simp
  have key: "keyOf u (view ?r) = k" using carries_key [OF carried_outD(1) [OF c]] p(3) by (simp add: plan_key_def)
  have m: "k \<noteq> []" "m k = None" using carried_row [OF c p(1)] p(2,3) by (auto split: if_splits)
  have only: "j = i" if "map_option view (post j) = Some e" "keyOf u e = k" for j e
  proof (cases "pre j")
    case None
    from that obtain s where s: "post j = Some s" "keyOf u (view s) = k" by auto
    from new_key [OF c s(1) None] s(2) k(1) show ?thesis by auto
  next
    case (Some s)
    from kept_key [OF c Some] that have "keyOf u (view s) = k" by auto
    with index_of_None [OF carried_outD(4) [OF c] k(2) m, of j "view s"] Some show ?thesis by simp
  qed
  have "\<exists>x. m' k = Some x \<and> xe_ID x = i \<and> bare x = view ?r \<and> \<not> xe_Ambiguous x"
    by (rule index_of_unique [OF ix' k(2) m(1), of i "view ?r"]) (use post key only in auto)
  with p show ?thesis by auto
qed

lemma wanted_plan: "p \<in> set plan \<Longrightarrow> {plan_key u p, ParentKey u (planned_draft p)} \<subseteq> set (wanted_keys u (draftRows plan))"
  by (force simp: wanted_keys_def draftRows_def plan_key_def planned_draft_def)

lemma parent_again:
  assumes c: "carried_out u m view mk over pre plan created post"
    and ix': "index_of u (\<lambda>i. map_option view (post i)) (set (wanted_keys u (draftRows plan))) m'"
    and p: "p \<in> set plan" "has_home u m created (planned_draft p)" "ParentKey u (planned_draft p) \<noteq> []"
  shows "existingParent m' (ParentKey u (planned_draft p)) = home u m created (planned_draft p) \<and>
    home u m created (planned_draft p) \<noteq> None"
proof (cases "existingParent m (ParentKey u (planned_draft p))")
  case (Some i)
  then obtain t where t: "m (ParentKey u (planned_draft p)) = Some t" "\<not> xe_Ambiguous t" "xe_ID t = i"
    by (auto simp: existingParent_def split: option.splits if_splits)
  from found_again [OF c ix' t(1,2)] t(3) have "existingParent m' (ParentKey u (planned_draft p)) = Some i"
    by (auto simp: existingParent_def)
  with Some p(3) show ?thesis by (simp add: home_def)
next
  case None
  with p(2,3) obtain i where i: "map_of created (ParentKey u (planned_draft p)) = Some i" by (auto simp: has_home_def)
  from created_found [OF c ix' i] wanted_plan [OF p(1)] have "existingParent m' (ParentKey u (planned_draft p)) = Some i"
    by (auto simp: existingParent_def)
  with None i p(3) show ?thesis by (simp add: home_def)
qed

lemma changes_without_parent:
  "\<not> Said d ''parent'' \<or> pk = [] \<Longrightarrow> entityChanges u d pid pk t = [] \<longleftrightarrow> entityChanges u d pid' pk t = []"
  by (erule disjE; simp add: entityChanges_Nil)

lemma changes_with_parent:
  "entityChanges u d pid pk t = [] \<Longrightarrow> Said d ''parent'' \<Longrightarrow> pk \<noteq> [] \<Longrightarrow> \<exists>i. pid = Some i"
  unfolding entityChanges_Nil by (elim conjE) auto

text \<open>Every row of the plan finds its record in agreement.\<close>

lemma unchanged_record:
  assumes c: "carried_out u m view mk over pre plan created post"
    and p: "p \<in> set plan" "pr_Action p = RowUnchanged" and t: "m (plan_key u p) = Some t"
  shows "post (xe_ID t) = pre (xe_ID t)"
proof (rule ccontr)
  assume "post (xe_ID t) \<noteq> pre (xe_ID t)"
  note eff = carried_outD(6) [OF c] and ix = carried_outD(4) [OF c]
  have there: "pre (xe_ID t) \<noteq> None" using index_of_Some [OF ix t] by auto
  from effect_frame [OF eff \<open>post (xe_ID t) \<noteq> pre (xe_ID t)\<close>] effect_fresh [OF eff] there obtain q s
    where q: "q \<in> set plan" "pr_Action q = RowUpdate" "m (plan_key u q) = Some s" "xe_ID s = xe_ID t" by fastforce
  with index_of_Some [OF ix q(3)] index_of_Some [OF ix t] have "bare s = bare t" "keyOf u s = plan_key u q" "keyOf u t = plan_key u p" by auto
  then have "plan_key u q = plan_key u p" by (metis keyOf_def bare_fields(4))
  with carried_same [OF c q(1) p(1)] p(2) q(2) show False by simp
qed

lemma row_again:
  assumes c: "carried_out u m view mk over pre plan created post"
    and ix': "index_of u (\<lambda>i. map_option view (post i)) (set (wanted_keys u (draftRows plan))) m'"
    and p: "p \<in> set plan"
  shows "\<exists>t'. m' (plan_key u p) = Some t' \<and> \<not> xe_Ambiguous t' \<and>
    entityChanges u (planned_draft p) (existingParent m' (ParentKey u (planned_draft p))) (ParentKey u (planned_draft p)) t' = []"
proof -
  let ?d = "planned_draft p" and ?k = "plan_key u p"
  let ?pk = "ParentKey u ?d" and ?home = "home u m created ?d"
  note eff = carried_outD(6) [OF c]
  have top: "?pk = [] \<longrightarrow> ?home = None" by (simp add: home_def)
  have parent: "?pk \<noteq> [] \<longrightarrow> ?home = existingParent m' ?pk \<and> existingParent m' ?pk \<noteq> None" if "written p"
    using parent_again [OF c ix' p effect_home [OF eff p that]] by auto
  from carried_row [OF c p] consider "pr_Action p = RowCreate"
    | t where "pr_Action p = RowUpdate" "m ?k = Some t" "\<not> xe_Ambiguous t"
    | t where "pr_Action p = RowUnchanged" "m ?k = Some t" "\<not> xe_Ambiguous t"
        "entityChanges u ?d (existingParent m ?pk) ?pk t = []"
    by (auto split: if_splits)
  then show ?thesis
  proof cases
    case 1
    from effect_create [OF eff p 1] obtain i where i: "map_of created ?k = Some i" by blast
    from created_found [OF c ix' i] wanted_plan [OF p] carried_same [OF c _ p] obtain t'
      where t': "m' ?k = Some t'" "\<not> xe_Ambiguous t'" "bare t' = view (mk i ?d ?home)" by (metis insert_subset)
    have "carries (bare t') ?d ?home" unfolding t'(3) by (rule carried_outD(1) [OF c])
    then have "entityChanges u ?d (existingParent m' ?pk) ?pk (bare t') = []"
      by (rule created_unchanged) (use top parent 1 in \<open>auto simp: written_def\<close>)
    with t'(1,2) show ?thesis unfolding bare_unchanged by blast
  next
    case 2
    from effect_update [OF eff p 2(1)] 2(2) obtain r where
      r: "post (xe_ID t) = Some (over (mergeEntity ?d t) (mergeParent ?d ?home t) r)" by auto
    from found_again [OF c ix' 2(2,3)] r obtain t' where
      t': "m' ?k = Some t'" "\<not> xe_Ambiguous t'" "bare t' = view (over (mergeEntity ?d t) (mergeParent ?d ?home t) r)" by auto
    have "carries (bare t') (mergeEntity ?d t) (mergeParent ?d ?home t)" unfolding t'(3) by (rule carried_outD(2) [OF c])
    then have "entityChanges u ?d (existingParent m' ?pk) ?pk (bare t') = []"
      by (rule updated_unchanged) (use top parent 2 in \<open>auto simp: written_def\<close>)
    with t'(1,2) show ?thesis unfolding bare_unchanged by blast
  next
    case 3
    from index_of_Some [OF carried_outD(4) [OF c] 3(2)] obtain r where r: "pre (xe_ID t) = Some r" "view r = bare t" by auto
    from found_again [OF c ix' 3(2,3)] unchanged_record [OF c p 3(1,2)] r obtain t' where
      t': "m' ?k = Some t'" "\<not> xe_Ambiguous t'" "bare t' = bare t" by auto
    have same: "entityChanges u ?d pid ?pk t' = [] \<longleftrightarrow> entityChanges u ?d pid ?pk t = []" for pid
      using t'(3) bare_unchanged by metis
    have "entityChanges u ?d (existingParent m' ?pk) ?pk t = []"
    proof (cases "Said ?d ''parent'' \<and> ?pk \<noteq> []")
      case True
      with changes_with_parent [OF 3(4)] obtain i where "existingParent m ?pk = Some i" by blast
      then obtain s where s: "m ?pk = Some s" "\<not> xe_Ambiguous s" "xe_ID s = i" by (auto simp: existingParent_def split: option.splits if_splits)
      from found_again [OF c ix' s(1,2)] s(3) have "existingParent m' ?pk = Some i" by (auto simp: existingParent_def)
      with 3(4) \<open>existingParent m ?pk = Some i\<close> show ?thesis by simp
    next
      case False
      then have "\<not> Said ?d ''parent'' \<or> ?pk = []" by blast
      from changes_without_parent [OF this] 3(4) show ?thesis by blast
    qed
    with t' same show ?thesis by blast
  qed
qed

lemma parents_found:
  assumes c: "carried_out u m view mk over pre plan created post"
    and ix': "index_of u (\<lambda>i. map_option view (post i)) (set (wanted_keys u (draftRows plan))) m'"
    and k: "map_of (inFile_of u (draftRows plan)) k \<noteq> None"
  shows "existingParent m' k \<noteq> None"
proof -
  from k obtain row d where row: "row \<in> set (draftRows plan)" "dw_Entity row = Some d" "NaturalKey u d = k" unfolding inFile_dom by blast
  then obtain p where "p \<in> set plan" "plan_key u p = k" by (auto simp: draftRows_def plan_key_def planned_draft_def)
  with row_again [OF c ix' this(1)] show ?thesis by (auto simp: existingParent_def)
qed

lemma parent_there:
  assumes c: "carried_out u m view mk over pre plan created post"
    and ix': "index_of u (\<lambda>i. map_option view (post i)) (set (wanted_keys u (draftRows plan))) m'"
    and p: "p \<in> set plan"
  shows "ParentKey u (planned_draft p) = [] \<or> existingParent m' (ParentKey u (planned_draft p)) \<noteq> None"
proof -
  from carried_row [OF c p] consider "ParentKey u (planned_draft p) = []"
    | "existingParent m (ParentKey u (planned_draft p)) \<noteq> None"
    | "map_of (inFile_of u (draftRows plan)) (ParentKey u (planned_draft p)) \<noteq> None" by blast
  then show ?thesis
  proof cases
    case 2
    then obtain t where t: "m (ParentKey u (planned_draft p)) = Some t" "\<not> xe_Ambiguous t"
      by (auto simp: existingParent_def split: option.splits if_splits)
    from found_again [OF c ix' t] show ?thesis by (auto simp: existingParent_def)
  qed (use parents_found [OF c ix'] in auto)
qed

section \<open>The second plan\<close>

text \<open>A file that reads as the plan's rows do.\<close>

definition same_file :: "row_plan list \<Rightarrow> draft_row list \<Rightarrow> bool" where
  "same_file plan rows \<longleftrightarrow>
     map (\<lambda>r. (dw_Number r, dw_Entity r)) rows = map (\<lambda>p. (pr_RowNumber p, Some (planned_draft p))) plan \<and>
     (\<forall>r \<in> set rows. \<not> HasError r)"

lemma claims_of_cong:
  "map (\<lambda>r. (dw_Number r, dw_Entity r)) rows = map (\<lambda>r. (dw_Number r, dw_Entity r)) rows' \<Longrightarrow>
     claims_of u rows = claims_of u rows' \<and> wanted_keys u rows = wanted_keys u rows'"
proof (induction rows arbitrary: rows')
  case (Cons r rows)
  then obtain r' rest where r': "rows' = r' # rest" "dw_Number r = dw_Number r'" "dw_Entity r = dw_Entity r'"
    "map (\<lambda>r. (dw_Number r, dw_Entity r)) rows = map (\<lambda>r. (dw_Number r, dw_Entity r)) rest" by (cases rows') auto
  with Cons.IH [OF r'(4)] show ?case by (auto simp: claims_of_def wanted_keys_def split: option.split)
qed simp

lemma same_file_claims:
  assumes "same_file plan rows"
  shows "inFile_of u rows = inFile_of u (draftRows plan)" "parentOf_of u rows = parentOf_of u (draftRows plan)"
    "wanted_keys u rows = wanted_keys u (draftRows plan)"
proof -
  have "map (\<lambda>r. (dw_Number r, dw_Entity r)) rows = map (\<lambda>r. (dw_Number r, dw_Entity r)) (draftRows plan)"
    using assms by (simp add: same_file_def draftRows_def planned_draft_def)
  from claims_of_cong [OF this] show "inFile_of u rows = inFile_of u (draftRows plan)"
    "parentOf_of u rows = parentOf_of u (draftRows plan)" "wanted_keys u rows = wanted_keys u (draftRows plan)"
    by (simp_all add: inFile_of_def parentOf_of_def)
qed

lemma same_file_row: "same_file plan rows \<Longrightarrow> row \<in> set rows \<Longrightarrow>
    \<exists>p \<in> set plan. dw_Number row = pr_RowNumber p \<and> dw_Entity row = Some (planned_draft p) \<and> \<not> HasError row"
proof -
  assume s: "same_file plan rows" and row: "row \<in> set rows"
  then have "(dw_Number row, dw_Entity row) \<in> set (map (\<lambda>p. (pr_RowNumber p, Some (planned_draft p))) plan)"
    unfolding same_file_def by (metis (no_types, lifting) imageI list.set_map)
  with s row show ?thesis by (auto simp: same_file_def)
qed

lemma no_cycles:
  assumes "\<And>ks. set (order ks) = set ks" "\<And>k. map_of inFile k \<noteq> None \<Longrightarrow> existingParent m' k \<noteq> None"
  shows "entityCycles order parentOf inFile m' = {}"
proof -
  have e: "file_edges parentOf inFile m' = []" using assms(2) by (auto simp: file_edges_def filter_empty_conv)
  have "ends [] k" for k by (rule ends_step) (simp add: go_lookup_def ends_top)
  then show ?thesis unfolding set_eq_iff entityCycles_iff [OF assms(1)] e by blast
qed

lemma plan_again:
  assumes c: "carried_out (iu_Text uc) m view mk over pre plan created post"
    and ix': "index_of (iu_Text uc) (\<lambda>i. map_option view (post i)) (set (wanted_keys (iu_Text uc) (draftRows plan))) m'"
    and read: "iu_EntitiesByKey uc s (wanted_keys (iu_Text uc) (draftRows plan)) = Inr m'"
    and again: "same_file plan rows" and order: "\<And>ks. set (iu_MapOrder uc ks) = set ks"
  shows "\<exists>b. planEntities uc s rows = Some (Inr (b, m')) \<and> (\<forall>p \<in> set (bp_Rows b). pr_Action p = RowUnchanged)"
proof -
  let ?u = "iu_Text uc"
  let ?in = "inFile_of ?u (draftRows plan)" and ?par = "parentOf_of ?u (draftRows plan)"
  let ?f = "planEntityRow uc s m' ?in ?par (entityCycles (iu_MapOrder uc) ?par ?in m')"
  have cyc: "entityCycles (iu_MapOrder uc) ?par ?in m' = {}" using no_cycles [OF order parents_found [OF c ix']] .
  have one: "\<exists>q. ?f row = Some q \<and> pr_Action q = RowUnchanged" if row: "row \<in> set rows" for row
  proof -
    from same_file_row [OF again row] obtain p where
      p: "p \<in> set plan" "dw_Number row = pr_RowNumber p" "dw_Entity row = Some (planned_draft p)" "\<not> HasError row" by blast
    from row_again [OF c ix' p(1)] obtain t where t: "m' (plan_key ?u p) = Some t" "\<not> xe_Ambiguous t"
      "entityChanges ?u (planned_draft p) (existingParent m' (ParentKey ?u (planned_draft p))) (ParentKey ?u (planned_draft p)) t = []" by blast
    have "row_ok ?u m' ?in (entityCycles (iu_MapOrder uc) ?par ?in m') row (planned_draft p)"
      using carried_row [OF c p(1)] parent_there [OF c ix' p(1)] p t cyc by (auto simp: row_ok_def plan_key_def)
    from planEntityRow_unchanged [OF p(3) this] t show ?thesis by (simp add: plan_key_def)
  qed
  define ps where "ps = map (\<lambda>row. the (?f row)) rows"
  have ps: "map ?f rows = map Some ps" using one by (fastforce simp: ps_def)
  have "\<forall>q \<in> set ps. pr_Action q = RowUnchanged" using one by (fastforce simp: ps_def)
  with planEntities_rows [of uc s rows m' ps] read ps same_file_claims [OF again, of ?u] show ?thesis by auto
qed

section \<open>From the first dry run to the second\<close>

lemma EntitiesByKey_small: "length (im_Entities s) \<le> maxResolvableRecords \<Longrightarrow> \<exists>m. EntitiesByKey u s keys = Inr m"
  by (auto simp: EntitiesByKey_def Let_def)

lemma CreateBatch_law:
  assumes "CreateBatch env s b rows = Inr (b', s')"
  shows "batch_checks b' \<and> distinct (map pr_RowNumber rows) \<and> ib_ID b' \<notin> ib_ID ` set (im_Batches s) \<and>
    ib_RowCount b' = ib_RowCount b \<and> ib_Status b' = ib_Status b \<and> ib_InvalidCount b' = ib_InvalidCount b \<and>
    s' = s\<lparr>im_Batches := im_Batches s @ [b'], im_Plans := im_Plans s @ [(ib_ID b', rows)]\<rparr>"
  using assms by (auto simp: CreateBatch_def Let_def split: if_splits)

lemma Validate_law:
  assumes "Validate (pg_imports env) s up (Inr o1) = Some (Inr ((b, plan), s'))"
  shows "\<exists>m s1 c. planEntities (pg_imports env) s (ro_Rows o1) = Some (Inr (plan, m)) \<and>
    CreateBatch env s (new_batch up plan) (bp_Rows plan) = Inr (b, s1) \<and> s' = s1\<lparr>im_Chain := c\<rparr>"
proof -
  from assms obtain m s1 where "planEntities (pg_imports env) s (ro_Rows o1) = Some (Inr (plan, m))"
    "iu_CreateBatch (pg_imports env) s (new_batch up plan) (bp_Rows plan) = Inr (b, s1)"
    "iu_Record (pg_imports env) s1 ''import.validated'' ''import_batch'' (ib_ID b) (Changes [] (auditBatchValues b)) = Inr s'"
    by (auto simp: Validate_def bind_eq_Some_conv andthen_Inr split: if_splits)
  then show ?thesis by (auto simp: pg_imports_def dest!: import_Record_law)
qed

lemma Validate_inv:
  assumes "Validate (pg_imports env) s up (Inr o1) = Some (Inr ((b, plan), s'))" "import_inv s"
  shows "import_inv s'"
proof -
  from Validate_law [OF assms(1)] obtain s1 c where v: "CreateBatch env s (new_batch up plan) (bp_Rows plan) = Inr (b, s1)" "s' = s1\<lparr>im_Chain := c\<rparr>"
    by blast
  from CreateBatch_law [OF v(1)] assms(2) show ?thesis unfolding v(2) keeps_chain by (auto simp: import_inv_def)
qed

text \<open>The commit that follows reads back the very plan of the dry run.\<close>

lemma read_back:
  assumes "Validate (pg_imports env) s up (Inr o1) = Some (Inr ((b, plan), s'))" "import_inv s" "numbered_rows (ro_Rows o1)"
    and "committable (pg_imports env') s' KindEntities (ib_ID b) = Inr stored"
  shows "stored = bp_Rows plan \<and> bp_InvalidCount plan = 0"
proof -
  from Validate_law [OF assms(1)] obtain m s1 c where v: "planEntities (pg_imports env) s (ro_Rows o1) = Some (Inr (plan, m))"
    "CreateBatch env s (new_batch up plan) (bp_Rows plan) = Inr (b, s1)" "s' = s1\<lparr>im_Chain := c\<rparr>" by blast
  note b = CreateBatch_law [OF v(2)]
  from b v(3) have s': "im_Batches s' = im_Batches s @ [b]" "im_Plans s' = im_Plans s @ [(ib_ID b, bp_Rows plan)]" by simp_all
  have "find (\<lambda>x. ib_ID x = ib_ID b) (im_Batches s') = Some b"
    using find_id [of ib_ID "im_Batches s'" b] Validate_inv [OF assms(1,2)] by (simp add: s' import_inv_def)
  then have g: "GetBatch s' (ib_ID b) = Inr (Some b)" by (simp add: GetBatch_def)
  have "map_of (im_Plans s) (ib_ID b) = None"
    using b assms(2) by (auto simp: import_inv_def map_of_eq_None_iff)
  then have "map_of (im_Plans s') (ib_ID b) = Some (bp_Rows plan)" by (simp add: s'(2) map_add_def)
  moreover have "sort_key pr_RowNumber (bp_Rows plan) = bp_Rows plan"
    by (rule sort_key_id_if_sorted) (use planned_numbers [OF v(1)] assms(3) in \<open>simp add: numbered_rows_def\<close>)
  moreover have "ib_RowCount b = int (length (bp_Rows plan))" using b by (simp add: new_batch_def)
  ultimately have "ListRows s' (ib_ID b) (ib_RowCount b) 0 = Inr (bp_Rows plan, ib_RowCount b)" by (simp add: ListRows_def Let_def)
  with committable_Inr [OF assms(4)] g have "stored = bp_Rows plan" "ib_Status b = BatchValidated"
    by (auto simp: pg_imports_def)
  moreover from b have "ib_Status b = BatchValidated \<longrightarrow> ib_InvalidCount b = 0" by (auto simp: batch_checks_def)
  ultimately have "stored = bp_Rows plan" "ib_InvalidCount b = 0" by blast+
  then show ?thesis using b by (simp add: new_batch_def)
qed

lemma valid_plan_rows:
  assumes "planEntities uc s rows = Some (Inr (plan, m))" "bp_InvalidCount plan = 0"
  shows "same_file (bp_Rows plan) rows \<and> (\<forall>p \<in> set (bp_Rows plan). pr_Action p \<noteq> RowInvalid)"
proof -
  note n = planEntities_nth [OF assms(1)]
  have valid: "\<forall>p \<in> set (bp_Rows plan). pr_Action p \<noteq> RowInvalid"
    using planned_counts [OF assms(1)] assms(2) by (auto simp: count_action_def filter_empty_conv)
  have row: "dw_Number (rows ! i) = pr_RowNumber (bp_Rows plan ! i) \<and> dw_Entity (rows ! i) = Some (planned_draft (bp_Rows plan ! i)) \<and>
      \<not> HasError (rows ! i)" if i: "i < length rows" for i
  proof -
    have "pr_Action (bp_Rows plan ! i) \<noteq> RowInvalid" using valid n i by simp
    with planEntityRow_Some n i obtain d where "pr_RowNumber (bp_Rows plan ! i) = dw_Number (rows ! i)"
      "dw_Entity (rows ! i) = Some d" "pr_Payload (bp_Rows plan ! i) = EntityPayload d" "\<not> HasError (rows ! i)"
      by (fastforce simp: row_refused_def row_ok_def)
    then show ?thesis by (simp add: planned_draft_def)
  qed
  then have "same_file (bp_Rows plan) rows"
    using n by (auto simp: same_file_def list_eq_iff_nth_eq in_set_conv_nth)
  with valid show ?thesis by blast
qed

text \<open>
  Property C13. Importing a file twice changes nothing the second time. When a file is dry-run, and the
  dry run is committed, then planning the same file again - by anybody, with any grants, at any
  later time - finds every one of its rows unchanged: created entities are matched by name, moved
  ones are where the file puts them, and a parent created by the file is now found in the tenant.
\<close>

theorem reimport_is_noop:
  assumes "import_inv s" "numbered_rows (ro_Rows o1)"
    and "Validate (pg_imports env1) s up (Inr o1) = Some (Inr ((b, plan), s1))"
    and "Commit (pg_imports env2) s1 (ib_ID b) = Some (Inr (b', s2))"
    and "pe_Text env2 = pe_Text env3" "length (im_Entities s2) \<le> maxResolvableRecords" "\<And>ks. set (pe_MapOrder env3 ks) = set ks"
  shows "\<exists>again m. planEntities (pg_imports env3) s2 (ro_Rows o1) = Some (Inr (again, m)) \<and>
    (\<forall>p \<in> set (bp_Rows again). pr_Action p = RowUnchanged)"
proof -
  note inv1 = Validate_inv [OF assms(3,1)]
  have u: "iu_Text (pg_imports e) = pe_Text e" for e by (simp add: pg_imports_def)
  from pg_import.commit_effect [OF assms(4) inv1, unfolded u] obtain stored m created where
    c: "committable (pg_imports env2) s1 KindEntities (ib_ID b) = Inr stored" "distinct (map pr_RowNumber stored)"
      "index_of (pe_Text env2) (\<lambda>i. map_option toDomain (version_row (im_Entities s1) i)) (set (wanted_keys (pe_Text env2) (draftRows stored))) m"
      "\<forall>p \<in> set stored. pr_Action p = RowInvalid \<or> agreed (pe_Text env2) m (inFile_of (pe_Text env2) (draftRows stored))
         (entityCycles (iu_MapOrder (pg_imports env2)) (parentOf_of (pe_Text env2) (draftRows stored)) (inFile_of (pe_Text env2) (draftRows stored)) m) p"
      "effect (pe_Text env2) m toDomain (\<lambda>i. draft_entity i (pe_Now env2)) (overwrite (pe_Now env2)) (version_row (im_Entities s1)) stored created
         (version_row (im_Entities s2))" "import_inv s2" by blast
  note told_back = read_back [OF assms(3,1,2) c(1)]
  from Validate_law [OF assms(3)] told_back obtain m0 where
    "planEntities (pg_imports env1) s (ro_Rows o1) = Some (Inr (plan, m0))" by blast
  from valid_plan_rows [OF this] told_back have told: "same_file stored (ro_Rows o1)" "\<forall>p \<in> set stored. pr_Action p \<noteq> RowInvalid" by simp_all
  have "carried_out (pe_Text env2) m toDomain (\<lambda>i. draft_entity i (pe_Now env2)) (overwrite (pe_Now env2)) (version_row (im_Entities s1)) stored created
      (version_row (im_Entities s2))"
    unfolding carried_out_def using c(2,3,4,5) told(2) toDomain_draft toDomain_overwrite by blast
  then have co: "carried_out (iu_Text (pg_imports env3)) m toDomain (\<lambda>i. draft_entity i (pe_Now env2)) (overwrite (pe_Now env2))
      (version_row (im_Entities s1)) stored created (version_row (im_Entities s2))" by (simp add: u assms(5))
  from EntitiesByKey_small [OF assms(6)] obtain m' where
    m': "EntitiesByKey (pe_Text env3) s2 (wanted_keys (pe_Text env3) (draftRows stored)) = Inr m'" by blast
  note ix' = EntitiesByKey_index [OF c(6) m']
  have "iu_EntitiesByKey (pg_imports env3) s2 (wanted_keys (iu_Text (pg_imports env3)) (draftRows stored)) = Inr m'"
    using m' by (simp add: pg_imports_def)
  moreover have "set (iu_MapOrder (pg_imports env3) ks) = set ks" for ks by (simp add: pg_imports_def assms(7))
  ultimately show ?thesis using plan_again [OF co _ _ told(1)] ix' u by metis
qed

end
