(* ===== verification/ImportExamples.thy ===== *)
theory ImportExamples
  imports ImportAgain
begin

text \<open>
  An import on a small tenant, evaluated: an update that moves an entity under one the same file
  creates, committed and imported again; and files that would close a cycle through entities that
  exist already, which the planner accepts.
\<close>

text \<open>The bound of the index, counted in integers for the evaluation.\<close>

lemma EntitiesByKey_code [code]:
  "EntitiesByKey u s keys =
     (let wanted = set (filter (\<lambda>k. k \<noteq> []) keys); rows = sort_key en_ID (im_Entities s)
      in if wanted = {} then Inr (\<lambda>k. None)
         else if int (length rows) > 50000
         then Inl (Internal (Errorf
           ''imports: this tenant holds more than %d entities, which is more than an import can resolve names against'' [I 50000]))
         else Inr (index_rows u wanted (\<lambda>i. map_option en_Name (version_row rows i)) (\<lambda>k. None) rows))"
  by (auto simp: EntitiesByKey_def Let_def maxResolvableRecords_def)

section \<open>A small tenant\<close>

definition example_import :: import_env where
  "example_import = \<lparr>pe_Text = ascii_ops, pe_MapOrder = rev, pe_Resolver = Some group_resolver, pe_Requester = None,
     pe_Grants = [\<lparr>gr_Role = ''manager'', gr_ScopeEntityID = None\<rparr>],
     pe_NewID = (\<lambda>rows. ''n'' @ itoa (int (length rows))), pe_NewBatchID = (\<lambda>bs. ''b'' @ itoa (int (length bs))),
     pe_UserID = Some ''u1'', pe_Now = 100, pe_Sha = (\<lambda>s. ''h''), pe_Audit = example_context\<rparr>"

definition stored_entity :: "string \<Rightarrow> string option \<Rightarrow> versioned_entity" where
  "stored_entity eid parent = \<lparr>en_ID = eid, en_ParentEntityID = parent, en_Name = eid, en_LegalName = None,
     en_Country = ''Germany'', en_TaxResidency = None, en_FiscalCalendarPattern = ''standard'',
     en_FinancialYearEnd = None, en_FiscalWeekEndDay = ''saturday'', en_FiscalYearEndRule = ''nearest'',
     en_CustomPeriods = [], en_Status = ''active'', en_UpdatedAt = 7\<rparr>"

definition example_tables :: import_store where
  "example_tables = \<lparr>im_Entities = [stored_entity ''hq'' None, stored_entity ''de'' (Some ''hq'')], im_Batches = [],
     im_Plans = [], im_Chain = []\<rparr>"

definition example_upload :: upload where
  "example_upload = \<lparr>up_FileName = ''group.csv'', up_ByteSize = 10, up_Checksum = ''c''\<rparr>"

definition read_as :: "draft_row list \<Rightarrow> read_outcome" where
  "read_as rows = \<lparr>ro_FileIssues = [], ro_Rows = rows\<rparr>"

text \<open>A dry run and its commit, as one answer.\<close>

definition dry_run_and_commit ::
  "draft_row list \<Rightarrow> ((import_batch \<times> batch_plan \<times> import_store) \<times> (import_batch \<times> import_store) app) option" where
  "dry_run_and_commit rows =
     (case Validate (pg_imports example_import) example_tables example_upload (Inr (read_as rows)) of
        Some (Inr ((b, plan), s1)) \<Rightarrow> map_option (Pair (b, plan, s1)) (Commit (pg_imports example_import) s1 (ib_ID b))
      | _ \<Rightarrow> None)"

lemma dry_run_and_commit_Some:
  "dry_run_and_commit rows = Some ((b, plan, s1), r) \<Longrightarrow>
     Validate (pg_imports example_import) example_tables example_upload (Inr (read_as rows)) = Some (Inr ((b, plan), s1)) \<and>
     Commit (pg_imports example_import) s1 (ib_ID b) = Some r"
  by (auto simp: dry_run_and_commit_def split: option.splits sum.splits)

lemma example_tables_inv: "import_inv example_tables"
  by (simp add: import_inv_def example_tables_def stored_entity_def)

text \<open>The file moves an entity under a new one, which it puts under the root.\<close>

definition moving_file :: "draft_row list" where
  "moving_file = [file_row 2 (child_of ''de'' ''new''), file_row 3 (child_of ''new'' ''hq'')]"

lemma moving_file_numbered: "numbered_rows moving_file"
  by (simp add: moving_file_def numbered_rows_def file_row_def)


text \<open>What there is to say of a run: its plan, and its tables or the refusal.\<close>

definition run_summary where
  "run_summary rows =
     map_option (\<lambda>((b, plan, s1), r). (ib_ID b, ib_Status b, map pr_Action (bp_Rows plan),
       map_sum id (\<lambda>(b', s2). map (\<lambda>e. (en_ID e, en_ParentEntityID e)) (im_Entities s2)) r)) (dry_run_and_commit rows)"

lemma run_summary_Some:
  assumes "run_summary rows = Some (bid, st, actions, r)"
  shows "\<exists>b plan s1. Validate (pg_imports example_import) example_tables example_upload (Inr (read_as rows)) = Some (Inr ((b, plan), s1)) \<and>
    ib_ID b = bid \<and> ib_Status b = st \<and> map pr_Action (bp_Rows plan) = actions \<and>
    (case r of Inl e \<Rightarrow> Commit (pg_imports example_import) s1 bid = Some (Inl e)
     | Inr es \<Rightarrow> \<exists>b' s2. Commit (pg_imports example_import) s1 bid = Some (Inr (b', s2)) \<and>
         map (\<lambda>e. (en_ID e, en_ParentEntityID e)) (im_Entities s2) = es)"
proof -
  from assms obtain b plan s1 x where d: "dry_run_and_commit rows = Some ((b, plan, s1), x)" "ib_ID b = bid" "ib_Status b = st"
    "map pr_Action (bp_Rows plan) = actions" "r = map_sum id (\<lambda>(b', s2). map (\<lambda>e. (en_ID e, en_ParentEntityID e)) (im_Entities s2)) x"
    by (auto simp: run_summary_def)
  from dry_run_and_commit_Some [OF d(1)] d(2-) show ?thesis by (cases x) auto
qed

lemma moving_file_run:
  "run_summary moving_file = Some (''b0'', BatchValidated, [RowUpdate, RowCreate],
     Inr [(''hq'', None), (''de'', Some ''n2''), (''n2'', Some ''hq'')])"
  by code_simp

theorem commit_writes_witness:
  "\<exists>s1 s2 b'. Commit (pg_imports example_import) s1 ''b0'' = Some (Inr (b', s2)) \<and> ib_Status b' = BatchCommitted"
proof -
  from run_summary_Some [OF moving_file_run] obtain b plan s1 b' s2 where
    v: "Validate (pg_imports example_import) example_tables example_upload (Inr (read_as moving_file)) = Some (Inr ((b, plan), s1))" and
    c: "Commit (pg_imports example_import) s1 ''b0'' = Some (Inr (b', s2))" by auto
  from commit_writes_the_plan [OF Validate_inv [OF v example_tables_inv] c] c show ?thesis by blast
qed

theorem dry_run_storable_witness:
  "\<exists>plan b s'. CreateBatch example_import example_tables (new_batch example_upload plan) (bp_Rows plan) = Inr (b, s') \<and> ib_RowCount b = 2"
proof -
  from run_summary_Some [OF moving_file_run] obtain b plan s1 where
    "Validate (pg_imports example_import) example_tables example_upload (Inr (read_as moving_file)) = Some (Inr ((b, plan), s1))" by auto
  from Validate_law [OF this] obtain m where "planEntities (pg_imports example_import) example_tables moving_file = Some (Inr (plan, m))"
    by (auto simp: read_as_def)
  from dry_run_is_storable [OF this moving_file_numbered, of example_upload] show ?thesis
    by (auto simp: example_upload_def example_import_def example_tables_def moving_file_def)
qed

theorem reimport_witness:
  "\<exists>s2 again m. planEntities (pg_imports example_import) s2 moving_file = Some (Inr (again, m)) \<and>
    length (im_Entities s2) = 3 \<and> (\<forall>p \<in> set (bp_Rows again). pr_Action p = RowUnchanged)"
proof -
  from run_summary_Some [OF moving_file_run] obtain b plan s1 b' s2 where
    v: "Validate (pg_imports example_import) example_tables example_upload (Inr (read_as moving_file)) = Some (Inr ((b, plan), s1))" and
    c: "Commit (pg_imports example_import) s1 (ib_ID b) = Some (Inr (b', s2))" and
    e: "map (\<lambda>e. (en_ID e, en_ParentEntityID e)) (im_Entities s2) = [(''hq'', None), (''de'', Some ''n2''), (''n2'', Some ''hq'')]" by auto
  from arg_cong [OF e, of length] have n: "length (im_Entities s2) = 3" by simp
  have "\<exists>again m. planEntities (pg_imports example_import) s2 (ro_Rows (read_as moving_file)) = Some (Inr (again, m)) \<and>
    (\<forall>p \<in> set (bp_Rows again). pr_Action p = RowUnchanged)"
    by (rule reimport_is_noop [OF example_tables_inv _ v c])
      (use n in \<open>simp_all add: read_as_def moving_file_numbered maxResolvableRecords_def example_import_def\<close>)
  with n show ?thesis by (auto simp: read_as_def)
qed

section \<open>Cycles through existing entities\<close>

lemma loop_has_no_ancestors: "(x, x) \<in> (parents rows)\<^sup>+ \<Longrightarrow> AncestorsAndSelf rows x = None"
  using ancestor_walk_length by (fastforce simp: AncestorsAndSelf_def bind_eq_None_conv)

definition swapping_file :: "draft_row list" where
  "swapping_file = [file_row 2 (child_of ''hq'' ''de'')]"

definition refused_late :: "draft_row list" where
  "refused_late = [file_row 2 (child_of ''a'' ''b''), file_row 3 (child_of ''b'' ''hq''), file_row 4 (child_of ''hq'' ''b'')]"

lemma loop_runs:
  "run_summary swapping_file = Some (''b0'', BatchValidated, [RowUpdate], Inr [(''hq'', Some ''de''), (''de'', Some ''hq'')])"
  "run_summary refused_late = Some (''b0'', BatchValidated, [RowCreate, RowCreate, RowUpdate],
     Inl (ConflictError (Errorf ''row %d names a parent that could not be resolved while importing; nothing was imported'' [I 4])))"
  by code_simp+

lemma plain_parent:
  "parent_of (plain_rows es) x = (case map_of (map (\<lambda>e. (en_ID e, en_ParentEntityID e)) es) x of None \<Rightarrow> None | Some p \<Rightarrow> p)"
  by (induction es) (auto simp: parent_of_def entity_row_def plain_rows_def entity.truncate_def)

text \<open>
  Property C37. The planner looks for cycles only among the parents the file itself creates, and trusts the
  stored tree to have none. An update that puts an entity below its own child is therefore planned
  and committed like any other, and the ancestor query of that entity never returns again. When the
  cycle runs through an entity the same file creates, the same file is accepted by the dry run and
  then refused by the commit, with a parent it could not resolve.
\<close>

theorem import_closes_cycle:
  "(\<exists>b plan s1 b' s2. Validate (pg_imports example_import) example_tables example_upload (Inr (read_as swapping_file)) = Some (Inr ((b, plan), s1)) \<and>
      ib_Status b = BatchValidated \<and> Commit (pg_imports example_import) s1 (ib_ID b) = Some (Inr (b', s2)) \<and>
      AncestorsAndSelf (plain_rows (im_Entities s2)) ''hq'' = None) \<and>
   (\<exists>b plan s1. Validate (pg_imports example_import) example_tables example_upload (Inr (read_as refused_late)) = Some (Inr ((b, plan), s1)) \<and>
      ib_Status b = BatchValidated \<and>
      Commit (pg_imports example_import) s1 (ib_ID b) = Some (Inl (ConflictError (Errorf
        ''row %d names a parent that could not be resolved while importing; nothing was imported'' [I 4]))))"
proof (rule conjI)
  from run_summary_Some [OF loop_runs(1)] obtain b plan s1 b' s2 where
    v: "Validate (pg_imports example_import) example_tables example_upload (Inr (read_as swapping_file)) = Some (Inr ((b, plan), s1))"
      "ib_Status b = BatchValidated" "Commit (pg_imports example_import) s1 (ib_ID b) = Some (Inr (b', s2))" and
    e: "map (\<lambda>e. (en_ID e, en_ParentEntityID e)) (im_Entities s2) = [(''hq'', Some ''de''), (''de'', Some ''hq'')]" by auto
  have "(''hq'', ''de'') \<in> parents (plain_rows (im_Entities s2))" "(''de'', ''hq'') \<in> parents (plain_rows (im_Entities s2))"
    by (simp_all add: parents_def plain_parent e)
  then have "(''hq'', ''hq'') \<in> (parents (plain_rows (im_Entities s2)))\<^sup>+" by (rule trancl_into_trancl [OF r_into_trancl])
  from loop_has_no_ancestors [OF this] v show "\<exists>b plan s1 b' s2.
    Validate (pg_imports example_import) example_tables example_upload (Inr (read_as swapping_file)) = Some (Inr ((b, plan), s1)) \<and>
      ib_Status b = BatchValidated \<and> Commit (pg_imports example_import) s1 (ib_ID b) = Some (Inr (b', s2)) \<and>
      AncestorsAndSelf (plain_rows (im_Entities s2)) ''hq'' = None" by blast
next
  from run_summary_Some [OF loop_runs(2)] show "\<exists>b plan s1.
    Validate (pg_imports example_import) example_tables example_upload (Inr (read_as refused_late)) = Some (Inr ((b, plan), s1)) \<and>
      ib_Status b = BatchValidated \<and>
      Commit (pg_imports example_import) s1 (ib_ID b) = Some (Inl (ConflictError (Errorf
        ''row %d names a parent that could not be resolved while importing; nothing was imported'' [I 4])))" by auto
qed

end
