(* ===== verification/Ratelimit.thy ===== *)
theory Ratelimit
  imports Complex_Main AppErrors AuditTrail GoText "HOL-Library.AList"
begin

text \<open>
  The two shed valves of \<^verbatim>\<open>src/delivery/httpkit/middlewares/ratelimit\<close>: the token buckets
  of memory.go under the rules of ratelimit.go, the verification gate of gate.go as a state
  machine over concurrent callers, and the middlewares of middleware.go that consult them.

  A float64 is a rational; every arithmetic operation goes through a rounding function \<open>fl\<close>, an
  argument of the bucket operations. What the theorems need of it is IEEE rounding to nearest:
  a bound on the relative error. Instants and durations are integers in nanoseconds.
\<close>

section \<open>Rules\<close>

record rule =
  ru_Limit :: int
  ru_Burst :: int
  ru_Window :: int

definition rule_Active :: "rule \<Rightarrow> bool" where
  "rule_Active r \<longleftrightarrow> ru_Limit r > 0 \<and> ru_Window r > 0"

type_synonym rounding = "rat \<Rightarrow> rat"

definition rule_capacity :: "rounding \<Rightarrow> rule \<Rightarrow> rat" where
  "rule_capacity fl r = (if ru_Burst r > 0 then fl (of_int (ru_Burst r)) else fl (of_int (ru_Limit r)))"

text \<open>\<^verbatim>\<open>Duration.Seconds\<close>: the whole seconds and the rest are converted apart.\<close>

definition to_seconds :: "rounding \<Rightarrow> int \<Rightarrow> rat" where
  "to_seconds fl d = fl (fl (of_int (d div 1000000000)) + fl (fl (of_int (d mod 1000000000)) / 1000000000))"

definition refillPerSecond :: "rounding \<Rightarrow> rule \<Rightarrow> rat" where
  "refillPerSecond fl r = fl (fl (of_int (ru_Limit r)) / to_seconds fl (ru_Window r))"

record decision =
  dc_Allowed :: bool
  dc_Remaining :: int
  dc_RetryAfter :: int

section \<open>Token buckets\<close>

record bucket =
  bu_tokens :: rat
  bu_last :: int
  bu_full :: int

record memory_store =
  me_buckets :: "(string \<times> bucket) list"
  me_maxKeys :: int
  me_sweepEvery :: int
  me_lastSweep :: int

text \<open>\<^verbatim>\<open>seconds\<close>: a duration from a number of seconds, truncated.\<close>

definition from_seconds :: "rounding \<Rightarrow> rat \<Rightarrow> int" where
  "from_seconds fl f = (if f \<le> 0 then 0 else \<lfloor>fl (f * 1000000000)\<rfloor>)"

definition maybeSweep :: "int \<Rightarrow> memory_store \<Rightarrow> memory_store" where
  "maybeSweep now s =
     (if int (length (me_buckets s)) < me_maxKeys s \<and> now - me_lastSweep s < me_sweepEvery s then s
      else s\<lparr>me_lastSweep := now, me_buckets := filter (\<lambda>(k, b). now < bu_full b) (me_buckets s)\<rparr>)"

text \<open>The bucket a request is charged to, refilled to now.\<close>

definition refill :: "rounding \<Rightarrow> rule \<Rightarrow> int \<Rightarrow> bucket option \<Rightarrow> bucket" where
  "refill fl r now b =
     (case b of
        None \<Rightarrow> \<lparr>bu_tokens = rule_capacity fl r, bu_last = now, bu_full = 0\<rparr>
      | Some x \<Rightarrow>
          if now - bu_last x > 0
          then x\<lparr>bu_tokens := min (rule_capacity fl r)
                   (fl (bu_tokens x + fl (to_seconds fl (now - bu_last x) * refillPerSecond fl r))),
                 bu_last := now\<rparr>
          else x)"

definition charge_bucket :: "rounding \<Rightarrow> rule \<Rightarrow> int \<Rightarrow> bucket \<Rightarrow> decision \<times> bucket" where
  "charge_bucket fl r now b =
     (let (d, b1) =
            (if bu_tokens b \<ge> 1
             then (let b' = b\<lparr>bu_tokens := fl (bu_tokens b - 1)\<rparr>
                   in (\<lparr>dc_Allowed = True, dc_Remaining = \<lfloor>bu_tokens b'\<rfloor>, dc_RetryAfter = 0\<rparr>, b'))
             else (\<lparr>dc_Allowed = False, dc_Remaining = 0,
                     dc_RetryAfter = from_seconds fl (fl (fl (1 - bu_tokens b) / refillPerSecond fl r))\<rparr>, b))
      in (d, b1\<lparr>bu_full := now + from_seconds fl (fl (fl (rule_capacity fl r - bu_tokens b1) / refillPerSecond fl r))\<rparr>))"

definition Take :: "rounding \<Rightarrow> int \<Rightarrow> string \<Rightarrow> rule \<Rightarrow> memory_store \<Rightarrow> decision \<times> memory_store" where
  "Take fl now key r s0 =
     (if \<not> rule_Active r then (\<lparr>dc_Allowed = True, dc_Remaining = 0, dc_RetryAfter = 0\<rparr>, s0)
      else let s = maybeSweep now s0 in
        case charge_bucket fl r now (refill fl r now (map_of (me_buckets s) key)) of
          (d, b) \<Rightarrow> (d, s\<lparr>me_buckets := AList.update key b (me_buckets s)\<rparr>))"

section \<open>The gate\<close>

text \<open>
  A caller of \<^verbatim>\<open>Acquire\<close> is at one point of its code: before the fast path, past it without a
  slot, counted over the queue's bound, waiting in the select, or on its way out with a pending
  decrement of the counter. Each step is one atomic operation on the channel or the counter; the
  timer and the caller's context may fire whenever a caller waits.
\<close>

datatype gate_phase = Arrived | Missed | Overflowed | Waiting | LeavingServed | LeavingRefused | Holding | Refused | Released

record gate =
  ga_phases :: "gate_phase list"
  ga_slots :: int
  ga_waiting :: int

datatype gate_action = Arrive | TrySlot nat | AddWaiting nat | UndoWaiting nat | TakeSlot nat | GiveUp nat | Leave nat | Release nat

definition at_phase :: "gate \<Rightarrow> nat \<Rightarrow> gate_phase \<Rightarrow> bool" where
  "at_phase g i p \<longleftrightarrow> i < length (ga_phases g) \<and> ga_phases g ! i = p"

definition move :: "nat \<Rightarrow> gate_phase \<Rightarrow> int \<Rightarrow> int \<Rightarrow> gate \<Rightarrow> gate" where
  "move i p dslots dwaiting g =
     g\<lparr>ga_phases := (ga_phases g)[i := p], ga_slots := ga_slots g + dslots, ga_waiting := ga_waiting g + dwaiting\<rparr>"

text \<open>The arguments with their defaults: the capacity of the channel and the bound of the queue.\<close>

definition NewGate :: "int \<Rightarrow> int \<Rightarrow> int \<times> int" where
  "NewGate maxConcurrent maxQueued =
     (if maxConcurrent \<le> 0 then 4 else maxConcurrent, if maxQueued < 0 then 16 else maxQueued)"

text \<open>One step under a gate of the given bounds; None when the action is not possible there.\<close>

fun gate_act :: "int \<times> int \<Rightarrow> gate_action \<Rightarrow> gate \<Rightarrow> gate option" where
  "gate_act cfg Arrive g = Some (g\<lparr>ga_phases := ga_phases g @ [Arrived]\<rparr>)"
| "gate_act cfg (TrySlot i) g =
     (if \<not> at_phase g i Arrived then None
      else if ga_slots g < fst cfg then Some (move i Holding 1 0 g) else Some (move i Missed 0 0 g))"
| "gate_act cfg (AddWaiting i) g =
     (if \<not> at_phase g i Missed then None
      else if ga_waiting g + 1 > snd cfg then Some (move i Overflowed 0 1 g) else Some (move i Waiting 0 1 g))"
| "gate_act cfg (UndoWaiting i) g = (if at_phase g i Overflowed then Some (move i Refused 0 (- 1) g) else None)"
| "gate_act cfg (TakeSlot i) g =
     (if at_phase g i Waiting \<and> ga_slots g < fst cfg then Some (move i LeavingServed 1 0 g) else None)"
| "gate_act cfg (GiveUp i) g = (if at_phase g i Waiting then Some (move i LeavingRefused 0 0 g) else None)"
| "gate_act cfg (Leave i) g =
     (if at_phase g i LeavingServed then Some (move i Holding 0 (- 1) g)
      else if at_phase g i LeavingRefused then Some (move i Refused 0 (- 1) g) else None)"
| "gate_act cfg (Release i) g =
     (if at_phase g i Holding then Some (move i Released (if ga_slots g > 0 then - 1 else 0) 0 g) else None)"

definition idle_gate :: gate where
  "idle_gate = \<lparr>ga_phases = [], ga_slots = 0, ga_waiting = 0\<rparr>"

inductive gate_step :: "int \<times> int \<Rightarrow> gate \<Rightarrow> gate \<Rightarrow> bool" for cfg where
  act: "gate_act cfg a g = Some g' \<Longrightarrow> gate_step cfg g g'"

text \<open>The probes InFlight and Waiting.\<close>

definition InFlight :: "gate \<Rightarrow> int" where "InFlight g = ga_slots g"
definition gate_Waiting :: "gate \<Rightarrow> int" where "gate_Waiting g = ga_waiting g"

section \<open>The middlewares\<close>

datatype outcome = Served | ShedAfter int

definition retryAfterSeconds :: "rounding \<Rightarrow> int \<Rightarrow> int" where
  "retryAfterSeconds fl d = (let secs = \<lceil>to_seconds fl d\<rceil> in if secs < 1 then 1 else secs)"

record limiter =
  li_Anonymous :: rule
  li_Authenticated :: rule
  li_Verify :: "string list"
  li_Exempt :: "string list"
  li_HasGate :: bool

definition GatesPath :: "limiter option \<Rightarrow> string \<Rightarrow> bool" where
  "GatesPath l path = (case l of None \<Rightarrow> False | Some x \<Rightarrow> li_HasGate x \<and> path \<noteq> [] \<and> path \<in> set (li_Verify x))"

definition ExemptsPath :: "limiter option \<Rightarrow> string \<Rightarrow> bool" where
  "ExemptsPath l path = (case l of None \<Rightarrow> False | Some x \<Rightarrow> path \<noteq> [] \<and> path \<in> set (li_Exempt x))"

text \<open>The store's answer is an argument: an error lets the request through.\<close>

definition charge_request :: "rounding \<Rightarrow> (string \<Rightarrow> rule \<Rightarrow> decision fallible) \<Rightarrow> string \<Rightarrow> rule \<Rightarrow> outcome" where
  "charge_request fl store_Take key r =
     (case store_Take key r of
        Inl e \<Rightarrow> Served
      | Inr d \<Rightarrow> if \<not> dc_Allowed d then ShedAfter (retryAfterSeconds fl (dc_RetryAfter d)) else Served)"

record client =
  cl_Addr :: string
  cl_Identifies :: bool

definition ByAddress :: "rounding \<Rightarrow> limiter option \<Rightarrow> (string \<Rightarrow> rule \<Rightarrow> decision fallible) \<Rightarrow> string \<Rightarrow> client \<Rightarrow> outcome" where
  "ByAddress fl l store_Take path c =
     (case l of None \<Rightarrow> Served
      | Some x \<Rightarrow>
          if ExemptsPath l path \<or> \<not> rule_Active (li_Anonymous x) then Served
          else if \<not> cl_Identifies c then Served
          else charge_request fl store_Take (''addr:'' @ cl_Addr c) (li_Anonymous x))"

definition principalKey :: "requester option \<Rightarrow> client \<Rightarrow> string" where
  "principalKey req c =
     (case req of
        None \<Rightarrow> ''addr:'' @ cl_Addr c
      | Some r \<Rightarrow> if rq_ID r \<noteq> [] then ''principal:'' @ rq_ID r else ''addr:'' @ cl_Addr c)"

definition ByPrincipal ::
  "rounding \<Rightarrow> limiter option \<Rightarrow> (string \<Rightarrow> rule \<Rightarrow> decision fallible) \<Rightarrow> string \<Rightarrow> requester option \<Rightarrow> client \<Rightarrow> outcome" where
  "ByPrincipal fl l store_Take path req c =
     (case l of None \<Rightarrow> Served
      | Some x \<Rightarrow>
          if ExemptsPath l path \<or> \<not> rule_Active (li_Authenticated x) then Served
          else charge_request fl store_Take (principalKey req c) (li_Authenticated x))"

section \<open>The gate's bounds\<close>

definition phase_count :: "gate_phase set \<Rightarrow> gate \<Rightarrow> int" where
  "phase_count A g = int (length (filter (\<lambda>p. p \<in> A) (ga_phases g)))"

lemma count_update:
  "i < length xs \<Longrightarrow> int (length (filter P (xs[i := y]))) =
     int (length (filter P xs)) - (if P (xs ! i) then 1 else 0) + (if P y then 1 else 0)"
proof (induction xs arbitrary: i)
  case (Cons x xs)
  show ?case
  proof (cases i)
    case (Suc j)
    with Cons.prems Cons.IH [of j] show ?thesis by (auto split: if_splits)
  qed (use Cons.prems in auto)
qed simp

lemma phase_count_move:
  "at_phase g i q \<Longrightarrow> phase_count A (move i p a b g) =
     phase_count A g - (if q \<in> A then 1 else 0) + (if p \<in> A then 1 else 0)"
  using count_update [of i "ga_phases g" "\<lambda>p. p \<in> A" p] by (simp add: phase_count_def move_def at_phase_def)

lemma phase_count_arrive:
  "phase_count A (g\<lparr>ga_phases := ga_phases g @ [p]\<rparr>) = phase_count A g + (if p \<in> A then 1 else 0)"
  by (simp add: phase_count_def)

lemma phase_count_nonneg: "0 \<le> phase_count A g"
  by (simp add: phase_count_def)

lemma phase_count_mem: "at_phase g i p \<Longrightarrow> p \<in> A \<Longrightarrow> 0 < phase_count A g"
  by (auto simp: phase_count_def at_phase_def filter_empty_conv intro!: bexI [OF _ nth_mem])

lemma phase_count_split: "A \<inter> B = {} \<Longrightarrow> phase_count (A \<union> B) g = phase_count A g + phase_count B g"
proof -
  assume "A \<inter> B = {}"
  then have "length (filter (\<lambda>p. p \<in> A \<union> B) xs) = length (filter (\<lambda>p. p \<in> A) xs) + length (filter (\<lambda>p. p \<in> B) xs)" for xs
    by (induction xs) auto
  then show ?thesis by (simp add: phase_count_def)
qed

lemma move_sel [simp]:
  "ga_slots (move i p a b g) = ga_slots g + a" "ga_waiting (move i p a b g) = ga_waiting g + b"
  by (simp_all add: move_def)

text \<open>Slots are held by holders and served leavers; the counter counts everyone inside its bracket.\<close>

definition holders :: "gate_phase set" where "holders = {Holding, LeavingServed}"
definition queued :: "gate_phase set" where "queued = {Waiting, LeavingServed, LeavingRefused}"

definition gate_inv :: "int \<times> int \<Rightarrow> gate \<Rightarrow> bool" where
  "gate_inv cfg g \<longleftrightarrow> ga_slots g = phase_count holders g \<and> ga_slots g \<le> fst cfg \<and>
     ga_waiting g = phase_count (insert Overflowed queued) g \<and> phase_count queued g \<le> snd cfg"

lemma gate_act_inv:
  assumes "gate_act cfg a g = Some g'" "gate_inv cfg g"
  shows "gate_inv cfg g'"
proof -
  have s: "insert Overflowed queued = {Overflowed} \<union> queued" "{Overflowed} \<inter> queued = {}" by (auto simp: queued_def)
  have o: "phase_count (insert Overflowed queued) g = phase_count {Overflowed} g + phase_count queued g"
    unfolding s(1) by (rule phase_count_split [OF s(2)])
  note nn = phase_count_nonneg [of "{Overflowed}" g] phase_count_nonneg [of holders g]
  show ?thesis
    using assms o nn
    by (cases a)
      (auto simp: gate_inv_def phase_count_arrive phase_count_move holders_def queued_def split: if_splits
        dest: phase_count_mem [of g _ Holding "{Holding, LeavingServed}"])
qed

lemma reachable_gate_inv:
  assumes "(gate_step cfg)\<^sup>*\<^sup>* idle_gate g" "0 \<le> fst cfg" "0 \<le> snd cfg"
  shows "gate_inv cfg g"
  using assms(1)
proof (induction rule: rtranclp_induct)
  case base
  show ?case using assms(2,3) by (simp add: gate_inv_def idle_gate_def phase_count_def)
next
  case (step y z)
  from step.hyps(2) obtain a where "gate_act cfg a y = Some z" by cases
  then show ?case using gate_act_inv step.IH by blast
qed

text \<open>
  Property C25. However the callers interleave, at most the configured number of verifications runs
  at a time and at most the configured number of callers waits: the slots taken are the callers
  between a successful Acquire and their Release, the counter is back at zero when nobody queues,
  and a caller finding the queue full is refused without ever waiting.
\<close>

theorem gate_bounds_concurrency:
  assumes "(gate_step (NewGate maxConcurrent maxQueued))\<^sup>*\<^sup>* idle_gate g"
  shows "InFlight g = phase_count {Holding, LeavingServed} g \<and> InFlight g \<le> fst (NewGate maxConcurrent maxQueued) \<and>
    phase_count {Waiting} g \<le> snd (NewGate maxConcurrent maxQueued) \<and>
    (phase_count {Overflowed, Waiting, LeavingServed, LeavingRefused} g = 0 \<longrightarrow> gate_Waiting g = 0) \<and>
    (at_phase g i Missed \<longrightarrow> snd (NewGate maxConcurrent maxQueued) \<le> gate_Waiting g \<longrightarrow>
       gate_act (NewGate maxConcurrent maxQueued) (AddWaiting i) g = Some (move i Overflowed 0 1 g))"
proof -
  let ?cfg = "NewGate maxConcurrent maxQueued"
  have "gate_inv ?cfg g" by (rule reachable_gate_inv [OF assms]) (simp_all add: NewGate_def)
  then have inv: "ga_slots g = phase_count {Holding, LeavingServed} g" "ga_slots g \<le> fst ?cfg"
    "ga_waiting g = phase_count {Overflowed, Waiting, LeavingServed, LeavingRefused} g"
    "phase_count {Waiting, LeavingServed, LeavingRefused} g \<le> snd ?cfg"
    by (simp_all add: gate_inv_def holders_def queued_def)
  have e: "{Waiting, LeavingServed, LeavingRefused} = {Waiting} \<union> {LeavingServed, LeavingRefused}" by auto
  have "phase_count {Waiting, LeavingServed, LeavingRefused} g = phase_count {Waiting} g + phase_count {LeavingServed, LeavingRefused} g"
    unfolding e by (rule phase_count_split) simp
  with inv(4) phase_count_nonneg [of "{LeavingServed, LeavingRefused}" g] have "phase_count {Waiting} g \<le> snd ?cfg" by simp
  with inv show ?thesis by (simp add: InFlight_def gate_Waiting_def)
qed

section \<open>The gate's progress\<close>

text \<open>How many own steps a caller has left before it is served or refused.\<close>

fun phase_rank :: "gate_phase \<Rightarrow> nat" where
  "phase_rank Arrived = 4"
| "phase_rank Missed = 3"
| "phase_rank Waiting = 2"
| "phase_rank Overflowed = 1"
| "phase_rank LeavingServed = 1"
| "phase_rank LeavingRefused = 1"
| "phase_rank _ = 0"

definition own_action :: "nat \<Rightarrow> gate \<Rightarrow> gate_action" where
  "own_action i g =
     (case ga_phases g ! i of
        Arrived \<Rightarrow> TrySlot i | Missed \<Rightarrow> AddWaiting i | Overflowed \<Rightarrow> UndoWaiting i
      | Waiting \<Rightarrow> GiveUp i | _ \<Rightarrow> Leave i)"

text \<open>
  Property C34. Acquire always comes back: a caller that is neither served nor refused has a step of
  its own in every state, whatever the others do, and within four such steps it is one or the
  other; no step of another caller sets it back.
\<close>

theorem gate_always_answers:
  assumes "i < length (ga_phases g)"
  shows "(0 < phase_rank (ga_phases g ! i) \<longrightarrow>
      (\<exists>g'. gate_act cfg (own_action i g) g = Some g' \<and> phase_rank (ga_phases g' ! i) < phase_rank (ga_phases g ! i))) \<and>
    (gate_act cfg a g = Some g2 \<longrightarrow> phase_rank (ga_phases g2 ! i) \<le> phase_rank (ga_phases g ! i)) \<and>
    phase_rank (ga_phases g ! i) \<le> 4"
proof (intro conjI impI)
  assume "0 < phase_rank (ga_phases g ! i)"
  then show "\<exists>g'. gate_act cfg (own_action i g) g = Some g' \<and> phase_rank (ga_phases g' ! i) < phase_rank (ga_phases g ! i)"
    using assms by (cases "ga_phases g ! i") (simp_all add: own_action_def at_phase_def move_def)
next
  assume "gate_act cfg a g = Some g2"
  then show "phase_rank (ga_phases g2 ! i) \<le> phase_rank (ga_phases g ! i)"
    using assms by (cases a) (auto simp: at_phase_def move_def nth_append nth_list_update split: if_splits)
next
  show "phase_rank (ga_phases g ! i) \<le> 4" by (cases "ga_phases g ! i") simp_all
qed

theorem gate_bounds_concurrency_witness:
  "\<exists>g. (gate_step (NewGate 1 1))\<^sup>*\<^sup>* idle_gate g \<and> at_phase g 1 Waiting \<and> InFlight g \<le> 1"
proof -
  let ?cfg = "NewGate 1 1"
  define g1 where "g1 = the (gate_act ?cfg Arrive idle_gate)"
  define g2 where "g2 = the (gate_act ?cfg (TrySlot 0) g1)"
  define g3 where "g3 = the (gate_act ?cfg Arrive g2)"
  define g4 where "g4 = the (gate_act ?cfg (TrySlot 1) g3)"
  define g5 where "g5 = the (gate_act ?cfg (AddWaiting 1) g4)"
  note defs = g1_def g2_def g3_def g4_def g5_def idle_gate_def NewGate_def at_phase_def move_def
  have s: "gate_step ?cfg idle_gate g1" "gate_step ?cfg g1 g2" "gate_step ?cfg g2 g3" "gate_step ?cfg g3 g4" "gate_step ?cfg g4 g5"
    by (rule gate_step.act [where a = Arrive] gate_step.act [where a = "TrySlot 0"] gate_step.act [where a = "TrySlot 1"]
        gate_step.act [where a = "AddWaiting 1"]; simp add: defs)+
  then have r: "(gate_step ?cfg)\<^sup>*\<^sup>* idle_gate g5" by (meson rtranclp.rtrancl_refl rtranclp.rtrancl_into_rtrancl)
  have "at_phase g5 1 Waiting" by (simp add: defs)
  with r gate_bounds_concurrency [OF r] show ?thesis by (auto simp: NewGate_def)
qed

theorem gate_always_answers_witness:
  "\<exists>g'. gate_act (1, 0) (own_action 0 \<lparr>ga_phases = [Missed], ga_slots = 1, ga_waiting = 0\<rparr>) \<lparr>ga_phases = [Missed], ga_slots = 1, ga_waiting = 0\<rparr> = Some g' \<and>
     phase_rank (ga_phases g' ! 0) < 3"
  using gate_always_answers [of 0 "\<lparr>ga_phases = [Missed], ga_slots = 1, ga_waiting = 0\<rparr>" "(1, 0)"] by simp

section \<open>What a rounding may do\<close>

definition rounds :: "rat \<Rightarrow> rounding \<Rightarrow> bool" where
  "rounds u fl \<longleftrightarrow> 0 \<le> u \<and> u < 1 \<and> (\<forall>x. fl (- x) = - fl x) \<and> (\<forall>x \<ge> 0. (1 - u) * x \<le> fl x \<and> fl x \<le> (1 + u) * x)"

lemma rounds_bounds:
  assumes "rounds u fl" "0 \<le> x"
  shows "(1 - u) * x \<le> fl x" "fl x \<le> (1 + u) * x" "0 \<le> fl x" "0 < x \<Longrightarrow> 0 < fl x" "0 \<le> u" "u < 1"
proof -
  show b: "(1 - u) * x \<le> fl x" "fl x \<le> (1 + u) * x" "0 \<le> u" "u < 1" using assms by (auto simp: rounds_def)
  have "0 \<le> (1 - u) * x" using b(4) assms(2) by simp
  then show "0 \<le> fl x" using b(1) by linarith
  assume "0 < x"
  then have "0 < (1 - u) * x" using b(4) by simp
  then show "0 < fl x" using b(1) by linarith
qed

lemma rounds_nonpos: "rounds u fl \<Longrightarrow> x \<le> 0 \<Longrightarrow> fl x \<le> 0"
  using rounds_bounds(3) [of u fl "- x"] by (simp add: rounds_def)

lemma to_seconds_upper:
  assumes "rounds u fl" "0 \<le> d"
  shows "to_seconds fl d \<le> (1 + u) ^ 3 * (of_int d / 1000000000)" "0 \<le> to_seconds fl d"
proof -
  let ?q = "of_int (d div 1000000000) :: rat" and ?r = "of_int (d mod 1000000000) :: rat"
  have q: "0 \<le> ?q" "0 \<le> ?r" using assms(2) by (simp_all add: pos_imp_zdiv_nonneg_iff)
  have u: "0 \<le> u" using rounds_bounds(5) [OF assms(1), of 0] by simp
  have a: "fl ?q \<le> (1 + u) * ?q" "0 \<le> fl ?q" using rounds_bounds [OF assms(1) q(1)] by simp_all
  have b: "fl ?r \<le> (1 + u) * ?r" "0 \<le> fl ?r" using rounds_bounds [OF assms(1) q(2)] by simp_all
  have c: "fl (fl ?r / 1000000000) \<le> (1 + u) * (fl ?r / 1000000000)" "0 \<le> fl (fl ?r / 1000000000)"
    using rounds_bounds [OF assms(1), of "fl ?r / 1000000000"] b(2) by simp_all
  have "(1 + u) * (fl ?r / 1000000000) \<le> (1 + u) * ((1 + u) * ?r / 1000000000)"
    by (rule mult_left_mono) (use b(1) u in simp_all)
  with c(1) have c': "fl (fl ?r / 1000000000) \<le> (1 + u) ^ 2 * (?r / 1000000000)" by (simp add: power2_eq_square)
  have "(1 + u) * ?q \<le> (1 + u) ^ 2 * ?q"
    using mult_right_mono [of "1 + u" "(1 + u) ^ 2" ?q] u q(1) by (simp add: power2_eq_square algebra_simps)
  with a(1) c' have s: "fl ?q + fl (fl ?r / 1000000000) \<le> (1 + u) ^ 2 * (?q + ?r / 1000000000)"
    by (simp add: distrib_left)
  have d: "?q + ?r / 1000000000 = of_int d / 1000000000"
  proof -
    have "d = 1000000000 * (d div 1000000000) + d mod 1000000000" by simp
    then have "(of_int d :: rat) = 1000000000 * ?q + ?r" by (metis of_int_add of_int_mult of_int_numeral)
    then show ?thesis by simp
  qed
  have "to_seconds fl d \<le> (1 + u) * (fl ?q + fl (fl ?r / 1000000000))"
    unfolding to_seconds_def by (rule rounds_bounds(2) [OF assms(1)]) (use a(2) c(2) in simp)
  also have "\<dots> \<le> (1 + u) * ((1 + u) ^ 2 * (of_int d / 1000000000))"
    using s u unfolding d by (intro mult_left_mono) simp_all
  finally show "to_seconds fl d \<le> (1 + u) ^ 3 * (of_int d / 1000000000)"
    by (simp add: power3_eq_cube power2_eq_square mult.assoc)
  show "0 \<le> to_seconds fl d"
    unfolding to_seconds_def by (rule rounds_bounds(3) [OF assms(1)]) (use a(2) c(2) in simp)
qed

lemma to_seconds_pos:
  assumes "rounds u fl" "0 < d"
  shows "0 < to_seconds fl d"
proof -
  let ?q = "of_int (d div 1000000000) :: rat" and ?r = "of_int (d mod 1000000000) :: rat"
  have q: "0 \<le> ?q" "0 \<le> ?r" using assms(2) by (simp_all add: pos_imp_zdiv_nonneg_iff)
  have n: "0 \<le> fl ?q" "0 \<le> fl (fl ?r / 1000000000)"
    using rounds_bounds(3) [OF assms(1) q(1)] rounds_bounds(3) [OF assms(1) q(2)] rounds_bounds(3) [OF assms(1), of "fl ?r / 1000000000"]
    by simp_all
  have "0 < ?q \<or> 0 < ?r"
  proof (rule ccontr)
    assume "\<not> (0 < ?q \<or> 0 < ?r)"
    with q have "d div 1000000000 = 0" "d mod 1000000000 = 0" by auto
    then have "d = 0" using div_mult_mod_eq [of d 1000000000] by simp
    with assms(2) show False by simp
  qed
  then have "0 < fl ?q + fl (fl ?r / 1000000000)"
  proof
    assume "0 < ?q"
    then have "0 < fl ?q" using rounds_bounds(4) [OF assms(1) q(1)] by simp
    then show ?thesis using n by simp
  next
    assume "0 < ?r"
    then have "0 < fl ?r" using rounds_bounds(4) [OF assms(1) q(2)] by simp
    then have "0 < fl (fl ?r / 1000000000)" using rounds_bounds(4) [OF assms(1), of "fl ?r / 1000000000"] by simp
    then show ?thesis using n by simp
  qed
  then show ?thesis unfolding to_seconds_def using rounds_bounds(4) [OF assms(1)] n by simp
qed

lemma rate_pos: "rounds u fl \<Longrightarrow> rule_Active r \<Longrightarrow> 0 < refillPerSecond fl r"
proof -
  assume a: "rounds u fl" "rule_Active r"
  have "0 < fl (of_int (ru_Limit r))" using a rounds_bounds(4) [OF a(1), of "of_int (ru_Limit r)"] by (simp add: rule_Active_def)
  then have "0 < fl (of_int (ru_Limit r)) / to_seconds fl (ru_Window r)"
    using to_seconds_pos [OF a(1)] a(2) by (simp add: rule_Active_def)
  then show ?thesis unfolding refillPerSecond_def using rounds_bounds(4) [OF a(1)] by simp
qed

lemma capacity_nonneg: "rounds u fl \<Longrightarrow> rule_Active r \<Longrightarrow> 0 \<le> rule_capacity fl r"
  using rounds_bounds(3) [of u fl "of_int (ru_Burst r)"] rounds_bounds(3) [of u fl "of_int (ru_Limit r)"]
  by (simp add: rule_capacity_def rule_Active_def)

section \<open>Conformance\<close>

text \<open>
  A bucket between two requests, and what it is worth at an instant. The clock is read outside the
  store's lock, so a request may be charged \<open>lag\<close> nanoseconds behind the latest one before it; a
  bucket's full instant may then lie as much too early.
\<close>

definition bucket_ok :: "int \<Rightarrow> rounding \<Rightarrow> rule \<Rightarrow> bucket \<Rightarrow> bool" where
  "bucket_ok lag fl r b \<longleftrightarrow> 0 \<le> bu_tokens b \<and>
     bu_full b + lag \<ge> bu_last b + from_seconds fl (fl (fl (rule_capacity fl r - bu_tokens b) / refillPerSecond fl r))"

definition fast_rate :: "rat \<Rightarrow> rounding \<Rightarrow> rule \<Rightarrow> rat" where
  "fast_rate u fl r = (1 + u) ^ 4 * refillPerSecond fl r"

definition drop_slack :: "rat \<Rightarrow> int \<Rightarrow> rounding \<Rightarrow> rule \<Rightarrow> rat" where
  "drop_slack u lag fl r = 3 * u * rule_capacity fl r + refillPerSecond fl r / 1000000000 + fast_rate u fl r * (of_int lag / 1000000000)"

definition worth :: "rat \<Rightarrow> int \<Rightarrow> rounding \<Rightarrow> rule \<Rightarrow> int \<Rightarrow> bucket option \<Rightarrow> rat" where
  "worth u lag fl r now b =
     (case b of None \<Rightarrow> rule_capacity fl r
      | Some x \<Rightarrow> bu_tokens x + fast_rate u fl r * (of_int (now - bu_last x) / 1000000000) + drop_slack u lag fl r)"

lemma fast_rate_ge: "rounds u fl \<Longrightarrow> rule_Active r \<Longrightarrow> refillPerSecond fl r \<le> fast_rate u fl r"
proof -
  assume a: "rounds u fl" "rule_Active r"
  have "1 \<le> (1 + u) ^ 4" using rounds_bounds(5) [OF a(1), of 0] by (simp add: one_le_power)
  then show ?thesis using mult_right_mono [of 1 "(1 + u) ^ 4" "refillPerSecond fl r"] rate_pos [OF a] by (simp add: fast_rate_def)
qed

text \<open>A bucket the sweep may drop has, up to the slack, earned its capacity back.\<close>

lemma drop_earned:
  assumes f: "rounds u fl" and a: "rule_Active r" and b: "bucket_ok lag fl r b" and full: "bu_full b \<le> now"
    and last: "bu_last b \<le> now" and lag: "0 \<le> lag"
  shows "rule_capacity fl r \<le> worth u lag fl r now (Some b)"
proof -
  let ?c = "rule_capacity fl r" and ?k = "refillPerSecond fl r" and ?x = "rule_capacity fl r - bu_tokens b"
  let ?e = "of_int (now + lag - bu_last b) / 1000000000 :: rat"
  have u: "0 \<le> u" "u < 1" using rounds_bounds [OF f, of 0] by simp_all
  have k: "0 < ?k" using rate_pos [OF f a] .
  have c: "0 \<le> ?c" using capacity_nonneg [OF f a] .
  have tok: "0 \<le> bu_tokens b" using b by (simp add: bucket_ok_def)
  have e: "0 \<le> ?e" using last lag by simp
  have fe: "?k * ?e \<le> fast_rate u fl r * ?e" using fast_rate_ge [OF f a] e by (rule mult_right_mono)
  have w: "worth u lag fl r now (Some b) = bu_tokens b + fast_rate u fl r * ?e + 3 * u * ?c + ?k / 1000000000"
    by (simp add: worth_def drop_slack_def algebra_simps diff_divide_distrib add_divide_distrib)
  have uc: "0 \<le> 3 * u * ?c" using u c by simp
  show ?thesis
  proof (cases "?x \<le> 0")
    case True
    have "0 \<le> fast_rate u fl r * ?e" using fe k e by (meson mult_nonneg_nonneg order_less_imp_le order_trans)
    with True uc k show ?thesis unfolding w by simp
  next
    case False
    then have x: "0 < ?x" by simp
    define f1 where "f1 = fl ?x"
    have f1: "(1 - u) * ?x \<le> f1" using rounds_bounds(1) [OF f, of ?x] x by (simp add: f1_def)
    have f1p: "0 < f1" using rounds_bounds(4) [OF f, of ?x] x by (simp add: f1_def)
    define f2 where "f2 = fl (f1 / ?k)"
    have "0 < f1 / ?k" using f1p k by simp
    then have f2: "(1 - u) * (f1 / ?k) \<le> f2" and f2p: "0 < f2"
      using rounds_bounds(1,4) [OF f, of "f1 / ?k"] by (simp_all add: f2_def)
    have "(1 - u) * (f2 * 1000000000) \<le> fl (f2 * 1000000000)" using rounds_bounds(1) [OF f, of "f2 * 1000000000"] f2p by simp
    moreover have "fl (f2 * 1000000000) - 1 < of_int \<lfloor>fl (f2 * 1000000000)\<rfloor>" by linarith
    moreover have "bu_last b + \<lfloor>fl (f2 * 1000000000)\<rfloor> \<le> bu_full b + lag"
      using b f2p by (simp add: bucket_ok_def from_seconds_def f1_def f2_def)
    then have "(of_int \<lfloor>fl (f2 * 1000000000)\<rfloor> :: rat) \<le> of_int (now + lag - bu_last b)" using full by simp
    ultimately have n: "(1 - u) * f2 * 1000000000 - 1 \<le> of_int (now + lag - bu_last b)" by simp
    have "?k * ((1 - u) * f2 * 1000000000 - 1) \<le> ?k * of_int (now + lag - bu_last b)" by (rule mult_left_mono [OF n]) (use k in simp)
    then have g: "?k * (1 - u) * f2 - ?k / 1000000000 \<le> ?k * ?e" by (simp add: field_simps)
    have "(1 - u) * ((1 - u) * (f1 / ?k)) \<le> (1 - u) * f2" by (rule mult_left_mono [OF f2]) (use u in simp)
    then have "?k * ((1 - u) * ((1 - u) * (f1 / ?k))) \<le> ?k * ((1 - u) * f2)" by (rule mult_left_mono) (use k in simp)
    moreover have "?k * ((1 - u) * ((1 - u) * (f1 / ?k))) = (1 - u) * (1 - u) * f1" using k by simp
    ultimately have h: "(1 - u) * (1 - u) * f1 \<le> ?k * (1 - u) * f2" by (simp add: mult.assoc)
    have "(1 - u) * (1 - u) * ((1 - u) * ?x) \<le> (1 - u) * (1 - u) * f1" by (rule mult_left_mono [OF f1]) (use u in simp)
    moreover have "(1 - 3 * u) * ?x \<le> (1 - u) * (1 - u) * ((1 - u) * ?x)"
    proof -
      have "0 \<le> u * u * (3 - u)" using u by (intro mult_nonneg_nonneg) simp_all
      then have "1 - 3 * u \<le> (1 - u) * (1 - u) * (1 - u)" by (simp add: algebra_simps)
      then have "(1 - 3 * u) * ?x \<le> (1 - u) * (1 - u) * (1 - u) * ?x" by (rule mult_right_mono) (use x in simp)
      then show ?thesis by (simp add: mult.assoc)
    qed
    moreover have "3 * u * ?x \<le> 3 * u * ?c" by (rule mult_left_mono) (use u tok in simp_all)
    ultimately have "?x - 3 * u * ?c - ?k / 1000000000 \<le> ?k * ?e" using g h by (simp add: algebra_simps)
    with fe show ?thesis unfolding w by simp
  qed
qed

text \<open>Refilling earns at most the rate, one charge costs a token; rounding adds a share of the capacity.\<close>

lemma refill_earns:
  assumes f: "rounds u fl" and a: "rule_Active r" and b: "0 \<le> bu_tokens b" "bu_tokens b \<le> rule_capacity fl r"
    and m: "now \<le> m" "bu_last b \<le> m"
  defines "x \<equiv> refill fl r now (Some b)"
  shows "bu_tokens x + fast_rate u fl r * (of_int (m - bu_last x) / 1000000000) \<le>
      bu_tokens b + fast_rate u fl r * (of_int (m - bu_last b) / 1000000000) + u * rule_capacity fl r"
    "0 \<le> bu_tokens x" "bu_tokens x \<le> rule_capacity fl r" "now \<le> bu_last x" "bu_last x \<le> m"
proof -
  let ?c = "rule_capacity fl r" and ?k = "refillPerSecond fl r" and ?s = "to_seconds fl (now - bu_last b)"
  let ?e = "of_int (now - bu_last b) / 1000000000 :: rat"
  have u: "0 \<le> u" using rounds_bounds [OF f, of 0] by simp
  have c: "0 \<le> ?c" using capacity_nonneg [OF f a] .
  have k: "0 < ?k" using rate_pos [OF f a] .
  have uc: "0 \<le> u * ?c" using u c by simp
  have goal: "bu_tokens x + fast_rate u fl r * (of_int (m - bu_last x) / 1000000000) \<le>
      bu_tokens b + fast_rate u fl r * (of_int (m - bu_last b) / 1000000000) + u * ?c \<and> 0 \<le> bu_tokens x \<and> bu_tokens x \<le> ?c \<and>
      now \<le> bu_last x \<and> bu_last x \<le> m"
  proof (cases "bu_last b < now")
    case False
    then have "x = b" by (simp add: x_def refill_def)
    with False b m uc show ?thesis by simp
  next
    case True
    then have x: "bu_tokens x = min ?c (fl (bu_tokens b + fl (?s * ?k)))" "bu_last x = now"
      by (simp_all add: x_def refill_def)
    have s: "?s \<le> (1 + u) ^ 3 * ?e" "0 \<le> ?s" using to_seconds_upper [OF f, of "now - bu_last b"] True by simp_all
    have y: "fl (?s * ?k) \<le> (1 + u) * (?s * ?k)" "0 \<le> fl (?s * ?k)" using rounds_bounds [OF f, of "?s * ?k"] s(2) k by simp_all
    have "(1 + u) * (?s * ?k) \<le> (1 + u) * ((1 + u) ^ 3 * ?e * ?k)"
      by (intro mult_left_mono mult_right_mono) (use s u k in simp_all)
    also have "\<dots> = fast_rate u fl r * ?e" by (simp add: fast_rate_def power4_eq_xxxx power3_eq_cube mult_ac)
    finally have y': "fl (?s * ?k) \<le> fast_rate u fl r * ?e" using y(1) by linarith
    let ?x = "bu_tokens b + fl (?s * ?k)"
    have fx: "fl ?x \<le> (1 + u) * ?x" "0 \<le> fl ?x" using rounds_bounds [OF f, of ?x] b(1) y(2) by simp_all
    have cap: "min ?c (fl ?x) \<le> ?x + u * ?c"
    proof (cases "?x \<le> ?c")
      case True
      then have "u * ?x \<le> u * ?c" using u by (rule mult_left_mono)
      then show ?thesis using fx(1) by (simp add: distrib_right)
    next
      case False
      with uc show ?thesis by simp
    qed
    have "fast_rate u fl r * (of_int (m - bu_last b) / 1000000000) =
        fast_rate u fl r * ?e + fast_rate u fl r * (of_int (m - now) / 1000000000)"
      by (simp add: algebra_simps diff_divide_distrib)
    then have "bu_tokens x + fast_rate u fl r * (of_int (m - bu_last x) / 1000000000) \<le>
        bu_tokens b + fast_rate u fl r * (of_int (m - bu_last b) / 1000000000) + u * ?c"
      using cap y' unfolding x by linarith
    moreover have "0 \<le> bu_tokens x" "bu_tokens x \<le> ?c" using x(1) c fx(2) by simp_all
    ultimately show ?thesis using x(2) m(1) by simp
  qed
  then show "bu_tokens x + fast_rate u fl r * (of_int (m - bu_last x) / 1000000000) \<le>
      bu_tokens b + fast_rate u fl r * (of_int (m - bu_last b) / 1000000000) + u * ?c"
    "0 \<le> bu_tokens x" "bu_tokens x \<le> ?c" "now \<le> bu_last x" "bu_last x \<le> m" by simp_all
qed

lemma charge_costs:
  assumes f: "rounds u fl" and c: "charge_bucket fl r now b = (d, b')" and t: "0 \<le> bu_tokens b" and l: "bu_last b \<le> now + lag"
  shows "bucket_ok lag fl r b'" "bu_last b' = bu_last b"
    "(if dc_Allowed d then 1 else 0) + bu_tokens b' \<le> bu_tokens b + (if dc_Allowed d then u * (bu_tokens b - 1) else 0)"
    "dc_Allowed d \<longleftrightarrow> 1 \<le> bu_tokens b"
proof -
  have "fl (bu_tokens b - 1) \<le> (1 + u) * (bu_tokens b - 1)" "0 \<le> fl (bu_tokens b - 1)" if "1 \<le> bu_tokens b"
    using rounds_bounds [OF f, of "bu_tokens b - 1"] that by simp_all
  then show "bucket_ok lag fl r b'" "bu_last b' = bu_last b"
    "(if dc_Allowed d then 1 else 0) + bu_tokens b' \<le> bu_tokens b + (if dc_Allowed d then u * (bu_tokens b - 1) else 0)"
    "dc_Allowed d \<longleftrightarrow> 1 \<le> bu_tokens b"
    using c t l by (auto simp: charge_bucket_def Let_def bucket_ok_def distrib_right split: if_splits)
qed

text \<open>
  One request charged at \<open>now\<close>, when the latest instant seen is \<open>m\<close>: what the bucket is worth pays for it, and
  whatever the bucket was worth, it is worth at most the capacity afterwards.
\<close>

lemma take_step:
  assumes f: "rounds u fl" and a: "rule_Active r" and small: "u * rule_capacity fl r \<le> 1"
    and ok: "\<And>x. b = Some x \<Longrightarrow> bucket_ok lag fl r x \<and> bu_last x \<le> m \<and> bu_tokens x \<le> rule_capacity fl r"
    and m: "now \<le> m" "m \<le> now + lag"
    and c: "charge_bucket fl r now (refill fl r now b) = (d, b')"
  shows "bucket_ok lag fl r b' \<and> now \<le> bu_last b' \<and> bu_last b' \<le> m \<and> bu_tokens b' \<le> rule_capacity fl r"
    "(if dc_Allowed d then 1 else 0) + worth u lag fl r m (Some b') \<le>
       worth u lag fl r m b + (drop_slack u lag fl r + fast_rate u fl r * (of_int lag / 1000000000) + 2 * u * rule_capacity fl r)"
    "(if dc_Allowed d then 1 else 0) + bu_tokens b' \<le> rule_capacity fl r + u * rule_capacity fl r"
proof -
  let ?c = "rule_capacity fl r" and ?R = "fast_rate u fl r"
  let ?b = "refill fl r now b"
  have u: "0 \<le> u" "u < 1" using rounds_bounds [OF f, of 0] by simp_all
  have c0: "0 \<le> ?c" using capacity_nonneg [OF f a] .
  have k: "0 < refillPerSecond fl r" using rate_pos [OF f a] .
  have R: "0 \<le> ?R" using fast_rate_ge [OF f a] k by linarith
  have lag: "0 \<le> lag" using m by simp
  have Rl: "0 \<le> ?R * (of_int lag / 1000000000)" using R lag by simp
  have slack: "0 \<le> drop_slack u lag fl r" using u c0 k Rl by (simp add: drop_slack_def)
  have uc: "0 \<le> u * ?c" using u c0 by simp
  have b: "0 \<le> bu_tokens ?b \<and> bu_tokens ?b \<le> ?c \<and> now \<le> bu_last ?b \<and> bu_last ?b \<le> m \<and>
      bu_tokens ?b + ?R * (of_int (m - bu_last ?b) / 1000000000) + (if b = None then 0 else drop_slack u lag fl r) \<le>
        worth u lag fl r m b + ?R * (of_int lag / 1000000000) + u * ?c"
  proof (cases b)
    case None
    have "?R * (of_int (m - now) / 1000000000) \<le> ?R * (of_int lag / 1000000000)"
      by (rule mult_left_mono) (use m R in \<open>simp_all add: divide_right_mono\<close>)
    with None c0 uc m show ?thesis by (simp add: refill_def worth_def)
  next
    case (Some x)
    note e = refill_earns [OF f a _ _ m(1), of x]
    have "0 \<le> bu_tokens x" "bu_tokens x \<le> ?c" "bu_last x \<le> m" using ok [OF Some] by (simp_all add: bucket_ok_def)
    with e show ?thesis using Some Rl by (simp add: worth_def)
  qed
  have l: "bu_last ?b \<le> now + lag" using b m by simp
  note ch = charge_costs [OF f c _ l]
  have t: "0 \<le> bu_tokens ?b" using b by simp
  have "u * (bu_tokens ?b - 1) \<le> u * (?c - 1)" by (rule mult_left_mono) (use b u in simp_all)
  then have ub: "u * (bu_tokens ?b - 1) \<le> u * ?c" using u by (simp add: right_diff_distrib)
  then have cost: "(if dc_Allowed d then 1 else 0) + bu_tokens b' \<le> bu_tokens ?b + u * ?c" using ch(3) [OF t] uc by (auto split: if_splits)
  have w: "worth u lag fl r m (Some b') = bu_tokens b' + ?R * (of_int (m - bu_last ?b) / 1000000000) + drop_slack u lag fl r"
    using ch(2) [OF t] by (simp add: worth_def)
  show "(if dc_Allowed d then 1 else 0) + worth u lag fl r m (Some b') \<le>
      worth u lag fl r m b + (drop_slack u lag fl r + ?R * (of_int lag / 1000000000) + 2 * u * ?c)"
    using cost b slack unfolding w by (auto split: if_splits)
  have "bu_tokens b' \<le> ?c" using ch(3) [OF t] ub b small by (auto split: if_splits)
  then show "bucket_ok lag fl r b' \<and> now \<le> bu_last b' \<and> bu_last b' \<le> m \<and> bu_tokens b' \<le> ?c"
    using ch(1,2) [OF t] b by simp
  show "(if dc_Allowed d then 1 else 0) + bu_tokens b' \<le> ?c + u * ?c" using cost b by linarith
qed

section \<open>A sequence of requests\<close>

definition NewMemoryStore :: "int \<Rightarrow> memory_store" where
  "NewMemoryStore now = \<lparr>me_buckets = [], me_maxKeys = 50000, me_sweepEvery = 60000000000, me_lastSweep = now\<rparr>"

type_synonym request = "int \<times> string \<times> rule"

fun serve :: "rounding \<Rightarrow> request list \<Rightarrow> memory_store \<Rightarrow> decision list \<times> memory_store" where
  "serve fl [] s = ([], s)"
| "serve fl ((now, key, r) # reqs) s =
     (case Take fl now key r s of (d, s1) \<Rightarrow> case serve fl reqs s1 of (ds, s2) \<Rightarrow> (d # ds, s2))"

definition allowed_for :: "string \<Rightarrow> request list \<Rightarrow> decision list \<Rightarrow> nat" where
  "allowed_for key reqs ds = length (filter (\<lambda>((t, k, r), d). k = key \<and> dc_Allowed d) (zip reqs ds))"

definition requests_for :: "string \<Rightarrow> request list \<Rightarrow> nat" where
  "requests_for key reqs = length (filter (\<lambda>(t, k, r). k = key) reqs)"

definition store_ok :: "int \<Rightarrow> rounding \<Rightarrow> rule \<Rightarrow> string \<Rightarrow> int \<Rightarrow> memory_store \<Rightarrow> bool" where
  "store_ok lag fl r key m s \<longleftrightarrow> distinct (map fst (me_buckets s)) \<and>
     (\<forall>x. map_of (me_buckets s) key = Some x \<longrightarrow> bucket_ok lag fl r x \<and> bu_last x \<le> m \<and> bu_tokens x \<le> rule_capacity fl r)"

text \<open>No request is charged more than \<open>lag\<close> behind one before it; a lag of 0 is a sorted clock.\<close>

definition lagging :: "int \<Rightarrow> request list \<Rightarrow> bool" where
  "lagging lag reqs \<longleftrightarrow> sorted_wrt (\<lambda>p q. fst p \<le> fst q + lag) reqs"

definition request_slack :: "rat \<Rightarrow> int \<Rightarrow> rounding \<Rightarrow> rule \<Rightarrow> rat" where
  "request_slack u lag fl r = drop_slack u lag fl r + fast_rate u fl r * (of_int lag / 1000000000) + 2 * u * rule_capacity fl r"

lemma map_of_filter_distinct:
  "distinct (map fst xs) \<Longrightarrow> map_of (filter (\<lambda>(k, b). P b) xs) k = (case map_of xs k of None \<Rightarrow> None | Some b \<Rightarrow> if P b then Some b else None)"
  by (induction xs) (auto split: option.splits simp: map_of_eq_None_iff [symmetric] dest: weak_map_of_SomeI)

lemma maybeSweep_bucket:
  assumes "distinct (map fst (me_buckets s))"
  shows "distinct (map fst (me_buckets (maybeSweep now s))) \<and>
    (map_of (me_buckets (maybeSweep now s)) key = map_of (me_buckets s) key \<or>
     map_of (me_buckets (maybeSweep now s)) key = None \<and>
       (\<exists>x. map_of (me_buckets s) key = Some x \<and> bu_full x \<le> now))"
  using assms by (auto simp: maybeSweep_def distinct_map_filter map_of_filter_distinct split: option.splits)

lemma worth_later:
  assumes "rounds u fl" "rule_Active r" "t \<le> now"
  shows "worth u lag fl r now b \<le> worth u lag fl r t b + fast_rate u fl r * (of_int (now - t) / 1000000000)"
proof -
  have "0 \<le> fast_rate u fl r" using fast_rate_ge [OF assms(1,2)] rate_pos [OF assms(1,2)] by linarith
  then have "0 \<le> fast_rate u fl r * (of_int (now - t) / 1000000000)" using assms(3) by simp
  then show ?thesis
    by (cases b) (simp_all add: worth_def algebra_simps diff_divide_distrib)
qed

lemma sweep_worth:
  assumes f: "rounds u fl" and a: "rule_Active r" and ok: "store_ok lag fl r key m s" and le: "m \<le> m'" "now \<le> m'" and lag: "0 \<le> lag"
  shows "store_ok lag fl r key m' (maybeSweep now s) \<and>
    worth u lag fl r m' (map_of (me_buckets (maybeSweep now s)) key) \<le>
      worth u lag fl r m (map_of (me_buckets s) key) + fast_rate u fl r * (of_int (m' - m) / 1000000000)"
proof -
  have d: "distinct (map fst (me_buckets s))" using ok by (simp add: store_ok_def)
  note sw = maybeSweep_bucket [OF d, of now key]
  have "worth u lag fl r m' (map_of (me_buckets (maybeSweep now s)) key) \<le> worth u lag fl r m' (map_of (me_buckets s) key)"
  proof (cases "map_of (me_buckets (maybeSweep now s)) key = map_of (me_buckets s) key")
    case False
    then obtain x where x: "map_of (me_buckets (maybeSweep now s)) key = None" "map_of (me_buckets s) key = Some x" "bu_full x \<le> m'"
      using sw le(2) by auto
    then have "bucket_ok lag fl r x" "bu_last x \<le> m'" using ok le by (auto simp: store_ok_def)
    from drop_earned [OF f a this(1) x(3) this(2) lag] x show ?thesis by (simp add: worth_def)
  qed simp
  moreover have "store_ok lag fl r key m' (maybeSweep now s)"
    using sw ok le unfolding store_ok_def by fastforce
  ultimately show ?thesis using worth_later [OF f a le(1), of lag "map_of (me_buckets s) key"] by linarith
qed

text \<open>One request, under the key or under another.\<close>

lemma take_store:
  assumes f: "rounds u fl" and a: "rule_Active r" and small: "u * rule_capacity fl r \<le> 1"
    and ok: "store_ok lag fl r key m s" and lag: "m \<le> now + lag" "0 \<le> lag" and m: "m' = max m now"
    and tk: "Take fl now k r' s = (d, s1)" and rule: "k = key \<Longrightarrow> r' = r"
  defines "w1 \<equiv> worth u lag fl r m' (map_of (me_buckets s1) key)"
  shows "store_ok lag fl r key m' s1"
    "(if k = key \<and> dc_Allowed d then 1 else 0) + w1 \<le> worth u lag fl r m (map_of (me_buckets s) key) +
       fast_rate u fl r * (of_int (m' - m) / 1000000000) + (if k = key then request_slack u lag fl r else 0)"
    "k = key \<Longrightarrow> (if dc_Allowed d then 1 else 0) + w1 \<le> rule_capacity fl r +
       fast_rate u fl r * (of_int (m' - now) / 1000000000) + request_slack u lag fl r"
proof -
  let ?s = "maybeSweep now s" and ?c = "rule_capacity fl r" and ?R = "fast_rate u fl r"
  have m': "m \<le> m'" "now \<le> m'" "m' \<le> now + lag" using m lag by auto
  note sw = sweep_worth [OF f a ok m'(1,2) lag(2)]
  have R: "0 \<le> ?R" using fast_rate_ge [OF f a] rate_pos [OF f a] by linarith
  have nonneg: "0 \<le> ?R * (of_int lag / 1000000000)" "0 \<le> u * ?c"
    using R lag(2) capacity_nonneg [OF f a] rounds_bounds(5) [OF f, of 0] by simp_all
  have "store_ok lag fl r key m' s1 \<and>
    (if k = key \<and> dc_Allowed d then 1 else 0) + w1 \<le> worth u lag fl r m (map_of (me_buckets s) key) +
       ?R * (of_int (m' - m) / 1000000000) + (if k = key then request_slack u lag fl r else 0) \<and>
    (k = key \<longrightarrow> (if dc_Allowed d then 1 else 0) + w1 \<le> ?c + ?R * (of_int (m' - now) / 1000000000) + request_slack u lag fl r)"
  proof (cases "k = key")
    case True
    then have r': "r' = r" by (rule rule)
    obtain b' where cb: "charge_bucket fl r now (refill fl r now (map_of (me_buckets ?s) key)) = (d, b')"
      "s1 = ?s\<lparr>me_buckets := AList.update key b' (me_buckets ?s)\<rparr>"
      using tk a True r' by (auto simp: Take_def Let_def split: prod.splits)
    have okb: "bucket_ok lag fl r x \<and> bu_last x \<le> m' \<and> bu_tokens x \<le> ?c" if "map_of (me_buckets ?s) key = Some x" for x
      using sw that by (simp add: store_ok_def)
    note st = take_step [OF f a small okb m'(2,3) cb(1)]
    have k1: "map_of (me_buckets s1) key = Some b'" using cb(2) by (simp add: update_conv')
    have "distinct (map fst (me_buckets ?s))" using sw unfolding store_ok_def by blast
    then have "distinct (map fst (me_buckets s1))" unfolding cb(2) by (simp add: distinct_update)
    then have "store_ok lag fl r key m' s1" using st(1) k1 by (simp add: store_ok_def)
    moreover have "?R * (of_int (m' - bu_last b') / 1000000000) \<le> ?R * (of_int (m' - now) / 1000000000)"
      by (rule mult_left_mono) (use st(1) R in \<open>simp_all add: divide_right_mono\<close>)
    ultimately show ?thesis
      using st sw nonneg True k1 by (auto simp: w1_def worth_def request_slack_def split: if_splits)
  next
    case False
    have "map_of (me_buckets s1) key = map_of (me_buckets ?s) key \<and> distinct (map fst (me_buckets s1)) \<or> s1 = s"
      using tk False sw by (auto simp: Take_def Let_def update_conv' store_ok_def distinct_update split: prod.splits if_splits)
    then show ?thesis
    proof
      assume "s1 = s"
      moreover have "store_ok lag fl r key m' s" using ok m'(1) unfolding store_ok_def by fastforce
      ultimately show ?thesis using worth_later [OF f a m'(1)] False by (simp add: w1_def)
    next
      assume "map_of (me_buckets s1) key = map_of (me_buckets ?s) key \<and> distinct (map fst (me_buckets s1))"
      then show ?thesis using sw False by (simp add: store_ok_def w1_def)
    qed
  qed
  then show "store_ok lag fl r key m' s1"
    "(if k = key \<and> dc_Allowed d then 1 else 0) + w1 \<le> worth u lag fl r m (map_of (me_buckets s) key) +
       ?R * (of_int (m' - m) / 1000000000) + (if k = key then request_slack u lag fl r else 0)"
    "k = key \<Longrightarrow> (if dc_Allowed d then 1 else 0) + w1 \<le> ?c + ?R * (of_int (m' - now) / 1000000000) + request_slack u lag fl r"
    by simp_all
qed

definition one_rule :: "string \<Rightarrow> rule \<Rightarrow> request list \<Rightarrow> bool" where
  "one_rule key r reqs \<longleftrightarrow> (\<forall>(t, k, r') \<in> set reqs. k = key \<longrightarrow> r' = r)"

text \<open>
  A list of requests whose latest instant before it was \<open>m\<close>: it keeps the store, is paid for by what
  the bucket was worth, and by the capacity alone when it starts at or after an instant.
\<close>

lemma serve_conforms:
  assumes f: "rounds u fl" and a: "rule_Active r" and small: "u * rule_capacity fl r \<le> 1" and lag: "0 \<le> lag"
    and "one_rule key r reqs" "lagging lag reqs" "\<forall>q \<in> set reqs. m \<le> fst q + lag \<and> fst q \<le> t1" "store_ok lag fl r key m s" "m \<le> t1"
  shows "store_ok lag fl r key (fold (\<lambda>q. max (fst q)) reqs m) (snd (serve fl reqs s)) \<and>
    of_nat (allowed_for key reqs (fst (serve fl reqs s))) \<le> worth u lag fl r m (map_of (me_buckets s) key) +
       fast_rate u fl r * (of_int (t1 - m) / 1000000000) + of_nat (requests_for key reqs) * request_slack u lag fl r \<and>
    ((\<forall>q \<in> set reqs. t0 \<le> fst q) \<longrightarrow> t0 \<le> t1 \<longrightarrow>
       of_nat (allowed_for key reqs (fst (serve fl reqs s))) \<le> rule_capacity fl r +
         fast_rate u fl r * (of_int (t1 - t0) / 1000000000) + of_nat (requests_for key reqs) * request_slack u lag fl r)"
  using assms(5-9)
proof (induction reqs arbitrary: s m)
  case Nil
  have R: "0 \<le> fast_rate u fl r" using fast_rate_ge [OF f a] rate_pos [OF f a] by linarith
  have nn: "0 \<le> u" "0 \<le> rule_capacity fl r" "0 \<le> fast_rate u fl r * (of_int lag / 1000000000)"
    using capacity_nonneg [OF f a] rounds_bounds(5) [OF f, of 0] R lag by simp_all
  then have "0 \<le> drop_slack u lag fl r" using rate_pos [OF f a] by (simp add: drop_slack_def)
  then have "0 \<le> worth u lag fl r m (map_of (me_buckets s) key)"
    using nn R Nil(4) by (auto simp: worth_def store_ok_def bucket_ok_def split: option.splits)
  moreover have "0 \<le> fast_rate u fl r * (of_int (t1 - m) / 1000000000)" using R Nil(5) by simp
  moreover have "t0 \<le> t1 \<Longrightarrow> 0 \<le> fast_rate u fl r * (of_int (t1 - t0) / 1000000000)" using R by simp
  ultimately show ?case using Nil(4) nn(2) by (simp add: allowed_for_def requests_for_def)
next
  case (Cons q reqs)
  obtain now k r' where q: "q = (now, k, r')" by (cases q) auto
  let ?R = "fast_rate u fl r" and ?sl = "request_slack u lag fl r"
  have R: "0 \<le> ?R" using fast_rate_ge [OF f a] rate_pos [OF f a] by linarith
  define m' where "m' = max m now"
  obtain d s1 where tk: "Take fl now k r' s = (d, s1)" by (cases "Take fl now k r' s")
  obtain ds s2 where sv: "serve fl reqs s1 = (ds, s2)" by (cases "serve fl reqs s1")
  have eq: "of_nat (allowed_for key (q # reqs) (d # ds)) = (if k = key \<and> dc_Allowed d then 1 else 0) + (of_nat (allowed_for key reqs ds) :: rat)"
    "of_nat (requests_for key (q # reqs)) * ?sl = (if k = key then ?sl else 0) + of_nat (requests_for key reqs) * ?sl"
    using q by (simp_all add: allowed_for_def requests_for_def distrib_right)
  have split: "?R * (of_int (t - x) / 1000000000) = ?R * (of_int (y - x) / 1000000000) + ?R * (of_int (t - y) / 1000000000)" for t x y
    by (simp add: algebra_simps diff_divide_distrib)
  have now: "m \<le> now + lag" "now \<le> t1" using Cons.prems(3) q by auto
  have rule: "k = key \<Longrightarrow> r' = r" using Cons.prems(1) q by (auto simp: one_rule_def)
  note st = take_store [OF f a small Cons.prems(4) now(1) lag m'_def tk rule]
  have rest: "one_rule key r reqs" "lagging lag reqs" "\<forall>p \<in> set reqs. m' \<le> fst p + lag \<and> fst p \<le> t1" "m' \<le> t1"
    using Cons.prems(1-3,5) q now by (auto simp: one_rule_def lagging_def m'_def)
  note IH = Cons.IH [OF rest(1-3) st(1) rest(4), unfolded sv fst_conv snd_conv]
  have fin: "fst (serve fl (q # reqs) s) = d # ds" "snd (serve fl (q # reqs) s) = s2" "fold (\<lambda>q. max (fst q)) (q # reqs) m = fold (\<lambda>q. max (fst q)) reqs m'"
    using q tk sv by (simp_all add: m'_def max.commute)
  have B: "of_nat (allowed_for key (q # reqs) (d # ds)) \<le> worth u lag fl r m (map_of (me_buckets s) key) +
       ?R * (of_int (t1 - m) / 1000000000) + of_nat (requests_for key (q # reqs)) * ?sl"
    using IH [THEN conjunct2, THEN conjunct1] st(2) split [of t1 m m'] unfolding eq by linarith
  have C: "of_nat (allowed_for key (q # reqs) (d # ds)) \<le> rule_capacity fl r +
       ?R * (of_int (t1 - t0) / 1000000000) + of_nat (requests_for key (q # reqs)) * ?sl"
    if t0: "\<forall>p \<in> set (q # reqs). t0 \<le> fst p" "t0 \<le> t1"
  proof (cases "k = key")
    case True
    have "0 \<le> ?R * (of_int (now - t0) / 1000000000)" using R t0(1) q by simp
    with IH [THEN conjunct2, THEN conjunct1] st(3) [OF True] True split [of t1 t0 now] split [of t1 now m']
    moreover have "(if k = key \<and> dc_Allowed d then 1 else 0) = (if dc_Allowed d then 1 else (0 :: rat))" "(if k = key then ?sl else 0) = ?sl"
      using True by simp_all
    ultimately show ?thesis unfolding eq by linarith
  next
    case False
    with IH [THEN conjunct2, THEN conjunct2] t0 show ?thesis unfolding eq by simp
  qed
  show ?case unfolding fin using IH [THEN conjunct1] B C by blast
qed

lemma foldr_min_le: "foldr (\<lambda>q. min (fst q)) xs t \<le> (t :: int) \<and> (\<forall>q \<in> set xs. foldr (\<lambda>q. min (fst q)) xs t \<le> fst q)"
  by (induction xs) auto


definition login_rule :: rule where
  "login_rule = \<lparr>ru_Limit = 60, ru_Burst = 2, ru_Window = 60000000000\<rparr>"

text \<open>A burst, an idle hour, and a burst again: the idle time earned no more than the capacity.\<close>

definition login_before :: "request list" where
  "login_before = [(0, ''addr:a'', login_rule), (1, ''addr:a'', login_rule), (2, ''addr:b'', login_rule)]"

definition login_burst :: "request list" where
  "login_burst = map (\<lambda>t. (3600000000000 + t, ''addr:a'', login_rule)) [1, 0, 2, 3]"


section \<open>The verification bound as a middleware\<close>

text \<open>\<^verbatim>\<open>acquire\<close> is what \<^verbatim>\<open>Gate.Acquire\<close> came to: a slot, or the request is shed.\<close>

definition Verification :: "rounding \<Rightarrow> limiter option \<Rightarrow> string \<Rightarrow> bool \<Rightarrow> outcome" where
  "Verification fl l path acquired =
     (if l = None \<or> \<not> GatesPath l path then Served
      else if \<not> acquired then ShedAfter (retryAfterSeconds fl 0) else Served)"

section \<open>Configuration\<close>

text \<open>\<^verbatim>\<open>src/config/ratelimit.go\<close>: None is an absent value.\<close>

record rule_config =
  rg_Requests :: int
  rg_Burst :: int
  rg_WindowSeconds :: int

record verification_config =
  vg_MaxConcurrent :: int
  vg_MaxQueued :: int
  vg_MaxWaitMs :: int
  vg_Paths :: "string list option"

record rate_config =
  rt_Enabled :: "bool option"
  rt_TrustedProxies :: "string list option"
  rt_ForwardedHeader :: string
  rt_EdgeViewerHeader :: string
  rt_Anonymous :: rule_config
  rt_Authenticated :: rule_config
  rt_Verification :: verification_config
  rt_ExemptPaths :: "string list option"

definition rate_Active :: "rate_config \<Rightarrow> bool" where
  "rate_Active c \<longleftrightarrow> rt_Enabled c = Some True"

definition rule_applyDefaults :: "int \<Rightarrow> int \<Rightarrow> int \<Rightarrow> rule_config \<Rightarrow> rule_config" where
  "rule_applyDefaults requests burst windowSeconds r =
     \<lparr>rg_Requests = (if rg_Requests r \<le> 0 then requests else rg_Requests r),
      rg_Burst = (if rg_Burst r \<le> 0 then burst else rg_Burst r),
      rg_WindowSeconds = (if rg_WindowSeconds r \<le> 0 then windowSeconds else rg_WindowSeconds r)\<rparr>"

definition or_default :: "'a option \<Rightarrow> 'a \<Rightarrow> 'a option" where
  "or_default x d = (case x of None \<Rightarrow> Some d | Some y \<Rightarrow> Some y)"

definition ApplyDefaults :: "rate_config \<Rightarrow> rate_config" where
  "ApplyDefaults c =
     (let v = rt_Verification c
      in c\<lparr>rt_Enabled := or_default (rt_Enabled c) True,
           rt_TrustedProxies := or_default (rt_TrustedProxies c) [],
           rt_ForwardedHeader := (if rt_ForwardedHeader c = [] then ''X-Forwarded-For'' else rt_ForwardedHeader c),
           rt_Anonymous := rule_applyDefaults 60 30 60 (rt_Anonymous c),
           rt_Authenticated := rule_applyDefaults 1200 600 60 (rt_Authenticated c),
           rt_Verification := \<lparr>vg_MaxConcurrent = (if vg_MaxConcurrent v \<le> 0 then 4 else vg_MaxConcurrent v),
              vg_MaxQueued = (if vg_MaxQueued v \<le> 0 then 16 else vg_MaxQueued v),
              vg_MaxWaitMs = (if vg_MaxWaitMs v \<le> 0 then 500 else vg_MaxWaitMs v),
              vg_Paths = or_default (vg_Paths v) [''/auth/login'', ''/auth/accept-invite'', ''/auth/mfa/verify'']\<rparr>,
           rt_ExemptPaths := or_default (rt_ExemptPaths c) [''/health'', ''/health/ready'']\<rparr>)"

definition rule_validate :: "string \<Rightarrow> rule_config \<Rightarrow> message option" where
  "rule_validate name r =
     (if rg_Requests r \<le> 0 then Some (Errorf ''%s.requests must be positive'' [S name])
      else if rg_WindowSeconds r \<le> 0 then Some (Errorf ''%s.windowSeconds must be positive'' [S name])
      else if rg_Burst r < 0 then Some (Errorf ''%s.burst must not be negative'' [S name])
      else None)"

definition header_char :: "char \<Rightarrow> bool" where
  "header_char c \<longleftrightarrow> CHR '' '' < c \<and> of_char c < (127 :: nat) \<and>
     c \<notin> set '':,;()<>@/[]?={}'' \<and> c \<noteq> CHR 0x22 \<and> c \<noteq> CHR 0x27 \<and> c \<noteq> CHR 0x5C"

definition validateEdgeViewerHeader :: "string \<Rightarrow> string \<Rightarrow> message option" where
  "validateEdgeViewerHeader edge0 forwarded =
     (let edge = TrimSpace edge0 in
      if edge = [] then None
      else if ascii_lower_text edge = ascii_lower_text (TrimSpace forwarded)
      then Some (Errorf ''rateLimit.edgeViewerHeader must not be the same header as rateLimit.forwardedHeader (%q)'' [S edge])
      else if \<not> list_all header_char edge then Some (Errorf ''rateLimit.edgeViewerHeader %q is not a header name'' [S edge])
      else None)"

definition present :: "'a option list \<Rightarrow> 'a list" where
  "present xs = concat (map (\<lambda>x. case x of None \<Rightarrow> [] | Some y \<Rightarrow> [y]) xs)"

text \<open>The parsers of \<^verbatim>\<open>net/netip\<close> decide which proxy entries are addresses or ranges.\<close>

definition rate_validate :: "(string \<Rightarrow> message option) \<Rightarrow> rate_config \<Rightarrow> message list" where
  "rate_validate validateCIDROrAddr c =
     (case validateEdgeViewerHeader (rt_EdgeViewerHeader c) (rt_ForwardedHeader c) of
        Some e \<Rightarrow> [e]
      | None \<Rightarrow>
          if \<not> rate_Active c then []
          else present
            ([rule_validate ''rateLimit.anonymous'' (rt_Anonymous c),
              rule_validate ''rateLimit.authenticated'' (rt_Authenticated c),
              (if vg_MaxConcurrent (rt_Verification c) \<le> 0 then Some (text_msg ''rateLimit.verification.maxConcurrent must be positive'') else None),
              (if vg_MaxQueued (rt_Verification c) < 0 then Some (text_msg ''rateLimit.verification.maxQueued must not be negative'') else None),
              (if vg_MaxWaitMs (rt_Verification c) \<le> 0 then Some (text_msg ''rateLimit.verification.maxWaitMs must be positive'') else None),
              (if rt_ForwardedHeader c = [] then Some (text_msg ''rateLimit.forwardedHeader must not be empty'') else None)] @
             map validateCIDROrAddr (case rt_TrustedProxies c of None \<Rightarrow> [] | Some ps \<Rightarrow> ps)))"

text \<open>The environment sets a number only when its value reads as a positive one.\<close>

definition setPositiveInt :: "string \<Rightarrow> int \<Rightarrow> int" where
  "setPositiveInt val dst =
     (if val = [] then dst else case atoi val of Some n \<Rightarrow> if n > 0 then n else dst | None \<Rightarrow> dst)"

text \<open>
  Whatever a file leaves out, the defaults make a configuration with both budgets active and a
  bounded queue; it is refused for its header names and proxy entries alone.
\<close>

lemma ApplyDefaults_limits:
  assumes "validateEdgeViewerHeader (rt_EdgeViewerHeader c) (rt_ForwardedHeader (ApplyDefaults c)) = None"
    "rt_Enabled c \<noteq> Some False" "\<forall>ps. rt_TrustedProxies c = Some ps \<longrightarrow> (\<forall>p \<in> set ps. f p = None)"
  shows "rate_validate f (ApplyDefaults c) = [] \<and> rate_Active (ApplyDefaults c) \<and>
    rule_Active \<lparr>ru_Limit = rg_Requests (rt_Anonymous (ApplyDefaults c)), ru_Burst = rg_Burst (rt_Anonymous (ApplyDefaults c)),
      ru_Window = rg_WindowSeconds (rt_Anonymous (ApplyDefaults c)) * 1000000000\<rparr> \<and>
    0 < vg_MaxQueued (rt_Verification (ApplyDefaults c))"
proof -
  have "rt_EdgeViewerHeader (ApplyDefaults c) = rt_EdgeViewerHeader c" by (simp add: ApplyDefaults_def Let_def)
  moreover have "present (map f ps) = []" if "\<forall>p \<in> set ps. f p = None" for ps
    using that by (induction ps) (simp_all add: present_def)
  moreover have a: "rate_Active (ApplyDefaults c)"
    using assms(2) by (cases "rt_Enabled c") (auto simp: ApplyDefaults_def Let_def rate_Active_def or_default_def)
  ultimately show ?thesis using assms(1,3)
    by (cases "rt_TrustedProxies c")
      (simp_all add: rate_validate_def rule_validate_def present_def ApplyDefaults_def Let_def rule_applyDefaults_def or_default_def rule_Active_def)
qed

end
