(* ===== verification/ClientAddr.thy ===== *)
theory ClientAddr
  imports GoText Ratelimit "HOL-Library.Word"
begin

text \<open>
  Who a request is from (\<^verbatim>\<open>delivery/httpkit/clientaddr\<close>): the addresses and prefixes of \<^verbatim>\<open>net/netip\<close>
  with their texts, the resolver that believes a forwarded header exactly as far as the socket
  peer and the hops behind it are configured as trusted, and why a header written by the caller
  does not change the answer. Addresses are machine words; a header is looked up by its name in
  any case.
\<close>

unbundle bit_operations_syntax

section \<open>Addresses\<close>

text \<open>\<^verbatim>\<open>netip.Addr\<close>: IPv4, or IPv6 with a zone, empty for none.\<close>

datatype ip_addr = V4 "32 word" | V6 "128 word" string

definition Is4In6 :: "128 word \<Rightarrow> bool" where
  "Is4In6 w \<longleftrightarrow> drop_bit 32 w = 0xFFFF"

fun Unmap :: "ip_addr \<Rightarrow> ip_addr" where
  "Unmap (V4 w) = V4 w"
| "Unmap (V6 w z) = (if Is4In6 w then V4 (ucast w) else V6 w z)"

fun BitLen :: "ip_addr \<Rightarrow> nat" where
  "BitLen (V4 w) = 32"
| "BitLen (V6 w z) = 128"

text \<open>The four fields of an IPv4 text: no empty field, no leading zero, at most 255 each.\<close>

fun parseIPv4Fields :: "string \<Rightarrow> char option \<Rightarrow> int \<Rightarrow> nat \<Rightarrow> int list \<Rightarrow> int list option" where
  "parseIPv4Fields [] prev val digLen fs = (if length fs < 3 then None else Some (fs @ [val]))"
| "parseIPv4Fields (c # s) prev val digLen fs =
     (if is_digit c then
        if digLen = 1 \<and> val = 0 then None
        else let val' = val * 10 + digit_val c
          in if val' > 255 then None else parseIPv4Fields s (Some c) val' (digLen + 1) fs
      else if c = CHR ''.'' then
        if prev = None \<or> s = [] \<or> prev = Some (CHR ''.'') then None
        else if length fs = 3 then None
        else parseIPv4Fields s (Some c) 0 0 (fs @ [val])
      else None)"

definition parseIPv4 :: "string \<Rightarrow> ip_addr option" where
  "parseIPv4 s = map_option (\<lambda>fs. V4 (foldl (\<lambda>w f. push_bit 8 w OR of_int f) 0 fs)) (parseIPv4Fields s None 0 0 [])"

definition hex_val :: "char \<Rightarrow> int option" where
  "hex_val c =
     (let n = (of_char c :: int)
      in if 48 \<le> n \<and> n \<le> 57 then Some (n - 48) else if 97 \<le> n \<and> n \<le> 102 then Some (n - 87)
         else if 65 \<le> n \<and> n \<le> 70 then Some (n - 55) else None)"

text \<open>The hexadecimal digits a text starts with: their value, their number, and what follows.\<close>

fun hex_run :: "string \<Rightarrow> int \<Rightarrow> nat \<Rightarrow> (int \<times> nat \<times> string) option" where
  "hex_run [] acc off = Some (acc, off, [])"
| "hex_run (c # s) acc off =
     (case hex_val c of
        None \<Rightarrow> Some (acc, off, c # s)
      | Some d \<Rightarrow> if off > 3 then None else hex_run s (acc * 16 + d) (off + 1))"

text \<open>The groups of an IPv6 text, with the place of the ellipsis and what was not read.\<close>

function parseIPv6_loop :: "string \<Rightarrow> int list \<Rightarrow> nat option \<Rightarrow> (int list \<times> nat option \<times> string) option" where
  "parseIPv6_loop s groups ellipsis =
     (if 8 \<le> length groups then Some (groups, ellipsis, s)
      else case hex_run s 0 0 of
          None \<Rightarrow> None
        | Some (acc, off, rest) \<Rightarrow>
            if off = 0 then None
            else case rest of
                [] \<Rightarrow> Some (groups @ [acc], ellipsis, [])
              | c # rest1 \<Rightarrow>
                  if c = CHR ''.'' then
                    if ellipsis = None \<and> length groups \<noteq> 6 then None
                    else if length groups > 6 then None
                    else (case parseIPv4Fields s None 0 0 [] of
                        Some [a, b, c, d] \<Rightarrow> Some (groups @ [a * 256 + b, c * 256 + d], ellipsis, [])
                      | _ \<Rightarrow> None)
                  else if c \<noteq> CHR '':'' then None
                  else (case rest1 of
                      [] \<Rightarrow> None
                    | d # rest2 \<Rightarrow>
                        if d = CHR '':'' then
                          if ellipsis \<noteq> None then None
                          else if rest2 = [] then Some (groups @ [acc], Some (length groups + 1), [])
                          else parseIPv6_loop rest2 (groups @ [acc]) (Some (length groups + 1))
                        else parseIPv6_loop rest1 (groups @ [acc]) ellipsis))"
  by pat_completeness auto
termination by (relation "measure (\<lambda>(s, groups, ellipsis). 8 - length groups)") auto

declare parseIPv6_loop.simps [simp del]

definition v6_word :: "int list \<Rightarrow> 128 word" where
  "v6_word groups = foldl (\<lambda>w g. push_bit 16 w OR of_int g) 0 groups"

definition parseIPv6 :: "string \<Rightarrow> ip_addr option" where
  "parseIPv6 text =
     (let s = takeWhile (\<lambda>c. c \<noteq> CHR ''%'') text;
          zone = drop (length s + 1) text;
          leading = take 2 s = ''::'';
          s' = (if leading then drop 2 s else s)
      in if length s < length text \<and> zone = [] then None
         else if leading \<and> s' = [] then Some (V6 0 zone)
         else case parseIPv6_loop s' [] (if leading then Some 0 else None) of
             None \<Rightarrow> None
           | Some (groups, ellipsis, rest) \<Rightarrow>
               if rest \<noteq> [] then None
               else if length groups < 8 then
                 (case ellipsis of None \<Rightarrow> None
                  | Some e \<Rightarrow> Some (V6 (v6_word (take e groups @ replicate (8 - length groups) 0 @ drop e groups)) zone))
               else if ellipsis \<noteq> None then None
               else Some (V6 (v6_word groups) zone))"

definition ParseAddr :: "string \<Rightarrow> ip_addr option" where
  "ParseAddr s =
     (case find (\<lambda>c. c \<in> set ''.:%'') s of
        None \<Rightarrow> None
      | Some c \<Rightarrow> if c = CHR ''.'' then parseIPv4 s else if c = CHR '':'' then parseIPv6 s else None)"

text \<open>
  The text of an address: four decimal fields, or the groups in hexadecimal with the first longest
  run of at least two zero groups written as an ellipsis.
\<close>

definition hex_digit_text :: "int \<Rightarrow> string" where
  "hex_digit_text d = [char_of (if d < 10 then 48 + d else 87 + d)]"

definition hex_text :: "int \<Rightarrow> string" where
  "hex_text g =
     (let ds = map (\<lambda>i. (g div 16 ^ i) mod 16) [3, 2, 1, 0 :: nat]; sig = dropWhile (\<lambda>d. d = 0) ds
      in concat (map hex_digit_text (if sig = [] then [0] else sig)))"

definition v6_groups :: "128 word \<Rightarrow> int list" where
  "v6_groups w = map (\<lambda>i. uint (drop_bit (16 * i) w AND 0xFFFF)) [7, 6, 5, 4, 3, 2, 1, 0]"

fun zero_run :: "int list \<Rightarrow> nat" where
  "zero_run [] = 0"
| "zero_run (g # gs) = (if g = 0 then Suc (zero_run gs) else 0)"

definition longest_zeros :: "int list \<Rightarrow> (nat \<times> nat) option" where
  "longest_zeros gs =
     foldl (\<lambda>best i. let l = zero_run (drop i gs) in if 2 \<le> l \<and> (case best of None \<Rightarrow> 0 | Some (_, n) \<Rightarrow> n) < l then Some (i, l) else best)
       None [0..<8]"

definition group_text :: "int list \<Rightarrow> string" where
  "group_text gs = concat (map (\<lambda>(i, g). (if i = 0 then [] else '':'') @ hex_text g) (enumerate 0 gs))"

fun addr_String :: "ip_addr \<Rightarrow> string" where
  "addr_String (V4 w) =
     itoa (uint (drop_bit 24 w)) @ ''.'' @ itoa (uint (drop_bit 16 w AND 0xFF)) @ ''.'' @ itoa (uint (drop_bit 8 w AND 0xFF)) @ ''.'' @
     itoa (uint (w AND 0xFF))"
| "addr_String (V6 w zone) =
     (let gs = v6_groups w
      in (case longest_zeros gs of None \<Rightarrow> group_text gs
          | Some (i, l) \<Rightarrow> group_text (take i gs) @ ''::'' @ group_text (drop (i + l) gs)) @
         (if zone = [] then [] else ''%'' @ zone))"

lemma ParseAddr_examples:
  "ParseAddr ''10.0.0.1'' = Some (V4 0x0A000001)" "ParseAddr ''10.0.0.01'' = None" "ParseAddr ''256.0.0.1'' = None"
  "ParseAddr ''2001:db8::1:0'' = Some (V6 0x20010DB8000000000000000000010000 [])"
  "ParseAddr ''fe80::1%eth0'' = Some (V6 0xFE800000000000000000000000000001 ''eth0'')"
  "map_option Unmap (ParseAddr ''::ffff:1.2.3.4'') = Some (V4 0x01020304)" "ParseAddr ''1::2::3'' = None" "ParseAddr ''unknown'' = None"
  by code_simp+

lemma addr_String_examples:
  "addr_String (V4 0xC0A80001) = ''192.168.0.1''" "addr_String (V6 0x20010DB8000000000000000000010000 []) = ''2001:db8::1:0''"
  "addr_String (V6 1 ''lo'') = ''::1%lo''"
  by code_simp+

section \<open>Prefixes\<close>

text \<open>\<^verbatim>\<open>netip.Prefix\<close>: an address without a zone and a number of bits.\<close>

datatype ip_prefix = Prefix ip_addr nat

text \<open>The part before and the part after the last \<open>c\<close>.\<close>

definition split_last :: "char \<Rightarrow> string \<Rightarrow> (string \<times> string) option" where
  "split_last c s =
     (case dropWhile (\<lambda>x. x \<noteq> c) (rev s) of
        [] \<Rightarrow> None
      | _ # r \<Rightarrow> Some (rev r, rev (takeWhile (\<lambda>x. x \<noteq> c) (rev s))))"

fun Masked :: "ip_prefix \<Rightarrow> ip_prefix" where
  "Masked (Prefix (V4 w) n) = Prefix (V4 (push_bit (32 - n) (drop_bit (32 - n) w))) n"
| "Masked (Prefix (V6 w z) n) = Prefix (V6 (push_bit (128 - n) (drop_bit (128 - n) w)) z) n"

definition netip_ParsePrefix :: "string \<Rightarrow> ip_prefix option" where
  "netip_ParsePrefix s =
     (case split_last (CHR ''/'') s of
        None \<Rightarrow> None
      | Some (addr, bits) \<Rightarrow>
          (case ParseAddr addr of
             None \<Rightarrow> None
           | Some a \<Rightarrow>
               if (case a of V4 _ \<Rightarrow> False | V6 _ z \<Rightarrow> z \<noteq> []) then None
               else if length bits > 1 \<and> \<not> (hd bits \<noteq> CHR ''0'' \<and> is_digit (hd bits)) then None
               else (case atoi bits of
                   None \<Rightarrow> None
                 | Some n \<Rightarrow> if n < 0 \<or> int (BitLen a) < n then None else Some (Prefix a (nat n)))))"

text \<open>An address with a zone is in no prefix; the families do not mix.\<close>

fun Contains :: "ip_prefix \<Rightarrow> ip_addr \<Rightarrow> bool" where
  "Contains (Prefix (V4 p) n) (V4 w) \<longleftrightarrow> drop_bit (32 - n) (w XOR p) = 0"
| "Contains (Prefix (V6 p _) n) (V6 w z) \<longleftrightarrow> z = [] \<and> drop_bit (128 - n) (w XOR p) = 0"
| "Contains _ _ \<longleftrightarrow> False"

definition ParsePrefix :: "string \<Rightarrow> ip_prefix fallible" where
  "ParsePrefix raw0 =
     (let raw = TrimSpace raw0
      in if CHR ''/'' \<in> set raw then
           (case netip_ParsePrefix raw of
              None \<Rightarrow> Inl (Errorf ''trusted proxy %q is not a valid CIDR: %w'' [S raw])
            | Some p \<Rightarrow> Inr (Masked p))
         else case ParseAddr raw of
             None \<Rightarrow> Inl (Errorf ''trusted proxy %q is not a valid IP address or CIDR: %w'' [S raw])
           | Some a \<Rightarrow> let u = Unmap a in Inr (Prefix (case u of V4 w \<Rightarrow> V4 w | V6 w _ \<Rightarrow> V6 w []) (BitLen u)))"

section \<open>Reading an address\<close>

text \<open>\<^verbatim>\<open>strconv.ParseUint(s, 10, 16)\<close> succeeds.\<close>

definition is_port :: "string \<Rightarrow> bool" where
  "is_port s \<longleftrightarrow> s \<noteq> [] \<and> list_all is_digit s \<and> dec_val s \<le> 65535"

definition ParseAddrPort :: "string \<Rightarrow> ip_addr option" where
  "ParseAddrPort s =
     (case split_last (CHR '':'') s of
        None \<Rightarrow> None
      | Some (host, port) \<Rightarrow>
          if host = [] \<or> port = [] then None
          else
            let v6 = (hd host = CHR ''['')
            in if v6 \<and> (length host < 2 \<or> last host \<noteq> CHR '']'') then None
               else if \<not> is_port port then None
               else (case ParseAddr (if v6 then butlast (tl host) else host) of
                   None \<Rightarrow> None
                 | Some a \<Rightarrow> if v6 = (BitLen a = 128) then Some a else None))"

definition SplitHostPort :: "string \<Rightarrow> string option" where
  "SplitHostPort s =
     (case split_last (CHR '':'') s of
        None \<Rightarrow> None
      | Some (before1, port) \<Rightarrow>
          if hd s = CHR ''['' then
            let host = takeWhile (\<lambda>c. c \<noteq> CHR '']'') (tl s)
            in if s \<noteq> CHR ''['' # host @ '']:'' @ port then None
               else if CHR ''['' \<in> set host \<or> CHR ''['' \<in> set port \<or> CHR '']'' \<in> set port then None
               else Some host
          else if CHR '':'' \<in> set before1 then None
          else if CHR ''['' \<in> set s \<or> CHR '']'' \<in> set s then None
          else Some before1)"

definition trim_brackets :: "string \<Rightarrow> string" where
  "trim_brackets s = (let b = (\<lambda>c. c \<in> set ''[]'') in rev (dropWhile b (rev (dropWhile b s))))"

definition parseAddress :: "string \<Rightarrow> ip_addr option" where
  "parseAddress raw0 =
     (let raw = TrimSpace raw0
      in if raw = [] then None
         else case ParseAddr raw of
             Some a \<Rightarrow> Some (Unmap a)
           | None \<Rightarrow>
               (case ParseAddrPort raw of
                  Some a \<Rightarrow> Some (Unmap a)
                | None \<Rightarrow>
                    (case Option.bind (SplitHostPort raw) (\<lambda>host. ParseAddr (trim_brackets host)) of
                       Some a \<Rightarrow> Some (Unmap a)
                     | None \<Rightarrow> map_option Unmap (ParseAddr (trim_brackets raw)))))"

lemma parseAddress_examples:
  "parseAddress ''203.0.113.9:4711'' = Some (V4 0xCB007109)" "parseAddress '' [2001:db8::1]:443'' = Some (V6 0x20010DB8000000000000000000000001 [])"
  "parseAddress ''[::1]'' = Some (V6 1 [])" "parseAddress ''_hidden'' = None" "parseAddress ''1.2.3.4:http'' = Some (V4 0x01020304)"
  by code_simp+

section \<open>The resolver\<close>

datatype addr_source = FromPeer | FromForwarded | FromProxy | FromNowhere

record caller =
  ca_Addr :: string
  ca_Source :: addr_source

definition UnknownAddress :: string where
  "UnknownAddress = ''unknown''"

definition Identifies :: "caller \<Rightarrow> bool" where
  "Identifies c \<longleftrightarrow> ca_Source c = FromPeer \<or> ca_Source c = FromForwarded"

record addr_resolver =
  ar_trusted :: "ip_prefix list"
  ar_header :: string
  ar_edgeHeader :: string

text \<open>A request: its socket peer, and the lines of a header.\<close>

record http_request =
  hr_RemoteAddr :: string
  hr_Values :: "string \<Rightarrow> string list"

definition hr_Get :: "http_request \<Rightarrow> string \<Rightarrow> string" where
  "hr_Get r name = (case hr_Values r name of [] \<Rightarrow> [] | v # _ \<Rightarrow> v)"

definition NewResolver :: "string list \<Rightarrow> string \<Rightarrow> string \<Rightarrow> addr_resolver fallible" where
  "NewResolver trustedCIDRs header edgeViewerHeader =
     (case traverse ParsePrefix (filter (\<lambda>s. s \<noteq> []) (map TrimSpace trustedCIDRs)) of
        Inl e \<Rightarrow> Inl e
      | Inr ps \<Rightarrow> Inr
          \<lparr>ar_trusted = ps, ar_header = (if TrimSpace header = [] then ''X-Forwarded-For'' else TrimSpace header),
           ar_edgeHeader = TrimSpace edgeViewerHeader\<rparr>)"

definition trusts :: "addr_resolver \<Rightarrow> ip_addr \<Rightarrow> bool" where
  "trusts a addr \<longleftrightarrow> (\<exists>p \<in> set (ar_trusted a). Contains p (Unmap addr))"

text \<open>\<^verbatim>\<open>strings.Split\<close> at a character.\<close>

fun split_on :: "char \<Rightarrow> string \<Rightarrow> string list" where
  "split_on d [] = [[]]"
| "split_on d (c # s) =
     (if c = d then [] # split_on d s else case split_on d s of [] \<Rightarrow> [[c]] | w # ws \<Rightarrow> (c # w) # ws)"

definition forwardedChain :: "addr_resolver \<Rightarrow> http_request \<Rightarrow> string list" where
  "forwardedChain a r =
     rev (filter (\<lambda>p. p \<noteq> []) (map TrimSpace (concat (map (split_on (CHR '','')) (hr_Values r (ar_header a))))))"

fun walk_hops :: "addr_resolver \<Rightarrow> string list \<Rightarrow> ip_addr option" where
  "walk_hops a [] = None"
| "walk_hops a (candidate # rest) =
     (case parseAddress candidate of
        None \<Rightarrow> None
      | Some addr \<Rightarrow> if trusts a addr then walk_hops a rest else Some addr)"

definition Resolve :: "addr_resolver option \<Rightarrow> http_request option \<Rightarrow> caller" where
  "Resolve a0 r0 =
     (case (a0, r0) of
        (Some a, Some r) \<Rightarrow>
          (case parseAddress (hr_RemoteAddr r) of
             None \<Rightarrow> \<lparr>ca_Addr = UnknownAddress, ca_Source = FromNowhere\<rparr>
           | Some peer \<Rightarrow>
               if \<not> trusts a peer then \<lparr>ca_Addr = addr_String peer, ca_Source = FromPeer\<rparr>
               else if ar_edgeHeader a \<noteq> [] then
                 (case parseAddress (hr_Get r (ar_edgeHeader a)) of
                    Some addr \<Rightarrow> \<lparr>ca_Addr = addr_String addr, ca_Source = FromForwarded\<rparr>
                  | None \<Rightarrow> \<lparr>ca_Addr = addr_String peer, ca_Source = FromProxy\<rparr>)
               else (case walk_hops a (forwardedChain a r) of
                   Some addr \<Rightarrow> \<lparr>ca_Addr = addr_String addr, ca_Source = FromForwarded\<rparr>
                 | None \<Rightarrow> \<lparr>ca_Addr = addr_String peer, ca_Source = FromProxy\<rparr>))
      | _ \<Rightarrow> \<lparr>ca_Addr = UnknownAddress, ca_Source = FromNowhere\<rparr>)"

text \<open>What the rate limiter sees of a caller.\<close>

definition limiter_client :: "caller \<Rightarrow> client" where
  "limiter_client c = \<lparr>cl_Addr = ca_Addr c, cl_Identifies = Identifies c\<rparr>"

section \<open>Forged headers\<close>

lemma split_on_nonempty: "split_on d s \<noteq> []"
  by (induction s) (auto split: list.splits)

lemma split_on_plain: "d \<notin> set s \<Longrightarrow> split_on d s = [s]"
  by (induction s) auto

lemma split_on_append: "split_on d (s @ d # t) = split_on d s @ split_on d t"
  by (induction s) (auto split: list.splits simp: split_on_nonempty)

lemma parseAddress_trim: "parseAddress (TrimSpace s) = parseAddress s"
  by (simp add: parseAddress_def)

lemma parseAddress_nonempty: "parseAddress s = Some a \<Longrightarrow> TrimSpace s \<noteq> []"
  by (auto simp: parseAddress_def)

text \<open>What proxies append to a header line: each the peer it saw.\<close>

fun append_hops :: "string \<Rightarrow> string list \<Rightarrow> string" where
  "append_hops line [] = line"
| "append_hops line (hop # hops) = append_hops (if line = [] then hop else line @ '', '' @ hop) hops"

lemma walk_skips:
  "\<forall>h \<in> set hops. \<exists>q. parseAddress h = Some q \<and> trusts a q \<Longrightarrow> walk_hops a (hops @ rest) = walk_hops a rest"
  by (induction hops) auto

definition hops_of :: "string \<Rightarrow> string list" where
  "hops_of line = filter (\<lambda>p. p \<noteq> []) (map TrimSpace (split_on (CHR '','') line))"

lemma forwardedChain_hops: "forwardedChain a r = rev (concat (map hops_of (hr_Values r (ar_header a))))"
  by (simp add: forwardedChain_def hops_of_def [abs_def] map_concat filter_concat comp_def)

lemma TrimSpace_blank: "TrimSpace (CHR '' '' # s) = TrimSpace s"
proof -
  have "leading_space (CHR '' '' # s) = Some '' ''"
    by (simp add: leading_space_def space_runes_def)
  then show ?thesis by (simp add: TrimSpace_def trim_left.simps [of "CHR '' '' # s"])
qed

lemma TrimSpace_empty [simp]: "TrimSpace [] = []"
  by code_simp

lemma hops_of_plain: "CHR '','' \<notin> set h \<Longrightarrow> TrimSpace h \<noteq> [] \<Longrightarrow> hops_of h = [TrimSpace h]"
  by (simp add: hops_of_def split_on_plain)

lemma hops_of_appended:
  "CHR '','' \<notin> set h \<Longrightarrow> TrimSpace h \<noteq> [] \<Longrightarrow> hops_of (if line = [] then h else line @ '', '' @ h) = hops_of line @ [TrimSpace h]"
  by (auto simp: hops_of_plain split_on_append split_on_plain TrimSpace_blank) (simp_all add: hops_of_def split_on_append split_on_plain TrimSpace_blank)

lemma hops_of_append_hops:
  "\<forall>h \<in> set hops. CHR '','' \<notin> set h \<and> TrimSpace h \<noteq> [] \<Longrightarrow> hops_of (append_hops line hops) = hops_of line @ map TrimSpace hops"
proof (induction hops arbitrary: line)
  case (Cons h hops)
  have "hops_of (append_hops line (h # hops)) = hops_of (if line = [] then h else line @ '', '' @ h) @ map TrimSpace hops"
    unfolding append_hops.simps by (rule Cons.IH) (use Cons.prems in simp)
  with hops_of_appended [of h line] Cons.prems show ?case by simp
qed simp

lemma Resolve_peer:
  "parseAddress (hr_RemoteAddr r) = Some peer \<Longrightarrow> \<not> trusts a peer \<Longrightarrow>
     Resolve (Some a) (Some r) = \<lparr>ca_Addr = addr_String peer, ca_Source = FromPeer\<rparr>"
  by (simp add: Resolve_def)

lemma walk_appended:
  assumes "hr_Values r (ar_header a) = forged_lines @ [append_hops forged (seen # proxies)]"
    and "parseAddress seen = Some addr" "\<not> trusts a addr" "CHR '','' \<notin> set seen"
    and "\<forall>h \<in> set proxies. CHR '','' \<notin> set h \<and> (\<exists>q. parseAddress h = Some q \<and> trusts a q)"
  shows "walk_hops a (forwardedChain a r) = Some addr"
proof -
  have plain: "\<forall>h \<in> set (seen # proxies). CHR '','' \<notin> set h \<and> TrimSpace h \<noteq> []"
    using assms(2,4,5) parseAddress_nonempty by auto
  have chain: "forwardedChain a r =
      map TrimSpace (rev proxies) @ TrimSpace seen # rev (concat (map hops_of forged_lines) @ hops_of forged)"
    by (simp add: forwardedChain_hops assms(1) hops_of_append_hops [OF plain] rev_map del: append_hops.simps)
  have "\<forall>h \<in> set (map TrimSpace (rev proxies)). \<exists>q. parseAddress h = Some q \<and> trusts a q"
    using assms(5) by (auto simp: parseAddress_trim)
  from walk_skips [OF this] show ?thesis
    using assms(2,3) by (simp add: chain parseAddress_trim)
qed

text \<open>
  Property C15. A caller cannot write its own address. A request whose socket peer is not a trusted
  proxy is attributed to that peer, whatever headers it carries or lacks. Behind trusted proxies,
  which append the peer they saw, it is attributed to the address the outermost of them saw - also
  when the caller sent header lines of its own and any text, with commas, addresses or garbage, in
  the line the proxies append to. With a distribution declared only the header it writes is read:
  without a usable one the answer is the proxy, whatever the chain says.
\<close>

theorem forged_headers_ignored:
  assumes "parseAddress (hr_RemoteAddr r) = Some peer"
  shows "(\<not> trusts a peer \<longrightarrow> Resolve (Some a) (Some r) = \<lparr>ca_Addr = addr_String peer, ca_Source = FromPeer\<rparr>) \<and>
    (\<forall>forged_lines forged seen proxies addr. trusts a peer \<longrightarrow> ar_edgeHeader a = [] \<longrightarrow>
       hr_Values r (ar_header a) = forged_lines @ [append_hops forged (seen # proxies)] \<longrightarrow>
       parseAddress seen = Some addr \<longrightarrow> \<not> trusts a addr \<longrightarrow> CHR '','' \<notin> set seen \<longrightarrow>
       (\<forall>h \<in> set proxies. CHR '','' \<notin> set h \<and> (\<exists>q. parseAddress h = Some q \<and> trusts a q)) \<longrightarrow>
       Resolve (Some a) (Some r) = \<lparr>ca_Addr = addr_String addr, ca_Source = FromForwarded\<rparr>) \<and>
    (trusts a peer \<longrightarrow> ar_edgeHeader a \<noteq> [] \<longrightarrow>
       Resolve (Some a) (Some r) = (case parseAddress (hr_Get r (ar_edgeHeader a)) of
           Some addr \<Rightarrow> \<lparr>ca_Addr = addr_String addr, ca_Source = FromForwarded\<rparr>
         | None \<Rightarrow> \<lparr>ca_Addr = addr_String peer, ca_Source = FromProxy\<rparr>))"
proof (intro conjI allI impI)
  fix forged_lines forged seen proxies addr
  assume "trusts a peer" "ar_edgeHeader a = []"
    and chain: "hr_Values r (ar_header a) = forged_lines @ [append_hops forged (seen # proxies)]" "parseAddress seen = Some addr"
      "\<not> trusts a addr" "CHR '','' \<notin> set seen" "\<forall>h \<in> set proxies. CHR '','' \<notin> set h \<and> (\<exists>q. parseAddress h = Some q \<and> trusts a q)"
  with assms walk_appended [OF chain] show "Resolve (Some a) (Some r) = \<lparr>ca_Addr = addr_String addr, ca_Source = FromForwarded\<rparr>"
    by (simp add: Resolve_def)
qed (use assms in \<open>simp_all add: Resolve_def\<close>)

text \<open>
  An address that identifies a caller is never one of our own proxies: no budget is shared by
  everybody behind one, unless a distribution's own header names it.
\<close>

lemma walk_untrusted: "walk_hops a hops = Some addr \<Longrightarrow> \<not> trusts a addr"
  by (induction hops) (auto split: option.splits if_splits)

theorem budget_key_is_a_caller:
  assumes "Identifies (Resolve (Some a) (Some r))" "ar_edgeHeader a = []"
  shows "\<exists>addr. ca_Addr (Resolve (Some a) (Some r)) = addr_String addr \<and> \<not> trusts a addr"
  using assms walk_untrusted by (auto simp: Resolve_def Identifies_def split: option.splits if_splits)

text \<open>With a distribution declared, the chain is never read.\<close>

lemma edge_only:
  assumes "ar_edgeHeader a \<noteq> []" "hr_RemoteAddr r = hr_RemoteAddr r'" "hr_Get r (ar_edgeHeader a) = hr_Get r' (ar_edgeHeader a)"
  shows "Resolve (Some a) (Some r) = Resolve (Some a) (Some r')"
  using assms by (simp add: Resolve_def split: option.split)

definition example_resolver :: addr_resolver where
  "example_resolver = \<lparr>ar_trusted = [Prefix (V4 0x0A000000) 8], ar_header = ''X-Forwarded-For'', ar_edgeHeader = []\<rparr>"

lemma NewResolver_example: "NewResolver ['' 10.0.0.0/8'', []] [] [] = Inr example_resolver"
  by code_simp

definition forged_request :: http_request where
  "forged_request = \<lparr>hr_RemoteAddr = ''10.0.0.7:5000'',
     hr_Values = (\<lambda>name. if name = ''X-Forwarded-For'' then [''127.0.0.1'', ''1.2.3.4, 203.0.113.9, 10.1.1.1''] else [])\<rparr>"

theorem forged_headers_witness:
  "Resolve (Some example_resolver) (Some forged_request) = \<lparr>ca_Addr = addr_String (V4 0xCB007109), ca_Source = FromForwarded\<rparr> \<and>
   Resolve (Some example_resolver) (Some (forged_request\<lparr>hr_RemoteAddr := ''198.51.100.3:9''\<rparr>)) =
     \<lparr>ca_Addr = addr_String (V4 0xC6336403), ca_Source = FromPeer\<rparr>"
proof
  have peer: "parseAddress (hr_RemoteAddr forged_request) = Some (V4 0x0A000007)" and trust: "trusts example_resolver (V4 0x0A000007)"
    and chain: "ar_edgeHeader example_resolver = []"
    "hr_Values forged_request (ar_header example_resolver) = [''127.0.0.1''] @ [append_hops ''1.2.3.4'' [''203.0.113.9'', ''10.1.1.1'']]"
    "parseAddress ''203.0.113.9'' = Some (V4 0xCB007109)" "\<not> trusts example_resolver (V4 0xCB007109)" "CHR '','' \<notin> set ''203.0.113.9''"
    and hop: "parseAddress ''10.1.1.1'' = Some (V4 0x0A010101)" "trusts example_resolver (V4 0x0A010101)"
    by code_simp+
  have hops: "\<forall>h \<in> set [''10.1.1.1'']. CHR '','' \<notin> set h \<and> (\<exists>q. parseAddress h = Some q \<and> trusts example_resolver q)"
    using hop by auto
  show "Resolve (Some example_resolver) (Some forged_request) = \<lparr>ca_Addr = addr_String (V4 0xCB007109), ca_Source = FromForwarded\<rparr>"
    using forged_headers_ignored [OF peer, of example_resolver] trust chain hops by blast
  have "parseAddress (hr_RemoteAddr (forged_request\<lparr>hr_RemoteAddr := ''198.51.100.3:9''\<rparr>)) = Some (V4 0xC6336403)"
    "\<not> trusts example_resolver (V4 0xC6336403)"
    by code_simp+
  with forged_headers_ignored
  show "Resolve (Some example_resolver) (Some (forged_request\<lparr>hr_RemoteAddr := ''198.51.100.3:9''\<rparr>)) =
     \<lparr>ca_Addr = addr_String (V4 0xC6336403), ca_Source = FromPeer\<rparr>"
    by blast
qed

end
