(* ===== verification/Lease.thy ===== *)
theory Lease
  imports GoText "HOL-Library.Word"
begin

text \<open>
  Leadership (\<^verbatim>\<open>src/platform/scheduler/lease.go\<close>): a Postgres advisory lock taken through a session
  that a process pins. The database is a table of locks and the set of live sessions; any number of
  processes, each with its pool of idle sessions, contend for it. What the network does to a call -
  refuse a connection, lose a query before or after it ran, break a session - is an argument of the
  call, and the moves of the processes and of the network happen in any order.
\<close>

unbundle bit_operations_syntax

section \<open>The key of a namespace\<close>

text \<open>\<^verbatim>\<open>fnv.New64a\<close> over the bytes of the name, read as a signed 64-bit integer.\<close>

definition fnv64a :: "string \<Rightarrow> 64 word" where
  "fnv64a name = foldl (\<lambda>h c. (h XOR of_nat (byte c)) * 1099511628211) 14695981039346656037 name"

definition LockKey :: "string \<Rightarrow> int" where
  "LockKey name = sint (fnv64a name)"

lemma LockKey_examples: "fnv64a ''a'' = 0xAF63DC4C8601EC8C" "LockKey '''' = - 3750763034362895579"
  by code_simp+

lemma LockKey_range: "- (2 ^ 63) \<le> LockKey name" "LockKey name < 2 ^ 63"
  using sint_ge [of "fnv64a name"] sint_lt [of "fnv64a name"] by (simp_all add: LockKey_def)

section \<open>Advisory locks of sessions\<close>

text \<open>
  A lock belongs to the session that took it and counts how often; a session that ends, however it
  ends, gives up its locks. Sessions are numbered in the order they were opened.
\<close>

record advisory_db =
  db_live :: "nat \<Rightarrow> bool"
  db_lock :: "int \<Rightarrow> (nat \<times> nat) option"
  db_next :: nat

definition pg_try_advisory_lock :: "nat \<Rightarrow> int \<Rightarrow> advisory_db \<Rightarrow> advisory_db \<times> bool" where
  "pg_try_advisory_lock s k db =
     (case db_lock db k of
        None \<Rightarrow> (db\<lparr>db_lock := (db_lock db)(k \<mapsto> (s, 1))\<rparr>, True)
      | Some (h, n) \<Rightarrow>
          if h = s then (db\<lparr>db_lock := (db_lock db)(k \<mapsto> (s, n + 1))\<rparr>, True) else (db, False))"

definition pg_advisory_unlock :: "nat \<Rightarrow> int \<Rightarrow> advisory_db \<Rightarrow> advisory_db" where
  "pg_advisory_unlock s k db =
     (case db_lock db k of
        None \<Rightarrow> db
      | Some (h, n) \<Rightarrow>
          if h = s then db\<lparr>db_lock := (db_lock db)(k := (if n \<le> 1 then None else Some (s, n - 1)))\<rparr> else db)"

definition end_session :: "nat \<Rightarrow> advisory_db \<Rightarrow> advisory_db" where
  "end_session s db =
     db\<lparr>db_live := (db_live db)(s := False),
        db_lock := (\<lambda>k. case db_lock db k of Some (h, n) \<Rightarrow> if h = s then None else Some (h, n) | None \<Rightarrow> None)\<rparr>"

section \<open>A process and its lease\<close>

text \<open>The lease's name and pinned connection, and the idle connections of the process's pool.\<close>

record process =
  pr_name :: string
  pr_conn :: "nat option"
  pr_idle :: "nat list"

text \<open>
  What the network does to one \<^verbatim>\<open>Acquire\<close>: whether the ping gets through, how the pool answers a request
  for a connection, what becomes of the query, and whether the driver finds a connection broken
  when a call on it failed.
\<close>

datatype connection = Unreachable | Reuse nat | Dial
datatype query_fate = Unsent | AnswerLost | Answered

record network =
  nw_ping :: bool
  nw_conn :: connection
  nw_query :: query_fate
  nw_broken :: bool

text \<open>
  \<^verbatim>\<open>Connx\<close> takes an idle connection of the pool or opens a session. \<^verbatim>\<open>Close\<close> on the connection it
  returns does not end the session: it hands the connection back to the pool, unless the
  driver has found it broken.
\<close>

definition Connx :: "connection \<Rightarrow> advisory_db \<times> process \<Rightarrow> (nat \<times> advisory_db \<times> process) option" where
  "Connx c dp =
     (case c of
        Unreachable \<Rightarrow> None
      | Reuse s \<Rightarrow>
          if s \<in> set (pr_idle (snd dp)) then Some (s, fst dp, (snd dp)\<lparr>pr_idle := remove1 s (pr_idle (snd dp))\<rparr>) else None
      | Dial \<Rightarrow>
          let s = db_next (fst dp)
          in Some (s, (fst dp)\<lparr>db_live := (db_live (fst dp))(s := True), db_next := s + 1\<rparr>, snd dp))"

definition conn_Close :: "bool \<Rightarrow> nat \<Rightarrow> process \<Rightarrow> process" where
  "conn_Close broken s p = (if broken then p else p\<lparr>pr_idle := s # pr_idle p\<rparr>)"

definition dropConn :: "bool \<Rightarrow> process \<Rightarrow> process" where
  "dropConn broken p =
     (case pr_conn p of None \<Rightarrow> p | Some s \<Rightarrow> conn_Close broken s (p\<lparr>pr_conn := None\<rparr>))"

text \<open>The lock statement over the network: \<^const>\<open>None\<close> when no answer arrived.\<close>

definition query_lock :: "query_fate \<Rightarrow> nat \<Rightarrow> int \<Rightarrow> advisory_db \<Rightarrow> advisory_db \<times> bool option" where
  "query_lock fate s k db =
     (if \<not> db_live db s then (db, None)
      else case fate of
          Unsent \<Rightarrow> (db, None)
        | AnswerLost \<Rightarrow> (fst (pg_try_advisory_lock s k db), None)
        | Answered \<Rightarrow> (case pg_try_advisory_lock s k db of (db', b) \<Rightarrow> (db', Some b)))"

text \<open>\<^verbatim>\<open>AdvisoryLease.Acquire\<close>: verify the pinned session, or offer oneself on a new one.\<close>

definition pings :: "network \<Rightarrow> advisory_db \<Rightarrow> process \<Rightarrow> bool" where
  "pings nw db p \<longleftrightarrow> (case pr_conn p of None \<Rightarrow> False | Some s \<Rightarrow> nw_ping nw \<and> db_live db s)"

definition offer :: "network \<Rightarrow> advisory_db \<times> process \<Rightarrow> (advisory_db \<times> process) \<times> bool fallible" where
  "offer nw dp =
     (case Connx (nw_conn nw) dp of
        None \<Rightarrow> (dp, Inl (Errorf ''scheduler: pin lease connection: %w'' []))
      | Some (s, db, p) \<Rightarrow>
          (case query_lock (nw_query nw) s (LockKey (pr_name p)) db of
             (db', None) \<Rightarrow>
               ((db', conn_Close (nw_broken nw) s p), Inl (Errorf ''scheduler: try advisory lock %q: %w'' [S (pr_name p)]))
           | (db', Some acquired) \<Rightarrow>
               if \<not> acquired then ((db', conn_Close False s p), Inr False)
               else ((db', p\<lparr>pr_conn := Some s\<rparr>), Inr True)))"

definition lease_Acquire :: "network \<Rightarrow> advisory_db \<times> process \<Rightarrow> (advisory_db \<times> process) \<times> bool fallible" where
  "lease_Acquire nw dp =
     (if pings nw (fst dp) (snd dp) then (dp, Inr True)
      else offer nw (fst dp, dropConn (nw_broken nw) (snd dp)))"

text \<open>\<^verbatim>\<open>AdvisoryLease.Release\<close>; \<open>sent\<close> says whether the unlock reached the server.\<close>

definition lease_Release :: "bool \<Rightarrow> bool \<Rightarrow> advisory_db \<times> process \<Rightarrow> advisory_db \<times> process" where
  "lease_Release sent broken dp =
     (case pr_conn (snd dp) of
        None \<Rightarrow> dp
      | Some s \<Rightarrow>
          ((if sent \<and> db_live (fst dp) s then pg_advisory_unlock s (LockKey (pr_name (snd dp))) (fst dp) else fst dp),
           dropConn broken (snd dp)))"

section \<open>A deployment\<close>

record world =
  wo_db :: advisory_db
  wo_proc :: "nat \<Rightarrow> process"

definition at_process :: "nat \<Rightarrow> world \<Rightarrow> advisory_db \<times> process" where
  "at_process i w = (wo_db w, wo_proc w i)"

definition put_process :: "nat \<Rightarrow> advisory_db \<times> process \<Rightarrow> world \<Rightarrow> world" where
  "put_process i dp w = w\<lparr>wo_db := fst dp, wo_proc := (wo_proc w)(i := snd dp)\<rparr>"

text \<open>
  What can happen: a process offers itself or verifies its lease, gives it up, a session ends, a
  pool discards a connection (ending the session), a process dies and starts again with an empty
  pool - its sessions live on until the server reaps them.
\<close>

datatype move =
    Offers nat network
  | GivesUp nat bool bool
  | SessionEnds nat
  | Evicts nat nat
  | Restarts nat

fun perform :: "move \<Rightarrow> world \<Rightarrow> world" where
  "perform (Offers i nw) w = put_process i (fst (lease_Acquire nw (at_process i w))) w"
| "perform (GivesUp i sent broken) w = put_process i (lease_Release sent broken (at_process i w)) w"
| "perform (SessionEnds s) w = w\<lparr>wo_db := end_session s (wo_db w)\<rparr>"
| "perform (Evicts i s) w =
     (if s \<in> set (pr_idle (wo_proc w i))
      then put_process i (end_session s (wo_db w), (wo_proc w i)\<lparr>pr_idle := remove1 s (pr_idle (wo_proc w i))\<rparr>) w
      else w)"
| "perform (Restarts i) w = put_process i (wo_db w, (wo_proc w i)\<lparr>pr_conn := None, pr_idle := []\<rparr>) w"

definition moved :: "move list \<Rightarrow> world \<Rightarrow> world" where
  "moved ms w = foldl (\<lambda>w m. perform m w) w ms"

definition fresh_world :: "(nat \<Rightarrow> string) \<Rightarrow> world" where
  "fresh_world names =
     \<lparr>wo_db = \<lparr>db_live = (\<lambda>_. False), db_lock = (\<lambda>_. None), db_next = 0\<rparr>,
      wo_proc = (\<lambda>i. \<lparr>pr_name = names i, pr_conn = None, pr_idle = []\<rparr>)\<rparr>"

text \<open>A process leads when its pinned session is live and holds the lock of its name.\<close>

definition leads :: "world \<Rightarrow> nat \<Rightarrow> bool" where
  "leads w i \<longleftrightarrow>
     (case pr_conn (wo_proc w i) of
        None \<Rightarrow> False
      | Some s \<Rightarrow> db_live (wo_db w) s \<and> map_option fst (db_lock (wo_db w) (LockKey (pr_name (wo_proc w i)))) = Some s)"

section \<open>One leader\<close>

text \<open>The sessions a process can use, and the session that holds a lock.\<close>

definition sessions :: "process \<Rightarrow> nat list" where
  "sessions p = (case pr_conn p of None \<Rightarrow> [] | Some s \<Rightarrow> [s]) @ pr_idle p"

definition holder :: "advisory_db \<Rightarrow> int \<Rightarrow> nat option" where
  "holder db k = map_option fst (db_lock db k)"

text \<open>
  The invariant of a deployment: no session belongs to two processes or twice to one, sessions and
  holders were opened, and a pinned session that is live holds the lock it was pinned for.
\<close>

definition process_inv :: "advisory_db \<Rightarrow> process \<Rightarrow> bool" where
  "process_inv db p \<longleftrightarrow> distinct (sessions p) \<and> (\<forall>s \<in> set (sessions p). s < db_next db) \<and>
     (\<forall>s. pr_conn p = Some s \<longrightarrow> db_live db s \<longrightarrow> holder db (LockKey (pr_name p)) = Some s)"

definition lease_inv :: "world \<Rightarrow> bool" where
  "lease_inv w \<longleftrightarrow> (\<forall>i. process_inv (wo_db w) (wo_proc w i)) \<and>
     (\<forall>i j. i \<noteq> j \<longrightarrow> set (sessions (wo_proc w i)) \<inter> set (sessions (wo_proc w j)) = {}) \<and>
     (\<forall>k s. holder (wo_db w) k = Some s \<longrightarrow> s < db_next (wo_db w))"

text \<open>
  What a process does to the database and to itself: it keeps the sessions of others as they are,
  with the locks they hold, and gets no session but its own and new ones.
\<close>

definition local_move :: "advisory_db \<times> process \<Rightarrow> advisory_db \<times> process \<Rightarrow> bool" where
  "local_move dp dp' \<longleftrightarrow>
     pr_name (snd dp') = pr_name (snd dp) \<and> db_next (fst dp) \<le> db_next (fst dp') \<and>
     process_inv (fst dp') (snd dp') \<and> (\<forall>k s. holder (fst dp') k = Some s \<longrightarrow> s < db_next (fst dp')) \<and>
     (\<forall>s \<in> set (sessions (snd dp')). s \<in> set (sessions (snd dp)) \<or> db_next (fst dp) \<le> s) \<and>
     (\<forall>s. s < db_next (fst dp) \<longrightarrow> s \<notin> set (sessions (snd dp)) \<longrightarrow>
        (db_live (fst dp') s \<longrightarrow> db_live (fst dp) s) \<and> (\<forall>k. holder (fst dp) k = Some s \<longrightarrow> holder (fst dp') k = Some s))"

lemma local_move_inv:
  assumes inv: "lease_inv w" and mv: "local_move (at_process i w) dp'"
  shows "lease_inv (put_process i dp' w)"
proof -
  have own: "process_inv (fst dp') (snd dp')" and hold: "\<forall>k s. holder (fst dp') k = Some s \<longrightarrow> s < db_next (fst dp')"
    using mv by (simp_all add: local_move_def)
  have other: "process_inv (fst dp') (wo_proc w j) \<and> set (sessions (wo_proc w j)) \<inter> set (sessions (snd dp')) = {}" if "j \<noteq> i" for j
  proof -
    have pj: "process_inv (wo_db w) (wo_proc w j)" and dis: "set (sessions (wo_proc w j)) \<inter> set (sessions (wo_proc w i)) = {}"
      using inv that by (auto simp: lease_inv_def)
    have lt: "\<forall>s \<in> set (sessions (wo_proc w j)). s < db_next (wo_db w)"
      using pj by (simp add: process_inv_def)
    have conn: "\<forall>s. pr_conn (wo_proc w j) = Some s \<longrightarrow> s \<in> set (sessions (wo_proc w j))"
      by (simp add: sessions_def)
    show ?thesis
      using pj dis lt conn mv unfolding process_inv_def local_move_def at_process_def fst_conv snd_conv
      by (smt (verit, del_insts) disjoint_iff le_less_trans less_le_not_le order_less_le_trans)
  qed
  have swap: "set (sessions (snd dp')) \<inter> set (sessions (wo_proc w j)) = {}" if "i \<noteq> j" for j
    using other [of j] that by (simp add: Int_commute)
  have "\<forall>j k. j \<noteq> k \<longrightarrow> set (sessions (wo_proc w j)) \<inter> set (sessions (wo_proc w k)) = {}"
    using inv by (simp add: lease_inv_def)
  with own hold other swap show ?thesis
    unfolding lease_inv_def put_process_def by simp
qed

lemma local_move_trans: "local_move a b \<Longrightarrow> local_move b c \<Longrightarrow> local_move a c"
  unfolding local_move_def by (smt (verit, ccfv_threshold) le_trans order_less_le_trans linorder_not_le)

text \<open>A state of the database and a process from which every operation is such a move.\<close>

definition ready :: "advisory_db \<times> process \<Rightarrow> bool" where
  "ready dp \<longleftrightarrow> process_inv (fst dp) (snd dp) \<and> (\<forall>k s. holder (fst dp) k = Some s \<longrightarrow> s < db_next (fst dp))"

lemma ready_moved: "local_move dp dp' \<Longrightarrow> ready dp'"
  by (simp add: local_move_def ready_def)

lemma ready_at: "lease_inv w \<Longrightarrow> ready (at_process i w)"
  by (simp add: lease_inv_def ready_def at_process_def)

lemma local_move_drop: "ready dp \<Longrightarrow> local_move dp (fst dp, dropConn broken (snd dp))"
  by (cases dp; cases "pr_conn (snd dp)")
     (auto simp: local_move_def ready_def process_inv_def dropConn_def conn_Close_def sessions_def)

lemma dropConn_conn [simp]: "pr_conn (dropConn broken p) = None"
  by (auto simp: dropConn_def conn_Close_def split: option.split)

lemma dropConn_name [simp]: "pr_name (dropConn broken p) = pr_name p"
  by (auto simp: dropConn_def conn_Close_def split: option.split)

text \<open>Taking and giving back a lock changes nothing about the locks other sessions hold.\<close>

lemma try_lock_frame:
  "pg_try_advisory_lock s k db = (db', b) \<Longrightarrow>
     db_live db' = db_live db \<and> db_next db' = db_next db \<and> (holder db k' = Some h \<longrightarrow> holder db' k' = Some h) \<and>
     (holder db' k' = Some h \<longrightarrow> holder db k' = Some h \<or> h = s) \<and> (b \<longleftrightarrow> holder db' k = Some s)"
  by (auto simp: pg_try_advisory_lock_def holder_def split: option.splits if_splits)

lemma query_lock_frame:
  assumes "query_lock fate s k db = (db', r)"
  shows "db_live db' = db_live db" "db_next db' = db_next db" "holder db k' = Some h \<Longrightarrow> holder db' k' = Some h"
    "holder db' k' = Some h \<Longrightarrow> holder db k' = Some h \<or> h = s" "r = Some b \<Longrightarrow> db_live db s \<and> (b \<longleftrightarrow> holder db' k = Some s)"
proof -
  obtain d b' where tl: "pg_try_advisory_lock s k db = (d, b')"
    by fastforce
  note f = try_lock_frame [OF tl, of k' h]
  show "db_live db' = db_live db" "db_next db' = db_next db" "holder db k' = Some h \<Longrightarrow> holder db' k' = Some h"
    "holder db' k' = Some h \<Longrightarrow> holder db k' = Some h \<or> h = s" "r = Some b \<Longrightarrow> db_live db s \<and> (b \<longleftrightarrow> holder db' k = Some s)"
    using assms f by (auto simp: query_lock_def tl split: if_splits query_fate.splits)
qed

lemma unlock_frame:
  "db_live (pg_advisory_unlock s k db) = db_live db" "db_next (pg_advisory_unlock s k db) = db_next db"
  "holder db k' = Some h \<Longrightarrow> h \<noteq> s \<Longrightarrow> holder (pg_advisory_unlock s k db) k' = Some h"
  "holder (pg_advisory_unlock s k db) k' = Some h \<Longrightarrow> holder db k' = Some h"
  by (auto simp: pg_advisory_unlock_def holder_def split: option.splits if_splits)

lemma end_session_frame:
  "db_live (end_session s db) h \<longleftrightarrow> db_live db h \<and> h \<noteq> s" "db_next (end_session s db) = db_next db"
  "holder (end_session s db) k = Some h \<longleftrightarrow> holder db k = Some h \<and> h \<noteq> s"
  by (auto simp: end_session_def holder_def split: option.splits)

text \<open>A connection in hand: a live or dead session that nothing else of the process uses.\<close>

lemma Connx_frame:
  assumes "ready dp" "pr_conn (snd dp) = None" "Connx c dp = Some (s, db, p)"
  shows "pr_conn p = None" "pr_name p = pr_name (snd dp)" "distinct (s # pr_idle p)" "db_next (fst dp) \<le> db_next db"
    "\<forall>x \<in> set (s # pr_idle p). x < db_next db \<and> (x \<in> set (pr_idle (snd dp)) \<or> db_next (fst dp) \<le> x)"
    "x < db_next (fst dp) \<Longrightarrow> db_live db x = db_live (fst dp) x" "holder db k = holder (fst dp) k"
  using assms
  by (auto simp: Connx_def ready_def process_inv_def sessions_def holder_def Let_def split: connection.splits if_splits dest: notin_set_remove1)

lemma local_move_offer:
  assumes rd: "ready dp" and no: "pr_conn (snd dp) = None"
  shows "local_move dp (fst (offer nw dp))"
proof (cases "Connx (nw_conn nw) dp")
  case None
  then show ?thesis
    using rd by (simp add: offer_def local_move_def ready_def)
next
  case (Some r)
  obtain s db p where r: "r = (s, db, p)" by (cases r)
  note C = Connx_frame [OF rd no Some [unfolded r]]
  obtain db' a where q: "query_lock (nw_query nw) s (LockKey (pr_name p)) db = (db', a)" by fastforce
  note Q = query_lock_frame [OF q]
  have hold: "\<forall>k h. holder db' k = Some h \<longrightarrow> h < db_next db'"
    using Q(2,4) C(4,5,7) rd by (fastforce simp: ready_def)
  have frame: "\<forall>x. x < db_next (fst dp) \<longrightarrow> x \<notin> set (sessions (snd dp)) \<longrightarrow>
        (db_live db' x \<longrightarrow> db_live (fst dp) x) \<and> (\<forall>k. holder (fst dp) k = Some x \<longrightarrow> holder db' k = Some x)"
    using C(6,7) Q(1,3) by simp
  have mv: "local_move dp (db', p')" if "pr_name p' = pr_name p" "distinct (sessions p')" "set (sessions p') \<subseteq> set (s # pr_idle p)"
      "pr_conn p' = None \<or> pr_conn p' = Some s \<and> holder db' (LockKey (pr_name p)) = Some s" for p'
  proof -
    have idle: "sessions (snd dp) = pr_idle (snd dp)"
      using no by (simp add: sessions_def)
    have old: "\<forall>x \<in> set (sessions p'). x < db_next db' \<and> (x \<in> set (sessions (snd dp)) \<or> db_next (fst dp) \<le> x)"
      using that(3) C(5) unfolding Q(2) idle by blast
    have "process_inv db' p'"
      unfolding process_inv_def using that(1,2,4) old by auto
    with that(1) C(2,4) old hold frame show ?thesis
      by (simp add: local_move_def Q(2))
  qed
  have closed: "local_move dp (db', conn_Close broken s p)" for broken
    by (rule mv) (use C(1,3) in \<open>auto simp: conn_Close_def sessions_def\<close>)
  show ?thesis
  proof (cases a)
    case None
    with closed show ?thesis by (simp add: offer_def Some r q)
  next
    case (Some acquired)
    have "local_move dp (db', p\<lparr>pr_conn := Some s\<rparr>)" if acquired
      by (rule mv) (use C(1,3) Q(5) [OF Some] that in \<open>auto simp: sessions_def\<close>)
    with closed Some \<open>Connx (nw_conn nw) dp = Some r\<close> show ?thesis by (simp add: offer_def r q)
  qed
qed

lemma local_move_acquire: "ready dp \<Longrightarrow> local_move dp (fst (lease_Acquire nw dp))"
proof (cases "pings nw (fst dp) (snd dp)")
  case True
  then show "ready dp \<Longrightarrow> ?thesis"
    by (simp add: lease_Acquire_def local_move_def ready_def)
next
  case False
  assume rd: "ready dp"
  note drop = local_move_drop [OF rd, of "nw_broken nw"]
  then have "local_move (fst dp, dropConn (nw_broken nw) (snd dp)) (fst (offer nw (fst dp, dropConn (nw_broken nw) (snd dp))))"
    by (intro local_move_offer ready_moved) simp_all
  with drop False show ?thesis
    by (simp add: lease_Acquire_def) (rule local_move_trans)
qed

lemma local_move_release: "ready dp \<Longrightarrow> local_move dp (lease_Release sent broken dp)"
proof (cases "pr_conn (snd dp)")
  case None
  then show "ready dp \<Longrightarrow> ?thesis"
    by (simp add: lease_Release_def local_move_def ready_def)
next
  case (Some s)
  assume rd: "ready dp"
  let ?db = "if sent \<and> db_live (fst dp) s then pg_advisory_unlock s (LockKey (pr_name (snd dp))) (fst dp) else fst dp"
  have eq: "lease_Release sent broken dp = (?db, dropConn broken (snd dp))"
    by (simp add: lease_Release_def Some)
  have own: "distinct (sessions (dropConn broken (snd dp)))" "set (sessions (dropConn broken (snd dp))) \<subseteq> set (sessions (snd dp))"
    using rd by (auto simp: ready_def process_inv_def sessions_def dropConn_def conn_Close_def Some)
  have "s \<in> set (sessions (snd dp))"
    by (simp add: sessions_def Some)
  then have keep: "holder (fst dp) k = Some x \<Longrightarrow> x \<notin> set (sessions (snd dp)) \<Longrightarrow> holder ?db k = Some x" for k x
    by (cases "sent \<and> db_live (fst dp) s", auto intro: unlock_frame(3))
  have less: "holder ?db k = Some x \<Longrightarrow> holder (fst dp) k = Some x" for k x
    by (cases "sent \<and> db_live (fst dp) s", auto dest: unlock_frame(4))
  have same: "db_live ?db = db_live (fst dp)" "db_next ?db = db_next (fst dp)"
    by (simp_all add: unlock_frame)
  have lt: "\<forall>x \<in> set (sessions (snd dp)). x < db_next (fst dp)" "\<forall>k x. holder (fst dp) k = Some x \<longrightarrow> x < db_next (fst dp)"
    using rd by (simp_all add: ready_def process_inv_def)
  have "process_inv ?db (dropConn broken (snd dp))"
    unfolding process_inv_def same using own lt(1) by auto
  moreover have "\<forall>k x. holder ?db k = Some x \<longrightarrow> x < db_next (fst dp)"
    using less lt(2) by blast
  ultimately show ?thesis
    unfolding eq local_move_def fst_conv snd_conv same using own keep by auto
qed

lemma local_move_evict:
  assumes rd: "ready dp" and s: "s \<in> set (pr_idle (snd dp))"
  shows "local_move dp (end_session s (fst dp), (snd dp)\<lparr>pr_idle := remove1 s (pr_idle (snd dp))\<rparr>)"
proof -
  have "distinct (sessions (snd dp))" "s \<in> set (sessions (snd dp))" "pr_conn (snd dp) \<noteq> Some s"
    using rd s by (auto simp: ready_def process_inv_def sessions_def)
  moreover have "set (sessions ((snd dp)\<lparr>pr_idle := remove1 s (pr_idle (snd dp))\<rparr>)) \<subseteq> set (sessions (snd dp))"
    "distinct (sessions (snd dp)) \<Longrightarrow> distinct (sessions ((snd dp)\<lparr>pr_idle := remove1 s (pr_idle (snd dp))\<rparr>))"
    using set_remove1_subset by (fastforce simp: sessions_def split: option.splits)+
  ultimately show ?thesis
    using rd unfolding local_move_def process_inv_def ready_def fst_conv snd_conv
    by (auto simp: end_session_frame)
qed

lemma perform_inv: "lease_inv w \<Longrightarrow> lease_inv (perform m w)"
proof (cases m)
  case (Offers i nw)
  assume inv: "lease_inv w"
  show ?thesis
    unfolding Offers perform.simps by (rule local_move_inv [OF inv local_move_acquire [OF ready_at [OF inv]]])
next
  case (GivesUp i sent broken)
  assume inv: "lease_inv w"
  show ?thesis
    unfolding GivesUp perform.simps by (rule local_move_inv [OF inv local_move_release [OF ready_at [OF inv]]])
next
  case (Evicts i s)
  assume inv: "lease_inv w"
  show ?thesis
    using local_move_inv [OF inv local_move_evict [OF ready_at [OF inv, of i], of s]] inv
    by (simp add: Evicts at_process_def)
next
  case (Restarts i)
  assume inv: "lease_inv w"
  have "local_move (at_process i w) (wo_db w, (wo_proc w i)\<lparr>pr_conn := None, pr_idle := []\<rparr>)"
    using ready_at [OF inv, of i] by (auto simp: local_move_def ready_def process_inv_def sessions_def at_process_def)
  with inv show ?thesis
    unfolding Restarts perform.simps by (rule local_move_inv)
next
  case (SessionEnds s)
  assume inv: "lease_inv w"
  then show ?thesis
    unfolding SessionEnds perform.simps lease_inv_def process_inv_def by (simp add: end_session_frame) blast
qed

lemma moved_inv: "lease_inv w \<Longrightarrow> lease_inv (moved ms w)"
  unfolding moved_def by (induction ms arbitrary: w) (simp_all add: perform_inv)

lemma fresh_inv: "lease_inv (fresh_world names)"
  by (simp add: lease_inv_def fresh_world_def process_inv_def sessions_def holder_def)

lemma acquire_name [simp]: "ready dp \<Longrightarrow> pr_name (snd (fst (lease_Acquire nw dp))) = pr_name (snd dp)"
  using local_move_acquire by (simp add: local_move_def)

lemma perform_name [simp]: "pr_name (wo_proc (perform m w) j) = pr_name (wo_proc w j)"
  by (cases m)
     (auto simp: put_process_def at_process_def lease_Acquire_def lease_Release_def offer_def Connx_def conn_Close_def Let_def
        split: option.splits prod.splits connection.splits)

lemma moved_name [simp]: "pr_name (wo_proc (moved ms w) j) = pr_name (wo_proc w j)"
  unfolding moved_def by (induction ms arbitrary: w) simp_all

lemma leads_alt:
  "leads w i \<longleftrightarrow> (\<exists>s. pr_conn (wo_proc w i) = Some s \<and> db_live (wo_db w) s \<and> holder (wo_db w) (LockKey (pr_name (wo_proc w i))) = Some s)"
  by (auto simp: leads_def holder_def split: option.split)

text \<open>A pinned session that is live is leadership, and there is one leader per name.\<close>

lemma pinned_leads: "lease_inv w \<Longrightarrow> pr_conn (wo_proc w i) = Some s \<Longrightarrow> db_live (wo_db w) s \<Longrightarrow> leads w i"
  by (auto simp: leads_alt lease_inv_def process_inv_def)

lemma leads_unique: "lease_inv w \<Longrightarrow> leads w i \<Longrightarrow> leads w j \<Longrightarrow> pr_name (wo_proc w i) = pr_name (wo_proc w j) \<Longrightarrow> i = j"
  by (rule ccontr) (fastforce simp: leads_alt lease_inv_def sessions_def)

text \<open>An affirmative answer is leadership at that instant.\<close>

lemma offer_granted:
  assumes "offer nw dp = (dp', Inr True)"
  shows "\<exists>s. pr_conn (snd dp') = Some s \<and> db_live (fst dp') s"
proof -
  obtain s db p where c: "Connx (nw_conn nw) dp = Some (s, db, p)"
    using assms by (cases "Connx (nw_conn nw) dp") (auto simp: offer_def)
  obtain db' a where q: "query_lock (nw_query nw) s (LockKey (pr_name p)) db = (db', a)" by fastforce
  show ?thesis
    using assms query_lock_frame(1,5) [OF q] by (auto simp: offer_def c q split: option.splits if_splits)
qed

lemma acquire_granted:
  assumes inv: "lease_inv w" and r: "lease_Acquire nw (at_process i w) = (dp', Inr True)"
  shows "leads (put_process i dp' w) i"
proof -
  have "\<exists>s. pr_conn (snd dp') = Some s \<and> db_live (fst dp') s"
    using r offer_granted by (auto simp: lease_Acquire_def pings_def split: if_splits option.splits)
  moreover have "lease_inv (put_process i dp' w)"
    using local_move_inv [OF inv local_move_acquire [OF ready_at [OF inv]], of i nw] r by simp
  ultimately show ?thesis
    by (auto intro: pinned_leads simp: put_process_def)
qed

text \<open>
  Property C10. One leader per name. However the processes of a deployment contend, lose connections,
  die and restart, at no moment do two of them have a live pinned session that holds the lock of
  one name; a process whose \<^verbatim>\<open>Acquire\<close> answers yes leads at that moment, and no other process of
  that name does.
\<close>

theorem lease_exclusive:
  assumes "w = moved ms (fresh_world names)"
  shows "(leads w i \<and> leads w j \<and> names i = names j \<longrightarrow> i = j) \<and>
    (lease_Acquire nw (at_process i w) = (dp', Inr True) \<longrightarrow>
      leads (put_process i dp' w) i \<and> (\<forall>j. j \<noteq> i \<longrightarrow> names j = names i \<longrightarrow> \<not> leads (put_process i dp' w) j))"
proof (intro conjI impI allI)
  have inv: "lease_inv (moved ms' (fresh_world names))" for ms'
    by (intro moved_inv fresh_inv)
  have name: "pr_name (wo_proc (moved ms' (fresh_world names)) k) = names k" for ms' k
    by (simp add: fresh_world_def)
  show "i = j" if "leads w i \<and> leads w j \<and> names i = names j"
    using that leads_unique [OF inv] name assms by metis
  assume r: "lease_Acquire nw (at_process i w) = (dp', Inr True)"
  have w': "put_process i dp' w = moved (ms @ [Offers i nw]) (fresh_world names)"
    using r assms by (simp add: moved_def)
  have "leads (put_process i dp' w) i"
    using acquire_granted [of w] inv [of ms] r assms by metis
  then show "leads (put_process i dp' w) i" .
  with leads_unique [OF inv [of "ms @ [Offers i nw]"]] show "\<not> leads (put_process i dp' w) j"
    if "j \<noteq> i" "names j = names i" for j
    using that unfolding w' name by metis
qed

definition good_network :: network where
  "good_network = \<lparr>nw_ping = True, nw_conn = Dial, nw_query = Answered, nw_broken = False\<rparr>"

text \<open>Two processes of one name: the first takes the lease and its session ends, the second takes it over.\<close>

definition takeover :: "move list" where
  "takeover = [Offers 0 good_network, Offers 1 good_network, SessionEnds 0]"

theorem lease_exclusive_witness:
  "leads (moved (takeover @ [Offers 1 good_network]) (fresh_world (\<lambda>_. ''zentax''))) 1 \<and>
   \<not> leads (moved (takeover @ [Offers 1 good_network]) (fresh_world (\<lambda>_. ''zentax''))) 0"
proof -
  let ?w = "moved takeover (fresh_world (\<lambda>_. ''zentax''))"
  have yes: "snd (lease_Acquire good_network (at_process 1 ?w)) = Inr True"
    by code_simp
  then have "lease_Acquire good_network (at_process 1 ?w) = (fst (lease_Acquire good_network (at_process 1 ?w)), Inr True)"
    by (metis prod.collapse)
  with lease_exclusive [OF refl, of takeover "\<lambda>_. ''zentax''" 1 0 good_network]
  have "leads (perform (Offers 1 good_network) ?w) 1 \<and> \<not> leads (perform (Offers 1 good_network) ?w) 0"
    by simp
  then show ?thesis by (simp add: moved_def)
qed

text \<open>A graceful release hands over: the lock is free, and the next process that reaches the database leads.\<close>

lemma release_frees:
  assumes "lease_inv w" "leads w i" "db_lock (wo_db w) (LockKey (pr_name (wo_proc w i))) = Some (s, 1)"
  shows "db_lock (wo_db (perform (GivesUp i True broken) w)) (LockKey (pr_name (wo_proc w i))) = None"
  using assms by (auto simp: leads_def at_process_def put_process_def lease_Release_def pg_advisory_unlock_def split: option.splits)

lemma free_lock_is_granted:
  assumes "pr_conn p = None" "db_lock db (LockKey (pr_name p)) = None" "nw_conn nw = Dial" "nw_query nw = Answered"
  shows "snd (lease_Acquire nw (db, p)) = Inr True"
  using assms
  by (simp add: lease_Acquire_def pings_def offer_def Connx_def dropConn_def Let_def query_lock_def pg_try_advisory_lock_def)

text \<open>
  Closing the pinned connection is not enough. When the unlock of a \<^verbatim>\<open>Release\<close> does not
  reach the server and the driver still trusts the connection, the session goes back to the pool
  with the lock: nobody leads, and no other process can, whatever the network does, until that
  session ends.
\<close>

theorem close_keeps_lock:
  assumes w: "w = moved ms (fresh_world names)" and lead: "leads w i" and j: "j \<noteq> i" "names j = names i"
  shows "\<not> leads (perform (GivesUp i False False) w) i \<and>
    snd (lease_Acquire nw (at_process j (perform (GivesUp i False False) w))) \<noteq> Inr True"
proof (intro conjI)
  let ?w = "perform (GivesUp i False False) w"
  have inv: "lease_inv w" "lease_inv ?w"
    unfolding w by (intro perform_inv moved_inv fresh_inv)+
  have name: "pr_name (wo_proc ?w k) = names k" "pr_name (wo_proc w k) = names k" for k
    by (simp_all add: w fresh_world_def del: perform.simps)
  from lead obtain s where s: "pr_conn (wo_proc w i) = Some s" "holder (wo_db w) (LockKey (names i)) = Some s"
    unfolding leads_alt name by blast
  have w': "wo_db ?w = wo_db w" "wo_proc ?w i = (wo_proc w i)\<lparr>pr_conn := None, pr_idle := s # pr_idle (wo_proc w i)\<rparr>"
    using s by (simp_all add: at_process_def put_process_def lease_Release_def dropConn_def conn_Close_def)
  show "\<not> leads ?w i"
    by (simp add: leads_alt w'(2) del: perform.simps)
  show "snd (lease_Acquire nw (at_process j ?w)) \<noteq> Inr True"
  proof
    assume yes: "snd (lease_Acquire nw (at_process j ?w)) = Inr True"
    let ?dp = "fst (lease_Acquire nw (at_process j ?w))"
    have mv: "local_move (at_process j ?w) ?dp"
      by (rule local_move_acquire [OF ready_at [OF inv(2)]])
    have "leads (put_process j ?dp ?w) j"
      using acquire_granted [OF inv(2), of nw j ?dp] yes by (metis prod.collapse)
    then obtain t where t: "t \<in> set (sessions (snd ?dp))" "holder (fst ?dp) (LockKey (names i)) = Some t"
      using mv j(2) name(1) [of j] by (auto simp: leads_alt put_process_def local_move_def sessions_def at_process_def simp del: perform.simps)
    have "s \<in> set (sessions (wo_proc ?w i))"
      by (simp add: w'(2) sessions_def del: perform.simps)
    then have out: "s \<notin> set (sessions (wo_proc ?w j))" "s < db_next (wo_db ?w)"
      using inv(2) j(1) unfolding lease_inv_def process_inv_def by (blast, blast)
    then have "holder (fst ?dp) (LockKey (names i)) = Some s"
      using mv s(2) by (simp add: local_move_def at_process_def w'(1) del: perform.simps)
    with t(2) have "t = s" by simp
    with t(1) out mv show False
      unfolding local_move_def at_process_def fst_conv snd_conv by (meson not_le)
  qed
qed

theorem close_keeps_lock_witness:
  "snd (lease_Acquire good_network (at_process 1
     (perform (GivesUp 0 False False) (moved [Offers 0 good_network] (fresh_world (\<lambda>_. ''zentax'')))))) \<noteq> Inr True"
proof -
  have "leads (moved [Offers 0 good_network] (fresh_world (\<lambda>_. ''zentax''))) 0"
    by code_simp
  from close_keeps_lock [OF refl this, of 1 good_network] show ?thesis by simp
qed

end
