(* ===== verification/Scheduler.thy ===== *)
theory Scheduler
  imports Lease
begin

text \<open>
  The loop that runs the recurring work (\<^verbatim>\<open>src/platform/scheduler/scheduler.go\<close>): settings,
  registration, the cached answer of the lease, one turn, one run of a job with its timeout and the
  abandoning of a run that ignores it, and \<^verbatim>\<open>Run\<close> until the context is cancelled. Instants
  and durations are integers in nanoseconds. A job is a function from its start and the instant its context is done to
  the instant it returns, if it ever does, and how; the lease is a pair of operations on a world.
  Computation between the calls takes no time. The result carries the trace of the run: the probes
  of the lease with the world they left, the starts of the jobs with the instant each run ends,
  and the durations reported to the metrics.
\<close>

section \<open>Jobs and settings\<close>

datatype run_body = Succeeds | Fails | Panics
datatype job_error = RunError | PanicError

text \<open>\<^verbatim>\<open>safeRun\<close>: a panic is an error of its own type.\<close>

fun safeRun :: "run_body \<Rightarrow> job_error option" where
  "safeRun Succeeds = None"
| "safeRun Fails = Some RunError"
| "safeRun Panics = Some PanicError"

record job =
  jb_Name :: string
  jb_Interval :: int
  jb_Timeout :: int
  jb_Run :: "(int \<Rightarrow> int \<Rightarrow> (int \<times> run_body) option) option"

text \<open>The run of a job that is or was in the air: it has ended, ends at an instant, or never does.\<close>

datatype flight = NoRun | Until int | Forever

fun in_flight :: "flight \<Rightarrow> int \<Rightarrow> bool" where
  "in_flight NoRun t = False"
| "in_flight (Until r) t = (t < r)"
| "in_flight Forever t = True"

record sched_job =
  sj_Job :: job
  sj_nextRun :: "int option"
  sj_flight :: flight

record sched_settings =
  ss_Tick :: int
  ss_ProbeInterval :: int
  ss_ReleaseTimeout :: int
  ss_AbandonGrace :: int

definition DefaultTick :: int where "DefaultTick = 1000000000"
definition DefaultProbeInterval :: int where "DefaultProbeInterval = 5 * 1000000000"
definition DefaultReleaseTimeout :: int where "DefaultReleaseTimeout = 5 * 1000000000"
definition DefaultAbandonGrace :: int where "DefaultAbandonGrace = 5 * 1000000000"

definition sched_withDefaults :: "sched_settings \<Rightarrow> sched_settings" where
  "sched_withDefaults s =
     \<lparr>ss_Tick = (if ss_Tick s \<le> 0 then DefaultTick else ss_Tick s),
      ss_ProbeInterval = (if ss_ProbeInterval s \<le> 0 then DefaultProbeInterval else ss_ProbeInterval s),
      ss_ReleaseTimeout = (if ss_ReleaseTimeout s \<le> 0 then DefaultReleaseTimeout else ss_ReleaseTimeout s),
      ss_AbandonGrace = (if ss_AbandonGrace s \<le> 0 then DefaultAbandonGrace else ss_AbandonGrace s)\<rparr>"

record scheduler =
  sc_settings :: sched_settings
  sc_jobs :: "sched_job list"
  sc_leader :: bool
  sc_nextProbe :: "int option"

definition NewScheduler :: "sched_settings \<Rightarrow> scheduler" where
  "NewScheduler s = \<lparr>sc_settings = sched_withDefaults s, sc_jobs = [], sc_leader = False, sc_nextProbe = None\<rparr>"

definition Register :: "job \<Rightarrow> scheduler \<Rightarrow> scheduler fallible" where
  "Register j sc =
     (if jb_Name j = [] then Inl (text_msg ''scheduler: job needs a name'')
      else if jb_Interval j \<le> 0 then Inl (Errorf ''scheduler: job %q needs a positive interval'' [S (jb_Name j)])
      else if Option.is_none (jb_Run j) then Inl (Errorf ''scheduler: job %q needs a Run function'' [S (jb_Name j)])
      else if jb_Name j \<in> set (map (\<lambda>x. jb_Name (sj_Job x)) (sc_jobs sc)) then
        Inl (Errorf ''scheduler: job %q is already registered'' [S (jb_Name j)])
      else Inr (sc\<lparr>sc_jobs := sc_jobs sc @ [\<lparr>sj_Job = j, sj_nextRun = None, sj_flight = NoRun\<rparr>]\<rparr>))"

text \<open>A scheduler as the process builds it: \<^const>\<open>NewScheduler\<close>, then \<^const>\<open>Register\<close> for every job.\<close>

fun RegisterAll :: "job list \<Rightarrow> scheduler \<Rightarrow> scheduler fallible" where
  "RegisterAll [] sc = Inr sc"
| "RegisterAll (j # js) sc = (case Register j sc of Inl e \<Rightarrow> Inl e | Inr sc' \<Rightarrow> RegisterAll js sc')"

section \<open>The loop\<close>

datatype 'w sched_event =
    Probed int bool 'w
  | Started job int flight
  | Observed string int
  | GaveUp int 'w

text \<open>\<^verbatim>\<open>holdsLease\<close>: the cached answer until the next probe is due, then the lease's own.\<close>

definition holdsLease ::
  "(int \<Rightarrow> 'w \<Rightarrow> 'w \<times> int \<times> bool fallible) \<Rightarrow> scheduler \<Rightarrow> 'w \<Rightarrow> int \<Rightarrow>
     bool \<times> int \<times> scheduler \<times> 'w \<times> 'w sched_event list" where
  "holdsLease acquire sc w now =
     (if (case sc_nextProbe sc of None \<Rightarrow> False | Some p \<Rightarrow> now < p) then (sc_leader sc, now, sc, w, [])
      else
        let sc1 = sc\<lparr>sc_nextProbe := Some (now + ss_ProbeInterval (sc_settings sc))\<rparr>;
            (w', t', r) = acquire now w;
            t = max now t'
        in (case r of
              Inl _ \<Rightarrow> (False, t, sc1\<lparr>sc_leader := False\<rparr>, w', [Observed ''election.failed'' 0, Probed t False w'])
            | Inr held \<Rightarrow> (held, t, sc1\<lparr>sc_leader := held\<rparr>, w', [Probed t held w'])))"

definition cancelled :: "int option \<Rightarrow> int \<Rightarrow> bool" where
  "cancelled c t \<longleftrightarrow> (case c of None \<Rightarrow> False | Some x \<Rightarrow> x \<le> t)"

definition job_timeout :: "job \<Rightarrow> int" where
  "job_timeout j = (if jb_Timeout j \<le> 0 then jb_Interval j else jb_Timeout j)"

text \<open>\<^verbatim>\<open>awaitJob\<close>: the run came back before its context was done, or within the grace after it.\<close>

definition awaitJob :: "int \<Rightarrow> int \<Rightarrow> (int \<times> run_body) option \<Rightarrow> (int \<times> run_body) option" where
  "awaitJob ctxDone grace outcome =
     (case outcome of None \<Rightarrow> None | Some (r, b) \<Rightarrow> if r \<le> ctxDone + grace then Some (r, b) else None)"

definition outcome_suffix :: "job_error option \<Rightarrow> string" where
  "outcome_suffix e = (case e of None \<Rightarrow> [] | Some PanicError \<Rightarrow> ''.panicked'' | Some RunError \<Rightarrow> ''.failed'')"

text \<open>\<^verbatim>\<open>runJob\<close>: the run it started, the instant the loop goes on, and what was reported.\<close>

definition runJob :: "int option \<Rightarrow> sched_settings \<Rightarrow> job \<Rightarrow> int \<Rightarrow> flight \<times> int \<times> 'w sched_event list" where
  "runJob c s j start =
     (let ctxDone = (case c of None \<Rightarrow> start + job_timeout j | Some x \<Rightarrow> max start (min (start + job_timeout j) x));
          outcome = (case jb_Run j of
              None \<Rightarrow> Some (start, Panics)
            | Some run \<Rightarrow> map_option (\<lambda>(r, b). (max start r, b)) (run start ctxDone));
          flight = (case outcome of None \<Rightarrow> Forever | Some (r, _) \<Rightarrow> Until r)
      in (case awaitJob ctxDone (ss_AbandonGrace s) outcome of
            None \<Rightarrow>
              let now = ctxDone + ss_AbandonGrace s
              in (flight, now, [Started j start flight, Observed (jb_Name j @ ''.overran'') (now - start)])
          | Some (r, b) \<Rightarrow>
              (flight, r, [Started j start flight, Observed (jb_Name j @ outcome_suffix (safeRun b)) (r - start)])))"

text \<open>The jobs of one turn: those that are due, one after the other, none twice at once.\<close>

definition due :: "sched_job \<Rightarrow> int \<Rightarrow> bool" where
  "due j now \<longleftrightarrow> (case sj_nextRun j of None \<Rightarrow> True | Some x \<Rightarrow> x \<le> now)"

fun run_jobs :: "int option \<Rightarrow> sched_settings \<Rightarrow> sched_job list \<Rightarrow> int \<Rightarrow> sched_job list \<times> int \<times> 'w sched_event list" where
  "run_jobs c s [] now = ([], now, [])"
| "run_jobs c s (j # js) now =
     (if cancelled c now then (j # js, now, [])
      else if \<not> due j now \<or> in_flight (sj_flight j) now then
        (case run_jobs c s js now of (js', t, ev) \<Rightarrow> (j # js', t, ev))
      else
        (case runJob c s (sj_Job j) now of
           (fl, t1, ev1) \<Rightarrow>
             (case run_jobs c s js t1 of
                (js', t, ev) \<Rightarrow>
                  (j\<lparr>sj_nextRun := Some (now + jb_Interval (sj_Job j)), sj_flight := fl\<rparr> # js', t, ev1 @ ev))))"

text \<open>\<^verbatim>\<open>step\<close>: confirm leadership, then run whatever is due.\<close>

definition sched_step ::
  "(int \<Rightarrow> 'w \<Rightarrow> 'w \<times> int \<times> bool fallible) \<Rightarrow> int option \<Rightarrow> scheduler \<Rightarrow> 'w \<Rightarrow> int \<Rightarrow>
     int \<times> scheduler \<times> 'w \<times> 'w sched_event list" where
  "sched_step acquire c sc w now =
     (case holdsLease acquire sc w now of
        (held, t1, sc1, w1, ev1) \<Rightarrow>
          if \<not> held then (t1, sc1, w1, ev1)
          else (case run_jobs c (sc_settings sc1) (sc_jobs sc1) t1 of
              (js, t2, ev2) \<Rightarrow> (t2, sc1\<lparr>sc_jobs := js\<rparr>, w1, ev1 @ ev2)))"

definition releaseLease ::
  "(int \<Rightarrow> 'w \<Rightarrow> 'w \<times> int) \<Rightarrow> scheduler \<Rightarrow> 'w \<Rightarrow> int \<Rightarrow> int \<times> scheduler \<times> 'w \<times> 'w sched_event list" where
  "releaseLease release sc w now =
     (if \<not> sc_leader sc then (now, sc, w, [])
      else (case release now w of
          (w', t') \<Rightarrow> (max now t', sc\<lparr>sc_leader := False\<rparr>, w', [GaveUp (max now t') w'])))"

text \<open>
  \<^verbatim>\<open>Run\<close>'s select. The ticker fires at multiples of the tick after \<open>t0\<close> and keeps one
  firing for a loop that is late. When a tick and the cancellation are both ready the choice
  is random: \<open>flips\<close> says how often the tick still wins. The loop stops with its fuel; the trace
  up to there is its first result.
\<close>

definition next_fire :: "int \<Rightarrow> int \<Rightarrow> int \<Rightarrow> int" where
  "next_fire tick t0 r = t0 + tick * ((r - t0) div tick + 1)"

datatype wake = WakeDone int | WakeTick int

definition select_wake :: "int option \<Rightarrow> nat \<Rightarrow> int \<Rightarrow> int \<Rightarrow> nat \<times> wake" where
  "select_wake c flips now fire =
     (case c of
        None \<Rightarrow> (flips, WakeTick (max now fire))
      | Some x \<Rightarrow>
          if max now x < max now fire then (flips, WakeDone (max now x))
          else if max now fire < max now x then (flips, WakeTick (max now fire))
          else if flips = 0 then (0, WakeDone (max now x))
          else (flips - 1, WakeTick (max now fire)))"

fun run_loop ::
  "nat \<Rightarrow> (int \<Rightarrow> 'w \<Rightarrow> 'w \<times> int \<times> bool fallible) \<Rightarrow> (int \<Rightarrow> 'w \<Rightarrow> 'w \<times> int) \<Rightarrow> int option \<Rightarrow> int \<Rightarrow>
     nat \<Rightarrow> int \<Rightarrow> int \<Rightarrow> scheduler \<Rightarrow> 'w \<Rightarrow> 'w sched_event list \<times> (int \<times> scheduler \<times> 'w) option" where
  "run_loop 0 acquire release c t0 flips now fire sc w = ([], None)"
| "run_loop (Suc fuel) acquire release c t0 flips now fire sc w =
     (case select_wake c flips now fire of
        (_, WakeDone t) \<Rightarrow>
          (case releaseLease release sc w t of (t', sc', w', ev) \<Rightarrow> (ev, Some (t', sc', w')))
      | (flips', WakeTick r) \<Rightarrow>
          (case sched_step acquire c sc w r of
             (t', sc', w', ev) \<Rightarrow>
               (case run_loop fuel acquire release c t0 flips' t' (next_fire (ss_Tick (sc_settings sc)) t0 r) sc' w' of
                  (evs, res) \<Rightarrow> (ev @ evs, res))))"

definition Run ::
  "nat \<Rightarrow> (int \<Rightarrow> 'w \<Rightarrow> 'w \<times> int \<times> bool fallible) \<Rightarrow> (int \<Rightarrow> 'w \<Rightarrow> 'w \<times> int) \<Rightarrow> int option \<Rightarrow> nat \<Rightarrow> int \<Rightarrow>
     scheduler \<Rightarrow> 'w \<Rightarrow> 'w sched_event list \<times> (int \<times> scheduler \<times> 'w) option" where
  "Run fuel acquire release c flips t0 sc w =
     (if sc_jobs sc = [] then ([], Some (t0, sc, w))
      else run_loop fuel acquire release c t0 flips t0 (t0 + ss_Tick (sc_settings sc)) sc w)"

section \<open>Registration\<close>

definition registered :: "scheduler \<Rightarrow> bool" where
  "registered sc \<longleftrightarrow>
     0 < ss_Tick (sc_settings sc) \<and> 0 < ss_ProbeInterval (sc_settings sc) \<and> 0 < ss_AbandonGrace (sc_settings sc) \<and>
     distinct (map (\<lambda>x. jb_Name (sj_Job x)) (sc_jobs sc)) \<and> (\<forall>x \<in> set (sc_jobs sc). 0 < jb_Interval (sj_Job x))"

definition pristine :: "scheduler \<Rightarrow> bool" where
  "pristine sc \<longleftrightarrow> registered sc \<and> \<not> sc_leader sc \<and> sc_nextProbe sc = None \<and>
     (\<forall>x \<in> set (sc_jobs sc). sj_nextRun x = None \<and> sj_flight x = NoRun)"

lemma New_pristine: "pristine (NewScheduler s)"
  by (simp add: pristine_def registered_def NewScheduler_def sched_withDefaults_def DefaultTick_def DefaultProbeInterval_def DefaultAbandonGrace_def)

lemma Register_pristine: "pristine sc \<Longrightarrow> Register j sc = Inr sc' \<Longrightarrow> pristine sc'"
  by (auto simp: pristine_def registered_def Register_def split: if_splits)

lemma RegisterAll_pristine: "pristine sc \<Longrightarrow> RegisterAll js sc = Inr sc' \<Longrightarrow> pristine sc'"
  by (induction js arbitrary: sc) (auto split: sum.splits dest: Register_pristine)

lemma RegisterAll_settings: "RegisterAll js sc = Inr sc' \<Longrightarrow> sc_settings sc' = sc_settings sc"
  by (induction js arbitrary: sc) (auto simp: Register_def split: sum.splits if_splits)

lemma RegisterAll_jobs: "RegisterAll js sc = Inr sc' \<Longrightarrow> map sj_Job (sc_jobs sc') = map sj_Job (sc_jobs sc) @ js"
  by (induction js arbitrary: sc) (auto simp: Register_def split: sum.splits if_splits)

section \<open>One turn\<close>

definition budget :: "sched_settings \<Rightarrow> job \<Rightarrow> int" where
  "budget s j = job_timeout j + ss_AbandonGrace s"

definition budgets :: "sched_settings \<Rightarrow> sched_job list \<Rightarrow> int" where
  "budgets s js = sum_list (map (\<lambda>x. budget s (sj_Job x)) js)"

lemma runJob_time:
  assumes "runJob c s j t = (fl, t', ev)" "0 < jb_Interval j" "0 < ss_AbandonGrace s"
  shows "t \<le> t' \<and> t' \<le> t + budget s j"
  using assms
  by (auto simp: runJob_def awaitJob_def budget_def job_timeout_def Let_def split: option.splits if_splits prod.splits)

lemma runJob_events:
  assumes "runJob c s j t = (fl, t', ev)"
  shows "\<exists>op d. ev = [Started j t fl, Observed op d]"
  using assms by (auto simp: runJob_def Let_def split: option.splits prod.splits)

lemma budget_nonneg: "0 < jb_Interval j \<Longrightarrow> 0 < ss_AbandonGrace s \<Longrightarrow> 0 \<le> budget s j"
  by (simp add: budget_def job_timeout_def)

lemma budgets_nonneg: "\<forall>x \<in> set js. 0 < jb_Interval (sj_Job x) \<Longrightarrow> 0 < ss_AbandonGrace s \<Longrightarrow> 0 \<le> budgets s js"
  by (auto simp: budgets_def intro!: sum_list_nonneg budget_nonneg)

text \<open>A turn takes at most the budgets of its jobs, however they behave, and starts in order of time.\<close>

lemma run_jobs_time:
  assumes "run_jobs c s js t = (js', t', ev)" "\<forall>x \<in> set js. 0 < jb_Interval (sj_Job x)" "0 < ss_AbandonGrace s"
  shows "t \<le> t' \<and> t' \<le> t + budgets s js"
  using assms
proof (induction js arbitrary: t js' t' ev)
  case (Cons j js)
  have pos: "0 \<le> budget s (sj_Job j)" "0 \<le> budgets s js"
    using Cons.prems(2,3) by (simp_all add: budget_nonneg budgets_nonneg)
  show ?case
    using Cons.prems pos
    by (auto simp: budgets_def split: if_splits prod.splits dest!: Cons.IH runJob_time) 
qed (simp add: budgets_def)

lemma run_jobs_starts:
  assumes "run_jobs c s js t = (js', t', ev)" "\<forall>x \<in> set js. 0 < jb_Interval (sj_Job x)" "0 < ss_AbandonGrace s"
    "Started j u fl \<in> set ev"
  shows "t \<le> u \<and> u \<le> t' \<and> \<not> cancelled c u \<and> j \<in> sj_Job ` set js"
  using assms
proof (induction js arbitrary: t js' t' ev)
  case (Cons x js)
  show ?case
  proof (cases "cancelled c t \<or> \<not> due x t \<or> in_flight (sj_flight x) t")
    case True
    then show ?thesis
      using Cons.prems by (auto split: if_splits prod.splits dest!: Cons.IH)
  next
    case False
    obtain f1 t1 ev1 where r1: "runJob c s (sj_Job x) t = (f1, t1, ev1 :: 'a sched_event list)" by (cases "runJob c s (sj_Job x) t :: _ \<times> _ \<times> 'a sched_event list")
    obtain js2 t2 ev2 where r2: "run_jobs c s js t1 = (js2, t2, ev2 :: 'a sched_event list)" by (cases "run_jobs c s js t1 :: _ \<times> _ \<times> 'a sched_event list")
    have t: "t \<le> t1" "t1 \<le> t2"
      using runJob_time [OF r1] run_jobs_time [OF r2] Cons.prems(2,3) by simp_all
    show ?thesis
      using Cons.prems False r1 r2 t Cons.IH [OF r2] runJob_events [OF r1] by auto
  qed
qed simp

lemma run_jobs_jobs: "run_jobs c s js t = (js', t', ev) \<Longrightarrow> map sj_Job js' = map sj_Job js"
  by (induction js arbitrary: t js' t' ev) (auto split: if_splits prod.splits)

lemma run_jobs_no_probe: "run_jobs c s js t = (js', t', ev) \<Longrightarrow> Probed u h w \<notin> set ev \<and> GaveUp u w \<notin> set ev"
  by (induction js arbitrary: t js' t' ev) (auto split: if_splits prod.splits dest: runJob_events)

lemma cancelled_mono: "cancelled c t \<Longrightarrow> t \<le> u \<Longrightarrow> cancelled c u"
  by (auto simp: cancelled_def split: option.splits)

text \<open>
  No job is wedged by another: every job of the list that is due and has no run in the air is
  started in a turn that ends before the cancellation.
\<close>

lemma run_jobs_serves:
  assumes "run_jobs c s js t = (js', t', ev)" "\<forall>x \<in> set js. 0 < jb_Interval (sj_Job x)" "0 < ss_AbandonGrace s"
    "x \<in> set js" "due x t" "\<not> in_flight (sj_flight x) t" "\<not> cancelled c t'"
  shows "\<exists>u fl. Started (sj_Job x) u fl \<in> set ev"
  using assms
proof (induction js arbitrary: t js' t' ev)
  case (Cons y js)
  have later: "due x u \<and> \<not> in_flight (sj_flight x) u" if "t \<le> u" for u
    using Cons.prems(5,6) that by (cases "sj_flight x") (auto simp: due_def split: option.splits)
  have live: "\<not> cancelled c t"
    using run_jobs_time [OF Cons.prems(1-3)] Cons.prems(7) cancelled_mono by blast
  show ?case
  proof (cases "\<not> due y t \<or> in_flight (sj_flight y) t")
    case True
    obtain js2 t2 ev2 where r2: "run_jobs c s js t = (js2, t2, ev2 :: 'a sched_event list)"
      by (cases "run_jobs c s js t :: _ \<times> _ \<times> 'a sched_event list")
    with True live Cons.prems(1) have "t2 = t'" "ev2 = ev" by auto
    moreover from True Cons.prems(4-6) have "x \<in> set js" by auto
    ultimately show ?thesis using Cons.IH [OF r2] Cons.prems by simp
  next
    case False
    obtain f1 t1 ev1 where r1: "runJob c s (sj_Job y) t = (f1, t1, ev1 :: 'a sched_event list)"
      by (cases "runJob c s (sj_Job y) t :: _ \<times> _ \<times> 'a sched_event list")
    obtain js2 t2 ev2 where r2: "run_jobs c s js t1 = (js2, t2, ev2 :: 'a sched_event list)"
      by (cases "run_jobs c s js t1 :: _ \<times> _ \<times> 'a sched_event list")
    have "t \<le> t1"
      using runJob_time [OF r1] Cons.prems(2,3) by simp
    moreover have eqs: "ev = ev1 @ ev2" "t2 = t'"
      using Cons.prems(1) False r1 r2 live by auto
    ultimately have "x \<in> set js \<Longrightarrow> \<exists>u fl. Started (sj_Job x) u fl \<in> set ev2"
      using Cons.IH [OF r2] later Cons.prems(2,3,7) by simp
    moreover obtain op d where "ev1 = [Started (sj_Job y) t f1, Observed op d]"
      using runJob_events [OF r1] by blast
    ultimately show ?thesis
      using Cons.prems(4) eqs(1) by (cases "x = y") auto
  qed
qed simp

section \<open>Runs of one job\<close>

text \<open>Two starts of one job: an interval apart, the first run over when the second starts.\<close>

fun spaced :: "'w sched_event \<Rightarrow> 'w sched_event \<Rightarrow> bool" where
  "spaced (Started a s f) (Started b u g) = (jb_Name a = jb_Name b \<longrightarrow> s + jb_Interval a \<le> u \<and> \<not> in_flight f u)"
| "spaced _ _ = True"

definition past_ok :: "'w sched_event list \<Rightarrow> int \<Rightarrow> sched_job \<Rightarrow> bool" where
  "past_ok past t x \<longleftrightarrow>
     (\<forall>j s f. Started j s f \<in> set past \<longrightarrow> jb_Name j = jb_Name (sj_Job x) \<longrightarrow>
        j = sj_Job x \<and> (\<exists>n. sj_nextRun x = Some n \<and> s + jb_Interval j \<le> n) \<and> (f = sj_flight x \<or> \<not> in_flight f t))"

lemma landed_later: "\<not> in_flight f t \<Longrightarrow> t \<le> u \<Longrightarrow> \<not> in_flight f u"
  by (cases f) auto

lemma past_ok_later: "past_ok past t x \<Longrightarrow> t \<le> u \<Longrightarrow> past_ok past u x"
  unfolding past_ok_def using landed_later by blast

lemma past_ok_other:
  "past_ok past t x \<Longrightarrow> \<forall>j s f. Started j s f \<in> set ev \<longrightarrow> jb_Name j \<noteq> jb_Name (sj_Job x) \<Longrightarrow> past_ok (past @ ev) t x"
  unfolding past_ok_def set_append by blast

lemma sorted_wrt_snoc: "sorted_wrt R (xs @ [y]) \<longleftrightarrow> sorted_wrt R xs \<and> (\<forall>x \<in> set xs. R x y)"
  by (auto simp: sorted_wrt_append)

lemma runJob_spaced:
  assumes r: "runJob c s (sj_Job x) t = (fl, t', ev)" and ok: "past_ok past t x" and sorted: "sorted_wrt spaced past"
    and due: "due x t" and free: "\<not> in_flight (sj_flight x) t" and pos: "0 < jb_Interval (sj_Job x)" "0 < ss_AbandonGrace s"
  shows "sorted_wrt spaced (past @ ev)"
    and "past_ok (past @ ev) t' (x\<lparr>sj_nextRun := Some (t + jb_Interval (sj_Job x)), sj_flight := fl\<rparr>)"
proof -
  obtain op d where ev: "ev = [Started (sj_Job x) t fl, Observed op d]"
    using runJob_events [OF r] by blast
  have before: "j = sj_Job x \<and> s + jb_Interval j \<le> t \<and> \<not> in_flight f t"
    if "Started j s f \<in> set past" "jb_Name j = jb_Name (sj_Job x)" for j s f
    using that ok due free unfolding past_ok_def due_def by fastforce
  have "spaced e (Started (sj_Job x) t fl)" if "e \<in> set past" for e
  proof (cases e)
    case (Started j s f)
    with that before show ?thesis by simp
  qed simp_all
  moreover have "spaced e (Observed op d)" for e
    by (cases e) simp_all
  ultimately show "sorted_wrt spaced (past @ ev)"
    using sorted by (auto simp: ev sorted_wrt_append)
  have "t \<le> t'"
    using runJob_time [OF r] pos by simp
  then show "past_ok (past @ ev) t' (x\<lparr>sj_nextRun := Some (t + jb_Interval (sj_Job x)), sj_flight := fl\<rparr>)"
    using before landed_later pos(1) by (fastforce simp: past_ok_def ev)
qed

lemma run_jobs_spaced:
  assumes "run_jobs c s js t = (js', t', ev)" "sorted_wrt spaced past" "\<forall>x \<in> set (earlier @ js). past_ok past t x"
    "distinct (map (\<lambda>x. jb_Name (sj_Job x)) (earlier @ js))" "\<forall>x \<in> set js. 0 < jb_Interval (sj_Job x)" "0 < ss_AbandonGrace s"
  shows "sorted_wrt spaced (past @ ev) \<and> (\<forall>x \<in> set (earlier @ js'). past_ok (past @ ev) t' x)"
  using assms
proof (induction js arbitrary: t js' t' ev past earlier)
  case (Cons x js)
  show ?case
  proof (cases "cancelled c t")
    case True
    with Cons.prems show ?thesis by auto
  next
    case False
    note live = this
    show ?thesis
    proof (cases "\<not> due x t \<or> in_flight (sj_flight x) t")
      case True
      obtain js2 t2 ev2 where r2: "run_jobs c s js t = (js2, t2, ev2 :: 'a sched_event list)"
        by (cases "run_jobs c s js t :: _ \<times> _ \<times> 'a sched_event list")
      with Cons.IH [OF r2 Cons.prems(2), of "earlier @ [x]"] Cons.prems live True show ?thesis by auto
    next
      case False
      obtain f1 t1 ev1 where r1: "runJob c s (sj_Job x) t = (f1, t1, ev1 :: 'a sched_event list)"
        by (cases "runJob c s (sj_Job x) t :: _ \<times> _ \<times> 'a sched_event list")
      obtain js2 t2 ev2 where r2: "run_jobs c s js t1 = (js2, t2, ev2 :: 'a sched_event list)"
        by (cases "run_jobs c s js t1 :: _ \<times> _ \<times> 'a sched_event list")
      let ?x = "x\<lparr>sj_nextRun := Some (t + jb_Interval (sj_Job x)), sj_flight := f1\<rparr>"
      have t1: "t \<le> t1"
        using runJob_time [OF r1] Cons.prems by simp
      have now: "sorted_wrt spaced (past @ ev1)" "past_ok (past @ ev1) t1 ?x"
        using runJob_spaced [OF r1 _ Cons.prems(2)] Cons.prems False by auto
      have "past_ok (past @ ev1) t1 y" if "y \<in> set (earlier @ js)" for y
      proof (rule past_ok_other [OF past_ok_later [OF _ t1]])
        show "past_ok past t y" using that Cons.prems(3) by auto
        have "jb_Name (sj_Job y) \<noteq> jb_Name (sj_Job x)"
          using that Cons.prems(4) by auto (metis imageI)+
        then show "\<forall>j s f. Started j s f \<in> set ev1 \<longrightarrow> jb_Name j \<noteq> jb_Name (sj_Job y)"
          using runJob_events [OF r1] by auto
      qed
      with now have "\<forall>y \<in> set ((earlier @ [?x]) @ js). past_ok (past @ ev1) t1 y"
        by auto
      from Cons.IH [OF r2 now(1) this] Cons.prems live False r1 r2 show ?thesis by auto
    qed
  qed
qed simp

section \<open>The answer of the lease behind a start\<close>

fun last_probe :: "'w sched_event list \<Rightarrow> (int \<times> bool \<times> 'w) option" where
  "last_probe [] = None"
| "last_probe (Probed t h w # es) = (case last_probe es of None \<Rightarrow> Some (t, h, w) | Some p \<Rightarrow> Some p)"
| "last_probe (_ # es) = last_probe es"

lemma last_probe_append: "last_probe (xs @ ys) = (case last_probe ys of None \<Rightarrow> last_probe xs | Some p \<Rightarrow> Some p)"
  by (induction xs rule: last_probe.induct) (auto split: option.splits)

lemma last_probe_none: "(\<And>t h w. Probed t h w \<notin> set es) \<Longrightarrow> last_probe es = None"
  by (induction es rule: last_probe.induct) auto

text \<open>
  Every start follows an affirmative answer with no probe in between, and comes at most \<open>bound\<close>
  after it; the answers are what the lease's world says.
\<close>

definition backed :: "int \<Rightarrow> 'w sched_event list \<Rightarrow> bool" where
  "backed bound es \<longleftrightarrow>
     (\<forall>pre j u fl post. es = pre @ Started j u fl # post \<longrightarrow>
        (\<exists>t w. last_probe pre = Some (t, True, w) \<and> t \<le> u \<and> u \<le> t + bound))"

lemma event_in_append:
  assumes "xs @ ys = pre @ e # post"
  obtains us where "xs = pre @ e # us" | us where "pre = xs @ us" "ys = us @ e # post"
  using assms by (force simp: append_eq_append_conv2 Cons_eq_append_conv append_eq_Cons_conv)

lemma backed_append:
  assumes "backed bound past" "last_probe ev = None"
    and "\<And>j u fl. Started j u fl \<in> set ev \<Longrightarrow> \<exists>t w. last_probe past = Some (t, True, w) \<and> t \<le> u \<and> u \<le> t + bound"
  shows "backed bound (past @ ev)"
  unfolding backed_def
proof (intro allI impI)
  fix pre j u fl post
  assume "past @ ev = pre @ Started j u fl # post"
  then consider us where "past = pre @ Started j u fl # us" | us where "pre = past @ us" "ev = us @ Started j u fl # post"
    by (rule event_in_append)
  then show "\<exists>t w. last_probe pre = Some (t, True, w) \<and> t \<le> u \<and> u \<le> t + bound"
  proof cases
    case 1
    with assms(1) show ?thesis unfolding backed_def by blast
  next
    case 2
    have "last_probe us = None"
      using assms(2) by (cases "last_probe us") (simp_all add: 2 last_probe_append split: option.splits)
    with assms(3) [of j u fl] show ?thesis
      by (simp add: 2 last_probe_append)
  qed
qed

definition lead_ok :: "'w sched_event list \<Rightarrow> int \<Rightarrow> scheduler \<Rightarrow> bool" where
  "lead_ok past now sc \<longleftrightarrow>
     (sc_leader sc \<longrightarrow> (\<exists>t w p. last_probe past = Some (t, True, w) \<and> t \<le> now \<and> sc_nextProbe sc = Some p \<and>
        p \<le> t + ss_ProbeInterval (sc_settings sc)))"

definition turn_bound :: "scheduler \<Rightarrow> int" where
  "turn_bound sc = ss_ProbeInterval (sc_settings sc) + budgets (sc_settings sc) (sc_jobs sc)"

definition trace_inv :: "'w sched_event list \<Rightarrow> int \<Rightarrow> scheduler \<Rightarrow> bool" where
  "trace_inv past now sc \<longleftrightarrow> registered sc \<and> sorted_wrt spaced past \<and> (\<forall>x \<in> set (sc_jobs sc). past_ok past now x) \<and>
     lead_ok past now sc \<and> backed (turn_bound sc) past"

lemma trace_inv_later: "trace_inv past now sc \<Longrightarrow> now \<le> t \<Longrightarrow> trace_inv past t sc"
  unfolding trace_inv_def lead_ok_def using past_ok_later by fastforce

lemma pristine_trace: "pristine sc \<Longrightarrow> trace_inv [] now sc"
  by (auto simp: trace_inv_def pristine_def past_ok_def lead_ok_def backed_def)

lemma past_ok_quiet: "past_ok past t x \<Longrightarrow> \<forall>j s f. Started j s f \<notin> set ev \<Longrightarrow> past_ok (past @ ev) t x"
  by (erule past_ok_other) simp

text \<open>Asking the lease starts nothing, and leaves the scheduler a leader exactly on its answer.\<close>

lemma holdsLease_trace:
  assumes h: "holdsLease acquire sc w now = (held, t1, sc1, w1, ev)" and inv: "trace_inv past now sc"
  shows "trace_inv (past @ ev) t1 sc1 \<and> now \<le> t1 \<and> sc_leader sc1 = held \<and> sc_jobs sc1 = sc_jobs sc \<and>
    sc_settings sc1 = sc_settings sc \<and> (\<forall>j s f. Started j s f \<notin> set ev) \<and>
    (held \<longrightarrow> (\<exists>t w. last_probe (past @ ev) = Some (t, True, w) \<and> t \<le> t1 \<and> t1 \<le> t + ss_ProbeInterval (sc_settings sc)))"
proof (cases "case sc_nextProbe sc of None \<Rightarrow> False | Some p \<Rightarrow> now < p")
  case True
  then show ?thesis
    using h inv by (auto simp: holdsLease_def trace_inv_def lead_ok_def split: option.splits)
next
  case False
  obtain w' t' r where a: "acquire now w = (w', t', r)" by (cases "acquire now w")
  have pi: "0 < ss_ProbeInterval (sc_settings sc)"
    using inv by (simp add: trace_inv_def registered_def)
  obtain h' es where r: "ev = es @ [Probed t1 h' w1]" "held = h'" "\<forall>e \<in> set es. \<exists>op d. e = Observed op d" "t1 = max now t'"
      "sc1 = sc\<lparr>sc_nextProbe := Some (now + ss_ProbeInterval (sc_settings sc)), sc_leader := held\<rparr>"
  proof (cases r)
    case (Inl e)
    from h False a show ?thesis
      by (intro that [of "[Observed ''election.failed'' 0]" False]) (auto simp: holdsLease_def Inl Let_def)
  next
    case (Inr b)
    from h False a show ?thesis
      by (intro that [of "[]" b]) (auto simp: holdsLease_def Inr Let_def)
  qed
  have none: "Started j s f \<notin> set es" "Probed t b w \<notin> set es" for j s f t b w
    using r(3) by blast+
  have mute: "\<forall>e \<in> set es. \<forall>e'. spaced e e' \<and> spaced e' e"
  proof (intro ballI allI)
    fix e e' assume "e \<in> set es"
    then obtain op d where "e = Observed op d" using r(3) by blast
    then show "spaced e e' \<and> spaced e' e" by (cases e') simp_all
  qed
  have "spaced e (Probed t1 h' w1)" for e
    by (cases e) simp_all
  then have sorted: "sorted_wrt spaced (past @ ev)"
    using inv mute unfolding trace_inv_def r(1) sorted_wrt_append by (auto simp: sorted_wrt_iff_nth_less)
  have lp: "last_probe (past @ ev) = Some (t1, h', w1)"
    by (simp add: r(1) last_probe_append)
  have quiet: "\<forall>j s f. Started j s f \<notin> set ev"
    using none by (simp add: r(1))
  have "backed b (past @ ev)" if "backed b past" for b
    unfolding backed_def
  proof (intro allI impI)
    fix pre j u fl post
    assume eq: "past @ ev = pre @ Started j u fl # post"
    then have "\<exists>us. past = pre @ Started j u fl # us"
      by (rule event_in_append) (use quiet in auto)
    with that show "\<exists>t w. last_probe pre = Some (t, True, w) \<and> t \<le> u \<and> u \<le> t + b"
      unfolding backed_def by blast
  qed
  moreover have "\<forall>x \<in> set (sc_jobs sc). past_ok (past @ ev) t1 x"
  proof
    fix x assume "x \<in> set (sc_jobs sc)"
    with inv have "past_ok past now x" by (simp add: trace_inv_def)
    then have "past_ok past t1 x" by (rule past_ok_later) (simp add: r(4))
    then show "past_ok (past @ ev) t1 x" using quiet by (rule past_ok_quiet)
  qed
  ultimately show ?thesis
    using inv sorted lp quiet r(2,4) pi by (auto simp: trace_inv_def r(5) lead_ok_def turn_bound_def registered_def)
qed

lemma budgets_cong: "map sj_Job js' = map sj_Job js \<Longrightarrow> budgets s js' = budgets s js"
  unfolding budgets_def by (metis (no_types, lifting) map_map comp_def map_eq_conv list.map_comp)

lemma sched_step_trace:
  assumes r: "sched_step acquire c sc w now = (t', sc', w', ev)" and inv: "trace_inv past now sc"
  shows "trace_inv (past @ ev) t' sc' \<and> now \<le> t' \<and> sc_settings sc' = sc_settings sc \<and>
    map sj_Job (sc_jobs sc') = map sj_Job (sc_jobs sc)"
proof -
  obtain held t1 sc1 w1 ev1 where h: "holdsLease acquire sc w now = (held, t1, sc1, w1, ev1)"
    by (cases "holdsLease acquire sc w now")
  note H = holdsLease_trace [OF h inv]
  show ?thesis
  proof (cases held)
    case False
    with r h H show ?thesis by (auto simp: sched_step_def)
  next
    case True
    obtain js t2 ev2 where j: "run_jobs c (sc_settings sc1) (sc_jobs sc1) t1 = (js, t2, ev2 :: 'a sched_event list)"
      by (cases "run_jobs c (sc_settings sc1) (sc_jobs sc1) t1 :: _ \<times> _ \<times> 'a sched_event list")
    have res: "t' = t2" "sc' = sc1\<lparr>sc_jobs := js\<rparr>" "ev = ev1 @ ev2"
      using r h j True by (auto simp: sched_step_def)
    let ?p = "past @ ev1"
    have inv1: "trace_inv ?p t1 sc1" and reg: "registered sc1"
      using H by (simp_all add: trace_inv_def)
    have pos: "\<forall>x \<in> set (sc_jobs sc1). 0 < jb_Interval (sj_Job x)" "0 < ss_AbandonGrace (sc_settings sc1)"
      using reg by (simp_all add: registered_def)
    note T = run_jobs_time [OF j pos]
    obtain t w0 where lp: "last_probe ?p = Some (t, True, w0)" "t \<le> t1" "t1 \<le> t + ss_ProbeInterval (sc_settings sc1)"
      using H True by auto
    have none: "last_probe ev2 = None"
      using run_jobs_no_probe [OF j] by (blast intro: last_probe_none)
    have "sorted_wrt spaced (?p @ ev2) \<and> (\<forall>x \<in> set ([] @ js). past_ok (?p @ ev2) t2 x)"
      by (rule run_jobs_spaced [OF j]) (use inv1 reg pos in \<open>auto simp: trace_inv_def registered_def\<close>)
    moreover have jobs: "map sj_Job js = map sj_Job (sc_jobs sc1)"
      by (rule run_jobs_jobs [OF j])
    moreover have "backed (turn_bound sc1) (?p @ ev2)"
    proof (rule backed_append [OF _ none])
      show "backed (turn_bound sc1) ?p"
        using inv1 by (simp add: trace_inv_def)
      fix j u fl assume "Started j u fl \<in> set ev2"
      then have "t1 \<le> u" "u \<le> t2"
        using run_jobs_starts [OF j pos] by blast+
      with lp T show "\<exists>t w. last_probe ?p = Some (t, True, w) \<and> t \<le> u \<and> u \<le> t + turn_bound sc1"
        by (auto simp: turn_bound_def)
    qed
    moreover have "lead_ok (?p @ ev2) t2 (sc1\<lparr>sc_jobs := js\<rparr>)"
      using inv1 T none by (fastforce simp: trace_inv_def lead_ok_def last_probe_append)
    moreover have "registered (sc1\<lparr>sc_jobs := js\<rparr>)"
    proof -
      have "map (\<lambda>x. jb_Name (sj_Job x)) js = map (\<lambda>x. jb_Name (sj_Job x)) (sc_jobs sc1)"
        using arg_cong [OF jobs, of "map jb_Name"] by (simp add: comp_def)
      moreover have "(\<forall>x \<in> set js. 0 < jb_Interval (sj_Job x)) = (\<forall>x \<in> set (sc_jobs sc1). 0 < jb_Interval (sj_Job x))"
        using arg_cong [OF jobs, of "\<lambda>xs. \<forall>x \<in> set xs. 0 < jb_Interval x"] by simp
      ultimately show ?thesis using reg by (simp add: registered_def)
    qed
    moreover have "turn_bound (sc1\<lparr>sc_jobs := js\<rparr>) = turn_bound sc1"
      using budgets_cong [OF jobs] by (simp add: turn_bound_def)
    ultimately show ?thesis
      using H T by (simp add: trace_inv_def res)
  qed
qed

lemma releaseLease_trace:
  "releaseLease release sc w now = (t', sc', w', ev) \<Longrightarrow> ev = [] \<or> (\<exists>t. ev = [GaveUp t w'])"
  by (auto simp: releaseLease_def split: if_splits prod.splits)

text \<open>Every trace of the loop, finished or not.\<close>

definition trace_ok :: "int \<Rightarrow> 'w sched_event list \<Rightarrow> bool" where
  "trace_ok bound es \<longleftrightarrow> sorted_wrt spaced es \<and> backed bound es"

lemma select_wake_later: "select_wake c flips now fire = (fl, WakeTick r) \<Longrightarrow> now \<le> r \<and> fire \<le> r"
  by (auto simp: select_wake_def split: option.splits if_splits)

lemma run_loop_trace:
  assumes "run_loop fuel acquire release c t0 flips now fire sc w = (ev, res)" "trace_inv past now sc"
  shows "trace_ok (turn_bound sc) (past @ ev)"
  using assms
proof (induction fuel arbitrary: flips now fire sc w ev res past)
  case 0
  then show ?case by (simp add: trace_ok_def trace_inv_def)
next
  case (Suc fuel)
  obtain fl wk where sel: "select_wake c flips now fire = (fl, wk)" by fastforce
  show ?case
  proof (cases wk)
    case (WakeDone t)
    obtain t' sc' w' ev' where rel: "releaseLease release sc w t = (t', sc', w', ev')"
      by (cases "releaseLease release sc w t")
    have past: "sorted_wrt spaced past" "backed (turn_bound sc) past"
      using Suc.prems(2) by (simp_all add: trace_inv_def)
    have "spaced e (GaveUp t w')" for e and t by (cases e) simp_all
    with past releaseLease_trace [OF rel] have "trace_ok (turn_bound sc) (past @ ev')"
      by (auto simp: trace_ok_def sorted_wrt_append intro!: backed_append)
    with Suc.prems(1) sel WakeDone rel show ?thesis by simp
  next
    case (WakeTick r)
    obtain t' sc' w' ev1 where st: "sched_step acquire c sc w r = (t', sc', w', ev1)"
      by (cases "sched_step acquire c sc w r")
    have "trace_inv past r sc"
      using Suc.prems(2) select_wake_later [OF sel [unfolded WakeTick]] by (blast intro: trace_inv_later)
    note T = sched_step_trace [OF st this]
    obtain evs res' where rl: "run_loop fuel acquire release c t0 fl t' (next_fire (ss_Tick (sc_settings sc)) t0 r) sc' w' = (evs, res')"
      by fastforce
    have "turn_bound sc' = turn_bound sc"
      using T budgets_cong [of "sc_jobs sc'" "sc_jobs sc"] by (simp add: turn_bound_def)
    with Suc.IH [OF rl, of "past @ ev1"] T Suc.prems(1) sel WakeTick st rl show ?thesis by simp
  qed
qed

lemma Run_trace:
  fixes acquire :: "int \<Rightarrow> 'w \<Rightarrow> 'w \<times> int \<times> bool fallible"
  assumes "RegisterAll js (NewScheduler s) = Inr sc"
  shows "trace_ok (turn_bound sc) (fst (Run fuel acquire release c flips t0 sc w))"
proof -
  have "pristine sc"
    using RegisterAll_pristine [OF New_pristine assms] .
  then have "trace_inv ([] :: 'w sched_event list) t0 sc" by (rule pristine_trace)
  from run_loop_trace [OF prod.collapse [symmetric] this] show ?thesis
    by (simp add: Run_def trace_ok_def backed_def)
qed

text \<open>
  Property C14. One process never has two runs of a job at once. In a run of the loop, whatever the jobs,
  the lease and the clock do, a later start of a job comes at least its interval after an earlier
  one, and the earlier run has returned by then - also when the loop had abandoned it. Runs of
  different processes may overlap for the rest of a probe interval (\<open>two_runners\<close>).
\<close>

theorem runs_never_overlap:
  assumes "RegisterAll js (NewScheduler s) = Inr sc"
    and "fst (Run fuel acquire release c flips t0 sc w) = es"
    and "i < k" "k < length es" "es ! i = Started a t fl" "es ! k = Started b u fl'" "jb_Name a = jb_Name b"
  shows "t + jb_Interval a \<le> u \<and> \<not> in_flight fl u"
proof -
  have "sorted_wrt spaced es"
    using Run_trace [OF assms(1), of fuel acquire release c flips t0 w] assms(2) by (simp add: trace_ok_def)
  then have "spaced (es ! i) (es ! k)"
    using assms(3,4) by (simp add: sorted_wrt_iff_nth_less)
  with assms(5-7) show ?thesis by simp
qed

section \<open>Stopping\<close>

lemma sched_step_starts:
  fixes acquire :: "int \<Rightarrow> 'w \<Rightarrow> 'w \<times> int \<times> bool fallible" and past :: "'w sched_event list"
  assumes r: "sched_step acquire c sc w now = (t', sc', w', ev)" and inv: "trace_inv past now sc" and "Started j u fl \<in> set ev"
  shows "\<not> cancelled c u"
proof -
  obtain held t1 sc1 w1 ev1 where h: "holdsLease acquire sc w now = (held, t1, sc1, w1, ev1)"
    by (cases "holdsLease acquire sc w now")
  note H = holdsLease_trace [OF h inv]
  have pos: "\<forall>x \<in> set (sc_jobs sc). 0 < jb_Interval (sj_Job x)" "0 < ss_AbandonGrace (sc_settings sc)"
    using inv by (simp_all add: trace_inv_def registered_def)
  from assms(1,3) h H show ?thesis
    by (auto simp: sched_step_def split: if_splits prod.splits dest!: run_jobs_starts [OF _ pos])
qed

lemma run_loop_starts:
  fixes acquire :: "int \<Rightarrow> 'w \<Rightarrow> 'w \<times> int \<times> bool fallible" and past :: "'w sched_event list"
  assumes "run_loop fuel acquire release c t0 flips now fire sc w = (ev, res)" "trace_inv past now sc" "Started j u fl \<in> set ev"
  shows "\<not> cancelled c u"
  using assms
proof (induction fuel arbitrary: flips now fire sc w ev res past)
  case (Suc fuel)
  obtain f wk where sel: "select_wake c flips now fire = (f, wk)" by fastforce
  show ?case
  proof (cases wk)
    case (WakeDone t)
    obtain t' sc' w' ev' where rel: "releaseLease release sc w t = (t', sc', w', ev')"
      by (cases "releaseLease release sc w t")
    with Suc.prems(1,3) sel WakeDone releaseLease_trace [OF rel] show ?thesis by auto
  next
    case (WakeTick r)
    obtain t' sc' w' ev1 where st: "sched_step acquire c sc w r = (t', sc', w', ev1)"
      by (cases "sched_step acquire c sc w r")
    have inv: "trace_inv past r sc"
      using Suc.prems(2) select_wake_later [OF sel [unfolded WakeTick]] by (blast intro: trace_inv_later)
    note T = sched_step_trace [OF st inv]
    obtain evs res' where rl: "run_loop fuel acquire release c t0 f t' (next_fire (ss_Tick (sc_settings sc)) t0 r) sc' w' = (evs, res')"
      by fastforce
    have "ev = ev1 @ evs"
      using Suc.prems(1) sel WakeTick st rl by simp
    with Suc.prems(3) Suc.IH [OF rl] T sched_step_starts [OF st inv] show ?thesis by auto
  qed
qed simp

text \<open>The firings of the ticker that are left before the cancellation.\<close>

definition firings_left :: "int \<Rightarrow> int \<Rightarrow> int \<Rightarrow> nat" where
  "firings_left tick x fire = (if x < fire then 0 else nat ((x - fire) div tick) + 1)"

lemma firings_left_mono:
  assumes "0 < tick" "fire \<le> fire'"
  shows "firings_left tick x fire' \<le> firings_left tick x fire"
proof -
  have "(x - fire') div tick \<le> (x - fire) div tick"
    using assms by (intro zdiv_mono1) auto
  then show ?thesis
    using assms by (auto simp: firings_left_def)
qed

lemma firings_left_next:
  assumes "0 < tick" "fire \<le> x" "fire + tick \<le> fire'"
  shows "firings_left tick x fire' < firings_left tick x fire"
proof -
  have "(x - (fire + tick)) div tick = (x - fire) div tick - 1"
    using assms div_add_self2 [of tick "x - fire - tick"] by (simp add: algebra_simps)
  then have "firings_left tick x (fire + tick) < firings_left tick x fire"
    using assms pos_imp_zdiv_pos_iff [of tick "x - fire"] by (auto simp: firings_left_def)
  with firings_left_mono [OF assms(1,3), of x] show ?thesis by simp
qed

lemma next_fire_later:
  assumes "0 < tick" "fire = t0 + tick * k" "fire \<le> r"
  shows "fire + tick \<le> next_fire tick t0 r"
proof -
  have "k \<le> (r - t0) div tick"
    using assms by (metis add_le_imp_le_left diff_add_cancel nonzero_mult_div_cancel_left zdiv_mono1 add.commute order_less_irrefl)
  then have "tick * (k + 1) \<le> tick * ((r - t0) div tick + 1)"
    using assms(1) by simp
  then show ?thesis
    by (simp add: next_fire_def assms(2) algebra_simps)
qed

lemma run_loop_returns:
  fixes acquire :: "int \<Rightarrow> 'w \<Rightarrow> 'w \<times> int \<times> bool fallible" and past :: "'w sched_event list"
  assumes "firings_left (ss_Tick (sc_settings sc)) x fire + flips < fuel" "fire = t0 + ss_Tick (sc_settings sc) * k"
    "trace_inv past now sc"
  shows "\<exists>t' sc' w'. snd (run_loop fuel acquire release (Some x) t0 flips now fire sc w) = Some (t', sc', w') \<and> \<not> sc_leader sc'"
  using assms
proof (induction fuel arbitrary: flips now fire sc w past k)
  case (Suc fuel)
  let ?tick = "ss_Tick (sc_settings sc)"
  have tick: "0 < ?tick"
    using Suc.prems(3) by (simp add: trace_inv_def registered_def)
  obtain f wk where sel: "select_wake (Some x) flips now fire = (f, wk)" by fastforce
  show ?case
  proof (cases wk)
    case (WakeDone t)
    then show ?thesis
      using sel by (auto simp: releaseLease_def split: prod.splits)
  next
    case (WakeTick r)
    obtain t' sc' w' ev1 where st: "sched_step acquire (Some x) sc w r = (t', sc', w', ev1)"
      by (cases "sched_step acquire (Some x) sc w r")
    have r: "now \<le> r" "fire \<le> r"
      using select_wake_later [OF sel [unfolded WakeTick]] by simp_all
    have "trace_inv past r sc"
      using Suc.prems(3) r(1) by (rule trace_inv_later)
    note T = sched_step_trace [OF st this]
    let ?fire = "next_fire ?tick t0 r"
    have later: "fire + ?tick \<le> ?fire"
      by (rule next_fire_later [OF tick Suc.prems(2) r(2)])
    have "firings_left ?tick x ?fire + f < firings_left ?tick x fire + flips"
      using sel WakeTick later tick firings_left_next [OF tick _ later, of x] firings_left_mono [OF tick, of fire ?fire x]
      by (auto simp: select_wake_def split: if_splits)
    then have "firings_left (ss_Tick (sc_settings sc')) x ?fire + f < fuel"
      using Suc.prems(1) T by simp
    moreover have "?fire = t0 + ss_Tick (sc_settings sc') * ((r - t0) div ?tick + 1)"
      using T by (simp add: next_fire_def)
    ultimately have "\<exists>t2 sc2 w2. snd (run_loop fuel acquire release (Some x) t0 f t' ?fire sc' w') = Some (t2, sc2, w2) \<and> \<not> sc_leader sc2"
      using Suc.IH T by blast
    then show ?thesis
      using sel WakeTick st by (auto split: prod.splits)
  qed
qed simp

text \<open>What a loop that ended did with its lease: released if the last answer was affirmative.\<close>

lemma sched_step_lead:
  assumes "sched_step acquire c sc w now = (t', sc', w', ev)"
  shows "case last_probe ev of None \<Rightarrow> sc_leader sc' = sc_leader sc \<and> w' = w | Some (t, h, w1) \<Rightarrow> sc_leader sc' = h \<and> w' = w1"
proof -
  obtain held t1 sc1 w1 ev1 where h: "holdsLease acquire sc w now = (held, t1, sc1, w1, ev1)"
    by (cases "holdsLease acquire sc w now")
  have lead: "case last_probe ev1 of None \<Rightarrow> sc_leader sc1 = sc_leader sc \<and> w1 = w | Some (t, h, w2) \<Rightarrow> sc_leader sc1 = h \<and> w1 = w2"
    using h by (auto simp: holdsLease_def Let_def split: if_splits sum.splits prod.splits option.splits)
  show ?thesis
  proof (cases held)
    case False
    with assms h have "sc1 = sc'" "w1 = w'" "ev1 = ev" by (simp_all add: sched_step_def)
    with lead show ?thesis by (auto split: option.splits)
  next
    case True
    obtain js t2 ev2 where j: "run_jobs c (sc_settings sc1) (sc_jobs sc1) t1 = (js, t2, ev2 :: 'a sched_event list)"
      by (cases "run_jobs c (sc_settings sc1) (sc_jobs sc1) t1 :: _ \<times> _ \<times> 'a sched_event list")
    have "last_probe ev2 = None" using run_jobs_no_probe [OF j] by (blast intro: last_probe_none)
    with assms h j True lead show ?thesis by (auto simp: sched_step_def last_probe_append split: option.splits)
  qed
qed

definition gave_up :: "(int \<Rightarrow> 'w \<Rightarrow> 'w \<times> int) \<Rightarrow> int \<Rightarrow> 'w sched_event list \<Rightarrow> 'w \<Rightarrow> int \<Rightarrow> 'w \<Rightarrow> bool" where
  "gave_up release x es w1 t' w' \<longleftrightarrow>
     (\<exists>es0 u. es = es0 @ [GaveUp t' w'] \<and> x \<le> u \<and> t' = max u (snd (release u w1)) \<and> w' = fst (release u w1))"

lemma gave_up_append: "gave_up release x es w1 t' w' \<Longrightarrow> gave_up release x (ev @ es) w1 t' w'"
  unfolding gave_up_def by (metis append_assoc)

lemma run_loop_gives_up:
  "run_loop fuel acquire release (Some x) t0 flips now fire sc w = (es, Some (t', sc', w')) \<Longrightarrow>
   case last_probe es of None \<Rightarrow> sc_leader sc \<longrightarrow> gave_up release x es w t' w'
   | Some (t, h, w1) \<Rightarrow> h \<longrightarrow> gave_up release x es w1 t' w'"
proof (induction fuel arbitrary: flips now fire sc w es)
  case (Suc fuel)
  obtain f wk where sel: "select_wake (Some x) flips now fire = (f, wk)" by fastforce
  show ?case
  proof (cases wk)
    case (WakeDone t)
    then have "x \<le> t" using sel by (auto simp: select_wake_def split: if_splits)
    show ?thesis
    proof (cases "sc_leader sc")
      case True
      with WakeDone sel Suc.prems have "es = [] @ [GaveUp t' w']" "t' = max t (snd (release t w))" "w' = fst (release t w)"
        by (auto simp: releaseLease_def split: prod.splits)
      with \<open>x \<le> t\<close> have "gave_up release x es w t' w'" unfolding gave_up_def by blast
      with \<open>es = [] @ [GaveUp t' w']\<close> show ?thesis by simp
    next
      case False
      with WakeDone sel Suc.prems show ?thesis by (auto simp: releaseLease_def)
    qed
  next
    case (WakeTick r)
    obtain t1 sc1 w1 ev1 where st: "sched_step acquire (Some x) sc w r = (t1, sc1, w1, ev1)"
      by (cases "sched_step acquire (Some x) sc w r")
    obtain evs where rl: "run_loop fuel acquire release (Some x) t0 f t1 (next_fire (ss_Tick (sc_settings sc)) t0 r) sc1 w1 = (evs, Some (t', sc', w'))"
      and es: "es = ev1 @ evs"
      using Suc.prems sel WakeTick st by (auto split: prod.splits)
    from Suc.IH [OF rl] sched_step_lead [OF st] show ?thesis
      by (auto simp: es last_probe_append intro: gave_up_append split: option.splits)
  qed
qed simp

text \<open>
  Property C16. \<^verbatim>\<open>Run\<close> returns after its context is cancelled, whatever its jobs do - hang, ignore
  the cancellation, panic: the loop turns at most once per tick before the cancellation, and once
  for each time the select prefers a tick after it. If the lease's last answer was affirmative,
  its last action is to release the lease, after the cancellation and in the world that answer
  left. No job is started at or after the cancellation.
\<close>

theorem run_returns:
  fixes acquire :: "int \<Rightarrow> 'w \<Rightarrow> 'w \<times> int \<times> bool fallible"
  assumes "RegisterAll js (NewScheduler s) = Inr sc"
    and "nat ((x - t0) div ss_Tick (sc_settings sc)) + flips + 2 \<le> fuel"
  shows "\<exists>es t' sc' w'. Run fuel acquire release (Some x) flips t0 sc w = (es, Some (t', sc', w')) \<and>
    (\<forall>t w1. last_probe es = Some (t, True, w1) \<longrightarrow>
       (\<exists>es0 u. es = es0 @ [GaveUp t' w'] \<and> x \<le> u \<and> t' = max u (snd (release u w1)) \<and> w' = fst (release u w1))) \<and>
    (\<forall>j u fl. Started j u fl \<in> set es \<longrightarrow> u < x)"
proof (cases "sc_jobs sc = []")
  case True
  then show ?thesis by (simp add: Run_def)
next
  case False
  let ?tick = "ss_Tick (sc_settings sc)"
  have inv: "trace_inv ([] :: 'w sched_event list) t0 sc"
    using RegisterAll_pristine [OF New_pristine assms(1)] by (rule pristine_trace)
  then have tick: "0 < ?tick" by (simp add: trace_inv_def registered_def)
  have "firings_left ?tick x (t0 + ?tick) \<le> firings_left ?tick x t0"
    using tick by (intro firings_left_mono) auto
  also have "\<dots> \<le> nat ((x - t0) div ?tick) + 1"
    by (simp add: firings_left_def)
  finally have "firings_left ?tick x (t0 + ?tick) + flips < fuel"
    using assms(2) by simp
  from run_loop_returns [OF this, of t0 1 "[]" t0 acquire release w] inv
  obtain es t' sc' w' where run: "run_loop fuel acquire release (Some x) t0 flips t0 (t0 + ?tick) sc w = (es, Some (t', sc', w'))"
    by (metis mult_1_right prod.collapse)
  have "u < x" if "Started j u fl \<in> set es" for j u fl
    using run_loop_starts [OF run inv that] by (auto simp: cancelled_def)
  moreover have "gave_up release x es w1 t' w'" if "last_probe es = Some (t, True, w1)" for t w1
    using run_loop_gives_up [OF run] that by simp
  moreover have "Run fuel acquire release (Some x) flips t0 sc w = (es, Some (t', sc', w'))"
    using run False by (simp add: Run_def)
  ultimately show ?thesis unfolding gave_up_def by blast
qed

section \<open>The lease behind the loop\<close>

text \<open>
  What the loop asks of a lease: an affirmative answer means that the lease is held, a release that
  it is not, and both keep what the lease relies on.
\<close>

locale lease_port =
  fixes acquire :: "int \<Rightarrow> 'w \<Rightarrow> 'w \<times> int \<times> bool fallible"
    and release :: "int \<Rightarrow> 'w \<Rightarrow> 'w \<times> int"
    and inv :: "'w \<Rightarrow> bool"
    and held :: "'w \<Rightarrow> bool"
  assumes acquire_inv: "inv w \<Longrightarrow> inv (fst (acquire t w))"
    and acquire_held: "inv w \<Longrightarrow> acquire t w = (w', t', Inr True) \<Longrightarrow> held w'"
    and release_inv: "inv w \<Longrightarrow> inv (fst (release t w))"
    and release_drops: "inv w \<Longrightarrow> \<not> held (fst (release t w))"
begin

definition said :: "'w sched_event list \<Rightarrow> bool" where
  "said es \<longleftrightarrow> (\<forall>t h w. Probed t h w \<in> set es \<longrightarrow> inv w \<and> (h \<longrightarrow> held w)) \<and>
     (\<forall>t w. GaveUp t w \<in> set es \<longrightarrow> \<not> held w)"

lemma said_append: "said (xs @ ys) \<longleftrightarrow> said xs \<and> said ys"
  by (auto simp: said_def)

lemma said_jobs: "run_jobs c s js t = (js', t', es) \<Longrightarrow> said es"
  by (simp add: said_def run_jobs_no_probe)

lemma holdsLease_said:
  assumes "inv w" "holdsLease acquire sc w now = (h, t, sc', w', es)"
  shows "inv w' \<and> said es"
proof -
  obtain w1 t1 r where a: "acquire now w = (w1, t1, r)" by (cases "acquire now w")
  have "inv w1"
    using acquire_inv [OF assms(1), of now] by (simp add: a)
  with assms a acquire_held [OF assms(1), of now w1 t1] show ?thesis
    by (auto simp: holdsLease_def said_def Let_def split: if_splits sum.splits)
qed

lemma sched_step_said:
  assumes "inv w" "sched_step acquire c sc w now = (t, sc', w', es)"
  shows "inv w' \<and> said es"
proof -
  obtain h t1 sc1 w1 es1 where hl: "holdsLease acquire sc w now = (h, t1, sc1, w1, es1)"
    by (cases "holdsLease acquire sc w now")
  with assms(2) holdsLease_said [OF assms(1) hl] show ?thesis
    by (auto simp: sched_step_def said_append split: if_splits prod.splits dest: said_jobs)
qed

lemma run_loop_said:
  "inv w \<Longrightarrow> said (fst (run_loop fuel acquire release c t0 flips now fire sc w))"
proof (induction fuel arbitrary: flips now fire sc w)
  case (Suc fuel)
  obtain f wk where sel: "select_wake c flips now fire = (f, wk)" by fastforce
  show ?case
  proof (cases wk)
    case (WakeDone t)
    then show ?thesis
      using sel release_drops [OF Suc.prems, of t] by (auto simp: releaseLease_def said_def split: prod.splits)
  next
    case (WakeTick r)
    obtain t' sc' w' es where st: "sched_step acquire c sc w r = (t', sc', w', es)"
      by (cases "sched_step acquire c sc w r")
    from sched_step_said [OF Suc.prems st] Suc.IH [of w'] show ?thesis
      using sel WakeTick st by (auto simp: said_append split: prod.splits) (metis fst_conv)
  qed
qed (simp add: said_def)

lemma Run_said: "inv w \<Longrightarrow> said (fst (Run fuel acquire release c flips t0 sc w))"
  by (simp add: Run_def run_loop_said) (simp add: said_def)

lemma last_probe_said: "said es \<Longrightarrow> last_probe es = Some (t, True, w) \<Longrightarrow> inv w \<and> held w"
proof (induction es rule: last_probe.induct)
  case (2 t' h w' es)
  then show ?case by (auto simp: said_def split: option.splits)
qed (auto simp: said_def)

lemma start_is_backed:
  assumes reg: "RegisterAll js (NewScheduler s) = Inr sc" and iv: "inv w"
    and run: "fst (Run fuel acquire release c flips t0 sc w) = pre @ Started j u fl # post"
  shows "\<exists>t w'. last_probe pre = Some (t, True, w') \<and> inv w' \<and> held w' \<and> t \<le> u \<and> u \<le> t + turn_bound sc"
proof -
  have "backed (turn_bound sc) (pre @ Started j u fl # post)"
    using Run_trace [OF reg, of fuel acquire release c flips t0 w] by (simp add: trace_ok_def run)
  then obtain t w' where "last_probe pre = Some (t, True, w')" "t \<le> u" "u \<le> t + turn_bound sc"
    unfolding backed_def by blast
  moreover have "said pre"
    using Run_said [OF iv, of fuel c flips t0 sc] by (simp add: run said_append)
  ultimately show ?thesis
    using last_probe_said by blast
qed

end

text \<open>
  The advisory lease of process \<open>i\<close> in a deployment. Before a call the other processes and the network
  have made the moves \<open>env\<close> says; the answer takes \<open>lat\<close> to arrive.
\<close>

definition foreign :: "nat \<Rightarrow> move \<Rightarrow> bool" where
  "foreign i m \<longleftrightarrow> (case m of Offers j _ \<Rightarrow> j \<noteq> i | GivesUp j _ _ \<Rightarrow> j \<noteq> i | Restarts j \<Rightarrow> j \<noteq> i | _ \<Rightarrow> True)"

definition advisory_acquire ::
  "nat \<Rightarrow> (int \<Rightarrow> move list) \<Rightarrow> (int \<Rightarrow> network) \<Rightarrow> (int \<Rightarrow> int) \<Rightarrow> int \<Rightarrow> world \<Rightarrow> world \<times> int \<times> bool fallible" where
  "advisory_acquire i env net lat t w =
     (let w1 = moved (filter (foreign i) (env t)) w; r = lease_Acquire (net t) (at_process i w1)
      in (put_process i (fst r) w1, t + lat t, snd r))"

definition advisory_release ::
  "nat \<Rightarrow> (int \<Rightarrow> move list) \<Rightarrow> (int \<Rightarrow> bool \<times> bool) \<Rightarrow> (int \<Rightarrow> int) \<Rightarrow> int \<Rightarrow> world \<Rightarrow> world \<times> int" where
  "advisory_release i env fate lat t w =
     (let w1 = moved (filter (foreign i) (env t)) w
      in (put_process i (lease_Release (fst (fate t)) (snd (fate t)) (at_process i w1)) w1, t + lat t))"

interpretation advisory:
  lease_port "advisory_acquire i env net lat" "advisory_release i env fate lat" lease_inv "\<lambda>w. leads w i"
proof
  fix w w' :: world and t t' :: int
  assume inv: "lease_inv w"
  note m = moved_inv [OF inv, of "filter (foreign i) (env t)"]
  show "lease_inv (fst (advisory_acquire i env net lat t w))"
    using local_move_inv [OF m local_move_acquire [OF ready_at [OF m]]] by (simp add: advisory_acquire_def Let_def)
  show "lease_inv (fst (advisory_release i env fate lat t w))"
    using local_move_inv [OF m local_move_release [OF ready_at [OF m]]] by (simp add: advisory_release_def Let_def)
  show "\<not> leads (fst (advisory_release i env fate lat t w)) i"
    by (auto simp: advisory_release_def Let_def leads_def put_process_def lease_Release_def at_process_def split: option.split)
  assume "advisory_acquire i env net lat t w = (w', t', Inr True)"
  then show "leads w' i"
    using acquire_granted [OF m, of "net t" i] by (auto simp: advisory_acquire_def Let_def prod_eq_iff)
qed

text \<open>
  Property C11. A process starts a job only on the strength of the lease. Every start follows an answer
  of the database at which this process led and no other of its name did, with no probe in between,
  and comes at most one probe interval and the budgets of the jobs after that answer - for every
  interleaving with other processes, every failure of the network and every behaviour of the jobs.
\<close>

theorem starts_follow_leadership:
  assumes "RegisterAll js (NewScheduler s) = Inr sc" "lease_inv w"
    and "fst (Run fuel (advisory_acquire i env net lat) (advisory_release i env fate lat) c flips t0 sc w) =
      pre @ Started j u fl # post"
  shows "\<exists>t w'. last_probe pre = Some (t, True, w') \<and> leads w' i \<and>
    (\<forall>k. pr_name (wo_proc w' k) = pr_name (wo_proc w' i) \<longrightarrow> leads w' k \<longrightarrow> k = i) \<and>
    t \<le> u \<and> u \<le> t + ss_ProbeInterval (sc_settings sc) + sum_list (map (budget (sc_settings sc)) js)"
proof -
  have "map sj_Job (sc_jobs sc) = js"
    using RegisterAll_jobs [OF assms(1)] by (simp add: NewScheduler_def)
  then have "turn_bound sc = ss_ProbeInterval (sc_settings sc) + sum_list (map (budget (sc_settings sc)) js)"
    by (auto simp: turn_bound_def budgets_def comp_def)
  with advisory.start_is_backed [OF assms] show ?thesis
    by (auto intro: leads_unique simp: add.assoc)
qed

text \<open>
  Property C17. One wedged job cannot stop the others. A turn that holds the lease ends within the budgets -
  the timeout and the grace - of its jobs, also when some of them never return; unless its context
  is cancelled before it ends, it starts every job that is due and has no run in the air.
\<close>

theorem turn_serves_every_job:
  assumes "registered sc" "holdsLease acquire sc w now = (True, t1, sc1, w1, ev1)"
    and "sched_step acquire c sc w now = (t', sc', w', ev)"
    and "x \<in> set (sc_jobs sc)" "due x t1" "\<not> in_flight (sj_flight x) t1"
  shows "t' \<le> t1 + budgets (sc_settings sc) (sc_jobs sc) \<and>
    (cancelled c t' \<or> (\<exists>u fl. Started (sj_Job x) u fl \<in> set ev \<and> t1 \<le> u \<and> u \<le> t'))"
proof -
  have same: "sc_jobs sc1 = sc_jobs sc" "sc_settings sc1 = sc_settings sc"
    using assms(2) by (auto simp: holdsLease_def Let_def split: if_splits prod.splits sum.splits)
  obtain js t2 ev2 where j: "run_jobs c (sc_settings sc) (sc_jobs sc) t1 = (js, t2, ev2 :: 'a sched_event list)"
    by (cases "run_jobs c (sc_settings sc) (sc_jobs sc) t1 :: _ \<times> _ \<times> 'a sched_event list")
  have pos: "\<forall>x \<in> set (sc_jobs sc). 0 < jb_Interval (sj_Job x)" "0 < ss_AbandonGrace (sc_settings sc)"
    using assms(1) by (simp_all add: registered_def)
  have eqs: "t' = t2" "ev = ev1 @ ev2"
    using assms(2,3) j by (simp_all add: sched_step_def same)
  show ?thesis
  proof (cases "cancelled c t'")
    case True
    with eqs run_jobs_time [OF j pos] show ?thesis by simp
  next
    case False
    then obtain u fl where st: "Started (sj_Job x) u fl \<in> set ev2"
      using run_jobs_serves [OF j pos assms(4-6)] eqs(1) by blast
    with eqs run_jobs_starts [OF j pos st] run_jobs_time [OF j pos] show ?thesis by auto
  qed
qed

section \<open>Examples\<close>

definition small_settings :: sched_settings where
  "small_settings = \<lparr>ss_Tick = 10, ss_ProbeInterval = 50, ss_ReleaseTimeout = 5, ss_AbandonGrace = 5\<rparr>"

definition reminders :: job where
  "reminders = \<lparr>jb_Name = ''reminders'', jb_Interval = 10, jb_Timeout = 0, jb_Run = Some (\<lambda>t d. Some (t + 3, Succeeds))\<rparr>"

definition wedged :: job where
  "wedged = \<lparr>jb_Name = ''wedged'', jb_Interval = 10, jb_Timeout = 4, jb_Run = Some (\<lambda>t d. None)\<rparr>"

definition small_scheduler :: scheduler where
  "small_scheduler =
     \<lparr>sc_settings = small_settings,
      sc_jobs = [\<lparr>sj_Job = wedged, sj_nextRun = None, sj_flight = NoRun\<rparr>, \<lparr>sj_Job = reminders, sj_nextRun = None, sj_flight = NoRun\<rparr>],
      sc_leader = False, sc_nextProbe = None\<rparr>"

lemma small_registered: "RegisterAll [wedged, reminders] (NewScheduler small_settings) = Inr small_scheduler"
  by (simp add: Register_def NewScheduler_def small_settings_def sched_withDefaults_def wedged_def reminders_def small_scheduler_def)

text \<open>
  The scheduler of process 0: the wedged job is started once and abandoned, the other one at every turn.
\<close>

definition small_run :: "nat \<Rightarrow> (int \<Rightarrow> move list) \<Rightarrow> world \<Rightarrow> world sched_event list \<times> (int \<times> scheduler \<times> world) option" where
  "small_run i env w =
     Run 9 (advisory_acquire i env (\<lambda>_. good_network) (\<lambda>_. 1)) (advisory_release i env (\<lambda>_. (True, False)) (\<lambda>_. 1))
       (Some 60) 1 0 small_scheduler w"

definition starts_of :: "'w sched_event list \<Rightarrow> (string \<times> int) list" where
  "starts_of es = concat (map (\<lambda>e. case e of Started j u _ \<Rightarrow> [(jb_Name j, u)] | _ \<Rightarrow> []) es)"

abbreviation lone_world :: world where
  "lone_world \<equiv> fresh_world (\<lambda>_. ''zentax'')"

lemma small_run_starts:
  "starts_of (fst (small_run 0 (\<lambda>_. []) lone_world)) =
     [(''wedged'', 11), (''reminders'', 20), (''reminders'', 30), (''reminders'', 40), (''reminders'', 50)]"
  by code_simp

definition small_trace :: "world sched_event list" where
  "small_trace = fst (small_run 0 (\<lambda>_. []) lone_world)"

definition start_at :: "'w sched_event \<Rightarrow> (string \<times> int \<times> int \<times> flight) option" where
  "start_at e = (case e of Started j u fl \<Rightarrow> Some (jb_Name j, jb_Interval j, u, fl) | _ \<Rightarrow> None)"

lemma start_at_Some: "start_at e = Some (n, d, u, fl) \<Longrightarrow> \<exists>j. e = Started j u fl \<and> jb_Name j = n \<and> jb_Interval j = d"
  by (cases e) (auto simp: start_at_def)

lemma small_trace_starts:
  "start_at (small_trace ! 3) = Some (''reminders'', 10, 20, Until 23)" "start_at (small_trace ! 5) = Some (''reminders'', 10, 30, Until 33)"
  "length small_trace = 13"
  by code_simp+

text \<open>A job that overruns its timeout and the grace: the loop goes on without it, and starts it again once it is back.\<close>

definition slow :: job where
  "slow = \<lparr>jb_Name = ''slow'', jb_Interval = 10, jb_Timeout = 4, jb_Run = Some (\<lambda>t d. Some (t + 25, Succeeds))\<rparr>"

definition slow_scheduler :: scheduler where
  "slow_scheduler = small_scheduler\<lparr>sc_jobs := [\<lparr>sj_Job = slow, sj_nextRun = None, sj_flight = NoRun\<rparr>]\<rparr>"

lemma slow_registered: "RegisterAll [slow] (NewScheduler small_settings) = Inr slow_scheduler"
  by (simp add: Register_def NewScheduler_def small_settings_def sched_withDefaults_def slow_def slow_scheduler_def small_scheduler_def)

definition slow_trace :: "world sched_event list" where
  "slow_trace = fst (Run 9 (advisory_acquire 0 (\<lambda>_. []) (\<lambda>_. good_network) (\<lambda>_. 1))
     (advisory_release 0 (\<lambda>_. []) (\<lambda>_. (True, False)) (\<lambda>_. 1)) (Some 60) 1 0 slow_scheduler lone_world)"

lemma slow_trace_starts:
  "start_at (slow_trace ! 1) = Some (''slow'', 10, 11, Until 36)" "start_at (slow_trace ! 3) = Some (''slow'', 10, 40, Until 65)"
  "length slow_trace = 7"
  by code_simp+

theorem runs_never_overlap_witness:
  "\<exists>a b. slow_trace ! 1 = Started a 11 (Until 36) \<and> slow_trace ! 3 = Started b 40 (Until 65) \<and> jb_Name a = jb_Name b \<and>
    11 + jb_Interval a \<le> 40 \<and> \<not> in_flight (Until 36) 40"
proof -
  obtain a where a: "slow_trace ! 1 = Started a 11 (Until 36)" "jb_Name a = ''slow''"
    using start_at_Some [OF slow_trace_starts(1)] by blast
  obtain b where b: "slow_trace ! 3 = Started b 40 (Until 65)" "jb_Name b = ''slow''"
    using start_at_Some [OF slow_trace_starts(2)] by blast
  have same: "jb_Name a = jb_Name b" unfolding a(2) b(2) ..
  have "11 + jb_Interval a \<le> 40 \<and> \<not> in_flight (Until 36) 40"
    by (rule runs_never_overlap [OF slow_registered slow_trace_def [symmetric] _ _ a(1) b(1) same])
      (simp_all add: slow_trace_starts(3))
  with a b show ?thesis by simp
qed

theorem starts_follow_leadership_witness: "\<exists>t w'. last_probe (take 3 small_trace) = Some (t, True, w') \<and> leads w' 0 \<and> t \<le> 20"
proof -
  obtain a where a: "small_trace ! 3 = Started a 20 (Until 23)"
    using start_at_Some [OF small_trace_starts(1)] by blast
  have "small_trace = take 3 small_trace @ Started a 20 (Until 23) # drop 4 small_trace"
    using id_take_nth_drop [of 3 small_trace] a small_trace_starts(3) by simp
  then have "fst (Run 9 (advisory_acquire 0 (\<lambda>_. []) (\<lambda>_. good_network) (\<lambda>_. 1))
      (advisory_release 0 (\<lambda>_. []) (\<lambda>_. (True, False)) (\<lambda>_. 1)) (Some 60) 1 0 small_scheduler lone_world) =
      take 3 small_trace @ Started a 20 (Until 23) # drop 4 small_trace"
    by (simp add: small_trace_def small_run_def)
  from starts_follow_leadership [OF small_registered fresh_inv this] show ?thesis by blast
qed

theorem run_returns_witness:
  "\<exists>es t' sc' w'. Run 9 (advisory_acquire 0 (\<lambda>_. []) (\<lambda>_. good_network) (\<lambda>_. 1))
      (advisory_release 0 (\<lambda>_. []) (\<lambda>_. (True, False)) (\<lambda>_. 1)) (Some 60) 1 0 small_scheduler lone_world =
      (es, Some (t', sc', w')) \<and> last es = GaveUp t' w' \<and> \<not> leads w' 0"
proof -
  have fuel: "nat ((60 - 0) div ss_Tick (sc_settings small_scheduler)) + 1 + 2 \<le> 9"
    by (simp add: small_scheduler_def small_settings_def)
  obtain es t' sc' w' where run: "Run 9 (advisory_acquire 0 (\<lambda>_. []) (\<lambda>_. good_network) (\<lambda>_. 1))
      (advisory_release 0 (\<lambda>_. []) (\<lambda>_. (True, False)) (\<lambda>_. 1)) (Some 60) 1 0 small_scheduler lone_world =
      (es, Some (t', sc', w'))"
    and rel: "\<forall>t w1. last_probe es = Some (t, True, w1) \<longrightarrow> (\<exists>es0 u. es = es0 @ [GaveUp t' w'] \<and> 60 \<le> u \<and>
       t' = max u (snd (advisory_release 0 (\<lambda>_. []) (\<lambda>_. (True, False)) (\<lambda>_. 1) u w1)) \<and>
       w' = fst (advisory_release 0 (\<lambda>_. []) (\<lambda>_. (True, False)) (\<lambda>_. 1) u w1))"
    using run_returns [where acquire = "advisory_acquire 0 (\<lambda>_. []) (\<lambda>_. good_network) (\<lambda>_. 1)"
        and release = "advisory_release 0 (\<lambda>_. []) (\<lambda>_. (True, False)) (\<lambda>_. 1)" and w = lone_world, OF small_registered fuel]
    by (elim exE conjE) (rule that, assumption+)
  have es: "small_trace = es" using run by (simp add: small_trace_def small_run_def)
  have "map_option (\<lambda>(t, h, w). h) (last_probe small_trace) = Some True" by code_simp
  then obtain t w1 where lp: "last_probe es = Some (t, True, w1)" by (auto simp: es)
  obtain es0 u where g: "es = es0 @ [GaveUp t' w']" "w' = fst (advisory_release 0 (\<lambda>_. []) (\<lambda>_. (True, False)) (\<lambda>_. 1) u w1)"
    using rel lp by blast
  have "\<not> leads w' 0"
    by (auto simp: g(2) advisory_release_def Let_def leads_def put_process_def lease_Release_def at_process_def split: option.split)
  with run g(1) show ?thesis by simp
qed

theorem turn_serves_witness:
  "\<exists>t' sc' w' ev. sched_step (\<lambda>t w. (w, t, Inr True)) None small_scheduler () 7 = (t', sc', w', ev) \<and>
     (\<exists>u fl. Started reminders u fl \<in> set ev) \<and> t' \<le> 31"
proof -
  obtain t' sc' w' ev where st: "sched_step (\<lambda>t w. (w, t, Inr True)) None small_scheduler () 7 = (t', sc', w', ev)"
    by (cases "sched_step (\<lambda>t w. (w, t, Inr True)) None small_scheduler () 7")
  have reg: "registered small_scheduler"
    by (simp add: registered_def small_scheduler_def small_settings_def wedged_def reminders_def)
  have held: "holdsLease (\<lambda>t w. (w, t, Inr True)) small_scheduler () 7 =
      (True, 7, small_scheduler\<lparr>sc_nextProbe := Some 57, sc_leader := True\<rparr>, (), [Probed 7 True ()])"
    by (simp add: holdsLease_def small_scheduler_def small_settings_def)
  let ?x = "\<lparr>sj_Job = reminders, sj_nextRun = None, sj_flight = NoRun\<rparr>"
  have "budgets (sc_settings small_scheduler) (sc_jobs small_scheduler) = 24"
    by (simp add: budgets_def budget_def job_timeout_def small_scheduler_def small_settings_def wedged_def reminders_def)
  with turn_serves_every_job [OF reg held st, of ?x] st show ?thesis
    by (fastforce simp: small_scheduler_def due_def cancelled_def)
qed

text \<open>
  Between two probes a process acts on a cached answer: here the session of process 0 ends after its
  probe, process 1 takes the lease over, and for the rest of the interval both start the job.
\<close>

lemma two_runners:
  "map_option (\<lambda>(t, h, w). (t, h)) (last_probe (take 7 small_trace)) = Some (11, True)"
  "start_at (small_trace ! 7) = Some (''reminders'', 10, 40, Until 43)"
  by code_simp+

lemma two_runners_other:
  "starts_of (fst (Run 4 (advisory_acquire 1 (\<lambda>_. []) (\<lambda>_. good_network) (\<lambda>_. 1)) (advisory_release 1 (\<lambda>_. []) (\<lambda>_. (True, False)) (\<lambda>_. 1))
     (Some 60) 1 15 small_scheduler (moved [Offers 0 good_network, SessionEnds 0] lone_world))) =
     [(''wedged'', 26), (''reminders'', 35), (''reminders'', 45), (''reminders'', 55)]"
  by code_simp

end
