(* ===== verification/WormSegment.thy ===== *)
theory WormSegment
  imports AuditTrail GoText
begin

text \<open>
  The segments the audit trail is exported in (\<^verbatim>\<open>src/platform/audit/worm/segment.go\<close>): the document, its
  construction, the check of one document and of one stored file, and the check of a series of files. The
  digest \<^verbatim>\<open>hex(sha256(.))\<close> is a parameter as in theory AuditTrail; the text of a document is
  \<^verbatim>\<open>json.Marshal\<close>'s, and reading one back is the parameter \<open>decode\<close>. Details payloads are decoded
  values, sequence numbers integers far below the 64-bit bound.
\<close>

section \<open>Instants as texts\<close>

text \<open>\<^verbatim>\<open>getnum\<close>: two digits, or one where the layout allows it.\<close>

fun getnum :: "bool \<Rightarrow> string \<Rightarrow> (int \<times> string) option" where
  "getnum fixed [] = None"
| "getnum fixed [c] = (if is_digit c \<and> \<not> fixed then Some (digit_val c, []) else None)"
| "getnum fixed (c # d # r) =
     (if \<not> is_digit c then None
      else if is_digit d then Some (10 * digit_val c + digit_val d, r)
      else if fixed then None else Some (digit_val c, d # r))"

fun expect :: "char \<Rightarrow> string \<Rightarrow> string option" where
  "expect c [] = None"
| "expect c (d # r) = (if c = d then Some r else None)"

text \<open>The six digits of the fraction; \<^verbatim>\<open>atoi\<close> reads them and takes a sign.\<close>

definition fraction :: "string \<Rightarrow> (int \<times> string) option" where
  "fraction s =
     (case s of
        [] \<Rightarrow> None
      | c # r \<Rightarrow>
          if (c = CHR ''.'' \<or> c = CHR '','') \<and> 6 \<le> length r then
            (case atoi (take 6 r) of None \<Rightarrow> None | Some n \<Rightarrow> if n < 0 then None else Some (n, drop 6 r))
          else None)"

definition zone_offset :: "string \<Rightarrow> (int \<times> string) option" where
  "zone_offset s =
     (case s of
        [] \<Rightarrow> None
      | c # r \<Rightarrow>
          if c = CHR ''Z'' then Some (0, r)
          else if length s < 6 \<or> s ! 3 \<noteq> CHR '':'' then None
          else
            (case (getnum True (take 2 r), getnum True (take 2 (drop 4 s))) of
               (Some (hr, _), Some (mm, _)) \<Rightarrow>
                 if hr > 24 \<or> mm > 60 then None
                 else if c = CHR ''+'' then Some ((hr * 60 + mm) * 60, drop 6 s)
                 else if c = CHR ''-'' then Some (- ((hr * 60 + mm) * 60), drop 6 s)
                 else None
             | _ \<Rightarrow> None))"

text \<open>\<^verbatim>\<open>time.Parse(OccurredAtLayout, s)\<close>, in nanoseconds since the epoch.\<close>

definition parse_instant :: "string \<Rightarrow> int option" where
  "parse_instant s =
     Option.bind (time_Parse_layout (take 10 s)) (\<lambda>day.
     Option.bind (expect (CHR ''T'') (drop 10 s)) (\<lambda>s1.
     Option.bind (getnum False s1) (\<lambda>(hour, s2). if hour \<ge> 24 then None else
     Option.bind (expect (CHR '':'') s2) (\<lambda>s3.
     Option.bind (getnum True s3) (\<lambda>(minute, s4). if minute \<ge> 60 then None else
     Option.bind (expect (CHR '':'') s4) (\<lambda>s5.
     Option.bind (getnum True s5) (\<lambda>(sec, s6). if sec \<ge> 60 then None else
     Option.bind (fraction s6) (\<lambda>(frac, s7).
     Option.bind (zone_offset s7) (\<lambda>(off, s8). if s8 \<noteq> [] then None else
       Some ((((day - 719162) * 86400 + hour * 3600 + minute * 60 + sec - off) * 1000000 + frac) * 1000))))))))))"

definition FormatInstant :: "int \<Rightarrow> string" where
  "FormatInstant t = occurred_text (truncate_micro t)"

lemma parse_instant_examples:
  "parse_instant ''2026-09-13T01:02:03.000004Z'' = Some 1789261323000004000"
  "parse_instant ''2026-09-13T03:02:03,000004+02:00'' = Some 1789261323000004000"
  "parse_instant ''2026-02-30T03:02:03.000004Z'' = None" "parse_instant ''2026-09-13T03:02:03.00004Z'' = None"
  "FormatInstant 1789261323000004567 = ''2026-09-13T01:02:03.000004Z''"
  by code_simp+

text \<open>The instants whose text has a year of four digits, which are the ones a database row holds.\<close>

definition stampable :: "int \<Rightarrow> bool" where
  "stampable t \<longleftrightarrow> (let y = Year (FromTime (t div 86400000000000 + 719162)) in 0 \<le> y \<and> y \<le> 9999)"

section \<open>Documents\<close>

definition segFormat :: string where
  "segFormat = ''zentax.audit.segment''"

definition FormatVersion :: int where
  "FormatVersion = 1"

definition digestPrefix :: string where
  "digestPrefix = ''sha256:''"

record seg_entry =
  se_Seq :: int
  se_EventID :: string
  se_TenantID :: string
  se_ActorID :: string
  se_Action :: string
  se_ResourceType :: string
  se_ResourceID :: string
  se_OccurredAt :: string
  se_RequestID :: string
  se_CredentialKind :: string
  se_CredentialID :: string
  se_Details :: json
  se_PrevHash :: string
  se_Hash :: string
  se_HashVersion :: int

record seg_range =
  ra_FromSeq :: int
  ra_ToSeq :: int
  ra_Entries :: int
  ra_FirstOccurredAt :: string
  ra_LastOccurredAt :: string

record seg_chain =
  cn_StartPrevHash :: string
  cn_EndHash :: string
  cn_Genesis :: bool

record seg_previous =
  pv_SegmentID :: string
  pv_SegmentSeq :: int
  pv_ObjectKey :: string
  pv_ToSeq :: int
  pv_EndHash :: string
  pv_Digest :: string

record seg_document =
  do_Format :: string
  do_FormatVersion :: int
  do_SegmentID :: string
  do_SegmentSeq :: int
  do_TenantID :: string
  do_ExportedAt :: string
  do_Range :: seg_range
  do_Chain :: seg_chain
  do_Previous :: "seg_previous option"
  do_Verification :: json
  do_Entries :: "seg_entry list"

text \<open>The object as it is stored: the bytes of the segment and the digest beside them.\<close>

record seg_file =
  fi_Segment :: string
  fi_Digest :: string

definition FromAuditEntry :: "audit_entry \<Rightarrow> seg_entry" where
  "FromAuditEntry e =
     \<lparr>se_Seq = ae_Seq e, se_EventID = ae_EventID e, se_TenantID = ae_TenantID e, se_ActorID = ae_ActorID e,
      se_Action = ae_Action e, se_ResourceType = ae_ResourceType e, se_ResourceID = ae_ResourceID e,
      se_OccurredAt = FormatInstant (ae_OccurredAt e), se_RequestID = ae_RequestID e,
      se_CredentialKind = ae_CredentialKind e, se_CredentialID = ae_CredentialID e, se_Details = ae_Details e,
      se_PrevHash = ae_PrevHash e, se_Hash = ae_Hash e, se_HashVersion = ae_HashVersion e\<rparr>"

definition auditEntry :: "seg_entry \<Rightarrow> audit_entry fallible" where
  "auditEntry e =
     (case parse_instant (se_OccurredAt e) of
        None \<Rightarrow> Inl (Errorf ''seq %d: occurredAt %q is not %s: %w'' [I (se_Seq e), S (se_OccurredAt e), S ''2006-01-02T15:04:05.000000Z07:00''])
      | Some t \<Rightarrow> Inr
          \<lparr>ae_EventID = se_EventID e, ae_TenantID = se_TenantID e, ae_Seq = se_Seq e, ae_ActorID = se_ActorID e,
           ae_Action = se_Action e, ae_ResourceType = se_ResourceType e, ae_ResourceID = se_ResourceID e,
           ae_OccurredAt = t, ae_RequestID = se_RequestID e, ae_CredentialID = se_CredentialID e,
           ae_CredentialKind = se_CredentialKind e, ae_Details = se_Details e, ae_PrevHash = se_PrevHash e,
           ae_Hash = se_Hash e, ae_HashVersion = se_HashVersion e\<rparr>)"

section \<open>The text of a document\<close>

definition jint :: "int \<Rightarrow> json" where
  "jint i = JNum (Dec i 0)"

definition entryHashFields :: "string list" where
  "entryHashFields = [''prevHash'', ''eventId'', ''tenantId'', ''seq'', ''actorId'', ''action'', ''resourceType'', ''resourceId'',
     ''occurredAt'', ''requestId'', ''details'']"

definition credentialHashFields :: "string list" where
  "credentialHashFields = [''credentialKind'', ''credentialId'']"

definition entryHashFieldsFor :: "int \<Rightarrow> string list" where
  "entryHashFieldsFor version = entryHashFields @ (if HashesCredential version then credentialHashFields else [])"

text \<open>The recipe; the sentences of its procedure are an argument.\<close>

definition recipe :: "string list \<Rightarrow> json" where
  "recipe procedure =
     JObj [(''algorithm'', JStr ''sha256''), (''encoding'', JStr ''hex''),
       (''digest'', JStr ''sha256 of the exact bytes of the \"segment\" member of this file, as written''),
       (''entryHashFields'', JArr (map JStr entryHashFields)),
       (''entryHashFieldsByVersion'', JObj [(''2'', JArr (map JStr (entryHashFieldsFor 2))), (''3'', JArr (map JStr (entryHashFieldsFor 3)))]),
       (''entryHashSeparator'', JStr [CHR 0x0A]),
       (''occurredAtFormat'', JStr ''RFC 3339 in UTC with exactly six fractional digits''),
       (''detailsForm'', JStr ''compact JSON, object keys sorted lexicographically at every level, as carried in this file''),
       (''genesisPrevHash'', JStr GenesisHash), (''currentHashVersion'', jint CurrentHashVersion),
       (''procedure'', JArr (map JStr procedure))]"

definition entry_json :: "seg_entry \<Rightarrow> json" where
  "entry_json e = JObj
     ([(''seq'', jint (se_Seq e)), (''eventId'', JStr (se_EventID e)), (''tenantId'', JStr (se_TenantID e)),
       (''actorId'', JStr (se_ActorID e)), (''action'', JStr (se_Action e)), (''resourceType'', JStr (se_ResourceType e)),
       (''resourceId'', JStr (se_ResourceID e)), (''occurredAt'', JStr (se_OccurredAt e)), (''requestId'', JStr (se_RequestID e))] @
      (if se_CredentialKind e = [] then [] else [(''credentialKind'', JStr (se_CredentialKind e))]) @
      (if se_CredentialID e = [] then [] else [(''credentialId'', JStr (se_CredentialID e))]) @
      [(''details'', se_Details e), (''prevHash'', JStr (se_PrevHash e)), (''hash'', JStr (se_Hash e)), (''hashVersion'', jint (se_HashVersion e))])"

definition document_json :: "seg_document \<Rightarrow> json" where
  "document_json d = JObj
     [(''format'', JStr (do_Format d)), (''formatVersion'', jint (do_FormatVersion d)), (''segmentId'', JStr (do_SegmentID d)),
      (''segmentSeq'', jint (do_SegmentSeq d)), (''tenantId'', JStr (do_TenantID d)), (''exportedAt'', JStr (do_ExportedAt d)),
      (''range'', JObj [(''fromSeq'', jint (ra_FromSeq (do_Range d))), (''toSeq'', jint (ra_ToSeq (do_Range d))),
         (''entries'', jint (ra_Entries (do_Range d))), (''firstOccurredAt'', JStr (ra_FirstOccurredAt (do_Range d))),
         (''lastOccurredAt'', JStr (ra_LastOccurredAt (do_Range d)))]),
      (''chain'', JObj [(''startPrevHash'', JStr (cn_StartPrevHash (do_Chain d))), (''endHash'', JStr (cn_EndHash (do_Chain d))),
         (''genesis'', JBool (cn_Genesis (do_Chain d)))]),
      (''previousSegment'', (case do_Previous d of None \<Rightarrow> JNull
         | Some p \<Rightarrow> JObj [(''segmentId'', JStr (pv_SegmentID p)), (''segmentSeq'', jint (pv_SegmentSeq p)),
             (''objectKey'', JStr (pv_ObjectKey p)), (''toSeq'', jint (pv_ToSeq p)), (''endHash'', JStr (pv_EndHash p)), (''digest'', JStr (pv_Digest p))])),
      (''verification'', do_Verification d), (''entries'', JArr (map entry_json (do_Entries d)))]"

definition segment_text :: "seg_document \<Rightarrow> string" where
  "segment_text d = marshal (document_json d)"

section \<open>The record of an export\<close>

record record_details =
  rd_SegmentSeq :: int
  rd_SegmentID :: string
  rd_FromSeq :: int
  rd_ToSeq :: int
  rd_Entries :: int
  rd_ObjectKey :: string
  rd_ExportedAt :: string
  rd_PreviousDigest :: string
  rd_PreCutoverThroughSeq :: int
  rd_FormatVersion :: int

definition details_Map :: "record_details \<Rightarrow> json" where
  "details_Map d = JObj
     [(''entries'', jint (rd_Entries d)), (''exportedAt'', JStr (rd_ExportedAt d)), (''formatVersion'', jint (rd_FormatVersion d)),
      (''fromSeq'', jint (rd_FromSeq d)), (''objectKey'', JStr (rd_ObjectKey d)),
      (''preCutoverThroughSeq'', jint (rd_PreCutoverThroughSeq d)), (''previousDigest'', JStr (rd_PreviousDigest d)),
      (''segmentId'', JStr (rd_SegmentID d)), (''segmentSeq'', jint (rd_SegmentSeq d)), (''toSeq'', jint (rd_ToSeq d))]"

text \<open>
  \<^verbatim>\<open>json.Unmarshal\<close> into the struct: a key names a field in any case (two letters outside ASCII fold
  to letters inside), the last one wins, \<^verbatim>\<open>null\<close> leaves the field alone, and a value of another type is an
  error. A number is an integer when its text is.
\<close>

fun fold_name :: "string \<Rightarrow> string" where
  "fold_name [] = []"
| "fold_name (c # s) =
     (if c = CHR 0xC5 \<and> take 1 s = [CHR 0xBF] then CHR ''s'' # fold_name (drop 1 s)
      else if c = CHR 0xE2 \<and> take 2 s = [CHR 0x84, CHR 0xAA] then CHR ''k'' # fold_name (drop 2 s)
      else lower_char c # fold_name s)"

fun assign_int :: "json \<Rightarrow> int \<Rightarrow> int option" where
  "assign_int JNull old = Some old"
| "assign_int (JNum (Dec m k)) old = (if k = 0 \<and> - (2 ^ 63) \<le> m \<and> m < 2 ^ 63 then Some m else None)"
| "assign_int _ old = None"

fun assign_string :: "json \<Rightarrow> string \<Rightarrow> string option" where
  "assign_string JNull old = Some old"
| "assign_string (JStr s) old = Some s"
| "assign_string _ old = None"

definition read_field :: "(json \<Rightarrow> 'a \<Rightarrow> 'a option) \<Rightarrow> string \<Rightarrow> 'a \<Rightarrow> (string \<times> json) list \<Rightarrow> 'a option" where
  "read_field assign name zero kvs =
     foldl (\<lambda>acc (k, v). if fold_name k = fold_name name then Option.bind acc (assign v) else acc) (Some zero) kvs"

definition int_field :: "string \<Rightarrow> (string \<times> json) list \<Rightarrow> int option" where
  "int_field name kvs = read_field assign_int name 0 kvs"

definition string_field :: "string \<Rightarrow> (string \<times> json) list \<Rightarrow> string option" where
  "string_field name kvs = read_field assign_string name [] kvs"

definition details_of :: "(string \<times> json) list \<Rightarrow> record_details option" where
  "details_of kvs =
     Option.bind (int_field ''segmentSeq'' kvs) (\<lambda>seqno. Option.bind (string_field ''segmentId'' kvs) (\<lambda>sid.
     Option.bind (int_field ''fromSeq'' kvs) (\<lambda>from1. Option.bind (int_field ''toSeq'' kvs) (\<lambda>to1.
     Option.bind (int_field ''entries'' kvs) (\<lambda>n. Option.bind (string_field ''objectKey'' kvs) (\<lambda>key.
     Option.bind (string_field ''exportedAt'' kvs) (\<lambda>at1. Option.bind (string_field ''previousDigest'' kvs) (\<lambda>prev.
     Option.bind (int_field ''preCutoverThroughSeq'' kvs) (\<lambda>pre. Option.bind (int_field ''formatVersion'' kvs) (\<lambda>ver.
       Some \<lparr>rd_SegmentSeq = seqno, rd_SegmentID = sid, rd_FromSeq = from1, rd_ToSeq = to1, rd_Entries = n, rd_ObjectKey = key,
             rd_ExportedAt = at1, rd_PreviousDigest = prev, rd_PreCutoverThroughSeq = pre, rd_FormatVersion = ver\<rparr>))))))))))"

text \<open>Which fields of the sealed header a record states.\<close>

definition sealedFieldNames :: "string list" where
  "sealedFieldNames = [''segmentId'', ''exportedAt'', ''previousDigest'', ''preCutoverThroughSeq'']"

record export_record =
  er_Details :: record_details
  er_Stated :: "string list"

definition read_record :: "json \<Rightarrow> export_record option" where
  "read_record v =
     (case v of
        JObj kvs \<Rightarrow> map_option (\<lambda>d. \<lparr>er_Details = d, er_Stated = filter (\<lambda>n. n \<in> fst ` set kvs) sealedFieldNames\<rparr>) (details_of kvs)
      | JNull \<Rightarrow> map_option (\<lambda>d. \<lparr>er_Details = d, er_Stated = []\<rparr>) (details_of [])
      | _ \<Rightarrow> None)"

definition AuditAction :: string where "AuditAction = ''audit.exported''"
definition AuditResource :: string where "AuditResource = ''tenant''"

definition is_export_record :: "seg_entry \<Rightarrow> bool" where
  "is_export_record e \<longleftrightarrow> se_Action e = AuditAction \<and> se_ResourceType e = AuditResource"

type_synonym records = "(int \<times> export_record) list"

definition add_record :: "export_record \<Rightarrow> records \<Rightarrow> records fallible" where
  "add_record rec out =
     (let n = rd_SegmentSeq (er_Details rec)
      in case map_of out n of
           Some existing \<Rightarrow>
             if existing \<noteq> rec then Inl (Errorf ''worm: two different export records describe segment %d'' [I n]) else Inr out
         | None \<Rightarrow> Inr (out @ [(n, rec)]))"

fun records_loop :: "seg_entry list \<Rightarrow> records \<Rightarrow> records fallible" where
  "records_loop [] out = Inr out"
| "records_loop (e # es) out =
     (if \<not> is_export_record e then records_loop es out
      else case read_record (se_Details e) of
          None \<Rightarrow> Inl (Errorf ''worm: the export record at seq %d is not readable: %w'' [I (se_Seq e)])
        | Some rec \<Rightarrow> (case add_record rec out of Inl m \<Rightarrow> Inl m | Inr out' \<Rightarrow> records_loop es out'))"

definition exportRecords :: "seg_document \<Rightarrow> records fallible" where
  "exportRecords doc = records_loop (do_Entries doc) []"

section \<open>The check of one document\<close>

record worm_report =
  wr_TenantID :: string
  wr_SegmentSeq :: int
  wr_FromSeq :: int
  wr_ToSeq :: int
  wr_Entries :: int
  wr_PreCutoverEntries :: int
  wr_PreCutoverThroughSeq :: int
  wr_PreCutoverProven :: bool
  wr_HeaderSealed :: bool
  wr_HeaderRecordPreSeal :: bool
  wr_FirstVerifiedSeq :: int
  wr_LastVerifiedSeq :: int
  wr_Genesis :: bool
  wr_DigestOK :: bool
  wr_Digest :: string
  wr_Document :: seg_document

definition headerDisagrees :: "int \<Rightarrow> string \<Rightarrow> fmt_arg \<Rightarrow> fmt_arg \<Rightarrow> message" where
  "headerDisagrees segmentSeq what got want =
     Errorf (''worm: segment %d disagrees with the export record the chain carries for it '' @ [CHR 0xE2, CHR 0x80, CHR 0x94] @
        '' %s: the file says %v, the record says %v (the header was edited)'') [I segmentSeq, S what, got, want]"

fun compare_all :: "int \<Rightarrow> (string \<times> fmt_arg \<times> fmt_arg) list \<Rightarrow> unit fallible" where
  "compare_all n [] = Inr ()"
| "compare_all n ((what, got, want) # cs) =
     (if got \<noteq> want then Inl (headerDisagrees n what got want) else compare_all n cs)"

definition checkHeader :: "worm_report \<Rightarrow> export_record \<Rightarrow> bool fallible" where
  "checkHeader rep rec =
     (let doc = wr_Document rep; d = er_Details rec; ra = do_Range doc
      in andthen (compare_all (do_SegmentSeq doc)
            [(''the seq it starts at'', I (ra_FromSeq ra), I (rd_FromSeq d)),
             (''the seq it ends at'', I (ra_ToSeq ra), I (rd_ToSeq d)),
             (''how many entries it covers'', I (ra_Entries ra), I (rd_Entries d))]) (\<lambda>_.
         if er_Stated rec = [] then Inr False
         else if er_Stated rec \<noteq> sealedFieldNames then
           Inl (Errorf (''worm: segment %d has an export record that states %s and none of the rest of the sealed header '' @
                [CHR 0xE2, CHR 0x80, CHR 0x94] @ '' a record is written whole, so this one was edited'')
             (I (do_SegmentSeq doc) # map S (er_Stated rec)))
         else
           andthen (compare_all (do_SegmentSeq doc)
             [(''its id'', S (do_SegmentID doc), S (rd_SegmentID d)),
              (''when it was exported'', S (do_ExportedAt doc), S (rd_ExportedAt d)),
              (''the digest of the segment before it'', S (case do_Previous doc of None \<Rightarrow> [] | Some p \<Rightarrow> pv_Digest p), S (rd_PreviousDigest d)),
              (''how far its pre-cut-over prefix reaches'', I (wr_PreCutoverThroughSeq rep), I (rd_PreCutoverThroughSeq d))]) (\<lambda>_.
           Inr True)))"

definition position :: "seg_document \<Rightarrow> unit fallible" where
  "position doc =
     (let n = do_SegmentSeq doc
      in if n < 1 then Inl (Errorf ''worm: segment ordinal %d is not a position in a series'' [I n])
         else if cn_Genesis (do_Chain doc) then
           (if n \<noteq> 1 then Inl (Errorf (''worm: segment claims it begins the tenant'' @ [CHR 0x27] @ ''s chain and calls itself segment %d of the series'') [I n])
            else if do_Previous doc \<noteq> None then
              Inl (text_msg (''worm: segment claims it begins the tenant'' @ [CHR 0x27] @ ''s chain and names a segment before it''))
            else Inr ())
         else case do_Previous doc of
             None \<Rightarrow> Inl (Errorf (''worm: segment %d starts mid-chain (seq %d) and names no segment before it, '' @
                 ''so nothing ties it to a position in the series'') [I n, I (ra_FromSeq (do_Range doc))])
           | Some p \<Rightarrow>
               if n < 2 then Inl (Errorf ''worm: segment starts mid-chain (seq %d) and calls itself segment %d of the series''
                   [I (ra_FromSeq (do_Range doc)), I n])
               else if pv_SegmentSeq p + 1 \<noteq> n then
                 Inl (Errorf ''worm: segment %d names segment %d before it (the ordinals do not meet)'' [I n, I (pv_SegmentSeq p)])
               else Inr ())"

text \<open>The loop over the entries: the index, the previous hash and the report so far.\<close>

fun entriesLoop :: "(string \<Rightarrow> string) \<Rightarrow> seg_document \<Rightarrow> int \<Rightarrow> string \<Rightarrow> worm_report \<Rightarrow> seg_entry list \<Rightarrow> worm_report fallible" where
  "entriesLoop sha doc i prev rep [] = Inr rep"
| "entriesLoop sha doc i prev rep (e # es) =
     (if se_Seq e \<noteq> ra_FromSeq (do_Range doc) + i then
        Inl (Errorf ''worm: chain broken at index %d: seq %d, want %d (missing or reordered entry)''
          [I i, I (se_Seq e), I (ra_FromSeq (do_Range doc) + i)])
      else if se_TenantID e \<noteq> do_TenantID doc then
        Inl (Errorf ''worm: entry seq %d belongs to tenant %s, not %s'' [I (se_Seq e), S (se_TenantID e), S (do_TenantID doc)])
      else if se_PrevHash e \<noteq> prev then
        Inl (Errorf ''worm: chain broken at seq %d: prev_hash mismatch'' [I (se_Seq e)])
      else if se_HashVersion e > CurrentHashVersion then
        Inl (Errorf (''worm: entry seq %d was hashed under v%d, newer than this verifier'' @ [CHR 0x27] @ ''s v%d (upgrade the verifier)'')
          [I (se_Seq e), I (se_HashVersion e), I CurrentHashVersion])
      else if IsPreCutover (se_HashVersion e) then
        (if wr_FirstVerifiedSeq rep \<noteq> 0 then
           Inl (Errorf ''worm: chain broken at seq %d: pre-cut-over entry (hash format v%d) after verifiable entry seq %d''
             [I (se_Seq e), I (se_HashVersion e), I (wr_FirstVerifiedSeq rep)])
         else entriesLoop sha doc (i + 1) (se_Hash e) (rep\<lparr>wr_PreCutoverEntries := wr_PreCutoverEntries rep + 1\<rparr>) es)
      else case auditEntry e of
          Inl m \<Rightarrow> Inl (Errorf ''worm: %w'' [])
        | Inr ae \<Rightarrow>
            if ComputeHash sha ae \<noteq> se_Hash e then
              Inl (Errorf ''worm: chain broken at seq %d: hash mismatch (entry modified)'' [I (se_Seq e)])
            else entriesLoop sha doc (i + 1) (se_Hash e)
              (rep\<lparr>wr_FirstVerifiedSeq := (if wr_FirstVerifiedSeq rep = 0 then se_Seq e else wr_FirstVerifiedSeq rep),
                   wr_LastVerifiedSeq := se_Seq e\<rparr>) es)"

definition bool_text :: "bool \<Rightarrow> string" where
  "bool_text b = (if b then ''true'' else ''false'')"

text \<open>What precedes the loop: the shape, the count, the claims about genesis and the back-pointer.\<close>

definition checkClaims :: "seg_document \<Rightarrow> unit fallible" where
  "checkClaims doc =
     (let ra = do_Range doc; cn = do_Chain doc
      in if do_Format doc \<noteq> segFormat then
           Inl (Errorf ''worm: %q is not a %s document'' [S (do_Format doc), S segFormat])
         else if do_FormatVersion doc \<noteq> FormatVersion then
           Inl (Errorf (''worm: segment format v%d is not this verifier'' @ [CHR 0x27] @
               ''s v%d (use a reader that knows it; do not half-verify)'') [I (do_FormatVersion doc), I FormatVersion])
         else if do_Entries doc = [] then Inl (text_msg ''worm: segment carries no entries'')
         else if ra_Entries ra \<noteq> int (length (do_Entries doc)) then
           Inl (Errorf ''worm: segment claims %d entries and carries %d'' [I (ra_Entries ra), I (int (length (do_Entries doc)))])
         else if cn_Genesis cn \<noteq> (cn_StartPrevHash cn = GenesisHash) then
           Inl (Errorf ''worm: segment claims genesis=%t but starts from %s'' [S (bool_text (cn_Genesis cn)), S (cn_StartPrevHash cn)])
         else if cn_Genesis cn \<and> ra_FromSeq ra \<noteq> 1 then
           Inl (Errorf ''worm: segment claims genesis but starts at seq %d'' [I (ra_FromSeq ra)])
         else case do_Previous doc of
             None \<Rightarrow> Inr ()
           | Some p \<Rightarrow>
               if pv_ToSeq p + 1 \<noteq> ra_FromSeq ra then
                 Inl (Errorf ''worm: segment starts at seq %d but the previous segment ended at %d (a segment is missing)''
                   [I (ra_FromSeq ra), I (pv_ToSeq p)])
               else if pv_EndHash p \<noteq> cn_StartPrevHash cn then
                 Inl (Errorf ''worm: segment starts from %s but names a previous segment ending at %s'' [S (cn_StartPrevHash cn), S (pv_EndHash p)])
               else Inr ())"

text \<open>What follows it: the end of the range, the end hash and the window.\<close>

definition checkEnds :: "seg_document \<Rightarrow> unit fallible" where
  "checkEnds doc =
     (let ra = do_Range doc; first = hd (do_Entries doc); final = last (do_Entries doc)
      in if ra_ToSeq ra \<noteq> se_Seq final then
           Inl (Errorf ''worm: segment claims it ends at seq %d and ends at %d'' [I (ra_ToSeq ra), I (se_Seq final)])
         else if cn_EndHash (do_Chain doc) \<noteq> se_Hash final then
           Inl (Errorf ''worm: segment claims end hash %s, its last entry hashes to %s'' [S (cn_EndHash (do_Chain doc)), S (se_Hash final)])
         else if ra_FirstOccurredAt ra \<noteq> se_OccurredAt first \<or> ra_LastOccurredAt ra \<noteq> se_OccurredAt final then
           Inl (Errorf ''worm: segment claims it covers %s..%s and its entries run %s..%s (the window was edited)''
             [S (ra_FirstOccurredAt ra), S (ra_LastOccurredAt ra), S (se_OccurredAt first), S (se_OccurredAt final)])
         else position doc)"

definition fresh_report :: "seg_document \<Rightarrow> worm_report" where
  "fresh_report doc =
     \<lparr>wr_TenantID = do_TenantID doc, wr_SegmentSeq = do_SegmentSeq doc, wr_FromSeq = ra_FromSeq (do_Range doc),
      wr_ToSeq = ra_ToSeq (do_Range doc), wr_Entries = int (length (do_Entries doc)), wr_PreCutoverEntries = 0,
      wr_PreCutoverThroughSeq = 0, wr_PreCutoverProven = False, wr_HeaderSealed = False, wr_HeaderRecordPreSeal = False,
      wr_FirstVerifiedSeq = 0, wr_LastVerifiedSeq = 0, wr_Genesis = cn_Genesis (do_Chain doc), wr_DigestOK = False,
      wr_Digest = [], wr_Document = doc\<rparr>"

definition settlePrefix :: "seg_document \<Rightarrow> worm_report \<Rightarrow> worm_report" where
  "settlePrefix doc rep =
     (if wr_PreCutoverEntries rep > 0 then
        rep\<lparr>wr_PreCutoverThroughSeq := ra_FromSeq (do_Range doc) + wr_PreCutoverEntries rep - 1,
            wr_PreCutoverProven := cn_Genesis (do_Chain doc)\<rparr>
      else rep\<lparr>wr_PreCutoverProven := True\<rparr>)"

definition VerifyDocument :: "(string \<Rightarrow> string) \<Rightarrow> seg_document \<Rightarrow> worm_report fallible" where
  "VerifyDocument sha doc =
     andthen (checkClaims doc) (\<lambda>_.
     andthen (entriesLoop sha doc 0 (cn_StartPrevHash (do_Chain doc)) (fresh_report doc) (do_Entries doc)) (\<lambda>rep0.
     andthen (checkEnds doc) (\<lambda>_.
     let rep = settlePrefix doc rep0
     in andthen (exportRecords doc) (\<lambda>records.
        case map_of records (do_SegmentSeq doc) of
          None \<Rightarrow> Inr rep
        | Some rec \<Rightarrow>
            andthen (checkHeader rep rec) (\<lambda>sealed.
            Inr (rep\<lparr>wr_HeaderSealed := sealed, wr_HeaderRecordPreSeal := \<not> sealed\<rparr>))))))"

section \<open>Files and series\<close>

definition VerifyFile :: "(string \<Rightarrow> string) \<Rightarrow> (string \<Rightarrow> seg_document option) \<Rightarrow> seg_file \<Rightarrow> worm_report fallible" where
  "VerifyFile sha decode f =
     (if fi_Segment f = [] then Inl (text_msg ''worm: file carries no segment'')
      else if take (length digestPrefix) (fi_Digest f) \<noteq> digestPrefix then
        Inl (Errorf ''worm: digest %q is not %s-prefixed'' [S (fi_Digest f), S ''sha256''])
      else
        let want = drop (length digestPrefix) (fi_Digest f); got = sha (fi_Segment f)
        in if got \<noteq> want then
             Inl (Errorf ''worm: digest mismatch: the file says %s, its segment hashes to %s (the file has been altered)'' [S want, S got])
           else case decode (fi_Segment f) of
               None \<Rightarrow> Inl (Errorf ''worm: decode segment: %w'' [])
             | Some doc \<Rightarrow>
                 (case VerifyDocument sha doc of
                    Inl m \<Rightarrow> Inl m
                  | Inr rep \<Rightarrow> Inr (rep\<lparr>wr_DigestOK := True, wr_Digest := got\<rparr>)))"

record series_report =
  sr_TenantID :: string
  sr_Segments :: int
  sr_FromSeq :: int
  sr_ToSeq :: int
  sr_Entries :: int
  sr_Genesis :: bool
  sr_PreCutoverThroughSeq :: int
  sr_UnsealedFrom :: int
  sr_PreSealHeaders :: "int list"

definition meets :: "worm_report \<Rightarrow> worm_report \<Rightarrow> unit fallible" where
  "meets prev cur =
     (let n = wr_SegmentSeq cur
      in case do_Previous (wr_Document cur) of
           None \<Rightarrow> Inl (Errorf ''worm: segment %d names no segment before it'' [I n])
         | Some p \<Rightarrow>
             if pv_SegmentSeq p \<noteq> wr_SegmentSeq prev then
               Inl (Errorf ''worm: segment %d names segment %d before it, but the file before it is segment %d''
                 [I n, I (pv_SegmentSeq p), I (wr_SegmentSeq prev)])
             else if pv_SegmentID p \<noteq> do_SegmentID (wr_Document prev) then
               Inl (Errorf ''worm: segment %d names segment id %s before it, but the file before it is %s (a different segment has been put in its place)''
                 [I n, S (pv_SegmentID p), S (do_SegmentID (wr_Document prev))])
             else if pv_ToSeq p \<noteq> wr_ToSeq prev then
               Inl (Errorf ''worm: segment %d says the segment before it ended at seq %d, and that file ends at %d''
                 [I n, I (pv_ToSeq p), I (wr_ToSeq prev)])
             else if pv_EndHash p \<noteq> cn_EndHash (do_Chain (wr_Document prev)) then
               Inl (Errorf ''worm: segment %d says the segment before it ended at hash %s, and that file ends at %s''
                 [I n, S (pv_EndHash p), S (cn_EndHash (do_Chain (wr_Document prev)))])
             else if pv_Digest p \<noteq> digestPrefix @ wr_Digest prev then
               Inl (Errorf (''worm: segment %d names a segment before it with digest %s, and the file before it hashes to %s%s '' @
                   ''(the earlier file was re-sealed, replaced or replayed)'') [I n, S (pv_Digest p), S digestPrefix, S (wr_Digest prev)])
             else Inr ())"

text \<open>The join of consecutive files; \<open>i\<close> counts the files.\<close>

definition joins :: "int \<Rightarrow> worm_report \<Rightarrow> worm_report \<Rightarrow> unit fallible" where
  "joins i prev cur =
     (if wr_TenantID cur \<noteq> wr_TenantID prev then
        Inl (Errorf ''worm: segment %d belongs to tenant %s, the one before it to %s'' [I i, S (wr_TenantID cur), S (wr_TenantID prev)])
      else if wr_SegmentSeq cur \<noteq> wr_SegmentSeq prev + 1 then
        Inl (Errorf ''worm: segment ordinal jumps from %d to %d (a segment is missing)'' [I (wr_SegmentSeq prev), I (wr_SegmentSeq cur)])
      else if wr_FromSeq cur \<noteq> wr_ToSeq prev + 1 then
        Inl (Errorf ''worm: segment %d starts at seq %d, the one before it ended at %d''
          [I (wr_SegmentSeq cur), I (wr_FromSeq cur), I (wr_ToSeq prev)])
      else if cn_StartPrevHash (do_Chain (wr_Document cur)) \<noteq> cn_EndHash (do_Chain (wr_Document prev)) then
        Inl (Errorf ''worm: segment %d does not link to the one before it'' [I (wr_SegmentSeq cur)])
      else meets prev cur)"

fun joinsLoop :: "int \<Rightarrow> worm_report list \<Rightarrow> unit fallible" where
  "joinsLoop i (prev # cur # rest) = andthen (joins i prev cur) (\<lambda>_. joinsLoop (i + 1) (cur # rest))"
| "joinsLoop i _ = Inr ()"

text \<open>The exemption of old entries belongs to one run at the beginning of the tenant's chain.\<close>

definition missingPrefix :: "worm_report \<Rightarrow> string" where
  "missingPrefix first =
     (if wr_Genesis first then []
      else '' (this series starts at seq '' @ itoa (wr_FromSeq first) @ '', not at the tenant'' @ [CHR 0x27] @
        ''s genesis, so no run in it can be shown to begin the chain '' @ [CHR 0xE2, CHR 0x80, CHR 0x94] @ '' supply the earlier segments)'')"

fun anchorLoop :: "worm_report \<Rightarrow> bool \<Rightarrow> int \<Rightarrow> worm_report list \<Rightarrow> int fallible" where
  "anchorLoop first prefixOpen through [] = Inr through"
| "anchorLoop first prefixOpen through (r # rs) =
     (if wr_PreCutoverEntries r > 0 \<and> \<not> prefixOpen then
        Inl (Errorf (''worm: segment %d carries %d entries marked pre-cut-over from seq %d, but this tenant'' @ [CHR 0x27] @
            ''s chain is already hash-verified before that point%s: the exemption covers ONE contiguous run at the very beginning of a tenant'' @
            [CHR 0x27] @ ''s chain, never the leading entries of a later file'')
          [I (wr_SegmentSeq r), I (wr_PreCutoverEntries r), I (wr_FromSeq r), S (missingPrefix first)])
      else anchorLoop first (prefixOpen \<and> wr_FirstVerifiedSeq r = 0)
        (if wr_PreCutoverEntries r > 0 then wr_PreCutoverThroughSeq r else through) rs)"

text \<open>Every header against the record of its export, wherever in the series that is.\<close>

fun mergeRecords :: "records \<Rightarrow> records \<Rightarrow> records fallible" where
  "mergeRecords out [] = Inr out"
| "mergeRecords out ((n, rec) # found) =
     (case map_of out n of
        Some existing \<Rightarrow>
          if existing \<noteq> rec then Inl (Errorf ''worm: two different export records describe segment %d'' [I n]) else mergeRecords out found
      | None \<Rightarrow> mergeRecords (out @ [(n, rec)]) found)"

fun collectRecords :: "worm_report list \<Rightarrow> records \<Rightarrow> records fallible" where
  "collectRecords [] out = Inr out"
| "collectRecords (r # rs) out =
     andthen (exportRecords (wr_Document r)) (\<lambda>found. andthen (mergeRecords out found) (\<lambda>out'. collectRecords rs out'))"

fun sealLoop :: "records \<Rightarrow> int \<Rightarrow> int list \<Rightarrow> worm_report list \<Rightarrow> (int \<times> int list) fallible" where
  "sealLoop records unsealed pre [] = Inr (unsealed, pre)"
| "sealLoop records unsealed pre (r # rs) =
     (case map_of records (wr_SegmentSeq r) of
        None \<Rightarrow> sealLoop records (if unsealed = 0 then wr_SegmentSeq r else unsealed) pre rs
      | Some rec \<Rightarrow>
          if unsealed \<noteq> 0 then
            Inl (Errorf (''worm: the series carries the export record for segment %d but not the one for segment %d, whose header '' @
                [CHR 0xE2, CHR 0x80, CHR 0x94] @ '' when it was exported, the window it claims '' @ [CHR 0xE2, CHR 0x80, CHR 0x94] @
                '' is therefore covered by nothing (the record was removed)'') [I (wr_SegmentSeq r), I unsealed])
          else andthen (checkHeader r rec) (\<lambda>sealed.
            sealLoop records unsealed (if sealed then pre else pre @ [wr_SegmentSeq r]) rs))"

definition sealHeaders :: "worm_report list \<Rightarrow> (int \<times> int list) fallible" where
  "sealHeaders reports = andthen (collectRecords reports []) (\<lambda>records. sealLoop records 0 [] reports)"

definition VerifySeries :: "worm_report list \<Rightarrow> series_report fallible" where
  "VerifySeries reports =
     (if reports = [] then Inl (text_msg ''worm: no segments to check'')
      else case find (\<lambda>r. wr_Digest r = []) reports of
          Some r \<Rightarrow> Inl (Errorf (''worm: segment %d was checked as a document rather than as a file; a series is checked with the digests '' @
              ''VerifyFile computes, because every segment names the digest of the one before it'') [I (wr_SegmentSeq r)])
        | None \<Rightarrow>
            let first = hd reports; final = last reports
            in andthen (joinsLoop 1 reports) (\<lambda>_.
               andthen (anchorLoop first (wr_Genesis first) 0 reports) (\<lambda>through.
               andthen (sealHeaders reports) (\<lambda>(unsealed, pre).
               Inr \<lparr>sr_TenantID = wr_TenantID first, sr_Segments = int (length reports), sr_FromSeq = wr_FromSeq first,
                    sr_ToSeq = wr_ToSeq final, sr_Entries = sum_list (map wr_Entries reports), sr_Genesis = wr_Genesis first,
                    sr_PreCutoverThroughSeq = through, sr_UnsealedFrom = unsealed, sr_PreSealHeaders = pre\<rparr>))))"

section \<open>Building a segment\<close>

record build_input =
  bi_SegmentID :: string
  bi_SegmentSeq :: int
  bi_TenantID :: string
  bi_ExportedAt :: int
  bi_StartPrevHash :: string
  bi_Entries :: "audit_entry list"
  bi_Previous :: "seg_previous option"

record built =
  bu_File :: seg_file
  bu_Digest :: string
  bu_Document :: seg_document

definition build_document :: "json \<Rightarrow> build_input \<Rightarrow> seg_document" where
  "build_document rcp b =
     (let entries = map FromAuditEntry (bi_Entries b); first = hd entries; final = last entries
      in \<lparr>do_Format = segFormat, do_FormatVersion = FormatVersion, do_SegmentID = bi_SegmentID b, do_SegmentSeq = bi_SegmentSeq b,
          do_TenantID = bi_TenantID b, do_ExportedAt = FormatInstant (bi_ExportedAt b),
          do_Range = \<lparr>ra_FromSeq = se_Seq first, ra_ToSeq = se_Seq final, ra_Entries = int (length entries),
            ra_FirstOccurredAt = se_OccurredAt first, ra_LastOccurredAt = se_OccurredAt final\<rparr>,
          do_Chain = \<lparr>cn_StartPrevHash = bi_StartPrevHash b, cn_EndHash = se_Hash final, cn_Genesis = (bi_StartPrevHash b = GenesisHash)\<rparr>,
          do_Previous = bi_Previous b, do_Verification = rcp, do_Entries = entries\<rparr>)"

definition Build :: "(string \<Rightarrow> string) \<Rightarrow> json \<Rightarrow> build_input \<Rightarrow> built fallible" where
  "Build sha rcp b =
     (if bi_Entries b = [] then Inl (text_msg ''worm: a segment needs at least one entry'')
      else if bi_TenantID b = [] then Inl (text_msg ''worm: a segment needs a tenant'')
      else if bi_StartPrevHash b = [] then Inl (text_msg ''worm: a segment needs the chain state it starts from'')
      else case find (\<lambda>e. ae_TenantID e \<noteq> bi_TenantID b) (bi_Entries b) of
          Some e \<Rightarrow> Inl (Errorf ''worm: entry seq %d belongs to tenant %s, not %s'' [I (ae_Seq e), S (ae_TenantID e), S (bi_TenantID b)])
        | None \<Rightarrow>
            let doc = build_document rcp b
            in (case VerifyDocument sha doc of
                  Inl m \<Rightarrow> Inl (Errorf ''worm: refusing to export an unverifiable segment: %w'' [])
                | Inr _ \<Rightarrow>
                    let body = segment_text doc; digest = sha body
                    in Inr \<lparr>bu_File = \<lparr>fi_Segment = body, fi_Digest = digestPrefix @ digest\<rparr>, bu_Digest = digest, bu_Document = doc\<rparr>))"

section \<open>Reading back an instant\<close>

lemma fmt_0d_2:
  assumes "0 \<le> i" "i < 100"
  obtains c d where "fmt_0d 2 i = [c, d]" "is_digit c" "is_digit d" "10 * digit_val c + digit_val d = i"
proof -
  note f = fmt_0d_field [of i 2]
  have l: "length (fmt_0d 2 i) = 2" "list_all is_digit (fmt_0d 2 i)" "dec_val (fmt_0d 2 i) = i"
    using f assms by simp_all
  then obtain c d where cd: "fmt_0d 2 i = [c, d]"
    by (metis One_nat_def Suc_1 length_0_conv length_Suc_conv)
  with l that show thesis by (simp add: dec_val_def)
qed

lemma getnum_fmt: "0 \<le> i \<Longrightarrow> i < 100 \<Longrightarrow> getnum fixed (fmt_0d 2 i @ s) = Some (i, s)"
  by (erule (1) fmt_0d_2) simp

lemma fraction_fmt:
  assumes "0 \<le> i" "i < 1000000"
  shows "fraction (CHR ''.'' # fmt_0d 6 i @ s) = Some (i, s)"
proof -
  have l: "length (fmt_0d 6 i) = 6" "list_all is_digit (fmt_0d 6 i)" "dec_val (fmt_0d 6 i) = i"
    using fmt_0d_field [of i 6] assms by simp_all
  then have "atoi (fmt_0d 6 i) = Some i"
    using assms by (subst atoi_digits) auto
  with l(1) assms show ?thesis by (simp add: fraction_def)
qed

lemma parse_instant_text:
  assumes "stampable t"
  shows "parse_instant (occurred_text t) = Some (truncate_micro t)"
proof -
  define us where "us = t div 1000"
  define day where "day = us div 86400000000"
  define rest where "rest = us mod 86400000000"
  define sec where "sec = rest div 1000000"
  define frac where "frac = rest mod 1000000"
  let ?date = "date_String (FromTime (day + 719162))"
  have day: "day = t div 86400000000000"
    using zdiv_zmult2_eq [of 86400000000 t 1000] by (simp add: day_def us_def)
  have year: "0 \<le> Year (FromTime (day + 719162))" "Year (FromTime (day + 719162)) \<le> 9999"
    using assms by (simp_all add: stampable_def day Let_def)
  have rest: "0 \<le> rest" "rest < 86400000000" by (simp_all add: rest_def)
  then have sec: "0 \<le> sec" "sec < 86400" by (auto simp: sec_def pos_imp_zdiv_nonneg_iff)
  have frac: "0 \<le> frac" "frac < 1000000" by (simp_all add: frac_def)
  have parts: "sec = (sec div 3600) * 3600 + (sec div 60 mod 60) * 60 + sec mod 60"
  proof -
    have "sec div 3600 = sec div 60 div 60" using zdiv_zmult2_eq [of 60 sec 60] by simp
    moreover have "sec = sec div 60 * 60 + sec mod 60" "sec div 60 = sec div 60 div 60 * 60 + sec div 60 mod 60"
      by (simp_all only: div_mult_mod_eq)
    ultimately show ?thesis by linarith
  qed
  have len: "length ?date = 10"
    by (rule length_date_String [OF _ year]) simp
  have "date_Parse ?date = Inr (FromTime (day + 719162))"
    by (rule date_Parse_String [OF _ year]) simp
  then have parsed: "time_Parse_layout ?date = Some (day + 719162)"
    using len by (auto simp: date_Parse_def FromTime_eq_iff split: if_splits option.splits)
  have "us = day * 86400000000 + rest" "rest = sec * 1000000 + frac" "t = us * 1000 + t mod 1000"
    by (simp_all add: day_def rest_def sec_def frac_def us_def)
  then have total: "((day * 86400 + sec) * 1000000 + frac) * 1000 = truncate_micro t"
    by (simp add: truncate_micro_def)
  have clock: "0 \<le> sec div 3600" "sec div 3600 < 24" "0 \<le> sec div 60 mod 60" "0 \<le> sec mod 60"
    using sec by (auto simp: pos_imp_zdiv_nonneg_iff)
  have small: "sec div 3600 < 100" "sec div 60 mod 60 < 60" "sec div 60 mod 60 < 100" "sec mod 60 < 60" "sec mod 60 < 100"
    using clock(2) pos_mod_bound [of 60 "sec div 60"] pos_mod_bound [of 60 sec] by linarith+
  let ?text = "?date @ CHR ''T'' # fmt_0d 2 (sec div 3600) @ CHR '':'' # fmt_0d 2 (sec div 60 mod 60) @ CHR '':'' # fmt_0d 2 (sec mod 60) @
    CHR ''.'' # fmt_0d 6 frac @ ''Z''"
  have "take 10 ?text = ?date" "drop 10 ?text = drop 10 (?date @ drop 10 ?text)"
    by (simp_all add: len)
  have tail: "drop 10 ?text = CHR ''T'' # fmt_0d 2 (sec div 3600) @ CHR '':'' # fmt_0d 2 (sec div 60 mod 60) @ CHR '':'' # fmt_0d 2 (sec mod 60) @
    CHR ''.'' # fmt_0d 6 frac @ ''Z''"
    by (simp add: len)
  have "\<not> 24 \<le> sec div 3600" "\<not> 60 \<le> sec div 60 mod 60" "\<not> 60 \<le> sec mod 60"
    using clock small by linarith+
  then have "parse_instant ?text =
      Some ((((day + 719162 - 719162) * 86400 + sec div 3600 * 3600 + sec div 60 mod 60 * 60 + sec mod 60 - 0) * 1000000 + frac) * 1000)"
    unfolding parse_instant_def \<open>take 10 ?text = ?date\<close> parsed tail
    by (simp only: bind.simps expect.simps prod.case getnum_fmt [OF clock(1) small(1)] getnum_fmt [OF clock(3) small(3)]
        getnum_fmt [OF clock(4) small(5)] fraction_fmt [OF frac] if_False if_True simp_thms) (simp add: zone_offset_def)
  also have "(((day + 719162 - 719162) * 86400 + sec div 3600 * 3600 + sec div 60 mod 60 * 60 + sec mod 60 - 0) * 1000000 + frac) * 1000 =
      truncate_micro t"
  proof -
    have "(((d + 719162 - 719162) * 86400 + h * 3600 + m * 60 + r - 0) * 1000000 + frac) * 1000 = x"
      if "sec = h * 3600 + m * 60 + r" "((d * 86400 + sec) * 1000000 + frac) * 1000 = x" for d h m r x :: int
      using that by simp
    from this [OF parts total] show ?thesis .
  qed
  finally show ?thesis
    unfolding occurred_text_def Let_def us_def [symmetric] day_def [symmetric] rest_def [symmetric] sec_def [symmetric] frac_def [symmetric]
    by simp
qed

end
