(* ===== verification/WormFacts.thy ===== *)
theory WormFacts
  imports WormSegment
begin

text \<open>
  What the checks of theory WormSegment establish: the loop over the entries, the records of exports
  and the check of a document as conditions on the document; and that a document built from a stretch
  of a verified chain passes them.
\<close>

section \<open>Entries\<close>

fun seg_linked :: "int \<Rightarrow> string \<Rightarrow> string \<Rightarrow> seg_entry list \<Rightarrow> bool" where
  "seg_linked n tenant prev [] \<longleftrightarrow> True"
| "seg_linked n tenant prev (e # es) \<longleftrightarrow>
     se_Seq e = n \<and> se_TenantID e = tenant \<and> se_PrevHash e = prev \<and> seg_linked (n + 1) tenant (se_Hash e) es"

abbreviation seg_pre :: "seg_entry \<Rightarrow> bool" where
  "seg_pre e \<equiv> IsPreCutover (se_HashVersion e)"

definition seg_recomputes :: "(string \<Rightarrow> string) \<Rightarrow> seg_entry \<Rightarrow> bool" where
  "seg_recomputes sha e \<longleftrightarrow> \<not> seg_pre e \<and> se_HashVersion e \<le> CurrentHashVersion \<and>
     (\<exists>ae. auditEntry e = Inr ae \<and> ComputeHash sha ae = se_Hash e)"

lemma seg_pre_version: "seg_pre e \<Longrightarrow> se_HashVersion e \<le> CurrentHashVersion"
  by (simp add: IsPreCutover_def CurrentHashVersion_def)

lemma seg_linked_append:
  "seg_linked n t prev (xs @ ys) \<longleftrightarrow>
     seg_linked n t prev xs \<and> seg_linked (n + int (length xs)) t (if xs = [] then prev else se_Hash (last xs)) ys"
  by (induction xs arbitrary: n prev) (auto simp: algebra_simps)

lemma seg_linked_seq: "seg_linked n t prev es \<Longrightarrow> i < length es \<Longrightarrow> se_Seq (es ! i) = n + int i"
proof (induction es arbitrary: n prev i)
  case (Cons e es)
  then show ?case by (cases i) auto
qed simp

lemma seg_linked_last: "seg_linked n t prev es \<Longrightarrow> es \<noteq> [] \<Longrightarrow> se_Seq (last es) = n + int (length es) - 1"
  using seg_linked_seq [of n t prev es "length es - 1"] by (cases es) (auto simp: last_conv_nth)

lemma entriesLoop_verified:
  assumes "wr_FirstVerifiedSeq rep \<noteq> 0"
  shows "entriesLoop sha doc i prev rep es = Inr rep' \<longleftrightarrow>
    seg_linked (ra_FromSeq (do_Range doc) + i) (do_TenantID doc) prev es \<and> list_all (seg_recomputes sha) es \<and>
    rep' = rep\<lparr>wr_LastVerifiedSeq := (if es = [] then wr_LastVerifiedSeq rep else ra_FromSeq (do_Range doc) + i + int (length es) - 1)\<rparr>"
  using assms
proof (induction es arbitrary: i prev rep)
  case (Cons e es)
  show ?case
  proof (cases "seg_pre e")
    case True
    with Cons.prems seg_pre_version [OF True] show ?thesis by (auto simp: seg_recomputes_def [of sha e])
  next
    case False
    with Cons show ?thesis
      by (cases "auditEntry e") (auto simp: seg_recomputes_def [of sha e] algebra_simps split: sum.splits)
  qed
qed auto

lemma entriesLoop_fresh:
  assumes "wr_FirstVerifiedSeq rep = 0" "0 < ra_FromSeq (do_Range doc)" "0 \<le> i"
  shows "entriesLoop sha doc i prev rep es = Inr rep' \<longleftrightarrow>
    seg_linked (ra_FromSeq (do_Range doc) + i) (do_TenantID doc) prev es \<and>
    list_all (seg_recomputes sha) (dropWhile seg_pre es) \<and>
    rep' = rep\<lparr>wr_PreCutoverEntries := wr_PreCutoverEntries rep + int (length (takeWhile seg_pre es)),
      wr_FirstVerifiedSeq := (if dropWhile seg_pre es = [] then 0 else ra_FromSeq (do_Range doc) + i + int (length (takeWhile seg_pre es))),
      wr_LastVerifiedSeq := (if dropWhile seg_pre es = [] then wr_LastVerifiedSeq rep else ra_FromSeq (do_Range doc) + i + int (length es) - 1)\<rparr>"
  using assms
proof (induction es arbitrary: i prev rep)
  case (Cons e es)
  show ?case
  proof (cases "seg_pre e")
    case True
    with Cons seg_pre_version [OF True] show ?thesis by (auto simp: algebra_simps)
  next
    case False
    show ?thesis
    proof (cases "auditEntry e")
      case (Inl m)
      with False show ?thesis by (auto simp: seg_recomputes_def [of sha e])
    next
      case (Inr ae)
      let ?rep = "rep\<lparr>wr_FirstVerifiedSeq := se_Seq e, wr_LastVerifiedSeq := se_Seq e\<rparr>"
      have v: "entriesLoop sha doc (i + 1) (se_Hash e) ?rep es = Inr rep' \<longleftrightarrow>
          seg_linked (ra_FromSeq (do_Range doc) + (i + 1)) (do_TenantID doc) (se_Hash e) es \<and> list_all (seg_recomputes sha) es \<and>
          rep' = ?rep\<lparr>wr_LastVerifiedSeq := (if es = [] then wr_LastVerifiedSeq ?rep else ra_FromSeq (do_Range doc) + (i + 1) + int (length es) - 1)\<rparr>"
        if "se_Seq e = ra_FromSeq (do_Range doc) + i"
        using that Cons.prems by (intro entriesLoop_verified) simp
      show ?thesis
        using False Inr v Cons.prems by (auto simp: seg_recomputes_def [of sha e] algebra_simps)
    qed
  qed
qed auto

section \<open>Entries of a chain\<close>

lemma truncate_micro_idem [simp]: "truncate_micro (truncate_micro t) = truncate_micro t"
  by (simp add: truncate_micro_def)

lemma truncate_div [simp]: "truncate_micro t div 1000 = t div 1000"
  unfolding truncate_micro_def using div_mult_mod_eq [of t 1000] by (metis add_diff_cancel_right' nonzero_mult_div_cancel_right zero_neq_numeral)

lemma occurred_text_truncate [simp]: "occurred_text (truncate_micro t) = occurred_text t"
  by (simp add: occurred_text_def)

lemma auditEntry_FromAuditEntry:
  "stampable (ae_OccurredAt e) \<Longrightarrow> auditEntry (FromAuditEntry e) = Inr (e\<lparr>ae_OccurredAt := truncate_micro (ae_OccurredAt e)\<rparr>)"
  by (simp add: auditEntry_def FromAuditEntry_def FormatInstant_def parse_instant_text)

lemma seg_recomputes_FromAuditEntry:
  "stampable (ae_OccurredAt e) \<Longrightarrow> seg_recomputes sha (FromAuditEntry e) \<longleftrightarrow> recomputes sha e"
  by (simp add: seg_recomputes_def recomputes_def auditEntry_FromAuditEntry ComputeHash_def hash_fields_def) (simp add: FromAuditEntry_def)

lemma FromAuditEntry_simps [simp]:
  "se_Seq (FromAuditEntry e) = ae_Seq e" "se_TenantID (FromAuditEntry e) = ae_TenantID e" "se_PrevHash (FromAuditEntry e) = ae_PrevHash e"
  "se_Hash (FromAuditEntry e) = ae_Hash e" "se_HashVersion (FromAuditEntry e) = ae_HashVersion e" "se_Action (FromAuditEntry e) = ae_Action e"
  "se_ResourceType (FromAuditEntry e) = ae_ResourceType e" "se_Details (FromAuditEntry e) = ae_Details e"
  by (simp_all add: FromAuditEntry_def)

lemma seg_linked_map: "seg_linked n t prev (map FromAuditEntry es) \<longleftrightarrow> linked (n - 1) prev es \<and> list_all (\<lambda>e. ae_TenantID e = t) es"
  by (induction es arbitrary: n prev) auto

lemma dropWhile_pre_map: "dropWhile seg_pre (map FromAuditEntry es) = map FromAuditEntry (dropWhile pre_cutover es)"
  by (simp add: dropWhile_map comp_def)

lemma takeWhile_pre_map: "takeWhile seg_pre (map FromAuditEntry es) = map FromAuditEntry (takeWhile pre_cutover es)"
  by (simp add: takeWhile_map comp_def)

section \<open>Records\<close>

lemma details_roundtrip:
  assumes "\<forall>i \<in> {rd_SegmentSeq d, rd_FromSeq d, rd_ToSeq d, rd_Entries d, rd_PreCutoverThroughSeq d, rd_FormatVersion d}. - (2 ^ 63) \<le> i \<and> i < 2 ^ 63"
  shows "read_record (details_Map d) = Some \<lparr>er_Details = d, er_Stated = sealedFieldNames\<rparr>"
proof -
  have fold: "fold_name ''entries'' = ''entries''" "fold_name ''exportedAt'' = ''exportedat''" "fold_name ''formatVersion'' = ''formatversion''"
    "fold_name ''fromSeq'' = ''fromseq''" "fold_name ''objectKey'' = ''objectkey''" "fold_name ''preCutoverThroughSeq'' = ''precutoverthroughseq''"
    "fold_name ''previousDigest'' = ''previousdigest''" "fold_name ''segmentId'' = ''segmentid''" "fold_name ''segmentSeq'' = ''segmentseq''"
    "fold_name ''toSeq'' = ''toseq''"
    by code_simp+
  obtain kvs where kvs: "details_Map d = JObj kvs" by (simp add: details_Map_def)
  note K = kvs [unfolded details_Map_def json.inject, symmetric] and F = int_field_def string_field_def read_field_def
  have "int_field ''segmentSeq'' kvs = Some (rd_SegmentSeq d)" "int_field ''fromSeq'' kvs = Some (rd_FromSeq d)"
    "int_field ''toSeq'' kvs = Some (rd_ToSeq d)" "int_field ''entries'' kvs = Some (rd_Entries d)"
    "int_field ''preCutoverThroughSeq'' kvs = Some (rd_PreCutoverThroughSeq d)" "int_field ''formatVersion'' kvs = Some (rd_FormatVersion d)"
    using assms unfolding K F by (simp_all add: fold jint_def del: fold_name.simps)
  moreover have "string_field ''segmentId'' kvs = Some (rd_SegmentID d)" "string_field ''objectKey'' kvs = Some (rd_ObjectKey d)"
    "string_field ''exportedAt'' kvs = Some (rd_ExportedAt d)" "string_field ''previousDigest'' kvs = Some (rd_PreviousDigest d)"
    unfolding K F by (simp_all add: fold jint_def del: fold_name.simps)
  moreover have "filter (\<lambda>n. n \<in> fst ` set kvs) sealedFieldNames = sealedFieldNames"
    unfolding K by (simp add: sealedFieldNames_def)
  ultimately show ?thesis
    by (simp add: kvs read_record_def details_of_def)
qed

text \<open>A list of entries whose records are the values of one function of the ordinal.\<close>

definition records_from :: "(int \<Rightarrow> export_record) \<Rightarrow> seg_entry list \<Rightarrow> bool" where
  "records_from f es \<longleftrightarrow>
     (\<forall>e \<in> set es. is_export_record e \<longrightarrow> (\<exists>n. read_record (se_Details e) = Some (f n) \<and> rd_SegmentSeq (er_Details (f n)) = n))"

definition values_of :: "(int \<Rightarrow> export_record) \<Rightarrow> records \<Rightarrow> bool" where
  "values_of f out \<longleftrightarrow> (\<forall>n r. (n, r) \<in> set out \<longrightarrow> r = f n)"

lemma values_of_map: "values_of f out \<Longrightarrow> map_of out n = Some r \<Longrightarrow> r = f n"
  using map_of_SomeD by (fastforce simp: values_of_def)

lemma records_loop_values:
  "records_from f es \<Longrightarrow> values_of f out \<Longrightarrow> \<exists>out'. records_loop es out = Inr out' \<and> values_of f out'"
proof (induction es arbitrary: out)
  case (Cons e es)
  show ?case
  proof (cases "is_export_record e")
    case False
    with Cons show ?thesis by (simp add: records_from_def)
  next
    case True
    then obtain n where n: "read_record (se_Details e) = Some (f n)" "rd_SegmentSeq (er_Details (f n)) = n"
      using Cons.prems(1) by (auto simp: records_from_def)
    obtain out1 where out1: "add_record (f n) out = Inr out1" "values_of f out1"
    proof (cases "map_of out n")
      case None
      then show thesis
        using Cons.prems(2) that [of "out @ [(n, f n)]"] by (auto simp: add_record_def n(2) values_of_def)
    next
      case (Some r)
      then show thesis
        using Cons.prems(2) values_of_map [OF Cons.prems(2) Some] that [of out] by (simp add: add_record_def n(2))
    qed
    have "records_from f es"
      using Cons.prems(1) by (simp add: records_from_def)
    from Cons.IH [OF this out1(2)] show ?thesis
      by (simp add: True n(1) out1(1))
  qed
qed simp

lemma mergeRecords_values:
  "values_of f found \<Longrightarrow> values_of f out \<Longrightarrow> \<exists>out'. mergeRecords out found = Inr out' \<and> values_of f out'"
proof (induction found arbitrary: out)
  case (Cons p found)
  obtain n r where p: "p = (n, r)" by (cases p)
  have found: "values_of f found" and r: "r = f n"
    using Cons.prems(1) by (auto simp: values_of_def p)
  show ?case
  proof (cases "map_of out n")
    case None
    moreover have "values_of f (out @ [(n, r)])"
      using Cons.prems(2) r by (auto simp: values_of_def)
    ultimately show ?thesis
      using Cons.IH [OF found, of "out @ [(n, r)]"] by (simp add: p)
  next
    case (Some x)
    with values_of_map [OF Cons.prems(2) Some] r Cons.IH [OF found Cons.prems(2)] show ?thesis
      by (simp add: p)
  qed
qed simp

section \<open>The check of a document\<close>

definition base_report :: "seg_document \<Rightarrow> worm_report" where
  "base_report doc =
     (let es = do_Entries doc; n = ra_FromSeq (do_Range doc)
      in settlePrefix doc ((fresh_report doc)\<lparr>wr_PreCutoverEntries := int (length (takeWhile seg_pre es)),
        wr_FirstVerifiedSeq := (if dropWhile seg_pre es = [] then 0 else n + int (length (takeWhile seg_pre es))),
        wr_LastVerifiedSeq := (if dropWhile seg_pre es = [] then 0 else n + int (length es) - 1)\<rparr>))"

definition doc_ok :: "(string \<Rightarrow> string) \<Rightarrow> seg_document \<Rightarrow> bool" where
  "doc_ok sha doc \<longleftrightarrow> checkClaims doc = Inr () \<and>
     seg_linked (ra_FromSeq (do_Range doc)) (do_TenantID doc) (cn_StartPrevHash (do_Chain doc)) (do_Entries doc) \<and>
     list_all (seg_recomputes sha) (dropWhile seg_pre (do_Entries doc)) \<and> checkEnds doc = Inr ()"

lemma VerifyDocument_iff:
  assumes "0 < ra_FromSeq (do_Range doc)"
  shows "VerifyDocument sha doc = Inr rep \<longleftrightarrow> doc_ok sha doc \<and>
    (\<exists>records. exportRecords doc = Inr records \<and>
      (case map_of records (do_SegmentSeq doc) of
         None \<Rightarrow> rep = base_report doc
       | Some rec \<Rightarrow> \<exists>sealed. checkHeader (base_report doc) rec = Inr sealed \<and>
           rep = (base_report doc)\<lparr>wr_HeaderSealed := sealed, wr_HeaderRecordPreSeal := \<not> sealed\<rparr>))"
proof -
  define rep1 where "rep1 = (fresh_report doc)\<lparr>wr_PreCutoverEntries := int (length (takeWhile seg_pre (do_Entries doc))),
      wr_FirstVerifiedSeq := (if dropWhile seg_pre (do_Entries doc) = [] then 0 else ra_FromSeq (do_Range doc) + int (length (takeWhile seg_pre (do_Entries doc)))),
      wr_LastVerifiedSeq := (if dropWhile seg_pre (do_Entries doc) = [] then 0 else ra_FromSeq (do_Range doc) + int (length (do_Entries doc)) - 1)\<rparr>"
  have loop: "entriesLoop sha doc 0 (cn_StartPrevHash (do_Chain doc)) (fresh_report doc) (do_Entries doc) = Inr rep0 \<longleftrightarrow>
      seg_linked (ra_FromSeq (do_Range doc)) (do_TenantID doc) (cn_StartPrevHash (do_Chain doc)) (do_Entries doc) \<and>
      list_all (seg_recomputes sha) (dropWhile seg_pre (do_Entries doc)) \<and> rep0 = rep1" for rep0
    unfolding rep1_def by (subst entriesLoop_fresh) (use assms in \<open>simp_all add: fresh_report_def\<close>)
  define final where "final rep0 records \<longleftrightarrow> (case map_of records (do_SegmentSeq doc) of
      None \<Rightarrow> rep = settlePrefix doc rep0
    | Some rec \<Rightarrow> \<exists>sealed. checkHeader (settlePrefix doc rep0) rec = Inr sealed \<and>
        rep = (settlePrefix doc rep0)\<lparr>wr_HeaderSealed := sealed, wr_HeaderRecordPreSeal := \<not> sealed\<rparr>)"
    for rep0 and records :: records
  have tail: "(case map_of records (do_SegmentSeq doc) of
        None \<Rightarrow> Inr (settlePrefix doc rep0)
      | Some rec \<Rightarrow> andthen (checkHeader (settlePrefix doc rep0) rec) (\<lambda>sealed.
          Inr ((settlePrefix doc rep0)\<lparr>wr_HeaderSealed := sealed, wr_HeaderRecordPreSeal := \<not> sealed\<rparr>))) = Inr rep \<longleftrightarrow> final rep0 records"
    for rep0 and records :: records
    by (auto simp: final_def andthen_Inr split: option.split)
  have "VerifyDocument sha doc = Inr rep \<longleftrightarrow> checkClaims doc = Inr () \<and>
      (\<exists>rep0. entriesLoop sha doc 0 (cn_StartPrevHash (do_Chain doc)) (fresh_report doc) (do_Entries doc) = Inr rep0 \<and>
        checkEnds doc = Inr () \<and> (\<exists>records. exportRecords doc = Inr records \<and> final rep0 records))"
    unfolding VerifyDocument_def andthen_Inr Let_def tail by (auto simp: unit_all_eq1)
  moreover have "base_report doc = settlePrefix doc rep1"
    by (simp only: base_report_def rep1_def Let_def)
  ultimately show ?thesis
    unfolding loop doc_ok_def by (simp only: final_def) blast
qed

end
