(* ===== verification/WormExport.thy ===== *)
theory WormExport
  imports WormFacts
begin

text \<open>
  The scheduled export of a tenant's audit trail (\<^verbatim>\<open>src/platform/audit/worm/export.go\<close> and \<^verbatim>\<open>store.go\<close>): the
  ledger of segments with the constraints of its table, the cut, the upload and its confirmation,
  the rebuild of a segment an earlier pass left, and a pass over the tenants. One tenant's chain,
  ledger and objects are one state; the chain is kept in the order of its sequence numbers. What
  the database and the object store do to a step - a failed read or commit, an upload that fails
  before or after the object landed, a confirmation that is lost - is an argument of the step.
\<close>

section \<open>The ledger\<close>

datatype segment_status = SegPending | SegUploaded

record ledger =
  le_ID :: string
  le_TenantID :: string
  le_SegmentSeq :: int
  le_FromSeq :: int
  le_ToSeq :: int
  le_Entries :: int
  le_StartPrevHash :: string
  le_EndHash :: string
  le_ObjectKey :: string
  le_FormatVersion :: int
  le_Digest :: string
  le_SizeBytes :: int
  le_ExportedAt :: int
  le_Status :: segment_status
  le_Attempts :: int

definition pending :: "ledger \<Rightarrow> bool" where
  "pending r \<longleftrightarrow> le_Status r = SegPending"

definition ChainHead :: "audit_entry list \<Rightarrow> int" where
  "ChainHead chain = foldl max 0 (map ae_Seq chain)"

definition LoadRange :: "string \<Rightarrow> int \<Rightarrow> int \<Rightarrow> audit_entry list \<Rightarrow> audit_entry list fallible" where
  "LoadRange tenant from1 to1 chain =
     (let entries = filter (\<lambda>e. from1 \<le> ae_Seq e \<and> ae_Seq e \<le> to1) chain; want = to1 - from1 + 1
      in if int (length entries) \<noteq> want then
           Inl (Errorf ''worm: chain range %d..%d for tenant %s returned %d entries, want %d (entries are missing)''
             [I from1, I to1, S tenant, I (int (length entries)), I want])
         else Inr entries)"

definition PreCutoverThrough :: "int \<Rightarrow> int \<Rightarrow> audit_entry list \<Rightarrow> int" where
  "PreCutoverThrough from1 to1 chain =
     foldl max 0 (map ae_Seq (filter (\<lambda>e. from1 \<le> ae_Seq e \<and> ae_Seq e \<le> to1 \<and> 0 < ae_HashVersion e \<and> ae_HashVersion e < 2) chain))"

definition store_Pending :: "ledger list \<Rightarrow> ledger option" where
  "store_Pending rows = find pending rows"

definition LastLanded :: "ledger list \<Rightarrow> ledger option" where
  "LastLanded rows =
     (let landed = sort_key le_SegmentSeq (filter (\<lambda>r. \<not> pending r) rows)
      in if landed = [] then None else Some (last landed))"

definition store_Before :: "int \<Rightarrow> ledger list \<Rightarrow> ledger option" where
  "store_Before segmentSeq rows =
     (if segmentSeq \<le> 1 then None else find (\<lambda>r. le_SegmentSeq r = segmentSeq - 1) rows)"

text \<open>The insert of a pending row: the checks and the unique indexes of the table.\<close>

definition segment_checks :: "ledger \<Rightarrow> bool" where
  "segment_checks r \<longleftrightarrow> le_FromSeq r \<ge> 1 \<and> le_ToSeq r \<ge> le_FromSeq r \<and> le_Entries r = le_ToSeq r - le_FromSeq r + 1 \<and> le_Attempts r \<ge> 0"

definition Claim :: "ledger \<Rightarrow> ledger list \<Rightarrow> ledger list fallible" where
  "Claim row rows =
     (if segment_checks row \<and> le_ID row \<notin> set (map le_ID rows) \<and> le_SegmentSeq row \<notin> set (map le_SegmentSeq rows) \<and>
         le_FromSeq row \<notin> set (map le_FromSeq rows) \<and> list_all (\<lambda>r. \<not> pending r) rows
      then Inr (rows @ [row\<lparr>le_Status := SegPending, le_Attempts := 0\<rparr>])
      else Inl (Errorf ''worm: claim segment %d..%d: %w'' [I (le_FromSeq row), I (le_ToSeq row)]))"

definition Confirm :: "string \<Rightarrow> ledger list \<Rightarrow> ledger list" where
  "Confirm i rows = map (\<lambda>r. if le_ID r = i \<and> pending r then r\<lparr>le_Status := SegUploaded\<rparr> else r) rows"

definition Restate :: "string \<Rightarrow> int \<Rightarrow> string \<Rightarrow> int \<Rightarrow> ledger list \<Rightarrow> ledger list" where
  "Restate i version digest size1 rows =
     map (\<lambda>r. if le_ID r = i \<and> pending r then r\<lparr>le_FormatVersion := version, le_Digest := digest, le_SizeBytes := size1\<rparr> else r) rows"

definition store_Fail :: "string \<Rightarrow> ledger list \<Rightarrow> ledger list" where
  "store_Fail i rows = map (\<lambda>r. if le_ID r = i \<and> pending r then r\<lparr>le_Attempts := le_Attempts r + 1\<rparr> else r) rows"

section \<open>Settings\<close>

record worm_settings =
  ws_MaxEntriesPerSegment :: int
  ws_MaxSegmentsPerRun :: int
  ws_KeyPrefix :: string

definition DefaultMaxEntriesPerSegment :: int where "DefaultMaxEntriesPerSegment = 5000"
definition DefaultMaxSegmentsPerRun :: int where "DefaultMaxSegmentsPerRun = 20"
definition DefaultKeyPrefix :: string where "DefaultKeyPrefix = ''tenants''"
definition minEntriesPerSegment :: int where "minEntriesPerSegment = 2"

definition worm_withDefaults :: "worm_settings \<Rightarrow> worm_settings" where
  "worm_withDefaults s =
     (let m = (if ws_MaxEntriesPerSegment s \<le> 0 then DefaultMaxEntriesPerSegment else ws_MaxEntriesPerSegment s)
      in \<lparr>ws_MaxEntriesPerSegment = (if m < minEntriesPerSegment then minEntriesPerSegment else m),
          ws_MaxSegmentsPerRun = (if ws_MaxSegmentsPerRun s \<le> 0 then DefaultMaxSegmentsPerRun else ws_MaxSegmentsPerRun s),
          ws_KeyPrefix = (if ws_KeyPrefix s = [] then DefaultKeyPrefix else ws_KeyPrefix s)\<rparr>)"

text \<open>The exporter: its settings, the system actor and the recipe it writes into every segment.\<close>

record exporter =
  ex_settings :: worm_settings
  ex_actor :: string
  ex_recipe :: json

definition NewExporter :: "worm_settings \<Rightarrow> string \<Rightarrow> json \<Rightarrow> exporter" where
  "NewExporter s actor rcp = \<lparr>ex_settings = worm_withDefaults s, ex_actor = actor, ex_recipe = rcp\<rparr>"

definition objectKey :: "exporter \<Rightarrow> string \<Rightarrow> int \<Rightarrow> int \<Rightarrow> string" where
  "objectKey x tenant from1 to1 =
     ws_KeyPrefix (ex_settings x) @ ''/'' @ tenant @ ''/audit-segments/seg-'' @ fmt_0d 12 from1 @ ''-'' @ fmt_0d 12 to1 @ ''.json''"

definition previousOf :: "ledger option \<Rightarrow> seg_previous option" where
  "previousOf row =
     map_option (\<lambda>r. \<lparr>pv_SegmentID = le_ID r, pv_SegmentSeq = le_SegmentSeq r, pv_ObjectKey = le_ObjectKey r,
       pv_ToSeq = le_ToSeq r, pv_EndHash = le_EndHash r, pv_Digest = digestPrefix @ le_Digest r\<rparr>) row"

text \<open>The bytes of a stored file.\<close>

definition file_text :: "seg_file \<Rightarrow> string" where
  "file_text f = ''{\"segment\":'' @ fi_Segment f @ '',\"digest\":'' @ marshal_string (fi_Digest f) @ ''}''"

section \<open>One unit of work\<close>

record export_state =
  es_chain :: "audit_entry list"
  es_ledger :: "ledger list"
  es_objects :: "string \<Rightarrow> seg_file option"

datatype put_fate = PutOk | PutFails bool

text \<open>
  What a step meets: the fresh id, the clocks, and what the database and the object store do.
  \<open>PutFails True\<close> is an upload that landed all the same.
\<close>

record step_env =
  sv_ID :: string
  sv_Now :: int
  sv_RecordNow :: int
  sv_EventID :: string
  sv_ReadOk :: bool
  sv_CutOk :: bool
  sv_RebuildOk :: bool
  sv_Put :: put_fate
  sv_ConfirmOk :: bool
  sv_CountOk :: bool

definition tenantContext :: "exporter \<Rightarrow> string \<Rightarrow> step_env \<Rightarrow> audit_context" where
  "tenantContext x tenant v =
     \<lparr>ac_Tenant = tenant,
      ac_Requester = Some \<lparr>rq_Kind = RequesterUser, rq_ID = ex_actor x, rq_CredentialID = [], rq_CredentialKind = [], rq_ServiceAccount = False\<rparr>,
      ac_RequestID = [], ac_Now = sv_RecordNow v, ac_NewUUID = sv_EventID v\<rparr>"

text \<open>
  \<^verbatim>\<open>cut\<close>: one transaction, whose failure leaves the state as it was; \<^const>\<open>None\<close> when there is nothing new.
\<close>

definition cut ::
  "(string \<Rightarrow> string) \<Rightarrow> exporter \<Rightarrow> string \<Rightarrow> step_env \<Rightarrow> export_state \<Rightarrow> (export_state \<times> (ledger \<times> built) option) fallible" where
  "cut sha x tenant v st =
     (let final = LastLanded (es_ledger st);
          from1 = (case final of None \<Rightarrow> 1 | Some l \<Rightarrow> le_ToSeq l + 1);
          startPrev = (case final of None \<Rightarrow> GenesisHash | Some l \<Rightarrow> le_EndHash l);
          segmentSeq = (case final of None \<Rightarrow> 1 | Some l \<Rightarrow> le_SegmentSeq l + 1);
          head1 = ChainHead (es_chain st)
      in if head1 < from1 - 1 then
           Inl (Errorf ''worm: chain head is seq %d but segments through seq %d have been exported (entries have been removed)'' [I head1, I (from1 - 1)])
         else if head1 < from1 then Inr (st, None)
         else
           let to1 = min (head1 + 1) (from1 + ws_MaxEntriesPerSegment (ex_settings x) - 1);
               key = objectKey x tenant from1 to1;
               exportedAt = truncate_micro (sv_Now v);
               previous = previousOf final;
               details = \<lparr>rd_SegmentSeq = segmentSeq, rd_SegmentID = sv_ID v, rd_FromSeq = from1, rd_ToSeq = to1,
                 rd_Entries = to1 - from1 + 1, rd_ObjectKey = key, rd_ExportedAt = FormatInstant exportedAt,
                 rd_PreviousDigest = (case previous of None \<Rightarrow> [] | Some p \<Rightarrow> pv_Digest p),
                 rd_PreCutoverThroughSeq = PreCutoverThrough from1 to1 (es_chain st), rd_FormatVersion = FormatVersion\<rparr>
           in andthen (audit_Record sha (tenantContext x tenant v) ''audit.exported'' ''tenant'' tenant (Some (details_Map details)) (es_chain st)) (\<lambda>chain.
              andthen (LoadRange tenant from1 to1 chain) (\<lambda>entries.
              andthen (Build sha (ex_recipe x)
                \<lparr>bi_SegmentID = sv_ID v, bi_SegmentSeq = segmentSeq, bi_TenantID = tenant, bi_ExportedAt = exportedAt,
                 bi_StartPrevHash = startPrev, bi_Entries = entries, bi_Previous = previous\<rparr>) (\<lambda>bu.
              let row = \<lparr>le_ID = sv_ID v, le_TenantID = tenant, le_SegmentSeq = segmentSeq, le_FromSeq = from1, le_ToSeq = to1,
                    le_Entries = int (length entries), le_StartPrevHash = startPrev, le_EndHash = cn_EndHash (do_Chain (bu_Document bu)),
                    le_ObjectKey = key, le_FormatVersion = FormatVersion, le_Digest = bu_Digest bu,
                    le_SizeBytes = int (length (file_text (bu_File bu))), le_ExportedAt = exportedAt, le_Status = SegPending, le_Attempts = 0\<rparr>
              in andthen (Claim row (es_ledger st)) (\<lambda>rows.
                 if \<not> sv_CutOk v then Inl (text_msg ''commit'') else Inr (st\<lparr>es_chain := chain, es_ledger := rows\<rparr>, Some (row, bu)))))))"

text \<open>\<^verbatim>\<open>rebuild\<close>: the same document from the same rows, or an error when they have changed.\<close>

definition rebuild :: "(string \<Rightarrow> string) \<Rightarrow> exporter \<Rightarrow> string \<Rightarrow> ledger \<Rightarrow> export_state \<Rightarrow> (export_state \<times> built) fallible" where
  "rebuild sha x tenant row st =
     andthen (LoadRange tenant (le_FromSeq row) (le_ToSeq row) (es_chain st)) (\<lambda>entries.
     andthen (Build sha (ex_recipe x)
       \<lparr>bi_SegmentID = le_ID row, bi_SegmentSeq = le_SegmentSeq row, bi_TenantID = tenant, bi_ExportedAt = le_ExportedAt row,
        bi_StartPrevHash = le_StartPrevHash row, bi_Entries = entries,
        bi_Previous = previousOf (store_Before (le_SegmentSeq row) (es_ledger st))\<rparr>) (\<lambda>bu.
     if le_FormatVersion row \<noteq> FormatVersion then
       Inr (st\<lparr>es_ledger := Restate (le_ID row) FormatVersion (bu_Digest bu) (int (length (file_text (bu_File bu)))) (es_ledger st)\<rparr>, bu)
     else if bu_Digest bu \<noteq> le_Digest row then
       Inl (Errorf (''worm: segment %s (seq %d..%d) rebuilds to digest %s but was cut as %s '' @ [CHR 0xE2, CHR 0x80, CHR 0x94] @
           '' the audit rows behind it have changed'') [S (le_ObjectKey row), I (le_FromSeq row), I (le_ToSeq row), S (bu_Digest bu), S (le_Digest row)])
     else Inr (st, bu)))"

text \<open>\<^verbatim>\<open>finish\<close>: upload, then confirm; a failed upload leaves the row pending and counts the attempt.\<close>

definition upload_segment :: "step_env \<Rightarrow> ledger \<Rightarrow> built \<Rightarrow> export_state \<Rightarrow> export_state \<times> unit fallible" where
  "upload_segment v row bu st =
     (let landed = st\<lparr>es_objects := (es_objects st)(le_ObjectKey row \<mapsto> bu_File bu)\<rparr>
      in case sv_Put v of
           PutFails there \<Rightarrow>
             (let st1 = (if there then landed else st)
              in (if sv_CountOk v then st1\<lparr>es_ledger := store_Fail (le_ID row) (es_ledger st1)\<rparr> else st1,
                  Inl (Errorf ''worm: upload segment %s: %w'' [S (le_ObjectKey row)])))
         | PutOk \<Rightarrow>
             if \<not> sv_ConfirmOk v then (landed, Inl (Errorf ''worm: confirm segment %s: %w'' [S (le_ID row)]))
             else (landed\<lparr>es_ledger := Confirm (le_ID row) (es_ledger landed)\<rparr>, Inr ()))"

definition finish :: "(string \<Rightarrow> string) \<Rightarrow> exporter \<Rightarrow> string \<Rightarrow> step_env \<Rightarrow> ledger \<Rightarrow> built option \<Rightarrow> export_state \<Rightarrow> export_state \<times> unit fallible" where
  "finish sha x tenant v row bu st =
     (case bu of
        Some b \<Rightarrow> upload_segment v row b st
      | None \<Rightarrow>
          (case (if sv_RebuildOk v then rebuild sha x tenant row st else Inl (text_msg ''worm: load chain range'')) of
             Inl m \<Rightarrow> (st, Inl m)
           | Inr (st1, b) \<Rightarrow> upload_segment v row b st1))"

record run_report =
  rr_Tenants :: int
  rr_TenantsExported :: int
  rr_TenantsFailed :: int
  rr_Segments :: int
  rr_Resumed :: int
  rr_Entries :: int
  rr_AtBudget :: int

definition worm_step ::
  "(string \<Rightarrow> string) \<Rightarrow> exporter \<Rightarrow> string \<Rightarrow> step_env \<Rightarrow> export_state \<Rightarrow> run_report \<Rightarrow> export_state \<times> run_report \<times> bool fallible" where
  "worm_step sha x tenant v st rep =
     (if \<not> sv_ReadOk v then (st, rep, Inl (text_msg ''worm: read export ledger: %w''))
      else case store_Pending (es_ledger st) of
          Some row \<Rightarrow>
            (case finish sha x tenant v row None st of
               (st1, Inl m) \<Rightarrow> (st1, rep, Inl m)
             | (st1, Inr _) \<Rightarrow>
                 (st1, rep\<lparr>rr_Segments := rr_Segments rep + 1, rr_Resumed := rr_Resumed rep + 1, rr_Entries := rr_Entries rep + le_Entries row\<rparr>, Inr True))
        | None \<Rightarrow>
            (case cut sha x tenant v st of
               Inl m \<Rightarrow> (st, rep, Inl m)
             | Inr (st1, None) \<Rightarrow> (st1, rep, Inr False)
             | Inr (st1, Some (row, bu)) \<Rightarrow>
                 (case finish sha x tenant v row (Some bu) st1 of
                    (st2, Inl m) \<Rightarrow> (st2, rep, Inl m)
                  | (st2, Inr _) \<Rightarrow> (st2, rep\<lparr>rr_Segments := rr_Segments rep + 1, rr_Entries := rr_Entries rep + le_Entries row\<rparr>, Inr True))))"

text \<open>\<^verbatim>\<open>exportTenant\<close>: the steps of one pass, at most as many as \<open>vs\<close> holds; \<open>None\<close> is a context that was cancelled.\<close>

fun exportTenant ::
  "(string \<Rightarrow> string) \<Rightarrow> exporter \<Rightarrow> string \<Rightarrow> step_env option list \<Rightarrow> export_state \<Rightarrow> run_report \<Rightarrow> export_state \<times> run_report \<times> unit fallible" where
  "exportTenant sha x tenant [] st rep = (st, rep\<lparr>rr_AtBudget := rr_AtBudget rep + 1\<rparr>, Inr ())"
| "exportTenant sha x tenant (None # vs) st rep = (st, rep, Inl (text_msg ''context canceled''))"
| "exportTenant sha x tenant (Some v # vs) st rep =
     (case worm_step sha x tenant v st rep of
        (st1, rep1, Inl m) \<Rightarrow> (st1, rep1, Inl m)
      | (st1, rep1, Inr again) \<Rightarrow> if \<not> again then (st1, rep1, Inr ()) else exportTenant sha x tenant vs st1 rep1)"

text \<open>
  \<^verbatim>\<open>Run\<close>: one pass over every tenant; the states are per tenant. A tenant comes with what its steps meet;
  \<^const>\<open>None\<close> is a context cancelled before the tenant. The failures are collected and never stop the pass.
\<close>

fun run_tenants ::
  "(string \<Rightarrow> string) \<Rightarrow> exporter \<Rightarrow> (string \<times> step_env option list) option list \<Rightarrow> (string \<Rightarrow> export_state) \<Rightarrow> run_report \<Rightarrow>
     (string \<Rightarrow> export_state) \<times> run_report \<times> message list" where
  "run_tenants sha x [] w rep = (w, rep, [])"
| "run_tenants sha x (None # ts) w rep = (w, rep, [text_msg ''context canceled''])"
| "run_tenants sha x (Some (tenant, vs) # ts) w rep =
     (let (st, rep1, res) = exportTenant sha x tenant vs (w tenant) rep;
          rep2 = (case res of
              Inl m \<Rightarrow> rep1\<lparr>rr_TenantsFailed := rr_TenantsFailed rep1 + 1\<rparr>
            | Inr _ \<Rightarrow> if rr_Segments rep1 > rr_Segments rep then rep1\<lparr>rr_TenantsExported := rr_TenantsExported rep1 + 1\<rparr> else rep1);
          (w', rep', failures) = run_tenants sha x ts (w(tenant := st)) rep2
      in (w', rep', (case res of Inl m \<Rightarrow> [Errorf ''tenant %s: %w'' [S tenant]] | Inr _ \<Rightarrow> []) @ failures))"

definition worm_Run ::
  "(string \<Rightarrow> string) \<Rightarrow> exporter \<Rightarrow> bool \<Rightarrow> (string \<times> step_env option list) option list fallible \<Rightarrow> (string \<Rightarrow> export_state) \<Rightarrow>
     (string \<Rightarrow> export_state) \<times> run_report \<times> message list" where
  "worm_Run sha x dest tenants w =
     (let none = \<lparr>rr_Tenants = 0, rr_TenantsExported = 0, rr_TenantsFailed = 0, rr_Segments = 0, rr_Resumed = 0, rr_Entries = 0, rr_AtBudget = 0\<rparr>
      in if \<not> dest then (w, none, [text_msg ''worm: no export destination configured''])
         else case tenants of
             Inl m \<Rightarrow> (w, none, [m])
           | Inr ts \<Rightarrow> run_tenants sha x ts w (none\<lparr>rr_Tenants := int (length ts)\<rparr>))"

end
