(* ===== verification/WormArchive.thy ===== *)
theory WormArchive
  imports WormExport
begin

text \<open>
  The invariant of a tenant's archive: the ledger tiles the chain from its first entry, every row's
  document is the one its stretch of the chain gives and passes the check, every uploaded row's
  object is that document, and the records of exports the chain carries are those of the rows. Any
  step of the exporter keeps it, whatever the database and the object store do to the step, and so
  does anything else that is recorded in the chain.
\<close>

section \<open>Stretches of a chain\<close>

definition slice :: "int \<Rightarrow> int \<Rightarrow> audit_entry list \<Rightarrow> audit_entry list" where
  "slice a b chain = take (nat (b - a + 1)) (drop (nat (a - 1)) chain)"

lemma filter_linked:
  "linked i prev chain \<Longrightarrow> filter (\<lambda>e. a \<le> ae_Seq e \<and> ae_Seq e \<le> b) chain = take (nat (b - max a (i + 1) + 1)) (drop (nat (a - i - 1)) chain)"
proof (induction chain arbitrary: i prev)
  case (Cons e es)
  note IH = Cons.IH [of "i + 1" "ae_Hash e"] and seq = Cons.prems
  consider "i + 1 < a" | "a \<le> i + 1" "i + 1 \<le> b" | "a \<le> i + 1" "b < i + 1" by linarith
  then show ?case
  proof cases
    case 1
    then have "nat (a - i - 1) = Suc (nat (a - (i + 1) - 1))" "max a (i + 1 + 1) = max a (i + 1)" by auto
    with IH seq 1 show ?thesis by simp
  next
    case 2
    then have "nat (b - max a (i + 1) + 1) = Suc (nat (b - max a (i + 1 + 1) + 1))" "nat (a - i - 1) = 0" "nat (a - (i + 1) - 1) = 0" by auto
    with IH seq 2 show ?thesis by simp
  next
    case 3
    then have "nat (b - max a (i + 1 + 1) + 1) = 0" "nat (b - max a (i + 1) + 1) = 0" by auto
    with IH seq 3 show ?thesis by simp
  qed
qed simp

lemma filter_slice: "linked 0 prev chain \<Longrightarrow> 1 \<le> a \<Longrightarrow> filter (\<lambda>e. a \<le> ae_Seq e \<and> ae_Seq e \<le> b) chain = slice a b chain"
  using filter_linked [of 0 prev chain a b] by (simp add: slice_def max_def)

lemma LoadRange_Inr:
  "linked 0 prev chain \<Longrightarrow> 1 \<le> a \<Longrightarrow>
     LoadRange tenant a b chain = Inr es \<longleftrightarrow> es = slice a b chain \<and> int (length (slice a b chain)) = b - a + 1"
  by (auto simp: LoadRange_def Let_def filter_slice)

lemma length_slice: "1 \<le> a \<Longrightarrow> b \<le> int (length chain) \<Longrightarrow> a \<le> b + 1 \<Longrightarrow> length (slice a b chain) = nat (b - a + 1)"
  by (simp add: slice_def)

lemma slice_bound: "1 \<le> a \<Longrightarrow> a \<le> b \<Longrightarrow> int (length (slice a b chain)) = b - a + 1 \<Longrightarrow> b \<le> int (length chain)"
  by (simp add: slice_def min_def split: if_splits)

lemma slice_append: "1 \<le> a \<Longrightarrow> b \<le> int (length chain) \<Longrightarrow> slice a b (chain @ new) = slice a b chain"
proof -
  assume a: "1 \<le> a" "b \<le> int (length chain)"
  show ?thesis
  proof (cases "a \<le> b")
    case False
    then show ?thesis by (simp add: slice_def)
  next
    case True
    with a have "nat (a - 1) \<le> length chain" "nat (b - a + 1) \<le> length chain - nat (a - 1)" by linarith+
    then show ?thesis by (simp add: slice_def)
  qed
qed

lemma slice_join: "1 \<le> a \<Longrightarrow> a \<le> b + 1 \<Longrightarrow> b \<le> c \<Longrightarrow> slice a b chain @ slice (b + 1) c chain = slice a c chain"
proof -
  assume a: "1 \<le> a" "a \<le> b + 1" "b \<le> c"
  have 1: "nat (c - a + 1) = nat (b - a + 1) + nat (c - (b + 1) + 1)" and 2: "nat (b + 1 - 1) = nat (b - a + 1) + nat (a - 1)"
    using a by linarith+
  show ?thesis
    unfolding slice_def 1 2 by (simp only: take_add drop_drop)
qed

lemma slice_from_1: "slice 1 b chain = take (nat b) chain"
  by (simp add: slice_def)

lemma linked_drop: "linked i prev es \<Longrightarrow> n \<le> length es \<Longrightarrow> linked (i + int n) (if n = 0 then prev else ae_Hash (es ! (n - 1))) (drop n es)"
proof (induction n arbitrary: i prev es)
  case (Suc n)
  then obtain e es' where es: "es = e # es'" by (cases es) auto
  with Suc.prems Suc.IH [of "i + 1" "ae_Hash e" es'] show ?case
    by (cases n) (auto simp: algebra_simps)
qed simp

lemma linked_take: "linked i prev es \<Longrightarrow> linked i prev (take n es)"
  by (induction es arbitrary: i prev n) (auto simp: take_Cons split: nat.splits)

lemma foldl_max_linked:
  "linked i prev es \<Longrightarrow> m \<le> i + 1 \<Longrightarrow> foldl max m (map ae_Seq es) = (if es = [] then m else i + int (length es))"
proof (induction es arbitrary: i prev m)
  case (Cons e es)
  then have "foldl max (i + 1) (map ae_Seq es) = (if es = [] then i + 1 else i + 1 + int (length es))"
    by (intro Cons.IH [of "i + 1" "ae_Hash e"]) auto
  with Cons.prems show ?case by (simp add: max_absorb2)
qed simp

lemma ChainHead_linked: "linked 0 prev chain \<Longrightarrow> ChainHead chain = int (length chain)"
  using foldl_max_linked [of 0 prev chain 0] by (auto simp: ChainHead_def)

lemma PreCutoverThrough_snoc: "\<not> pre_cutover e \<Longrightarrow> PreCutoverThrough a b (chain @ [e]) = PreCutoverThrough a b chain"
  by (auto simp: PreCutoverThrough_def IsPreCutover_def)

section \<open>The document of a row\<close>

text \<open>\<open>p\<close> is the row before it, if there is one.\<close>

definition row_input :: "audit_entry list \<Rightarrow> ledger option \<Rightarrow> ledger \<Rightarrow> build_input" where
  "row_input chain p r =
     \<lparr>bi_SegmentID = le_ID r, bi_SegmentSeq = le_SegmentSeq r, bi_TenantID = le_TenantID r, bi_ExportedAt = le_ExportedAt r,
      bi_StartPrevHash = le_StartPrevHash r, bi_Entries = slice (le_FromSeq r) (le_ToSeq r) chain, bi_Previous = previousOf p\<rparr>"

definition row_doc :: "exporter \<Rightarrow> audit_entry list \<Rightarrow> ledger option \<Rightarrow> ledger \<Rightarrow> seg_document" where
  "row_doc x chain p r = build_document (ex_recipe x) (row_input chain p r)"

definition row_file :: "(string \<Rightarrow> string) \<Rightarrow> exporter \<Rightarrow> audit_entry list \<Rightarrow> ledger option \<Rightarrow> ledger \<Rightarrow> seg_file" where
  "row_file sha x chain p r =
     \<lparr>fi_Segment = segment_text (row_doc x chain p r), fi_Digest = digestPrefix @ sha (segment_text (row_doc x chain p r))\<rparr>"

definition previous_digest :: "ledger option \<Rightarrow> string" where
  "previous_digest p = (case previousOf p of None \<Rightarrow> [] | Some v \<Rightarrow> pv_Digest v)"

definition row_details :: "audit_entry list \<Rightarrow> ledger option \<Rightarrow> ledger \<Rightarrow> record_details" where
  "row_details chain p r =
     \<lparr>rd_SegmentSeq = le_SegmentSeq r, rd_SegmentID = le_ID r, rd_FromSeq = le_FromSeq r, rd_ToSeq = le_ToSeq r,
      rd_Entries = le_Entries r, rd_ObjectKey = le_ObjectKey r, rd_ExportedAt = FormatInstant (le_ExportedAt r),
      rd_PreviousDigest = previous_digest p,
      rd_PreCutoverThroughSeq = PreCutoverThrough (le_FromSeq r) (le_ToSeq r) chain, rd_FormatVersion = FormatVersion\<rparr>"

fun rows_details :: "audit_entry list \<Rightarrow> ledger option \<Rightarrow> ledger list \<Rightarrow> record_details list" where
  "rows_details chain p [] = []"
| "rows_details chain p (r # rs) = row_details chain p r # rows_details chain (Some r) rs"

text \<open>Where the next row starts.\<close>

definition next_ordinal :: "ledger option \<Rightarrow> int" where
  "next_ordinal p = (case p of None \<Rightarrow> 1 | Some l \<Rightarrow> le_SegmentSeq l + 1)"

definition next_seq :: "ledger option \<Rightarrow> int" where
  "next_seq p = (case p of None \<Rightarrow> 1 | Some l \<Rightarrow> le_ToSeq l + 1)"

definition next_hash :: "ledger option \<Rightarrow> string" where
  "next_hash p = (case p of None \<Rightarrow> GenesisHash | Some l \<Rightarrow> le_EndHash l)"

text \<open>What the ledger says of a row, given the row before it and the chain.\<close>

definition row_shape :: "exporter \<Rightarrow> string \<Rightarrow> audit_entry list \<Rightarrow> ledger option \<Rightarrow> ledger \<Rightarrow> bool" where
  "row_shape x tenant chain p r \<longleftrightarrow>
     le_TenantID r = tenant \<and> le_SegmentSeq r = next_ordinal p \<and> le_FromSeq r = next_seq p \<and> le_StartPrevHash r = next_hash p \<and>
     1 \<le> le_FromSeq r \<and> le_FromSeq r \<le> le_ToSeq r \<and> le_ToSeq r \<le> int (length chain) \<and> le_Entries r = le_ToSeq r - le_FromSeq r + 1 \<and>
     le_EndHash r = ae_Hash (chain ! nat (le_ToSeq r - 1)) \<and> le_ObjectKey r = objectKey x tenant (le_FromSeq r) (le_ToSeq r) \<and>
     le_FormatVersion r = FormatVersion"

definition row_ok :: "(string \<Rightarrow> string) \<Rightarrow> exporter \<Rightarrow> string \<Rightarrow> export_state \<Rightarrow> ledger option \<Rightarrow> ledger \<Rightarrow> bool" where
  "row_ok sha x tenant st p r \<longleftrightarrow>
     row_shape x tenant (es_chain st) p r \<and> (\<exists>rep. VerifyDocument sha (row_doc x (es_chain st) p r) = Inr rep) \<and>
     le_Digest r = sha (segment_text (row_doc x (es_chain st) p r)) \<and>
     (\<not> pending r \<longrightarrow> es_objects st (le_ObjectKey r) = Some (row_file sha x (es_chain st) p r))"

fun rows_ok :: "(string \<Rightarrow> string) \<Rightarrow> exporter \<Rightarrow> string \<Rightarrow> export_state \<Rightarrow> ledger option \<Rightarrow> ledger list \<Rightarrow> bool" where
  "rows_ok sha x tenant st p [] \<longleftrightarrow> True"
| "rows_ok sha x tenant st p (r # rs) \<longleftrightarrow>
     row_ok sha x tenant st p r \<and> (rs \<noteq> [] \<longrightarrow> \<not> pending r) \<and> rows_ok sha x tenant st (Some r) rs"

definition last_opt :: "ledger option \<Rightarrow> ledger list \<Rightarrow> ledger option" where
  "last_opt p rs = (if rs = [] then p else Some (last rs))"

lemma last_opt_simps [simp]: "last_opt p [] = p" "last_opt p (rs @ [r]) = Some r" "last_opt (Some r) rs = last_opt p (r # rs)"
  by (simp_all add: last_opt_def)

lemma last_opt_Cons: "last_opt p (r # rs) = last_opt (Some r) rs"
  by (simp add: last_opt_def)

lemma rows_ok_snoc:
  "rows_ok sha x tenant st p (rs @ [r]) \<longleftrightarrow>
     rows_ok sha x tenant st p rs \<and> list_all (\<lambda>q. \<not> pending q) rs \<and> row_ok sha x tenant st (last_opt p rs) r"
proof (induction rs arbitrary: p)
  case (Cons q rs)
  then show ?case by (auto simp: last_opt_def)
qed simp

lemma rows_ok_middle: "rows_ok sha x tenant st p ((us @ [r]) @ rs) \<Longrightarrow> row_ok sha x tenant st (last_opt p us) r"
  by (induction us arbitrary: p) (auto simp: last_opt_def)

lemma rows_details_snoc: "rows_details chain p (rs @ [r]) = rows_details chain p rs @ [row_details chain (last_opt p rs) r]"
proof (induction rs arbitrary: p)
  case (Cons q rs)
  then show ?case by (auto simp: last_opt_def)
qed simp

lemma row_doc_append:
  "1 \<le> le_FromSeq r \<Longrightarrow> le_ToSeq r \<le> int (length chain) \<Longrightarrow> row_doc x (chain @ new) p r = row_doc x chain p r"
  by (simp add: row_doc_def row_input_def slice_append)

lemma row_ok_grow:
  assumes "row_ok sha x tenant st p r" "es_chain st' = es_chain st @ new" "\<not> pending r \<longrightarrow> es_objects st' (le_ObjectKey r) = es_objects st (le_ObjectKey r)"
  shows "row_ok sha x tenant st' p r"
proof -
  have b: "1 \<le> le_FromSeq r" "le_FromSeq r \<le> le_ToSeq r" "le_ToSeq r \<le> int (length (es_chain st))"
    using assms(1) by (simp_all add: row_ok_def row_shape_def)
  then have "(es_chain st @ new) ! nat (le_ToSeq r - 1) = es_chain st ! nat (le_ToSeq r - 1)"
    by (simp add: nth_append nat_less_iff)
  moreover have "row_doc x (es_chain st @ new) p r = row_doc x (es_chain st) p r" "row_file sha x (es_chain st @ new) p r = row_file sha x (es_chain st) p r"
    using row_doc_append [OF b(1,3)] by (simp_all add: row_file_def)
  ultimately show ?thesis
    using assms unfolding row_ok_def row_shape_def by (elim conjE) (intro conjI, simp_all)
qed

lemma rows_ok_grow:
  "rows_ok sha x tenant st p rs \<Longrightarrow> es_chain st' = es_chain st @ new \<Longrightarrow>
     (\<And>r. r \<in> set rs \<Longrightarrow> \<not> pending r \<Longrightarrow> es_objects st' (le_ObjectKey r) = es_objects st (le_ObjectKey r)) \<Longrightarrow> rows_ok sha x tenant st' p rs"
  by (induction rs arbitrary: p) (auto intro: row_ok_grow)

lemma row_details_snoc: "\<not> pre_cutover e \<Longrightarrow> rows_details (chain @ [e]) p rs = rows_details chain p rs"
  by (induction rs arbitrary: p) (simp_all add: row_details_def PreCutoverThrough_snoc)

lemma rows_ok_from: "rows_ok sha x tenant st p rs \<Longrightarrow> r \<in> set rs \<Longrightarrow> next_seq p \<le> le_FromSeq r \<and> le_FromSeq r \<le> le_ToSeq r \<and> 1 \<le> le_FromSeq r"
proof (induction rs arbitrary: p)
  case (Cons q rs)
  have q: "row_ok sha x tenant st p q" using Cons.prems by simp
  show ?case
  proof (cases "r = q")
    case True
    with q show ?thesis by (simp add: row_ok_def row_shape_def)
  next
    case False
    with Cons.prems Cons.IH [of "Some q"] have "next_seq (Some q) \<le> le_FromSeq r \<and> le_FromSeq r \<le> le_ToSeq r \<and> 1 \<le> le_FromSeq r" by simp
    with q show ?thesis by (auto simp: row_ok_def row_shape_def next_seq_def split: option.splits)
  qed
qed simp

lemma rows_ok_ordinals: "rows_ok sha x tenant st p rs \<Longrightarrow> map le_SegmentSeq rs = map (\<lambda>k. next_ordinal p + int k) [0..<length rs]"
proof (induction rs arbitrary: p)
  case (Cons r rs)
  then have "map le_SegmentSeq rs = map (\<lambda>k. next_ordinal (Some r) + int k) [0..<length rs]" "le_SegmentSeq r = next_ordinal p"
    by (simp_all add: row_ok_def row_shape_def)
  moreover have "[0..<length (r # rs)] = 0 # map Suc [0..<length rs]"
    by (simp add: map_Suc_upt upt_conv_Cons del: upt_Suc)
  ultimately show ?case
    by (auto simp: next_ordinal_def simp del: upt_Suc)
qed simp

lemma rows_ok_nth: "rows_ok sha x tenant st p rs \<Longrightarrow> k < length rs \<Longrightarrow> le_SegmentSeq (rs ! k) = next_ordinal p + int k"
  using arg_cong [OF rows_ok_ordinals, of sha x tenant st p rs "\<lambda>l. l ! k"] by simp

lemma rows_before:
  assumes "rows_ok sha x tenant st p (rs @ [r])" "q \<in> set rs"
  shows "le_FromSeq q < le_FromSeq r"
  using assms
proof (induction rs arbitrary: p)
  case (Cons s rs)
  show ?case
  proof (cases "q = s")
    case True
    have "next_seq (Some s) \<le> le_FromSeq r" using Cons.prems rows_ok_from [of sha x tenant st "Some s" "rs @ [r]" r] by simp
    moreover have "le_FromSeq s \<le> le_ToSeq s" using Cons.prems by (simp add: row_ok_def row_shape_def)
    ultimately show ?thesis using True by (simp add: next_seq_def)
  next
    case False
    with Cons.prems Cons.IH [of "Some s"] show ?thesis by simp
  qed
qed simp

section \<open>Keys\<close>

lemma fmt_0d_digits: "0 \<le> i \<Longrightarrow> list_all is_digit (fmt_0d w i)"
  by (simp add: fmt_0d_nonneg pad0_digits nat_text_digits)

lemma dec_val_fmt_0d: "0 \<le> i \<Longrightarrow> dec_val (fmt_0d w i) = i"
  by (simp add: fmt_0d_nonneg)

lemma objectKey_inj:
  assumes "objectKey x t a b = objectKey x t a' b'" "0 \<le> a" "0 \<le> a'"
  shows "a = a'"
proof -
  have run: "takeWhile is_digit (fmt_0d 12 i @ CHR ''-'' # s) = fmt_0d 12 i" if "0 \<le> i" for i s
  proof -
    have "takeWhile is_digit (ds @ CHR ''-'' # s) = ds" if "list_all is_digit ds" for ds
      using that by (induction ds) (simp_all add: is_digit_def)
    with fmt_0d_digits [OF that] show ?thesis by simp
  qed
  have "fmt_0d 12 a @ CHR ''-'' # (fmt_0d 12 b @ ''.json'') = fmt_0d 12 a' @ CHR ''-'' # (fmt_0d 12 b' @ ''.json'')" (is "?l = ?r")
    using assms(1) unfolding objectKey_def by (simp only: same_append_eq append.simps append_assoc list.inject simp_thms)
  then have "takeWhile is_digit ?l = takeWhile is_digit ?r" by (rule arg_cong)
  then have "fmt_0d 12 a = fmt_0d 12 a'"
    by (rule box_equals [OF _ run [OF assms(2)] run [OF assms(3)]])
  then have "dec_val (fmt_0d 12 a) = dec_val (fmt_0d 12 a')" by (rule arg_cong)
  then show ?thesis unfolding dec_val_fmt_0d [OF assms(2)] dec_val_fmt_0d [OF assms(3)] .
qed

lemma rows_keys:
  assumes "rows_ok sha x tenant st p (rs @ [r])" "q \<in> set rs"
  shows "le_ObjectKey q \<noteq> le_ObjectKey r"
proof
  assume eq: "le_ObjectKey q = le_ObjectKey r"
  have key: "le_ObjectKey s = objectKey x tenant (le_FromSeq s) (le_ToSeq s)" if "rows_ok sha x tenant st p' rs'" "s \<in> set rs'" for p' rs' s
    using that
  proof (induction rs' arbitrary: p')
    case (Cons z rs')
    show ?case
    proof (cases "s = z")
      case True
      with Cons.prems(1) show ?thesis by (simp add: row_ok_def [of sha x tenant st p' z] row_shape_def)
    next
      case False
      with Cons.prems Cons.IH [of "Some z"] show ?thesis by simp
    qed
  qed simp
  have "le_ObjectKey q = objectKey x tenant (le_FromSeq q) (le_ToSeq q)" "le_ObjectKey r = objectKey x tenant (le_FromSeq r) (le_ToSeq r)"
    using key [OF assms(1), of q] key [OF assms(1), of r] assms(2) by simp_all
  with eq have "objectKey x tenant (le_FromSeq q) (le_ToSeq q) = objectKey x tenant (le_FromSeq r) (le_ToSeq r)" by metis
  moreover have "0 \<le> le_FromSeq q" "0 \<le> le_FromSeq r"
    using rows_ok_from [OF assms(1), of q] rows_ok_from [OF assms(1), of r] assms(2) by auto
  ultimately show False
    using objectKey_inj rows_before [OF assms] by fastforce
qed

section \<open>The invariant\<close>

definition is_record :: "audit_entry \<Rightarrow> bool" where
  "is_record e \<longleftrightarrow> ae_Action e = AuditAction \<and> ae_ResourceType e = AuditResource"

definition chain_ok :: "(string \<Rightarrow> string) \<Rightarrow> string \<Rightarrow> audit_entry list \<Rightarrow> bool" where
  "chain_ok sha tenant chain \<longleftrightarrow>
     linked 0 GenesisHash chain \<and> list_all (recomputes sha) (dropWhile pre_cutover chain) \<and>
     list_all (\<lambda>e. ae_TenantID e = tenant \<and> ae_Hash e \<noteq> [] \<and> ae_Hash e \<noteq> GenesisHash) chain"

definition archive_inv :: "(string \<Rightarrow> string) \<Rightarrow> exporter \<Rightarrow> string \<Rightarrow> export_state \<Rightarrow> bool" where
  "archive_inv sha x tenant st \<longleftrightarrow>
     chain_ok sha tenant (es_chain st) \<and> rows_ok sha x tenant st None (es_ledger st) \<and>
     map ae_Details (filter is_record (es_chain st)) = map details_Map (rows_details (es_chain st) None (es_ledger st))"

definition good_sha :: "(string \<Rightarrow> string) \<Rightarrow> bool" where
  "good_sha sha \<longleftrightarrow> (\<forall>s. sha s \<noteq> [] \<and> sha s \<noteq> GenesisHash)"

lemma audit_Record_entry:
  assumes "audit_Record sha ctx action rt rid details chain = Inr chain'"
  obtains e where "chain' = chain @ [e]" "ae_Hash e = ComputeHash sha e" "ae_HashVersion e = CurrentHashVersion"
    "ae_PrevHash e = (if chain = [] then GenesisHash else ae_Hash (last chain))"
    "ae_Seq e = (if chain = [] then 1 else ae_Seq (last chain) + 1)"
    "ae_Action e = action" "ae_ResourceType e = rt" "ae_Details e = canonicalDetails details" "ae_TenantID e = ac_Tenant ctx"
    "ae_OccurredAt e = truncate_micro (ac_Now ctx)"
  by (rule that [of "last chain'"])
    (use assms in \<open>auto simp: audit_Record_def ComputeHash_def hash_fields_def Let_def split: if_splits option.splits prod.splits\<close>)

lemma chain_ok_record:
  assumes "chain_ok sha tenant chain" "good_sha sha" "chain' = chain @ [e]" "ae_Hash e = ComputeHash sha e" "ae_HashVersion e = CurrentHashVersion"
    "ae_PrevHash e = (if chain = [] then GenesisHash else ae_Hash (last chain))"
    "ae_Seq e = (if chain = [] then 1 else ae_Seq (last chain) + 1)" "ae_TenantID e = tenant"
  shows "chain_ok sha tenant chain'" "\<not> pre_cutover e"
proof -
  show np: "\<not> pre_cutover e" using assms(5) by (simp add: IsPreCutover_def CurrentHashVersion_def)
  then have "recomputes sha e" using assms(4,5) by (simp add: recomputes_def)
  moreover have "linked 0 GenesisHash chain" using assms(1) by (simp add: chain_ok_def)
  then have "ae_Seq e = int (length chain) + 1" using assms(7) linked_last_seq [of 0 GenesisHash chain] by auto
  moreover have "ae_Hash e \<noteq> [] \<and> ae_Hash e \<noteq> GenesisHash" using assms(2,4) by (simp add: good_sha_def ComputeHash_def)
  ultimately show "chain_ok sha tenant chain'"
    using assms(1,6,8) np by (simp add: chain_ok_def assms(3) linked_append dropWhile_append)
qed

lemma archive_record:
  assumes inv: "archive_inv sha x tenant st" and good: "good_sha sha"
    and rec: "audit_Record sha ctx action rt rid details (es_chain st) = Inr chain'" and tenant: "ac_Tenant ctx = tenant"
    and foreign: "\<not> (action = AuditAction \<and> rt = AuditResource)"
  shows "archive_inv sha x tenant (st\<lparr>es_chain := chain'\<rparr>)"
proof -
  from rec obtain e where e: "chain' = es_chain st @ [e]" "ae_Hash e = ComputeHash sha e" "ae_HashVersion e = CurrentHashVersion"
    "ae_PrevHash e = (if es_chain st = [] then GenesisHash else ae_Hash (last (es_chain st)))"
    "ae_Seq e = (if es_chain st = [] then 1 else ae_Seq (last (es_chain st)) + 1)"
    "ae_Action e = action" "ae_ResourceType e = rt" "ae_TenantID e = tenant"
    using tenant by (auto elim: audit_Record_entry)
  have ok: "chain_ok sha tenant (es_chain st)" using inv by (simp add: archive_inv_def)
  note c = chain_ok_record [OF ok good e(1-5,8)]
  have "rows_ok sha x tenant (st\<lparr>es_chain := chain'\<rparr>) None (es_ledger st)"
    by (rule rows_ok_grow [where new = "[e]"]) (use inv e(1) in \<open>simp_all add: archive_inv_def\<close>)
  moreover have "\<not> is_record e" using foreign e(6,7) by (simp add: is_record_def)
  ultimately show ?thesis
    using inv c by (simp add: archive_inv_def e(1) row_details_snoc)
qed

section \<open>Steps of the exporter\<close>

lemma Build_Inr:
  assumes "Build sha rcp b = Inr bu"
  shows "bi_Entries b \<noteq> [] \<and> (\<exists>rep. VerifyDocument sha (build_document rcp b) = Inr rep) \<and>
    bu = (let body = segment_text (build_document rcp b)
      in \<lparr>bu_File = \<lparr>fi_Segment = body, fi_Digest = digestPrefix @ sha body\<rparr>, bu_Digest = sha body, bu_Document = build_document rcp b\<rparr>)"
  using assms by (auto simp: Build_def Let_def split: if_splits option.splits sum.splits)

lemma LastLanded_rows:
  assumes "rows_ok sha x tenant st None rows" "store_Pending rows = None"
  shows "LastLanded rows = last_opt None rows"
proof -
  have "filter (\<lambda>r. \<not> pending r) rows = rows"
    using assms(2) by (auto simp: store_Pending_def find_None_iff filter_id_conv)
  moreover have "sorted (map le_SegmentSeq rows)"
    unfolding rows_ok_ordinals [OF assms(1)] by (simp add: sorted_iff_nth_mono)
  ultimately show ?thesis
    by (simp add: LastLanded_def last_opt_def sort_key_id_if_sorted)
qed

lemma store_Pending_last:
  assumes "rows_ok sha x tenant st p rows" "store_Pending rows = Some row"
  obtains rs where "rows = rs @ [row]" "list_all (\<lambda>q. \<not> pending q) rs" "pending row"
proof -
  have p: "row \<in> set rows" "pending row"
    using assms(2) by (auto simp: store_Pending_def find_Some_iff)
  then have "rows \<noteq> []" by auto
  then obtain rs r where rs: "rows = rs @ [r]" by (metis rev_exhaust)
  with assms(1) have l: "list_all (\<lambda>q. \<not> pending q) rs" by (simp add: rows_ok_snoc)
  with p rs have "r = row" by (auto simp: list_all_iff)
  with rs l p that show thesis by blast
qed

lemma last_slice:
  assumes "1 \<le> a" "a \<le> b" "b \<le> int (length chain)"
  shows "slice a b chain \<noteq> []" "last (slice a b chain) = chain ! nat (b - 1)" "hd (slice a b chain) = chain ! nat (a - 1)"
proof -
  have l: "length (slice a b chain) = nat (b - a + 1)" using assms by (simp add: length_slice)
  then show ne: "slice a b chain \<noteq> []" using assms by auto
  have i: "nat (a - 1) + (nat (b - a + 1) - 1) = nat (b - 1)" using assms by linarith
  have "slice a b chain ! k = chain ! (nat (a - 1) + k)" if "k < nat (b - a + 1)" for k
    using that assms by (simp add: slice_def)
  from this [of "nat (b - a + 1) - 1"] this [of 0] ne l i assms
  show "last (slice a b chain) = chain ! nat (b - 1)" "hd (slice a b chain) = chain ! nat (a - 1)"
    by (simp_all add: last_conv_nth hd_conv_nth)
qed

lemma objects_row_ok:
  assumes "rows_ok sha x tenant st p (rs @ [r])" "q \<in> set rs"
  shows "((es_objects st)(le_ObjectKey r \<mapsto> f)) (le_ObjectKey q) = es_objects st (le_ObjectKey q)"
  using rows_keys [OF assms] by simp

lemma row_ok_status:
  assumes "row_ok sha x tenant st p r" "es_chain st' = es_chain st"
  shows "row_ok sha x tenant st' p (r\<lparr>le_Status := s, le_Attempts := n\<rparr>) \<longleftrightarrow>
    (s = SegPending \<or> es_objects st' (le_ObjectKey r) = Some (row_file sha x (es_chain st') p r))"
proof -
  have "row_doc x c p (r\<lparr>le_Status := s, le_Attempts := n\<rparr>) = row_doc x c p r" for c
    by (simp add: row_doc_def row_input_def)
  moreover from this have "row_file sha x c p (r\<lparr>le_Status := s, le_Attempts := n\<rparr>) = row_file sha x c p r" for c
    by (simp add: row_file_def)
  moreover have "pending (r\<lparr>le_Status := s, le_Attempts := n\<rparr>) \<longleftrightarrow> s = SegPending" by (simp add: pending_def)
  ultimately show ?thesis
    using assms unfolding row_ok_def row_shape_def by (elim conjE, cases s) simp_all
qed

lemma row_details_status [simp]: "row_details chain p (r\<lparr>le_Status := s, le_Attempts := n\<rparr>) = row_details chain p r"
  by (simp add: row_details_def)

text \<open>The last row is written again with another status; its object may be written.\<close>

lemma archive_last_row:
  assumes inv: "archive_inv sha x tenant st" and rows: "es_ledger st = rs @ [r]"
    and st': "st' = st\<lparr>es_ledger := rs @ [r\<lparr>le_Status := s, le_Attempts := n\<rparr>], es_objects := objs\<rparr>"
    and objs: "objs = es_objects st \<or> objs = (es_objects st)(le_ObjectKey r \<mapsto> row_file sha x (es_chain st) (last_opt None rs) r)"
    and s: "s = SegPending \<or> objs = (es_objects st)(le_ObjectKey r \<mapsto> row_file sha x (es_chain st) (last_opt None rs) r)"
  shows "archive_inv sha x tenant st'"
proof -
  have ok: "rows_ok sha x tenant st None (rs @ [r])" using inv rows by (simp add: archive_inv_def)
  then have snoc: "rows_ok sha x tenant st None rs" "list_all (\<lambda>q. \<not> pending q) rs" "row_ok sha x tenant st (last_opt None rs) r"
    by (simp_all add: rows_ok_snoc)
  have chain: "es_chain st' = es_chain st" by (simp add: st')
  have "rows_ok sha x tenant st' None rs"
    by (rule rows_ok_grow [OF snoc(1), where new = "[]"]) (use objs rows_keys [OF ok] in \<open>auto simp: st'\<close>)
  moreover have "row_ok sha x tenant st' (last_opt None rs) (r\<lparr>le_Status := s, le_Attempts := n\<rparr>)"
    unfolding row_ok_status [OF snoc(3) chain] using s by (auto simp: st')
  ultimately have "rows_ok sha x tenant st' None (es_ledger st')"
    using snoc(2) by (simp add: rows_ok_snoc st')
  moreover have "rows_details (es_chain st') None (es_ledger st') = rows_details (es_chain st) None (es_ledger st)"
    by (simp add: st' rows rows_details_snoc)
  ultimately show ?thesis
    using inv by (simp add: archive_inv_def chain)
qed

lemma map_last_pending:
  assumes "list_all (\<lambda>q. \<not> pending q) rs" "pending r"
  shows "Confirm (le_ID r) (rs @ [r]) = rs @ [r\<lparr>le_Status := SegUploaded, le_Attempts := le_Attempts r\<rparr>]"
    "store_Fail (le_ID r) (rs @ [r]) = rs @ [r\<lparr>le_Status := SegPending, le_Attempts := le_Attempts r + 1\<rparr>]"
proof -
  have "map (\<lambda>q. if le_ID q = le_ID r \<and> pending q then f q else q) rs = rs" for f
    using assms(1) by (induction rs) auto
  moreover have "r\<lparr>le_Attempts := le_Attempts r + 1\<rparr> = r\<lparr>le_Status := SegPending, le_Attempts := le_Attempts r + 1\<rparr>"
    using assms(2) by (cases r) (simp add: pending_def)
  ultimately show "Confirm (le_ID r) (rs @ [r]) = rs @ [r\<lparr>le_Status := SegUploaded, le_Attempts := le_Attempts r\<rparr>]"
    "store_Fail (le_ID r) (rs @ [r]) = rs @ [r\<lparr>le_Status := SegPending, le_Attempts := le_Attempts r + 1\<rparr>]"
    using assms(2) by (simp_all add: Confirm_def store_Fail_def)
qed

lemma archive_upload:
  assumes inv: "archive_inv sha x tenant st" and rows: "es_ledger st = rs @ [r]" and pend: "pending r"
    and bytes: "bu_File bu = row_file sha x (es_chain st) (last_opt None rs) r"
  shows "archive_inv sha x tenant (fst (upload_segment v r bu st))"
proof -
  have ok: "list_all (\<lambda>q. \<not> pending q) rs" using inv rows by (simp add: archive_inv_def rows_ok_snoc)
  have same: "r = r\<lparr>le_Status := SegPending, le_Attempts := le_Attempts r\<rparr>" using pend by (cases r) (simp add: pending_def)
  note m = map_last_pending [OF ok pend]
  let ?objs = "(es_objects st)(le_ObjectKey r \<mapsto> bu_File bu)"
  note go = archive_last_row [OF inv rows refl, unfolded bytes [symmetric]]
  show ?thesis
  proof (cases "sv_Put v")
    case PutOk
    show ?thesis
    proof (cases "sv_ConfirmOk v")
      case True
      then have "fst (upload_segment v r bu st) =
          st\<lparr>es_ledger := rs @ [r\<lparr>le_Status := SegUploaded, le_Attempts := le_Attempts r\<rparr>], es_objects := ?objs\<rparr>"
        by (simp add: upload_segment_def PutOk rows m)
      then show ?thesis by (simp only:) (rule go; simp)
    next
      case False
      then have "fst (upload_segment v r bu st) = st\<lparr>es_ledger := rs @ [r\<lparr>le_Status := SegPending, le_Attempts := le_Attempts r\<rparr>], es_objects := ?objs\<rparr>"
        using rows by (simp add: upload_segment_def PutOk same [symmetric])
      then show ?thesis by (simp only:) (rule go; simp)
    qed
  next
    case (PutFails there)
    let ?o = "if there then ?objs else es_objects st"
    have "fst (upload_segment v r bu st) =
        st\<lparr>es_ledger := rs @ [r\<lparr>le_Status := SegPending, le_Attempts := (if sv_CountOk v then le_Attempts r + 1 else le_Attempts r)\<rparr>], es_objects := ?o\<rparr>"
      using rows by (simp add: upload_segment_def PutFails m same [symmetric])
    then show ?thesis by (simp add: go)
  qed
qed

lemma find_append_None: "find P xs = None \<Longrightarrow> find P (xs @ ys) = find P ys"
  by (induction xs) (auto split: if_splits)

lemma store_Before_last:
  assumes inv: "archive_inv sha x tenant st" and rows: "es_ledger st = rs @ [r]"
  shows "store_Before (le_SegmentSeq r) (es_ledger st) = last_opt None rs"
proof -
  have ok: "rows_ok sha x tenant st None (rs @ [r])"
    using inv rows by (simp add: archive_inv_def)
  then have r: "row_ok sha x tenant st (last_opt None rs) r" by (simp add: rows_ok_snoc)
  show ?thesis
  proof (cases rs rule: rev_cases)
    case Nil
    with r show ?thesis by (simp add: store_Before_def row_ok_def row_shape_def next_ordinal_def)
  next
    case (snoc qs q)
    note nth = rows_ok_nth [OF ok, unfolded next_ordinal_def option.case snoc]
    have q: "le_SegmentSeq q = int (length qs) + 1" "le_SegmentSeq r = int (length qs) + 2"
      using nth [of "length qs"] nth [of "Suc (length qs)"] by (simp_all add: nth_append)
    have "le_SegmentSeq s < int (length qs) + 1" if s: "s \<in> set qs" for s
    proof -
      from s obtain k where "k < length qs" "qs ! k = s" by (auto simp: in_set_conv_nth)
      with nth [of k] show ?thesis by (simp add: nth_append)
    qed
    then have "find (\<lambda>s. le_SegmentSeq s = 1 + int (length qs)) qs = None"
      by (fastforce simp: find_None_iff)
    then show ?thesis
      using q by (simp add: store_Before_def rows snoc find_append_None)
  qed
qed

lemma rebuild_pending:
  assumes inv: "archive_inv sha x tenant st" and rows: "es_ledger st = rs @ [r]" and reb: "rebuild sha x tenant r st = Inr (st1, b)"
  shows "st1 = st" "bu_File b = row_file sha x (es_chain st) (last_opt None rs) r"
proof -
  have ok: "rows_ok sha x tenant st None (rs @ [r])" and l: "linked 0 GenesisHash (es_chain st)"
    using inv rows by (simp_all add: archive_inv_def chain_ok_def)
  then have r: "row_ok sha x tenant st (last_opt None rs) r" by (simp add: rows_ok_snoc)
  have "store_Before (le_SegmentSeq r) (es_ledger st) = last_opt None rs" by (rule store_Before_last [OF inv rows])
  then have doc: "build_document (ex_recipe x)
       \<lparr>bi_SegmentID = le_ID r, bi_SegmentSeq = le_SegmentSeq r, bi_TenantID = tenant, bi_ExportedAt = le_ExportedAt r,
        bi_StartPrevHash = le_StartPrevHash r, bi_Entries = slice (le_FromSeq r) (le_ToSeq r) (es_chain st),
        bi_Previous = previousOf (store_Before (le_SegmentSeq r) (es_ledger st))\<rparr> = row_doc x (es_chain st) (last_opt None rs) r"
    using r by (simp add: row_doc_def row_input_def row_ok_def row_shape_def)
  have v: "le_FormatVersion r = FormatVersion" "1 \<le> le_FromSeq r" using r by (simp_all add: row_ok_def row_shape_def)
  define input where "input entries = \<lparr>bi_SegmentID = le_ID r, bi_SegmentSeq = le_SegmentSeq r, bi_TenantID = tenant, bi_ExportedAt = le_ExportedAt r,
        bi_StartPrevHash = le_StartPrevHash r, bi_Entries = entries,
        bi_Previous = previousOf (store_Before (le_SegmentSeq r) (es_ledger st))\<rparr>" for entries
  from reb [unfolded rebuild_def, folded input_def] obtain entries bu where parts: "LoadRange tenant (le_FromSeq r) (le_ToSeq r) (es_chain st) = Inr entries"
    "Build sha (ex_recipe x) (input entries) = Inr bu" and same: "st1 = st" "b = bu"
    using v(1) by (auto simp: andthen_Inr split: if_splits)
  have entries: "entries = slice (le_FromSeq r) (le_ToSeq r) (es_chain st)"
    using parts(1) unfolding LoadRange_Inr [OF l v(2)] by simp
  have "bu_File bu = row_file sha x (es_chain st) (last_opt None rs) r"
    using Build_Inr [OF parts(2)] doc by (simp add: row_file_def Let_def input_def entries)
  with same show "st1 = st" "bu_File b = row_file sha x (es_chain st) (last_opt None rs) r"
    by simp_all
qed

text \<open>What a cut leaves: the chain with its record, and one more row for it.\<close>

lemma cut_row:
  assumes inv: "archive_inv sha x tenant st" and good: "good_sha sha" and none: "store_Pending (es_ledger st) = None"
    and cut: "cut sha x tenant v st = Inr (st1, Some (row, bu))" and cap: "1 \<le> ws_MaxEntriesPerSegment (ex_settings x)"
  shows "archive_inv sha x tenant st1" "es_ledger st1 = es_ledger st @ [row]" "pending row"
    "bu_File bu = row_file sha x (es_chain st1) (last_opt None (es_ledger st)) row"
    "le_ToSeq row = min (int (length (es_chain st)) + 1) (next_seq (last_opt None (es_ledger st)) + ws_MaxEntriesPerSegment (ex_settings x) - 1)"
    "length (es_chain st1) = Suc (length (es_chain st))" "next_seq (last_opt None (es_ledger st)) \<le> int (length (es_chain st))"
proof -
  define p where "p = last_opt None (es_ledger st)"
  define from1 where "from1 = next_seq p"
  define to1 where "to1 = min (int (length (es_chain st)) + 1) (from1 + ws_MaxEntriesPerSegment (ex_settings x) - 1)"
  have ok: "rows_ok sha x tenant st None (es_ledger st)" and chain: "chain_ok sha tenant (es_chain st)"
    using inv by (simp_all add: archive_inv_def)
  then have linked: "linked 0 GenesisHash (es_chain st)" by (simp add: chain_ok_def)
  have p: "LastLanded (es_ledger st) = p" by (simp add: p_def LastLanded_rows [OF ok none])
  have case_p: "(case p of None \<Rightarrow> 1 | Some l \<Rightarrow> le_ToSeq l + 1) = from1" "(case p of None \<Rightarrow> GenesisHash | Some l \<Rightarrow> le_EndHash l) = next_hash p"
    "(case p of None \<Rightarrow> 1 | Some l \<Rightarrow> le_SegmentSeq l + 1) = next_ordinal p"
    by (simp_all add: from1_def next_seq_def next_hash_def next_ordinal_def)
  define details where "details = \<lparr>rd_SegmentSeq = next_ordinal p, rd_SegmentID = sv_ID v, rd_FromSeq = from1, rd_ToSeq = to1,
      rd_Entries = to1 - from1 + 1, rd_ObjectKey = objectKey x tenant from1 to1, rd_ExportedAt = FormatInstant (truncate_micro (sv_Now v)),
      rd_PreviousDigest = previous_digest p, rd_PreCutoverThroughSeq = PreCutoverThrough from1 to1 (es_chain st), rd_FormatVersion = FormatVersion\<rparr>"
  have from1: "1 \<le> from1"
  proof (cases p)
    case (Some l)
    then have "l \<in> set (es_ledger st)" by (auto simp: p_def last_opt_def split: if_splits)
    from rows_ok_from [OF ok this] Some show ?thesis by (simp add: from1_def next_seq_def)
  qed (simp add: from1_def next_seq_def)
  note c = cut [unfolded cut_def p Let_def case_p ChainHead_linked [OF linked] to1_def [symmetric] previous_digest_def [symmetric] details_def [symmetric]]
  from c have le: "from1 \<le> int (length (es_chain st))" by (auto split: if_splits)
  then have to1: "from1 \<le> to1" "to1 \<le> int (length (es_chain st)) + 1" using cap by (simp_all add: to1_def)
  from c le obtain chain' where chain': "audit_Record sha (tenantContext x tenant v) ''audit.exported'' ''tenant'' tenant (Some (details_Map details)) (es_chain st) = Inr chain'"
    and rest: "andthen (LoadRange tenant from1 to1 chain') (\<lambda>entries. andthen (Build sha (ex_recipe x)
        \<lparr>bi_SegmentID = sv_ID v, bi_SegmentSeq = next_ordinal p, bi_TenantID = tenant, bi_ExportedAt = truncate_micro (sv_Now v),
         bi_StartPrevHash = next_hash p, bi_Entries = entries, bi_Previous = previousOf p\<rparr>) (\<lambda>bu.
      andthen (Claim \<lparr>le_ID = sv_ID v, le_TenantID = tenant, le_SegmentSeq = next_ordinal p, le_FromSeq = from1, le_ToSeq = to1,
            le_Entries = int (length entries), le_StartPrevHash = next_hash p, le_EndHash = cn_EndHash (do_Chain (bu_Document bu)),
            le_ObjectKey = objectKey x tenant from1 to1, le_FormatVersion = FormatVersion, le_Digest = bu_Digest bu,
            le_SizeBytes = int (length (file_text (bu_File bu))), le_ExportedAt = truncate_micro (sv_Now v), le_Status = SegPending, le_Attempts = 0\<rparr>
          (es_ledger st)) (\<lambda>rows.
        if \<not> sv_CutOk v then Inl (text_msg ''commit'') else Inr (st\<lparr>es_chain := chain', es_ledger := rows\<rparr>,
          Some (\<lparr>le_ID = sv_ID v, le_TenantID = tenant, le_SegmentSeq = next_ordinal p, le_FromSeq = from1, le_ToSeq = to1,
            le_Entries = int (length entries), le_StartPrevHash = next_hash p, le_EndHash = cn_EndHash (do_Chain (bu_Document bu)),
            le_ObjectKey = objectKey x tenant from1 to1, le_FormatVersion = FormatVersion, le_Digest = bu_Digest bu,
            le_SizeBytes = int (length (file_text (bu_File bu))), le_ExportedAt = truncate_micro (sv_Now v), le_Status = SegPending, le_Attempts = 0\<rparr>, bu))))) =
      Inr (st1, Some (row, bu))"
    by (auto simp: andthen_Inr split: if_splits)
  from chain' obtain e where e: "chain' = es_chain st @ [e]" "ae_Hash e = ComputeHash sha e" "ae_HashVersion e = CurrentHashVersion"
    "ae_PrevHash e = (if es_chain st = [] then GenesisHash else ae_Hash (last (es_chain st)))"
    "ae_Seq e = (if es_chain st = [] then 1 else ae_Seq (last (es_chain st)) + 1)"
    "ae_Action e = AuditAction" "ae_ResourceType e = AuditResource" "ae_Details e = details_Map details" "ae_TenantID e = tenant"
    by (rule audit_Record_entry) (simp_all add: AuditAction_def AuditResource_def canonicalDetails_def tenantContext_def)
  note c' = chain_ok_record [OF chain good e(1-5,9)]
  then have linked': "linked 0 GenesisHash chain'" by (simp add: chain_ok_def)
  define input where "input = \<lparr>bi_SegmentID = sv_ID v, bi_SegmentSeq = next_ordinal p, bi_TenantID = tenant, bi_ExportedAt = truncate_micro (sv_Now v),
         bi_StartPrevHash = next_hash p, bi_Entries = slice from1 to1 chain', bi_Previous = previousOf p\<rparr>"
  have to1': "to1 \<le> int (length chain')" using to1 by (simp add: e(1))
  have len: "int (length (slice from1 to1 chain')) = to1 - from1 + 1"
    using length_slice [OF from1 to1'] to1 by simp
  define mk where "mk n bu = \<lparr>le_ID = sv_ID v, le_TenantID = tenant, le_SegmentSeq = next_ordinal p, le_FromSeq = from1, le_ToSeq = to1,
            le_Entries = n, le_StartPrevHash = next_hash p, le_EndHash = cn_EndHash (do_Chain (bu_Document bu)),
            le_ObjectKey = objectKey x tenant from1 to1, le_FormatVersion = FormatVersion, le_Digest = bu_Digest bu,
            le_SizeBytes = int (length (file_text (bu_File bu))), le_ExportedAt = truncate_micro (sv_Now v), le_Status = SegPending, le_Attempts = 0\<rparr>"
    for n and bu :: built
  from rest [folded mk_def] obtain entries bu' rows where parts: "LoadRange tenant from1 to1 chain' = Inr entries"
    "Build sha (ex_recipe x) \<lparr>bi_SegmentID = sv_ID v, bi_SegmentSeq = next_ordinal p, bi_TenantID = tenant, bi_ExportedAt = truncate_micro (sv_Now v),
         bi_StartPrevHash = next_hash p, bi_Entries = entries, bi_Previous = previousOf p\<rparr> = Inr bu'"
    "Claim (mk (int (length entries)) bu') (es_ledger st) = Inr rows"
    and final: "(if \<not> sv_CutOk v then Inl (text_msg ''commit'') else Inr (st\<lparr>es_chain := chain', es_ledger := rows\<rparr>, Some (mk (int (length entries)) bu', bu'))) =
      Inr (st1, Some (row, bu))"
    unfolding andthen_Inr by (elim exE conjE)
  have entries: "entries = slice from1 to1 chain'"
    using parts(1) unfolding LoadRange_Inr [OF linked' from1] by simp
  have same: "bu' = bu" "st1 = st\<lparr>es_chain := chain', es_ledger := rows\<rparr>" "row = mk (int (length entries)) bu"
    using final by (auto split: if_splits)
  have build: "Build sha (ex_recipe x) input = Inr bu"
    using parts(2) by (simp only: input_def entries same(1))
  have claim: "Claim row (es_ledger st) = Inr rows" using parts(3) by (simp only: same(1,3))
  note st1 = same(2) and row = same(3) [unfolded entries len mk_def]
  note b = Build_Inr [OF build]
  have input': "row_input chain' p row = input" by (simp add: row_input_def input_def row)
  then have doc: "row_doc x chain' p row = build_document (ex_recipe x) input" by (simp add: row_doc_def)
  have bu: "bu_Document bu = row_doc x chain' p row" "bu_Digest bu = sha (segment_text (row_doc x chain' p row))"
    "bu_File bu = row_file sha x chain' p row"
    using b by (simp_all add: doc row_file_def Let_def)
  have rows: "rows = es_ledger st @ [row]"
    using claim by (auto simp: Claim_def row split: if_splits)
  show "es_ledger st1 = es_ledger st @ [row]" "pending row" by (simp_all add: st1 rows) (simp add: row pending_def)
  show "bu_File bu = row_file sha x (es_chain st1) (last_opt None (es_ledger st)) row" by (simp add: st1 bu p_def)
  show "le_ToSeq row = min (int (length (es_chain st)) + 1) (next_seq (last_opt None (es_ledger st)) + ws_MaxEntriesPerSegment (ex_settings x) - 1)"
    by (simp add: row to1_def from1_def p_def)
  show "length (es_chain st1) = Suc (length (es_chain st))" by (simp add: st1 e(1))
  show "next_seq (last_opt None (es_ledger st)) \<le> int (length (es_chain st))" using le by (simp add: from1_def p_def)
  have "le_EndHash row = cn_EndHash (do_Chain (bu_Document bu))" by (simp add: row)
  also have "\<dots> = ae_Hash (last (slice from1 to1 chain'))"
    unfolding bu(1) doc using last_slice(1) [OF from1 to1(1) to1'] by (simp add: build_document_def input_def Let_def last_map)
  finally have "le_EndHash row = ae_Hash (last (slice from1 to1 chain'))" .
  then have hash: "le_EndHash row = ae_Hash (chain' ! nat (to1 - 1))"
    using last_slice(2) [OF from1 to1(1) to1'] by simp
  have "row_ok sha x tenant st1 p row"
  proof -
    have f: "le_TenantID row = tenant" "le_SegmentSeq row = next_ordinal p" "le_FromSeq row = from1" "le_ToSeq row = to1"
      "le_StartPrevHash row = next_hash p" "le_Entries row = to1 - from1 + 1" "le_ObjectKey row = objectKey x tenant from1 to1"
      "le_FormatVersion row = FormatVersion" "le_Digest row = bu_Digest bu" "pending row" "es_chain st1 = chain'"
      by (simp_all add: row pending_def st1)
    show ?thesis
      unfolding row_ok_def row_shape_def f hash using from1 to1 to1' b \<open>pending row\<close> unfolding bu doc by (intro conjI) (simp_all add: from1_def)
  qed
  moreover have "rows_ok sha x tenant st1 None (es_ledger st)"
    by (rule rows_ok_grow [OF ok, where new = "[e]"]) (simp_all add: st1 e(1))
  moreover have "list_all (\<lambda>q. \<not> pending q) (es_ledger st)"
    using none by (auto simp: store_Pending_def find_None_iff list_all_iff)
  ultimately have "rows_ok sha x tenant st1 None (es_ledger st1)"
    by (simp add: st1 rows rows_ok_snoc p_def)
  moreover have "row_details chain' p row = details"
    by (simp add: row_details_def row details_def e(1) PreCutoverThrough_snoc [OF c'(2)])
  then have "map ae_Details (filter is_record chain') = map details_Map (rows_details chain' None (es_ledger st @ [row]))"
    using inv e(6-8) by (simp add: archive_inv_def e(1) is_record_def rows_details_snoc row_details_snoc [OF c'(2)] p_def)
  ultimately show "archive_inv sha x tenant st1"
    using c'(1) by (simp add: archive_inv_def st1 rows)
qed

lemma archive_step:
  assumes inv: "archive_inv sha x tenant st" and good: "good_sha sha" and cap: "1 \<le> ws_MaxEntriesPerSegment (ex_settings x)"
  shows "archive_inv sha x tenant (fst (worm_step sha x tenant v st rep))"
proof (cases "sv_ReadOk v")
  case False
  with inv show ?thesis by (simp add: worm_step_def)
next
  case read: True
  show ?thesis
  proof (cases "store_Pending (es_ledger st)")
    case (Some row)
    with inv obtain rs where rs: "es_ledger st = rs @ [row]" "list_all (\<lambda>q. \<not> pending q) rs" "pending row"
      by (auto simp: archive_inv_def elim: store_Pending_last)
    have "archive_inv sha x tenant (fst (finish sha x tenant v row None st))"
    proof (cases "if sv_RebuildOk v then rebuild sha x tenant row st else Inl (text_msg ''worm: load chain range'')")
      case (Inl m)
      with inv show ?thesis by (simp add: finish_def)
    next
      case (Inr y)
      obtain st1 b where y: "y = (st1, b)" by (cases y)
      with Inr have "rebuild sha x tenant row st = Inr (st1, b)" by (auto split: if_splits)
      note r = rebuild_pending [OF inv rs(1) this]
      show ?thesis
        using archive_upload [OF inv rs(1,3) r(2)] Inr by (simp add: finish_def y r(1))
    qed
    then show ?thesis
      by (auto simp: worm_step_def read Some split: prod.split sum.split)
  next
    case None
    show ?thesis
    proof (cases "cut sha x tenant v st")
      case (Inl m)
      with inv show ?thesis by (simp add: worm_step_def read None)
    next
      case (Inr y)
      obtain st1 o1 where y: "y = (st1, o1)" by (cases y)
      show ?thesis
      proof (cases o1)
        case None': None
        have "st1 = st" using Inr by (auto simp: cut_def y None' Let_def andthen_Inr split: if_splits)
        with inv show ?thesis by (simp add: worm_step_def read None Inr y None')
      next
        case o1: (Some rb)
        obtain row bu where rb: "rb = (row, bu)" by (cases rb)
        note c = cut_row [OF inv good None Inr [unfolded y o1 rb] cap]
        have "archive_inv sha x tenant (fst (upload_segment v row bu st1))"
          by (rule archive_upload [OF c(1,2,3,4)])
        then show ?thesis
          by (auto simp: worm_step_def read None Inr y o1 rb finish_def split: prod.split sum.split)
      qed
    qed
  qed
qed

text \<open>
  The states a tenant's archive goes through, from a chain that verifies and nothing exported: other
  records are appended, and the exporter takes steps.
\<close>

inductive archive_reach :: "(string \<Rightarrow> string) \<Rightarrow> exporter \<Rightarrow> string \<Rightarrow> export_state \<Rightarrow> bool"
  for sha x tenant where
  start: "chain_ok sha tenant chain \<Longrightarrow> list_all (\<lambda>e. \<not> is_record e) chain \<Longrightarrow>
    archive_reach sha x tenant \<lparr>es_chain = chain, es_ledger = [], es_objects = (\<lambda>_. None)\<rparr>"
| recorded: "archive_reach sha x tenant st \<Longrightarrow> audit_Record sha ctx action rt rid details (es_chain st) = Inr chain' \<Longrightarrow>
    ac_Tenant ctx = tenant \<Longrightarrow> \<not> (action = AuditAction \<and> rt = AuditResource) \<Longrightarrow> archive_reach sha x tenant (st\<lparr>es_chain := chain'\<rparr>)"
| stepped: "archive_reach sha x tenant st \<Longrightarrow> archive_reach sha x tenant (fst (worm_step sha x tenant v st rep))"

lemma archive_reach_inv:
  assumes "archive_reach sha x tenant st" "good_sha sha" "1 \<le> ws_MaxEntriesPerSegment (ex_settings x)"
  shows "archive_inv sha x tenant st"
  using assms(1)
proof induction
  case (start chain)
  then have "filter is_record chain = []" by (simp add: filter_empty_conv list_all_iff)
  with start show ?case by (simp add: archive_inv_def)
next
  case (recorded st ctx action rt rid details chain')
  then show ?case by (intro archive_record [OF _ assms(2)])
next
  case (stepped st v rep)
  then show ?case by (intro archive_step assms(2,3))
qed

end
