(* ===== verification/WormSeries.thy ===== *)
theory WormSeries
  imports WormArchive
begin

text \<open>
  The checks of a series against the archive: the reports of the files a kept archive holds join,
  the old entries they exempt are one run at the beginning, and every header agrees with the record
  of its export.
\<close>

section \<open>The report of a row\<close>

definition row_report :: "(string \<Rightarrow> string) \<Rightarrow> exporter \<Rightarrow> audit_entry list \<Rightarrow> ledger option \<Rightarrow> ledger \<Rightarrow> worm_report" where
  "row_report sha x chain p r =
     (case VerifyDocument sha (row_doc x chain p r) of
        Inr rep \<Rightarrow> rep\<lparr>wr_DigestOK := True, wr_Digest := sha (segment_text (row_doc x chain p r))\<rparr>
      | Inl m \<Rightarrow> base_report (row_doc x chain p r))"

fun rows_reports :: "(string \<Rightarrow> string) \<Rightarrow> exporter \<Rightarrow> audit_entry list \<Rightarrow> ledger option \<Rightarrow> ledger list \<Rightarrow> worm_report list" where
  "rows_reports sha x chain p [] = []"
| "rows_reports sha x chain p (r # rs) = row_report sha x chain p r # rows_reports sha x chain (Some r) rs"

fun rows_docs :: "exporter \<Rightarrow> audit_entry list \<Rightarrow> ledger option \<Rightarrow> ledger list \<Rightarrow> seg_document list" where
  "rows_docs x chain p [] = []"
| "rows_docs x chain p (r # rs) = row_doc x chain p r # rows_docs x chain (Some r) rs"

fun rows_files :: "(string \<Rightarrow> string) \<Rightarrow> exporter \<Rightarrow> audit_entry list \<Rightarrow> ledger option \<Rightarrow> ledger list \<Rightarrow> seg_file list" where
  "rows_files sha x chain p [] = []"
| "rows_files sha x chain p (r # rs) = row_file sha x chain p r # rows_files sha x chain (Some r) rs"

lemma segment_text_nonempty: "segment_text d \<noteq> []"
  by (simp add: segment_text_def document_json_def)

lemma linked_nth_seq: "linked i prev es \<Longrightarrow> k < length es \<Longrightarrow> ae_Seq (es ! k) = i + int k + 1"
proof (induction es arbitrary: i prev k)
  case (Cons e es)
  then show ?case by (cases k) (auto simp: algebra_simps)
qed simp

lemma row_ok_shape: "row_ok sha x tenant st p r \<Longrightarrow> row_shape x tenant (es_chain st) p r"
  by (simp add: row_ok_def)

lemma row_doc_facts:
  assumes "row_shape x tenant chain p r" "linked 0 GenesisHash chain"
  defines "d \<equiv> row_doc x chain p r"
  shows "do_TenantID d = tenant" "do_SegmentSeq d = le_SegmentSeq r" "do_SegmentID d = le_ID r" "do_ExportedAt d = FormatInstant (le_ExportedAt r)"
    "do_Previous d = previousOf p" "ra_FromSeq (do_Range d) = le_FromSeq r" "ra_ToSeq (do_Range d) = le_ToSeq r"
    "ra_Entries (do_Range d) = le_Entries r" "cn_StartPrevHash (do_Chain d) = le_StartPrevHash r" "cn_EndHash (do_Chain d) = le_EndHash r"
    "cn_Genesis (do_Chain d) = (le_StartPrevHash r = GenesisHash)"
    "do_Entries d = map FromAuditEntry (slice (le_FromSeq r) (le_ToSeq r) chain)"
proof -
  have b: "1 \<le> le_FromSeq r" "le_FromSeq r \<le> le_ToSeq r" "le_ToSeq r \<le> int (length chain)" "le_TenantID r = tenant"
    "le_Entries r = le_ToSeq r - le_FromSeq r + 1" "le_EndHash r = ae_Hash (chain ! nat (le_ToSeq r - 1))"
    using assms(1) by (simp_all add: row_shape_def)
  note s = last_slice [OF b(1-3)]
  have seq: "ae_Seq (chain ! nat (le_FromSeq r - 1)) = le_FromSeq r" "ae_Seq (chain ! nat (le_ToSeq r - 1)) = le_ToSeq r"
    using b(1-3) by (simp_all add: linked_nth_seq [OF assms(2)] nat_less_iff)
  have len: "length (slice (le_FromSeq r) (le_ToSeq r) chain) = nat (le_ToSeq r - le_FromSeq r + 1)"
    using b by (intro length_slice) simp_all
  note D = d_def row_doc_def build_document_def row_input_def Let_def
  show "do_TenantID d = tenant" "do_SegmentSeq d = le_SegmentSeq r" "do_SegmentID d = le_ID r" "do_ExportedAt d = FormatInstant (le_ExportedAt r)"
    "do_Previous d = previousOf p" "cn_StartPrevHash (do_Chain d) = le_StartPrevHash r" "cn_Genesis (do_Chain d) = (le_StartPrevHash r = GenesisHash)"
    "do_Entries d = map FromAuditEntry (slice (le_FromSeq r) (le_ToSeq r) chain)"
    using b(4) by (simp_all add: D)
  show "ra_FromSeq (do_Range d) = le_FromSeq r" "ra_ToSeq (do_Range d) = le_ToSeq r" "cn_EndHash (do_Chain d) = le_EndHash r"
    using s seq b(6) by (simp_all add: D hd_map last_map)
  show "ra_Entries (do_Range d) = le_Entries r"
    using len b(1,2,5) by (simp add: D)
qed

text \<open>A report as far as the checks of a series look at it.\<close>

lemma base_report_facts:
  "wr_Document (base_report d) = d" "wr_TenantID (base_report d) = do_TenantID d" "wr_SegmentSeq (base_report d) = do_SegmentSeq d"
  "wr_FromSeq (base_report d) = ra_FromSeq (do_Range d)" "wr_ToSeq (base_report d) = ra_ToSeq (do_Range d)"
  "wr_Entries (base_report d) = int (length (do_Entries d))" "wr_Genesis (base_report d) = cn_Genesis (do_Chain d)"
  "wr_PreCutoverEntries (base_report d) = int (length (takeWhile seg_pre (do_Entries d)))"
  "wr_FirstVerifiedSeq (base_report d) =
     (if dropWhile seg_pre (do_Entries d) = [] then 0 else ra_FromSeq (do_Range d) + int (length (takeWhile seg_pre (do_Entries d))))"
  "wr_PreCutoverThroughSeq (base_report d) =
     (if takeWhile seg_pre (do_Entries d) = [] then 0 else ra_FromSeq (do_Range d) + int (length (takeWhile seg_pre (do_Entries d))) - 1)"
  by (simp_all add: base_report_def Let_def settlePrefix_def fresh_report_def)

lemma row_report_base:
  assumes ok: "row_ok sha x tenant st p r" and linked: "linked 0 GenesisHash (es_chain st)"
  obtains a b where "row_report sha x (es_chain st) p r =
    (base_report (row_doc x (es_chain st) p r))\<lparr>wr_HeaderSealed := a, wr_HeaderRecordPreSeal := b, wr_DigestOK := True, wr_Digest := le_Digest r\<rparr>"
proof -
  obtain rep where rep: "VerifyDocument sha (row_doc x (es_chain st) p r) = Inr rep"
    using ok by (auto simp: row_ok_def row_shape_def)
  have pos: "0 < ra_FromSeq (do_Range (row_doc x (es_chain st) p r))"
    using row_doc_facts(6) [OF row_ok_shape [OF ok] linked] ok by (simp add: row_ok_def row_shape_def)
  let ?base = "base_report (row_doc x (es_chain st) p r)"
  have same: "?base = ?base\<lparr>wr_HeaderSealed := False, wr_HeaderRecordPreSeal := False\<rparr>"
    by (simp add: base_report_def Let_def settlePrefix_def fresh_report_def)
  have "rep = ?base \<or> (\<exists>sealed. rep = ?base\<lparr>wr_HeaderSealed := sealed, wr_HeaderRecordPreSeal := \<not> sealed\<rparr>)"
    using rep unfolding VerifyDocument_iff [OF pos] by (auto split: option.splits)
  with same obtain a b where "rep = ?base\<lparr>wr_HeaderSealed := a, wr_HeaderRecordPreSeal := b\<rparr>" by metis
  moreover have "sha (segment_text (row_doc x (es_chain st) p r)) = le_Digest r" using ok by (simp add: row_ok_def row_shape_def)
  ultimately have "row_report sha x (es_chain st) p r =
      ?base\<lparr>wr_HeaderSealed := a, wr_HeaderRecordPreSeal := b, wr_DigestOK := True, wr_Digest := le_Digest r\<rparr>"
    by (simp add: row_report_def rep)
  then show thesis by (rule that)
qed

lemma row_report_facts:
  assumes ok: "row_ok sha x tenant st p r" and linked: "linked 0 GenesisHash (es_chain st)"
  defines "rep \<equiv> row_report sha x (es_chain st) p r" and "es \<equiv> slice (le_FromSeq r) (le_ToSeq r) (es_chain st)"
  shows "wr_Document rep = row_doc x (es_chain st) p r" "wr_TenantID rep = tenant" "wr_SegmentSeq rep = le_SegmentSeq r"
    "wr_FromSeq rep = le_FromSeq r" "wr_ToSeq rep = le_ToSeq r" "wr_Entries rep = le_Entries r"
    "wr_Genesis rep = (le_StartPrevHash r = GenesisHash)" "wr_Digest rep = le_Digest r"
    "wr_PreCutoverEntries rep = int (length (takeWhile pre_cutover es))"
    "wr_FirstVerifiedSeq rep = 0 \<longleftrightarrow> dropWhile pre_cutover es = []"
    "wr_PreCutoverThroughSeq rep = (if takeWhile pre_cutover es = [] then 0 else le_FromSeq r + int (length (takeWhile pre_cutover es)) - 1)"
proof -
  note d = row_doc_facts [OF row_ok_shape [OF ok] linked, folded es_def]
  have pre: "takeWhile seg_pre (do_Entries (row_doc x (es_chain st) p r)) = map FromAuditEntry (takeWhile pre_cutover es)"
    "dropWhile seg_pre (do_Entries (row_doc x (es_chain st) p r)) = map FromAuditEntry (dropWhile pre_cutover es)"
    by (simp_all only: d(12) takeWhile_pre_map dropWhile_pre_map)
  have n: "int (length es) = le_Entries r" "1 \<le> le_FromSeq r"
    using ok length_slice [of "le_FromSeq r" "le_ToSeq r" "es_chain st"] by (simp_all add: es_def row_ok_def row_shape_def)
  obtain a b where rep: "rep = (base_report (row_doc x (es_chain st) p r))\<lparr>wr_HeaderSealed := a, wr_HeaderRecordPreSeal := b, wr_DigestOK := True, wr_Digest := le_Digest r\<rparr>"
    using row_report_base [OF ok linked] unfolding rep_def by blast
  show "wr_Document rep = row_doc x (es_chain st) p r" "wr_TenantID rep = tenant" "wr_SegmentSeq rep = le_SegmentSeq r"
    "wr_FromSeq rep = le_FromSeq r" "wr_ToSeq rep = le_ToSeq r"
    "wr_Genesis rep = (le_StartPrevHash r = GenesisHash)" "wr_Digest rep = le_Digest r"
    by (simp_all add: rep base_report_facts d(1,2,6,7,11))
  show "wr_Entries rep = le_Entries r" by (simp add: rep base_report_facts d(12) n)
  show "wr_PreCutoverEntries rep = int (length (takeWhile pre_cutover es))"
    "wr_PreCutoverThroughSeq rep = (if takeWhile pre_cutover es = [] then 0 else le_FromSeq r + int (length (takeWhile pre_cutover es)) - 1)"
    by (simp_all add: rep base_report_facts pre d(6))
  show "wr_FirstVerifiedSeq rep = 0 \<longleftrightarrow> dropWhile pre_cutover es = []"
    using n(2) by (simp add: rep base_report_facts pre d(6))
qed

lemma row_file_verifies:
  assumes "row_ok sha x tenant st p r" "decode (segment_text (row_doc x (es_chain st) p r)) = Some (row_doc x (es_chain st) p r)"
  shows "VerifyFile sha decode (row_file sha x (es_chain st) p r) = Inr (row_report sha x (es_chain st) p r)"
  using assms by (auto simp: VerifyFile_def row_file_def segment_text_nonempty row_report_def row_ok_def row_shape_def)

section \<open>Joins\<close>

lemma joins_rows:
  assumes q: "row_ok sha x tenant st p q" and r: "row_ok sha x tenant st (Some q) r" and linked: "linked 0 GenesisHash (es_chain st)"
  shows "joins i (row_report sha x (es_chain st) p q) (row_report sha x (es_chain st) (Some q) r) = Inr ()"
proof -
  note Q = row_report_facts [OF q linked] and R = row_report_facts [OF r linked]
    and QD = row_doc_facts [OF row_ok_shape [OF q] linked] and RD = row_doc_facts [OF row_ok_shape [OF r] linked]
  have start: "le_SegmentSeq r = le_SegmentSeq q + 1" "le_FromSeq r = le_ToSeq q + 1" "le_StartPrevHash r = le_EndHash q"
    using r by (simp_all add: row_ok_def row_shape_def next_ordinal_def next_seq_def next_hash_def)
  have "meets (row_report sha x (es_chain st) p q) (row_report sha x (es_chain st) (Some q) r) = Inr ()"
    by (simp add: meets_def Q(1,3,5,8) R(1) RD(5) QD(3,10) previousOf_def)
  then show ?thesis
    by (simp add: joins_def Q(1,2,3,5) R(1,2,3,4) RD(9) QD(10) start)
qed

lemma joinsLoop_rows:
  "rows_ok sha x tenant st p rs \<Longrightarrow> linked 0 GenesisHash (es_chain st) \<Longrightarrow> joinsLoop i (rows_reports sha x (es_chain st) p rs) = Inr ()"
proof (induction rs arbitrary: p i)
  case (Cons q rs)
  show ?case
  proof (cases rs)
    case (Cons r rs')
    then have "joins i (row_report sha x (es_chain st) p q) (row_report sha x (es_chain st) (Some q) r) = Inr ()"
      using Cons.prems by (intro joins_rows [where tenant = tenant]) simp_all
    moreover have "joinsLoop (i + 1) (rows_reports sha x (es_chain st) (Some q) rs) = Inr ()"
      using Cons.prems by (intro Cons.IH) simp_all
    ultimately show ?thesis by (simp add: Cons)
  qed simp
qed simp

section \<open>Old entries\<close>

abbreviation old_first :: "audit_entry list \<Rightarrow> bool" where
  "old_first \<equiv> sorted_wrt (\<lambda>d e. pre_cutover e \<longrightarrow> pre_cutover d)"

lemma chain_old_first:
  assumes "chain_ok sha tenant chain"
  shows "old_first chain"
proof -
  have "\<forall>e \<in> set (dropWhile pre_cutover chain). \<not> pre_cutover e"
    using assms unfolding chain_ok_def list_all_iff recomputes_def by blast
  moreover have "\<forall>e \<in> set (takeWhile pre_cutover chain). pre_cutover e"
    by (auto dest: set_takeWhileD)
  moreover have "old_first es" if "(\<forall>e \<in> set es. pre_cutover e) \<or> (\<forall>e \<in> set es. \<not> pre_cutover e)" for es
    using that by (induction es) auto
  ultimately have "old_first (takeWhile pre_cutover chain @ dropWhile pre_cutover chain)"
    unfolding sorted_wrt_append by blast
  then show ?thesis by simp
qed

lemma old_first_slice: "old_first chain \<Longrightarrow> old_first (slice a b chain)"
  by (simp add: slice_def sorted_wrt_take sorted_wrt_drop)

lemma old_first_filter: "old_first es \<Longrightarrow> filter pre_cutover es = takeWhile pre_cutover es"
proof (induction es)
  case (Cons e es)
  show ?case
  proof (cases "pre_cutover e")
    case True
    with Cons show ?thesis by simp
  next
    case False
    with Cons.prems have "filter pre_cutover es = []" by (auto simp: filter_empty_conv)
    with False show ?thesis by simp
  qed
qed simp

lemma slice_starts_pre:
  assumes "old_first chain" "1 \<le> a" "takeWhile pre_cutover (slice a b chain) \<noteq> []"
  shows "list_all pre_cutover (take (nat (a - 1)) chain)"
proof -
  obtain e es where e: "slice a b chain = e # es" "pre_cutover e"
    using assms(3) by (cases "slice a b chain") (auto split: if_splits)
  then have "e \<in> set (drop (nat (a - 1)) chain)"
    using in_set_takeD [of e "nat (b - a + 1)" "drop (nat (a - 1)) chain"] by (simp add: slice_def)
  moreover have "old_first (take (nat (a - 1)) chain @ drop (nat (a - 1)) chain)" using assms(1) by simp
  ultimately show ?thesis
    using e(2) unfolding sorted_wrt_append list_all_iff by blast
qed

lemma anchorLoop_rows:
  "rows_ok sha x tenant st p rs \<Longrightarrow> chain_ok sha tenant (es_chain st) \<Longrightarrow>
     op = list_all pre_cutover (take (nat (next_seq p - 1)) (es_chain st)) \<Longrightarrow>
     \<exists>through'. anchorLoop first1 op through (rows_reports sha x (es_chain st) p rs) = Inr through'"
proof (induction rs arbitrary: p op through)
  case (Cons r rs)
  have ok: "row_ok sha x tenant st p r" and chain: "chain_ok sha tenant (es_chain st)" using Cons.prems by simp_all
  then have linked: "linked 0 GenesisHash (es_chain st)" by (simp add: chain_ok_def)
  have b: "1 \<le> le_FromSeq r" "le_FromSeq r \<le> le_ToSeq r" "le_ToSeq r \<le> int (length (es_chain st))" "le_FromSeq r = next_seq p"
    using ok by (simp_all add: row_ok_def row_shape_def)
  let ?es = "slice (le_FromSeq r) (le_ToSeq r) (es_chain st)"
  note R = row_report_facts [OF ok linked]
  have guard: "\<not> (0 < wr_PreCutoverEntries (row_report sha x (es_chain st) p r) \<and> \<not> op)"
    using slice_starts_pre [OF chain_old_first [OF chain] b(1)] b(4) Cons.prems(3) by (auto simp: R(9))
  have "take (nat (next_seq (Some r) - 1)) (es_chain st) = take (nat (next_seq p - 1)) (es_chain st) @ ?es"
    using slice_join [of 1 "next_seq p - 1" "le_ToSeq r" "es_chain st"] b by (simp add: slice_from_1 next_seq_def)
  moreover have "list_all pre_cutover ?es \<longleftrightarrow> dropWhile pre_cutover ?es = []"
    by (simp add: list_all_iff dropWhile_eq_Nil_conv)
  ultimately have "(op \<and> wr_FirstVerifiedSeq (row_report sha x (es_chain st) p r) = 0) =
      list_all pre_cutover (take (nat (next_seq (Some r) - 1)) (es_chain st))"
    using Cons.prems(3) by (simp add: R(10))
  from Cons.IH [OF _ chain this] Cons.prems(1) guard show ?case by simp
qed simp

lemma PreCutoverThrough_slice:
  assumes "chain_ok sha tenant chain" "1 \<le> a" "a \<le> b" "b \<le> int (length chain)"
  shows "PreCutoverThrough a b chain =
    (let old = takeWhile pre_cutover (slice a b chain) in if old = [] then 0 else a + int (length old) - 1)"
proof -
  have linked: "linked 0 GenesisHash chain" using assms(1) by (simp add: chain_ok_def)
  let ?old = "takeWhile pre_cutover (slice a b chain)"
  have "filter (\<lambda>e. a \<le> ae_Seq e \<and> ae_Seq e \<le> b \<and> 0 < ae_HashVersion e \<and> ae_HashVersion e < 2) chain =
      filter pre_cutover (filter (\<lambda>e. a \<le> ae_Seq e \<and> ae_Seq e \<le> b) chain)"
    by (simp add: IsPreCutover_def conj_assoc)
  also have "\<dots> = ?old"
    by (simp add: filter_slice [OF linked assms(2)] old_first_filter [OF old_first_slice [OF chain_old_first [OF assms(1)]]])
  finally have "PreCutoverThrough a b chain = foldl max 0 (map ae_Seq ?old)"
    by (simp only: PreCutoverThrough_def)
  moreover have "nat (a - 1) \<le> length chain" using assms(2-4) by linarith
  with linked_drop [OF linked, of "nat (a - 1)"] assms(2) obtain h where "linked (a - 1) h (drop (nat (a - 1)) chain)"
    by auto
  then have "linked (a - 1) h (take n (slice a b chain))" for n
    by (auto simp: slice_def intro!: linked_take)
  then have "linked (a - 1) h ?old"
    by (metis takeWhile_eq_take)
  from foldl_max_linked [OF this, of 0] assms(2) have "foldl max 0 (map ae_Seq ?old) = (if ?old = [] then 0 else a - 1 + int (length ?old))"
    by simp
  ultimately have "PreCutoverThrough a b chain = (if ?old = [] then 0 else a - 1 + int (length ?old))"
    by simp
  then show ?thesis by (simp add: Let_def)
qed

section \<open>Headers and records\<close>

definition sealed_record :: "record_details \<Rightarrow> export_record" where
  "sealed_record d = \<lparr>er_Details = d, er_Stated = sealedFieldNames\<rparr>"

abbreviation keyed :: "record_details list \<Rightarrow> records" where
  "keyed ds \<equiv> map (\<lambda>d. (rd_SegmentSeq d, sealed_record d)) ds"

lemma checkHeader_shape:
  assumes shape: "row_shape x tenant chain p r" and chain: "chain_ok sha tenant chain"
    and rep: "wr_Document rep = row_doc x chain p r"
      "wr_PreCutoverThroughSeq rep = (let old = takeWhile pre_cutover (slice (le_FromSeq r) (le_ToSeq r) chain)
        in if old = [] then 0 else le_FromSeq r + int (length old) - 1)"
  shows "checkHeader rep (sealed_record (row_details chain p r)) = Inr True"
proof -
  have linked: "linked 0 GenesisHash chain" using chain by (simp add: chain_ok_def)
  have b: "1 \<le> le_FromSeq r" "le_FromSeq r \<le> le_ToSeq r" "le_ToSeq r \<le> int (length chain)"
    using shape by (simp_all add: row_shape_def)
  note D = row_doc_facts [OF shape linked] and P = PreCutoverThrough_slice [OF chain b, folded rep(2)]
  show ?thesis
    by (simp add: checkHeader_def sealed_record_def row_details_def previous_digest_def rep(1) D(2-8) P sealedFieldNames_def Let_def)
qed

lemma checkHeader_row:
  assumes ok: "row_ok sha x tenant st p r" and chain: "chain_ok sha tenant (es_chain st)"
  shows "checkHeader (row_report sha x (es_chain st) p r) (sealed_record (row_details (es_chain st) p r)) = Inr True"
proof -
  have linked: "linked 0 GenesisHash (es_chain st)" using chain by (simp add: chain_ok_def)
  show ?thesis
    by (rule checkHeader_shape [OF row_ok_shape [OF ok] chain]) (simp_all add: row_report_facts(1,11) [OF ok linked] Let_def)
qed

lemma records_loop_keyed:
  "map (\<lambda>e. read_record (se_Details e)) (filter is_export_record es) = map (\<lambda>d. Some (sealed_record d)) ds \<Longrightarrow>
     distinct (map fst out @ map rd_SegmentSeq ds) \<Longrightarrow> records_loop es out = Inr (out @ keyed ds)"
proof (induction es arbitrary: ds out)
  case (Cons e es)
  show ?case
  proof (cases "is_export_record e")
    case False
    with Cons show ?thesis by simp
  next
    case True
    with Cons.prems obtain d ds' where ds: "ds = d # ds'" "read_record (se_Details e) = Some (sealed_record d)"
      "map (\<lambda>e. read_record (se_Details e)) (filter is_export_record es) = map (\<lambda>d. Some (sealed_record d)) ds'"
      by (cases ds) auto
    have "map_of out (rd_SegmentSeq d) = None"
      using Cons.prems(2) by (simp add: ds map_of_eq_None_iff)
    then have "add_record (sealed_record d) out = Inr (out @ [(rd_SegmentSeq d, sealed_record d)])"
      by (simp add: add_record_def sealed_record_def)
    moreover have "records_loop es (out @ [(rd_SegmentSeq d, sealed_record d)]) = Inr ((out @ [(rd_SegmentSeq d, sealed_record d)]) @ keyed ds')"
      using Cons.prems(2) by (intro Cons.IH ds(3)) (auto simp: ds)
    ultimately show ?thesis by (simp add: True ds)
  qed
qed simp

lemma mergeRecords_keyed: "distinct (map fst out @ map fst found) \<Longrightarrow> mergeRecords out found = Inr (out @ found)"
proof (induction found arbitrary: out)
  case (Cons q found)
  obtain n rec where q: "q = (n, rec)" by (cases q)
  have "map_of out n = None" using Cons.prems by (auto simp: map_of_eq_None_iff q)
  moreover have "mergeRecords (out @ [(n, rec)]) found = Inr ((out @ [(n, rec)]) @ found)"
    using Cons.prems by (intro Cons.IH) (auto simp: q)
  ultimately show ?case by (simp add: q)
qed simp

lemma collectRecords_keyed:
  "map (\<lambda>e. read_record (se_Details e)) (filter is_export_record (concat (map (\<lambda>r. do_Entries (wr_Document r)) reps))) =
     map (\<lambda>d. Some (sealed_record d)) ds \<Longrightarrow>
   distinct (map fst out @ map rd_SegmentSeq ds) \<Longrightarrow> collectRecords reps out = Inr (out @ keyed ds)"
proof (induction reps arbitrary: ds out)
  case (Cons r reps)
  then obtain d1 d2 where ds: "ds = d1 @ d2"
    "map (\<lambda>e. read_record (se_Details e)) (filter is_export_record (do_Entries (wr_Document r))) = map (\<lambda>d. Some (sealed_record d)) d1"
    "map (\<lambda>e. read_record (se_Details e)) (filter is_export_record (concat (map (\<lambda>r. do_Entries (wr_Document r)) reps))) = map (\<lambda>d. Some (sealed_record d)) d2"
    by (auto simp: append_eq_map_conv)
  have d: "distinct (map fst out)" "distinct (map rd_SegmentSeq d1)" "distinct (map rd_SegmentSeq d2)"
    "set (map rd_SegmentSeq d1) \<inter> set (map rd_SegmentSeq d2) = {}" "set (map fst out) \<inter> set (map rd_SegmentSeq d1) = {}"
    "set (map fst out) \<inter> set (map rd_SegmentSeq d2) = {}"
    using Cons.prems(2) by (auto simp: ds)
  have keys: "map fst (keyed ds) = map rd_SegmentSeq ds" for ds by (simp add: comp_def)
  have "exportRecords (wr_Document r) = Inr (keyed d1)"
    using records_loop_keyed [OF ds(2), of "[]"] Cons.prems(2) by (simp add: exportRecords_def ds)
  moreover have "mergeRecords out (keyed d1) = Inr (out @ keyed d1)"
    using d by (intro mergeRecords_keyed) (unfold keys distinct_append, blast)
  moreover have "collectRecords reps (out @ keyed d1) = Inr ((out @ keyed d1) @ keyed d2)"
    using d by (intro Cons.IH [OF ds(3)]) (unfold keys distinct_append map_append set_append, blast)
  ultimately show ?case by (simp add: ds)
qed simp

text \<open>The records known are those of the first rows, so none is missing before one that is there.\<close>

lemma sealLoop_rows:
  assumes chain: "chain_ok sha tenant (es_chain st)"
  shows "rows_ok sha x tenant st p rs \<Longrightarrow>
     (\<And>j. j < length rs \<Longrightarrow> map_of records (next_ordinal p + int j) =
        (if j < k then Some (sealed_record (rows_details (es_chain st) p rs ! j)) else None)) \<Longrightarrow>
     (unsealed \<noteq> 0 \<longrightarrow> k = 0) \<Longrightarrow>
     \<exists>u. sealLoop records unsealed pre (rows_reports sha x (es_chain st) p rs) = Inr (u, pre)"
proof (induction rs arbitrary: p k unsealed)
  case (Cons r rs)
  have ok: "row_ok sha x tenant st p r" and rest: "rows_ok sha x tenant st (Some r) rs" using Cons.prems(1) by simp_all
  have linked: "linked 0 GenesisHash (es_chain st)" using chain by (simp add: chain_ok_def)
  have n: "wr_SegmentSeq (row_report sha x (es_chain st) p r) = next_ordinal p" "next_ordinal (Some r) = next_ordinal p + 1"
    using row_report_facts(3) [OF ok linked] ok by (simp_all add: row_ok_def row_shape_def next_ordinal_def)
  have later: "map_of records (next_ordinal (Some r) + int j) =
      (if j < k - 1 then Some (sealed_record (rows_details (es_chain st) (Some r) rs ! j)) else None)" if "j < length rs" for j
    using Cons.prems(2) [of "Suc j"] that by (auto simp: n(2) algebra_simps)
  show ?case
  proof (cases k)
    case 0
    then have "map_of records (next_ordinal p) = None" using Cons.prems(2) [of 0] by simp
    moreover have "\<exists>u. sealLoop records (if unsealed = 0 then next_ordinal p else unsealed) pre (rows_reports sha x (es_chain st) (Some r) rs) = Inr (u, pre)"
      by (rule Cons.IH [OF rest later]) (simp_all add: 0)
    ultimately show ?thesis by (simp only: rows_reports.simps sealLoop.simps n(1) option.case)
  next
    case (Suc k')
    then have "map_of records (next_ordinal p) = Some (sealed_record (row_details (es_chain st) p r))" "unsealed = 0"
      using Cons.prems(2) [of 0] Cons.prems(3) by auto
    moreover have "\<exists>u. sealLoop records 0 pre (rows_reports sha x (es_chain st) (Some r) rs) = Inr (u, pre)"
      by (rule Cons.IH [OF rest later]) simp_all
    ultimately show ?thesis by (simp add: n(1) checkHeader_row [OF ok chain])
  qed
qed simp

section \<open>The archive\<close>

definition archived_rows :: "export_state \<Rightarrow> ledger list" where
  "archived_rows st = filter (\<lambda>r. \<not> pending r) (es_ledger st)"

text \<open>The stored objects, oldest first, and the last sequence number they cover.\<close>

definition archive :: "export_state \<Rightarrow> seg_file list" where
  "archive st = map (\<lambda>r. the (es_objects st (le_ObjectKey r))) (archived_rows st)"

definition exported_through :: "export_state \<Rightarrow> int" where
  "exported_through st = next_seq (last_opt None (archived_rows st)) - 1"

lemma archived_split:
  assumes "rows_ok sha x tenant st p rows"
  obtains us ps where "rows = us @ ps" "filter (\<lambda>r. \<not> pending r) rows = us" "rows_ok sha x tenant st p us" "list_all pending ps"
proof (cases rows rule: rev_cases)
  case Nil
  then show thesis using that [of "[]" "[]"] by simp
next
  case (snoc rs r)
  with assms have rs: "rows_ok sha x tenant st p rs" "list_all (\<lambda>q. \<not> pending q) rs" "row_ok sha x tenant st (last_opt p rs) r"
    by (simp_all add: rows_ok_snoc)
  then have "filter (\<lambda>r. \<not> pending r) rs = rs" by (simp add: filter_id_conv list_all_iff)
  then show thesis
    using that [of rs "[r]"] that [of rows "[]"] rs assms by (cases "pending r") (simp_all add: snoc)
qed

lemma rows_files_stored:
  "rows_ok sha x tenant st p rs \<Longrightarrow> list_all (\<lambda>r. \<not> pending r) rs \<Longrightarrow>
     map (\<lambda>r. the (es_objects st (le_ObjectKey r))) rs = rows_files sha x (es_chain st) p rs"
proof (induction rs arbitrary: p)
  case (Cons r rs)
  have "the (es_objects st (le_ObjectKey r)) = row_file sha x (es_chain st) p r"
    using Cons.prems unfolding rows_ok.simps row_ok_def row_shape_def by auto
  with Cons show ?case by simp
qed simp

lemma rows_docs_entries:
  "rows_ok sha x tenant st p rs \<Longrightarrow> linked 0 GenesisHash (es_chain st) \<Longrightarrow> 1 \<le> next_seq p \<Longrightarrow>
     concat (map do_Entries (rows_docs x (es_chain st) p rs)) =
       map FromAuditEntry (slice (next_seq p) (next_seq (last_opt p rs) - 1) (es_chain st)) \<and> next_seq p \<le> next_seq (last_opt p rs)"
proof (induction rs arbitrary: p)
  case Nil
  then show ?case by (simp add: slice_def)
next
  case (Cons r rs)
  have ok: "row_ok sha x tenant st p r" using Cons.prems by simp
  then have r: "le_FromSeq r = next_seq p" "next_seq p \<le> le_ToSeq r" "next_seq (Some r) = le_ToSeq r + 1"
    by (simp_all add: row_ok_def row_shape_def next_seq_def)
  have IH: "concat (map do_Entries (rows_docs x (es_chain st) (Some r) rs)) =
      map FromAuditEntry (slice (next_seq (Some r)) (next_seq (last_opt (Some r) rs) - 1) (es_chain st)) \<and> next_seq (Some r) \<le> next_seq (last_opt (Some r) rs)"
    using Cons.prems r by (intro Cons.IH) simp_all
  have "slice (next_seq p) (le_ToSeq r) (es_chain st) @ slice (le_ToSeq r + 1) (next_seq (last_opt (Some r) rs) - 1) (es_chain st) =
      slice (next_seq p) (next_seq (last_opt (Some r) rs) - 1) (es_chain st)"
    using IH r Cons.prems(3) by (intro slice_join) simp_all
  then show ?case
    using IH r row_doc_facts(12) [OF row_ok_shape [OF ok] Cons.prems(2)] by (simp add: last_opt_Cons map_append [symmetric] del: map_append)
qed

lemma rows_reports_docs:
  "rows_ok sha x tenant st p rs \<Longrightarrow> linked 0 GenesisHash (es_chain st) \<Longrightarrow>
     map wr_Document (rows_reports sha x (es_chain st) p rs) = rows_docs x (es_chain st) p rs"
proof (induction rs arbitrary: p)
  case (Cons r rs)
  then have "row_ok sha x tenant st p r" by simp
  from row_report_facts(1) [OF this Cons.prems(2)] Cons show ?case by simp
qed simp

lemma rows_files_verify:
  "rows_ok sha x tenant st p rs \<Longrightarrow> (\<forall>d \<in> set (rows_docs x (es_chain st) p rs). decode (segment_text d) = Some d) \<Longrightarrow>
     map (VerifyFile sha decode) (rows_files sha x (es_chain st) p rs) = map Inr (rows_reports sha x (es_chain st) p rs)"
proof (induction rs arbitrary: p)
  case (Cons r rs)
  then have "VerifyFile sha decode (row_file sha x (es_chain st) p r) = Inr (row_report sha x (es_chain st) p r)"
    by (intro row_file_verifies [where tenant = tenant]) simp_all
  with Cons show ?case by simp
qed simp

lemma rows_files_texts: "map fi_Segment (rows_files sha x chain p rs) = map segment_text (rows_docs x chain p rs)"
  by (induction rs arbitrary: p) (simp_all add: row_file_def)

lemma rows_details_ordinals: "map rd_SegmentSeq (rows_details chain p rs) = map le_SegmentSeq rs"
  by (induction rs arbitrary: p) (simp_all add: row_details_def)

lemma length_rows_details [simp]: "length (rows_details chain p rs) = length rs"
  by (induction rs arbitrary: p) simp_all

lemma rows_details_append: "rows_details chain p (rs @ qs) = rows_details chain p rs @ rows_details chain (last_opt p rs) qs"
  by (induction rs arbitrary: p) (simp_all add: last_opt_Cons)

text \<open>The numbers a record states are small.\<close>

definition small_details :: "record_details \<Rightarrow> bool" where
  "small_details d \<longleftrightarrow>
     (\<forall>i \<in> {rd_SegmentSeq d, rd_FromSeq d, rd_ToSeq d, rd_Entries d, rd_PreCutoverThroughSeq d, rd_FormatVersion d}. - (2 ^ 63) \<le> i \<and> i < 2 ^ 63)"

lemma row_details_small:
  assumes shape: "row_shape x tenant chain p r" and chain: "chain_ok sha tenant chain" and small: "int (length chain) < 2 ^ 62"
    and p: "1 \<le> next_ordinal p" "next_ordinal p \<le> next_seq p"
  shows "small_details (row_details chain p r)"
proof -
  have b: "1 \<le> le_FromSeq r" "le_FromSeq r \<le> le_ToSeq r" "le_ToSeq r \<le> int (length chain)"
    "le_SegmentSeq r = next_ordinal p" "le_FromSeq r = next_seq p" "le_Entries r = le_ToSeq r - le_FromSeq r + 1"
    using shape by (simp_all add: row_shape_def)
  define old where "old = PreCutoverThrough (le_FromSeq r) (le_ToSeq r) chain"
  have "length (takeWhile pre_cutover (slice (le_FromSeq r) (le_ToSeq r) chain)) \<le> length (slice (le_FromSeq r) (le_ToSeq r) chain)"
    by (rule length_takeWhile_le)
  then have "int (length (takeWhile pre_cutover (slice (le_FromSeq r) (le_ToSeq r) chain))) \<le> le_ToSeq r - le_FromSeq r + 1"
    using length_slice [OF b(1,3)] b(2) by simp
  then have "0 \<le> old \<and> old \<le> le_ToSeq r"
    using PreCutoverThrough_slice [OF chain b(1-3)] b(1,2) by (simp add: old_def Let_def)
  moreover have "rd_PreCutoverThroughSeq (row_details chain p r) = old" by (simp add: row_details_def old_def)
  moreover have "rd_SegmentSeq (row_details chain p r) = next_ordinal p" "rd_FromSeq (row_details chain p r) = next_seq p"
    "rd_ToSeq (row_details chain p r) = le_ToSeq r" "rd_Entries (row_details chain p r) = le_ToSeq r - next_seq p + 1"
    "rd_FormatVersion (row_details chain p r) = 1"
    by (simp_all add: row_details_def b FormatVersion_def)
  ultimately show ?thesis
    using b small p by (simp add: small_details_def)
qed

lemma next_ordinal_seq:
  "rows_ok sha x tenant st p rs \<Longrightarrow> 1 \<le> next_ordinal p \<Longrightarrow> next_ordinal p \<le> next_seq p \<Longrightarrow>
     1 \<le> next_ordinal (last_opt p rs) \<and> next_ordinal (last_opt p rs) \<le> next_seq (last_opt p rs)"
proof (induction rs arbitrary: p)
  case (Cons r rs)
  have "row_shape x tenant (es_chain st) p r" using Cons.prems(1) by (simp add: row_ok_def)
  then have "1 \<le> next_ordinal (Some r)" "next_ordinal (Some r) \<le> next_seq (Some r)"
    using Cons.prems(2,3) by (simp_all add: row_shape_def next_ordinal_def next_seq_def)
  with Cons.IH [of "Some r"] Cons.prems(1) show ?case by (simp add: last_opt_Cons)
qed simp

lemma rows_details_small:
  "rows_ok sha x tenant st p rs \<Longrightarrow> chain_ok sha tenant (es_chain st) \<Longrightarrow> int (length (es_chain st)) < 2 ^ 62 \<Longrightarrow>
     1 \<le> next_ordinal p \<Longrightarrow> next_ordinal p \<le> next_seq p \<Longrightarrow> list_all small_details (rows_details (es_chain st) p rs)"
proof (induction rs arbitrary: p)
  case (Cons r rs)
  have shape: "row_shape x tenant (es_chain st) p r" using Cons.prems(1) by (simp add: row_ok_def)
  have "list_all small_details (rows_details (es_chain st) (Some r) rs)"
    using Cons.prems next_ordinal_seq [of sha x tenant st p "[r]"] by (intro Cons.IH) (simp_all add: last_opt_Cons)
  with row_details_small [OF shape Cons.prems(2-5)] show ?case by simp
qed simp

lemma records_of_entries:
  "map (\<lambda>e. read_record (se_Details e)) (filter is_export_record (map FromAuditEntry es)) = map read_record (map ae_Details (filter is_record es))"
  by (induction es) (simp_all add: is_export_record_def is_record_def)

lemma rows_details_read: "small_details d \<Longrightarrow> read_record (details_Map d) = Some (sealed_record d)"
  unfolding small_details_def sealed_record_def by (rule details_roundtrip)

end
