(* ===== verification/WormCatchUp.thy ===== *)
theory WormCatchUp
  imports WormSeries
begin

text \<open>
  Progress of the export: over a kept archive whose entries carry an instant the format can state, a
  cut succeeds and a pending segment is rebuilt, so a pass without faults leaves nothing behind.
\<close>

section \<open>A document of the chain verifies\<close>

definition stamped :: "audit_entry list \<Rightarrow> bool" where
  "stamped chain \<longleftrightarrow> list_all (\<lambda>e. stampable (ae_OccurredAt e)) chain"

lemma stampable_truncate: "stampable (truncate_micro t) = stampable t"
proof -
  have "t div 86400000000000 = t div 1000 div 86400000000" for t :: int
    using zdiv_zmult2_eq [of 86400000000 t 1000] by simp
  then show ?thesis by (simp add: stampable_def)
qed

lemma chain_recomputes: "chain_ok sha tenant chain \<Longrightarrow> e \<in> set chain \<Longrightarrow> \<not> pre_cutover e \<Longrightarrow> recomputes sha e"
proof -
  assume a: "chain_ok sha tenant chain" "e \<in> set chain" "\<not> pre_cutover e"
  have "e \<in> set (takeWhile pre_cutover chain) \<union> set (dropWhile pre_cutover chain)"
    using a(2) by (metis set_append takeWhile_dropWhile_id)
  then have "e \<in> set (dropWhile pre_cutover chain)" using a(3) set_takeWhileD by fastforce
  with a(1) show ?thesis unfolding chain_ok_def list_all_iff by blast
qed

lemma old_first_drop: "old_first es \<Longrightarrow> e \<in> set (dropWhile pre_cutover es) \<Longrightarrow> \<not> pre_cutover e"
proof (induction es)
  case (Cons d es)
  then show ?case by (cases "pre_cutover d") auto
qed simp

lemma set_slice: "set (slice a b chain) \<subseteq> set chain"
  unfolding slice_def by (meson order_trans set_drop_subset set_take_subset)

text \<open>The hash a row starts from is the one the chain has there.\<close>

definition follows :: "exporter \<Rightarrow> string \<Rightarrow> audit_entry list \<Rightarrow> ledger option \<Rightarrow> bool" where
  "follows x tenant chain p \<longleftrightarrow> p = None \<or> (\<exists>q p'. p = Some q \<and> row_shape x tenant chain p' q \<and> 1 \<le> le_SegmentSeq q)"

lemma slice_linked:
  assumes "row_shape x tenant chain p r" "follows x tenant chain p" "linked 0 GenesisHash chain"
  shows "linked (le_FromSeq r - 1) (le_StartPrevHash r) (slice (le_FromSeq r) (le_ToSeq r) chain)"
proof -
  let ?n = "nat (le_FromSeq r - 1)"
  have b: "1 \<le> le_FromSeq r" "le_FromSeq r \<le> le_ToSeq r" "le_ToSeq r \<le> int (length chain)" "le_FromSeq r = next_seq p" "le_StartPrevHash r = next_hash p"
    using assms(1) by (simp_all add: row_shape_def)
  have "le_StartPrevHash r = (if ?n = 0 then GenesisHash else ae_Hash (chain ! (?n - 1)))"
  proof (cases p)
    case None
    with b show ?thesis by (simp add: next_seq_def next_hash_def)
  next
    case (Some q)
    with assms(2) have q: "1 \<le> le_FromSeq q" "le_FromSeq q \<le> le_ToSeq q" "le_EndHash q = ae_Hash (chain ! nat (le_ToSeq q - 1))"
      by (auto simp: follows_def row_shape_def)
    have "?n = nat (le_ToSeq q)" "?n \<noteq> 0" "?n - 1 = nat (le_ToSeq q - 1)" using q b(4) by (auto simp: Some next_seq_def)
    with q(3) b(5) show ?thesis by (simp add: Some next_hash_def)
  qed
  moreover have "?n \<le> length chain" using b by linarith
  ultimately have "linked (int ?n) (le_StartPrevHash r) (drop ?n chain)"
    using linked_drop [OF assms(3), of ?n] by simp
  then show ?thesis using b(1) by (simp add: slice_def linked_take)
qed

lemma row_doc_verifies:
  assumes shape: "row_shape x tenant chain p r" and prev: "follows x tenant chain p" and chain: "chain_ok sha tenant chain"
    and stamped: "stamped chain"
    and recs: "map ae_Details (filter is_record (slice (le_FromSeq r) (le_ToSeq r) chain)) = map details_Map ds"
      "list_all small_details ds" "distinct (map rd_SegmentSeq ds)" "\<forall>d \<in> set ds. rd_SegmentSeq d = le_SegmentSeq r \<longrightarrow> d = row_details chain p r"
  shows "\<exists>rep. VerifyDocument sha (row_doc x chain p r) = Inr rep"
proof -
  let ?d = "row_doc x chain p r" and ?es = "slice (le_FromSeq r) (le_ToSeq r) chain"
  have linked: "linked 0 GenesisHash chain" using chain by (simp add: chain_ok_def)
  note D = row_doc_facts [OF shape linked]
  have b: "1 \<le> le_FromSeq r" "le_FromSeq r \<le> le_ToSeq r" "le_ToSeq r \<le> int (length chain)" "le_FromSeq r = next_seq p" "le_StartPrevHash r = next_hash p"
    "le_SegmentSeq r = next_ordinal p" "le_Entries r = le_ToSeq r - le_FromSeq r + 1"
    using shape by (simp_all add: row_shape_def)
  note sl = last_slice [OF b(1-3)]
  have fmt: "do_Format ?d = segFormat" "do_FormatVersion ?d = FormatVersion"
    by (simp_all add: row_doc_def build_document_def Let_def)
  have len: "int (length ?es) = le_Entries r" using length_slice [OF b(1,3)] b(2,7) by simp
  have genesis: "le_StartPrevHash r = GenesisHash \<longleftrightarrow> p = None"
  proof (cases p)
    case (Some q)
    with prev have q: "1 \<le> le_ToSeq q" "le_ToSeq q \<le> int (length chain)" "le_EndHash q = ae_Hash (chain ! nat (le_ToSeq q - 1))"
      by (auto simp: follows_def row_shape_def)
    then have "chain ! nat (le_ToSeq q - 1) \<in> set chain" by (intro nth_mem) linarith
    then have "le_EndHash q \<noteq> GenesisHash" using chain q(3) by (simp add: chain_ok_def list_all_iff)
    with Some b(5) show ?thesis by (simp add: next_hash_def)
  qed (simp add: b(5) next_hash_def)
  have claims: "checkClaims ?d = Inr ()"
  proof (cases p)
    case None
    then show ?thesis
      unfolding checkClaims_def Let_def fmt D genesis using sl(1) len b by (simp add: previousOf_def next_seq_def)
  next
    case (Some q)
    then show ?thesis
      unfolding checkClaims_def Let_def fmt D genesis using sl(1) len b by (simp add: previousOf_def next_seq_def next_hash_def)
  qed
  have pos: "position ?d = Inr ()"
  proof (cases p)
    case None
    then show ?thesis unfolding position_def Let_def D genesis using b by (simp add: previousOf_def next_ordinal_def)
  next
    case (Some q)
    with prev have "1 \<le> le_SegmentSeq q" by (auto simp: follows_def)
    with Some b show ?thesis unfolding position_def Let_def D genesis by (simp add: previousOf_def next_ordinal_def)
  qed
  have ends: "checkEnds ?d = Inr ()"
    using pos sl(1) by (simp add: checkEnds_def Let_def) (simp add: row_doc_def build_document_def row_input_def Let_def)
  have "seg_linked (le_FromSeq r) tenant (le_StartPrevHash r) (map FromAuditEntry ?es)"
    using slice_linked [OF shape prev linked] chain set_slice [of "le_FromSeq r" "le_ToSeq r" chain]
    by (auto simp: seg_linked_map chain_ok_def list_all_iff)
  moreover have "seg_recomputes sha (FromAuditEntry e)" if "e \<in> set (dropWhile pre_cutover ?es)" for e
  proof -
    have e: "e \<in> set chain" "\<not> pre_cutover e"
      using that set_slice [of "le_FromSeq r" "le_ToSeq r" chain] old_first_drop [OF old_first_slice [OF chain_old_first [OF chain]] that]
        set_dropWhileD [OF that] by auto
    then have "stampable (ae_OccurredAt e)" using stamped by (simp add: stamped_def list_all_iff)
    with seg_recomputes_FromAuditEntry [OF this] chain_recomputes [OF chain e] show ?thesis by simp
  qed
  then have "list_all (seg_recomputes sha) (map FromAuditEntry (dropWhile pre_cutover ?es))" by (auto simp: list_all_iff)
  ultimately have ok: "doc_ok sha ?d"
    using claims ends by (simp add: doc_ok_def D dropWhile_pre_map)
  have "map read_record (map details_Map ds) = map (\<lambda>d. Some (sealed_record d)) ds"
    using recs(2) rows_details_read by (auto simp: list_all_iff)
  then have read: "map (\<lambda>e. read_record (se_Details e)) (filter is_export_record (map FromAuditEntry ?es)) = map (\<lambda>d. Some (sealed_record d)) ds"
    by (simp only: records_of_entries recs(1))
  have records: "exportRecords ?d = Inr (keyed ds)"
    using records_loop_keyed [OF read, of "[]"] recs(3) by (simp add: exportRecords_def D(12))
  have pre: "takeWhile seg_pre (do_Entries ?d) = map FromAuditEntry (takeWhile pre_cutover ?es)"
    by (simp only: D(12) takeWhile_pre_map)
  have header: "checkHeader (base_report ?d) (sealed_record (row_details chain p r)) = Inr True"
    by (rule checkHeader_shape [OF shape chain]) (simp_all add: base_report_facts pre D(6) Let_def)
  have "0 < ra_FromSeq (do_Range ?d)" using b(1) by (simp add: D(6))
  note V = VerifyDocument_iff [OF this, of sha]
  show ?thesis
  proof (cases "map_of (keyed ds) (le_SegmentSeq r)")
    case None
    have "VerifyDocument sha ?d = Inr (base_report ?d)" unfolding V using ok records None by (simp add: D(2))
    then show ?thesis ..
  next
    case (Some rec)
    then have rec: "rec = sealed_record (row_details chain p r)"
      using recs(4) by (auto dest!: map_of_SomeD)
    have look: "map_of (keyed ds) (do_SegmentSeq ?d) = Some rec" using Some by (simp only: D(2))
    have "VerifyDocument sha ?d = Inr ((base_report ?d)\<lparr>wr_HeaderSealed := True, wr_HeaderRecordPreSeal := \<not> True\<rparr>)"
      unfolding V by (intro conjI ok exI [of _ "keyed ds"] records) (simp only: look option.case header [folded rec] sum.inject, blast)
    then show ?thesis ..
  qed
qed

section \<open>A cut succeeds\<close>

lemma rows_ok_upto:
  "rows_ok sha x tenant st p rs \<Longrightarrow> next_seq p \<le> next_seq (last_opt p rs) \<and> (\<forall>r \<in> set rs. le_FromSeq r < next_seq (last_opt p rs))"
proof (induction rs arbitrary: p)
  case (Cons r rs)
  have "next_seq p = le_FromSeq r" "le_FromSeq r < next_seq (Some r)"
    using Cons.prems by (simp_all add: row_ok_def row_shape_def next_seq_def)
  with Cons.IH [of "Some r"] Cons.prems show ?case by (auto simp: last_opt_Cons)
qed simp

lemma rows_follow: "rows_ok sha x tenant st None rs \<Longrightarrow> follows x tenant (es_chain st) (last_opt None rs)"
proof (cases rs rule: rev_cases)
  case (snoc qs q)
  assume ok: "rows_ok sha x tenant st None rs"
  then have shape: "row_shape x tenant (es_chain st) (last_opt None qs) q" by (simp add: snoc rows_ok_snoc row_ok_def)
  have "1 \<le> next_ordinal (last_opt None qs)"
    using next_ordinal_seq [of sha x tenant st None qs] ok by (simp add: snoc rows_ok_snoc next_ordinal_def [of None] next_seq_def [of None])
  then have "1 \<le> le_SegmentSeq q" using shape by (simp add: row_shape_def)
  with shape show ?thesis by (auto simp: follows_def snoc)
qed (simp add: follows_def)

text \<open>The records within a stretch are consecutive records of the ledger.\<close>

lemma slice_records:
  assumes "map ae_Details (filter is_record chain) = map details_Map ds"
  obtains i j where "map ae_Details (filter is_record (slice a b chain)) = map details_Map (take j (drop i ds))"
proof -
  let ?n = "nat (a - 1)" and ?m = "nat (b - a + 1)"
  have "filter is_record chain = filter is_record (take ?n chain) @ filter is_record (slice a b chain) @ filter is_record (drop ?m (drop ?n chain))"
    unfolding slice_def filter_append [symmetric] by (simp only: append_take_drop_id)
  then have "map ae_Details (filter is_record (slice a b chain)) =
      take (length (filter is_record (slice a b chain))) (drop (length (filter is_record (take ?n chain))) (map ae_Details (filter is_record chain)))"
    by simp
  then have "map ae_Details (filter is_record (slice a b chain)) =
      map details_Map (take (length (filter is_record (slice a b chain))) (drop (length (filter is_record (take ?n chain))) ds))"
    unfolding assms by (simp add: take_map drop_map)
  then show thesis by (rule that)
qed

lemma next_hash_nonempty:
  assumes "follows x tenant chain p" "chain_ok sha tenant chain"
  shows "next_hash p \<noteq> []"
proof (cases p)
  case (Some q)
  with assms(1) have q: "1 \<le> le_ToSeq q" "le_ToSeq q \<le> int (length chain)" "le_EndHash q = ae_Hash (chain ! nat (le_ToSeq q - 1))"
    by (auto simp: follows_def row_shape_def)
  then have "chain ! nat (le_ToSeq q - 1) \<in> set chain" by (intro nth_mem) linarith
  then show ?thesis using assms(2) q(3) by (simp add: Some next_hash_def chain_ok_def list_all_iff)
qed (simp add: next_hash_def GenesisHash_def)

lemma Build_ok:
  "bi_Entries b \<noteq> [] \<Longrightarrow> bi_TenantID b \<noteq> [] \<Longrightarrow> bi_StartPrevHash b \<noteq> [] \<Longrightarrow>
     find (\<lambda>e. ae_TenantID e \<noteq> bi_TenantID b) (bi_Entries b) = None \<Longrightarrow>
     VerifyDocument sha (build_document rcp b) = Inr rep \<Longrightarrow> \<exists>bu. Build sha rcp b = Inr bu"
  by (simp add: Build_def Let_def)

lemma audit_Record_user:
  "ac_Tenant ctx \<noteq> [] \<Longrightarrow> ac_Requester ctx = Some r \<Longrightarrow> IsUser r \<Longrightarrow> rq_ID r \<noteq> [] \<Longrightarrow>
     \<exists>chain'. audit_Record sha ctx action rt rid details chain = Inr chain'"
  by (auto simp: audit_Record_def Let_def split: prod.split)

lemma cut_succeeds:
  assumes inv: "archive_inv sha x tenant st" and good: "good_sha sha" and none: "store_Pending (es_ledger st) = None"
    and new: "next_seq (last_opt None (es_ledger st)) \<le> int (length (es_chain st))"
    and small: "int (length (es_chain st)) + 1 < 2 ^ 62" and cap: "1 \<le> ws_MaxEntriesPerSegment (ex_settings x)"
    and stamps: "stamped (es_chain st)" "stampable (sv_RecordNow v)" and ids: "ex_actor x \<noteq> []" "tenant \<noteq> []" "sv_ID v \<notin> set (map le_ID (es_ledger st))"
    and v: "sv_CutOk v"
  shows "\<exists>st1 row bu. cut sha x tenant v st = Inr (st1, Some (row, bu)) \<and> stamped (es_chain st1) \<and> le_ID row = sv_ID v"
proof -
  define p where "p = last_opt None (es_ledger st)"
  define from1 where "from1 = next_seq p"
  define to1 where "to1 = min (int (length (es_chain st)) + 1) (from1 + ws_MaxEntriesPerSegment (ex_settings x) - 1)"
  have ok: "rows_ok sha x tenant st None (es_ledger st)" and chain: "chain_ok sha tenant (es_chain st)"
    using inv by (simp_all add: archive_inv_def)
  then have linked: "linked 0 GenesisHash (es_chain st)" by (simp add: chain_ok_def)
  have none1: "next_seq None = 1" "next_ordinal None = 1" by (simp_all add: next_seq_def next_ordinal_def)
  have p: "LastLanded (es_ledger st) = p" by (simp add: p_def LastLanded_rows [OF ok none])
  have case_p: "(case p of None \<Rightarrow> 1 | Some l \<Rightarrow> le_ToSeq l + 1) = from1" "(case p of None \<Rightarrow> GenesisHash | Some l \<Rightarrow> le_EndHash l) = next_hash p"
    "(case p of None \<Rightarrow> 1 | Some l \<Rightarrow> le_SegmentSeq l + 1) = next_ordinal p"
    by (simp_all add: from1_def next_seq_def next_hash_def next_ordinal_def)
  have ord: "1 \<le> next_ordinal p" "next_ordinal p \<le> next_seq p"
    using next_ordinal_seq [OF ok] by (simp_all add: none1 p_def)
  then have from1: "1 \<le> from1" "from1 \<le> int (length (es_chain st))" using new by (simp_all add: from1_def p_def)
  have to1: "from1 \<le> to1" "to1 \<le> int (length (es_chain st)) + 1" using cap from1 by (simp_all add: to1_def)
  define details where "details = \<lparr>rd_SegmentSeq = next_ordinal p, rd_SegmentID = sv_ID v, rd_FromSeq = from1, rd_ToSeq = to1,
      rd_Entries = to1 - from1 + 1, rd_ObjectKey = objectKey x tenant from1 to1, rd_ExportedAt = FormatInstant (truncate_micro (sv_Now v)),
      rd_PreviousDigest = previous_digest p, rd_PreCutoverThroughSeq = PreCutoverThrough from1 to1 (es_chain st), rd_FormatVersion = FormatVersion\<rparr>"
  obtain chain' where chain': "audit_Record sha (tenantContext x tenant v) ''audit.exported'' ''tenant'' tenant (Some (details_Map details)) (es_chain st) = Inr chain'"
    using audit_Record_user [of "tenantContext x tenant v"] ids(1,2) by (force simp: tenantContext_def IsUser_def)
  then obtain e where e: "chain' = es_chain st @ [e]" "ae_Hash e = ComputeHash sha e" "ae_HashVersion e = CurrentHashVersion"
    "ae_PrevHash e = (if es_chain st = [] then GenesisHash else ae_Hash (last (es_chain st)))"
    "ae_Seq e = (if es_chain st = [] then 1 else ae_Seq (last (es_chain st)) + 1)"
    "ae_Action e = AuditAction" "ae_ResourceType e = AuditResource" "ae_Details e = details_Map details" "ae_TenantID e = tenant"
    "ae_OccurredAt e = truncate_micro (sv_RecordNow v)"
    by (rule audit_Record_entry) (simp_all add: AuditAction_def AuditResource_def canonicalDetails_def tenantContext_def)
  note c' = chain_ok_record [OF chain good e(1-5,9)]
  then have linked': "linked 0 GenesisHash chain'" by (simp add: chain_ok_def)
  have to1': "to1 \<le> int (length chain')" using to1 by (simp add: e(1))
  have stamped': "stamped chain'"
    using stamps by (simp add: stamped_def e(1,10) stampable_truncate)
  define row where "row dig size1 = \<lparr>le_ID = sv_ID v, le_TenantID = tenant, le_SegmentSeq = next_ordinal p, le_FromSeq = from1, le_ToSeq = to1,
            le_Entries = to1 - from1 + 1, le_StartPrevHash = next_hash p, le_EndHash = ae_Hash (chain' ! nat (to1 - 1)),
            le_ObjectKey = objectKey x tenant from1 to1, le_FormatVersion = FormatVersion, le_Digest = dig,
            le_SizeBytes = size1, le_ExportedAt = truncate_micro (sv_Now v), le_Status = SegPending, le_Attempts = 0\<rparr>" for dig size1
  have shape: "row_shape x tenant chain' p (row [] 0)"
    using from1 to1 to1' by (simp add: row_shape_def row_def from1_def)
  let ?st' = "st\<lparr>es_chain := chain'\<rparr>"
  have ok': "rows_ok sha x tenant ?st' None (es_ledger st)"
    by (rule rows_ok_grow [OF ok, where new = "[e]"]) (simp_all add: e(1))
  have fol: "follows x tenant chain' p"
    using rows_follow [OF ok'] by (simp add: p_def)
  define DS where "DS = rows_details chain' None (es_ledger st @ [row [] 0])"
  have details: "row_details chain' p (row [] 0) = details"
    by (simp add: row_details_def row_def details_def e(1) PreCutoverThrough_snoc [OF c'(2)])
  have "map ae_Details (filter is_record chain') = map details_Map DS"
    using inv e(6-8) details by (simp add: archive_inv_def e(1) is_record_def DS_def rows_details_snoc row_details_snoc [OF c'(2)] p_def)
  then obtain i j where recs: "map ae_Details (filter is_record (slice from1 to1 chain')) = map details_Map (take j (drop i DS))"
    by (rule slice_records)
  have small': "int (length chain') < 2 ^ 62" using small by (simp add: e(1))
  have all: "list_all small_details (rows_details chain' None (es_ledger st))"
    using rows_details_small [OF ok'] c'(1) small' none1 by simp
  have "small_details (row_details chain' p (row [] 0))"
    by (rule row_details_small [OF shape c'(1) small' ord])
  with all have "list_all small_details DS"
    by (simp add: DS_def rows_details_snoc p_def)
  then have smalls: "list_all small_details (take j (drop i DS))"
    by (auto simp: list_all_iff dest!: in_set_takeD in_set_dropD)
  have "map le_SegmentSeq (es_ledger st) = map (\<lambda>k. 1 + int k) [0..<length (es_ledger st)]"
    using rows_ok_ordinals [OF ok] by (simp add: none1)
  moreover have "next_ordinal p = 1 + int (length (es_ledger st))"
  proof (cases "es_ledger st" rule: rev_cases)
    case Nil
    then show ?thesis by (simp add: p_def none1)
  next
    case (snoc qs q)
    then have "le_SegmentSeq q = 1 + int (length qs)" using rows_ok_nth [OF ok, of "length qs"] by (simp add: none1)
    then show ?thesis by (simp add: p_def snoc next_ordinal_def)
  qed
  ultimately have fresh: "next_ordinal p \<notin> set (map le_SegmentSeq (es_ledger st))" "distinct (map le_SegmentSeq (es_ledger st))"
    by (auto simp: distinct_map inj_on_def)
  have "map rd_SegmentSeq DS = map le_SegmentSeq (es_ledger st) @ [next_ordinal p]"
    by (simp add: DS_def rows_details_ordinals row_def)
  then have "distinct (map rd_SegmentSeq DS)" using fresh by simp
  then have dist: "distinct (map rd_SegmentSeq (take j (drop i DS)))"
    by (simp add: take_map [symmetric] drop_map [symmetric] distinct_take distinct_drop)
  have own: "\<forall>d \<in> set (take j (drop i DS)). rd_SegmentSeq d = le_SegmentSeq (row [] 0) \<longrightarrow> d = row_details chain' p (row [] 0)"
  proof (intro ballI impI)
    fix d assume d: "d \<in> set (take j (drop i DS))" "rd_SegmentSeq d = le_SegmentSeq (row [] 0)"
    have "rd_SegmentSeq q \<in> set (map le_SegmentSeq (es_ledger st))" if "q \<in> set (rows_details chain' None (es_ledger st))" for q
      using that rows_details_ordinals [of chain' None "es_ledger st"] by (metis imageI set_map)
    moreover have "d \<in> set DS" using d(1) by (auto dest!: in_set_takeD in_set_dropD)
    moreover have "rd_SegmentSeq d = next_ordinal p" using d(2) by (simp add: row_def)
    ultimately show "d = row_details chain' p (row [] 0)"
      using fresh(1) unfolding DS_def rows_details_snoc p_def [symmetric] set_append by (metis Un_iff empty_iff insert_iff list.set)
  qed
  have frto: "le_FromSeq (row [] 0) = from1" "le_ToSeq (row [] 0) = to1" by (simp_all add: row_def)
  obtain rep where rep: "VerifyDocument sha (row_doc x chain' p (row [] 0)) = Inr rep"
    using row_doc_verifies [OF shape fol c'(1) stamped', unfolded frto, OF recs smalls dist own] by blast
  define input where "input = \<lparr>bi_SegmentID = sv_ID v, bi_SegmentSeq = next_ordinal p, bi_TenantID = tenant, bi_ExportedAt = truncate_micro (sv_Now v),
         bi_StartPrevHash = next_hash p, bi_Entries = slice from1 to1 chain', bi_Previous = previousOf p\<rparr>"
  have doc: "build_document (ex_recipe x) input = row_doc x chain' p (row [] 0)"
    by (simp add: row_doc_def row_input_def input_def row_def)
  have len: "int (length (slice from1 to1 chain')) = to1 - from1 + 1"
    using length_slice [OF from1(1) to1'] to1 by simp
  have load: "LoadRange tenant from1 to1 chain' = Inr (slice from1 to1 chain')"
    using LoadRange_Inr [OF linked' from1(1)] len by blast
  have "next_hash p \<noteq> []" by (rule next_hash_nonempty [OF fol c'(1)])
  moreover have "find (\<lambda>e. ae_TenantID e \<noteq> tenant) (slice from1 to1 chain') = None"
    using c'(1) set_slice [of from1 to1 chain'] by (auto simp: find_None_iff chain_ok_def list_all_iff)
  moreover have "slice from1 to1 chain' \<noteq> []" by (rule last_slice(1) [OF from1(1) to1(1) to1'])
  ultimately have "\<exists>bu. Build sha (ex_recipe x) input = Inr bu"
    using ids(2) by (intro Build_ok [OF _ _ _ _ rep [folded doc]]) (simp_all add: input_def)
  then obtain bu where build: "Build sha (ex_recipe x) input = Inr bu" ..
  have "bu_Document bu = row_doc x chain' p (row [] 0)"
    using Build_Inr [OF build] by (simp add: doc Let_def)
  then have "cn_EndHash (do_Chain (bu_Document bu)) = ae_Hash (chain' ! nat (to1 - 1))"
    using row_doc_facts(10) [OF shape linked'] by (simp add: row_def)
  note hash = this
  have "from1 \<notin> set (map le_FromSeq (es_ledger st))"
    using rows_ok_upto [OF ok] by (auto simp: from1_def p_def)
  then have claim: "Claim (row (bu_Digest bu) (int (length (file_text (bu_File bu))))) (es_ledger st) =
      Inr (es_ledger st @ [row (bu_Digest bu) (int (length (file_text (bu_File bu))))])"
    using fresh(1) ids(3) none from1 to1
    by (simp add: Claim_def segment_checks_def row_def store_Pending_def find_None_iff list_all_iff)
  have "\<not> int (length (es_chain st)) < from1 - 1" "\<not> int (length (es_chain st)) < from1" using from1 by simp_all
  then have "cut sha x tenant v st = Inr (st\<lparr>es_chain := chain', es_ledger := es_ledger st @ [row (bu_Digest bu) (int (length (file_text (bu_File bu))))]\<rparr>,
      Some (row (bu_Digest bu) (int (length (file_text (bu_File bu)))), bu))"
    unfolding cut_def p Let_def case_p ChainHead_linked [OF linked] to1_def [symmetric] previous_digest_def [symmetric] details_def [symmetric]
    using v by (simp add: chain' load build [unfolded input_def] hash len row_def [symmetric] claim)
  then show ?thesis using stamped' by (intro exI conjI) (assumption, simp_all add: row_def)
qed

section \<open>Catching up\<close>

definition faultless :: "step_env \<Rightarrow> bool" where
  "faultless v \<longleftrightarrow> sv_ReadOk v \<and> sv_CutOk v \<and> sv_RebuildOk v \<and> sv_Put v = PutOk \<and> sv_ConfirmOk v \<and> stampable (sv_RecordNow v)"

text \<open>The entries that are not in the archive yet.\<close>

definition owed :: "export_state \<Rightarrow> int" where
  "owed st = int (length (es_chain st)) - exported_through st"

lemma archived_up: "list_all (\<lambda>q. \<not> pending q) rs \<Longrightarrow> filter (\<lambda>q. \<not> pending q) rs = rs"
  by (simp add: filter_id_conv list_all_iff)

lemma pending_uploaded [simp]: "\<not> pending (r\<lparr>le_Status := SegUploaded\<rparr>)"
  by (simp add: pending_def)

lemma pending_step:
  assumes inv: "archive_inv sha x tenant st" and some: "store_Pending (es_ledger st) = Some row" and v: "faultless v" and tenant: "tenant \<noteq> []"
  shows "\<exists>st1 rep1. worm_step sha x tenant v st rep = (st1, rep1, Inr True) \<and> rr_AtBudget rep1 = rr_AtBudget rep \<and> es_chain st1 = es_chain st \<and>
    map le_ID (es_ledger st1) = map le_ID (es_ledger st) \<and> owed st1 < owed st"
proof -
  have ok: "rows_ok sha x tenant st None (es_ledger st)" and chain: "chain_ok sha tenant (es_chain st)"
    using inv by (simp_all add: archive_inv_def)
  then have linked: "linked 0 GenesisHash (es_chain st)" by (simp add: chain_ok_def)
  obtain rs where rs: "es_ledger st = rs @ [row]" "list_all (\<lambda>q. \<not> pending q) rs" "pending row"
    using store_Pending_last [OF ok some] by blast
  have r: "row_ok sha x tenant st (last_opt None rs) row" using ok by (simp add: rs(1) rows_ok_snoc)
  have b: "1 \<le> le_FromSeq row" "le_FromSeq row \<le> le_ToSeq row" "le_ToSeq row \<le> int (length (es_chain st))" "le_FromSeq row = next_seq (last_opt None rs)"
    "le_StartPrevHash row = next_hash (last_opt None rs)" "le_FormatVersion row = FormatVersion"
    using r by (simp_all add: row_ok_def row_shape_def)
  let ?es = "slice (le_FromSeq row) (le_ToSeq row) (es_chain st)"
  let ?input = "\<lparr>bi_SegmentID = le_ID row, bi_SegmentSeq = le_SegmentSeq row, bi_TenantID = tenant, bi_ExportedAt = le_ExportedAt row,
        bi_StartPrevHash = le_StartPrevHash row, bi_Entries = ?es,
        bi_Previous = previousOf (store_Before (le_SegmentSeq row) (es_ledger st))\<rparr>"
  have doc: "build_document (ex_recipe x) ?input = row_doc x (es_chain st) (last_opt None rs) row"
    using r store_Before_last [OF inv rs(1)] by (simp add: row_doc_def row_input_def row_ok_def row_shape_def)
  have "rows_ok sha x tenant st None rs" using ok by (simp add: rs(1) rows_ok_snoc)
  then have "next_hash (last_opt None rs) \<noteq> []"
    by (rule next_hash_nonempty [OF rows_follow chain])
  moreover have "find (\<lambda>e. ae_TenantID e \<noteq> tenant) ?es = None"
    using chain set_slice [of "le_FromSeq row" "le_ToSeq row" "es_chain st"] by (auto simp: find_None_iff chain_ok_def list_all_iff)
  moreover have "?es \<noteq> []" by (rule last_slice(1) [OF b(1-3)])
  moreover obtain rep0 where "VerifyDocument sha (row_doc x (es_chain st) (last_opt None rs) row) = Inr rep0"
    using r by (auto simp: row_ok_def)
  then have "VerifyDocument sha (build_document (ex_recipe x) ?input) = Inr rep0" unfolding doc .
  ultimately have "\<exists>bu. Build sha (ex_recipe x) ?input = Inr bu"
    using tenant b(5) by (intro Build_ok) simp_all
  then obtain bu where bu: "Build sha (ex_recipe x) ?input = Inr bu" ..
  have dig: "bu_Digest bu = le_Digest row"
    using Build_Inr [OF bu] r unfolding doc by (simp add: row_ok_def Let_def)
  have "LoadRange tenant (le_FromSeq row) (le_ToSeq row) (es_chain st) = Inr ?es"
    using LoadRange_Inr [OF linked b(1)] length_slice [OF b(1,3)] b(2) by simp
  then have reb: "rebuild sha x tenant row st = Inr (st, bu)"
    by (simp add: rebuild_def bu dig b(6))
  let ?up = "row\<lparr>le_Status := SegUploaded, le_Attempts := le_Attempts row\<rparr>"
  have "upload_segment v row bu st = (st\<lparr>es_objects := (es_objects st)(le_ObjectKey row \<mapsto> bu_File bu), es_ledger := rs @ [?up]\<rparr>, Inr ())"
    using v map_last_pending(1) [OF rs(2,3)] by (simp add: upload_segment_def faultless_def rs(1))
  then have step: "worm_step sha x tenant v st rep = (st\<lparr>es_objects := (es_objects st)(le_ObjectKey row \<mapsto> bu_File bu), es_ledger := rs @ [?up]\<rparr>,
      rep\<lparr>rr_Segments := rr_Segments rep + 1, rr_Resumed := rr_Resumed rep + 1, rr_Entries := rr_Entries rep + le_Entries row\<rparr>, Inr True)"
    using v by (simp add: worm_step_def faultless_def some finish_def reb)
  have "owed (st\<lparr>es_objects := (es_objects st)(le_ObjectKey row \<mapsto> bu_File bu), es_ledger := rs @ [?up]\<rparr>) < owed st"
    using b(1,2,4) rs(3) by (simp add: owed_def exported_through_def archived_rows_def rs(1) archived_up [OF rs(2)] next_seq_def [of "Some _"])
  with step show ?thesis by (simp add: rs(1))
qed

lemma cut_step:
  assumes inv: "archive_inv sha x tenant st" and good: "good_sha sha" and none: "store_Pending (es_ledger st) = None" and v: "faultless v"
    and new: "0 < owed st" and small: "int (length (es_chain st)) + 1 < 2 ^ 62" and cap: "2 \<le> ws_MaxEntriesPerSegment (ex_settings x)"
    and stamps: "stamped (es_chain st)" and ids: "ex_actor x \<noteq> []" "tenant \<noteq> []" "sv_ID v \<notin> set (map le_ID (es_ledger st))"
  shows "\<exists>st1 rep1. worm_step sha x tenant v st rep = (st1, rep1, Inr True) \<and> rr_AtBudget rep1 = rr_AtBudget rep \<and>
    length (es_chain st1) = Suc (length (es_chain st)) \<and> stamped (es_chain st1) \<and>
    map le_ID (es_ledger st1) = map le_ID (es_ledger st) @ [sv_ID v] \<and> owed st1 < owed st"
proof -
  have up: "list_all (\<lambda>q. \<not> pending q) (es_ledger st)"
    using none by (auto simp: store_Pending_def find_None_iff list_all_iff)
  have through: "exported_through st = next_seq (last_opt None (es_ledger st)) - 1"
    by (simp add: exported_through_def archived_rows_def archived_up [OF up])
  have cap1: "1 \<le> ws_MaxEntriesPerSegment (ex_settings x)" using cap by simp
  have new': "next_seq (last_opt None (es_ledger st)) \<le> int (length (es_chain st))" using new by (simp add: owed_def through)
  have "stampable (sv_RecordNow v)" "sv_CutOk v" using v by (simp_all add: faultless_def)
  with cut_succeeds [OF inv good none new' small cap1 stamps _ ids] obtain st1 row bu where
    cut: "cut sha x tenant v st = Inr (st1, Some (row, bu))" "stamped (es_chain st1)" "le_ID row = sv_ID v" by blast
  note c = cut_row [OF inv good none cut(1) cap1]
  let ?up = "row\<lparr>le_Status := SegUploaded, le_Attempts := le_Attempts row\<rparr>"
  let ?st2 = "st1\<lparr>es_objects := (es_objects st1)(le_ObjectKey row \<mapsto> bu_File bu), es_ledger := es_ledger st @ [?up]\<rparr>"
  have "upload_segment v row bu st1 = (?st2, Inr ())"
    using v map_last_pending(1) [OF up c(3)] by (simp add: upload_segment_def faultless_def c(2))
  then have step: "worm_step sha x tenant v st rep = (?st2,
      rep\<lparr>rr_Segments := rr_Segments rep + 1, rr_Entries := rr_Entries rep + le_Entries row\<rparr>, Inr True)"
    using v by (simp add: worm_step_def faultless_def none cut(1) finish_def)
  have "owed ?st2 < owed st"
    using c(5,6) new' cap by (simp add: owed_def through exported_through_def archived_rows_def archived_up [OF up] next_seq_def [of "Some _"])
  with step c(6) cut(2,3) show ?thesis by simp
qed

lemma quiet_step:
  assumes inv: "archive_inv sha x tenant st" and none: "store_Pending (es_ledger st) = None" and v: "faultless v" and "owed st = 0"
  shows "worm_step sha x tenant v st rep = (st, rep, Inr False)"
proof -
  have ok: "rows_ok sha x tenant st None (es_ledger st)" and linked: "linked 0 GenesisHash (es_chain st)"
    using inv by (simp_all add: archive_inv_def chain_ok_def)
  have "list_all (\<lambda>q. \<not> pending q) (es_ledger st)"
    using none by (auto simp: store_Pending_def find_None_iff list_all_iff)
  then have "next_seq (last_opt None (es_ledger st)) = int (length (es_chain st)) + 1"
    using assms(4) by (simp add: owed_def exported_through_def archived_rows_def archived_up)
  then have "(case last_opt None (es_ledger st) of None \<Rightarrow> 1 | Some l \<Rightarrow> le_ToSeq l + 1) = int (length (es_chain st)) + 1"
    by (simp add: next_seq_def)
  then have "cut sha x tenant v st = Inr (st, None)"
    by (simp add: cut_def LastLanded_rows [OF ok none] Let_def ChainHead_linked [OF linked])
  with v none show ?thesis by (simp add: worm_step_def faultless_def)
qed

lemma owed_nonneg:
  assumes "archive_inv sha x tenant st"
  shows "0 \<le> owed st" "owed st = 0 \<Longrightarrow> store_Pending (es_ledger st) = None"
proof -
  have ok: "rows_ok sha x tenant st None (es_ledger st)" using assms by (simp add: archive_inv_def)
  have bound: "next_seq (last_opt None rs) \<le> int (length (es_chain st)) + 1" if "rows_ok sha x tenant st None rs" for rs
  proof (cases rs rule: rev_cases)
    case (snoc qs q)
    with that show ?thesis by (simp add: rows_ok_snoc row_ok_def row_shape_def next_seq_def)
  qed (simp add: next_seq_def)
  obtain us ps where us: "es_ledger st = us @ ps" "filter (\<lambda>r. \<not> pending r) (es_ledger st) = us" "rows_ok sha x tenant st None us" "list_all pending ps"
    using archived_split [OF ok] by metis
  have owed: "owed st = int (length (es_chain st)) - (next_seq (last_opt None us) - 1)"
    by (simp add: owed_def exported_through_def archived_rows_def us(2))
  with bound [OF us(3)] show "0 \<le> owed st" by simp
  show "store_Pending (es_ledger st) = None" if "owed st = 0"
  proof (cases ps)
    case Nil
    have "list_all (\<lambda>r. \<not> pending r) (filter (\<lambda>r. \<not> pending r) (es_ledger st))" by (simp add: list_all_iff)
    then have "list_all (\<lambda>r. \<not> pending r) (es_ledger st)" unfolding us(2) by (simp add: us(1) Nil)
    then show ?thesis by (simp add: store_Pending_def find_None_iff list_all_iff)
  next
    case (Cons r rs)
    have "rows_ok sha x tenant st None ((us @ [r]) @ rs)" using ok by (simp add: us(1) Cons)
    then have "row_ok sha x tenant st (last_opt None us) r" by (rule rows_ok_middle)
    then have "next_seq (last_opt None us) \<le> int (length (es_chain st))" by (simp add: row_ok_def row_shape_def)
    with owed that show ?thesis by simp
  qed
qed

text \<open>A pass without faults, given a fresh identifier for every step and room for one more step than entries owed.\<close>

lemma pass_catches_up_aux:
  "archive_inv sha x tenant st \<Longrightarrow> good_sha sha \<Longrightarrow> 2 \<le> ws_MaxEntriesPerSegment (ex_settings x) \<Longrightarrow> stamped (es_chain st) \<Longrightarrow>
     ex_actor x \<noteq> [] \<Longrightarrow> tenant \<noteq> [] \<Longrightarrow> list_all faultless vs \<Longrightarrow> distinct (map le_ID (es_ledger st) @ map sv_ID vs) \<Longrightarrow>
     int (length (es_chain st)) + int (length vs) < 2 ^ 62 \<Longrightarrow> owed st < int (length vs) \<Longrightarrow>
     \<exists>st' rep'. exportTenant sha x tenant (map Some vs) st rep = (st', rep', Inr ()) \<and> rr_AtBudget rep' = rr_AtBudget rep \<and>
       archive_inv sha x tenant st' \<and> owed st' = 0 \<and> length (es_chain st) \<le> length (es_chain st') \<and> length (es_chain st') \<le> length (es_chain st) + length vs"
proof (induction vs arbitrary: st rep)
  case Nil
  then show ?case using owed_nonneg(1) [of sha x tenant st] by simp
next
  case (Cons v vs)
  note inv = Cons.prems(1)
  have v: "faultless v" using Cons.prems(7) by simp
  have next_inv: "archive_inv sha x tenant st1" if "worm_step sha x tenant v st rep = (st1, rep1, r)" for st1 rep1 r
    using archive_step [OF inv Cons.prems(2), of v rep] Cons.prems(3) that by simp
  show ?case
  proof (cases "owed st = 0")
    case True
    from quiet_step [OF inv owed_nonneg(2) [OF inv True] v True] show ?thesis
      using True inv by simp
  next
    case False
    with owed_nonneg(1) [OF inv] have pos: "0 < owed st" by simp
    obtain st1 rep1 where step: "worm_step sha x tenant v st rep = (st1, rep1, Inr True)" "rr_AtBudget rep1 = rr_AtBudget rep"
      "stamped (es_chain st1)" "length (es_chain st1) \<le> Suc (length (es_chain st))" "length (es_chain st) \<le> length (es_chain st1)"
      "distinct (map le_ID (es_ledger st1) @ map sv_ID vs)" "owed st1 < owed st"
    proof (cases "store_Pending (es_ledger st)")
      case None
      have small: "int (length (es_chain st)) + 1 < 2 ^ 62" using Cons.prems(9) by simp
      have fresh: "sv_ID v \<notin> set (map le_ID (es_ledger st))" using Cons.prems(8) by auto
      from cut_step [OF inv Cons.prems(2) None v pos small Cons.prems(3-6) fresh, of rep] obtain st1 rep1 where
        "worm_step sha x tenant v st rep = (st1, rep1, Inr True)" "rr_AtBudget rep1 = rr_AtBudget rep" "stamped (es_chain st1)"
        "length (es_chain st1) = Suc (length (es_chain st))" "map le_ID (es_ledger st1) = map le_ID (es_ledger st) @ [sv_ID v]" "owed st1 < owed st"
        by blast
      then show thesis using that [of st1 rep1] Cons.prems(8) by simp
    next
      case (Some row)
      from pending_step [OF inv Some v Cons.prems(6), of rep] obtain st1 rep1 where
        "worm_step sha x tenant v st rep = (st1, rep1, Inr True)" "rr_AtBudget rep1 = rr_AtBudget rep" "es_chain st1 = es_chain st"
        "map le_ID (es_ledger st1) = map le_ID (es_ledger st)" "owed st1 < owed st"
        by blast
      then show thesis using that [of st1 rep1] Cons.prems(4,8) by simp
    qed
    have "\<exists>st' rep'. exportTenant sha x tenant (map Some vs) st1 rep1 = (st', rep', Inr ()) \<and> rr_AtBudget rep' = rr_AtBudget rep1 \<and>
        archive_inv sha x tenant st' \<and> owed st' = 0 \<and> length (es_chain st1) \<le> length (es_chain st') \<and> length (es_chain st') \<le> length (es_chain st1) + length vs"
      using next_inv [OF step(1)] step Cons.prems by (intro Cons.IH) simp_all
    then show ?thesis using step(1,2,4,5) by fastforce
  qed
qed

section \<open>Tenants apart\<close>

lemma worm_step_rep: "fst (worm_step sha x tenant v st rep) = fst (worm_step sha x tenant v st rep')"
  "snd (snd (worm_step sha x tenant v st rep)) = snd (snd (worm_step sha x tenant v st rep'))"
  by (simp_all add: worm_step_def split: option.split sum.split prod.split)

lemma exportTenant_rep: "fst (exportTenant sha x tenant vs st rep) = fst (exportTenant sha x tenant vs st rep')"
proof (induction vs arbitrary: st rep rep')
  case (Cons o1 vs)
  show ?case
  proof (cases o1)
    case (Some v)
    obtain st1 rep1 r where a: "worm_step sha x tenant v st rep = (st1, rep1, r)" by (cases "worm_step sha x tenant v st rep")
    obtain st2 rep2 q where b: "worm_step sha x tenant v st rep' = (st2, rep2, q)" by (cases "worm_step sha x tenant v st rep'")
    have "st1 = st2" "r = q" using worm_step_rep [of sha x tenant v st rep rep'] by (simp_all add: a b)
    with Some a b Cons.IH show ?thesis by (cases r) auto
  qed simp
qed simp

text \<open>
  A pass takes every tenant as far as its own steps allow, whatever the other tenants' steps met.
\<close>

lemma run_tenants_apart:
  "distinct (map fst ts) \<Longrightarrow>
     fst (run_tenants sha x (map Some ts) w rep) t =
       (case map_of ts t of None \<Rightarrow> w t | Some vs \<Rightarrow> fst (exportTenant sha x t vs (w t) rep0))"
proof (induction ts arbitrary: w rep)
  case (Cons p ts)
  obtain u vs where p: "p = (u, vs)" by (cases p)
  obtain st rep1 res where e: "exportTenant sha x u vs (w u) rep = (st, rep1, res)" by (cases "exportTenant sha x u vs (w u) rep")
  define rep2 where "rep2 = (case res of
              Inl m \<Rightarrow> rep1\<lparr>rr_TenantsFailed := rr_TenantsFailed rep1 + 1\<rparr>
            | Inr _ \<Rightarrow> if rr_Segments rep1 > rr_Segments rep then rep1\<lparr>rr_TenantsExported := rr_TenantsExported rep1 + 1\<rparr> else rep1)"
  have "fst (run_tenants sha x (map Some (p # ts)) w rep) = fst (run_tenants sha x (map Some ts) (w(u := st)) rep2)"
    by (simp add: p e rep2_def Let_def split: prod.split)
  moreover have "map_of ts u = None" using Cons.prems by (simp add: p map_of_eq_None_iff)
  moreover have "st = fst (exportTenant sha x u vs (w u) rep0)"
    using exportTenant_rep [of sha x u vs "w u" rep rep0] by (simp add: e)
  moreover have "fst (run_tenants sha x (map Some ts) (w(u := st)) rep2) t =
      (case map_of ts t of None \<Rightarrow> (w(u := st)) t | Some vs \<Rightarrow> fst (exportTenant sha x t vs ((w(u := st)) t) rep0))"
    using Cons.prems by (intro Cons.IH) simp
  ultimately have "fst (run_tenants sha x (map Some (p # ts)) w rep) t =
      (case map_of ts t of None \<Rightarrow> (w(u := st)) t | Some vs \<Rightarrow> fst (exportTenant sha x t vs ((w(u := st)) t) rep0))" "map_of ts u = None"
    "st = fst (exportTenant sha x u vs (w u) rep0)"
    by metis+
  then show ?case by (cases "t = u") (simp_all add: p del: run_tenants.simps split: option.split)
qed simp

end
