(* ===== verification/WormProps.thy ===== *)
theory WormProps
  imports WormCatchUp
begin

text \<open>
  The properties of the export: what the object store holds is the chain, in segments that pass the
  verifier; a pass catches up; and a digest outside the archive pins the archive it ends.
\<close>

section \<open>The archive and the chain\<close>

lemma sealHeaders_rows:
  assumes inv: "archive_inv sha x tenant st" and rows: "es_ledger st = us @ ps" "rows_ok sha x tenant st None us"
    and small: "int (length (es_chain st)) < 2 ^ 62"
  shows "\<exists>u. sealHeaders (rows_reports sha x (es_chain st) None us) = Inr (u, [])"
proof -
  have chain: "chain_ok sha tenant (es_chain st)" and ok: "rows_ok sha x tenant st None (us @ ps)"
    and recs: "map ae_Details (filter is_record (es_chain st)) = map details_Map (rows_details (es_chain st) None (us @ ps))"
    using inv rows by (simp_all add: archive_inv_def)
  then have linked: "linked 0 GenesisHash (es_chain st)" by (simp add: chain_ok_def)
  define ds where "ds = rows_details (es_chain st) None (us @ ps)"
  define n where "n = nat (next_seq (last_opt None us) - 1)"
  define k where "k = length (filter is_record (take n (es_chain st)))"
  let ?reps = "rows_reports sha x (es_chain st) None us"
  have "next_seq None = 1" "next_ordinal None = 1" by (simp_all add: next_seq_def next_ordinal_def)
  note none = this
  have entries: "concat (map (\<lambda>r. do_Entries (wr_Document r)) ?reps) = map FromAuditEntry (take n (es_chain st))"
    using rows_docs_entries [OF rows(2) linked] arg_cong [OF rows_reports_docs [OF rows(2) linked], of "\<lambda>l. concat (map do_Entries l)"]
    by (simp add: none n_def slice_from_1 comp_def)
  have small_ds: "list_all small_details ds"
    unfolding ds_def by (rule rows_details_small [OF ok chain small]) (simp_all add: none)
  have "filter is_record (es_chain st) = filter is_record (take n (es_chain st)) @ filter is_record (drop n (es_chain st))"
    by (metis append_take_drop_id filter_append)
  then have "map ae_Details (filter is_record (take n (es_chain st))) = take k (map ae_Details (filter is_record (es_chain st)))"
    by (simp add: k_def)
  then have details: "map ae_Details (filter is_record (take n (es_chain st))) = map details_Map (take k ds)"
    by (simp add: recs ds_def take_map)
  have "map read_record (map details_Map (take k ds)) = map (\<lambda>d. Some (sealed_record d)) (take k ds)"
    using small_ds rows_details_read by (auto simp: list_all_iff dest: in_set_takeD)
  then have read: "map (\<lambda>e. read_record (se_Details e)) (filter is_export_record (concat (map (\<lambda>r. do_Entries (wr_Document r)) ?reps))) =
      map (\<lambda>d. Some (sealed_record d)) (take k ds)"
    by (simp only: entries records_of_entries details)
  have ordinals: "map rd_SegmentSeq ds = map (\<lambda>j. 1 + int j) [0..<length ds]"
    using rows_ok_ordinals [OF ok] by (simp add: ds_def rows_details_ordinals none)
  have nth: "rd_SegmentSeq (ds ! j) = 1 + int j" if "j < length ds" for j
  proof -
    have "rd_SegmentSeq (ds ! j) = map rd_SegmentSeq ds ! j" using that by simp
    also have "\<dots> = 1 + int j" unfolding ordinals using that by simp
    finally show ?thesis .
  qed
  have dist: "distinct (map rd_SegmentSeq (take k ds))"
    by (simp add: take_map [symmetric] ordinals distinct_map inj_on_def)
  have collect: "collectRecords ?reps [] = Inr (keyed (take k ds))"
    using collectRecords_keyed [OF read, of "[]"] dist by simp
  have len: "length us \<le> length ds"
    by (simp add: ds_def)
  have look: "map_of (keyed (take k ds)) (next_ordinal None + int j) =
      (if j < k then Some (sealed_record (rows_details (es_chain st) None us ! j)) else None)" if "j < length us" for j
  proof (cases "j < k")
    case True
    have j: "j < length ds" "j < length (rows_details (es_chain st) None us)"
      using that len by simp_all
    then have "rows_details (es_chain st) None us ! j = ds ! j"
      by (simp add: ds_def rows_details_append nth_append)
    moreover have "ds ! j \<in> set (take k ds)" using True j by (metis length_take min_less_iff_conj nth_mem nth_take)
    then have "(1 + int j, sealed_record (ds ! j)) \<in> set (keyed (take k ds))" using nth [OF j(1)] by force
    then have "map_of (keyed (take k ds)) (1 + int j) = Some (sealed_record (ds ! j))"
      using dist by (intro map_of_is_SomeI) (simp_all add: comp_def)
    ultimately show ?thesis using True by (simp add: none)
  next
    case False
    have "1 + int j \<notin> rd_SegmentSeq ` set (take k ds)"
    proof
      assume "1 + int j \<in> rd_SegmentSeq ` set (take k ds)"
      then obtain i where "i < k" "i < length ds" "rd_SegmentSeq (ds ! i) = 1 + int j" by (auto simp: in_set_conv_nth)
      with nth [of i] False show False by simp
    qed
    then have "map_of (keyed (take k ds)) (1 + int j) = None" by (force simp: map_of_eq_None_iff)
    with False show ?thesis by (simp add: none)
  qed
  have "\<exists>u. sealLoop (keyed (take k ds)) 0 [] ?reps = Inr (u, [])"
    by (rule sealLoop_rows [OF chain rows(2), of _ k 0]) (use look in auto)
  then show ?thesis by (simp add: sealHeaders_def collect)
qed

lemma rows_reports_sum:
  "rows_ok sha x tenant st p rs \<Longrightarrow> linked 0 GenesisHash (es_chain st) \<Longrightarrow>
     sum_list (map wr_Entries (rows_reports sha x (es_chain st) p rs)) = next_seq (last_opt p rs) - next_seq p \<and>
     (rs \<noteq> [] \<longrightarrow> wr_ToSeq (last (rows_reports sha x (es_chain st) p rs)) = next_seq (last_opt p rs) - 1) \<and>
     list_all (\<lambda>r. \<exists>q \<in> set rs. wr_Digest r = le_Digest q) (rows_reports sha x (es_chain st) p rs)"
proof (induction rs arbitrary: p)
  case (Cons r rs)
  have ok: "row_ok sha x tenant st p r" using Cons.prems by simp
  note R = row_report_facts [OF ok Cons.prems(2)] and IH = Cons.IH [of "Some r"]
  have "le_Entries r = next_seq (Some r) - next_seq p" "le_ToSeq r = next_seq (Some r) - 1"
    using ok by (simp_all add: row_ok_def row_shape_def next_seq_def)
  moreover have "rows_reports sha x (es_chain st) (Some r) rs = [] \<longleftrightarrow> rs = []" by (cases rs) simp_all
  ultimately show ?case
    using IH Cons.prems R by (auto simp: last_opt_Cons list_all_iff)
qed simp

lemma archive_verifies:
  assumes inv: "archive_inv sha x tenant st" and good: "good_sha sha" and small: "int (length (es_chain st)) < 2 ^ 62"
  shows "\<exists>docs. map fi_Segment (archive st) = map segment_text docs \<and>
    concat (map do_Entries docs) = map FromAuditEntry (take (nat (exported_through st)) (es_chain st)) \<and>
    (\<forall>decode. archive st \<noteq> [] \<and> (\<forall>d \<in> set docs. decode (segment_text d) = Some d) \<longrightarrow>
      (\<exists>reports sr. map (VerifyFile sha decode) (archive st) = map Inr reports \<and> VerifySeries reports = Inr sr \<and>
        sr_TenantID sr = tenant \<and> sr_Genesis sr \<and> sr_FromSeq sr = 1 \<and> sr_ToSeq sr = exported_through st \<and>
        sr_Entries sr = exported_through st \<and> sr_PreSealHeaders sr = []))"
proof -
  have chain: "chain_ok sha tenant (es_chain st)" and ok: "rows_ok sha x tenant st None (es_ledger st)"
    using inv by (simp_all add: archive_inv_def)
  then have linked: "linked 0 GenesisHash (es_chain st)" by (simp add: chain_ok_def)
  obtain us ps where us: "es_ledger st = us @ ps" "filter (\<lambda>r. \<not> pending r) (es_ledger st) = us" "rows_ok sha x tenant st None us"
    using archived_split [OF ok] by metis
  have "list_all (\<lambda>r. \<not> pending r) (filter (\<lambda>r. \<not> pending r) (es_ledger st))" by (simp add: list_all_iff)
  then have up: "list_all (\<lambda>r. \<not> pending r) us" by (simp only: us(2))
  let ?docs = "rows_docs x (es_chain st) None us" and ?reps = "rows_reports sha x (es_chain st) None us"
  have arch: "archive st = rows_files sha x (es_chain st) None us" "exported_through st = next_seq (last_opt None us) - 1"
    by (simp_all add: archive_def exported_through_def archived_rows_def us(2) rows_files_stored [OF us(3) up])
  have entries: "concat (map do_Entries ?docs) = map FromAuditEntry (take (nat (exported_through st)) (es_chain st))"
    using rows_docs_entries [OF us(3) linked] by (simp add: next_seq_def [of None] slice_from_1 arch(2))
  have series: "\<exists>sr. VerifySeries ?reps = Inr sr \<and> sr_TenantID sr = tenant \<and> sr_Genesis sr \<and> sr_FromSeq sr = 1 \<and>
      sr_ToSeq sr = exported_through st \<and> sr_Entries sr = exported_through st \<and> sr_PreSealHeaders sr = []" if ne: "us \<noteq> []"
  proof -
    obtain r rs where r: "us = r # rs" using ne by (cases us) auto
    have rok: "row_ok sha x tenant st None r" using us(3) r by simp
    note R = row_report_facts [OF rok linked] and S = rows_reports_sum [OF us(3) linked]
    have start: "le_FromSeq r = 1" "le_StartPrevHash r = GenesisHash" using rok by (simp_all add: row_ok_def row_shape_def next_seq_def next_hash_def)
    have hd: "?reps \<noteq> []" "hd ?reps = row_report sha x (es_chain st) None r" by (simp_all add: r)
    have "\<forall>q \<in> set us. le_Digest q \<noteq> []"
    proof -
      have "\<forall>q \<in> set rs. le_Digest q \<noteq> []" if "rows_ok sha x tenant st p rs" for p rs
        using that
      proof (induction rs arbitrary: p)
        case (Cons q rs)
        have "le_Digest q \<noteq> []" using Cons.prems good unfolding rows_ok.simps row_ok_def good_sha_def by metis
        with Cons show ?case by auto
      qed simp
      from this [OF us(3)] show ?thesis .
    qed
    then have find: "find (\<lambda>r. wr_Digest r = []) ?reps = None"
      using S by (fastforce simp: find_None_iff list_all_iff)
    obtain through where anchor: "anchorLoop (hd ?reps) (wr_Genesis (hd ?reps)) 0 ?reps = Inr through"
      using anchorLoop_rows [OF us(3) chain, of "wr_Genesis (hd ?reps)" "hd ?reps" 0] by (auto simp: hd R(7) start(2) next_seq_def)
    obtain u where seal: "sealHeaders ?reps = Inr (u, [])"
      using sealHeaders_rows [OF inv us(1,3) small] by blast
    have "VerifySeries ?reps = Inr \<lparr>sr_TenantID = wr_TenantID (hd ?reps), sr_Segments = int (length ?reps), sr_FromSeq = wr_FromSeq (hd ?reps),
        sr_ToSeq = wr_ToSeq (last ?reps), sr_Entries = sum_list (map wr_Entries ?reps), sr_Genesis = wr_Genesis (hd ?reps),
        sr_PreCutoverThroughSeq = through, sr_UnsealedFrom = u, sr_PreSealHeaders = []\<rparr>"
      unfolding VerifySeries_def Let_def find joinsLoop_rows [OF us(3) linked] anchor seal using hd(1) by simp
    then show ?thesis
      using S ne start by (simp add: hd(2) R arch(2) next_seq_def [of None])
  qed
  have "us \<noteq> []" if "archive st \<noteq> []" using that arch(1) by auto
  then show ?thesis
    using series rows_files_texts [of sha x "es_chain st" None us] entries rows_files_verify [OF us(3)]
    by (intro exI [of _ ?docs] conjI) (auto simp: arch(1) intro!: exI [of _ ?reps])
qed

text \<open>
  Property C6. What the object store holds is the chain. Whatever happened to the exporter's
  steps - reads, commits and uploads that failed, uploads that landed all the same, confirmations
  that were lost - and whatever else was recorded meanwhile, the stored segments of a tenant carry,
  one after the other, exactly the entries of the chain from its first to the last exported one;
  every file passes the check of a file, and together they pass the check of a series from
  genesis, with every header that a record covers in agreement with it.
\<close>

theorem archive_is_the_chain:
  assumes "archive_reach sha (NewExporter settings actor rcp) tenant st" "good_sha sha" "int (length (es_chain st)) < 2 ^ 62"
  shows "\<exists>docs. map fi_Segment (archive st) = map segment_text docs \<and>
    concat (map do_Entries docs) = map FromAuditEntry (take (nat (exported_through st)) (es_chain st)) \<and>
    (\<forall>decode. archive st \<noteq> [] \<and> (\<forall>d \<in> set docs. decode (segment_text d) = Some d) \<longrightarrow>
      (\<exists>reports sr. map (VerifyFile sha decode) (archive st) = map Inr reports \<and> VerifySeries reports = Inr sr \<and>
        sr_TenantID sr = tenant \<and> sr_Genesis sr \<and> sr_FromSeq sr = 1 \<and> sr_ToSeq sr = exported_through st \<and>
        sr_Entries sr = exported_through st \<and> sr_PreSealHeaders sr = []))"
proof -
  have "1 \<le> ws_MaxEntriesPerSegment (ex_settings (NewExporter settings actor rcp))"
    by (simp add: NewExporter_def worm_withDefaults_def minEntriesPerSegment_def Let_def)
  then show ?thesis
    using assms by (intro archive_verifies archive_reach_inv)
qed

text \<open>
  Property C18. The exporter catches up. From any state its steps and failures can leave, a pass that
  meets no fault, takes a fresh identifier for every segment and has more steps than there are
  entries left to export ends without an error and before its budget: nothing is pending, and the
  last stored segment ends at the head of the chain, its own record included. Every entry's
  instant must be one the format can state.
\<close>

theorem pass_catches_up:
  assumes "archive_reach sha (NewExporter settings actor rcp) tenant st" "good_sha sha" "actor \<noteq> []" "tenant \<noteq> []" "stamped (es_chain st)"
    "list_all faultless vs" "distinct (map le_ID (es_ledger st) @ map sv_ID vs)"
    "int (length vs) = ws_MaxSegmentsPerRun (ex_settings (NewExporter settings actor rcp))" "owed st < int (length vs)"
    "int (length (es_chain st)) + int (length vs) < 2 ^ 62"
  shows "\<exists>st' rep'. exportTenant sha (NewExporter settings actor rcp) tenant (map Some vs) st rep = (st', rep', Inr ()) \<and>
    rr_AtBudget rep' = rr_AtBudget rep \<and> store_Pending (es_ledger st') = None \<and> exported_through st' = int (length (es_chain st'))"
proof -
  let ?x = "NewExporter settings actor rcp"
  have cap: "2 \<le> ws_MaxEntriesPerSegment (ex_settings ?x)" "1 \<le> ws_MaxEntriesPerSegment (ex_settings ?x)" "ex_actor ?x \<noteq> []"
    using assms(3) by (simp_all add: NewExporter_def worm_withDefaults_def minEntriesPerSegment_def Let_def)
  obtain st' rep' where pass: "exportTenant sha ?x tenant (map Some vs) st rep = (st', rep', Inr ())" "rr_AtBudget rep' = rr_AtBudget rep"
    "archive_inv sha ?x tenant st'" "owed st' = 0"
    using pass_catches_up_aux [OF archive_reach_inv [OF assms(1,2) cap(2)] assms(2) cap(1) assms(5) cap(3) assms(4,6,7,10,9), of rep] by blast
  moreover have "store_Pending (es_ledger st') = None" by (rule owed_nonneg(2) [OF pass(3,4)])
  ultimately show ?thesis by (auto simp: owed_def)
qed

section \<open>A digest outside the archive\<close>

lemma entriesLoop_keeps:
  "entriesLoop sha doc i prev rep es = Inr rep' \<Longrightarrow> wr_Document rep' = wr_Document rep \<and> wr_Genesis rep' = wr_Genesis rep"
proof (induction es arbitrary: i prev rep)
  case (Cons e es)
  from Cons.prems show ?case
    by (auto split: if_splits sum.splits dest!: Cons.IH)
qed simp

lemma VerifyDocument_report:
  assumes "VerifyDocument sha doc = Inr rep"
  shows "wr_Document rep = doc" "wr_Genesis rep = cn_Genesis (do_Chain doc)" "cn_Genesis (do_Chain doc) \<Longrightarrow> do_Previous doc = None"
proof -
  from assms obtain rep0 where l: "entriesLoop sha doc 0 (cn_StartPrevHash (do_Chain doc)) (fresh_report doc) (do_Entries doc) = Inr rep0"
    "checkEnds doc = Inr ()"
    "wr_Document rep = wr_Document (settlePrefix doc rep0)" "wr_Genesis rep = wr_Genesis (settlePrefix doc rep0)"
    unfolding VerifyDocument_def andthen_Inr Let_def by (auto simp: andthen_Inr split: option.splits)
  then show "wr_Document rep = doc" "wr_Genesis rep = cn_Genesis (do_Chain doc)"
    using entriesLoop_keeps [OF l(1)] by (simp_all add: settlePrefix_def fresh_report_def)
  have "position doc = Inr ()" using l(2) by (auto simp: checkEnds_def Let_def split: if_splits)
  then show "cn_Genesis (do_Chain doc) \<Longrightarrow> do_Previous doc = None"
    by (auto simp: position_def Let_def split: if_splits)
qed

lemma VerifyFile_report:
  assumes "VerifyFile sha decode f = Inr rep"
  shows "fi_Digest f = digestPrefix @ sha (fi_Segment f)" "wr_Digest rep = sha (fi_Segment f)" "decode (fi_Segment f) = Some (wr_Document rep)"
    "wr_Genesis rep \<Longrightarrow> do_Previous (wr_Document rep) = None"
proof -
  have f: "take (length digestPrefix) (fi_Digest f) = digestPrefix" "drop (length digestPrefix) (fi_Digest f) = sha (fi_Segment f)"
    using assms by (auto simp: VerifyFile_def Let_def split: if_splits)
  then show "fi_Digest f = digestPrefix @ sha (fi_Segment f)" by (metis append_take_drop_id)
  obtain doc rep0 where d: "decode (fi_Segment f) = Some doc" "VerifyDocument sha doc = Inr rep0"
    "rep = rep0\<lparr>wr_DigestOK := True, wr_Digest := sha (fi_Segment f)\<rparr>"
    using assms by (auto simp: VerifyFile_def Let_def split: if_splits option.splits sum.splits)
  note V = VerifyDocument_report [OF d(2)]
  show "wr_Digest rep = sha (fi_Segment f)" "decode (fi_Segment f) = Some (wr_Document rep)"
    "wr_Genesis rep \<Longrightarrow> do_Previous (wr_Document rep) = None"
    using V by (simp_all add: d)
qed

lemma joinsLoop_snoc: "joinsLoop i (reps @ [a, b]) = Inr () \<Longrightarrow> joinsLoop i (reps @ [a]) = Inr () \<and> meets a b = Inr ()"
proof (induction reps arbitrary: i)
  case Nil
  then show ?case by (auto simp: andthen_Inr joins_def split: if_splits)
next
  case (Cons r reps)
  obtain c cs where c: "reps @ [a, b] = c # cs" "\<exists>ds. reps @ [a] = c # ds" by (cases reps) auto
  with Cons.prems have "joins i r c = Inr ()" "joinsLoop (i + 1) (reps @ [a, b]) = Inr ()"
    by (simp_all add: andthen_Inr)
  with Cons.IH [of "i + 1"] c(2) show ?case by (auto simp: andthen_Inr)
qed

lemma meets_digest: "meets a b = Inr () \<Longrightarrow> \<exists>p. do_Previous (wr_Document b) = Some p \<and> pv_Digest p = digestPrefix @ wr_Digest a"
  by (auto simp: meets_def Let_def split: option.splits if_splits)

definition genesis_series :: "(string \<Rightarrow> string) \<Rightarrow> (string \<Rightarrow> seg_document option) \<Rightarrow> seg_file list \<Rightarrow> worm_report list \<Rightarrow> bool" where
  "genesis_series sha decode fs reps \<longleftrightarrow> fs \<noteq> [] \<and> list_all2 (\<lambda>f r. VerifyFile sha decode f = Inr r) fs reps \<and>
     joinsLoop 1 reps = Inr () \<and> do_Previous (wr_Document (hd reps)) = None"

lemma genesis_series_snoc:
  assumes "genesis_series sha decode (fs @ [f]) reps"
  obtains qs r where "reps = qs @ [r]" "VerifyFile sha decode f = Inr r"
    "fs = [] \<Longrightarrow> do_Previous (wr_Document r) = None"
    "fs \<noteq> [] \<Longrightarrow> genesis_series sha decode fs qs \<and> (\<exists>p. do_Previous (wr_Document r) = Some p \<and> pv_Digest p = fi_Digest (last fs))"
proof -
  from assms obtain qs r where r: "reps = qs @ [r]" "list_all2 (\<lambda>f r. VerifyFile sha decode f = Inr r) fs qs" "VerifyFile sha decode f = Inr r"
    by (auto simp: genesis_series_def list_all2_append1 list_all2_Cons1)
  show thesis
  proof (rule that [OF r(1,3)])
    show "do_Previous (wr_Document r) = None" if "fs = []"
      using assms that r by (simp add: genesis_series_def)
    show "genesis_series sha decode fs qs \<and> (\<exists>p. do_Previous (wr_Document r) = Some p \<and> pv_Digest p = fi_Digest (last fs))" if ne: "fs \<noteq> []"
    proof -
      obtain fs' g where fs: "fs = fs' @ [g]" using ne by (metis rev_exhaust)
      then obtain qs' a where qs: "qs = qs' @ [a]" "VerifyFile sha decode g = Inr a" using r(2) by (auto simp: list_all2_append1 list_all2_Cons1)
      have "joinsLoop 1 (qs' @ [a, r]) = Inr ()" using assms by (simp add: genesis_series_def r(1) qs(1))
      note j = joinsLoop_snoc [OF this]
      have "genesis_series sha decode fs qs"
        using assms r(1,2) j by (cases qs') (simp_all add: genesis_series_def fs qs(1))
      moreover have "digestPrefix @ wr_Digest a = fi_Digest (last fs)"
        using VerifyFile_report(1,2) [OF qs(2)] by (simp add: fs)
      ultimately show ?thesis using meets_digest [OF j [THEN conjunct2]] by auto
    qed
  qed
qed

lemma genesis_series_pinned:
  "genesis_series sha decode fs reps \<Longrightarrow> genesis_series sha decode gs reps' \<Longrightarrow> fi_Digest (last fs) = fi_Digest (last gs) \<Longrightarrow>
     inj_on sha (fi_Segment ` (set fs \<union> set gs)) \<Longrightarrow> fs = gs"
proof (induction fs arbitrary: gs reps reps' rule: rev_induct)
  case Nil
  then show ?case by (simp add: genesis_series_def)
next
  case (snoc f fs)
  obtain gs' g where gs: "gs = gs' @ [g]" using snoc.prems(2) by (metis genesis_series_def rev_exhaust)
  obtain qs r where r: "VerifyFile sha decode f = Inr r" "fs = [] \<Longrightarrow> do_Previous (wr_Document r) = None"
    "fs \<noteq> [] \<Longrightarrow> genesis_series sha decode fs qs \<and> (\<exists>p. do_Previous (wr_Document r) = Some p \<and> pv_Digest p = fi_Digest (last fs))"
    using genesis_series_snoc [OF snoc.prems(1)] by metis
  obtain qs' s where s: "VerifyFile sha decode g = Inr s" "gs' = [] \<Longrightarrow> do_Previous (wr_Document s) = None"
    "gs' \<noteq> [] \<Longrightarrow> genesis_series sha decode gs' qs' \<and> (\<exists>p. do_Previous (wr_Document s) = Some p \<and> pv_Digest p = fi_Digest (last gs'))"
    using genesis_series_snoc [OF snoc.prems(2) [unfolded gs]] by metis
  have "sha (fi_Segment f) = sha (fi_Segment g)"
    using snoc.prems(3) VerifyFile_report(1) [OF r(1)] VerifyFile_report(1) [OF s(1)] by (simp add: gs)
  then have seg: "fi_Segment f = fi_Segment g"
    by (rule inj_onD [OF snoc.prems(4)]) (simp_all add: gs)
  then have fg: "f = g" using snoc.prems(3) by (simp add: gs)
  then have "r = s" using r(1) s(1) by simp
  have "fs = gs'"
  proof (cases "do_Previous (wr_Document r)")
    case None
    with r(3) s(3) \<open>r = s\<close> have "fs = []" "gs' = []" by fastforce+
    then show ?thesis by simp
  next
    case (Some p)
    with r(2) s(2) \<open>r = s\<close> have "fs \<noteq> []" "gs' \<noteq> []" by fastforce+
    note R = r(3) [OF this(1)] and G = s(3) [OF this(2)]
    have "fi_Digest (last fs) = fi_Digest (last gs')" using R G \<open>r = s\<close> by fastforce
    moreover have "inj_on sha (fi_Segment ` (set fs \<union> set gs'))"
      by (rule inj_on_subset [OF snoc.prems(4)]) (auto simp: gs)
    ultimately show ?thesis using snoc.IH [OF R [THEN conjunct1] G [THEN conjunct1]] by blast
  qed
  with fg gs show ?case by simp
qed

lemma VerifySeries_genesis:
  assumes "map (VerifyFile sha decode) fs = map Inr reps" "VerifySeries reps = Inr sr" "sr_Genesis sr"
  shows "genesis_series sha decode fs reps"
proof -
  have ne: "reps \<noteq> []" and joins: "joinsLoop 1 reps = Inr ()" and gen: "wr_Genesis (hd reps)"
    using assms(2,3) by (auto simp: VerifySeries_def Let_def andthen_Inr split: if_splits option.splits)
  have all: "list_all2 (\<lambda>f r. VerifyFile sha decode f = Inr r) fs reps"
    using assms(1) by (simp add: list_all2_conv_all_nth list_eq_iff_nth_eq)
  then have "VerifyFile sha decode (hd fs) = Inr (hd reps)" using ne by (cases fs; cases reps) auto
  then have "do_Previous (wr_Document (hd reps)) = None" using gen by (rule VerifyFile_report(4))
  with all joins ne show ?thesis by (auto simp: genesis_series_def)
qed

text \<open>
  Property C7. A digest kept elsewhere pins the whole archive. Two series of files the verifier
  accepts from genesis whose last files state the same digest are the same files: no earlier file
  can be edited, replaced, dropped or added without the last digest changing, as far as the digest
  is free of collisions on the texts of the two series.
\<close>

theorem last_digest_pins_series:
  assumes "map (VerifyFile sha decode) fs = map Inr reps" "VerifySeries reps = Inr sr" "sr_Genesis sr"
    "map (VerifyFile sha decode) gs = map Inr reps'" "VerifySeries reps' = Inr sr'" "sr_Genesis sr'"
    "fi_Digest (last fs) = fi_Digest (last gs)" "inj_on sha (fi_Segment ` (set fs \<union> set gs))"
  shows "fs = gs"
  by (rule genesis_series_pinned [OF VerifySeries_genesis [OF assms(1-3)] VerifySeries_genesis [OF assms(4-6)] assms(7,8)])

section \<open>A run\<close>

definition ex_sha :: "string \<Rightarrow> string" where "ex_sha s = ''d''"

definition ex_settings0 :: worm_settings where
  "ex_settings0 = \<lparr>ws_MaxEntriesPerSegment = 2, ws_MaxSegmentsPerRun = 3, ws_KeyPrefix = []\<rparr>"

definition ex_env :: "string \<Rightarrow> put_fate \<Rightarrow> step_env" where
  "ex_env n put = \<lparr>sv_ID = n, sv_Now = 1789261323000004000, sv_RecordNow = 1789261323000005000, sv_EventID = n, sv_ReadOk = True,
     sv_CutOk = True, sv_RebuildOk = True, sv_Put = put, sv_ConfirmOk = True, sv_CountOk = True\<rparr>"

definition ex_envs :: "step_env list" where
  "ex_envs = [ex_env ''i'' PutOk, ex_env ''j'' PutOk, ex_env ''k'' PutOk]"

definition ex_context :: audit_context where
  "ex_context = \<lparr>ac_Tenant = ''t'', ac_Requester = Some \<lparr>rq_Kind = RequesterUser, rq_ID = ''u'', rq_CredentialID = [], rq_CredentialKind = [], rq_ServiceAccount = False\<rparr>,
     ac_RequestID = [], ac_Now = 1789261323000001000, ac_NewUUID = ''e''\<rparr>"

definition ex_chain :: "audit_entry list" where
  "ex_chain = (case audit_Record ex_sha ex_context ''entity.created'' ''entity'' ''x'' None [] of Inr c \<Rightarrow> c | Inl _ \<Rightarrow> [])"

definition ex_recorded :: export_state where
  "ex_recorded = \<lparr>es_chain = ex_chain, es_ledger = [], es_objects = (\<lambda>_. None)\<rparr>"

definition ex_report :: run_report where "ex_report = \<lparr>rr_Tenants = 1, rr_TenantsExported = 0, rr_TenantsFailed = 0, rr_Segments = 0, rr_Resumed = 0, rr_Entries = 0, rr_AtBudget = 0\<rparr>"

lemma ex_chain_value: "length ex_chain = 1" "list_all (\<lambda>e. stampable (ae_OccurredAt e)) ex_chain"
  by code_simp+

lemma ex_good: "good_sha ex_sha"
  by (simp add: good_sha_def ex_sha_def GenesisHash_def numeral_eq_Suc)

lemma ex_reach: "archive_reach ex_sha (NewExporter ex_settings0 ''sys'' (recipe [])) ''t'' ex_recorded"
proof -
  have start: "archive_reach ex_sha (NewExporter ex_settings0 ''sys'' (recipe [])) ''t'' \<lparr>es_chain = [], es_ledger = [], es_objects = (\<lambda>_. None)\<rparr>"
    by (rule archive_reach.start) (simp_all add: chain_ok_def)
  obtain c where c: "audit_Record ex_sha ex_context ''entity.created'' ''entity'' ''x'' None [] = Inr c"
    using audit_Record_user [of ex_context] by (force simp: ex_context_def IsUser_def)
  then have "ex_chain = c" by (simp add: ex_chain_def)
  with archive_reach.recorded [OF start, of ex_context "''entity.created''" "''entity''" "''x''" None c] c
  show ?thesis by (simp add: ex_recorded_def ex_context_def AuditAction_def)
qed

lemma ex_owed: "owed ex_recorded = 1"
  by (simp add: owed_def exported_through_def archived_rows_def ex_recorded_def next_seq_def ex_chain_value)

lemma ex_envs_value: "list_all faultless ex_envs" "distinct (map sv_ID ex_envs)" "length ex_envs = 3"
  by code_simp+

theorem pass_catches_up_witness:
  "\<exists>st' rep'. exportTenant ex_sha (NewExporter ex_settings0 ''sys'' (recipe [])) ''t'' (map Some ex_envs) ex_recorded ex_report = (st', rep', Inr ()) \<and>
    rr_AtBudget rep' = rr_AtBudget ex_report \<and> store_Pending (es_ledger st') = None \<and> exported_through st' = int (length (es_chain st'))"
  by (rule pass_catches_up [OF ex_reach ex_good])
     (simp_all add: ex_recorded_def stamped_def ex_chain_value ex_envs_value NewExporter_def worm_withDefaults_def ex_settings0_def Let_def
       ex_owed [unfolded ex_recorded_def])

lemma exportTenant_reach:
  "archive_reach sha x tenant st \<Longrightarrow> archive_reach sha x tenant (fst (exportTenant sha x tenant vs st rep))"
proof (induction vs arbitrary: st rep)
  case (Cons o1 vs)
  show ?case
  proof (cases o1)
    case (Some v)
    obtain st1 rep1 r where step: "worm_step sha x tenant v st rep = (st1, rep1, r)" by (cases "worm_step sha x tenant v st rep")
    then have "archive_reach sha x tenant st1" using archive_reach.stepped [OF Cons.prems, of v rep] by simp
    with Cons.IH [of st1 rep1] Some step show ?thesis by (cases r) simp_all
  qed (use Cons in simp)
qed simp

text \<open>The state after a pass over one record: a segment of two entries is stored.\<close>

definition ex_done :: export_state where
  "ex_done = fst (exportTenant ex_sha (NewExporter ex_settings0 ''sys'' (recipe [])) ''t'' (map Some ex_envs) ex_recorded ex_report)"

lemma ex_done_facts:
  "archive_reach ex_sha (NewExporter ex_settings0 ''sys'' (recipe [])) ''t'' ex_done" "int (length (es_chain ex_done)) < 2 ^ 62" "archive ex_done \<noteq> []"
proof -
  let ?x = "NewExporter ex_settings0 ''sys'' (recipe [])"
  show "archive_reach ex_sha ?x ''t'' ex_done" unfolding ex_done_def by (rule exportTenant_reach [OF ex_reach])
  have cap: "2 \<le> ws_MaxEntriesPerSegment (ex_settings ?x)" "ex_actor ?x \<noteq> []"
    by (simp_all add: NewExporter_def worm_withDefaults_def ex_settings0_def Let_def minEntriesPerSegment_def)
  have "archive_inv ex_sha ?x ''t'' ex_recorded" using archive_reach_inv [OF ex_reach ex_good] cap by simp
  from pass_catches_up_aux [OF this ex_good cap(1) _ cap(2), of ex_envs ex_report] obtain st' rep' where
    "exportTenant ex_sha ?x ''t'' (map Some ex_envs) ex_recorded ex_report = (st', rep', Inr ())" "owed st' = 0"
    "length (es_chain ex_recorded) \<le> length (es_chain st')" "length (es_chain st') \<le> length (es_chain ex_recorded) + length ex_envs"
    using ex_owed by (auto simp: ex_recorded_def stamped_def ex_chain_value ex_envs_value)
  then have d: "owed ex_done = 0" "1 \<le> length (es_chain ex_done)" "length (es_chain ex_done) \<le> 4"
    by (simp_all add: ex_done_def ex_recorded_def ex_chain_value ex_envs_value)
  then show "int (length (es_chain ex_done)) < 2 ^ 62" by simp
  show "archive ex_done \<noteq> []"
  proof
    assume "archive ex_done = []"
    then have "exported_through ex_done = 0" by (simp add: archive_def exported_through_def next_seq_def)
    with d show False by (simp add: owed_def)
  qed
qed

theorem archive_is_the_chain_witness:
  "archive ex_done \<noteq> [] \<and>
   (\<exists>docs. map fi_Segment (archive ex_done) = map segment_text docs \<and>
    concat (map do_Entries docs) = map FromAuditEntry (take (nat (exported_through ex_done)) (es_chain ex_done)) \<and>
    (\<forall>decode. archive ex_done \<noteq> [] \<and> (\<forall>d \<in> set docs. decode (segment_text d) = Some d) \<longrightarrow>
      (\<exists>reports sr. map (VerifyFile ex_sha decode) (archive ex_done) = map Inr reports \<and> VerifySeries reports = Inr sr \<and>
        sr_TenantID sr = ''t'' \<and> sr_Genesis sr \<and> sr_FromSeq sr = 1 \<and> sr_ToSeq sr = exported_through ex_done \<and>
        sr_Entries sr = exported_through ex_done \<and> sr_PreSealHeaders sr = [])))"
  using archive_is_the_chain [OF ex_done_facts(1) ex_good ex_done_facts(2)] ex_done_facts(3) by blast

text \<open>A file of one entry.\<close>

definition ex_document :: seg_document where
  "ex_document = build_document JNull \<lparr>bi_SegmentID = ''i'', bi_SegmentSeq = 1, bi_TenantID = ''t'', bi_ExportedAt = 1789261323000004000,
     bi_StartPrevHash = GenesisHash, bi_Entries = ex_chain, bi_Previous = None\<rparr>"

definition ex_decode :: "string \<Rightarrow> seg_document option" where
  "ex_decode s = (if s = ''x'' then Some ex_document else None)"

definition ex_file :: seg_file where
  "ex_file = \<lparr>fi_Segment = ''x'', fi_Digest = ''sha256:d''\<rparr>"

text \<open>The same file as read back from a second copy of the store.\<close>

definition ex_copy :: seg_file where
  "ex_copy = \<lparr>fi_Segment = take 1 ''xy'', fi_Digest = digestPrefix @ ex_sha ''z''\<rparr>"

lemma ex_series:
  "(case VerifyFile ex_sha ex_decode ex_file of Inr rep \<Rightarrow> (case VerifySeries [rep] of Inr sr \<Rightarrow> sr_Genesis sr | _ \<Rightarrow> False) | _ \<Rightarrow> False)"
  "fi_Segment ex_copy = ''x'' \<and> fi_Digest ex_copy = ''sha256:d''"
  by code_simp+

theorem last_digest_pins_series_witness:
  "\<exists>rep sr. map (VerifyFile ex_sha ex_decode) [ex_file] = map Inr [rep] \<and> VerifySeries [rep] = Inr sr \<and> sr_Genesis sr \<and> [ex_file] = [ex_copy]"
proof -
  obtain rep sr where r: "VerifyFile ex_sha ex_decode ex_file = Inr rep" "VerifySeries [rep] = Inr sr" "sr_Genesis sr"
    using ex_series(1) by (auto split: sum.splits)
  then have f: "map (VerifyFile ex_sha ex_decode) [ex_file] = map Inr [rep]" by simp
  have "VerifyFile ex_sha ex_decode ex_copy = VerifyFile ex_sha ex_decode ex_file"
    by (simp only: VerifyFile_def ex_series(2) ex_file_def seg_file.select_convs)
  with r(1) have g: "map (VerifyFile ex_sha ex_decode) [ex_copy] = map Inr [rep]" by simp
  show ?thesis
  proof (intro exI conjI)
    show "[ex_file] = [ex_copy]"
      by (rule last_digest_pins_series [OF f r(2,3) g r(2,3)]) (simp_all add: ex_series(2) ex_file_def)
  qed (rule f r(2,3))+
qed

end
