(* ===== verification/SecurityEvents.thy ===== *)
theory SecurityEvents
  imports AuditTrail ClientAddr
begin

text \<open>
  The authentication event stream \<^verbatim>\<open>src/platform/securityevent\<close> (securityevent.go, context.go,
  digest.go): its closed vocabulary, what one event stores of the caller's address and of the
  submitted one, and the insert with the table's constraints. The keyed digest
  \<^verbatim>\<open>hex(hmac_sha256(key, .))\<close> is a parameter, as is the lower-casing of Unicode text.
\<close>

section \<open>Events\<close>

record security_event =
  sv_Event :: string
  sv_Outcome :: string
  sv_Method :: string
  sv_Reason :: string
  sv_TenantID :: string
  sv_PrincipalID :: string
  sv_ActorID :: string
  sv_SessionID :: string
  sv_Subject :: string

definition knownEvents :: "string list" where
  "knownEvents =
     [''auth.login.succeeded'', ''auth.login.failed'', ''auth.lockout.engaged'', ''auth.mfa.enrolled'', ''auth.mfa.enabled'',
      ''auth.mfa.enrollment_discarded'', ''auth.mfa.succeeded'', ''auth.mfa.failed'', ''auth.session.revoked'',
      ''auth.sessions.revoked'', ''auth.token.rejected'', ''auth.invite.accepted'', ''auth.invite.rejected'']"

definition knownOutcomes :: "string list" where
  "knownOutcomes = [''success'', ''failure'']"

definition knownMethods :: "string list" where
  "knownMethods = [''password'', ''totp'', ''session'', ''api_token'', ''invite_token'']"

definition knownReasons :: "string list" where
  "knownReasons =
     [''no_such_principal'', ''not_login_capable'', ''bad_credential'', ''locked_out'', ''charge_failed'', ''budget_spent'',
      ''no_pending_session'', ''not_enrolled'', ''self_service'', ''member_disabled'', ''unknown_credential'',
      ''credential_expired'', ''principal_not_usable'']"

definition validate_event :: "security_event \<Rightarrow> message option" where
  "validate_event e =
     (if sv_Event e \<notin> set knownEvents then Some (Errorf ''securityevent: unknown event %q'' [S (sv_Event e)])
      else if sv_Outcome e \<notin> set knownOutcomes
      then Some (Errorf ''securityevent: unknown outcome %q for %s'' [S (sv_Outcome e), S (sv_Event e)])
      else if sv_Method e \<notin> set knownMethods
      then Some (Errorf ''securityevent: unknown method %q for %s'' [S (sv_Method e), S (sv_Event e)])
      else if sv_Reason e \<noteq> [] \<and> sv_Reason e \<notin> set knownReasons
      then Some (Errorf ''securityevent: unknown reason %q for %s'' [S (sv_Reason e), S (sv_Event e)])
      else if sv_Outcome e = ''failure'' \<and> sv_Reason e = []
      then Some (Errorf ''securityevent: %s is a failure with no reason class'' [S (sv_Event e)])
      else None)"

section \<open>What the request brings along\<close>

text \<open>
  The caller's address as the transport bound it, with its source; the correlation id; the clock;
  the keyed digest (None: no usable key) over lower-cased text.
\<close>

record event_context =
  ec_Client :: "(string \<times> string) option"
  ec_RequestID :: string
  ec_Now :: int
  ec_Digest :: "(string \<Rightarrow> string) option"
  ec_ToLower :: "string \<Rightarrow> string"

definition knownAddrSources :: "string list" where
  "knownAddrSources = [''peer'', ''forwarded'', ''proxy'']"

definition WithClient :: "event_context \<Rightarrow> string \<Rightarrow> string \<Rightarrow> event_context" where
  "WithClient ctx addr source =
     (if addr = [] then ctx
      else ctx\<lparr>ec_Client := Some (addr, if source \<in> set knownAddrSources then source else [])\<rparr>)"

definition event_addr :: "event_context \<Rightarrow> string" where
  "event_addr ctx = (case ec_Client ctx of None \<Rightarrow> [] | Some (a, _) \<Rightarrow> a)"

definition event_source :: "event_context \<Rightarrow> string" where
  "event_source ctx = (case ec_Client ctx of None \<Rightarrow> [] | Some (_, src) \<Rightarrow> src)"

fun without_zone :: "ip_addr \<Rightarrow> ip_addr" where
  "without_zone (V4 w) = V4 w"
| "without_zone (V6 w z) = V6 w []"

definition clientAddrOf :: "event_context \<Rightarrow> string option" where
  "clientAddrOf ctx =
     (let raw = event_addr ctx in
      if raw = [] then None
      else
        let host = (case SplitHostPort raw of Some h \<Rightarrow> h | None \<Rightarrow> raw)
        in case ParseAddr host of
             None \<Rightarrow> None
           | Some a \<Rightarrow> Some (addr_String (without_zone (Unmap a))))"

definition clientSourceOf :: "event_context \<Rightarrow> string option" where
  "clientSourceOf ctx =
     (if clientAddrOf ctx = None then None
      else if event_source ctx = [] then None else Some (event_source ctx))"

definition normalizeSubject :: "(string \<Rightarrow> string) \<Rightarrow> string \<Rightarrow> string" where
  "normalizeSubject lower s = lower (TrimSpace s)"

text \<open>\<^verbatim>\<open>Digest.Of\<close>: nothing without a key or a subject.\<close>

definition digest_Of :: "event_context \<Rightarrow> string \<Rightarrow> string" where
  "digest_Of ctx subject =
     (case ec_Digest ctx of
        None \<Rightarrow> []
      | Some mac \<Rightarrow>
          let normalized = normalizeSubject (ec_ToLower ctx) subject
          in if normalized = [] then [] else mac normalized)"

definition isUUID :: "string \<Rightarrow> bool" where
  "isUUID s \<longleftrightarrow> length s = 36 \<and>
     list_all (\<lambda>i. if i \<in> set [8, 13, 18, 23] then s ! i = CHR ''-'' else is_hex_char (s ! i)) [0..<36]"

definition requestUUID :: "string \<Rightarrow> string option" where
  "requestUUID s = (if isUUID s then Some s else None)"

section \<open>The stream\<close>

record security_entry =
  ev_OccurredAt :: int
  ev_Event :: string
  ev_Outcome :: string
  ev_Method :: string
  ev_Reason :: "string option"
  ev_TenantID :: "string option"
  ev_PrincipalID :: "string option"
  ev_ActorID :: "string option"
  ev_SessionID :: "string option"
  ev_SubjectDigest :: "string option"
  ev_ClientIP :: "string option"
  ev_ClientIPSource :: "string option"
  ev_RequestID :: "string option"

definition nilIfEmpty :: "string \<Rightarrow> string option" where
  "nilIfEmpty s = (if s = [] then None else Some s)"

text \<open>The CHECK constraints of the table: the closed columns, the digest's shape, one correlator.\<close>

definition event_checks :: "security_entry \<Rightarrow> bool" where
  "event_checks r \<longleftrightarrow>
     ev_Outcome r \<in> set knownOutcomes \<and> ev_Method r \<in> set knownMethods \<and>
     (case ev_SubjectDigest r of None \<Rightarrow> True
      | Some d \<Rightarrow> length d = 64 \<and> list_all (\<lambda>c. is_hex_char c \<and> lower_char c = c) d) \<and>
     (ev_PrincipalID r = None \<or> ev_SubjectDigest r = None)"

definition event_row :: "event_context \<Rightarrow> security_event \<Rightarrow> security_entry" where
  "event_row ctx e =
     \<lparr>ev_OccurredAt = truncate_micro (ec_Now ctx), ev_Event = sv_Event e, ev_Outcome = sv_Outcome e,
      ev_Method = sv_Method e, ev_Reason = nilIfEmpty (sv_Reason e), ev_TenantID = nilIfEmpty (sv_TenantID e),
      ev_PrincipalID = nilIfEmpty (sv_PrincipalID e), ev_ActorID = nilIfEmpty (sv_ActorID e),
      ev_SessionID = nilIfEmpty (sv_SessionID e),
      ev_SubjectDigest = (if sv_PrincipalID e = [] then nilIfEmpty (digest_Of ctx (sv_Subject e)) else None),
      ev_ClientIP = clientAddrOf ctx, ev_ClientIPSource = clientSourceOf ctx,
      ev_RequestID = map_option ToLower (requestUUID (ec_RequestID ctx))\<rparr>"

text \<open>Record on a recorder that is wired; a UUID column keeps lower case.\<close>

definition event_Record :: "event_context \<Rightarrow> security_event \<Rightarrow> security_entry list \<Rightarrow> security_entry list fallible" where
  "event_Record ctx e rows =
     (case validate_event e of
        Some m \<Rightarrow> Inl m
      | None \<Rightarrow>
          if event_checks (event_row ctx e) then Inr (rows @ [event_row ctx e])
          else Inl (Errorf ''securityevent: append %s: %w'' [S (sv_Event e), S ''violates check constraint'']))"

section \<open>What a recorded event says\<close>

text \<open>A keyed digest in use has the shape the column asks for.\<close>

definition digest_ok :: "event_context \<Rightarrow> bool" where
  "digest_ok ctx \<longleftrightarrow>
     (\<forall>mac s. ec_Digest ctx = Some mac \<longrightarrow> length (mac s) = 64 \<and> list_all (\<lambda>c. is_hex_char c \<and> lower_char c = c) (mac s))"

lemma event_Record_iff:
  assumes "digest_ok ctx"
  shows "event_Record ctx e rows = Inr rows' \<longleftrightarrow> validate_event e = None \<and> rows' = rows @ [event_row ctx e]"
proof -
  have "event_checks (event_row ctx e)" if "validate_event e = None"
    using that assms
    by (auto simp: event_checks_def event_row_def validate_event_def nilIfEmpty_def digest_Of_def digest_ok_def Let_def
        split: option.splits if_splits)
  then show ?thesis by (auto simp: event_Record_def split: option.splits)
qed

lemma event_Record_appends: "event_Record ctx e rows = Inr rows' \<Longrightarrow> rows' = rows @ [event_row ctx e]"
  by (auto simp: event_Record_def split: option.splits if_splits)

lemma event_row_sel [simp]:
  "ev_Event (event_row ctx e) = sv_Event e" "ev_SessionID (event_row ctx e) = nilIfEmpty (sv_SessionID e)"
  "ev_PrincipalID (event_row ctx e) = nilIfEmpty (sv_PrincipalID e)" "ev_Reason (event_row ctx e) = nilIfEmpty (sv_Reason e)"
  by (simp_all add: event_row_def)

text \<open>An identified attempt keeps no digest; an unidentified one is the digest's at most.\<close>

lemma event_row_correlator:
  "ev_PrincipalID (event_row ctx e) \<noteq> None \<Longrightarrow> ev_SubjectDigest (event_row ctx e) = None"
  by (auto simp: event_row_def nilIfEmpty_def)

text \<open>Two spellings the login takes for one address have one digest.\<close>

lemma digest_normal:
  "normalizeSubject (ec_ToLower ctx) a = normalizeSubject (ec_ToLower ctx) b \<Longrightarrow> digest_Of ctx a = digest_Of ctx b"
  by (simp add: digest_Of_def split: option.split)

end
