(* ===== verification/Accounts.thy ===== *)
theory Accounts
  imports SecurityEvents Authz Outbox
begin

text \<open>
  Identity (\<^verbatim>\<open>src/modules/identity\<close>): the rows of \<^verbatim>\<open>domain\<close> and the statements of
  \<^verbatim>\<open>repositories/pg\<close> on the tables users, sessions, api_tokens, invite_tokens and user_grants,
  beside the entities (tenant, id, name) a grant may name, the audit chains, the security stream
  and the outbox they are written with.

  Instants are nanoseconds since the epoch on the process's clock; a timestamptz column and a
  statement's parameter keep microseconds. Password hashing, random tokens, the cipher of TOTP
  secrets, TOTP itself and Unicode lower-casing are parameters.
\<close>

section \<open>Rows\<close>

record user =
  us_ID :: string
  us_TenantID :: string
  us_Email :: string
  us_Name :: string
  us_Kind :: string
  us_PasswordHash :: "string option"
  us_Status :: string
  us_TOTPSecretEnc :: "string option"
  us_TOTPEnabled :: bool
  us_FailedLoginAttempts :: int
  us_LockedUntil :: "int option"
  us_CreatedAt :: int
  us_UpdatedAt :: int

definition us_IsActive :: "user \<Rightarrow> bool" where "us_IsActive u \<longleftrightarrow> us_Status u = ''active''"
definition us_IsService :: "user \<Rightarrow> bool" where "us_IsService u \<longleftrightarrow> us_Kind u = ''service''"

definition us_IsLocked :: "user \<Rightarrow> int \<Rightarrow> bool" where
  "us_IsLocked u now = (case us_LockedUntil u of None \<Rightarrow> False | Some t \<Rightarrow> now < t)"

record session =
  ss_ID :: string
  ss_TokenHash :: string
  ss_UserID :: string
  ss_TenantID :: string
  ss_MFAPending :: bool
  ss_MFAAttempts :: int
  ss_CreatedAt :: int
  ss_IdleExpiresAt :: int
  ss_AbsoluteExpiresAt :: int
  ss_RevokedAt :: "int option"
  ss_IP :: "string option"
  ss_UserAgent :: "string option"

definition session_IsValid :: "session \<Rightarrow> int \<Rightarrow> bool" where
  "session_IsValid s now \<longleftrightarrow> ss_RevokedAt s = None \<and> now < ss_IdleExpiresAt s \<and> now < ss_AbsoluteExpiresAt s"

record api_token =
  tk_ID :: string
  tk_TokenHash :: string
  tk_UserID :: string
  tk_TenantID :: string
  tk_Label :: string
  tk_CreatedBy :: "string option"
  tk_CreatedAt :: int
  tk_ExpiresAt :: int
  tk_LastUsedAt :: "int option"
  tk_RevokedAt :: "int option"

definition TokenPrefix :: string where "TokenPrefix = ''ztx_''"

definition token_IsValid :: "api_token \<Rightarrow> int \<Rightarrow> bool" where
  "token_IsValid t now \<longleftrightarrow> tk_RevokedAt t = None \<and> now < tk_ExpiresAt t"

record invite_token =
  it_ID :: string
  it_TokenHash :: string
  it_UserID :: string
  it_TenantID :: string
  it_CreatedBy :: "string option"
  it_CreatedAt :: int
  it_ExpiresAt :: int
  it_AcceptedAt :: "int option"
  it_RevokedAt :: "int option"

definition InviteTokenPrefix :: string where "InviteTokenPrefix = ''zti_''"
definition InviteTTL :: int where "InviteTTL = 7 * 24 * 3600000000000"

definition invite_IsUsable :: "invite_token \<Rightarrow> int \<Rightarrow> bool" where
  "invite_IsUsable t now \<longleftrightarrow> it_AcceptedAt t = None \<and> it_RevokedAt t = None \<and> now < it_ExpiresAt t"

text \<open>A row of user_grants; the directory renders it as a member's grant.\<close>

record user_grant =
  ug_ID :: string
  ug_TenantID :: string
  ug_UserID :: string
  ug_Role :: string
  ug_ScopeEntityID :: "string option"

definition IsTenantWide :: "user_grant \<Rightarrow> bool" where
  "IsTenantWide g \<longleftrightarrow> ug_ScopeEntityID g = None"

section \<open>The store\<close>

record ident =
  id_Users :: "user list"
  id_Sessions :: "session list"
  id_Tokens :: "api_token list"
  id_Invites :: "invite_token list"
  id_Grants :: "user_grant list"
  id_Entities :: "(string \<times> string \<times> string) list"
  id_Chain :: "string \<Rightarrow> audit_entry list"
  id_Events :: "security_entry list"
  id_Outbox :: "outbox_row list"

text \<open>
  What one request brings along: the clocks (the use case's reading, the session's own, the
  database's), the keys the tables generate, the third-party functions, the wiring. A statement
  may fail by name; in autocommit its effect may have taken place all the same.
\<close>

record ident_env =
  ix_Now :: int
  ix_SessionNow :: int
  ix_DbNow :: int
  ix_NewID :: "string \<Rightarrow> string"
  ix_Fault :: "string \<Rightarrow> (message \<times> bool) option"
  ix_HashToken :: "string \<Rightarrow> string"
  ix_NewSessionToken :: "string fallible"
  ix_VerifyPassword :: "string \<Rightarrow> string \<Rightarrow> bool fallible"
  ix_DummyHash :: string
  ix_HashPassword :: "string \<Rightarrow> string fallible"
  ix_Encrypt :: "string \<Rightarrow> string fallible"
  ix_Decrypt :: "string \<Rightarrow> string fallible"
  ix_TotpGenerate :: "string \<Rightarrow> (string \<times> string) fallible"
  ix_TotpValidate :: "string \<Rightarrow> string \<Rightarrow> bool"
  ix_ToLower :: "string \<Rightarrow> string"
  ix_SessionIdleTTL :: int
  ix_SessionAbsoluteTTL :: int
  ix_Events :: "event_context option"
  ix_Sha :: "string \<Rightarrow> string"
  ix_Audit :: audit_context
  ix_AuditWired :: bool
  ix_Mail :: "queue_env option"
  ix_Grants :: "grant list"
  ix_Descendants :: "string list \<Rightarrow> string list app"

section \<open>Statements and transactions\<close>

text \<open>A statement on its own connection: it commits by itself, and an error may hide a commit.\<close>

definition autocommit :: "ident_env \<Rightarrow> string \<Rightarrow> (ident \<Rightarrow> 'a \<times> ident) \<Rightarrow> ident \<Rightarrow> 'a app \<times> ident" where
  "autocommit env name f s =
     (case ix_Fault env name of
        None \<Rightarrow> (Inr (fst (f s)), snd (f s))
      | Some (e, applied) \<Rightarrow> (Inl (Internal e), if applied then snd (f s) else s))"

text \<open>A statement inside a transaction, which an error dooms.\<close>

definition in_tx :: "ident_env \<Rightarrow> string \<Rightarrow> (ident \<Rightarrow> 'a \<times> ident) \<Rightarrow> ident \<Rightarrow> ('a \<times> ident) app" where
  "in_tx env name f s = (case ix_Fault env name of None \<Rightarrow> Inr (f s) | Some (e, _) \<Rightarrow> Inl (Internal e))"

text \<open>\<^verbatim>\<open>WithinTransaction\<close>: an error of the body rolls back; a commit may fail before or after it took place.\<close>

definition withinTx :: "ident_env \<Rightarrow> (ident \<Rightarrow> ('a \<times> ident) app) \<Rightarrow> ident \<Rightarrow> 'a app \<times> ident" where
  "withinTx env body s =
     (case ix_Fault env ''BEGIN'' of
        Some (e, _) \<Rightarrow> (Inl (Internal e), s)
      | None \<Rightarrow>
          (case body s of
             Inl e \<Rightarrow> (Inl e, s)
           | Inr (x, s') \<Rightarrow>
               (case ix_Fault env ''COMMIT'' of
                  None \<Rightarrow> (Inr x, s')
                | Some (e, applied) \<Rightarrow> (Inl (Internal e), if applied then s' else s))))"

text \<open>Sequencing over the state.\<close>

definition andthenS :: "('e + 'a) \<times> 's \<Rightarrow> ('a \<Rightarrow> 's \<Rightarrow> ('e + 'b) \<times> 's) \<Rightarrow> ('e + 'b) \<times> 's" where
  "andthenS r k = (case r of (Inl e, s) \<Rightarrow> (Inl e, s) | (Inr x, s) \<Rightarrow> k x s)"

lemma andthenS_simps [simp]: "andthenS (Inl e, s) k = (Inl e, s)" "andthenS (Inr x, s) k = k x s"
  by (simp_all add: andthenS_def)

text \<open>A read does nothing to the store.\<close>

definition read_stmt :: "ident_env \<Rightarrow> string \<Rightarrow> 'a \<Rightarrow> 'a app" where
  "read_stmt env name x = (case ix_Fault env name of None \<Rightarrow> Inr x | Some (e, _) \<Rightarrow> Inl (Internal e))"

section \<open>Users\<close>

definition user_row :: "ident \<Rightarrow> string \<Rightarrow> user option" where
  "user_row s uid = find (\<lambda>u. us_ID u = uid) (id_Users s)"

definition GetByEmail :: "ident_env \<Rightarrow> ident \<Rightarrow> string \<Rightarrow> user option app" where
  "GetByEmail env s email = read_stmt env ''users.GetByEmail'' (find (\<lambda>u. us_Email u = email) (id_Users s))"

definition users_GetByID :: "ident_env \<Rightarrow> ident \<Rightarrow> string \<Rightarrow> user option app" where
  "users_GetByID env s uid = read_stmt env ''users.GetByID'' (user_row s uid)"

definition update_user :: "string \<Rightarrow> (user \<Rightarrow> user) \<Rightarrow> ident \<Rightarrow> ident" where
  "update_user uid f s = s\<lparr>id_Users := map (\<lambda>u. if us_ID u = uid then f u else u) (id_Users s)\<rparr>"

text \<open>
  The one statement of the attempt budget: the row reduced under its lock with an expired stamp
  erased, then counted, stamped or left alone. It answers (allowed, engaged).
\<close>

definition live_lock :: "int \<Rightarrow> user \<Rightarrow> bool" where
  "live_lock now u = (case us_LockedUntil u of None \<Rightarrow> False | Some t \<Rightarrow> now < t)"

definition expired_lock :: "int \<Rightarrow> user \<Rightarrow> bool" where
  "expired_lock now u = (case us_LockedUntil u of None \<Rightarrow> False | Some t \<Rightarrow> t \<le> now)"

definition charge_row :: "int \<Rightarrow> int \<Rightarrow> int \<Rightarrow> int \<Rightarrow> user \<Rightarrow> (bool \<times> bool) \<times> user" where
  "charge_row threshold now lockUntil dbnow u =
     (let live = live_lock now u;
          attempts = (if expired_lock now u then 0 else us_FailedLoginAttempts u);
          locked = (if expired_lock now u then None else us_LockedUntil u)
      in ((\<not> live, \<not> live \<and> attempts + 1 \<ge> threshold),
          u\<lparr>us_FailedLoginAttempts := (if live then attempts else min (attempts + 1) threshold),
            us_LockedUntil := (if live then locked else if attempts + 1 \<ge> threshold then Some lockUntil else None),
            us_UpdatedAt := (if live then us_UpdatedAt u else dbnow)\<rparr>))"

definition ConsumeLoginAttempt :: "ident_env \<Rightarrow> string \<Rightarrow> int \<Rightarrow> int \<Rightarrow> int \<Rightarrow> ident \<Rightarrow> (bool \<times> bool) app \<times> ident" where
  "ConsumeLoginAttempt env uid threshold now lockUntil =
     autocommit env ''users.ConsumeLoginAttempt'' (\<lambda>s.
       case user_row s uid of
         None \<Rightarrow> ((False, False), s)
       | Some u \<Rightarrow>
           let charge = charge_row threshold (truncate_micro now) (truncate_micro lockUntil) (ix_DbNow env)
           in (fst (charge u), update_user uid (\<lambda>v. snd (charge v)) s))"

definition ResetFailedLogin :: "ident_env \<Rightarrow> string \<Rightarrow> ident \<Rightarrow> (unit \<times> ident) app" where
  "ResetFailedLogin env uid =
     in_tx env ''users.ResetFailedLogin''
       (\<lambda>s. ((), update_user uid (\<lambda>u. u\<lparr>us_FailedLoginAttempts := 0, us_LockedUntil := None, us_UpdatedAt := ix_DbNow env\<rparr>) s))"

definition SetTOTP :: "ident_env \<Rightarrow> string \<Rightarrow> string option \<Rightarrow> bool \<Rightarrow> ident \<Rightarrow> (unit \<times> ident) app" where
  "SetTOTP env uid secretEnc enabled =
     in_tx env ''users.SetTOTP''
       (\<lambda>s. ((), update_user uid (\<lambda>u. u\<lparr>us_TOTPSecretEnc := secretEnc, us_TOTPEnabled := enabled, us_UpdatedAt := ix_DbNow env\<rparr>) s))"

text \<open>The primary key and the unique address of users.\<close>

definition unique_violation :: message where
  "unique_violation = text_msg ''duplicate key value violates unique constraint''"

definition users_Create :: "ident_env \<Rightarrow> user \<Rightarrow> ident \<Rightarrow> (user \<times> ident) app" where
  "users_Create env input s =
     (let u = input\<lparr>us_ID := ix_NewID env ''users'', us_Kind := (if us_Kind input = [] then ''human'' else us_Kind input),
                    us_Status := (if us_Status input = [] then ''active'' else us_Status input),
                    us_TOTPSecretEnc := None, us_TOTPEnabled := False, us_FailedLoginAttempts := 0, us_LockedUntil := None,
                    us_CreatedAt := ix_DbNow env, us_UpdatedAt := ix_DbNow env\<rparr>
      in if list_ex (\<lambda>v. us_ID v = us_ID u \<or> us_Email v = us_Email u) (id_Users s) then Inl (Internal unique_violation)
         else in_tx env ''users.Create'' (\<lambda>s. (u, s\<lparr>id_Users := id_Users s @ [u]\<rparr>)) s)"

definition ListByKind :: "ident_env \<Rightarrow> ident \<Rightarrow> string \<Rightarrow> string \<Rightarrow> user list app" where
  "ListByKind env s tenant kind =
     read_stmt env ''users.ListByKind''
       (rev (sort_key us_CreatedAt (filter (\<lambda>u. us_TenantID u = tenant \<and> us_Kind u = kind) (id_Users s))))"

section \<open>Sessions\<close>

definition session_row :: "ident \<Rightarrow> string \<Rightarrow> session option" where
  "session_row s sid = find (\<lambda>x. ss_ID x = sid) (id_Sessions s)"

definition sessions_Create :: "ident_env \<Rightarrow> session \<Rightarrow> ident \<Rightarrow> (session \<times> ident) app" where
  "sessions_Create env input =
     in_tx env ''sessions.Create'' (\<lambda>s.
       let x = input\<lparr>ss_ID := ix_NewID env ''sessions'', ss_MFAAttempts := 0, ss_CreatedAt := ix_DbNow env,
                     ss_IdleExpiresAt := truncate_micro (ss_IdleExpiresAt input),
                     ss_AbsoluteExpiresAt := truncate_micro (ss_AbsoluteExpiresAt input), ss_RevokedAt := None\<rparr>
       in (x, s\<lparr>id_Sessions := id_Sessions s @ [x]\<rparr>))"

definition sessions_GetByTokenHash :: "ident_env \<Rightarrow> ident \<Rightarrow> string \<Rightarrow> session option app" where
  "sessions_GetByTokenHash env s h = read_stmt env ''sessions.GetByTokenHash'' (find (\<lambda>x. ss_TokenHash x = h) (id_Sessions s))"

definition update_sessions :: "(session \<Rightarrow> bool) \<Rightarrow> (session \<Rightarrow> session) \<Rightarrow> ident \<Rightarrow> ident" where
  "update_sessions P f s = s\<lparr>id_Sessions := map (\<lambda>x. if P x then f x else x) (id_Sessions s)\<rparr>"

definition Touch :: "ident_env \<Rightarrow> string \<Rightarrow> int \<Rightarrow> ident \<Rightarrow> unit app \<times> ident" where
  "Touch env sid idle =
     autocommit env ''sessions.Touch''
       (\<lambda>s. ((), update_sessions (\<lambda>x. ss_ID x = sid) (\<lambda>x. x\<lparr>ss_IdleExpiresAt := truncate_micro idle\<rparr>) s))"

definition CompleteMFA :: "ident_env \<Rightarrow> string \<Rightarrow> string \<Rightarrow> int \<Rightarrow> int \<Rightarrow> ident \<Rightarrow> unit app \<times> ident" where
  "CompleteMFA env sid newHash idle absolute =
     autocommit env ''sessions.CompleteMFA''
       (\<lambda>s. ((), update_sessions (\<lambda>x. ss_ID x = sid)
          (\<lambda>x. x\<lparr>ss_MFAPending := False, ss_MFAAttempts := 0, ss_TokenHash := newHash,
                 ss_IdleExpiresAt := truncate_micro idle, ss_AbsoluteExpiresAt := truncate_micro absolute\<rparr>) s))"

text \<open>The one statement of the second-factor budget: (allowed, spent).\<close>

definition charge_mfa :: "int \<Rightarrow> session \<Rightarrow> (bool \<times> int) \<times> session" where
  "charge_mfa threshold x =
     ((ss_MFAAttempts x < threshold, min (ss_MFAAttempts x + 1) threshold),
      x\<lparr>ss_MFAAttempts := min (ss_MFAAttempts x + 1) threshold\<rparr>)"

definition ConsumeMFAAttempt :: "ident_env \<Rightarrow> string \<Rightarrow> int \<Rightarrow> ident \<Rightarrow> (bool \<times> int) app \<times> ident" where
  "ConsumeMFAAttempt env sid threshold =
     autocommit env ''sessions.ConsumeMFAAttempt'' (\<lambda>s.
       case session_row s sid of
         None \<Rightarrow> ((False, 0), s)
       | Some x \<Rightarrow> (fst (charge_mfa threshold x), update_sessions (\<lambda>y. ss_ID y = sid) (\<lambda>y. snd (charge_mfa threshold y)) s))"

definition ClearMFAAttempts :: "ident_env \<Rightarrow> string \<Rightarrow> ident \<Rightarrow> (unit \<times> ident) app" where
  "ClearMFAAttempts env sid =
     in_tx env ''sessions.ClearMFAAttempts''
       (\<lambda>s. ((), update_sessions (\<lambda>x. ss_ID x = sid) (\<lambda>x. x\<lparr>ss_MFAAttempts := 0\<rparr>) s))"

text \<open>A stamp is set once and never moved.\<close>

definition revoke_session :: "int \<Rightarrow> session \<Rightarrow> session" where
  "revoke_session now x = (if ss_RevokedAt x = None then x\<lparr>ss_RevokedAt := Some now\<rparr> else x)"

definition revoked_where :: "ident_env \<Rightarrow> (session \<Rightarrow> bool) \<Rightarrow> ident \<Rightarrow> ident" where
  "revoked_where env P s = update_sessions P (revoke_session (ix_DbNow env)) s"

definition sessions_Revoke :: "ident_env \<Rightarrow> string \<Rightarrow> ident \<Rightarrow> unit \<times> ident" where
  "sessions_Revoke env sid s = ((), revoked_where env (\<lambda>x. ss_ID x = sid) s)"

definition sessions_RevokeAllForUser :: "ident_env \<Rightarrow> string \<Rightarrow> ident \<Rightarrow> (int \<times> ident) app" where
  "sessions_RevokeAllForUser env uid =
     in_tx env ''sessions.RevokeAllForUser'' (\<lambda>s.
       (int (length (filter (\<lambda>x. ss_UserID x = uid \<and> ss_RevokedAt x = None) (id_Sessions s))),
        revoked_where env (\<lambda>x. ss_UserID x = uid) s))"

section \<open>API tokens\<close>

definition update_tokens :: "(api_token \<Rightarrow> bool) \<Rightarrow> (api_token \<Rightarrow> api_token) \<Rightarrow> ident \<Rightarrow> ident" where
  "update_tokens P f s = s\<lparr>id_Tokens := map (\<lambda>t. if P t then f t else t) (id_Tokens s)\<rparr>"

definition tokens_Create :: "ident_env \<Rightarrow> api_token \<Rightarrow> ident \<Rightarrow> (api_token \<times> ident) app" where
  "tokens_Create env input =
     in_tx env ''tokens.Create'' (\<lambda>s.
       let t = input\<lparr>tk_ID := ix_NewID env ''api_tokens'', tk_CreatedAt := ix_DbNow env,
                     tk_ExpiresAt := truncate_micro (tk_ExpiresAt input), tk_LastUsedAt := None, tk_RevokedAt := None\<rparr>
       in (t, s\<lparr>id_Tokens := id_Tokens s @ [t]\<rparr>))"

definition tokens_GetByTokenHash :: "ident_env \<Rightarrow> ident \<Rightarrow> string \<Rightarrow> api_token option app" where
  "tokens_GetByTokenHash env s h = read_stmt env ''tokens.GetByTokenHash'' (find (\<lambda>t. tk_TokenHash t = h) (id_Tokens s))"

definition TouchLastUsed :: "ident_env \<Rightarrow> string \<Rightarrow> int \<Rightarrow> ident \<Rightarrow> unit app \<times> ident" where
  "TouchLastUsed env tid at' =
     autocommit env ''tokens.TouchLastUsed''
       (\<lambda>s. ((), update_tokens (\<lambda>t. tk_ID t = tid) (\<lambda>t. t\<lparr>tk_LastUsedAt := Some (truncate_micro at')\<rparr>) s))"

definition revoke_token :: "int \<Rightarrow> api_token \<Rightarrow> api_token" where
  "revoke_token now t = (if tk_RevokedAt t = None then t\<lparr>tk_RevokedAt := Some now\<rparr> else t)"

definition tokens_RevokeAllForUser :: "ident_env \<Rightarrow> string \<Rightarrow> ident \<Rightarrow> (int \<times> ident) app" where
  "tokens_RevokeAllForUser env uid =
     in_tx env ''tokens.RevokeAllForUser'' (\<lambda>s.
       (int (length (filter (\<lambda>t. tk_UserID t = uid \<and> tk_RevokedAt t = None) (id_Tokens s))),
        update_tokens (\<lambda>t. tk_UserID t = uid) (revoke_token (ix_DbNow env)) s))"

definition tokens_Revoke :: "ident_env \<Rightarrow> string \<Rightarrow> string \<Rightarrow> ident \<Rightarrow> (bool \<times> ident) app" where
  "tokens_Revoke env tid tenant =
     in_tx env ''tokens.Revoke'' (\<lambda>s.
       (list_ex (\<lambda>t. tk_ID t = tid \<and> tk_TenantID t = tenant \<and> tk_RevokedAt t = None) (id_Tokens s),
        update_tokens (\<lambda>t. tk_ID t = tid \<and> tk_TenantID t = tenant) (revoke_token (ix_DbNow env)) s))"

section \<open>Invitations\<close>

definition update_invites :: "(invite_token \<Rightarrow> bool) \<Rightarrow> (invite_token \<Rightarrow> invite_token) \<Rightarrow> ident \<Rightarrow> ident" where
  "update_invites P f s = s\<lparr>id_Invites := map (\<lambda>t. if P t then f t else t) (id_Invites s)\<rparr>"

definition invites_Create :: "ident_env \<Rightarrow> invite_token \<Rightarrow> ident \<Rightarrow> (invite_token \<times> ident) app" where
  "invites_Create env input =
     in_tx env ''invites.Create'' (\<lambda>s.
       let t = input\<lparr>it_ID := ix_NewID env ''invite_tokens'', it_CreatedAt := ix_DbNow env,
                     it_ExpiresAt := truncate_micro (it_ExpiresAt input), it_AcceptedAt := None, it_RevokedAt := None\<rparr>
       in (t, s\<lparr>id_Invites := id_Invites s @ [t]\<rparr>))"

definition invites_GetByTokenHash :: "ident_env \<Rightarrow> ident \<Rightarrow> string \<Rightarrow> invite_token option app" where
  "invites_GetByTokenHash env s h = read_stmt env ''invites.GetByTokenHash'' (find (\<lambda>t. it_TokenHash t = h) (id_Invites s))"

definition acceptable :: "string \<Rightarrow> int \<Rightarrow> invite_token \<Rightarrow> bool" where
  "acceptable tid now t \<longleftrightarrow> it_ID t = tid \<and> invite_IsUsable t now"

definition MarkAccepted :: "ident_env \<Rightarrow> string \<Rightarrow> int \<Rightarrow> ident \<Rightarrow> (bool \<times> ident) app" where
  "MarkAccepted env tid now =
     in_tx env ''invites.MarkAccepted'' (\<lambda>s.
       (list_ex (acceptable tid (truncate_micro now)) (id_Invites s),
        update_invites (acceptable tid (truncate_micro now)) (\<lambda>t. t\<lparr>it_AcceptedAt := Some (truncate_micro now)\<rparr>) s))"

definition unused_of :: "string \<Rightarrow> invite_token \<Rightarrow> bool" where
  "unused_of uid t \<longleftrightarrow> it_UserID t = uid \<and> it_AcceptedAt t = None \<and> it_RevokedAt t = None"

definition RevokeUnusedForUser :: "ident_env \<Rightarrow> string \<Rightarrow> ident \<Rightarrow> (int \<times> ident) app" where
  "RevokeUnusedForUser env uid =
     in_tx env ''invites.RevokeUnusedForUser'' (\<lambda>s.
       (int (length (filter (unused_of uid) (id_Invites s))),
        update_invites (unused_of uid) (\<lambda>t. t\<lparr>it_RevokedAt := Some (ix_DbNow env)\<rparr>) s))"

section \<open>Members\<close>

record member_grant =
  mg_ID :: string
  mg_UserID :: string
  mg_Role :: string
  mg_ScopeEntityID :: "string option"
  mg_ScopeEntityName :: "string option"

record member =
  mb_ID :: string
  mb_TenantID :: string
  mb_Email :: string
  mb_Name :: string
  mb_Kind :: string
  mb_Status :: string
  mb_MFAEnabled :: bool
  mb_HasPassword :: bool
  mb_CreatedAt :: int
  mb_Grants :: "member_grant list"

definition mb_IsInvited :: "member \<Rightarrow> bool" where "mb_IsInvited m \<longleftrightarrow> mb_Status m = ''invited''"
definition mb_IsService :: "member \<Rightarrow> bool" where "mb_IsService m \<longleftrightarrow> mb_Kind m = ''service''"

definition ctx_tenant :: "ident_env \<Rightarrow> string" where
  "ctx_tenant env = ac_Tenant (ix_Audit env)"

text \<open>
  The grants of a member that row-level security shows, in order of creation; the name of a scope
  entity only inside the caller's read scope.
\<close>

definition entity_name :: "ident_env \<Rightarrow> ident \<Rightarrow> read_scope \<Rightarrow> string option \<Rightarrow> string option" where
  "entity_name env s scope eid =
     (case eid of None \<Rightarrow> None
      | Some e \<Rightarrow>
          if in_scope scope eid
          then map_option (\<lambda>(_, _, n). n) (find (\<lambda>(t, i, _). t = ctx_tenant env \<and> i = e) (id_Entities s)) else None)"

definition visible_grants :: "ident_env \<Rightarrow> ident \<Rightarrow> string \<Rightarrow> user_grant list" where
  "visible_grants env s uid = filter (\<lambda>g. ug_TenantID g = ctx_tenant env \<and> ug_UserID g = uid) (id_Grants s)"

definition attachGrants :: "ident_env \<Rightarrow> ident \<Rightarrow> member list \<Rightarrow> member list app" where
  "attachGrants env s members =
     (if members = [] then Inr members
      else andthen (fst (ResolveReadScope (ix_Descendants env) (ix_Grants env) ''entity:read'' (Some []))) (\<lambda>scope.
           read_stmt env ''members.attachGrants''
             (map (\<lambda>m. m\<lparr>mb_Grants := map (\<lambda>g. \<lparr>mg_ID = ug_ID g, mg_UserID = ug_UserID g, mg_Role = ug_Role g,
                  mg_ScopeEntityID = ug_ScopeEntityID g, mg_ScopeEntityName = entity_name env s scope (ug_ScopeEntityID g)\<rparr>)
                (visible_grants env s (mb_ID m))\<rparr>) members)))"

definition member_of :: "user \<Rightarrow> member" where
  "member_of u =
     \<lparr>mb_ID = us_ID u, mb_TenantID = us_TenantID u, mb_Email = us_Email u, mb_Name = us_Name u, mb_Kind = us_Kind u,
      mb_Status = us_Status u, mb_MFAEnabled = us_TOTPEnabled u, mb_HasPassword = (us_PasswordHash u \<noteq> None),
      mb_CreatedAt = us_CreatedAt u, mb_Grants = []\<rparr>"

definition members_GetByID :: "ident_env \<Rightarrow> ident \<Rightarrow> string \<Rightarrow> string \<Rightarrow> member option app" where
  "members_GetByID env s tenant mid =
     andthen (read_stmt env ''members.GetByID'' (find (\<lambda>u. us_ID u = mid \<and> us_TenantID u = tenant) (id_Users s)))
       (\<lambda>row. case row of
          None \<Rightarrow> Inr None
        | Some u \<Rightarrow> andthen (attachGrants env s [member_of u]) (\<lambda>ms. Inr (Some (hd ms))))"

definition UpdateNameStatus :: "ident_env \<Rightarrow> string \<Rightarrow> string \<Rightarrow> string \<Rightarrow> string \<Rightarrow> ident \<Rightarrow> (bool \<times> ident) app" where
  "UpdateNameStatus env tenant mid name status =
     in_tx env ''members.UpdateNameStatus'' (\<lambda>s.
       (list_ex (\<lambda>u. us_ID u = mid \<and> us_TenantID u = tenant) (id_Users s),
        s\<lparr>id_Users := map (\<lambda>u. if us_ID u = mid \<and> us_TenantID u = tenant
             then u\<lparr>us_Name := name, us_Status := status, us_UpdatedAt := ix_DbNow env\<rparr> else u) (id_Users s)\<rparr>))"

definition activatable :: "string \<Rightarrow> user \<Rightarrow> bool" where
  "activatable uid u \<longleftrightarrow> us_ID u = uid \<and> us_Status u = ''invited'' \<and> us_Kind u = ''human''"

definition Activate :: "ident_env \<Rightarrow> string \<Rightarrow> string \<Rightarrow> string option \<Rightarrow> ident \<Rightarrow> (bool \<times> ident) app" where
  "Activate env uid hash name =
     in_tx env ''members.Activate'' (\<lambda>s.
       (list_ex (activatable uid) (id_Users s),
        s\<lparr>id_Users := map (\<lambda>u. if activatable uid u
             then u\<lparr>us_PasswordHash := Some hash, us_Status := ''active'',
                    us_Name := (case name of None \<Rightarrow> us_Name u | Some n \<Rightarrow> n),
                    us_FailedLoginAttempts := 0, us_LockedUntil := None, us_UpdatedAt := ix_DbNow env\<rparr> else u) (id_Users s)\<rparr>))"

text \<open>The composite foreign key of a grant: its scope is an entity of the same tenant.\<close>

definition scope_ok :: "ident_env \<Rightarrow> ident \<Rightarrow> string option \<Rightarrow> bool" where
  "scope_ok env s scope =
     (case scope of None \<Rightarrow> True | Some e \<Rightarrow> list_ex (\<lambda>(t, i, _). t = ctx_tenant env \<and> i = e) (id_Entities s))"

definition grant_row :: "ident_env \<Rightarrow> string \<Rightarrow> string \<Rightarrow> string option \<Rightarrow> user_grant" where
  "grant_row env uid role scope =
     \<lparr>ug_ID = ix_NewID env ''user_grants'', ug_TenantID = ctx_tenant env, ug_UserID = uid, ug_Role = role, ug_ScopeEntityID = scope\<rparr>"

definition InsertGrant :: "ident_env \<Rightarrow> string \<Rightarrow> string \<Rightarrow> string option \<Rightarrow> ident \<Rightarrow> (string \<times> ident) app" where
  "InsertGrant env uid role scope s =
     (if \<not> scope_ok env s scope then Inl (NewValidation ''scopeEntityId is not an entity of this tenant'')
      else in_tx env ''members.InsertGrant''
        (\<lambda>s. (ug_ID (grant_row env uid role scope), s\<lparr>id_Grants := id_Grants s @ [grant_row env uid role scope]\<rparr>)) s)"

definition DeleteGrant :: "ident_env \<Rightarrow> string \<Rightarrow> string \<Rightarrow> ident \<Rightarrow> (bool \<times> ident) app" where
  "DeleteGrant env uid gid =
     in_tx env ''members.DeleteGrant'' (\<lambda>s.
       (list_ex (\<lambda>g. ug_ID g = gid) (visible_grants env s uid),
        s\<lparr>id_Grants := filter (\<lambda>g. \<not> (ug_TenantID g = ctx_tenant env \<and> ug_UserID g = uid \<and> ug_ID g = gid)) (id_Grants s)\<rparr>))"

definition DeleteGrantsForUser :: "ident_env \<Rightarrow> string \<Rightarrow> ident \<Rightarrow> (unit \<times> ident) app" where
  "DeleteGrantsForUser env uid =
     in_tx env ''members.DeleteGrantsForUser''
       (\<lambda>s. ((), s\<lparr>id_Grants := filter (\<lambda>g. \<not> (ug_TenantID g = ctx_tenant env \<and> ug_UserID g = uid)) (id_Grants s)\<rparr>))"

definition active_admin :: "ident \<Rightarrow> string \<Rightarrow> user \<Rightarrow> bool" where
  "active_admin s tenant u \<longleftrightarrow>
     us_TenantID u = tenant \<and> us_Kind u = ''human'' \<and> us_Status u = ''active'' \<and>
     list_ex (\<lambda>g. ug_UserID g = us_ID u \<and> ug_TenantID g = tenant \<and> ug_Role g = ''tenant_admin'' \<and> IsTenantWide g) (id_Grants s)"

definition CountActiveTenantAdmins :: "ident_env \<Rightarrow> ident \<Rightarrow> string \<Rightarrow> int app" where
  "CountActiveTenantAdmins env s tenant =
     read_stmt env ''members.CountActiveTenantAdmins'' (int (length (filter (active_admin s tenant) (id_Users s))))"

text \<open>The advisory lock is held to the end of the transaction: here it can only fail to be taken.\<close>

definition LockAdminGuard :: "ident_env \<Rightarrow> ident \<Rightarrow> (unit \<times> ident) app" where
  "LockAdminGuard env = in_tx env ''members.LockAdminGuard'' (\<lambda>s. ((), s))"

definition IsAssignable :: "ident_env \<Rightarrow> ident \<Rightarrow> string \<Rightarrow> bool app" where
  "IsAssignable env s uid =
     (if ctx_tenant env = [] \<or> uid = [] then Inr False
      else read_stmt env ''users.IsAssignable''
        (list_ex (\<lambda>u. us_ID u = uid \<and> us_TenantID u = ctx_tenant env \<and> us_Kind u = ''human'' \<and> us_Status u = ''active'') (id_Users s)))"

definition ListForUser :: "ident_env \<Rightarrow> ident \<Rightarrow> string \<Rightarrow> grant list app" where
  "ListForUser env s uid =
     read_stmt env ''grants.ListForUser''
       (map (\<lambda>g. \<lparr>gr_Role = ug_Role g, gr_ScopeEntityID = ug_ScopeEntityID g\<rparr>) (visible_grants env s uid))"

definition grants_Insert :: "ident_env \<Rightarrow> string \<Rightarrow> string \<Rightarrow> string option \<Rightarrow> ident \<Rightarrow> (unit \<times> ident) app" where
  "grants_Insert env uid role scope s =
     (if \<not> scope_ok env s scope then Inl (Internal (text_msg ''violates foreign key constraint''))
      else in_tx env ''grants.Insert''
        (\<lambda>s. ((), s\<lparr>id_Grants := id_Grants s @ [grant_row env uid role scope]\<rparr>)) s)"

section \<open>Recording\<close>

text \<open>
  \<^verbatim>\<open>note\<close> outside a transaction never fails its caller. Inside one, an insert the database
  refuses dooms the transaction although its error is swallowed, so the request fails with it.
\<close>

definition note_event :: "ident_env \<Rightarrow> security_event \<Rightarrow> ident \<Rightarrow> ident" where
  "note_event env e s =
     (case ix_Events env of
        None \<Rightarrow> s
      | Some ctx \<Rightarrow>
          (case event_Record ctx e (id_Events s) of
             Inl _ \<Rightarrow> s
           | Inr rows \<Rightarrow>
               (case ix_Fault env ''security_events'' of
                  None \<Rightarrow> s\<lparr>id_Events := rows\<rparr>
                | Some (_, applied) \<Rightarrow> if applied then s\<lparr>id_Events := rows\<rparr> else s)))"

definition tx_Record :: "ident_env \<Rightarrow> security_event \<Rightarrow> ident \<Rightarrow> (unit \<times> ident) app" where
  "tx_Record env e s =
     (case ix_Events env of
        None \<Rightarrow> Inr ((), s)
      | Some ctx \<Rightarrow>
          (case event_Record ctx e (id_Events s) of
             Inl m \<Rightarrow> Inl (Internal m)
           | Inr rows \<Rightarrow> in_tx env ''security_events'' (\<lambda>s. ((), s\<lparr>id_Events := rows\<rparr>)) s))"

definition tx_note :: "ident_env \<Rightarrow> security_event \<Rightarrow> ident \<Rightarrow> (unit \<times> ident) app" where
  "tx_note env e s = (if validate_event e \<noteq> None then Inr ((), s) else tx_Record env e s)"

text \<open>The audit trail of the tenant in context, on the same transaction.\<close>

definition audit_tx :: "ident_env \<Rightarrow> string \<Rightarrow> string \<Rightarrow> string \<Rightarrow> json option \<Rightarrow> ident \<Rightarrow> (unit \<times> ident) app" where
  "audit_tx env action resourceType resourceID details s =
     (if \<not> ix_AuditWired env then Inr ((), s)
      else case audit_Record (ix_Sha env) (ix_Audit env) action resourceType resourceID details (id_Chain s (ctx_tenant env)) of
             Inl m \<Rightarrow> Inl (Internal m)
           | Inr chain \<Rightarrow> in_tx env ''audit_log'' (\<lambda>s. ((), s\<lparr>id_Chain := (id_Chain s)(ctx_tenant env := chain)\<rparr>)) s)"

text \<open>An instant as \<^verbatim>\<open>encoding/json\<close> writes it in UTC: RFC 3339 with the fraction it has.\<close>

definition rfc3339_nano :: "int \<Rightarrow> string" where
  "rfc3339_nano t =
     (let day = t div 86400000000000; sec = t mod 86400000000000 div 1000000000; frac = t mod 1000000000
      in date_String (FromTime (day + 719162)) @ ''T'' @ fmt_0d 2 (sec div 3600) @ '':'' @
         fmt_0d 2 (sec div 60 mod 60) @ '':'' @ fmt_0d 2 (sec mod 60) @
         (if frac = 0 then [] else ''.'' @ rev (dropWhile (\<lambda>c. c = CHR ''0'') (rev (fmt_0d 9 frac)))) @ ''Z'')"

section \<open>The invitation's mail\<close>

record invite_mail =
  im_TokenID :: string
  im_RawToken :: string
  im_Email :: string
  im_Name :: string
  im_ExpiresAt :: int

definition InviteDedupeKey :: "string \<Rightarrow> string" where
  "InviteDedupeKey tokenID = ''invite:'' @ tokenID"

definition EnqueueInviteMail :: "queue_env \<Rightarrow> invite_mail \<Rightarrow> outbox_row list \<Rightarrow> outbox_row list app" where
  "EnqueueInviteMail q m rows =
     (let email = TrimSpace (im_Email m) in
      if email = [] \<or> im_TokenID m = [] \<or> im_RawToken m = []
      then Inl (Internal (text_msg ''notifications: invite mail needs a recipient, a token id and a token''))
      else case Enqueue q \<lparr>nm_Channel = [], nm_Template = ''member.invited'', nm_Recipient = email,
                  nm_Payload = Some [(''expiresAt'', JStr (rfc3339_nano (im_ExpiresAt m))), (''inviteToken'', JStr (im_RawToken m)),
                    (''recipientName'', JStr (im_Name m))],
                  nm_DedupeKey = InviteDedupeKey (im_TokenID m), nm_DueAt = None\<rparr> rows of
             Inl e \<Rightarrow> Inl e
           | Inr (_, rows') \<Rightarrow> Inr rows')"

definition deliverInvite :: "ident_env \<Rightarrow> invite_mail \<Rightarrow> ident \<Rightarrow> (unit \<times> ident) app" where
  "deliverInvite env m s =
     (case ix_Mail env of
        None \<Rightarrow> Inr ((), s)
      | Some q \<Rightarrow>
          (case EnqueueInviteMail q m (id_Outbox s) of
             Inl e \<Rightarrow> Inl e
           | Inr rows \<Rightarrow> in_tx env ''outbox_messages'' (\<lambda>s. ((), s\<lparr>id_Outbox := rows\<rparr>)) s))"

lemma rfc3339_nano_examples:
  "rfc3339_nano 1789261323000004567 = ''2026-09-13T01:02:03.000004567Z''"
  "rfc3339_nano 1789261323000004000 = ''2026-09-13T01:02:03.000004Z''"
  "rfc3339_nano 1789261323000000000 = ''2026-09-13T01:02:03Z''"
  by code_simp+

end
