(* ===== verification/SignIn.thy ===== *)
theory SignIn
  imports Accounts
begin

text \<open>
  Sign-in with a password, \<^verbatim>\<open>src/modules/identity/usecases/login.go\<close>: the attempt charged before the
  password is verified, the one verification, the one refusal, and the transaction that clears
  the counter, mints the session and records it. The use case runs as four stages without a
  common transaction; the stages of different requests interleave in \<open>login_world_step\<close>.
\<close>

section \<open>The use case\<close>

definition maxFailedAttempts :: int where "maxFailedAttempts = 5"
definition lockoutDuration :: int where "lockoutDuration = 15 * 60 * 1000000000"

definition MsgInvalidCredentials :: string where "MsgInvalidCredentials = ''invalid email or password''"

record login_input =
  li_Email :: string
  li_Password :: string
  li_IP :: "string option"
  li_UserAgent :: "string option"

record login_result =
  lr_SessionToken :: string
  lr_MFARequired :: bool
  lr_User :: user

record attempt_charge =
  ch_allowed :: bool
  ch_engaged :: bool
  ch_failed :: bool

definition blank_event :: security_event where
  "blank_event = \<lparr>sv_Event = [], sv_Outcome = [], sv_Method = [], sv_Reason = [], sv_TenantID = [], sv_PrincipalID = [],
     sv_ActorID = [], sv_SessionID = [], sv_Subject = []\<rparr>"

definition createSession :: "ident_env \<Rightarrow> user \<Rightarrow> bool \<Rightarrow> string option \<Rightarrow> string option \<Rightarrow> ident \<Rightarrow> ((string \<times> session) \<times> ident) app" where
  "createSession env u mfaPending ip ua s =
     (case ix_NewSessionToken env of
        Inl m \<Rightarrow> Inl (Internal m)
      | Inr token \<Rightarrow>
          andthen (sessions_Create env
              \<lparr>ss_ID = [], ss_TokenHash = ix_HashToken env token, ss_UserID = us_ID u, ss_TenantID = us_TenantID u,
               ss_MFAPending = mfaPending, ss_MFAAttempts = 0, ss_CreatedAt = 0,
               ss_IdleExpiresAt = ix_SessionNow env + ix_SessionIdleTTL env,
               ss_AbsoluteExpiresAt = ix_SessionNow env + ix_SessionAbsoluteTTL env,
               ss_RevokedAt = None, ss_IP = ip, ss_UserAgent = ua\<rparr> s) (\<lambda>(x, s'). Inr ((token, x), s')))"

definition login_email :: "ident_env \<Rightarrow> login_input \<Rightarrow> string" where
  "login_email env input = ix_ToLower env (TrimSpace (li_Email input))"

definition loginCapable :: "user option \<Rightarrow> bool" where
  "loginCapable user =
     (case user of None \<Rightarrow> False | Some u \<Rightarrow> \<not> us_IsService u \<and> us_PasswordHash u \<noteq> None \<and> us_IsActive u)"

text \<open>It fails closed: an attempt that could not be charged is refused.\<close>

definition consumeAttempt :: "ident_env \<Rightarrow> string \<Rightarrow> int \<Rightarrow> ident \<Rightarrow> attempt_charge \<times> ident" where
  "consumeAttempt env uid now s =
     (case ConsumeLoginAttempt env uid maxFailedAttempts now (now + lockoutDuration) s of
        (Inl _, s') \<Rightarrow> (\<lparr>ch_allowed = False, ch_engaged = False, ch_failed = True\<rparr>, s')
      | (Inr (allowed, engaged), s') \<Rightarrow> (\<lparr>ch_allowed = allowed, ch_engaged = engaged, ch_failed = False\<rparr>, s'))"

definition login_charge :: "ident_env \<Rightarrow> user option \<Rightarrow> int \<Rightarrow> ident \<Rightarrow> attempt_charge \<times> ident" where
  "login_charge env user now s =
     (if loginCapable user then consumeAttempt env (us_ID (the user)) now s
      else (\<lparr>ch_allowed = False, ch_engaged = False, ch_failed = False\<rparr>, s))"

text \<open>Which hash is verified, and the calls of VerifyPassword that are made for it.\<close>

definition login_hash :: "ident_env \<Rightarrow> user option \<Rightarrow> attempt_charge \<Rightarrow> string" where
  "login_hash env user chg =
     (if loginCapable user \<and> ch_allowed chg then the (us_PasswordHash (the user)) else ix_DummyHash env)"

definition verifyOnce :: "ident_env \<Rightarrow> string \<Rightarrow> string \<Rightarrow> bool \<times> (string \<times> string) list" where
  "verifyOnce env password hash =
     (case ix_VerifyPassword env password hash of
        Inr ok \<Rightarrow> (ok, [(password, hash)])
      | Inl _ \<Rightarrow> (False, (password, hash) # (if hash \<noteq> ix_DummyHash env then [(password, ix_DummyHash env)] else [])))"

definition loginRefusalReason :: "user option \<Rightarrow> bool \<Rightarrow> attempt_charge \<Rightarrow> string" where
  "loginRefusalReason user capable chg =
     (if user = None then ''no_such_principal''
      else if \<not> capable then ''not_login_capable''
      else if ch_failed chg then ''charge_failed''
      else if \<not> ch_allowed chg then ''locked_out''
      else ''bad_credential'')"

definition login_failed_event :: "string \<Rightarrow> user option \<Rightarrow> bool \<Rightarrow> attempt_charge \<Rightarrow> security_event" where
  "login_failed_event email user capable chg =
     blank_event\<lparr>sv_Event := ''auth.login.failed'', sv_Outcome := ''failure'', sv_Method := ''password'',
       sv_Reason := loginRefusalReason user capable chg,
       sv_TenantID := (case user of None \<Rightarrow> [] | Some u \<Rightarrow> us_TenantID u),
       sv_PrincipalID := (case user of None \<Rightarrow> [] | Some u \<Rightarrow> us_ID u), sv_Subject := email\<rparr>"

definition lockout_event :: "user option \<Rightarrow> security_event" where
  "lockout_event user =
     blank_event\<lparr>sv_Event := ''auth.lockout.engaged'', sv_Outcome := ''failure'', sv_Method := ''password'',
       sv_Reason := ''bad_credential'',
       sv_TenantID := (case user of None \<Rightarrow> [] | Some u \<Rightarrow> us_TenantID u),
       sv_PrincipalID := (case user of None \<Rightarrow> [] | Some u \<Rightarrow> us_ID u)\<rparr>"

definition noteLoginRefusal :: "ident_env \<Rightarrow> string \<Rightarrow> user option \<Rightarrow> bool \<Rightarrow> attempt_charge \<Rightarrow> ident \<Rightarrow> ident" where
  "noteLoginRefusal env email user capable chg s =
     note_event env (login_failed_event email user capable chg)
       (if ch_engaged chg then note_event env (lockout_event user) s else s)"

definition login_succeeded_event :: "user \<Rightarrow> session \<Rightarrow> security_event" where
  "login_succeeded_event u x =
     blank_event\<lparr>sv_Event := ''auth.login.succeeded'', sv_Outcome := ''success'', sv_Method := ''password'',
       sv_TenantID := us_TenantID u, sv_PrincipalID := us_ID u, sv_SessionID := ss_ID x\<rparr>"

definition login_tx :: "ident_env \<Rightarrow> login_input \<Rightarrow> user \<Rightarrow> ident \<Rightarrow> (string \<times> ident) app" where
  "login_tx env input u s =
     andthen (ResetFailedLogin env (us_ID u) s) (\<lambda>(_, s1).
     andthen (createSession env u (us_TOTPEnabled u) (li_IP input) (li_UserAgent input) s1) (\<lambda>((token, x), s2).
     andthen (tx_Record env (login_succeeded_event u x) s2) (\<lambda>(_, s3).
       Inr (token, s3))))"

definition login_commit :: "ident_env \<Rightarrow> login_input \<Rightarrow> user \<Rightarrow> ident \<Rightarrow> string app \<times> ident" where
  "login_commit env input u = withinTx env (login_tx env input u)"

definition login_finish ::
  "ident_env \<Rightarrow> login_input \<Rightarrow> user option \<Rightarrow> attempt_charge \<Rightarrow> bool \<Rightarrow> ident \<Rightarrow> login_result app \<times> ident" where
  "login_finish env input user chg ok s =
     (if \<not> loginCapable user \<or> \<not> ch_allowed chg \<or> \<not> ok
      then (Inl (NewUnauthorized MsgInvalidCredentials),
            noteLoginRefusal env (login_email env input) user (loginCapable user) chg s)
      else andthenS (login_commit env input (the user) s) (\<lambda>token s'.
             (Inr \<lparr>lr_SessionToken = token, lr_MFARequired = us_TOTPEnabled (the user), lr_User = the user\<rparr>, s')))"

text \<open>The use case, with the calls of VerifyPassword it makes.\<close>

definition Login :: "ident_env \<Rightarrow> login_input \<Rightarrow> ident \<Rightarrow> (login_result app \<times> (string \<times> string) list) \<times> ident" where
  "Login env input s =
     (case GetByEmail env s (login_email env input) of
        Inl e \<Rightarrow> ((Inl e, []), s)
      | Inr user \<Rightarrow>
          let (chg, s1) = login_charge env user (ix_Now env) s;
              (ok, calls) = verifyOnce env (li_Password input) (login_hash env user chg);
              (r, s2) = login_finish env input user chg ok s1
          in ((r, calls), s2))"

section \<open>What one sign-in does\<close>

definition login_admits :: "ident_env \<Rightarrow> login_input \<Rightarrow> ident \<Rightarrow> bool" where
  "login_admits env input s =
     (case find (\<lambda>u. us_Email u = login_email env input) (id_Users s) of
        None \<Rightarrow> False
      | Some u \<Rightarrow> loginCapable (Some u) \<and> ch_allowed (fst (login_charge env (Some u) (ix_Now env) s)) \<and>
          ix_VerifyPassword env (li_Password input) (the (us_PasswordHash u)) = Inr True)"

text \<open>The hash stored for the account of the address, when its attempt is charged and allowed.\<close>

definition stored_hash_in_budget :: "ident_env \<Rightarrow> login_input \<Rightarrow> ident \<Rightarrow> string \<Rightarrow> bool" where
  "stored_hash_in_budget env input s h =
     (case find (\<lambda>u. us_Email u = login_email env input) (id_Users s) of
        None \<Rightarrow> False
      | Some u \<Rightarrow> loginCapable (Some u) \<and> us_PasswordHash u = Some h \<and>
          ch_allowed (fst (login_charge env (Some u) (ix_Now env) s)))"

text \<open>The calls of a verification: the hash, and the dummy after a hash that could not be read.\<close>

lemma verifyOnce_calls:
  "set (snd (verifyOnce env p h)) \<subseteq> {(p, h), (p, ix_DummyHash env)}"
  "filter (\<lambda>(q, g). g \<noteq> ix_DummyHash env) (snd (verifyOnce env p h)) = (if h = ix_DummyHash env then [] else [(p, h)])"
  by (auto simp: verifyOnce_def split: sum.splits)

lemma login_hash_inside: "login_hash env user chg \<noteq> ix_DummyHash env \<Longrightarrow>
    loginCapable user \<and> ch_allowed chg \<and> us_PasswordHash (the user) = Some (login_hash env user chg)"
  by (auto simp: login_hash_def loginCapable_def split: option.splits if_splits)

lemma verifyOnce_True: "fst (verifyOnce env p h) \<longleftrightarrow> ix_VerifyPassword env p h = Inr True"
  by (simp add: verifyOnce_def split: sum.split)

lemma verifyOnce_work:
  "is_ok (ix_VerifyPassword env p (ix_DummyHash env)) \<Longrightarrow>
   length (filter (\<lambda>(q, h). is_ok (ix_VerifyPassword env q h)) (snd (verifyOnce env p h))) = 1"
  by (auto simp: verifyOnce_def split: sum.split)

lemma verifyOnce_dummy:
  "set (snd (verifyOnce env p (ix_DummyHash env))) = {(p, ix_DummyHash env)}"
  by (simp add: verifyOnce_def split: sum.split)

lemma withinTx_Inr: "withinTx env body s = (Inr x, s') \<Longrightarrow> body s = Inr (x, s')"
  by (auto simp: withinTx_def split: option.splits sum.splits)

lemma withinTx_store: "withinTx env body s = (r, s') \<Longrightarrow> s' = s \<or> (\<exists>x. body s = Inr (x, s'))"
  by (auto simp: withinTx_def split: option.splits sum.splits if_splits)

lemma in_tx_Inr: "in_tx env name f s = Inr y \<longleftrightarrow> ix_Fault env name = None \<and> y = f s"
  by (auto simp: in_tx_def split: option.split)

text \<open>What a statement leaves alone.\<close>

lemma note_event_sel [simp]:
  "id_Sessions (note_event env e s) = id_Sessions s" "id_Users (note_event env e s) = id_Users s"
  "id_Tokens (note_event env e s) = id_Tokens s" "id_Invites (note_event env e s) = id_Invites s"
  "id_Grants (note_event env e s) = id_Grants s" "id_Chain (note_event env e s) = id_Chain s"
  by (auto simp: note_event_def split: option.split sum.split)

lemma update_user_sel [simp]:
  "id_Sessions (update_user uid f s) = id_Sessions s" "id_Tokens (update_user uid f s) = id_Tokens s"
  "id_Invites (update_user uid f s) = id_Invites s" "id_Grants (update_user uid f s) = id_Grants s"
  "id_Events (update_user uid f s) = id_Events s" "id_Chain (update_user uid f s) = id_Chain s"
  by (simp_all add: update_user_def)

lemma update_sessions_sel [simp]:
  "id_Users (update_sessions P f s) = id_Users s" "id_Tokens (update_sessions P f s) = id_Tokens s"
  "id_Invites (update_sessions P f s) = id_Invites s" "id_Grants (update_sessions P f s) = id_Grants s"
  "id_Events (update_sessions P f s) = id_Events s" "id_Chain (update_sessions P f s) = id_Chain s"
  by (simp_all add: update_sessions_def)

lemma find_map_id:
  assumes "\<And>u. us_ID (f u) = us_ID u"
  shows "find (\<lambda>u. us_ID u = k) (map (\<lambda>u. if us_ID u = uid then f u else u) us) =
     map_option (\<lambda>u. if k = uid then f u else u) (find (\<lambda>u. us_ID u = k) us)"
  using assms by (induction us) auto

lemma user_row_update:
  "(\<And>u. us_ID (f u) = us_ID u) \<Longrightarrow>
   user_row (update_user uid f s) k = map_option (\<lambda>u. if k = uid then f u else u) (user_row s k)"
  by (simp add: user_row_def update_user_def find_map_id)

lemma charge_row_ID [simp]: "us_ID (snd (charge_row threshold now lockUntil dbnow u)) = us_ID u"
  by (simp add: charge_row_def Let_def)

lemma login_charge_sel [simp]:
  "id_Sessions (snd (login_charge env user now s)) = id_Sessions s"
  "id_Events (snd (login_charge env user now s)) = id_Events s"
  by (auto simp: login_charge_def consumeAttempt_def ConsumeLoginAttempt_def autocommit_def Let_def
      split: option.splits sum.splits prod.splits if_splits)

lemma noteLoginRefusal_sel [simp]:
  "id_Sessions (noteLoginRefusal env email user capable chg s) = id_Sessions s"
  "id_Users (noteLoginRefusal env email user capable chg s) = id_Users s"
  by (simp_all add: noteLoginRefusal_def)

text \<open>The transaction of a successful sign-in: the counter, the session and its record together.\<close>

definition minted :: "ident_env \<Rightarrow> login_input \<Rightarrow> user \<Rightarrow> string \<Rightarrow> ident \<Rightarrow> ident \<Rightarrow> bool" where
  "minted env input u token s s' \<longleftrightarrow> (\<exists>x.
     id_Sessions s' = id_Sessions s @ [x] \<and> ss_ID x = ix_NewID env ''sessions'' \<and> ss_UserID x = us_ID u \<and> ss_TenantID x = us_TenantID u \<and>
     ss_TokenHash x = ix_HashToken env token \<and> ss_MFAPending x = us_TOTPEnabled u \<and> ss_RevokedAt x = None \<and> ss_MFAAttempts x = 0 \<and>
     (\<forall>v. user_row s' (us_ID u) = Some v \<longrightarrow> us_FailedLoginAttempts v = 0 \<and> us_LockedUntil v = None) \<and>
     (\<forall>ctx. ix_Events env = Some ctx \<longrightarrow> id_Events s' = id_Events s @ [event_row ctx (login_succeeded_event u x)]))"

lemma tx_Record_Inr:
  assumes "tx_Record env e s = Inr ((), s')"
  shows "s' = s \<and> ix_Events env = None \<or>
    (\<exists>ctx. ix_Events env = Some ctx \<and> s' = s\<lparr>id_Events := id_Events s @ [event_row ctx e]\<rparr>)"
  using assms by (auto simp: tx_Record_def in_tx_Inr dest!: event_Record_appends split: option.splits sum.splits)

lemma createSession_Inr:
  assumes "createSession env u pending ip ua s = Inr ((token, x), s')"
  shows "ix_NewSessionToken env = Inr token \<and> s' = s\<lparr>id_Sessions := id_Sessions s @ [x]\<rparr> \<and> ss_ID x = ix_NewID env ''sessions'' \<and>
    ss_UserID x = us_ID u \<and> ss_TenantID x = us_TenantID u \<and> ss_TokenHash x = ix_HashToken env token \<and>
    ss_MFAPending x = pending \<and> ss_RevokedAt x = None \<and> ss_MFAAttempts x = 0"
  using assms by (auto simp: createSession_def andthen_Inr sessions_Create_def in_tx_Inr Let_def split: sum.splits)

definition cleared_counter :: "ident_env \<Rightarrow> user \<Rightarrow> user" where
  "cleared_counter env v = v\<lparr>us_FailedLoginAttempts := 0, us_LockedUntil := None, us_UpdatedAt := ix_DbNow env\<rparr>"

lemma cleared_counter_ID [simp]: "us_ID (cleared_counter env v) = us_ID v"
  by (simp add: cleared_counter_def)

lemma login_tx_Inr:
  assumes "login_tx env input u s = Inr (token, s')"
  shows "minted env input u token s s' \<and> id_Users s' = id_Users (update_user (us_ID u) (cleared_counter env) s)"
proof -
  obtain s1 s2 x where s1: "ResetFailedLogin env (us_ID u) s = Inr ((), s1)"
    and s2: "createSession env u (us_TOTPEnabled u) (li_IP input) (li_UserAgent input) s1 = Inr ((token, x), s2)"
    and s3: "tx_Record env (login_succeeded_event u x) s2 = Inr ((), s')"
    using assms by (auto simp: login_tx_def andthen_Inr)
  have 1: "s1 = update_user (us_ID u) (cleared_counter env) s"
    using s1 by (simp add: ResetFailedLogin_def in_tx_Inr cleared_counter_def [abs_def])
  note 2 = createSession_Inr [OF s2] and 3 = tx_Record_Inr [OF s3]
  have users: "id_Users s' = id_Users s1" and sess: "id_Sessions s' = id_Sessions s @ [x]" and
    ev: "\<forall>ctx. ix_Events env = Some ctx \<longrightarrow> id_Events s' = id_Events s @ [event_row ctx (login_succeeded_event u x)]"
    using 1 2 3 by auto
  from users 1 have "user_row s' (us_ID u) = map_option (cleared_counter env) (user_row s (us_ID u))"
    using user_row_update [of "cleared_counter env" "us_ID u" s "us_ID u"] by (simp add: user_row_def)
  then show ?thesis using sess ev 2 users 1 by (auto simp: minted_def cleared_counter_def)
qed

lemma login_commit_store:
  assumes "login_commit env input u s = (r, s')"
  shows "s' = s \<and> \<not> is_ok r \<or> (\<exists>token. minted env input u token s s' \<and> (\<forall>t. r = Inr t \<longrightarrow> t = token))"
  using assms
  by (auto simp: login_commit_def withinTx_def dest!: login_tx_Inr split: option.splits sum.splits if_splits)

lemma login_commit_row:
  assumes "login_commit env input u s = (r, s')"
  shows "s' = s \<or> (id_Sessions s' \<noteq> id_Sessions s \<and>
     (\<forall>uid. user_row s' uid = map_option (\<lambda>v. if uid = us_ID u then cleared_counter env v else v) (user_row s uid)))"
proof -
  have "id_Sessions s' \<noteq> id_Sessions s \<and> (\<forall>uid. user_row s' uid = map_option (\<lambda>v. if uid = us_ID u then cleared_counter env v else v) (user_row s uid))"
    if "login_tx env input u s = Inr (token, s')" for token
    using login_tx_Inr [OF that] user_row_update [of "cleared_counter env" "us_ID u" s]
    by (auto simp: user_row_def minted_def cleared_counter_def)
  with withinTx_store [OF assms [unfolded login_commit_def]] show ?thesis by blast
qed

text \<open>An error of these transactions is the database's or the token generator's, never a refusal.\<close>

definition only_internal :: "'a app \<Rightarrow> bool" where
  "only_internal r \<longleftrightarrow> (\<forall>e. r = Inl e \<longrightarrow> (\<exists>m. e = Internal m))"

named_theorems internal_intros

lemma only_internal_Inr [internal_intros]: "only_internal (Inr x)"
  by (simp add: only_internal_def)

lemma only_internal_Internal [internal_intros]: "only_internal (Inl (Internal m))"
  by (simp add: only_internal_def)

lemma only_internal_in_tx [internal_intros]: "only_internal (in_tx env name f s)"
  by (simp add: only_internal_def in_tx_def split: option.split)

lemma only_internal_andthen: "only_internal r \<Longrightarrow> (\<And>x. only_internal (k x)) \<Longrightarrow> only_internal (andthen r k)"
  by (cases r) (simp_all add: only_internal_def)

lemma only_internal_withinTx: "(\<And>s. only_internal (body s)) \<Longrightarrow> only_internal (fst (withinTx env body s))"
  unfolding withinTx_def by (auto simp: only_internal_def split: option.splits sum.splits)

lemma only_internal_createSession [internal_intros]: "only_internal (createSession env u pending ip ua s)"
  by (auto simp: createSession_def sessions_Create_def split_beta split: sum.split intro!: only_internal_andthen internal_intros)

lemma only_internal_tx_Record [internal_intros]: "only_internal (tx_Record env e s)"
  by (auto simp: tx_Record_def split: option.split sum.split intro!: internal_intros)

lemma login_commit_error: "only_internal (fst (login_commit env input u s))"
  unfolding login_commit_def login_tx_def ResetFailedLogin_def
  by (intro only_internal_withinTx only_internal_andthen internal_intros)
    (auto split: prod.split intro!: only_internal_andthen internal_intros)

text \<open>Property C8. Whatever fails later and whatever is stored, a sign-in verifies exactly one password
  hash to the end, of the password given; a hash other than the dummy is the one stored for the account of that
  address, able to sign in, and its attempt was charged and allowed before. It answers with the one refusal exactly when the address belongs to no
  active human account with a password, the attempt was not charged or the password is wrong; a
  refusal mints no session, and a sign-in that answers has minted one session of that account,
  pending when it has a second factor, with the counter cleared and the record written.\<close>

theorem login_outcome:
  assumes lookup: "ix_Fault env ''users.GetByEmail'' = None"
    and dummy: "\<forall>p. is_ok (ix_VerifyPassword env p (ix_DummyHash env))"
    and run: "Login env input s = ((r, calls), s')"
  shows "length (filter (\<lambda>(p, h). is_ok (ix_VerifyPassword env p h)) calls) = 1 \<and>
    (\<forall>(p, h) \<in> set calls. p = li_Password input \<and> (h = ix_DummyHash env \<or> stored_hash_in_budget env input s h)) \<and>
    (r = Inl (NewUnauthorized MsgInvalidCredentials) \<longleftrightarrow> \<not> login_admits env input s) \<and>
    (\<not> login_admits env input s \<longrightarrow> id_Sessions s' = id_Sessions s) \<and>
    (\<forall>res. r = Inr res \<longrightarrow> us_Email (lr_User res) = login_email env input \<and> lr_MFARequired res = us_TOTPEnabled (lr_User res) \<and>
       minted env input (lr_User res) (lr_SessionToken res) s s')"
proof -
  define user where "user = find (\<lambda>u. us_Email u = login_email env input) (id_Users s)"
  obtain chg s1 where chg: "login_charge env user (ix_Now env) s = (chg, s1)" by fastforce
  obtain ok calls' where ok: "verifyOnce env (li_Password input) (login_hash env user chg) = (ok, calls')" by fastforce
  obtain r' s2 where fin: "login_finish env input user chg ok s1 = (r', s2)" by fastforce
  from lookup have "GetByEmail env s (login_email env input) = Inr user" by (simp add: GetByEmail_def read_stmt_def user_def)
  with run chg ok fin have eqs: "r' = r" "calls' = calls" "s2 = s'" by (simp_all add: Login_def)
  have s1: "id_Sessions s1 = id_Sessions s" "id_Events s1 = id_Events s" using login_charge_sel [of env user "ix_Now env" s] chg by simp_all
  have work: "length (filter (\<lambda>(p, h). is_ok (ix_VerifyPassword env p h)) calls) = 1"
    using verifyOnce_work [OF dummy [rule_format], of "li_Password input" "login_hash env user chg"] ok eqs by simp
  have inside: "stored_hash_in_budget env input s (login_hash env user chg)" if "login_hash env user chg \<noteq> ix_DummyHash env"
    using login_hash_inside [OF that] chg
    by (cases user) (auto simp: stored_hash_in_budget_def user_def [symmetric] loginCapable_def)
  have hashes: "\<forall>(p, h) \<in> set calls. p = li_Password input \<and> (h = ix_DummyHash env \<or> stored_hash_in_budget env input s h)"
    using verifyOnce_calls(1) [of env "li_Password input" "login_hash env user chg"] ok eqs inside by auto
  have admits: "login_admits env input s \<longleftrightarrow> loginCapable user \<and> ch_allowed chg \<and> ok"
    using verifyOnce_True [of env "li_Password input" "login_hash env user chg"] ok chg
    by (cases user) (auto simp: login_admits_def login_hash_def loginCapable_def user_def [symmetric])
  show ?thesis
  proof (cases "login_admits env input s")
    case False
    with admits fin eqs s1 have "r = Inl (NewUnauthorized MsgInvalidCredentials)" "id_Sessions s' = id_Sessions s"
      by (auto simp: login_finish_def)
    with False work hashes show ?thesis by simp
  next
    case True
    with admits have "loginCapable user" by simp
    then obtain u where u: "user = Some u" by (cases user) (simp_all add: loginCapable_def)
    have email: "us_Email u = login_email env input" using u by (auto simp: user_def find_Some_iff)
    obtain rc s3 where c: "login_commit env input u s1 = (rc, s3)" by fastforce
    have "r \<noteq> Inl (NewUnauthorized MsgInvalidCredentials)"
      using c fin eqs admits True u login_commit_error [of env input u s1]
      by (cases rc) (auto simp: login_finish_def only_internal_def)
    moreover have "us_Email (lr_User res) = login_email env input \<and> lr_MFARequired res = us_TOTPEnabled (lr_User res) \<and>
       minted env input (lr_User res) (lr_SessionToken res) s s'" if "r = Inr res" for res
    proof (cases rc)
      case (Inl e)
      with that c fin eqs admits True u show ?thesis by (simp add: login_finish_def)
    next
      case (Inr token)
      with that c fin eqs admits True u have res: "res = \<lparr>lr_SessionToken = token, lr_MFARequired = us_TOTPEnabled u, lr_User = u\<rparr>" "s' = s3"
        by (auto simp: login_finish_def)
      from login_commit_store [OF c] Inr have "minted env input u token s1 s3" by auto
      with res email s1 show ?thesis by (simp add: minted_def)
    qed
    ultimately show ?thesis using True work hashes by simp
  qed
qed

section \<open>The contract of an attempt budget\<close>

text \<open>
  A counter in a row, charged by one atomic statement that says whether the attempt is inside the
  budget. \<open>room\<close> is how many more attempts a row admits; what is admitted between two clearings
  is bounded by the limit, in whatever order charges and clearings arrive.
\<close>

locale attempt_budget =
  fixes limit :: int
    and row_ok :: "'row \<Rightarrow> bool"
    and charge_ok :: "'c \<Rightarrow> bool"
    and room :: "'row \<Rightarrow> int"
    and chg :: "'c \<Rightarrow> 'row \<Rightarrow> bool \<times> 'row"
  assumes room_bounds: "row_ok r \<Longrightarrow> 0 \<le> room r \<and> room r \<le> limit"
    and admitted: "row_ok r \<Longrightarrow> charge_ok c \<Longrightarrow> chg c r = (True, r') \<Longrightarrow> row_ok r' \<and> room r' + 1 \<le> room r"
    and refused: "row_ok r \<Longrightarrow> charge_ok c \<Longrightarrow> chg c r = (False, r') \<Longrightarrow> row_ok r' \<and> room r' \<le> room r"
begin

definition ledger :: "int \<Rightarrow> int \<Rightarrow> 'row \<Rightarrow> bool" where
  "ledger used clearings r \<longleftrightarrow> row_ok r \<and> used + room r \<le> limit * (1 + clearings)"

lemma ledger_start: "row_ok r \<Longrightarrow> ledger 0 0 r"
  using room_bounds by (simp add: ledger_def)

lemma ledger_charge:
  "ledger used k r \<Longrightarrow> charge_ok c \<Longrightarrow> chg c r = (ok, r') \<Longrightarrow> ledger (used + (if ok then 1 else 0)) k r'"
  using admitted [of r c r'] refused [of r c r'] by (cases ok) (auto simp: ledger_def)

lemma ledger_clear: "ledger used k r \<Longrightarrow> row_ok r' \<Longrightarrow> ledger used (k + 1) r'"
  using room_bounds [of r] room_bounds [of r'] by (auto simp: ledger_def algebra_simps)

lemma ledger_less: "ledger used k r \<Longrightarrow> used' \<le> used \<Longrightarrow> ledger used' k r"
  by (simp add: ledger_def)

lemma ledger_more: "ledger used k r \<Longrightarrow> k \<le> k' \<Longrightarrow> ledger used k' r"
  using room_bounds [of r] mult_left_mono [of "1 + k" "1 + k'" limit] by (auto simp: ledger_def)

lemma ledger_bound: "ledger used k r \<Longrightarrow> used \<le> limit * (1 + k)"
  using room_bounds [of r] by (auto simp: ledger_def)

text \<open>A budget that is spent admits nothing more before it is cleared.\<close>

lemma spent_refuses:
  assumes "row_ok r" and "charge_ok c" and "room r = 0" and "chg c r = (ok, r')"
  shows "\<not> ok \<and> room r' = 0"
  using assms admitted [of r c r'] refused [of r c r'] room_bounds [of r'] by (cases ok) auto

end

text \<open>The row of a user under charges whose clock lies in a window as long as a lockout.\<close>

definition in_window :: "int \<Rightarrow> int \<Rightarrow> bool" where
  "in_window t now \<longleftrightarrow> t \<le> truncate_micro now \<and> truncate_micro now < t + lockoutDuration"

definition counter_ok :: "user \<Rightarrow> bool" where
  "counter_ok u \<longleftrightarrow> 0 \<le> us_FailedLoginAttempts u"

definition login_room :: "int \<Rightarrow> user \<Rightarrow> int" where
  "login_room t u =
     (case us_LockedUntil u of
        None \<Rightarrow> max 1 (maxFailedAttempts - us_FailedLoginAttempts u)
      | Some l \<Rightarrow> if t + lockoutDuration \<le> l then 0 else maxFailedAttempts)"

definition login_chg :: "int \<times> int \<Rightarrow> user \<Rightarrow> bool \<times> user" where
  "login_chg c u =
     (case charge_row maxFailedAttempts (truncate_micro (fst c)) (truncate_micro (fst c + lockoutDuration)) (snd c) u of
        (d, u') \<Rightarrow> (fst d, u'))"

lemma truncate_lockout: "truncate_micro (now + lockoutDuration) = truncate_micro now + lockoutDuration"
  by (simp add: truncate_micro_def lockoutDuration_def mod_add_eq [symmetric, of now])

interpretation lb: attempt_budget maxFailedAttempts counter_ok "\<lambda>c. in_window t (fst c)" "login_room t" login_chg for t
proof
  fix u
  assume "counter_ok u"
  then show "0 \<le> login_room t u \<and> login_room t u \<le> maxFailedAttempts"
    by (auto simp: login_room_def counter_ok_def maxFailedAttempts_def split: option.split)
next
  fix u c u'
  assume "counter_ok u" "in_window t (fst c)" "login_chg c u = (True, u')"
  then show "counter_ok u' \<and> login_room t u' + 1 \<le> login_room t u"
    by (auto simp: login_chg_def charge_row_def login_room_def counter_ok_def in_window_def maxFailedAttempts_def
        live_lock_def expired_lock_def truncate_lockout Let_def split: option.splits if_splits)
next
  fix u c u'
  assume "counter_ok u" "in_window t (fst c)" "login_chg c u = (False, u')"
  then show "counter_ok u' \<and> login_room t u' \<le> login_room t u"
    by (auto simp: login_chg_def charge_row_def login_room_def counter_ok_def maxFailedAttempts_def
        live_lock_def expired_lock_def Let_def split: option.splits if_splits)
qed

section \<open>Sign-ins that interleave\<close>

text \<open>
  Where a request is: its clock was read on arrival; then the account is looked up, the attempt
  charged, the hash verified, and the answer given. Each stage is one statement, one
  transaction or no database work at all, so stages of different requests may alternate freely.
\<close>

datatype login_phase =
  LoginArrived login_input int
| LoginFound login_input int "user option"
| LoginCharged login_input "user option" attempt_charge
| LoginVerified login_input "user option" attempt_charge bool
| LoginAnswered "login_result app"

text \<open>
  What a stage did to an account: a hash other than the dummy verified for it, which the calls of
  VerifyPassword show, and its counter cleared.
\<close>

datatype login_event = StoredVerified string | CounterCleared string

fun login_step :: "ident_env \<Rightarrow> login_phase \<Rightarrow> ident \<Rightarrow> (login_phase \<times> login_event list) \<times> ident" where
  "login_step env (LoginArrived input now) s =
     (case GetByEmail env s (login_email env input) of
        Inl e \<Rightarrow> ((LoginAnswered (Inl e), []), s)
      | Inr user \<Rightarrow> ((LoginFound input now user, []), s))"
| "login_step env (LoginFound input now user) s =
     (case login_charge env user now s of (chg, s') \<Rightarrow> ((LoginCharged input user chg, []), s'))"
| "login_step env (LoginCharged input user chg) s =
     (case verifyOnce env (li_Password input) (login_hash env user chg) of (ok, calls) \<Rightarrow>
        ((LoginVerified input user chg ok,
          map (\<lambda>_. StoredVerified (us_ID (the user))) (filter (\<lambda>(p, h). h \<noteq> ix_DummyHash env) calls)), s))"
| "login_step env (LoginVerified input user chg ok) s =
     (case login_finish env input user chg ok s of
        (r, s') \<Rightarrow> ((LoginAnswered r, if id_Sessions s' = id_Sessions s then [] else [CounterCleared (us_ID (the user))]), s'))"
| "login_step env (LoginAnswered r) s = ((LoginAnswered r, []), s)"

record login_world =
  lw_Requests :: "login_phase list"
  lw_Store :: ident
  lw_Log :: "login_event list"

definition counter_of :: "ident \<Rightarrow> string \<Rightarrow> (int \<times> int option) option" where
  "counter_of s uid = map_option (\<lambda>u. (us_FailedLoginAttempts u, us_LockedUntil u)) (user_row s uid)"

text \<open>No counter moves; a new account starts with an empty one.\<close>

definition counters_kept :: "ident \<Rightarrow> ident \<Rightarrow> bool" where
  "counters_kept s s' \<longleftrightarrow>
     (\<forall>uid. counter_of s' uid = counter_of s uid \<or> counter_of s uid = None \<and> counter_of s' uid = Some (0, None))"

text \<open>
  The sign-ins whose clocks fall into one window, at any stage, each step under an environment of
  its own; and any other statement of the program, as long as it leaves the counters alone. That last
  step (\<open>elsewhere\<close>) allows more than any request does: what holds of all runs holds of the program's, and
  no statement that something can happen is made over it.
\<close>

inductive login_world_step :: "int \<Rightarrow> login_world \<Rightarrow> login_world \<Rightarrow> bool" for t where
  arrive: "in_window t now \<Longrightarrow> login_world_step t w (w\<lparr>lw_Requests := lw_Requests w @ [LoginArrived input now]\<rparr>)"
| advance: "i < length (lw_Requests w) \<Longrightarrow> login_step env (lw_Requests w ! i) (lw_Store w) = ((p, evs), s') \<Longrightarrow>
    login_world_step t w (w\<lparr>lw_Requests := (lw_Requests w)[i := p], lw_Store := s', lw_Log := lw_Log w @ evs\<rparr>)"
| elsewhere: "counters_kept (lw_Store w) s' \<Longrightarrow> login_world_step t w (w\<lparr>lw_Store := s'\<rparr>)"

definition logged :: "login_event \<Rightarrow> login_world \<Rightarrow> int" where
  "logged e w = int (length (filter (\<lambda>x. x = e) (lw_Log w)))"

text \<open>An attempt that was admitted and is not verified yet.\<close>

fun admitted_by :: "string \<Rightarrow> login_phase \<Rightarrow> bool" where
  "admitted_by uid (LoginCharged input user chg) \<longleftrightarrow> loginCapable user \<and> ch_allowed chg \<and> us_ID (the user) = uid"
| "admitted_by uid _ \<longleftrightarrow> False"

definition admitted_now :: "string \<Rightarrow> login_world \<Rightarrow> int" where
  "admitted_now uid w = int (length (filter (admitted_by uid) (lw_Requests w)))"

fun clock_ok :: "int \<Rightarrow> login_phase \<Rightarrow> bool" where
  "clock_ok t (LoginArrived input now) \<longleftrightarrow> in_window t now"
| "clock_ok t (LoginFound input now user) \<longleftrightarrow> in_window t now"
| "clock_ok t _ \<longleftrightarrow> True"

definition login_ledger :: "int \<Rightarrow> string \<Rightarrow> login_world \<Rightarrow> bool" where
  "login_ledger t uid w \<longleftrightarrow>
     list_all (clock_ok t) (lw_Requests w) \<and>
     (user_row (lw_Store w) uid = None \<longrightarrow> logged (StoredVerified uid) w + admitted_now uid w = 0) \<and>
     (\<forall>u. user_row (lw_Store w) uid = Some u \<longrightarrow>
        lb.ledger t (logged (StoredVerified uid) w + admitted_now uid w) (logged (CounterCleared uid) w) u)"

lemma login_charge_row:
  assumes "login_charge env user now s = (chg, s')"
  shows "user_row s' uid = user_row s uid \<and> \<not> (loginCapable user \<and> ch_allowed chg \<and> us_ID (the user) = uid) \<or>
    (loginCapable user \<and> us_ID (the user) = uid \<and>
     (\<exists>u ok u'. user_row s uid = Some u \<and> login_chg (now, ix_DbNow env) u = (ok, u') \<and> user_row s' uid = Some u' \<and>
        (ch_allowed chg \<longrightarrow> ok)))"
proof (cases "loginCapable user \<and> us_ID (the user) = uid")
  case False
  with assms show ?thesis
    by (auto simp: login_charge_def consumeAttempt_def ConsumeLoginAttempt_def autocommit_def user_row_update Let_def
        option.map_id0 option.map_ident split: option.splits sum.splits prod.splits if_splits)
next
  case True
  with assms show ?thesis
    by (cases "user_row s uid")
      (auto simp: login_charge_def consumeAttempt_def ConsumeLoginAttempt_def autocommit_def user_row_update login_chg_def Let_def
        split: option.splits sum.splits prod.splits if_splits)
qed

lemma login_finish_row:
  assumes "login_finish env input user chg ok s = (r, s')"
  shows "(id_Sessions s' = id_Sessions s \<and> id_Users s' = id_Users s) \<or>
    (id_Sessions s' \<noteq> id_Sessions s \<and>
     (\<forall>uid. user_row s' uid = map_option (\<lambda>v. if uid = us_ID (the user) then cleared_counter env v else v) (user_row s uid)))"
proof (cases "\<not> loginCapable user \<or> \<not> ch_allowed chg \<or> \<not> ok")
  case True
  with assms show ?thesis by (auto simp: login_finish_def)
next
  case False
  obtain rc s3 where c: "login_commit env input (the user) s = (rc, s3)" by fastforce
  with False assms have "s' = s3" by (cases rc) (auto simp: login_finish_def)
  with login_commit_row [OF c] show ?thesis by (elim disjE) simp_all
qed

text \<open>One stage of one request keeps the ledger of every account.\<close>

lemma advance_ledger:
  assumes i: "i < length (lw_Requests w)" and st: "login_step env (lw_Requests w ! i) (lw_Store w) = ((p, evs), s')"
    and led: "login_ledger t uid w"
  shows "login_ledger t uid (w\<lparr>lw_Requests := (lw_Requests w)[i := p], lw_Store := s', lw_Log := lw_Log w @ evs\<rparr>)"
proof -
  let ?w = "w\<lparr>lw_Requests := (lw_Requests w)[i := p], lw_Store := s', lw_Log := lw_Log w @ evs\<rparr>"
  from led i have old: "clock_ok t (lw_Requests w ! i)" by (auto simp: login_ledger_def list_all_length)
  have clocks: "list_all (clock_ok t) (lw_Requests ?w)" if "clock_ok t p"
    using led that i by (auto simp: login_ledger_def list_all_length nth_list_update)
  have adm: "admitted_now uid ?w = admitted_now uid w - (if admitted_by uid (lw_Requests w ! i) then 1 else 0) +
      (if admitted_by uid p then 1 else 0)"
    using i by (simp add: admitted_now_def count_update)
  have log: "logged e ?w = logged e w + int (length (filter (\<lambda>x. x = e) evs))" for e
    by (simp add: logged_def)
  show ?thesis
  proof (cases "lw_Requests w ! i")
    case (LoginArrived input now)
    with st old have "s' = lw_Store w" "evs = []" "clock_ok t p" "\<not> admitted_by uid p" by (auto split: sum.splits)
    with clocks adm log led LoginArrived show ?thesis by (simp add: login_ledger_def)
  next
    case (LoginFound input now user)
    obtain chg where chg: "login_charge env user now (lw_Store w) = (chg, s')" and p: "p = LoginCharged input user chg" "evs = []"
      using st LoginFound by (auto split: prod.splits)
    have 1: "clock_ok t p" "in_window t now" using p old LoginFound by simp_all
    from login_charge_row [OF chg, of uid] show ?thesis
    proof (elim disjE conjE exE)
      assume "user_row s' uid = user_row (lw_Store w) uid" "\<not> (loginCapable user \<and> ch_allowed chg \<and> us_ID (the user) = uid)"
      with clocks 1 adm log led p LoginFound show ?thesis by (simp add: login_ledger_def)
    next
      fix u ok u'
      assume u: "user_row (lw_Store w) uid = Some u" "login_chg (now, ix_DbNow env) u = (ok, u')" "user_row s' uid = Some u'"
        and ok: "ch_allowed chg \<longrightarrow> ok"
      from led u(1) have "lb.ledger t (logged (StoredVerified uid) w + admitted_now uid w) (logged (CounterCleared uid) w) u"
        by (simp add: login_ledger_def)
      from lb.ledger_charge [OF this _ u(2)] 1 
      have "lb.ledger t (logged (StoredVerified uid) w + admitted_now uid w + (if ok then 1 else 0)) (logged (CounterCleared uid) w) u'" by simp
      moreover have "logged (StoredVerified uid) ?w + admitted_now uid ?w \<le>
          logged (StoredVerified uid) w + admitted_now uid w + (if ok then 1 else 0)" "logged (CounterCleared uid) ?w = logged (CounterCleared uid) w"
        using ok adm log p LoginFound by auto
      ultimately have "lb.ledger t (logged (StoredVerified uid) ?w + admitted_now uid ?w) (logged (CounterCleared uid) ?w) u'"
        using lb.ledger_less by metis
      with clocks 1 u show ?thesis by (simp add: login_ledger_def)
    qed
  next
    case (LoginCharged input user chg)
    obtain ok calls where v: "verifyOnce env (li_Password input) (login_hash env user chg) = (ok, calls)" by fastforce
    from st LoginCharged v have p: "s' = lw_Store w" "p = LoginVerified input user chg ok"
      and evs: "evs = (if login_hash env user chg = ix_DummyHash env then [] else [StoredVerified (us_ID (the user))])"
      using verifyOnce_calls(2) [of env "li_Password input" "login_hash env user chg"] by auto
    have le: "logged (StoredVerified uid) ?w + admitted_now uid ?w \<le> logged (StoredVerified uid) w + admitted_now uid w"
      and k: "logged (CounterCleared uid) ?w = logged (CounterCleared uid) w"
      using adm log LoginCharged p evs login_hash_inside [of env user chg] by auto
    show ?thesis
    proof (cases "user_row (lw_Store w) uid")
      case None
      with led le have "logged (StoredVerified uid) ?w + admitted_now uid ?w = 0"
        by (simp add: login_ledger_def logged_def admitted_now_def)
      with None clocks p show ?thesis by (simp add: login_ledger_def)
    next
      case (Some u)
      with led have "lb.ledger t (logged (StoredVerified uid) w + admitted_now uid w) (logged (CounterCleared uid) w) u"
        by (simp add: login_ledger_def)
      from lb.ledger_less [OF this le] Some clocks p k show ?thesis by (simp add: login_ledger_def)
    qed
  next
    case (LoginVerified input user chg ok)
    obtain r where fin: "login_finish env input user chg ok (lw_Store w) = (r, s')" and p: "p = LoginAnswered r"
      "evs = (if id_Sessions s' = id_Sessions (lw_Store w) then [] else [CounterCleared (us_ID (the user))])"
      using st LoginVerified by (auto split: prod.splits)
    have same: "logged (StoredVerified uid) ?w + admitted_now uid ?w = logged (StoredVerified uid) w + admitted_now uid w"
      using adm log p LoginVerified by simp
    from login_finish_row [OF fin] show ?thesis
    proof (elim disjE conjE)
      assume "id_Sessions s' = id_Sessions (lw_Store w)" "id_Users s' = id_Users (lw_Store w)"
      with clocks led p same log show ?thesis by (simp add: login_ledger_def user_row_def)
    next
      assume ne: "id_Sessions s' \<noteq> id_Sessions (lw_Store w)"
        and row: "\<forall>uid. user_row s' uid = map_option (\<lambda>v. if uid = us_ID (the user) then cleared_counter env v else v) (user_row (lw_Store w) uid)"
      have k: "logged (CounterCleared uid) ?w = logged (CounterCleared uid) w + (if uid = us_ID (the user) then 1 else 0)"
        using log p ne by auto
      show ?thesis
      proof (cases "user_row (lw_Store w) uid")
        case None
        with row clocks led p same show ?thesis by (simp add: login_ledger_def)
      next
        case (Some u)
        with led have "lb.ledger t (logged (StoredVerified uid) w + admitted_now uid w) (logged (CounterCleared uid) w) u"
          by (simp add: login_ledger_def)
        moreover have "counter_ok (cleared_counter env u)" by (simp add: counter_ok_def cleared_counter_def)
        ultimately have "lb.ledger t (logged (StoredVerified uid) w + admitted_now uid w) (logged (CounterCleared uid) ?w)
            (if uid = us_ID (the user) then cleared_counter env u else u)"
          using k lb.ledger_clear by auto
        with Some row clocks led p same show ?thesis by (simp add: login_ledger_def)
      qed
    qed
  next
    case (LoginAnswered r)
    with st have "s' = lw_Store w" "evs = []" "p = LoginAnswered r" by auto
    with clocks adm log led LoginAnswered show ?thesis by (simp add: login_ledger_def)
  qed
qed

lemma counters_kept_ledger:
  assumes "counters_kept (lw_Store w) s'" and "login_ledger t uid w"
  shows "login_ledger t uid (w\<lparr>lw_Store := s'\<rparr>)"
proof -
  have room: "login_room t u' = login_room t u \<and> counter_ok u' = counter_ok u"
    if "us_FailedLoginAttempts u' = us_FailedLoginAttempts u" "us_LockedUntil u' = us_LockedUntil u" for u u'
    using that by (simp add: login_room_def counter_ok_def split: option.split)
  have logs: "logged e (w\<lparr>lw_Store := s'\<rparr>) = logged e w" "admitted_now uid (w\<lparr>lw_Store := s'\<rparr>) = admitted_now uid w" for e
    by (simp_all add: logged_def admitted_now_def)
  have "counter_of s' uid = counter_of (lw_Store w) uid \<or> counter_of (lw_Store w) uid = None \<and> counter_of s' uid = Some (0, None)"
    using assms(1) by (simp add: counters_kept_def)
  then show ?thesis
  proof
    assume eq: "counter_of s' uid = counter_of (lw_Store w) uid"
    show ?thesis
    proof (cases "user_row s' uid")
      case None
      with eq have "user_row (lw_Store w) uid = None" by (simp add: counter_of_def)
      with None assms(2) logs show ?thesis by (simp add: login_ledger_def)
    next
      case (Some u')
      with eq obtain u where "user_row (lw_Store w) uid = Some u" "us_FailedLoginAttempts u' = us_FailedLoginAttempts u"
        "us_LockedUntil u' = us_LockedUntil u" by (cases "user_row (lw_Store w) uid") (auto simp: counter_of_def)
      with Some assms(2) logs room [of u' u] show ?thesis by (simp add: login_ledger_def lb.ledger_def)
    qed
  next
    assume new: "counter_of (lw_Store w) uid = None \<and> counter_of s' uid = Some (0, None)"
    then obtain u' where u': "user_row s' uid = Some u'" "us_FailedLoginAttempts u' = 0"
      by (auto simp: counter_of_def)
    from new have "user_row (lw_Store w) uid = None" by (simp add: counter_of_def)
    with assms(2) have zero: "logged (StoredVerified uid) w + admitted_now uid w = 0" and clocks: "list_all (clock_ok t) (lw_Requests w)"
      by (simp_all add: login_ledger_def)
    have "lb.ledger t 0 (logged (CounterCleared uid) w) u'"
      using lb.ledger_start [of u' t] u' lb.ledger_more [of t 0 0 u'] by (simp add: counter_ok_def logged_def)
    with zero clocks u' logs show ?thesis by (simp add: login_ledger_def)
  qed
qed

lemma login_step_ledger:
  assumes "login_world_step t w w'" and "login_ledger t uid w"
  shows "login_ledger t uid w'"
  using assms(1)
proof cases
  case (arrive now input)
  with assms(2) show ?thesis by (simp add: login_ledger_def logged_def admitted_now_def)
next
  case (advance i env p evs s')
  with assms(2) advance_ledger show ?thesis by blast
next
  case (elsewhere s')
  with assms(2) counters_kept_ledger show ?thesis by blast
qed

text \<open>Property C19. However sign-ins and other requests interleave inside a window as long as a lockout, the
  password of an account is verified against anything but the dummy hash at most five times, and five more for every session its
  right password minted: concurrency, aborted requests and database faults buy no extra guess.\<close>

theorem login_budget:
  assumes "(login_world_step t)\<^sup>*\<^sup>* w w'"
    and "lw_Requests w = []" and "lw_Log w = []" and "list_all counter_ok (id_Users (lw_Store w))"
  shows "logged (StoredVerified uid) w' \<le> 5 * (1 + logged (CounterCleared uid) w')"
proof -
  have "login_ledger t uid w'" using assms(1)
  proof induction
    case base
    have "counter_ok u" if "user_row (lw_Store w) uid = Some u" for u
      using that assms(4) by (auto simp: user_row_def find_Some_iff list_all_length)
    with assms(2,3) lb.ledger_start [of _ t] show ?case by (simp add: login_ledger_def logged_def admitted_now_def)
  next
    case (step y z)
    then show ?case using login_step_ledger by blast
  qed
  moreover have "0 \<le> admitted_now uid w'" "0 \<le> logged (CounterCleared uid) w'" by (simp_all add: admitted_now_def logged_def)
  ultimately show ?thesis
    using lb.ledger_bound [of t "logged (StoredVerified uid) w' + admitted_now uid w'" "logged (CounterCleared uid) w'"]
    by (cases "user_row (lw_Store w') uid") (force simp: login_ledger_def maxFailedAttempts_def)+
qed

text \<open>A request whose stages run one after the other is the use case.\<close>

definition login_advance :: "ident_env \<Rightarrow> login_phase \<times> ident \<Rightarrow> login_phase \<times> ident" where
  "login_advance env x = (case login_step env (fst x) (snd x) of ((p, _), s) \<Rightarrow> (p, s))"

lemma login_stages:
  "Login env input s = ((r, calls), s') \<Longrightarrow>
   (login_advance env ^^ 4) (LoginArrived input (ix_Now env), s) = (LoginAnswered r, s')"
  by (auto simp: Login_def login_advance_def eval_nat_numeral split: sum.splits prod.splits)

section \<open>An example\<close>

definition example_audit :: audit_context where
  "example_audit = \<lparr>ac_Tenant = ''t1'', ac_Requester = Some \<lparr>rq_Kind = RequesterUser, rq_ID = ''u1'', rq_CredentialID = ''s0'',
     rq_CredentialKind = ''session'', rq_ServiceAccount = False\<rparr>, ac_RequestID = [], ac_Now = 0, ac_NewUUID = ''e1''\<rparr>"

definition example_env :: ident_env where
  "example_env = \<lparr>ix_Now = 0, ix_SessionNow = 0, ix_DbNow = 0, ix_NewID = (\<lambda>t. t @ ''-1''), ix_Fault = (\<lambda>_. None),
     ix_HashToken = (\<lambda>t. ''sha:'' @ t), ix_NewSessionToken = Inr ''token'',
     ix_VerifyPassword = (\<lambda>p h. Inr (h = ''argon:'' @ p)), ix_DummyHash = ''dummy'',
     ix_HashPassword = (\<lambda>p. Inr (''argon:'' @ p)), ix_Encrypt = (\<lambda>x. Inr (''enc:'' @ x)), ix_Decrypt = (\<lambda>x. Inr (drop 4 x)),
     ix_TotpGenerate = (\<lambda>_. Inr (''seed'', ''otpauth:'')), ix_TotpValidate = (\<lambda>code secret. code = ''123456''),
     ix_ToLower = ToLower, ix_SessionIdleTTL = 3600000000000, ix_SessionAbsoluteTTL = 36000000000000,
     ix_Events = Some \<lparr>ec_Client = Some (''203.0.113.7:4711'', ''peer''), ec_RequestID = [], ec_Now = 0, ec_Digest = None, ec_ToLower = ToLower\<rparr>,
     ix_Sha = (\<lambda>x. x), ix_Audit = example_audit, ix_AuditWired = True, ix_Mail = None,
     ix_Grants = [\<lparr>gr_Role = ''tenant_admin'', gr_ScopeEntityID = None\<rparr>], ix_Descendants = (\<lambda>ids. Inr ids)\<rparr>"

definition example_user :: user where
  "example_user = \<lparr>us_ID = ''u1'', us_TenantID = ''t1'', us_Email = ''ada@acme.example'', us_Name = ''Ada'', us_Kind = ''human'',
     us_PasswordHash = Some ''argon:secret'', us_Status = ''active'', us_TOTPSecretEnc = None, us_TOTPEnabled = False,
     us_FailedLoginAttempts = 0, us_LockedUntil = None, us_CreatedAt = 0, us_UpdatedAt = 0\<rparr>"

definition example_ident :: ident where
  "example_ident = \<lparr>id_Users = [example_user], id_Sessions = [], id_Tokens = [], id_Invites = [],
     id_Grants = [\<lparr>ug_ID = ''g1'', ug_TenantID = ''t1'', ug_UserID = ''u1'', ug_Role = ''tenant_admin'', ug_ScopeEntityID = None\<rparr>],
     id_Entities = [], id_Chain = (\<lambda>_. []), id_Events = [], id_Outbox = []\<rparr>"

definition example_login :: login_input where
  "example_login = \<lparr>li_Email = '' Ada@Acme.example'', li_Password = ''secret'', li_IP = None, li_UserAgent = None\<rparr>"

lemma login_outcome_witness:
  "length (filter (\<lambda>(p, h). is_ok (ix_VerifyPassword example_env p h)) (snd (fst (Login example_env example_login example_ident)))) = 1 \<and>
   is_ok (fst (fst (Login example_env example_login example_ident))) \<and> login_admits example_env example_login example_ident"
proof -
  obtain r calls s' where run: "Login example_env example_login example_ident = ((r, calls), s')"
    by (metis surj_pair)
  have admits: "login_admits example_env example_login example_ident" by code_simp
  have ok: "is_ok (fst (fst (Login example_env example_login example_ident)))" by code_simp
  have "length (filter (\<lambda>(p, h). is_ok (ix_VerifyPassword example_env p h)) calls) = 1"
    by (rule login_outcome [OF _ _ run, THEN conjunct1]) (simp_all add: example_env_def)
  with run admits ok show ?thesis by simp
qed

text \<open>A request advances by one stage.\<close>

definition advance_world :: "ident_env \<Rightarrow> nat \<Rightarrow> login_world \<Rightarrow> login_world" where
  "advance_world env i w =
     (case login_step env (lw_Requests w ! i) (lw_Store w) of
        ((p, evs), s') \<Rightarrow> w\<lparr>lw_Requests := (lw_Requests w)[i := p], lw_Store := s', lw_Log := lw_Log w @ evs\<rparr>)"

lemma advance_world_step: "i < length (lw_Requests w) \<Longrightarrow> login_world_step t w (advance_world env i w)"
  by (cases "login_step env (lw_Requests w ! i) (lw_Store w)")
    (auto simp: advance_world_def intro!: login_world_step.advance)

lemma advance_world_requests [simp]: "length (lw_Requests (advance_world env i w)) = length (lw_Requests w)"
  by (simp add: advance_world_def split: prod.split)

definition example_world :: login_world where
  "example_world = \<lparr>lw_Requests = [], lw_Store = example_ident, lw_Log = []\<rparr>"

definition example_arrived :: login_world where
  "example_arrived = example_world\<lparr>lw_Requests := [LoginArrived (example_login\<lparr>li_Password := ''guess''\<rparr>) 0]\<rparr>"

lemma login_budget_witness:
  "(let w = advance_world example_env 0 (advance_world example_env 0 (advance_world example_env 0 example_arrived))
    in logged (StoredVerified ''u1'') w = 1 \<and> logged (StoredVerified ''u1'') w \<le> 5 * (1 + logged (CounterCleared ''u1'') w))"
proof -
  let ?w = "advance_world example_env 0 (advance_world example_env 0 (advance_world example_env 0 example_arrived))"
  have first: "login_world_step 0 example_world example_arrived"
    using login_world_step.arrive [of 0 0 example_world "example_login\<lparr>li_Password := ''guess''\<rparr>"]
    by (simp add: example_arrived_def example_world_def in_window_def truncate_micro_def lockoutDuration_def)
  have step: "login_world_step 0 w (advance_world example_env 0 w)" if "length (lw_Requests w) = 1" for w
    using that by (intro advance_world_step) simp
  have one: "length (lw_Requests example_arrived) = 1" by (simp add: example_arrived_def)
  have "(login_world_step 0)\<^sup>*\<^sup>* w (advance_world example_env 0 w')"
    if "(login_world_step 0)\<^sup>*\<^sup>* w w'" "length (lw_Requests w') = 1" for w w'
    using that step [of w'] by (meson rtranclp.rtrancl_into_rtrancl)
  then have "(login_world_step 0)\<^sup>*\<^sup>* example_arrived ?w" using one by simp
  with first have run: "(login_world_step 0)\<^sup>*\<^sup>* example_world ?w" by (simp add: converse_rtranclp_into_rtranclp)
  have "logged (StoredVerified ''u1'') ?w \<le> 5 * (1 + logged (CounterCleared ''u1'') ?w)"
    by (rule login_budget [OF run]) (simp_all add: example_world_def example_ident_def example_user_def counter_ok_def)
  moreover have "logged (StoredVerified ''u1'') ?w = 1" by code_simp
  ultimately show ?thesis by (simp add: Let_def)
qed

end
