(* ===== verification/SecondFactor.thy ===== *)
theory SecondFactor
  imports SignIn
begin

text \<open>
  Sessions and the second factor, \<^verbatim>\<open>usecases/session.go\<close>, \<^verbatim>\<open>logout.go\<close> and \<^verbatim>\<open>mfa.go\<close>: resolving a
  cookie, ending sessions, enrolling, confirming and verifying a TOTP secret. Confirming and
  verifying run without a common transaction: the attempt is charged to the session before the
  code is looked at, and the stages of different requests interleave in \<open>mfa_world_step\<close>.
\<close>

section \<open>Sessions\<close>

definition MsgSessionInvalid :: string where "MsgSessionInvalid = ''session is invalid or expired''"
definition MsgMFARequired :: string where "MsgMFARequired = ''multi-factor authentication required''"
definition MsgInvalidMFACode :: string where "MsgInvalidMFACode = ''invalid authentication code''"
definition MsgMFANotEnrolled :: string where "MsgMFANotEnrolled = ''MFA is not enrolled''"
definition MsgMFAAlreadyEnabled :: string where "MsgMFAAlreadyEnabled = ''MFA is already enabled''"

text \<open>The error of the touch is dropped; the session answered carries the new idle window.\<close>

definition Authenticate :: "ident_env \<Rightarrow> string \<Rightarrow> ident \<Rightarrow> (session \<times> user) app \<times> ident" where
  "Authenticate env token s =
     (if token = [] then (Inl (NewUnauthorized MsgSessionInvalid), s)
      else case sessions_GetByTokenHash env s (ix_HashToken env token) of
          Inl e \<Rightarrow> (Inl e, s)
        | Inr None \<Rightarrow> (Inl (NewUnauthorized MsgSessionInvalid), s)
        | Inr (Some x) \<Rightarrow>
            if \<not> session_IsValid x (ix_Now env) then (Inl (NewUnauthorized MsgSessionInvalid), s)
            else case users_GetByID env s (ss_UserID x) of
                Inl e \<Rightarrow> (Inl e, s)
              | Inr None \<Rightarrow> (Inl (NewUnauthorized MsgSessionInvalid), s)
              | Inr (Some u) \<Rightarrow>
                  if \<not> us_IsActive u then (Inl (NewUnauthorized MsgSessionInvalid), s)
                  else
                    let newIdle = ix_Now env + ix_SessionIdleTTL env
                    in (Inr (x\<lparr>ss_IdleExpiresAt := newIdle\<rparr>, u), snd (Touch env (ss_ID x) newIdle s)))"

definition fullSession :: "ident_env \<Rightarrow> string \<Rightarrow> ident \<Rightarrow> (session \<times> user) app \<times> ident" where
  "fullSession env token s =
     andthenS (Authenticate env token s) (\<lambda>(x, u) s'.
       if ss_MFAPending x then (Inl (NewUnauthorized MsgMFARequired), s') else (Inr (x, u), s'))"

definition Me :: "ident_env \<Rightarrow> ident \<Rightarrow> string \<Rightarrow> user app" where
  "Me env s uid =
     andthen (users_GetByID env s uid) (\<lambda>row. case row of
       None \<Rightarrow> Inl (NewUnauthorized MsgSessionInvalid)
     | Some u \<Rightarrow> Inr u)"

definition session_revoked_event :: "string \<Rightarrow> string \<Rightarrow> session \<Rightarrow> security_event" where
  "session_revoked_event meth reason x =
     blank_event\<lparr>sv_Event := ''auth.session.revoked'', sv_Outcome := ''success'', sv_Method := meth, sv_Reason := reason,
       sv_TenantID := ss_TenantID x, sv_PrincipalID := ss_UserID x, sv_SessionID := ss_ID x\<rparr>"

text \<open>Both log-outs run on the request's transaction.\<close>

definition Logout :: "ident_env \<Rightarrow> string \<Rightarrow> ident \<Rightarrow> (unit \<times> ident) app" where
  "Logout env token s =
     andthen (sessions_GetByTokenHash env s (ix_HashToken env token)) (\<lambda>row. case row of
       None \<Rightarrow> Inr ((), s)
     | Some x \<Rightarrow>
         andthen (in_tx env ''sessions.Revoke'' (sessions_Revoke env (ss_ID x)) s) (\<lambda>(_, s1).
           tx_note env (session_revoked_event ''session'' ''self_service'' x) s1))"

definition LogoutAll :: "ident_env \<Rightarrow> string \<Rightarrow> ident \<Rightarrow> (unit \<times> ident) app" where
  "LogoutAll env uid s =
     andthen (sessions_RevokeAllForUser env uid s) (\<lambda>(_, s1).
       tx_note env (blank_event\<lparr>sv_Event := ''auth.sessions.revoked'', sv_Outcome := ''success'', sv_Method := ''session'',
         sv_Reason := ''self_service'', sv_TenantID := ctx_tenant env, sv_PrincipalID := uid\<rparr>) s1)"

section \<open>Enrolment\<close>

definition maxMFAAttempts :: int where "maxMFAAttempts = 5"

definition mfa_event :: "string \<Rightarrow> string \<Rightarrow> string \<Rightarrow> string \<Rightarrow> string \<Rightarrow> string \<Rightarrow> security_event" where
  "mfa_event name outcome reason tenant who sid =
     blank_event\<lparr>sv_Event := name, sv_Outcome := outcome, sv_Method := ''totp'', sv_Reason := reason,
       sv_TenantID := tenant, sv_PrincipalID := who, sv_SessionID := sid\<rparr>"

definition MfaEnroll :: "ident_env \<Rightarrow> string \<Rightarrow> ident \<Rightarrow> ((string \<times> string) \<times> ident) app" where
  "MfaEnroll env uid s =
     andthen (users_GetByID env s uid) (\<lambda>row. case row of
       None \<Rightarrow> Inl (NewUnauthorized MsgSessionInvalid)
     | Some u \<Rightarrow>
         if us_TOTPEnabled u then Inl (NewConflict MsgMFAAlreadyEnabled)
         else case ix_TotpGenerate env (us_Email u) of
             Inl m \<Rightarrow> Inl (Internal m)
           | Inr (secret, url) \<Rightarrow>
               (case ix_Encrypt env secret of
                  Inl m \<Rightarrow> Inl (Internal m)
                | Inr enc \<Rightarrow>
                    andthen (SetTOTP env uid (Some enc) False s) (\<lambda>(_, s1).
                    andthen (tx_note env (mfa_event ''auth.mfa.enrolled'' ''success'' [] (us_TenantID u) (us_ID u) []) s1) (\<lambda>(_, s2).
                      Inr ((secret, url), s2)))))"

definition noteMFAFailure :: "ident_env \<Rightarrow> string \<Rightarrow> string \<Rightarrow> string \<Rightarrow> string \<Rightarrow> ident \<Rightarrow> ident" where
  "noteMFAFailure env reason tenant who sid = note_event env (mfa_event ''auth.mfa.failed'' ''failure'' reason tenant who sid)"

text \<open>It fails closed, as the charge of a sign-in does.\<close>

definition consumeMFAAttempt :: "ident_env \<Rightarrow> string \<Rightarrow> ident \<Rightarrow> (bool \<times> int) \<times> ident" where
  "consumeMFAAttempt env sid s =
     (case ConsumeMFAAttempt env sid maxMFAAttempts s of
        (Inl _, s') \<Rightarrow> ((False, 0), s')
      | (Inr d, s') \<Rightarrow> (d, s'))"

definition destroyPendingSession :: "ident_env \<Rightarrow> session \<Rightarrow> ident \<Rightarrow> ident" where
  "destroyPendingSession env x s =
     (case autocommit env ''sessions.Revoke'' (sessions_Revoke env (ss_ID x)) s of
        (Inl _, s1) \<Rightarrow> s1
      | (Inr _, s1) \<Rightarrow> note_event env (session_revoked_event ''totp'' ''budget_spent'' x) s1)"

text \<open>The secret and the counter change together.\<close>

definition totp_tx :: "ident_env \<Rightarrow> string \<Rightarrow> string \<Rightarrow> string option \<Rightarrow> bool \<Rightarrow> ident \<Rightarrow> unit app \<times> ident" where
  "totp_tx env uid sid secretEnc enabled =
     withinTx env (\<lambda>s.
       andthen (SetTOTP env uid secretEnc enabled s) (\<lambda>(_, s1).
         ClearMFAAttempts env sid s1))"

definition destroyEnrollment :: "ident_env \<Rightarrow> session \<Rightarrow> string \<Rightarrow> ident \<Rightarrow> ident" where
  "destroyEnrollment env x uid s =
     (case totp_tx env uid (ss_ID x) None False s of
        (Inl _, s1) \<Rightarrow> s1
      | (Inr _, s1) \<Rightarrow>
          note_event env (mfa_event ''auth.mfa.enrollment_discarded'' ''success'' ''budget_spent'' (ss_TenantID x) uid (ss_ID x)) s1)"

section \<open>Confirming an enrolment\<close>

definition enable_find :: "ident_env \<Rightarrow> string \<Rightarrow> ident \<Rightarrow> (session \<times> user) app \<times> ident" where
  "enable_find env token s =
     andthenS (fullSession env token s) (\<lambda>(x, u) s'.
       if us_TOTPSecretEnc u = None then (Inl (NewValidation MsgMFANotEnrolled), s')
       else if us_TOTPEnabled u then (Inl (NewConflict MsgMFAAlreadyEnabled), s')
       else (Inr (x, u), s'))"

text \<open>Decrypting the secret and validating the code against it.\<close>

definition code_valid :: "ident_env \<Rightarrow> user \<Rightarrow> string \<Rightarrow> bool app" where
  "code_valid env u code =
     (case ix_Decrypt env (the (us_TOTPSecretEnc u)) of
        Inl m \<Rightarrow> Inl (Internal m)
      | Inr secret \<Rightarrow> Inr (ix_TotpValidate env code secret))"

definition invalid_code :: "'a app" where
  "invalid_code = Inl (NewUnauthorized MsgInvalidMFACode)"

definition enable_finish :: "ident_env \<Rightarrow> session \<Rightarrow> user \<Rightarrow> int \<Rightarrow> bool app \<Rightarrow> ident \<Rightarrow> unit app \<times> ident" where
  "enable_finish env x u spent ok s =
     (case ok of
        Inl e \<Rightarrow> (Inl e, s)
      | Inr False \<Rightarrow>
          (invalid_code,
           noteMFAFailure env ''bad_credential'' (ss_TenantID x) (us_ID u) (ss_ID x)
             (if spent \<ge> maxMFAAttempts then destroyEnrollment env x (us_ID u) s else s))
      | Inr True \<Rightarrow>
          andthenS (totp_tx env (us_ID u) (ss_ID x) (us_TOTPSecretEnc u) True s) (\<lambda>_ s1.
            (Inr (), note_event env (mfa_event ''auth.mfa.enabled'' ''success'' [] (ss_TenantID x) (us_ID u) (ss_ID x)) s1)))"

definition enable_refused :: "ident_env \<Rightarrow> session \<Rightarrow> user \<Rightarrow> ident \<Rightarrow> ident" where
  "enable_refused env x u s =
     noteMFAFailure env ''budget_spent'' (ss_TenantID x) (us_ID u) (ss_ID x) (destroyEnrollment env x (us_ID u) s)"

definition MfaEnable :: "ident_env \<Rightarrow> string \<Rightarrow> string \<Rightarrow> ident \<Rightarrow> unit app \<times> ident" where
  "MfaEnable env token code s =
     andthenS (enable_find env token s) (\<lambda>(x, u) s1.
       case consumeMFAAttempt env (ss_ID x) s1 of
         ((allowed, spent), s2) \<Rightarrow>
           if \<not> allowed then (invalid_code, enable_refused env x u s2)
           else enable_finish env x u spent (code_valid env u code) s2)"

section \<open>Verifying a code\<close>

definition verify_find :: "ident_env \<Rightarrow> string \<Rightarrow> int \<Rightarrow> ident \<Rightarrow> session app \<times> ident" where
  "verify_find env token now s =
     (case sessions_GetByTokenHash env s (ix_HashToken env token) of
        Inl e \<Rightarrow> (Inl e, s)
      | Inr None \<Rightarrow> (invalid_code, noteMFAFailure env ''no_pending_session'' [] [] [] s)
      | Inr (Some x) \<Rightarrow>
          if \<not> session_IsValid x now \<or> \<not> ss_MFAPending x
          then (invalid_code, noteMFAFailure env ''no_pending_session'' (ss_TenantID x) (ss_UserID x) (ss_ID x) s)
          else (Inr x, s))"

text \<open>Loading the account: None is an account without a secret.\<close>

definition verify_user :: "ident_env \<Rightarrow> session \<Rightarrow> ident \<Rightarrow> user option app" where
  "verify_user env x s =
     andthen (users_GetByID env s (ss_UserID x)) (\<lambda>row. case row of
       None \<Rightarrow> Inr None
     | Some u \<Rightarrow> if us_TOTPSecretEnc u = None then Inr None else Inr (Some u))"

definition verify_refused :: "ident_env \<Rightarrow> session \<Rightarrow> ident \<Rightarrow> ident" where
  "verify_refused env x s =
     noteMFAFailure env ''budget_spent'' (ss_TenantID x) (ss_UserID x) (ss_ID x) (destroyPendingSession env x s)"

definition verify_finish ::
  "ident_env \<Rightarrow> session \<Rightarrow> int \<Rightarrow> user \<Rightarrow> int \<Rightarrow> bool app \<Rightarrow> ident \<Rightarrow> login_result app \<times> ident" where
  "verify_finish env x now u spent ok s =
     (case ok of
        Inl e \<Rightarrow> (Inl e, s)
      | Inr False \<Rightarrow>
          (invalid_code,
           noteMFAFailure env ''bad_credential'' (ss_TenantID x) (us_ID u) (ss_ID x)
             (if spent \<ge> maxMFAAttempts then destroyPendingSession env x s else s))
      | Inr True \<Rightarrow>
          (case ix_NewSessionToken env of
             Inl m \<Rightarrow> (Inl (Internal m), s)
           | Inr newToken \<Rightarrow>
               andthenS (CompleteMFA env (ss_ID x) (ix_HashToken env newToken)
                   (now + ix_SessionIdleTTL env) (now + ix_SessionAbsoluteTTL env) s) (\<lambda>_ s1.
                 (Inr \<lparr>lr_SessionToken = newToken, lr_MFARequired = False, lr_User = u\<rparr>,
                  note_event env (mfa_event ''auth.mfa.succeeded'' ''success'' [] (ss_TenantID x) (us_ID u) (ss_ID x)) s1))))"

definition MfaVerify :: "ident_env \<Rightarrow> string \<Rightarrow> string \<Rightarrow> ident \<Rightarrow> login_result app \<times> ident" where
  "MfaVerify env token code s =
     andthenS (verify_find env token (ix_Now env) s) (\<lambda>x s1.
       case consumeMFAAttempt env (ss_ID x) s1 of
         ((allowed, spent), s2) \<Rightarrow>
           if \<not> allowed then (invalid_code, verify_refused env x s2)
           else case verify_user env x s2 of
               Inl e \<Rightarrow> (Inl e, s2)
             | Inr None \<Rightarrow>
                 (invalid_code, noteMFAFailure env ''not_enrolled'' (ss_TenantID x) (ss_UserID x) (ss_ID x) s2)
             | Inr (Some u) \<Rightarrow> verify_finish env x (ix_Now env) u spent (code_valid env u code) s2)"

section \<open>Requests that interleave\<close>

text \<open>
  A verification: its clock read on arrival, the session found, the attempt charged, the account
  loaded and the code validated, the answer given. A confirmation: the session, its account and
  the pending secret found, the attempt charged, the code validated, the answer given.
\<close>

datatype mfa_phase =
  VerifyArrived string string int
| VerifyFound string int session
| VerifyCharged string int session bool int
| VerifyChecked int session user int "bool app"
| VerifyAnswered "login_result app"
| EnableArrived string string
| EnableFound string session user
| EnableCharged string session user bool int
| EnableChecked session user int "bool app"
| EnableAnswered "unit app"

text \<open>A code validated on the charge of a session; the session's counter cleared.\<close>

datatype mfa_log = CodeTried string | AttemptsCleared string

definition tried :: "session \<Rightarrow> bool app \<Rightarrow> mfa_log list" where
  "tried x ok = (if is_ok ok then [CodeTried (ss_ID x)] else [])"

text \<open>What a step did to the counter of the session it is about.\<close>

definition attempts_of :: "ident \<Rightarrow> string \<Rightarrow> int option" where
  "attempts_of s sid = map_option ss_MFAAttempts (session_row s sid)"

definition cleared_log :: "session \<Rightarrow> ident \<Rightarrow> ident \<Rightarrow> mfa_log list" where
  "cleared_log x s s' = (if attempts_of s' (ss_ID x) = attempts_of s (ss_ID x) then [] else [AttemptsCleared (ss_ID x)])"

fun mfa_step :: "ident_env \<Rightarrow> mfa_phase \<Rightarrow> ident \<Rightarrow> (mfa_phase \<times> mfa_log list) \<times> ident" where
  "mfa_step env (VerifyArrived token code now) s =
     (case verify_find env token now s of
        (Inl e, s') \<Rightarrow> ((VerifyAnswered (Inl e), []), s')
      | (Inr x, s') \<Rightarrow> ((VerifyFound code now x, []), s'))"
| "mfa_step env (VerifyFound code now x) s =
     (case consumeMFAAttempt env (ss_ID x) s of ((allowed, spent), s') \<Rightarrow> ((VerifyCharged code now x allowed spent, []), s'))"
| "mfa_step env (VerifyCharged code now x allowed spent) s =
     (if \<not> allowed then ((VerifyAnswered invalid_code, []), verify_refused env x s)
      else case verify_user env x s of
          Inl e \<Rightarrow> ((VerifyAnswered (Inl e), []), s)
        | Inr None \<Rightarrow>
            ((VerifyAnswered invalid_code, []), noteMFAFailure env ''not_enrolled'' (ss_TenantID x) (ss_UserID x) (ss_ID x) s)
        | Inr (Some u) \<Rightarrow> ((VerifyChecked now x u spent (code_valid env u code), tried x (code_valid env u code)), s))"
| "mfa_step env (VerifyChecked now x u spent ok) s =
     (case verify_finish env x now u spent ok s of (r, s') \<Rightarrow> ((VerifyAnswered r, cleared_log x s s'), s'))"
| "mfa_step env (VerifyAnswered r) s = ((VerifyAnswered r, []), s)"
| "mfa_step env (EnableArrived token code) s =
     (case enable_find env token s of
        (Inl e, s') \<Rightarrow> ((EnableAnswered (Inl e), []), s')
      | (Inr (x, u), s') \<Rightarrow> ((EnableFound code x u, []), s'))"
| "mfa_step env (EnableFound code x u) s =
     (case consumeMFAAttempt env (ss_ID x) s of ((allowed, spent), s') \<Rightarrow> ((EnableCharged code x u allowed spent, []), s'))"
| "mfa_step env (EnableCharged code x u allowed spent) s =
     (if \<not> allowed
      then ((EnableAnswered invalid_code, cleared_log x s (enable_refused env x u s)), enable_refused env x u s)
      else ((EnableChecked x u spent (code_valid env u code), tried x (code_valid env u code)), s))"
| "mfa_step env (EnableChecked x u spent ok) s =
     (case enable_finish env x u spent ok s of (r, s') \<Rightarrow> ((EnableAnswered r, cleared_log x s s'), s'))"
| "mfa_step env (EnableAnswered r) s = ((EnableAnswered r, []), s)"

record mfa_world =
  mw_Requests :: "mfa_phase list"
  mw_Store :: ident
  mw_Log :: "mfa_log list"

text \<open>No counter of a session moves; a new session starts with an empty one.\<close>

definition attempts_kept :: "ident \<Rightarrow> ident \<Rightarrow> bool" where
  "attempts_kept s s' \<longleftrightarrow>
     (\<forall>sid. attempts_of s' sid = attempts_of s sid \<or> attempts_of s sid = None \<and> attempts_of s' sid = Some 0)"

text \<open>
  The step \<open>elsewhere\<close> stands for every other request and allows more than any of them does: it is there
  for what holds of all runs. What can happen is shown with the stages of given requests alone.
\<close>

inductive mfa_world_step :: "mfa_world \<Rightarrow> mfa_world \<Rightarrow> bool" where
  verify: "mfa_world_step w (w\<lparr>mw_Requests := mw_Requests w @ [VerifyArrived token code now]\<rparr>)"
| confirm: "mfa_world_step w (w\<lparr>mw_Requests := mw_Requests w @ [EnableArrived token code]\<rparr>)"
| advance: "i < length (mw_Requests w) \<Longrightarrow> mfa_step env (mw_Requests w ! i) (mw_Store w) = ((p, evs), s') \<Longrightarrow>
    mfa_world_step w (w\<lparr>mw_Requests := (mw_Requests w)[i := p], mw_Store := s', mw_Log := mw_Log w @ evs\<rparr>)"
| elsewhere: "attempts_kept (mw_Store w) s' \<Longrightarrow> mfa_world_step w (w\<lparr>mw_Store := s'\<rparr>)"

definition mfa_logged :: "mfa_log \<Rightarrow> mfa_world \<Rightarrow> int" where
  "mfa_logged e w = int (length (filter (\<lambda>x. x = e) (mw_Log w)))"

fun may_try :: "string \<Rightarrow> mfa_phase \<Rightarrow> bool" where
  "may_try sid (VerifyCharged code now x allowed spent) \<longleftrightarrow> allowed \<and> ss_ID x = sid"
| "may_try sid (EnableCharged code x u allowed spent) \<longleftrightarrow> allowed \<and> ss_ID x = sid"
| "may_try sid _ \<longleftrightarrow> False"

definition may_try_now :: "string \<Rightarrow> mfa_world \<Rightarrow> int" where
  "may_try_now sid w = int (length (filter (may_try sid) (mw_Requests w)))"

definition attempts_ok :: "session \<Rightarrow> bool" where "attempts_ok x \<longleftrightarrow> 0 \<le> ss_MFAAttempts x"

definition mfa_room :: "session \<Rightarrow> int" where "mfa_room x = max 0 (maxMFAAttempts - ss_MFAAttempts x)"

interpretation mb: attempt_budget maxMFAAttempts attempts_ok "\<lambda>_ :: unit. True" mfa_room
  "\<lambda>_ x. (fst (fst (charge_mfa maxMFAAttempts x)), snd (charge_mfa maxMFAAttempts x))"
  by unfold_locales (auto simp: attempts_ok_def mfa_room_def charge_mfa_def maxMFAAttempts_def)

definition mfa_ledger :: "string \<Rightarrow> mfa_world \<Rightarrow> bool" where
  "mfa_ledger sid w \<longleftrightarrow>
     (session_row (mw_Store w) sid = None \<longrightarrow> mfa_logged (CodeTried sid) w + may_try_now sid w = 0) \<and>
     (\<forall>x. session_row (mw_Store w) sid = Some x \<longrightarrow>
        mb.ledger (mfa_logged (CodeTried sid) w + may_try_now sid w) (mfa_logged (AttemptsCleared sid) w) x)"

text \<open>What the statements do to the counters: nothing, a clearing, or a charge.\<close>

definition clears :: "string \<Rightarrow> ident \<Rightarrow> ident \<Rightarrow> bool" where
  "clears sid s s' \<longleftrightarrow>
     (\<forall>k. attempts_of s' k = attempts_of s k \<or> k = sid \<and> attempts_of s k \<noteq> None \<and> attempts_of s' k = Some 0)"

lemma clears_refl [simp]: "clears sid s s"
  by (simp add: clears_def)

lemma clears_trans: "clears sid s s1 \<Longrightarrow> clears sid s1 s2 \<Longrightarrow> clears sid s s2"
  unfolding clears_def by (metis option.distinct(1))

lemma clears_sessions: "id_Sessions s2 = id_Sessions s1 \<Longrightarrow> clears sid s s2 = clears sid s s1"
  by (simp add: clears_def attempts_of_def session_row_def)

lemma clears_note [simp]: "clears sid s (note_event env e s1) = clears sid s s1"
  by (rule clears_sessions) simp

lemma clears_noteMFA [simp]: "clears sid s (noteMFAFailure env reason tenant who x s1) = clears sid s s1"
  by (simp add: noteMFAFailure_def)

lemma find_map_session:
  assumes "\<And>x. ss_ID (f x) = ss_ID x"
  shows "find (\<lambda>x. ss_ID x = k) (map (\<lambda>x. if P x then f x else x) xs) =
     map_option (\<lambda>x. if P x then f x else x) (find (\<lambda>x. ss_ID x = k) xs)"
  using assms by (induction xs) auto

lemma session_row_update:
  "(\<And>x. ss_ID (f x) = ss_ID x) \<Longrightarrow>
   session_row (update_sessions P f s) k = map_option (\<lambda>x. if P x then f x else x) (session_row s k)"
  by (simp add: session_row_def update_sessions_def find_map_session)

lemma session_row_ID: "session_row s k = Some x \<Longrightarrow> ss_ID x = k"
  by (auto simp: session_row_def find_Some_iff)

lemma clears_update:
  assumes "\<And>x. ss_ID (f x) = ss_ID x" and "\<And>x. P x \<Longrightarrow> ss_MFAAttempts (f x) = ss_MFAAttempts x \<or> ss_ID x = sid \<and> ss_MFAAttempts (f x) = 0"
  shows "clears sid s (update_sessions P f s)"
  unfolding clears_def
proof
  fix k
  show "attempts_of (update_sessions P f s) k = attempts_of s k \<or>
      k = sid \<and> attempts_of s k \<noteq> None \<and> attempts_of (update_sessions P f s) k = Some 0"
  proof (cases "session_row s k")
    case None
    then show ?thesis by (simp add: attempts_of_def session_row_update assms(1))
  next
    case (Some x)
    with assms(2) [of x] session_row_ID [OF Some] show ?thesis
      by (auto simp: attempts_of_def session_row_update assms(1))
  qed
qed

lemma clears_autocommit: "(\<And>s. clears sid s (snd (f s))) \<Longrightarrow> clears sid s (snd (autocommit env name f s))"
  by (auto simp: autocommit_def split: option.split)

lemma clears_Touch: "clears sid s (snd (Touch env k idle s))"
  unfolding Touch_def by (rule clears_autocommit) (simp add: clears_update)

lemma clears_revoke: "clears sid s (revoked_where env P s)"
  unfolding revoked_where_def by (rule clears_update) (auto simp: revoke_session_def)

lemma clears_CompleteMFA: "clears sid s (snd (CompleteMFA env sid h idle absolute s))"
  unfolding CompleteMFA_def by (rule clears_autocommit) (simp add: clears_update)

lemma clears_destroyPending: "clears sid s (destroyPendingSession env x s)"
proof -
  have "clears sid s (snd (autocommit env ''sessions.Revoke'' (sessions_Revoke env (ss_ID x)) s))"
    by (rule clears_autocommit) (simp add: sessions_Revoke_def clears_revoke)
  then show ?thesis by (auto simp: destroyPendingSession_def split: prod.split sum.split)
qed

lemma clears_totp_tx: "clears sid s (snd (totp_tx env uid sid enc enabled s))"
proof -
  obtain r s' where run: "totp_tx env uid sid enc enabled s = (r, s')" by fastforce
  have "clears sid s s'" if "andthen (SetTOTP env uid enc enabled s) (\<lambda>(_, s1). ClearMFAAttempts env sid s1) = Inr (x, s')" for x
  proof -
    have s': "s' = update_sessions (\<lambda>x. ss_ID x = sid) (\<lambda>x. x\<lparr>ss_MFAAttempts := 0\<rparr>)
        (update_user uid (\<lambda>u. u\<lparr>us_TOTPSecretEnc := enc, us_TOTPEnabled := enabled, us_UpdatedAt := ix_DbNow env\<rparr>) s)" (is "_ = update_sessions _ _ ?s")
      using that by (auto simp: andthen_Inr SetTOTP_def ClearMFAAttempts_def in_tx_Inr)
    have "clears sid s ?s" by (subst clears_sessions [of ?s s]) simp_all
    moreover have "clears sid ?s s'" unfolding s' by (rule clears_update) simp_all
    ultimately show ?thesis by (rule clears_trans)
  qed
  with withinTx_store [OF run [unfolded totp_tx_def]] run show ?thesis by auto
qed

lemma clears_find:
  "clears sid s (snd (verify_find env token now s))" "clears sid s (snd (enable_find env token s))"
proof -
  show "clears sid s (snd (verify_find env token now s))"
    by (simp add: verify_find_def split: sum.split option.split)
  have "clears sid s (snd (Authenticate env token s))"
    by (auto simp: Authenticate_def Let_def clears_Touch split: sum.split option.split)
  then show "clears sid s (snd (enable_find env token s))"
    by (cases "Authenticate env token s") (auto simp: enable_find_def fullSession_def andthenS_def split: sum.split prod.split)
qed

lemma clears_finish:
  "clears (ss_ID x) s (snd (verify_finish env x now u spent ok s))" "clears (ss_ID x) s (snd (enable_finish env x u spent ok s))"
  "clears (ss_ID x) s (enable_refused env x u s)" "clears sid s (verify_refused env x s)"
proof -
  have destroy: "clears (ss_ID x) s (destroyEnrollment env x (us_ID u) s)"
    using clears_totp_tx [of "ss_ID x" s env "us_ID u" None False]
    by (auto simp: destroyEnrollment_def split: prod.split sum.split)
  then show "clears (ss_ID x) s (enable_refused env x u s)" by (simp add: enable_refused_def)
  show "clears sid s (verify_refused env x s)" by (simp add: verify_refused_def clears_destroyPending)
  show "clears (ss_ID x) s (snd (enable_finish env x u spent ok s))"
    using destroy clears_totp_tx [of "ss_ID x" s env "us_ID u" "us_TOTPSecretEnc u" True]
    by (auto simp: enable_finish_def andthenS_def split: sum.split prod.split bool.split)
  show "clears (ss_ID x) s (snd (verify_finish env x now u spent ok s))"
    using clears_CompleteMFA [of "ss_ID x" s env] clears_destroyPending [of "ss_ID x" s env x]
    by (auto simp: verify_finish_def andthenS_def split: sum.split prod.split bool.split)
       (metis snd_conv)+
qed

lemma consume_row:
  assumes "consumeMFAAttempt env sid0 s = ((allowed, spent), s')"
  shows "session_row s' sid = session_row s sid \<and> \<not> (allowed \<and> sid0 = sid) \<or>
    (sid0 = sid \<and> (\<exists>x. session_row s sid = Some x \<and> session_row s' sid = Some (snd (charge_mfa maxMFAAttempts x)) \<and>
       (allowed \<longrightarrow> fst (fst (charge_mfa maxMFAAttempts x)))))"
proof (cases "session_row s sid0")
  case None
  with assms show ?thesis
    by (auto simp: consumeMFAAttempt_def ConsumeMFAAttempt_def autocommit_def split: option.splits if_splits)
next
  case (Some x)
  let ?s = "update_sessions (\<lambda>y. ss_ID y = sid0) (\<lambda>y. snd (charge_mfa maxMFAAttempts y)) s"
  have row: "session_row ?s sid = map_option (\<lambda>y. if ss_ID y = sid0 then snd (charge_mfa maxMFAAttempts y) else y) (session_row s sid)"
    by (rule session_row_update) (simp add: charge_mfa_def)
  then have "sid \<noteq> sid0 \<Longrightarrow> session_row ?s sid = session_row s sid"
    by (cases "session_row s sid") (auto dest: session_row_ID)
  moreover have "s' = s \<and> \<not> allowed \<or> s' = ?s \<and> (allowed \<longrightarrow> fst (fst (charge_mfa maxMFAAttempts x)))"
    using assms Some
    by (auto simp: consumeMFAAttempt_def ConsumeMFAAttempt_def autocommit_def split: option.splits if_splits)
  ultimately show ?thesis using Some row session_row_ID [OF Some] by (cases "sid = sid0") auto
qed

text \<open>A step that clears at most the counter it logs keeps the ledger of every session.\<close>

lemma mfa_ledger_clears:
  assumes led: "mfa_ledger sid w" and cl: "clears k (mw_Store w) (mw_Store w')"
    and log: "k = sid \<Longrightarrow> attempts_of (mw_Store w') sid \<noteq> attempts_of (mw_Store w) sid \<Longrightarrow>
       mfa_logged (AttemptsCleared sid) w' = mfa_logged (AttemptsCleared sid) w + 1"
    and more: "mfa_logged (AttemptsCleared sid) w \<le> mfa_logged (AttemptsCleared sid) w'"
    and used: "mfa_logged (CodeTried sid) w' + may_try_now sid w' \<le> mfa_logged (CodeTried sid) w + may_try_now sid w"
  shows "mfa_ledger sid w'"
proof (cases "session_row (mw_Store w) sid")
  case None
  have "attempts_of (mw_Store w') sid = attempts_of (mw_Store w) sid"
    using cl [unfolded clears_def, rule_format, of sid] None by (auto simp: attempts_of_def)
  with None have "session_row (mw_Store w') sid = None" by (simp add: attempts_of_def)
  moreover have "0 \<le> mfa_logged (CodeTried sid) w'" "0 \<le> may_try_now sid w'" by (simp_all add: mfa_logged_def may_try_now_def)
  ultimately show ?thesis using None led used by (simp add: mfa_ledger_def)
next
  case (Some x)
  with cl obtain x' where x': "session_row (mw_Store w') sid = Some x'"
    and att: "ss_MFAAttempts x' = ss_MFAAttempts x \<or> k = sid \<and> ss_MFAAttempts x' = 0"
    unfolding clears_def attempts_of_def by (metis (no_types, lifting) map_option_eq_Some option.sel)
  from led Some have l: "mb.ledger (mfa_logged (CodeTried sid) w + may_try_now sid w) (mfa_logged (AttemptsCleared sid) w) x"
    by (simp add: mfa_ledger_def)
  show ?thesis
  proof (cases "ss_MFAAttempts x' = ss_MFAAttempts x")
    case True
    then have "mfa_room x' = mfa_room x" "attempts_ok x' = attempts_ok x" by (simp_all add: mfa_room_def attempts_ok_def)
    with l have "mb.ledger (mfa_logged (CodeTried sid) w + may_try_now sid w) (mfa_logged (AttemptsCleared sid) w) x'"
      by (simp add: mb.ledger_def)
    from mb.ledger_less [OF mb.ledger_more [OF this more] used] x' show ?thesis by (simp add: mfa_ledger_def)
  next
    case False
    with att have "attempts_ok x'" "k = sid" by (simp_all add: attempts_ok_def)
    with mb.ledger_less [OF mb.ledger_clear [OF l] used] x' log False Some show ?thesis by (simp add: mfa_ledger_def attempts_of_def)
  qed
qed

lemma mfa_ledger_charge:
  assumes led: "mfa_ledger sid w" and run: "consumeMFAAttempt env k (mw_Store w) = ((allowed, spent), mw_Store w')"
    and cleared: "mfa_logged (AttemptsCleared sid) w' = mfa_logged (AttemptsCleared sid) w"
    and used: "mfa_logged (CodeTried sid) w' + may_try_now sid w' =
       mfa_logged (CodeTried sid) w + may_try_now sid w + (if allowed \<and> k = sid then 1 else 0)"
  shows "mfa_ledger sid w'"
  using consume_row [OF run, of sid]
proof (elim disjE conjE exE)
  assume "session_row (mw_Store w') sid = session_row (mw_Store w) sid" "\<not> (allowed \<and> k = sid)"
  with led cleared used show ?thesis by (auto simp: mfa_ledger_def)
next
  fix x
  assume x: "session_row (mw_Store w) sid = Some x" "session_row (mw_Store w') sid = Some (snd (charge_mfa maxMFAAttempts x))"
    and ok: "allowed \<longrightarrow> fst (fst (charge_mfa maxMFAAttempts x))"
  from led x have l: "mb.ledger (mfa_logged (CodeTried sid) w + may_try_now sid w) (mfa_logged (AttemptsCleared sid) w) x"
    by (simp add: mfa_ledger_def)
  note mb.ledger_charge [OF l TrueI refl]
  then have "mb.ledger (mfa_logged (CodeTried sid) w' + may_try_now sid w') (mfa_logged (AttemptsCleared sid) w')
      (snd (charge_mfa maxMFAAttempts x))"
    unfolding cleared by (rule mb.ledger_less) (use ok used in auto)
  with x show ?thesis by (simp add: mfa_ledger_def)
qed

lemma mfa_advance_ledger:
  assumes i: "i < length (mw_Requests w)" and st: "mfa_step env (mw_Requests w ! i) (mw_Store w) = ((p, evs), s')"
    and led: "mfa_ledger sid w"
  shows "mfa_ledger sid (w\<lparr>mw_Requests := (mw_Requests w)[i := p], mw_Store := s', mw_Log := mw_Log w @ evs\<rparr>)" (is "mfa_ledger sid ?w")
proof -
  have may: "may_try_now sid ?w = may_try_now sid w - (if may_try sid (mw_Requests w ! i) then 1 else 0) + (if may_try sid p then 1 else 0)"
    using i by (simp add: may_try_now_def count_update)
  have log: "mfa_logged e ?w = mfa_logged e w + int (length (filter (\<lambda>x. x = e) evs))" for e
    by (simp add: mfa_logged_def)
  have quiet: ?thesis if "clears k (mw_Store w) s'"
    and "k = sid \<Longrightarrow> attempts_of s' sid \<noteq> attempts_of (mw_Store w) sid \<Longrightarrow> filter (\<lambda>x. x = AttemptsCleared sid) evs = [AttemptsCleared sid]"
    and "int (length (filter (\<lambda>x. x = CodeTried sid) evs)) + (if may_try sid p then 1 else 0) \<le> (if may_try sid (mw_Requests w ! i) then 1 else (0 :: int))" for k
  proof (rule mfa_ledger_clears [OF led, of k])
    show "clears k (mw_Store w) (mw_Store ?w)" using that(1) by simp
    show "mfa_logged (AttemptsCleared sid) w \<le> mfa_logged (AttemptsCleared sid) ?w" using log [of "AttemptsCleared sid"] by linarith
    show "mfa_logged (CodeTried sid) ?w + may_try_now sid ?w \<le> mfa_logged (CodeTried sid) w + may_try_now sid w"
      using log [of "CodeTried sid"] may that(3) by linarith
    show "mfa_logged (AttemptsCleared sid) ?w = mfa_logged (AttemptsCleared sid) w + 1"
      if "k = sid" "attempts_of (mw_Store ?w) sid \<noteq> attempts_of (mw_Store w) sid"
      using \<open>k = sid \<Longrightarrow> attempts_of s' sid \<noteq> _ \<Longrightarrow> _\<close> that log [of "AttemptsCleared sid"] by simp
  qed
  have kept: ?thesis if "\<And>k. clears k (mw_Store w) s'"
    and "int (length (filter (\<lambda>x. x = CodeTried sid) evs)) + (if may_try sid p then 1 else 0) \<le> (if may_try sid (mw_Requests w ! i) then 1 else (0 :: int))"
    by (rule quiet [OF that(1) [of "CHR ''x'' # sid"] _ that(2)]) simp
  have charged: ?thesis if "consumeMFAAttempt env k (mw_Store w) = ((allowed, spent), s')" and "evs = []"
    and "\<not> may_try sid (mw_Requests w ! i)" and "may_try sid p \<longleftrightarrow> allowed \<and> k = sid" for k allowed spent
  proof (rule mfa_ledger_charge [OF led, of env k allowed spent])
    show "consumeMFAAttempt env k (mw_Store w) = ((allowed, spent), mw_Store ?w)" using that(1) by simp
    show "mfa_logged (AttemptsCleared sid) ?w = mfa_logged (AttemptsCleared sid) w" using log [of "AttemptsCleared sid"] that(2) by simp
    show "mfa_logged (CodeTried sid) ?w + may_try_now sid ?w =
        mfa_logged (CodeTried sid) w + may_try_now sid w + (if allowed \<and> k = sid then 1 else 0)"
      using log [of "CodeTried sid"] that may by simp
  qed
  show ?thesis
  proof (cases "mw_Requests w ! i")
    case (VerifyArrived token code now)
    with st have "s' = snd (verify_find env token now (mw_Store w))" "evs = []" "\<not> may_try sid p" by (auto split: prod.splits sum.splits)
    with VerifyArrived show ?thesis by (intro kept) (simp_all add: clears_find)
  next
    case (VerifyFound code now x)
    with st obtain allowed spent where run: "consumeMFAAttempt env (ss_ID x) (mw_Store w) = ((allowed, spent), s')"
      and "p = VerifyCharged code now x allowed spent" "evs = []" by (auto split: prod.splits)
    with VerifyFound show ?thesis by (intro charged [OF run]) simp_all
  next
    case (VerifyCharged code now x allowed spent)
    with st show ?thesis
      by (intro kept) (auto simp: tried_def clears_finish split: if_splits sum.splits option.splits)
  next
    case (VerifyChecked now x u spent ok)
    with st clears_finish(1) [of x "mw_Store w" env now u spent ok] show ?thesis
      by (intro quiet [of "ss_ID x"]) (auto simp: cleared_log_def split: prod.splits if_splits)
  next
    case (EnableArrived token code)
    with st have "s' = snd (enable_find env token (mw_Store w))" "evs = []" "\<not> may_try sid p" by (auto split: prod.splits sum.splits)
    with EnableArrived show ?thesis by (intro kept) (simp_all add: clears_find)
  next
    case (EnableFound code x u)
    with st obtain allowed spent where run: "consumeMFAAttempt env (ss_ID x) (mw_Store w) = ((allowed, spent), s')"
      and "p = EnableCharged code x u allowed spent" "evs = []" by (auto split: prod.splits)
    with EnableFound show ?thesis by (intro charged [OF run]) simp_all
  next
    case (EnableCharged code x u allowed spent)
    with st clears_finish(3) [of x "mw_Store w" env u] show ?thesis
      by (intro quiet [of "ss_ID x"]) (auto simp: cleared_log_def tried_def split: prod.splits if_splits)
  next
    case (EnableChecked x u spent ok)
    with st clears_finish(2) [of x "mw_Store w" env u spent ok] show ?thesis
      by (intro quiet [of "ss_ID x"]) (auto simp: cleared_log_def split: prod.splits if_splits)
  qed (use st in \<open>auto intro!: kept simp: led\<close>)
qed

lemma mfa_ledger_elsewhere:
  assumes "attempts_kept (mw_Store w) s'" and led: "mfa_ledger sid w"
  shows "mfa_ledger sid (w\<lparr>mw_Store := s'\<rparr>)" (is "mfa_ledger sid ?w")
proof -
  have logs: "mfa_logged e ?w = mfa_logged e w" "may_try_now sid ?w = may_try_now sid w" for e
    by (simp_all add: mfa_logged_def may_try_now_def)
  from assms(1) have "attempts_of s' sid = attempts_of (mw_Store w) sid \<or> attempts_of (mw_Store w) sid = None \<and> attempts_of s' sid = Some 0"
    by (simp add: attempts_kept_def)
  then show ?thesis
  proof
    assume eq: "attempts_of s' sid = attempts_of (mw_Store w) sid"
    show ?thesis
    proof (cases "session_row s' sid")
      case None
      with eq have "session_row (mw_Store w) sid = None" by (simp add: attempts_of_def)
      with None led logs show ?thesis by (simp add: mfa_ledger_def)
    next
      case (Some x')
      with eq obtain x where x: "session_row (mw_Store w) sid = Some x" "ss_MFAAttempts x' = ss_MFAAttempts x"
        by (cases "session_row (mw_Store w) sid") (auto simp: attempts_of_def)
      then have "mfa_room x' = mfa_room x" "attempts_ok x' = attempts_ok x" by (simp_all add: mfa_room_def attempts_ok_def)
      with Some x led logs show ?thesis by (simp add: mfa_ledger_def mb.ledger_def)
    qed
  next
    assume new: "attempts_of (mw_Store w) sid = None \<and> attempts_of s' sid = Some 0"
    then obtain x' where x': "session_row s' sid = Some x'" "attempts_ok x'"
      by (auto simp: attempts_of_def attempts_ok_def)
    from new led have "mfa_logged (CodeTried sid) w + may_try_now sid w = 0" by (simp add: mfa_ledger_def attempts_of_def)
    moreover have "mb.ledger 0 (mfa_logged (AttemptsCleared sid) w) x'"
      using mb.ledger_more [OF mb.ledger_start [OF x'(2)]] by (simp add: mfa_logged_def)
    ultimately show ?thesis using x' logs by (simp add: mfa_ledger_def)
  qed
qed

lemma mfa_step_ledger:
  assumes "mfa_world_step w w'" and "mfa_ledger sid w"
  shows "mfa_ledger sid w'"
  using assms(1)
proof cases
  case (verify token code now)
  with assms(2) show ?thesis by (simp add: mfa_ledger_def mfa_logged_def may_try_now_def)
next
  case (confirm token code)
  with assms(2) show ?thesis by (simp add: mfa_ledger_def mfa_logged_def may_try_now_def)
next
  case (advance i env p evs s')
  with assms(2) mfa_advance_ledger show ?thesis by blast
next
  case (elsewhere s')
  with assms(2) mfa_ledger_elsewhere show ?thesis by blast
qed

text \<open>Property C20. However verifications and confirmations interleave, whatever fails, at most five codes are
  validated on a session, and five more each time its counter was cleared.\<close>

theorem mfa_budget:
  assumes "mfa_world_step\<^sup>*\<^sup>* w w'"
    and "mw_Requests w = []" and "mw_Log w = []" and "list_all attempts_ok (id_Sessions (mw_Store w))"
  shows "mfa_logged (CodeTried sid) w' \<le> 5 * (1 + mfa_logged (AttemptsCleared sid) w')"
proof -
  have "mfa_ledger sid w'" using assms(1)
  proof induction
    case base
    have "attempts_ok x" if "session_row (mw_Store w) sid = Some x" for x
      using that assms(4) by (auto simp: session_row_def find_Some_iff list_all_length)
    with assms(2,3) mb.ledger_start show ?case by (simp add: mfa_ledger_def mfa_logged_def may_try_now_def)
  next
    case (step y z)
    then show ?case using mfa_step_ledger by blast
  qed
  moreover have "0 \<le> may_try_now sid w'" "0 \<le> mfa_logged (AttemptsCleared sid) w'" by (simp_all add: may_try_now_def mfa_logged_def)
  ultimately show ?thesis
    using mb.ledger_bound [of "mfa_logged (CodeTried sid) w' + may_try_now sid w'" "mfa_logged (AttemptsCleared sid) w'"]
    by (cases "session_row (mw_Store w') sid") (force simp: mfa_ledger_def maxMFAAttempts_def)+
qed

section \<open>One verification alone\<close>

text \<open>A refusal after the last attempt leaves no session to guess against, when the database answers.\<close>

lemma revoked_invalid: "session_row s k = Some x \<Longrightarrow> ss_RevokedAt x \<noteq> None \<Longrightarrow> \<not> session_IsValid x now"
  by (simp add: session_IsValid_def)

lemma destroyPending_revokes:
  assumes "ix_Fault env ''sessions.Revoke'' = None"
  shows "session_row (destroyPendingSession env x s) k =
    map_option (\<lambda>y. if ss_ID y = ss_ID x then revoke_session (ix_DbNow env) y else y) (session_row s k)"
proof -
  have "session_row (revoked_where env (\<lambda>y. ss_ID y = ss_ID x) s) k =
      map_option (\<lambda>y. if ss_ID y = ss_ID x then revoke_session (ix_DbNow env) y else y) (session_row s k)"
    unfolding revoked_where_def by (rule session_row_update) (simp add: revoke_session_def)
  with assms show ?thesis
    by (simp add: destroyPendingSession_def autocommit_def sessions_Revoke_def session_row_def)
qed

lemma verify_answers:
  assumes "MfaVerify env token code s = (r, s')"
  shows "(\<forall>e. r = Inl e \<longrightarrow> e = NewUnauthorized MsgInvalidMFACode \<or> (\<exists>m. e = Internal m)) \<and>
    (\<forall>res. r = Inr res \<longrightarrow> (\<exists>x secret. find (\<lambda>x. ss_TokenHash x = ix_HashToken env token) (id_Sessions s) = Some x \<and>
       session_IsValid x (ix_Now env) \<and> ss_MFAPending x \<and> us_ID (lr_User res) = ss_UserID x \<and>
       ix_Decrypt env (the (us_TOTPSecretEnc (lr_User res))) = Inr secret \<and> ix_TotpValidate env code secret))"
proof -
  have user: "us_ID u = k" if "user_row s k = Some u" for s k u using that by (auto simp: user_row_def find_Some_iff)
  show ?thesis
    using assms user
    by (auto simp: MfaVerify_def andthenS_def verify_find_def sessions_GetByTokenHash_def read_stmt_def invalid_code_def verify_user_def
        users_GetByID_def andthen_def verify_finish_def code_valid_def CompleteMFA_def autocommit_def
        split: sum.splits option.splits prod.splits if_splits bool.splits)
qed

section \<open>A confirmed factor that is discarded\<close>

definition advance_mfa :: "ident_env \<Rightarrow> nat \<Rightarrow> mfa_world \<Rightarrow> mfa_world" where
  "advance_mfa env i w =
     (case mfa_step env (mw_Requests w ! i) (mw_Store w) of
        ((p, evs), s') \<Rightarrow> w\<lparr>mw_Requests := (mw_Requests w)[i := p], mw_Store := s', mw_Log := mw_Log w @ evs\<rparr>)"

lemma advance_mfa_step: "i < length (mw_Requests w) \<Longrightarrow> mfa_world_step w (advance_mfa env i w)"
  by (cases "mfa_step env (mw_Requests w ! i) (mw_Store w)") (auto simp: advance_mfa_def intro!: mfa_world_step.advance)

lemma advance_mfa_requests [simp]: "length (mw_Requests (advance_mfa env i w)) = length (mw_Requests w)"
  by (simp add: advance_mfa_def split: prod.split)

lemma run_mfa: "list_all (\<lambda>i. i < length (mw_Requests w)) is \<Longrightarrow> mfa_world_step\<^sup>*\<^sup>* w (fold (advance_mfa env) is w)"
proof (induction "is" arbitrary: w)
  case (Cons i "is")
  then have "mfa_world_step w (advance_mfa env i w)" by (intro advance_mfa_step) simp
  moreover have "mfa_world_step\<^sup>*\<^sup>* (advance_mfa env i w) (fold (advance_mfa env) is (advance_mfa env i w))"
    using Cons.prems by (intro Cons.IH) simp
  ultimately show ?case by (simp add: converse_rtranclp_into_rtranclp)
qed simp

text \<open>A full session three wrong codes into confirming a secret, and two more codes on their way: one right, one wrong.\<close>

definition enrolling_session :: session where
  "enrolling_session = \<lparr>ss_ID = ''s1'', ss_TokenHash = ''sha:cookie'', ss_UserID = ''u1'', ss_TenantID = ''t1'', ss_MFAPending = False,
     ss_MFAAttempts = 3, ss_CreatedAt = 0, ss_IdleExpiresAt = 3600000000000, ss_AbsoluteExpiresAt = 3600000000000, ss_RevokedAt = None,
     ss_IP = None, ss_UserAgent = None\<rparr>"

definition enrolling_world :: mfa_world where
  "enrolling_world = \<lparr>mw_Requests = [EnableArrived ''cookie'' ''123456'', EnableArrived ''cookie'' ''000000''],
     mw_Store = example_ident\<lparr>id_Users := [example_user\<lparr>us_TOTPSecretEnc := Some ''enc:seed''\<rparr>], id_Sessions := [enrolling_session]\<rparr>,
     mw_Log = []\<rparr>"

definition confirmed :: "mfa_world \<Rightarrow> bool" where
  "confirmed w \<longleftrightarrow> (case mw_Requests w ! 0 of EnableAnswered r \<Rightarrow> is_ok r | _ \<Rightarrow> False)"

text \<open>Property C38. A second factor whose confirmation was answered with success, and which was on, can be turned off
  again by a wrong code that was in flight: the request read the account before the confirmation
  committed, and on the last attempt of the budget it discards what it takes for a pending secret.
  The schedules consist of the stages of the two requests alone, one with the right and one with a wrong
  code; once the factor is on, only the request with the wrong code advances, and nothing else touches the store.\<close>

theorem confirmed_factor_discarded:
  "\<exists>before after. set before \<subseteq> {0, 1} \<and> set after \<subseteq> {1} \<and>
    (let w1 = fold (advance_mfa example_env) before enrolling_world; w2 = fold (advance_mfa example_env) after w1
     in confirmed w1 \<and> confirmed w2 \<and>
        map us_TOTPEnabled (id_Users (mw_Store w1)) = [True] \<and> map us_TOTPSecretEnc (id_Users (mw_Store w1)) = [Some ''enc:seed''] \<and>
        map us_TOTPEnabled (id_Users (mw_Store w2)) = [False] \<and> map us_TOTPSecretEnc (id_Users (mw_Store w2)) = [None])"
proof (intro exI conjI)
  show "set [0, 1, 0, 1, 0, 0] \<subseteq> {0 :: nat, 1}" "set [1, 1] \<subseteq> {1 :: nat}" by simp_all
qed code_simp

lemma mfa_budget_witness:
  "(let w = fold (advance_mfa example_env) [0, 0, 0] (\<lparr>mw_Requests = [EnableArrived ''cookie'' ''000000''],
        mw_Store = mw_Store enrolling_world, mw_Log = []\<rparr>)
    in mfa_logged (CodeTried ''s1'') w = 1 \<and> mfa_logged (CodeTried ''s1'') w \<le> 5 * (1 + mfa_logged (AttemptsCleared ''s1'') w))"
proof -
  let ?start = "\<lparr>mw_Requests = [], mw_Store = mw_Store enrolling_world, mw_Log = []\<rparr>"
  let ?sent = "\<lparr>mw_Requests = [EnableArrived ''cookie'' ''000000''], mw_Store = mw_Store enrolling_world, mw_Log = []\<rparr>"
  let ?done = "fold (advance_mfa example_env) [0, 0, 0] ?sent"
  have "mfa_world_step ?start ?sent" using mfa_world_step.confirm [of ?start "''cookie''" "''000000''"] by simp
  moreover have "mfa_world_step\<^sup>*\<^sup>* ?sent ?done" by (rule run_mfa) simp
  ultimately have run: "mfa_world_step\<^sup>*\<^sup>* ?start ?done" by (rule converse_rtranclp_into_rtranclp)
  have "mfa_logged (CodeTried ''s1'') ?done \<le> 5 * (1 + mfa_logged (AttemptsCleared ''s1'') ?done)"
    by (rule mfa_budget [OF run]) (simp_all add: enrolling_world_def enrolling_session_def attempts_ok_def)
  moreover have "mfa_logged (CodeTried ''s1'') ?done = 1" by code_simp
  ultimately show ?thesis by (simp add: Let_def)
qed

end
