(* ===== verification/Members.thy ===== *)
theory Members
  imports SecondFactor
begin

text \<open>
  Members, invitations and machine identities: \<^verbatim>\<open>usecases/member.go\<close>, \<^verbatim>\<open>service_account.go\<close> and
  \<^verbatim>\<open>token.go\<close>, with the middleware RequireAuth that turns a credential into a requester. The
  administrative requests run on the transaction of their route: an error leaves no store.
  Redeeming an invitation is public and opens its own transaction, in the tenant of the token.
\<close>

section \<open>Shared steps\<close>

definition MsgMemberNotFound :: string where "MsgMemberNotFound = ''member not found''"
definition MsgLastTenantAdmin :: string where "MsgLastTenantAdmin = ''the tenant must keep at least one tenant admin''"
definition MsgInviteInvalid :: string where "MsgInviteInvalid = ''invite is invalid or has expired''"
definition MsgTokenInvalid :: string where "MsgTokenInvalid = ''API token is invalid, expired, or revoked''"
definition MsgTokenNotFound :: string where "MsgTokenNotFound = ''API token not found''"

definition requireTenant :: "ident_env \<Rightarrow> string app" where
  "requireTenant env = (if ctx_tenant env = [] then Inl (NewUnauthorized MsgSessionInvalid) else Inr (ctx_tenant env))"

definition mustMember :: "ident_env \<Rightarrow> ident \<Rightarrow> string \<Rightarrow> string \<Rightarrow> member app" where
  "mustMember env s tenant mid =
     andthen (members_GetByID env s tenant mid) (\<lambda>row. case row of
       None \<Rightarrow> Inl (NewNotFound MsgMemberNotFound)
     | Some m \<Rightarrow> Inr m)"

definition GetMember :: "ident_env \<Rightarrow> ident \<Rightarrow> string \<Rightarrow> member app" where
  "GetMember env s mid = andthen (requireTenant env) (\<lambda>tenant. mustMember env s tenant mid)"

record grant_input =
  gi_Role :: string
  gi_ScopeEntityID :: "string option"

definition validateGrant :: "bool \<Rightarrow> grant_input \<Rightarrow> unit app" where
  "validateGrant isService input =
     (if \<not> KnownRole (gi_Role input) then Inl (ValidationError (Errorf ''unknown role: '' [S (gi_Role input)]))
      else if gi_Role input = ''tenant_admin'' then
        (if isService then Inl (NewValidation ''a service account cannot be granted tenant_admin'')
         else if gi_ScopeEntityID input \<noteq> None then Inl (NewValidation ''tenant_admin is tenant-wide: it cannot be scoped to an entity'')
         else Inr ())
      else Inr ())"

definition ensureTenantAdminRemains :: "ident_env \<Rightarrow> ident \<Rightarrow> string \<Rightarrow> unit app" where
  "ensureTenantAdminRemains env s tenant =
     andthen (CountActiveTenantAdmins env s tenant) (\<lambda>n. if n = 0 then Inl (NewConflict MsgLastTenantAdmin) else Inr ())"

text \<open>The whitelist of a member; the grants sorted by role and scope, without their ids.\<close>

definition auditGrantKey :: "member_grant \<Rightarrow> string" where
  "auditGrantKey g = mg_Role g @ CHR 0x00 # (case mg_ScopeEntityID g of None \<Rightarrow> [] | Some e \<Rightarrow> e)"

definition auditMemberGrants :: "member_grant list \<Rightarrow> json" where
  "auditMemberGrants gs =
     (if gs = [] then JNull
      else JArr (map (\<lambda>g. JObj ((''role'', JStr (mg_Role g)) #
          (case mg_ScopeEntityID g of None \<Rightarrow> [] | Some e \<Rightarrow> [(''scopeEntityId'', JStr e)]))) (sort_key auditGrantKey gs)))"

definition auditMemberValues :: "member \<Rightarrow> audit_values" where
  "auditMemberValues m =
     [(''name'', Redacted (JStr (mb_Name m))), (''email'', Redacted (JStr (mb_Email m))), (''kind'', Plain (JStr (mb_Kind m))),
      (''status'', Plain (JStr (mb_Status m))), (''mfaEnabled'', Plain (JBool (mb_MFAEnabled m))),
      (''grants'', Plain (auditMemberGrants (mb_Grants m)))]"

definition auditInvitedValues :: "member \<Rightarrow> int \<Rightarrow> audit_values" where
  "auditInvitedValues m expires = auditMemberValues m @ [(''inviteExpiresAt'', Plain (JStr (rfc3339_nano expires)))]"

section \<open>Invitations\<close>

record issued_invite =
  ii_TokenID :: string
  ii_Raw :: string
  ii_ExpiresAt :: int

definition requester_id :: "ident_env \<Rightarrow> string option" where
  "requester_id env =
     (case ac_Requester (ix_Audit env) of None \<Rightarrow> None | Some r \<Rightarrow> if rq_ID r = [] then None else Some (rq_ID r))"

definition issueInvite :: "ident_env \<Rightarrow> string \<Rightarrow> string \<Rightarrow> ident \<Rightarrow> (issued_invite \<times> ident) app" where
  "issueInvite env uid tenant s =
     (case ix_NewSessionToken env of
        Inl m \<Rightarrow> Inl (Internal m)
      | Inr secret \<Rightarrow>
          let raw = InviteTokenPrefix @ secret; expires = ix_Now env + InviteTTL
          in andthen (invites_Create env
               \<lparr>it_ID = [], it_TokenHash = ix_HashToken env raw, it_UserID = uid, it_TenantID = tenant, it_CreatedBy = requester_id env,
                it_CreatedAt = 0, it_ExpiresAt = expires, it_AcceptedAt = None, it_RevokedAt = None\<rparr> s) (\<lambda>(t, s1).
               Inr (\<lparr>ii_TokenID = it_ID t, ii_Raw = raw, ii_ExpiresAt = expires\<rparr>, s1)))"

record invite_result =
  ir_Member :: member
  ir_RawToken :: string
  ir_ExpiresAt :: int

record create_member_input =
  cm_Email :: string
  cm_Name :: string
  cm_Role :: string
  cm_ScopeEntityID :: "string option"

definition new_user :: "string \<Rightarrow> string \<Rightarrow> string \<Rightarrow> string \<Rightarrow> string \<Rightarrow> user" where
  "new_user tenant email name kind status =
     \<lparr>us_ID = [], us_TenantID = tenant, us_Email = email, us_Name = name, us_Kind = kind, us_PasswordHash = None,
      us_Status = status, us_TOTPSecretEnc = None, us_TOTPEnabled = False, us_FailedLoginAttempts = 0, us_LockedUntil = None,
      us_CreatedAt = 0, us_UpdatedAt = 0\<rparr>"

definition mail_of :: "issued_invite \<Rightarrow> string \<Rightarrow> string \<Rightarrow> invite_mail" where
  "mail_of i email name =
     \<lparr>im_TokenID = ii_TokenID i, im_RawToken = ii_Raw i, im_Email = email, im_Name = name, im_ExpiresAt = ii_ExpiresAt i\<rparr>"

text \<open>A unique violation is the address being taken.\<close>

definition email_taken :: "'a app \<Rightarrow> 'a app" where
  "email_taken r =
     (case r of Inl (Internal m) \<Rightarrow> if m = unique_violation then Inl (NewConflict ''a member with this email already exists'') else r
      | _ \<Rightarrow> r)"

definition Invite :: "ident_env \<Rightarrow> create_member_input \<Rightarrow> ident \<Rightarrow> (invite_result \<times> ident) app" where
  "Invite env input s =
     andthen (requireTenant env) (\<lambda>tenant.
     andthen (validateGrant False \<lparr>gi_Role = cm_Role input, gi_ScopeEntityID = cm_ScopeEntityID input\<rparr>) (\<lambda>_.
     andthen (email_taken (users_Create env
         (new_user tenant (ix_ToLower env (TrimSpace (cm_Email input))) (cm_Name input) ''human'' ''invited'') s)) (\<lambda>(u, s1).
     andthen (InsertGrant env (us_ID u) (cm_Role input) (cm_ScopeEntityID input) s1) (\<lambda>(_, s2).
     andthen (issueInvite env (us_ID u) tenant s2) (\<lambda>(issued, s3).
     andthen (deliverInvite env (mail_of issued (us_Email u) (us_Name u)) s3) (\<lambda>(_, s4).
     andthen (mustMember env s4 tenant (us_ID u)) (\<lambda>m.
     andthen (audit_tx env ''member.invited'' ''user'' (mb_ID m) (Changes [] (auditInvitedValues m (ii_ExpiresAt issued))) s4) (\<lambda>(_, s5).
       Inr (\<lparr>ir_Member = m, ir_RawToken = ii_Raw issued, ir_ExpiresAt = ii_ExpiresAt issued\<rparr>, s5)))))))))"

definition ReissueInvite :: "ident_env \<Rightarrow> string \<Rightarrow> ident \<Rightarrow> (invite_result \<times> ident) app" where
  "ReissueInvite env mid s =
     andthen (requireTenant env) (\<lambda>tenant.
     andthen (mustMember env s tenant mid) (\<lambda>m.
       if \<not> mb_IsInvited m \<or> mb_IsService m then Inl (NewConflict ''member is not pending an invitation'')
       else
         andthen (RevokeUnusedForUser env (mb_ID m) s) (\<lambda>(_, s1).
         andthen (issueInvite env (mb_ID m) tenant s1) (\<lambda>(issued, s2).
         andthen (deliverInvite env (mail_of issued (mb_Email m) (mb_Name m)) s2) (\<lambda>(_, s3).
         andthen (audit_tx env ''member.invite_reissued'' ''user'' (mb_ID m)
             (Changes [] [(''status'', Plain (JStr (mb_Status m))), (''inviteExpiresAt'', Plain (JStr (rfc3339_nano (ii_ExpiresAt issued)))),
                (''grants'', Plain (auditMemberGrants (mb_Grants m)))]) s3) (\<lambda>(_, s4).
           Inr (\<lparr>ir_Member = m, ir_RawToken = ii_Raw issued, ir_ExpiresAt = ii_ExpiresAt issued\<rparr>, s4)))))))"

section \<open>Redeeming an invitation\<close>

record accept_input =
  ai_Token :: string
  ai_Password :: string
  ai_Name :: "string option"

definition invite_event :: "string \<Rightarrow> string \<Rightarrow> string \<Rightarrow> string \<Rightarrow> string \<Rightarrow> security_event" where
  "invite_event name outcome reason tenant who =
     blank_event\<lparr>sv_Event := name, sv_Outcome := outcome, sv_Method := ''invite_token'', sv_Reason := reason,
       sv_TenantID := tenant, sv_PrincipalID := who\<rparr>"

definition noteInviteRejected :: "ident_env \<Rightarrow> string \<Rightarrow> string \<Rightarrow> string \<Rightarrow> ident \<Rightarrow> ident" where
  "noteInviteRejected env reason tenant who = note_event env (invite_event ''auth.invite.rejected'' ''failure'' reason tenant who)"

definition invite_invalid :: "'a app" where
  "invite_invalid = Inl (NewValidation MsgInviteInvalid)"

definition redeemable :: "invite_token \<Rightarrow> user \<Rightarrow> bool" where
  "redeemable t u \<longleftrightarrow> us_TenantID u = it_TenantID t \<and> \<not> us_IsService u \<and> us_Status u = ''invited''"

definition accept_find :: "ident_env \<Rightarrow> string \<Rightarrow> ident \<Rightarrow> (invite_token \<times> user) app \<times> ident" where
  "accept_find env raw s =
     (if \<not> prefix InviteTokenPrefix raw then (invite_invalid, noteInviteRejected env ''unknown_credential'' [] [] s)
      else case invites_GetByTokenHash env s (ix_HashToken env raw) of
          Inl e \<Rightarrow> (Inl e, s)
        | Inr None \<Rightarrow> (invite_invalid, noteInviteRejected env ''unknown_credential'' [] [] s)
        | Inr (Some t) \<Rightarrow>
            if \<not> invite_IsUsable t (ix_Now env)
            then (invite_invalid, noteInviteRejected env ''credential_expired'' (it_TenantID t) (it_UserID t) s)
            else (case users_GetByID env s (it_UserID t) of
                Inl e \<Rightarrow> (Inl e, s)
              | Inr None \<Rightarrow> (invite_invalid, noteInviteRejected env ''principal_not_usable'' (it_TenantID t) (it_UserID t) s)
              | Inr (Some u) \<Rightarrow>
                  if redeemable t u then (Inr (t, u), s)
                  else (invite_invalid, noteInviteRejected env ''principal_not_usable'' (it_TenantID t) (it_UserID t) s)))"

text \<open>The tenant of the token and the member itself as the actor.\<close>

definition accept_env :: "ident_env \<Rightarrow> invite_token \<Rightarrow> user \<Rightarrow> ident_env" where
  "accept_env env t u =
     env\<lparr>ix_Audit := (ix_Audit env)\<lparr>ac_Tenant := it_TenantID t, ac_Requester := Some \<lparr>rq_Kind = RequesterUser, rq_ID = us_ID u,
        rq_CredentialID = [], rq_CredentialKind = [], rq_ServiceAccount = False\<rparr>\<rparr>\<rparr>"

definition activatedName :: "string \<Rightarrow> string option \<Rightarrow> string" where
  "activatedName current override = (case override of None \<Rightarrow> current | Some n \<Rightarrow> n)"

definition accept_tx :: "ident_env \<Rightarrow> invite_token \<Rightarrow> user \<Rightarrow> string \<Rightarrow> string option \<Rightarrow> ident \<Rightarrow> (unit \<times> ident) app" where
  "accept_tx env t u hash name s =
     andthen (MarkAccepted env (it_ID t) (ix_Now env) s) (\<lambda>(ok, s1).
       if \<not> ok then invite_invalid
       else
         andthen (Activate env (us_ID u) hash name s1) (\<lambda>(ok, s2).
           if \<not> ok then invite_invalid
           else
             andthen (RevokeUnusedForUser env (us_ID u) s2) (\<lambda>(_, s3).
             audit_tx (accept_env env t u) ''member.activated'' ''user'' (us_ID u)
               (Changes [(''status'', Plain (JStr (us_Status u))), (''hasPassword'', Plain (JBool (us_PasswordHash u \<noteq> None))),
                    (''name'', Redacted (JStr (us_Name u)))]
                  [(''status'', Plain (JStr ''active'')), (''hasPassword'', Plain (JBool True)),
                    (''name'', Redacted (JStr (activatedName (us_Name u) name)))]) s3)))"

text \<open>The reason of a refusal decided inside the transaction: a lost race.\<close>

definition accept_refused :: "ident_env \<Rightarrow> invite_token \<Rightarrow> user \<Rightarrow> string \<Rightarrow> string option \<Rightarrow> ident \<Rightarrow> string" where
  "accept_refused env t u hash name s =
     (if ix_Fault env ''BEGIN'' \<noteq> None then []
      else case MarkAccepted env (it_ID t) (ix_Now env) s of
          Inl _ \<Rightarrow> []
        | Inr (ok, s1) \<Rightarrow>
            if \<not> ok then ''credential_expired''
            else (case Activate env (us_ID u) hash name s1 of
                Inl _ \<Rightarrow> []
              | Inr (ok, _) \<Rightarrow> if \<not> ok then ''principal_not_usable'' else []))"

definition accept_commit :: "ident_env \<Rightarrow> accept_input \<Rightarrow> invite_token \<Rightarrow> user \<Rightarrow> ident \<Rightarrow> string app \<times> ident" where
  "accept_commit env input t u s =
     (case ix_HashPassword env (ai_Password input) of
        Inl m \<Rightarrow> (Inl (Internal m), s)
      | Inr hash \<Rightarrow>
          (case withinTx env (accept_tx env t u hash (ai_Name input)) s of
             (Inl e, s1) \<Rightarrow>
               (let reason = accept_refused env t u hash (ai_Name input) s
                in (Inl e, if reason = [] then s1 else noteInviteRejected env reason (it_TenantID t) (us_ID u) s1))
           | (Inr _, s1) \<Rightarrow>
               (Inr (us_Email u),
                note_event env (invite_event ''auth.invite.accepted'' ''success'' [] (it_TenantID t) (us_ID u)) s1)))"

definition AcceptInvite :: "ident_env \<Rightarrow> accept_input \<Rightarrow> ident \<Rightarrow> string app \<times> ident" where
  "AcceptInvite env input s =
     andthenS (accept_find env (TrimSpace (ai_Token input)) s) (\<lambda>(t, u) s1. accept_commit env input t u s1)"

section \<open>Enabling, disabling and renaming\<close>

record revocation =
  rv_Sessions :: int
  rv_APITokens :: int
  rv_Invites :: int

text \<open>The status to write; a disable takes the tenant's lock first.\<close>

definition update_status :: "ident_env \<Rightarrow> ident \<Rightarrow> member \<Rightarrow> string \<Rightarrow> string app" where
  "update_status env s m status =
     (if status = ''disabled'' then
        (if (case ac_Requester (ix_Audit env) of None \<Rightarrow> False | Some r \<Rightarrow> rq_ID r = mb_ID m)
         then Inl (NewValidation ''you cannot disable your own account'')
         else andthen (LockAdminGuard env s) (\<lambda>_. Inr status))
      else if status = ''active'' then
        (if mb_IsInvited m then Inl (NewValidation ''an invited member becomes active by accepting the invite'')
         else if \<not> mb_IsService m \<and> \<not> mb_HasPassword m then Inr ''invited'' else Inr status)
      else Inl (NewValidation ''status must be active or disabled''))"

definition revoke_credentials :: "ident_env \<Rightarrow> string \<Rightarrow> string \<Rightarrow> ident \<Rightarrow> (revocation \<times> ident) app" where
  "revoke_credentials env tenant mid s =
     andthen (sessions_RevokeAllForUser env mid s) (\<lambda>(sessions, s1).
     andthen (tokens_RevokeAllForUser env mid s1) (\<lambda>(tokens, s2).
     andthen (RevokeUnusedForUser env mid s2) (\<lambda>(invites, s3).
     andthen (ensureTenantAdminRemains env s3 tenant) (\<lambda>_.
       Inr (\<lparr>rv_Sessions = sessions, rv_APITokens = tokens, rv_Invites = invites\<rparr>, s3)))))"

definition sessions_revoked_event :: "ident_env \<Rightarrow> member \<Rightarrow> security_event" where
  "sessions_revoked_event env m =
     blank_event\<lparr>sv_Event := ''auth.sessions.revoked'', sv_Outcome := ''success'', sv_Method := ''session'',
       sv_Reason := ''member_disabled'', sv_TenantID := mb_TenantID m, sv_PrincipalID := mb_ID m,
       sv_ActorID := (case ac_Requester (ix_Audit env) of None \<Rightarrow> [] | Some r \<Rightarrow> if IsUser r then rq_ID r else [])\<rparr>"

definition recordCredentialRevocation :: "ident_env \<Rightarrow> member \<Rightarrow> revocation option \<Rightarrow> ident \<Rightarrow> (unit \<times> ident) app" where
  "recordCredentialRevocation env m revoked s =
     (case revoked of
        None \<Rightarrow> Inr ((), s)
      | Some r \<Rightarrow>
          andthen (audit_tx env ''member.credentials_revoked'' ''user'' (mb_ID m)
              (Some (JObj [(''credentialsRevoked'', JObj [(''apiTokens'', JNum (Dec (rv_APITokens r) 0)),
                   (''invites'', JNum (Dec (rv_Invites r) 0)), (''sessions'', JNum (Dec (rv_Sessions r) 0))]),
                 (''principalKind'', JStr (mb_Kind m)), (''trigger'', JStr ''member.disabled'')])) s) (\<lambda>(_, s1).
            tx_note env (sessions_revoked_event env m) s1))"

definition UpdateMember :: "ident_env \<Rightarrow> string \<Rightarrow> string \<Rightarrow> string \<Rightarrow> ident \<Rightarrow> (member \<times> ident) app" where
  "UpdateMember env mid name status0 s =
     andthen (requireTenant env) (\<lambda>tenant.
     andthen (mustMember env s tenant mid) (\<lambda>m.
     andthen (update_status env s m status0) (\<lambda>status.
     andthen (UpdateNameStatus env tenant (mb_ID m) name status s) (\<lambda>(_, s1).
     andthen (if status = ''disabled'' then andthen (revoke_credentials env tenant (mb_ID m) s1) (\<lambda>(r, s2). Inr (Some r, s2))
              else Inr (None, s1)) (\<lambda>(revoked, s2).
     andthen (mustMember env s2 tenant (mb_ID m)) (\<lambda>updated.
     andthen (audit_tx env ''member.updated'' ''user'' (mb_ID m) (Changes (auditMemberValues m) (auditMemberValues updated)) s2) (\<lambda>(_, s3).
     andthen (recordCredentialRevocation env updated revoked s3) (\<lambda>(_, s4).
       Inr (updated, s4)))))))))"

section \<open>Roles\<close>

definition finishGrantChange :: "ident_env \<Rightarrow> string \<Rightarrow> member \<Rightarrow> ident \<Rightarrow> (member \<times> ident) app" where
  "finishGrantChange env tenant before s =
     andthen (ensureTenantAdminRemains env s tenant) (\<lambda>_.
     andthen (mustMember env s tenant (mb_ID before)) (\<lambda>m.
     andthen (audit_tx env ''member.role_changed'' ''user'' (mb_ID m) (Changes (auditMemberValues before) (auditMemberValues m)) s) (\<lambda>(_, s1).
       Inr (m, s1))))"

definition SetRole :: "ident_env \<Rightarrow> string \<Rightarrow> grant_input \<Rightarrow> ident \<Rightarrow> (member \<times> ident) app" where
  "SetRole env mid input s =
     andthen (requireTenant env) (\<lambda>tenant.
     andthen (mustMember env s tenant mid) (\<lambda>m.
     andthen (validateGrant (mb_IsService m) input) (\<lambda>_.
     andthen (LockAdminGuard env s) (\<lambda>(_, s1).
     andthen (DeleteGrantsForUser env (mb_ID m) s1) (\<lambda>(_, s2).
     andthen (InsertGrant env (mb_ID m) (gi_Role input) (gi_ScopeEntityID input) s2) (\<lambda>(_, s3).
       finishGrantChange env tenant m s3))))))"

definition AddGrant :: "ident_env \<Rightarrow> string \<Rightarrow> grant_input \<Rightarrow> ident \<Rightarrow> (member \<times> ident) app" where
  "AddGrant env mid input s =
     andthen (requireTenant env) (\<lambda>tenant.
     andthen (mustMember env s tenant mid) (\<lambda>m.
     andthen (validateGrant (mb_IsService m) input) (\<lambda>_.
     andthen (LockAdminGuard env s) (\<lambda>(_, s1).
     andthen (InsertGrant env (mb_ID m) (gi_Role input) (gi_ScopeEntityID input) s1) (\<lambda>(_, s2).
       finishGrantChange env tenant m s2)))))"

definition RemoveGrant :: "ident_env \<Rightarrow> string \<Rightarrow> string \<Rightarrow> ident \<Rightarrow> (unit \<times> ident) app" where
  "RemoveGrant env mid gid s =
     andthen (requireTenant env) (\<lambda>tenant.
     andthen (mustMember env s tenant mid) (\<lambda>m.
       if \<not> list_ex (\<lambda>g. mg_ID g = gid) (mb_Grants m) then Inl (NewNotFound ''grant not found'')
       else
         andthen (LockAdminGuard env s) (\<lambda>(_, s1).
         andthen (DeleteGrant env (mb_ID m) gid s1) (\<lambda>(ok, s2).
           if \<not> ok then Inl (NewNotFound ''grant not found'')
           else andthen (finishGrantChange env tenant m s2) (\<lambda>(_, s3). Inr ((), s3))))))"

section \<open>Machine identities\<close>

definition auditServiceAccountGrant :: "string \<Rightarrow> string option \<Rightarrow> json" where
  "auditServiceAccountGrant role scope =
     auditMemberGrants [\<lparr>mg_ID = [], mg_UserID = [], mg_Role = role, mg_ScopeEntityID = scope, mg_ScopeEntityName = None\<rparr>]"

definition auditTokenDetails :: "json option \<Rightarrow> json" where
  "auditTokenDetails changes =
     JObj ((case changes of Some (JObj kvs) \<Rightarrow> kvs | _ \<Rightarrow> []) @ [(''tokenPrefix'', JStr TokenPrefix)])"

text \<open>\<^verbatim>\<open>uuid.NewString\<close> of the synthetic address is the environment's fresh key.\<close>

definition CreateServiceAccount :: "ident_env \<Rightarrow> string \<Rightarrow> string \<Rightarrow> string option \<Rightarrow> ident \<Rightarrow> (user \<times> ident) app" where
  "CreateServiceAccount env name role scope s =
     andthen (requireTenant env) (\<lambda>tenant.
       if \<not> KnownRole role then Inl (ValidationError (Errorf ''unknown role: '' [S role]))
       else if role = ''tenant_admin'' then Inl (NewValidation ''a service account cannot be granted tenant_admin'')
       else
         andthen (users_Create env (new_user tenant (''svc-'' @ ix_NewID env ''uuid'' @ ''@service.zentax.internal'') name ''service'' ''active'') s) (\<lambda>(u, s1).
         andthen (grants_Insert env (us_ID u) role scope s1) (\<lambda>(_, s2).
         andthen (audit_tx env ''service_account.created'' ''service_account'' (us_ID u)
             (Changes [] [(''kind'', Plain (JStr (us_Kind u))), (''status'', Plain (JStr (us_Status u))),
                (''grants'', Plain (auditServiceAccountGrant role scope))]) s2) (\<lambda>(_, s3).
           Inr (u, s3)))))"

definition ListServiceAccounts :: "ident_env \<Rightarrow> ident \<Rightarrow> user list app" where
  "ListServiceAccounts env s = andthen (requireTenant env) (\<lambda>tenant. ListByKind env s tenant ''service'')"

definition time24h :: "int \<Rightarrow> int" where
  "time24h days = days * 24 * 3600000000000"

definition token_ttl :: "int \<Rightarrow> int" where
  "token_ttl ttlDays = (if ttlDays < 1 \<or> ttlDays > 365 then 90 else ttlDays)"

definition IssueToken :: "ident_env \<Rightarrow> string \<Rightarrow> string \<Rightarrow> int \<Rightarrow> ident \<Rightarrow> ((api_token \<times> string) \<times> ident) app" where
  "IssueToken env said label ttlDays s =
     andthen (requireTenant env) (\<lambda>tenant.
     andthen (users_GetByID env s said) (\<lambda>row. case row of
       None \<Rightarrow> Inl (NewNotFound ''service account not found'')
     | Some sa \<Rightarrow>
         if us_TenantID sa \<noteq> tenant \<or> \<not> us_IsService sa \<or> \<not> us_IsActive sa then Inl (NewNotFound ''service account not found'')
         else case ix_NewSessionToken env of
             Inl m \<Rightarrow> Inl (Internal m)
           | Inr secret \<Rightarrow>
               let raw = TokenPrefix @ secret in
               andthen (tokens_Create env
                 \<lparr>tk_ID = [], tk_TokenHash = ix_HashToken env raw, tk_UserID = us_ID sa, tk_TenantID = tenant, tk_Label = label,
                  tk_CreatedBy = requester_id env, tk_CreatedAt = 0, tk_ExpiresAt = ix_Now env + time24h (token_ttl ttlDays),
                  tk_LastUsedAt = None, tk_RevokedAt = None\<rparr> s) (\<lambda>(t, s1).
               andthen (audit_tx env ''api_token.issued'' ''api_token'' (tk_ID t)
                   (Some (auditTokenDetails (Changes [] [(''serviceAccountId'', Plain (JStr (us_ID sa))),
                      (''expiresAt'', Plain (JStr (rfc3339_nano (tk_ExpiresAt t)))), (''ttlDays'', Plain (JNum (Dec (token_ttl ttlDays) 0)))]))) s1) (\<lambda>(_, s2).
                 Inr ((t, raw), s2)))))"

definition RevokeToken :: "ident_env \<Rightarrow> string \<Rightarrow> ident \<Rightarrow> (unit \<times> ident) app" where
  "RevokeToken env tid s =
     andthen (requireTenant env) (\<lambda>tenant.
     andthen (tokens_Revoke env tid tenant s) (\<lambda>(ok, s1).
       if \<not> ok then Inl (NewNotFound MsgTokenNotFound)
       else audit_tx env ''api_token.revoked'' ''api_token'' tid
              (Some (auditTokenDetails (Changes [(''revoked'', Plain (JBool False))] [(''revoked'', Plain (JBool True))]))) s1))"

section \<open>Credentials of a request\<close>

definition noteTokenRejected :: "ident_env \<Rightarrow> string \<Rightarrow> string \<Rightarrow> string \<Rightarrow> string \<Rightarrow> ident \<Rightarrow> ident" where
  "noteTokenRejected env reason tenant who tid =
     note_event env (blank_event\<lparr>sv_Event := ''auth.token.rejected'', sv_Outcome := ''failure'', sv_Method := ''api_token'',
       sv_Reason := reason, sv_TenantID := tenant, sv_PrincipalID := who, sv_SessionID := tid\<rparr>)"

definition token_invalid :: "'a app" where
  "token_invalid = Inl (NewUnauthorized MsgTokenInvalid)"

definition AuthenticateToken :: "ident_env \<Rightarrow> string \<Rightarrow> ident \<Rightarrow> (api_token \<times> user) app \<times> ident" where
  "AuthenticateToken env raw s =
     (if \<not> prefix TokenPrefix raw then (token_invalid, s)
      else case tokens_GetByTokenHash env s (ix_HashToken env raw) of
          Inl e \<Rightarrow> (Inl e, s)
        | Inr None \<Rightarrow> (token_invalid, noteTokenRejected env ''unknown_credential'' [] [] [] s)
        | Inr (Some t) \<Rightarrow>
            if \<not> token_IsValid t (ix_Now env)
            then (token_invalid, noteTokenRejected env ''credential_expired'' (tk_TenantID t) (tk_UserID t) (tk_ID t) s)
            else (case users_GetByID env s (tk_UserID t) of
                Inl e \<Rightarrow> (Inl e, s)
              | Inr None \<Rightarrow> (token_invalid, noteTokenRejected env ''principal_not_usable'' (tk_TenantID t) (tk_UserID t) (tk_ID t) s)
              | Inr (Some u) \<Rightarrow>
                  if \<not> us_IsActive u \<or> \<not> us_IsService u
                  then (token_invalid, noteTokenRejected env ''principal_not_usable'' (tk_TenantID t) (tk_UserID t) (tk_ID t) s)
                  else (Inr (t, u), snd (TouchLastUsed env (tk_ID t) (ix_Now env) s))))"

definition bearerToken :: "string \<Rightarrow> string option" where
  "bearerToken h =
     (if \<not> prefix ''Bearer '' h then None
      else let raw = TrimSpace (drop (length ''Bearer '') h) in if prefix TokenPrefix raw then Some raw else None)"

text \<open>The requester and the tenant a request runs as; an absent header or cookie is empty.\<close>

definition RequireAuth :: "ident_env \<Rightarrow> string \<Rightarrow> string \<Rightarrow> ident \<Rightarrow> (requester \<times> string) app \<times> ident" where
  "RequireAuth env header cookie s =
     (case bearerToken header of
        Some raw \<Rightarrow>
          andthenS (AuthenticateToken env raw s) (\<lambda>(t, u) s1.
            (Inr (\<lparr>rq_Kind = RequesterUser, rq_ID = us_ID u, rq_CredentialID = tk_ID t, rq_CredentialKind = ''api_token'',
                   rq_ServiceAccount = True\<rparr>, tk_TenantID t), s1))
      | None \<Rightarrow>
          andthenS (Authenticate env cookie s) (\<lambda>(x, u) s1.
            if ss_MFAPending x then (Inl (NewUnauthorized MsgMFARequired), s1)
            else (Inr (\<lparr>rq_Kind = RequesterUser, rq_ID = us_ID u, rq_CredentialID = ss_ID x, rq_CredentialKind = ''session'',
                   rq_ServiceAccount = False\<rparr>, ss_TenantID x), s1)))"

end
