(* ===== verification/Credentials.thy ===== *)
theory Credentials
  imports Members
begin

text \<open>
  The whole identity component as one step relation, and what its steps keep: every session has
  the record of the sign-in that minted it, and a tenant that has an active tenant-wide
  administrator keeps one.
\<close>

section \<open>Relations a request keeps\<close>

text \<open>
  A relation between stores that holds over a request when it holds over each of its statements.
  Clients: the sessions with their evidence, and who may administer.
\<close>

definition tx_rel :: "(ident \<Rightarrow> ident \<Rightarrow> bool) \<Rightarrow> ident \<Rightarrow> ('a \<times> ident) app \<Rightarrow> bool" where
  "tx_rel R s r \<longleftrightarrow> (\<forall>x s'. r = Inr (x, s') \<longrightarrow> R s s')"

locale store_relation =
  fixes R :: "ident \<Rightarrow> ident \<Rightarrow> bool"
  assumes R_refl: "R s s"
    and R_trans: "R s s1 \<Longrightarrow> R s1 s2 \<Longrightarrow> R s s2"
begin

lemma tx_ret: "R s s' \<Longrightarrow> tx_rel R s (Inr (x, s'))"
  by (simp add: tx_rel_def)

lemma tx_err: "tx_rel R s (Inl e)"
  by (simp add: tx_rel_def)

lemma tx_seq:
  assumes "tx_rel R s r" and "\<And>x s1. R s s1 \<Longrightarrow> tx_rel R s1 (k (x, s1))"
  shows "tx_rel R s (andthen r k)"
proof (cases r)
  case (Inr p)
  obtain x s1 where p: "p = (x, s1)" by fastforce
  with Inr assms(1) have "R s s1" by (simp add: tx_rel_def)
  with assms(2) [of s1 x] R_trans Inr p show ?thesis unfolding tx_rel_def by auto
qed (simp add: tx_rel_def)

lemma tx_read: "(\<And>x. tx_rel R s (k x)) \<Longrightarrow> tx_rel R s (andthen r k)"
  by (cases r) (simp_all add: tx_rel_def)

lemma tx_stmt: "R s (snd (f s)) \<Longrightarrow> tx_rel R s (in_tx env name f s)"
  by (cases "f s") (auto simp: in_tx_Inr tx_rel_def)

lemma auto_stmt: "(\<And>s. R s (snd (f s))) \<Longrightarrow> R s (snd (autocommit env name f s))"
  using R_refl by (auto simp: autocommit_def split: option.split)

lemma whole_tx: "(\<And>s. tx_rel R s (body s)) \<Longrightarrow> R s (snd (withinTx env body s))"
  using R_refl withinTx_store [of env body s] by (cases "withinTx env body s") (force simp: tx_rel_def)

lemma seqS:
  assumes "R s (snd r)" and "\<And>x s1. R s s1 \<Longrightarrow> R s1 (snd (k x s1))"
  shows "R s (snd (andthenS r k))"
proof -
  obtain a s1 where r: "r = (a, s1)" by fastforce
  with assms R_trans [of s s1] show ?thesis by (cases a) simp_all
qed

end

text \<open>
  A revoked session or token stays revoked, a revoked or redeemed invitation stays so, and none
  changes hands. Rows are appended, never taken away.
\<close>

definition same_session :: "session \<Rightarrow> session \<Rightarrow> bool" where
  "same_session x y \<longleftrightarrow> ss_ID y = ss_ID x \<and> ss_UserID y = ss_UserID x \<and> ss_TenantID y = ss_TenantID x \<and>
     (ss_RevokedAt x \<noteq> None \<longrightarrow> ss_RevokedAt y \<noteq> None)"

definition same_token :: "api_token \<Rightarrow> api_token \<Rightarrow> bool" where
  "same_token t v \<longleftrightarrow> tk_ID v = tk_ID t \<and> tk_UserID v = tk_UserID t \<and> tk_TenantID v = tk_TenantID t \<and>
     tk_TokenHash v = tk_TokenHash t \<and> tk_ExpiresAt v = tk_ExpiresAt t \<and> (tk_RevokedAt t \<noteq> None \<longrightarrow> tk_RevokedAt v \<noteq> None)"

definition same_invite :: "invite_token \<Rightarrow> invite_token \<Rightarrow> bool" where
  "same_invite t v \<longleftrightarrow> it_ID v = it_ID t \<and> it_UserID v = it_UserID t \<and> it_TokenHash v = it_TokenHash t \<and>
     (it_RevokedAt t \<noteq> None \<longrightarrow> it_RevokedAt v \<noteq> None) \<and> (it_AcceptedAt t \<noteq> None \<longrightarrow> it_AcceptedAt v \<noteq> None)"

definition grown :: "('a \<Rightarrow> 'a \<Rightarrow> bool) \<Rightarrow> 'a list \<Rightarrow> 'a list \<Rightarrow> bool" where
  "grown K xs ys \<longleftrightarrow> length xs \<le> length ys \<and> list_all2 K xs (take (length xs) ys)"

lemma grown_refl: "(\<And>x. K x x) \<Longrightarrow> grown K xs xs"
  by (simp add: grown_def list.rel_refl)

lemma grown_trans:
  assumes "\<And>x y z. K x y \<Longrightarrow> K y z \<Longrightarrow> K x z" and "grown K xs ys" and "grown K ys zs"
  shows "grown K xs zs"
  unfolding grown_def list_all2_conv_all_nth
proof (intro conjI allI impI)
  show len: "length xs \<le> length zs" using assms(2,3) by (simp add: grown_def)
  then show "length xs = length (take (length xs) zs)" by simp
  fix i assume i: "i < length xs"
  with assms(2) have "K (xs ! i) (ys ! i)" "i < length ys" by (auto simp: grown_def list_all2_conv_all_nth)
  moreover from this assms(3) have "K (ys ! i) (zs ! i)" by (auto simp: grown_def list_all2_conv_all_nth)
  ultimately show "K (xs ! i) (take (length xs) zs ! i)" using i assms(1) by simp
qed

lemma grown_map: "(\<And>x. K x (f x)) \<Longrightarrow> grown K xs (map f xs)"
  by (simp add: grown_def list_all2_conv_all_nth)

lemma grown_append: "(\<And>x. K x x) \<Longrightarrow> grown K xs (xs @ ys)"
  by (simp add: grown_def list.rel_refl)

lemma same_rows [simp]: "same_session x x" "same_token t t" "same_invite i i"
  by (simp_all add: same_session_def same_token_def same_invite_def)

lemma same_sessions_refl [simp]: "list_all2 same_session xs xs"
  by (simp add: list.rel_refl)

lemma grown_same [simp]: "grown same_token ts ts" "grown same_invite is is" "grown same_session xs xs"
  "grown same_token ts (ts @ ts')" "grown same_invite is (is @ is')" "grown same_session xs (xs @ xs')"
  by (simp_all add: grown_refl grown_append)

definition sess_calm :: "ident \<Rightarrow> ident \<Rightarrow> bool" where
  "sess_calm s s' \<longleftrightarrow> list_all2 same_session (id_Sessions s) (id_Sessions s') \<and> set (id_Events s) \<subseteq> set (id_Events s') \<and>
     grown same_token (id_Tokens s) (id_Tokens s') \<and> grown same_invite (id_Invites s) (id_Invites s')"

text \<open>Nobody's standing moves: the account, its kind, its status, its password, the grants.\<close>

definition standing :: "user \<Rightarrow> string \<times> string \<times> string \<times> string \<times> string option" where
  "standing u = (us_ID u, us_TenantID u, us_Kind u, us_Status u, us_PasswordHash u)"

definition acc_calm :: "ident \<Rightarrow> ident \<Rightarrow> bool" where
  "acc_calm s s' \<longleftrightarrow> map standing (id_Users s') = map standing (id_Users s) \<and> id_Grants s' = id_Grants s"

lemma sess_calm_trans:
  assumes "sess_calm s s1" and "sess_calm s1 s2"
  shows "sess_calm s s2"
proof -
  have "list_all2 same_session (id_Sessions s) (id_Sessions s2)"
    by (rule list_all2_trans [of same_session same_session same_session _ "id_Sessions s1"])
      (use assms in \<open>auto simp: sess_calm_def same_session_def\<close>)
  moreover have "grown same_token (id_Tokens s) (id_Tokens s2)"
    by (rule grown_trans [of same_token _ "id_Tokens s1"]) (use assms in \<open>auto simp: sess_calm_def same_token_def\<close>)
  moreover have "grown same_invite (id_Invites s) (id_Invites s2)"
    by (rule grown_trans [of same_invite _ "id_Invites s1"]) (use assms in \<open>auto simp: sess_calm_def same_invite_def\<close>)
  ultimately show ?thesis using assms by (auto simp: sess_calm_def)
qed

interpretation sc: store_relation sess_calm
  by unfold_locales (simp add: sess_calm_def, rule sess_calm_trans)

interpretation ac: store_relation acc_calm
  by unfold_locales (auto simp: acc_calm_def)

section \<open>Statements\<close>

named_theorems calm

lemma calm_note [calm]: "sess_calm s (note_event env e s)" "acc_calm s (note_event env e s)"
  by (auto simp: note_event_def sess_calm_def acc_calm_def dest!: event_Record_appends split: option.split sum.split)

lemma calm_update_sessions:
  "(\<And>x. P x \<Longrightarrow> same_session x (f x)) \<Longrightarrow> sess_calm s (update_sessions P f s)" "acc_calm s (update_sessions P f s)"
  by (auto simp: sess_calm_def acc_calm_def update_sessions_def list_all2_conv_all_nth)

lemma calm_update_tokens:
  "(\<And>t. P t \<Longrightarrow> same_token t (f t)) \<Longrightarrow> sess_calm s (update_tokens P f s)" "acc_calm s (update_tokens P f s)"
  by (auto simp: sess_calm_def acc_calm_def update_tokens_def intro!: grown_map)

lemma calm_update_invites:
  "(\<And>t. P t \<Longrightarrow> same_invite t (f t)) \<Longrightarrow> sess_calm s (update_invites P f s)" "acc_calm s (update_invites P f s)"
  by (auto simp: sess_calm_def acc_calm_def update_invites_def intro!: grown_map)

lemma calm_revoked [simp]:
  "sess_calm s (revoked_where env P s)" "acc_calm s (revoked_where env P s)"
  "sess_calm s (update_tokens Q (revoke_token now) s)" "acc_calm s (update_tokens Q (revoke_token now) s)"
  "sess_calm s (update_tokens Q (\<lambda>t. t\<lparr>tk_LastUsedAt := z\<rparr>) s)" "acc_calm s (update_tokens Q (\<lambda>t. t\<lparr>tk_LastUsedAt := z\<rparr>) s)"
  by (auto simp: revoked_where_def revoke_session_def same_session_def revoke_token_def same_token_def
      intro!: calm_update_sessions calm_update_tokens)

lemma calm_update_user:
  "sess_calm s (update_user uid f s)" "(\<And>u. standing (f u) = standing u) \<Longrightarrow> acc_calm s (update_user uid f s)"
  by (simp_all add: sess_calm_def acc_calm_def update_user_def)

lemma calm_audit [calm]:
  "tx_rel sess_calm s (audit_tx env a t i d s)" "tx_rel acc_calm s (audit_tx env a t i d s)"
  by (auto simp: audit_tx_def sc.R_refl ac.R_refl intro!: sc.tx_ret ac.tx_ret sc.tx_stmt ac.tx_stmt sc.tx_err ac.tx_err split: sum.split)
    (simp_all add: sess_calm_def acc_calm_def)

lemma calm_tx_Record [calm]:
  "tx_rel sess_calm s (tx_Record env e s)" "tx_rel acc_calm s (tx_Record env e s)"
proof -
  have "sess_calm s s' \<and> acc_calm s s'" if "tx_Record env e s = Inr ((), s')" for s'
    using tx_Record_Inr [OF that] by (auto simp: sess_calm_def acc_calm_def)
  then show "tx_rel sess_calm s (tx_Record env e s)" "tx_rel acc_calm s (tx_Record env e s)"
    by (auto simp: tx_rel_def)
qed

lemma calm_tx_note [calm]:
  "tx_rel sess_calm s (tx_note env e s)" "tx_rel acc_calm s (tx_note env e s)"
  by (simp_all add: tx_note_def calm_tx_Record sc.tx_ret ac.tx_ret sc.R_refl ac.R_refl)

lemma calm_statements [calm]:
  "tx_rel sess_calm s (SetTOTP env uid enc en s)"
  "tx_rel sess_calm s (ResetFailedLogin env uid s)"
  "tx_rel sess_calm s (ClearMFAAttempts env sid s)"
  "tx_rel sess_calm s (sessions_RevokeAllForUser env uid s)"
  "tx_rel sess_calm s (in_tx env n (sessions_Revoke env sid) s)"
  "tx_rel sess_calm s (tokens_Create env t s)"
  "tx_rel sess_calm s (tokens_RevokeAllForUser env uid s)"
  "tx_rel sess_calm s (tokens_Revoke env tid tenant s)"
  "tx_rel sess_calm s (invites_Create env it s)"
  "tx_rel sess_calm s (MarkAccepted env tid now s)"
  "tx_rel sess_calm s (RevokeUnusedForUser env uid s)"
  "tx_rel sess_calm s (LockAdminGuard env s)"
  "tx_rel sess_calm s (UpdateNameStatus env tenant uid name status s)"
  "tx_rel sess_calm s (Activate env uid h nm s)"
  "tx_rel sess_calm s (DeleteGrant env uid g s)" "tx_rel sess_calm s (DeleteGrantsForUser env uid s)"
  unfolding SetTOTP_def ResetFailedLogin_def ClearMFAAttempts_def sessions_RevokeAllForUser_def sessions_Revoke_def
      tokens_Create_def tokens_RevokeAllForUser_def tokens_Revoke_def invites_Create_def MarkAccepted_def RevokeUnusedForUser_def
      LockAdminGuard_def UpdateNameStatus_def Activate_def DeleteGrant_def DeleteGrantsForUser_def
  by (rule sc.tx_stmt; simp add: calm_update_user calm_update_sessions calm_update_invites same_session_def same_invite_def
      sc.R_refl Let_def invite_IsUsable_def unused_of_def acceptable_def; simp add: sess_calm_def)+

lemma acc_calm_statements [calm]:
  "tx_rel acc_calm s (SetTOTP env uid enc en s)"
  "tx_rel acc_calm s (ResetFailedLogin env uid s)"
  "tx_rel acc_calm s (ClearMFAAttempts env sid s)"
  "tx_rel acc_calm s (sessions_RevokeAllForUser env uid s)"
  "tx_rel acc_calm s (in_tx env n (sessions_Revoke env sid) s)"
  "tx_rel acc_calm s (sessions_Create env x s)"
  "tx_rel acc_calm s (tokens_Create env t s)"
  "tx_rel acc_calm s (tokens_RevokeAllForUser env uid s)"
  "tx_rel acc_calm s (tokens_Revoke env tid tenant s)"
  "tx_rel acc_calm s (invites_Create env it s)"
  "tx_rel acc_calm s (MarkAccepted env tid now s)"
  "tx_rel acc_calm s (RevokeUnusedForUser env uid s)"
  "tx_rel acc_calm s (LockAdminGuard env s)"
  by (auto simp: SetTOTP_def ResetFailedLogin_def ClearMFAAttempts_def sessions_RevokeAllForUser_def sessions_Revoke_def sessions_Create_def
      tokens_Create_def tokens_RevokeAllForUser_def tokens_Revoke_def invites_Create_def MarkAccepted_def RevokeUnusedForUser_def
      LockAdminGuard_def revoked_where_def update_user_def update_sessions_def update_tokens_def update_invites_def
      acc_calm_def standing_def Let_def intro!: ac.tx_stmt)

lemma calm_inserts [calm]:
  "tx_rel sess_calm s (users_Create env u s)" "tx_rel sess_calm s (InsertGrant env uid r sc s)"
  "tx_rel sess_calm s (grants_Insert env uid r sc s)"
  by (auto simp: users_Create_def InsertGrant_def grants_Insert_def Let_def sess_calm_def intro!: sc.tx_stmt sc.tx_err)

lemma calm_deliver [calm]: "tx_rel sess_calm s (deliverInvite env m s)" "tx_rel acc_calm s (deliverInvite env m s)"
  by (auto simp: deliverInvite_def sc.R_refl ac.R_refl sess_calm_def acc_calm_def
      intro!: sc.tx_ret ac.tx_ret sc.tx_stmt ac.tx_stmt sc.tx_err ac.tx_err split: option.split sum.split)

section \<open>Use cases\<close>

text \<open>The transactions of the tenant routes, by their statements.\<close>

text \<open>A read leaves the store alone: its answer is not paired with one.\<close>

lemmas sc_reads = sc.tx_read [where 'a = "user option"]
  sc.tx_read [where 'a = "session option"]
  sc.tx_read [where 'a = "member"]
  sc.tx_read [where 'a = "string"]
  sc.tx_read [where 'a = "unit"]

lemmas ac_reads = ac.tx_read [where 'a = "user option"]
  ac.tx_read [where 'a = "session option"]
  ac.tx_read [where 'a = "member"]
  ac.tx_read [where 'a = "string"]
  ac.tx_read [where 'a = "unit"]

lemmas sc_rules = sc_reads sc.tx_seq sc.tx_err sc.tx_ret sc.R_refl
lemmas ac_rules = ac_reads ac.tx_seq ac.tx_err ac.tx_ret ac.R_refl

lemma calm_tenant_sessions:
  "tx_rel sess_calm s (Logout env token s)" "tx_rel acc_calm s (Logout env token s)"
  "tx_rel sess_calm s (LogoutAll env uid s)" "tx_rel acc_calm s (LogoutAll env uid s)"
  "tx_rel sess_calm s (MfaEnroll env uid s)" "tx_rel acc_calm s (MfaEnroll env uid s)"
  "tx_rel sess_calm s (RevokeToken env tid s)" "tx_rel acc_calm s (RevokeToken env tid s)"
  by (auto simp: Logout_def LogoutAll_def MfaEnroll_def RevokeToken_def intro!: sc_rules ac_rules calm split: option.split sum.split prod.split)

lemma calm_issue [calm]:
  "tx_rel sess_calm s (issueInvite env uid tenant s)" "tx_rel acc_calm s (issueInvite env uid tenant s)"
  by (auto simp: issueInvite_def Let_def intro!: sc_rules ac_rules calm split: sum.split prod.split)

lemma calm_tenant_tokens:
  "tx_rel sess_calm s (IssueToken env said label ttl s)" "tx_rel acc_calm s (IssueToken env said label ttl s)"
  "tx_rel sess_calm s (ReissueInvite env mid s)" "tx_rel acc_calm s (ReissueInvite env mid s)"
  by (auto simp: IssueToken_def ReissueInvite_def Let_def intro!: sc_rules ac_rules calm split: option.split sum.split prod.split)

lemma calm_email_taken [calm]: "tx_rel R s r \<Longrightarrow> tx_rel R s (email_taken r)"
  by (auto simp: email_taken_def tx_rel_def split: sum.splits app_error.splits if_splits)

lemma calm_finish [calm]:
  "tx_rel sess_calm s (finishGrantChange env tenant m s)" "tx_rel acc_calm s (finishGrantChange env tenant m s)"
  by (auto simp: finishGrantChange_def intro!: sc_rules ac_rules calm split: prod.split)

lemma calm_revocation [calm]:
  "tx_rel sess_calm s (recordCredentialRevocation env m r s)" "tx_rel acc_calm s (recordCredentialRevocation env m r s)"
  "tx_rel sess_calm s (revoke_credentials env tenant mid s)" "tx_rel acc_calm s (revoke_credentials env tenant mid s)"
  by (auto simp: recordCredentialRevocation_def revoke_credentials_def intro!: sc_rules ac_rules calm split: option.split prod.split)

lemma calm_members:
  "tx_rel sess_calm s (Invite env inp s)" "tx_rel sess_calm s (SetRole env mid gi s)" "tx_rel sess_calm s (AddGrant env mid gi s)"
  "tx_rel sess_calm s (RemoveGrant env mid g s)" "tx_rel sess_calm s (CreateServiceAccount env nm role scp s)"
  "tx_rel sess_calm s (UpdateMember env mid nm st s)"
  by (auto simp: Invite_def SetRole_def AddGrant_def RemoveGrant_def CreateServiceAccount_def UpdateMember_def
      intro!: sc_rules calm split: prod.split)

text \<open>The requests that own their transactions.\<close>

lemma sess_calm_notes: "sess_calm s s1 \<Longrightarrow> sess_calm s (note_event env e s1)"
  using sc.R_trans calm_note(1) by blast

lemma acc_calm_notes: "acc_calm s s1 \<Longrightarrow> acc_calm s (note_event env e s1)"
  using ac.R_trans calm_note(2) by blast

lemmas calm_notes = sess_calm_notes acc_calm_notes

lemma sess_calm_touches:
  "sess_calm s (snd (Touch env sid idle s))"
  "sess_calm s (snd (CompleteMFA env sid h idle absolute s))"
  "sess_calm s (snd (TouchLastUsed env tid now s))"
  "sess_calm s (snd (autocommit env n (sessions_Revoke env sid) s))"
  unfolding Touch_def CompleteMFA_def TouchLastUsed_def sessions_Revoke_def
  by (rule sc.auto_stmt; simp add: calm_update_sessions same_session_def)+

lemma acc_calm_touches:
  "acc_calm s (snd (Touch env sid idle s))"
  "acc_calm s (snd (CompleteMFA env sid h idle absolute s))"
  "acc_calm s (snd (TouchLastUsed env tid now s))"
  "acc_calm s (snd (autocommit env n (sessions_Revoke env sid) s))"
  unfolding Touch_def CompleteMFA_def TouchLastUsed_def sessions_Revoke_def
  by (rule ac.auto_stmt; simp add: calm_update_sessions)+

lemmas calm_touches = sess_calm_touches acc_calm_touches

lemma calm_authenticate:
  "sess_calm s (snd (Authenticate env token s))" "acc_calm s (snd (Authenticate env token s))"
  "sess_calm s (snd (AuthenticateToken env raw s))" "acc_calm s (snd (AuthenticateToken env raw s))"
  by (auto simp: Authenticate_def AuthenticateToken_def noteTokenRejected_def Let_def sc.R_refl ac.R_refl
      intro!: calm_touches calm_notes split: sum.split option.split)

lemma calm_totp_tx: "sess_calm s (snd (totp_tx env uid sid enc en s))" "acc_calm s (snd (totp_tx env uid sid enc en s))"
  unfolding totp_tx_def
  by (auto intro!: sc.whole_tx ac.whole_tx sc_rules ac_rules calm split: prod.split)

lemma calm_destroy:
  "sess_calm s (destroyEnrollment env x uid s)" "acc_calm s (destroyEnrollment env x uid s)"
  "sess_calm s (destroyPendingSession env x s)" "acc_calm s (destroyPendingSession env x s)"
  using calm_totp_tx [of s env uid "ss_ID x" None False] sess_calm_touches(4) [of s env "''sessions.Revoke''" "ss_ID x"] acc_calm_touches(4) [of s env "''sessions.Revoke''" "ss_ID x"]
  by (auto simp: destroyEnrollment_def destroyPendingSession_def intro!: calm_notes split: prod.split sum.split)

lemma calm_enable:
  "sess_calm s (snd (enable_finish env x u spent ok s))" "acc_calm s (snd (enable_finish env x u spent ok s))"
  "sess_calm s (enable_refused env x u s)" "acc_calm s (enable_refused env x u s)"
  "sess_calm s (verify_refused env x s)" "acc_calm s (verify_refused env x s)"
  by (auto simp: enable_finish_def enable_refused_def verify_refused_def noteMFAFailure_def sc.R_refl ac.R_refl
      intro!: calm_notes calm_destroy sc.seqS ac.seqS calm_totp_tx calm_note split: sum.split bool.split)

lemma calm_verify:
  "sess_calm s (snd (verify_finish env x now u spent ok s))" "acc_calm s (snd (verify_finish env x now u spent ok s))"
  "sess_calm s (snd (verify_find env token now s))" "acc_calm s (snd (verify_find env token now s))"
  "sess_calm s (snd (enable_find env token s))" "acc_calm s (snd (enable_find env token s))"
  by (auto simp: verify_finish_def verify_find_def enable_find_def fullSession_def noteMFAFailure_def sc.R_refl ac.R_refl
      intro!: calm_notes calm_destroy sc.seqS ac.seqS calm_touches calm_authenticate calm_note split: sum.split bool.split option.split prod.split)

lemma calm_consume:
  "sess_calm s (snd (consumeMFAAttempt env sid s))" "acc_calm s (snd (consumeMFAAttempt env sid s))"
proof -
  have "sess_calm s (snd (ConsumeMFAAttempt env sid n s)) \<and> acc_calm s (snd (ConsumeMFAAttempt env sid n s))" for n
    by (auto simp: ConsumeMFAAttempt_def sc.R_refl ac.R_refl charge_mfa_def same_session_def intro!: sc.auto_stmt ac.auto_stmt calm_update_sessions split: option.split)
  then show "sess_calm s (snd (consumeMFAAttempt env sid s))" "acc_calm s (snd (consumeMFAAttempt env sid s))"
    by (auto simp: consumeMFAAttempt_def split: prod.split sum.split) (metis snd_conv)+
qed

lemma calm_mfa_step: "sess_calm s (snd (mfa_step env p s))" "acc_calm s (snd (mfa_step env p s))"
proof -
  have "sess_calm s (snd (mfa_step env p s)) \<and> acc_calm s (snd (mfa_step env p s))"
  proof (cases p)
    case (VerifyArrived token code now)
    then show ?thesis using calm_verify(3,4) [of s env token now] by (auto split: prod.split sum.split)
  next
    case (VerifyFound code now x)
    then show ?thesis using calm_consume [of s env "ss_ID x"] by (auto split: prod.split)
  next
    case (VerifyCharged code now x allowed spent)
    then show ?thesis using calm_enable(5,6) [of s env x]
      by (auto simp: sc.R_refl ac.R_refl noteMFAFailure_def intro!: calm_notes split: sum.split option.split)
  next
    case (VerifyChecked now x u spent ok)
    then show ?thesis using calm_verify(1,2) [of s env x now u spent ok] by (auto split: prod.split)
  next
    case (EnableArrived token code)
    then show ?thesis using calm_verify(5,6) [of s env token] by (auto split: prod.split sum.split)
  next
    case (EnableFound code x u)
    then show ?thesis using calm_consume [of s env "ss_ID x"] by (auto split: prod.split)
  next
    case (EnableCharged code x u allowed spent)
    then show ?thesis using calm_enable(3,4) [of s env x u] by (auto simp: sc.R_refl ac.R_refl)
  next
    case (EnableChecked x u spent ok)
    then show ?thesis using calm_enable(1,2) [of s env x u spent ok] by (auto split: prod.split)
  qed (simp_all add: sc.R_refl ac.R_refl)
  then show "sess_calm s (snd (mfa_step env p s))" "acc_calm s (snd (mfa_step env p s))" by simp_all
qed

end
