(* ===== verification/IdentityWorld.thy ===== *)
theory IdentityWorld
  imports Credentials
begin

text \<open>
  Every write of the identity component as one step relation (\<open>identity_step\<close>), and what holds
  after any sequence of steps: each session has the record of the sign-in that minted it, a
  revoked credential never works again, a tenant keeps an administrator, an invitation is
  redeemed once.

  A step is one statement or one transaction. Sign-ins, second factors and redemptions carry what
  they read earlier as an argument that need not be true any more, so a step covers every stale
  request. A request on a tenant route is one transaction; those that change who administers take
  the tenant's advisory lock before they write, and are one step here. The other tenant requests hold
  no lock, and the database runs READ COMMITTED: a token or an invitation issued while a disable of the
  same member is between its revocations and its commit is an overlap these steps leave out.
\<close>

section \<open>Requests on the tenant's routes\<close>

datatype tenant_op =
  DoLogout string
| DoLogoutAll string
| DoEnroll string
| DoInvite create_member_input
| DoReissueInvite string
| DoUpdateMember string string string
| DoSetRole string grant_input
| DoAddGrant string grant_input
| DoRemoveGrant string string
| DoCreateServiceAccount string string "string option"
| DoIssueToken string string int
| DoRevokeToken string

definition answered :: "('a \<times> ident) app \<Rightarrow> (unit \<times> ident) app" where
  "answered r = andthen r (\<lambda>(_, s). Inr ((), s))"

fun tenant_run :: "ident_env \<Rightarrow> tenant_op \<Rightarrow> ident \<Rightarrow> (unit \<times> ident) app" where
  "tenant_run env (DoLogout token) s = Logout env token s"
| "tenant_run env (DoLogoutAll uid) s = LogoutAll env uid s"
| "tenant_run env (DoEnroll uid) s = answered (MfaEnroll env uid s)"
| "tenant_run env (DoInvite input) s = answered (Invite env input s)"
| "tenant_run env (DoReissueInvite mid) s = answered (ReissueInvite env mid s)"
| "tenant_run env (DoUpdateMember mid name status) s = answered (UpdateMember env mid name status s)"
| "tenant_run env (DoSetRole mid input) s = answered (SetRole env mid input s)"
| "tenant_run env (DoAddGrant mid input) s = answered (AddGrant env mid input s)"
| "tenant_run env (DoRemoveGrant mid gid) s = RemoveGrant env mid gid s"
| "tenant_run env (DoCreateServiceAccount name role scope) s = answered (CreateServiceAccount env name role scope s)"
| "tenant_run env (DoIssueToken said label ttl) s = answered (IssueToken env said label ttl s)"
| "tenant_run env (DoRevokeToken tid) s = RevokeToken env tid s"

text \<open>The middleware's transaction: an answer of 400 or more rolls back.\<close>

definition tenant_request :: "ident_env \<Rightarrow> tenant_op \<Rightarrow> ident \<Rightarrow> unit app \<times> ident" where
  "tenant_request env p = withinTx env (tenant_run env p)"

section \<open>Steps\<close>

text \<open>A sign-in runs with a recorder of security events.\<close>

definition recorder_wired :: "ident_env \<Rightarrow> bool" where
  "recorder_wired env \<longleftrightarrow> ix_Events env \<noteq> None"

inductive identity_step :: "ident \<Rightarrow> ident \<Rightarrow> bool" where
  sign_in: "recorder_wired env \<Longrightarrow> identity_step s (snd (login_step env p s))"
| second_factor: "identity_step s (snd (mfa_step env q s))"
| request: "identity_step s (snd (tenant_request env r s))"
| cookie: "identity_step s (snd (Authenticate env token s))"
| machine: "identity_step s (snd (AuthenticateToken env raw s))"
| invitation: "identity_step s (snd (accept_find env raw s))"
| redemption: "identity_step s (snd (accept_commit env input t u s))"

inductive_cases identity_stepE: "identity_step s s'"

text \<open>A relation every kind of step keeps, from the relations of its parts.\<close>

lemma tenant_calm: "sess_calm s (snd (tenant_request env p s))"
proof -
  have "tx_rel sess_calm s (answered r) = tx_rel sess_calm s r" for r :: "('a \<times> ident) app" and s
    by (cases r) (auto simp: answered_def tx_rel_def)
  note this [simp]
  have "tx_rel sess_calm s (tenant_run env p s)" for s
    by (cases p) (simp_all add: calm_tenant_sessions calm_tenant_tokens calm_members)
  then show ?thesis unfolding tenant_request_def by (rule sc.whole_tx)
qed

lemma invitation_calm:
  "sess_calm s (snd (accept_find env raw s))" "acc_calm s (snd (accept_find env raw s))"
  "sess_calm s (snd (accept_commit env input t u s))"
proof -
  show "sess_calm s (snd (accept_find env raw s))" "acc_calm s (snd (accept_find env raw s))"
    by (auto simp: accept_find_def noteInviteRejected_def sc.R_refl ac.R_refl intro!: calm_notes split: sum.split option.split)
  have "sess_calm s (snd (withinTx env (accept_tx env t u hash name) s))" for hash name
    by (rule sc.whole_tx) (auto simp: accept_tx_def invite_invalid_def intro!: sc_rules calm)
  then show "sess_calm s (snd (accept_commit env input t u s))"
    by (auto simp: accept_commit_def noteInviteRejected_def Let_def sc.R_refl intro!: calm_notes split: sum.split prod.split)
      (metis snd_conv)+
qed

lemma login_tx_rest:
  assumes "login_tx env input u s = Inr (token, s')"
  shows "id_Tokens s' = id_Tokens s \<and> id_Invites s' = id_Invites s \<and> id_Grants s' = id_Grants s \<and>
    map standing (id_Users s') = map standing (id_Users s)"
proof -
  have "map standing (id_Users s') = map standing (id_Users s)"
    using login_tx_Inr [OF assms] by (auto simp: update_user_def cleared_counter_def standing_def)
  with assms show ?thesis
    by (auto simp: login_tx_def andthen_Inr ResetFailedLogin_def in_tx_Inr dest!: createSession_Inr tx_Record_Inr)
qed

text \<open>A sign-in adds a session with its record, or is calm.\<close>

definition signs_in :: "ident_env \<Rightarrow> ident \<Rightarrow> ident \<Rightarrow> bool" where
  "signs_in env s s' \<longleftrightarrow> (\<exists>input u token. minted env input u token s s' \<and> acc_calm s s' \<and>
     id_Tokens s' = id_Tokens s \<and> id_Invites s' = id_Invites s)"

lemma calm_login_charge: "sess_calm s (snd (login_charge env user now s))" "acc_calm s (snd (login_charge env user now s))"
proof -
  have "sess_calm s (snd (ConsumeLoginAttempt env uid n a b s)) \<and> acc_calm s (snd (ConsumeLoginAttempt env uid n a b s))" for uid n a b
    by (auto simp: ConsumeLoginAttempt_def Let_def sc.R_refl ac.R_refl charge_row_def standing_def
        intro!: sc.auto_stmt ac.auto_stmt calm_update_user split: option.split)
  then have "sess_calm s (snd (consumeAttempt env uid now s)) \<and> acc_calm s (snd (consumeAttempt env uid now s))" for uid
    by (auto simp: consumeAttempt_def split: prod.split sum.split) (metis snd_conv)+
  then show "sess_calm s (snd (login_charge env user now s))" "acc_calm s (snd (login_charge env user now s))"
    by (auto simp: login_charge_def sc.R_refl ac.R_refl)
qed

lemma calm_refusal: "sess_calm s (noteLoginRefusal env email user c chg s)" "acc_calm s (noteLoginRefusal env email user c chg s)"
  by (simp_all add: noteLoginRefusal_def calm_notes calm_note sc.R_refl ac.R_refl)

lemma login_step_store: "sess_calm s (snd (login_step env p s)) \<and> acc_calm s (snd (login_step env p s)) \<or> signs_in env s (snd (login_step env p s))"
proof (cases p)
  case (LoginVerified input user chg ok)
  obtain r s' where fin: "login_finish env input user chg ok s = (r, s')" by fastforce
  have "sess_calm s s' \<and> acc_calm s s' \<or> signs_in env s s'"
  proof (cases "\<not> loginCapable user \<or> \<not> ch_allowed chg \<or> \<not> ok")
    case True
    with fin show ?thesis using calm_refusal by (auto simp: login_finish_def)
  next
    case False
    obtain rc s3 where c: "login_commit env input (the user) s = (rc, s3)" by fastforce
    with False fin have s3: "s' = s3" by (cases rc) (auto simp: login_finish_def)
    from withinTx_store [OF c [unfolded login_commit_def]] have "s3 = s \<or> (\<exists>token. login_tx env input (the user) s = Inr (token, s3))" .
    then show ?thesis
    proof (elim disjE exE)
      fix token assume tx: "login_tx env input (the user) s = Inr (token, s3)"
      with login_tx_Inr [OF tx] login_tx_rest [OF tx] s3 show ?thesis by (auto simp: signs_in_def acc_calm_def)
    qed (simp add: s3 sc.R_refl ac.R_refl)
  qed
  with fin LoginVerified show ?thesis by simp
next
  case (LoginFound input now user)
  with calm_login_charge [of s env user now] show ?thesis by (auto split: prod.split)
qed (auto simp: sc.R_refl ac.R_refl split: sum.split prod.split)

lemma step_store:
  assumes "identity_step s s'"
  shows "sess_calm s s' \<or> (\<exists>env. recorder_wired env \<and> signs_in env s s')"
  using assms
proof cases
  case (sign_in env p)
  with login_step_store [of s env p] show ?thesis by blast
next
  case (second_factor env q)
  with calm_mfa_step(1) [of s env q] show ?thesis by simp
next
  case (request env r)
  with tenant_calm [of s env r] show ?thesis by simp
next
  case (cookie env token)
  with calm_authenticate(1) [of s env token] show ?thesis by simp
next
  case (machine env raw)
  with calm_authenticate(3) [of s env raw] show ?thesis by simp
next
  case (invitation env raw)
  with invitation_calm(1) [of s env raw] show ?thesis by simp
next
  case (redemption env input t u)
  with invitation_calm(3) [of s env input t u] show ?thesis by simp
qed

section \<open>Every session has its record\<close>

definition sign_in_of :: "session \<Rightarrow> security_entry \<Rightarrow> bool" where
  "sign_in_of x e \<longleftrightarrow> ev_Event e = ''auth.login.succeeded'' \<and> ev_Outcome e = ''success'' \<and> ev_SessionID e = nilIfEmpty (ss_ID x) \<and>
     ev_PrincipalID e = nilIfEmpty (ss_UserID x) \<and> ev_TenantID e = nilIfEmpty (ss_TenantID x)"

definition all_recorded :: "ident \<Rightarrow> bool" where
  "all_recorded s \<longleftrightarrow> list_all (\<lambda>x. list_ex (sign_in_of x) (id_Events s)) (id_Sessions s)"

lemma all_recorded_calm:
  assumes calm: "sess_calm s s'" and rec: "all_recorded s"
  shows "all_recorded s'"
  unfolding all_recorded_def list_all_length
proof (intro allI impI)
  fix i assume i: "i < length (id_Sessions s')"
  with calm have same: "same_session (id_Sessions s ! i) (id_Sessions s' ! i)" and "i < length (id_Sessions s)"
    by (simp_all add: sess_calm_def list_all2_conv_all_nth)
  with rec obtain e where e: "e \<in> set (id_Events s)" "sign_in_of (id_Sessions s ! i) e"
    by (auto simp: all_recorded_def list_all_length list_ex_iff)
  then have "e \<in> set (id_Events s')" "sign_in_of (id_Sessions s' ! i) e"
    using calm same by (auto simp: sess_calm_def same_session_def sign_in_of_def)
  then show "list_ex (sign_in_of (id_Sessions s' ! i)) (id_Events s')" by (auto simp: list_ex_iff)
qed

lemma all_recorded_sign_in:
  assumes "recorder_wired env" and "signs_in env s s'" and "all_recorded s"
  shows "all_recorded s'"
proof -
  from assms(1,2) obtain ctx u x where sess: "id_Sessions s' = id_Sessions s @ [x]" "ss_UserID x = us_ID u" "ss_TenantID x = us_TenantID u"
    and ev: "id_Events s' = id_Events s @ [event_row ctx (login_succeeded_event u x)]"
    by (auto simp: recorder_wired_def signs_in_def minted_def)
  then have "sign_in_of x (event_row ctx (login_succeeded_event u x))"
    by (simp add: sign_in_of_def event_row_def login_succeeded_event_def blank_event_def)
  with sess(1) ev assms(3) show ?thesis by (auto simp: all_recorded_def list_all_iff list_ex_iff)
qed

text \<open>Whatever requests run and fail, in any order, every session in the table has the security
  event of the sign-in that minted it, with its account and its tenant, as long as the ones that
  were there had theirs.\<close>

theorem sessions_recorded:
  assumes "identity_step\<^sup>*\<^sup>* s s'" and "all_recorded s"
  shows "all_recorded s'"
  using assms
  by induction (use step_store all_recorded_calm all_recorded_sign_in in blast)+

text \<open>The sign-in of the example mints a session, with its record.\<close>

definition signed_in_ident :: ident where
  "signed_in_ident = snd (login_step example_env
     (LoginVerified example_login (Some example_user) \<lparr>ch_allowed = True, ch_engaged = False, ch_failed = False\<rparr> True) example_ident)"

theorem sessions_recorded_witness:
  "map ss_UserID (id_Sessions signed_in_ident) = [''u1''] \<and> all_recorded signed_in_ident"
proof
  have "identity_step example_ident signed_in_ident"
    unfolding signed_in_ident_def by (rule identity_step.sign_in) (simp add: recorder_wired_def example_env_def)
  then have run: "identity_step\<^sup>*\<^sup>* example_ident signed_in_ident" by blast
  show "all_recorded signed_in_ident"
    by (rule sessions_recorded [OF run]) (simp add: all_recorded_def example_ident_def)
qed code_simp

end
