(* ===== verification/IdentityAccess.thy ===== *)
theory IdentityAccess
  imports IdentityWorld
begin

text \<open>
  What a disable, a redemption and an issued token are worth later: a revoked credential never
  works again, an invitation is redeemed once, a token works until it expires or is revoked.
\<close>

section \<open>What a disable takes away\<close>

text \<open>Recording leaves the tables of the component alone.\<close>

definition same_tables :: "ident \<Rightarrow> ident \<Rightarrow> bool" where
  "same_tables s s' \<longleftrightarrow> id_Users s' = id_Users s \<and> id_Sessions s' = id_Sessions s \<and> id_Tokens s' = id_Tokens s \<and>
     id_Invites s' = id_Invites s \<and> id_Grants s' = id_Grants s"

interpretation st: store_relation same_tables
  by unfold_locales (simp_all add: same_tables_def)

lemma recording_keeps_tables [calm]:
  "tx_rel same_tables s (audit_tx env a t i d s)" "tx_rel same_tables s (tx_note env e s)"
proof -
  show "tx_rel same_tables s (audit_tx env a t i d s)"
    by (auto simp: audit_tx_def st.R_refl intro!: st.tx_ret st.tx_stmt st.tx_err split: sum.split) (simp add: same_tables_def)
  have "same_tables s s'" if "tx_Record env e s = Inr ((), s')" for s'
    using tx_Record_Inr [OF that] by (auto simp: same_tables_def)
  then show "tx_rel same_tables s (tx_note env e s)"
    by (auto simp: tx_note_def tx_rel_def st.R_refl)
qed

lemma revocation_record_keeps_tables: "tx_rel same_tables s (recordCredentialRevocation env m r s)"
  by (auto simp: recordCredentialRevocation_def intro!: st.tx_seq st.tx_ret st.R_refl calm split: option.split prod.split)

lemma audit_tables: "audit_tx env a t i d s = Inr ((), s') \<Longrightarrow> same_tables s s'"
  using recording_keeps_tables(1) [of s env a t i d] by (simp add: tx_rel_def)

lemma mustMember_Inr:
  assumes "mustMember env s tenant mid = Inr m"
  shows "mb_ID m = mid \<and> (\<exists>u. find (\<lambda>u. us_ID u = mid \<and> us_TenantID u = tenant) (id_Users s) = Some u \<and> mb_Kind m = us_Kind u \<and>
     mb_Status m = us_Status u \<and> mb_HasPassword m = (us_PasswordHash u \<noteq> None))"
proof -
  have "members_GetByID env s tenant mid = Inr (Some m)"
    using assms by (auto simp: mustMember_def andthen_Inr split: option.splits)
  then obtain u ms where u: "find (\<lambda>u. us_ID u = mid \<and> us_TenantID u = tenant) (id_Users s) = Some u"
    and ms: "attachGrants env s [member_of u] = Inr ms" "m = hd ms"
    by (auto simp: members_GetByID_def andthen_Inr read_stmt_def split: option.splits)
  from ms obtain gs where "m = (member_of u)\<lparr>mb_Grants := gs\<rparr>"
    by (auto simp: attachGrants_def andthen_Inr read_stmt_def split: option.splits)
  moreover from u have "us_ID u = mid" by (auto simp: find_Some_iff)
  ultimately show ?thesis using u by (simp add: member_of_def)
qed

text \<open>No credential of the member is left, and the account is off.\<close>

definition without_credentials :: "ident \<Rightarrow> string \<Rightarrow> bool" where
  "without_credentials s uid \<longleftrightarrow>
     list_all (\<lambda>x. ss_UserID x = uid \<longrightarrow> ss_RevokedAt x \<noteq> None) (id_Sessions s) \<and>
     list_all (\<lambda>t. tk_UserID t = uid \<longrightarrow> tk_RevokedAt t \<noteq> None) (id_Tokens s) \<and>
     list_all (\<lambda>i. it_UserID i = uid \<longrightarrow> it_AcceptedAt i \<noteq> None \<or> it_RevokedAt i \<noteq> None) (id_Invites s)"

definition has_admin :: "ident \<Rightarrow> string \<Rightarrow> bool" where
  "has_admin s tenant \<longleftrightarrow> list_ex (active_admin s tenant) (id_Users s)"

lemma has_admin_same: "same_tables s s' \<Longrightarrow> has_admin s tenant \<longleftrightarrow> has_admin s' tenant"
  by (simp add: same_tables_def has_admin_def active_admin_def [abs_def])

lemma ensure_admin: "ensureTenantAdminRemains env s tenant = Inr () \<Longrightarrow> has_admin s tenant"
  by (auto simp: ensureTenantAdminRemains_def CountActiveTenantAdmins_def andthen_Inr read_stmt_def has_admin_def list_ex_iff filter_empty_conv
      split: option.splits if_splits)

lemma revoke_credentials_Inr:
  assumes "revoke_credentials env tenant uid s = Inr (r, s')"
  shows "without_credentials s' uid \<and> id_Users s' = id_Users s \<and> id_Grants s' = id_Grants s \<and> has_admin s' tenant"
proof -
  obtain s1 s2 where s1: "sessions_RevokeAllForUser env uid s = Inr (rv_Sessions r, s1)"
    and s2: "tokens_RevokeAllForUser env uid s1 = Inr (rv_APITokens r, s2)"
    and s3: "RevokeUnusedForUser env uid s2 = Inr (rv_Invites r, s')" and adm: "ensureTenantAdminRemains env s' tenant = Inr ()"
    using assms by (auto simp: revoke_credentials_def andthen_Inr)
  from s1 have 1: "s1 = revoked_where env (\<lambda>x. ss_UserID x = uid) s" by (simp add: sessions_RevokeAllForUser_def in_tx_Inr)
  from s2 have 2: "s2 = update_tokens (\<lambda>t. tk_UserID t = uid) (revoke_token (ix_DbNow env)) s1"
    by (simp add: tokens_RevokeAllForUser_def in_tx_Inr)
  from s3 have 3: "s' = update_invites (unused_of uid) (\<lambda>t. t\<lparr>it_RevokedAt := Some (ix_DbNow env)\<rparr>) s2"
    by (simp add: RevokeUnusedForUser_def in_tx_Inr)
  have "id_Users s' = id_Users s" "id_Grants s' = id_Grants s"
    unfolding 1 2 3 by (simp_all add: update_invites_def update_tokens_def revoked_where_def)
  moreover have "list_all (\<lambda>x. ss_UserID x = uid \<longrightarrow> ss_RevokedAt x \<noteq> None) (id_Sessions s')"
    unfolding 1 2 3 by (simp add: update_invites_def update_tokens_def revoked_where_def update_sessions_def revoke_session_def list_all_length)
  moreover have "list_all (\<lambda>t. tk_UserID t = uid \<longrightarrow> tk_RevokedAt t \<noteq> None) (id_Tokens s')"
    unfolding 2 3 by (simp add: update_invites_def update_tokens_def revoke_token_def list_all_length)
  moreover have "list_all (\<lambda>i. it_UserID i = uid \<longrightarrow> it_AcceptedAt i \<noteq> None \<or> it_RevokedAt i \<noteq> None) (id_Invites s')"
    unfolding 3 by (simp add: update_invites_def unused_of_def list_all_length)
  ultimately show ?thesis using ensure_admin [OF adm] unfolding without_credentials_def by blast
qed

lemma disable_Inr:
  assumes "UpdateMember env mid name ''disabled'' s = Inr (m, s')"
  shows "without_credentials s' mid \<and> has_admin s' (ctx_tenant env) \<and> id_Grants s' = id_Grants s \<and>
     id_Users s' = map (\<lambda>u. if us_ID u = mid \<and> us_TenantID u = ctx_tenant env
        then u\<lparr>us_Name := name, us_Status := ''disabled'', us_UpdatedAt := ix_DbNow env\<rparr> else u) (id_Users s)"
proof -
  obtain m0 ok s1 r s2 s3 where m0: "mustMember env s (ctx_tenant env) mid = Inr m0"
    and s1: "UpdateNameStatus env (ctx_tenant env) (mb_ID m0) name ''disabled'' s = Inr (ok, s1)"
    and s2: "revoke_credentials env (ctx_tenant env) (mb_ID m0) s1 = Inr (r, s2)"
    and s3: "audit_tx env ''member.updated'' ''user'' (mb_ID m0) (Changes (auditMemberValues m0) (auditMemberValues m)) s2 = Inr ((), s3)"
    and s4: "recordCredentialRevocation env m (Some r) s3 = Inr ((), s')"
    using assms by (auto simp: UpdateMember_def andthen_Inr requireTenant_def update_status_def split: if_splits)
  have "same_tables s2 s3" by (rule audit_tables [OF s3])
  moreover have "same_tables s3 s'" using revocation_record_keeps_tables [of s3 env m "Some r"] s4 by (simp add: tx_rel_def)
  ultimately have same: "same_tables s2 s'" by (rule st.R_trans)
  have id: "mb_ID m0 = mid" using mustMember_Inr [OF m0] by simp
  have s1': "s1 = s\<lparr>id_Users := map (\<lambda>u. if us_ID u = mid \<and> us_TenantID u = ctx_tenant env
        then u\<lparr>us_Name := name, us_Status := ''disabled'', us_UpdatedAt := ix_DbNow env\<rparr> else u) (id_Users s)\<rparr>"
    using s1 unfolding id UpdateNameStatus_def in_tx_Inr by simp
  from revoke_credentials_Inr [OF s2] id s1' have 2: "without_credentials s2 mid" "has_admin s2 (ctx_tenant env)"
    "id_Users s2 = id_Users s1" "id_Grants s2 = id_Grants s" by simp_all
  from same 2(1) have "without_credentials s' mid" by (simp add: same_tables_def without_credentials_def)
  moreover from same 2(2) have "has_admin s' (ctx_tenant env)" by (rule has_admin_same [THEN iffD1])
  moreover from same 2 s1' have "id_Grants s' = id_Grants s" "id_Users s' = id_Users s1" by (simp_all add: same_tables_def)
  ultimately show ?thesis using s1' by simp
qed

section \<open>Revocation is for ever\<close>

definition credentials_kept :: "ident \<Rightarrow> ident \<Rightarrow> bool" where
  "credentials_kept s s' \<longleftrightarrow> grown same_session (id_Sessions s) (id_Sessions s') \<and>
     grown same_token (id_Tokens s) (id_Tokens s') \<and> grown same_invite (id_Invites s) (id_Invites s')"

lemma same_trans:
  "same_session x y \<Longrightarrow> same_session y z \<Longrightarrow> same_session x z"
  "same_token t v \<Longrightarrow> same_token v w \<Longrightarrow> same_token t w"
  "same_invite i j \<Longrightarrow> same_invite j k \<Longrightarrow> same_invite i k"
  by (auto simp: same_session_def same_token_def same_invite_def)

lemma grown_same_trans:
  "grown same_session xs ys \<Longrightarrow> grown same_session ys zs \<Longrightarrow> grown same_session xs zs"
  "grown same_token ts us \<Longrightarrow> grown same_token us vs \<Longrightarrow> grown same_token ts vs"
  "grown same_invite is js \<Longrightarrow> grown same_invite js ks \<Longrightarrow> grown same_invite is ks"
  by (erule grown_trans [rotated], assumption, erule (1) same_trans)+

lemma credentials_kept_trans: "credentials_kept s s1 \<Longrightarrow> credentials_kept s1 s2 \<Longrightarrow> credentials_kept s s2"
  unfolding credentials_kept_def using grown_same_trans by blast

lemma step_credentials: "identity_step s s' \<Longrightarrow> credentials_kept s s'"
proof (drule step_store, elim disjE exE conjE)
  assume calm: "sess_calm s s'"
  then have "grown same_session (id_Sessions s) (id_Sessions s')"
    using list_all2_lengthD [of same_session "id_Sessions s" "id_Sessions s'"] by (simp add: sess_calm_def grown_def)
  with calm show ?thesis by (simp add: sess_calm_def credentials_kept_def)
next
  fix env assume "signs_in env s s'"
  then show ?thesis by (auto simp: signs_in_def minted_def credentials_kept_def)
qed

lemma run_credentials: "identity_step\<^sup>*\<^sup>* s s' \<Longrightarrow> credentials_kept s s'"
proof (induction rule: rtranclp_induct)
  case base
  show ?case by (simp add: credentials_kept_def)
next
  case (step y z)
  then show ?case using step_credentials credentials_kept_trans by blast
qed

lemma grown_cases:
  assumes "grown K xs ys" and "y \<in> set ys"
  obtains (old) x where "x \<in> set xs" "K x y" | (new) "y \<in> set (drop (length xs) ys)"
proof -
  from assms(2) have "y \<in> set (take (length xs) ys) \<or> y \<in> set (drop (length xs) ys)"
    by (metis Un_iff append_take_drop_id set_append)
  then show thesis
  proof
    assume "y \<in> set (take (length xs) ys)"
    with assms(1) obtain i where "i < length xs" "K (xs ! i) y"
      by (auto simp: grown_def list_all2_conv_all_nth in_set_conv_nth)
    then have "xs ! i \<in> set xs" "K (xs ! i) y" by simp_all
    then show thesis by (rule old)
  qed (rule new)
qed

lemma user_row_ID: "user_row s uid = Some u \<Longrightarrow> us_ID u = uid"
  by (auto simp: user_row_def find_Some_iff)

lemma Authenticate_Inr:
  assumes "fst (Authenticate env token s) = Inr (x, u)"
  shows "us_ID u = ss_UserID x \<and> us_IsActive u \<and> (\<exists>y\<in>set (id_Sessions s). ss_RevokedAt y = None \<and> ss_ID y = ss_ID x \<and> ss_UserID y = ss_UserID x)"
  using assms
  by (auto simp: Authenticate_def sessions_GetByTokenHash_def users_GetByID_def read_stmt_def session_IsValid_def find_Some_iff Let_def
      dest: user_row_ID split: if_splits option.splits sum.splits intro!: nth_mem bexI)

lemma AuthenticateToken_Inr:
  assumes "fst (AuthenticateToken env raw s) = Inr (t, u)"
  shows "us_ID u = tk_UserID t \<and> us_IsActive u \<and> us_IsService u \<and> t \<in> set (id_Tokens s) \<and> tk_RevokedAt t = None \<and>
     tk_TokenHash t = ix_HashToken env raw"
  using assms
  by (auto simp: AuthenticateToken_def token_invalid_def tokens_GetByTokenHash_def users_GetByID_def read_stmt_def token_IsValid_def find_Some_iff
      dest: user_row_ID split: if_splits option.splits sum.splits)

lemma accept_find_Inr:
  assumes "fst (accept_find env raw s) = Inr (i, u)"
  shows "us_ID u = it_UserID i \<and> i \<in> set (id_Invites s) \<and> it_AcceptedAt i = None \<and> it_RevokedAt i = None"
  using assms
  by (auto simp: accept_find_def invite_invalid_def invites_GetByTokenHash_def users_GetByID_def read_stmt_def invite_IsUsable_def find_Some_iff
      dest: user_row_ID split: if_splits option.splits sum.splits)

text \<open>After a member was disabled, whatever requests follow, and also when the member is enabled
  again: no session, API token or invitation of the member that was there then opens anything any
  more, only one that was made later.\<close>

theorem disable_ends_access:
  assumes "tenant_request env (DoUpdateMember mid name ''disabled'') s = (Inr (), s1)" and "identity_step\<^sup>*\<^sup>* s1 s2"
  shows "(fst (Authenticate env2 token s2) = Inr (x, u) \<and> us_ID u = mid \<longrightarrow>
       list_ex (\<lambda>y. ss_ID y = ss_ID x) (drop (length (id_Sessions s1)) (id_Sessions s2))) \<and>
    (fst (AuthenticateToken env2 raw s2) = Inr (t, v) \<and> us_ID v = mid \<longrightarrow>
       t \<in> set (drop (length (id_Tokens s1)) (id_Tokens s2))) \<and>
    (fst (accept_find env2 code s2) = Inr (i, w) \<and> us_ID w = mid \<longrightarrow>
       i \<in> set (drop (length (id_Invites s1)) (id_Invites s2)))"
proof -
  from withinTx_Inr [OF assms(1) [unfolded tenant_request_def]] obtain m where "UpdateMember env mid name ''disabled'' s = Inr (m, s1)"
    by (auto simp: answered_def andthen_Inr)
  from disable_Inr [OF this] have off: "without_credentials s1 mid" by simp
  note kept = run_credentials [OF assms(2), unfolded credentials_kept_def]
  have "list_ex (\<lambda>y. ss_ID y = ss_ID x) (drop (length (id_Sessions s1)) (id_Sessions s2))"
    if "fst (Authenticate env2 token s2) = Inr (x, u)" "us_ID u = mid"
  proof -
    from Authenticate_Inr [OF that(1)] that(2) obtain y
      where y: "y \<in> set (id_Sessions s2)" "ss_RevokedAt y = None" "ss_ID y = ss_ID x" "ss_UserID y = mid" by auto
    from kept [THEN conjunct1] y(1) show ?thesis
    proof (cases rule: grown_cases)
      case (old z)
      with off y show ?thesis by (auto simp: without_credentials_def list_all_iff same_session_def)
    next
      case new
      with y(3) show ?thesis by (auto simp: list_ex_iff)
    qed
  qed
  moreover have "t \<in> set (drop (length (id_Tokens s1)) (id_Tokens s2))"
    if "fst (AuthenticateToken env2 raw s2) = Inr (t, v)" "us_ID v = mid"
  proof -
    from AuthenticateToken_Inr [OF that(1)] that(2) have t: "t \<in> set (id_Tokens s2)" "tk_RevokedAt t = None" "tk_UserID t = mid" by simp_all
    from kept [THEN conjunct2, THEN conjunct1] t(1) show ?thesis
      by (cases rule: grown_cases) (use off t in \<open>auto simp: without_credentials_def list_all_iff same_token_def\<close>)
  qed
  moreover have "i \<in> set (drop (length (id_Invites s1)) (id_Invites s2))"
    if "fst (accept_find env2 code s2) = Inr (i, w)" "us_ID w = mid"
  proof -
    from accept_find_Inr [OF that(1)] that(2)
    have i: "i \<in> set (id_Invites s2)" "it_AcceptedAt i = None" "it_RevokedAt i = None" "it_UserID i = mid" by simp_all
    from kept [THEN conjunct2, THEN conjunct2] i(1) show ?thesis
      by (cases rule: grown_cases) (use off i in \<open>auto simp: without_credentials_def list_all_iff same_invite_def\<close>)
  qed
  ultimately show ?thesis by blast
qed

section \<open>An invitation is redeemed once\<close>

lemma Activate_True:
  assumes "Activate env uid hash name s = Inr (True, s')"
  shows "id_Invites s' = id_Invites s \<and>
    list_ex (\<lambda>v. us_ID v = uid \<and> us_Status v = ''active'' \<and> us_PasswordHash v = Some hash) (id_Users s')"
proof -
  from assms obtain v where v: "v \<in> set (id_Users s)" "activatable uid v" by (auto simp: Activate_def in_tx_Inr list_ex_iff)
  let ?v = "v\<lparr>us_PasswordHash := Some hash, us_Status := ''active'', us_Name := (case name of None \<Rightarrow> us_Name v | Some n \<Rightarrow> n),
     us_FailedLoginAttempts := 0, us_LockedUntil := None, us_UpdatedAt := ix_DbNow env\<rparr>"
  from assms v have "?v \<in> set (id_Users s')" "id_Invites s' = id_Invites s" by (auto simp: Activate_def in_tx_Inr)
  moreover from v have "us_ID ?v = uid" "us_Status ?v = ''active''" "us_PasswordHash ?v = Some hash" by (simp_all add: activatable_def)
  ultimately show ?thesis unfolding list_ex_iff by blast
qed

lemma accept_tx_Inr:
  assumes "accept_tx env t u hash name s = Inr ((), s')"
  shows "list_ex (acceptable (it_ID t) (truncate_micro (ix_Now env))) (id_Invites s) \<and>
     list_ex (\<lambda>v. us_ID v = us_ID u \<and> us_Status v = ''active'' \<and> us_PasswordHash v = Some hash) (id_Users s') \<and>
     list_all (\<lambda>i. it_UserID i = us_ID u \<longrightarrow> it_AcceptedAt i \<noteq> None \<or> it_RevokedAt i \<noteq> None) (id_Invites s') \<and>
     length (id_Invites s') = length (id_Invites s) \<and>
     (\<forall>k<length (id_Invites s). it_ID (id_Invites s' ! k) = it_ID (id_Invites s ! k) \<and>
        (acceptable (it_ID t) (truncate_micro (ix_Now env)) (id_Invites s ! k) \<longrightarrow> it_AcceptedAt (id_Invites s' ! k) \<noteq> None))"
proof -
  let ?p = "acceptable (it_ID t) (truncate_micro (ix_Now env))"
  obtain s1 s2 n s3 where s1: "MarkAccepted env (it_ID t) (ix_Now env) s = Inr (True, s1)"
    and s2: "Activate env (us_ID u) hash name s1 = Inr (True, s2)"
    and s3: "RevokeUnusedForUser env (us_ID u) s2 = Inr (n, s3)"
    and tab: "same_tables s3 s'"
    using assms by (auto simp: accept_tx_def andthen_Inr invite_invalid_def dest!: audit_tables split: if_splits)
  from s1 have 1: "list_ex ?p (id_Invites s)" and s1': "s1 = update_invites ?p (\<lambda>t. t\<lparr>it_AcceptedAt := Some (truncate_micro (ix_Now env))\<rparr>) s"
    by (simp_all add: MarkAccepted_def in_tx_Inr)
  from Activate_True [OF s2] have "id_Invites s2 = id_Invites s1"
    and users: "list_ex (\<lambda>v. us_ID v = us_ID u \<and> us_Status v = ''active'' \<and> us_PasswordHash v = Some hash) (id_Users s2)"
    by simp_all
  from s3 have s3': "s3 = update_invites (unused_of (us_ID u)) (\<lambda>t. t\<lparr>it_RevokedAt := Some (ix_DbNow env)\<rparr>) s2"
    by (simp add: RevokeUnusedForUser_def in_tx_Inr)
  have inv: "id_Invites s' = id_Invites s3" and usr: "id_Users s' = id_Users s3" using tab by (simp_all add: same_tables_def)
  have "list_all (\<lambda>i. it_UserID i = us_ID u \<longrightarrow> it_AcceptedAt i \<noteq> None \<or> it_RevokedAt i \<noteq> None) (id_Invites s')"
    unfolding inv s3' by (simp add: update_invites_def unused_of_def list_all_length)
  moreover have "list_ex (\<lambda>v. us_ID v = us_ID u \<and> us_Status v = ''active'' \<and> us_PasswordHash v = Some hash) (id_Users s')"
    unfolding usr s3' using users by (simp add: update_invites_def)
  moreover have "length (id_Invites s') = length (id_Invites s) \<and>
     (\<forall>k<length (id_Invites s). it_ID (id_Invites s' ! k) = it_ID (id_Invites s ! k) \<and>
        (?p (id_Invites s ! k) \<longrightarrow> it_AcceptedAt (id_Invites s' ! k) \<noteq> None))"
    unfolding inv s3' using \<open>id_Invites s2 = id_Invites s1\<close> by (auto simp: s1' update_invites_def)
  ultimately show ?thesis using 1 by blast
qed

lemma accept_commit_Inr:
  assumes "accept_commit env input t u s = (Inr email, s')"
  obtains hash s1 where "ix_HashPassword env (ai_Password input) = Inr hash" "accept_tx env t u hash (ai_Name input) s = Inr ((), s1)"
    "id_Invites s' = id_Invites s1" "id_Users s' = id_Users s1"
  using assms by (auto simp: accept_commit_def Let_def dest!: withinTx_Inr split: sum.splits prod.splits)

text \<open>Redeeming an invitation makes the account active with the password that was given and ends
  every other invitation of the member; and however requests that had found it race or repeat,
  the invitation is never redeemed again.\<close>

theorem invitation_redeemed_once:
  assumes "accept_commit env input t u s = (Inr email, s1)" and "distinct (map it_ID (id_Invites s))"
    and "identity_step\<^sup>*\<^sup>* s1 s2" and "it_ID t \<notin> it_ID ` set (drop (length (id_Invites s1)) (id_Invites s2))"
  shows "(\<exists>hash. ix_HashPassword env (ai_Password input) = Inr hash \<and>
       list_ex (\<lambda>v. us_ID v = us_ID u \<and> us_Status v = ''active'' \<and> us_PasswordHash v = Some hash) (id_Users s1)) \<and>
     list_all (\<lambda>i. it_UserID i = us_ID u \<longrightarrow> it_AcceptedAt i \<noteq> None \<or> it_RevokedAt i \<noteq> None) (id_Invites s1) \<and>
     \<not> (it_ID t2 = it_ID t \<and> is_ok (fst (accept_commit env2 input2 t2 u2 s2)))"
proof -
  obtain hash s0 where hash: "ix_HashPassword env (ai_Password input) = Inr hash"
    and tx: "accept_tx env t u hash (ai_Name input) s = Inr ((), s0)" and tab: "id_Invites s1 = id_Invites s0" "id_Users s1 = id_Users s0"
    using assms(1) by (rule accept_commit_Inr)
  note done1 = accept_tx_Inr [OF tx]
  have used: "it_AcceptedAt i \<noteq> None" if i: "i \<in> set (id_Invites s1)" "it_ID i = it_ID t" for i
  proof -
    from i done1 obtain k where k: "k < length (id_Invites s)" "i = id_Invites s1 ! k" unfolding tab in_set_conv_nth by auto
    from done1 obtain l where l: "l < length (id_Invites s)" "acceptable (it_ID t) (truncate_micro (ix_Now env)) (id_Invites s ! l)"
      by (auto simp: list_ex_iff in_set_conv_nth)
    with done1 k i(2) tab have "map it_ID (id_Invites s) ! k = map it_ID (id_Invites s) ! l" by (simp add: acceptable_def)
    with assms(2) k(1) l(1) have "k = l" by (metis length_map nth_eq_iff_index_eq)
    with done1 k l tab show ?thesis by simp
  qed
  have "it_ID t2 \<noteq> it_ID t" if ok: "accept_commit env2 input2 t2 u2 s2 = (Inr e2, s3)" for e2 s3
  proof
    assume same: "it_ID t2 = it_ID t"
    obtain hash2 s4 where "accept_tx env2 t2 u2 hash2 (ai_Name input2) s2 = Inr ((), s4)"
      using ok by (rule accept_commit_Inr)
    from accept_tx_Inr [OF this] same obtain i where i: "i \<in> set (id_Invites s2)" "it_ID i = it_ID t" "it_AcceptedAt i = None"
      by (auto simp: list_ex_iff acceptable_def invite_IsUsable_def)
    from run_credentials [OF assms(3)] have "grown same_invite (id_Invites s1) (id_Invites s2)" by (simp add: credentials_kept_def)
    from this i(1) show False
    proof (cases rule: grown_cases)
      case (old j)
      with used [of j] i show ?thesis by (simp add: same_invite_def)
    next
      case new
      with i(2) assms(4) show ?thesis by (metis imageI)
    qed
  qed
  then have "\<not> (it_ID t2 = it_ID t \<and> is_ok (fst (accept_commit env2 input2 t2 u2 s2)))"
    by (cases "accept_commit env2 input2 t2 u2 s2"; cases "fst (accept_commit env2 input2 t2 u2 s2)") auto
  with hash done1 tab show ?thesis by simp
qed

section \<open>An issued token\<close>

lemma IssueToken_Inr:
  assumes "IssueToken env said label ttl s = Inr ((t, raw), s')"
  shows "id_Tokens s' = id_Tokens s @ [t] \<and> prefix TokenPrefix raw \<and> tk_TokenHash t = ix_HashToken env raw \<and> tk_UserID t = said \<and>
     tk_TenantID t = ctx_tenant env \<and> tk_RevokedAt t = None \<and> tk_ExpiresAt t = truncate_micro (ix_Now env + time24h (token_ttl ttl))"
proof -
  from assms have tenant: "ctx_tenant env \<noteq> []" by (auto simp: IssueToken_def requireTenant_def)
  from assms tenant obtain sa where sa: "users_GetByID env s said = Inr (Some sa)"
    and ok: "\<not> (us_TenantID sa \<noteq> ctx_tenant env \<or> \<not> us_IsService sa \<or> \<not> us_IsActive sa)"
    by (cases "users_GetByID env s said") (auto simp: IssueToken_def requireTenant_def split: option.splits if_splits)
  then have id: "us_ID sa = said" by (auto simp: users_GetByID_def read_stmt_def dest: user_row_ID split: option.splits)
  obtain secret where secret: "ix_NewSessionToken env = Inr secret"
    using assms tenant sa ok by (cases "ix_NewSessionToken env") (simp_all add: IssueToken_def requireTenant_def)
  let ?in = "\<lparr>tk_ID = [], tk_TokenHash = ix_HashToken env (TokenPrefix @ secret), tk_UserID = said, tk_TenantID = ctx_tenant env, tk_Label = label,
     tk_CreatedBy = requester_id env, tk_CreatedAt = 0, tk_ExpiresAt = ix_Now env + time24h (token_ttl ttl),
     tk_LastUsedAt = None, tk_RevokedAt = None\<rparr>"
  obtain s1 d where raw: "raw = TokenPrefix @ secret" and new: "tokens_Create env ?in s = Inr (t, s1)"
    and rec: "audit_tx env ''api_token.issued'' ''api_token'' (tk_ID t) d s1 = Inr ((), s')"
    using assms tenant sa ok secret id by (auto simp: IssueToken_def requireTenant_def andthen_Inr Let_def)
  from new have "id_Tokens s1 = id_Tokens s @ [t]" "tk_TokenHash t = ix_HashToken env raw" "tk_UserID t = said" "tk_TenantID t = ctx_tenant env"
    "tk_RevokedAt t = None" "tk_ExpiresAt t = truncate_micro (ix_Now env + time24h (token_ttl ttl))"
    unfolding tokens_Create_def in_tx_Inr by (auto simp: Let_def raw)
  with audit_tables [OF rec] raw show ?thesis by (simp add: same_tables_def)
qed

lemma find_append_new:
  "(\<And>x. x \<in> set xs \<Longrightarrow> \<not> P x) \<Longrightarrow> P y \<Longrightarrow> find P (xs @ y # zs) = Some y"
  by (induction xs) auto

text \<open>The row of the token is the one its secret finds, whatever ran in between.\<close>

lemma issued_row:
  assumes issued: "IssueToken env said label ttl s = Inr ((t, raw), s1)" and run: "identity_step\<^sup>*\<^sup>* s1 s2"
    and fresh: "\<And>v. v \<in> set (id_Tokens s) \<Longrightarrow> tk_TokenHash v \<noteq> ix_HashToken env raw"
  shows "same_token t (id_Tokens s2 ! length (id_Tokens s)) \<and>
     find (\<lambda>v. tk_TokenHash v = ix_HashToken env raw) (id_Tokens s2) = Some (id_Tokens s2 ! length (id_Tokens s))"
proof -
  let ?n = "length (id_Tokens s)"
  note t = IssueToken_Inr [OF issued]
  from run_credentials [OF run] have g: "grown same_token (id_Tokens s @ [t]) (id_Tokens s2)"
    using t by (simp add: credentials_kept_def)
  then have len: "?n < length (id_Tokens s2)" by (simp add: grown_def)
  have row: "same_token ((id_Tokens s @ [t]) ! k) (id_Tokens s2 ! k)" if "k \<le> ?n" for k
    using g that len by (auto simp: grown_def list_all2_conv_all_nth)
  have "find (\<lambda>v. tk_TokenHash v = ix_HashToken env raw) (take ?n (id_Tokens s2) @ id_Tokens s2 ! ?n # drop (Suc ?n) (id_Tokens s2)) =
      Some (id_Tokens s2 ! ?n)"
  proof (rule find_append_new)
    fix x assume "x \<in> set (take ?n (id_Tokens s2))"
    then obtain k where k: "k < ?n" "x = id_Tokens s2 ! k" by (auto simp: in_set_conv_nth)
    with row [of k] have "tk_TokenHash x = tk_TokenHash (id_Tokens s ! k)" by (simp add: nth_append same_token_def)
    with fresh [of "id_Tokens s ! k"] k show "tk_TokenHash x \<noteq> ix_HashToken env raw" by simp
  next
    show "tk_TokenHash (id_Tokens s2 ! ?n) = ix_HashToken env raw" using row [of ?n] t by (simp add: same_token_def)
  qed
  with row [of ?n] len show ?thesis by (simp add: id_take_nth_drop [symmetric])
qed

text \<open>A token that was issued, sent back in the Authorization header after any number of other
  requests, runs the request as its service account in its tenant exactly until it expires or is
  revoked, and while the account is active.\<close>

theorem issued_token_authenticates:
  assumes "IssueToken env said label ttl s = Inr ((t, raw), s1)" and "identity_step\<^sup>*\<^sup>* s1 s2"
    and "\<And>v. v \<in> set (id_Tokens s) \<Longrightarrow> tk_TokenHash v \<noteq> ix_HashToken env raw"
    and "ix_HashToken env2 raw = ix_HashToken env raw" and "TrimSpace raw = raw"
    and "ix_Fault env2 ''tokens.GetByTokenHash'' = None" and "ix_Fault env2 ''users.GetByID'' = None"
  shows "fst (RequireAuth env2 (''Bearer '' @ raw) cookie s2) =
      (if tk_RevokedAt (id_Tokens s2 ! length (id_Tokens s)) = None \<and>
          ix_Now env2 < truncate_micro (ix_Now env + time24h (token_ttl ttl)) \<and>
          (case user_row s2 said of None \<Rightarrow> False | Some v \<Rightarrow> us_IsActive v \<and> us_IsService v)
       then Inr (\<lparr>rq_Kind = RequesterUser, rq_ID = said, rq_CredentialID = tk_ID t, rq_CredentialKind = ''api_token'',
                  rq_ServiceAccount = True\<rparr>, ctx_tenant env)
       else token_invalid)"
proof -
  note t = IssueToken_Inr [OF assms(1)] and row = issued_row [OF assms(1-3)]
  have bearer: "bearerToken (''Bearer '' @ raw) = Some raw" using t assms(5) by (simp add: bearerToken_def)
  let ?r = "id_Tokens s2 ! length (id_Tokens s)"
  have same: "tk_ID ?r = tk_ID t" "tk_UserID ?r = said" "tk_TenantID ?r = ctx_tenant env"
    "tk_ExpiresAt ?r = truncate_micro (ix_Now env + time24h (token_ttl ttl))"
    using row t by (simp_all add: same_token_def)
  have auth: "fst (AuthenticateToken env2 raw s2) =
      (if token_IsValid ?r (ix_Now env2) then
         (case user_row s2 said of None \<Rightarrow> token_invalid
          | Some v \<Rightarrow> if us_IsActive v \<and> us_IsService v then Inr (?r, v) else token_invalid)
       else token_invalid)"
    using t row same assms(4,6,7)
    by (simp add: AuthenticateToken_def tokens_GetByTokenHash_def users_GetByID_def read_stmt_def split: option.split)
  have "fst (RequireAuth env2 (''Bearer '' @ raw) cookie s2) =
      (case fst (AuthenticateToken env2 raw s2) of Inl e \<Rightarrow> Inl e
       | Inr (v, u) \<Rightarrow> Inr (\<lparr>rq_Kind = RequesterUser, rq_ID = us_ID u, rq_CredentialID = tk_ID v, rq_CredentialKind = ''api_token'',
           rq_ServiceAccount = True\<rparr>, tk_TenantID v))"
    unfolding RequireAuth_def bearer by (auto simp: andthenS_def split: sum.split prod.split)
  also have "\<dots> = (if token_IsValid ?r (ix_Now env2) \<and> (case user_row s2 said of None \<Rightarrow> False | Some v \<Rightarrow> us_IsActive v \<and> us_IsService v)
       then Inr (\<lparr>rq_Kind = RequesterUser, rq_ID = said, rq_CredentialID = tk_ID t, rq_CredentialKind = ''api_token'',
                  rq_ServiceAccount = True\<rparr>, ctx_tenant env)
       else token_invalid)"
    unfolding auth using same user_row_ID [of s2 said] by (auto simp: token_invalid_def split: option.split)
  finally show ?thesis by (simp only: token_IsValid_def same conj_assoc)
qed

section \<open>A member disabled and enabled again\<close>

definition bob :: user where
  "bob = example_user\<lparr>us_ID := ''u2'', us_Email := ''bob@acme.example'', us_Name := ''Bob''\<rparr>"

definition bob_session :: session where
  "bob_session = \<lparr>ss_ID = ''s2'', ss_TokenHash = ''sha:cookie'', ss_UserID = ''u2'', ss_TenantID = ''t1'', ss_MFAPending = False,
     ss_MFAAttempts = 0, ss_CreatedAt = 0, ss_IdleExpiresAt = 3600000000000, ss_AbsoluteExpiresAt = 36000000000000, ss_RevokedAt = None,
     ss_IP = None, ss_UserAgent = None\<rparr>"

definition staff_ident :: ident where
  "staff_ident = example_ident\<lparr>id_Users := [example_user, bob], id_Sessions := [bob_session]\<rparr>"

text \<open>The use cases without a trail, so that the example computes.\<close>

definition staff_env :: ident_env where
  "staff_env = example_env\<lparr>ix_AuditWired := False\<rparr>"

definition bob_disabled :: "unit app \<times> ident" where
  "bob_disabled = tenant_request staff_env (DoUpdateMember ''u2'' ''Bob'' ''disabled'') staff_ident"

definition bob_enabled :: ident where
  "bob_enabled = snd (tenant_request staff_env (DoUpdateMember ''u2'' ''Bob'' ''active'') (snd bob_disabled))"

lemma bob_runs:
  "fst bob_disabled = Inr ()" "map us_Status (id_Users (snd bob_disabled)) = [''active'', ''disabled'']"
  "map us_Status (id_Users bob_enabled) = [''active'', ''active'']" "length (id_Sessions bob_enabled) = 1"
  "is_ok (fst (Authenticate example_env ''cookie'' staff_ident))"
  by code_simp+

theorem disable_ends_access_witness:
  "is_ok (fst (Authenticate example_env ''cookie'' staff_ident)) \<and> map us_Status (id_Users bob_enabled) = [''active'', ''active''] \<and>
   (\<nexists>x u. fst (Authenticate example_env ''cookie'' bob_enabled) = Inr (x, u) \<and> us_ID u = ''u2'')"
proof (intro conjI notI, goal_cases)
  case 3
  then obtain x u where "fst (Authenticate example_env ''cookie'' bob_enabled) = Inr (x, u)" "us_ID u = ''u2''"
    by blast
  moreover have off: "tenant_request staff_env (DoUpdateMember ''u2'' ''Bob'' ''disabled'') staff_ident = (Inr (), snd bob_disabled)"
    using bob_runs(1) by (simp add: bob_disabled_def prod_eq_iff)
  moreover have "identity_step (snd bob_disabled) bob_enabled"
    unfolding bob_enabled_def by (rule identity_step.request)
  then have "identity_step\<^sup>*\<^sup>* (snd bob_disabled) bob_enabled" by blast
  ultimately have "list_ex (\<lambda>y. ss_ID y = ss_ID x) (drop (length (id_Sessions (snd bob_disabled))) (id_Sessions bob_enabled))"
    using disable_ends_access by blast
  moreover have "length (id_Sessions (snd bob_disabled)) = 1" by code_simp
  ultimately show False using bob_runs(4) by simp
qed (simp_all only: bob_runs not_False_eq_True)

end
