(* ===== verification/IdentityAdmins.thy ===== *)
theory IdentityAdmins
  imports IdentityAccess
begin

text \<open>
  A tenant that has an active administrator for the whole tenant keeps one, over every kind of
  step.
\<close>

section \<open>A tenant keeps an administrator\<close>

text \<open>The primary key, and the password every active person has.\<close>

definition wf_users :: "ident \<Rightarrow> bool" where
  "wf_users s \<longleftrightarrow> distinct (map us_ID (id_Users s)) \<and>
     list_all (\<lambda>u. us_Kind u = ''human'' \<and> us_Status u = ''active'' \<longrightarrow> us_PasswordHash u \<noteq> None) (id_Users s)"

definition admin_kept :: "string \<Rightarrow> ident \<Rightarrow> ident \<Rightarrow> bool" where
  "admin_kept t s s' \<longleftrightarrow> (wf_users s \<longrightarrow> wf_users s') \<and> (wf_users s \<and> has_admin s t \<longrightarrow> has_admin s' t)"

interpretation ad: store_relation "admin_kept t" for t
  by unfold_locales (auto simp: admin_kept_def)

lemma has_admin_mono:
  assumes "\<And>u. u \<in> set (id_Users s) \<Longrightarrow> active_admin s t u \<Longrightarrow>
      \<exists>v\<in>set (id_Users s'). us_ID v = us_ID u \<and> us_TenantID v = us_TenantID u \<and> us_Kind v = us_Kind u \<and> us_Status v = us_Status u"
    and "\<And>g. g \<in> set (id_Grants s) \<Longrightarrow> ug_TenantID g = t \<Longrightarrow> g \<in> set (id_Grants s')"
    and "has_admin s t"
  shows "has_admin s' t"
proof -
  from assms(3) obtain u g where u: "u \<in> set (id_Users s)" "active_admin s t u" and g: "g \<in> set (id_Grants s)"
      "ug_UserID g = us_ID u" "ug_TenantID g = t" "ug_Role g = ''tenant_admin''" "IsTenantWide g"
    by (auto simp: has_admin_def active_admin_def list_ex_iff)
  from assms(1) [OF u] obtain v where v: "v \<in> set (id_Users s')" "us_ID v = us_ID u" "us_TenantID v = us_TenantID u"
    "us_Kind v = us_Kind u" "us_Status v = us_Status u" by blast
  with u(2) g assms(2) [OF g(1,3)] have "active_admin s' t v" by (auto simp: active_admin_def list_ex_iff)
  with v(1) show ?thesis by (auto simp: has_admin_def list_ex_iff)
qed

lemma standing_eq:
  "standing v = standing u \<longleftrightarrow> us_ID v = us_ID u \<and> us_TenantID v = us_TenantID u \<and> us_Kind v = us_Kind u \<and>
     us_Status v = us_Status u \<and> us_PasswordHash v = us_PasswordHash u"
  by (simp add: standing_def)

lemma acc_admin: "acc_calm s s' \<Longrightarrow> admin_kept t s s'"
proof -
  assume calm: "acc_calm s s'"
  then have len: "length (id_Users s') = length (id_Users s)" and grants: "id_Grants s' = id_Grants s"
    by (auto simp: acc_calm_def dest: map_eq_imp_length_eq)
  have row: "standing (id_Users s' ! i) = standing (id_Users s ! i)" if "i < length (id_Users s)" for i
  proof -
    have "map standing (id_Users s') ! i = map standing (id_Users s) ! i" using calm by (simp only: acc_calm_def)
    with that len show ?thesis by (simp only: nth_map)
  qed
  have "map us_ID (id_Users s') = map us_ID (id_Users s)"
    using row len by (intro nth_equalityI) (simp_all add: standing_eq)
  then have "wf_users s' = wf_users s"
    using row len by (simp add: wf_users_def list_all_length standing_eq)
  moreover have "has_admin s t \<Longrightarrow> has_admin s' t"
  proof (rule has_admin_mono)
    fix u assume "u \<in> set (id_Users s)"
    then obtain i where "i < length (id_Users s)" "u = id_Users s ! i" by (auto simp: in_set_conv_nth)
    with row [of i] len show "\<exists>v\<in>set (id_Users s'). us_ID v = us_ID u \<and> us_TenantID v = us_TenantID u \<and> us_Kind v = us_Kind u \<and> us_Status v = us_Status u"
      by (intro bexI [of _ "id_Users s' ! i"]) (simp_all add: standing_eq)
  qed (use grants in simp_all)
  ultimately show ?thesis by (simp add: admin_kept_def)
qed

lemma acc_admin_tx: "tx_rel acc_calm s r \<Longrightarrow> tx_rel (admin_kept t) s r"
  by (auto simp: tx_rel_def acc_admin)

lemma admin_grant_more: "admin_kept t s (s\<lparr>id_Grants := id_Grants s @ gs\<rparr>)"
  unfolding admin_kept_def
proof (intro conjI impI)
  show "wf_users (s\<lparr>id_Grants := id_Grants s @ gs\<rparr>)" if "wf_users s" using that by (simp add: wf_users_def)
  show "has_admin (s\<lparr>id_Grants := id_Grants s @ gs\<rparr>) t" if "wf_users s \<and> has_admin s t"
    by (rule has_admin_mono [of s]) (use that in auto)
qed

lemma admin_inserts [calm]:
  "tx_rel (admin_kept t) s (InsertGrant env uid r sc s)" "tx_rel (admin_kept t) s (grants_Insert env uid r sc s)"
  by (auto simp: InsertGrant_def grants_Insert_def admin_grant_more intro!: ad.tx_stmt ad.tx_err)

lemma admin_create [calm]:
  assumes "kind = ''service'' \<or> kind = ''human'' \<and> status = ''invited''"
  shows "tx_rel (admin_kept t) s (users_Create env (new_user tenant email name kind status) s)"
  unfolding tx_rel_def
proof (intro allI impI)
  fix u s' assume "users_Create env (new_user tenant email name kind status) s = Inr (u, s')"
  then have s': "s' = s\<lparr>id_Users := id_Users s @ [u]\<rparr>" and fresh: "\<forall>v\<in>set (id_Users s). us_ID v \<noteq> us_ID u"
    and u: "us_Kind u = kind" "us_Status u = ''active'' \<longrightarrow> kind = ''service''"
    using assms by (auto simp: users_Create_def new_user_def in_tx_Inr Let_def list_ex_iff split: if_splits)
  have "wf_users s \<Longrightarrow> wf_users s'"
    using fresh u assms by (auto simp: wf_users_def s')
  moreover have "has_admin s t \<Longrightarrow> has_admin s' t"
    by (rule has_admin_mono [of s]) (auto simp: s')
  ultimately show "admin_kept t s s'" by (simp add: admin_kept_def)
qed

lemmas ad_reads = ad.tx_read [where 'a = "user option"] ad.tx_read [where 'a = "session option"] ad.tx_read [where 'a = "member"]
  ad.tx_read [where 'a = "string"] ad.tx_read [where 'a = "unit"]
lemmas ad_rules = ad_reads ad.tx_seq ad.tx_err ad.tx_ret ad.R_refl

lemmas acc_admin_rules = acc_admin_tx [OF calm_issue(2)] acc_admin_tx [OF calm_deliver(2)] acc_admin_tx [OF calm_audit(2)]
  acc_admin_tx [OF calm_finish(2)] acc_admin_tx [OF acc_calm_statements(13)]

lemma admin_add_grant: "tx_rel (admin_kept t) s (AddGrant env mid gi s)"
  unfolding AddGrant_def by (auto intro!: ad_rules admin_inserts acc_admin_rules)

lemma admin_create_service: "tx_rel (admin_kept t) s (CreateServiceAccount env nm role scp s)"
  unfolding CreateServiceAccount_def by (auto intro!: ad_rules admin_inserts acc_admin_rules admin_create)

lemma admin_invite: "tx_rel (admin_kept t) s (Invite env inp s)"
  unfolding Invite_def by (auto intro!: ad_rules admin_inserts acc_admin_rules admin_create calm_email_taken)

text \<open>The changes that take away end with a count under the lock.\<close>

lemma finish_Inr:
  assumes "finishGrantChange env tenant m s = Inr (m', s')"
  shows "has_admin s tenant \<and> same_tables s s'"
proof -
  obtain e where "ensureTenantAdminRemains env s tenant = Inr ()"
    and a: "audit_tx env ''member.role_changed'' ''user'' (mb_ID m') (Changes (auditMemberValues m) (auditMemberValues m')) s = Inr ((), s')"
    using assms by (auto simp: finishGrantChange_def andthen_Inr)
  with ensure_admin audit_tables [OF a] show ?thesis by blast
qed

lemma grants_changed_admin:
  assumes "id_Users s1 = id_Users s" and "has_admin s1 tenant" and "same_tables s1 s'"
    and "\<And>g. g \<in> set (id_Grants s) \<Longrightarrow> ug_TenantID g \<noteq> tenant \<Longrightarrow> g \<in> set (id_Grants s1)"
  shows "admin_kept t s s'"
proof -
  have "has_admin s1 t" if "has_admin s t"
  proof (cases "t = tenant")
    case False
    with assms(1,4) show ?thesis by (intro has_admin_mono [OF _ _ that]) auto
  qed (use assms(2) in simp)
  with has_admin_same [OF assms(3)] assms(1,3) show ?thesis by (auto simp: admin_kept_def wf_users_def same_tables_def)
qed

lemma admin_set_role: "tx_rel (admin_kept t) s (SetRole env mid gi s)"
  unfolding tx_rel_def
proof (intro allI impI)
  fix m s' assume run: "SetRole env mid gi s = Inr (m, s')"
  then obtain m0 s2 gid s3 where s2: "DeleteGrantsForUser env (mb_ID m0) s = Inr ((), s2)"
    and s3: "InsertGrant env (mb_ID m0) (gi_Role gi) (gi_ScopeEntityID gi) s2 = Inr (gid, s3)"
    and f: "finishGrantChange env (ctx_tenant env) m0 s3 = Inr (m, s')"
    by (auto simp: SetRole_def andthen_Inr requireTenant_def LockAdminGuard_def in_tx_Inr split: if_splits)
  from s2 have 2: "s2 = s\<lparr>id_Grants := filter (\<lambda>g. \<not> (ug_TenantID g = ctx_tenant env \<and> ug_UserID g = mb_ID m0)) (id_Grants s)\<rparr>"
    by (simp add: DeleteGrantsForUser_def in_tx_Inr)
  from s3 obtain g where 3: "s3 = s2\<lparr>id_Grants := id_Grants s2 @ [g]\<rparr>" by (auto simp: InsertGrant_def in_tx_Inr split: if_splits)
  show "admin_kept t s s'"
    by (rule grants_changed_admin [of s3 s "ctx_tenant env"]) (use finish_Inr [OF f] 2 3 in auto)
qed

lemma admin_remove_grant: "tx_rel (admin_kept t) s (RemoveGrant env mid gid s)"
  unfolding tx_rel_def
proof (intro allI impI)
  fix x s' assume run: "RemoveGrant env mid gid s = Inr (x, s')"
  then obtain m0 m s2 where s2: "DeleteGrant env (mb_ID m0) gid s = Inr (True, s2)"
    and f: "finishGrantChange env (ctx_tenant env) m0 s2 = Inr (m, s')"
    by (auto simp: RemoveGrant_def andthen_Inr requireTenant_def LockAdminGuard_def in_tx_Inr split: if_splits)
  from s2 have "s2 = s\<lparr>id_Grants := filter (\<lambda>g. \<not> (ug_TenantID g = ctx_tenant env \<and> ug_UserID g = mb_ID m0 \<and> ug_ID g = gid)) (id_Grants s)\<rparr>"
    by (simp add: DeleteGrant_def in_tx_Inr)
  with finish_Inr [OF f] show "admin_kept t s s'"
    by (intro grants_changed_admin [of s2 s "ctx_tenant env"]) auto
qed

text \<open>A status that is not disabled: an active person has a password, so nobody is sent back to invited.\<close>

lemma update_status_Inr:
  assumes "update_status env s m status0 = Inr status" and "status0 \<noteq> ''disabled''"
  shows "status0 = ''active'' \<and> mb_Status m \<noteq> ''invited'' \<and>
    (status = ''active'' \<and> (mb_Kind m = ''service'' \<or> mb_HasPassword m) \<or> status = ''invited'' \<and> mb_Kind m \<noteq> ''service'' \<and> \<not> mb_HasPassword m)"
  using assms by (auto simp: update_status_def mb_IsInvited_def mb_IsService_def split: if_splits)

definition renamed :: "ident_env \<Rightarrow> string \<Rightarrow> string \<Rightarrow> string \<Rightarrow> ident \<Rightarrow> ident" where
  "renamed env mid name status s =
     s\<lparr>id_Users := map (\<lambda>u. if us_ID u = mid \<and> us_TenantID u = ctx_tenant env
        then u\<lparr>us_Name := name, us_Status := status, us_UpdatedAt := ix_DbNow env\<rparr> else u) (id_Users s)\<rparr>"

lemma unique_row:
  assumes "wf_users s" and "find (\<lambda>u. us_ID u = mid \<and> us_TenantID u = tenant) (id_Users s) = Some u"
    and "v \<in> set (id_Users s)" and "us_ID v = mid"
  shows "v = u"
proof -
  from assms(2) have "u \<in> set (id_Users s)" "us_ID u = mid" by (auto simp: find_Some_iff)
  with assms(1,3,4) show ?thesis by (auto simp: wf_users_def distinct_map dest: inj_onD)
qed

lemma renamed_wf:
  assumes wf: "wf_users s" and row: "find (\<lambda>u. us_ID u = mid \<and> us_TenantID u = ctx_tenant env) (id_Users s) = Some u"
    and st: "status = ''active'' \<longrightarrow> us_Kind u = ''service'' \<or> us_PasswordHash u \<noteq> None"
  shows "wf_users (renamed env mid name status s)"
proof -
  have ids: "map us_ID (id_Users (renamed env mid name status s)) = map us_ID (id_Users s)" by (simp add: renamed_def)
  have "us_PasswordHash v \<noteq> None" if v: "v \<in> set (id_Users (renamed env mid name status s))" "us_Kind v = ''human''" "us_Status v = ''active''" for v
  proof -
    from v(1) obtain w where w: "w \<in> set (id_Users s)"
      and vw: "v = (if us_ID w = mid \<and> us_TenantID w = ctx_tenant env then w\<lparr>us_Name := name, us_Status := status, us_UpdatedAt := ix_DbNow env\<rparr> else w)"
      by (auto simp: renamed_def)
    show ?thesis
    proof (cases "us_ID w = mid \<and> us_TenantID w = ctx_tenant env")
      case True
      with unique_row [OF wf row w] vw v(2,3) st show ?thesis by auto
    next
      case False
      with wf w vw v(2,3) show ?thesis by (auto simp: wf_users_def list_all_iff)
    qed
  qed
  with wf ids show ?thesis by (auto simp: wf_users_def list_all_iff)
qed

lemma admin_update_member: "tx_rel (admin_kept t) s (UpdateMember env mid name status0 s)"
  unfolding tx_rel_def
proof (intro allI impI)
  fix m s' assume run: "UpdateMember env mid name status0 s = Inr (m, s')"
  show "admin_kept t s s'"
  proof (cases "status0 = ''disabled''")
    case True
    with disable_Inr [of env mid name s m s'] run have users: "id_Users s' = id_Users (renamed env mid name ''disabled'' s)"
      and grants: "id_Grants s' = id_Grants s" and adm: "has_admin s' (ctx_tenant env)" by (simp_all add: renamed_def)
    from run obtain m0 where "mustMember env s (ctx_tenant env) mid = Inr m0"
      by (auto simp: UpdateMember_def andthen_Inr requireTenant_def split: if_splits)
    with mustMember_Inr obtain u where "find (\<lambda>u. us_ID u = mid \<and> us_TenantID u = ctx_tenant env) (id_Users s) = Some u" by blast
    then have "wf_users s'" if "wf_users s" using renamed_wf [OF that, of mid env u "''disabled''" name] users by (simp add: wf_users_def)
    moreover have "has_admin s' t" if "has_admin s t"
    proof (cases "t = ctx_tenant env")
      case False
      show ?thesis
        by (rule has_admin_mono [OF _ _ that]) (use users grants False in \<open>force simp: renamed_def active_admin_def\<close>)+
    qed (use adm in simp)
    ultimately show ?thesis by (simp add: admin_kept_def)
  next
    case False
    from run False obtain m0 status ok s1 s3 where m0: "mustMember env s (ctx_tenant env) mid = Inr m0"
      and st: "update_status env s m0 status0 = Inr status"
      and s1: "UpdateNameStatus env (ctx_tenant env) (mb_ID m0) name status s = Inr (ok, s1)"
      and s3: "audit_tx env ''member.updated'' ''user'' (mb_ID m0) (Changes (auditMemberValues m0) (auditMemberValues m)) s1 = Inr ((), s')"
      by (auto simp: UpdateMember_def andthen_Inr requireTenant_def recordCredentialRevocation_def update_status_def split: if_splits)
    from mustMember_Inr [OF m0] obtain u where id: "mb_ID m0 = mid"
      and row: "find (\<lambda>u. us_ID u = mid \<and> us_TenantID u = ctx_tenant env) (id_Users s) = Some u"
      and u: "mb_Kind m0 = us_Kind u" "mb_Status m0 = us_Status u" "mb_HasPassword m0 = (us_PasswordHash u \<noteq> None)" by auto
    from s1 id have s1': "s1 = renamed env mid name status s" by (simp add: UpdateNameStatus_def in_tx_Inr renamed_def)
    note cases = update_status_Inr [OF st False, unfolded u]
    have "admin_kept t s s1"
      unfolding admin_kept_def
    proof (intro conjI impI)
      show "wf_users s1" if "wf_users s" unfolding s1' by (rule renamed_wf [OF that row]) (use cases in auto)
      assume wf: "wf_users s \<and> has_admin s t"
      show "has_admin s1 t"
      proof (rule has_admin_mono [OF _ _ wf [THEN conjunct2]])
        fix v assume v: "v \<in> set (id_Users s)" "active_admin s t v"
        have "status = ''active''" if "us_ID v = mid"
        proof -
          from unique_row [OF wf [THEN conjunct1] row v(1) that] v wf
          have "us_PasswordHash u \<noteq> None" by (auto simp: active_admin_def wf_users_def list_all_iff)
          with cases show ?thesis by simp
        qed
        with v show "\<exists>w\<in>set (id_Users s1). us_ID w = us_ID v \<and> us_TenantID w = us_TenantID v \<and> us_Kind w = us_Kind v \<and> us_Status w = us_Status v"
          by (intro bexI [of _ "if us_ID v = mid \<and> us_TenantID v = ctx_tenant env
                then v\<lparr>us_Name := name, us_Status := status, us_UpdatedAt := ix_DbNow env\<rparr> else v"])
            (auto simp: active_admin_def s1' renamed_def)
      qed (simp add: s1' renamed_def)
    qed
    moreover from audit_tables [OF s3] have "admin_kept t s1 s'"
      by (intro acc_admin) (simp add: same_tables_def acc_calm_def)
    ultimately show ?thesis by (rule ad.R_trans)
  qed
qed

lemma admin_activate: "tx_rel (admin_kept t) s (Activate env uid hash name s)"
  unfolding Activate_def
proof (rule ad.tx_stmt, unfold snd_conv)
  let ?f = "\<lambda>u. if activatable uid u
     then u\<lparr>us_PasswordHash := Some hash, us_Status := ''active'', us_Name := (case name of None \<Rightarrow> us_Name u | Some n \<Rightarrow> n),
            us_FailedLoginAttempts := 0, us_LockedUntil := None, us_UpdatedAt := ix_DbNow env\<rparr> else u"
  let ?s = "s\<lparr>id_Users := map ?f (id_Users s)\<rparr>"
  have ids: "map us_ID (id_Users ?s) = map us_ID (id_Users s)" by (simp add: activatable_def)
  have "wf_users ?s" if "wf_users s"
    using that unfolding wf_users_def ids by (auto simp: list_all_length)
  moreover have "has_admin ?s t" if "has_admin s t"
  proof (rule has_admin_mono [OF _ _ that])
    fix u assume u: "u \<in> set (id_Users s)" "active_admin s t u"
    then have "\<not> activatable uid u" by (simp add: active_admin_def activatable_def)
    with u show "\<exists>v\<in>set (id_Users ?s). us_ID v = us_ID u \<and> us_TenantID v = us_TenantID u \<and> us_Kind v = us_Kind u \<and> us_Status v = us_Status u"
      by (intro bexI [of _ "?f u"]) auto
  qed simp
  ultimately show "admin_kept t s ?s" by (simp add: admin_kept_def)
qed

lemma admin_accept: "admin_kept t s (snd (accept_commit env input i u s))"
proof -
  have tx: "admin_kept t s (snd (withinTx env (accept_tx env i u hash name) s))" for hash name
    by (rule ad.whole_tx)
      (auto simp: accept_tx_def invite_invalid_def intro!: ad_rules admin_activate acc_admin_tx [OF calm_audit(2)]
        acc_admin_tx [OF acc_calm_statements(11)] acc_admin_tx [OF acc_calm_statements(12)])
  have noted: "admin_kept t s s1 \<Longrightarrow> admin_kept t s (note_event env e s1)" for s1 e
    using ad.R_trans acc_admin [OF calm_note(2)] by blast
  show ?thesis
    using tx by (auto simp: accept_commit_def noteInviteRejected_def Let_def ad.R_refl intro!: noted split: sum.split prod.split) (metis snd_conv)+
qed

lemma admin_request: "admin_kept t s (snd (tenant_request env p s))"
proof -
  have "tx_rel R s (answered r) = tx_rel R s r" for R and r :: "('a \<times> ident) app" and s
    by (cases r) (auto simp: answered_def tx_rel_def)
  note this [simp]
  have "tx_rel (admin_kept t) s (tenant_run env p s)" for s
    by (cases p) (simp_all add: acc_admin_tx calm_tenant_sessions calm_tenant_tokens admin_invite admin_update_member admin_set_role
        admin_add_grant admin_remove_grant admin_create_service)
  then show ?thesis unfolding tenant_request_def by (rule ad.whole_tx)
qed

lemma admin_step: "identity_step s s' \<Longrightarrow> admin_kept t s s'"
proof (induction rule: identity_step.induct)
  case (sign_in env s p)
  then show ?case using login_step_store [of s env p] acc_admin by (auto simp: signs_in_def)
next
  case (second_factor s env q)
  then show ?case by (intro acc_admin calm_mfa_step)
next
  case (request s env r)
  then show ?case by (rule admin_request)
next
  case (redemption s env input i u)
  then show ?case by (rule admin_accept)
qed (intro acc_admin calm_authenticate invitation_calm)+

text \<open>A tenant that has an active human administrator for the whole tenant has one after any
  sequence of requests, of its own or of other tenants, whatever fails and whoever asks; the key of users stays
  unique and every active person keeps a password.\<close>

theorem tenant_keeps_admin:
  assumes "identity_step\<^sup>*\<^sup>* s s'" and "wf_users s" and "has_admin s tenant"
  shows "has_admin s' tenant \<and> wf_users s'"
  using assms
proof (induction rule: rtranclp_induct)
  case (step y z)
  then show ?case using admin_step [OF step.hyps(2), of tenant] by (simp add: admin_kept_def)
qed simp

end
