(* ===== verification/Spec2Isabelle.thy ===== *)
theory Spec2Isabelle
  imports DeadlineProps TaskLife WorkflowStart Plans Entities Delivery ImportExamples ClientAddr Scheduler WormProps IdentityAdmins
begin

text \<open>
  A verification library for the core of the tax-compliance API (\<^verbatim>\<open>src/\<close>, written in Go).

  \<^bold>\<open>The program.\<close> Legal entities form a tree and own tax obligations; a workflow of one entity and
  fiscal year is planned into task instances whose deadlines follow the entity's fiscal
  calendar; an instance carries tax data under a template and is submitted, approved or rejected
  by different people; every change leaves an entry on the tenant's hash-chained audit trail.
  People sign in with a password and a second factor, machines with tokens; administrators invite
  members and grant them roles.
  Requests are authorized by role, grant and subtree; files import entities in a dry run and a
  commit; mails leave through a transactional outbox; scheduled jobs run in the one process that
  holds a database lease; and the HTTP edge sheds load by address, by principal and by a gate.

  \<^bold>\<open>Theories and sources.\<close> Every definition keeps the name of the Go function it models where
  Isabelle allows it.
  \<^item> \<^verbatim>\<open>Prelude\<close>: Go strings as lists of bytes, errors as values, decimal conversions, lists.
    \<^verbatim>\<open>GoText\<close>: trimming, UTF-8 validity, what Postgres accepts as text, formatting.
  \<^item> \<^verbatim>\<open>CivilTime\<close>: \<^verbatim>\<open>shared/dateonly/date.go\<close> on day numbers. \<^verbatim>\<open>Deadline\<close>, \<^verbatim>\<open>DeadlineFacts\<close>,
    \<^verbatim>\<open>DeadlineTiling\<close>, \<^verbatim>\<open>DeadlineProps\<close>: \<^verbatim>\<open>shared/deadline/deadline.go\<close>, the calendars of every
    pattern, offsets and weekend adjustment; the periods of a year partition it.
  \<^item> \<^verbatim>\<open>AppErrors\<close>: \<^verbatim>\<open>errors/\<close> and \<^verbatim>\<open>delivery/httpkit/httperr\<close>.
  \<^item> \<^verbatim>\<open>Workflows\<close>, \<^verbatim>\<open>Generator\<close>, \<^verbatim>\<open>WorkflowStart\<close>, \<^verbatim>\<open>Plans\<close>: \<^verbatim>\<open>modules/workflows\<close>,
    \<^verbatim>\<open>modules/workflowtasks\<close> and \<^verbatim>\<open>modules/taskinstances/usecases/generator.go\<close>: plan, preview and
    start of a workflow.
  \<^item> \<^verbatim>\<open>Json\<close>, \<^verbatim>\<open>TaxData\<close>: \<^verbatim>\<open>modules/taskinstances/domain/taxdata.go\<close> and the templates of
    \<^verbatim>\<open>modules/datatemplates/domain\<close>. \<^verbatim>\<open>TaskInstances\<close>, \<^verbatim>\<open>TaskLife\<close>: the life cycle of an instance,
    \<^verbatim>\<open>modules/taskinstances/usecases\<close>, with its table; each use case is the read its checks are made on and
    the write that follows, and the last section shows what happens when two of them overlap.
  \<^item> \<^verbatim>\<open>AuditTrail\<close>: \<^verbatim>\<open>platform/audit\<close>, the change envelope, the hash chain and its verifier.
    \<^verbatim>\<open>WormSegment\<close>, \<^verbatim>\<open>WormFacts\<close>: \<^verbatim>\<open>platform/audit/worm/segment.go\<close>, the segments the chain is exported in
    and the checks of a document, a file and a series. \<^verbatim>\<open>WormExport\<close>: \<^verbatim>\<open>export.go\<close> and \<^verbatim>\<open>store.go\<close>, the ledger,
    the cut, the upload and a pass. \<^verbatim>\<open>WormArchive\<close>: the invariant of an archive under every fate of a step.
    \<^verbatim>\<open>WormSeries\<close>, \<^verbatim>\<open>WormCatchUp\<close>, \<^verbatim>\<open>WormProps\<close>: that its files verify, that a pass catches up, and that the last
    digest pins them.
  \<^item> \<^verbatim>\<open>Authz\<close>: \<^verbatim>\<open>platform/authz\<close>, policy, capability gate, write scope and read scope over the
    entity tree. \<^verbatim>\<open>Entities\<close>: \<^verbatim>\<open>modules/entities\<close>, use cases and table.
  \<^item> \<^verbatim>\<open>ImportText\<close>, \<^verbatim>\<open>ImportFields\<close>, \<^verbatim>\<open>ImportPlan\<close>, \<^verbatim>\<open>ImportCommit\<close>, \<^verbatim>\<open>ImportStore\<close>: \<^verbatim>\<open>modules/imports\<close>,
    the dry run, the commit and the tables of an import of entities. \<^verbatim>\<open>ImportOrder\<close>: the cycle check
    and the order of writing. \<^verbatim>\<open>ImportRows\<close>, \<^verbatim>\<open>ImportEffect\<close>, \<^verbatim>\<open>ImportProps\<close>, \<^verbatim>\<open>ImportDryRun\<close>,
    \<^verbatim>\<open>ImportAgain\<close>, \<^verbatim>\<open>ImportExamples\<close>: what a plan contains, what a commit writes, that a second import
    of the file changes nothing, and concrete runs.
  \<^item> \<^verbatim>\<open>SecurityEvents\<close>: \<^verbatim>\<open>platform/securityevent\<close>, the stream of authentication events. \<^verbatim>\<open>Accounts\<close>:
    \<^verbatim>\<open>modules/identity/domain\<close> and \<^verbatim>\<open>repositories/pg\<close>, the rows of users, sessions, API tokens,
    invitations and grants and every statement on them. \<^verbatim>\<open>SignIn\<close>, \<^verbatim>\<open>SecondFactor\<close>, \<^verbatim>\<open>Members\<close>:
    \<^verbatim>\<open>modules/identity/usecases\<close> (login, session, logout and mfa; member, service account and token)
    and \<^verbatim>\<open>middlewares/session.go\<close>. Sign-ins and second factors also run stage by stage against each
    other, with the budgets of attempts as ledgers. \<^verbatim>\<open>Credentials\<close>, \<^verbatim>\<open>IdentityWorld\<close>, \<^verbatim>\<open>IdentityAccess\<close>,
    \<^verbatim>\<open>IdentityAdmins\<close>: all writes of the component as one step relation, with the transaction of
    \<^verbatim>\<open>middlewares/tx.go\<close> around a tenant's request: every session has the record of the sign-in that minted it, a
    disabled member's credentials stay dead, an invitation is redeemed once, an issued token works until it
    ends, and a tenant keeps an administrator.
  \<^item> \<^verbatim>\<open>Outbox\<close>, \<^verbatim>\<open>Delivery\<close>: \<^verbatim>\<open>platform/outbox\<close>, queue, seal, store and one delivery pass.
  \<^item> \<^verbatim>\<open>Ratelimit\<close>, \<^verbatim>\<open>ClientAddr\<close>: \<^verbatim>\<open>delivery/httpkit/middlewares/ratelimit\<close>, \<^verbatim>\<open>config/ratelimit.go\<close> and
    \<^verbatim>\<open>delivery/httpkit/clientaddr\<close>.
  \<^item> \<^verbatim>\<open>Lease\<close>, \<^verbatim>\<open>Scheduler\<close>: \<^verbatim>\<open>platform/scheduler\<close>, the advisory lease of a deployment of any number of
    processes and the loop that runs the jobs.

  \<^bold>\<open>State.\<close> A table is a list of rows or a map in a record, a statement a function on it with its
  constraints as an explicit check; a use case takes the store and the request and returns the
  store or an error. A transaction that fails returns no store, which is its rollback.
  Concurrency is explicit where the code relies on it: the gate and the lease are machines over
  the moves of many callers or processes, in any order; sign-ins, second factors and redemptions are stages that
  interleave; the requests of the rate limiter reach its store in any order within a lag.
  The database runs READ COMMITTED, and most use cases take no row lock. The four state changes of a task instance are
  therefore a read and a write that other requests may come between (\<open>ti_step\<close>); what is claimed
  of them (\<open>four_eyes\<close>, \<open>approved_frozen\<close>) is claimed for histories in which no request writes an instance between
  another's read and write of that same instance, and \<open>overlap_breaks_approval\<close> shows that the claims need
  the condition and that nothing enforces it. The other use cases on entities, workflows and imports are one step each: what
  is proved of them holds for requests that do not overlap on the rows they read. Two starts of one
  workflow that overlap may both count no instance and both insert (\<open>start_happens_once\<close> is a statement about
  one after the other), and a commit of an import relies on its version guards, which are modelled, only for the rows
  it updates. A step \<open>elsewhere\<close> of the sign-in and second-factor worlds stands for all other requests and allows more than
  they do; it is used for statements about all runs only.

  \<^bold>\<open>Interfaces.\<close> Where one part relies on another the contract is a locale, and every locale is
  interpreted on the model's own definitions: the tree queries of the authorizer
  (\<open>pg_tree\<close>), the store of the delivery loop (\<open>pg_store\<close>), the ports of the workflow generator
  (\<open>pg\<close>), the repository of an import (\<open>pg_import\<close>), the lease of the scheduler (\<open>advisory\<close>), the budget of
  attempts behind a password and behind a code (\<open>lb\<close>, \<open>mb\<close>).

  \<^bold>\<open>What is assumed.\<close> Code outside the repository is an argument: the hash and the cipher as functions (a
  theorem that needs it says the hash has no collisions), the mail transport and the jobs as functions
  from instants to answers, Unicode case folding as a function of texts, the network of a lease as an
  argument of each call, reading a stored segment back as a function that inverts the writer on the
  texts at hand, and what the database and the object store do to an export step as an argument of the
  step, password hashing, random tokens and one-time codes as functions of the identity model, and
  the failure of any of its statements or commits, also one that took place all the same, as data. Instants are integers in nanoseconds, and computation between two calls takes
  no time. Details of an audit entry are JSON values, not their text: decoding and re-encoding them when a
  segment is written or read (\<open>FromAuditEntry\<close>) is the identity, and a file handed to \<open>VerifyFile\<close> is the pair of the
  segment's bytes and the digest it states, the JSON object around them being decoded already. The payload of a
  stored import row is read back as it was written. An insert of a task instance may be refused by
  the table for reasons outside the model (the width of the period code, a foreign key): which rows it
  refuses is an argument (\<open>ge_Refused\<close>); the insert and update of an entity check the parent and, for imports, what
  \<open>ImportStore\<close> lists, and leave out the other column limits. Floating point goes through a rounding function with a bound on its relative error. The
  order in which Go iterates over a map is an argument where it can be seen.

  \<^bold>\<open>Recursion and fuel.\<close> Loops are structural or come with a termination proof. The recursive
  ancestor query of Postgres, which need not return on a cyclic tree, is partial, and the library
  proves when it returns. The loop of \<^verbatim>\<open>Scheduler\<close> runs on fuel: its safety is proved for every amount,
  and \<open>run_returns\<close> says how much is enough.

  \<^bold>\<open>Not modelled.\<close> HTTP routing, handlers, DTOs and the generated API description; listing, paging and
  filter queries; the parsers of workbooks and of delimited files, and with them the reading half of an
  import (a read outcome is an input of the dry run); imports of obligations; mail templates and transports; object storage;
  logging, metrics and process start-up; the settings of a tenant, the reader and the retention of security events; documents,
  reports and reminders; demonstration data. Each is a component of the
  manifest with its reason.
\<close>

end
